(* ===== verification/Crm_Prelude.thy ===== *)
theory Crm_Prelude
  imports Complex_Main
begin

text \<open>
  The vocabulary every component shares: identifiers and instants, the JavaScript values the
  code reads from the outside world (an \<open>unknown\<close> thrown value, a header parsed with
  \<open>Number(...)\<close>), the SQL statements the code issues against one table (\<open>UPDATE ... WHERE\<close>,
  \<open>DELETE ... WHERE\<close>, the reported row count), and the fact collections the component
  theories extend.
\<close>

section \<open>Fact collections\<close>

named_theorems table_simps \<open>rewriting of the table statements\<close>
named_theorems ledger_frame \<open>what a ledger operation leaves unchanged\<close>
named_theorems ledger_inv \<open>preservation of the ledger's well-formedness\<close>

section \<open>Identifiers and instants\<close>

text \<open>UUIDs are opaque strings in the code; an instant is a count of milliseconds, as
  \<open>Date.prototype.getTime\<close> reads it.\<close>

type_synonym uuid = string
type_synonym instant = int

definition second_ms :: int where "second_ms = 1000"
definition minute_ms :: int where "minute_ms = 60000"
definition hour_ms :: int where "hour_ms = 3600000"
definition day_ms :: int where "day_ms = 86400000"

section \<open>JavaScript values\<close>

text \<open>The code's \<open>unknown\<close>. \<open>JError\<close> is an \<open>Error\<close> instance with its own properties (\<open>message\<close>,
  \<open>stack\<close>, \<open>code\<close>, \<open>cause\<close>). Numbers are exact rationals (double rounding is not modelled) with
  the three non-finite values kept apart, because the code tests for them.\<close>

datatype jsnum = NaN | Infinity | NegInfinity | Fin rat

datatype js =
    JUndefined
  | JNull
  | JBool bool
  | JNum jsnum
  | JStr string
  | JArr "js list"
  | JObj "(string \<times> js) list"
  | JError "(string \<times> js) list"

text \<open>\<open>typeof v = 'object' and v is not null\<close>: arrays are objects as well.\<close>

fun js_is_object :: "js \<Rightarrow> bool" where
  "js_is_object (JArr _) = True"
| "js_is_object (JObj _) = True"
| "js_is_object (JError _) = True"
| "js_is_object _ = False"

text \<open>Property read on an object value; an absent property is \<open>undefined\<close>. The properties an
  array carries itself (\<open>length\<close>, the indices) are never read this way by the code.\<close>

fun js_get :: "js \<Rightarrow> string \<Rightarrow> js" where
  "js_get (JObj fs) k = (case map_of fs k of None \<Rightarrow> JUndefined | Some v \<Rightarrow> v)"
| "js_get (JError fs) k = (case map_of fs k of None \<Rightarrow> JUndefined | Some v \<Rightarrow> v)"
| "js_get _ k = JUndefined"

text \<open>A \<open>string | null | undefined\<close> in a condition: the empty string is falsy.\<close>

definition truthy :: "string option \<Rightarrow> bool" where
  "truthy s = (case s of None \<Rightarrow> False | Some t \<Rightarrow> t \<noteq> [])"

lemma truthy_simps [simp]:
  "\<not> truthy None" "truthy (Some t) = (t \<noteq> [])"
  by (simp_all add: truthy_def)

text \<open>The nullish-coalescing operator \<open>a ?? b\<close>, and SQL's \<open>COALESCE\<close> of nullable values.\<close>

definition nullish :: "'a option \<Rightarrow> 'a \<Rightarrow> 'a" where
  "nullish a b = (case a of None \<Rightarrow> b | Some x \<Rightarrow> x)"

definition coalesce :: "'a option \<Rightarrow> 'a option \<Rightarrow> 'a option" where
  "coalesce a b = (case a of None \<Rightarrow> b | Some x \<Rightarrow> Some x)"

lemma nullish_simps [simp]: "nullish None b = b" "nullish (Some x) b = x"
  by (simp_all add: nullish_def)

lemma coalesce_simps [simp]: "coalesce None b = b" "coalesce (Some x) b = Some x"
  by (simp_all add: coalesce_def)

lemma coalesce_None_right [simp]: "coalesce a None = a"
  by (cases a) simp_all

lemma coalesce_eq_None [simp]: "(coalesce a b = None) = (a = None \<and> b = None)"
  by (cases a) simp_all

section \<open>Splitting a text: \<open>s.split(separator)\<close>\<close>

fun split_on :: "char \<Rightarrow> string \<Rightarrow> string list" where
  "split_on x [] = [[]]"
| "split_on x (c # s) =
     (if c = x then [] # split_on x s
      else (case split_on x s of [] \<Rightarrow> [[c]] | t # ts \<Rightarrow> (c # t) # ts))"

lemma split_on_plain: "x \<notin> set s \<Longrightarrow> split_on x s = [s]"
  by (induction s) auto

lemma split_on_some [simp]: "split_on x s \<noteq> []"
  by (cases s) (auto split: list.splits)

lemma split_on_append: "split_on x (s @ x # t) = split_on x s @ split_on x t"
  by (induction s) (auto split: list.splits simp: neq_Nil_conv)

section \<open>Reading a number from text: \<open>Number(s)\<close>\<close>

definition is_digit :: "char \<Rightarrow> bool" where
  "is_digit c = (48 \<le> (of_char c :: nat) \<and> (of_char c :: nat) \<le> 57)"

definition is_space :: "char \<Rightarrow> bool" where
  "is_space c = ((of_char c :: nat) \<in> {9, 10, 11, 12, 13, 32})"

definition js_trim :: "string \<Rightarrow> string" where
  "js_trim s = rev (dropWhile is_space (rev (dropWhile is_space s)))"

definition digit_val :: "char \<Rightarrow> nat" where
  "digit_val c =
     (let n = (of_char c :: nat)
      in if 48 \<le> n \<and> n \<le> 57 then n - 48
         else if 97 \<le> n \<and> n \<le> 122 then n - 87
         else if 65 \<le> n \<and> n \<le> 90 then n - 55
         else 99)"

definition digits_val :: "nat \<Rightarrow> string \<Rightarrow> nat" where
  "digits_val base s = foldl (\<lambda>acc c. acc * base + digit_val c) 0 s"

text \<open>A non-decimal literal: a non-empty run of digits of the base, to the end.\<close>

definition parse_radix :: "nat \<Rightarrow> string \<Rightarrow> jsnum" where
  "parse_radix base s =
     (if s \<noteq> [] \<and> list_all (\<lambda>c. digit_val c < base) s
      then Fin (of_nat (digits_val base s)) else NaN)"

text \<open>The exponent part of a decimal literal: \<open>None\<close> where it is malformed.\<close>

definition parse_exponent :: "string \<Rightarrow> int option" where
  "parse_exponent s =
     (case s of
        [] \<Rightarrow> Some 0
      | e # r \<Rightarrow>
          (if e = CHR ''e'' \<or> e = CHR ''E''
           then (let (neg, ds) = (case r of
                      c # r' \<Rightarrow> (if c = CHR ''-'' then (True, r')
                                else if c = CHR ''+'' then (False, r') else (False, r))
                    | [] \<Rightarrow> (False, []))
                 in if ds \<noteq> [] \<and> list_all is_digit ds
                    then Some ((if neg then -1 else 1) * int (digits_val 10 ds)) else None)
           else None))"

definition parse_decimal :: "string \<Rightarrow> jsnum" where
  "parse_decimal s =
     (let ip = takeWhile is_digit s; r = dropWhile is_digit s;
          (fp, r2) = (case r of
              c # r' \<Rightarrow> (if c = CHR ''.'' then (takeWhile is_digit r', dropWhile is_digit r')
                        else ([], r))
            | [] \<Rightarrow> ([], []))
      in if ip = [] \<and> fp = [] then NaN
         else (case parse_exponent r2 of
             None \<Rightarrow> NaN
           | Some e \<Rightarrow>
               (let m = of_nat (digits_val 10 (ip @ fp)) / 10 ^ length fp
                in Fin (if 0 \<le> e then m * 10 ^ nat e else m / 10 ^ nat (- e)))))"

fun jsnum_neg :: "jsnum \<Rightarrow> jsnum" where
  "jsnum_neg NaN = NaN"
| "jsnum_neg Infinity = NegInfinity"
| "jsnum_neg NegInfinity = Infinity"
| "jsnum_neg (Fin q) = Fin (- q)"

definition parse_unsigned :: "string \<Rightarrow> jsnum" where
  "parse_unsigned s = (if s = ''Infinity'' then Infinity else parse_decimal s)"

text \<open>\<open>Number(s)\<close> of a string: white space trimmed, the empty string 0, radix prefixes without a
  sign, decimal literals with one.\<close>

definition js_number :: "string \<Rightarrow> jsnum" where
  "js_number s =
     (case js_trim s of
        [] \<Rightarrow> Fin 0
      | c # r \<Rightarrow>
          (if c = CHR ''-'' then jsnum_neg (parse_unsigned r)
           else if c = CHR ''+'' then parse_unsigned r
           else if c = CHR ''0'' then
             (case r of
                x # r' \<Rightarrow>
                  (if x = CHR ''x'' \<or> x = CHR ''X'' then parse_radix 16 r'
                   else if x = CHR ''o'' \<or> x = CHR ''O'' then parse_radix 8 r'
                   else if x = CHR ''b'' \<or> x = CHR ''B'' then parse_radix 2 r'
                   else parse_unsigned (c # r))
              | [] \<Rightarrow> Fin 0)
           else parse_unsigned (c # r)))"

fun jsnum_nonneg :: "jsnum \<Rightarrow> bool" where
  "jsnum_nonneg NaN = False"
| "jsnum_nonneg Infinity = True"
| "jsnum_nonneg NegInfinity = False"
| "jsnum_nonneg (Fin q) = (0 \<le> q)"

text \<open>\<open>Number.isInteger\<close>: finite and integral.\<close>

fun jsnum_int :: "jsnum \<Rightarrow> int option" where
  "jsnum_int (Fin q) = (if of_int \<lfloor>q\<rfloor> = q then Some \<lfloor>q\<rfloor> else None)"
| "jsnum_int _ = None"

lemma jsnum_int_SomeD: "jsnum_int v = Some i \<Longrightarrow> v = Fin (of_int i)"
  by (cases v) (auto split: if_splits)

section \<open>One table: the statements the code issues\<close>

text \<open>A table is the list of its rows in insertion order.\<close>

definition update_where :: "('r \<Rightarrow> bool) \<Rightarrow> ('r \<Rightarrow> 'r) \<Rightarrow> 'r list \<Rightarrow> 'r list" where
  "update_where p f t = map (\<lambda>r. if p r then f r else r) t"

definition delete_where :: "('r \<Rightarrow> bool) \<Rightarrow> 'r list \<Rightarrow> 'r list" where
  "delete_where p t = filter (\<lambda>r. \<not> p r) t"

text \<open>\<open>rowCount\<close> of an \<open>UPDATE\<close>, and \<open>count(*)\<close> of a \<open>SELECT\<close>.\<close>

definition row_count :: "('r \<Rightarrow> bool) \<Rightarrow> 'r list \<Rightarrow> nat" where
  "row_count p t = length (filter p t)"

text \<open>A uniqueness constraint on a (partial) key: rows without the key are not compared.\<close>

definition unique_key :: "('r \<Rightarrow> 'k option) \<Rightarrow> 'r list \<Rightarrow> bool" where
  "unique_key k t = distinct (map k (filter (\<lambda>r. k r \<noteq> None) t))"

lemma update_where_Nil [table_simps, simp]: "update_where p f [] = []"
  by (simp add: update_where_def)

lemma update_where_Cons [table_simps, simp]:
  "update_where p f (r # t) = (if p r then f r else r) # update_where p f t"
  by (simp add: update_where_def)

lemma update_where_append [table_simps]:
  "update_where p f (s @ t) = update_where p f s @ update_where p f t"
  by (simp add: update_where_def)

lemma length_update_where [table_simps, simp]: "length (update_where p f t) = length t"
  by (simp add: update_where_def)

lemma set_update_where:
  "r' \<in> set (update_where p f t) \<longleftrightarrow> (\<exists>r \<in> set t. r' = (if p r then f r else r))"
  by (auto simp: update_where_def)

lemma update_where_bex: "(\<exists>x \<in> set (update_where p g t). Q x) \<longleftrightarrow> (\<exists>x \<in> set t. Q (if p x then g x else x))"
  and update_where_ball: "(\<forall>x \<in> set (update_where p g t). Q x) \<longleftrightarrow> (\<forall>x \<in> set t. Q (if p x then g x else x))"
  by (auto simp: update_where_def)

lemma update_where_idle: "\<forall>r \<in> set t. \<not> p r \<Longrightarrow> update_where p f t = t"
  by (induction t) auto

lemma row_count_zero: "row_count p t = 0 \<longleftrightarrow> (\<forall>r \<in> set t. \<not> p r)"
  by (auto simp: row_count_def filter_empty_conv)

lemma row_count_pos: "0 < row_count p t \<longleftrightarrow> (\<exists>r \<in> set t. p r)"
  using row_count_zero [of p t] by auto

lemma row_count_Nil [table_simps, simp]: "row_count p [] = 0"
  by (simp add: row_count_def)

lemma row_count_Cons [table_simps, simp]:
  "row_count p (r # t) = (if p r then Suc (row_count p t) else row_count p t)"
  by (simp add: row_count_def)

lemma set_delete_where [table_simps, simp]:
  "set (delete_where p t) = {r \<in> set t. \<not> p r}"
  by (auto simp: delete_where_def)

lemma map_update_where:
  assumes "\<And>r. p r \<Longrightarrow> g (f r) = g r"
  shows "map g (update_where p f t) = map g t"
  by (induction t) (simp_all add: assms)

lemma unique_key_update:
  assumes "\<And>r. p r \<Longrightarrow> k (f r) = k r"
  shows "unique_key k (update_where p f t) = unique_key k t"
proof -
  have "map k (filter (\<lambda>r. k r \<noteq> None) (update_where p f t)) =
        map k (filter (\<lambda>r. k r \<noteq> None) t)"
    by (induction t) (simp_all add: assms)
  then show ?thesis by (simp add: unique_key_def)
qed

lemma unique_key_delete: "unique_key k t \<Longrightarrow> unique_key k (delete_where p t)"
  by (induction t) (force simp: unique_key_def delete_where_def)+

lemma unique_key_append:
  "unique_key k t \<Longrightarrow> \<forall>r \<in> set t. k r \<noteq> k n \<Longrightarrow> unique_key k (t @ [n])"
  by (auto simp: unique_key_def)

lemma unique_key_same:
  assumes "unique_key k t" "r \<in> set t" "r' \<in> set t" "k r = k r'" "k r \<noteq> None"
  shows "r = r'"
proof -
  have "inj_on k (set (filter (\<lambda>r. k r \<noteq> None) t))"
    using assms(1) by (simp add: unique_key_def distinct_map)
  then show ?thesis using assms(2-5) by (auto dest: inj_onD)
qed

lemma find_Some_iff_mem: "find p t = Some r \<Longrightarrow> r \<in> set t \<and> p r"
  by (auto simp: find_Some_iff)

lemma find_None_mem: "find p t = None \<longleftrightarrow> (\<forall>r \<in> set t. \<not> p r)"
  by (auto simp: find_None_iff)

lemma find_unique:
  assumes "r \<in> set t" "p r" "\<And>q. q \<in> set t \<Longrightarrow> p q \<Longrightarrow> q = r"
  shows "find p t = Some r"
proof (cases "find p t")
  case None
  then have "\<forall>r \<in> set t. \<not> p r" by (simp only: find_None_mem)
  with assms(1,2) show ?thesis by blast
next
  case (Some q)
  then have "q \<in> set t \<and> p q" by (rule find_Some_iff_mem)
  then have "q = r" using assms(3) by blast
  with Some show ?thesis by (simp only:)
qed

section \<open>Operations that keep an invariant\<close>

text \<open>The interface of a component whose state changes only through operations \<open>step op\<close>: each
  operation, where its guard holds, keeps the invariant. What a client gets is the invariant after
  any sequence of guarded operations.\<close>

fun run_guarded :: "('op \<Rightarrow> 's \<Rightarrow> bool) \<Rightarrow> ('op \<Rightarrow> 's \<Rightarrow> 's) \<Rightarrow> 's \<Rightarrow> 'op list \<Rightarrow> bool" where
  "run_guarded guard step s [] = True"
| "run_guarded guard step s (x # xs) = (guard x s \<and> run_guarded guard step (step x s) xs)"

locale invariant_system =
  fixes step :: "'op \<Rightarrow> 's \<Rightarrow> 's"
    and guard :: "'op \<Rightarrow> 's \<Rightarrow> bool"
    and inv :: "'s \<Rightarrow> bool"
  assumes inv_step: "inv s \<Longrightarrow> guard x s \<Longrightarrow> inv (step x s)"
begin

lemma inv_run: "inv s \<Longrightarrow> run_guarded guard step s xs \<Longrightarrow> inv (fold step xs s)"
  by (induction xs arbitrary: s) (simp_all add: inv_step)

end

end
