(* ===== verification/Send_Status.thy ===== *)
theory Send_Status
  imports Crm_Prelude "HOL-Library.Sublist"
begin

text \<open>
  The pure decision tables of \<open>packages/delivery-core/src\<close>: the send-status transition matrix
  (\<open>send-state-machine.ts\<close>), the read-time status of a delivered message (\<open>send-status.ts\<close>),
  the reconciler's verdict (\<open>reconciler.ts\<close>), the transport-error classifier
  (\<open>transport-classify.ts\<close>) together with the redaction every transport error passes through
  first (\<open>send-mail.ts\<close>), and the webhook event tables (\<open>event-normalize.ts\<close>,
  \<open>suppression-rules.ts\<close>).
\<close>

section \<open>The send-status state machine\<close>

datatype SendStatus = Dispatching | Sent | Failed | Excluded | Reconciling | Unknown

datatype SendStatusWriter = Worker | Reconciler | PreSendGate

record SendTransition =
  trans_to :: SendStatus
  trans_writers :: "SendStatusWriter list"
  trans_trigger :: string

definition SEND_STATUSES :: "SendStatus list" where
  "SEND_STATUSES = [Dispatching, Sent, Failed, Excluded, Reconciling, Unknown]"

fun SEND_STATUS_TRANSITIONS :: "SendStatus \<Rightarrow> SendTransition list" where
  "SEND_STATUS_TRANSITIONS Dispatching =
     [\<lparr>trans_to = Sent, trans_writers = [Worker],
       trans_trigger = ''unit 3, SendGrid 2xx response''\<rparr>,
      \<lparr>trans_to = Failed, trans_writers = [Worker],
       trans_trigger = ''unit 3, SendGrid permanent 4xx response''\<rparr>,
      \<lparr>trans_to = Reconciling, trans_writers = [Worker, Reconciler],
       trans_trigger = ''worker: unit 3 ambiguous throw (timeout/ECONNRESET/fail-closed default) or interrupted redelivery (a prior claim survived with no terminal write); reconciler: stale-dispatching sweep (age exceeds the max-job-lifetime threshold with no interrupted detection ever having run)''\<rparr>]"
| "SEND_STATUS_TRANSITIONS Reconciling =
     [\<lparr>trans_to = Sent, trans_writers = [Reconciler],
       trans_trigger = ''webhook evidence found in send_events for this send_id''\<rparr>,
      \<lparr>trans_to = Unknown, trans_writers = [Reconciler],
       trans_trigger = ''resolution window (~24h) elapsed with no evidence''\<rparr>]"
| "SEND_STATUS_TRANSITIONS Unknown =
     [\<lparr>trans_to = Sent, trans_writers = [Reconciler],
       trans_trigger = ''late evidence found within the re-scan horizon (~72h)''\<rparr>]"
| "SEND_STATUS_TRANSITIONS Sent = []"
| "SEND_STATUS_TRANSITIONS Failed = []"
| "SEND_STATUS_TRANSITIONS Excluded = []"

definition isAllowedTransition :: "SendStatus \<Rightarrow> SendStatus \<Rightarrow> bool" where
  "isAllowedTransition from to =
     list_ex (\<lambda>t. trans_to t = to) (SEND_STATUS_TRANSITIONS from)"

definition writersFor :: "SendStatus \<Rightarrow> SendStatus \<Rightarrow> SendStatusWriter list" where
  "writersFor from to =
     (case find (\<lambda>t. trans_to t = to) (SEND_STATUS_TRANSITIONS from) of
        None \<Rightarrow> [] | Some t \<Rightarrow> trans_writers t)"

text \<open>The code's terminal test, spelled out in every claim gate.\<close>

definition terminal_status :: "SendStatus \<Rightarrow> bool" where
  "terminal_status s = (s = Sent \<or> s = Failed \<or> s = Excluded)"

lemma set_SEND_STATUSES: "set SEND_STATUSES = UNIV"
proof -
  have "s \<in> set SEND_STATUSES" for s by (cases s) (simp_all add: SEND_STATUSES_def)
  then show ?thesis by blast
qed

lemma isAllowedTransition_cases:
  "isAllowedTransition from to \<longleftrightarrow>
     (from = Dispatching \<and> to \<in> {Sent, Failed, Reconciling}) \<or>
     (from = Reconciling \<and> to \<in> {Sent, Unknown}) \<or>
     (from = Unknown \<and> to = Sent)"
  by (cases "from") (auto simp: isAllowedTransition_def)

lemma writersFor_cases:
  "writersFor from to =
     (if from = Dispatching \<and> to \<in> {Sent, Failed} then [Worker]
      else if from = Dispatching \<and> to = Reconciling then [Worker, Reconciler]
      else if from = Reconciling \<and> to \<in> {Sent, Unknown} then [Reconciler]
      else if from = Unknown \<and> to = Sent then [Reconciler]
      else [])"
  by (cases "from"; cases "to") (simp_all add: writersFor_def)

lemma terminal_iff_no_transition: "terminal_status s \<longleftrightarrow> SEND_STATUS_TRANSITIONS s = []"
  by (cases s) (simp_all add: terminal_status_def)

text \<open>One step of the matrix by a given writer, and any number of steps.\<close>

inductive allowed_by :: "SendStatusWriter set \<Rightarrow> SendStatus \<Rightarrow> SendStatus \<Rightarrow> bool" for W where
  refl: "allowed_by W s s"
| step: "allowed_by W s t \<Longrightarrow> w \<in> W \<Longrightarrow> w \<in> set (writersFor t u) \<Longrightarrow> allowed_by W s u"

lemma allowed_by_from_ambiguous:
  assumes "allowed_by W s t" "s \<in> {Reconciling, Unknown}"
  shows "t \<in> {Reconciling, Unknown, Sent}"
  using assms
proof (induction rule: allowed_by.induct)
  case (refl s)
  then show ?case by blast
next
  case (step s t w u)
  then show ?case by (auto simp: writersFor_cases split: if_splits)
qed

lemma allowed_by_terminal:
  assumes "allowed_by W s t" "terminal_status s"
  shows "t = s"
  using assms
proof (induction rule: allowed_by.induct)
  case (step s t w u)
  then show ?case by (auto simp: writersFor_cases terminal_status_def split: if_splits)
qed simp

section \<open>The current status of a delivered message\<close>

record DeliveryFacts =
  deliveredAt :: "instant option"
  firstOpenedAt :: "instant option"
  firstClickedAt :: "instant option"
  bouncedAt :: "instant option"
  droppedAt :: "instant option"
  spamReportedAt :: "instant option"
  unsubscribedAt :: "instant option"

text \<open>A recorded fact is a \<open>Date\<close> object or a non-empty timestamp text, both truthy.\<close>

definition deriveCurrentStatus :: "DeliveryFacts \<Rightarrow> string \<Rightarrow> string" where
  "deriveCurrentStatus facts baseStatus =
     (if bouncedAt facts \<noteq> None then ''bounced''
      else if droppedAt facts \<noteq> None then ''dropped''
      else if spamReportedAt facts \<noteq> None then ''spam''
      else if firstClickedAt facts \<noteq> None then ''clicked''
      else if firstOpenedAt facts \<noteq> None then ''opened''
      else if deliveredAt facts \<noteq> None then ''delivered''
      else baseStatus)"

section \<open>The reconciler's verdict\<close>

definition RECONCILE_RESOLUTION_WINDOW_MS :: int where
  "RECONCILE_RESOLUTION_WINDOW_MS = 24 * 60 * 60000"

definition RECONCILE_RESCAN_HORIZON_MS :: int where
  "RECONCILE_RESCAN_HORIZON_MS = 72 * 60 * 60000"

definition STALE_DISPATCHING_AGE_MS :: int where
  "STALE_DISPATCHING_AGE_MS = 2 * 60 * 60000"

datatype ReconcileVerdict = ResolveSent | ResolveUnknown | SweepToReconciling | Hold

record ReconcileInput =
  ri_status :: SendStatus
  ri_queuedAt :: instant
  ri_reconcilingSince :: "instant option"
  ri_hasEvidence :: bool
  ri_now :: instant

definition classifyReconcilableSend :: "ReconcileInput \<Rightarrow> ReconcileVerdict" where
  "classifyReconcilableSend i =
     (if ri_status i = Dispatching \<and> ri_now i - ri_queuedAt i > STALE_DISPATCHING_AGE_MS
      then SweepToReconciling
      else if ri_status i = Reconciling \<and> ri_hasEvidence i then ResolveSent
      else if ri_status i = Reconciling \<and> \<not> ri_hasEvidence i \<and>
              ri_now i - nullish (ri_reconcilingSince i) (ri_queuedAt i)
                > RECONCILE_RESOLUTION_WINDOW_MS
      then ResolveUnknown
      else if ri_status i = Unknown \<and> ri_hasEvidence i \<and>
              ri_now i - ri_queuedAt i \<le> RECONCILE_RESCAN_HORIZON_MS
      then ResolveSent
      else Hold)"

text \<open>The write each verdict stands for.\<close>

fun verdict_target :: "ReconcileVerdict \<Rightarrow> SendStatus \<Rightarrow> SendStatus" where
  "verdict_target ResolveSent s = Sent"
| "verdict_target ResolveUnknown s = Unknown"
| "verdict_target SweepToReconciling s = Reconciling"
| "verdict_target Hold s = s"

lemma classify_in_matrix:
  "classifyReconcilableSend i \<noteq> Hold \<Longrightarrow>
     Reconciler \<in> set (writersFor (ri_status i)
                       (verdict_target (classifyReconcilableSend i) (ri_status i)))"
  by (simp add: classifyReconcilableSend_def writersFor_cases split: if_splits)

section \<open>Transport errors\<close>

datatype TransportClassification = PreConnectionRetryable | Ambiguous

definition PRE_CONNECTION_CODES :: "string list" where
  "PRE_CONNECTION_CODES = [''ENOTFOUND'', ''EAI_AGAIN'', ''ECONNREFUSED'']"

definition readCode :: "js \<Rightarrow> string option" where
  "readCode v =
     (if js_is_object v
      then (case js_get v ''code'' of JStr c \<Rightarrow> Some c | _ \<Rightarrow> None)
      else None)"

definition pre_connection_code :: "string option \<Rightarrow> bool" where
  "pre_connection_code c =
     (case c of None \<Rightarrow> False | Some x \<Rightarrow> x \<in> set PRE_CONNECTION_CODES)"

definition classifyTransportError :: "js \<Rightarrow> TransportClassification" where
  "classifyTransportError err =
     (let directCode = readCode err in
      if pre_connection_code directCode then PreConnectionRetryable
      else (let cause = (if js_is_object err then js_get err ''cause'' else JUndefined);
                causeCode = readCode cause
            in if pre_connection_code causeCode then PreConnectionRetryable
               else Ambiguous))"

subsection \<open>Redaction of the tenant's key\<close>

text \<open>\<open>s.split(key).join(rep)\<close>: leftmost, non-overlapping occurrences; an empty separator splits
  into single characters.\<close>

fun first_occurrence :: "string \<Rightarrow> string \<Rightarrow> (string \<times> string) option" where
  "first_occurrence key [] = None"
| "first_occurrence key (c # s) =
     (if prefix key (c # s) then Some ([], drop (length key) (c # s))
      else map_option (\<lambda>(a, b). (c # a, b)) (first_occurrence key s))"

lemma first_occurrence_Some:
  "first_occurrence key s = Some (a, b) \<Longrightarrow> s = a @ key @ b"
proof (induction s arbitrary: a)
  case (Cons c s)
  then show ?case
    by (auto simp: prefix_def split: if_splits prod.splits)
qed simp

lemma first_occurrence_shorter:
  "key \<noteq> [] \<Longrightarrow> first_occurrence key s = Some (a, b) \<Longrightarrow> length b < length s"
  using first_occurrence_Some [of key s a b] by simp

function js_split :: "string \<Rightarrow> string \<Rightarrow> string list" where
  "js_split key s =
     (if key = [] then map (\<lambda>c. [c]) s
      else (case first_occurrence key s of
              None \<Rightarrow> [s]
            | Some (a, b) \<Rightarrow> a # js_split key b))"
  by pat_completeness auto
termination
  by (relation "measure (\<lambda>(key, s). length s)") (auto simp: first_occurrence_shorter)

declare js_split.simps [simp del]

fun js_join :: "string \<Rightarrow> string list \<Rightarrow> string" where
  "js_join sep [] = []"
| "js_join sep [x] = x"
| "js_join sep (x # y # xs) = x @ sep @ js_join sep (y # xs)"

definition redact_text :: "string \<Rightarrow> string \<Rightarrow> string" where
  "redact_text apiKey s = js_join ''[REDACTED]'' (js_split apiKey s)"

text \<open>\<open>String(err)\<close> of a thrown value that is no \<open>Error\<close> is the language's conversion, here the
  argument \<open>to_string\<close>. \<open>new Error(message)\<close> has a message and a stack of its own
  (\<open>new_stack\<close>), and neither a \<open>code\<close> nor a \<open>cause\<close>.\<close>

definition js_text :: "js \<Rightarrow> string option" where
  "js_text v = (case v of JStr t \<Rightarrow> Some t | _ \<Rightarrow> None)"

fun redactApiKey :: "(js \<Rightarrow> string) \<Rightarrow> string \<Rightarrow> js \<Rightarrow> string \<Rightarrow> js" where
  "redactApiKey to_string new_stack (JError fs) apiKey =
     JError [(''message'', JStr (redact_text apiKey
                (nullish (js_text (js_get (JError fs) ''message'')) []))),
             (''stack'', JStr (if truthy (js_text (js_get (JError fs) ''stack''))
                then redact_text apiKey (nullish (js_text (js_get (JError fs) ''stack'')) [])
                else new_stack))]"
| "redactApiKey to_string new_stack v apiKey =
     JError [(''message'', JStr (redact_text apiKey (to_string v))),
             (''stack'', JStr new_stack)]"

lemma readCode_redactApiKey: "readCode (redactApiKey ts st v key) = None"
  by (cases v) (simp_all add: readCode_def)

lemma cause_redactApiKey: "js_get (redactApiKey ts st v key) ''cause'' = JUndefined"
  by (cases v) simp_all

lemma readCode_JUndefined: "readCode JUndefined = None"
  by (simp add: readCode_def)

lemma classify_redacted: "classifyTransportError (redactApiKey ts st v key) = Ambiguous"
  by (simp add: classifyTransportError_def readCode_redactApiKey cause_redactApiKey
        pre_connection_code_def readCode_JUndefined)

text \<open>No occurrence of the key survives: an occurrence would lie inside a piece, which holds none,
  or reach into the replacement, whose brackets the key does not have.\<close>

lemma sublist_gap:
  assumes "sublist key (u @ c # v)" "c \<notin> set key"
  shows "sublist key u \<or> sublist key v"
proof -
  obtain a b where eq: "u @ c # v = a @ key @ b" using assms(1) by (auto simp: sublist_def)
  show ?thesis
  proof (cases "length (a @ key) \<le> length u")
    case True
    have "take (length (a @ key)) u = a @ key"
      using arg_cong [OF eq, of "take (length (a @ key))"] True by simp
    then have "sublist key u"
      unfolding sublist_def by (metis append_assoc append_take_drop_id)
    then show ?thesis ..
  next
    case long: False
    show ?thesis
    proof (cases "length a \<le> length u")
      case True
      have bound: "length u - length a < length key" using True long by simp
      have "(u @ c # v) ! length u = c" by simp
      moreover have "(a @ key @ b) ! length u = key ! (length u - length a)"
        using True bound by (simp add: nth_append)
      ultimately have "key ! (length u - length a) = c" using eq by simp
      with bound show ?thesis using assms(2) nth_mem by blast
    next
      case False
      have "drop (Suc (length u)) (u @ c # v) = v" by simp
      moreover have "drop (Suc (length u)) (a @ key @ b) = drop (Suc (length u)) a @ key @ b"
        using False by simp
      ultimately have "v = drop (Suc (length u)) a @ key @ b" using eq by simp
      then show ?thesis unfolding sublist_def by blast
    qed
  qed
qed

lemma first_occurrence_None: "key \<noteq> [] \<Longrightarrow> first_occurrence key s = None \<Longrightarrow> \<not> sublist key s"
proof (induction s)
  case (Cons c s)
  then show ?case by (auto simp: sublist_Cons_right split: if_splits)
qed simp

lemma first_occurrence_first:
  assumes "key \<noteq> []" "first_occurrence key s = Some (a, b)"
  shows "\<not> sublist key a"
  using assms
proof (induction s arbitrary: a)
  case (Cons c s)
  show ?case
  proof (cases "prefix key (c # s)")
    case True
    with Cons.prems show ?thesis by simp
  next
    case False
    with Cons.prems obtain a' where a': "first_occurrence key s = Some (a', b)" "a = c # a'"
      by auto
    with Cons have "\<not> sublist key a'" by blast
    moreover have "\<not> prefix key (c # a')"
    proof
      assume "prefix key (c # a')"
      then have "prefix key (c # s)"
        using first_occurrence_Some [OF a'(1)] by (metis append_Cons prefix_append)
      with False show False ..
    qed
    ultimately show ?thesis using a'(2) by (simp add: sublist_Cons_right)
  qed
qed simp

lemma js_split_pieces: "key \<noteq> [] \<Longrightarrow> x \<in> set (js_split key s) \<Longrightarrow> \<not> sublist key x"
proof (induction key s rule: js_split.induct)
  case (1 key s)
  show ?case
  proof (cases "first_occurrence key s")
    case None
    with 1 show ?thesis by (simp add: js_split.simps [of key s] first_occurrence_None)
  next
    case (Some ab)
    then obtain a b where "first_occurrence key s = Some (a, b)" by (cases ab) auto
    with 1 show ?thesis
      by (auto simp: js_split.simps [of key s] dest: first_occurrence_first)
  qed
qed

lemma join_no_key:
  assumes "CHR ''['' \<notin> set key" "CHR '']'' \<notin> set key" "\<not> sublist key ''REDACTED''"
    and "\<forall>x \<in> set xs. \<not> sublist key x"
  shows "\<not> sublist key (js_join ''[REDACTED]'' xs)"
  using assms(4)
proof (induction xs rule: induct_list012)
  case 1
  have "key \<noteq> []" using assms(3) by auto
  then show ?case by simp
next
  case (3 x y zs)
  let ?r = "js_join ''[REDACTED]'' (y # zs)"
  have "\<not> sublist key ?r" using 3 by simp
  then have "\<not> sublist key (''REDACTED'' @ CHR '']'' # ?r)"
    using sublist_gap [of key "''REDACTED''" "CHR '']''" ?r] assms(2,3) by blast
  then have "\<not> sublist key (x @ CHR ''['' # (''REDACTED'' @ CHR '']'' # ?r))"
    using sublist_gap [of key x "CHR ''[''"] assms(1) 3 by (metis list.set_intros(1))
  then show ?case by simp
qed simp

lemma redact_text_no_key:
  assumes "CHR ''['' \<notin> set key" "CHR '']'' \<notin> set key" "\<not> sublist key ''REDACTED''"
  shows "\<not> sublist key (redact_text key s)"
proof -
  have "key \<noteq> []" using assms(3) by auto
  then show ?thesis
    unfolding redact_text_def using join_no_key [OF assms] js_split_pieces by blast
qed

section \<open>Webhook event types and suppression\<close>

datatype NormalizedEventType =
  Delivered | Open | Click | BounceHard | BounceSoft | Dropped | SpamReport | Unsubscribe
  | GroupUnsubscribe

definition normalizeEventType :: "string \<Rightarrow> string option \<Rightarrow> NormalizedEventType option" where
  "normalizeEventType event typ =
     (if event = ''delivered'' then Some Delivered
      else if event = ''open'' then Some Open
      else if event = ''click'' then Some Click
      else if event = ''dropped'' then Some Dropped
      else if event = ''spamreport'' then Some SpamReport
      else if event = ''unsubscribe'' then Some Unsubscribe
      else if event = ''group_unsubscribe'' then Some GroupUnsubscribe
      else if event = ''bounce'' then
        Some (if typ = Some ''blocked'' then BounceSoft else BounceHard)
      else None)"

datatype SuppressionStatus = Suppressed | Unsubscribed

type_synonym SuppressionOutcome = "(SuppressionStatus \<times> string) option"

definition SOFT_BOUNCE_SUPPRESS_THRESHOLD :: nat where
  "SOFT_BOUNCE_SUPPRESS_THRESHOLD = 3"

definition ADDRESS_DROP_REASONS :: "(string \<times> (SuppressionStatus \<times> string)) list" where
  "ADDRESS_DROP_REASONS =
     [(''Bounced Address'', (Suppressed, ''dropped_bounced_address'')),
      (''Spam Reporting Address'', (Suppressed, ''dropped_spam_reporting_address'')),
      (''Invalid Address'', (Suppressed, ''dropped_invalid_address'')),
      (''Unsubscribed Address'', (Unsubscribed, ''dropped_unsubscribed_address''))]"

fun resolveSuppression :: "NormalizedEventType \<Rightarrow> string option \<Rightarrow> SuppressionOutcome" where
  "resolveSuppression BounceHard reason = Some (Suppressed, ''hard_bounce'')"
| "resolveSuppression SpamReport reason = Some (Suppressed, ''spam_report'')"
| "resolveSuppression Unsubscribe reason = Some (Unsubscribed, ''unsubscribe'')"
| "resolveSuppression GroupUnsubscribe reason = Some (Unsubscribed, ''unsubscribe'')"
| "resolveSuppression Dropped reason =
     (if truthy reason then map_of ADDRESS_DROP_REASONS (nullish reason []) else None)"
| "resolveSuppression BounceSoft reason = None"
| "resolveSuppression Delivered reason = None"
| "resolveSuppression Open reason = None"
| "resolveSuppression Click reason = None"

end
