(* ===== verification/Send_Id.thy ===== *)
theory Send_Id
  imports Crm_Prelude "HOL-Library.Word"
begin

text \<open>
  The deterministic id of a send intent: \<open>packages/delivery-core/src/send-id.ts\<close>, an RFC 4122
  name-based UUID over SHA-1. The digest itself is \<open>node:crypto\<close>, a parameter \<open>sha1\<close> of every
  definition; what the code relies on is that it returns 20 bytes, and that the names of the
  intents in use do not collide.
\<close>

unbundle bit_operations_syntax

type_synonym byte = "8 word"

datatype id_error = NotAValidUuid string

definition SEND_ID_NAMESPACE :: string where
  "SEND_ID_NAMESPACE = ''6f1c9a3e-5d2b-4f8a-9c17-2e0b7d4a6591''"

section \<open>Hexadecimal text\<close>

definition hex_digit :: "nat \<Rightarrow> char" where
  "hex_digit n = ''0123456789abcdef'' ! n"

definition is_hex :: "char \<Rightarrow> bool" where
  "is_hex c = (digit_val c < 16)"

definition hex_of_byte :: "byte \<Rightarrow> string" where
  "hex_of_byte b = [hex_digit (unat (drop_bit 4 b)), hex_digit (unat (b AND 15))]"

text \<open>\<open>Buffer.toString('hex')\<close> and \<open>Buffer.from(hex, 'hex')\<close> on text the code has checked.\<close>

definition hex_of_bytes :: "byte list \<Rightarrow> string" where
  "hex_of_bytes bs = concat (map hex_of_byte bs)"

fun bytes_of_hex :: "string \<Rightarrow> byte list" where
  "bytes_of_hex (a # b # s) = of_nat (16 * digit_val a + digit_val b) # bytes_of_hex s"
| "bytes_of_hex _ = []"

definition not_dash :: "char \<Rightarrow> bool" where
  "not_dash c = (c \<noteq> CHR ''-'')"

definition parseUuid :: "string \<Rightarrow> id_error + byte list" where
  "parseUuid uuidString =
     (let hex = filter not_dash uuidString
      in if length hex = 32 \<and> list_all is_hex hex then Inr (bytes_of_hex hex)
         else Inl (NotAValidUuid uuidString))"

definition js_slice :: "nat \<Rightarrow> nat \<Rightarrow> 'a list \<Rightarrow> 'a list" where
  "js_slice a b xs = take (b - a) (drop a xs)"

definition formatUuid :: "byte list \<Rightarrow> string" where
  "formatUuid bytes =
     (let hex = hex_of_bytes bytes
      in js_slice 0 8 hex @ ''-'' @ js_slice 8 12 hex @ ''-'' @ js_slice 12 16 hex @ ''-''
         @ js_slice 16 20 hex @ ''-'' @ js_slice 20 32 hex)"

section \<open>Name-based UUIDs\<close>

text \<open>\<open>Buffer.from(name, 'utf8')\<close>: the characters of the model are the bytes of the text.\<close>

definition utf8 :: "string \<Rightarrow> byte list" where
  "utf8 s = map of_char s"

definition uuid5_of :: "(byte list \<Rightarrow> byte list) \<Rightarrow> byte list \<Rightarrow> string \<Rightarrow> uuid" where
  "uuid5_of sha1 namespaceBytes name =
     (let hash = sha1 (namespaceBytes @ utf8 name);
          hash = hash[6 := ((hash ! 6) AND 15) OR 80];
          hash = hash[8 := ((hash ! 8) AND 63) OR 128]
      in formatUuid (take 16 hash))"

definition uuidv5 :: "(byte list \<Rightarrow> byte list) \<Rightarrow> string \<Rightarrow> string \<Rightarrow> id_error + uuid" where
  "uuidv5 sha1 name namespace =
     (case parseUuid namespace of
        Inl e \<Rightarrow> Inl e
      | Inr namespaceBytes \<Rightarrow> Inr (uuid5_of sha1 namespaceBytes name))"

definition campaign_name :: "uuid \<Rightarrow> uuid \<Rightarrow> uuid \<Rightarrow> string" where
  "campaign_name workspaceId campaignId contactId =
     ''campaign:'' @ workspaceId @ '':'' @ campaignId @ '':'' @ contactId"

definition flow_name :: "uuid \<Rightarrow> uuid \<Rightarrow> string \<Rightarrow> string" where
  "flow_name workspaceId flowRunId nodeId =
     ''flow:'' @ workspaceId @ '':'' @ flowRunId @ '':'' @ nodeId"

definition namespace_bytes :: "byte list" where
  "namespace_bytes =
     bytes_of_hex (filter not_dash SEND_ID_NAMESPACE)"

definition deriveCampaignSendId ::
  "(byte list \<Rightarrow> byte list) \<Rightarrow> uuid \<Rightarrow> uuid \<Rightarrow> uuid \<Rightarrow> uuid" where
  "deriveCampaignSendId sha1 workspaceId campaignId contactId =
     uuid5_of sha1 namespace_bytes (campaign_name workspaceId campaignId contactId)"

definition deriveFlowSendId ::
  "(byte list \<Rightarrow> byte list) \<Rightarrow> uuid \<Rightarrow> uuid \<Rightarrow> string \<Rightarrow> uuid" where
  "deriveFlowSendId sha1 workspaceId flowRunId nodeId =
     uuid5_of sha1 namespace_bytes (flow_name workspaceId flowRunId nodeId)"

section \<open>Correctness\<close>

lemma parse_namespace: "parseUuid SEND_ID_NAMESPACE = Inr namespace_bytes"
proof -
  have "length (filter not_dash SEND_ID_NAMESPACE) = 32"
    by (simp add: SEND_ID_NAMESPACE_def not_dash_def)
  moreover have "list_all is_hex (filter not_dash SEND_ID_NAMESPACE)"
    by (simp add: SEND_ID_NAMESPACE_def is_hex_def digit_val_def not_dash_def)
  ultimately show ?thesis by (simp add: parseUuid_def namespace_bytes_def Let_def)
qed

lemma derive_is_uuidv5:
  "uuidv5 sha1 (campaign_name w c k) SEND_ID_NAMESPACE = Inr (deriveCampaignSendId sha1 w c k)"
  "uuidv5 sha1 (flow_name w r n) SEND_ID_NAMESPACE = Inr (deriveFlowSendId sha1 w r n)"
  by (simp_all add: uuidv5_def parse_namespace deriveCampaignSendId_def deriveFlowSendId_def)

lemma unat_low_nibble: "unat (b AND 15 :: byte) < 16"
proof -
  have "unat (b AND 15) \<le> unat (15 :: byte)"
    by (rule word_and_le1 [THEN word_le_nat_alt [THEN iffD1]])
  then show ?thesis by simp
qed

lemma unat_high_nibble: "unat (drop_bit 4 b :: byte) = unat b div 16"
  by (simp add: drop_bit_eq_div unat_div_distrib)

lemma unat_high_nibble_less: "unat (drop_bit 4 b :: byte) < 16"
proof -
  have "unat b < 256" using unsigned_less [where ?'a = nat, of b] by simp
  then show ?thesis by (simp add: unat_high_nibble)
qed

lemma unat_low_nibble_mod: "unat (b AND 15 :: byte) = unat b mod 16"
proof -
  have "(15 :: byte) = mask 4" by (simp add: mask_eq_exp_minus_1)
  then have "b AND 15 = take_bit 4 b" by (simp add: take_bit_eq_mask)
  then show ?thesis by (simp add: take_bit_eq_mod unat_mod_distrib)
qed

lemma digit_val_hex_digit: "n < 16 \<Longrightarrow> digit_val (hex_digit n) = n"
proof -
  assume "n < 16"
  then have "n \<in> set [0..<16]" by simp
  then show ?thesis
    by (simp add: upt_conv_Cons numeral_eq_Suc) (auto simp: hex_digit_def digit_val_def)
qed

lemma hex_byte_roundtrip: "bytes_of_hex (hex_of_byte b @ s) = b # bytes_of_hex s"
proof -
  have "16 * digit_val (hex_digit (unat (drop_bit 4 b))) + digit_val (hex_digit (unat (b AND 15)))
        = unat b"
    by (simp add: digit_val_hex_digit unat_low_nibble unat_high_nibble_less)
       (simp add: unat_high_nibble unat_low_nibble_mod)
  then show ?thesis by (simp add: hex_of_byte_def)
qed

lemma bytes_of_hex_of_bytes: "bytes_of_hex (hex_of_bytes bs) = bs"
proof (induction bs)
  case (Cons b bs)
  have "hex_of_bytes (b # bs) = hex_of_byte b @ hex_of_bytes bs"
    by (simp add: hex_of_bytes_def)
  then show ?case by (simp only: hex_byte_roundtrip Cons.IH)
qed (simp add: hex_of_bytes_def)

lemma length_hex_of_bytes: "length (hex_of_bytes bs) = 2 * length bs"
  by (induction bs) (simp_all add: hex_of_bytes_def hex_of_byte_def)

lemma hex_digit_ok: "n < 16 \<Longrightarrow> is_hex (hex_digit n) \<and> not_dash (hex_digit n)"
proof -
  assume n: "n < 16"
  then have "is_hex (hex_digit n)" by (simp add: is_hex_def digit_val_hex_digit)
  moreover have "\<not> is_hex CHR ''-''" by (simp add: is_hex_def digit_val_def)
  ultimately show ?thesis unfolding not_dash_def by metis
qed

lemma hex_of_bytes_chars:
  "c \<in> set (hex_of_bytes bs) \<Longrightarrow> is_hex c \<and> not_dash c"
  by (auto simp: hex_of_bytes_def hex_of_byte_def hex_digit_ok unat_low_nibble
        unat_high_nibble_less)

lemma slices_join:
  "length h = 32 \<Longrightarrow>
   js_slice 0 8 h @ js_slice 8 12 h @ js_slice 12 16 h @ js_slice 16 20 h @ js_slice 20 32 h = h"
proof -
  assume len: "length h = 32"
  have glue: "js_slice a b h @ js_slice b c h = js_slice a c h" if "a \<le> b" "b \<le> c" for a b c
  proof -
    have "c - a = b - a + (c - b)" using that by simp
    then have "take (c - a) (drop a h) =
               take (b - a) (drop a h) @ take (c - b) (drop (b - a) (drop a h))"
      by (simp only: take_add)
    moreover have "drop (b - a) (drop a h) = drop b h" using that by simp
    ultimately show ?thesis by (simp only: js_slice_def)
  qed
  have "js_slice 0 32 h = h" using len by (simp add: js_slice_def)
  moreover have "(((js_slice 0 8 h @ js_slice 8 12 h) @ js_slice 12 16 h) @ js_slice 16 20 h)
                 @ js_slice 20 32 h = js_slice 0 32 h"
    by (simp del: append_assoc add: glue)
  ultimately show ?thesis by simp
qed

lemma filter_dash: "filter not_dash (CHR ''-'' # s) = filter not_dash s"
  by (simp add: not_dash_def)

lemma slice_subset: "c \<in> set (js_slice a b s) \<Longrightarrow> c \<in> set s"
  unfolding js_slice_def using set_take_subset set_drop_subset by fast

lemma dashless_formatUuid:
  assumes "length bs = 16"
  shows "filter not_dash (formatUuid bs) = hex_of_bytes bs"
proof -
  let ?h = "hex_of_bytes bs"
  have piece: "filter not_dash (js_slice a b ?h) = js_slice a b ?h" for a b
    by (intro filter_True ballI) (drule slice_subset, simp add: hex_of_bytes_chars)
  have len: "length ?h = 32" using assms by (simp add: length_hex_of_bytes)
  have "filter not_dash (formatUuid bs) =
        js_slice 0 8 ?h @ js_slice 8 12 ?h @ js_slice 12 16 ?h @ js_slice 16 20 ?h
        @ js_slice 20 32 ?h"
    unfolding formatUuid_def Let_def filter_append piece append_Cons append_Nil filter_dash ..
  then show ?thesis by (simp only: slices_join [OF len])
qed

text \<open>Printing 16 bytes and parsing the text back gives the bytes.\<close>

lemma parse_formatUuid: "length bs = 16 \<Longrightarrow> parseUuid (formatUuid bs) = Inr bs"
proof -
  assume len: "length bs = 16"
  have "list_all is_hex (hex_of_bytes bs)"
    using hex_of_bytes_chars [of _ bs] by (auto simp: list_all_iff)
  with len show ?thesis
    unfolding parseUuid_def Let_def dashless_formatUuid [OF len]
    by (simp add: length_hex_of_bytes bytes_of_hex_of_bytes)
qed

lemma formatUuid_inj:
  "length a = 16 \<Longrightarrow> length b = 16 \<Longrightarrow> formatUuid a = formatUuid b \<Longrightarrow> a = b"
  by (metis parse_formatUuid sum.inject(2))

text \<open>Text before the first colon is determined by the whole.\<close>

lemma takeWhile_cut: "\<forall>x \<in> set a. P x \<Longrightarrow> \<not> P c \<Longrightarrow> takeWhile P (a @ c # b) = a"
  by (induction a) simp_all

lemma cut_unique:
  assumes "c \<notin> set a" "c \<notin> set a'" "a @ c # b = a' @ c # b'"
  shows "a = a' \<and> b = b'"
proof -
  have "takeWhile (\<lambda>x. x \<noteq> c) (a @ c # b) = a" using assms(1) by (intro takeWhile_cut) auto
  moreover have "takeWhile (\<lambda>x. x \<noteq> c) (a' @ c # b') = a'"
    using assms(2) by (intro takeWhile_cut) auto
  ultimately have "a = a'" using assms(3) by simp
  with assms(3) show ?thesis by simp
qed

lemma campaign_name_inj:
  assumes "CHR '':'' \<notin> set w" "CHR '':'' \<notin> set w'" "CHR '':'' \<notin> set c" "CHR '':'' \<notin> set c'"
    and "campaign_name w c k = campaign_name w' c' k'"
  shows "w = w' \<and> c = c' \<and> k = k'"
proof -
  have "w @ CHR '':'' # (c @ CHR '':'' # k) = w' @ CHR '':'' # (c' @ CHR '':'' # k')"
    using assms(5) by (simp add: campaign_name_def)
  with assms show ?thesis by (blast dest: cut_unique)
qed

lemma flow_name_inj:
  assumes "CHR '':'' \<notin> set w" "CHR '':'' \<notin> set w'" "CHR '':'' \<notin> set r" "CHR '':'' \<notin> set r'"
    and "flow_name w r n = flow_name w' r' n'"
  shows "w = w' \<and> r = r' \<and> n = n'"
proof -
  have "w @ CHR '':'' # (r @ CHR '':'' # n) = w' @ CHR '':'' # (r' @ CHR '':'' # n')"
    using assms(5) by (simp add: flow_name_def)
  with assms show ?thesis by (blast dest: cut_unique)
qed

lemma campaign_name_not_flow: "campaign_name w c k \<noteq> flow_name w' r n"
  by (simp add: campaign_name_def flow_name_def)

end
