(* ===== verification/Send_Ledger.thy ===== *)
theory Send_Ledger
  imports Send_Status Send_Id
begin

text \<open>
  The send ledger: the tables \<open>sends\<close> and \<open>campaigns\<close> (\<open>packages/db/src/schema\<close>) and every
  operation of \<open>packages/delivery-core/src/send-ledger.ts\<close> on them. Each operation is one SQL
  statement or one claim gate, run inside the transaction of its caller; \<open>tenant\<close> is the
  workspace that transaction is scoped to, and row-level security hides the rows of every other
  workspace from a statement that does not name the workspace itself. \<open>now\<close> is the
  transaction's time.
\<close>

section \<open>Rows\<close>

record send_row =
  s_id :: uuid
  s_workspaceId :: uuid
  s_campaignId :: "uuid option"
  s_contactId :: uuid
  s_kind :: string
  s_status :: SendStatus
  s_exclusionReason :: "string option"
  s_providerMessageId :: "string option"
  s_queuedAt :: instant
  s_sentAt :: "instant option"
  s_facts :: DeliveryFacts
  s_bounceReason :: "string option"
  s_dropReason :: "string option"
  s_flowRunId :: "uuid option"
  s_nodeId :: "string option"
  s_openCount :: nat
  s_clickCount :: nat
  s_reconcilingSince :: "instant option"
  s_dispatchedAt :: "instant option"
  s_dispatchDurationMs :: "int option"

definition no_facts :: DeliveryFacts where
  "no_facts = \<lparr>deliveredAt = None, firstOpenedAt = None, firstClickedAt = None, bouncedAt = None,
     droppedAt = None, spamReportedAt = None, unsubscribedAt = None\<rparr>"

text \<open>A row with the column defaults of the schema.\<close>

definition default_send :: "uuid \<Rightarrow> uuid \<Rightarrow> uuid \<Rightarrow> instant \<Rightarrow> send_row" where
  "default_send rowId workspaceId contactId now =
     \<lparr>s_id = rowId, s_workspaceId = workspaceId, s_campaignId = None, s_contactId = contactId,
      s_kind = ''campaign'', s_status = Dispatching, s_exclusionReason = None,
      s_providerMessageId = None, s_queuedAt = now, s_sentAt = None, s_facts = no_facts,
      s_bounceReason = None, s_dropReason = None, s_flowRunId = None, s_nodeId = None,
      s_openCount = 0, s_clickCount = 0, s_reconcilingSince = None, s_dispatchedAt = None,
      s_dispatchDurationMs = None\<rparr>"

datatype CampaignStatus = CDraft | CScheduled | CSending | CSent | CCanceled

record campaign_row =
  c_id :: uuid
  c_workspaceId :: uuid
  c_name :: string
  c_status :: CampaignStatus
  c_segmentId :: uuid
  c_templateId :: "string option"
  c_fromSenderId :: "string option"
  c_fromEmail :: "string option"
  c_fromName :: "string option"
  c_scheduledAt :: "instant option"
  c_sendableTotal :: "nat option"
  c_sentCount :: nat
  c_failedCount :: nat
  c_version :: nat
  c_excludedTotal :: "nat option"
  c_snapshotCursor :: "uuid option"
  c_fanOutComplete :: bool
  c_sendingStartedAt :: "instant option"
  c_terminalAt :: "instant option"
  c_deliveredCount :: nat
  c_openedCount :: nat
  c_clickedCount :: nat
  c_bouncedCount :: nat
  c_unsubscribedCount :: nat
  c_createdByUserId :: string
  c_createdAt :: instant
  c_updatedAt :: instant

record ledger =
  l_sends :: "send_row list"
  l_campaigns :: "campaign_row list"

section \<open>Keys and constraints\<close>

definition id_key :: "send_row \<Rightarrow> uuid option" where
  "id_key r = Some (s_id r)"

text \<open>\<open>sends_workspace_campaign_contact_unique\<close>: a null campaign never conflicts.\<close>

definition campaign_key :: "send_row \<Rightarrow> (uuid \<times> uuid \<times> uuid) option" where
  "campaign_key r =
     (case s_campaignId r of None \<Rightarrow> None | Some c \<Rightarrow> Some (s_workspaceId r, c, s_contactId r))"

text \<open>\<open>sends_flow_run_node_unique\<close>: a partial index over the rows of kind \<open>flow\<close>.\<close>

definition flow_key :: "send_row \<Rightarrow> (uuid \<times> uuid \<times> string) option" where
  "flow_key r =
     (if s_kind r = ''flow''
      then (case (s_flowRunId r, s_nodeId r) of
              (Some f, Some n) \<Rightarrow> Some (s_workspaceId r, f, n) | _ \<Rightarrow> None)
      else None)"

definition ledger_wf :: "'z ledger_scheme \<Rightarrow> bool" where
  "ledger_wf l =
     (unique_key id_key (l_sends l) \<and> unique_key campaign_key (l_sends l)
      \<and> unique_key flow_key (l_sends l))"

datatype ledger_error =
    UniqueViolation
  | NoSendsRow string

text \<open>\<open>INSERT ... ON CONFLICT (arbiter)\<close>: \<open>None\<close> where the arbiter key is taken; any other
  uniqueness violation is an error.\<close>

definition insert_send ::
  "(send_row \<Rightarrow> 'k option) \<Rightarrow> send_row \<Rightarrow> send_row list \<Rightarrow> ledger_error + send_row list option"
where
  "insert_send arbiter n t =
     (if \<exists>r \<in> set t. arbiter r = arbiter n \<and> arbiter r \<noteq> None then Inr None
      else if (\<exists>r \<in> set t. s_id r = s_id n)
           \<or> (\<exists>r \<in> set t. campaign_key r = campaign_key n \<and> campaign_key r \<noteq> None)
           \<or> (\<exists>r \<in> set t. flow_key r = flow_key n \<and> flow_key r \<noteq> None)
      then Inl UniqueViolation
      else Inr (Some (t @ [n])))"

section \<open>The claim gates\<close>

datatype DispatchSendGateResult = Skipped | Claim (claim_sendId: uuid) (claim_interrupted: bool)

definition new_campaign_send ::
  "uuid \<Rightarrow> uuid \<Rightarrow> uuid \<Rightarrow> uuid \<Rightarrow> instant \<Rightarrow> send_row" where
  "new_campaign_send rowId workspaceId campaignId contactId now =
     (default_send rowId workspaceId contactId now)\<lparr>s_campaignId := Some campaignId\<rparr>"

definition new_flow_send ::
  "uuid \<Rightarrow> uuid \<Rightarrow> uuid \<Rightarrow> string \<Rightarrow> uuid \<Rightarrow> instant \<Rightarrow> send_row" where
  "new_flow_send rowId workspaceId flowRunId nodeId contactId now =
     (default_send rowId workspaceId contactId now)
       \<lparr>s_kind := ''flow'', s_flowRunId := Some flowRunId, s_nodeId := Some nodeId\<rparr>"

text \<open>The branch both gates take on a conflict, over the locked existing row.\<close>

definition gate_existing :: "string \<Rightarrow> send_row option \<Rightarrow> ledger_error + DispatchSendGateResult" where
  "gate_existing who existing =
     (case existing of
        None \<Rightarrow> Inl (NoSendsRow who)
      | Some r \<Rightarrow>
          (if s_status r = Sent \<or> s_status r = Failed \<or> s_status r = Excluded then Inr Skipped
           else if s_status r = Reconciling \<or> s_status r = Unknown then Inr Skipped
           else Inr (Claim (s_id r) (s_status r = Dispatching))))"

text \<open>The statement sequence of both gates: the insert with its conflict target, and on a conflict
  the existing row under that key.\<close>

definition run_gate ::
  "string \<Rightarrow> (send_row \<Rightarrow> 'k option) \<Rightarrow> send_row \<Rightarrow> 'z ledger_scheme
     \<Rightarrow> ledger_error + ('z ledger_scheme \<times> DispatchSendGateResult)" where
  "run_gate who arbiter n l =
     (case insert_send arbiter n (l_sends l) of
        Inl e \<Rightarrow> Inl e
      | Inr (Some t) \<Rightarrow> Inr (l\<lparr>l_sends := t\<rparr>, Claim (s_id n) False)
      | Inr None \<Rightarrow>
          (case gate_existing who (find (\<lambda>r. arbiter r = arbiter n) (l_sends l)) of
             Inl e \<Rightarrow> Inl e
           | Inr g \<Rightarrow> Inr (l, g)))"

definition dispatchSendGate ::
  "(byte list \<Rightarrow> byte list) \<Rightarrow> instant \<Rightarrow> uuid \<Rightarrow> uuid \<Rightarrow> uuid \<Rightarrow> 'z ledger_scheme
     \<Rightarrow> ledger_error + ('z ledger_scheme \<times> DispatchSendGateResult)" where
  "dispatchSendGate sha1 now workspaceId campaignId contactId l =
     (let derivedId = deriveCampaignSendId sha1 workspaceId campaignId contactId
      in run_gate ''dispatchSendGate'' campaign_key
           (new_campaign_send derivedId workspaceId campaignId contactId now) l)"

definition claimFlowSendLedger ::
  "(byte list \<Rightarrow> byte list) \<Rightarrow> instant \<Rightarrow> uuid \<Rightarrow> uuid \<Rightarrow> string \<Rightarrow> uuid \<Rightarrow> 'z ledger_scheme
     \<Rightarrow> ledger_error + ('z ledger_scheme \<times> DispatchSendGateResult)" where
  "claimFlowSendLedger sha1 now workspaceId flowRunId nodeId contactId l =
     (let derivedId = deriveFlowSendId sha1 workspaceId flowRunId nodeId
      in run_gate ''claimFlowSend'' flow_key
           (new_flow_send derivedId workspaceId flowRunId nodeId contactId now) l)"

section \<open>The writes by id\<close>

text \<open>The rows a statement \<open>WHERE id = $1\<close> can see in a transaction scoped to \<open>tenant\<close>.\<close>

definition visible_id :: "uuid \<Rightarrow> uuid \<Rightarrow> send_row \<Rightarrow> bool" where
  "visible_id tenant sendId r = (s_workspaceId r = tenant \<and> s_id r = sendId)"

definition releaseDispatchClaim :: "uuid \<Rightarrow> uuid \<Rightarrow> 'z ledger_scheme \<Rightarrow> 'z ledger_scheme" where
  "releaseDispatchClaim tenant sendId l =
     l\<lparr>l_sends := delete_where (\<lambda>r. visible_id tenant sendId r \<and> s_status r = Dispatching)
        (l_sends l)\<rparr>"

datatype ResultStatus = RSent | RFailed | RReconciling

fun result_status :: "ResultStatus \<Rightarrow> SendStatus" where
  "result_status RSent = Sent"
| "result_status RFailed = Failed"
| "result_status RReconciling = Reconciling"

record SendResult =
  res_status :: ResultStatus
  res_providerMessageId :: "string option"
  res_dispatchedAt :: "instant option"
  res_dispatchDurationMs :: "int option"

definition write_result :: "instant \<Rightarrow> SendResult \<Rightarrow> send_row \<Rightarrow> send_row" where
  "write_result now result r =
     r\<lparr>s_status := result_status (res_status result),
       s_providerMessageId := res_providerMessageId result,
       s_sentAt := (if res_status result = RSent then Some now else s_sentAt r),
       s_reconcilingSince :=
         (if res_status result = RReconciling then coalesce (s_reconcilingSince r) (Some now)
          else s_reconcilingSince r),
       s_dispatchedAt := coalesce (res_dispatchedAt result) (s_dispatchedAt r),
       s_dispatchDurationMs :=
         coalesce (res_dispatchDurationMs result) (s_dispatchDurationMs r)\<rparr>"

definition recordSendResult ::
  "uuid \<Rightarrow> instant \<Rightarrow> uuid \<Rightarrow> SendResult \<Rightarrow> 'z ledger_scheme \<Rightarrow> 'z ledger_scheme" where
  "recordSendResult tenant now sendId result l =
     l\<lparr>l_sends := update_where (visible_id tenant sendId) (write_result now result) (l_sends l)\<rparr>"

definition recordFlowStepResult ::
  "uuid \<Rightarrow> instant \<Rightarrow> uuid \<Rightarrow> SendResult \<Rightarrow> 'z ledger_scheme \<Rightarrow> 'z ledger_scheme" where
  "recordFlowStepResult tenant now sendId result l =
     l\<lparr>l_sends := update_where (visible_id tenant sendId) (write_result now result) (l_sends l)\<rparr>"

datatype ResolveReconcilingVerdict = VResolveSent | VResolveUnknown

definition ambiguous_status :: "SendStatus \<Rightarrow> bool" where
  "ambiguous_status s = (s = Reconciling \<or> s = Unknown)"

fun write_resolution :: "ResolveReconcilingVerdict \<Rightarrow> send_row \<Rightarrow> send_row" where
  "write_resolution VResolveUnknown r = r\<lparr>s_status := Unknown\<rparr>"
| "write_resolution VResolveSent r =
     r\<lparr>s_status := Sent,
       s_sentAt := coalesce (s_dispatchedAt r)
                     (coalesce (s_reconcilingSince r) (Some (s_queuedAt r))),
       s_reconcilingSince := None\<rparr>"

text \<open>The guarded exits: the new ledger and whether a row was written.\<close>

definition resolveReconcilingSend ::
  "uuid \<Rightarrow> uuid \<Rightarrow> ResolveReconcilingVerdict \<Rightarrow> 'z ledger_scheme \<Rightarrow> 'z ledger_scheme \<times> bool" where
  "resolveReconcilingSend tenant sendId verdict l =
     (let p = (\<lambda>r. visible_id tenant sendId r \<and> ambiguous_status (s_status r))
      in (l\<lparr>l_sends := update_where p (write_resolution verdict) (l_sends l)\<rparr>,
          0 < row_count p (l_sends l)))"

definition sweepStaleDispatchingSend ::
  "uuid \<Rightarrow> instant \<Rightarrow> uuid \<Rightarrow> 'z ledger_scheme \<Rightarrow> 'z ledger_scheme \<times> bool" where
  "sweepStaleDispatchingSend tenant now sendId l =
     (let p = (\<lambda>r. visible_id tenant sendId r \<and> s_status r = Dispatching)
      in (l\<lparr>l_sends := update_where p
               (\<lambda>r. r\<lparr>s_status := Reconciling,
                      s_reconcilingSince := coalesce (s_reconcilingSince r) (Some now)\<rparr>)
               (l_sends l)\<rparr>,
          0 < row_count p (l_sends l)))"

section \<open>Exclusions\<close>

definition excludable :: "SendStatus \<Rightarrow> bool" where
  "excludable s = (s \<notin> {Sent, Dispatching, Failed, Reconciling, Unknown})"

definition exclude_existing ::
  "(send_row \<Rightarrow> bool) \<Rightarrow> string \<Rightarrow> send_row list \<Rightarrow> send_row list" where
  "exclude_existing p reason t =
     update_where (\<lambda>r. p r \<and> excludable (s_status r))
       (\<lambda>r. r\<lparr>s_status := Excluded, s_exclusionReason := Some reason\<rparr>) t"

text \<open>\<open>INSERT ... ON CONFLICT (arbiter) DO UPDATE ... WHERE\<close> of both exclusion writes.\<close>

definition run_exclude ::
  "(send_row \<Rightarrow> 'k option) \<Rightarrow> send_row \<Rightarrow> string \<Rightarrow> 'z ledger_scheme
     \<Rightarrow> ledger_error + 'z ledger_scheme" where
  "run_exclude arbiter n reason l =
     (case insert_send arbiter
             (n\<lparr>s_status := Excluded, s_exclusionReason := Some reason\<rparr>) (l_sends l) of
        Inl e \<Rightarrow> Inl e
      | Inr (Some t) \<Rightarrow> Inr (l\<lparr>l_sends := t\<rparr>)
      | Inr None \<Rightarrow>
          Inr (l\<lparr>l_sends := exclude_existing (\<lambda>r. arbiter r = arbiter n) reason (l_sends l)\<rparr>))"

definition recordExcluded ::
  "(byte list \<Rightarrow> byte list) \<Rightarrow> instant \<Rightarrow> uuid \<Rightarrow> uuid \<Rightarrow> uuid \<Rightarrow> string \<Rightarrow> 'z ledger_scheme
     \<Rightarrow> ledger_error + 'z ledger_scheme" where
  "recordExcluded sha1 now workspaceId campaignId contactId reason l =
     (let derivedId = deriveCampaignSendId sha1 workspaceId campaignId contactId
      in run_exclude campaign_key
           (new_campaign_send derivedId workspaceId campaignId contactId now) reason l)"

definition recordFlowExcluded ::
  "(byte list \<Rightarrow> byte list) \<Rightarrow> instant \<Rightarrow> uuid \<Rightarrow> uuid \<Rightarrow> string \<Rightarrow> uuid \<Rightarrow> string
     \<Rightarrow> 'z ledger_scheme \<Rightarrow> ledger_error + 'z ledger_scheme" where
  "recordFlowExcluded sha1 now workspaceId flowRunId nodeId contactId reason l =
     (let derivedId = deriveFlowSendId sha1 workspaceId flowRunId nodeId
      in run_exclude flow_key
           (new_flow_send derivedId workspaceId flowRunId nodeId contactId now) reason l)"

section \<open>Campaign counters and completion\<close>

datatype CounterStatus = CounterSent | CounterFailed

definition visible_campaign :: "uuid \<Rightarrow> uuid \<Rightarrow> campaign_row \<Rightarrow> bool" where
  "visible_campaign tenant campaignId c = (c_workspaceId c = tenant \<and> c_id c = campaignId)"

fun bump_counter :: "CounterStatus \<Rightarrow> instant \<Rightarrow> campaign_row \<Rightarrow> campaign_row" where
  "bump_counter CounterSent now c = c\<lparr>c_sentCount := c_sentCount c + 1, c_updatedAt := now\<rparr>"
| "bump_counter CounterFailed now c = c\<lparr>c_failedCount := c_failedCount c + 1, c_updatedAt := now\<rparr>"

definition incrementCampaignSendCounter ::
  "uuid \<Rightarrow> instant \<Rightarrow> uuid \<Rightarrow> CounterStatus \<Rightarrow> 'z ledger_scheme \<Rightarrow> 'z ledger_scheme" where
  "incrementCampaignSendCounter tenant now campaignId status l =
     l\<lparr>l_campaigns := update_where
         (\<lambda>c. visible_campaign tenant campaignId c \<and> c_status c = CSending)
         (bump_counter status now) (l_campaigns l)\<rparr>"

definition backfillCampaignSendCounter ::
  "uuid \<Rightarrow> instant \<Rightarrow> uuid \<Rightarrow> CounterStatus \<Rightarrow> 'z ledger_scheme \<Rightarrow> 'z ledger_scheme" where
  "backfillCampaignSendCounter tenant now campaignId status l =
     l\<lparr>l_campaigns := update_where (visible_campaign tenant campaignId)
         (bump_counter status now) (l_campaigns l)\<rparr>"

definition ambiguous_count :: "uuid \<Rightarrow> uuid \<Rightarrow> send_row list \<Rightarrow> nat" where
  "ambiguous_count tenant campaignId t =
     row_count (\<lambda>r. s_workspaceId r = tenant \<and> s_campaignId r = Some campaignId
                    \<and> ambiguous_status (s_status r)) t"

definition completable :: "uuid \<Rightarrow> uuid \<Rightarrow> send_row list \<Rightarrow> campaign_row \<Rightarrow> bool" where
  "completable tenant campaignId t c =
     (visible_campaign tenant campaignId c \<and> c_status c = CSending \<and> c_fanOutComplete c
      \<and> (case c_sendableTotal c of
            None \<Rightarrow> False
          | Some n \<Rightarrow> n \<le> c_sentCount c + c_failedCount c + ambiguous_count tenant campaignId t))"

definition tryCompleteCampaign ::
  "uuid \<Rightarrow> instant \<Rightarrow> uuid \<Rightarrow> 'z ledger_scheme \<Rightarrow> 'z ledger_scheme \<times> bool" where
  "tryCompleteCampaign tenant now campaignId l =
     (let p = completable tenant campaignId (l_sends l)
      in (l\<lparr>l_campaigns := update_where p
               (\<lambda>c. c\<lparr>c_status := CSent, c_terminalAt := Some now, c_updatedAt := now\<rparr>)
               (l_campaigns l)\<rparr>,
          0 < row_count p (l_campaigns l)))"

text \<open>\<open>GROUP BY exclusion_reason\<close>, the groups in the order of their first row.\<close>

definition audienceExclusionBreakdown ::
  "uuid \<Rightarrow> uuid \<Rightarrow> 'z ledger_scheme \<Rightarrow> (string option \<times> nat) list" where
  "audienceExclusionBreakdown workspaceId campaignId l =
     (let rows = filter (\<lambda>r. s_workspaceId r = workspaceId \<and> s_campaignId r = Some campaignId
                           \<and> s_status r = Excluded) (l_sends l)
      in map (\<lambda>reason. (reason, row_count (\<lambda>r. s_exclusionReason r = reason) rows))
             (remdups (map s_exclusionReason rows)))"


section \<open>Insertion\<close>

lemma insert_send_SomeD:
  assumes "insert_send k n t = Inr (Some t')"
  shows "t' = t @ [n]" and "\<forall>r \<in> set t. s_id r \<noteq> s_id n"
    and "\<forall>r \<in> set t. campaign_key r = campaign_key n \<longrightarrow> campaign_key r = None"
    and "\<forall>r \<in> set t. flow_key r = flow_key n \<longrightarrow> flow_key r = None"
proof -
  let ?other = "(\<exists>r \<in> set t. s_id r = s_id n)
    \<or> (\<exists>r \<in> set t. campaign_key r = campaign_key n \<and> campaign_key r \<noteq> None)
    \<or> (\<exists>r \<in> set t. flow_key r = flow_key n \<and> flow_key r \<noteq> None)"
  have arb: "\<not> (\<exists>r \<in> set t. k r = k n \<and> k r \<noteq> None)"
  proof
    assume "\<exists>r \<in> set t. k r = k n \<and> k r \<noteq> None"
    then have "insert_send k n t = Inr None" unfolding insert_send_def by (rule if_P)
    with assms show False by simp
  qed
  then have eq: "insert_send k n t = (if ?other then Inl UniqueViolation else Inr (Some (t @ [n])))"
    unfolding insert_send_def by (rule if_not_P)
  have none: "\<not> ?other"
  proof
    assume ?other
    with eq have "insert_send k n t = Inl UniqueViolation" by (simp only: if_True)
    with assms show False by simp
  qed
  with eq have "insert_send k n t = Inr (Some (t @ [n]))" by (simp only: if_False)
  with assms show "t' = t @ [n]" by simp
  from none show "\<forall>r \<in> set t. s_id r \<noteq> s_id n"
    and "\<forall>r \<in> set t. campaign_key r = campaign_key n \<longrightarrow> campaign_key r = None"
    and "\<forall>r \<in> set t. flow_key r = flow_key n \<longrightarrow> flow_key r = None"
    by blast+
qed

lemma insert_send_conflict:
  "insert_send k n t = Inr None \<longleftrightarrow> (\<exists>r \<in> set t. k r = k n \<and> k r \<noteq> None)"
  by (auto simp: insert_send_def)

lemma unique_key_insert:
  assumes "unique_key k t" "\<forall>r \<in> set t. k r = k n \<longrightarrow> k r = None"
  shows "unique_key k (t @ [n])"
  using assms by (cases "k n") (auto simp: unique_key_def)

lemma ledger_wf_insert:
  assumes "ledger_wf l" "insert_send k n (l_sends l) = Inr (Some t)"
  shows "ledger_wf (l\<lparr>l_sends := t\<rparr>)"
  using assms(1) insert_send_SomeD [OF assms(2)]
  by (auto simp: ledger_wf_def id_key_def intro: unique_key_insert)

text \<open>An update that leaves the three keys alone, and a deletion, keep the constraints.\<close>

lemma ledger_wf_update:
  assumes "ledger_wf l"
    and "\<And>r. p r \<Longrightarrow> s_id (f r) = s_id r \<and> campaign_key (f r) = campaign_key r
                    \<and> flow_key (f r) = flow_key r"
  shows "ledger_wf (l\<lparr>l_sends := update_where p f (l_sends l)\<rparr>)"
  using assms by (simp add: ledger_wf_def id_key_def unique_key_update)

lemma ledger_wf_delete:
  "ledger_wf l \<Longrightarrow> ledger_wf (l\<lparr>l_sends := delete_where p (l_sends l)\<rparr>)"
  by (simp add: ledger_wf_def unique_key_delete)

lemma ledger_wf_campaigns [simp]: "ledger_wf (l\<lparr>l_campaigns := cs\<rparr>) = ledger_wf l"
  by (simp add: ledger_wf_def)

text \<open>The fields a row update of the ledger leaves alone.\<close>

definition same_identity :: "send_row \<Rightarrow> send_row \<Rightarrow> bool" where
  "same_identity r r' =
     (s_id r' = s_id r \<and> s_workspaceId r' = s_workspaceId r \<and> s_campaignId r' = s_campaignId r
      \<and> s_contactId r' = s_contactId r \<and> s_kind r' = s_kind r \<and> s_flowRunId r' = s_flowRunId r
      \<and> s_nodeId r' = s_nodeId r \<and> s_queuedAt r' = s_queuedAt r)"

lemma same_identity_keys:
  "same_identity r r' \<Longrightarrow>
     s_id r' = s_id r \<and> campaign_key r' = campaign_key r \<and> flow_key r' = flow_key r"
  by (simp add: same_identity_def campaign_key_def flow_key_def split: option.split)

lemma same_identity_writes [simp]:
  "same_identity r (write_result now res r)"
  "same_identity r (write_resolution v r)"
  "same_identity r (r\<lparr>s_status := st, s_reconcilingSince := q\<rparr>)"
  "same_identity r (r\<lparr>s_status := st, s_exclusionReason := e\<rparr>)"
  by (simp_all add: same_identity_def write_result_def) (cases v; simp)

section \<open>Well-formedness is kept by every operation\<close>

lemma wf_run_gate: "ledger_wf l \<Longrightarrow> run_gate who k n l = Inr (l', g) \<Longrightarrow> ledger_wf l'"
  by (auto simp: run_gate_def ledger_wf_insert split: sum.splits option.splits)

lemma wf_dispatchSendGate [ledger_inv]:
  "ledger_wf l \<Longrightarrow> dispatchSendGate sha1 now w c k l = Inr (l', g) \<Longrightarrow> ledger_wf l'"
  unfolding dispatchSendGate_def Let_def by (rule wf_run_gate)

lemma wf_claimFlowSendLedger [ledger_inv]:
  "ledger_wf l \<Longrightarrow> claimFlowSendLedger sha1 now w f n k l = Inr (l', g) \<Longrightarrow> ledger_wf l'"
  unfolding claimFlowSendLedger_def Let_def by (rule wf_run_gate)

lemma wf_releaseDispatchClaim [ledger_inv]:
  "ledger_wf l \<Longrightarrow> ledger_wf (releaseDispatchClaim t i l)"
  by (simp add: releaseDispatchClaim_def ledger_wf_delete)

lemma wf_recordSendResult [ledger_inv]:
  "ledger_wf l \<Longrightarrow> ledger_wf (recordSendResult t now i res l)"
  unfolding recordSendResult_def
  by (erule ledger_wf_update) (simp add: same_identity_keys [OF same_identity_writes(1)])

lemma recordFlowStepResult_eq: "recordFlowStepResult = recordSendResult"
  by (simp add: fun_eq_iff recordFlowStepResult_def recordSendResult_def)

lemma wf_resolveReconcilingSend [ledger_inv]:
  "ledger_wf l \<Longrightarrow> ledger_wf (fst (resolveReconcilingSend t i v l))"
  unfolding resolveReconcilingSend_def Let_def fst_conv
  by (erule ledger_wf_update) (simp add: same_identity_keys [OF same_identity_writes(2)])

lemma wf_sweepStaleDispatchingSend [ledger_inv]:
  "ledger_wf l \<Longrightarrow> ledger_wf (fst (sweepStaleDispatchingSend t now i l))"
  unfolding sweepStaleDispatchingSend_def Let_def fst_conv
  by (erule ledger_wf_update) (simp add: same_identity_keys [OF same_identity_writes(3)])

lemma wf_exclude_existing:
  "ledger_wf l \<Longrightarrow> ledger_wf (l\<lparr>l_sends := exclude_existing p reason (l_sends l)\<rparr>)"
  unfolding exclude_existing_def
  by (erule ledger_wf_update) (simp add: same_identity_keys [OF same_identity_writes(4)])

lemma wf_run_exclude: "ledger_wf l \<Longrightarrow> run_exclude k n reason l = Inr l' \<Longrightarrow> ledger_wf l'"
  by (auto simp: run_exclude_def ledger_wf_insert wf_exclude_existing
        split: sum.splits option.splits)

lemma wf_recordExcluded [ledger_inv]:
  "ledger_wf l \<Longrightarrow> recordExcluded sha1 now w c k reason l = Inr l' \<Longrightarrow> ledger_wf l'"
  unfolding recordExcluded_def Let_def by (rule wf_run_exclude)

lemma wf_recordFlowExcluded [ledger_inv]:
  "ledger_wf l \<Longrightarrow> recordFlowExcluded sha1 now w f n k reason l = Inr l' \<Longrightarrow> ledger_wf l'"
  unfolding recordFlowExcluded_def Let_def by (rule wf_run_exclude)

lemma wf_counters [ledger_inv, simp]:
  "ledger_wf (incrementCampaignSendCounter t now c st l) = ledger_wf l"
  "ledger_wf (backfillCampaignSendCounter t now c st l) = ledger_wf l"
  "ledger_wf (fst (tryCompleteCampaign t now c l)) = ledger_wf l"
  by (simp_all add: incrementCampaignSendCounter_def backfillCampaignSendCounter_def
        tryCompleteCampaign_def Let_def)

section \<open>The ids a ledger holds\<close>

definition send_ids :: "'z ledger_scheme \<Rightarrow> uuid set" where
  "send_ids l = s_id ` set (l_sends l)"

lemma send_ids_map: "send_ids l = set (map s_id (l_sends l))"
  by (simp add: send_ids_def)

lemma send_ids_update:
  "(\<And>r. p r \<Longrightarrow> s_id (f r) = s_id r) \<Longrightarrow>
     send_ids (l\<lparr>l_sends := update_where p f (l_sends l)\<rparr>) = send_ids l"
  using map_update_where [of p s_id f "l_sends l"] by (simp add: send_ids_map del: set_map)

lemma send_ids_simps [ledger_frame]:
  "send_ids (recordSendResult t now i res l) = send_ids l"
  "send_ids (fst (resolveReconcilingSend t i v l)) = send_ids l"
  "send_ids (fst (sweepStaleDispatchingSend t now i l)) = send_ids l"
  "send_ids (l\<lparr>l_sends := exclude_existing p reason (l_sends l)\<rparr>) = send_ids l"
  unfolding recordSendResult_def resolveReconcilingSend_def sweepStaleDispatchingSend_def
    exclude_existing_def Let_def fst_conv
  by (rule send_ids_update; simp add: same_identity_keys [OF same_identity_writes(1)]
        same_identity_keys [OF same_identity_writes(2)])+

lemma send_ids_counters [ledger_frame]:
  "send_ids (incrementCampaignSendCounter t now c st l) = send_ids l"
  "send_ids (backfillCampaignSendCounter t now c st l) = send_ids l"
  "send_ids (fst (tryCompleteCampaign t now c l)) = send_ids l"
  by (simp_all add: send_ids_def incrementCampaignSendCounter_def
        backfillCampaignSendCounter_def tryCompleteCampaign_def Let_def)

lemma send_ids_release [ledger_frame]:
  "send_ids l - {i} \<subseteq> send_ids (releaseDispatchClaim t i l)"
  by (auto simp: send_ids_def releaseDispatchClaim_def visible_id_def)

lemma send_ids_insert:
  assumes "insert_send k n (l_sends l) = Inr (Some t)"
  shows "send_ids (l\<lparr>l_sends := t\<rparr>) = insert (s_id n) (send_ids l)" "s_id n \<notin> send_ids l"
  using insert_send_SomeD(1,2) [OF assms] by (auto simp: send_ids_def image_iff)

lemma s_id_new [simp]:
  "s_id (new_campaign_send i w c k now) = i" "s_id (new_flow_send i w f n k now) = i"
  by (simp_all add: new_campaign_send_def new_flow_send_def default_send_def)

lemma gate_existing_not_fresh: "gate_existing who r = Inr g \<Longrightarrow> g \<noteq> Claim i False"
  by (cases r) (auto simp: gate_existing_def split: if_splits, metis SendStatus.exhaust)

text \<open>A gate either takes a fresh id, or leaves the ledger as it is.\<close>

definition gate_effect ::
  "uuid \<Rightarrow> 'z ledger_scheme \<Rightarrow> 'z ledger_scheme \<Rightarrow> DispatchSendGateResult \<Rightarrow> bool" where
  "gate_effect i l l' g =
     ((g = Claim i False \<and> i \<notin> send_ids l \<and> send_ids l' = insert i (send_ids l))
      \<or> (l' = l \<and> (\<forall>j. g \<noteq> Claim j False)))"

lemma run_gate_ids:
  assumes "run_gate who k n l = Inr (l', g)"
  shows "gate_effect (s_id n) l l' g"
proof (cases "insert_send k n (l_sends l)")
  case (Inl e)
  with assms show ?thesis by (simp add: run_gate_def)
next
  case (Inr o')
  show ?thesis
  proof (cases o')
    case None
    with assms Inr show ?thesis
      by (auto simp: run_gate_def gate_effect_def dest: gate_existing_not_fresh
            split: sum.splits)
  next
    case (Some t)
    with Inr have "insert_send k n (l_sends l) = Inr (Some t)" by simp
    note send_ids_insert [OF this]
    with assms Inr Some show ?thesis by (auto simp: run_gate_def gate_effect_def)
  qed
qed

lemma dispatchSendGate_ids:
  "dispatchSendGate sha1 now w c k l = Inr (l', g) \<Longrightarrow>
     gate_effect (deriveCampaignSendId sha1 w c k) l l' g"
  unfolding dispatchSendGate_def Let_def by (drule run_gate_ids) simp

lemma claimFlowSendLedger_ids:
  "claimFlowSendLedger sha1 now w f n k l = Inr (l', g) \<Longrightarrow>
     gate_effect (deriveFlowSendId sha1 w f n) l l' g"
  unfolding claimFlowSendLedger_def Let_def by (drule run_gate_ids) simp

lemma run_exclude_ids:
  assumes "run_exclude k n reason l = Inr l'"
  shows "send_ids l \<subseteq> send_ids l'"
  using assms
  by (auto simp: run_exclude_def send_ids_simps dest: send_ids_insert(1)
        split: sum.splits option.splits)

lemma exclude_ids [ledger_frame]:
  "recordExcluded sha1 now w c k reason l = Inr l' \<Longrightarrow> send_ids l \<subseteq> send_ids l'"
  "recordFlowExcluded sha1 now w f n k reason l = Inr l' \<Longrightarrow> send_ids l \<subseteq> send_ids l'"
  unfolding recordExcluded_def recordFlowExcluded_def Let_def by (erule run_exclude_ids)+


section \<open>Status transitions\<close>

text \<open>Every row that survives from \<open>l\<close> to \<open>l'\<close> keeps its status or moves along an edge of the
  matrix that one of the writers \<open>W\<close> owns.\<close>

definition transitions_within ::
  "SendStatusWriter set \<Rightarrow> 'z ledger_scheme \<Rightarrow> 'z ledger_scheme \<Rightarrow> bool" where
  "transitions_within W l l' =
     (\<forall>r \<in> set (l_sends l). \<forall>r' \<in> set (l_sends l'). s_id r = s_id r' \<longrightarrow>
        s_status r' = s_status r \<or> (\<exists>w \<in> W. w \<in> set (writersFor (s_status r) (s_status r'))))"

lemma ledger_wf_same_id:
  "ledger_wf l \<Longrightarrow> r \<in> set (l_sends l) \<Longrightarrow> r' \<in> set (l_sends l) \<Longrightarrow> s_id r = s_id r' \<Longrightarrow> r = r'"
  unfolding ledger_wf_def by (rule unique_key_same [of id_key]) (simp_all add: id_key_def)

lemma ledger_wf_same_campaign_key:
  "ledger_wf l \<Longrightarrow> r \<in> set (l_sends l) \<Longrightarrow> r' \<in> set (l_sends l) \<Longrightarrow>
     campaign_key r = Some x \<Longrightarrow> campaign_key r' = Some x \<Longrightarrow> r = r'"
  unfolding ledger_wf_def by (rule unique_key_same [of campaign_key]) simp_all

lemma ledger_wf_same_flow_key:
  "ledger_wf l \<Longrightarrow> r \<in> set (l_sends l) \<Longrightarrow> r' \<in> set (l_sends l) \<Longrightarrow>
     flow_key r = Some x \<Longrightarrow> flow_key r' = Some x \<Longrightarrow> r = r'"
  unfolding ledger_wf_def by (rule unique_key_same [of flow_key]) simp_all

lemma transitions_within_refl: "ledger_wf l \<Longrightarrow> transitions_within W l l"
  unfolding transitions_within_def by (blast dest: ledger_wf_same_id)

lemma transitions_within_mono:
  "transitions_within W l l' \<Longrightarrow> W \<subseteq> W' \<Longrightarrow> transitions_within W' l l'"
  unfolding transitions_within_def by blast

lemma transitions_update:
  assumes wf: "ledger_wf l"
    and f: "\<And>r. r \<in> set (l_sends l) \<Longrightarrow> p r \<Longrightarrow> s_id (f r) = s_id r \<and>
              (s_status (f r) = s_status r
               \<or> (\<exists>w \<in> W. w \<in> set (writersFor (s_status r) (s_status (f r)))))"
  shows "transitions_within W l (l\<lparr>l_sends := update_where p f (l_sends l)\<rparr>)"
  unfolding transitions_within_def
proof (intro ballI impI)
  fix r r'
  assume r: "r \<in> set (l_sends l)" and eq: "s_id r = s_id r'"
    and "r' \<in> set (l_sends (l\<lparr>l_sends := update_where p f (l_sends l)\<rparr>))"
  then obtain q where q: "q \<in> set (l_sends l)" "r' = (if p q then f q else q)"
    by (auto simp: set_update_where)
  then have "s_id q = s_id r" using f eq by (auto split: if_splits)
  then have "q = r" using ledger_wf_same_id [OF wf] q r by blast
  then show "s_status r' = s_status r
      \<or> (\<exists>w \<in> W. w \<in> set (writersFor (s_status r) (s_status r')))"
    using q f by auto
qed

lemma transitions_delete:
  "ledger_wf l \<Longrightarrow> transitions_within W l (l\<lparr>l_sends := delete_where p (l_sends l)\<rparr>)"
  unfolding transitions_within_def by (auto dest: ledger_wf_same_id)

lemma transitions_insert:
  assumes "ledger_wf l" "insert_send k n (l_sends l) = Inr (Some t)"
  shows "transitions_within W l (l\<lparr>l_sends := t\<rparr>)"
  using insert_send_SomeD(1,2) [OF assms(2)] ledger_wf_same_id [OF assms(1)]
  unfolding transitions_within_def by auto

lemma transitions_gate:
  assumes "ledger_wf l" "run_gate who k n l = Inr (l', g)"
  shows "transitions_within W l l'"
  using assms
  by (auto simp: run_gate_def transitions_insert transitions_within_refl
        split: sum.splits option.splits)

lemma transitions_exclude_existing:
  "ledger_wf l \<Longrightarrow> transitions_within W l (l\<lparr>l_sends := exclude_existing p reason (l_sends l)\<rparr>)"
  unfolding exclude_existing_def
proof (erule transitions_update)
  fix r assume "p r \<and> excludable (s_status r)"
  then have "s_status r = Excluded" by (cases "s_status r") (simp_all add: excludable_def)
  then show "s_id (r\<lparr>s_status := Excluded, s_exclusionReason := Some reason\<rparr>) = s_id r \<and>
      (s_status (r\<lparr>s_status := Excluded, s_exclusionReason := Some reason\<rparr>) = s_status r \<or>
       (\<exists>w \<in> W. w \<in> set (writersFor (s_status r)
          (s_status (r\<lparr>s_status := Excluded, s_exclusionReason := Some reason\<rparr>)))))"
    by simp
qed

lemma transitions_exclude:
  assumes "ledger_wf l" "run_exclude k n reason l = Inr l'"
  shows "transitions_within W l l'"
  using assms
  by (auto simp: run_exclude_def transitions_insert transitions_exclude_existing
        split: sum.splits option.splits)

lemma transitions_release: "ledger_wf l \<Longrightarrow> transitions_within W l (releaseDispatchClaim t i l)"
  unfolding releaseDispatchClaim_def by (rule transitions_delete)

lemma transitions_resolve:
  "ledger_wf l \<Longrightarrow> transitions_within {Reconciler} l (fst (resolveReconcilingSend t i v l))"
  unfolding resolveReconcilingSend_def Let_def fst_conv
  by (erule transitions_update, cases v) (auto simp: ambiguous_status_def writersFor_cases)

lemma transitions_sweep:
  "ledger_wf l \<Longrightarrow> transitions_within {Reconciler} l (fst (sweepStaleDispatchingSend t now i l))"
  unfolding sweepStaleDispatchingSend_def Let_def fst_conv
  by (erule transitions_update) (auto simp: writersFor_cases)

text \<open>The worker's record has no status guard: it stays inside the matrix where the row it hits is
  still \<open>dispatching\<close>.\<close>

lemma transitions_record:
  assumes "ledger_wf l"
    and "\<And>r. r \<in> set (l_sends l) \<Longrightarrow> visible_id t i r \<Longrightarrow> s_status r = Dispatching"
  shows "transitions_within {Worker} l (recordSendResult t now i res l)"
  unfolding recordSendResult_def
  by (rule transitions_update [OF assms(1)], cases "res_status res")
     (auto simp: write_result_def assms(2) writersFor_cases)

section \<open>What the gates return\<close>

lemma run_gate_existing:
  assumes "r \<in> set (l_sends l)" "k r = k n" "k n \<noteq> None"
    and "\<And>q. q \<in> set (l_sends l) \<Longrightarrow> k q = k n \<Longrightarrow> q = r"
  shows "run_gate who k n l =
           Inr (l, if s_status r = Dispatching then Claim (s_id r) True else Skipped)"
proof -
  have "k r \<noteq> None" using assms(2,3) by (simp only: not_False_eq_True)
  then have "\<exists>r \<in> set (l_sends l). k r = k n \<and> k r \<noteq> None" using assms(1,2) by blast
  then have "insert_send k n (l_sends l) = Inr None" by (simp only: insert_send_conflict)
  moreover have "find (\<lambda>r. k r = k n) (l_sends l) = Some r"
    by (rule find_unique) (fact assms)+
  ultimately show ?thesis by (cases "s_status r") (simp_all add: run_gate_def gate_existing_def)
qed

lemma insert_send_fresh:
  assumes "\<forall>r \<in> set t. s_id r \<noteq> s_id n"
    and "\<forall>r \<in> set t. campaign_key r = campaign_key n \<longrightarrow> campaign_key r = None"
    and "\<forall>r \<in> set t. flow_key r = flow_key n \<longrightarrow> flow_key r = None"
    and "\<forall>r \<in> set t. k r = k n \<longrightarrow> k r = None"
  shows "insert_send k n t = Inr (Some (t @ [n]))"
proof -
  have A: "\<not> (\<exists>r \<in> set t. k r = k n \<and> k r \<noteq> None)" using assms(4) by metis
  have B2: "\<not> (\<exists>r \<in> set t. campaign_key r = campaign_key n \<and> campaign_key r \<noteq> None)"
    using assms(2) by metis
  have B3: "\<not> (\<exists>r \<in> set t. flow_key r = flow_key n \<and> flow_key r \<noteq> None)"
    using assms(3) by metis
  have B: "\<not> ((\<exists>r \<in> set t. s_id r = s_id n)
     \<or> (\<exists>r \<in> set t. campaign_key r = campaign_key n \<and> campaign_key r \<noteq> None)
     \<or> (\<exists>r \<in> set t. flow_key r = flow_key n \<and> flow_key r \<noteq> None))"
    using assms(1) B2 B3 by metis
  show ?thesis unfolding insert_send_def if_not_P [OF A] if_not_P [OF B] by simp
qed

lemma key_new [simp]:
  "campaign_key (new_campaign_send i w c k now) = Some (w, c, k)"
  "flow_key (new_campaign_send i w c k now) = None"
  "campaign_key (new_flow_send i w f n k now) = None"
  "flow_key (new_flow_send i w f n k now) = Some (w, f, n)"
  "s_status (new_campaign_send i w c k now) = Dispatching"
  "s_status (new_flow_send i w f n k now) = Dispatching"
  "s_workspaceId (new_campaign_send i w c k now) = w"
  "s_workspaceId (new_flow_send i w f n k now) = w"
  by (simp_all add: new_campaign_send_def new_flow_send_def default_send_def campaign_key_def
        flow_key_def)

text \<open>Releasing a claim that was just taken restores the ledger exactly.\<close>

lemma release_run_gate:
  assumes "run_gate who k n l = Inr (l', Claim i False)"
    and "s_status n = Dispatching"
  shows "releaseDispatchClaim (s_workspaceId n) i l' = l"
proof -
  have "gate_effect (s_id n) l l' (Claim i False)" by (rule run_gate_ids [OF assms(1)])
  then have i: "i = s_id n" "i \<notin> send_ids l" by (auto simp: gate_effect_def)
  have "l' = l\<lparr>l_sends := l_sends l @ [n]\<rparr>"
    using assms(1)
    by (auto simp: run_gate_def dest: gate_existing_not_fresh insert_send_SomeD(1)
          split: sum.splits option.splits)
  moreover have "delete_where (\<lambda>r. visible_id (s_workspaceId n) i r \<and> s_status r = Dispatching)
                   (l_sends l @ [n]) = l_sends l"
    using i assms(2) by (auto simp: delete_where_def visible_id_def send_ids_def
          filter_id_conv image_iff)
  ultimately show ?thesis by (simp add: releaseDispatchClaim_def)
qed

section \<open>Tenant isolation\<close>

definition other_sends :: "uuid \<Rightarrow> 'z ledger_scheme \<Rightarrow> send_row list" where
  "other_sends t l = filter (\<lambda>r. s_workspaceId r \<noteq> t) (l_sends l)"

definition other_campaigns :: "uuid \<Rightarrow> 'z ledger_scheme \<Rightarrow> campaign_row list" where
  "other_campaigns t l = filter (\<lambda>c. c_workspaceId c \<noteq> t) (l_campaigns l)"

lemma filter_update_other:
  assumes "\<And>r. p r \<Longrightarrow> \<not> q r" "\<And>r. p r \<Longrightarrow> \<not> q (f r)"
  shows "filter q (update_where p f t) = filter q t"
  by (induction t) (use assms in auto)

lemma other_sends_update:
  assumes "\<And>r. p r \<Longrightarrow> s_workspaceId r = t \<and> s_workspaceId (f r) = t"
  shows "other_sends t (l\<lparr>l_sends := update_where p f (l_sends l)\<rparr>) = other_sends t l"
  unfolding other_sends_def using assms by (simp add: filter_update_other)

lemma isolation_gate [ledger_frame]:
  assumes "run_gate who k n l = Inr (l', g)"
  shows "other_sends (s_workspaceId n) l' = other_sends (s_workspaceId n) l"
  using assms
  by (auto simp: run_gate_def other_sends_def dest!: insert_send_SomeD(1)
        split: sum.splits option.splits)

lemma isolation_writes [ledger_frame]:
  "other_sends t (releaseDispatchClaim t i l) = other_sends t l"
  "other_sends t (recordSendResult t now i res l) = other_sends t l"
  "other_sends t (fst (resolveReconcilingSend t i v l)) = other_sends t l"
  "other_sends t (fst (sweepStaleDispatchingSend t now i l)) = other_sends t l"
proof -
  show "other_sends t (releaseDispatchClaim t i l) = other_sends t l"
    by (auto simp: other_sends_def releaseDispatchClaim_def delete_where_def visible_id_def
          intro: filter_cong)
  show "other_sends t (recordSendResult t now i res l) = other_sends t l"
    unfolding recordSendResult_def
    by (rule other_sends_update) (simp add: visible_id_def write_result_def)
  show "other_sends t (fst (resolveReconcilingSend t i v l)) = other_sends t l"
    unfolding resolveReconcilingSend_def Let_def fst_conv
    by (rule other_sends_update, cases v) (auto simp: visible_id_def)
  show "other_sends t (fst (sweepStaleDispatchingSend t now i l)) = other_sends t l"
    unfolding sweepStaleDispatchingSend_def Let_def fst_conv
    by (rule other_sends_update) (simp add: visible_id_def)
qed

lemma key_workspace:
  "campaign_key r = Some (w, c, k) \<Longrightarrow> s_workspaceId r = w"
  "flow_key r = Some (w, f, n) \<Longrightarrow> s_workspaceId r = w"
  by (auto simp: campaign_key_def flow_key_def split: option.splits if_splits)

lemma isolation_exclude:
  assumes "run_exclude key n reason l = Inr l'" "s_workspaceId n = t"
    and "\<And>r. key r = key n \<Longrightarrow> s_workspaceId r = t"
  shows "other_sends t l' = other_sends t l"
proof -
  have "other_sends t (l\<lparr>l_sends := exclude_existing (\<lambda>r. key r = key n) reason (l_sends l)\<rparr>)
        = other_sends t l"
    unfolding exclude_existing_def by (rule other_sends_update) (use assms(3) in simp)
  with assms(1,2) show ?thesis
    by (auto simp: run_exclude_def other_sends_def dest!: insert_send_SomeD(1)
          split: sum.splits option.splits)
qed

section \<open>Completion\<close>

lemma tryComplete_once: "snd (tryCompleteCampaign t now' c (fst (tryCompleteCampaign t now c l))) = False"
proof -
  let ?p = "completable t c (l_sends l)"
  let ?f = "\<lambda>x. x\<lparr>c_status := CSent, c_terminalAt := Some now, c_updatedAt := now\<rparr>"
  have done_: "\<not> ?p (?f x)" for x by (simp add: completable_def)
  have "\<not> ?p x" if x: "x \<in> set (update_where ?p ?f (l_campaigns l))" for x
  proof -
    obtain y where "x = (if ?p y then ?f y else y)" using x by (auto simp: set_update_where)
    then show ?thesis using done_ by (cases "?p y") (simp_all only: if_True if_False not_False_eq_True)
  qed
  then have "row_count ?p (update_where ?p ?f (l_campaigns l)) = 0"
    by (simp add: row_count_zero)
  then show ?thesis by (simp add: tryCompleteCampaign_def Let_def)
qed

section \<open>Properties\<close>

text \<open>A claim of a recipient whose row already exists never writes the ledger, and it hands the
  row out again only where an earlier attempt left it \<open>dispatching\<close>, flagged as interrupted;
  a finished or ambiguous send is skipped.\<close>

theorem dispatchSendGate_existing_row:
  assumes "ledger_wf l" "r \<in> set (l_sends l)"
    and "s_workspaceId r = w" "s_campaignId r = Some c" "s_contactId r = k"
  shows "dispatchSendGate sha1 now w c k l =
           Inr (l, if s_status r = Dispatching then Claim (s_id r) True else Skipped)"
proof -
  let ?n = "new_campaign_send (deriveCampaignSendId sha1 w c k) w c k now"
  have key: "campaign_key r = Some (w, c, k)" using assms(3-5) by (simp add: campaign_key_def)
  have uniq: "q = r" if "q \<in> set (l_sends l)" "campaign_key q = campaign_key ?n" for q
    using ledger_wf_same_campaign_key [OF assms(1) that(1) assms(2)] that(2) key by simp
  show ?thesis unfolding dispatchSendGate_def Let_def
    by (rule run_gate_existing [OF assms(2)]) (simp_all add: key uniq)
qed

definition example_send :: send_row where
  "example_send = new_campaign_send ''s1'' ''w1'' ''c1'' ''k1'' 5"

definition example_ledger :: ledger where
  "example_ledger = \<lparr>l_sends = [example_send], l_campaigns = []\<rparr>"

lemma example_ledger_wf: "ledger_wf example_ledger"
  by (simp add: ledger_wf_def example_ledger_def unique_key_def)

lemma derive_has_dash: "CHR ''-'' \<in> set (deriveCampaignSendId sha1 w c k)"
  by (simp add: deriveCampaignSendId_def uuid5_of_def formatUuid_def Let_def)

lemma dash_not_s1: "CHR ''-'' \<notin> set ''s1''"
  by simp

lemma example_send_fields:
  "example_send \<in> set (l_sends example_ledger)" "s_workspaceId example_send = ''w1''"
  "s_campaignId example_send = Some ''c1''" "s_contactId example_send = ''k1''"
  "s_status example_send = Dispatching" "s_id example_send = ''s1''"
  by (simp_all add: example_ledger_def example_send_def new_campaign_send_def default_send_def)

theorem dispatchSendGate_existing_row_witness:
  "dispatchSendGate (\<lambda>b. b) 9 ''w1'' ''c1'' ''k1'' example_ledger
     = Inr (example_ledger, Claim ''s1'' True)"
  using dispatchSendGate_existing_row [OF example_ledger_wf example_send_fields(1-4)]
  by (simp add: example_send_fields)

text \<open>Releasing a claim that a gate has just taken restores the ledger exactly, so that a
  deferred job's next attempt claims afresh.\<close>

theorem release_restores_ledger:
  assumes "dispatchSendGate sha1 now w c k l = Inr (l', Claim i False)"
  shows "releaseDispatchClaim w i l' = l"
  using release_run_gate [OF assms [unfolded dispatchSendGate_def Let_def]] by simp

theorem release_restores_ledger_witness:
  "\<exists>l'. dispatchSendGate (\<lambda>b. b) 9 ''w1'' ''c1'' ''k2'' example_ledger
       = Inr (l', Claim (deriveCampaignSendId (\<lambda>b. b) ''w1'' ''c1'' ''k2'') False)
     \<and> releaseDispatchClaim ''w1'' (deriveCampaignSendId (\<lambda>b. b) ''w1'' ''c1'' ''k2'') l'
       = example_ledger"
proof -
  let ?n = "new_campaign_send (deriveCampaignSendId (\<lambda>b. b) ''w1'' ''c1'' ''k2'') ''w1'' ''c1'' ''k2'' 9"
  have dash: "deriveCampaignSendId (\<lambda>b. b) ''w1'' ''c1'' ''k2'' \<noteq> ''s1''"
    using derive_has_dash by (metis dash_not_s1)
  have "dispatchSendGate (\<lambda>b. b) 9 ''w1'' ''c1'' ''k2'' example_ledger
       = Inr (example_ledger\<lparr>l_sends := l_sends example_ledger @ [?n]\<rparr>, Claim (s_id ?n) False)"
    unfolding dispatchSendGate_def Let_def run_gate_def
    using dash
    by (subst insert_send_fresh) (simp_all add: example_ledger_def example_send_def)
  then have *: "dispatchSendGate (\<lambda>b. b) 9 ''w1'' ''c1'' ''k2'' example_ledger
       = Inr (example_ledger\<lparr>l_sends := l_sends example_ledger @ [?n]\<rparr>,
              Claim (deriveCampaignSendId (\<lambda>b. b) ''w1'' ''c1'' ''k2'') False)" by simp
  from release_restores_ledger [OF *] * show ?thesis by blast
qed

text \<open>A campaign moves to \<open>sent\<close> at most once: after a completion attempt, another attempt on
  the same ledger writes nothing.\<close>

theorem completion_fires_once:
  "snd (tryCompleteCampaign t now' c (fst (tryCompleteCampaign t now c l))) = False"
  by (rule tryComplete_once)

text \<open>The worker's record write has no status guard: where the row it hits has left
  \<open>dispatching\<close> (a redelivered attempt or the reconciler got there first) and the status differs, the
  write takes an edge that the transition matrix does not give to the worker.\<close>

theorem late_record_leaves_matrix:
  assumes "r \<in> set (l_sends l)" "visible_id t i r" "s_status r \<noteq> Dispatching"
    and "result_status (res_status res) \<noteq> s_status r"
  shows "\<not> transitions_within {Worker} l (recordSendResult t now i res l)"
proof
  assume "transitions_within {Worker} l (recordSendResult t now i res l)"
  moreover have "write_result now res r \<in> set (l_sends (recordSendResult t now i res l))"
    using assms(1,2) by (auto simp: recordSendResult_def set_update_where)
  moreover have "s_id (write_result now res r) = s_id r"
    "s_status (write_result now res r) = result_status (res_status res)"
    by (simp_all add: write_result_def)
  ultimately show False using assms(1,3,4)
    unfolding transitions_within_def by (fastforce simp: writersFor_cases split: if_splits)
qed

theorem late_record_leaves_matrix_witness:
  "\<not> transitions_within {Worker}
       \<lparr>l_sends = [example_send\<lparr>s_status := Sent\<rparr>], l_campaigns = []\<rparr>
       (recordSendResult ''w1'' 9 ''s1''
          \<lparr>res_status = RFailed, res_providerMessageId = None, res_dispatchedAt = None,
           res_dispatchDurationMs = None\<rparr>
          \<lparr>l_sends = [example_send\<lparr>s_status := Sent\<rparr>], l_campaigns = []\<rparr>)"
  by (rule late_record_leaves_matrix [of "example_send\<lparr>s_status := Sent\<rparr>"])
     (simp_all add: visible_id_def example_send_fields)

end
