(* ===== verification/Flow_Definition.thy ===== *)
theory Flow_Definition
  imports Crm_Prelude
begin

text \<open>
  The flow definition of \<open>packages/flows-core/src/flow-definition-schema.ts\<close>: the node and edge
  model that the canvas, the publish route and the flow engine share. A \<open>discriminatedUnion\<close> is a
  datatype, and the constraints of the schema are the predicate \<open>flowDefinitionSchema\<close>; the formats
  \<open>uuid\<close> and \<open>email\<close> of the schema library are its arguments.
\<close>

record FlowNodePosition =
  pos_x :: jsnum
  pos_y :: jsnum

datatype FlowTriggerType = EventTrigger | SegmentTrigger

datatype FlowDelayUnit = Minutes | Hours | Days

datatype FlowDelay =
    FixedDelay (delay_amount: int) (delay_unit: FlowDelayUnit)
  | WaitUntilDelay (delay_timeOfDay: int) (delay_dayOfWeek: "int option")

datatype FlowNode =
    TriggerNode (node_id: string) (node_triggerType: FlowTriggerType)
      (node_eventName: "string option") (node_segmentId: "uuid option") (node_position: FlowNodePosition)
  | DelayNode (node_id: string) (node_delay: FlowDelay) (node_position: FlowNodePosition)
  | BranchNode (node_id: string) (branch_segmentId: uuid) (node_position: FlowNodePosition)
  | SendNode (node_id: string) (send_templateId: "string option") (send_fromSenderId: "string option")
      (send_fromEmail: "string option") (node_position: FlowNodePosition)
  | ExitNode (node_id: string) (node_position: FlowNodePosition)

datatype SourceHandle = HYes | HNo

record FlowEdge =
  edge_id :: string
  edge_source :: string
  edge_target :: string
  edge_sourceHandle :: "SourceHandle option"

record FlowDefinition =
  fd_nodes :: "FlowNode list"
  fd_edges :: "FlowEdge list"

fun is_trigger :: "FlowNode \<Rightarrow> bool" where
  "is_trigger (TriggerNode i t e s p) = True"
| "is_trigger _ = False"

fun is_branch :: "FlowNode \<Rightarrow> bool" where
  "is_branch (BranchNode i s p) = True"
| "is_branch _ = False"

fun is_exit :: "FlowNode \<Rightarrow> bool" where
  "is_exit (ExitNode i p) = True"
| "is_exit _ = False"

text \<open>The \<open>type\<close> tag of a node.\<close>

fun node_type :: "FlowNode \<Rightarrow> string" where
  "node_type (TriggerNode i t e s p) = ''trigger''"
| "node_type (DelayNode i d p) = ''delay''"
| "node_type (BranchNode i s p) = ''branch''"
| "node_type (SendNode i t s e p) = ''send''"
| "node_type (ExitNode i p) = ''exit''"

section \<open>The schema's constraints\<close>

text \<open>\<open>z.string().min(1).optional()\<close> and its refinements: absent, or of the format.\<close>

definition optional :: "('a \<Rightarrow> bool) \<Rightarrow> 'a option \<Rightarrow> bool" where
  "optional p v = (case v of None \<Rightarrow> True | Some x \<Rightarrow> p x)"

fun flowDelaySchema :: "FlowDelay \<Rightarrow> bool" where
  "flowDelaySchema (FixedDelay amount unit) = (0 < amount)"
| "flowDelaySchema (WaitUntilDelay timeOfDay dayOfWeek) =
     (0 \<le> timeOfDay \<and> timeOfDay \<le> 1439 \<and> optional (\<lambda>d. 0 \<le> d \<and> d \<le> 6) dayOfWeek)"

fun flowNodeSchema :: "(string \<Rightarrow> bool) \<Rightarrow> (string \<Rightarrow> bool) \<Rightarrow> FlowNode \<Rightarrow> bool" where
  "flowNodeSchema is_uuid is_email (TriggerNode i t e s p) =
     (i \<noteq> [] \<and> optional (\<lambda>x. x \<noteq> []) e \<and> optional is_uuid s)"
| "flowNodeSchema is_uuid is_email (DelayNode i d p) = (i \<noteq> [] \<and> flowDelaySchema d)"
| "flowNodeSchema is_uuid is_email (BranchNode i s p) = (i \<noteq> [] \<and> is_uuid s)"
| "flowNodeSchema is_uuid is_email (SendNode i t s e p) =
     (i \<noteq> [] \<and> optional (\<lambda>x. x \<noteq> []) t \<and> optional (\<lambda>x. x \<noteq> []) s \<and> optional is_email e)"
| "flowNodeSchema is_uuid is_email (ExitNode i p) = (i \<noteq> [])"

definition flowEdgeSchema :: "FlowEdge \<Rightarrow> bool" where
  "flowEdgeSchema e = (edge_id e \<noteq> [] \<and> edge_source e \<noteq> [] \<and> edge_target e \<noteq> [])"

definition flowDefinitionSchema ::
  "(string \<Rightarrow> bool) \<Rightarrow> (string \<Rightarrow> bool) \<Rightarrow> FlowDefinition \<Rightarrow> bool" where
  "flowDefinitionSchema is_uuid is_email d =
     (list_all (flowNodeSchema is_uuid is_email) (fd_nodes d) \<and> list_all flowEdgeSchema (fd_edges d))"

lemma schema_node_id: "flowNodeSchema u e n \<Longrightarrow> node_id n \<noteq> []"
  by (cases n) simp_all

end
