(* ===== verification/Segments.thy ===== *)
theory Segments
  imports Crm_Prelude
begin

text \<open>
  Segments: the definition a tenant builds (\<open>packages/shared-schemas/src/segment.ts\<close>,
  \<open>packages/segments-core/src/types.ts\<close>) and its compilation into a parameterised SQL \<open>WHERE\<close>
  (\<open>compile.ts\<close>, \<open>operators.ts\<close>), through which every count, list and membership check goes. The
  clause is built here as the sequence of tokens the code concatenates: the comparisons as atoms, the
  connectives and the parentheses as themselves. A reader of such sequences gives a clause its
  meaning: the precedence of \<open>AND\<close> over \<open>OR\<close>, the parentheses, and the three truth values of SQL
  (\<open>Segment_Query\<close> says what the atoms mean).
\<close>

section \<open>Definitions\<close>

datatype ConditionOperator =
    OpEq | OpNeq | OpContains | OpNotContains | OpIsEmpty | OpIsNotEmpty
  | OpGt | OpGte | OpLt | OpLte | OpIsTrue | OpIsFalse
  | OpBefore | OpAfter | OpInLastDays | OpHasTag | OpNotHasTag
  | OpUnknown string

definition conditionOperatorSchema :: "ConditionOperator list" where
  "conditionOperatorSchema =
     [OpEq, OpNeq, OpContains, OpNotContains, OpIsEmpty, OpIsNotEmpty, OpGt, OpGte, OpLt, OpLte,
      OpIsTrue, OpIsFalse, OpBefore, OpAfter, OpInLastDays, OpHasTag, OpNotHasTag]"

datatype FieldSource = StandardField | CustomField

record AttributeCondition =
  ac_source :: FieldSource
  ac_field :: string
  ac_operator :: ConditionOperator
  ac_value :: js

datatype CountOperator = CountAtLeast | CountNone

datatype Timeframe = LastDays int | AllTime

record BehavioralCondition =
  bc_eventName :: string
  bc_countOperator :: CountOperator
  bc_count :: "int option"
  bc_timeframe :: Timeframe

datatype SegmentCondition = Attribute AttributeCondition | Behavioral BehavioralCondition

datatype GroupCombinator = CombineAnd | CombineOr

record SegmentDefinition =
  sd_groupCombinator :: "GroupCombinator option"
  sd_groups :: "SegmentCondition list list"

subsection \<open>The schema at the boundary\<close>

definition STANDARD_FIELD_KEYS :: "string list" where
  "STANDARD_FIELD_KEYS =
     [''country'', ''city'', ''firstName'', ''lastName'', ''phone'', ''subscriptionStatus'', ''tags'']"

definition attributeConditionSchema :: "AttributeCondition \<Rightarrow> bool" where
  "attributeConditionSchema c =
     (ac_operator c \<in> set conditionOperatorSchema
      \<and> (case ac_source c of
            StandardField \<Rightarrow> ac_field c \<in> set STANDARD_FIELD_KEYS
          | CustomField \<Rightarrow> js_trim (ac_field c) \<noteq> []))"

definition behavioralConditionSchema :: "BehavioralCondition \<Rightarrow> bool" where
  "behavioralConditionSchema c =
     (bc_eventName c \<noteq> []
      \<and> (case bc_count c of None \<Rightarrow> True | Some n \<Rightarrow> 1 \<le> n)
      \<and> (case bc_timeframe c of LastDays d \<Rightarrow> 1 \<le> d | AllTime \<Rightarrow> True))"

fun segmentConditionSchema :: "SegmentCondition \<Rightarrow> bool" where
  "segmentConditionSchema (Attribute c) = attributeConditionSchema c"
| "segmentConditionSchema (Behavioral c) = behavioralConditionSchema c"

definition segmentDefinitionSchema :: "SegmentDefinition \<Rightarrow> bool" where
  "segmentDefinitionSchema d =
     (sd_groups d \<noteq> []
      \<and> list_all (\<lambda>g. g \<noteq> [] \<and> list_all segmentConditionSchema g) (sd_groups d))"

section \<open>Compilation\<close>

datatype segment_error = UnknownField string | UnknownOperator string

definition STANDARD_FIELD_COLUMNS :: "(string \<times> string) list" where
  "STANDARD_FIELD_COLUMNS =
     [(''country'', ''c.country''), (''city'', ''c.city''), (''firstName'', ''c.first_name''),
      (''lastName'', ''c.last_name''), (''phone'', ''c.phone''),
      (''subscriptionStatus'', ''c.subscription_status''), (''tags'', ''c.tags'')]"

text \<open>A bind parameter is named by its position, from 1.\<close>

datatype sql_column = FixedColumn string | PropertyColumn nat

datatype sql_atom =
    WorkspaceIs nat
  | NotAnonymized
  | Compare sql_column ConditionOperator "nat option"
  | EventsExist bool nat "nat option" "nat option"

type_synonym params = "js list"

text \<open>\<open>String(value)\<close> is the language's conversion, the argument \<open>to_string\<close>.\<close>

definition escapeLikeWildcards :: "(js \<Rightarrow> string) \<Rightarrow> js \<Rightarrow> string" where
  "escapeLikeWildcards to_string value =
     concat (map (\<lambda>c. if c \<in> {char_of (92 :: nat), CHR ''%'', CHR ''_''} then [char_of (92 :: nat), c]
                      else [c]) (to_string value))"

definition like_pattern :: "(js \<Rightarrow> string) \<Rightarrow> js \<Rightarrow> js" where
  "like_pattern to_string value = JStr (''%'' @ escapeLikeWildcards to_string value @ ''%'')"

definition push :: "js \<Rightarrow> params \<Rightarrow> params \<times> nat" where
  "push v ps = (ps @ [v], Suc (length ps))"

definition compare_pushed ::
  "sql_column \<Rightarrow> ConditionOperator \<Rightarrow> js \<Rightarrow> params \<Rightarrow> segment_error + (params \<times> sql_atom)" where
  "compare_pushed column op v ps =
     (let (ps', n) = push v ps in Inr (ps', Compare column op (Some n)))"

fun compileOperator ::
  "(js \<Rightarrow> string) \<Rightarrow> sql_column \<Rightarrow> ConditionOperator \<Rightarrow> js \<Rightarrow> params
     \<Rightarrow> segment_error + (params \<times> sql_atom)" where
  "compileOperator ts column OpContains value ps = compare_pushed column OpContains (like_pattern ts value) ps"
| "compileOperator ts column OpNotContains value ps =
     compare_pushed column OpNotContains (like_pattern ts value) ps"
| "compileOperator ts column OpIsEmpty value ps = Inr (ps, Compare column OpIsEmpty None)"
| "compileOperator ts column OpIsNotEmpty value ps = Inr (ps, Compare column OpIsNotEmpty None)"
| "compileOperator ts column OpIsTrue value ps = compare_pushed column OpIsTrue (JBool True) ps"
| "compileOperator ts column OpIsFalse value ps = compare_pushed column OpIsFalse (JBool False) ps"
| "compileOperator ts column (OpUnknown s) value ps = Inl (UnknownOperator s)"
| "compileOperator ts column op value ps = compare_pushed column op value ps"

definition compileAttributeCondition ::
  "(js \<Rightarrow> string) \<Rightarrow> AttributeCondition \<Rightarrow> params \<Rightarrow> segment_error + (params \<times> sql_atom)" where
  "compileAttributeCondition ts cond ps =
     (case ac_source cond of
        StandardField \<Rightarrow>
          (case map_of STANDARD_FIELD_COLUMNS (ac_field cond) of
             None \<Rightarrow> Inl (UnknownField (ac_field cond))
           | Some column \<Rightarrow>
               compileOperator ts (FixedColumn column) (ac_operator cond) (ac_value cond) ps)
      | CustomField \<Rightarrow>
          (let (ps', n) = push (JStr (ac_field cond)) ps
           in compileOperator ts (PropertyColumn n) (ac_operator cond) (ac_value cond) ps'))"

definition compileBehavioralCondition ::
  "BehavioralCondition \<Rightarrow> params \<Rightarrow> params \<times> sql_atom" where
  "compileBehavioralCondition cond ps =
     (let negate = (bc_countOperator cond = CountNone);
          (ps1, eventNameParam) = push (JStr (bc_eventName cond)) ps;
          (ps2, timeParam) =
            (case bc_timeframe cond of
               LastDays days \<Rightarrow> (let (q, n) = push (JNum (Fin (of_int days))) ps1 in (q, Some n))
             | AllTime \<Rightarrow> (ps1, None));
          requiredCount = nullish (bc_count cond) 1;
          (ps3, countParam) =
            (if \<not> negate \<and> requiredCount > 1
             then (let (q, n) = push (JNum (Fin (of_int requiredCount))) ps2 in (q, Some n))
             else (ps2, None))
      in (ps3, EventsExist negate eventNameParam timeParam countParam))"

fun compileCondition ::
  "(js \<Rightarrow> string) \<Rightarrow> SegmentCondition \<Rightarrow> params \<Rightarrow> segment_error + (params \<times> sql_atom)" where
  "compileCondition ts (Attribute c) ps = compileAttributeCondition ts c ps"
| "compileCondition ts (Behavioral c) ps = Inr (compileBehavioralCondition c ps)"

fun compile_conditions ::
  "(js \<Rightarrow> string) \<Rightarrow> SegmentCondition list \<Rightarrow> params \<Rightarrow> segment_error + (params \<times> sql_atom list)" where
  "compile_conditions ts [] ps = Inr (ps, [])"
| "compile_conditions ts (c # cs) ps =
     (case compileCondition ts c ps of
        Inl e \<Rightarrow> Inl e
      | Inr (ps1, a) \<Rightarrow>
          (case compile_conditions ts cs ps1 of
             Inl e \<Rightarrow> Inl e
           | Inr (ps2, as) \<Rightarrow> Inr (ps2, a # as)))"

fun compile_groups ::
  "(js \<Rightarrow> string) \<Rightarrow> SegmentCondition list list \<Rightarrow> params
     \<Rightarrow> segment_error + (params \<times> sql_atom list list)" where
  "compile_groups ts [] ps = Inr (ps, [])"
| "compile_groups ts (g # gs) ps =
     (case compile_conditions ts g ps of
        Inl e \<Rightarrow> Inl e
      | Inr (ps1, as) \<Rightarrow>
          (case compile_groups ts gs ps1 of
             Inl e \<Rightarrow> Inl e
           | Inr (ps2, ass) \<Rightarrow> Inr (ps2, as # ass)))"

subsection \<open>The clause\<close>

datatype token = TAtom sql_atom | TAnd | TOr | TOpen | TClose

fun join_tokens :: "token \<Rightarrow> token list list \<Rightarrow> token list" where
  "join_tokens sep [] = []"
| "join_tokens sep [x] = x"
| "join_tokens sep (x # y # xs) = x @ sep # join_tokens sep (y # xs)"

definition group_clause :: "sql_atom list \<Rightarrow> token list" where
  "group_clause as = TOpen # join_tokens TOr (map (\<lambda>a. [TAtom a]) as) @ [TClose]"

definition where_tokens :: "GroupCombinator \<Rightarrow> sql_atom list list \<Rightarrow> token list" where
  "where_tokens combinator groups =
     (let groupClauses = map group_clause groups;
          grouped = (if combinator = CombineOr \<and> length groupClauses > 1
                     then [TOpen # join_tokens TOr groupClauses @ [TClose]] else groupClauses)
      in join_tokens TAnd ([TAtom (WorkspaceIs 1)] # [TAtom NotAnonymized] # grouped))"

record CompiledSegment =
  cs_where :: "token list"
  cs_params :: params

definition compileSegmentDefinition ::
  "(js \<Rightarrow> string) \<Rightarrow> SegmentDefinition \<Rightarrow> uuid \<Rightarrow> segment_error + CompiledSegment" where
  "compileSegmentDefinition ts def workspaceId =
     (case compile_groups ts (sd_groups def) [JStr workspaceId] of
        Inl e \<Rightarrow> Inl e
      | Inr (ps, groups) \<Rightarrow>
          Inr \<lparr>cs_where = where_tokens (nullish (sd_groupCombinator def) CombineAnd) groups,
               cs_params = ps\<rparr>)"

section \<open>Reading a clause\<close>

text \<open>SQL's truth values: \<open>None\<close> is \<open>NULL\<close>.\<close>

type_synonym sql_bool = "bool option"

fun and3 :: "sql_bool \<Rightarrow> sql_bool \<Rightarrow> sql_bool" where
  "and3 (Some False) b = Some False"
| "and3 a (Some False) = Some False"
| "and3 (Some True) (Some True) = Some True"
| "and3 _ _ = None"

fun or3 :: "sql_bool \<Rightarrow> sql_bool \<Rightarrow> sql_bool" where
  "or3 (Some True) b = Some True"
| "or3 a (Some True) = Some True"
| "or3 (Some False) (Some False) = Some False"
| "or3 _ _ = None"

text \<open>\<open>OR\<close> binds looser than \<open>AND\<close>. The readers return the value and the tokens left over; \<open>None\<close> is
  a syntax error (and a reader out of fuel).\<close>

fun read_primary :: "(sql_atom \<Rightarrow> sql_bool) \<Rightarrow> nat \<Rightarrow> token list \<Rightarrow> (sql_bool \<times> token list) option"
  and read_and :: "(sql_atom \<Rightarrow> sql_bool) \<Rightarrow> nat \<Rightarrow> token list \<Rightarrow> (sql_bool \<times> token list) option"
  and read_or :: "(sql_atom \<Rightarrow> sql_bool) \<Rightarrow> nat \<Rightarrow> token list \<Rightarrow> (sql_bool \<times> token list) option" where
  "read_primary truth (Suc f) (TAtom a # ts) = Some (truth a, ts)"
| "read_primary truth (Suc f) (TOpen # ts) =
     (case read_or truth f ts of Some (v, TClose # r) \<Rightarrow> Some (v, r) | _ \<Rightarrow> None)"
| "read_primary truth f ts = None"
| "read_and truth 0 ts = None"
| "read_and truth (Suc f) ts =
     (case read_primary truth f ts of
        None \<Rightarrow> None
      | Some (v, TAnd # r) \<Rightarrow>
          (case read_and truth f r of None \<Rightarrow> None | Some (w, r') \<Rightarrow> Some (and3 v w, r'))
      | Some (v, r) \<Rightarrow> Some (v, r))"
| "read_or truth 0 ts = None"
| "read_or truth (Suc f) ts =
     (case read_and truth f ts of
        None \<Rightarrow> None
      | Some (v, TOr # r) \<Rightarrow>
          (case read_or truth f r of None \<Rightarrow> None | Some (w, r') \<Rightarrow> Some (or3 v w, r'))
      | Some (v, r) \<Rightarrow> Some (v, r))"

definition clause_value :: "(sql_atom \<Rightarrow> sql_bool) \<Rightarrow> token list \<Rightarrow> sql_bool option" where
  "clause_value truth ts =
     (case read_or truth (4 * length ts + 4) ts of Some (v, []) \<Rightarrow> Some v | _ \<Rightarrow> None)"

section \<open>The reader on joined clauses\<close>

definition and_all :: "sql_bool list \<Rightarrow> sql_bool" where
  "and_all vs = foldr and3 vs (Some True)"

definition or_any :: "sql_bool list \<Rightarrow> sql_bool" where
  "or_any vs = foldr or3 vs (Some False)"

lemma and3_units [simp]: "and3 v (Some True) = v" "and3 (Some True) v = v"
  by (cases "(v, Some True)" rule: and3.cases; simp)+

lemma or3_units [simp]: "or3 v (Some False) = v" "or3 (Some False) v = v"
  by (cases "(v, Some False)" rule: or3.cases; simp)+

lemma and3_true [simp]: "and3 v w = Some True \<longleftrightarrow> v = Some True \<and> w = Some True"
  by (cases "(v, w)" rule: and3.cases) auto

lemma or3_true [simp]: "or3 v w = Some True \<longleftrightarrow> v = Some True \<or> w = Some True"
  by (cases "(v, w)" rule: or3.cases) auto

lemma and_all_simps [simp]: "and_all [] = Some True" "and_all (v # vs) = and3 v (and_all vs)"
  by (simp_all add: and_all_def)

lemma or_any_simps [simp]: "or_any [] = Some False" "or_any (v # vs) = or3 v (or_any vs)"
  by (simp_all add: or_any_def)

lemma and_all_true: "and_all vs = Some True \<longleftrightarrow> (\<forall>v \<in> set vs. v = Some True)"
  by (induction vs) auto

lemma or_any_true: "or_any vs = Some True \<longleftrightarrow> (\<exists>v \<in> set vs. v = Some True)"
  by (induction vs) auto

text \<open>A clause is primary when it is read as one unit, whatever follows.\<close>

definition reads_primary :: "(sql_atom \<Rightarrow> sql_bool) \<Rightarrow> nat \<Rightarrow> token list \<Rightarrow> sql_bool \<Rightarrow> bool" where
  "reads_primary truth n ts v = (\<forall>f \<ge> n. \<forall>r. read_primary truth f (ts @ r) = Some (v, r))"

lemma reads_atom: "reads_primary truth 1 [TAtom a] (truth a)"
  unfolding reads_primary_def
proof (intro allI impI)
  fix f :: nat and r assume "1 \<le> f"
  then show "read_primary truth f ([TAtom a] @ r) = Some (truth a, r)" by (cases f) auto
qed

lemma reads_primary_mono: "reads_primary truth n ts v \<Longrightarrow> n \<le> m \<Longrightarrow> reads_primary truth m ts v"
  by (auto simp: reads_primary_def)

lemma read_and_joined:
  assumes "xs \<noteq> []" "list_all2 (reads_primary truth n) xs vs" "n + length xs \<le> f"
    and "\<And>r'. r \<noteq> TAnd # r'"
  shows "read_and truth f (join_tokens TAnd xs @ r) = Some (and_all vs, r)"
  using assms
proof (induction TAnd xs arbitrary: vs f rule: join_tokens.induct)
  case (2 x)
  then obtain v f' where v: "vs = [v]" "reads_primary truth n x v" "f = Suc f'" "n \<le> f'"
    by (cases f) (auto simp: list_all2_Cons1)
  then have "read_primary truth f' (x @ r) = Some (v, r)" by (simp add: reads_primary_def)
  then show ?case using v "2.prems"(4) by (auto split: list.splits token.splits)
next
  case (3 x y xs)
  then obtain v vs' f' where v: "vs = v # vs'" "reads_primary truth n x v" "f = Suc f'"
      "list_all2 (reads_primary truth n) (y # xs) vs'"
    by (cases f) (auto simp: list_all2_Cons1)
  have "n \<le> f'" "n + length (y # xs) \<le> f'" using "3.prems"(3) v(3) by auto
  then show ?case using v 3 by (simp add: reads_primary_def)
qed simp

lemma read_or_joined:
  assumes "xs \<noteq> []" "list_all2 (reads_primary truth n) xs vs" "n + length xs + 1 \<le> f"
    and "\<And>r'. r \<noteq> TAnd # r'" "\<And>r'. r \<noteq> TOr # r'"
  shows "read_or truth f (join_tokens TOr xs @ r) = Some (or_any vs, r)"
  using assms
proof (induction TOr xs arbitrary: vs f rule: join_tokens.induct)
  case (2 x)
  then obtain v f' where v: "vs = [v]" "reads_primary truth n x v" "f = Suc f'" "n + 1 \<le> f'"
    by (cases f) (auto simp: list_all2_Cons1)
  have "read_and truth f' (join_tokens TAnd [x] @ r) = Some (and_all [v], r)"
    by (rule read_and_joined [where n = n]) (use v "2.prems" in auto)
  then show ?case using v "2.prems"(5) by (auto split: list.splits token.splits)
next
  case (3 x y xs)
  then obtain v vs' f' where v: "vs = v # vs'" "reads_primary truth n x v" "f = Suc f'"
      "list_all2 (reads_primary truth n) (y # xs) vs'"
    by (cases f) (auto simp: list_all2_Cons1)
  have f: "n + 1 \<le> f'" "n + length (y # xs) + 1 \<le> f'" using "3.prems"(3) v(3) by auto
  have "read_and truth f' (join_tokens TAnd [x] @ TOr # join_tokens TOr (y # xs) @ r)
      = Some (and_all [v], TOr # join_tokens TOr (y # xs) @ r)"
    by (rule read_and_joined [where n = n]) (use v f in auto)
  moreover have "read_or truth f' (join_tokens TOr (y # xs) @ r) = Some (or_any vs', r)"
    using 3 v(4) f by simp
  ultimately show ?case using v by simp
qed simp

lemma reads_paren:
  assumes "xs \<noteq> []" "list_all2 (reads_primary truth n) xs vs"
  shows "reads_primary truth (n + length xs + 2) (TOpen # join_tokens TOr xs @ [TClose]) (or_any vs)"
  unfolding reads_primary_def
proof (intro allI impI)
  fix f r assume f: "n + length xs + 2 \<le> f"
  then obtain f' where f': "f = Suc f'" "n + length xs + 1 \<le> f'" by (cases f) auto
  have "read_or truth f' (join_tokens TOr xs @ TClose # r) = Some (or_any vs, TClose # r)"
    by (rule read_or_joined) (use assms f' in auto)
  then show "read_primary truth f ((TOpen # join_tokens TOr xs @ [TClose]) @ r) = Some (or_any vs, r)"
    using f' by simp
qed


section \<open>The meaning of the compiled clause\<close>

definition group_value :: "(sql_atom \<Rightarrow> sql_bool) \<Rightarrow> sql_atom list \<Rightarrow> sql_bool" where
  "group_value truth as = or_any (map truth as)"

lemma reads_group:
  assumes "as \<noteq> []"
  shows "reads_primary truth (length as + 3) (group_clause as) (group_value truth as)"
proof -
  have "list_all2 (reads_primary truth 1) (map (\<lambda>a. [TAtom a]) as) (map truth as)"
    by (induction as) (auto simp: reads_atom [simplified])
  then have "reads_primary truth (1 + length (map (\<lambda>a. [TAtom a]) as) + 2) (group_clause as)
      (or_any (map truth as))"
    unfolding group_clause_def by (rule reads_paren [rotated]) (use assms in simp)
  then show ?thesis by (simp add: group_value_def numeral_3_eq_3)
qed

lemma length_join_tokens: "xs \<noteq> [] \<Longrightarrow> Suc (length (join_tokens s xs)) = length xs + sum_list (map length xs)"
  by (induction s xs rule: join_tokens.induct) auto

lemma length_group_clause: "as \<noteq> [] \<Longrightarrow> length (group_clause as) = 2 * length as + 1"
  using length_join_tokens [of "map (\<lambda>a. [TAtom a]) as" TOr]
  by (simp add: group_clause_def comp_def sum_list_triv)

lemma clause_value_joined:
  assumes "xs \<noteq> []" "list_all2 (reads_primary truth n) xs vs"
    and "n + length xs + 1 \<le> 4 * length (join_tokens TAnd xs) + 4"
  shows "clause_value truth (join_tokens TAnd xs) = Some (and_all vs)"
proof -
  let ?ts = "join_tokens TAnd xs"
  have "read_and truth (4 * length ?ts + 3) (?ts @ []) = Some (and_all vs, [])"
    by (rule read_and_joined) (use assms in auto)
  then have "read_or truth (Suc (4 * length ?ts + 3)) ?ts = Some (and_all vs, [])"
    by (simp only: read_or.simps append_Nil2 option.case prod.case list.case)
  moreover have "Suc (4 * length ?ts + 3) = 4 * length ?ts + 4" by simp
  ultimately show ?thesis unfolding clause_value_def by (simp only: option.case prod.case list.case)
qed

definition combine :: "GroupCombinator \<Rightarrow> sql_bool list \<Rightarrow> sql_bool" where
  "combine combinator vs = (if combinator = CombineOr \<and> length vs > 1 then or_any vs else and_all vs)"

lemma clause_value_where:
  assumes "groups \<noteq> []" "\<forall>g \<in> set groups. g \<noteq> []"
  shows "clause_value truth (where_tokens combinator groups) =
    Some (and3 (truth (WorkspaceIs 1))
       (and3 (truth NotAnonymized) (combine combinator (map (group_value truth) groups))))"
proof -
  let ?cs = "map group_clause groups" and ?vs = "map (group_value truth) groups"
  define M where "M = sum_list (map length ?cs)"
  have len: "length as + 3 \<le> M + 1" if "as \<in> set groups" for as
  proof -
    have "length (group_clause as) \<le> M"
      unfolding M_def by (rule member_le_sum_list) (use that in auto)
    then show ?thesis using length_group_clause [of as] assms(2) that by (cases as) auto
  qed
  have groups: "list_all2 (reads_primary truth (M + 1)) ?cs ?vs"
    using assms(2) len
    by (auto simp: list_all2_conv_all_nth intro!: reads_primary_mono [OF reads_group])
  have G: "length groups \<le> M"
  proof -
    have "\<forall>c \<in> set ?cs. 1 \<le> length c" by (auto simp: group_clause_def)
    then have "length ?cs \<le> sum_list (map length ?cs)" by (induction ?cs arbitrary: groups) (auto, fastforce)
    then show ?thesis by (simp add: M_def)
  qed
  have base: "list_all2 (reads_primary truth k) [[TAtom (WorkspaceIs 1)], [TAtom NotAnonymized]]
      [truth (WorkspaceIs 1), truth NotAnonymized]" if "1 \<le> k" for k
    using that by (simp add: reads_primary_mono [OF reads_atom])
  show ?thesis
  proof (cases "combinator = CombineOr \<and> length groups > 1")
    case True
    let ?xs = "[[TAtom (WorkspaceIs 1)], [TAtom NotAnonymized], TOpen # join_tokens TOr ?cs @ [TClose]]"
    have "reads_primary truth (M + 1 + length ?cs + 2) (TOpen # join_tokens TOr ?cs @ [TClose]) (or_any ?vs)"
      by (rule reads_paren) (use assms groups in auto)
    then have "list_all2 (reads_primary truth (M + 1 + length ?cs + 2)) ?xs
        [truth (WorkspaceIs 1), truth NotAnonymized, or_any ?vs]"
      using base [of "M + 1 + length ?cs + 2"] by simp
    then have "clause_value truth (join_tokens TAnd ?xs)
        = Some (and_all [truth (WorkspaceIs 1), truth NotAnonymized, or_any ?vs])"
      by (rule clause_value_joined [rotated])
        (use G length_join_tokens [of ?cs TOr] assms in \<open>auto simp: M_def comp_def\<close>)
    then show ?thesis using True by (simp add: where_tokens_def combine_def Let_def)
  next
    case False
    let ?xs = "[TAtom (WorkspaceIs 1)] # [TAtom NotAnonymized] # ?cs"
    have "list_all2 (reads_primary truth (M + 1)) ?xs (truth (WorkspaceIs 1) # truth NotAnonymized # ?vs)"
      using base [of "M + 1"] groups by simp
    then have "clause_value truth (join_tokens TAnd ?xs)
        = Some (and_all (truth (WorkspaceIs 1) # truth NotAnonymized # ?vs))"
      by (rule clause_value_joined [rotated])
        (use G length_join_tokens [of ?xs TAnd] assms in \<open>auto simp: M_def comp_def\<close>)
    then show ?thesis using False by (auto simp: where_tokens_def combine_def Let_def)
  qed
qed

end
