(* ===== verification/Crm_Tables.thy ===== *)
theory Crm_Tables
  imports Send_Ledger Flow_Definition Segments
begin

text \<open>
  The database of a deployment: the ledger's two tables, extended by the tables the other
  components read and write (\<open>packages/db/src/schema\<close>). A table keyed by the workspace is a map,
  the others are lists of rows. \<open>runtime\<close> gathers what a process is started with: its environment
  variables and the cryptographic primitives of \<open>node:crypto\<close>.
\<close>

section \<open>Rows\<close>

datatype SubscriptionStatus = StSubscribed | StUnsubscribed | StSuppressed

fun status_name :: "SubscriptionStatus \<Rightarrow> string" where
  "status_name StSubscribed = ''subscribed''"
| "status_name StUnsubscribed = ''unsubscribed''"
| "status_name StSuppressed = ''suppressed''"

record contact_row =
  ct_id :: uuid
  ct_workspaceId :: uuid
  ct_externalId :: "string option"
  ct_email :: "string option"
  ct_firstName :: "string option"
  ct_lastName :: "string option"
  ct_phone :: "string option"
  ct_city :: "string option"
  ct_country :: "string option"
  ct_tags :: "string list"
  ct_properties :: "(string \<times> js) list"
  ct_subscriptionStatus :: SubscriptionStatus
  ct_consecutiveSoftBounces :: nat
  ct_timezone :: "string option"
  ct_createdAt :: instant
  ct_updatedAt :: instant
  ct_anonymizedAt :: "instant option"

record WorkspaceSendSettings =
  frequencyCap :: int
  frequencyWindowHours :: int
  rpsLimit :: "int option"
  defaultTimezone :: "string option"
  quietHoursStart :: "int option"
  quietHoursEnd :: "int option"
  quietHoursEnabled :: bool

record EncryptedSecret =
  encryptedDek :: string
  ciphertext :: string
  iv :: string
  authTag :: string

datatype FlowStatus = FlowDraft | FlowLive | FlowPaused

datatype FlowExitCondition =
    ExitOnSegment (exit_segmentId: uuid) (exit_in: bool)
  | ExitOnEvent (exit_eventName: string)

record flow_row =
  f_id :: uuid
  f_workspaceId :: uuid
  f_name :: string
  f_status :: FlowStatus
  f_triggerType :: "string option"
  f_triggerEventName :: "string option"
  f_triggerSegmentId :: "uuid option"
  f_draftVersionId :: "uuid option"
  f_liveVersionId :: "uuid option"
  f_reentryMode :: string
  f_reentryWindowDays :: "int option"
  f_quietHoursMode :: string
  f_quietHoursStart :: "int option"
  f_quietHoursEnd :: "int option"
  f_exitConditions :: "FlowExitCondition list"
  f_enrollCursor :: "uuid option"
  f_createdByUserId :: string
  f_createdAt :: instant
  f_updatedAt :: instant

record flow_version_row =
  fv_id :: uuid
  fv_workspaceId :: uuid
  fv_flowId :: uuid
  fv_versionNumber :: int
  fv_definition :: FlowDefinition
  fv_publishedAt :: "instant option"
  fv_createdAt :: instant

datatype FlowRunStatus = RunWaiting | RunAdvancing | RunCompleted | RunExited | RunEjected

record flow_run_row =
  fr_id :: uuid
  fr_workspaceId :: uuid
  fr_flowId :: uuid
  fr_flowVersionId :: uuid
  fr_contactId :: uuid
  fr_status :: FlowRunStatus
  fr_currentNodeId :: "string option"
  fr_nextWakeAt :: "instant option"
  fr_enteredAt :: instant
  fr_lastEntryAt :: instant
  fr_exitedAt :: "instant option"
  fr_exitReason :: "string option"

record flow_run_step_row =
  st_workspaceId :: uuid
  st_flowRunId :: uuid
  st_nodeId :: string
  st_nodeType :: string
  st_outcome :: string
  st_sendId :: "uuid option"
  st_createdAt :: instant

record segment_row =
  sg_id :: uuid
  sg_workspaceId :: uuid
  sg_name :: string
  sg_definition :: SegmentDefinition
  sg_createdByUserId :: string
  sg_memberCount :: "int option"
  sg_memberCountAt :: "instant option"
  sg_createdAt :: instant
  sg_updatedAt :: instant

record event_row =
  ev_id :: uuid
  ev_workspaceId :: uuid
  ev_contactId :: uuid
  ev_name :: string
  ev_properties :: "(string \<times> js) list"
  ev_occurredAt :: instant
  ev_receivedAt :: instant

record send_event_row =
  se_workspaceId :: uuid
  se_sgEventId :: string
  se_sendId :: "uuid option"
  se_eventType :: string
  se_reason :: "string option"
  se_payload :: "(string \<times> js) list"
  se_isTest :: bool
  se_occurredAt :: instant
  se_receivedAt :: instant

record suppression_row =
  sup_workspaceId :: uuid
  sup_emailHash :: string
  sup_reason :: string
  sup_suppressedAt :: instant
  sup_source :: "string option"

record history_row =
  h_workspaceId :: uuid
  h_contactId :: uuid
  h_oldStatus :: "string option"
  h_newStatus :: string
  h_source :: string
  h_reason :: "string option"
  h_changedAt :: instant

record recipient_row =
  rc_campaignId :: uuid
  rc_workspaceId :: uuid
  rc_contactId :: uuid

record snapshot_row =
  fs_workspaceId :: uuid
  fs_flowId :: uuid
  fs_contactId :: uuid
  fs_seenAt :: instant

record checkpoint_row =
  ck_workspaceId :: uuid
  ck_flowId :: uuid
  ck_cursor :: "uuid option"
  ck_updatedAt :: instant

text \<open>\<open>ru_day\<close> counts the days since 1970.\<close>

record rollup_row =
  ru_workspaceId :: uuid
  ru_day :: int
  ru_sentCount :: nat
  ru_deliveredCount :: nat
  ru_openedCount :: nat
  ru_clickedCount :: nat
  ru_bouncedCount :: nat
  ru_unsubscribedCount :: nat
  ru_dirtiedAt :: "instant option"
  ru_updatedAt :: instant

record quarantine_row =
  qr_workspaceId :: uuid
  qr_sgEventId :: "string option"
  qr_eventType :: "string option"
  qr_rawEvent :: js
  qr_reason :: string
  qr_occurredAtCandidate :: "string option"
  qr_receivedAt :: instant

record journal_row =
  jr_id :: uuid
  jr_workspaceId :: uuid
  jr_rawBatch :: "js list option"
  jr_receivedAt :: instant
  jr_ingestionCompletedAt :: "instant option"
  jr_replayCount :: nat
  jr_payloadPurgedAt :: "instant option"

section \<open>The database\<close>

text \<open>An organization row is read for its \<open>deletedAt\<close> alone.\<close>

record crm = ledger +
  t_contacts :: "contact_row list"
  t_settings :: "uuid \<rightharpoonup> WorkspaceSendSettings"
  t_sendgridKeys :: "uuid \<rightharpoonup> EncryptedSecret"
  t_organizations :: "uuid \<rightharpoonup> instant option"
  t_flows :: "flow_row list"
  t_flowVersions :: "flow_version_row list"
  t_flowRuns :: "flow_run_row list"
  t_flowRunSteps :: "flow_run_step_row list"
  t_segments :: "segment_row list"
  t_events :: "event_row list"
  t_sendEvents :: "send_event_row list"
  t_suppressions :: "suppression_row list"
  t_history :: "history_row list"
  t_recipients :: "recipient_row list"
  t_snapshots :: "snapshot_row list"
  t_checkpoints :: "checkpoint_row list"
  t_rollups :: "rollup_row list"
  t_quarantine :: "quarantine_row list"
  t_journal :: "journal_row list"
  t_suppressionKeys :: "uuid \<rightharpoonup> EncryptedSecret"
  t_webhookHealth :: "uuid \<rightharpoonup> instant option"

definition empty_crm :: crm where
  "empty_crm =
     \<lparr>l_sends = [], l_campaigns = [], t_contacts = [], t_settings = Map.empty,
      t_sendgridKeys = Map.empty, t_organizations = Map.empty, t_flows = [], t_flowVersions = [],
      t_flowRuns = [], t_flowRunSteps = [], t_segments = [], t_events = [], t_sendEvents = [], t_suppressions = [],
      t_history = [], t_recipients = [], t_snapshots = [], t_checkpoints = [], t_rollups = [],
      t_quarantine = [], t_journal = [], t_suppressionKeys = Map.empty, t_webhookHealth = Map.empty\<rparr>"

text \<open>The row-level policies of the cross-workspace scan role hide the campaigns, flows and runs of a
  soft-deleted workspace.\<close>

definition scan_visible :: "crm \<Rightarrow> uuid \<Rightarrow> bool" where
  "scan_visible db workspaceId = (case t_organizations db workspaceId of Some (Some _) \<Rightarrow> False | _ \<Rightarrow> True)"

section \<open>The process\<close>

text \<open>\<open>decryptTenantSecret\<close> of the key-management package fails (\<open>None\<close>) where the provider does.\<close>

record runtime =
  rt_env :: "string \<Rightarrow> string option"
  rt_sha1 :: "byte list \<Rightarrow> byte list"
  rt_hmac :: "string \<Rightarrow> string \<Rightarrow> nat list"
  rt_decrypt :: "uuid \<Rightarrow> EncryptedSecret \<Rightarrow> string option"

section \<open>A small deployment\<close>

text \<open>One workspace with one contact, one sending campaign and one live flow with a waiting run, and
  a process whose primitives are constants: the concrete input of the witnesses.\<close>

definition example_rt :: runtime where
  "example_rt =
     \<lparr>rt_env = map_of [(''PUBLIC_APP_URL'', ''https://x''), (''UNSUBSCRIBE_TOKEN_SECRET'', ''s'')],
      rt_sha1 = (\<lambda>bs. replicate 20 0), rt_hmac = (\<lambda>k t. [1, 2, 3]),
      rt_decrypt = (\<lambda>w s. Some ''SG.key'')\<rparr>"

definition example_contact :: contact_row where
  "example_contact =
     \<lparr>ct_id = ''k1'', ct_workspaceId = ''w1'', ct_externalId = None, ct_email = Some ''a@x.io'',
      ct_firstName = Some ''Ann'', ct_lastName = None, ct_phone = None, ct_city = None,
      ct_country = None, ct_tags = [], ct_properties = [], ct_subscriptionStatus = StSubscribed,
      ct_consecutiveSoftBounces = 0, ct_timezone = None, ct_createdAt = 0, ct_updatedAt = 0,
      ct_anonymizedAt = None\<rparr>"

definition example_campaign :: campaign_row where
  "example_campaign =
     \<lparr>c_id = ''c1'', c_workspaceId = ''w1'', c_name = ''spring'', c_status = CSending,
      c_segmentId = ''g1'', c_templateId = Some ''d-1'', c_fromSenderId = None,
      c_fromEmail = Some ''b@y.io'', c_fromName = Some ''Y'', c_scheduledAt = None,
      c_sendableTotal = Some 1, c_sentCount = 0, c_failedCount = 0, c_version = 1,
      c_excludedTotal = Some 0, c_snapshotCursor = None, c_fanOutComplete = True,
      c_sendingStartedAt = None, c_terminalAt = None, c_deliveredCount = 0, c_openedCount = 0,
      c_clickedCount = 0, c_bouncedCount = 0, c_unsubscribedCount = 0, c_createdByUserId = ''u1'',
      c_createdAt = 0, c_updatedAt = 0\<rparr>"

definition example_position :: FlowNodePosition where
  "example_position = \<lparr>pos_x = Fin 0, pos_y = Fin 0\<rparr>"

definition example_flow_definition :: FlowDefinition where
  "example_flow_definition =
     \<lparr>fd_nodes =
        [TriggerNode ''n0'' EventTrigger (Some ''signup'') None example_position,
         SendNode ''n1'' (Some ''d-2'') None (Some ''b@y.io'') example_position,
         ExitNode ''n2'' example_position],
      fd_edges =
        [\<lparr>edge_id = ''e0'', edge_source = ''n0'', edge_target = ''n1'', edge_sourceHandle = None\<rparr>,
         \<lparr>edge_id = ''e1'', edge_source = ''n1'', edge_target = ''n2'', edge_sourceHandle = None\<rparr>]\<rparr>"

definition example_flow :: flow_row where
  "example_flow =
     \<lparr>f_id = ''f1'', f_workspaceId = ''w1'', f_name = ''welcome'', f_status = FlowLive,
      f_triggerType = Some ''event'', f_triggerEventName = Some ''signup'', f_triggerSegmentId = None,
      f_draftVersionId = None, f_liveVersionId = Some ''v1'', f_reentryMode = ''once_ever'',
      f_reentryWindowDays = None, f_quietHoursMode = ''disabled'', f_quietHoursStart = None,
      f_quietHoursEnd = None, f_exitConditions = [], f_enrollCursor = None,
      f_createdByUserId = ''u1'', f_createdAt = 0, f_updatedAt = 0\<rparr>"

definition example_flow_run :: flow_run_row where
  "example_flow_run =
     \<lparr>fr_id = ''r1'', fr_workspaceId = ''w1'', fr_flowId = ''f1'', fr_flowVersionId = ''v1'',
      fr_contactId = ''k1'', fr_status = RunWaiting, fr_currentNodeId = Some ''n1'',
      fr_nextWakeAt = None, fr_enteredAt = 0, fr_lastEntryAt = 0, fr_exitedAt = None,
      fr_exitReason = None\<rparr>"

definition example_db :: crm where
  "example_db = empty_crm
     \<lparr>l_campaigns := [example_campaign], t_contacts := [example_contact],
      t_sendgridKeys := [''w1'' \<mapsto> \<lparr>encryptedDek = ''e'', ciphertext = ''c'', iv = ''i'', authTag = ''t''\<rparr>],
      t_organizations := [''w1'' \<mapsto> None], t_flows := [example_flow],
      t_flowVersions :=
        [\<lparr>fv_id = ''v1'', fv_workspaceId = ''w1'', fv_flowId = ''f1'', fv_versionNumber = 1,
          fv_definition = example_flow_definition, fv_publishedAt = Some 0, fv_createdAt = 0\<rparr>],
      t_flowRuns := [example_flow_run]\<rparr>"

lemmas example_defs =
  example_rt_def example_db_def empty_crm_def example_contact_def example_campaign_def
  example_flow_def example_flow_run_def example_flow_definition_def example_position_def

end
