(* ===== verification/Unsubscribe_Token.thy ===== *)
theory Unsubscribe_Token
  imports Send_Id
begin

text \<open>
  The signed one-click unsubscribe token of \<open>packages/delivery-core/src/unsubscribe-token.ts\<close>.
  The text codecs the code uses of its language (\<open>JSON.stringify\<close> of the payload, \<open>JSON.parse\<close>,
  base64url of \<open>Buffer\<close>) are modelled; the HMAC of \<open>node:crypto\<close> is the parameter
  \<open>hmac secret text\<close>, a digest as bytes. Secrets come from the process environment.
\<close>

section \<open>base64url\<close>

definition b64_alphabet :: string where
  "b64_alphabet = ''ABCDEFGHIJKLMNOPQRSTUVWXYZabcdefghijklmnopqrstuvwxyz0123456789-_''"

definition b64_char :: "nat \<Rightarrow> char" where
  "b64_char n = b64_alphabet ! n"

text \<open>Without padding, as \<open>toString('base64url')\<close> prints it. Bytes are read as numbers.\<close>

fun b64_encode :: "nat list \<Rightarrow> string" where
  "b64_encode (a # b # c # bs) =
     b64_char (a div 4) # b64_char (a mod 4 * 16 + b div 16)
     # b64_char (b mod 16 * 4 + c div 64) # b64_char (c mod 64) # b64_encode bs"
| "b64_encode [a, b] =
     [b64_char (a div 4), b64_char (a mod 4 * 16 + b div 16), b64_char (b mod 16 * 4)]"
| "b64_encode [a] = [b64_char (a div 4), b64_char (a mod 4 * 16)]"
| "b64_encode [] = []"

definition b64_index :: "char \<Rightarrow> nat option" where
  "b64_index c =
     (let n = (of_char c :: nat) in
      if 65 \<le> n \<and> n \<le> 90 then Some (n - 65)
      else if 97 \<le> n \<and> n \<le> 122 then Some (n - 71)
      else if 48 \<le> n \<and> n \<le> 57 then Some (n + 4)
      else if n = 45 \<or> n = 43 then Some 62
      else if n = 95 \<or> n = 47 then Some 63
      else None)"

text \<open>\<open>Buffer.from(s, 'base64url')\<close> never throws: it stops at a padding character, skips any other
  character outside the alphabet, accepts both alphabets, and drops a trailing incomplete group.\<close>

fun b64_groups :: "nat list \<Rightarrow> nat list" where
  "b64_groups (a # b # c # d # xs) =
     (a * 4 + b div 16) # (b mod 16 * 16 + c div 4) # (c mod 4 * 64 + d) # b64_groups xs"
| "b64_groups [a, b, c] = [a * 4 + b div 16, b mod 16 * 16 + c div 4]"
| "b64_groups [a, b] = [a * 4 + b div 16]"
| "b64_groups _ = []"

definition b64_decode :: "string \<Rightarrow> nat list" where
  "b64_decode s =
     b64_groups (List.map_filter b64_index (takeWhile (\<lambda>c. c \<noteq> CHR ''='') s))"

definition bytes_of_text :: "string \<Rightarrow> nat list" where
  "bytes_of_text s = map of_char s"

definition text_of_bytes :: "nat list \<Rightarrow> string" where
  "text_of_bytes bs = map char_of bs"

section \<open>JSON of the payload\<close>

fun show_nat :: "nat \<Rightarrow> string" where
  "show_nat n = (if n < 10 then [char_of (48 + n)] else show_nat (n div 10) @ [char_of (48 + n mod 10)])"

declare show_nat.simps [simp del]

definition json_escape :: "char \<Rightarrow> string" where
  "json_escape c =
     (let n = (of_char c :: nat) in
      if n = 34 then [char_of (92 :: nat), char_of (34 :: nat)]
      else if n = 92 then [char_of (92 :: nat), char_of (92 :: nat)]
      else if n = 8 then char_of (92 :: nat) # ''b''
      else if n = 9 then char_of (92 :: nat) # ''t''
      else if n = 10 then char_of (92 :: nat) # ''n''
      else if n = 12 then char_of (92 :: nat) # ''f''
      else if n = 13 then char_of (92 :: nat) # ''r''
      else if n < 32 then char_of (92 :: nat) # ''u00'' @ [hex_digit (n div 16), hex_digit (n mod 16)]
      else [c])"

definition quote :: char where "quote = char_of (34 :: nat)"

definition json_string :: "string \<Rightarrow> string" where
  "json_string s = quote # concat (map json_escape s) @ [quote]"

record UnsubscribeTokenPayload =
  tok_sendId :: uuid
  tok_contactId :: uuid
  tok_workspaceId :: uuid
  tok_exp :: nat

definition json_field :: "string \<Rightarrow> string \<Rightarrow> string" where
  "json_field name v = json_string name @ '':'' @ v"

definition stringify_payload :: "UnsubscribeTokenPayload \<Rightarrow> string" where
  "stringify_payload p =
     ''{'' @ json_field ''sendId'' (json_string (tok_sendId p))
     @ '','' @ json_field ''contactId'' (json_string (tok_contactId p))
     @ '','' @ json_field ''workspaceId'' (json_string (tok_workspaceId p))
     @ '','' @ json_field ''exp'' (show_nat (tok_exp p)) @ ''}''"

section \<open>Signing\<close>

datatype token_error = SecretNotSet | PublicUrlNotSet

definition getPrimarySecret :: "(string \<Rightarrow> string option) \<Rightarrow> token_error + string" where
  "getPrimarySecret env =
     (if truthy (env ''UNSUBSCRIBE_TOKEN_SECRET'')
      then Inr (nullish (env ''UNSUBSCRIBE_TOKEN_SECRET'') []) else Inl SecretNotSet)"

text \<open>The optional list of retired secrets.\<close>

definition getPreviousSecrets :: "(string \<Rightarrow> string option) \<Rightarrow> string list" where
  "getPreviousSecrets env =
     (if truthy (env ''UNSUBSCRIBE_TOKEN_SECRET_PREVIOUS'')
      then split_on (CHR '','') (nullish (env ''UNSUBSCRIBE_TOKEN_SECRET_PREVIOUS'') []) else [])"

definition signWith :: "(string \<Rightarrow> string \<Rightarrow> nat list) \<Rightarrow> string \<Rightarrow> string \<Rightarrow> string" where
  "signWith hmac secret encodedPayload = b64_encode (hmac secret encodedPayload)"

definition signUnsubscribeToken ::
  "(string \<Rightarrow> string \<Rightarrow> nat list) \<Rightarrow> (string \<Rightarrow> string option) \<Rightarrow> UnsubscribeTokenPayload
     \<Rightarrow> token_error + string" where
  "signUnsubscribeToken hmac env payload =
     (let encodedPayload = b64_encode (bytes_of_text (stringify_payload payload)) in
      case getPrimarySecret env of
        Inl e \<Rightarrow> Inl e
      | Inr secret \<Rightarrow> Inr (encodedPayload @ ''.'' @ signWith hmac secret encodedPayload))"

definition buildListUnsubscribeUrl :: "(string \<Rightarrow> string option) \<Rightarrow> string \<Rightarrow> token_error + string" where
  "buildListUnsubscribeUrl env token =
     (if truthy (env ''PUBLIC_APP_URL'')
      then Inr (nullish (env ''PUBLIC_APP_URL'') [] @ ''/unsubscribe/'' @ token)
      else Inl PublicUrlNotSet)"

end
