(* ===== verification/Send_Claims.thy ===== *)
theory Send_Claims
  imports Crm_Tables Unsubscribe_Token
begin

text \<open>
  What a send needs before it may leave: the workspace's send settings
  (\<open>delivery-core/src/send-settings.ts\<close>), the quiesce check (\<open>workspace-quiesce.ts\<close>), the pre-send
  gate (\<open>pre-send-gate.ts\<close>), the template data of a contact (\<open>contact-template-data.ts\<close>), and
  unit 1 of a dispatch, the claim transaction of both send paths: \<open>readSendPrereqs\<close> and
  \<open>claimCampaignSend\<close> of \<open>apps/worker/src/queues/send-dispatch.ts\<close>, \<open>readFlowSendPrereqs\<close> and
  \<open>claimFlowSend\<close> of \<open>apps/worker/src/queues/flows/flow-send.ts\<close>. A throw inside a transaction is an
  \<open>Inl\<close>, and the transaction rolls back: the caller keeps the database it had.
\<close>

section \<open>Send settings\<close>

definition DEFAULT_SEND_SETTINGS :: WorkspaceSendSettings where
  "DEFAULT_SEND_SETTINGS =
     \<lparr>frequencyCap = 3, frequencyWindowHours = 24, rpsLimit = None, defaultTimezone = None,
      quietHoursStart = None, quietHoursEnd = None, quietHoursEnabled = False\<rparr>"

definition getWorkspaceSendSettings :: "crm \<Rightarrow> uuid \<Rightarrow> WorkspaceSendSettings" where
  "getWorkspaceSendSettings db workspaceId =
     nullish (t_settings db workspaceId) DEFAULT_SEND_SETTINGS"

text \<open>A partial patch: an absent field keeps the current value; a nullable field may be set to null.\<close>

record settings_patch =
  pt_frequencyCap :: "int option"
  pt_frequencyWindowHours :: "int option"
  pt_rpsLimit :: "int option option"
  pt_defaultTimezone :: "string option option"
  pt_quietHoursStart :: "int option option"
  pt_quietHoursEnd :: "int option option"
  pt_quietHoursEnabled :: "bool option"

definition apply_patch :: "WorkspaceSendSettings \<Rightarrow> settings_patch \<Rightarrow> WorkspaceSendSettings" where
  "apply_patch current p =
     \<lparr>frequencyCap = nullish (pt_frequencyCap p) (frequencyCap current),
      frequencyWindowHours = nullish (pt_frequencyWindowHours p) (frequencyWindowHours current),
      rpsLimit = nullish (pt_rpsLimit p) (rpsLimit current),
      defaultTimezone = nullish (pt_defaultTimezone p) (defaultTimezone current),
      quietHoursStart = nullish (pt_quietHoursStart p) (quietHoursStart current),
      quietHoursEnd = nullish (pt_quietHoursEnd p) (quietHoursEnd current),
      quietHoursEnabled = nullish (pt_quietHoursEnabled p) (quietHoursEnabled current)\<rparr>"

definition upsertWorkspaceSendSettings ::
  "crm \<Rightarrow> uuid \<Rightarrow> settings_patch \<Rightarrow> crm \<times> WorkspaceSendSettings" where
  "upsertWorkspaceSendSettings db workspaceId patch =
     (let current = getWorkspaceSendSettings db workspaceId;
          next' = apply_patch current patch
      in (db\<lparr>t_settings := (t_settings db)(workspaceId \<mapsto> next')\<rparr>, next'))"

section \<open>The quiesce check\<close>

definition WORKSPACE_DELETED_EXCLUSION_REASON :: string where
  "WORKSPACE_DELETED_EXCLUSION_REASON = ''workspace_deleted''"

definition isWorkspaceSoftDeleted :: "crm \<Rightarrow> uuid \<Rightarrow> bool" where
  "isWorkspaceSoftDeleted db workspaceId =
     (case t_organizations db workspaceId of
        None \<Rightarrow> True
      | Some deletedAt \<Rightarrow> deletedAt \<noteq> None)"

section \<open>The pre-send gate\<close>

datatype PreSendSkipReason = SkipUnsubscribed | SkipSuppressed | SkipNoEmail | SkipFrequencyCap

fun skip_reason_name :: "PreSendSkipReason \<Rightarrow> string" where
  "skip_reason_name SkipUnsubscribed = ''unsubscribed''"
| "skip_reason_name SkipSuppressed = ''suppressed''"
| "skip_reason_name SkipNoEmail = ''no_email''"
| "skip_reason_name SkipFrequencyCap = ''frequency_cap''"

datatype PreSendDecision = Sendable | NotSendable PreSendSkipReason

definition sent_in_window :: "crm \<Rightarrow> instant \<Rightarrow> uuid \<Rightarrow> uuid \<Rightarrow> int \<Rightarrow> nat" where
  "sent_in_window db now workspaceId contactId hours =
     row_count (\<lambda>r. s_workspaceId r = workspaceId \<and> s_contactId r = contactId
                    \<and> s_status r = Sent
                    \<and> (case s_sentAt r of None \<Rightarrow> False | Some t \<Rightarrow> now - hours * hour_ms < t))
       (l_sends db)"

definition evaluatePreSendGate :: "crm \<Rightarrow> instant \<Rightarrow> uuid \<Rightarrow> contact_row \<Rightarrow> PreSendDecision" where
  "evaluatePreSendGate db now workspaceId contact =
     (if ct_subscriptionStatus contact = StSuppressed then NotSendable SkipSuppressed
      else if ct_subscriptionStatus contact = StUnsubscribed then NotSendable SkipUnsubscribed
      else if \<not> truthy (ct_email contact) then NotSendable SkipNoEmail
      else (let settings = getWorkspaceSendSettings db workspaceId;
                sentCount = sent_in_window db now workspaceId (ct_id contact)
                              (frequencyWindowHours settings)
            in if int sentCount \<ge> frequencyCap settings then NotSendable SkipFrequencyCap
               else Sendable))"

section \<open>Template data\<close>

definition js_opt :: "string option \<Rightarrow> js" where
  "js_opt v = (case v of None \<Rightarrow> JNull | Some s \<Rightarrow> JStr s)"

record ContactTemplateDataContact =
  tc_firstName :: "string option"
  tc_lastName :: "string option"
  tc_email :: "string option"
  tc_phone :: "string option"
  tc_city :: "string option"
  tc_country :: "string option"
  tc_tags :: "string list"
  tc_properties :: "(string \<times> js) list"

definition template_contact :: "contact_row \<Rightarrow> ContactTemplateDataContact" where
  "template_contact c =
     \<lparr>tc_firstName = ct_firstName c, tc_lastName = ct_lastName c, tc_email = ct_email c,
      tc_phone = ct_phone c, tc_city = ct_city c, tc_country = ct_country c, tc_tags = ct_tags c,
      tc_properties = ct_properties c\<rparr>"

definition buildContactTemplateData ::
  "ContactTemplateDataContact \<Rightarrow> string option \<Rightarrow> (string \<times> js) list" where
  "buildContactTemplateData contact unsubscribeUrl =
     ([(''first_name'', js_opt (tc_firstName contact)),
       (''last_name'', js_opt (tc_lastName contact)),
       (''email'', js_opt (tc_email contact)),
       (''phone'', js_opt (tc_phone contact)),
       (''city'', js_opt (tc_city contact)),
       (''country'', js_opt (tc_country contact)),
       (''tags'', JArr (map JStr (tc_tags contact))),
       (''properties'', JObj (tc_properties contact))]
           @ (if truthy unsubscribeUrl then [(''unsubscribe_url'', js_opt unsubscribeUrl)] else []))"

section \<open>Prerequisites of a send\<close>

datatype send_error =
    NoSendgridKey uuid
  | KeyUndecryptable uuid
  | CampaignIncomplete uuid
  | ContactNotFound uuid uuid
  | FlowVersionMissing uuid
  | NotASendNode string
  | SendNodeIncomplete string
  | ContactIdRequired
  | TestToRequired
  | TokenError token_error
  | LedgerError ledger_error
  | TransportError js
  | RateLimiterFailed
  | SlotScriptFailed

definition DEFAULT_TENANT_RPS :: int where "DEFAULT_TENANT_RPS = 10"

definition UNSUBSCRIBE_TOKEN_TTL_SECONDS :: int where
  "UNSUBSCRIBE_TOKEN_TTL_SECONDS = 60 * 60 * 24 * 365 * 5"

record FlowSendPrereqs =
  p_apiKey :: string
  p_rps :: int
  p_templateId :: string
  p_fromEmail :: string

record SendPrereqs = FlowSendPrereqs +
  p_fromName :: "string option"
  p_status :: CampaignStatus

record SendPrereqsOverride =
  ov_templateId :: "string option"
  ov_fromEmail :: "string option"
  ov_fromName :: "string option"

definition no_override :: SendPrereqsOverride where
  "no_override = \<lparr>ov_templateId = None, ov_fromEmail = None, ov_fromName = None\<rparr>"

definition tenant_api_key :: "runtime \<Rightarrow> crm \<Rightarrow> uuid \<Rightarrow> send_error + string" where
  "tenant_api_key rt db workspaceId =
     (case t_sendgridKeys db workspaceId of
        None \<Rightarrow> Inl (NoSendgridKey workspaceId)
      | Some keyRow \<Rightarrow>
          (case rt_decrypt rt workspaceId keyRow of
             None \<Rightarrow> Inl (KeyUndecryptable workspaceId)
           | Some apiKey \<Rightarrow> Inr apiKey))"

definition tenant_rps :: "crm \<Rightarrow> uuid \<Rightarrow> int" where
  "tenant_rps db workspaceId =
     nullish (rpsLimit (getWorkspaceSendSettings db workspaceId)) DEFAULT_TENANT_RPS"

definition readSendPrereqs ::
  "runtime \<Rightarrow> crm \<Rightarrow> uuid \<Rightarrow> uuid \<Rightarrow> SendPrereqsOverride \<Rightarrow> send_error + SendPrereqs" where
  "readSendPrereqs rt db workspaceId campaignId override =
     (case tenant_api_key rt db workspaceId of
        Inl e \<Rightarrow> Inl e
      | Inr apiKey \<Rightarrow>
          (let rps = tenant_rps db workspaceId in
           case find (visible_campaign workspaceId campaignId) (l_campaigns db) of
             None \<Rightarrow> Inl (CampaignIncomplete campaignId)
           | Some campaign \<Rightarrow>
               (let templateId = coalesce (ov_templateId override) (c_templateId campaign);
                    fromEmail = coalesce (ov_fromEmail override) (c_fromEmail campaign);
                    fromName = coalesce (ov_fromName override) (c_fromName campaign)
                in if \<not> truthy templateId \<or> \<not> truthy fromEmail
                   then Inl (CampaignIncomplete campaignId)
                   else Inr \<lparr>p_apiKey = apiKey, p_rps = rps,
                             p_templateId = nullish templateId [], p_fromEmail = nullish fromEmail [],
                             p_fromName = fromName, p_status = c_status campaign\<rparr>)))"

definition pinned_definition :: "crm \<Rightarrow> uuid \<Rightarrow> uuid \<Rightarrow> FlowDefinition option" where
  "pinned_definition db workspaceId flowRunId =
     (case find (\<lambda>fr. fr_id fr = flowRunId \<and> fr_workspaceId fr = workspaceId) (t_flowRuns db) of
        None \<Rightarrow> None
      | Some run \<Rightarrow>
          map_option fv_definition
            (find (\<lambda>fv. fv_id fv = fr_flowVersionId run \<and> fv_workspaceId fv = workspaceId)
               (t_flowVersions db)))"

definition readFlowSendPrereqs ::
  "runtime \<Rightarrow> crm \<Rightarrow> uuid \<Rightarrow> uuid \<Rightarrow> string \<Rightarrow> send_error + FlowSendPrereqs" where
  "readFlowSendPrereqs rt db workspaceId flowRunId nodeId =
     (case tenant_api_key rt db workspaceId of
        Inl e \<Rightarrow> Inl e
      | Inr apiKey \<Rightarrow>
          (let rps = tenant_rps db workspaceId in
           case pinned_definition db workspaceId flowRunId of
             None \<Rightarrow> Inl (FlowVersionMissing flowRunId)
           | Some d \<Rightarrow>
               (case find (\<lambda>candidate. node_id candidate = nodeId) (fd_nodes d) of
                  Some (SendNode i templateId fromSenderId fromEmail pos) \<Rightarrow>
                    (if \<not> truthy templateId \<or> \<not> truthy fromEmail
                     then Inl (SendNodeIncomplete nodeId)
                     else Inr \<lparr>p_apiKey = apiKey, p_rps = rps,
                               p_templateId = nullish templateId [],
                               p_fromEmail = nullish fromEmail []\<rparr>)
                | _ \<Rightarrow> Inl (NotASendNode nodeId))))"

section \<open>Unit 1: the claim transactions\<close>

record 'p Claimed =
  cl_prereqs :: 'p
  cl_sendId :: uuid
  cl_to :: string
  cl_dynamicTemplateData :: "(string \<times> js) list"
  cl_unsubscribeUrl :: string

datatype 'p ClaimResult =
    Proceed "'p Claimed"
  | ClaimExcluded string
  | ClaimSkipped
  | ClaimFailed uuid
  | ClaimReconciling uuid

text \<open>\<open>buildListUnsubscribeUrl(signUnsubscribeToken(...))\<close>.\<close>

definition unsubscribe_url ::
  "runtime \<Rightarrow> instant \<Rightarrow> uuid \<Rightarrow> uuid \<Rightarrow> uuid \<Rightarrow> send_error + string" where
  "unsubscribe_url rt now workspaceId sendId contactId =
     (case signUnsubscribeToken (rt_hmac rt) (rt_env rt)
             \<lparr>tok_sendId = sendId, tok_contactId = contactId, tok_workspaceId = workspaceId,
              tok_exp = nat (now div 1000 + UNSUBSCRIBE_TOKEN_TTL_SECONDS)\<rparr> of
        Inl e \<Rightarrow> Inl (TokenError e)
      | Inr token \<Rightarrow>
          (case buildListUnsubscribeUrl (rt_env rt) token of
             Inl e \<Rightarrow> Inl (TokenError e)
           | Inr url \<Rightarrow> Inr url))"

text \<open>What both paths do with the gate's answer: an interrupted claim is recorded \<open>reconciling\<close>
  inside the same transaction, a fresh one becomes a claim with its token and template data.\<close>

definition claim_of_gate ::
  "runtime \<Rightarrow> instant \<Rightarrow> uuid \<Rightarrow> contact_row \<Rightarrow> uuid \<Rightarrow> 'p
     \<Rightarrow> (uuid \<Rightarrow> SendResult \<Rightarrow> crm \<Rightarrow> crm) \<Rightarrow> crm \<times> DispatchSendGateResult
     \<Rightarrow> send_error + (crm \<times> 'p ClaimResult)" where
  "claim_of_gate rt now workspaceId contact contactId prereqs record_result g =
     (case g of
        (db, Skipped) \<Rightarrow> Inr (db, ClaimSkipped)
      | (db, Claim sendId interrupted) \<Rightarrow>
          (if interrupted
           then Inr (record_result sendId
                       \<lparr>res_status = RReconciling, res_providerMessageId = None,
                        res_dispatchedAt = None, res_dispatchDurationMs = None\<rparr> db,
                     ClaimReconciling sendId)
           else (case unsubscribe_url rt now workspaceId sendId contactId of
                   Inl e \<Rightarrow> Inl e
                 | Inr url \<Rightarrow>
                     Inr (db, Proceed \<lparr>cl_prereqs = prereqs, cl_sendId = sendId,
                                       cl_to = nullish (ct_email contact) [],
                                       cl_dynamicTemplateData =
                                         buildContactTemplateData (template_contact contact) (Some url),
                                       cl_unsubscribeUrl = url\<rparr>))))"

definition find_contact :: "crm \<Rightarrow> uuid \<Rightarrow> uuid \<Rightarrow> contact_row option" where
  "find_contact db workspaceId contactId =
     find (\<lambda>c. ct_id c = contactId \<and> ct_workspaceId c = workspaceId) (t_contacts db)"

definition claimCampaignSend ::
  "runtime \<Rightarrow> instant \<Rightarrow> uuid \<Rightarrow> uuid \<Rightarrow> uuid \<Rightarrow> crm
     \<Rightarrow> send_error + (crm \<times> SendPrereqs ClaimResult)" where
  "claimCampaignSend rt now workspaceId campaignId contactId db =
     (case readSendPrereqs rt db workspaceId campaignId no_override of
        Inl e \<Rightarrow> Inl e
      | Inr prereqs \<Rightarrow>
          (if p_status prereqs \<noteq> CSending then Inr (db, ClaimSkipped)
           else if isWorkspaceSoftDeleted db workspaceId then
             (case recordExcluded (rt_sha1 rt) now workspaceId campaignId contactId
                     WORKSPACE_DELETED_EXCLUSION_REASON db of
                Inl e \<Rightarrow> Inl (LedgerError e)
              | Inr db' \<Rightarrow> Inr (db', ClaimExcluded WORKSPACE_DELETED_EXCLUSION_REASON))
           else (case find_contact db workspaceId contactId of
                   None \<Rightarrow> Inl (ContactNotFound contactId workspaceId)
                 | Some contact \<Rightarrow>
                     (case evaluatePreSendGate db now workspaceId contact of
                        NotSendable reason \<Rightarrow>
                          (case recordExcluded (rt_sha1 rt) now workspaceId campaignId contactId
                                  (skip_reason_name reason) db of
                             Inl e \<Rightarrow> Inl (LedgerError e)
                           | Inr db' \<Rightarrow> Inr (db', ClaimExcluded (skip_reason_name reason)))
                      | Sendable \<Rightarrow>
                          (case dispatchSendGate (rt_sha1 rt) now workspaceId campaignId
                                  contactId db of
                             Inl e \<Rightarrow> Inl (LedgerError e)
                           | Inr g \<Rightarrow>
                               claim_of_gate rt now workspaceId contact contactId prereqs
                                 (recordSendResult workspaceId now) g)))))"

definition claimFlowSend ::
  "runtime \<Rightarrow> instant \<Rightarrow> uuid \<Rightarrow> uuid \<Rightarrow> string \<Rightarrow> uuid \<Rightarrow> crm
     \<Rightarrow> send_error + (crm \<times> FlowSendPrereqs ClaimResult)" where
  "claimFlowSend rt now workspaceId flowRunId nodeId contactId db =
     (if isWorkspaceSoftDeleted db workspaceId then
        (case recordFlowExcluded (rt_sha1 rt) now workspaceId flowRunId nodeId contactId
                WORKSPACE_DELETED_EXCLUSION_REASON db of
           Inl e \<Rightarrow> Inl (LedgerError e)
         | Inr db' \<Rightarrow> Inr (db', ClaimExcluded WORKSPACE_DELETED_EXCLUSION_REASON))
      else (case readFlowSendPrereqs rt db workspaceId flowRunId nodeId of
              Inl e \<Rightarrow> Inl e
            | Inr prereqs \<Rightarrow>
                (case find_contact db workspaceId contactId of
                   None \<Rightarrow> Inl (ContactNotFound contactId workspaceId)
                 | Some contact \<Rightarrow>
                     (case evaluatePreSendGate db now workspaceId contact of
                        NotSendable reason \<Rightarrow>
                          (case recordFlowExcluded (rt_sha1 rt) now workspaceId flowRunId nodeId
                                  contactId (skip_reason_name reason) db of
                             Inl e \<Rightarrow> Inl (LedgerError e)
                           | Inr db' \<Rightarrow> Inr (db', ClaimExcluded (skip_reason_name reason)))
                      | Sendable \<Rightarrow>
                          (case claimFlowSendLedger (rt_sha1 rt) now workspaceId flowRunId nodeId
                                  contactId db of
                             Inl e \<Rightarrow> Inl (LedgerError e)
                           | Inr g \<Rightarrow>
                               claim_of_gate rt now workspaceId contact contactId prereqs
                                 (recordFlowStepResult workspaceId now) g)))))"

end
