(* ===== verification/Lane_Semaphore.thy ===== *)
theory Lane_Semaphore
  imports Send_Timing
begin

text \<open>
  The per-tenant, per-lane concurrency semaphore of
  \<open>apps/worker/src/queues/tenant-lane-semaphore.ts\<close>: a Redis sorted set per (tenant, lane) whose
  members are the tokens of the holders and whose scores are the instants they were acquired. The
  Lua script runs atomically in Redis, so one acquire is one function on the store. The model keeps
  a key's own expiry (\<open>PEXPIRE\<close>) beside its members; Redis and the callers are taken to share
  one clock.
\<close>

section \<open>The store and its commands\<close>

datatype TenantLane = Broadcast | Triggered

record zkey =
  z_members :: "(string \<times> int) list"
  z_expires :: "int option"

type_synonym redis = "string \<Rightarrow> zkey option"

text \<open>A key whose expiry has passed reads as absent; a sorted set without members does not exist.\<close>

definition zread :: "int \<Rightarrow> string \<Rightarrow> redis \<Rightarrow> (string \<times> int) list" where
  "zread now key s =
     (case s key of
        None \<Rightarrow> []
      | Some k \<Rightarrow>
          (case z_expires k of
             None \<Rightarrow> z_members k
           | Some e \<Rightarrow> (if e \<le> now then [] else z_members k)))"

definition zexpiry :: "int \<Rightarrow> string \<Rightarrow> redis \<Rightarrow> int option" where
  "zexpiry now key s =
     (case s key of
        None \<Rightarrow> None
      | Some k \<Rightarrow>
          (case z_expires k of
             None \<Rightarrow> None
           | Some e \<Rightarrow> (if e \<le> now then None else Some e)))"

definition zwrite :: "string \<Rightarrow> (string \<times> int) list \<Rightarrow> int option \<Rightarrow> redis \<Rightarrow> redis" where
  "zwrite key members e s =
     s(key := (if members = [] then None else Some \<lparr>z_members = members, z_expires = e\<rparr>))"

definition zremrangebyscore :: "int \<Rightarrow> (string \<times> int) list \<Rightarrow> (string \<times> int) list" where
  "zremrangebyscore hi zs = filter (\<lambda>m. hi < snd m) zs"

definition zadd :: "string \<Rightarrow> int \<Rightarrow> (string \<times> int) list \<Rightarrow> (string \<times> int) list" where
  "zadd token score zs = (token, score) # filter (\<lambda>m. fst m \<noteq> token) zs"

definition zrem :: "string \<Rightarrow> (string \<times> int) list \<Rightarrow> (string \<times> int) list" where
  "zrem token zs = filter (\<lambda>m. fst m \<noteq> token) zs"

text \<open>\<open>ZRANGE key 0 0 WITHSCORES\<close>: the lowest score, if the set has a member.\<close>

definition zoldest :: "(string \<times> int) list \<Rightarrow> int option" where
  "zoldest zs = (if zs = [] then None else Some (Min (set (map snd zs))))"

section \<open>The acquire script\<close>

text \<open>A script error (arithmetic on the missing score of an empty set, reached only with a cap of 0
  or less) aborts the call; the removals it made before stay.\<close>

datatype script_result = Acquired | Denied int | ScriptError

definition ACQUIRE_SCRIPT ::
  "string \<Rightarrow> int \<Rightarrow> int \<Rightarrow> int \<Rightarrow> string \<Rightarrow> redis \<Rightarrow> redis \<times> script_result" where
  "ACQUIRE_SCRIPT key now leaseTtlMs cap token s =
     (let live = zremrangebyscore (now - leaseTtlMs) (zread now key s);
          count = int (length live)
      in if count < cap
         then (zwrite key (zadd token now live) (Some (now + leaseTtlMs)) s, Acquired)
         else (zwrite key live (zexpiry now key s) s,
               (case zoldest live of
                  None \<Rightarrow> ScriptError
                | Some oldestScore \<Rightarrow>
                    (let remaining = leaseTtlMs - (now - oldestScore)
                     in Denied (if remaining < 1 then 1 else remaining)))))"

section \<open>The module's functions\<close>

fun lane_name :: "TenantLane \<Rightarrow> string" where
  "lane_name Broadcast = ''broadcast''"
| "lane_name Triggered = ''triggered''"

fun TENANT_LANE_CONCURRENCY_DEFAULTS :: "TenantLane \<Rightarrow> int" where
  "TENANT_LANE_CONCURRENCY_DEFAULTS Broadcast = 3"
| "TENANT_LANE_CONCURRENCY_DEFAULTS Triggered = 12"

fun ENV_VAR_BY_LANE :: "TenantLane \<Rightarrow> string" where
  "ENV_VAR_BY_LANE Broadcast = ''TENANT_LANE_CONCURRENCY_BROADCAST''"
| "ENV_VAR_BY_LANE Triggered = ''TENANT_LANE_CONCURRENCY_TRIGGERED''"

definition resolveTenantLaneCap :: "(string \<Rightarrow> string option) \<Rightarrow> TenantLane \<Rightarrow> int" where
  "resolveTenantLaneCap env lane =
     (case env (ENV_VAR_BY_LANE lane) of
        None \<Rightarrow> TENANT_LANE_CONCURRENCY_DEFAULTS lane
      | Some raw \<Rightarrow>
          (if raw = [] then TENANT_LANE_CONCURRENCY_DEFAULTS lane
           else (case jsnum_int (js_number raw) of
                   Some parsed \<Rightarrow>
                     (if 0 < parsed then parsed else TENANT_LANE_CONCURRENCY_DEFAULTS lane)
                 | None \<Rightarrow> TENANT_LANE_CONCURRENCY_DEFAULTS lane)))"

definition SEMAPHORE_KEY_PREFIX :: string where
  "SEMAPHORE_KEY_PREFIX = ''tenant-lane-sem''"

definition buildKey :: "uuid \<Rightarrow> TenantLane \<Rightarrow> string" where
  "buildKey workspaceId lane = SEMAPHORE_KEY_PREFIX @ '':'' @ workspaceId @ '':'' @ lane_name lane"

text \<open>\<open>token\<close> is the fresh \<open>randomUUID()\<close> of the call; cap and lease are the call's options, or
  their defaults.\<close>

datatype AcquireSlotResult = SlotAcquired string | SlotDenied int | SlotError

definition acquireTenantLaneSlot ::
  "int \<Rightarrow> string \<Rightarrow> uuid \<Rightarrow> TenantLane \<Rightarrow> int \<Rightarrow> int \<Rightarrow> redis \<Rightarrow> redis \<times> AcquireSlotResult" where
  "acquireTenantLaneSlot now token workspaceId lane cap leaseTtlMs s =
     (case ACQUIRE_SCRIPT (buildKey workspaceId lane) now leaseTtlMs cap token s of
        (s', Acquired) \<Rightarrow> (s', SlotAcquired token)
      | (s', Denied retryAfterMs) \<Rightarrow> (s', SlotDenied retryAfterMs)
      | (s', ScriptError) \<Rightarrow> (s', SlotError))"

definition releaseTenantLaneSlot ::
  "int \<Rightarrow> uuid \<Rightarrow> TenantLane \<Rightarrow> string option \<Rightarrow> redis \<Rightarrow> redis" where
  "releaseTenantLaneSlot now workspaceId lane token s =
     (if \<not> truthy token then s
      else (let key = buildKey workspaceId lane
            in zwrite key (zrem (nullish token []) (zread now key s)) (zexpiry now key s) s))"

section \<open>Live holders\<close>

text \<open>The holders of a slot at an instant: the members whose lease has not run out.\<close>

definition live_holders :: "int \<Rightarrow> int \<Rightarrow> string \<Rightarrow> redis \<Rightarrow> (string \<times> int) list" where
  "live_holders now ttl key s = zremrangebyscore (now - ttl) (zread now key s)"

lemma length_zrem: "length (zrem t zs) \<le> length zs"
  by (simp add: zrem_def)

lemma length_zadd: "length (zadd t sc zs) \<le> Suc (length zs)"
  by (simp add: zadd_def)

lemma zread_zwrite_same:
  "zread now key (zwrite key zs e s) =
     (case e of None \<Rightarrow> zs | Some x \<Rightarrow> (if x \<le> now then [] else zs))"
  by (simp add: zread_def zwrite_def split: option.split)

lemma zread_zwrite_other: "key \<noteq> key' \<Longrightarrow> zread now key' (zwrite key zs e s) = zread now key' s"
  by (simp add: zread_def zwrite_def)

lemma zread_later: "now \<le> now' \<Longrightarrow> zread now' key s = [] \<or> zread now' key s = zread now key s"
  by (auto simp: zread_def split: option.split)

lemma length_live_later:
  assumes "now \<le> now'"
  shows "length (live_holders now' ttl key s) \<le> length (live_holders now ttl key s)"
proof -
  have mono: "length (filter (\<lambda>m. now' - ttl < snd m) zs) \<le> length (filter (\<lambda>m. now - ttl < snd m) zs)"
    for zs :: "(string \<times> int) list"
    by (induction zs) (use assms in auto)
  show ?thesis
    using zread_later [OF assms, of key s] mono
    by (auto simp: live_holders_def zremrangebyscore_def)
qed

lemma live_filtered:
  "length (zremrangebyscore hi (zremrangebyscore hi zs)) = length (zremrangebyscore hi zs)"
  by (simp add: zremrangebyscore_def)

lemma acquire_other_key:
  "key \<noteq> key' \<Longrightarrow> zread t key' (fst (ACQUIRE_SCRIPT key now ttl cap token s)) = zread t key' s"
  by (simp add: ACQUIRE_SCRIPT_def Let_def zread_zwrite_other)

lemma acquire_live_bound:
  assumes "int (length (live_holders now ttl key s)) \<le> cap"
  shows "int (length (live_holders now ttl key (fst (ACQUIRE_SCRIPT key now ttl cap token s)))) \<le> cap"
proof (cases "int (length (live_holders now ttl key s)) < cap")
  case True
  let ?live = "live_holders now ttl key s"
  have "fst (ACQUIRE_SCRIPT key now ttl cap token s) =
        zwrite key (zadd token now ?live) (Some (now + ttl)) s"
    using True by (simp add: ACQUIRE_SCRIPT_def live_holders_def Let_def)
  moreover have "length (live_holders now ttl key (zwrite key (zadd token now ?live) (Some (now + ttl)) s))
      \<le> length (zadd token now ?live)"
    unfolding live_holders_def zremrangebyscore_def zread_zwrite_same
    by (simp del: length_filter_le) (rule impI, rule length_filter_le)
  ultimately show ?thesis using True length_zadd [of token now ?live] by simp
next
  case False
  let ?live = "live_holders now ttl key s"
  have eq: "fst (ACQUIRE_SCRIPT key now ttl cap token s) = zwrite key ?live (zexpiry now key s) s"
    using False by (simp add: ACQUIRE_SCRIPT_def live_holders_def Let_def)
  have "length (live_holders now ttl key (zwrite key ?live e s)) \<le> length ?live" for e
    unfolding live_holders_def zremrangebyscore_def zread_zwrite_same
    by (auto split: option.split)
  with assms show ?thesis unfolding eq by (meson of_nat_le_iff order_trans)
qed

lemma release_live_bound:
  "length (live_holders now ttl key (releaseTenantLaneSlot now w lane tok s))
     \<le> length (live_holders now ttl key s)"
proof (cases "truthy tok \<and> key = buildKey w lane")
  case True
  let ?z = "zread now key s"
  have "length (filter (\<lambda>m. now - ttl < snd m) (zrem x z))
          \<le> length (filter (\<lambda>m. now - ttl < snd m) z)" for x z
    by (induction z) (auto simp: zrem_def)
  then have "length (filter (\<lambda>m. now - ttl < snd m) (zrem (nullish tok []) ?z))
          \<le> length (live_holders now ttl key s)"
    by (simp add: live_holders_def zremrangebyscore_def)
  with True show ?thesis
    by (auto simp: releaseTenantLaneSlot_def Let_def live_holders_def zremrangebyscore_def
          zread_zwrite_same split: option.split)
next
  case False
  then show ?thesis
    by (auto simp: releaseTenantLaneSlot_def Let_def live_holders_def zread_zwrite_other)
qed

lemma fst_acquireTenantLaneSlot:
  "fst (acquireTenantLaneSlot now token w lane cap ttl s) =
   fst (ACQUIRE_SCRIPT (buildKey w lane) now ttl cap token s)"
  by (simp add: acquireTenantLaneSlot_def split: prod.split script_result.split)

section \<open>The slot pool as a guarded system\<close>

text \<open>An operation on the pools of any tenant and lane at an instant; the clock does not run
  backwards.\<close>

datatype slot_op =
    SlotAcquire uuid TenantLane string int
  | SlotRelease uuid TenantLane "string option" int

fun slot_op_time :: "slot_op \<Rightarrow> int" where
  "slot_op_time (SlotAcquire w lane token now) = now"
| "slot_op_time (SlotRelease w lane tok now) = now"

fun slot_step :: "int \<Rightarrow> int \<Rightarrow> slot_op \<Rightarrow> int \<times> redis \<Rightarrow> int \<times> redis" where
  "slot_step ttl cap (SlotAcquire w lane token now) (t, s) =
     (now, fst (acquireTenantLaneSlot now token w lane cap ttl s))"
| "slot_step ttl cap (SlotRelease w lane tok now) (t, s) =
     (now, releaseTenantLaneSlot now w lane tok s)"

definition slot_guard :: "slot_op \<Rightarrow> int \<times> redis \<Rightarrow> bool" where
  "slot_guard x st = (fst st \<le> slot_op_time x)"

definition within_cap :: "int \<Rightarrow> int \<Rightarrow> int \<times> redis \<Rightarrow> bool" where
  "within_cap ttl cap st =
     (\<forall>key. int (length (live_holders (fst st) ttl key (snd st))) \<le> cap)"

lemma within_cap_step:
  assumes "within_cap ttl cap st" "slot_guard x st"
  shows "within_cap ttl cap (slot_step ttl cap x st)"
proof -
  obtain t s where st: "st = (t, s)" by (cases st)
  have bound: "int (length (live_holders (slot_op_time x) ttl key s)) \<le> cap" for key
  proof -
    have "length (live_holders (slot_op_time x) ttl key s) \<le> length (live_holders t ttl key s)"
      using assms(2) st by (intro length_live_later) (simp add: slot_guard_def)
    moreover have "int (length (live_holders t ttl key s)) \<le> cap"
      using assms(1) st by (simp add: within_cap_def)
    ultimately show ?thesis by simp
  qed
  show ?thesis
  proof (cases x)
    case (SlotAcquire w lane token now)
    let ?key = "buildKey w lane"
    have "int (length (live_holders now ttl k (fst (ACQUIRE_SCRIPT ?key now ttl cap token s)))) \<le> cap"
      for k
    proof (cases "k = ?key")
      case True
      then show ?thesis using acquire_live_bound bound [of ?key] SlotAcquire by simp
    next
      case False
      then show ?thesis
        using bound [of k] SlotAcquire acquire_other_key [of ?key k]
        by (simp add: live_holders_def)
    qed
    then show ?thesis using SlotAcquire st
      by (simp add: within_cap_def fst_acquireTenantLaneSlot)
  next
    case (SlotRelease w lane tok now)
    have "int (length (live_holders now ttl k (releaseTenantLaneSlot now w lane tok s))) \<le> cap" for k
      using release_live_bound [of now ttl k w lane tok s] bound [of k] SlotRelease
      by simp
    then show ?thesis using SlotRelease st by (simp add: within_cap_def)
  qed
qed

interpretation slots: invariant_system "slot_step ttl cap" slot_guard "within_cap ttl cap"
  for ttl cap
  by unfold_locales (rule within_cap_step)

section \<open>Keys, leases and denials\<close>

lemma buildKey_inj: "buildKey w l = buildKey w' l' \<Longrightarrow> w = w' \<and> l = l'"
  by (cases l; cases l') (simp_all add: buildKey_def)

lemma resolveTenantLaneCap_pos: "0 < resolveTenantLaneCap env lane"
  by (cases lane) (auto simp: resolveTenantLaneCap_def split: option.split)

text \<open>The expiry of the whole key never takes a lease that is still running.\<close>

lemma Min_score: "zoldest zs = Some m \<Longrightarrow> (\<exists>x \<in> set zs. snd x = m) \<and> (\<forall>x \<in> set zs. m \<le> snd x)"
proof -
  assume "zoldest zs = Some m"
  then have ne: "zs \<noteq> []" and m: "m = Min (snd ` set zs)" by (auto simp: zoldest_def split: if_splits)
  have fin: "finite (snd ` set zs)" "snd ` set zs \<noteq> {}" using ne by auto
  have "m \<in> snd ` set zs" unfolding m using fin by (rule Min_in)
  moreover have "\<forall>x \<in> set zs. m \<le> snd x" unfolding m using fin(1) by simp
  ultimately show ?thesis by auto
qed

lemma denied_retry:
  assumes "ACQUIRE_SCRIPT key now ttl cap token s = (s', Denied r)"
  shows "1 \<le> r" "\<exists>m \<in> set (live_holders now ttl key s). r = ttl - (now - snd m)"
    "cap \<le> int (length (live_holders now ttl key s))"
proof -
  let ?live = "live_holders now ttl key s"
  have no: "\<not> int (length ?live) < cap"
    using assms by (auto simp: ACQUIRE_SCRIPT_def Let_def live_holders_def split: if_splits)
  then obtain m where m: "zoldest ?live = Some m"
      "r = (if ttl - (now - m) < 1 then 1 else ttl - (now - m))"
    using assms
    by (auto simp: ACQUIRE_SCRIPT_def Let_def live_holders_def split: option.splits)
  obtain x where x: "x \<in> set ?live" "snd x = m" using Min_score [OF m(1)] by blast
  have "now - ttl < m" using x by (simp add: live_holders_def zremrangebyscore_def)
  then have "r = ttl - (now - m)" "1 \<le> r" using m(2) by (auto split: if_splits)
  with x show "1 \<le> r" "\<exists>m \<in> set ?live. r = ttl - (now - snd m)" by auto
  show "cap \<le> int (length ?live)" using no by simp
qed

end
