(* ===== verification/Send_Dispatch.thy ===== *)
theory Send_Dispatch
  imports Send_Claims Lane_Semaphore
begin

text \<open>
  The send processor of \<open>apps/worker/src/queues/send-dispatch.ts\<close>: the request it builds
  (\<open>delivery-core/src/send-mail.ts\<close>), the per-tenant token bucket (\<open>rate-limiter.ts\<close>; the limiter
  of the \<open>rate-limiter-flexible\<close> package is an input), the region after the claim that both send
  paths share in shape, the three kinds of job, and what the two queue workers make of an outcome
  (\<open>tenant-deferral.ts\<close>, \<open>email-broadcast.worker.ts\<close>, \<open>email-triggered.worker.ts\<close>).

  A processor touches the database in separate transactions, Redis, and the provider. \<open>attempt\<close>
  holds what one run reads from outside: its clock at each point, the identifiers it draws, the
  answers of the limiter and of the provider. The state after a throw is the state its committed
  transactions left, so a result pairs the world with an error or an outcome.
\<close>

section \<open>The provider request\<close>

record SendGridMailSendRequest =
  mr_to :: string
  mr_dynamic_template_data :: "(string \<times> js) list"
  mr_custom_args :: "(string \<times> string) list"
  mr_from_email :: string
  mr_from_name :: "string option"
  mr_template_id :: string
  mr_headers :: "(string \<times> string) list"
  mr_subscription_tracking :: bool
  mr_open_tracking :: bool
  mr_click_tracking :: bool

record BuildMailSendRequestParams =
  bm_to :: string
  bm_templateId :: string
  bm_fromEmail :: string
  bm_fromName :: "string option"
  bm_dynamicTemplateData :: "(string \<times> js) list"
  bm_listUnsubscribeUrl :: string
  bm_sendId :: uuid
  bm_workspaceId :: uuid
  bm_campaignId :: "uuid option"
  bm_isTest :: bool

definition buildMailSendRequest :: "BuildMailSendRequestParams \<Rightarrow> SendGridMailSendRequest" where
  "buildMailSendRequest p =
     (let fromName = map_option js_trim (bm_fromName p) in
      \<lparr>mr_to = bm_to p,
       mr_dynamic_template_data = bm_dynamicTemplateData p,
       mr_custom_args =
         [(''send_id'', bm_sendId p), (''workspace_id'', bm_workspaceId p)]
         @ (case bm_campaignId p of None \<Rightarrow> [] | Some c \<Rightarrow> [(''campaign_id'', c)])
         @ (if bm_isTest p then [(''test'', ''true'')] else []),
       mr_from_email = bm_fromEmail p,
       mr_from_name = (if truthy fromName then fromName else None),
       mr_template_id = bm_templateId p,
       mr_headers =
         [(''List-Unsubscribe'', ''<'' @ bm_listUnsubscribeUrl p @ ''>''),
          (''List-Unsubscribe-Post'', ''List-Unsubscribe=One-Click'')],
       mr_subscription_tracking = False,
       mr_open_tracking = True,
       mr_click_tracking = True\<rparr>)"

text \<open>\<open>Headers.get\<close> of a lower-case name; a rejected call carries the thrown value.\<close>

record SendTenantMailResult =
  resp_status :: int
  resp_headers :: "(string \<times> string) list"
  resp_messageId :: "string option"

datatype MailOutcome = MailResponse SendTenantMailResult | MailRejected js

datatype fetch_outcome = FetchResponse int "(string \<times> string) list" | FetchThrew js

definition sendTenantMailV3 ::
  "(js \<Rightarrow> string) \<Rightarrow> string \<Rightarrow> (string \<Rightarrow> SendGridMailSendRequest \<Rightarrow> fetch_outcome)
     \<Rightarrow> string \<Rightarrow> SendGridMailSendRequest \<Rightarrow> MailOutcome" where
  "sendTenantMailV3 to_string new_stack fetch apiKey payload =
     (case fetch (''Bearer '' @ apiKey) payload of
        FetchResponse status headers \<Rightarrow>
          MailResponse \<lparr>resp_status = status, resp_headers = headers,
                        resp_messageId = map_of headers ''x-message-id''\<rparr>
      | FetchThrew err \<Rightarrow> MailRejected (redactApiKey to_string new_stack err apiKey))"

section \<open>Backoff headers\<close>

fun jsnum_mul :: "jsnum \<Rightarrow> rat \<Rightarrow> jsnum" where
  "jsnum_mul (Fin q) k = Fin (q * k)"
| "jsnum_mul v k = v"

fun jsnum_minus :: "jsnum \<Rightarrow> int \<Rightarrow> jsnum" where
  "jsnum_minus (Fin q) k = Fin (q - of_int k)"
| "jsnum_minus v k = v"

fun jsnum_pos :: "jsnum \<Rightarrow> bool" where
  "jsnum_pos NaN = False"
| "jsnum_pos Infinity = True"
| "jsnum_pos NegInfinity = False"
| "jsnum_pos (Fin q) = (0 < q)"

definition parseRetryAfter :: "(string \<times> string) list \<Rightarrow> instant \<Rightarrow> jsnum" where
  "parseRetryAfter headers now =
     (let fixed = Fin 2000;
          from_reset =
            (case map_of headers ''x-ratelimit-reset'' of
               None \<Rightarrow> fixed
             | Some resetHeader \<Rightarrow>
                 (let resetUnixSeconds = js_number resetHeader in
                  if resetUnixSeconds \<noteq> NaN
                  then (let msUntilReset = jsnum_minus (jsnum_mul resetUnixSeconds 1000) now
                        in if jsnum_pos msUntilReset then msUntilReset else fixed)
                  else fixed))
      in (case map_of headers ''retry-after'' of
            None \<Rightarrow> from_reset
          | Some retryAfter \<Rightarrow>
              (let seconds = js_number retryAfter in
               if seconds \<noteq> NaN \<and> jsnum_nonneg seconds then jsnum_mul seconds 1000
               else from_reset)))"

section \<open>The token bucket\<close>

datatype LimiterAnswer = LimiterConsumed | LimiterRejected int | LimiterThrew

record ConsumeTokenResult =
  rate_allowed :: bool
  rate_msBeforeNext :: int

definition consumeTenantToken ::
  "(uuid \<Rightarrow> int \<Rightarrow> LimiterAnswer) \<Rightarrow> uuid \<Rightarrow> int \<Rightarrow> send_error + ConsumeTokenResult" where
  "consumeTenantToken limiter workspaceId rps =
     (case limiter workspaceId rps of
        LimiterConsumed \<Rightarrow> Inr \<lparr>rate_allowed = True, rate_msBeforeNext = 0\<rparr>
      | LimiterRejected ms \<Rightarrow> Inr \<lparr>rate_allowed = False, rate_msBeforeNext = ms\<rparr>
      | LimiterThrew \<Rightarrow> Inl RateLimiterFailed)"

section \<open>Jobs and outcomes\<close>

datatype BroadcastKind = KCampaign | KTest

record EmailBroadcastJob =
  j_workspaceId :: uuid
  j_campaignId :: uuid
  j_kind :: BroadcastKind
  j_contactId :: "uuid option"
  j_testTo :: "string option"
  j_testData :: "(string \<times> js) list option"
  j_templateId :: "string option"
  j_fromEmail :: "string option"
  j_fromName :: "string option"

record FlowSendJob =
  fj_workspaceId :: uuid
  fj_flowRunId :: uuid
  fj_nodeId :: string
  fj_contactId :: uuid

datatype SendJob = BroadcastJob EmailBroadcastJob | FlowJob FlowSendJob

datatype RateCause = TenantBucket | ProviderBackoff

datatype SendJobResult =
    OSent uuid "string option"
  | OSkipped
  | OExcluded string
  | OFailed uuid
  | ORateLimited jsnum RateCause
  | OReconciling uuid
  | OUnknown uuid

definition laneForSendJobKind :: "SendJob \<Rightarrow> TenantLane" where
  "laneForSendJobKind job = (case job of FlowJob fj \<Rightarrow> Triggered | BroadcastJob bj \<Rightarrow> Broadcast)"

record world =
  w_db :: crm
  w_redis :: redis

record attempt =
  at_claim :: instant
  at_slot :: instant
  at_slotToken :: string
  at_limiter :: "uuid \<Rightarrow> int \<Rightarrow> LimiterAnswer"
  at_dispatched :: instant
  at_sendMail :: "string \<Rightarrow> SendGridMailSendRequest \<Rightarrow> MailOutcome"
  at_responded :: instant
  at_record :: instant
  at_slotRelease :: instant
  at_randomSendId :: uuid
  at_randomContactId :: uuid

section \<open>After the claim\<close>

text \<open>The writes of unit 3, which differ between the two paths.\<close>

definition plain_result :: "ResultStatus \<Rightarrow> string option \<Rightarrow> instant \<Rightarrow> int \<Rightarrow> SendResult" where
  "plain_result status messageId dispatchedAt durationMs =
     \<lparr>res_status = status, res_providerMessageId = messageId, res_dispatchedAt = Some dispatchedAt,
      res_dispatchDurationMs = Some durationMs\<rparr>"

definition record_campaign_failed ::
  "uuid \<Rightarrow> uuid \<Rightarrow> instant \<Rightarrow> uuid \<Rightarrow> SendResult \<Rightarrow> crm \<Rightarrow> crm" where
  "record_campaign_failed workspaceId campaignId now sendId result db =
     fst (tryCompleteCampaign workspaceId now campaignId
            (incrementCampaignSendCounter workspaceId now campaignId CounterFailed
               (recordSendResult workspaceId now sendId result db)))"

definition record_campaign_sent ::
  "uuid \<Rightarrow> uuid \<Rightarrow> instant \<Rightarrow> uuid \<Rightarrow> SendResult \<Rightarrow> crm \<Rightarrow> crm" where
  "record_campaign_sent workspaceId campaignId now sendId result db =
     fst (tryCompleteCampaign workspaceId now campaignId
            (incrementCampaignSendCounter workspaceId now campaignId CounterSent
               (recordSendResult workspaceId now sendId result db)))"

definition handleAmbiguousSendMailError ::
  "uuid \<Rightarrow> js \<Rightarrow> uuid \<Rightarrow> instant \<Rightarrow> instant \<Rightarrow> (int \<Rightarrow> crm \<Rightarrow> crm) \<Rightarrow> crm
     \<Rightarrow> crm \<times> (send_error + SendJobResult)" where
  "handleAmbiguousSendMailError workspaceId err sendId dispatchedAt now writeReconciling db =
     (let dispatchDurationMs = now - dispatchedAt in
      case classifyTransportError err of
        PreConnectionRetryable \<Rightarrow> (releaseDispatchClaim workspaceId sendId db, Inl (TransportError err))
      | Ambiguous \<Rightarrow> (writeReconciling dispatchDurationMs db, Inr (OReconciling sendId)))"

text \<open>Unit 3: the write of the provider's answer.\<close>

definition record_outcome ::
  "attempt \<Rightarrow> uuid \<Rightarrow> uuid \<Rightarrow> MailOutcome
     \<Rightarrow> (SendResult \<Rightarrow> crm \<Rightarrow> crm) \<Rightarrow> (SendResult \<Rightarrow> crm \<Rightarrow> crm) \<Rightarrow> (SendResult \<Rightarrow> crm \<Rightarrow> crm)
     \<Rightarrow> crm \<Rightarrow> crm \<times> (send_error + SendJobResult)" where
  "record_outcome a workspaceId sendId outcome write_reconciling write_failed write_sent db =
     (let dispatchedAt = at_dispatched a;
          dispatchDurationMs = at_responded a - dispatchedAt
      in case outcome of
           MailRejected err \<Rightarrow>
             handleAmbiguousSendMailError workspaceId err sendId dispatchedAt (at_responded a)
               (\<lambda>ms. write_reconciling (plain_result RReconciling None dispatchedAt ms)) db
         | MailResponse response \<Rightarrow>
             (if resp_status response = 429 \<or> resp_status response \<ge> 500
              then (releaseDispatchClaim workspaceId sendId db,
                    Inr (ORateLimited (parseRetryAfter (resp_headers response) (at_record a))
                           ProviderBackoff))
              else if resp_status response \<ge> 400
              then (write_failed (plain_result RFailed None dispatchedAt dispatchDurationMs) db,
                    Inr (OFailed sendId))
              else (write_sent (plain_result RSent (resp_messageId response) dispatchedAt
                                  dispatchDurationMs) db,
                    Inr (OSent sendId (resp_messageId response)))))"

text \<open>Units 2 and 3 inside the slot: the token, the call, and the write of its answer.\<close>

definition call_and_record ::
  "attempt \<Rightarrow> uuid \<Rightarrow> uuid \<Rightarrow> int \<Rightarrow> string \<Rightarrow> SendGridMailSendRequest
     \<Rightarrow> (SendResult \<Rightarrow> crm \<Rightarrow> crm) \<Rightarrow> (SendResult \<Rightarrow> crm \<Rightarrow> crm) \<Rightarrow> (SendResult \<Rightarrow> crm \<Rightarrow> crm)
     \<Rightarrow> crm \<Rightarrow> crm \<times> (send_error + SendJobResult)" where
  "call_and_record a workspaceId sendId rps apiKey payload write_reconciling write_failed write_sent db =
     (case consumeTenantToken (at_limiter a) workspaceId rps of
        Inl e \<Rightarrow> (db, Inl e)
      | Inr rateResult \<Rightarrow>
          (if \<not> rate_allowed rateResult
           then (releaseDispatchClaim workspaceId sendId db,
                 Inr (ORateLimited (Fin (of_int (rate_msBeforeNext rateResult))) TenantBucket))
           else record_outcome a workspaceId sendId (at_sendMail a apiKey payload)
                  write_reconciling write_failed write_sent db))"

text \<open>The slot around it: denied, the claim is released; acquired, the slot is released on every
  way out. A denial without a delay reads as 0.\<close>

definition in_lane_slot ::
  "runtime \<Rightarrow> attempt \<Rightarrow> uuid \<Rightarrow> TenantLane \<Rightarrow> (crm \<Rightarrow> crm)
     \<Rightarrow> (crm \<Rightarrow> crm \<times> (send_error + SendJobResult)) \<Rightarrow> world
     \<Rightarrow> world \<times> (send_error + SendJobResult)" where
  "in_lane_slot rt a workspaceId lane on_denied body w =
     (case acquireTenantLaneSlot (at_slot a) (at_slotToken a) workspaceId lane
             (resolveTenantLaneCap (rt_env rt) lane) SEND_SLOT_LEASE_TTL_MS (w_redis w) of
        (s, SlotError) \<Rightarrow> (w\<lparr>w_redis := s\<rparr>, Inl SlotScriptFailed)
      | (s, SlotDenied retryAfterMs) \<Rightarrow>
          (w\<lparr>w_redis := s, w_db := on_denied (w_db w)\<rparr>,
           Inr (ORateLimited (Fin (of_int retryAfterMs)) TenantBucket))
      | (s, SlotAcquired token) \<Rightarrow>
          (case body (w_db w) of
             (db, res) \<Rightarrow>
               (w\<lparr>w_db := db,
                  w_redis := releaseTenantLaneSlot (at_slotRelease a) workspaceId lane (Some token) s\<rparr>,
                res)))"

section \<open>The processors\<close>

definition processCampaignSend ::
  "runtime \<Rightarrow> attempt \<Rightarrow> EmailBroadcastJob \<Rightarrow> world \<Rightarrow> world \<times> (send_error + SendJobResult)" where
  "processCampaignSend rt a job w =
     (let workspaceId = j_workspaceId job; campaignId = j_campaignId job in
      if \<not> truthy (j_contactId job) then (w, Inl ContactIdRequired)
      else (case claimCampaignSend rt (at_claim a) workspaceId campaignId
                   (nullish (j_contactId job) []) (w_db w) of
        Inl e \<Rightarrow> (w, Inl e)
      | Inr (db, ClaimExcluded reason) \<Rightarrow> (w\<lparr>w_db := db\<rparr>, Inr (OExcluded reason))
      | Inr (db, ClaimSkipped) \<Rightarrow> (w\<lparr>w_db := db\<rparr>, Inr OSkipped)
      | Inr (db, ClaimFailed sendId) \<Rightarrow> (w\<lparr>w_db := db\<rparr>, Inr (OFailed sendId))
      | Inr (db, ClaimReconciling sendId) \<Rightarrow> (w\<lparr>w_db := db\<rparr>, Inr (OReconciling sendId))
      | Inr (db, Proceed claim) \<Rightarrow>
          (let sendId = cl_sendId claim; prereqs = cl_prereqs claim in
           in_lane_slot rt a workspaceId (laneForSendJobKind (BroadcastJob job))
             (releaseDispatchClaim workspaceId sendId)
             (call_and_record a workspaceId sendId (p_rps prereqs) (p_apiKey prereqs)
                (buildMailSendRequest
                   \<lparr>bm_to = cl_to claim, bm_templateId = p_templateId prereqs,
                    bm_fromEmail = p_fromEmail prereqs, bm_fromName = p_fromName prereqs,
                    bm_dynamicTemplateData = cl_dynamicTemplateData claim,
                    bm_listUnsubscribeUrl = cl_unsubscribeUrl claim, bm_sendId = sendId,
                    bm_workspaceId = workspaceId, bm_campaignId = Some campaignId,
                    bm_isTest = False\<rparr>)
                (recordSendResult workspaceId (at_record a) sendId)
                (record_campaign_failed workspaceId campaignId (at_record a) sendId)
                (record_campaign_sent workspaceId campaignId (at_record a) sendId))
             (w\<lparr>w_db := db\<rparr>))))"

definition processFlowSendJob ::
  "runtime \<Rightarrow> attempt \<Rightarrow> FlowSendJob \<Rightarrow> world \<Rightarrow> world \<times> (send_error + SendJobResult)" where
  "processFlowSendJob rt a job w =
     (let workspaceId = fj_workspaceId job in
      case claimFlowSend rt (at_claim a) workspaceId (fj_flowRunId job) (fj_nodeId job)
             (fj_contactId job) (w_db w) of
        Inl e \<Rightarrow> (w, Inl e)
      | Inr (db, ClaimExcluded reason) \<Rightarrow> (w\<lparr>w_db := db\<rparr>, Inr (OExcluded reason))
      | Inr (db, ClaimSkipped) \<Rightarrow> (w\<lparr>w_db := db\<rparr>, Inr OSkipped)
      | Inr (db, ClaimFailed sendId) \<Rightarrow> (w\<lparr>w_db := db\<rparr>, Inr (OFailed sendId))
      | Inr (db, ClaimReconciling sendId) \<Rightarrow> (w\<lparr>w_db := db\<rparr>, Inr (OReconciling sendId))
      | Inr (db, Proceed claim) \<Rightarrow>
          (let sendId = cl_sendId claim; prereqs = cl_prereqs claim;
               record_step = recordFlowStepResult workspaceId (at_record a) sendId in
           in_lane_slot rt a workspaceId (laneForSendJobKind (FlowJob job))
             (releaseDispatchClaim workspaceId sendId)
             (call_and_record a workspaceId sendId (p_rps prereqs) (p_apiKey prereqs)
                (buildMailSendRequest
                   \<lparr>bm_to = cl_to claim, bm_templateId = p_templateId prereqs,
                    bm_fromEmail = p_fromEmail prereqs, bm_fromName = None,
                    bm_dynamicTemplateData = cl_dynamicTemplateData claim,
                    bm_listUnsubscribeUrl = cl_unsubscribeUrl claim, bm_sendId = sendId,
                    bm_workspaceId = workspaceId, bm_campaignId = None, bm_isTest = False\<rparr>)
                record_step record_step record_step)
             (w\<lparr>w_db := db\<rparr>)))"

text \<open>A test send owns no ledger row: nothing is claimed, released or recorded.\<close>

definition call_test ::
  "attempt \<Rightarrow> uuid \<Rightarrow> uuid \<Rightarrow> int \<Rightarrow> string \<Rightarrow> SendGridMailSendRequest \<Rightarrow> crm
     \<Rightarrow> crm \<times> (send_error + SendJobResult)" where
  "call_test a workspaceId sendId rps apiKey payload db =
     (case consumeTenantToken (at_limiter a) workspaceId rps of
        Inl e \<Rightarrow> (db, Inl e)
      | Inr rateResult \<Rightarrow>
          (db,
           if \<not> rate_allowed rateResult
           then Inr (ORateLimited (Fin (of_int (rate_msBeforeNext rateResult))) TenantBucket)
           else (case at_sendMail a apiKey payload of
                   MailRejected err \<Rightarrow>
                     (case classifyTransportError err of
                        PreConnectionRetryable \<Rightarrow> Inl (TransportError err)
                      | Ambiguous \<Rightarrow> Inr (OUnknown sendId))
                 | MailResponse response \<Rightarrow>
                     (if resp_status response = 429 \<or> resp_status response \<ge> 500
                      then Inr (ORateLimited (parseRetryAfter (resp_headers response) (at_record a))
                                  ProviderBackoff)
                      else if resp_status response \<ge> 400 then Inr (OFailed sendId)
                      else Inr (OSent sendId (resp_messageId response))))))"

definition processTestSend ::
  "runtime \<Rightarrow> attempt \<Rightarrow> EmailBroadcastJob \<Rightarrow> world \<Rightarrow> world \<times> (send_error + SendJobResult)" where
  "processTestSend rt a job w =
     (let workspaceId = j_workspaceId job; campaignId = j_campaignId job;
          sendId = at_randomSendId a in
      if \<not> truthy (j_testTo job) then (w, Inl TestToRequired)
      else if isWorkspaceSoftDeleted (w_db w) workspaceId then (w, Inr OSkipped)
      else (case unsubscribe_url rt (at_claim a) workspaceId sendId
                   (nullish (j_contactId job) (at_randomContactId a)) of
        Inl e \<Rightarrow> (w, Inl e)
      | Inr url \<Rightarrow>
          (let sample = \<lparr>tc_firstName = None, tc_lastName = None, tc_email = j_testTo job,
                         tc_phone = None, tc_city = None, tc_country = None, tc_tags = [],
                         tc_properties = []\<rparr>;
               data = nullish (j_testData job) (buildContactTemplateData sample (Some url))
           in (case readSendPrereqs rt (w_db w) workspaceId campaignId
                      \<lparr>ov_templateId = j_templateId job, ov_fromEmail = j_fromEmail job,
                       ov_fromName = j_fromName job\<rparr> of
                 Inl e \<Rightarrow> (w, Inl e)
               | Inr prereqs \<Rightarrow>
                   in_lane_slot rt a workspaceId (laneForSendJobKind (BroadcastJob job)) (\<lambda>db. db)
                     (call_test a workspaceId sendId (p_rps prereqs) (p_apiKey prereqs)
                        (buildMailSendRequest
                           \<lparr>bm_to = nullish (j_testTo job) [], bm_templateId = p_templateId prereqs,
                            bm_fromEmail = p_fromEmail prereqs, bm_fromName = p_fromName prereqs,
                            bm_dynamicTemplateData = data, bm_listUnsubscribeUrl = url,
                            bm_sendId = sendId, bm_workspaceId = workspaceId,
                            bm_campaignId = Some campaignId, bm_isTest = True\<rparr>))
                     w))))"

definition processSendJob ::
  "runtime \<Rightarrow> attempt \<Rightarrow> SendJob \<Rightarrow> world \<Rightarrow> world \<times> (send_error + SendJobResult)" where
  "processSendJob rt a job w =
     (case job of
        FlowJob fj \<Rightarrow> processFlowSendJob rt a fj w
      | BroadcastJob bj \<Rightarrow>
          (case j_kind bj of
             KCampaign \<Rightarrow> processCampaignSend rt a bj w
           | KTest \<Rightarrow> processTestSend rt a bj w))"

section \<open>The queue workers\<close>

definition TENANT_DEFERRAL_MIN_DELAY_MS :: int where "TENANT_DEFERRAL_MIN_DELAY_MS = 250"

datatype job_error = MissingJobToken | ProviderBackoffError jsnum | ProcessorError send_error

datatype job_disposition = JobCompleted | JobDelayedUntil jsnum | JobThrew job_error

fun jsnum_max :: "jsnum \<Rightarrow> int \<Rightarrow> jsnum" where
  "jsnum_max NaN k = NaN"
| "jsnum_max Infinity k = Infinity"
| "jsnum_max NegInfinity k = Fin (of_int k)"
| "jsnum_max (Fin q) k = Fin (max q (of_int k))"

definition deferForTenantBucket :: "instant \<Rightarrow> jsnum \<Rightarrow> string option \<Rightarrow> job_disposition" where
  "deferForTenantBucket now rateLimitMs token =
     (if \<not> truthy token then JobThrew MissingJobToken
      else JobDelayedUntil
             (jsnum_minus (jsnum_max rateLimitMs TENANT_DEFERRAL_MIN_DELAY_MS) (- now)))"

definition job_outcome ::
  "instant \<Rightarrow> string option \<Rightarrow> send_error + SendJobResult \<Rightarrow> job_disposition" where
  "job_outcome now token res =
     (case res of
        Inl e \<Rightarrow> JobThrew (ProcessorError e)
      | Inr (ORateLimited rateLimitMs TenantBucket) \<Rightarrow> deferForTenantBucket now rateLimitMs token
      | Inr (ORateLimited rateLimitMs ProviderBackoff) \<Rightarrow> JobThrew (ProviderBackoffError rateLimitMs)
      | Inr result \<Rightarrow> JobCompleted)"

definition handleEmailBroadcastJob ::
  "runtime \<Rightarrow> attempt \<Rightarrow> instant \<Rightarrow> string option \<Rightarrow> SendJob \<Rightarrow> world \<Rightarrow> world \<times> job_disposition" where
  "handleEmailBroadcastJob rt a now token job w =
     (case processSendJob rt a job w of (w', res) \<Rightarrow> (w', job_outcome now token res))"

definition handleEmailTriggeredJob ::
  "runtime \<Rightarrow> attempt \<Rightarrow> instant \<Rightarrow> string option \<Rightarrow> SendJob \<Rightarrow> world \<Rightarrow> world \<times> job_disposition" where
  "handleEmailTriggeredJob rt a now token job w =
     (case processSendJob rt a job w of (w', res) \<Rightarrow> (w', job_outcome now token res))"

section \<open>What a claim transaction leaves\<close>

text \<open>A transaction that proceeds has run the claim gate on the database it was given and holds its
  answer; any other answer left the ids of the ledger in place.\<close>

lemma claim_of_gate_Proceed:
  assumes "claim_of_gate rt now w ct k p rec g = Inr (db', Proceed c)"
  shows "g = (db', Claim (cl_sendId c) False)" "cl_prereqs c = p"
  using assms by (auto simp: claim_of_gate_def split: prod.splits DispatchSendGateResult.splits
      if_splits sum.splits)

lemma claimCampaignSend_Proceed:
  assumes "claimCampaignSend rt now w c k db = Inr (db', Proceed cl)"
  shows "dispatchSendGate (rt_sha1 rt) now w c k db = Inr (db', Claim (cl_sendId cl) False)"
proof -
  from assms obtain p ct g where
    "dispatchSendGate (rt_sha1 rt) now w c k db = Inr g"
    "claim_of_gate rt now w ct k p (recordSendResult w now) g = Inr (db', Proceed cl)"
    by (auto simp: claimCampaignSend_def split: sum.splits option.splits if_splits
          PreSendDecision.splits)
  then show ?thesis using claim_of_gate_Proceed(1) by metis
qed

lemma claimFlowSend_Proceed:
  assumes "claimFlowSend rt now w f n k db = Inr (db', Proceed cl)"
  shows "claimFlowSendLedger (rt_sha1 rt) now w f n k db = Inr (db', Claim (cl_sendId cl) False)"
proof -
  from assms obtain p ct g where
    "claimFlowSendLedger (rt_sha1 rt) now w f n k db = Inr g"
    "claim_of_gate rt now w ct k p (recordFlowStepResult w now) g = Inr (db', Proceed cl)"
    by (auto simp: claimFlowSend_def split: sum.splits option.splits if_splits
          PreSendDecision.splits)
  then show ?thesis using claim_of_gate_Proceed(1) by metis
qed

lemma release_campaign_claim:
  assumes "claimCampaignSend rt now w c k db = Inr (db', Proceed cl)"
  shows "releaseDispatchClaim w (cl_sendId cl) db' = db"
  using release_run_gate [OF claimCampaignSend_Proceed [OF assms, unfolded dispatchSendGate_def Let_def]]
  by simp

lemma release_flow_claim:
  assumes "claimFlowSend rt now w f n k db = Inr (db', Proceed cl)"
  shows "releaseDispatchClaim w (cl_sendId cl) db' = db"
  using release_run_gate [OF claimFlowSend_Proceed [OF assms, unfolded claimFlowSendLedger_def Let_def]]
  by simp

section \<open>The region after the claim\<close>

lemma record_outcome_rate_limited:
  assumes "record_outcome a w i m wr wfl ws db = (db', Inr (ORateLimited ms cause))"
  shows "db' = releaseDispatchClaim w i db"
  using assms
  by (auto simp: record_outcome_def Let_def handleAmbiguousSendMailError_def split: MailOutcome.splits
      if_splits TransportClassification.splits)

lemma call_and_record_rate_limited:
  assumes "call_and_record a w i rps key pl wr wfl ws db = (db', Inr (ORateLimited ms cause))"
  shows "db' = releaseDispatchClaim w i db"
  using assms by (auto simp: call_and_record_def split: sum.splits if_splits
      dest: record_outcome_rate_limited)

lemma in_lane_slot_rate_limited:
  assumes "in_lane_slot rt a ws lane rel body w = (w', Inr (ORateLimited ms cause))"
    and "\<And>db'. body (w_db w) = (db', Inr (ORateLimited ms cause)) \<Longrightarrow> db' = rel (w_db w)"
  shows "w_db w' = rel (w_db w)"
  using assms by (auto simp: in_lane_slot_def split: prod.splits AcquireSlotResult.splits)

lemma processCampaignSend_rate_limited:
  assumes "processCampaignSend rt a job w = (w', Inr (ORateLimited ms cause))"
  shows "w_db w' = w_db w"
proof -
  obtain db cl where claim: "claimCampaignSend rt (at_claim a) (j_workspaceId job) (j_campaignId job)
        (nullish (j_contactId job) []) (w_db w) = Inr (db, Proceed cl)"
    using assms by (auto simp: processCampaignSend_def Let_def split: if_splits sum.splits
        prod.splits ClaimResult.splits)
  then have "w_db w' = releaseDispatchClaim (j_workspaceId job) (cl_sendId cl) db"
    using assms
    by (auto simp: processCampaignSend_def Let_def split: if_splits
          dest!: in_lane_slot_rate_limited dest: call_and_record_rate_limited)
  then show ?thesis using release_campaign_claim [OF claim] by simp
qed

lemma processFlowSendJob_rate_limited:
  assumes "processFlowSendJob rt a job w = (w', Inr (ORateLimited ms cause))"
  shows "w_db w' = w_db w"
proof -
  obtain db cl where claim: "claimFlowSend rt (at_claim a) (fj_workspaceId job) (fj_flowRunId job)
        (fj_nodeId job) (fj_contactId job) (w_db w) = Inr (db, Proceed cl)"
    using assms by (auto simp: processFlowSendJob_def Let_def split: if_splits sum.splits
        prod.splits ClaimResult.splits)
  then have "w_db w' = releaseDispatchClaim (fj_workspaceId job) (cl_sendId cl) db"
    using assms
    by (auto simp: processFlowSendJob_def Let_def split: if_splits
          dest!: in_lane_slot_rate_limited dest: call_and_record_rate_limited)
  then show ?thesis using release_flow_claim [OF claim] by simp
qed

lemma in_lane_slot_db:
  assumes "in_lane_slot rt a ws lane rel body w = (w', res)"
  shows "w_db w' = w_db w \<or> w_db w' = rel (w_db w) \<or> w_db w' = fst (body (w_db w))"
  using assms by (auto simp: in_lane_slot_def split: prod.splits AcquireSlotResult.splits)

lemma call_test_db: "fst (call_test a w i rps key pl db) = db"
  by (simp add: call_test_def split: sum.split)

lemma processTestSend_db: "processTestSend rt a job w = (w', res) \<Longrightarrow> w_db w' = w_db w"
  by (auto simp: processTestSend_def Let_def call_test_db split: if_splits sum.splits
      dest!: in_lane_slot_db)

section \<open>An attempt\<close>

text \<open>A run whose token is granted or not and whose provider answers \<open>m\<close>.\<close>

definition example_attempt :: "LimiterAnswer \<Rightarrow> MailOutcome \<Rightarrow> attempt" where
  "example_attempt limiter m =
     \<lparr>at_claim = 100000, at_slot = 100010, at_slotToken = ''t1'', at_limiter = (\<lambda>w r. limiter),
      at_dispatched = 100020, at_sendMail = (\<lambda>key payload. m), at_responded = 100050,
      at_record = 100060, at_slotRelease = 100070, at_randomSendId = ''x1'',
      at_randomContactId = ''x2''\<rparr>"

definition example_response :: "int \<Rightarrow> MailOutcome" where
  "example_response status =
     MailResponse \<lparr>resp_status = status, resp_headers = [], resp_messageId = Some ''m1''\<rparr>"

definition example_world :: world where
  "example_world = \<lparr>w_db = example_db, w_redis = Map.empty\<rparr>"

definition example_job :: SendJob where
  "example_job = BroadcastJob
     \<lparr>j_workspaceId = ''w1'', j_campaignId = ''c1'', j_kind = KCampaign, j_contactId = Some ''k1'',
      j_testTo = None, j_testData = None, j_templateId = None, j_fromEmail = None,
      j_fromName = None\<rparr>"

definition example_flow_job :: SendJob where
  "example_flow_job = FlowJob
     \<lparr>fj_workspaceId = ''w1'', fj_flowRunId = ''r1'', fj_nodeId = ''n1'', fj_contactId = ''k1''\<rparr>"

text \<open>The claim on the example deployment.\<close>

lemma unsubscribe_url_ok:
  assumes "truthy (rt_env rt ''UNSUBSCRIBE_TOKEN_SECRET'')" "truthy (rt_env rt ''PUBLIC_APP_URL'')"
  shows "\<exists>url. unsubscribe_url rt now w i k = Inr url"
  using assms by (simp add: unsubscribe_url_def signUnsubscribeToken_def getPrimarySecret_def
      buildListUnsubscribeUrl_def Let_def)

lemma example_env:
  "truthy (rt_env example_rt ''UNSUBSCRIBE_TOKEN_SECRET'')" "truthy (rt_env example_rt ''PUBLIC_APP_URL'')"
  by (simp_all add: example_rt_def)

definition example_send_id :: uuid where
  "example_send_id = deriveCampaignSendId (rt_sha1 example_rt) ''w1'' ''c1'' ''k1''"

lemma example_reads:
  "find (visible_campaign ''w1'' ''c1'') (l_campaigns example_db) = Some example_campaign"
  "find_contact example_db ''w1'' ''k1'' = Some example_contact"
  "t_organizations example_db ''w1'' = Some None"
  "l_sends example_db = []"
  "tenant_api_key example_rt example_db ''w1'' = Inr ''SG.key''"
  "tenant_rps example_db ''w1'' = 10"
  "evaluatePreSendGate example_db now ''w1'' example_contact = Sendable"
  by (simp_all add: example_db_def example_campaign_def example_contact_def visible_campaign_def
      find_contact_def empty_crm_def tenant_api_key_def example_rt_def tenant_rps_def
      getWorkspaceSendSettings_def DEFAULT_SEND_SETTINGS_def DEFAULT_TENANT_RPS_def
      evaluatePreSendGate_def sent_in_window_def)

lemma example_prereqs:
  "\<exists>p. readSendPrereqs example_rt example_db ''w1'' ''c1'' no_override = Inr p \<and> p_status p = CSending"
  unfolding readSendPrereqs_def example_reads
  by (simp add: no_override_def example_campaign_def)

lemma example_gate:
  "dispatchSendGate (rt_sha1 example_rt) now ''w1'' ''c1'' ''k1'' example_db =
     Inr (example_db\<lparr>l_sends := [new_campaign_send example_send_id ''w1'' ''c1'' ''k1'' now]\<rparr>,
          Claim example_send_id False)"
  by (simp add: dispatchSendGate_def example_send_id_def run_gate_def insert_send_def example_reads Let_def)

lemma example_claim:
  "\<exists>cl. claimCampaignSend example_rt now ''w1'' ''c1'' ''k1'' example_db =
     Inr (example_db\<lparr>l_sends := [new_campaign_send example_send_id ''w1'' ''c1'' ''k1'' now]\<rparr>, Proceed cl)
     \<and> cl_sendId cl = example_send_id"
proof -
  obtain p where p: "readSendPrereqs example_rt example_db ''w1'' ''c1'' no_override = Inr p"
    "p_status p = CSending" using example_prereqs by blast
  obtain url where "unsubscribe_url example_rt now ''w1'' example_send_id ''k1'' = Inr url"
    using unsubscribe_url_ok [OF example_env] by blast
  with p show ?thesis
    by (simp add: claimCampaignSend_def example_reads isWorkspaceSoftDeleted_def example_gate
        claim_of_gate_def)
qed

section \<open>When the provider is not consulted\<close>

lemma existing_row_not_proceed:
  assumes "ledger_wf db" "r \<in> set (l_sends db)" "campaign_key r = Some (w, c, k)"
  shows "claimCampaignSend rt now w c k db \<noteq> Inr (db', Proceed cl)"
proof
  assume "claimCampaignSend rt now w c k db = Inr (db', Proceed cl)"
  then have eff: "gate_effect (deriveCampaignSendId (rt_sha1 rt) w c k) db db' (Claim (cl_sendId cl) False)"
    and gate: "dispatchSendGate (rt_sha1 rt) now w c k db = Inr (db', Claim (cl_sendId cl) False)"
    by (auto dest: claimCampaignSend_Proceed dispatchSendGate_ids)
  let ?n = "new_campaign_send (deriveCampaignSendId (rt_sha1 rt) w c k) w c k now"
  have "insert_send campaign_key ?n (l_sends db) = Inr None"
    using assms(2,3) by (simp only: insert_send_conflict) auto
  then have "db' = db" using gate
    by (auto simp: dispatchSendGate_def run_gate_def Let_def split: sum.splits)
  with eff show False by (auto simp: gate_effect_def)
qed

lemma processCampaignSend_no_call:
  assumes "\<And>db' cl. claimCampaignSend rt (at_claim a) (j_workspaceId job) (j_campaignId job)
              (nullish (j_contactId job) []) (w_db w) \<noteq> Inr (db', Proceed cl)"
  shows "processCampaignSend rt (a\<lparr>at_sendMail := m\<rparr>) job w = processCampaignSend rt a job w"
  using assms by (auto simp: processCampaignSend_def Let_def split: sum.split ClaimResult.split)

lemma soft_deleted_not_proceed:
  "isWorkspaceSoftDeleted db w \<Longrightarrow> claimCampaignSend rt now w c k db \<noteq> Inr (db', Proceed cl)"
  "isWorkspaceSoftDeleted db w \<Longrightarrow> claimFlowSend rt now w f n k db \<noteq> Inr (db', Proceed cl')"
  by (auto simp: claimCampaignSend_def claimFlowSend_def split: sum.splits if_splits)

lemma not_sendable_not_proceed:
  assumes "find_contact db w k = Some ct" "evaluatePreSendGate db now w ct \<noteq> Sendable"
  shows "claimCampaignSend rt now w c k db \<noteq> Inr (db', Proceed cl)"
    "claimFlowSend rt now w f n k db \<noteq> Inr (db', Proceed cl')"
  using assms
  by (auto simp: claimCampaignSend_def claimFlowSend_def split: sum.splits if_splits
      PreSendDecision.splits)

lemma processFlowSendJob_no_call:
  assumes "\<And>db' cl. claimFlowSend rt (at_claim a) (fj_workspaceId job) (fj_flowRunId job)
              (fj_nodeId job) (fj_contactId job) (w_db w) \<noteq> Inr (db', Proceed cl)"
  shows "processFlowSendJob rt (a\<lparr>at_sendMail := m\<rparr>) job w = processFlowSendJob rt a job w"
  using assms by (auto simp: processFlowSendJob_def Let_def split: sum.split ClaimResult.split)

fun job_workspace :: "SendJob \<Rightarrow> uuid" where
  "job_workspace (BroadcastJob j) = j_workspaceId j"
| "job_workspace (FlowJob j) = fj_workspaceId j"

section \<open>Transport errors\<close>

lemma call_and_record_no_transport_error:
  "snd (call_and_record (a\<lparr>at_sendMail := sendTenantMailV3 ts st fetch\<rparr>) ws i rps key pl wr wfl wst db)
     \<noteq> Inl (TransportError e)"
  by (simp add: call_and_record_def consumeTenantToken_def record_outcome_def
      handleAmbiguousSendMailError_def sendTenantMailV3_def classify_redacted Let_def
      split: sum.split LimiterAnswer.split fetch_outcome.split)

lemma in_lane_slot_no_transport_error:
  assumes "\<And>db. snd (body db) \<noteq> Inl (TransportError e)"
  shows "snd (in_lane_slot rt a ws lane rel body w) \<noteq> Inl (TransportError e)"
proof -
  obtain db res where b: "body (w_db w) = (db, res)" by (cases "body (w_db w)")
  then have "res \<noteq> Inl (TransportError e)" using assms [of "w_db w"] by simp
  with b show ?thesis by (auto simp: in_lane_slot_def split: prod.split AcquireSlotResult.split)
qed

lemma claims_no_transport_error:
  "claimCampaignSend rt now w c k db \<noteq> Inl (TransportError e)"
  "claimFlowSend rt now w f n k db \<noteq> Inl (TransportError e)"
  "readSendPrereqs rt db w c ov \<noteq> Inl (TransportError e)"
  "unsubscribe_url rt now w i k \<noteq> Inl (TransportError e)"
  by (auto simp: claimCampaignSend_def claimFlowSend_def claim_of_gate_def readSendPrereqs_def
      readFlowSendPrereqs_def tenant_api_key_def unsubscribe_url_def Let_def
      split: sum.splits option.splits if_splits prod.splits DispatchSendGateResult.splits
        PreSendDecision.splits FlowNode.splits)

section \<open>What a recorded outcome leaves\<close>

lemma record_outcome_sent:
  assumes "record_outcome a ws i m wr wfl wst db = (db', Inr (OSent i' mid))"
  shows "i' = i \<and> db' = wst (plain_result RSent mid (at_dispatched a) (at_responded a - at_dispatched a)) db"
  using assms
  by (auto simp: record_outcome_def Let_def handleAmbiguousSendMailError_def
      split: MailOutcome.splits if_splits TransportClassification.splits)

lemma call_and_record_sent:
  assumes "call_and_record a ws i rps key pl wr wfl wst db = (db', Inr (OSent i' mid))"
  shows "i' = i \<and> db' = wst (plain_result RSent mid (at_dispatched a) (at_responded a - at_dispatched a)) db"
  using assms by (auto simp: call_and_record_def split: sum.splits if_splits
      dest: record_outcome_sent)

lemma in_lane_slot_sent:
  assumes "in_lane_slot rt a ws lane rel body w = (w', Inr (OSent i mid))"
  shows "body (w_db w) = (w_db w', Inr (OSent i mid))"
  using assms by (auto simp: in_lane_slot_def split: prod.splits AcquireSlotResult.splits)

lemma gate_fresh_row:
  assumes "run_gate who k n l = Inr (l', Claim i False)"
  shows "l_sends l' = l_sends l @ [n]" "i = s_id n"
  using assms
  by (auto simp: run_gate_def dest: gate_existing_not_fresh insert_send_SomeD(1)
      split: sum.splits option.splits)

lemma sends_counters [simp]:
  "l_sends (incrementCampaignSendCounter t now c st l) = l_sends l"
  "l_sends (fst (tryCompleteCampaign t now c l)) = l_sends l"
  by (simp_all add: incrementCampaignSendCounter_def tryCompleteCampaign_def Let_def)

lemma recorded_row:
  assumes "r \<in> set (l_sends db)" "visible_id ws i r"
  shows "write_result now res r \<in> set (l_sends (recordSendResult ws now i res db))"
  using assms by (auto simp: recordSendResult_def set_update_where)

section \<open>An interrupted attempt\<close>

lemma release_other_status:
  "r \<in> set (l_sends db) \<Longrightarrow> s_status r \<noteq> Dispatching \<Longrightarrow> r \<in> set (l_sends (releaseDispatchClaim w i db))"
  by (simp add: releaseDispatchClaim_def)

lemma in_lane_slot_limiter_failed:
  assumes "in_lane_slot rt a ws lane rel body w = (w', Inl RateLimiterFailed)"
  shows "body (w_db w) = (w_db w', Inl RateLimiterFailed)"
  using assms by (auto simp: in_lane_slot_def split: prod.splits AcquireSlotResult.splits)

lemma call_and_record_limiter_failed:
  assumes "call_and_record a ws i rps key pl wr wfl wst db = (db', Inl RateLimiterFailed)"
  shows "db' = db"
  using assms
  by (auto simp: call_and_record_def record_outcome_def Let_def handleAmbiguousSendMailError_def
      split: sum.splits if_splits MailOutcome.splits TransportClassification.splits)

lemma claims_no_limiter_error:
  "claimCampaignSend rt now w c k db \<noteq> Inl RateLimiterFailed"
  by (auto simp: claimCampaignSend_def claim_of_gate_def readSendPrereqs_def
      tenant_api_key_def unsubscribe_url_def Let_def
      split: sum.splits option.splits if_splits prod.splits DispatchSendGateResult.splits
        PreSendDecision.splits)

lemma limiter_failure_leaves_claim:
  assumes "processCampaignSend rt a j w = (w', Inl RateLimiterFailed)" "ledger_wf (w_db w)"
  shows "ledger_wf (w_db w')"
    "\<exists>r \<in> set (l_sends (w_db w')). campaign_key r =
       Some (j_workspaceId j, j_campaignId j, nullish (j_contactId j) []) \<and> s_status r = Dispatching"
proof -
  obtain db cl where claim: "claimCampaignSend rt (at_claim a) (j_workspaceId j) (j_campaignId j)
      (nullish (j_contactId j) []) (w_db w) = Inr (db, Proceed cl)"
    using assms(1)
    by (auto simp: processCampaignSend_def Let_def claims_no_limiter_error
        split: if_splits sum.splits prod.splits ClaimResult.splits)
  note gate = claimCampaignSend_Proceed [OF claim]
  have db: "w_db w' = db"
    using assms(1) claim
    by (auto simp: processCampaignSend_def Let_def split: if_splits
        dest!: in_lane_slot_limiter_failed call_and_record_limiter_failed)
  show "ledger_wf (w_db w')" unfolding db by (rule wf_dispatchSendGate [OF assms(2) gate])
  have "l_sends db = l_sends (w_db w) @
      [new_campaign_send (deriveCampaignSendId (rt_sha1 rt) (j_workspaceId j) (j_campaignId j)
          (nullish (j_contactId j) [])) (j_workspaceId j) (j_campaignId j)
          (nullish (j_contactId j) []) (at_claim a)]"
    using gate_fresh_row(1) gate unfolding dispatchSendGate_def Let_def by blast
  then show "\<exists>r \<in> set (l_sends (w_db w')). campaign_key r =
       Some (j_workspaceId j, j_campaignId j, nullish (j_contactId j) []) \<and> s_status r = Dispatching"
    unfolding db by simp
qed

section \<open>Properties\<close>

text \<open>An attempt that ends rate-limited, by the tenant's slots, its token bucket or the provider,
  leaves the database exactly as it found it, whatever the kind of job.\<close>

theorem rate_limited_restores_database:
  assumes "processSendJob rt a job w = (w', Inr (ORateLimited ms cause))"
  shows "w_db w' = w_db w"
  using assms
  by (auto simp: processSendJob_def split: SendJob.splits BroadcastKind.splits
      dest: processCampaignSend_rate_limited processFlowSendJob_rate_limited processTestSend_db)

lemma example_slot:
  "acquireTenantLaneSlot now token ws lane (resolveTenantLaneCap (rt_env example_rt) lane) ttl Map.empty
     = (zwrite (buildKey ws lane) [(token, now)] (Some (now + ttl)) Map.empty, SlotAcquired token)"
  by (cases lane) (simp_all add: acquireTenantLaneSlot_def ACQUIRE_SCRIPT_def zread_def
      zremrangebyscore_def zadd_def resolveTenantLaneCap_def example_rt_def)

theorem rate_limited_restores_database_witness:
  "\<exists>w'. processSendJob example_rt (example_attempt (LimiterRejected 40) (example_response 202)) example_job example_world
         = (w', Inr (ORateLimited (Fin 40) TenantBucket)) \<and> w_db w' = example_db"
proof -
  let ?a = "example_attempt (LimiterRejected 40) (example_response 202)"
  obtain cl where cl: "claimCampaignSend example_rt 100000 ''w1'' ''c1'' ''k1'' example_db =
     Inr (example_db\<lparr>l_sends := [new_campaign_send example_send_id ''w1'' ''c1'' ''k1'' 100000]\<rparr>, Proceed cl)"
    using example_claim by blast
  have "snd (processSendJob example_rt ?a example_job example_world)
          = Inr (ORateLimited (Fin 40) TenantBucket)"
    by (simp add: processSendJob_def example_job_def processCampaignSend_def example_world_def
        example_attempt_def cl in_lane_slot_def example_slot call_and_record_def consumeTenantToken_def Let_def)
  then obtain w' where "processSendJob example_rt ?a example_job example_world
      = (w', Inr (ORateLimited (Fin 40) TenantBucket))" by (metis prod.collapse)
  with rate_limited_restores_database [OF this] show ?thesis by (simp add: example_world_def)
qed

text \<open>C4: once the workspace is soft-deleted, no job of any kind consults the provider: the whole
  run, its outcome and what it leaves, is the same whatever the provider would answer.\<close>

theorem soft_deleted_never_calls:
  assumes "isWorkspaceSoftDeleted (w_db w) (job_workspace job)"
  shows "processSendJob rt (a\<lparr>at_sendMail := m\<rparr>) job w = processSendJob rt a job w"
proof (cases job)
  case (FlowJob fj)
  with assms show ?thesis
    by (simp add: processSendJob_def processFlowSendJob_no_call soft_deleted_not_proceed)
next
  case (BroadcastJob bj)
  with assms show ?thesis
    by (cases "j_kind bj") (simp_all add: processSendJob_def processCampaignSend_no_call
        soft_deleted_not_proceed processTestSend_def Let_def)
qed

theorem soft_deleted_never_calls_witness:
  "processSendJob example_rt ((example_attempt LimiterConsumed (example_response 202))
       \<lparr>at_sendMail := \<lambda>key payload. example_response 500\<rparr>) example_job
     \<lparr>w_db = example_db\<lparr>t_organizations := Map.empty\<rparr>, w_redis = Map.empty\<rparr>
   = processSendJob example_rt (example_attempt LimiterConsumed (example_response 202)) example_job
     \<lparr>w_db = example_db\<lparr>t_organizations := Map.empty\<rparr>, w_redis = Map.empty\<rparr>"
  using soft_deleted_never_calls
      [where w = "\<lparr>w_db = example_db\<lparr>t_organizations := Map.empty\<rparr>, w_redis = Map.empty\<rparr>"]
  by (simp add: isWorkspaceSoftDeleted_def)

text \<open>A campaign job for a recipient who already has a ledger row, in whatever status, never
  consults the provider.\<close>

theorem existing_row_never_calls:
  assumes "ledger_wf (w_db w)" "r \<in> set (l_sends (w_db w))"
    and "j_kind j = KCampaign" "j_contactId j = Some k"
    and "campaign_key r = Some (j_workspaceId j, j_campaignId j, k)"
  shows "processSendJob rt (a\<lparr>at_sendMail := m\<rparr>) (BroadcastJob j) w
           = processSendJob rt a (BroadcastJob j) w"
  using assms existing_row_not_proceed [OF assms(1,2,5)]
  by (simp add: processSendJob_def processCampaignSend_no_call)

definition example_busy_world :: world where
  "example_busy_world = \<lparr>w_db = example_db\<lparr>l_sends := [example_send]\<rparr>, w_redis = Map.empty\<rparr>"

theorem existing_row_never_calls_witness:
  "processSendJob example_rt ((example_attempt LimiterConsumed (example_response 202))
       \<lparr>at_sendMail := \<lambda>key payload. example_response 500\<rparr>) example_job example_busy_world
   = processSendJob example_rt (example_attempt LimiterConsumed (example_response 202)) example_job
       example_busy_world"
proof -
  have "ledger_wf (w_db example_busy_world)"
    by (simp add: ledger_wf_def example_busy_world_def unique_key_def)
  then show ?thesis unfolding example_job_def
    by (rule existing_row_never_calls [where r = example_send and k = "''k1''"])
       (simp_all add: example_busy_world_def example_send_def)
qed

text \<open>With the transport the worker runs in production, which redacts every error it throws, no
  job ever rethrows a transport error: the retryable class of the classifier is never taken.\<close>

theorem production_transport_never_retryable:
  "snd (processSendJob rt (a\<lparr>at_sendMail := sendTenantMailV3 ts st fetch\<rparr>) job w)
     \<noteq> Inl (TransportError e)"
proof -
  let ?a = "a\<lparr>at_sendMail := sendTenantMailV3 ts st fetch\<rparr>"
  have test: "snd (call_test ?a ws i rps key pl db) \<noteq> Inl (TransportError e)" for ws i rps key pl db
    by (simp add: call_test_def consumeTenantToken_def sendTenantMailV3_def classify_redacted
        split: sum.split LimiterAnswer.split fetch_outcome.split)
  note body = call_and_record_no_transport_error [where a = a and ts = ts and st = st and fetch = fetch]
  have "snd (processFlowSendJob rt ?a fj w) \<noteq> Inl (TransportError e)" for fj
    by (auto simp: processFlowSendJob_def Let_def in_lane_slot_no_transport_error [OF body]
        claims_no_transport_error split: sum.split prod.split ClaimResult.split)
  moreover have "snd (processCampaignSend rt ?a bj w) \<noteq> Inl (TransportError e)" for bj
    by (auto simp: processCampaignSend_def Let_def in_lane_slot_no_transport_error [OF body]
        claims_no_transport_error split: sum.split prod.split ClaimResult.split)
  moreover have "snd (processTestSend rt ?a bj w) \<noteq> Inl (TransportError e)" for bj
    by (auto simp: processTestSend_def Let_def in_lane_slot_no_transport_error [OF test]
        claims_no_transport_error split: sum.split prod.split)
  ultimately show ?thesis by (simp add: processSendJob_def split: SendJob.split BroadcastKind.split)
qed

text \<open>A campaign attempt reported sent has left the recipient's row \<open>sent\<close>, with the provider's
  message id and the time of the record.\<close>

text \<open>A campaign attempt reported sent has recorded the row, the message id and the counter.\<close>

theorem sent_is_recorded:
  assumes "processSendJob rt a (BroadcastJob j) w = (w', Inr (OSent i mid))" "j_kind j = KCampaign"
  shows "\<exists>r \<in> set (l_sends (w_db w')). s_id r = i \<and> s_status r = Sent
           \<and> s_providerMessageId r = mid \<and> s_sentAt r = Some (at_record a)
           \<and> campaign_key r = Some (j_workspaceId j, j_campaignId j, nullish (j_contactId j) [])"
proof -
  let ?w = "j_workspaceId j" and ?c = "j_campaignId j" and ?k = "nullish (j_contactId j) []"
  have run: "processCampaignSend rt a j w = (w', Inr (OSent i mid))"
    using assms by (simp add: processSendJob_def)
  then obtain db cl where claim: "claimCampaignSend rt (at_claim a) ?w ?c ?k (w_db w) = Inr (db, Proceed cl)"
    by (auto simp: processCampaignSend_def Let_def split: if_splits sum.splits prod.splits ClaimResult.splits)
  let ?i = "deriveCampaignSendId (rt_sha1 rt) ?w ?c ?k"
  let ?n = "new_campaign_send ?i ?w ?c ?k (at_claim a)"
  have n: "?n \<in> set (l_sends db)" "cl_sendId cl = s_id ?n"
    using gate_fresh_row [OF claimCampaignSend_Proceed [OF claim, unfolded dispatchSendGate_def Let_def]]
    by simp_all
  let ?res = "plain_result RSent mid (at_dispatched a) (at_responded a - at_dispatched a)"
  from run claim have
    "i = cl_sendId cl" "w_db w' = record_campaign_sent ?w ?c (at_record a) (cl_sendId cl) ?res db"
    by (auto simp: processCampaignSend_def Let_def split: if_splits
        dest!: in_lane_slot_sent call_and_record_sent)
  moreover have "write_result (at_record a) ?res ?n
      \<in> set (l_sends (recordSendResult ?w (at_record a) (cl_sendId cl) ?res db))"
    by (rule recorded_row) (use n in \<open>simp_all add: visible_id_def\<close>)
  moreover have "campaign_key (write_result (at_record a) ?res ?n) = Some (?w, ?c, ?k)"
    by (simp add: same_identity_keys [OF same_identity_writes(1)])
  ultimately show ?thesis
    by (intro bexI [of _ "write_result (at_record a) ?res ?n"])
       (simp_all add: record_campaign_sent_def write_result_def plain_result_def n(2))
qed

theorem sent_is_recorded_witness:
  "\<exists>r \<in> set (l_sends (w_db (fst (processSendJob example_rt
       (example_attempt LimiterConsumed (example_response 202)) example_job example_world)))).
     s_status r = Sent \<and> s_providerMessageId r = Some ''m1''"
proof -
  let ?a = "example_attempt LimiterConsumed (example_response 202)"
  obtain cl where cl: "claimCampaignSend example_rt 100000 ''w1'' ''c1'' ''k1'' example_db =
     Inr (example_db\<lparr>l_sends := [new_campaign_send example_send_id ''w1'' ''c1'' ''k1'' 100000]\<rparr>, Proceed cl)"
    using example_claim by blast
  have "snd (processSendJob example_rt ?a example_job example_world)
          = Inr (OSent (cl_sendId cl) (Some ''m1''))"
    by (simp add: processSendJob_def example_job_def processCampaignSend_def example_world_def
        example_attempt_def cl in_lane_slot_def example_slot call_and_record_def consumeTenantToken_def
        record_outcome_def example_response_def Let_def)
  then have "processSendJob example_rt ?a example_job example_world
      = (fst (processSendJob example_rt ?a example_job example_world), Inr (OSent (cl_sendId cl) (Some ''m1'')))"
    by (metis prod.collapse)
  from sent_is_recorded [OF this [unfolded example_job_def]] show ?thesis
    by (auto simp: example_job_def)
qed

text \<open>An attempt whose token bucket throws, before the provider was called at all, keeps its
  claim, so that no later attempt of that job ever calls the provider either: the recipient's mail
  is lost to the reconciler.\<close>

theorem limiter_failure_strands_recipient:
  assumes "processSendJob rt a (BroadcastJob j) w = (w', Inl RateLimiterFailed)"
    and "j_kind j = KCampaign" "j_contactId j = Some k" "ledger_wf (w_db w)"
  shows "processSendJob rt2 (a2\<lparr>at_sendMail := m\<rparr>) (BroadcastJob j) w'
           = processSendJob rt2 a2 (BroadcastJob j) w'"
proof -
  have run: "processCampaignSend rt a j w = (w', Inl RateLimiterFailed)"
    using assms by (simp add: processSendJob_def)
  note left = limiter_failure_leaves_claim [OF run assms(4)]
  then obtain r where "r \<in> set (l_sends (w_db w'))"
    "campaign_key r = Some (j_workspaceId j, j_campaignId j, nullish (j_contactId j) [])" by blast
  then show ?thesis
    using existing_row_not_proceed [OF left(1)] assms(2,3)
    by (simp add: processSendJob_def processCampaignSend_no_call)
qed

theorem limiter_failure_strands_recipient_witness:
  "\<exists>w'. processSendJob example_rt (example_attempt LimiterThrew (example_response 202)) example_job example_world
        = (w', Inl RateLimiterFailed)
     \<and> (\<forall>m. processSendJob example_rt ((example_attempt LimiterConsumed (example_response 202))
               \<lparr>at_sendMail := m\<rparr>) example_job w'
            = processSendJob example_rt (example_attempt LimiterConsumed (example_response 202)) example_job w')"
proof -
  let ?a = "example_attempt LimiterThrew (example_response 202)"
  obtain cl where cl: "claimCampaignSend example_rt 100000 ''w1'' ''c1'' ''k1'' example_db =
     Inr (example_db\<lparr>l_sends := [new_campaign_send example_send_id ''w1'' ''c1'' ''k1'' 100000]\<rparr>, Proceed cl)"
    using example_claim by blast
  have "snd (processSendJob example_rt ?a example_job example_world) = Inl RateLimiterFailed"
    by (simp add: processSendJob_def example_job_def processCampaignSend_def example_world_def
        example_attempt_def cl in_lane_slot_def example_slot call_and_record_def consumeTenantToken_def Let_def)
  then obtain w' where run: "processSendJob example_rt ?a example_job example_world
      = (w', Inl RateLimiterFailed)" by (metis prod.collapse)
  have "ledger_wf (w_db example_world)"
    by (simp add: ledger_wf_def example_world_def example_db_def empty_crm_def unique_key_def)
  with limiter_failure_strands_recipient [OF run [unfolded example_job_def]] run show ?thesis
    unfolding example_job_def by auto
qed

end
