(* ===== verification/Send_Protocol.thy ===== *)
theory Send_Protocol
  imports Send_Dispatch
begin

text \<open>
  Many attempts at once. The three units of a dispatch are separate steps here, taken by any number
  of attempts in any order: the claim transaction, the provider call, and the record transaction
  (or the release of a deferred claim). An attempt may crash between any two of them, and a
  redelivered job is another attempt with the same intent, which may run while the first is still
  alive. The reconciler's guarded writes, the webhook worker's fact updates and any change of the
  other tables happen between them. The log of provider calls is a ghost of the system.
\<close>

section \<open>Intents and units\<close>

datatype intent =
    CampaignIntent uuid uuid uuid
  | FlowIntent uuid uuid string uuid

fun intent_workspace :: "intent \<Rightarrow> uuid" where
  "intent_workspace (CampaignIntent w c k) = w"
| "intent_workspace (FlowIntent w f n k) = w"

fun intent_send_id :: "(byte list \<Rightarrow> byte list) \<Rightarrow> intent \<Rightarrow> uuid" where
  "intent_send_id sha1 (CampaignIntent w c k) = deriveCampaignSendId sha1 w c k"
| "intent_send_id sha1 (FlowIntent w f n k) = deriveFlowSendId sha1 w f n"

definition claim_id :: "send_error + (crm \<times> 'p ClaimResult) \<Rightarrow> send_error + (crm \<times> uuid option)" where
  "claim_id r =
     (case r of
        Inl e \<Rightarrow> Inl e
      | Inr (db, Proceed cl) \<Rightarrow> Inr (db, Some (cl_sendId cl))
      | Inr (db, _) \<Rightarrow> Inr (db, None))"

fun claim_unit :: "runtime \<Rightarrow> instant \<Rightarrow> intent \<Rightarrow> crm \<Rightarrow> send_error + (crm \<times> uuid option)" where
  "claim_unit rt now (CampaignIntent w c k) db = claim_id (claimCampaignSend rt now w c k db)"
| "claim_unit rt now (FlowIntent w f n k) db = claim_id (claimFlowSend rt now w f n k db)"

fun record_unit :: "attempt \<Rightarrow> intent \<Rightarrow> uuid \<Rightarrow> MailOutcome \<Rightarrow> crm \<Rightarrow> crm" where
  "record_unit a (CampaignIntent w c k) i m db =
     fst (record_outcome a w i m (recordSendResult w (at_record a) i)
            (record_campaign_failed w c (at_record a) i) (record_campaign_sent w c (at_record a) i) db)"
| "record_unit a (FlowIntent w f n k) i m db =
     fst (record_outcome a w i m (recordFlowStepResult w (at_record a) i)
            (recordFlowStepResult w (at_record a) i) (recordFlowStepResult w (at_record a) i) db)"

text \<open>An answer that settles the send: anything but a 429, a 5xx or a failure before the connection.
  It covers the acceptances, the outright rejections and the calls whose fate is unknown.\<close>

fun conclusive :: "MailOutcome \<Rightarrow> bool" where
  "conclusive (MailResponse r) = (\<not> (resp_status r = 429 \<or> resp_status r \<ge> 500))"
| "conclusive (MailRejected e) = (classifyTransportError e = Ambiguous)"

section \<open>The contract of a claim path\<close>

text \<open>What the protocol needs of a claim transaction: it takes only an id the ledger does not hold,
  the one derived from the intent, and it never removes a row.\<close>

locale claim_path =
  fixes claim :: "instant \<Rightarrow> 'x \<Rightarrow> crm \<Rightarrow> send_error + (crm \<times> uuid option)"
    and id_of :: "'x \<Rightarrow> uuid"
  assumes claim_Some: "claim now x db = Inr (db', Some i) \<Longrightarrow>
      i = id_of x \<and> i \<notin> send_ids db \<and> send_ids db' = insert i (send_ids db)"
    and claim_None: "claim now x db = Inr (db', None) \<Longrightarrow> send_ids db \<subseteq> send_ids db'"
begin

lemma claim_grows: "claim now x db = Inr (db', r) \<Longrightarrow> send_ids db \<subseteq> send_ids db'"
  by (cases r) (auto dest: claim_Some claim_None)

text \<open>While the row of a claim is there, the same intent is not claimed again.\<close>

lemma no_second_claim:
  "claim now x db = Inr (db', Some i) \<Longrightarrow> send_ids db' \<subseteq> send_ids db'' \<Longrightarrow>
     claim now' x db'' \<noteq> Inr (db3, Some i')"
  by (auto dest: claim_Some)

end

lemma claim_id_Some: "claim_id r = Inr (db, Some i) \<longleftrightarrow> (\<exists>cl. r = Inr (db, Proceed cl) \<and> i = cl_sendId cl)"
  by (auto simp: claim_id_def split: sum.splits ClaimResult.splits)

lemma claim_id_None:
  "claim_id r = Inr (db, None) \<longleftrightarrow> (\<exists>x. r = Inr (db, x) \<and> (\<forall>cl. x \<noteq> Proceed cl))"
  by (auto simp: claim_id_def split: sum.splits ClaimResult.splits)

lemma gate_effect_grows: "gate_effect i l l' g \<Longrightarrow> send_ids l \<subseteq> send_ids l'"
  by (auto simp: gate_effect_def)

lemma claim_of_gate_ids:
  assumes "claim_of_gate rt now w ct k p rec (db, g) = Inr (db', x)"
    and "\<And>i res db. send_ids (rec i res db) = send_ids db"
  shows "send_ids db' = send_ids db"
  using assms by (auto simp: claim_of_gate_def split: DispatchSendGateResult.splits if_splits sum.splits)

lemma claimCampaignSend_grows:
  assumes "claimCampaignSend rt now w c k db = Inr (db', x)"
  shows "send_ids db \<subseteq> send_ids db'"
  using assms
  by (auto simp: claimCampaignSend_def split: sum.splits option.splits if_splits PreSendDecision.splits
      dest: exclude_ids [THEN subsetD]
      dest!: dispatchSendGate_ids gate_effect_grows claim_of_gate_ids simp: send_ids_simps)

lemma claimFlowSend_grows:
  assumes "claimFlowSend rt now w f n k db = Inr (db', x)"
  shows "send_ids db \<subseteq> send_ids db'"
  using assms
  by (auto simp: claimFlowSend_def split: sum.splits option.splits if_splits PreSendDecision.splits
      dest: exclude_ids [THEN subsetD]
      dest!: claimFlowSendLedger_ids gate_effect_grows claim_of_gate_ids
      simp: send_ids_simps recordFlowStepResult_eq)

fun campaign_claim ::
  "runtime \<Rightarrow> instant \<Rightarrow> uuid \<times> uuid \<times> uuid \<Rightarrow> crm \<Rightarrow> send_error + (crm \<times> uuid option)" where
  "campaign_claim rt now (w, c, k) db = claim_id (claimCampaignSend rt now w c k db)"

fun flow_claim ::
  "runtime \<Rightarrow> instant \<Rightarrow> uuid \<times> uuid \<times> string \<times> uuid \<Rightarrow> crm \<Rightarrow> send_error + (crm \<times> uuid option)" where
  "flow_claim rt now (w, f, n, k) db = claim_id (claimFlowSend rt now w f n k db)"

interpretation campaign_path:
  claim_path "campaign_claim rt" "\<lambda>(w, c, k). deriveCampaignSendId (rt_sha1 rt) w c k" for rt
proof (unfold_locales, goal_cases)
  case (1 now x db db' i)
  obtain w c k where x: "x = (w, c, k)" by (cases x)
  with 1 obtain cl where "claimCampaignSend rt now w c k db = Inr (db', Proceed cl)" "i = cl_sendId cl"
    by (auto simp: claim_id_Some)
  with dispatchSendGate_ids [OF claimCampaignSend_Proceed] x show ?case
    by (fastforce simp: gate_effect_def)
next
  case (2 now x db db')
  then show ?case by (cases x) (auto simp: claim_id_None dest: claimCampaignSend_grows)
qed

interpretation flow_path:
  claim_path "flow_claim rt" "\<lambda>(w, f, n, k). deriveFlowSendId (rt_sha1 rt) w f n" for rt
proof (unfold_locales, goal_cases)
  case (1 now x db db' i)
  obtain w f n k where x: "x = (w, f, n, k)" by (cases x)
  with 1 obtain cl where "claimFlowSend rt now w f n k db = Inr (db', Proceed cl)" "i = cl_sendId cl"
    by (auto simp: claim_id_Some)
  with claimFlowSendLedger_ids [OF claimFlowSend_Proceed] x show ?case
    by (fastforce simp: gate_effect_def)
next
  case (2 now x db db')
  then show ?case by (cases x) (auto simp: claim_id_None dest: claimFlowSend_grows)
qed

lemma claim_unit_Some:
  assumes "claim_unit rt now x db = Inr (db', Some i)"
  shows "i = intent_send_id (rt_sha1 rt) x" "i \<notin> send_ids db" "send_ids db' = insert i (send_ids db)"
proof -
  have "i = intent_send_id (rt_sha1 rt) x \<and> i \<notin> send_ids db \<and> send_ids db' = insert i (send_ids db)"
  proof (cases x)
    case (CampaignIntent w c k)
    with assms campaign_path.claim_Some [of rt now "(w, c, k)" db db' i] show ?thesis by auto
  next
    case (FlowIntent w f n k)
    with assms flow_path.claim_Some [of rt now "(w, f, n, k)" db db' i] show ?thesis by auto
  qed
  then show "i = intent_send_id (rt_sha1 rt) x" "i \<notin> send_ids db" "send_ids db' = insert i (send_ids db)"
    by blast+
qed

lemma claim_unit_grows: "claim_unit rt now x db = Inr (db', r) \<Longrightarrow> send_ids db \<subseteq> send_ids db'"
proof (cases x)
  case (CampaignIntent w c k)
  then show "claim_unit rt now x db = Inr (db', r) \<Longrightarrow> ?thesis"
    using campaign_path.claim_grows [of rt now "(w, c, k)" db db' r] by simp
next
  case (FlowIntent w f n k)
  then show "claim_unit rt now x db = Inr (db', r) \<Longrightarrow> ?thesis"
    using flow_path.claim_grows [of rt now "(w, f, n, k)" db db' r] by simp
qed

section \<open>What recording does to the ids\<close>

lemma record_writes_ids:
  "send_ids (record_campaign_failed w c now i res db) = send_ids db"
  "send_ids (record_campaign_sent w c now i res db) = send_ids db"
  "send_ids (recordFlowStepResult w now i res db) = send_ids db"
  by (simp_all add: record_campaign_failed_def record_campaign_sent_def send_ids_counters
      send_ids_simps recordFlowStepResult_eq)

lemma record_outcome_ids:
  assumes "\<And>res db. send_ids (wr res db) = send_ids db" "\<And>res db. send_ids (wfl res db) = send_ids db"
    "\<And>res db. send_ids (wst res db) = send_ids db"
  shows "conclusive m \<Longrightarrow> send_ids (fst (record_outcome a w i m wr wfl wst db)) = send_ids db"
    "send_ids db - {i} \<subseteq> send_ids (fst (record_outcome a w i m wr wfl wst db))"
  using send_ids_release [of db i w] assms
  by (auto simp: record_outcome_def Let_def handleAmbiguousSendMailError_def
      split: MailOutcome.splits TransportClassification.splits)

lemma record_unit_ids:
  "conclusive m \<Longrightarrow> send_ids (record_unit a x i m db) = send_ids db"
  "send_ids db - {i} \<subseteq> send_ids (record_unit a x i m db)"
  by (cases x; simp add: record_outcome_ids record_writes_ids send_ids_simps)+

section \<open>The steps\<close>

datatype pc = Idle | Holding intent uuid | Responded intent uuid MailOutcome

record system =
  sy_db :: crm
  sy_pc :: "nat \<Rightarrow> pc"
  sy_calls :: "(intent \<times> uuid \<times> MailOutcome) list"

inductive send_step :: "runtime \<Rightarrow> system \<Rightarrow> system \<Rightarrow> bool" for rt where
  claim: "sy_pc s j = Idle \<Longrightarrow> claim_unit rt now x (sy_db s) = Inr (db', r) \<Longrightarrow>
    send_step rt s (s\<lparr>sy_db := db',
      sy_pc := (sy_pc s)(j := (case r of None \<Rightarrow> Idle | Some i \<Rightarrow> Holding x i))\<rparr>)"
| defer_claim: "sy_pc s j = Holding x i \<Longrightarrow>
    send_step rt s (s\<lparr>sy_db := releaseDispatchClaim (intent_workspace x) i (sy_db s),
      sy_pc := (sy_pc s)(j := Idle)\<rparr>)"
| call: "sy_pc s j = Holding x i \<Longrightarrow>
    send_step rt s (s\<lparr>sy_pc := (sy_pc s)(j := Responded x i m),
      sy_calls := (x, i, m) # sy_calls s\<rparr>)"
| record_result: "sy_pc s j = Responded x i m \<Longrightarrow>
    send_step rt s (s\<lparr>sy_db := record_unit a x i m (sy_db s), sy_pc := (sy_pc s)(j := Idle)\<rparr>)"
| crash: "send_step rt s (s\<lparr>sy_pc := (sy_pc s)(j := Idle)\<rparr>)"
| resolve: "send_step rt s (s\<lparr>sy_db := fst (resolveReconcilingSend w i v (sy_db s))\<rparr>)"
| sweep: "send_step rt s (s\<lparr>sy_db := fst (sweepStaleDispatchingSend w now i (sy_db s))\<rparr>)"
| facts: "(\<And>r. same_identity r (f r) \<and> s_status (f r) = s_status r) \<Longrightarrow>
    send_step rt s (s\<lparr>sy_db := (sy_db s)\<lparr>l_sends := update_where p f (l_sends (sy_db s))\<rparr>\<rparr>)"
| other_tables: "l_sends db' = l_sends (sy_db s) \<Longrightarrow> send_step rt s (s\<lparr>sy_db := db'\<rparr>)"

definition initial_system :: "crm \<Rightarrow> system" where
  "initial_system db = \<lparr>sy_db = db, sy_pc = (\<lambda>j. Idle), sy_calls = []\<rparr>"

definition reachable_from :: "runtime \<Rightarrow> crm \<Rightarrow> system \<Rightarrow> bool" where
  "reachable_from rt db s = (send_step rt)\<^sup>*\<^sup>* (initial_system db) s"

section \<open>The invariant\<close>

fun pc_id :: "pc \<Rightarrow> uuid option" where
  "pc_id Idle = None"
| "pc_id (Holding x i) = Some i"
| "pc_id (Responded x i m) = Some i"

fun pc_conclusive :: "pc \<Rightarrow> bool" where
  "pc_conclusive (Responded x i m) = conclusive m"
| "pc_conclusive _ = False"

fun pc_derived :: "(byte list \<Rightarrow> byte list) \<Rightarrow> pc \<Rightarrow> bool" where
  "pc_derived sha1 Idle = True"
| "pc_derived sha1 (Holding x i) = (i = intent_send_id sha1 x)"
| "pc_derived sha1 (Responded x i m) = (i = intent_send_id sha1 x)"

definition settled :: "uuid \<Rightarrow> intent \<times> uuid \<times> MailOutcome \<Rightarrow> bool" where
  "settled i c = (fst (snd c) = i \<and> conclusive (snd (snd c)))"

definition sole_holder :: "system \<Rightarrow> bool" where
  "sole_holder s = (\<forall>j j' i. pc_id (sy_pc s j) = Some i \<longrightarrow> pc_id (sy_pc s j') = Some i \<longrightarrow> j = j')"

definition holder_has_row :: "system \<Rightarrow> bool" where
  "holder_has_row s = (\<forall>j i. pc_id (sy_pc s j) = Some i \<longrightarrow> i \<in> send_ids (sy_db s))"

definition settled_kept :: "system \<Rightarrow> bool" where
  "settled_kept s =
     (\<forall>i c. c \<in> set (sy_calls s) \<longrightarrow> settled i c \<longrightarrow>
        i \<in> send_ids (sy_db s) \<and> (\<forall>j. pc_id (sy_pc s j) = Some i \<longrightarrow> pc_conclusive (sy_pc s j)))"

definition settled_once :: "system \<Rightarrow> bool" where
  "settled_once s = (\<forall>i. length (filter (settled i) (sy_calls s)) \<le> 1)"

definition ids_derived :: "(byte list \<Rightarrow> byte list) \<Rightarrow> system \<Rightarrow> bool" where
  "ids_derived sha1 s =
     ((\<forall>j. pc_derived sha1 (sy_pc s j)) \<and> (\<forall>(x, i, m) \<in> set (sy_calls s). i = intent_send_id sha1 x))"

definition protocol_inv :: "runtime \<Rightarrow> system \<Rightarrow> bool" where
  "protocol_inv rt s =
     (sole_holder s \<and> holder_has_row s \<and> settled_kept s \<and> settled_once s \<and> ids_derived (rt_sha1 rt) s)"

lemmas protocol_inv_defs = protocol_inv_def sole_holder_def holder_has_row_def settled_kept_def
  settled_once_def ids_derived_def

lemma settled_keptD:
  assumes "protocol_inv rt s" "c \<in> set (sy_calls s)" "settled i c"
  shows "i \<in> send_ids (sy_db s)" "pc_id (sy_pc s j) = Some i \<Longrightarrow> pc_conclusive (sy_pc s j)"
  using assms unfolding protocol_inv_def settled_kept_def by blast+

lemma holder_rowD:
  "protocol_inv rt s \<Longrightarrow> pc_id (sy_pc s j) = Some i \<Longrightarrow> i \<in> send_ids (sy_db s)"
  unfolding protocol_inv_def holder_has_row_def by blast

lemma inv_initial: "protocol_inv rt (initial_system db)"
  by (simp add: protocol_inv_defs initial_system_def)

lemma inv_grow: "protocol_inv rt s \<Longrightarrow> send_ids (sy_db s) \<subseteq> send_ids db' \<Longrightarrow> protocol_inv rt (s\<lparr>sy_db := db'\<rparr>)"
  unfolding protocol_inv_defs by (simp, blast)

text \<open>A holder that lets go may take its row with it, unless its call settled the send.\<close>

lemma inv_let_go:
  assumes inv: "protocol_inv rt s" and j: "pc_id (sy_pc s j) = Some i"
    and ids: "send_ids (sy_db s) - {i} \<subseteq> send_ids db'" "pc_conclusive (sy_pc s j) \<Longrightarrow> i \<in> send_ids db'"
  shows "protocol_inv rt (s\<lparr>sy_db := db', sy_pc := (sy_pc s)(j := Idle)\<rparr>)"
proof -
  let ?s = "s\<lparr>sy_db := db', sy_pc := (sy_pc s)(j := Idle)\<rparr>"
  have "sole_holder ?s" using inv by (simp add: protocol_inv_def sole_holder_def)
  moreover have "holder_has_row ?s"
    unfolding holder_has_row_def
  proof (intro allI impI)
    fix j' i' assume "pc_id (sy_pc ?s j') = Some i'"
    then have *: "j' \<noteq> j" "pc_id (sy_pc s j') = Some i'" by (auto split: if_splits)
    then have "i' \<noteq> i" using inv j by (auto simp: protocol_inv_def sole_holder_def)
    moreover have "i' \<in> send_ids (sy_db s)" using inv * by (auto simp: protocol_inv_def holder_has_row_def)
    ultimately show "i' \<in> send_ids (sy_db ?s)" using ids(1) by auto
  qed
  moreover have "settled_kept ?s"
    unfolding settled_kept_def
  proof (intro allI impI)
    fix i' c assume c: "c \<in> set (sy_calls ?s)" "settled i' c"
    then have kept: "i' \<in> send_ids (sy_db s)"
      "\<forall>j. pc_id (sy_pc s j) = Some i' \<longrightarrow> pc_conclusive (sy_pc s j)"
      using settled_keptD [OF inv] by auto
    then show "i' \<in> send_ids (sy_db ?s) \<and> (\<forall>j. pc_id (sy_pc ?s j) = Some i' \<longrightarrow> pc_conclusive (sy_pc ?s j))"
      using ids j by auto
  qed
  moreover have "settled_once ?s" "ids_derived (rt_sha1 rt) ?s"
    using inv by (simp_all add: protocol_inv_def settled_once_def ids_derived_def)
  ultimately show ?thesis by (simp add: protocol_inv_def)
qed

lemma inv_idle: "protocol_inv rt s \<Longrightarrow> protocol_inv rt (s\<lparr>sy_pc := (sy_pc s)(j := Idle)\<rparr>)"
  unfolding protocol_inv_defs by (auto split: if_splits)

lemma inv_claim:
  assumes inv: "protocol_inv rt s" and "sy_pc s j = Idle"
    and i: "i = intent_send_id (rt_sha1 rt) x" "i \<notin> send_ids (sy_db s)"
      "send_ids db' = insert i (send_ids (sy_db s))"
  shows "protocol_inv rt (s\<lparr>sy_db := db', sy_pc := (sy_pc s)(j := Holding x i)\<rparr>)"
proof -
  let ?s = "s\<lparr>sy_db := db', sy_pc := (sy_pc s)(j := Holding x i)\<rparr>"
  have other: "pc_id (sy_pc s j') \<noteq> Some i" for j'
    using inv i(2) by (auto simp: protocol_inv_def holder_has_row_def)
  have uncalled: "c \<in> set (sy_calls s) \<Longrightarrow> \<not> settled i c" for c
    using settled_keptD(1) [OF inv] i(2) by blast
  have "sole_holder ?s" using inv other by (auto simp: protocol_inv_def sole_holder_def)
  moreover have "holder_has_row ?s" using inv i(3) by (auto simp: protocol_inv_def holder_has_row_def)
  moreover have "settled_kept ?s"
    unfolding settled_kept_def
  proof (intro allI impI)
    fix i' c assume "c \<in> set (sy_calls ?s)" "settled i' c"
    then have c: "c \<in> set (sy_calls s)" "settled i' c" by simp_all
    then have "i' \<noteq> i" using uncalled by blast
    then show "i' \<in> send_ids (sy_db ?s) \<and> (\<forall>j. pc_id (sy_pc ?s j) = Some i' \<longrightarrow> pc_conclusive (sy_pc ?s j))"
      using settled_keptD [OF inv c] i(3) by auto
  qed
  moreover have "settled_once ?s" "ids_derived (rt_sha1 rt) ?s"
    using inv i(1) by (simp_all add: protocol_inv_def settled_once_def ids_derived_def)
  ultimately show ?thesis by (simp add: protocol_inv_def)
qed

lemma inv_call:
  assumes inv: "protocol_inv rt s" and j: "sy_pc s j = Holding x i"
  shows "protocol_inv rt (s\<lparr>sy_pc := (sy_pc s)(j := Responded x i m), sy_calls := (x, i, m) # sy_calls s\<rparr>)"
proof -
  let ?s = "s\<lparr>sy_pc := (sy_pc s)(j := Responded x i m), sy_calls := (x, i, m) # sy_calls s\<rparr>"
  have uncalled: "c \<in> set (sy_calls s) \<Longrightarrow> \<not> settled i c" for c
    using settled_keptD(2) [OF inv, of c i j] j by auto
  have other: "pc_id (sy_pc s j') = Some i \<Longrightarrow> j' = j" for j'
    using inv j by (auto simp: protocol_inv_def sole_holder_def)
  have row: "i \<in> send_ids (sy_db s)" using holder_rowD [OF inv, of j i] j by simp
  have der: "i = intent_send_id (rt_sha1 rt) x"
    using inv j by (metis protocol_inv_def ids_derived_def pc_derived.simps(2))
  have "sole_holder ?s" using inv j other by (auto simp: protocol_inv_def sole_holder_def)
  moreover have "holder_has_row ?s" using inv row by (auto simp: protocol_inv_def holder_has_row_def)
  moreover have "settled_kept ?s"
    unfolding settled_kept_def
  proof (intro allI impI)
    fix i' c assume c: "c \<in> set (sy_calls ?s)" "settled i' c"
    show "i' \<in> send_ids (sy_db ?s) \<and> (\<forall>j. pc_id (sy_pc ?s j) = Some i' \<longrightarrow> pc_conclusive (sy_pc ?s j))"
    proof (cases "c = (x, i, m)")
      case True
      with c(2) have "i' = i" "conclusive m" by (simp_all add: settled_def)
      then show ?thesis using row other by auto
    next
      case False
      then have old: "c \<in> set (sy_calls s)" using c(1) by simp
      then have "i' \<noteq> i" using uncalled c(2) by blast
      with settled_keptD [OF inv old c(2)] show ?thesis by auto
    qed
  qed
  moreover have "settled_once ?s"
    unfolding settled_once_def
  proof
    fix i'
    show "length (filter (settled i') (sy_calls ?s)) \<le> 1"
    proof (cases "i' = i")
      case True
      then have "filter (settled i') (sy_calls s) = []" using uncalled by (simp add: filter_empty_conv)
      then show ?thesis by simp
    next
      case False
      then show ?thesis using inv by (simp add: protocol_inv_def settled_once_def settled_def)
    qed
  qed
  moreover have "ids_derived (rt_sha1 rt) ?s" using inv der by (simp add: protocol_inv_def ids_derived_def)
  ultimately show ?thesis by (simp add: protocol_inv_def)
qed

lemma inv_step: "send_step rt s s' \<Longrightarrow> protocol_inv rt s \<Longrightarrow> protocol_inv rt s'"
proof (induction rule: send_step.induct)
  case (claim s j now x db' r)
  show ?case
  proof (cases r)
    case None
    then have "send_ids (sy_db s) \<subseteq> send_ids db'" using claim_unit_grows claim(2) by blast
    with inv_grow [OF claim(3) this] inv_idle [of rt "s\<lparr>sy_db := db'\<rparr>" j] None show ?thesis by simp
  next
    case (Some i)
    with claim claim_unit_Some [of rt now x "sy_db s" db' i] show ?thesis by (simp add: inv_claim)
  qed
next
  case (defer_claim s j x i)
  have "protocol_inv rt (s\<lparr>sy_db := releaseDispatchClaim (intent_workspace x) i (sy_db s),
      sy_pc := (sy_pc s)(j := Idle)\<rparr>)"
    by (rule inv_let_go [OF defer_claim(2) _ send_ids_release]) (simp_all add: defer_claim(1))
  then show ?case .
next
  case (call s j x i m)
  then show ?case by (intro inv_call)
next
  case (record_result s j x i m a)
  have "i \<in> send_ids (sy_db s)"
    using holder_rowD [OF record_result(2), of j i] record_result(1) by simp
  with record_result show ?case
    by (intro inv_let_go) (simp_all add: record_unit_ids)
next
  case (crash s j)
  then show ?case by (rule inv_idle)
next
  case (resolve s w i v)
  then show ?case by (intro inv_grow) (simp_all add: send_ids_simps)
next
  case (sweep s w now i)
  then show ?case by (intro inv_grow) (simp_all add: send_ids_simps)
next
  case (facts f s p)
  have "send_ids ((sy_db s)\<lparr>l_sends := update_where p f (l_sends (sy_db s))\<rparr>) = send_ids (sy_db s)"
    by (rule send_ids_update) (use facts(1) in \<open>simp add: same_identity_def\<close>)
  with facts show ?case by (intro inv_grow) simp_all
next
  case (other_tables db' s)
  then show ?case by (intro inv_grow) (simp_all add: send_ids_def)
qed

lemma inv_reachable: "reachable_from rt db s \<Longrightarrow> protocol_inv rt s"
  unfolding reachable_from_def
  by (induction rule: rtranclp_induct) (auto intro: inv_initial inv_step)

section \<open>A processor run is a path of the protocol\<close>

definition ends_idle :: "runtime \<Rightarrow> system \<Rightarrow> nat \<Rightarrow> intent \<Rightarrow> crm \<Rightarrow> bool" where
  "ends_idle rt s j x db =
     (\<exists>s'. (send_step rt)\<^sup>*\<^sup>* s s' \<and> sy_db s' = db \<and> sy_pc s' = (sy_pc s)(j := Idle)
       \<and> (sy_calls s' = sy_calls s \<or> (\<exists>i m. sy_calls s' = (x, i, m) # sy_calls s)))"

lemma ends_crash: "sy_db s = db \<Longrightarrow> ends_idle rt s j x db"
  unfolding ends_idle_def
  by (intro exI conjI, rule r_into_rtranclp, rule crash) simp_all

lemma ends_defer:
  "sy_pc s j = Holding x i \<Longrightarrow> db = releaseDispatchClaim (intent_workspace x) i (sy_db s) \<Longrightarrow>
     ends_idle rt s j x db"
  unfolding ends_idle_def
  by (intro exI conjI, rule r_into_rtranclp, erule defer_claim) simp_all

lemma ends_recorded:
  assumes "sy_pc s j = Holding x i" "db = record_unit a x i m (sy_db s)"
  shows "ends_idle rt s j x db"
proof -
  let ?s1 = "s\<lparr>sy_pc := (sy_pc s)(j := Responded x i m), sy_calls := (x, i, m) # sy_calls s\<rparr>"
  have "send_step rt s ?s1" using assms(1) by (rule call)
  moreover have "send_step rt ?s1 (?s1\<lparr>sy_db := record_unit a x i m (sy_db ?s1),
      sy_pc := (sy_pc ?s1)(j := Idle)\<rparr>)" by (rule record_result) simp
  ultimately have "(send_step rt)\<^sup>*\<^sup>* s (?s1\<lparr>sy_db := record_unit a x i m (sy_db ?s1),
      sy_pc := (sy_pc ?s1)(j := Idle)\<rparr>)" by (meson converse_rtranclp_into_rtranclp r_into_rtranclp)
  then show ?thesis unfolding ends_idle_def using assms(2) by (intro exI conjI) auto
qed

lemma ends_region:
  assumes hold: "sy_pc s j = Holding x i" "w_db w = sy_db s"
    and run: "in_lane_slot rt a (intent_workspace x) lane (releaseDispatchClaim (intent_workspace x) i)
        (call_and_record a (intent_workspace x) i rps key pl wr wfl wst) w = (w', res)"
    and rec: "\<And>m db. fst (record_outcome a (intent_workspace x) i m wr wfl wst db) = record_unit a x i m db"
  shows "ends_idle rt s j x (w_db w')"
proof -
  let ?db = "sy_db s" and ?rel = "releaseDispatchClaim (intent_workspace x) i"
  have "w_db w' = ?db \<or> w_db w' = ?rel ?db
      \<or> w_db w' = fst (call_and_record a (intent_workspace x) i rps key pl wr wfl wst ?db)"
    using in_lane_slot_db [OF run] hold(2) by simp
  moreover have "fst (call_and_record a (intent_workspace x) i rps key pl wr wfl wst ?db) = ?db
      \<or> fst (call_and_record a (intent_workspace x) i rps key pl wr wfl wst ?db) = ?rel ?db
      \<or> (\<exists>m. fst (call_and_record a (intent_workspace x) i rps key pl wr wfl wst ?db) = record_unit a x i m ?db)"
    by (auto simp: call_and_record_def rec split: sum.split)
  ultimately consider "w_db w' = ?db" | "w_db w' = ?rel ?db" | m where "w_db w' = record_unit a x i m ?db"
    by metis
  then show ?thesis
  proof cases
    case 1
    then show ?thesis by (intro ends_crash) simp
  next
    case 2
    with hold(1) show ?thesis by (rule ends_defer)
  next
    case 3
    with hold(1) show ?thesis by (rule ends_recorded)
  qed
qed

lemma ends_after_claim:
  assumes "sy_pc s j = Idle" "claim_unit rt now x (sy_db s) = Inr (db, Some i)"
    and "ends_idle rt (s\<lparr>sy_db := db, sy_pc := (sy_pc s)(j := Holding x i)\<rparr>) j x db'"
  shows "ends_idle rt s j x db'"
proof -
  have "send_step rt s (s\<lparr>sy_db := db, sy_pc := (sy_pc s)(j := Holding x i)\<rparr>)"
    using claim [OF assms(1,2)] by simp
  then show ?thesis using assms(3) unfolding ends_idle_def
    by (auto intro: converse_rtranclp_into_rtranclp)
qed

lemma ends_claim_None:
  assumes "sy_pc s j = Idle" "claim_unit rt now x (sy_db s) = Inr (db, None)"
  shows "ends_idle rt s j x db"
  unfolding ends_idle_def
  by (intro exI conjI, rule r_into_rtranclp, rule claim [OF assms]) simp_all

fun job_intent :: "SendJob \<Rightarrow> intent option" where
  "job_intent (FlowJob fj) =
     Some (FlowIntent (fj_workspaceId fj) (fj_flowRunId fj) (fj_nodeId fj) (fj_contactId fj))"
| "job_intent (BroadcastJob bj) =
     (case j_kind bj of
        KCampaign \<Rightarrow> Some (CampaignIntent (j_workspaceId bj) (j_campaignId bj) (nullish (j_contactId bj) []))
      | KTest \<Rightarrow> None)"

lemma campaign_run_path:
  assumes idle: "sy_pc s j = Idle" "w_db w = sy_db s"
    and run: "processCampaignSend rt a bj w = (w', res)"
  shows "ends_idle rt s j (CampaignIntent (j_workspaceId bj) (j_campaignId bj) (nullish (j_contactId bj) []))
           (w_db w')"
proof (cases "claimCampaignSend rt (at_claim a) (j_workspaceId bj) (j_campaignId bj)
      (nullish (j_contactId bj) []) (w_db w)")
  case (Inl e)
  with run idle(2) show ?thesis
    by (auto simp: processCampaignSend_def Let_def split: if_splits intro: ends_crash)
next
  case (Inr r)
  obtain db x where r: "r = (db, x)" by (cases r)
  show ?thesis
  proof (cases "truthy (j_contactId bj)")
    case False
    with run idle(2) show ?thesis by (auto simp: processCampaignSend_def Let_def intro: ends_crash)
  next
    case True
    let ?x = "CampaignIntent (j_workspaceId bj) (j_campaignId bj) (nullish (j_contactId bj) [])"
    show ?thesis
    proof (cases "\<exists>cl. x = Proceed cl")
      case True
      then obtain cl where cl: "x = Proceed cl" by blast
      let ?s = "s\<lparr>sy_db := db, sy_pc := (sy_pc s)(j := Holding ?x (cl_sendId cl))\<rparr>"
      have "claim_unit rt (at_claim a) ?x (sy_db s) = Inr (db, Some (cl_sendId cl))"
        using Inr r cl idle(2) by (simp add: claim_id_def)
      moreover have "ends_idle rt ?s j ?x (w_db w')"
        using run Inr r cl \<open>truthy (j_contactId bj)\<close>
        by (intro ends_region [of ?s j ?x "cl_sendId cl" "w\<lparr>w_db := db\<rparr>" rt a])
           (auto simp: processCampaignSend_def Let_def)
      ultimately show ?thesis by (rule ends_after_claim [OF idle(1)])
    next
      case False
      then have "claim_unit rt (at_claim a) ?x (sy_db s) = Inr (db, None)"
        using Inr r idle(2) by (auto simp: claim_id_def split: ClaimResult.split)
      moreover have "w_db w' = db"
        using run Inr r False \<open>truthy (j_contactId bj)\<close>
        by (auto simp: processCampaignSend_def Let_def split: ClaimResult.splits)
      ultimately show ?thesis using ends_claim_None [OF idle(1)] by simp
    qed
  qed
qed

lemma flow_run_path:
  assumes idle: "sy_pc s j = Idle" "w_db w = sy_db s"
    and run: "processFlowSendJob rt a fj w = (w', res)"
  shows "ends_idle rt s j (FlowIntent (fj_workspaceId fj) (fj_flowRunId fj) (fj_nodeId fj) (fj_contactId fj))
           (w_db w')"
proof (cases "claimFlowSend rt (at_claim a) (fj_workspaceId fj) (fj_flowRunId fj) (fj_nodeId fj)
      (fj_contactId fj) (w_db w)")
  case (Inl e)
  with run idle(2) show ?thesis
    by (auto simp: processFlowSendJob_def Let_def intro: ends_crash)
next
  case (Inr r)
  obtain db x where r: "r = (db, x)" by (cases r)
  let ?x = "FlowIntent (fj_workspaceId fj) (fj_flowRunId fj) (fj_nodeId fj) (fj_contactId fj)"
  show ?thesis
  proof (cases "\<exists>cl. x = Proceed cl")
    case True
    then obtain cl where cl: "x = Proceed cl" by blast
    let ?s = "s\<lparr>sy_db := db, sy_pc := (sy_pc s)(j := Holding ?x (cl_sendId cl))\<rparr>"
    have "claim_unit rt (at_claim a) ?x (sy_db s) = Inr (db, Some (cl_sendId cl))"
      using Inr r cl idle(2) by (simp add: claim_id_def)
    moreover have "ends_idle rt ?s j ?x (w_db w')"
      using run Inr r cl
      by (intro ends_region [of ?s j ?x "cl_sendId cl" "w\<lparr>w_db := db\<rparr>" rt a])
         (auto simp: processFlowSendJob_def Let_def)
    ultimately show ?thesis by (rule ends_after_claim [OF idle(1)])
  next
    case False
    then have "claim_unit rt (at_claim a) ?x (sy_db s) = Inr (db, None)"
      using Inr r idle(2) by (auto simp: claim_id_def split: ClaimResult.split)
    moreover have "w_db w' = db"
      using run Inr r False by (auto simp: processFlowSendJob_def Let_def split: ClaimResult.splits)
    ultimately show ?thesis using ends_claim_None [OF idle(1)] by simp
  qed
qed

section \<open>Properties\<close>

text \<open>C1: whatever the attempts, crashes, redeliveries, reconciler writes and their order, a
  recipient (of a campaign, or of a flow step) is put to the provider at most once with a conclusive
  answer: no acceptance, rejection or call of unknown fate is ever followed, or preceded, by another
  one for the same intent.\<close>

theorem at_most_one_conclusive_call:
  assumes "reachable_from rt db s"
  shows "length (filter (\<lambda>(y, i, m). y = x \<and> conclusive m) (sy_calls s)) \<le> 1"
proof -
  have inv: "protocol_inv rt s" using assms by (rule inv_reachable)
  let ?i = "intent_send_id (rt_sha1 rt) x"
  have "length (filter (\<lambda>(y, i, m). y = x \<and> conclusive m) cs) \<le> length (filter (settled ?i) cs)"
    if "\<forall>(y, i, m) \<in> set cs. i = intent_send_id (rt_sha1 rt) y" for cs
    using that by (induction cs) (auto simp: settled_def)
  moreover have "\<forall>(y, i, m) \<in> set (sy_calls s). i = intent_send_id (rt_sha1 rt) y"
    using inv by (simp add: protocol_inv_def ids_derived_def)
  moreover have "length (filter (settled ?i) (sy_calls s)) \<le> 1"
    using inv by (simp add: protocol_inv_def settled_once_def)
  ultimately show ?thesis by (meson order_trans)
qed

lemma example_called:
  "\<exists>db i. reachable_from example_rt example_db
     \<lparr>sy_db = db, sy_pc = (\<lambda>j. Idle)(0 := Responded (CampaignIntent ''w1'' ''c1'' ''k1'') i (example_response 202)),
      sy_calls = [(CampaignIntent ''w1'' ''c1'' ''k1'', i, example_response 202)]\<rparr>"
proof -
  let ?x = "CampaignIntent ''w1'' ''c1'' ''k1''"
  obtain cl db where cl: "claimCampaignSend example_rt 0 ''w1'' ''c1'' ''k1'' example_db = Inr (db, Proceed cl)"
    using example_claim by blast
  let ?s = "initial_system example_db\<lparr>sy_db := db, sy_pc := (\<lambda>j. Idle)(0 := Holding ?x (cl_sendId cl))\<rparr>"
  have "send_step example_rt (initial_system example_db) ?s"
    using claim [of "initial_system example_db" 0 example_rt 0 ?x db "Some (cl_sendId cl)"] cl
    by (simp add: initial_system_def claim_id_def)
  moreover have "send_step example_rt ?s (?s\<lparr>
      sy_pc := (sy_pc ?s)(0 := Responded ?x (cl_sendId cl) (example_response 202)),
      sy_calls := (?x, cl_sendId cl, example_response 202) # sy_calls ?s\<rparr>)"
    by (rule call) simp
  ultimately have "reachable_from example_rt example_db (?s\<lparr>
      sy_pc := (sy_pc ?s)(0 := Responded ?x (cl_sendId cl) (example_response 202)),
      sy_calls := (?x, cl_sendId cl, example_response 202) # sy_calls ?s\<rparr>)"
    unfolding reachable_from_def by (meson converse_rtranclp_into_rtranclp r_into_rtranclp)
  then show ?thesis by (auto simp: initial_system_def)
qed

theorem at_most_one_conclusive_call_witness:
  "\<exists>s. reachable_from example_rt example_db s \<and> sy_calls s \<noteq> []
     \<and> length (filter (\<lambda>(y, i, m). y = CampaignIntent ''w1'' ''c1'' ''k1'' \<and> conclusive m) (sy_calls s)) \<le> 1"
proof -
  obtain db i where r: "reachable_from example_rt example_db
     \<lparr>sy_db = db, sy_pc = (\<lambda>j. Idle)(0 := Responded (CampaignIntent ''w1'' ''c1'' ''k1'') i (example_response 202)),
      sy_calls = [(CampaignIntent ''w1'' ''c1'' ''k1'', i, example_response 202)]\<rparr>"
    using example_called by blast
  from at_most_one_conclusive_call [OF r, of "CampaignIntent ''w1'' ''c1'' ''k1''"] r show ?thesis
    by (intro exI conjI) (assumption, simp_all)
qed



section \<open>Statuses along a run\<close>

lemma transitions_no_change:
  assumes "ledger_wf l" "l_sends l' = l_sends l"
  shows "transitions_within W l l'"
  using transitions_within_refl [OF assms(1), of W] assms(2) by (simp add: transitions_within_def)

lemma claim_of_gate_transitions:
  assumes wf: "ledger_wf db" and gate: "run_gate who k n db = Inr (db1, g)"
    and run: "claim_of_gate rt now w ct c p (recordSendResult w now) (db1, g) = Inr (db', x)"
  shows "transitions_within {Worker} db db'"
proof (cases g)
  case Skipped
  with run transitions_gate [OF wf gate] show ?thesis by (simp add: claim_of_gate_def)
next
  case (Claim i interrupted)
  show ?thesis
  proof (cases interrupted)
    case False
    with run Claim have "db' = db1" by (auto simp: claim_of_gate_def split: sum.splits)
    with transitions_gate [OF wf gate] show ?thesis by simp
  next
    case True
    then obtain r where r: "find (\<lambda>r. k r = k n) (l_sends db) = Some r" "i = s_id r"
        "s_status r = Dispatching" and same: "db1 = db"
      using gate Claim unfolding run_gate_def gate_existing_def
      by (auto split: sum.splits option.splits if_splits)
    then have "r \<in> set (l_sends db)" by (blast dest: find_Some_iff_mem)
    with r have "s_status q = Dispatching" if "q \<in> set (l_sends db)" "visible_id w i q" for q
      using ledger_wf_same_id [OF wf that(1)] that(2) by (auto simp: visible_id_def)
    then have "transitions_within {Worker} db (recordSendResult w now i res db)" for res
      by (rule transitions_record [OF wf])
    with run Claim True same show ?thesis by (auto simp: claim_of_gate_def)
  qed
qed

lemma claim_unit_transitions:
  assumes "ledger_wf db" "claim_unit rt now x db = Inr (db', r)"
  shows "transitions_within {Worker} db db'"
proof (cases x)
  case (CampaignIntent w c k)
  with assms(2) obtain y where "claimCampaignSend rt now w c k db = Inr (db', y)"
    by (auto simp: claim_id_def split: sum.splits ClaimResult.splits)
  then show ?thesis using assms(1)
    by (auto simp: claimCampaignSend_def recordExcluded_def dispatchSendGate_def Let_def
        transitions_within_refl
        intro: transitions_exclude claim_of_gate_transitions
        split: sum.splits option.splits if_splits PreSendDecision.splits)
next
  case (FlowIntent w f n k)
  with assms(2) obtain y where "claimFlowSend rt now w f n k db = Inr (db', y)"
    by (auto simp: claim_id_def split: sum.splits ClaimResult.splits)
  then show ?thesis using assms(1)
    by (auto simp: claimFlowSend_def recordFlowExcluded_def claimFlowSendLedger_def Let_def
        recordFlowStepResult_eq
        intro: transitions_exclude claim_of_gate_transitions
        split: sum.splits option.splits if_splits PreSendDecision.splits)
qed

lemma record_outcome_transitions:
  assumes wf: "ledger_wf db"
    and disp: "\<And>r. r \<in> set (l_sends db) \<Longrightarrow> visible_id w i r \<Longrightarrow> s_status r = Dispatching"
    and writes: "\<And>res. l_sends (wr res db) = l_sends (recordSendResult w now i res db)"
      "\<And>res. l_sends (wfl res db) = l_sends (recordSendResult w now i res db)"
      "\<And>res. l_sends (wst res db) = l_sends (recordSendResult w now i res db)"
  shows "transitions_within {Worker} db (fst (record_outcome a w i m wr wfl wst db))"
proof -
  have rec: "transitions_within {Worker} db (recordSendResult w now i res db)" for res
    by (rule transitions_record [OF wf disp])
  have "transitions_within {Worker} db (wr res db)" "transitions_within {Worker} db (wfl res db)"
    "transitions_within {Worker} db (wst res db)" for res
    using rec [of res] writes [of res] by (simp_all add: transitions_within_def)
  then show ?thesis
    by (simp add: record_outcome_def Let_def handleAmbiguousSendMailError_def transitions_release [OF wf]
        split: MailOutcome.split TransportClassification.split)
qed

lemma record_unit_transitions:
  assumes "ledger_wf db"
    and "\<And>r. r \<in> set (l_sends db) \<Longrightarrow> visible_id (intent_workspace x) i r \<Longrightarrow> s_status r = Dispatching"
  shows "transitions_within {Worker} db (record_unit a x i m db)"
  using record_outcome_transitions [OF assms]
  by (cases x) (simp_all add: record_campaign_failed_def record_campaign_sent_def recordFlowStepResult_eq)

definition no_overlap :: "system \<Rightarrow> bool" where
  "no_overlap s =
     (\<forall>j x i m. sy_pc s j = Responded x i m \<longrightarrow>
        (\<forall>r \<in> set (l_sends (sy_db s)). visible_id (intent_workspace x) i r \<longrightarrow> s_status r = Dispatching))"

text \<open>In a run without overlap, where an attempt records its answer only onto a row that is still
  \<open>dispatching\<close>, every step of the system (claims, releases, records, the reconciler's writes, the
  webhook's facts) moves every row along the edges of the transition matrix, each by a writer the
  matrix names, or leaves its status alone.\<close>

text \<open>C3: Without overlap every status change of a row is allowed by the transition matrix.\<close>

theorem steps_stay_in_matrix:
  assumes "send_step rt s s'" "ledger_wf (sy_db s)" "no_overlap s"
  shows "transitions_within {Worker, Reconciler} (sy_db s) (sy_db s')"
  using assms
proof (induction rule: send_step.induct)
  case (claim s j now x db' r)
  then show ?case
    by simp (rule transitions_within_mono, erule claim_unit_transitions, assumption, simp)
next
  case (record_result s j x i m a)
  then have "transitions_within {Worker} (sy_db s) (record_unit a x i m (sy_db s))"
    by (intro record_unit_transitions) (auto simp: no_overlap_def)
  then show ?case by simp (rule transitions_within_mono, assumption, simp)
next
  case (resolve s w i v)
  from transitions_within_mono [OF transitions_resolve [OF this(1)]] show ?case by simp
next
  case (sweep s w now i)
  from transitions_within_mono [OF transitions_sweep [OF this(1)]] show ?case by simp
next
  case (facts f s p)
  then have "transitions_within {Worker, Reconciler} (sy_db s)
      ((sy_db s)\<lparr>l_sends := update_where p f (l_sends (sy_db s))\<rparr>)"
    by (intro transitions_update) (auto simp: same_identity_def)
  then show ?case by simp
qed (simp_all add: transitions_release transitions_no_change)

theorem steps_stay_in_matrix_witness:
  "\<exists>s'. send_step example_rt (initial_system example_db) s' \<and> l_sends (sy_db s') \<noteq> []
     \<and> transitions_within {Worker, Reconciler} example_db (sy_db s')"
proof -
  let ?x = "CampaignIntent ''w1'' ''c1'' ''k1''"
  obtain cl where cl: "claimCampaignSend example_rt 0 ''w1'' ''c1'' ''k1'' example_db =
      Inr (example_db\<lparr>l_sends := [new_campaign_send example_send_id ''w1'' ''c1'' ''k1'' 0]\<rparr>, Proceed cl)"
    using example_claim by blast
  let ?db = "example_db\<lparr>l_sends := [new_campaign_send example_send_id ''w1'' ''c1'' ''k1'' 0]\<rparr>"
  let ?s = "initial_system example_db\<lparr>sy_db := ?db, sy_pc := (\<lambda>j. Idle)(0 := Holding ?x (cl_sendId cl))\<rparr>"
  have step: "send_step example_rt (initial_system example_db) ?s"
    using claim [of "initial_system example_db" 0 example_rt 0 ?x ?db "Some (cl_sendId cl)"] cl
    by (simp add: initial_system_def claim_id_def)
  have "ledger_wf (sy_db (initial_system example_db))" "no_overlap (initial_system example_db)"
    by (simp_all add: initial_system_def no_overlap_def ledger_wf_def example_db_def empty_crm_def
        unique_key_def)
  from steps_stay_in_matrix [OF step this] step show ?thesis
    by (intro exI [of _ ?s]) (simp add: initial_system_def)
qed

end
