(* ===== verification/Send_Reconciler.thy ===== *)
theory Send_Reconciler
  imports Send_Dispatch
begin

text \<open>
  The reconciler tick of \<open>apps/worker/src/queues/send-reconciler.worker.ts\<close>: discovery of the rows it
  could act on, across workspaces and oldest first, then one transaction per row that re-reads it,
  looks for webhook evidence, classifies it and takes at most one guarded exit; and the health row
  it writes last (\<open>packages/db/src/reconciler/reconciler-run.ts\<close>). It never calls the provider. The
  argument \<open>locked\<close> tells which rows another transaction holds (\<open>SKIP LOCKED\<close>), \<open>clock\<close> the time of
  each transaction of the tick.
\<close>

definition RECONCILER_TICK_MS :: int where "RECONCILER_TICK_MS = 5 * 60000"

definition RECONCILER_BATCH_LIMIT :: nat where "RECONCILER_BATCH_LIMIT = 500"

record ReconcilableCandidateRow =
  rr_id :: uuid
  rr_workspaceId :: uuid
  rr_campaignId :: "uuid option"
  rr_kind :: string
  rr_status :: SendStatus
  rr_queuedAt :: instant
  rr_reconcilingSince :: "instant option"

definition candidate_of :: "send_row \<Rightarrow> ReconcilableCandidateRow" where
  "candidate_of r =
     \<lparr>rr_id = s_id r, rr_workspaceId = s_workspaceId r, rr_campaignId = s_campaignId r,
      rr_kind = s_kind r, rr_status = s_status r, rr_queuedAt = s_queuedAt r,
      rr_reconcilingSince = s_reconcilingSince r\<rparr>"

definition discoverable :: "instant \<Rightarrow> send_row \<Rightarrow> bool" where
  "discoverable now r =
     (s_status r = Reconciling
      \<or> (s_status r = Unknown \<and> now - RECONCILE_RESCAN_HORIZON_MS \<le> s_queuedAt r)
      \<or> (s_status r = Dispatching \<and> s_queuedAt r < now - STALE_DISPATCHING_AGE_MS))"

definition oldest_reconciling :: "send_row list \<Rightarrow> instant option" where
  "oldest_reconciling t =
     (let since = List.map_filter s_reconcilingSince (filter (\<lambda>r. s_status r = Reconciling) t)
      in if since = [] then None else Some (Min (set since)))"

definition discoverReconcilableCandidates ::
  "instant \<Rightarrow> nat \<Rightarrow> crm \<Rightarrow> ReconcilableCandidateRow list \<times> instant option" where
  "discoverReconcilableCandidates now batchLimit db =
     (map candidate_of
        (take batchLimit (sort_key s_queuedAt (filter (discoverable now) (l_sends db)))),
      oldest_reconciling (l_sends db))"

datatype ResolveOneSendOutcome =
    ROResolveSent bool | ROResolveUnknown bool | ROSweep bool | ROHold

definition reconcile_input :: "instant \<Rightarrow> crm \<Rightarrow> send_row \<Rightarrow> ReconcileInput" where
  "reconcile_input now db r =
     \<lparr>ri_status = s_status r, ri_queuedAt = s_queuedAt r,
      ri_reconcilingSince = s_reconcilingSince r,
      ri_hasEvidence = (\<exists>e \<in> set (t_sendEvents db).
          se_workspaceId e = s_workspaceId r \<and> se_sendId e = Some (s_id r)),
      ri_now = now\<rparr>"

definition claimable :: "(uuid \<Rightarrow> bool) \<Rightarrow> ReconcilableCandidateRow \<Rightarrow> send_row \<Rightarrow> bool" where
  "claimable locked row r =
     (visible_id (rr_workspaceId row) (rr_id row) r
      \<and> s_status r \<in> {Reconciling, Unknown, Dispatching} \<and> \<not> locked (s_id r))"

definition resolveOneSend ::
  "instant \<Rightarrow> (uuid \<Rightarrow> bool) \<Rightarrow> ReconcilableCandidateRow \<Rightarrow> crm \<Rightarrow> crm \<times> ResolveOneSendOutcome" where
  "resolveOneSend now locked row db =
     (let tenant = rr_workspaceId row in
      case find (claimable locked row) (l_sends db) of
        None \<Rightarrow> (db, ROHold)
      | Some liveRow \<Rightarrow>
          (case classifyReconcilableSend (reconcile_input now db liveRow) of
             ResolveSent \<Rightarrow>
               (case resolveReconcilingSend tenant (s_id liveRow) VResolveSent db of
                  (db1, resolved) \<Rightarrow>
                    ((case s_campaignId liveRow of
                        None \<Rightarrow> db1
                      | Some c \<Rightarrow>
                          (if resolved
                           then fst (tryCompleteCampaign tenant now c
                                  (backfillCampaignSendCounter tenant now c CounterSent db1))
                           else db1)),
                     ROResolveSent resolved))
           | ResolveUnknown \<Rightarrow>
               (case resolveReconcilingSend tenant (s_id liveRow) VResolveUnknown db of
                  (db1, resolved) \<Rightarrow> (db1, ROResolveUnknown resolved))
           | SweepToReconciling \<Rightarrow>
               (case sweepStaleDispatchingSend tenant now (s_id liveRow) db of
                  (db1, resolved) \<Rightarrow> (db1, ROSweep resolved))
           | Hold \<Rightarrow> (db, ROHold)))"

record ReconcilerRunSnapshot =
  lastRunAt :: instant
  candidatesScanned :: nat
  rowsResolved :: nat
  rowsMarkedUnknown :: nat
  staleDispatchingSwept :: nat
  oldestReconcilingSince :: "instant option"

record ReconcilerRunRow = ReconcilerRunSnapshot +
  lastAlertSentAt :: "instant option"

text \<open>The upsert of the singleton row: the watchdog's column is not in its \<open>SET\<close> list.\<close>

definition recordReconcilerRun ::
  "ReconcilerRunSnapshot \<Rightarrow> ReconcilerRunRow option \<Rightarrow> ReconcilerRunRow" where
  "recordReconcilerRun snapshot row =
     ReconcilerRunSnapshot.extend snapshot
       (ReconcilerRunRow.fields (case row of None \<Rightarrow> None | Some r \<Rightarrow> lastAlertSentAt r))"

fun resolve_all ::
  "(nat \<Rightarrow> instant) \<Rightarrow> (uuid \<Rightarrow> bool) \<Rightarrow> nat \<Rightarrow> ReconcilableCandidateRow list \<Rightarrow> crm
     \<Rightarrow> crm \<times> ResolveOneSendOutcome list" where
  "resolve_all clock locked k [] db = (db, [])"
| "resolve_all clock locked k (row # rows) db =
     (case resolveOneSend (clock k) locked row db of
        (db1, outcome) \<Rightarrow>
          (case resolve_all clock locked (Suc k) rows db1 of (db2, outs) \<Rightarrow> (db2, outcome # outs)))"

definition runReconcilerTick ::
  "instant \<Rightarrow> (nat \<Rightarrow> instant) \<Rightarrow> instant \<Rightarrow> (uuid \<Rightarrow> bool) \<Rightarrow> nat \<Rightarrow> crm \<times> ReconcilerRunRow option
     \<Rightarrow> (crm \<times> ReconcilerRunRow option) \<times> ReconcilerRunSnapshot" where
  "runReconcilerTick now clock end locked batchLimit s =
     (let (candidates, oldest) = discoverReconcilableCandidates now batchLimit (fst s);
          (db, outs) = resolve_all clock locked 0 candidates (fst s);
          summary = \<lparr>lastRunAt = end, candidatesScanned = length candidates,
            rowsResolved = length (filter (\<lambda>x. x = ROResolveSent True) outs),
            rowsMarkedUnknown = length (filter (\<lambda>x. x = ROResolveUnknown True) outs),
            staleDispatchingSwept = length (filter (\<lambda>x. x = ROSweep True) outs),
            oldestReconcilingSince = oldest\<rparr>
      in ((db, Some (recordReconcilerRun summary (snd s))), summary))"

section \<open>One resolution\<close>

lemma claimable_unique:
  assumes "ledger_wf db" "claimable locked row r" "r \<in> set (l_sends db)"
  shows "find (claimable locked row) (l_sends db) = Some r"
  by (rule find_unique) (use assms ledger_wf_same_id [OF assms(1)] in
      \<open>auto simp: claimable_def visible_id_def\<close>)

text \<open>A resolution touches at most the row it was asked about.\<close>

definition others_kept :: "uuid \<Rightarrow> crm \<Rightarrow> crm \<Rightarrow> bool" where
  "others_kept i db db' =
     (filter (\<lambda>r. s_id r \<noteq> i) (l_sends db') = filter (\<lambda>r. s_id r \<noteq> i) (l_sends db)
      \<and> t_sendEvents db' = t_sendEvents db)"

lemma others_kept_update:
  assumes "\<And>r. p r \<Longrightarrow> s_id r = i \<and> s_id (f r) = i"
  shows "others_kept i db (db\<lparr>l_sends := update_where p f (l_sends db)\<rparr>)"
  unfolding others_kept_def using assms by (simp add: filter_update_other)

lemma others_kept_refl [simp]: "others_kept i db db"
  by (simp add: others_kept_def)

lemma others_kept_resolve:
  "others_kept i db (fst (resolveReconcilingSend t i v db))"
  "others_kept i db (fst (sweepStaleDispatchingSend t now i db))"
proof -
  show "others_kept i db (fst (resolveReconcilingSend t i v db))"
    unfolding resolveReconcilingSend_def Let_def fst_conv
    by (rule others_kept_update, cases v) (auto simp: visible_id_def)
  show "others_kept i db (fst (sweepStaleDispatchingSend t now i db))"
    unfolding sweepStaleDispatchingSend_def Let_def fst_conv
    by (rule others_kept_update) (auto simp: visible_id_def)
qed

lemma counters_frame:
  "l_sends (backfillCampaignSendCounter t now c st db) = l_sends db"
  "t_sendEvents (backfillCampaignSendCounter t now c st db) = t_sendEvents db"
  "t_sendEvents (fst (tryCompleteCampaign t now c db)) = t_sendEvents db"
  by (simp_all add: backfillCampaignSendCounter_def tryCompleteCampaign_def Let_def)

lemma others_kept_counters [simp]:
  "others_kept i db (fst (tryCompleteCampaign t now c (backfillCampaignSendCounter t now c st db')))
     = others_kept i db db'"
  by (simp add: others_kept_def counters_frame)

lemma claimableD:
  "claimable locked row r \<Longrightarrow> s_id r = rr_id row \<and> s_workspaceId r = rr_workspaceId row
     \<and> s_status r \<in> {Reconciling, Unknown, Dispatching}"
  by (auto simp: claimable_def visible_id_def)

lemma others_kept_resolveOneSend: "others_kept (rr_id row) db (fst (resolveOneSend now locked row db))"
proof (cases "find (claimable locked row) (l_sends db)")
  case None
  then show ?thesis by (simp add: resolveOneSend_def)
next
  case (Some r)
  then have id: "s_id r = rr_id row" using claimableD find_Some_iff_mem by metis
  note keep = others_kept_resolve [of "rr_id row" db]
  show ?thesis
    by (simp add: resolveOneSend_def Let_def split_beta keep Some id split: ReconcileVerdict.split option.split)
qed

lemma wf_resolveOneSend [ledger_inv]: "ledger_wf db \<Longrightarrow> ledger_wf (fst (resolveOneSend now locked row db))"
  by (simp add: resolveOneSend_def Let_def split_beta wf_resolveReconcilingSend
      wf_sweepStaleDispatchingSend split: ReconcileVerdict.split option.split)

lemma transitions_resolveOneSend:
  assumes "ledger_wf db"
  shows "transitions_within {Reconciler} db (fst (resolveOneSend now locked row db))"
proof -
  have sends: "transitions_within W db db1 \<Longrightarrow>
      transitions_within W db (fst (tryCompleteCampaign t n c (backfillCampaignSendCounter t n c st db1)))"
    for W t n c st and db1 :: crm
    by (simp add: transitions_within_def counters_frame)
  show ?thesis
    by (simp add: resolveOneSend_def Let_def split_beta sends transitions_resolve [OF assms]
        transitions_sweep [OF assms] transitions_within_refl [OF assms]
        split: ReconcileVerdict.split option.split)
qed

section \<open>The verdict of a live row\<close>

lemma row_count_visible:
  assumes "r \<in> set t" "p r"
  shows "0 < row_count p t"
  using assms row_count_pos by blast

lemma resolveOneSend_verdict:
  assumes wf: "ledger_wf db" and r: "r \<in> set (l_sends db)" "claimable locked row r"
  shows "classifyReconcilableSend (reconcile_input now db r) = ResolveSent \<Longrightarrow>
      write_resolution VResolveSent r \<in> set (l_sends (fst (resolveOneSend now locked row db)))
      \<and> snd (resolveOneSend now locked row db) = ROResolveSent True"
    and "classifyReconcilableSend (reconcile_input now db r) = ResolveUnknown \<Longrightarrow>
      write_resolution VResolveUnknown r \<in> set (l_sends (fst (resolveOneSend now locked row db)))
      \<and> snd (resolveOneSend now locked row db) = ROResolveUnknown True"
    and "classifyReconcilableSend (reconcile_input now db r) = Hold \<Longrightarrow>
      resolveOneSend now locked row db = (db, ROHold)"
proof -
  let ?t = "rr_workspaceId row"
  have find: "find (claimable locked row) (l_sends db) = Some r"
    by (rule claimable_unique [OF wf r(2,1)])
  have vis: "visible_id ?t (s_id r) r" using claimableD [OF r(2)] by (simp add: visible_id_def)
  have resolved: "write_resolution v r \<in> set (l_sends (fst (resolveReconcilingSend ?t (s_id r) v db)))
      \<and> snd (resolveReconcilingSend ?t (s_id r) v db)" if "ambiguous_status (s_status r)" for v
    using that vis r(1) row_count_visible [OF r(1)]
    by (auto simp: resolveReconcilingSend_def Let_def set_update_where)
  show "write_resolution VResolveSent r \<in> set (l_sends (fst (resolveOneSend now locked row db)))
      \<and> snd (resolveOneSend now locked row db) = ROResolveSent True"
    if v: "classifyReconcilableSend (reconcile_input now db r) = ResolveSent"
  proof -
    have "ambiguous_status (s_status r)"
      using v by (auto simp: classifyReconcilableSend_def reconcile_input_def ambiguous_status_def
          split: if_splits)
    with resolved [of VResolveSent] find v show ?thesis
      by (simp add: resolveOneSend_def Let_def split_beta counters_frame split: option.split)
  qed
  show "write_resolution VResolveUnknown r \<in> set (l_sends (fst (resolveOneSend now locked row db)))
      \<and> snd (resolveOneSend now locked row db) = ROResolveUnknown True"
    if v: "classifyReconcilableSend (reconcile_input now db r) = ResolveUnknown"
  proof -
    have "ambiguous_status (s_status r)"
      using v by (auto simp: classifyReconcilableSend_def reconcile_input_def ambiguous_status_def
          split: if_splits)
    with resolved [of VResolveUnknown] find v show ?thesis
      by (simp add: resolveOneSend_def Let_def split_beta)
  qed
  show "resolveOneSend now locked row db = (db, ROHold)"
    if "classifyReconcilableSend (reconcile_input now db r) = Hold"
    using that find by (simp add: resolveOneSend_def)
qed

text \<open>A send that is no longer ambiguous or stale is never claimed.\<close>

lemma resolveOneSend_terminal:
  assumes "ledger_wf db" "r \<in> set (l_sends db)" "s_id r = rr_id row" "terminal_status (s_status r)"
  shows "resolveOneSend now locked row db = (db, ROHold)"
proof -
  have "\<not> claimable locked row q" if "q \<in> set (l_sends db)" for q
    using ledger_wf_same_id [OF assms(1) that assms(2)] assms(3,4) claimableD [of locked row q]
    by (auto simp: terminal_status_def)
  then have "find (claimable locked row) (l_sends db) = None" by (simp add: find_None_mem)
  then show ?thesis by (simp add: resolveOneSend_def)
qed

section \<open>A whole tick\<close>

text \<open>The row of an id, and the status it has.\<close>

definition has_status :: "uuid \<Rightarrow> SendStatus \<Rightarrow> crm \<Rightarrow> bool" where
  "has_status i st db = (\<exists>r \<in> set (l_sends db). s_id r = i \<and> s_status r = st)"

lemma others_kept_row:
  "others_kept i db db' \<Longrightarrow> s_id r \<noteq> i \<Longrightarrow> r \<in> set (l_sends db') \<longleftrightarrow> r \<in> set (l_sends db)"
proof -
  assume "others_kept i db db'" and ne: "s_id r \<noteq> i"
  then have "set (filter (\<lambda>r. s_id r \<noteq> i) (l_sends db')) = set (filter (\<lambda>r. s_id r \<noteq> i) (l_sends db))"
    by (simp add: others_kept_def)
  with ne show ?thesis by auto
qed

definition has_evidence :: "send_row \<Rightarrow> crm \<Rightarrow> bool" where
  "has_evidence r db = (\<exists>e \<in> set (t_sendEvents db). se_workspaceId e = s_workspaceId r \<and> se_sendId e = Some (s_id r))"

lemma events_resolveOneSend: "t_sendEvents (fst (resolveOneSend now locked row db)) = t_sendEvents db"
  using others_kept_resolveOneSend by (simp add: others_kept_def)

text \<open>The final status of an expired ambiguous row, as a resolution leaves it.\<close>

definition settled_as :: "send_row \<Rightarrow> bool \<Rightarrow> crm \<Rightarrow> bool" where
  "settled_as r ev db =
     (\<exists>q \<in> set (l_sends db). s_id q = s_id r \<and> s_workspaceId q = s_workspaceId r
        \<and> s_status q = (if ev then Sent else Unknown))"

lemma settled_as_kept:
  assumes wf: "ledger_wf db" and ev: "has_evidence r db = ev" and s: "settled_as r ev db"
  shows "settled_as r ev (fst (resolveOneSend now locked row db))"
proof -
  obtain q where q: "q \<in> set (l_sends db)" "s_id q = s_id r" "s_workspaceId q = s_workspaceId r"
    "s_status q = (if ev then Sent else Unknown)" using s by (auto simp: settled_as_def)
  show ?thesis
  proof (cases "s_id q = rr_id row")
    case False
    then have "q \<in> set (l_sends (fst (resolveOneSend now locked row db)))"
      using others_kept_row [OF others_kept_resolveOneSend] q(1) by blast
    with q show ?thesis unfolding settled_as_def by blast
  next
    case same: True
    show ?thesis
    proof (cases "ev \<or> \<not> claimable locked row q")
      case True
      then have "resolveOneSend now locked row db = (db, ROHold)"
      proof
        assume ev
        with q same show ?thesis
          by (intro resolveOneSend_terminal [OF wf q(1)]) (simp_all add: terminal_status_def)
      next
        assume "\<not> claimable locked row q"
        then have "\<not> claimable locked row p" if "p \<in> set (l_sends db)" for p
          using ledger_wf_same_id [OF wf that q(1)] same claimableD [of locked row p] by auto
        then have "find (claimable locked row) (l_sends db) = None" by (simp add: find_None_mem)
        then show ?thesis by (simp add: resolveOneSend_def)
      qed
      with s show ?thesis by simp
    next
      case False
      then have "classifyReconcilableSend (reconcile_input now db q) = Hold"
        using q ev by (simp add: classifyReconcilableSend_def reconcile_input_def has_evidence_def)
      with resolveOneSend_verdict(3) [OF wf q(1)] False s show ?thesis by simp
    qed
  qed
qed

lemma settled_as_kept_all:
  assumes "ledger_wf db" "has_evidence r db = ev" "settled_as r ev db"
  shows "settled_as r ev (fst (resolve_all clock locked k rows db))"
  using assms
proof (induction rows arbitrary: k db)
  case (Cons row rows)
  obtain db1 o1 where 1: "resolveOneSend (clock k) locked row db = (db1, o1)"
    by (cases "resolveOneSend (clock k) locked row db")
  have "ledger_wf db1" "has_evidence r db1 = ev" "settled_as r ev db1"
    using wf_resolveOneSend [OF Cons.prems(1), of "clock k" locked row]
      settled_as_kept [OF Cons.prems, of "clock k" locked row]
      events_resolveOneSend [of "clock k" locked row db] Cons.prems(2) 1
    by (simp_all add: has_evidence_def)
  then have "settled_as r ev (fst (resolve_all clock locked (Suc k) rows db1))" by (rule Cons.IH)
  with 1 show ?case by (simp add: split_beta)
qed simp

text \<open>A row whose resolution window has passed, wherever it stands in the batch.\<close>

lemma expired_settles:
  assumes wf: "ledger_wf db" and r: "r \<in> set (l_sends db)" "s_status r = Reconciling"
    and old: "\<And>k. clock k - nullish (s_reconcilingSince r) (s_queuedAt r) > RECONCILE_RESOLUTION_WINDOW_MS"
    and free: "\<not> locked (s_id r)" and mem: "candidate_of r \<in> set rows"
  shows "settled_as r (has_evidence r db) (fst (resolve_all clock locked k rows db))"
  using wf r mem
proof (induction rows arbitrary: k db)
  case (Cons row rows)
  obtain db1 o1 where 1: "resolveOneSend (clock k) locked row db = (db1, o1)"
    by (cases "resolveOneSend (clock k) locked row db")
  have ev1: "has_evidence r db1 = has_evidence r db"
    using events_resolveOneSend [of "clock k" locked row db] 1 by (simp add: has_evidence_def)
  have wf1: "ledger_wf db1" using wf_resolveOneSend [OF Cons.prems(1), of "clock k" locked row] 1 by simp
  show ?case
  proof (cases "claimable locked row r")
    case True
    note verdict = resolveOneSend_verdict [OF Cons.prems(1,2) True, of "clock k"]
    have "settled_as r (has_evidence r db) db1"
    proof (cases "has_evidence r db")
      case ev: True
      then have "classifyReconcilableSend (reconcile_input (clock k) db r) = ResolveSent"
        using Cons.prems(3) by (simp add: classifyReconcilableSend_def reconcile_input_def has_evidence_def)
      then have "write_resolution VResolveSent r \<in> set (l_sends db1)" using verdict(1) 1 by simp
      with ev show ?thesis unfolding settled_as_def by (intro bexI) simp_all
    next
      case ev: False
      then have "classifyReconcilableSend (reconcile_input (clock k) db r) = ResolveUnknown"
        using Cons.prems(3) old [of k]
        by (simp add: classifyReconcilableSend_def reconcile_input_def has_evidence_def)
      then have "write_resolution VResolveUnknown r \<in> set (l_sends db1)" using verdict(2) 1 by simp
      with ev show ?thesis unfolding settled_as_def by (intro bexI) simp_all
    qed
    from settled_as_kept_all [OF wf1 ev1 this] 1 show ?thesis by (simp add: split_beta)
  next
    case False
    then have ne: "s_id r \<noteq> rr_id row \<or> s_workspaceId r \<noteq> rr_workspaceId row"
      using Cons.prems(3) free by (auto simp: claimable_def visible_id_def)
    have "r \<in> set (l_sends db1)"
    proof (cases "s_id r = rr_id row")
      case False
      then show ?thesis
        using others_kept_row [OF others_kept_resolveOneSend, of r row "clock k" locked db] 1 Cons.prems(2)
        by simp
    next
      case True
      have "\<not> claimable locked row p" if "p \<in> set (l_sends db)" for p
        using ledger_wf_same_id [OF Cons.prems(1) that Cons.prems(2)] True \<open>\<not> claimable locked row r\<close>
          claimableD [of locked row p] by auto
      then have "find (claimable locked row) (l_sends db) = None" by (simp add: find_None_mem)
      then have "db1 = db" using 1 by (simp add: resolveOneSend_def)
      with Cons.prems(2) show ?thesis by simp
    qed
    moreover have "candidate_of r \<in> set rows"
      using Cons.prems(4) ne by (auto simp: candidate_of_def)
    ultimately have "settled_as r (has_evidence r db1) (fst (resolve_all clock locked (Suc k) rows db1))"
      using Cons.IH wf1 Cons.prems(3) by blast
    with ev1 1 show ?thesis by (simp add: split_beta)
  qed
qed simp

lemma tick_db:
  "fst (fst (runReconcilerTick now clock end locked n (db, health)))
     = fst (resolve_all clock locked 0 (fst (discoverReconcilableCandidates now n db)) db)"
  by (simp add: runReconcilerTick_def split_beta Let_def)

lemma resolve_all_hold:
  assumes "\<And>k row. row \<in> set rows \<Longrightarrow> resolveOneSend (clock k) locked row db = (db, ROHold)"
  shows "fst (resolve_all clock locked k rows db) = db"
  using assms by (induction rows arbitrary: k) (simp_all add: split_beta)

lemma claimable_candidate:
  "discoverable now r \<Longrightarrow> claimable locked (candidate_of r) r = (\<not> locked (s_id r))"
  by (auto simp: claimable_def visible_id_def candidate_of_def discoverable_def)

lemma resolveOneSend_hold:
  assumes "ledger_wf db" "r \<in> set (l_sends db)" "discoverable now r"
    "classifyReconcilableSend (reconcile_input n db r) = Hold"
  shows "resolveOneSend n locked (candidate_of r) db = (db, ROHold)"
proof (cases "locked (s_id r)")
  case False
  with assms show ?thesis by (intro resolveOneSend_verdict(3)) (simp_all add: claimable_candidate)
next
  case True
  have "\<not> claimable locked (candidate_of r) p" if "p \<in> set (l_sends db)" for p
    using ledger_wf_same_id [OF assms(1) that assms(2)] True
    by (auto simp: claimable_def visible_id_def candidate_of_def)
  then have "find (claimable locked (candidate_of r)) (l_sends db) = None" by (simp add: find_None_mem)
  then show ?thesis by (simp add: resolveOneSend_def)
qed

section \<open>Properties\<close>

text \<open>Discovery misses no row the classifier could act on: the two age bounds of the query are the
  ones of the verdicts, to the millisecond.\<close>

theorem discovery_complete:
  assumes "classifyReconcilableSend (reconcile_input now db r) \<noteq> Hold"
  shows "discoverable now r"
  using assms
  by (cases "s_status r") (auto simp: classifyReconcilableSend_def reconcile_input_def discoverable_def
      split: if_splits)

definition hours :: "int \<Rightarrow> int" where "hours h = h * hour_ms"

definition example_unknown :: send_row where
  "example_unknown = (new_campaign_send ''s1'' ''w1'' ''c1'' ''k1'' (hours 70))\<lparr>s_status := Unknown\<rparr>"

definition example_reconciling :: send_row where
  "example_reconciling = (new_campaign_send ''s2'' ''w1'' ''c1'' ''k2'' (hours 99))
     \<lparr>s_status := Reconciling, s_reconcilingSince := Some (hours 99)\<rparr>"

definition example_evidence :: send_event_row where
  "example_evidence =
     \<lparr>se_workspaceId = ''w1'', se_sgEventId = ''g1'', se_sendId = Some ''s2'', se_eventType = ''delivered'',
      se_reason = None, se_payload = [], se_isTest = False, se_occurredAt = hours 99,
      se_receivedAt = hours 99\<rparr>"

definition example_backlog :: crm where
  "example_backlog = example_db\<lparr>l_sends := [example_unknown, example_reconciling],
     t_sendEvents := [example_evidence]\<rparr>"

lemmas example_backlog_defs = example_backlog_def example_unknown_def example_reconciling_def
  example_evidence_def hours_def hour_ms_def new_campaign_send_def default_send_def
  RECONCILE_RESCAN_HORIZON_MS_def RECONCILE_RESOLUTION_WINDOW_MS_def STALE_DISPATCHING_AGE_MS_def

lemma example_verdicts:
  "classifyReconcilableSend (reconcile_input (hours 100) example_backlog example_unknown) = Hold"
  "classifyReconcilableSend (reconcile_input (hours 100) example_backlog example_reconciling) = ResolveSent"
  by (simp_all add: classifyReconcilableSend_def reconcile_input_def example_backlog_defs)

lemma example_backlog_wf: "ledger_wf example_backlog"
  by (simp add: ledger_wf_def unique_key_def id_key_def campaign_key_def flow_key_def
      example_backlog_defs)

theorem discovery_complete_witness: "discoverable (hours 100) example_reconciling"
  by (rule discovery_complete [of "hours 100" example_backlog]) (simp add: example_verdicts)

text \<open>Resolving a send as sent happens once: the same candidate, resolved again at any later time,
  is held and nothing is written, so its campaign is counted once.\<close>

theorem resolve_sent_once:
  assumes "ledger_wf db" "resolveOneSend now locked row db = (db1, ROResolveSent True)"
  shows "resolveOneSend now' locked' row db1 = (db1, ROHold)"
proof -
  obtain r where r: "find (claimable locked row) (l_sends db) = Some r"
    using assms(2) by (cases "find (claimable locked row) (l_sends db)") (auto simp: resolveOneSend_def)
  then have mem: "r \<in> set (l_sends db)" "claimable locked row r" by (auto dest: find_Some_iff_mem)
  have "classifyReconcilableSend (reconcile_input now db r) = ResolveSent"
    using assms(2) r
    by (auto simp: resolveOneSend_def Let_def split_beta split: ReconcileVerdict.splits)
  then have row: "write_resolution VResolveSent r \<in> set (l_sends db1)"
    using resolveOneSend_verdict(1) [OF assms(1) mem, where now = now] assms(2) by (simp only: fst_conv)
  have "ledger_wf db1" using wf_resolveOneSend [OF assms(1), of now locked row] assms(2) by simp
  then show ?thesis using claimableD [OF mem(2)]
    by (intro resolveOneSend_terminal [OF _ row]) (simp_all add: terminal_status_def)
qed

theorem resolve_sent_once_witness:
  "\<exists>db1. resolveOneSend (hours 100) (\<lambda>i. False) (candidate_of example_reconciling) example_backlog
        = (db1, ROResolveSent True)
     \<and> resolveOneSend (hours 101) (\<lambda>i. False) (candidate_of example_reconciling) db1 = (db1, ROHold)"
proof -
  have "snd (resolveOneSend (hours 100) (\<lambda>i. False) (candidate_of example_reconciling) example_backlog)
      = ROResolveSent True"
    using resolveOneSend_verdict(1) [OF example_backlog_wf _ _ example_verdicts(2)]
    by (simp add: example_backlog_def claimable_candidate [of "hours 100"] discoverable_def
        example_reconciling_def)
  then obtain db1 where run: "resolveOneSend (hours 100) (\<lambda>i. False) (candidate_of example_reconciling)
      example_backlog = (db1, ROResolveSent True)" by (metis prod.collapse)
  from resolve_sent_once [OF example_backlog_wf run] run show ?thesis by blast
qed

text \<open>No ambiguous send outlives its resolution window: after a tick that has it in its batch and
  finds it unlocked, the row is \<open>sent\<close> if the webhook left evidence for it and \<open>unknown\<close> if not.\<close>

text \<open>A reconciler tick settles every batched ambiguous send older than the resolution window.\<close>

theorem tick_settles_expired:
  assumes "ledger_wf db" "r \<in> set (l_sends db)" "s_status r = Reconciling" "\<not> locked (s_id r)"
    and "\<And>k. clock k - nullish (s_reconcilingSince r) (s_queuedAt r) > RECONCILE_RESOLUTION_WINDOW_MS"
    and "candidate_of r \<in> set (fst (discoverReconcilableCandidates now n db))"
  shows "\<exists>q \<in> set (l_sends (fst (fst (runReconcilerTick now clock end locked n (db, health))))).
           s_id q = s_id r \<and> s_workspaceId q = s_workspaceId r
           \<and> s_status q = (if has_evidence r db then Sent else Unknown)"
  using expired_settles [where clock = clock and locked = locked and k = 0, OF assms(1-3) assms(5,4,6)]
  by (simp only: tick_db settled_as_def)

definition example_expired :: crm where
  "example_expired = example_db\<lparr>l_sends := [example_reconciling\<lparr>s_reconcilingSince := Some 0\<rparr>]\<rparr>"

theorem tick_settles_expired_witness:
  "\<exists>q \<in> set (l_sends (fst (fst (runReconcilerTick (hours 100) (\<lambda>k. hours 100) (hours 100) (\<lambda>i. False) 5
       (example_expired, None))))). s_id q = ''s2'' \<and> s_status q = Unknown"
proof -
  let ?r = "example_reconciling\<lparr>s_reconcilingSince := Some 0\<rparr>"
  have "ledger_wf example_expired" by (simp add: ledger_wf_def unique_key_def example_expired_def)
  moreover have "?r \<in> set (l_sends example_expired)" by (simp add: example_expired_def)
  moreover have "candidate_of ?r \<in> set (fst (discoverReconcilableCandidates (hours 100) 5 example_expired))"
    by (simp add: discoverReconcilableCandidates_def example_expired_def discoverable_def example_backlog_defs)
  ultimately have "\<exists>q \<in> set (l_sends (fst (fst (runReconcilerTick (hours 100) (\<lambda>k. hours 100) (hours 100)
      (\<lambda>i. False) 5 (example_expired, None))))). s_id q = s_id ?r \<and> s_workspaceId q = s_workspaceId ?r
      \<and> s_status q = (if has_evidence ?r example_expired then Sent else Unknown)"
    by (intro tick_settles_expired) (simp_all add: example_backlog_defs)
  moreover have "\<not> has_evidence ?r example_expired"
    by (simp add: has_evidence_def example_expired_def example_db_def empty_crm_def)
  moreover have "s_id ?r = ''s2''" by (simp add: example_backlog_defs)
  ultimately show ?thesis by auto
qed

text \<open>The batch limit can starve the reconciler within its horizon: when the oldest rows that fill
  the batch are all held (an \<open>unknown\<close> row without evidence stays discoverable, and held, until its
  horizon passes), the tick changes nothing at all, whatever younger row has its evidence ready.\<close>

text \<open>C5: A backlog of held rows that fills the batch hides younger rows from every tick.\<close>

theorem held_backlog_starves:
  assumes "ledger_wf db"
    and "\<And>k r. r \<in> set (take n (sort_key s_queuedAt (filter (discoverable now) (l_sends db)))) \<Longrightarrow>
           classifyReconcilableSend (reconcile_input (clock k) db r) = Hold"
  shows "fst (fst (runReconcilerTick now clock end locked n (db, health))) = db"
proof -
  have "resolveOneSend (clock k) locked (candidate_of r) db = (db, ROHold)"
    if "r \<in> set (take n (sort_key s_queuedAt (filter (discoverable now) (l_sends db))))" for k r
  proof -
    have "r \<in> set (sort_key s_queuedAt (filter (discoverable now) (l_sends db)))"
      using that by (rule in_set_takeD)
    then have "r \<in> set (l_sends db)" "discoverable now r" by simp_all
    then show ?thesis using assms that by (intro resolveOneSend_hold)
  qed
  then have "fst (resolve_all clock locked 0 (map candidate_of
      (take n (sort_key s_queuedAt (filter (discoverable now) (l_sends db))))) db) = db"
    by (intro resolve_all_hold) auto
  then show ?thesis
    by (simp only: tick_db discoverReconcilableCandidates_def fst_conv)
qed

theorem held_backlog_starves_witness:
  "fst (fst (runReconcilerTick (hours 100) (\<lambda>k. hours 100) (hours 100) (\<lambda>i. False) 1
       (example_backlog, None))) = example_backlog
   \<and> classifyReconcilableSend (reconcile_input (hours 100) example_backlog example_reconciling) = ResolveSent"
proof -
  have "filter (discoverable (hours 100)) (l_sends example_backlog) = [example_unknown, example_reconciling]"
    by (simp add: discoverable_def example_backlog_defs)
  moreover have "sort_key s_queuedAt [example_unknown, example_reconciling] = [example_unknown, example_reconciling]"
    by (simp add: example_backlog_defs)
  ultimately have "take 1 (sort_key s_queuedAt (filter (discoverable (hours 100)) (l_sends example_backlog)))
      = [example_unknown]" by simp
  then have held: "classifyReconcilableSend (reconcile_input (hours 100) example_backlog r) = Hold"
    if "r \<in> set (take 1 (sort_key s_queuedAt (filter (discoverable (hours 100)) (l_sends example_backlog))))" for r
    using that example_verdicts(1) by simp
  have "fst (fst (runReconcilerTick (hours 100) (\<lambda>k. hours 100) (hours 100) (\<lambda>i. False) 1
       (example_backlog, None))) = example_backlog"
    by (rule held_backlog_starves [OF example_backlog_wf]) (rule held)
  then show ?thesis using example_verdicts by blast
qed

end
