(* ===== verification/Json_Text.thy ===== *)
theory Json_Text
  imports Unsubscribe_Token
begin

text \<open>
  \<open>JSON.parse\<close> of the language, on texts as UTF-8 bytes: the grammar of RFC 8259, the escapes of a string with
  their surrogate pairs, members of which the last of a name wins. A number is the exact rational of its literal
  (the language rounds it to a double, which is exact for the integers the code writes). \<open>None\<close> is the thrown
  \<open>SyntaxError\<close>. The fuel is twice
  the length of the text, and more of it changes nothing.
\<close>

section \<open>Strings\<close>

definition utf8 :: "nat \<Rightarrow> string" where
  "utf8 u = map char_of
     (if u < 128 then [u]
      else if u < 2048 then [192 + u div 64, 128 + u mod 64]
      else if u < 65536 then [224 + u div 4096, 128 + u div 64 mod 64, 128 + u mod 64]
      else [240 + u div 262144, 128 + u div 4096 mod 64, 128 + u div 64 mod 64, 128 + u mod 64])"

definition high_surrogate :: "nat \<Rightarrow> bool" where
  "high_surrogate u = (55296 \<le> u \<and> u < 56320)"

definition low_surrogate :: "nat \<Rightarrow> bool" where
  "low_surrogate u = (56320 \<le> u \<and> u < 57344)"

text \<open>A string literal is read as characters and escaped code units, of which surrogates pair up.\<close>

fun text_of_pieces :: "(char + nat) list \<Rightarrow> string" where
  "text_of_pieces [] = []"
| "text_of_pieces (Inl c # ps) = c # text_of_pieces ps"
| "text_of_pieces (Inr u # Inr v # ps) =
     (if high_surrogate u \<and> low_surrogate v
      then utf8 (65536 + (u - 55296) * 1024 + (v - 56320)) @ text_of_pieces ps
      else utf8 u @ text_of_pieces (Inr v # ps))"
| "text_of_pieces (Inr u # ps) = utf8 u @ text_of_pieces ps"

definition simple_escape :: "char \<Rightarrow> char option" where
  "simple_escape c =
     (let n = (of_char c :: nat) in
      if n = 34 \<or> n = 92 \<or> n = 47 then Some c
      else if n = 98 then Some (char_of (8 :: nat))
      else if n = 116 then Some (char_of (9 :: nat))
      else if n = 110 then Some (char_of (10 :: nat))
      else if n = 102 then Some (char_of (12 :: nat))
      else if n = 114 then Some (char_of (13 :: nat))
      else None)"

fun hex4 :: "string \<Rightarrow> (nat \<times> string) option" where
  "hex4 (a # b # c # d # s) =
     (if list_all (\<lambda>x. digit_val x < 16) [a, b, c, d] then Some (digits_val 16 [a, b, c, d], s) else None)"
| "hex4 _ = None"

lemma hex4_shorter: "hex4 s = Some (u, r) \<Longrightarrow> length r < length s"
  by (cases s rule: hex4.cases) (auto split: if_splits)

function parse_pieces :: "string \<Rightarrow> ((char + nat) list \<times> string) option" where
  "parse_pieces [] = None"
| "parse_pieces (c # s) =
     (let n = (of_char c :: nat) in
      if n = 34 then Some ([], s)
      else if n < 32 then None
      else if n = 92
      then (case s of
              [] \<Rightarrow> None
            | e # t \<Rightarrow>
                (case simple_escape e of
                   Some x \<Rightarrow> map_option (map_prod ((#) (Inl x)) id) (parse_pieces t)
                 | None \<Rightarrow>
                     if e \<noteq> CHR ''u'' then None
                     else (case hex4 t of
                             None \<Rightarrow> None
                           | Some (u, r) \<Rightarrow> map_option (map_prod ((#) (Inr u)) id) (parse_pieces r))))
      else map_option (map_prod ((#) (Inl c)) id) (parse_pieces s))"
  by pat_completeness auto
termination
  by (relation "measure length") (auto dest: hex4_shorter)

declare parse_pieces.simps [simp del]

text \<open>The literal after its opening quote.\<close>

definition parse_string :: "string \<Rightarrow> (string \<times> string) option" where
  "parse_string s = map_option (map_prod text_of_pieces id) (parse_pieces s)"

section \<open>Numbers\<close>

definition sign_of :: "char \<Rightarrow> string \<Rightarrow> bool \<times> string" where
  "sign_of c s = (if s \<noteq> [] \<and> hd s = c then (True, tl s) else (False, s))"

definition fraction_of :: "string \<Rightarrow> (string \<times> string) option" where
  "fraction_of s =
     (if s \<noteq> [] \<and> hd s = CHR ''.''
      then (if takeWhile is_digit (tl s) = [] then None
            else Some (takeWhile is_digit (tl s), dropWhile is_digit (tl s)))
      else Some ([], s))"

definition exponent_of :: "string \<Rightarrow> (int \<times> string) option" where
  "exponent_of s =
     (if s \<noteq> [] \<and> (hd s = CHR ''e'' \<or> hd s = CHR ''E'')
      then (let (neg, r) = sign_of (CHR ''-'') (tl s);
                r' = (if neg then r else snd (sign_of (CHR ''+'') r))
            in if takeWhile is_digit r' = [] then None
               else Some ((if neg then -1 else 1) * int (digits_val 10 (takeWhile is_digit r')), dropWhile is_digit r'))
      else Some (0, s))"

definition scaled :: "rat \<Rightarrow> int \<Rightarrow> rat" where
  "scaled m e = (if 0 \<le> e then m * 10 ^ nat e else m / 10 ^ nat (- e))"

definition parse_number :: "string \<Rightarrow> (rat \<times> string) option" where
  "parse_number s =
     (let (neg, s1) = sign_of (CHR ''-'') s;
          ip = takeWhile is_digit s1; s2 = dropWhile is_digit s1
      in if ip = [] \<or> (1 < length ip \<and> hd ip = CHR ''0'') then None
         else (case fraction_of s2 of
                 None \<Rightarrow> None
               | Some (fp, s3) \<Rightarrow>
                   (case exponent_of s3 of
                      None \<Rightarrow> None
                    | Some (e, s4) \<Rightarrow>
                        let m = of_nat (digits_val 10 (ip @ fp)) / 10 ^ length fp
                        in Some (scaled (if neg then - m else m) e, s4))))"

section \<open>Values and texts\<close>

definition json_space :: "char \<Rightarrow> bool" where
  "json_space c = ((of_char c :: nat) \<in> {9, 10, 13, 32})"

definition skip_space :: "string \<Rightarrow> string" where
  "skip_space s = dropWhile json_space s"

text \<open>The next token is the character.\<close>

definition expect :: "char \<Rightarrow> string \<Rightarrow> string option" where
  "expect c s = (case skip_space s of [] \<Rightarrow> None | d # t \<Rightarrow> if d = c then Some t else None)"

definition word_of :: "string \<Rightarrow> js \<Rightarrow> string \<Rightarrow> (js \<times> string) option" where
  "word_of w v s = (if take (length w) s = w then Some (v, drop (length w) s) else None)"

text \<open>An object as \<open>js_get\<close> reads it, which takes the first member of a name.\<close>

definition js_object :: "(string \<times> js) list \<Rightarrow> js" where
  "js_object ms = JObj (rev ms)"

fun parse_value :: "nat \<Rightarrow> string \<Rightarrow> (js \<times> string) option"
and parse_elements :: "nat \<Rightarrow> string \<Rightarrow> (js list \<times> string) option"
and parse_members :: "nat \<Rightarrow> string \<Rightarrow> ((string \<times> js) list \<times> string) option" where
  "parse_value 0 s = None"
| "parse_value (Suc f) s =
     (case skip_space s of
        [] \<Rightarrow> None
      | c # t \<Rightarrow>
          if c = CHR ''{''
          then (case expect (CHR ''}'') t of
                  Some r \<Rightarrow> Some (js_object [], r)
                | None \<Rightarrow> map_option (map_prod js_object id) (parse_members f t))
          else if c = CHR ''[''
          then (case expect (CHR '']'') t of
                  Some r \<Rightarrow> Some (JArr [], r)
                | None \<Rightarrow> map_option (map_prod JArr id) (parse_elements f t))
          else if c = quote then map_option (map_prod JStr id) (parse_string t)
          else if c = CHR ''t'' then word_of ''true'' (JBool True) (c # t)
          else if c = CHR ''f'' then word_of ''false'' (JBool False) (c # t)
          else if c = CHR ''n'' then word_of ''null'' JNull (c # t)
          else map_option (map_prod (JNum \<circ> Fin) id) (parse_number (c # t)))"
| "parse_elements 0 s = None"
| "parse_elements (Suc f) s =
     (case parse_value f s of
        None \<Rightarrow> None
      | Some (v, r) \<Rightarrow>
          (case expect (CHR '','') r of
             Some t \<Rightarrow> map_option (map_prod ((#) v) id) (parse_elements f t)
           | None \<Rightarrow> map_option (\<lambda>t. ([v], t)) (expect (CHR '']'') r)))"
| "parse_members 0 s = None"
| "parse_members (Suc f) s =
     (case Option.bind (expect quote s) parse_string of
        None \<Rightarrow> None
      | Some (k, r) \<Rightarrow>
          (case Option.bind (expect (CHR '':'') r) (parse_value f) of
             None \<Rightarrow> None
           | Some (v, r') \<Rightarrow>
               (case expect (CHR '','') r' of
                  Some t \<Rightarrow> map_option (map_prod ((#) (k, v)) id) (parse_members f t)
                | None \<Rightarrow> map_option (\<lambda>t. ([(k, v)], t)) (expect (CHR ''}'') r'))))"

definition json_parse_text :: "string \<Rightarrow> js option" where
  "json_parse_text s =
     (case parse_value (Suc (2 * length s)) s of
        None \<Rightarrow> None
      | Some (v, r) \<Rightarrow> if skip_space r = [] then Some v else None)"

section \<open>The fuel is enough\<close>

lemma skip_space_length: "length (skip_space s) \<le> length s"
  by (simp add: skip_space_def length_dropWhile_le)

lemma skip_space_Cons: "skip_space s = c # t \<Longrightarrow> length t < length s"
  using skip_space_length [of s] by simp

lemma expect_shorter: "expect c s = Some t \<Longrightarrow> length t < length s"
  by (auto simp: expect_def dest: skip_space_Cons split: list.splits if_splits)

lemma parse_pieces_shorter: "parse_pieces s = Some (ps, r) \<Longrightarrow> length r < length s"
proof (induction s arbitrary: ps r rule: parse_pieces.induct)
  case (2 c s)
  then show ?case
    by (fastforce simp: parse_pieces.simps(2) [of c s] Let_def split: if_splits list.splits option.splits
        dest: hex4_shorter)
qed (simp add: parse_pieces.simps)

lemma parse_string_shorter: "parse_string s = Some (k, r) \<Longrightarrow> length r < length s"
  by (auto simp: parse_string_def dest: parse_pieces_shorter)

lemma sign_of_length: "sign_of c s = (b, r) \<Longrightarrow> length r \<le> length s"
  by (auto simp: sign_of_def split: if_splits)

lemma fraction_of_length: "fraction_of s = Some (fp, r) \<Longrightarrow> length r \<le> length s"
  by (auto simp: fraction_of_def intro: order_trans [OF length_dropWhile_le] split: if_splits)

lemma exponent_of_length: "exponent_of s = Some (e, r) \<Longrightarrow> length r \<le> length s"
  by (auto simp: exponent_of_def sign_of_def Let_def intro: order_trans [OF length_dropWhile_le] split: if_splits)

lemma digits_shorter: "takeWhile P s \<noteq> [] \<Longrightarrow> length (dropWhile P s) < length s"
  by (metis add_less_cancel_right length_append length_greater_0_conv less_add_same_cancel2 takeWhile_dropWhile_id)

lemma parse_number_shorter: "parse_number s = Some (q, r) \<Longrightarrow> length r < length s"
  by (auto simp: parse_number_def Let_def split: prod.splits if_splits option.splits
      dest!: sign_of_length fraction_of_length exponent_of_length digits_shorter)

lemma word_of_shorter: "word_of w v s = Some (x, r) \<Longrightarrow> w \<noteq> [] \<Longrightarrow> length r < length s"
  by (cases s; cases w) (auto simp: word_of_def split: if_splits)

lemmas shorter = expect_shorter skip_space_Cons parse_string_shorter parse_number_shorter

lemma parse_shorter:
  "parse_value f s = Some (v, r) \<Longrightarrow> length r < length s"
  "parse_elements f s = Some (vs, r) \<Longrightarrow> length r < length s"
  "parse_members f s = Some (ms, r) \<Longrightarrow> length r < length s"
proof (induction f s and f s and f s arbitrary: v r and vs r and ms r
    rule: parse_value_parse_elements_parse_members.induct)
  case (2 f s)
  then show ?case
    by (fastforce split: list.splits if_splits option.splits dest: shorter word_of_shorter)
next
  case (4 f s)
  then show ?case
    by (fastforce split: option.splits dest: shorter)
next
  case (6 f s)
  then show ?case
    by (fastforce simp: bind_eq_Some_conv split: option.splits dest: shorter)
qed simp_all

lemma parse_fuel:
  "(2 * length s < f \<longrightarrow> parse_value (Suc f) s = parse_value f s)
   \<and> (2 * length s + 1 < f \<longrightarrow> parse_elements (Suc f) s = parse_elements f s)
   \<and> (2 * length s + 1 < f \<longrightarrow> parse_members (Suc f) s = parse_members f s)"
proof (induction f arbitrary: s)
  case (Suc f)
  have vfuel: "2 * length t < f \<Longrightarrow> parse_value (Suc f) t = parse_value f t"
    and efuel: "2 * length t + 1 < f \<Longrightarrow> parse_elements (Suc f) t = parse_elements f t"
    and mfuel: "2 * length t + 1 < f \<Longrightarrow> parse_members (Suc f) t = parse_members f t" for t
    using Suc.IH by blast+
  have "parse_value (Suc (Suc f)) s = parse_value (Suc f) s" if "2 * length s < Suc f"
  proof (cases "skip_space s")
    case (Cons c t)
    then have "2 * length t + 1 < f" using skip_space_Cons [OF Cons] that by simp
    then show ?thesis by (simp only: parse_value.simps Cons list.case efuel mfuel)
  qed simp
  moreover have "parse_elements (Suc (Suc f)) s = parse_elements (Suc f) s" if enough: "2 * length s + 1 < Suc f"
  proof -
    have "parse_elements (Suc f) t = parse_elements f t" if "parse_value f s = Some (v, r)" "expect (CHR '','') r = Some t" for v r t
      using parse_shorter(1) [OF that(1)] expect_shorter [OF that(2)] enough by (intro efuel) simp
    moreover have "parse_value (Suc f) s = parse_value f s" using enough by (intro vfuel) simp
    ultimately show ?thesis
      by (simp only: parse_elements.simps) (simp split: option.splits)
  qed
  moreover have "parse_members (Suc (Suc f)) s = parse_members (Suc f) s" if enough: "2 * length s + 1 < Suc f"
  proof -
    have key: "length r < length s" if "Option.bind (expect quote s) parse_string = Some (k, r)" for k r
      using that by (fastforce simp: bind_eq_Some_conv dest: shorter)
    have v: "Option.bind (expect (CHR '':'') r) (parse_value (Suc f)) = Option.bind (expect (CHR '':'') r) (parse_value f)"
      if "length r < length s" for r
    proof (cases "expect (CHR '':'') r")
      case (Some t)
      then show ?thesis using expect_shorter [OF Some] that enough by (simp del: parse_value.simps add: vfuel)
    qed simp
    have m: "parse_members (Suc f) t = parse_members f t"
      if "length r < length s" "Option.bind (expect (CHR '':'') r) (parse_value f) = Some (x, r')"
        "expect (CHR '','') r' = Some t" for r x r' t
      using that enough by (intro mfuel) (fastforce simp: bind_eq_Some_conv dest: shorter parse_shorter(1))
    show ?thesis
      unfolding parse_members.simps(2) [of "Suc f" s] parse_members.simps(2) [of f s]
      by (auto simp del: parse_members.simps split: option.splits simp: v m dest!: key)
  qed
  ultimately show ?case by blast
qed simp

lemma parse_value_enough:
  assumes "2 * length s < f"
  shows "parse_value f s = parse_value (Suc (2 * length s)) s"
proof -
  have "parse_value (Suc (2 * length s) + n) s = parse_value (Suc (2 * length s)) s" for n
  proof (induction n)
    case (Suc n)
    have "2 * length s < Suc (2 * length s) + n" by simp
    with parse_fuel [of s "Suc (2 * length s) + n"] Suc.IH show ?case by (simp only: add_Suc_right)
  qed simp
  from this [of "f - Suc (2 * length s)"] show ?thesis using assms by simp
qed

section \<open>What is printed is read back\<close>

definition piece_of :: "char \<Rightarrow> char + nat" where
  "piece_of c =
     (let n = (of_char c :: nat) in
      if n < 32 \<and> n \<notin> {8, 9, 10, 12, 13} then Inr n else Inl c)"

lemma text_of_pieces_unit: "\<not> high_surrogate u \<Longrightarrow> text_of_pieces (Inr u # ps) = utf8 u @ text_of_pieces ps"
  by (cases "Inr u # ps :: (char + nat) list" rule: text_of_pieces.cases) simp_all

lemma text_of_pieces_of: "text_of_pieces (map piece_of s) = s"
proof (induction s)
  case (Cons c s)
  then show ?case
    by (simp add: piece_of_def Let_def text_of_pieces_unit high_surrogate_def utf8_def)
qed simp

lemma digit_val_zero: "digit_val (CHR ''0'') = 0"
  by (simp add: digit_val_def)

lemma hex_pair: "n < 32 \<Longrightarrow> hex4 (''00'' @ [hex_digit (n div 16), hex_digit (n mod 16)] @ r) = Some (n, r)"
  by (simp add: digit_val_hex_digit digits_val_def digit_val_zero)

lemma read_escape:
  "parse_pieces (json_escape c @ r) = map_option (map_prod ((#) (piece_of c)) id) (parse_pieces r)"
proof -
  define n where "n = (of_char c :: nat)"
  then have c: "c = char_of n" by simp
  consider "n \<in> {34, 92, 8, 9, 10, 12, 13}" | "n < 32" "n \<notin> {8, 9, 10, 12, 13}" | "32 \<le> n" "n \<noteq> 34" "n \<noteq> 92"
    by fastforce
  then show ?thesis
  proof cases
    case 1
    then show ?thesis
      by (auto simp: c json_escape_def piece_of_def parse_pieces.simps simple_escape_def)
  next
    case 2
    then show ?thesis
      using hex_pair [of n r]
      by (simp add: json_escape_def piece_of_def parse_pieces.simps simple_escape_def flip: n_def)
  next
    case 3
    then show ?thesis by (simp add: json_escape_def piece_of_def parse_pieces.simps Let_def flip: n_def)
  qed
qed

lemma read_json_string: "parse_string (concat (map json_escape s) @ quote # r) = Some (s, r)"
proof -
  have "parse_pieces (concat (map json_escape s) @ quote # r) = Some (map piece_of s, r)"
    by (induction s) (simp_all add: read_escape quote_def parse_pieces.simps)
  then show ?thesis by (simp add: parse_string_def text_of_pieces_of)
qed

lemma digit_char: "k < 10 \<Longrightarrow> is_digit (char_of (48 + k)) \<and> digit_val (char_of (48 + k)) = k"
  by (simp add: is_digit_def digit_val_def)

lemma show_nat_digits: "list_all is_digit (show_nat n) \<and> show_nat n \<noteq> [] \<and> digits_val 10 (show_nat n) = n"
proof (induction n rule: show_nat.induct)
  case (1 n)
  then show ?case
    by (subst (1 2 3) show_nat.simps) (simp add: digit_char digits_val_def)
qed

lemma show_nat_head: "10 \<le> n \<Longrightarrow> hd (show_nat n) \<noteq> CHR ''0''"
proof (induction n rule: show_nat.induct)
  case (1 n)
  show ?case
  proof (cases "n div 10 < 10")
    case True
    then have "show_nat n = [char_of (48 + n div 10), char_of (48 + n mod 10)]"
      using 1(2) by (simp add: show_nat.simps [of n] show_nat.simps [of "n div 10"])
    moreover have "digit_val (char_of (48 + n div 10)) \<noteq> digit_val (CHR ''0'')"
      using True 1(2) digit_char [of "n div 10"] by (simp add: digit_val_zero)
    ultimately show ?thesis by auto
  next
    case False
    then show ?thesis using 1 show_nat_digits [of "n div 10"] by (subst show_nat.simps) simp
  qed
qed

text \<open>A whole number is read up to a character that ends it.\<close>

lemma read_number:
  assumes "\<not> is_digit c" "c \<notin> {CHR ''.'', CHR ''e'', CHR ''E''}"
  shows "parse_number (show_nat n @ c # r) = Some (of_nat n, c # r)"
proof -
  have run: "takeWhile is_digit (show_nat n @ c # r) = show_nat n" "dropWhile is_digit (show_nat n @ c # r) = c # r"
    using show_nat_digits [of n] assms(1) by (simp_all add: list_all_iff takeWhile_append dropWhile_append)
  have "is_digit (hd (show_nat n))"
    using show_nat_digits [of n] by (cases "show_nat n") simp_all
  then have sign: "sign_of (CHR ''-'') (show_nat n @ c # r) = (False, show_nat n @ c # r)"
    using show_nat_digits [of n] by (auto simp: sign_of_def is_digit_def hd_append)
  have "\<not> (1 < length (show_nat n) \<and> hd (show_nat n) = CHR ''0'')"
  proof (cases "n < 10")
    case True
    then show ?thesis by (simp add: show_nat.simps)
  next
    case False
    then show ?thesis using show_nat_head by simp
  qed
  then show ?thesis
    using assms show_nat_digits [of n]
    by (simp add: parse_number_def Let_def sign run fraction_of_def exponent_of_def scaled_def)
qed

end
