(* ===== verification/Unsubscribe_Verify.thy ===== *)
theory Unsubscribe_Verify
  imports Json_Text
begin

text \<open>
  Verification of an unsubscribe token (\<open>verifyUnsubscribeToken\<close> of
  \<open>packages/delivery-core/src/unsubscribe-token.ts\<close>), the gate that a worker's secrets pass at its start
  (\<open>assertUnsubscribeTokenSecrets\<close> of \<open>apps/worker/src/server.ts\<close>), and the rotation of the secret over the
  two processes that \<open>docs/runbooks/unsubscribe-secret-rotation.md\<close> describes. The digest \<open>hmac\<close> is a parameter;
  that it is a non-empty list of bytes is what the code relies on. A payload that is not valid UTF-8 keeps its bytes,
  where the language puts replacement characters; only ASCII white space is looked for in a secret.
\<close>

section \<open>Verification\<close>

record VerifiedToken =
  vt_sendId :: string
  vt_contactId :: string
  vt_workspaceId :: string
  vt_exp :: rat

definition token_candidates :: "(string \<Rightarrow> string option) \<Rightarrow> string list option" where
  "token_candidates env =
     (case getPrimarySecret env of Inl _ \<Rightarrow> None | Inr primary \<Rightarrow> Some (primary # getPreviousSecrets env))"

text \<open>The loop over the candidates runs to its end and keeps the first position that matches.\<close>

fun match_loop ::
  "(string \<Rightarrow> string \<Rightarrow> nat list) \<Rightarrow> string \<Rightarrow> nat list \<Rightarrow> nat \<Rightarrow> string list \<Rightarrow> nat option \<Rightarrow> nat option" where
  "match_loop hmac encodedPayload actualSigBuf i [] matchedIndex = matchedIndex"
| "match_loop hmac encodedPayload actualSigBuf i (candidate # candidates) matchedIndex =
     match_loop hmac encodedPayload actualSigBuf (i + 1) candidates
       (if b64_decode (signWith hmac candidate encodedPayload) = actualSigBuf \<and> matchedIndex = None
        then Some i else matchedIndex)"

definition read_payload :: "js \<Rightarrow> VerifiedToken option" where
  "read_payload parsed =
     (case (js_get parsed ''sendId'', js_get parsed ''contactId'', js_get parsed ''workspaceId'', js_get parsed ''exp'') of
        (JStr s, JStr c, JStr w, JNum (Fin e)) \<Rightarrow>
          Some \<lparr>vt_sendId = s, vt_contactId = c, vt_workspaceId = w, vt_exp = e\<rparr>
      | _ \<Rightarrow> None)"

definition verifyUnsubscribeToken ::
  "(string \<Rightarrow> string \<Rightarrow> nat list) \<Rightarrow> (string \<Rightarrow> string option) \<Rightarrow> string \<Rightarrow> VerifiedToken option" where
  "verifyUnsubscribeToken hmac env token =
     (case split_on (CHR ''.'') token of
        [encodedPayload, signature] \<Rightarrow>
          if encodedPayload = [] \<or> signature = [] then None
          else (case token_candidates env of
                  None \<Rightarrow> None
                | Some candidates \<Rightarrow>
                    (case match_loop hmac encodedPayload (b64_decode signature) 0 candidates None of
                       None \<Rightarrow> None
                     | Some matchedIndex \<Rightarrow>
                         Option.bind (json_parse_text (text_of_bytes (b64_decode encodedPayload))) read_payload))
      | _ \<Rightarrow> None)"

section \<open>The gate at the start of a process\<close>

definition MAX_UNSUBSCRIBE_PREVIOUS_SECRETS :: nat where
  "MAX_UNSUBSCRIBE_PREVIOUS_SECRETS = 5"

datatype secret_error =
  SecretTooShort | SecretHasSeparator | PreviousHasWhitespace | TooManyPrevious | EmptyPrevious | PreviousTooShort
  | DuplicatePrevious

fun check_entries :: "string \<Rightarrow> string list \<Rightarrow> string list \<Rightarrow> secret_error option" where
  "check_entries primary seen [] = None"
| "check_entries primary seen (e # es) =
     (if e = [] then Some EmptyPrevious
      else if length e < 32 then Some PreviousTooShort
      else if e = primary \<or> e \<in> set seen then Some DuplicatePrevious
      else check_entries primary (e # seen) es)"

definition assertUnsubscribeTokenSecrets :: "(string \<Rightarrow> string option) \<Rightarrow> secret_error option" where
  "assertUnsubscribeTokenSecrets env =
     (let secret = nullish (env ''UNSUBSCRIBE_TOKEN_SECRET'') [];
          previous = env ''UNSUBSCRIBE_TOKEN_SECRET_PREVIOUS''
      in if length secret < 32 then Some SecretTooShort
         else if list_ex (\<lambda>c. c = CHR '','' \<or> is_space c) secret then Some SecretHasSeparator
         else if truthy previous
         then (let raw = nullish previous []; entries = split_on (CHR '','') raw
               in if list_ex is_space raw then Some PreviousHasWhitespace
                  else if MAX_UNSUBSCRIBE_PREVIOUS_SECRETS < length entries then Some TooManyPrevious
                  else check_entries secret [] entries)
         else None)"

section \<open>base64url is read back\<close>

fun sextets :: "nat list \<Rightarrow> nat list" where
  "sextets (a # b # c # bs) = a div 4 # (a mod 4 * 16 + b div 16) # (b mod 16 * 4 + c div 64) # c mod 64 # sextets bs"
| "sextets [a, b] = [a div 4, a mod 4 * 16 + b div 16, b mod 16 * 4]"
| "sextets [a] = [a div 4, a mod 4 * 16]"
| "sextets [] = []"

definition all_bytes :: "nat list \<Rightarrow> bool" where
  "all_bytes bs = list_all (\<lambda>b. b < 256) bs"

lemma encode_sextets: "b64_encode bs = map b64_char (sextets bs)"
  by (induction bs rule: sextets.induct) simp_all

lemma sextets_small: "all_bytes bs \<Longrightarrow> list_all (\<lambda>n. n < 64) (sextets bs)"
  by (induction bs rule: sextets.induct) (auto simp: all_bytes_def)

lemma groups_sextets: "all_bytes bs \<Longrightarrow> b64_groups (sextets bs) = bs"
  by (induction bs rule: sextets.induct) (auto simp: all_bytes_def)

lemma b64_letters: "n < 64 \<Longrightarrow> b64_index (b64_char n) = Some n \<and> b64_char n \<notin> {CHR ''='', CHR ''.''}"
proof -
  assume n: "n < 64"
  have size: "length b64_alphabet = 64" by (simp add: b64_alphabet_def)
  have "map b64_index b64_alphabet = map Some [0..<64]"
    by (simp add: b64_alphabet_def b64_index_def upt_conv_Cons)
  then have "map b64_index b64_alphabet ! n = map Some [0..<64] ! n" by simp
  moreover have "set b64_alphabet \<inter> {CHR ''='', CHR ''.''} = {}" by (simp add: b64_alphabet_def)
  ultimately show ?thesis
    using n size nth_mem [of n b64_alphabet] unfolding b64_char_def
    by (metis disjoint_iff length_map map_nth nth_map nth_upt plus_nat.add_0 diff_zero length_upt)
qed

lemma encode_letters:
  assumes "all_bytes bs"
  shows "set (b64_encode bs) \<inter> {CHR ''='', CHR ''.''} = {}"
  using sextets_small [OF assms] b64_letters by (fastforce simp: encode_sextets list_all_iff)

lemma b64_roundtrip:
  assumes "all_bytes bs"
  shows "b64_decode (b64_encode bs) = bs"
proof -
  have "takeWhile (\<lambda>c. c \<noteq> CHR ''='') (b64_encode bs) = b64_encode bs"
    using encode_letters [OF assms] by (auto simp: takeWhile_eq_all_conv)
  then have "b64_decode (b64_encode bs) = b64_groups (List.map_filter b64_index (map b64_char (sextets bs)))"
    unfolding b64_decode_def by (simp only: encode_sextets)
  moreover have "List.map_filter b64_index (map b64_char ns) = ns" if "list_all (\<lambda>n. n < 64) ns" for ns
    using that b64_letters by (induction ns) (simp_all add: map_filter_simps)
  ultimately show ?thesis
    using sextets_small [OF assms] groups_sextets [OF assms] by simp
qed

lemma bytes_roundtrip: "text_of_bytes (bytes_of_text s) = s" "all_bytes (bytes_of_text s)"
  by (simp_all add: text_of_bytes_def bytes_of_text_def all_bytes_def list_all_iff comp_def)

section \<open>A payload is read back\<close>

lemma skip_space_ink: "\<not> json_space c \<Longrightarrow> skip_space (c # s) = c # s"
  by (simp add: skip_space_def)

lemma expect_ink: "\<not> json_space d \<Longrightarrow> expect c (d # s) = (if d = c then Some s else None)"
  by (simp add: expect_def skip_space_ink)

lemma not_json_space: "\<not> json_space (CHR '','')" "\<not> json_space (CHR ''}'')" "\<not> json_space (CHR '':'')"
  "\<not> json_space (CHR ''{'')" "\<not> json_space quote"
  by (simp_all add: json_space_def quote_def)

lemmas ink = expect_ink skip_space_ink not_json_space

lemma quote_apart: "quote \<noteq> CHR ''{''" "quote \<noteq> CHR ''[''" "quote \<noteq> CHR ''}''" "quote \<noteq> CHR '']''"
  by (auto simp: quote_def dest: arg_cong [where f = "of_char :: char \<Rightarrow> nat"])

lemma read_string_value: "parse_value (Suc f) (json_string s @ r) = Some (JStr s, r)"
  by (simp add: json_string_def ink read_json_string quote_apart)

lemma read_number_value:
  assumes "c \<in> {CHR '','', CHR ''}''}"
  shows "parse_value (Suc f) (show_nat n @ c # r) = Some (JNum (Fin (of_nat n)), c # r)"
proof -
  obtain d ds where sn: "show_nat n = d # ds" and d: "is_digit d"
    using show_nat_digits [of n] by (cases "show_nat n") auto
  have "d \<notin> {CHR ''{'', CHR ''['', quote, CHR ''t'', CHR ''f'', CHR ''n''}" "\<not> json_space d"
    using d by (auto simp: is_digit_def quote_def json_space_def)
  moreover have "parse_number (show_nat n @ c # r) = Some (of_nat n, c # r)"
    using assms by (intro read_number) (auto simp: is_digit_def)
  ultimately show ?thesis by (simp add: sn skip_space_ink)
qed

lemma read_member:
  assumes "parse_value f (v @ s) = Some (x, s)"
  shows "parse_members (Suc f) (json_field k v @ s) =
    (case expect (CHR '','') s of
       Some t \<Rightarrow> map_option (map_prod ((#) (k, x)) id) (parse_members f t)
     | None \<Rightarrow> map_option (\<lambda>t. ([(k, x)], t)) (expect (CHR ''}'') s))"
  using assms by (simp add: json_field_def json_string_def ink read_json_string)

lemma read_string_member:
  "parse_members (Suc (Suc f)) (json_field k (json_string v) @ CHR '','' # s) =
     map_option (map_prod ((#) (k, JStr v)) id) (parse_members (Suc f) s)"
  by (subst read_member [OF read_string_value]) (simp add: ink)

lemma read_last_number:
  "parse_members (Suc (Suc f)) (json_field k (show_nat n) @ [CHR ''}'']) = Some ([(k, JNum (Fin (of_nat n)))], [])"
  by (subst read_member [OF read_number_value]) (simp_all add: ink)

lemma read_object:
  "parse_value (Suc f) (CHR ''{'' # json_field k v @ s) =
     map_option (map_prod js_object id) (parse_members f (json_field k v @ s))"
  by (simp add: ink json_field_def json_string_def quote_apart del: parse_members.simps)

lemma read_stringified:
  "json_parse_text (stringify_payload p) =
     Some (js_object [(''sendId'', JStr (tok_sendId p)), (''contactId'', JStr (tok_contactId p)),
       (''workspaceId'', JStr (tok_workspaceId p)), (''exp'', JNum (Fin (of_nat (tok_exp p))))])"
proof -
  have "12 \<le> length (stringify_payload p)"
    by (simp add: stringify_payload_def json_field_def json_string_def)
  then have "2 * length (stringify_payload p) = Suc (Suc (Suc (Suc (Suc (2 * length (stringify_payload p) - 5)))))"
    by simp
  then obtain f where f: "2 * length (stringify_payload p) = Suc (Suc (Suc (Suc (Suc f))))" by blast
  have "parse_value (Suc (2 * length (stringify_payload p))) (stringify_payload p) =
    Some (js_object [(''sendId'', JStr (tok_sendId p)), (''contactId'', JStr (tok_contactId p)),
       (''workspaceId'', JStr (tok_workspaceId p)), (''exp'', JNum (Fin (of_nat (tok_exp p))))], [])"
    unfolding f
    unfolding stringify_payload_def append_Cons append_Nil append_assoc read_object read_string_member read_last_number
    by simp
  then show ?thesis unfolding json_parse_text_def by (simp only: option.case prod.case skip_space_def dropWhile.simps if_True simp_thms)
qed

lemma read_signed_payload:
  "Option.bind (json_parse_text (stringify_payload p)) read_payload =
     Some \<lparr>vt_sendId = tok_sendId p, vt_contactId = tok_contactId p, vt_workspaceId = tok_workspaceId p,
       vt_exp = of_nat (tok_exp p)\<rparr>"
  by (simp add: read_stringified js_object_def read_payload_def)

section \<open>Which tokens verify\<close>

lemma match_loop_kept: "match_loop hmac e sig i cs (Some k) = Some k"
  by (induction cs arbitrary: i) simp_all

lemma match_loop_found:
  "match_loop hmac e sig i cs None \<noteq> None \<longleftrightarrow> (\<exists>c \<in> set cs. b64_decode (signWith hmac c e) = sig)"
  by (induction cs arbitrary: i) (auto simp: match_loop_kept)

definition digest_bytes :: "(string \<Rightarrow> string \<Rightarrow> nat list) \<Rightarrow> bool" where
  "digest_bytes hmac = (\<forall>k m. hmac k m \<noteq> [] \<and> all_bytes (hmac k m))"

definition candidate_list :: "(string \<Rightarrow> string option) \<Rightarrow> string list" where
  "candidate_list env = (case token_candidates env of None \<Rightarrow> [] | Some cs \<Rightarrow> cs)"

text \<open>A token verifies exactly where its signature is the digest of its first part under a secret the process
  holds, and then gives what that part says.\<close>

lemma verify_iff:
  assumes "digest_bytes hmac"
  shows "verifyUnsubscribeToken hmac env token = Some v \<longleftrightarrow>
    (\<exists>encoded signature. split_on (CHR ''.'') token = [encoded, signature] \<and> encoded \<noteq> [] \<and> signature \<noteq> []
       \<and> (\<exists>secret \<in> set (candidate_list env). b64_decode signature = hmac secret encoded)
       \<and> Option.bind (json_parse_text (text_of_bytes (b64_decode encoded))) read_payload = Some v)"
proof -
  have dig: "b64_decode (signWith hmac c e) = hmac c e" for c e
    using assms by (simp add: signWith_def b64_roundtrip digest_bytes_def)
  have loop: "(\<exists>k. match_loop hmac e sig 0 cs None = Some k) \<longleftrightarrow> (\<exists>c \<in> set cs. sig = hmac c e)" for e sig cs
    using match_loop_found [of hmac e sig 0 cs] by (auto simp: dig)
  show ?thesis
  proof (cases "\<exists>e g. split_on (CHR ''.'') token = [e, g]")
    case True
    then obtain e g where parts: "split_on (CHR ''.'') token = [e, g]" by blast
    show ?thesis
      using loop [of e "b64_decode g" "candidate_list env"]
      by (auto simp: verifyUnsubscribeToken_def parts candidate_list_def split: option.splits)
  next
    case False
    then show ?thesis by (auto simp: verifyUnsubscribeToken_def split: list.splits)
  qed
qed

lemma signed_token_verifies:
  assumes "digest_bytes hmac" "signUnsubscribeToken hmac env p = Inr token"
    and "getPrimarySecret env = Inr secret" "secret \<in> set (candidate_list env')"
  shows "verifyUnsubscribeToken hmac env' token =
    Some \<lparr>vt_sendId = tok_sendId p, vt_contactId = tok_contactId p, vt_workspaceId = tok_workspaceId p,
      vt_exp = of_nat (tok_exp p)\<rparr>"
proof -
  define enc where "enc = b64_encode (bytes_of_text (stringify_payload p))"
  have token: "token = enc @ CHR ''.'' # signWith hmac secret enc"
    using assms(2,3) by (simp add: signUnsubscribeToken_def Let_def enc_def)
  have sig: "all_bytes (hmac secret enc)" "hmac secret enc \<noteq> []"
    using assms(1) by (simp_all add: digest_bytes_def)
  have "CHR ''.'' \<notin> set enc" "CHR ''.'' \<notin> set (signWith hmac secret enc)"
    using encode_letters [OF bytes_roundtrip(2)] encode_letters [OF sig(1)] by (auto simp: enc_def signWith_def)
  then have parts: "split_on (CHR ''.'') token = [enc, signWith hmac secret enc]"
    by (simp add: token split_on_append split_on_plain)
  have some: "b64_encode bs \<noteq> []" if "bs \<noteq> []" for bs
    using that by (cases bs rule: b64_encode.cases) simp_all
  have "bytes_of_text (stringify_payload p) \<noteq> []"
    by (simp add: bytes_of_text_def stringify_payload_def)
  then have "enc \<noteq> []" "signWith hmac secret enc \<noteq> []"
    using some sig(2) by (simp_all add: enc_def signWith_def)
  moreover have "text_of_bytes (b64_decode enc) = stringify_payload p"
    by (simp add: enc_def b64_roundtrip bytes_roundtrip)
  moreover have "b64_decode (signWith hmac secret enc) = hmac secret enc"
    using sig(1) by (simp add: signWith_def b64_roundtrip)
  ultimately show ?thesis
    using assms(4) parts read_signed_payload by (subst verify_iff [OF assms(1)]) fastforce
qed

end
