(* ===== verification/Unsubscribe_Rotation.thy ===== *)
theory Unsubscribe_Rotation
  imports Unsubscribe_Verify
begin

text \<open>
  The rotation of the token secret. A deployment is the environment file with the environments the API and the
  worker started with; the worker signs, both processes start only through their gate, and the operator edits
  the file in the two steps of \<open>docs/runbooks/unsubscribe-secret-rotation.md\<close>: a new secret is added to the
  list, and after every process has restarted it changes places with the primary. The removal of a secret
  whose links have all expired is not part of a rotation.
\<close>

section \<open>The file and the processes\<close>

type_synonym token_env = "string \<Rightarrow> string option"

record deployment =
  d_file :: token_env
  d_api :: token_env
  d_worker :: token_env
  d_mailed :: "(string \<times> UnsubscribeTokenPayload) list"

fun join_commas :: "string list \<Rightarrow> string" where
  "join_commas [] = []"
| "join_commas [s] = s"
| "join_commas (s # ss) = s @ CHR '','' # join_commas ss"

definition introduce_secret :: "string \<Rightarrow> token_env \<Rightarrow> token_env" where
  "introduce_secret new env =
     env(''UNSUBSCRIBE_TOKEN_SECRET_PREVIOUS'' \<mapsto> join_commas (getPreviousSecrets env @ [new]))"

definition promote_secret :: "string \<Rightarrow> token_env \<Rightarrow> token_env" where
  "promote_secret new env =
     env(''UNSUBSCRIBE_TOKEN_SECRET_PREVIOUS'' \<mapsto>
           join_commas (filter (\<lambda>s. s \<noteq> new) (getPreviousSecrets env)
             @ [nullish (env ''UNSUBSCRIBE_TOKEN_SECRET'') []]),
         ''UNSUBSCRIBE_TOKEN_SECRET'' \<mapsto> new)"

inductive rotation_step ::
  "(string \<Rightarrow> string \<Rightarrow> nat list) \<Rightarrow> deployment \<Rightarrow> deployment \<Rightarrow> bool" for hmac where
  StartApi: "assertUnsubscribeTokenSecrets (d_file d) = None \<Longrightarrow> rotation_step hmac d (d\<lparr>d_api := d_file d\<rparr>)"
| StartWorker: "assertUnsubscribeTokenSecrets (d_file d) = None \<Longrightarrow> rotation_step hmac d (d\<lparr>d_worker := d_file d\<rparr>)"
| MailLink: "signUnsubscribeToken hmac (d_worker d) p = Inr token
    \<Longrightarrow> rotation_step hmac d (d\<lparr>d_mailed := (token, p) # d_mailed d\<rparr>)"
| Introduce: "d_api d = d_file d \<Longrightarrow> d_worker d = d_file d \<Longrightarrow> 32 \<le> length new
    \<Longrightarrow> rotation_step hmac d (d\<lparr>d_file := introduce_secret new (d_file d)\<rparr>)"
| Promote: "d_api d = d_file d \<Longrightarrow> d_worker d = d_file d \<Longrightarrow> new \<in> set (getPreviousSecrets (d_file d))
    \<Longrightarrow> rotation_step hmac d (d\<lparr>d_file := promote_secret new (d_file d)\<rparr>)"

inductive rotation_reachable ::
  "(string \<Rightarrow> string \<Rightarrow> nat list) \<Rightarrow> token_env \<Rightarrow> deployment \<Rightarrow> bool" for hmac env where
  Deployed: "assertUnsubscribeTokenSecrets env = None
    \<Longrightarrow> rotation_reachable hmac env \<lparr>d_file = env, d_api = env, d_worker = env, d_mailed = []\<rparr>"
| Stepped: "rotation_reachable hmac env d \<Longrightarrow> rotation_step hmac d d' \<Longrightarrow> rotation_reachable hmac env d'"

section \<open>The secrets of an environment\<close>

lemma split_join:
  assumes "\<And>s. s \<in> set ss \<Longrightarrow> CHR '','' \<notin> set s"
  shows "split_on (CHR '','') (join_commas (ss @ [t])) = ss @ split_on (CHR '','') t"
  using assms
proof (induction ss)
  case (Cons s ss)
  then obtain u us where "ss @ [t] = u # us" by (cases "ss @ [t]") auto
  then have "join_commas ((s # ss) @ [t]) = s @ CHR '','' # join_commas (ss @ [t])" by simp
  then show ?case using Cons by (simp add: split_on_append split_on_plain)
qed simp

lemma split_parts: "p \<in> set (split_on x s) \<Longrightarrow> x \<notin> set p"
  by (induction s arbitrary: p) (auto split: if_splits list.splits)

lemma previous_parts: "s \<in> set (getPreviousSecrets env) \<Longrightarrow> CHR '','' \<notin> set s"
  by (auto simp: getPreviousSecrets_def split: if_splits dest: split_parts)

lemma check_entries_some: "check_entries p seen es = None \<Longrightarrow> e \<in> set es \<Longrightarrow> e \<noteq> []"
  by (induction es arbitrary: seen) (auto split: if_splits)

lemma gate_primary:
  assumes "assertUnsubscribeTokenSecrets env = None"
  obtains p where "env ''UNSUBSCRIBE_TOKEN_SECRET'' = Some p" "p \<noteq> []" "CHR '','' \<notin> set p"
  using assms that
  by (cases "env ''UNSUBSCRIBE_TOKEN_SECRET''")
    (fastforce simp: assertUnsubscribeTokenSecrets_def nullish_def list_ex_iff Let_def split: if_splits)+

lemma gate_previous:
  assumes "assertUnsubscribeTokenSecrets env = None" "s \<in> set (getPreviousSecrets env)"
  shows "s \<noteq> []"
  using assms
  by (auto simp: assertUnsubscribeTokenSecrets_def getPreviousSecrets_def Let_def split: if_splits
      dest: check_entries_some)

lemma candidates:
  assumes "env ''UNSUBSCRIBE_TOKEN_SECRET'' = Some p" "p \<noteq> []"
  shows "set (candidate_list env) = insert p (set (getPreviousSecrets env))" "getPrimarySecret env = Inr p"
  using assms by (simp_all add: candidate_list_def token_candidates_def getPrimarySecret_def nullish_def)

lemma join_some: "t \<noteq> [] \<Longrightarrow> join_commas (ss @ [t]) \<noteq> []"
  by (induction ss rule: join_commas.induct) simp_all

lemma previous_joined:
  assumes "\<And>s. s \<in> set ss \<Longrightarrow> CHR '','' \<notin> set s" "t \<noteq> []"
  shows "getPreviousSecrets (env(''UNSUBSCRIBE_TOKEN_SECRET_PREVIOUS'' \<mapsto> join_commas (ss @ [t]))) =
    ss @ split_on (CHR '','') t"
  using split_join [of ss t, OF assms(1)] join_some [OF assms(2), of ss]
  by (simp add: getPreviousSecrets_def nullish_def truthy_def)

lemma introduce_knows:
  assumes "assertUnsubscribeTokenSecrets env = None" "32 \<le> length new"
  shows "set (candidate_list env) \<subseteq> set (candidate_list (introduce_secret new env))"
    "getPrimarySecret (introduce_secret new env) = getPrimarySecret env"
proof -
  obtain p where p: "env ''UNSUBSCRIBE_TOKEN_SECRET'' = Some p" "p \<noteq> []" by (rule gate_primary [OF assms(1)])
  have new: "new \<noteq> []" using assms(2) by auto
  have p': "introduce_secret new env ''UNSUBSCRIBE_TOKEN_SECRET'' = Some p"
    using p(1) by (simp add: introduce_secret_def)
  have "set (getPreviousSecrets env) \<subseteq> set (getPreviousSecrets (introduce_secret new env))"
    unfolding introduce_secret_def by (subst previous_joined [OF previous_parts new]) auto
  then show "set (candidate_list env) \<subseteq> set (candidate_list (introduce_secret new env))"
    using candidates(1) [where env = env, OF p] candidates(1) [where env = "introduce_secret new env", OF p' p(2)] by auto
  show "getPrimarySecret (introduce_secret new env) = getPrimarySecret env"
    using candidates(2) [where env = env, OF p] candidates(2) [where env = "introduce_secret new env", OF p' p(2)] by simp
qed

text \<open>The promotion only reorders: every secret that was known still is.\<close>

lemma promote_knows:
  assumes "assertUnsubscribeTokenSecrets env = None" "new \<in> set (getPreviousSecrets env)"
  shows "set (candidate_list (promote_secret new env)) = set (candidate_list env)"
    "getPrimarySecret (promote_secret new env) = Inr new"
proof -
  obtain p where p: "env ''UNSUBSCRIBE_TOKEN_SECRET'' = Some p" "p \<noteq> []" "CHR '','' \<notin> set p"
    by (rule gate_primary [OF assms(1)])
  have new: "new \<noteq> []" by (rule gate_previous [OF assms])
  have p': "promote_secret new env ''UNSUBSCRIBE_TOKEN_SECRET'' = Some new" by (simp add: promote_secret_def)
  have other: "getPreviousSecrets (e(''UNSUBSCRIBE_TOKEN_SECRET'' \<mapsto> x)) = getPreviousSecrets e" for e x
    by (simp add: getPreviousSecrets_def)
  have "getPreviousSecrets (promote_secret new env) = filter (\<lambda>s. s \<noteq> new) (getPreviousSecrets env) @ [p]"
    unfolding promote_secret_def fun_upd_twist [of "''UNSUBSCRIBE_TOKEN_SECRET_PREVIOUS''"] other p(1) nullish_def option.case
    by (subst previous_joined [OF _ p(2)]) (auto simp: split_on_plain [OF p(3)] dest: previous_parts)
  then show "set (candidate_list (promote_secret new env)) = set (candidate_list env)"
    using candidates(1) [where env = env, OF p(1,2)] candidates(1) [where env = "promote_secret new env", OF p' new] assms(2) by auto
  show "getPrimarySecret (promote_secret new env) = Inr new" by (rule candidates(2) [where env = "promote_secret new env", OF p' new])
qed

section \<open>No mailed link stops verifying\<close>

definition shared_secrets :: "deployment \<Rightarrow> string set" where
  "shared_secrets d =
     set (candidate_list (d_file d)) \<inter> set (candidate_list (d_api d)) \<inter> set (candidate_list (d_worker d))"

definition link_of :: "(string \<Rightarrow> string \<Rightarrow> nat list) \<Rightarrow> string \<times> UnsubscribeTokenPayload \<Rightarrow> string \<Rightarrow> bool" where
  "link_of hmac link secret =
     (\<exists>env. signUnsubscribeToken hmac env (snd link) = Inr (fst link) \<and> getPrimarySecret env = Inr secret)"

definition rotation_inv :: "(string \<Rightarrow> string \<Rightarrow> nat list) \<Rightarrow> deployment \<Rightarrow> bool" where
  "rotation_inv hmac d =
     (assertUnsubscribeTokenSecrets (d_api d) = None \<and> assertUnsubscribeTokenSecrets (d_worker d) = None
      \<and> (\<forall>env \<in> {d_file d, d_worker d}. \<exists>s \<in> shared_secrets d. getPrimarySecret env = Inr s)
      \<and> (\<forall>link \<in> set (d_mailed d). \<exists>s \<in> shared_secrets d. link_of hmac link s))"

lemma rotation_inv_grow:
  assumes "rotation_inv hmac d" "shared_secrets d \<subseteq> shared_secrets d'" "d_mailed d' = d_mailed d"
    and "assertUnsubscribeTokenSecrets (d_api d') = None" "assertUnsubscribeTokenSecrets (d_worker d') = None"
    and "\<exists>s \<in> shared_secrets d'. getPrimarySecret (d_file d') = Inr s"
    and "d_worker d' = d_worker d \<or> d_worker d' = d_file d'"
  shows "rotation_inv hmac d'"
proof -
  have "\<exists>s \<in> shared_secrets d'. getPrimarySecret (d_worker d') = Inr s"
    using assms(1,2,6,7) by (auto simp: rotation_inv_def)
  moreover have "\<exists>s \<in> shared_secrets d'. link_of hmac link s" if "link \<in> set (d_mailed d')" for link
    using assms(1-3) that by (fastforce simp: rotation_inv_def)
  ultimately show ?thesis using assms(4-6) by (simp add: rotation_inv_def)
qed

lemma rotation_inv_step:
  assumes "rotation_step hmac d d'" "rotation_inv hmac d"
  shows "rotation_inv hmac d'"
  using assms
proof (induction rule: rotation_step.induct)
  case (StartApi d)
  from this(2) show ?case
    by (rule rotation_inv_grow) (use StartApi in \<open>auto simp: shared_secrets_def rotation_inv_def\<close>)
next
  case (StartWorker d)
  from this(2) show ?case
    by (rule rotation_inv_grow) (use StartWorker in \<open>auto simp: shared_secrets_def rotation_inv_def\<close>)
next
  case (MailLink d p token)
  have same: "shared_secrets (d\<lparr>d_mailed := m\<rparr>) = shared_secrets d" for m by (simp add: shared_secrets_def)
  from MailLink obtain s where "s \<in> shared_secrets d" "getPrimarySecret (d_worker d) = Inr s"
    by (auto simp: rotation_inv_def)
  then have "\<exists>s \<in> shared_secrets d. link_of hmac (token, p) s"
    using MailLink(1) by (auto simp: link_of_def)
  then show ?case using MailLink(2) by (auto simp: rotation_inv_def same)
next
  case (Introduce d new)
  then have gate: "assertUnsubscribeTokenSecrets (d_file d) = None" by (simp add: rotation_inv_def)
  note known = introduce_knows [OF gate Introduce(3)]
  from Introduce(4) show ?case
    by (rule rotation_inv_grow) (use known Introduce in \<open>auto simp: shared_secrets_def rotation_inv_def\<close>)
next
  case (Promote d new)
  then have gate: "assertUnsubscribeTokenSecrets (d_file d) = None" by (simp add: rotation_inv_def)
  obtain p where p: "d_file d ''UNSUBSCRIBE_TOKEN_SECRET'' = Some p" "p \<noteq> []" by (rule gate_primary [OF gate])
  note known = promote_knows [OF gate Promote(3)]
  from Promote(4) show ?case
    by (rule rotation_inv_grow)
      (use known Promote candidates [where env = "d_file d", OF p] in \<open>auto simp: shared_secrets_def rotation_inv_def\<close>)
qed

lemma rotation_inv_reachable: "rotation_reachable hmac env d \<Longrightarrow> rotation_inv hmac d"
proof (induction rule: rotation_reachable.induct)
  case Deployed
  obtain p where p: "env ''UNSUBSCRIBE_TOKEN_SECRET'' = Some p" "p \<noteq> []" by (rule gate_primary [OF Deployed])
  show ?case using Deployed candidates [where env = env, OF p] by (simp add: rotation_inv_def shared_secrets_def)
next
  case (Stepped d d')
  then show ?case using rotation_inv_step by blast
qed

definition read_back :: "UnsubscribeTokenPayload \<Rightarrow> VerifiedToken" where
  "read_back p = \<lparr>vt_sendId = tok_sendId p, vt_contactId = tok_contactId p, vt_workspaceId = tok_workspaceId p,
     vt_exp = of_nat (tok_exp p)\<rparr>"

text \<open>C34: However an operator rotates the secret by the runbook, and whichever of the two processes restarts first, every link ever mailed still verifies in both and gives the payload it was signed with.\<close>

theorem link_survives_rotation:
  assumes "digest_bytes hmac" "rotation_reachable hmac env d" "(token, p) \<in> set (d_mailed d)"
  shows "verifyUnsubscribeToken hmac (d_api d) token = Some (read_back p)
    \<and> verifyUnsubscribeToken hmac (d_worker d) token = Some (read_back p)"
proof -
  obtain s where s: "s \<in> shared_secrets d" "link_of hmac (token, p) s"
    using rotation_inv_reachable [OF assms(2)] assms(3) by (auto simp: rotation_inv_def)
  from s(2) obtain env0 where "signUnsubscribeToken hmac env0 p = Inr token" "getPrimarySecret env0 = Inr s"
    by (auto simp: link_of_def)
  then have "verifyUnsubscribeToken hmac e token = Some (read_back p)" if "s \<in> set (candidate_list e)" for e
    using signed_token_verifies [OF assms(1) _ _ that] by (simp add: read_back_def)
  then show ?thesis using s(1) by (simp add: shared_secrets_def)
qed

end
