(* ===== verification/Suppression_Hash.thy ===== *)
theory Suppression_Hash
  imports Crm_Tables
begin

text \<open>
  The suppression list's keys: \<open>packages/contacts-core/src/suppression-hash.ts\<close>, and the check that
  reads the list (\<open>isEmailSuppressed\<close> in \<open>contact-repository.ts\<close>). A workspace's key is stored wrapped by
  the key-management service and cached unwrapped in the process. The database rolls back with its
  transaction and the cache does not: a state has both. The key-management service, \<open>randomBytes\<close> and
  \<open>createHmac\<close> are the fields of \<open>crypto\<close>; a key is the text of its base64 form. Case mapping and white
  space are those of ASCII.
\<close>

section \<open>Addresses\<close>

definition lower_char :: "char \<Rightarrow> char" where
  "lower_char c = (if 65 \<le> (of_char c :: nat) \<and> (of_char c :: nat) \<le> 90 then char_of (of_char c + 32 :: nat) else c)"

definition to_lower :: "string \<Rightarrow> string" where
  "to_lower = map lower_char"

definition normalizeSuppressionEmail :: "string \<Rightarrow> string" where
  "normalizeSuppressionEmail email = to_lower (js_trim email)"

record crypto =
  cr_decrypt :: "uuid \<Rightarrow> EncryptedSecret \<Rightarrow> string option"
  cr_encrypt :: "uuid \<Rightarrow> string \<Rightarrow> EncryptedSecret option"
  cr_random :: string
  cr_hmac :: "string \<Rightarrow> string \<Rightarrow> string"

definition hashSuppressionEmail :: "crypto \<Rightarrow> string \<Rightarrow> string \<Rightarrow> string" where
  "hashSuppressionEmail cr normalizedEmail keyMaterial = cr_hmac cr keyMaterial normalizedEmail"

section \<open>The cache\<close>

definition SUPPRESSION_KEY_CACHE_TTL_MS :: int where
  "SUPPRESSION_KEY_CACHE_TTL_MS = 300000"

record CacheEntry =
  ce_key :: string
  ce_expiresAt :: instant

type_synonym key_cache = "uuid \<rightharpoonup> CacheEntry"

definition cacheGet :: "instant \<Rightarrow> uuid \<Rightarrow> key_cache \<Rightarrow> key_cache \<times> string option" where
  "cacheGet now workspaceId keyCache =
     (case keyCache workspaceId of
        None \<Rightarrow> (keyCache, None)
      | Some entry \<Rightarrow>
          if ce_expiresAt entry \<le> now then (keyCache(workspaceId := None), None)
          else (keyCache, Some (ce_key entry)))"

definition cacheSet :: "instant \<Rightarrow> uuid \<Rightarrow> string \<Rightarrow> key_cache \<Rightarrow> key_cache" where
  "cacheSet now workspaceId key keyCache =
     keyCache(workspaceId \<mapsto> \<lparr>ce_key = key, ce_expiresAt = now + SUPPRESSION_KEY_CACHE_TTL_MS\<rparr>)"

definition clearSuppressionKeyCache :: "key_cache \<Rightarrow> key_cache" where
  "clearSuppressionKeyCache keyCache = Map.empty"

section \<open>The keys\<close>

record keyed =
  k_db :: crm
  k_cache :: key_cache

datatype key_error = DecryptFailed | EncryptFailed | KeyNotFoundAfterInsert

text \<open>A failure leaves the cache as it is at that point.\<close>

type_synonym 'a keyed_result = "(key_error \<times> key_cache) + 'a"

definition readWrappedKeyRow :: "uuid \<Rightarrow> crm \<Rightarrow> EncryptedSecret option" where
  "readWrappedKeyRow workspaceId db = t_suppressionKeys db workspaceId"

definition loadWorkspaceSuppressionKey ::
  "crypto \<Rightarrow> instant \<Rightarrow> uuid \<Rightarrow> keyed \<Rightarrow> (keyed \<times> string option) keyed_result" where
  "loadWorkspaceSuppressionKey cr now workspaceId s =
     (case cacheGet now workspaceId (k_cache s) of
        (cache, Some key) \<Rightarrow> Inr (s\<lparr>k_cache := cache\<rparr>, Some key)
      | (cache, None) \<Rightarrow>
          (case readWrappedKeyRow workspaceId (k_db s) of
             None \<Rightarrow> Inr (s\<lparr>k_cache := cache\<rparr>, None)
           | Some row \<Rightarrow>
               (case cr_decrypt cr workspaceId row of
                  None \<Rightarrow> Inl (DecryptFailed, cache)
                | Some key \<Rightarrow> Inr (s\<lparr>k_cache := cacheSet now workspaceId key cache\<rparr>, Some key))))"

text \<open>\<open>ON CONFLICT (workspace_id) DO NOTHING\<close>.\<close>

definition store_key :: "uuid \<Rightarrow> EncryptedSecret \<Rightarrow> crm \<Rightarrow> crm" where
  "store_key workspaceId sealed db =
     (if t_suppressionKeys db workspaceId = None
      then db\<lparr>t_suppressionKeys := (t_suppressionKeys db)(workspaceId \<mapsto> sealed)\<rparr> else db)"

definition ensureWorkspaceSuppressionKey ::
  "crypto \<Rightarrow> instant \<Rightarrow> uuid \<Rightarrow> keyed \<Rightarrow> (keyed \<times> string) keyed_result" where
  "ensureWorkspaceSuppressionKey cr now workspaceId s =
     (case loadWorkspaceSuppressionKey cr now workspaceId s of
        Inl e \<Rightarrow> Inl e
      | Inr (s1, Some existing) \<Rightarrow> Inr (s1, existing)
      | Inr (s1, None) \<Rightarrow>
          (case cr_encrypt cr workspaceId (cr_random cr) of
             None \<Rightarrow> Inl (EncryptFailed, k_cache s1)
           | Some sealed \<Rightarrow>
               (case loadWorkspaceSuppressionKey cr now workspaceId
                       (s1\<lparr>k_db := store_key workspaceId sealed (k_db s1)\<rparr>) of
                  Inl e \<Rightarrow> Inl e
                | Inr (s2, None) \<Rightarrow> Inl (KeyNotFoundAfterInsert, k_cache s2)
                | Inr (s2, Some stored) \<Rightarrow> Inr (s2, stored))))"

definition isEmailSuppressed ::
  "crypto \<Rightarrow> instant \<Rightarrow> uuid \<Rightarrow> string \<Rightarrow> keyed \<Rightarrow> (keyed \<times> bool) keyed_result" where
  "isEmailSuppressed cr now workspaceId email s =
     (case loadWorkspaceSuppressionKey cr now workspaceId s of
        Inl e \<Rightarrow> Inl e
      | Inr (s1, None) \<Rightarrow> Inr (s1, False)
      | Inr (s1, Some key) \<Rightarrow>
          (let hash = hashSuppressionEmail cr (normalizeSuppressionEmail email) key
           in Inr (s1, \<exists>r \<in> set (t_suppressions (k_db s1)).
                sup_workspaceId r = workspaceId \<and> sup_emailHash r = hash)))"

section \<open>The contract of the keys\<close>

text \<open>What the writers of the list rely on: an ensured key is the one that is loaded from then on, and
  a key that can be loaded is never replaced.\<close>

locale key_store =
  fixes load :: "'s \<Rightarrow> ('e + ('s \<times> 'k option))"
    and ensure :: "'s \<Rightarrow> ('e + ('s \<times> 'k))"
  assumes ensure_loads: "ensure s = Inr (s', k) \<Longrightarrow> load s' = Inr (s', Some k)"
    and load_ensures: "load s = Inr (s', Some k) \<Longrightarrow> ensure s = Inr (s', k)"
begin

lemma ensure_again: "ensure s = Inr (s', k) \<Longrightarrow> ensure s' = Inr (s', k)"
  by (rule load_ensures [OF ensure_loads])

end

lemma cacheGet_set: "cacheGet now w (cacheSet now w k c) = (cacheSet now w k c, Some k)"
  by (simp add: cacheGet_def cacheSet_def SUPPRESSION_KEY_CACHE_TTL_MS_def)

lemma cacheGet_hit: "cacheGet now w c = (c', Some k) \<Longrightarrow> cacheGet now w c' = (c', Some k)"
  by (auto simp: cacheGet_def split: option.splits if_splits)

lemma load_again:
  "loadWorkspaceSuppressionKey cr now w s = Inr (s', Some k) \<Longrightarrow>
   loadWorkspaceSuppressionKey cr now w s' = Inr (s', Some k)"
  by (auto simp: loadWorkspaceSuppressionKey_def cacheGet_set dest: cacheGet_hit
      split: prod.splits option.splits)

lemma ensure_load:
  assumes "ensureWorkspaceSuppressionKey cr now w s = Inr (s', k)"
  shows "\<exists>t. loadWorkspaceSuppressionKey cr now w t = Inr (s', Some k)"
  using assms by (auto simp: ensureWorkspaceSuppressionKey_def split: sum.splits option.splits prod.splits)

interpretation suppression_keys: key_store
  "loadWorkspaceSuppressionKey cr now w" "ensureWorkspaceSuppressionKey cr now w" for cr now w
proof
  fix s s' k
  assume "ensureWorkspaceSuppressionKey cr now w s = Inr (s', k)"
  then obtain t where "loadWorkspaceSuppressionKey cr now w t = Inr (s', Some k)"
    using ensure_load by blast
  then show "loadWorkspaceSuppressionKey cr now w s' = Inr (s', Some k)" by (rule load_again)
qed (simp add: ensureWorkspaceSuppressionKey_def)

section \<open>A key that is rolled back\<close>

lemma new_key_is_cached:
  assumes "ensureWorkspaceSuppressionKey cr now w s = Inr (s1, key)" "snd (cacheGet now w (k_cache s)) = None"
    and "t_suppressionKeys (k_db s) w = None"
  shows "k_cache s1 w = Some \<lparr>ce_key = key, ce_expiresAt = now + SUPPRESSION_KEY_CACHE_TTL_MS\<rparr>"
proof -
  obtain c where c: "cacheGet now w (k_cache s) = (c, None)" using assms(2) by (cases "cacheGet now w (k_cache s)") simp
  then have "c w = None" by (auto simp: cacheGet_def split: option.splits if_splits)
  then have "cacheGet now w c = (c, None)" by (simp add: cacheGet_def)
  then show ?thesis
    using assms(1,3) c
    by (auto simp: ensureWorkspaceSuppressionKey_def loadWorkspaceSuppressionKey_def readWrappedKeyRow_def store_key_def
        cacheSet_def split: option.splits)
qed

text \<open>The key of a transaction that rolls back: the process goes on hashing under it, while no process without it can
  tell that an address is suppressed.\<close>

theorem rolled_back_key_stays_in_use:
  assumes "ensureWorkspaceSuppressionKey cr now w s = Inr (s1, key)" "snd (cacheGet now w (k_cache s)) = None"
    and "t_suppressionKeys (k_db s) w = None" "s2 = s\<lparr>k_cache := k_cache s1\<rparr>"
    and "now \<le> t" "t < now + SUPPRESSION_KEY_CACHE_TTL_MS"
  shows "ensureWorkspaceSuppressionKey cr t w s2 = Inr (s2, key) \<and> t_suppressionKeys (k_db s2) w = None
    \<and> isEmailSuppressed cr t w email (s2\<lparr>k_cache := Map.empty\<rparr>) = Inr (s2\<lparr>k_cache := Map.empty\<rparr>, False)"
proof -
  have "cacheGet t w (k_cache s2) = (k_cache s2, Some key)"
    using new_key_is_cached [OF assms(1-3)] assms(4,6) by (simp add: cacheGet_def)
  then show ?thesis
    using assms(3,4)
    by (simp add: ensureWorkspaceSuppressionKey_def loadWorkspaceSuppressionKey_def isEmailSuppressed_def
        readWrappedKeyRow_def cacheGet_def)
qed

end
