(* ===== verification/Event_Facts.thy ===== *)
theory Event_Facts
  imports Suppression_Hash
begin

text \<open>
  What a delivery event writes: the fact columns of a send and the campaign counters
  (\<open>packages/db/src/sends/fact-columns.ts\<close>), the daily rollup (\<open>packages/db/src/analytics/daily-rollup.ts\<close>), the consent
  history and the unsubscription (\<open>packages/contacts-core/src/subscription-status-history.ts\<close>,
  \<open>unsubscribe-apply.ts\<close>). Every statement runs in the transaction of one workspace, whose rows are all it
  sees.
\<close>

section \<open>Fact columns\<close>

datatype FactColumn =
    DeliveredAt
  | FirstOpenedAt
  | FirstClickedAt
  | BouncedAt
  | DroppedAt
  | SpamReportedAt
  | UnsubscribedAt

fun fact_of :: "FactColumn \<Rightarrow> DeliveryFacts \<Rightarrow> instant option" where
  "fact_of DeliveredAt f = deliveredAt f"
| "fact_of FirstOpenedAt f = firstOpenedAt f"
| "fact_of FirstClickedAt f = firstClickedAt f"
| "fact_of BouncedAt f = bouncedAt f"
| "fact_of DroppedAt f = droppedAt f"
| "fact_of SpamReportedAt f = spamReportedAt f"
| "fact_of UnsubscribedAt f = unsubscribedAt f"

fun set_fact :: "FactColumn \<Rightarrow> instant \<Rightarrow> DeliveryFacts \<Rightarrow> DeliveryFacts" where
  "set_fact DeliveredAt t f = f\<lparr>deliveredAt := Some t\<rparr>"
| "set_fact FirstOpenedAt t f = f\<lparr>firstOpenedAt := Some t\<rparr>"
| "set_fact FirstClickedAt t f = f\<lparr>firstClickedAt := Some t\<rparr>"
| "set_fact BouncedAt t f = f\<lparr>bouncedAt := Some t\<rparr>"
| "set_fact DroppedAt t f = f\<lparr>droppedAt := Some t\<rparr>"
| "set_fact SpamReportedAt t f = f\<lparr>spamReportedAt := Some t\<rparr>"
| "set_fact UnsubscribedAt t f = f\<lparr>unsubscribedAt := Some t\<rparr>"

datatype ReasonWrite = BounceReason "string option" | DropReason "string option"

fun write_reason :: "ReasonWrite option \<Rightarrow> send_row \<Rightarrow> send_row" where
  "write_reason None r = r"
| "write_reason (Some (BounceReason x)) r = r\<lparr>s_bounceReason := x\<rparr>"
| "write_reason (Some (DropReason x)) r = r\<lparr>s_dropReason := x\<rparr>"

definition write_fact :: "FactColumn \<Rightarrow> instant \<Rightarrow> ReasonWrite option \<Rightarrow> send_row \<Rightarrow> send_row" where
  "write_fact col occurredAt reason r = write_reason reason (r\<lparr>s_facts := set_fact col occurredAt (s_facts r)\<rparr>)"

definition fact_unset :: "uuid \<Rightarrow> uuid \<Rightarrow> FactColumn \<Rightarrow> send_row \<Rightarrow> bool" where
  "fact_unset tenant sendId col r = (visible_id tenant sendId r \<and> fact_of col (s_facts r) = None)"

definition setFactColumnOnce ::
  "uuid \<Rightarrow> uuid \<Rightarrow> FactColumn \<Rightarrow> instant \<Rightarrow> ReasonWrite option \<Rightarrow> crm \<Rightarrow> crm \<times> bool" where
  "setFactColumnOnce tenant sendId col occurredAt reason db =
     (db\<lparr>l_sends := update_where (fact_unset tenant sendId col) (write_fact col occurredAt reason) (l_sends db)\<rparr>,
      row_count (fact_unset tenant sendId col) (l_sends db) > 0)"

datatype CampaignCounter = DeliveredCount | OpenedCount | ClickedCount | BouncedCount | UnsubscribedCount

fun bump_campaign :: "CampaignCounter \<Rightarrow> campaign_row \<Rightarrow> campaign_row" where
  "bump_campaign DeliveredCount c = c\<lparr>c_deliveredCount := c_deliveredCount c + 1\<rparr>"
| "bump_campaign OpenedCount c = c\<lparr>c_openedCount := c_openedCount c + 1\<rparr>"
| "bump_campaign ClickedCount c = c\<lparr>c_clickedCount := c_clickedCount c + 1\<rparr>"
| "bump_campaign BouncedCount c = c\<lparr>c_bouncedCount := c_bouncedCount c + 1\<rparr>"
| "bump_campaign UnsubscribedCount c = c\<lparr>c_unsubscribedCount := c_unsubscribedCount c + 1\<rparr>"

definition incrementCampaignCounter :: "uuid \<Rightarrow> instant \<Rightarrow> uuid \<Rightarrow> CampaignCounter \<Rightarrow> crm \<Rightarrow> crm" where
  "incrementCampaignCounter tenant now campaignId col db =
     db\<lparr>l_campaigns := update_where (visible_campaign tenant campaignId)
          (\<lambda>c. (bump_campaign col c)\<lparr>c_updatedAt := now\<rparr>) (l_campaigns db)\<rparr>"

section \<open>The daily rollup\<close>

datatype RollupMetric = RSent | RDelivered | ROpened | RClicked | RBounced | RUnsubscribed

fun bump_rollup :: "RollupMetric \<Rightarrow> rollup_row \<Rightarrow> rollup_row" where
  "bump_rollup RSent r = r\<lparr>ru_sentCount := ru_sentCount r + 1\<rparr>"
| "bump_rollup RDelivered r = r\<lparr>ru_deliveredCount := ru_deliveredCount r + 1\<rparr>"
| "bump_rollup ROpened r = r\<lparr>ru_openedCount := ru_openedCount r + 1\<rparr>"
| "bump_rollup RClicked r = r\<lparr>ru_clickedCount := ru_clickedCount r + 1\<rparr>"
| "bump_rollup RBounced r = r\<lparr>ru_bouncedCount := ru_bouncedCount r + 1\<rparr>"
| "bump_rollup RUnsubscribed r = r\<lparr>ru_unsubscribedCount := ru_unsubscribedCount r + 1\<rparr>"

text \<open>\<open>occurredAt.slice(0, 10)\<close> of a UTC ISO string: the number of its day.\<close>

definition utc_day :: "instant \<Rightarrow> int" where
  "utc_day t = t div day_ms"

definition isNotToday :: "int \<Rightarrow> instant \<Rightarrow> bool" where
  "isNotToday day now = (day \<noteq> utc_day now)"

definition empty_rollup :: "uuid \<Rightarrow> int \<Rightarrow> instant \<Rightarrow> rollup_row" where
  "empty_rollup workspaceId day now =
     \<lparr>ru_workspaceId = workspaceId, ru_day = day, ru_sentCount = 0, ru_deliveredCount = 0, ru_openedCount = 0,
      ru_clickedCount = 0, ru_bouncedCount = 0, ru_unsubscribedCount = 0, ru_dirtiedAt = None, ru_updatedAt = now\<rparr>"

definition rollup_is :: "uuid \<Rightarrow> int \<Rightarrow> rollup_row \<Rightarrow> bool" where
  "rollup_is workspaceId day r = (ru_workspaceId r = workspaceId \<and> ru_day r = day)"

definition incrementWorkspaceDailyRollup :: "uuid \<Rightarrow> instant \<Rightarrow> RollupMetric \<Rightarrow> instant \<Rightarrow> crm \<Rightarrow> crm" where
  "incrementWorkspaceDailyRollup workspaceId occurredAt metric now db =
     (let day = utc_day occurredAt;
          bump = (\<lambda>r. (bump_rollup metric r)
            \<lparr>ru_dirtiedAt := (if isNotToday day now then coalesce (ru_dirtiedAt r) (Some now) else ru_dirtiedAt r),
             ru_updatedAt := now\<rparr>)
      in db\<lparr>t_rollups :=
           (if \<exists>r \<in> set (t_rollups db). rollup_is workspaceId day r
            then update_where (rollup_is workspaceId day) bump (t_rollups db)
            else t_rollups db @ [bump (empty_rollup workspaceId day now)])\<rparr>)"

section \<open>Consent\<close>

datatype SubscriptionStatusChangeSource =
  WebhookSuppression | WebhookUnsubscribe | UnsubscribeRoute | ManualUi | CsvOrApiUpsert

fun source_name :: "SubscriptionStatusChangeSource \<Rightarrow> string" where
  "source_name WebhookSuppression = ''webhook_suppression''"
| "source_name WebhookUnsubscribe = ''webhook_unsubscribe''"
| "source_name UnsubscribeRoute = ''unsubscribe_route''"
| "source_name ManualUi = ''manual_ui''"
| "source_name CsvOrApiUpsert = ''csv_or_api_upsert''"

definition recordSubscriptionStatusChange ::
  "uuid \<Rightarrow> uuid \<Rightarrow> string option \<Rightarrow> string \<Rightarrow> SubscriptionStatusChangeSource \<Rightarrow> string option \<Rightarrow> instant \<Rightarrow> crm \<Rightarrow> crm" where
  "recordSubscriptionStatusChange workspaceId contactId oldStatus newStatus source reason now db =
     db\<lparr>t_history := t_history db
          @ [\<lparr>h_workspaceId = workspaceId, h_contactId = contactId, h_oldStatus = oldStatus,
              h_newStatus = newStatus, h_source = source_name source, h_reason = reason, h_changedAt = now\<rparr>]\<rparr>"

definition contact_is :: "uuid \<Rightarrow> uuid \<Rightarrow> contact_row \<Rightarrow> bool" where
  "contact_is tenant contactId c = (ct_workspaceId c = tenant \<and> ct_id c = contactId)"

definition write_contact :: "uuid \<Rightarrow> uuid \<Rightarrow> (contact_row \<Rightarrow> contact_row) \<Rightarrow> crm \<Rightarrow> crm" where
  "write_contact tenant contactId g db =
     db\<lparr>t_contacts := update_where (contact_is tenant contactId) g (t_contacts db)\<rparr>"

text \<open>\<open>UUID_RE\<close>: 8-4-4-4-12 hexadecimal digits of either case.\<close>

definition is_hex :: "char \<Rightarrow> bool" where
  "is_hex c = (digit_val c < 16)"

definition uuid_shaped :: "string \<Rightarrow> bool" where
  "uuid_shaped s =
     (length s = 36
      \<and> list_all (\<lambda>(i, c). if i \<in> set [8, 13, 18, 23] then c = CHR ''-'' else is_hex c) (enumerate 0 s))"

record ApplyUnsubscribeResult =
  statusChanged :: bool
  sendFactJustSet :: bool
  au_campaignId :: "uuid option"

definition resolve_send :: "uuid \<Rightarrow> uuid \<Rightarrow> crm \<Rightarrow> send_row option" where
  "resolve_send tenant sendId db = find (visible_id tenant sendId) (l_sends db)"

definition prior_status :: "uuid \<Rightarrow> uuid \<Rightarrow> crm \<Rightarrow> SubscriptionStatus option" where
  "prior_status tenant contactId db = map_option ct_subscriptionStatus (find (contact_is tenant contactId) (t_contacts db))"

text \<open>A change of status with its history row; writing the status again writes neither.\<close>

definition change_status ::
  "uuid \<Rightarrow> uuid \<Rightarrow> SubscriptionStatus \<Rightarrow> SubscriptionStatusChangeSource \<Rightarrow> instant \<Rightarrow> crm \<Rightarrow> crm \<times> bool" where
  "change_status tenant contactId new source now db =
     (case prior_status tenant contactId db of
        None \<Rightarrow> (db, False)
      | Some prior \<Rightarrow>
          if prior = new then (db, False)
          else (recordSubscriptionStatusChange tenant contactId (Some (status_name prior)) (status_name new) source
                  None now
                  (write_contact tenant contactId (\<lambda>c. c\<lparr>ct_subscriptionStatus := new, ct_updatedAt := now\<rparr>) db),
                True))"

definition applyUnsubscribeWithSendFact ::
  "uuid \<Rightarrow> uuid option \<Rightarrow> uuid option \<Rightarrow> instant \<Rightarrow> SubscriptionStatusChangeSource \<Rightarrow> instant \<Rightarrow> crm
     \<Rightarrow> crm \<times> ApplyUnsubscribeResult" where
  "applyUnsubscribeWithSendFact workspaceId contactId sendId occurredAt source now db =
     (let resolvedSend = Option.bind sendId (\<lambda>i. resolve_send workspaceId i db);
          campaignId = Option.bind resolvedSend s_campaignId;
          effectiveContactId = coalesce contactId (map_option s_contactId resolvedSend)
      in (case effectiveContactId of
            None \<Rightarrow> (db, \<lparr>statusChanged = False, sendFactJustSet = False, au_campaignId = campaignId\<rparr>)
          | Some c \<Rightarrow>
              if \<not> uuid_shaped c
              then (db, \<lparr>statusChanged = False, sendFactJustSet = False, au_campaignId = campaignId\<rparr>)
              else
                let (db1, changed) = change_status workspaceId c StUnsubscribed source now db;
                    (db2, justSet) = (case resolvedSend of
                        None \<Rightarrow> (db1, False)
                      | Some r \<Rightarrow> setFactColumnOnce workspaceId (s_id r) UnsubscribedAt occurredAt None db1)
                in (db2, \<lparr>statusChanged = changed, sendFactJustSet = justSet, au_campaignId = campaignId\<rparr>)))"

end
