(* ===== verification/Webhook_Events.thy ===== *)
theory Webhook_Events
  imports Event_Facts
begin

text \<open>
  The ingestion of the provider's event webhook: \<open>apps/worker/src/queues/webhook-events.worker.ts\<close> with
  \<open>packages/delivery-core/src/occurred-at-bounds.ts\<close>, \<open>packages/db/src/webhooks/quarantine.ts\<close> and the completion
  mark of \<open>ingress-journal.ts\<close>. A batch is one transaction, after a look at the owners of its sends across
  workspaces. \<open>render\<close> stands for \<open>String(number)\<close> and \<open>JSON.stringify\<close>. A numeric timestamp is an exact rational.
  A month's partition is taken to exist.
\<close>

section \<open>The bounds of a timestamp\<close>

definition MAX_DATE_TIME_VALUE_MS :: rat where
  "MAX_DATE_TIME_VALUE_MS = 8640000000000000"

definition OCCURRED_AT_MAX_PAST_DAYS :: int where
  "OCCURRED_AT_MAX_PAST_DAYS = 7"

definition OCCURRED_AT_MAX_FUTURE_SKEW_MINUTES :: int where
  "OCCURRED_AT_MAX_FUTURE_SKEW_MINUTES = 5"

datatype OccurredAtVerdict =
    AtAccepted (at_occurredAt: instant)
  | AtRejected (at_reason: string) (at_candidate: js)
  | AtUnusable (at_reason: string) (at_candidate: js)

text \<open>\<open>new Date(ms)\<close> drops the fraction of a millisecond towards zero.\<close>

definition time_clip :: "rat \<Rightarrow> instant" where
  "time_clip q = (if 0 \<le> q then \<lfloor>q\<rfloor> else \<lceil>q\<rceil>)"

definition classifyOccurredAt :: "js \<Rightarrow> instant \<Rightarrow> OccurredAtVerdict" where
  "classifyOccurredAt timestamp now =
     (case timestamp of
        JUndefined \<Rightarrow> AtUnusable ''missing'' timestamp
      | JNull \<Rightarrow> AtUnusable ''missing'' timestamp
      | JNum (Fin q) \<Rightarrow>
          (let candidateMs = q * 1000;
               pastBoundMs = now - OCCURRED_AT_MAX_PAST_DAYS * 24 * 60 * 60 * 1000;
               futureBoundMs = now + OCCURRED_AT_MAX_FUTURE_SKEW_MINUTES * 60 * 1000
           in if \<bar>candidateMs\<bar> > MAX_DATE_TIME_VALUE_MS then AtUnusable ''out_of_date_range'' timestamp
              else if candidateMs < of_int pastBoundMs then AtRejected ''too_old'' timestamp
              else if candidateMs > of_int futureBoundMs then AtRejected ''too_far_future'' timestamp
              else AtAccepted (time_clip candidateMs))
      | _ \<Rightarrow> AtUnusable ''non_finite'' timestamp)"

section \<open>Extraction\<close>

record ExtractedEventRow =
  ex_sgEventId :: string
  ex_sendId :: "uuid option"
  ex_eventType :: string
  ex_reason :: "string option"
  ex_payload :: js
  ex_isTest :: bool
  ex_occurredAt :: instant
  ex_normalizedType :: "NormalizedEventType option"

record QuarantineCandidate =
  qc_sgEventId :: string
  qc_eventType :: "string option"
  qc_rawEvent :: js
  qc_reason :: string
  qc_occurredAtCandidate :: "string option"

datatype ExtractEventOutcome = Extracted ExtractedEventRow | Quarantined QuarantineCandidate | Skipped

fun stringifyOccurredAtCandidate :: "(js \<Rightarrow> string) \<Rightarrow> js \<Rightarrow> string option" where
  "stringifyOccurredAtCandidate render JUndefined = None"
| "stringifyOccurredAtCandidate render JNull = None"
| "stringifyOccurredAtCandidate render (JStr s) = Some s"
| "stringifyOccurredAtCandidate render (JBool b) = Some (if b then ''true'' else ''false'')"
| "stringifyOccurredAtCandidate render v = Some (render v)"

fun js_string :: "js \<Rightarrow> string option" where
  "js_string (JStr s) = Some s"
| "js_string _ = None"

definition extractEventRow :: "(js \<Rightarrow> string) \<Rightarrow> js \<Rightarrow> instant \<Rightarrow> ExtractEventOutcome" where
  "extractEventRow render raw now =
     (if \<not> js_is_object raw then Skipped
      else
        let sgEventId = (case js_string (js_get raw ''sg_event_id'') of None \<Rightarrow> [] | Some t \<Rightarrow> js_trim t)
        in if sgEventId = [] then Skipped
           else
             let eventType = nullish (js_string (js_get raw ''event'')) ''unknown'';
                 verdict = classifyOccurredAt (js_get raw ''timestamp'') now
             in (case verdict of
                   AtAccepted occurredAt \<Rightarrow>
                     (let customArgs = js_get raw ''custom_args'';
                          rawSendId = coalesce (js_string (js_get raw ''send_id'')) (js_string (js_get customArgs ''send_id''));
                          sendId = (case rawSendId of None \<Rightarrow> None | Some i \<Rightarrow> if uuid_shaped i then Some i else None);
                          isTest = (js_get raw ''test'' = JStr ''true'' \<or> js_get customArgs ''test'' = JStr ''true'')
                      in Extracted
                           \<lparr>ex_sgEventId = sgEventId, ex_sendId = sendId, ex_eventType = eventType,
                            ex_reason = js_string (js_get raw ''reason''), ex_payload = raw, ex_isTest = isTest,
                            ex_occurredAt = occurredAt,
                            ex_normalizedType = normalizeEventType eventType (js_string (js_get raw ''type''))\<rparr>)
                 | v \<Rightarrow>
                     Quarantined
                       \<lparr>qc_sgEventId = sgEventId, qc_eventType = js_string (js_get raw ''event''), qc_rawEvent = raw,
                        qc_reason = at_reason v,
                        qc_occurredAtCandidate = stringifyOccurredAtCandidate render (at_candidate v)\<rparr>))"

fun extracted_rows :: "ExtractEventOutcome list \<Rightarrow> ExtractedEventRow list" where
  "extracted_rows [] = []"
| "extracted_rows (Extracted r # os) = r # extracted_rows os"
| "extracted_rows (_ # os) = extracted_rows os"

fun quarantine_candidates :: "ExtractEventOutcome list \<Rightarrow> QuarantineCandidate list" where
  "quarantine_candidates [] = []"
| "quarantine_candidates (Quarantined q # os) = q # quarantine_candidates os"
| "quarantine_candidates (_ # os) = quarantine_candidates os"

section \<open>Sibling workspaces\<close>

definition candidateSendIds :: "ExtractedEventRow list \<Rightarrow> uuid list" where
  "candidateSendIds rows = concat (map (\<lambda>r. case ex_sendId r of None \<Rightarrow> [] | Some i \<Rightarrow> [i]) rows)"

text \<open>\<open>WHERE id = ANY($1::uuid[])\<close>: the database reads a uuid in either case and writes it in lower case.\<close>

definition matches_any :: "uuid list \<Rightarrow> uuid \<Rightarrow> bool" where
  "matches_any ids i = (i \<in> set (map to_lower ids))"

definition ownerBySendId :: "crm \<Rightarrow> uuid list \<Rightarrow> uuid \<rightharpoonup> uuid" where
  "ownerBySendId db ids = map_of (map (\<lambda>s. (s_id s, s_workspaceId s)) (filter (\<lambda>s. matches_any ids (s_id s)) (l_sends db)))"

definition dropSiblingWorkspaceEvents :: "crm \<Rightarrow> uuid \<Rightarrow> ExtractedEventRow list \<Rightarrow> ExtractedEventRow list" where
  "dropSiblingWorkspaceEvents db workspaceId rows =
     (let owners = ownerBySendId db (candidateSendIds rows)
      in filter (\<lambda>row. case ex_sendId row of
                    None \<Rightarrow> True
                  | Some i \<Rightarrow> (case owners i of None \<Rightarrow> True | Some w \<Rightarrow> w = workspaceId)) rows)"

section \<open>The writes\<close>

definition isFirstNonDeliveryTerminal :: "uuid \<Rightarrow> uuid \<Rightarrow> crm \<Rightarrow> bool" where
  "isFirstNonDeliveryTerminal tenant sendId db =
     (case resolve_send tenant sendId db of
        None \<Rightarrow> False
      | Some r \<Rightarrow>
          length (filter (\<lambda>col. fact_of col (s_facts r) \<noteq> None) [BouncedAt, DroppedAt, SpamReportedAt]) = 1)"

definition insert_suppression :: "instant \<Rightarrow> uuid \<Rightarrow> string \<Rightarrow> string \<Rightarrow> crm \<Rightarrow> crm" where
  "insert_suppression now workspaceId hash reason db =
     (if \<exists>r \<in> set (t_suppressions db). sup_workspaceId r = workspaceId \<and> sup_emailHash r = hash then db
      else db\<lparr>t_suppressions := t_suppressions db
               @ [\<lparr>sup_workspaceId = workspaceId, sup_emailHash = hash, sup_reason = reason,
                   sup_suppressedAt = now, sup_source = None\<rparr>]\<rparr>)"

definition applySuppression ::
  "crypto \<Rightarrow> instant \<Rightarrow> uuid \<Rightarrow> uuid \<Rightarrow> string \<Rightarrow> keyed \<Rightarrow> keyed keyed_result" where
  "applySuppression cr now workspaceId contactId reason s =
     (let prior = prior_status workspaceId contactId (k_db s);
          email = Option.bind (find (contact_is workspaceId contactId) (t_contacts (k_db s))) ct_email;
          s1 = s\<lparr>k_db := write_contact workspaceId contactId
                   (\<lambda>c. c\<lparr>ct_subscriptionStatus := StSuppressed, ct_updatedAt := now\<rparr>) (k_db s)\<rparr>;
          history = (\<lambda>s. case prior of
              None \<Rightarrow> s
            | Some p \<Rightarrow>
                if p = StSuppressed then s
                else s\<lparr>k_db := recordSubscriptionStatusChange workspaceId contactId (Some (status_name p))
                         (status_name StSuppressed) WebhookSuppression (Some reason) now (k_db s)\<rparr>)
      in if truthy email
         then (case ensureWorkspaceSuppressionKey cr now workspaceId s1 of
                 Inl e \<Rightarrow> Inl e
               | Inr (s2, key) \<Rightarrow>
                   Inr (history (s2\<lparr>k_db := insert_suppression now workspaceId
                     (hashSuppressionEmail cr (normalizeSuppressionEmail (the email)) key) reason (k_db s2)\<rparr>)))
         else Inr (history s1))"

definition on_kdb :: "(crm \<Rightarrow> crm) \<Rightarrow> keyed \<Rightarrow> keyed" where
  "on_kdb f s = s\<lparr>k_db := f (k_db s)\<rparr>"

definition bump_if_campaign :: "uuid \<Rightarrow> instant \<Rightarrow> uuid option \<Rightarrow> CampaignCounter \<Rightarrow> crm \<Rightarrow> crm" where
  "bump_if_campaign w now campaignId col db =
     (case campaignId of None \<Rightarrow> db | Some c \<Rightarrow> if c = [] then db else incrementCampaignCounter w now c col db)"

text \<open>The first write of a fact, with its counters; \<open>more\<close> is what else the event does.\<close>

definition count_fact ::
  "uuid \<Rightarrow> instant \<Rightarrow> send_row \<Rightarrow> instant \<Rightarrow> CampaignCounter \<Rightarrow> RollupMetric \<Rightarrow> crm \<Rightarrow> crm" where
  "count_fact w now send occurredAt counter metric db =
     incrementWorkspaceDailyRollup w occurredAt metric now
       (bump_if_campaign w now (s_campaignId send) counter db)"

definition count_terminal :: "uuid \<Rightarrow> instant \<Rightarrow> send_row \<Rightarrow> instant \<Rightarrow> crm \<Rightarrow> crm" where
  "count_terminal w now send occurredAt db =
     (if isFirstNonDeliveryTerminal w (s_id send) db
      then count_fact w now send occurredAt BouncedCount RBounced db else db)"

definition bump_send :: "uuid \<Rightarrow> uuid \<Rightarrow> (send_row \<Rightarrow> send_row) \<Rightarrow> crm \<Rightarrow> crm" where
  "bump_send w sendId g db = db\<lparr>l_sends := update_where (visible_id w sendId) g (l_sends db)\<rparr>"

text \<open>The address is suppressed by a terminal fact that is written for the first time.\<close>

definition terminal_suppression ::
  "crypto \<Rightarrow> uuid \<Rightarrow> instant \<Rightarrow> send_row \<Rightarrow> instant \<Rightarrow> FactColumn \<Rightarrow> ReasonWrite option \<Rightarrow> string \<Rightarrow> keyed
     \<Rightarrow> keyed keyed_result" where
  "terminal_suppression cr w now send occurredAt col reason why s =
     (let (db1, justSet) = setFactColumnOnce w (s_id send) col occurredAt reason (k_db s)
      in if justSet
         then applySuppression cr now w (s_contactId send) why (s\<lparr>k_db := count_terminal w now send occurredAt db1\<rparr>)
         else Inr (s\<lparr>k_db := db1\<rparr>))"

definition unsubscribe_event :: "uuid \<Rightarrow> instant \<Rightarrow> send_row \<Rightarrow> instant \<Rightarrow> crm \<Rightarrow> crm" where
  "unsubscribe_event w now send occurredAt db =
     (let (db1, res) = applyUnsubscribeWithSendFact w (Some (s_contactId send)) (Some (s_id send)) occurredAt
            WebhookUnsubscribe now db
      in if sendFactJustSet res
         then incrementWorkspaceDailyRollup w occurredAt RUnsubscribed now
                (bump_if_campaign w now (au_campaignId res) UnsubscribedCount db1)
         else db1)"

fun applyEventSideEffects ::
  "crypto \<Rightarrow> uuid \<Rightarrow> instant \<Rightarrow> send_row \<Rightarrow> NormalizedEventType \<Rightarrow> string option \<Rightarrow> instant \<Rightarrow> keyed
     \<Rightarrow> keyed keyed_result" where
  "applyEventSideEffects cr w now send Delivered reason occurredAt s =
     Inr (on_kdb (\<lambda>db. let (db1, justSet) = setFactColumnOnce w (s_id send) DeliveredAt occurredAt None db
        in if justSet
           then incrementWorkspaceDailyRollup w occurredAt RDelivered now
                  (write_contact w (s_contactId send) (\<lambda>c. c\<lparr>ct_consecutiveSoftBounces := 0, ct_updatedAt := now\<rparr>)
                    (bump_if_campaign w now (s_campaignId send) DeliveredCount db1))
           else db1) s)"
| "applyEventSideEffects cr w now send Open reason occurredAt s =
     Inr (on_kdb (\<lambda>db. let (db1, justSet) = setFactColumnOnce w (s_id send) FirstOpenedAt occurredAt None db
        in bump_send w (s_id send) (\<lambda>r. r\<lparr>s_openCount := s_openCount r + 1\<rparr>)
             (if justSet then count_fact w now send occurredAt OpenedCount ROpened db1 else db1)) s)"
| "applyEventSideEffects cr w now send Click reason occurredAt s =
     Inr (on_kdb (\<lambda>db. let (db1, justSet) = setFactColumnOnce w (s_id send) FirstClickedAt occurredAt None db
        in bump_send w (s_id send) (\<lambda>r. r\<lparr>s_clickCount := s_clickCount r + 1\<rparr>)
             (if justSet then count_fact w now send occurredAt ClickedCount RClicked db1 else db1)) s)"
| "applyEventSideEffects cr w now send BounceHard reason occurredAt s =
     terminal_suppression cr w now send occurredAt BouncedAt (Some (BounceReason (Some ''hard_bounce''))) ''hard_bounce'' s"
| "applyEventSideEffects cr w now send BounceSoft reason occurredAt s =
     (let s1 = on_kdb (write_contact w (s_contactId send)
                 (\<lambda>c. c\<lparr>ct_consecutiveSoftBounces := ct_consecutiveSoftBounces c + 1, ct_updatedAt := now\<rparr>)) s;
          streak = (case find (contact_is w (s_contactId send)) (t_contacts (k_db s1)) of
                      None \<Rightarrow> 0 | Some c \<Rightarrow> ct_consecutiveSoftBounces c)
      in if streak \<ge> SOFT_BOUNCE_SUPPRESS_THRESHOLD
         then terminal_suppression cr w now send occurredAt BouncedAt
                (Some (BounceReason (Some ''soft_bounce_streak''))) ''soft_bounce_streak'' s1
         else Inr s1)"
| "applyEventSideEffects cr w now send Dropped reason occurredAt s =
     (let (db1, justSet) = setFactColumnOnce w (s_id send) DroppedAt occurredAt (Some (DropReason reason)) (k_db s)
      in if justSet
         then
           let s1 = s\<lparr>k_db := count_terminal w now send occurredAt db1\<rparr>
           in (case resolveSuppression Dropped reason of
                 Some (Suppressed, why) \<Rightarrow> applySuppression cr now w (s_contactId send) why s1
               | Some (Unsubscribed, why) \<Rightarrow>
                   Inr (on_kdb (\<lambda>db.
                     let (db2, res) = applyUnsubscribeWithSendFact w (Some (s_contactId send)) (Some (s_id send))
                           occurredAt WebhookUnsubscribe now db
                     in if sendFactJustSet res then bump_if_campaign w now (au_campaignId res) UnsubscribedCount db2
                        else db2) s1)
               | None \<Rightarrow> Inr s1)
         else Inr (s\<lparr>k_db := db1\<rparr>))"
| "applyEventSideEffects cr w now send SpamReport reason occurredAt s =
     terminal_suppression cr w now send occurredAt SpamReportedAt None ''spam_report'' s"
| "applyEventSideEffects cr w now send Unsubscribe reason occurredAt s =
     Inr (on_kdb (unsubscribe_event w now send occurredAt) s)"
| "applyEventSideEffects cr w now send GroupUnsubscribe reason occurredAt s =
     Inr (on_kdb (unsubscribe_event w now send occurredAt) s)"

section \<open>The batch\<close>

record WebhookEventsJob =
  wj_workspaceId :: uuid
  wj_events :: "js list"
  wj_journalId :: "uuid option"

text \<open>\<open>webhookEventsJobSchema.safeParse\<close>: the value, or the first key of the path of each issue (empty for the
  payload itself). \<open>is_uuid\<close> is the format of the schema library.\<close>

definition id_value :: "(string \<Rightarrow> bool) \<Rightarrow> js \<Rightarrow> bool" where
  "id_value is_uuid v = (case js_string v of Some i \<Rightarrow> is_uuid i | None \<Rightarrow> False)"

definition job_issues :: "(string \<Rightarrow> bool) \<Rightarrow> js \<Rightarrow> string list" where
  "job_issues is_uuid data =
     (if (case data of JObj _ \<Rightarrow> True | _ \<Rightarrow> False) then
        (if id_value is_uuid (js_get data ''workspaceId'') then [] else [''workspaceId''])
        @ (case js_get data ''events'' of JArr _ \<Rightarrow> [] | _ \<Rightarrow> [''events''])
        @ (if js_get data ''schemaVersion'' = JUndefined \<or> js_get data ''schemaVersion'' = JNum (Fin 1) then []
           else [''schemaVersion''])
        @ (if js_get data ''journalId'' = JUndefined \<or> id_value is_uuid (js_get data ''journalId'') then []
           else [''journalId''])
      else [[]])"

definition webhookEventsJobSchema :: "(string \<Rightarrow> bool) \<Rightarrow> js \<Rightarrow> string list + WebhookEventsJob" where
  "webhookEventsJobSchema is_uuid data =
     (if job_issues is_uuid data = [] then
        Inr \<lparr>wj_workspaceId = the (js_string (js_get data ''workspaceId'')),
             wj_events = (case js_get data ''events'' of JArr es \<Rightarrow> es | _ \<Rightarrow> []),
             wj_journalId = js_string (js_get data ''journalId'')\<rparr>
      else Inl (job_issues is_uuid data))"

datatype webhook_error = InvalidPayload "string list" | StatementFailed | KeyFailed key_error

definition isWorkspaceSoftDeletedForWebhookEvents :: "uuid \<Rightarrow> crm \<Rightarrow> bool" where
  "isWorkspaceSoftDeletedForWebhookEvents workspaceId db =
     (case t_organizations db workspaceId of None \<Rightarrow> True | Some deletedAt \<Rightarrow> deletedAt \<noteq> None)"

text \<open>A text with the character NUL is refused by the database, in a \<open>text\<close> column and inside a \<open>jsonb\<close> value.\<close>

fun js_has_nul :: "js \<Rightarrow> bool" where
  "js_has_nul (JStr s) = (CHR 0x00 \<in> set s)"
| "js_has_nul (JArr vs) = list_ex js_has_nul vs"
| "js_has_nul (JObj fs) = list_ex (\<lambda>(k, v). CHR 0x00 \<in> set k \<or> js_has_nul v) fs"
| "js_has_nul (JError fs) = list_ex (\<lambda>(k, v). CHR 0x00 \<in> set k \<or> js_has_nul v) fs"
| "js_has_nul _ = False"

definition writeQuarantinedEvent :: "instant \<Rightarrow> uuid \<Rightarrow> QuarantineCandidate \<Rightarrow> crm \<Rightarrow> crm" where
  "writeQuarantinedEvent now workspaceId row db =
     db\<lparr>t_quarantine := t_quarantine db
          @ [\<lparr>qr_workspaceId = workspaceId, qr_sgEventId = Some (qc_sgEventId row), qr_eventType = qc_eventType row,
              qr_rawEvent = qc_rawEvent row, qr_reason = qc_reason row,
              qr_occurredAtCandidate = qc_occurredAtCandidate row, qr_receivedAt = now\<rparr>]\<rparr>"

text \<open>\<open>liveSendIds.has(row.sendId)\<close>: the ids that the database returns, compared as text.\<close>

definition resolved_row :: "uuid \<Rightarrow> crm \<Rightarrow> ExtractedEventRow \<Rightarrow> ExtractedEventRow" where
  "resolved_row workspaceId db row =
     row\<lparr>ex_sendId := (case ex_sendId row of
           None \<Rightarrow> None
         | Some i \<Rightarrow> if resolve_send workspaceId i db \<noteq> None then Some i else None)\<rparr>"

fun js_fields :: "js \<Rightarrow> (string \<times> js) list" where
  "js_fields (JObj fs) = fs"
| "js_fields (JError fs) = fs"
| "js_fields _ = []"

definition send_event_of :: "instant \<Rightarrow> uuid \<Rightarrow> ExtractedEventRow \<Rightarrow> send_event_row" where
  "send_event_of now workspaceId row =
     \<lparr>se_workspaceId = workspaceId, se_sgEventId = ex_sgEventId row, se_sendId = ex_sendId row,
      se_eventType = ex_eventType row, se_reason = ex_reason row, se_payload = js_fields (ex_payload row),
      se_isTest = ex_isTest row, se_occurredAt = ex_occurredAt row, se_receivedAt = now\<rparr>"

text \<open>\<open>ON CONFLICT (workspace_id, send_id, event_type, occurred_at) DO NOTHING RETURNING id\<close>: null send ids are
  distinct. The second result is the rows that were new.\<close>

definition dedup_key :: "send_event_row \<Rightarrow> (uuid \<times> uuid \<times> string \<times> instant) option" where
  "dedup_key e = map_option (\<lambda>i. (se_workspaceId e, i, se_eventType e, se_occurredAt e)) (se_sendId e)"

fun insert_send_events ::
  "instant \<Rightarrow> uuid \<Rightarrow> ExtractedEventRow list \<Rightarrow> send_event_row list \<Rightarrow> send_event_row list \<times> ExtractedEventRow list" where
  "insert_send_events now w [] table = (table, [])"
| "insert_send_events now w (row # rows) table =
     (if dedup_key (send_event_of now w row) \<noteq> None
         \<and> (\<exists>e \<in> set table. dedup_key e = dedup_key (send_event_of now w row))
      then insert_send_events now w rows table
      else let (table', new) = insert_send_events now w rows (table @ [send_event_of now w row])
           in (table', row # new))"

text \<open>A test event, an event type out of scope and an event without a live send have no side effects.\<close>

definition effective :: "uuid \<Rightarrow> crm \<Rightarrow> ExtractedEventRow \<Rightarrow> (NormalizedEventType \<times> send_row) option" where
  "effective w db row =
     (if ex_isTest row then None
      else case (ex_normalizedType row, ex_sendId row) of
             (Some typ, Some i) \<Rightarrow> map_option (Pair typ) (resolve_send w i db)
           | _ \<Rightarrow> None)"

fun apply_new_events ::
  "crypto \<Rightarrow> uuid \<Rightarrow> instant \<Rightarrow> ExtractedEventRow list \<Rightarrow> keyed \<Rightarrow> keyed keyed_result" where
  "apply_new_events cr w now [] s = Inr s"
| "apply_new_events cr w now (row # rows) s =
     (case effective w (k_db s) row of
        None \<Rightarrow> apply_new_events cr w now rows s
      | Some (typ, send) \<Rightarrow>
          (case applyEventSideEffects cr w now send typ (ex_reason row) (ex_occurredAt row) s of
             Inl e \<Rightarrow> Inl e
           | Inr s1 \<Rightarrow> apply_new_events cr w now rows s1))"

definition debounceWebhookHealth :: "instant \<Rightarrow> uuid \<Rightarrow> crm \<Rightarrow> crm" where
  "debounceWebhookHealth now workspaceId db =
     (case t_webhookHealth db workspaceId of
        None \<Rightarrow> db
      | Some lastEventAt \<Rightarrow>
          if (case lastEventAt of None \<Rightarrow> True | Some t \<Rightarrow> t < now - 60 * second_ms)
          then db\<lparr>t_webhookHealth := (t_webhookHealth db)(workspaceId \<mapsto> Some now)\<rparr> else db)"

definition markIngestionComplete :: "instant \<Rightarrow> uuid \<Rightarrow> uuid \<Rightarrow> crm \<Rightarrow> crm" where
  "markIngestionComplete now tenant journalId db =
     db\<lparr>t_journal := update_where (\<lambda>r. jr_workspaceId r = tenant \<and> jr_id r = journalId)
          (\<lambda>r. r\<lparr>jr_ingestionCompletedAt := Some now\<rparr>) (t_journal db)\<rparr>"

definition markJournalCompleteIfPresent :: "instant \<Rightarrow> uuid \<Rightarrow> uuid option \<Rightarrow> crm \<Rightarrow> crm" where
  "markJournalCompleteIfPresent now workspaceId journalId db =
     (case journalId of None \<Rightarrow> db | Some i \<Rightarrow> markIngestionComplete now workspaceId i db)"

text \<open>The tenant transaction. A quarantine write that fails is caught, but the failed statement has ended
  its transaction: the next one fails.\<close>

definition ingest_rows ::
  "crypto \<Rightarrow> instant \<Rightarrow> uuid \<Rightarrow> ExtractedEventRow list \<Rightarrow> QuarantineCandidate list \<Rightarrow> uuid option \<Rightarrow> keyed
     \<Rightarrow> (webhook_error \<times> key_cache) + (keyed \<times> nat)" where
  "ingest_rows cr now w rows candidates journalId s =
     (if list_ex (js_has_nul \<circ> qc_rawEvent) candidates \<or> list_ex (js_has_nul \<circ> ex_payload) rows
      then Inl (StatementFailed, k_cache s)
      else
        let db1 = fold (writeQuarantinedEvent now w) candidates (k_db s);
            (table, newRows) = insert_send_events now w (map (resolved_row w db1) rows) (t_sendEvents db1)
        in (case apply_new_events cr w now newRows (s\<lparr>k_db := db1\<lparr>t_sendEvents := table\<rparr>\<rparr>) of
              Inl (e, cache) \<Rightarrow> Inl (KeyFailed e, cache)
            | Inr s2 \<Rightarrow>
                Inr (on_kdb (markJournalCompleteIfPresent now w journalId \<circ> debounceWebhookHealth now w) s2,
                     length newRows)))"

text \<open>The result of a job is its count or its failure; a failed transaction leaves the database as it was, and the
  keys that the process keeps in memory as they became. \<open>commits\<close> tells whether the transaction commits.\<close>

definition processWebhookEventBatch ::
  "(string \<Rightarrow> bool) \<Rightarrow> (js \<Rightarrow> string) \<Rightarrow> crypto \<Rightarrow> bool \<Rightarrow> instant \<Rightarrow> js \<Rightarrow> keyed
     \<Rightarrow> (webhook_error + nat) \<times> keyed" where
  "processWebhookEventBatch is_uuid render cr commits now data s =
     (case webhookEventsJobSchema is_uuid data of
        Inl issues \<Rightarrow>
          if list_all (\<lambda>i. i = ''schemaVersion'') issues then (Inr 0, s) else (Inl (InvalidPayload issues), s)
      | Inr job \<Rightarrow>
          (let w = wj_workspaceId job
           in if isWorkspaceSoftDeletedForWebhookEvents w (k_db s) then (Inr 0, s)
              else
                let outcomes = map (\<lambda>raw. extractEventRow render raw now) (wj_events job);
                    candidates = quarantine_candidates outcomes;
                    rows = dropSiblingWorkspaceEvents (k_db s) w (extracted_rows outcomes)
                in if rows = [] \<and> candidates = []
                   then (Inr 0, on_kdb (markJournalCompleteIfPresent now w (wj_journalId job)) s)
                   else
                     (case ingest_rows cr now w rows candidates (wj_journalId job) s of
                        Inl (e, cache) \<Rightarrow> (Inl e, s\<lparr>k_cache := cache\<rparr>)
                      | Inr (s1, n) \<Rightarrow>
                          if commits then (Inr n, s1) else (Inl StatementFailed, s\<lparr>k_cache := k_cache s1\<rparr>))))"

end
