(* ===== verification/Webhook_Counters.thy ===== *)
theory Webhook_Counters
  imports Webhook_Events
begin

text \<open>
  What the counters of a campaign mean: each is the number of the campaign's sends that have the fact. The
  ingestion of a batch keeps this, and a batch that is delivered again changes none of them.
\<close>

section \<open>Frames\<close>

named_theorems hook_frame \<open>tables that a write leaves alone\<close>

lemma contact_frame [hook_frame]:
  "l_sends (write_contact w c g db) = l_sends db" "l_campaigns (write_contact w c g db) = l_campaigns db"
  "t_rollups (write_contact w c g db) = t_rollups db" "t_sendEvents (write_contact w c g db) = t_sendEvents db"
  "t_journal (write_contact w c g db) = t_journal db"
  "t_suppressions (write_contact w c g db) = t_suppressions db"
  "t_suppressionKeys (write_contact w c g db) = t_suppressionKeys db"
  by (simp_all add: write_contact_def)

lemma rollup_frame [hook_frame]:
  "l_sends (incrementWorkspaceDailyRollup w t m now db) = l_sends db"
  "l_campaigns (incrementWorkspaceDailyRollup w t m now db) = l_campaigns db"
  "t_sendEvents (incrementWorkspaceDailyRollup w t m now db) = t_sendEvents db"
  "t_journal (incrementWorkspaceDailyRollup w t m now db) = t_journal db"
  by (simp_all add: incrementWorkspaceDailyRollup_def Let_def)

lemma campaign_frame [hook_frame]:
  "l_sends (bump_if_campaign w now c col db) = l_sends db"
  "t_rollups (bump_if_campaign w now c col db) = t_rollups db"
  "t_sendEvents (bump_if_campaign w now c col db) = t_sendEvents db"
  "t_journal (bump_if_campaign w now c col db) = t_journal db"
  by (simp_all add: bump_if_campaign_def incrementCampaignCounter_def split: option.splits)

lemma status_frame [hook_frame]:
  "l_sends (fst (change_status w c new src now db)) = l_sends db"
  "l_campaigns (fst (change_status w c new src now db)) = l_campaigns db"
  "t_rollups (fst (change_status w c new src now db)) = t_rollups db"
  "t_sendEvents (fst (change_status w c new src now db)) = t_sendEvents db"
  "t_journal (fst (change_status w c new src now db)) = t_journal db"
  by (simp_all add: change_status_def recordSubscriptionStatusChange_def hook_frame split: option.splits)

lemma suppression_frame [hook_frame]:
  "l_sends (insert_suppression now w h r db) = l_sends db" "l_campaigns (insert_suppression now w h r db) = l_campaigns db"
  "t_rollups (insert_suppression now w h r db) = t_rollups db"
  "t_sendEvents (insert_suppression now w h r db) = t_sendEvents db"
  "t_journal (insert_suppression now w h r db) = t_journal db"
  by (simp_all add: insert_suppression_def)

lemma history_frame [hook_frame]:
  "l_sends (recordSubscriptionStatusChange w c old new src r now db) = l_sends db"
  "l_campaigns (recordSubscriptionStatusChange w c old new src r now db) = l_campaigns db"
  "t_rollups (recordSubscriptionStatusChange w c old new src r now db) = t_rollups db"
  "t_sendEvents (recordSubscriptionStatusChange w c old new src r now db) = t_sendEvents db"
  "t_journal (recordSubscriptionStatusChange w c old new src r now db) = t_journal db"
  by (simp_all add: recordSubscriptionStatusChange_def)

lemma load_db: "loadWorkspaceSuppressionKey cr now w s = Inr (s', k) \<Longrightarrow> k_db s' = k_db s"
  by (auto simp: loadWorkspaceSuppressionKey_def split: prod.splits option.splits)

lemma ensure_db:
  assumes "ensureWorkspaceSuppressionKey cr now w s = Inr (s', k)"
  obtains keys where "k_db s' = (k_db s)\<lparr>t_suppressionKeys := keys\<rparr>"
proof -
  have "\<exists>keys. k_db s' = (k_db s)\<lparr>t_suppressionKeys := keys\<rparr>"
    using assms
    by (auto simp: ensureWorkspaceSuppressionKey_def store_key_def dest!: load_db split: sum.splits option.splits prod.splits
        if_splits intro: exI [of _ "t_suppressionKeys (k_db s)"])
  then show ?thesis using that by blast
qed

lemma applySuppression_frame:
  assumes "applySuppression cr now w c reason s = Inr s'"
  shows "l_sends (k_db s') = l_sends (k_db s)" "l_campaigns (k_db s') = l_campaigns (k_db s)"
    "t_rollups (k_db s') = t_rollups (k_db s)" "t_sendEvents (k_db s') = t_sendEvents (k_db s)"
    "t_journal (k_db s') = t_journal (k_db s)"
  using assms
  by (auto simp: applySuppression_def Let_def hook_frame split: if_splits sum.splits option.splits elim!: ensure_db)

section \<open>What the counters count\<close>

fun counter_of :: "CampaignCounter \<Rightarrow> campaign_row \<Rightarrow> nat" where
  "counter_of DeliveredCount c = c_deliveredCount c"
| "counter_of OpenedCount c = c_openedCount c"
| "counter_of ClickedCount c = c_clickedCount c"
| "counter_of BouncedCount c = c_bouncedCount c"
| "counter_of UnsubscribedCount c = c_unsubscribedCount c"

fun counted_facts :: "CampaignCounter \<Rightarrow> FactColumn list" where
  "counted_facts DeliveredCount = [DeliveredAt]"
| "counted_facts OpenedCount = [FirstOpenedAt]"
| "counted_facts ClickedCount = [FirstClickedAt]"
| "counted_facts BouncedCount = [BouncedAt, DroppedAt, SpamReportedAt]"
| "counted_facts UnsubscribedCount = [UnsubscribedAt]"

fun counter_for :: "FactColumn \<Rightarrow> CampaignCounter" where
  "counter_for DeliveredAt = DeliveredCount"
| "counter_for FirstOpenedAt = OpenedCount"
| "counter_for FirstClickedAt = ClickedCount"
| "counter_for BouncedAt = BouncedCount"
| "counter_for DroppedAt = BouncedCount"
| "counter_for SpamReportedAt = BouncedCount"
| "counter_for UnsubscribedAt = UnsubscribedCount"

definition has_counted :: "CampaignCounter \<Rightarrow> send_row \<Rightarrow> bool" where
  "has_counted ctr r = (\<exists>col \<in> set (counted_facts ctr). fact_of col (s_facts r) \<noteq> None)"

definition sends_with :: "uuid \<Rightarrow> uuid \<Rightarrow> CampaignCounter \<Rightarrow> send_row \<Rightarrow> bool" where
  "sends_with w c ctr r = (s_workspaceId r = w \<and> s_campaignId r = Some c \<and> has_counted ctr r)"

definition counters_exact :: "crm \<Rightarrow> bool" where
  "counters_exact db =
     (\<forall>c \<in> set (l_campaigns db). \<forall>ctr \<in> set [DeliveredCount, OpenedCount, ClickedCount, BouncedCount, UnsubscribedCount].
        counter_of ctr c = row_count (sends_with (c_workspaceId c) (c_id c) ctr) (l_sends db))"

lemma counters_exact_iff:
  "counters_exact db \<longleftrightarrow> (\<forall>c \<in> set (l_campaigns db). \<forall>ctr.
     counter_of ctr c = row_count (sends_with (c_workspaceId c) (c_id c) ctr) (l_sends db))"
proof -
  have all: "(\<forall>ctr \<in> set [DeliveredCount, OpenedCount, ClickedCount, BouncedCount, UnsubscribedCount]. P ctr) \<longleftrightarrow> (\<forall>ctr. P ctr)"
    for P
  proof (intro iffI allI)
    fix ctr
    assume "\<forall>ctr \<in> set [DeliveredCount, OpenedCount, ClickedCount, BouncedCount, UnsubscribedCount]. P ctr"
    then show "P ctr" by (cases ctr) simp_all
  qed simp
  then show ?thesis unfolding counters_exact_def by (simp only: all)
qed

text \<open>A uuid is never the empty text.\<close>

definition sends_wf :: "crm \<Rightarrow> bool" where
  "sends_wf db = (distinct (map s_id (l_sends db)) \<and> (\<forall>r \<in> set (l_sends db). s_campaignId r \<noteq> Some []))"

lemma fact_of_set: "fact_of col (set_fact col' t f) = (if col = col' then Some t else fact_of col f)"
  by (cases col; cases col') simp_all

lemma write_fact_row [simp]:
  "s_id (write_fact col t rs r) = s_id r" "s_workspaceId (write_fact col t rs r) = s_workspaceId r"
  "s_campaignId (write_fact col t rs r) = s_campaignId r" "s_facts (write_fact col t rs r) = set_fact col t (s_facts r)"
  "s_contactId (write_fact col t rs r) = s_contactId r"
  by (cases "(rs, r)" rule: write_reason.cases; simp add: write_fact_def)+

lemma counted_for: "col \<in> set (counted_facts ctr) \<longleftrightarrow> ctr = counter_for col"
  by (cases col; cases ctr) simp_all

lemma has_counted_write:
  "has_counted ctr (write_fact col t rs r) \<longleftrightarrow> ctr = counter_for col \<or> has_counted ctr r"
  by (auto simp: has_counted_def fact_of_set counted_for)

lemma bump_campaign_row:
  "c_id (bump_campaign ctr c) = c_id c" "c_workspaceId (bump_campaign ctr c) = c_workspaceId c"
  "counter_of ctr' (bump_campaign ctr c) = counter_of ctr' c + (if ctr' = ctr then 1 else 0)"
  by (cases ctr; cases ctr'; simp)+

lemma counter_of_update [simp]: "counter_of ctr (c\<lparr>c_updatedAt := t\<rparr>) = counter_of ctr c"
  by (cases ctr) simp_all

section \<open>One row changes\<close>

lemma resolve_send_Some:
  "resolve_send w i db = Some r \<Longrightarrow> r \<in> set (l_sends db) \<and> s_id r = i \<and> s_workspaceId r = w"
  by (auto simp: resolve_send_def visible_id_def dest: find_Some_iff_mem)

lemma resolve_only:
  assumes "sends_wf db" "resolve_send w i db = Some r" "x \<in> set (l_sends db)" "visible_id w i x"
  shows "x = r"
  using assms resolve_send_Some [OF assms(2)] by (auto simp: sends_wf_def visible_id_def distinct_map dest: inj_onD)

lemma row_count_update_one:
  assumes "distinct (map s_id t)" "r \<in> set t" "\<And>x. x \<in> set t \<Longrightarrow> q x \<longleftrightarrow> x = r" "p r \<Longrightarrow> p (g r)"
  shows "row_count p (update_where q g t) = row_count p t + (if \<not> p r \<and> p (g r) then 1 else 0)"
  using assms
proof (induction t)
  case (Cons x t)
  have rest: "update_where q g t = t" if "x = r"
    using that Cons.prems(1,3) by (intro update_where_idle) (auto simp: image_iff)
  show ?case
  proof (cases "x = r")
    case True
    then show ?thesis using rest Cons.prems(3,4) by auto
  next
    case False
    then have "row_count p (update_where q g t) = row_count p t + (if \<not> p r \<and> p (g r) then 1 else 0)"
      using Cons.prems by (intro Cons.IH) auto
    then show ?thesis using False Cons.prems(3) by simp
  qed
qed simp

lemma setFact_unset:
  assumes "sends_wf db" "resolve_send w i db = Some r" "fact_of col (s_facts r) = None"
  shows "setFactColumnOnce w i col t rs db = (db\<lparr>l_sends := update_where (visible_id w i) (write_fact col t rs) (l_sends db)\<rparr>, True)"
proof -
  have same: "fact_unset w i col x = visible_id w i x" if "x \<in> set (l_sends db)" for x
    using resolve_only [OF assms(1,2) that] assms(3) by (auto simp: fact_unset_def)
  then have "update_where (fact_unset w i col) g (l_sends db) = update_where (visible_id w i) g (l_sends db)" for g
    by (simp add: update_where_def)
  moreover have "row_count (fact_unset w i col) (l_sends db) > 0"
    using same resolve_send_Some [OF assms(2)] by (auto simp: row_count_pos visible_id_def)
  ultimately show ?thesis by (simp add: setFactColumnOnce_def)
qed

lemma setFact_set:
  assumes "sends_wf db" "resolve_send w i db = Some r" "fact_of col (s_facts r) \<noteq> None"
  shows "setFactColumnOnce w i col t rs db = (db, False)"
proof -
  have "\<not> fact_unset w i col x" if "x \<in> set (l_sends db)" for x
    using resolve_only [OF assms(1,2) that] assms(3) by (auto simp: fact_unset_def)
  then have "update_where (fact_unset w i col) g (l_sends db) = l_sends db" "row_count (fact_unset w i col) (l_sends db) = 0" for g
    by (auto simp: row_count_zero intro: update_where_idle)
  then show ?thesis by (simp add: setFactColumnOnce_def)
qed

text \<open>A fact is written for the first time, and its counter goes up where the send was not counted yet.\<close>

definition fact_step :: "uuid \<Rightarrow> uuid \<Rightarrow> FactColumn \<Rightarrow> instant \<Rightarrow> ReasonWrite option \<Rightarrow> crm \<Rightarrow> crm" where
  "fact_step w i col t rs db =
     db\<lparr>l_sends := update_where (visible_id w i) (write_fact col t rs) (l_sends db)\<rparr>"

lemma sends_wf_update:
  assumes "sends_wf db" "l_sends db' = update_where p g (l_sends db)"
    and "\<And>r. s_id (g r) = s_id r \<and> s_campaignId (g r) = s_campaignId r"
  shows "sends_wf db'"
  using assms by (simp add: sends_wf_def map_update_where update_where_ball)

lemma fact_step_wf: "sends_wf db \<Longrightarrow> sends_wf (fact_step w i col t rs db)"
  by (rule sends_wf_update [of _ _ "visible_id w i" "write_fact col t rs"]) (simp_all add: fact_step_def)

lemma fact_step_count:
  assumes "sends_wf db" "resolve_send w i db = Some r"
  shows "row_count (sends_with w' c ctr) (l_sends (fact_step w i col t rs db)) =
    row_count (sends_with w' c ctr) (l_sends db)
      + (if w' = w \<and> s_campaignId r = Some c \<and> ctr = counter_for col \<and> \<not> has_counted ctr r then 1 else 0)"
proof -
  have r: "r \<in> set (l_sends db)" "s_id r = i" "s_workspaceId r = w"
    using resolve_send_Some [OF assms(2)] by simp_all
  have only: "visible_id w i x \<longleftrightarrow> x = r" if "x \<in> set (l_sends db)" for x
    using resolve_only [OF assms that] r by (auto simp: visible_id_def)
  have grow: "sends_with w' c ctr r \<Longrightarrow> sends_with w' c ctr (write_fact col t rs r)"
    by (simp add: sends_with_def has_counted_write)
  have "row_count (sends_with w' c ctr) (update_where (visible_id w i) (write_fact col t rs) (l_sends db)) =
      row_count (sends_with w' c ctr) (l_sends db)
        + (if \<not> sends_with w' c ctr r \<and> sends_with w' c ctr (write_fact col t rs r) then 1 else 0)"
    using assms(1) by (intro row_count_update_one r(1) only grow) (simp add: sends_wf_def)
  then show ?thesis
    using r by (auto simp: fact_step_def sends_with_def has_counted_write)
qed

text \<open>A fact and its counter are written together.\<close>

definition step_with_counter ::
  "uuid \<Rightarrow> instant \<Rightarrow> send_row \<Rightarrow> FactColumn \<Rightarrow> instant \<Rightarrow> ReasonWrite option \<Rightarrow> crm \<Rightarrow> crm" where
  "step_with_counter w now r col t rs db =
     (if has_counted (counter_for col) r then fact_step w (s_id r) col t rs db
      else bump_if_campaign w now (s_campaignId r) (counter_for col) (fact_step w (s_id r) col t rs db))"

lemma counters_exact_same:
  "counters_exact db \<Longrightarrow> l_campaigns db' = l_campaigns db \<Longrightarrow>
     (\<And>w c ctr. row_count (sends_with w c ctr) (l_sends db') = row_count (sends_with w c ctr) (l_sends db)) \<Longrightarrow>
     counters_exact db'"
  by (simp add: counters_exact_def)

lemma counters_exact_bump:
  assumes "l_campaigns db' = update_where p g (l_campaigns db)"
    and "\<And>c. c_id (g c) = c_id c \<and> c_workspaceId (g c) = c_workspaceId c"
    and "\<And>c ctr. c \<in> set (l_campaigns db) \<Longrightarrow>
      counter_of ctr (if p c then g c else c) = row_count (sends_with (c_workspaceId c) (c_id c) ctr) (l_sends db')"
  shows "counters_exact db'"
proof -
  have "counter_of ctr (g c) = row_count (sends_with (c_workspaceId c) (c_id c) ctr) (l_sends db')"
    if "c \<in> set (l_campaigns db)" "p c" for c ctr
    using assms(3) [OF that(1)] that(2) by simp
  moreover have "counter_of ctr c = row_count (sends_with (c_workspaceId c) (c_id c) ctr) (l_sends db')"
    if "c \<in> set (l_campaigns db)" "\<not> p c" for c ctr
    using assms(3) [OF that(1)] that(2) by simp
  ultimately show ?thesis
    unfolding counters_exact_iff assms(1) update_where_ball by (simp add: assms(2))
qed

lemma fact_step_campaigns: "l_campaigns (fact_step w i col t rs db) = l_campaigns db"
  by (simp add: fact_step_def)

lemma counters_step_with_counter:
  assumes "sends_wf db" "resolve_send w (s_id r) db = Some r" "counters_exact db"
  shows "counters_exact (step_with_counter w now r col t rs db)"
proof (cases "s_campaignId r = None \<or> has_counted (counter_for col) r")
  case True
  then have "l_campaigns (step_with_counter w now r col t rs db) = l_campaigns db"
    "l_sends (step_with_counter w now r col t rs db) = l_sends (fact_step w (s_id r) col t rs db)"
    by (auto simp: step_with_counter_def bump_if_campaign_def fact_step_campaigns)
  then show ?thesis
    using True by (intro counters_exact_same [OF assms(3)]) (auto simp: fact_step_count [OF assms(1,2)])
next
  case False
  then obtain k where k: "s_campaignId r = Some k" by auto
  have k': "k \<noteq> []" using k assms(1) resolve_send_Some [OF assms(2)] by (auto simp: sends_wf_def)
  have step: "step_with_counter w now r col t rs db =
      incrementCampaignCounter w now k (counter_for col) (fact_step w (s_id r) col t rs db)"
    using False k k' by (simp add: step_with_counter_def bump_if_campaign_def)
  show ?thesis
    unfolding step
  proof (rule counters_exact_bump)
    fix c ctr
    assume "c \<in> set (l_campaigns db)"
    then show "counter_of ctr (if visible_campaign w k c then (bump_campaign (counter_for col) c)\<lparr>c_updatedAt := now\<rparr> else c)
      = row_count (sends_with (c_workspaceId c) (c_id c) ctr)
          (l_sends (incrementCampaignCounter w now k (counter_for col) (fact_step w (s_id r) col t rs db)))"
      using assms(3) False k
      by (auto simp: incrementCampaignCounter_def fact_step_count [OF assms(1,2)] counters_exact_iff visible_campaign_def
          bump_campaign_row)
  qed (simp_all add: incrementCampaignCounter_def fact_step_campaigns bump_campaign_row)
qed

section \<open>An event keeps the counters\<close>

definition counters_inv :: "crm \<Rightarrow> bool" where
  "counters_inv db = (sends_wf db \<and> counters_exact db)"

lemma counters_inv_cong:
  "counters_inv db \<Longrightarrow> l_sends db' = l_sends db \<Longrightarrow> l_campaigns db' = l_campaigns db \<Longrightarrow> counters_inv db'"
  by (simp add: counters_inv_def sends_wf_def counters_exact_def)

lemma resolve_send_cong: "l_sends db' = l_sends db \<Longrightarrow> resolve_send w i db' = resolve_send w i db"
  by (simp add: resolve_send_def)

lemma step_sends: "l_sends (step_with_counter w now r col t rs db) = l_sends (fact_step w (s_id r) col t rs db)"
  by (simp add: step_with_counter_def hook_frame)

lemma inv_counter_step:
  assumes "counters_inv db" "resolve_send w (s_id r) db = Some r"
  shows "counters_inv (step_with_counter w now r col t rs db)"
  using assms counters_step_with_counter fact_step_wf step_sends
  by (auto simp: counters_inv_def sends_wf_def)

lemma find_update_where:
  assumes "\<And>x. p (g x) \<longleftrightarrow> p x"
  shows "find p (update_where q g t) = map_option (\<lambda>x. if q x then g x else x) (find p t)"
  using assms by (induction t) auto

lemma resolve_fact_step:
  assumes "resolve_send w i db = Some r"
  shows "resolve_send w i (fact_step w i col t rs db) = Some (write_fact col t rs r)"
  using assms resolve_send_Some [OF assms]
  by (simp add: resolve_send_def fact_step_def find_update_where visible_id_def)

lemma first_terminal_iff:
  assumes "resolve_send w i db = Some r" "fact_of col (s_facts r) = None" "counter_for col = BouncedCount"
  shows "isFirstNonDeliveryTerminal w i (fact_step w i col t rs db) \<longleftrightarrow> \<not> has_counted BouncedCount r"
  using assms(2,3)
  by (cases col) (auto simp: isFirstNonDeliveryTerminal_def resolve_fact_step [OF assms(1)] fact_of_set has_counted_def)

lemma count_terminal_step:
  assumes "resolve_send w (s_id r) db = Some r" "fact_of col (s_facts r) = None" "counter_for col = BouncedCount"
  shows "l_sends (count_terminal w now r t (fact_step w (s_id r) col t' rs db)) =
      l_sends (step_with_counter w now r col t' rs db)"
    "l_campaigns (count_terminal w now r t (fact_step w (s_id r) col t' rs db)) =
      l_campaigns (step_with_counter w now r col t' rs db)"
  using first_terminal_iff [OF assms]
  by (simp_all add: count_terminal_def count_fact_def step_with_counter_def assms(3) hook_frame)

lemma inv_bump_send:
  assumes "counters_inv db"
    "\<And>r. s_id (g r) = s_id r \<and> s_workspaceId (g r) = s_workspaceId r \<and> s_campaignId (g r) = s_campaignId r \<and> s_facts (g r) = s_facts r"
  shows "counters_inv (bump_send w i g db)"
proof -
  have same: "sends_with w' c ctr (g r) = sends_with w' c ctr r" for w' c ctr r
    using assms(2) by (simp add: sends_with_def has_counted_def)
  have "row_count (sends_with w' c ctr) (update_where p g t) = row_count (sends_with w' c ctr) t" for w' c ctr p t
    by (induction t) (simp_all add: same)
  moreover have "sends_wf db" "counters_exact db" using assms(1) by (simp_all add: counters_inv_def)
  ultimately have "counters_exact (bump_send w i g db)"
    by (elim counters_exact_same) (simp_all add: bump_send_def)
  moreover have "sends_wf (bump_send w i g db)"
    by (rule sends_wf_update [OF \<open>sends_wf db\<close>, of _ "visible_id w i" g]) (simp_all add: bump_send_def assms(2))
  ultimately show ?thesis by (simp add: counters_inv_def)
qed

lemma fact_unset_step:
  assumes "counters_inv db" "resolve_send w i db = Some r" "fact_of col (s_facts r) = None"
  shows "setFactColumnOnce w i col t rs db = (fact_step w i col t rs db, True)"
  using setFact_unset [OF _ assms(2,3)] assms(1) by (simp add: fact_step_def counters_inv_def)

lemma fact_set_step:
  assumes "counters_inv db" "resolve_send w i db = Some r" "fact_of col (s_facts r) \<noteq> None"
  shows "setFactColumnOnce w i col t rs db = (db, False)"
  using setFact_set [OF _ assms(2,3)] assms(1) by (simp add: counters_inv_def)

text \<open>A handler that writes a fact and, the first time, its counter, keeps the counters whatever else it writes.\<close>

lemma inv_counted_fact:
  assumes "counters_inv db" "resolve_send w (s_id r) db = Some r"
    and "fact_of col (s_facts r) \<noteq> None \<Longrightarrow> l_sends db' = l_sends db \<and> l_campaigns db' = l_campaigns db"
    and "fact_of col (s_facts r) = None \<Longrightarrow>
      l_sends db' = l_sends (step_with_counter w now r col t rs db)
      \<and> l_campaigns db' = l_campaigns (step_with_counter w now r col t rs db)"
  shows "counters_inv db'"
proof (cases "fact_of col (s_facts r) = None")
  case True
  then show ?thesis using counters_inv_cong [OF inv_counter_step [OF assms(1,2)]] assms(4) by blast
next
  case False
  then show ?thesis using counters_inv_cong [OF assms(1)] assms(3) by blast
qed

lemma single_fact_step:
  assumes "fact_of col (s_facts r) = None" "counter_for col \<noteq> BouncedCount"
  shows "step_with_counter w now r col t rs db =
    bump_if_campaign w now (s_campaignId r) (counter_for col) (fact_step w (s_id r) col t rs db)"
  using assms by (cases col) (simp_all add: step_with_counter_def has_counted_def)

lemma inv_delivered:
  assumes "counters_inv (k_db s)" "resolve_send w (s_id r) (k_db s) = Some r"
    and "applyEventSideEffects cr w now r Delivered reason t s = Inr s'"
  shows "counters_inv (k_db s')"
  using assms(3)
  by (intro inv_counted_fact [OF assms(1,2), where col = DeliveredAt and now = now and t = t and rs = None])
    (auto simp: on_kdb_def fact_unset_step [OF assms(1,2)] fact_set_step [OF assms(1,2)] single_fact_step hook_frame)

lemma inv_first:
  assumes "counters_inv db" "resolve_send w (s_id r) db = Some r" "counter_for col = ctr" "ctr \<noteq> BouncedCount"
    and g: "\<And>r. s_id (g r) = s_id r \<and> s_workspaceId (g r) = s_workspaceId r \<and> s_campaignId (g r) = s_campaignId r \<and> s_facts (g r) = s_facts r"
  shows "counters_inv (let (db1, justSet) = setFactColumnOnce w (s_id r) col t rs db
    in bump_send w (s_id r) g (if justSet then count_fact w now r t ctr m db1 else db1))"
proof (cases "fact_of col (s_facts r) = None")
  case True
  have "counters_inv (count_fact w now r t ctr m (fact_step w (s_id r) col t rs db))"
    using True assms(3,4)
    by (intro inv_counted_fact [OF assms(1,2), where col = col and now = now and t = t and rs = rs])
      (auto simp: count_fact_def single_fact_step hook_frame)
  then show ?thesis by (simp add: fact_unset_step [OF assms(1,2) True] inv_bump_send [OF _ g])
next
  case False
  then show ?thesis by (simp add: fact_set_step [OF assms(1,2) False] inv_bump_send [OF assms(1) g])
qed

lemma inv_opened:
  assumes "counters_inv (k_db s)" "resolve_send w (s_id r) (k_db s) = Some r" "kind = Open \<or> kind = Click"
    and "applyEventSideEffects cr w now r kind reason t s = Inr s'"
  shows "counters_inv (k_db s')"
  using assms(3)
proof
  assume "kind = Open"
  then show ?thesis
    using assms(4) inv_first [OF assms(1,2), where col = FirstOpenedAt and ctr = OpenedCount and rs = None and t = t
        and now = now and m = ROpened and g = "\<lambda>r. r\<lparr>s_openCount := s_openCount r + 1\<rparr>"]
    by (auto simp: on_kdb_def)
next
  assume "kind = Click"
  then show ?thesis
    using assms(4) inv_first [OF assms(1,2), where col = FirstClickedAt and ctr = ClickedCount and rs = None and t = t
        and now = now and m = RClicked and g = "\<lambda>r. r\<lparr>s_clickCount := s_clickCount r + 1\<rparr>"]
    by (auto simp: on_kdb_def)
qed

lemma inv_terminal:
  assumes "counters_inv (k_db s)" "resolve_send w (s_id r) (k_db s) = Some r" "counter_for col = BouncedCount"
    and "terminal_suppression cr w now r t col rs why s = Inr s'"
  shows "counters_inv (k_db s')"
proof (rule inv_counted_fact [OF assms(1,2), where col = col and now = now and t = t and rs = rs])
  assume "fact_of col (s_facts r) \<noteq> None"
  then show "l_sends (k_db s') = l_sends (k_db s) \<and> l_campaigns (k_db s') = l_campaigns (k_db s)"
    using assms(4) by (auto simp: terminal_suppression_def fact_set_step [OF assms(1,2)])
next
  assume unset: "fact_of col (s_facts r) = None"
  then have "applySuppression cr now w (s_contactId r) why
      (s\<lparr>k_db := count_terminal w now r t (fact_step w (s_id r) col t rs (k_db s))\<rparr>) = Inr s'"
    using assms(4) by (simp add: terminal_suppression_def fact_unset_step [OF assms(1,2)])
  from applySuppression_frame [OF this] show "l_sends (k_db s') = l_sends (step_with_counter w now r col t rs (k_db s))
      \<and> l_campaigns (k_db s') = l_campaigns (step_with_counter w now r col t rs (k_db s))"
    by (simp add: count_terminal_step [OF assms(2) unset assms(3)])
qed

text \<open>The unsubscription writes its fact once, where the contact's id is an id.\<close>

lemma unsubscribe_result:
  assumes "counters_inv db" "resolve_send w (s_id r) db = Some r"
    and "applyUnsubscribeWithSendFact w (Some c) (Some (s_id r)) t src now db = (db', res)"
  shows "l_campaigns db' = l_campaigns db" "sendFactJustSet res \<Longrightarrow> au_campaignId res = s_campaignId r"
    "sendFactJustSet res \<longleftrightarrow> uuid_shaped c \<and> unsubscribedAt (s_facts r) = None"
    "l_sends db' = (if sendFactJustSet res then l_sends (fact_step w (s_id r) UnsubscribedAt t None db) else l_sends db)"
proof -
  obtain db1 ch where st: "change_status w c StUnsubscribed src now db = (db1, ch)" by force
  then have fr: "l_sends db1 = l_sends db" "l_campaigns db1 = l_campaigns db"
    using status_frame [of w c StUnsubscribed src now db] by simp_all
  then have inv: "counters_inv db1" "resolve_send w (s_id r) db1 = Some r"
    using assms(2) counters_inv_cong [OF assms(1)] by (simp_all add: resolve_send_def)
  show "l_campaigns db' = l_campaigns db" "sendFactJustSet res \<Longrightarrow> au_campaignId res = s_campaignId r"
    "sendFactJustSet res \<longleftrightarrow> uuid_shaped c \<and> unsubscribedAt (s_facts r) = None"
    "l_sends db' = (if sendFactJustSet res then l_sends (fact_step w (s_id r) UnsubscribedAt t None db) else l_sends db)"
    using assms(2,3) st fr fact_unset_step [OF inv, of UnsubscribedAt t None] fact_set_step [OF inv, of UnsubscribedAt t None]
    by (cases "uuid_shaped c"; cases "unsubscribedAt (s_facts r)";
        auto simp: applyUnsubscribeWithSendFact_def coalesce_def Let_def fact_step_def)+
qed

lemma inv_unsubscribed:
  assumes "counters_inv db" "resolve_send w (s_id r) db = Some r"
    and "applyUnsubscribeWithSendFact w (Some c) (Some (s_id r)) t src now db = (db1, res)"
    and "l_sends db' = l_sends db1"
    and "l_campaigns db' = l_campaigns (if sendFactJustSet res then bump_if_campaign w now (au_campaignId res) UnsubscribedCount db1 else db1)"
  shows "counters_inv db'"
proof (cases "sendFactJustSet res")
  case True
  note u = unsubscribe_result [OF assms(1-3)]
  show ?thesis
    using u True assms(4,5)
    by (intro inv_counted_fact [OF assms(1,2), where col = UnsubscribedAt and now = now and t = t and rs = None])
      (auto simp: single_fact_step bump_if_campaign_def incrementCampaignCounter_def fact_step_campaigns hook_frame
        split: option.splits)
next
  case False
  then show ?thesis
    using unsubscribe_result [OF assms(1-3)] assms(4,5) by (intro counters_inv_cong [OF assms(1)]) auto
qed

lemma inv_unsubscribe_event:
  assumes "counters_inv db" "resolve_send w (s_id r) db = Some r"
  shows "counters_inv (unsubscribe_event w now r t db)"
proof -
  obtain db1 res where u: "applyUnsubscribeWithSendFact w (Some (s_contactId r)) (Some (s_id r)) t WebhookUnsubscribe now db = (db1, res)"
    by force
  show ?thesis
    by (rule inv_unsubscribed [OF assms u]) (simp_all add: unsubscribe_event_def u hook_frame)
qed

lemma inv_dropped:
  assumes "counters_inv (k_db s)" "resolve_send w (s_id r) (k_db s) = Some r"
    and "applyEventSideEffects cr w now r Dropped reason t s = Inr s'"
  shows "counters_inv (k_db s')"
proof (cases "droppedAt (s_facts r) = None")
  case True
  let ?db1 = "count_terminal w now r t (fact_step w (s_id r) DroppedAt t (Some (DropReason reason)) (k_db s))"
  have inv: "counters_inv ?db1"
    using count_terminal_step [OF assms(2), of DroppedAt] True
    by (intro inv_counted_fact [OF assms(1,2), where col = DroppedAt and now = now and t = t and rs = "Some (DropReason reason)"]) auto
  have res: "resolve_send w (s_id r) ?db1 = Some (write_fact DroppedAt t (Some (DropReason reason)) r)"
    using resolve_fact_step [OF assms(2)] count_terminal_step(1) [OF assms(2), of DroppedAt] True step_sends
    by (simp add: resolve_send_def)
  show ?thesis
  proof (cases "resolveSuppression Dropped reason")
    case None
    then show ?thesis using assms(3) inv True by (auto simp: fact_unset_step [OF assms(1,2)])
  next
    case (Some ew)
    then obtain e why where e: "resolveSuppression Dropped reason = Some (e, why)" by force
    show ?thesis
    proof (cases e)
      case Suppressed
      then have "applySuppression cr now w (s_contactId r) why (s\<lparr>k_db := ?db1\<rparr>) = Inr s'"
        using assms(3) e True by (auto simp: fact_unset_step [OF assms(1,2)])
      from applySuppression_frame(1,2) [OF this] show ?thesis by (intro counters_inv_cong [OF inv]) simp_all
    next
      case Unsubscribed
      obtain db2 au where u: "applyUnsubscribeWithSendFact w (Some (s_contactId r)) (Some (s_id r)) t WebhookUnsubscribe now ?db1 = (db2, au)"
        by force
      have "k_db s' = (if sendFactJustSet au then bump_if_campaign w now (au_campaignId au) UnsubscribedCount db2 else db2)"
        using assms(3) e Unsubscribed True u by (auto simp: fact_unset_step [OF assms(1,2)] on_kdb_def)
      then show ?thesis
        using inv_unsubscribed [OF inv, of w "write_fact DroppedAt t (Some (DropReason reason)) r"] res u
        by (auto simp: hook_frame)
    qed
  qed
next
  case False
  then show ?thesis using assms by (auto simp: fact_set_step [OF assms(1,2)])
qed

lemma inv_soft:
  assumes "counters_inv (k_db s)" "resolve_send w (s_id r) (k_db s) = Some r"
    and "applyEventSideEffects cr w now r BounceSoft reason t s = Inr s'"
  shows "counters_inv (k_db s')"
proof -
  let ?s1 = "on_kdb (write_contact w (s_contactId r)
    (\<lambda>c. c\<lparr>ct_consecutiveSoftBounces := ct_consecutiveSoftBounces c + 1, ct_updatedAt := now\<rparr>)) s"
  have "counters_inv (k_db ?s1)" "resolve_send w (s_id r) (k_db ?s1) = Some r"
    using assms(2) by (auto simp: on_kdb_def hook_frame resolve_send_def intro: counters_inv_cong [OF assms(1)])
  then show ?thesis
    using assms(3) inv_terminal [of ?s1 w r BouncedAt] by (auto simp: Let_def split: if_splits)
qed

lemma inv_event:
  assumes "counters_inv (k_db s)" "resolve_send w (s_id r) (k_db s) = Some r"
    and "applyEventSideEffects cr w now r kind reason t s = Inr s'"
  shows "counters_inv (k_db s')"
proof (cases kind)
  case Delivered
  then show ?thesis using inv_delivered assms by blast
next
  case Open
  then show ?thesis using inv_opened [OF assms(1,2) _ assms(3)] by blast
next
  case Click
  then show ?thesis using inv_opened [OF assms(1,2) _ assms(3)] by blast
next
  case BounceSoft
  then show ?thesis using inv_soft assms by blast
next
  case Dropped
  then show ?thesis using inv_dropped assms by blast
next
  case BounceHard
  then show ?thesis using inv_terminal [OF assms(1,2), of BouncedAt] assms(3) by simp
next
  case SpamReport
  then show ?thesis using inv_terminal [OF assms(1,2), of SpamReportedAt] assms(3) by simp
next
  case Unsubscribe
  then show ?thesis using inv_unsubscribe_event [OF assms(1,2)] assms(3) by (auto simp: on_kdb_def)
next
  case GroupUnsubscribe
  then show ?thesis using inv_unsubscribe_event [OF assms(1,2)] assms(3) by (auto simp: on_kdb_def)
qed

section \<open>A batch keeps the counters\<close>

lemma effective_Some:
  assumes "effective w db row = Some (kind, r)"
  shows "resolve_send w (s_id r) db = Some r" "ex_sendId row = Some (s_id r)" "\<not> ex_isTest row"
    "ex_normalizedType row = Some kind"
  using assms resolve_send_Some
  by (auto simp: effective_def split: if_splits option.splits)

lemma inv_new_events:
  "apply_new_events cr w now rows s = Inr s' \<Longrightarrow> counters_inv (k_db s) \<Longrightarrow> counters_inv (k_db s')"
proof (induction rows arbitrary: s)
  case (Cons row rows)
  show ?case
  proof (cases "effective w (k_db s) row")
    case None
    then show ?thesis using Cons by simp
  next
    case (Some kr)
    then obtain kind r where e: "effective w (k_db s) row = Some (kind, r)" by (cases kr) simp
    then obtain s1 where s1: "applyEventSideEffects cr w now r kind (ex_reason row) (ex_occurredAt row) s = Inr s1"
      "apply_new_events cr w now rows s1 = Inr s'"
      using Cons.prems(1) by (auto split: sum.splits)
    show ?thesis
      using Cons.IH [OF s1(2)] inv_event [OF Cons.prems(2) effective_Some(1) [OF e] s1(1)] by blast
  qed
qed simp

lemma quarantine_frame [hook_frame]:
  "l_sends (fold (writeQuarantinedEvent now w) cs db) = l_sends db"
  "l_campaigns (fold (writeQuarantinedEvent now w) cs db) = l_campaigns db"
  "t_sendEvents (fold (writeQuarantinedEvent now w) cs db) = t_sendEvents db"
  "t_journal (fold (writeQuarantinedEvent now w) cs db) = t_journal db"
  by (induction cs arbitrary: db) (simp_all add: writeQuarantinedEvent_def)

lemma completion_frame [hook_frame]:
  "l_sends (markJournalCompleteIfPresent now w j db) = l_sends db"
  "l_campaigns (markJournalCompleteIfPresent now w j db) = l_campaigns db"
  "t_sendEvents (markJournalCompleteIfPresent now w j db) = t_sendEvents db"
  "l_sends (debounceWebhookHealth now w db) = l_sends db"
  "l_campaigns (debounceWebhookHealth now w db) = l_campaigns db"
  "t_sendEvents (debounceWebhookHealth now w db) = t_sendEvents db"
  "t_journal (debounceWebhookHealth now w db) = t_journal db"
  by (simp_all add: markJournalCompleteIfPresent_def markIngestionComplete_def debounceWebhookHealth_def split: option.splits)

lemma inv_ingest:
  assumes "ingest_rows cr now w rows cs j s = Inr (s', n)" "counters_inv (k_db s)"
  shows "counters_inv (k_db s')"
proof -
  obtain table new where t: "insert_send_events now w (map (resolved_row w (fold (writeQuarantinedEvent now w) cs (k_db s))) rows)
      (t_sendEvents (fold (writeQuarantinedEvent now w) cs (k_db s))) = (table, new)" by force
  let ?s1 = "s\<lparr>k_db := fold (writeQuarantinedEvent now w) cs (k_db s)\<lparr>t_sendEvents := table\<rparr>\<rparr>"
  obtain s2 where s2: "apply_new_events cr w now new ?s1 = Inr s2"
    "s' = on_kdb (markJournalCompleteIfPresent now w j \<circ> debounceWebhookHealth now w) s2"
    using assms(1) t by (auto simp: ingest_rows_def split: if_splits sum.splits)
  have "counters_inv (k_db ?s1)" by (rule counters_inv_cong [OF assms(2)]) (simp_all add: hook_frame)
  from inv_new_events [OF s2(1) this] show ?thesis
    by (rule counters_inv_cong) (simp_all add: s2(2) on_kdb_def hook_frame)
qed

text \<open>What a run of the batch is: nothing, a failure that leaves the database alone, the mark of the journal, or
  the ingestion of the rows that are not a sibling's.\<close>

definition batch_rows :: "(js \<Rightarrow> string) \<Rightarrow> crm \<Rightarrow> uuid \<Rightarrow> instant \<Rightarrow> js list \<Rightarrow> ExtractedEventRow list" where
  "batch_rows render db w now es =
     dropSiblingWorkspaceEvents db w (extracted_rows (map (\<lambda>raw. extractEventRow render raw now) es))"

lemma batch_cases:
  assumes "processWebhookEventBatch is_uuid render cr commits now data s = (out, s')"
  obtains "k_db s' = k_db s"
  | w j where "k_db s' = markJournalCompleteIfPresent now w j (k_db s)"
  | job n where "webhookEventsJobSchema is_uuid data = Inr job" "out = Inr n"
      "ingest_rows cr now (wj_workspaceId job) (batch_rows render (k_db s) (wj_workspaceId job) now (wj_events job))
        (quarantine_candidates (map (\<lambda>raw. extractEventRow render raw now) (wj_events job))) (wj_journalId job) s = Inr (s', n)"
  using assms
  by (auto simp: processWebhookEventBatch_def batch_rows_def Let_def on_kdb_def split: sum.splits if_splits prod.splits)

text \<open>C16: The five counters of every campaign equal the number of its sends that have the fact, after any batch of webhook events.\<close>

theorem campaign_counters_stay_exact:
  assumes "processWebhookEventBatch is_uuid render cr commits now data s = (out, s')"
    and "sends_wf (k_db s)" "counters_exact (k_db s)"
  shows "sends_wf (k_db s') \<and> counters_exact (k_db s')"
proof -
  have inv: "counters_inv (k_db s)" using assms(2,3) by (simp add: counters_inv_def)
  from assms(1) have "counters_inv (k_db s')"
  proof (cases rule: batch_cases)
    case 1
    then show ?thesis using inv by simp
  next
    case (2 w j)
    then show ?thesis by (intro counters_inv_cong [OF inv]) (simp_all add: hook_frame)
  next
    case (3 job n)
    from inv_ingest [OF 3(3) inv] show ?thesis .
  qed
  then show ?thesis by (simp add: counters_inv_def)
qed

end
