(* ===== verification/Unsubscribe_Route.thy ===== *)
theory Unsubscribe_Route
  imports Unsubscribe_Verify Webhook_Counters
begin

text \<open>
  The public one-click unsubscribe route (\<open>apps/api/src/modules/delivery/unsubscribe.routes.ts\<close>): the page a
  link shows, and the redemption of its token in one transaction of the token's workspace. Pages are their
  variable parts: the action of the form, and which of the two bodies a redemption answers with.
\<close>

section \<open>The page\<close>

definition token_letter :: "char \<Rightarrow> bool" where
  "token_letter c =
     (let n = (of_char c :: nat)
      in (65 \<le> n \<and> n \<le> 90) \<or> (97 \<le> n \<and> n \<le> 122) \<or> (48 \<le> n \<and> n \<le> 57) \<or> n = 95 \<or> n = 45)"

definition isWellFormedUnsubscribeToken :: "string \<Rightarrow> bool" where
  "isWellFormedUnsubscribeToken token =
     (case split_on (CHR ''.'') token of
        [a, b] \<Rightarrow> a \<noteq> [] \<and> list_all token_letter a \<and> b \<noteq> [] \<and> list_all token_letter b
      | _ \<Rightarrow> False)"

text \<open>The five replacements one after the other: the ampersands of the later ones are not escaped again.\<close>

definition replace_char :: "char \<Rightarrow> string \<Rightarrow> string \<Rightarrow> string" where
  "replace_char x by_text s = concat (map (\<lambda>c. if c = x then by_text else [c]) s)"

definition escapeHtmlAttribute :: "string \<Rightarrow> string" where
  "escapeHtmlAttribute value =
     replace_char (char_of (39 :: nat)) ''&#39;''
       (replace_char quote ''&quot;''
         (replace_char (CHR ''>'') ''&gt;''
           (replace_char (CHR ''<'') ''&lt;''
             (replace_char (CHR ''&'') ''&amp;'' value))))"

definition formAction :: "string \<Rightarrow> string" where
  "formAction token =
     (if isWellFormedUnsubscribeToken token then ''/unsubscribe/'' @ escapeHtmlAttribute token else [])"

section \<open>The redemption\<close>

definition redeem_link :: "VerifiedToken \<Rightarrow> instant \<Rightarrow> crm \<Rightarrow> crm" where
  "redeem_link payload now db =
     (let (db1, result) = applyUnsubscribeWithSendFact (vt_workspaceId payload) (Some (vt_contactId payload))
            (Some (vt_sendId payload)) now UnsubscribeRoute now db
      in if sendFactJustSet result
         then incrementWorkspaceDailyRollup (vt_workspaceId payload) now RUnsubscribed now
                (bump_if_campaign (vt_workspaceId payload) now (au_campaignId result) UnsubscribedCount db1)
         else db1)"

datatype route_reply = SuccessPage | EmptyBody

definition post_unsubscribe ::
  "(string \<Rightarrow> string \<Rightarrow> nat list) \<Rightarrow> (string \<Rightarrow> string option) \<Rightarrow> instant \<Rightarrow> bool \<Rightarrow> string \<Rightarrow> crm \<Rightarrow> crm \<times> route_reply" where
  "post_unsubscribe hmac env now acceptsHtml token db =
     (let nowSeconds = of_int (now div second_ms);
          db' = (case verifyUnsubscribeToken hmac env token of
                   None \<Rightarrow> db
                 | Some payload \<Rightarrow>
                     if nowSeconds \<le> vt_exp payload \<and> uuid_shaped (vt_contactId payload)
                     then redeem_link payload now db else db)
      in (db', if acceptsHtml then SuccessPage else EmptyBody))"

section \<open>What the page reflects\<close>

definition markup_chars :: "char set" where
  "markup_chars = {CHR ''<'', CHR ''>'', quote, char_of (39 :: nat), CHR ''&''}"

lemma token_letter_plain: "token_letter c \<Longrightarrow> c \<notin> markup_chars"
  by (auto simp: token_letter_def markup_chars_def quote_def)

lemma replace_char_idle: "x \<notin> set s \<Longrightarrow> replace_char x t s = s"
  by (induction s) (auto simp: replace_char_def)

lemma split_two: "split_on x s = [a, b] \<Longrightarrow> s = a @ x # b"
proof (induction s arbitrary: a)
  case (Cons c s)
  show ?case
  proof (cases "c = x")
    case True
    then have "a = []" "split_on x s = [b]" using Cons.prems by simp_all
    moreover have "split_on x s = [b] \<Longrightarrow> s = b" for b
      by (induction s arbitrary: b) (auto split: if_splits list.splits)
    ultimately show ?thesis using True by simp
  next
    case False
    then obtain a' where "a = c # a'" "split_on x s = [a', b]"
      using Cons.prems by (cases "split_on x s") auto
    then show ?thesis using Cons.IH by simp
  qed
qed simp

text \<open>A token that is reflected is reflected as it is, and holds no markup; any other is not reflected.\<close>

lemma reflected_token:
  "formAction token = [] \<or> formAction token = ''/unsubscribe/'' @ token"
  "set (formAction token) \<inter> markup_chars = {}"
proof -
  have plain: "set token \<inter> markup_chars = {}" if well: "isWellFormedUnsubscribeToken token"
  proof -
    from well obtain a b where ab: "split_on (CHR ''.'') token = [a, b]" "list_all token_letter a" "list_all token_letter b"
      by (auto simp: isWellFormedUnsubscribeToken_def split: list.splits)
    have "CHR ''.'' \<notin> markup_chars"
      by (auto simp: markup_chars_def quote_def dest: arg_cong [where f = "of_char :: char \<Rightarrow> nat"])
    then show ?thesis
      using split_two [OF ab(1)] ab(2,3) token_letter_plain by (auto simp: list_all_iff)
  qed
  then have same: "escapeHtmlAttribute token = token" if "isWellFormedUnsubscribeToken token"
    using that by (auto simp: escapeHtmlAttribute_def replace_char_idle markup_chars_def)
  then show "formAction token = [] \<or> formAction token = ''/unsubscribe/'' @ token"
    by (simp add: formAction_def)
  have "set ''/unsubscribe/'' \<inter> markup_chars = {}"
    by (auto simp: markup_chars_def quote_def dest: arg_cong [where f = "of_char :: char \<Rightarrow> nat"])
  then show "set (formAction token) \<inter> markup_chars = {}"
    using plain same by (auto simp: formAction_def)
qed

section \<open>What a redemption writes\<close>

lemma contacts_frame:
  "t_contacts (incrementWorkspaceDailyRollup w t m now db) = t_contacts db"
  "t_contacts (bump_if_campaign w now c col db) = t_contacts db"
  "t_contacts (fst (setFactColumnOnce w i fc t rs db)) = t_contacts db"
  by (simp_all add: incrementWorkspaceDailyRollup_def Let_def bump_if_campaign_def incrementCampaignCounter_def
      setFactColumnOnce_def split: option.splits)

lemma find_contact_is: "find (contact_is w c) t = Some x \<Longrightarrow> contact_is w c x"
  by (auto simp: find_Some_iff)

lemma change_status_contacts:
  assumes "change_status w c new src now db = (db', b)"
  shows "t_contacts db' = (if b then update_where (contact_is w c)
      (\<lambda>x. x\<lparr>ct_subscriptionStatus := new, ct_updatedAt := now\<rparr>) (t_contacts db) else t_contacts db)"
    "prior_status w c db \<noteq> None \<Longrightarrow> prior_status w c db' = Some new"
proof -
  have found: "find (contact_is w c) (update_where (contact_is w c) g t) = map_option (\<lambda>x. if contact_is w c x then g x else x) (find (contact_is w c) t)"
    if "\<And>x. contact_is w c (g x) = contact_is w c x" for g t
    by (rule find_update_where) (rule that)
  have kept: "contact_is w c (x\<lparr>ct_subscriptionStatus := new, ct_updatedAt := now\<rparr>) = contact_is w c x" for x
    by (simp add: contact_is_def)
  show "t_contacts db' = (if b then update_where (contact_is w c)
      (\<lambda>x. x\<lparr>ct_subscriptionStatus := new, ct_updatedAt := now\<rparr>) (t_contacts db) else t_contacts db)"
    using assms by (auto simp: change_status_def recordSubscriptionStatusChange_def write_contact_def split: option.splits if_splits)
  then have "prior_status w c db' = Some new" if "prior_status w c db = Some st" for st
  proof (cases b)
    case False
    then show ?thesis using assms that by (auto simp: change_status_def split: if_splits)
  next
    case True
    from that obtain x where x: "find (contact_is w c) (t_contacts db) = Some x" by (auto simp: prior_status_def)
    show ?thesis
      using True \<open>t_contacts db' = _\<close> find_contact_is [OF x] by (simp add: prior_status_def found kept x)
  qed
  then show "prior_status w c db \<noteq> None \<Longrightarrow> prior_status w c db' = Some new" by blast
qed

lemma apply_contacts:
  assumes "applyUnsubscribeWithSendFact w (Some c) (Some i) t src now db = (db', res)" "uuid_shaped c"
  shows "t_contacts db' = t_contacts (fst (change_status w c StUnsubscribed src now db))"
  using assms contacts_frame(3) [of w i UnsubscribedAt t None]
  by (auto simp: applyUnsubscribeWithSendFact_def Let_def coalesce_def split: prod.splits option.splits)
    (metis contacts_frame(3) fst_conv)+

lemma redeem_contacts:
  assumes "uuid_shaped (vt_contactId v)"
  shows "t_contacts (redeem_link v now db) =
    t_contacts (fst (change_status (vt_workspaceId v) (vt_contactId v) StUnsubscribed UnsubscribeRoute now db))"
  using apply_contacts [OF _ assms]
  by (auto simp: redeem_link_def contacts_frame split: prod.splits)

text \<open>Where the send is not there, the contact is all there is to change.\<close>

lemma apply_no_send:
  assumes "resolve_send w i db = None" "uuid_shaped c"
  shows "applyUnsubscribeWithSendFact w (Some c) (Some i) t src now db =
    (fst (change_status w c StUnsubscribed src now db),
     \<lparr>statusChanged = snd (change_status w c StUnsubscribed src now db), sendFactJustSet = False, au_campaignId = None\<rparr>)"
  using assms by (simp add: applyUnsubscribeWithSendFact_def coalesce_def Let_def split: prod.splits)

lemma redeem_inv:
  assumes "counters_inv db" "uuid_shaped (vt_contactId v)"
  shows "counters_inv (redeem_link v now db)"
proof (cases "resolve_send (vt_workspaceId v) (vt_sendId v) db")
  case None
  then show ?thesis
    by (simp add: redeem_link_def apply_no_send [OF None assms(2)] counters_inv_cong [OF assms(1)] hook_frame)
next
  case (Some r)
  then have r: "resolve_send (vt_workspaceId v) (s_id r) db = Some r" "s_id r = vt_sendId v"
    using resolve_send_Some [OF Some] by simp_all
  obtain db1 res where u: "applyUnsubscribeWithSendFact (vt_workspaceId v) (Some (vt_contactId v)) (Some (s_id r)) now
      UnsubscribeRoute now db = (db1, res)" by force
  show ?thesis
    by (rule inv_unsubscribed [OF assms(1) r(1) u]) (use u r(2) in \<open>simp_all add: redeem_link_def hook_frame\<close>)
qed

lemma redeem_fact:
  assumes "counters_inv db" "uuid_shaped (vt_contactId v)" "resolve_send (vt_workspaceId v) (vt_sendId v) db = Some r"
  shows "\<exists>r'. resolve_send (vt_workspaceId v) (vt_sendId v) (redeem_link v now db) = Some r' \<and> unsubscribedAt (s_facts r') \<noteq> None"
proof -
  have r: "resolve_send (vt_workspaceId v) (s_id r) db = Some r" "s_id r = vt_sendId v"
    using assms(3) resolve_send_Some [OF assms(3)] by simp_all
  obtain db1 res where u: "applyUnsubscribeWithSendFact (vt_workspaceId v) (Some (vt_contactId v)) (Some (s_id r)) now
      UnsubscribeRoute now db = (db1, res)" by force
  note facts = unsubscribe_result [OF assms(1) r(1) u]
  have sends: "l_sends (redeem_link v now db) =
      (if unsubscribedAt (s_facts r) = None then l_sends (fact_step (vt_workspaceId v) (s_id r) UnsubscribedAt now None db) else l_sends db)"
    using u r(2) facts(3,4) assms(2) by (simp add: redeem_link_def hook_frame)
  show ?thesis
  proof (cases "unsubscribedAt (s_facts r) = None")
    case True
    then have "resolve_send (vt_workspaceId v) (vt_sendId v) (redeem_link v now db) =
        resolve_send (vt_workspaceId v) (vt_sendId v) (fact_step (vt_workspaceId v) (vt_sendId v) UnsubscribedAt now None db)"
      using sends r(2) by (simp add: resolve_send_def)
    then show ?thesis by (simp add: resolve_fact_step [OF assms(3)])
  next
    case False
    then have "l_sends (redeem_link v now db) = l_sends db" unfolding sends by (simp only: if_False)
    then show ?thesis using False assms(3) by (simp add: resolve_send_def)
  qed
qed

lemma redeem_no_send:
  assumes "resolve_send (vt_workspaceId v) (vt_sendId v) db = None" "uuid_shaped (vt_contactId v)"
  shows "resolve_send (vt_workspaceId v) (vt_sendId v) (redeem_link v now db) = None"
  using assms(1) by (simp add: redeem_link_def apply_no_send [OF assms] resolve_send_def hook_frame)

text \<open>What is unsubscribed and recorded already is left alone.\<close>

lemma redeem_idle:
  assumes "counters_inv db" "uuid_shaped (vt_contactId v)"
    and "prior_status (vt_workspaceId v) (vt_contactId v) db = Some StUnsubscribed"
    and "\<And>r. resolve_send (vt_workspaceId v) (vt_sendId v) db = Some r \<Longrightarrow> unsubscribedAt (s_facts r) \<noteq> None"
  shows "redeem_link v now db = db"
proof -
  have st: "change_status (vt_workspaceId v) (vt_contactId v) StUnsubscribed src now db = (db, False)" for src
    using assms(3) by (simp add: change_status_def)
  show ?thesis
  proof (cases "resolve_send (vt_workspaceId v) (vt_sendId v) db")
    case None
    then show ?thesis by (simp add: redeem_link_def apply_no_send [OF None assms(2)] st)
  next
    case (Some r)
    then have "setFactColumnOnce (vt_workspaceId v) (s_id r) UnsubscribedAt now None db = (db, False)"
      using assms(4) resolve_send_Some [OF Some] by (intro fact_set_step [OF assms(1)]) simp_all
    then show ?thesis
      using assms(2) Some by (simp add: redeem_link_def applyUnsubscribeWithSendFact_def coalesce_def Let_def st)
  qed
qed

text \<open>C35: A valid link unsubscribes its contact and records the fact on its send, keeps the campaign counters exact, and posting it again changes nothing.\<close>

theorem unsubscribe_link_works_once:
  assumes "verifyUnsubscribeToken hmac env token = Some v" "of_int (now div second_ms) \<le> vt_exp v"
    and "uuid_shaped (vt_contactId v)" "counters_inv db"
    and "prior_status (vt_workspaceId v) (vt_contactId v) db \<noteq> None"
    and "post_unsubscribe hmac env now html token db = (db', reply)"
  shows "prior_status (vt_workspaceId v) (vt_contactId v) db' = Some StUnsubscribed \<and> counters_inv db'
    \<and> (\<forall>r. resolve_send (vt_workspaceId v) (vt_sendId v) db = Some r \<longrightarrow>
        (\<exists>r'. resolve_send (vt_workspaceId v) (vt_sendId v) db' = Some r' \<and> unsubscribedAt (s_facts r') \<noteq> None))
    \<and> (\<forall>later html. fst (post_unsubscribe hmac env later html token db') = db')"
proof -
  have db': "db' = redeem_link v now db" using assms(1-3,6) by (simp add: post_unsubscribe_def)
  have status: "prior_status (vt_workspaceId v) (vt_contactId v) db' = Some StUnsubscribed"
    using change_status_contacts(2) [of "vt_workspaceId v" "vt_contactId v" StUnsubscribed UnsubscribeRoute now db] assms(5)
      redeem_contacts [OF assms(3)] by (auto simp: db' prior_status_def split: prod.splits)
      (metis prod.collapse)
  have inv: "counters_inv db'" unfolding db' by (rule redeem_inv [OF assms(4,3)])
  have sent: "\<exists>r'. resolve_send (vt_workspaceId v) (vt_sendId v) db' = Some r' \<and> unsubscribedAt (s_facts r') \<noteq> None"
    if "resolve_send (vt_workspaceId v) (vt_sendId v) db = Some r" for r
    unfolding db' by (rule redeem_fact [OF assms(4,3) that])
  have "unsubscribedAt (s_facts r) \<noteq> None" if "resolve_send (vt_workspaceId v) (vt_sendId v) db' = Some r" for r
    using that sent redeem_no_send [OF _ assms(3), of db now]
    by (cases "resolve_send (vt_workspaceId v) (vt_sendId v) db") (auto simp: db')
  then have "redeem_link v later db' = db'" for later
    by (intro redeem_idle inv assms(3) status)
  then have "fst (post_unsubscribe hmac env later html token db') = db'" for later html
    using assms(1) by (simp add: post_unsubscribe_def)
  then show ?thesis using status inv sent by blast
qed


section \<open>What a request cannot do\<close>

lemma filter_update_where:
  assumes "\<And>x. p x \<Longrightarrow> p (g x)"
  shows "filter (\<lambda>x. \<not> p x) (update_where p g t) = filter (\<lambda>x. \<not> p x) t"
  using assms by (induction t) auto

lemma filter_unset:
  "filter (\<lambda>r. \<not> visible_id w i r) (update_where (fact_unset w i col) (write_fact col t rs) tbl) =
   filter (\<lambda>r. \<not> visible_id w i r) tbl"
  by (induction tbl) (auto simp: fact_unset_def visible_id_def)

lemma apply_sends:
  assumes "applyUnsubscribeWithSendFact w (Some c) (Some i) t src now db = (db', res)"
  shows "filter (\<lambda>r. \<not> visible_id w i r) (l_sends db') = filter (\<lambda>r. \<not> visible_id w i r) (l_sends db)"
proof (cases "resolve_send w i db")
  case None
  then show ?thesis
    using assms status_frame(1) [of w c StUnsubscribed src now db]
    by (auto simp: applyUnsubscribeWithSendFact_def Let_def coalesce_def split: if_splits prod.splits)
next
  case (Some r)
  then show ?thesis
    using assms status_frame(1) [of w c StUnsubscribed src now db] resolve_send_Some [OF Some]
    by (auto simp: applyUnsubscribeWithSendFact_def Let_def coalesce_def setFactColumnOnce_def filter_unset
        split: if_splits prod.splits)
qed

lemma redeem_sends:
  "filter (\<lambda>r. \<not> visible_id (vt_workspaceId v) (vt_sendId v) r) (l_sends (redeem_link v now db)) =
   filter (\<lambda>r. \<not> visible_id (vt_workspaceId v) (vt_sendId v) r) (l_sends db)"
  by (auto simp: redeem_link_def hook_frame dest: apply_sends split: prod.splits)

text \<open>C36: A request to the public route that changes anything carries the digest of its payload under a retained secret and has not expired, and it touches no contact and no send but those the payload names.\<close>

theorem only_a_signed_link_changes_anything:
  assumes "digest_bytes hmac" "post_unsubscribe hmac env now html token db = (db', reply)" "db' \<noteq> db"
  shows "\<exists>encoded signature secret v.
      token = encoded @ ''.'' @ signature \<and> secret \<in> set (candidate_list env)
      \<and> b64_decode signature = hmac secret encoded
      \<and> Option.bind (json_parse_text (text_of_bytes (b64_decode encoded))) read_payload = Some v
      \<and> of_int (now div second_ms) \<le> vt_exp v
      \<and> filter (\<lambda>c. \<not> contact_is (vt_workspaceId v) (vt_contactId v) c) (t_contacts db') =
          filter (\<lambda>c. \<not> contact_is (vt_workspaceId v) (vt_contactId v) c) (t_contacts db)
      \<and> filter (\<lambda>r. \<not> visible_id (vt_workspaceId v) (vt_sendId v) r) (l_sends db') =
          filter (\<lambda>r. \<not> visible_id (vt_workspaceId v) (vt_sendId v) r) (l_sends db)"
proof -
  from assms(2,3) obtain v where v: "verifyUnsubscribeToken hmac env token = Some v" "of_int (now div second_ms) \<le> vt_exp v"
      "uuid_shaped (vt_contactId v)" and db': "db' = redeem_link v now db"
    by (auto simp: post_unsubscribe_def Let_def split: option.splits if_splits)
  from v(1) obtain encoded signature secret where sig: "split_on (CHR ''.'') token = [encoded, signature]"
      "secret \<in> set (candidate_list env)" "b64_decode signature = hmac secret encoded"
      "Option.bind (json_parse_text (text_of_bytes (b64_decode encoded))) read_payload = Some v"
    unfolding verify_iff [OF assms(1)] by blast
  obtain d b where st: "change_status (vt_workspaceId v) (vt_contactId v) StUnsubscribed UnsubscribeRoute now db = (d, b)"
    by force
  have "filter (\<lambda>c. \<not> contact_is (vt_workspaceId v) (vt_contactId v) c) (t_contacts db') =
      filter (\<lambda>c. \<not> contact_is (vt_workspaceId v) (vt_contactId v) c) (t_contacts db)"
    using redeem_contacts [OF v(3), of now db] change_status_contacts(1) [OF st]
      filter_update_where [of "contact_is (vt_workspaceId v) (vt_contactId v)"
        "\<lambda>x. x\<lparr>ct_subscriptionStatus := StUnsubscribed, ct_updatedAt := now\<rparr>" "t_contacts db"]
    by (simp add: db' st) (simp add: contact_is_def)
  then show ?thesis
    using sig v(2) split_two [OF sig(1)] redeem_sends [of v now db] db' by fastforce
qed

end
