(* ===== verification/Webhook_Ingress.thy ===== *)
theory Webhook_Ingress
  imports Webhook_Events
begin

text \<open>
  The two ends of the ingestion: the public receiver of the provider's deliveries
  (\<open>apps/api/src/modules/webhooks/webhooks.routes.ts\<close>, \<open>signature-verify.ts\<close>, \<open>enqueue.ts\<close>) with the journal it
  writes before it queues a batch (\<open>packages/db/src/webhooks/ingress-journal.ts\<close>), and the sweep that queues again what
  was not ingested and disposes of what is old (\<open>apps/worker/src/queues/webhook-replay-sweep.worker.ts\<close>). The
  signature library is \<open>verify\<close>, which fails as \<open>None\<close>; \<open>JSON.parse\<close> of the body is \<open>json_parse\<close>; a payload reads
  back from the queue as it was written.
\<close>

section \<open>The receiver\<close>

record endpoint_row =
  ep_workspaceId :: uuid
  ep_pathToken :: string
  ep_publicKey :: "string option"

record webhook_request =
  rq_pathToken :: string
  rq_body :: string
  rq_signature :: "string option"
  rq_timestamp :: "string option"

text \<open>The database, the endpoints that are provisioned, the data of the jobs that are queued.\<close>

record ingress =
  in_db :: crm
  in_endpoints :: "endpoint_row list"
  in_queue :: "js list"

definition DEFAULT_WEBHOOK_TIMESTAMP_TOLERANCE_SECONDS :: int where
  "DEFAULT_WEBHOOK_TIMESTAMP_TOLERANCE_SECONDS = 600"

definition verifyWebhookSignature ::
  "(string \<Rightarrow> string \<Rightarrow> string \<Rightarrow> string \<Rightarrow> bool option) \<Rightarrow> string \<Rightarrow> string \<Rightarrow> string option \<Rightarrow> string option \<Rightarrow> bool" where
  "verifyWebhookSignature verify publicKey rawBody signature timestamp =
     (if \<not> truthy signature \<or> \<not> truthy timestamp then False
      else case verify publicKey rawBody (the signature) (the timestamp) of None \<Rightarrow> False | Some ok \<Rightarrow> ok)"

definition isWebhookTimestampFresh :: "string option \<Rightarrow> int \<Rightarrow> instant \<Rightarrow> bool" where
  "isWebhookTimestampFresh timestamp toleranceSeconds now =
     (if \<not> truthy timestamp then False
      else case js_number (the timestamp) of
             Fin timestampSeconds \<Rightarrow> \<bar>of_int now / 1000 - timestampSeconds\<bar> \<le> of_int toleranceSeconds
           | _ \<Rightarrow> False)"

definition findWebhookEndpointByToken :: "endpoint_row list \<Rightarrow> string \<Rightarrow> endpoint_row option" where
  "findWebhookEndpointByToken table pathToken = find (\<lambda>r. ep_pathToken r = pathToken) table"

definition isWorkspaceSoftDeletedById :: "uuid \<Rightarrow> crm \<Rightarrow> bool" where
  "isWorkspaceSoftDeletedById workspaceId db =
     (case t_organizations db workspaceId of None \<Rightarrow> True | Some deletedAt \<Rightarrow> deletedAt \<noteq> None)"

definition WEBHOOK_EVENTS_SCHEMA_VERSION :: rat where
  "WEBHOOK_EVENTS_SCHEMA_VERSION = 1"

definition buildWebhookEventsJobPayload :: "uuid \<Rightarrow> js list \<Rightarrow> uuid option \<Rightarrow> js" where
  "buildWebhookEventsJobPayload workspaceId events journalId =
     JObj ([(''workspaceId'', JStr workspaceId), (''events'', JArr events),
            (''schemaVersion'', JNum (Fin WEBHOOK_EVENTS_SCHEMA_VERSION))]
           @ (case journalId of None \<Rightarrow> [] | Some i \<Rightarrow> [(''journalId'', JStr i)]))"

text \<open>The insert of the journal's row, under the id that the database chooses: \<open>None\<close> where the statement fails, as it
  does for a text with the character NUL in a \<open>jsonb\<close> column.\<close>

definition writeIngressJournal :: "instant \<Rightarrow> uuid \<Rightarrow> uuid \<Rightarrow> js list \<Rightarrow> crm \<Rightarrow> crm option" where
  "writeIngressJournal now newId workspaceId rawBatch db =
     (if list_ex js_has_nul rawBatch then None
      else Some (db\<lparr>t_journal := t_journal db
                  @ [\<lparr>jr_id = newId, jr_workspaceId = workspaceId, jr_rawBatch = Some rawBatch, jr_receivedAt = now,
                      jr_ingestionCompletedAt = None, jr_replayCount = 0, jr_payloadPurgedAt = None\<rparr>]\<rparr>))"

text \<open>\<open>POST /webhooks/sendgrid/:pathToken\<close>: the status code and the state. \<open>db_ok\<close> and \<open>queue_ok\<close> tell whether the
  journal's transaction and the queue's client work.\<close>

definition sendgridWebhook ::
  "(string \<Rightarrow> string \<Rightarrow> string \<Rightarrow> string \<Rightarrow> bool option) \<Rightarrow> (string \<Rightarrow> js option) \<Rightarrow> int \<Rightarrow> bool \<Rightarrow> bool \<Rightarrow> instant \<Rightarrow> uuid
     \<Rightarrow> webhook_request \<Rightarrow> ingress \<Rightarrow> nat \<times> ingress" where
  "sendgridWebhook verify json_parse tolerance db_ok queue_ok now newId rq st =
     (case findWebhookEndpointByToken (in_endpoints st) (rq_pathToken rq) of
        None \<Rightarrow> (404, st)
      | Some endpoint \<Rightarrow>
          if \<not> truthy (ep_publicKey endpoint) then (404, st)
          else if isWorkspaceSoftDeletedById (ep_workspaceId endpoint) (in_db st) then (404, st)
          else if \<not> verifyWebhookSignature verify (the (ep_publicKey endpoint)) (rq_body rq) (rq_signature rq) (rq_timestamp rq)
                  \<or> \<not> isWebhookTimestampFresh (rq_timestamp rq) tolerance now
          then (400, st)
          else
            (case json_parse (rq_body rq) of
               None \<Rightarrow> (400, st)
             | Some parsed \<Rightarrow>
                 let events = (case parsed of JArr es \<Rightarrow> es | v \<Rightarrow> [v])
                 in (case (if db_ok then writeIngressJournal now newId (ep_workspaceId endpoint) events (in_db st) else None) of
                       None \<Rightarrow> (500, st)
                     | Some db1 \<Rightarrow>
                         if queue_ok
                         then (200, st\<lparr>in_db := db1,
                                 in_queue := in_queue st @ [buildWebhookEventsJobPayload (ep_workspaceId endpoint) events (Some newId)]\<rparr>)
                         else (500, st\<lparr>in_db := db1\<rparr>))))"

section \<open>The journal's retention\<close>

definition INGRESS_JOURNAL_RETENTION_DAYS :: nat where
  "INGRESS_JOURNAL_RETENTION_DAYS = 7"

definition INGRESS_JOURNAL_STUCK_THRESHOLD_MINUTES :: nat where
  "INGRESS_JOURNAL_STUCK_THRESHOLD_MINUTES = 15"

definition SEND_EVENT_QUARANTINE_RETENTION_DAYS :: nat where
  "SEND_EVENT_QUARANTINE_RETENTION_DAYS = 7"

definition is_stuck :: "uuid \<Rightarrow> nat \<Rightarrow> instant \<Rightarrow> journal_row \<Rightarrow> bool" where
  "is_stuck tenant olderThanMinutes now r =
     (jr_workspaceId r = tenant \<and> jr_ingestionCompletedAt r = None
      \<and> jr_receivedAt r < now - int olderThanMinutes * 60 * second_ms)"

definition findStuckIngressJournalRows :: "uuid \<Rightarrow> nat \<Rightarrow> nat \<Rightarrow> instant \<Rightarrow> crm \<Rightarrow> journal_row list" where
  "findStuckIngressJournalRows tenant olderThanMinutes limit now db =
     take limit (sort_key jr_receivedAt (filter (is_stuck tenant olderThanMinutes now) (t_journal db)))"

definition prunable :: "uuid \<Rightarrow> nat \<Rightarrow> instant \<Rightarrow> journal_row \<Rightarrow> bool" where
  "prunable tenant retentionDays now r =
     (jr_workspaceId r = tenant \<and> jr_receivedAt r < now - int retentionDays * day_ms \<and> jr_ingestionCompletedAt r \<noteq> None)"

definition pruneIngressJournal :: "uuid \<Rightarrow> nat \<Rightarrow> instant \<Rightarrow> crm \<Rightarrow> crm \<times> nat" where
  "pruneIngressJournal tenant retentionDays now db =
     (db\<lparr>t_journal := delete_where (prunable tenant retentionDays now) (t_journal db)\<rparr>,
      row_count (prunable tenant retentionDays now) (t_journal db))"

definition purgeable :: "uuid \<Rightarrow> nat \<Rightarrow> instant \<Rightarrow> journal_row \<Rightarrow> bool" where
  "purgeable tenant retentionDays now r =
     (jr_workspaceId r = tenant \<and> jr_receivedAt r < now - int retentionDays * day_ms \<and> jr_ingestionCompletedAt r = None
      \<and> jr_payloadPurgedAt r = None)"

definition purgeExpiredIngressJournalPayloads :: "uuid \<Rightarrow> nat \<Rightarrow> instant \<Rightarrow> crm \<Rightarrow> crm \<times> nat" where
  "purgeExpiredIngressJournalPayloads tenant retentionDays now db =
     (db\<lparr>t_journal := update_where (purgeable tenant retentionDays now)
           (\<lambda>r. r\<lparr>jr_rawBatch := None, jr_payloadPurgedAt := Some now\<rparr>) (t_journal db)\<rparr>,
      row_count (purgeable tenant retentionDays now) (t_journal db))"

definition expired_quarantine :: "uuid \<Rightarrow> nat \<Rightarrow> instant \<Rightarrow> quarantine_row \<Rightarrow> bool" where
  "expired_quarantine tenant retentionDays now r =
     (qr_workspaceId r = tenant \<and> qr_receivedAt r < now - int retentionDays * day_ms)"

definition pruneSendEventQuarantine :: "uuid \<Rightarrow> nat \<Rightarrow> instant \<Rightarrow> crm \<Rightarrow> crm \<times> nat" where
  "pruneSendEventQuarantine tenant retentionDays now db =
     (db\<lparr>t_quarantine := delete_where (expired_quarantine tenant retentionDays now) (t_quarantine db)\<rparr>,
      row_count (expired_quarantine tenant retentionDays now) (t_quarantine db))"

section \<open>The replay sweep\<close>

definition WEBHOOK_REPLAY_SWEEP_PAGE_LIMIT :: nat where
  "WEBHOOK_REPLAY_SWEEP_PAGE_LIMIT = 200"

definition WEBHOOK_REPLAY_MAX_ATTEMPTS :: nat where
  "WEBHOOK_REPLAY_MAX_ATTEMPTS = 5"

record WorkspaceTickThresholds =
  stuckThresholdMinutes :: nat
  pageLimit :: nat
  maxAttempts :: nat
  retentionDays :: nat
  quarantineRetentionDays :: nat

definition default_thresholds :: WorkspaceTickThresholds where
  "default_thresholds =
     \<lparr>stuckThresholdMinutes = INGRESS_JOURNAL_STUCK_THRESHOLD_MINUTES, pageLimit = WEBHOOK_REPLAY_SWEEP_PAGE_LIMIT,
      maxAttempts = WEBHOOK_REPLAY_MAX_ATTEMPTS, retentionDays = INGRESS_JOURNAL_RETENTION_DAYS,
      quarantineRetentionDays = SEND_EVENT_QUARANTINE_RETENTION_DAYS\<rparr>"

record WorkspaceTickResult =
  tr_enqueueCandidates :: "(uuid \<times> js list option) list"
  tr_rowsSkippedAttemptCapped :: nat
  tr_rowsSkippedTombstoned :: nat
  tr_journalRowsPruned :: nat
  tr_journalPayloadsPurged :: nat
  tr_quarantineRowsPruned :: nat

definition tombstoned :: "journal_row \<Rightarrow> bool" where
  "tombstoned r = (jr_payloadPurgedAt r \<noteq> None)"

definition attempt_capped :: "nat \<Rightarrow> journal_row \<Rightarrow> bool" where
  "attempt_capped cap r = (jr_payloadPurgedAt r = None \<and> jr_replayCount r \<ge> cap)"

definition eligible :: "nat \<Rightarrow> journal_row \<Rightarrow> bool" where
  "eligible cap r = (\<not> tombstoned r \<and> \<not> attempt_capped cap r)"

text \<open>\<open>UPDATE ... WHERE id = ANY($1) RETURNING id, raw_batch\<close>; without an eligible row it is not issued, which is the
  same.\<close>

definition bumped_row :: "uuid \<Rightarrow> uuid list \<Rightarrow> journal_row \<Rightarrow> bool" where
  "bumped_row tenant eligibleIds r = (jr_workspaceId r = tenant \<and> jr_id r \<in> set eligibleIds)"

definition runWorkspaceTick :: "WorkspaceTickThresholds \<Rightarrow> instant \<Rightarrow> uuid \<Rightarrow> crm \<Rightarrow> crm \<times> WorkspaceTickResult" where
  "runWorkspaceTick th now workspaceId db =
     (let stuckRows = findStuckIngressJournalRows workspaceId (stuckThresholdMinutes th) (pageLimit th) now db;
          eligibleIds = map jr_id (filter (eligible (maxAttempts th)) stuckRows);
          p = bumped_row workspaceId eligibleIds;
          candidates = map (\<lambda>r. (jr_id r, jr_rawBatch r)) (filter p (t_journal db));
          db1 = db\<lparr>t_journal := update_where p (\<lambda>r. r\<lparr>jr_replayCount := jr_replayCount r + 1\<rparr>) (t_journal db)\<rparr>;
          (db2, pruned) = pruneIngressJournal workspaceId (retentionDays th) now db1;
          (db3, purged) = purgeExpiredIngressJournalPayloads workspaceId (retentionDays th) now db2;
          (db4, quarantined) = pruneSendEventQuarantine workspaceId (quarantineRetentionDays th) now db3
      in (db4,
          \<lparr>tr_enqueueCandidates = candidates,
           tr_rowsSkippedAttemptCapped = length (filter (attempt_capped (maxAttempts th)) stuckRows),
           tr_rowsSkippedTombstoned = length (filter tombstoned stuckRows),
           tr_journalRowsPruned = pruned, tr_journalPayloadsPurged = purged, tr_quarantineRowsPruned = quarantined\<rparr>))"

definition replay_jobs :: "uuid \<Rightarrow> WorkspaceTickResult \<Rightarrow> js list" where
  "replay_jobs workspaceId res =
     map (\<lambda>(i, batch). buildWebhookEventsJobPayload workspaceId (nullish batch []) (Some i)) (tr_enqueueCandidates res)"

text \<open>The tick of one workspace, then its jobs. \<open>queue_ok\<close> tells of each job whether the client accepts it: the first
  that fails ends the whole sweep, what was committed stays.\<close>

definition sweepWorkspace ::
  "WorkspaceTickThresholds \<Rightarrow> (js \<Rightarrow> bool) \<Rightarrow> instant \<Rightarrow> uuid \<Rightarrow> ingress \<Rightarrow> bool \<times> ingress" where
  "sweepWorkspace th queue_ok now workspaceId st =
     (let (db1, res) = runWorkspaceTick th now workspaceId (in_db st);
          jobs = replay_jobs workspaceId res
      in (list_all queue_ok jobs, st\<lparr>in_db := db1, in_queue := in_queue st @ takeWhile queue_ok jobs\<rparr>))"

text \<open>The workspaces in the order of the scan.\<close>

fun runWebhookReplaySweep ::
  "WorkspaceTickThresholds \<Rightarrow> (js \<Rightarrow> bool) \<Rightarrow> instant \<Rightarrow> uuid list \<Rightarrow> ingress \<Rightarrow> bool \<times> ingress" where
  "runWebhookReplaySweep th queue_ok now [] st = (True, st)"
| "runWebhookReplaySweep th queue_ok now (w # ws) st =
     (case sweepWorkspace th queue_ok now w st of
        (True, st1) \<Rightarrow> runWebhookReplaySweep th queue_ok now ws st1
      | (False, st1) \<Rightarrow> (False, st1))"

text \<open>\<open>webhookReplaySweepTickJobSchema\<close>: a job of another version is deferred.\<close>

definition WEBHOOK_REPLAY_SWEEP_TICK_SCHEMA_VERSION :: rat where
  "WEBHOOK_REPLAY_SWEEP_TICK_SCHEMA_VERSION = 1"

definition webhookReplaySweepTick ::
  "WorkspaceTickThresholds \<Rightarrow> (js \<Rightarrow> bool) \<Rightarrow> instant \<Rightarrow> uuid list \<Rightarrow> js \<Rightarrow> ingress \<Rightarrow> bool \<times> ingress" where
  "webhookReplaySweepTick th queue_ok now ws data st =
     (if (case data of JObj _ \<Rightarrow> True | _ \<Rightarrow> False)
         \<and> js_get data ''schemaVersion'' = JNum (Fin WEBHOOK_REPLAY_SWEEP_TICK_SCHEMA_VERSION)
      then runWebhookReplaySweep th queue_ok now ws st else (True, st))"

end
