(* ===== verification/Webhook_Replay.thy ===== *)
theory Webhook_Replay
  imports Webhook_Counters
begin

text \<open>
  A batch that is delivered again: what the unique key of the events table stops, and what it does not.
\<close>

section \<open>What no event changes\<close>

definition send_keys :: "crm \<Rightarrow> (uuid \<times> uuid) list" where
  "send_keys db = map (\<lambda>r. (s_id r, s_workspaceId r)) (l_sends db)"

lemma send_keys_cong: "l_sends db' = l_sends db \<Longrightarrow> send_keys db' = send_keys db"
  by (simp add: send_keys_def)

lemma setFact_frame:
  assumes "setFactColumnOnce w i col t rs db = (db', b)"
  shows "send_keys db' = send_keys db" "t_sendEvents db' = t_sendEvents db" "t_journal db' = t_journal db"
proof -
  have "map (\<lambda>r. (s_id r, s_workspaceId r)) (update_where p (write_fact col t rs) tab) = map (\<lambda>r. (s_id r, s_workspaceId r)) tab"
    for p tab by (rule map_update_where) simp
  then show "send_keys db' = send_keys db" "t_sendEvents db' = t_sendEvents db" "t_journal db' = t_journal db"
    using assms by (auto simp: setFactColumnOnce_def send_keys_def)
qed

lemma bump_send_frame:
  assumes "\<And>r. s_id (g r) = s_id r \<and> s_workspaceId (g r) = s_workspaceId r"
  shows "send_keys (bump_send w i g db) = send_keys db" "t_sendEvents (bump_send w i g db) = t_sendEvents db"
    "t_journal (bump_send w i g db) = t_journal db"
proof -
  have "map (\<lambda>r. (s_id r, s_workspaceId r)) (update_where p g tab) = map (\<lambda>r. (s_id r, s_workspaceId r)) tab" for p tab
    by (rule map_update_where) (simp add: assms)
  then show "send_keys (bump_send w i g db) = send_keys db" "t_sendEvents (bump_send w i g db) = t_sendEvents db"
    "t_journal (bump_send w i g db) = t_journal db"
    by (simp_all add: bump_send_def send_keys_def)
qed

definition event_frame :: "crm \<Rightarrow> crm \<Rightarrow> bool" where
  "event_frame db db' = (send_keys db' = send_keys db \<and> t_sendEvents db' = t_sendEvents db \<and> t_journal db' = t_journal db)"

lemma event_frame_refl: "event_frame db db"
  by (simp add: event_frame_def)

lemma event_frame_trans: "event_frame a b \<Longrightarrow> event_frame b c \<Longrightarrow> event_frame a c"
  by (simp add: event_frame_def)

lemma frame_intro:
  "l_sends db' = l_sends db \<Longrightarrow> t_sendEvents db' = t_sendEvents db \<Longrightarrow> t_journal db' = t_journal db \<Longrightarrow> event_frame db db'"
  by (simp add: event_frame_def send_keys_def)

lemma frame_fact: "setFactColumnOnce w i col t rs db = (db', b) \<Longrightarrow> event_frame db db'"
  using setFact_frame [of w i col t rs db db' b] by (simp add: event_frame_def)

lemma frame_status: "change_status w k new src now db = (db', b) \<Longrightarrow> event_frame db db'"
  using status_frame [of w k new src now db] by (intro frame_intro) simp_all

lemma frame_unsubscribe:
  assumes "applyUnsubscribeWithSendFact w c i t src now db = (db', res)"
  shows "event_frame db db'"
  using assms
  by (auto simp: applyUnsubscribeWithSendFact_def Let_def event_frame_refl split: option.splits prod.splits if_splits
      dest!: frame_status frame_fact elim: event_frame_trans)

lemma frame_counted: "event_frame db (count_fact w now r t ctr m db)" "event_frame db (count_terminal w now r t db)"
  by (auto simp: count_terminal_def count_fact_def hook_frame intro!: frame_intro)

lemma frame_more:
  "event_frame db (incrementWorkspaceDailyRollup w t m now db)" "event_frame db (write_contact w c g db)"
  "event_frame db (bump_if_campaign w now k ctr db)"
  by (simp_all add: frame_intro hook_frame)

lemma frame_bump:
  "event_frame db (bump_send w i (\<lambda>r. r\<lparr>s_openCount := s_openCount r + 1\<rparr>) db)"
  "event_frame db (bump_send w i (\<lambda>r. r\<lparr>s_clickCount := s_clickCount r + 1\<rparr>) db)"
  by (simp_all add: event_frame_def bump_send_frame)

lemma frame_suppression: "applySuppression cr now w c why s = Inr s' \<Longrightarrow> event_frame (k_db s) (k_db s')"
  using applySuppression_frame by (intro frame_intro) blast+

lemma frame_terminal:
  assumes "terminal_suppression cr w now r t col rs why s = Inr s'"
  shows "event_frame (k_db s) (k_db s')"
proof -
  obtain db1 b where f: "setFactColumnOnce w (s_id r) col t rs (k_db s) = (db1, b)" by force
  show ?thesis
  proof (cases b)
    case True
    then have "event_frame (count_terminal w now r t db1) (k_db s')"
      using assms f frame_suppression by (fastforce simp: terminal_suppression_def)
    then show ?thesis using frame_fact [OF f] frame_counted(2) event_frame_trans by blast
  next
    case False
    then show ?thesis using assms f frame_fact [OF f] by (auto simp: terminal_suppression_def)
  qed
qed

lemma frame_unsubscribe_event: "event_frame db (unsubscribe_event w now r t db)"
proof -
  obtain db1 res where u: "applyUnsubscribeWithSendFact w (Some (s_contactId r)) (Some (s_id r)) t WebhookUnsubscribe now db = (db1, res)"
    by force
  show ?thesis
    using frame_unsubscribe [OF u] by (auto simp: unsubscribe_event_def u event_frame_def hook_frame send_keys_def)
qed

lemma frame_dropped:
  assumes "applyEventSideEffects cr w now r Dropped reason t s = Inr s'"
  shows "event_frame (k_db s) (k_db s')"
proof -
  obtain db1 b where f: "setFactColumnOnce w (s_id r) DroppedAt t (Some (DropReason reason)) (k_db s) = (db1, b)" by force
  let ?db2 = "count_terminal w now r t db1"
  have f2: "event_frame (k_db s) ?db2" using frame_fact [OF f] frame_counted(2) event_frame_trans by blast
  obtain db3 au where u: "applyUnsubscribeWithSendFact w (Some (s_contactId r)) (Some (s_id r)) t WebhookUnsubscribe now ?db2 = (db3, au)"
    by force
  have f3: "event_frame (k_db s) db3" using f2 frame_unsubscribe [OF u] event_frame_trans by blast
  have f4: "event_frame (k_db s) (bump_if_campaign w now (au_campaignId au) UnsubscribedCount db3)"
    using f3 frame_more(3) event_frame_trans by blast
  have f5: "event_frame (k_db s) (k_db s')"
    if "applySuppression cr now w (s_contactId r) why (s\<lparr>k_db := ?db2\<rparr>) = Inr s'" for why
    using frame_suppression [OF that] f2 event_frame_trans by fastforce
  show ?thesis
    using assms frame_fact [OF f] f2 f3 f4 f5
    by (auto simp: f u on_kdb_def Let_def split: if_splits option.splits SuppressionStatus.splits)
qed

lemma frame_event:
  assumes "applyEventSideEffects cr w now r kind reason t s = Inr s'"
  shows "event_frame (k_db s) (k_db s')"
proof (cases kind)
  case Delivered
  obtain db1 b where f: "setFactColumnOnce w (s_id r) DeliveredAt t None (k_db s) = (db1, b)" by force
  show ?thesis
    using assms frame_fact [OF f] Delivered
    by (auto simp: f on_kdb_def event_frame_def hook_frame send_keys_def)
next
  case Open
  obtain db1 b where f: "setFactColumnOnce w (s_id r) FirstOpenedAt t None (k_db s) = (db1, b)" by force
  show ?thesis
    using assms frame_fact [OF f] Open frame_bump(1) frame_counted(1)
    by (auto simp: f on_kdb_def event_frame_def)
next
  case Click
  obtain db1 b where f: "setFactColumnOnce w (s_id r) FirstClickedAt t None (k_db s) = (db1, b)" by force
  show ?thesis
    using assms frame_fact [OF f] Click frame_bump(2) frame_counted(1)
    by (auto simp: f on_kdb_def event_frame_def)
next
  case BounceSoft
  let ?s1 = "on_kdb (write_contact w (s_contactId r)
    (\<lambda>c. c\<lparr>ct_consecutiveSoftBounces := ct_consecutiveSoftBounces c + 1, ct_updatedAt := now\<rparr>)) s"
  have "event_frame (k_db s) (k_db ?s1)" by (simp add: on_kdb_def frame_more)
  then show ?thesis
    using assms BounceSoft frame_terminal [of cr w now r t BouncedAt _ _ ?s1 s'] event_frame_trans
    by (auto simp: Let_def split: if_splits)
next
  case Dropped
  then show ?thesis using assms frame_dropped by blast
qed (use assms frame_terminal frame_unsubscribe_event in \<open>force simp: on_kdb_def\<close>)+

lemma frame_new_events: "apply_new_events cr w now rows s = Inr s' \<Longrightarrow> event_frame (k_db s) (k_db s')"
proof (induction rows arbitrary: s)
  case (Cons row rows)
  then show ?case
    using frame_event event_frame_trans
    by (force split: option.splits sum.splits prod.splits)
qed (simp add: event_frame_refl)

section \<open>The unique key\<close>

lemma dedup_key_send_event:
  "dedup_key (send_event_of now w row) = map_option (\<lambda>i. (w, i, ex_eventType row, ex_occurredAt row)) (ex_sendId row)"
  by (simp add: dedup_key_def send_event_of_def)

lemma insert_keeps:
  "insert_send_events now w rows tab = (tab', new) \<Longrightarrow> set tab \<subseteq> set tab'"
proof (induction now w rows tab arbitrary: tab' new rule: insert_send_events.induct)
  case (2 now w row rows tab)
  then show ?case by (fastforce split: if_splits prod.splits)
qed simp

lemma insert_covers:
  "insert_send_events now w rows tab = (tab', new) \<Longrightarrow> row \<in> set rows \<Longrightarrow> ex_sendId row = Some i \<Longrightarrow>
     \<exists>e \<in> set tab'. dedup_key e = Some (w, i, ex_eventType row, ex_occurredAt row)"
proof (induction now w rows tab arbitrary: tab' new rule: insert_send_events.induct)
  case (2 now w row' rows tab)
  show ?case
  proof (cases "row = row' \<and> \<not> (\<exists>e \<in> set tab. dedup_key e = dedup_key (send_event_of now w row'))")
    case True
    then obtain new' where "insert_send_events now w rows (tab @ [send_event_of now w row']) = (tab', new')"
      using 2(3) by (auto split: prod.splits if_splits)
    from insert_keeps [OF this] show ?thesis
      using True 2(5) by (intro bexI [of _ "send_event_of now w row'"]) (auto simp: dedup_key_send_event)
  next
    case False
    note old = this
    show ?thesis
    proof (cases "row = row'")
      case True
      then obtain e where "e \<in> set tab" "dedup_key e = dedup_key (send_event_of now w row')" using old by blast
      then show ?thesis
        using True 2(5) insert_keeps [OF 2(3)] by (intro bexI [of _ e]) (auto simp: dedup_key_send_event)
    next
      case False
      then show ?thesis using 2 by (auto split: prod.splits if_splits)
    qed
  qed
qed simp

lemma insert_new:
  "insert_send_events now w rows tab = (tab', new) \<Longrightarrow> row \<in> set new \<Longrightarrow>
     row \<in> set rows \<and> (\<forall>i. ex_sendId row = Some i \<longrightarrow>
       \<not> (\<exists>e \<in> set tab. dedup_key e = Some (w, i, ex_eventType row, ex_occurredAt row)))"
proof (induction now w rows tab arbitrary: tab' new rule: insert_send_events.induct)
  case (2 now w row' rows tab)
  show ?case
  proof (cases "dedup_key (send_event_of now w row') \<noteq> None \<and> (\<exists>e \<in> set tab. dedup_key e = dedup_key (send_event_of now w row'))")
    case True
    then show ?thesis using 2 by auto
  next
    case False
    then obtain new' where n: "insert_send_events now w rows (tab @ [send_event_of now w row']) = (tab', new')" "new = row' # new'"
      using 2(3) by (auto split: prod.splits if_splits)
    show ?thesis
    proof (cases "row = row'")
      case True
      then show ?thesis using False by (auto simp: dedup_key_send_event)
    next
      case other: False
      then show ?thesis using 2(2) [OF False n(1)] n(2) 2(4) by auto
    qed
  qed
qed simp

section \<open>The same rows again\<close>

text \<open>The ids of the sends are a primary key, written as the database writes them.\<close>

definition ids_canonical :: "crm \<Rightarrow> bool" where
  "ids_canonical db = (distinct (map s_id (l_sends db)) \<and> (\<forall>r \<in> set (l_sends db). to_lower (s_id r) = s_id r))"

lemma ids_canonical_keys:
  "ids_canonical db \<longleftrightarrow> distinct (map fst (send_keys db)) \<and> (\<forall>k \<in> set (send_keys db). to_lower (fst k) = fst k)"
  by (simp add: ids_canonical_def send_keys_def o_def)

lemma classify_accepted:
  "classifyOccurredAt v now = AtAccepted t \<longleftrightarrow>
     (\<exists>q. v = JNum (Fin q) \<and> \<bar>q * 1000\<bar> \<le> MAX_DATE_TIME_VALUE_MS \<and> of_int (now - 604800000) \<le> q * 1000
        \<and> q * 1000 \<le> of_int (now + 300000) \<and> t = time_clip (q * 1000))"
  by (auto simp: classifyOccurredAt_def Let_def OCCURRED_AT_MAX_PAST_DAYS_def OCCURRED_AT_MAX_FUTURE_SKEW_MINUTES_def
      not_less not_le split: js.splits jsnum.splits if_splits)

lemma accepted_earlier:
  assumes "classifyOccurredAt v now2 = AtAccepted t" "now1 \<le> now2"
  shows "classifyOccurredAt v now1 = AtAccepted t \<or> classifyOccurredAt v now1 = AtRejected ''too_far_future'' v"
proof -
  obtain q where q: "v = JNum (Fin q)" "\<bar>q * 1000\<bar> \<le> MAX_DATE_TIME_VALUE_MS" "of_int (now2 - 604800000) \<le> q * 1000"
    "t = time_clip (q * 1000)"
    using assms(1) by (auto simp: classify_accepted)
  have "of_int (now1 - 604800000) \<le> q * 1000"
    using assms(2) q(3) of_int_le_iff [of "now1 - 604800000" "now2 - 604800000", where 'a = rat] by linarith
  then show ?thesis
    using q by (auto simp: classifyOccurredAt_def Let_def OCCURRED_AT_MAX_PAST_DAYS_def OCCURRED_AT_MAX_FUTURE_SKEW_MINUTES_def)
qed

lemma extracted_verdict:
  "extractEventRow render raw now = Extracted row \<Longrightarrow>
     js_is_object raw \<and> classifyOccurredAt (js_get raw ''timestamp'') now = AtAccepted (ex_occurredAt row)"
  by (auto simp: extractEventRow_def Let_def split: if_splits OccurredAtVerdict.splits)

lemma extract_later:
  assumes "extractEventRow render raw now2 = Extracted row" "now1 \<le> now2"
    and "\<forall>q. extractEventRow render raw now1 = Quarantined q \<longrightarrow> qc_reason q \<noteq> ''too_far_future''"
  shows "extractEventRow render raw now1 = Extracted row"
proof -
  let ?v = "js_get raw ''timestamp''"
  have t: "classifyOccurredAt ?v now2 = AtAccepted (ex_occurredAt row)"
    using extracted_verdict [OF assms(1)] by blast
  then have "classifyOccurredAt ?v now1 \<noteq> AtRejected ''too_far_future'' ?v"
    using assms(1,3) by (auto simp: extractEventRow_def Let_def split: if_splits)
  then have "classifyOccurredAt ?v now1 = AtAccepted (ex_occurredAt row)"
    using accepted_earlier [OF t assms(2)] by blast
  then show ?thesis
    using assms(1) t by (simp add: extractEventRow_def Let_def split: if_splits)
qed

lemma extracted_mem: "row \<in> set (extracted_rows os) \<longleftrightarrow> Extracted row \<in> set os"
  by (induction os rule: extracted_rows.induct) auto

lemma owner_iff:
  assumes "ids_canonical db" "i \<in> set ids"
  shows "ownerBySendId db ids i = Some w \<longleftrightarrow> (i, w) \<in> set (send_keys db)"
proof -
  have d: "distinct (map fst (map (\<lambda>s. (s_id s, s_workspaceId s)) (filter (\<lambda>s. matches_any ids (s_id s)) (l_sends db))))"
    using assms(1) by (simp add: ids_canonical_def o_def distinct_map_filter)
  have "matches_any ids (s_id s)" if "s \<in> set (l_sends db)" "s_id s = i" for s
    using that assms by (metis ids_canonical_def image_eqI list.set_map matches_any_def)
  then show ?thesis
    using map_of_eq_Some_iff [OF d] by (auto simp: ownerBySendId_def send_keys_def)
qed

lemma kept_iff:
  assumes "ids_canonical db"
  shows "row \<in> set (dropSiblingWorkspaceEvents db w rows) \<longleftrightarrow>
    row \<in> set rows \<and> (\<forall>i w'. ex_sendId row = Some i \<and> (i, w') \<in> set (send_keys db) \<longrightarrow> w' = w)"
proof (cases "ex_sendId row")
  case None
  then show ?thesis by (auto simp: dropSiblingWorkspaceEvents_def Let_def)
next
  case (Some i)
  have "i \<in> set (candidateSendIds rows)" if "row \<in> set rows"
    using that Some by (force simp: candidateSendIds_def)
  from owner_iff [OF assms this] show ?thesis
    using Some by (auto simp: dropSiblingWorkspaceEvents_def Let_def split: option.splits) (metis option.exhaust)+
qed

lemma batch_rows_mem:
  assumes "ids_canonical db"
  shows "row \<in> set (batch_rows render db w now es) \<longleftrightarrow>
    (\<exists>raw \<in> set es. extractEventRow render raw now = Extracted row)
    \<and> (\<forall>i w'. ex_sendId row = Some i \<and> (i, w') \<in> set (send_keys db) \<longrightarrow> w' = w)"
  by (auto simp: batch_rows_def kept_iff [OF assms] extracted_mem image_iff Bex_def eq_commute)

lemma resolve_iff: "resolve_send w i db \<noteq> None \<longleftrightarrow> (i, w) \<in> set (send_keys db)"
  by (auto simp: resolve_send_def send_keys_def find_None_iff visible_id_def)

section \<open>A delivery that brings nothing new\<close>

text \<open>What a delivery without effect may still write: the tables of raw events and the marks of their arrival.\<close>

definition only_logs :: "crm \<Rightarrow> crm \<Rightarrow> bool" where
  "only_logs db db' =
     (db' = db\<lparr>t_sendEvents := t_sendEvents db', t_quarantine := t_quarantine db', t_journal := t_journal db',
               t_webhookHealth := t_webhookHealth db'\<rparr>)"

lemma only_logs_refl: "only_logs db db"
  by (simp add: only_logs_def)

lemma only_logs_marks:
  "only_logs db (markJournalCompleteIfPresent now w j db)" "only_logs db (debounceWebhookHealth now w db)"
  "only_logs db (fold (writeQuarantinedEvent now w) cs db)" "only_logs db (db\<lparr>t_sendEvents := tab\<rparr>)"
proof -
  show "only_logs db (fold (writeQuarantinedEvent now w) cs db)"
  proof -
    have "\<exists>q. fold (writeQuarantinedEvent now w) cs db = db\<lparr>t_quarantine := q\<rparr>"
    proof (induction cs arbitrary: db)
      case Nil
      show ?case by (intro exI [of _ "t_quarantine db"]) simp
    next
      case (Cons c cs)
      obtain q where "fold (writeQuarantinedEvent now w) cs (writeQuarantinedEvent now w c db) =
          (writeQuarantinedEvent now w c db)\<lparr>t_quarantine := q\<rparr>" using Cons by blast
      moreover have "(writeQuarantinedEvent now w c db)\<lparr>t_quarantine := q\<rparr> = db\<lparr>t_quarantine := q\<rparr>"
        by (simp add: writeQuarantinedEvent_def)
      ultimately show ?case by (intro exI [of _ q]) simp
    qed
    then show ?thesis by (auto simp: only_logs_def)
  qed
qed (simp_all add: only_logs_def markJournalCompleteIfPresent_def markIngestionComplete_def debounceWebhookHealth_def
      split: option.splits)

lemma only_logs_trans: "only_logs a b \<Longrightarrow> only_logs b c \<Longrightarrow> only_logs a c"
  by (cases a; cases b; cases c) (simp add: only_logs_def)

lemma no_effects: "\<forall>row \<in> set rows. ex_sendId row = None \<Longrightarrow> apply_new_events cr w now rows s = Inr s"
  by (induction rows) (simp_all add: effective_def split: option.splits)

definition all_stored :: "uuid \<Rightarrow> crm \<Rightarrow> ExtractedEventRow list \<Rightarrow> bool" where
  "all_stored w db rows =
     (\<forall>row \<in> set rows. \<forall>i. ex_sendId row = Some i \<and> (i, w) \<in> set (send_keys db) \<longrightarrow>
        (\<exists>e \<in> set (t_sendEvents db). dedup_key e = Some (w, i, ex_eventType row, ex_occurredAt row)))"

lemma resolved_row_sel [simp]:
  "ex_eventType (resolved_row w db row) = ex_eventType row" "ex_occurredAt (resolved_row w db row) = ex_occurredAt row"
  by (simp_all add: resolved_row_def)

lemma resolved_sendId:
  "ex_sendId (resolved_row w db row) = Some i \<longleftrightarrow> ex_sendId row = Some i \<and> (i, w) \<in> set (send_keys db)"
  using resolve_iff by (auto simp: resolved_row_def split: option.splits)

text \<open>Where every key is in the table, the rows that are new have no send.\<close>

lemma idle_new_events:
  assumes "all_stored w (k_db s) rows" and db1: "db1 = fold (writeQuarantinedEvent now w) cs (k_db s)"
    and t: "insert_send_events now w (map (resolved_row w db1) rows) (t_sendEvents db1) = (tab, new)"
  shows "apply_new_events cr w now new s1 = Inr s1"
proof -
  have sk: "send_keys db1 = send_keys (k_db s)" "t_sendEvents db1 = t_sendEvents (k_db s)"
    by (simp_all add: db1 send_keys_def hook_frame)
  have "ex_sendId row = None" if new: "row \<in> set new" for row
  proof (rule ccontr)
    assume "ex_sendId row \<noteq> None"
    then obtain i where i: "ex_sendId row = Some i" by blast
    obtain row0 where r0: "row0 \<in> set rows" "row = resolved_row w db1 row0" using insert_new [OF t new] by auto
    then have "ex_sendId row0 = Some i" "(i, w) \<in> set (send_keys (k_db s))"
      using i by (simp_all add: resolved_sendId sk)
    then obtain e where "e \<in> set (t_sendEvents (k_db s))" "dedup_key e = Some (w, i, ex_eventType row, ex_occurredAt row)"
      using assms(1) r0 unfolding all_stored_def by force
    then show False using insert_new [OF t new] i sk(2) by metis
  qed
  then show ?thesis by (intro no_effects) blast
qed

lemma idle_ingest:
  assumes "all_stored w (k_db s) rows"
  shows "ingest_rows cr now w rows cs j s = Inr (s', n) \<Longrightarrow> only_logs (k_db s) (k_db s') \<and> k_cache s' = k_cache s"
    and "ingest_rows cr now w rows cs j s = Inl (e, cache) \<Longrightarrow> cache = k_cache s"
proof -
  define db1 where db1: "db1 = fold (writeQuarantinedEvent now w) cs (k_db s)"
  obtain tab new where t: "insert_send_events now w (map (resolved_row w db1) rows) (t_sendEvents db1) = (tab, new)" by force
  note idle = idle_new_events [OF assms db1 t]
  show "cache = k_cache s" if "ingest_rows cr now w rows cs j s = Inl (e, cache)"
    using that t by (auto simp: ingest_rows_def Let_def idle simp flip: db1 split: if_splits)
  show "only_logs (k_db s) (k_db s') \<and> k_cache s' = k_cache s" if "ingest_rows cr now w rows cs j s = Inr (s', n)"
  proof -
    have "k_db s' = markJournalCompleteIfPresent now w j (debounceWebhookHealth now w (db1\<lparr>t_sendEvents := tab\<rparr>))"
      "k_cache s' = k_cache s"
      using that t by (auto simp: ingest_rows_def Let_def idle on_kdb_def simp flip: db1 split: if_splits)
    then show ?thesis using only_logs_marks only_logs_trans db1 by metis
  qed
qed

text \<open>A batch whose payload is valid, by the cases of its processor.\<close>

lemma valid_batch_cases [consumes 2, case_names deleted empty failed ingested]:
  assumes "webhookEventsJobSchema is_uuid data = Inr job"
    and "processWebhookEventBatch is_uuid render cr commits now data s = (out, s')"
  obtains "isWorkspaceSoftDeletedForWebhookEvents (wj_workspaceId job) (k_db s)" "s' = s"
  | "batch_rows render (k_db s) (wj_workspaceId job) now (wj_events job) = []"
      "\<not> isWorkspaceSoftDeletedForWebhookEvents (wj_workspaceId job) (k_db s)"
      "s' = on_kdb (markJournalCompleteIfPresent now (wj_workspaceId job) (wj_journalId job)) s" "out = Inr 0"
  | e cache cs where "ingest_rows cr now (wj_workspaceId job)
        (batch_rows render (k_db s) (wj_workspaceId job) now (wj_events job)) cs (wj_journalId job) s = Inl (e, cache)"
      "out = Inl e" "s' = s\<lparr>k_cache := cache\<rparr>"
  | s1 n cs where "ingest_rows cr now (wj_workspaceId job)
        (batch_rows render (k_db s) (wj_workspaceId job) now (wj_events job)) cs (wj_journalId job) s = Inr (s1, n)"
      "\<not> isWorkspaceSoftDeletedForWebhookEvents (wj_workspaceId job) (k_db s)"
      "commits \<and> out = Inr n \<and> s' = s1 \<or> \<not> commits \<and> out = Inl StatementFailed \<and> s' = s\<lparr>k_cache := k_cache s1\<rparr>"
proof -
  let ?w = "wj_workspaceId job"
  let ?rows = "batch_rows render (k_db s) ?w now (wj_events job)"
  let ?cs = "quarantine_candidates (map (\<lambda>raw. extractEventRow render raw now) (wj_events job))"
  have eq: "(out, s') = (if isWorkspaceSoftDeletedForWebhookEvents ?w (k_db s) then (Inr 0, s)
      else if ?rows = [] \<and> ?cs = [] then (Inr 0, on_kdb (markJournalCompleteIfPresent now ?w (wj_journalId job)) s)
      else (case ingest_rows cr now ?w ?rows ?cs (wj_journalId job) s of
          Inl (e, cache) \<Rightarrow> (Inl e, s\<lparr>k_cache := cache\<rparr>)
        | Inr (s1, n) \<Rightarrow> if commits then (Inr n, s1) else (Inl StatementFailed, s\<lparr>k_cache := k_cache s1\<rparr>)))"
    using assms(2) [symmetric]
    by (simp only: processWebhookEventBatch_def assms(1) Let_def batch_rows_def sum.case)
  consider "isWorkspaceSoftDeletedForWebhookEvents ?w (k_db s)"
    | "\<not> isWorkspaceSoftDeletedForWebhookEvents ?w (k_db s)" "?rows = []" "?cs = []"
    | e cache where "\<not> isWorkspaceSoftDeletedForWebhookEvents ?w (k_db s)" "\<not> (?rows = [] \<and> ?cs = [])"
        "ingest_rows cr now ?w ?rows ?cs (wj_journalId job) s = Inl (e, cache)"
    | s1 n where "\<not> isWorkspaceSoftDeletedForWebhookEvents ?w (k_db s)" "\<not> (?rows = [] \<and> ?cs = [])"
        "ingest_rows cr now ?w ?rows ?cs (wj_journalId job) s = Inr (s1, n)"
    by (metis surj_pair sum.exhaust)
  then show thesis
  proof cases
    case 1
    with eq show ?thesis by (intro that(1)) simp_all
  next
    case 2
    with eq show ?thesis by (intro that(2)) simp_all
  next
    case (3 e cache)
    from 3(1,2) eq [unfolded 3(3)] show ?thesis by (intro that(3) [OF 3(3)]) (simp_all split: if_splits)
  next
    case (4 s1 n)
    from 4(1,2) eq [unfolded 4(3)] show ?thesis by (intro that(4) [OF 4(3) 4(1)]) (simp split: if_splits)
  qed
qed

lemma idle_batch:
  assumes "webhookEventsJobSchema is_uuid data = Inr job"
    and "all_stored (wj_workspaceId job) (k_db s) (batch_rows render (k_db s) (wj_workspaceId job) now (wj_events job))"
    and "processWebhookEventBatch is_uuid render cr commits now data s = (out, s')"
  shows "only_logs (k_db s) (k_db s') \<and> k_cache s' = k_cache s"
  using assms(1,3)
proof (cases rule: valid_batch_cases)
  case (failed e cache cs)
  then show ?thesis using idle_ingest(2) [OF assms(2)] by (simp add: only_logs_refl)
next
  case (ingested s1 n cs)
  then show ?thesis using idle_ingest(1) [OF assms(2) ingested(1)] by (auto simp: only_logs_refl)
qed (simp_all add: only_logs_refl on_kdb_def only_logs_marks)

section \<open>Redelivery\<close>

text \<open>After a committed batch, every row of it that a live send owns is in the table.\<close>

lemma ingested_stored:
  assumes "ingest_rows cr now w rows cs j s = Inr (s', n)"
  shows "send_keys (k_db s') = send_keys (k_db s)" "all_stored w (k_db s') rows"
proof -
  define db1 where db1: "db1 = fold (writeQuarantinedEvent now w) cs (k_db s)"
  obtain tab new where t: "insert_send_events now w (map (resolved_row w db1) rows) (t_sendEvents db1) = (tab, new)" by force
  then obtain s2 where s2: "apply_new_events cr w now new (s\<lparr>k_db := db1\<lparr>t_sendEvents := tab\<rparr>\<rparr>) = Inr s2"
      "s' = on_kdb (markJournalCompleteIfPresent now w j \<circ> debounceWebhookHealth now w) s2"
    using assms by (auto simp: ingest_rows_def simp flip: db1 split: if_splits sum.splits)
  have "send_keys (k_db s2) = send_keys db1" "t_sendEvents (k_db s2) = tab"
    using frame_new_events [OF s2(1)] by (simp_all add: event_frame_def send_keys_def)
  then have fin: "send_keys (k_db s') = send_keys db1" "t_sendEvents (k_db s') = tab"
    by (simp_all add: s2(2) on_kdb_def send_keys_def hook_frame)
  have sk: "send_keys db1 = send_keys (k_db s)" by (simp add: db1 send_keys_def hook_frame)
  then show "send_keys (k_db s') = send_keys (k_db s)" using fin by simp
  show "all_stored w (k_db s') rows"
    unfolding all_stored_def
  proof (intro ballI allI impI)
    fix row i
    assume r: "row \<in> set rows" "ex_sendId row = Some i \<and> (i, w) \<in> set (send_keys (k_db s'))"
    then have "ex_sendId (resolved_row w db1 row) = Some i" by (simp add: resolved_sendId fin)
    from insert_covers [OF t _ this] r(1) show "\<exists>e \<in> set (t_sendEvents (k_db s')).
        dedup_key e = Some (w, i, ex_eventType row, ex_occurredAt row)"
      by (simp add: fin)
  qed
qed

lemma redelivered_rows:
  assumes "ids_canonical db" "send_keys db' = send_keys db" "now1 \<le> now2"
    and "\<forall>raw \<in> set es. \<forall>q. extractEventRow render raw now1 = Quarantined q \<longrightarrow> qc_reason q \<noteq> ''too_far_future''"
  shows "set (batch_rows render db' w now2 es) \<subseteq> set (batch_rows render db w now1 es)"
proof
  fix row
  assume r: "row \<in> set (batch_rows render db' w now2 es)"
  have c: "ids_canonical db'" using assms(1,2) by (simp add: ids_canonical_keys)
  obtain raw where "raw \<in> set es" "extractEventRow render raw now2 = Extracted row"
    using r by (auto simp: batch_rows_mem [OF c])
  moreover from this have "extractEventRow render raw now1 = Extracted row"
    using extract_later assms(3,4) by blast
  ultimately show "row \<in> set (batch_rows render db w now1 es)"
    using r assms(2) by (auto simp: batch_rows_mem [OF c] batch_rows_mem [OF assms(1)])
qed

lemma all_stored_mono:
  "all_stored w db rows \<Longrightarrow> set rows' \<subseteq> set rows \<Longrightarrow> all_stored w db rows'"
  unfolding all_stored_def by blast


section \<open>What is stored\<close>

lemma time_clip_bounds: "of_int a \<le> q \<Longrightarrow> q \<le> of_int b \<Longrightarrow> a \<le> time_clip q \<and> time_clip q \<le> b"
  by (simp add: time_clip_def le_floor_iff ceiling_le_iff floor_le_iff less_ceiling_iff le_less) linarith

lemma accepted_bounds:
  "classifyOccurredAt v now = AtAccepted t \<Longrightarrow> now - 604800000 \<le> t \<and> t \<le> now + 300000"
  using time_clip_bounds by (auto simp: classify_accepted simp del: of_int_diff of_int_add)

lemma insert_stored:
  "insert_send_events now w rows tab = (tab', new) \<Longrightarrow> e \<in> set tab' \<Longrightarrow> e \<in> set tab \<or> e \<in> send_event_of now w ` set rows"
proof (induction now w rows tab arbitrary: tab' new rule: insert_send_events.induct)
  case (2 now w row rows tab)
  show ?case
  proof (cases "dedup_key (send_event_of now w row) \<noteq> None \<and> (\<exists>e \<in> set tab. dedup_key e = dedup_key (send_event_of now w row))")
    case True
    then show ?thesis using 2 by auto
  next
    case False
    then obtain new' where "insert_send_events now w rows (tab @ [send_event_of now w row]) = (tab', new')"
      using 2(3) by (auto split: prod.splits if_splits)
    then show ?thesis using 2(2) [OF False] 2(4) by auto
  qed
qed simp

lemma insert_unique:
  "insert_send_events now w rows tab = (tab', new) \<Longrightarrow> unique_key dedup_key tab \<Longrightarrow> unique_key dedup_key tab'"
proof (induction now w rows tab arbitrary: tab' new rule: insert_send_events.induct)
  case (2 now w row rows tab)
  show ?case
  proof (cases "dedup_key (send_event_of now w row) \<noteq> None \<and> (\<exists>e \<in> set tab. dedup_key e = dedup_key (send_event_of now w row))")
    case True
    then show ?thesis using 2 by auto
  next
    case False
    then obtain new' where n: "insert_send_events now w rows (tab @ [send_event_of now w row]) = (tab', new')"
      using 2(3) by (auto split: prod.splits if_splits)
    have "unique_key dedup_key (tab @ [send_event_of now w row])"
      using False 2(4) by (cases "dedup_key (send_event_of now w row)") (auto simp: unique_key_def)
    then show ?thesis using 2(2) [OF False n] by blast
  qed
qed simp

lemma ingest_stored_rows:
  assumes "ingest_rows cr now w rows cs j s = Inr (s', n)"
  shows "e \<in> set (t_sendEvents (k_db s')) \<Longrightarrow>
      e \<in> set (t_sendEvents (k_db s)) \<or> (\<exists>row \<in> set rows. e = send_event_of now w (resolved_row w (k_db s) row))"
    and "unique_key dedup_key (t_sendEvents (k_db s)) \<Longrightarrow> unique_key dedup_key (t_sendEvents (k_db s'))"
proof -
  define db1 where db1: "db1 = fold (writeQuarantinedEvent now w) cs (k_db s)"
  obtain tab new where t: "insert_send_events now w (map (resolved_row w db1) rows) (t_sendEvents db1) = (tab, new)" by force
  then obtain s2 where s2: "apply_new_events cr w now new (s\<lparr>k_db := db1\<lparr>t_sendEvents := tab\<rparr>\<rparr>) = Inr s2"
      "s' = on_kdb (markJournalCompleteIfPresent now w j \<circ> debounceWebhookHealth now w) s2"
    using assms by (auto simp: ingest_rows_def simp flip: db1 split: if_splits sum.splits)
  have fin: "t_sendEvents (k_db s') = tab"
    using frame_new_events [OF s2(1)] by (simp add: event_frame_def s2(2) on_kdb_def hook_frame)
  have same: "resolve_send w i db1 = resolve_send w i (k_db s)" for i
    by (simp add: db1 hook_frame resolve_send_def)
  have old: "t_sendEvents db1 = t_sendEvents (k_db s)" "resolved_row w db1 = resolved_row w (k_db s)"
    by (simp add: db1 hook_frame) (intro ext, simp add: resolved_row_def same cong: option.case_cong)
  show "e \<in> set (t_sendEvents (k_db s)) \<or> (\<exists>row \<in> set rows. e = send_event_of now w (resolved_row w (k_db s) row))"
    if "e \<in> set (t_sendEvents (k_db s'))"
    using insert_stored [OF t, of e] that by (auto simp: fin old)
  show "unique_key dedup_key (t_sendEvents (k_db s'))" if "unique_key dedup_key (t_sendEvents (k_db s))"
    using insert_unique [OF t] that by (simp add: fin old)
qed

text \<open>The bound of a stored event: its workspace, a live send of it or none, and its time.\<close>

definition event_bounded :: "uuid \<Rightarrow> instant \<Rightarrow> crm \<Rightarrow> send_event_row \<Rightarrow> bool" where
  "event_bounded w now db e =
     (se_workspaceId e = w \<and> now - 7 * day_ms \<le> se_occurredAt e \<and> se_occurredAt e \<le> now + 5 * 60 * second_ms
      \<and> (case se_sendId e of None \<Rightarrow> True | Some i \<Rightarrow> resolve_send w i db \<noteq> None))"

lemma batch_rows_extracted: "row \<in> set (batch_rows render db w now es) \<Longrightarrow> \<exists>raw. extractEventRow render raw now = Extracted row"
  by (auto simp: batch_rows_def dropSiblingWorkspaceEvents_def Let_def extracted_mem)

text \<open>A stored event belongs to the workspace, names a live send of it or none, and occurred within the accepted window; the dedup key stays unique.\<close>

theorem stored_events_are_bounded:
  assumes "webhookEventsJobSchema is_uuid data = Inr job"
    and "processWebhookEventBatch is_uuid render cr commits now data s = (out, s')"
    and "unique_key dedup_key (t_sendEvents (k_db s))"
  shows "unique_key dedup_key (t_sendEvents (k_db s')) \<and>
    (\<forall>e \<in> set (t_sendEvents (k_db s')). e \<in> set (t_sendEvents (k_db s)) \<or> event_bounded (wj_workspaceId job) now (k_db s) e)"
  using assms(1,2)
proof (cases rule: valid_batch_cases)
  case (ingested s1 n cs)
  have "event_bounded (wj_workspaceId job) now (k_db s) (send_event_of now (wj_workspaceId job) (resolved_row (wj_workspaceId job) (k_db s) row))"
    if row: "row \<in> set (batch_rows render (k_db s) (wj_workspaceId job) now (wj_events job))" for row
  proof -
    obtain raw where "extractEventRow render raw now = Extracted row" using batch_rows_extracted [OF row] by blast
    from accepted_bounds [OF conjunct2 [OF extracted_verdict [OF this]]] show ?thesis
      by (auto simp: event_bounded_def send_event_of_def day_ms_def second_ms_def resolved_row_def split: option.splits)
  qed
  then show ?thesis
    using ingested(3) ingest_stored_rows [OF ingested(1)] assms(3) by auto
qed (use assms(3) in \<open>simp_all add: on_kdb_def hook_frame\<close>)

end
