(* ===== verification/Webhook_Pipeline.thy ===== *)
theory Webhook_Pipeline
  imports Webhook_Ingress Webhook_Replay
begin

text \<open>
  The ingestion as a whole: deliveries that are received, jobs that are processed in any order and any number of
  times, sweeps, lost jobs and the writes of the rest of the system.
\<close>

section \<open>The payload of a job\<close>

lemma payload_get:
  "js_get (buildWebhookEventsJobPayload w es j) ''workspaceId'' = JStr w"
  "js_get (buildWebhookEventsJobPayload w es j) ''events'' = JArr es"
  "js_get (buildWebhookEventsJobPayload w es j) ''schemaVersion'' = JNum (Fin 1)"
  "js_get (buildWebhookEventsJobPayload w es j) ''journalId'' = (case j of None \<Rightarrow> JUndefined | Some i \<Rightarrow> JStr i)"
  by (simp_all add: buildWebhookEventsJobPayload_def WEBHOOK_EVENTS_SCHEMA_VERSION_def split: option.splits)

lemma payload_object: "\<exists>fs. buildWebhookEventsJobPayload w es j = JObj fs"
  by (simp add: buildWebhookEventsJobPayload_def)

lemma payload_parses:
  "webhookEventsJobSchema is_uuid (buildWebhookEventsJobPayload w es j) =
     (if is_uuid w \<and> (case j of None \<Rightarrow> True | Some i \<Rightarrow> is_uuid i)
      then Inr \<lparr>wj_workspaceId = w, wj_events = es, wj_journalId = j\<rparr>
      else Inl ((if is_uuid w then [] else [''workspaceId''])
                @ (case j of None \<Rightarrow> [] | Some i \<Rightarrow> if is_uuid i then [] else [''journalId''])))"
  using payload_object [of w es j]
  by (auto simp: webhookEventsJobSchema_def job_issues_def payload_get id_value_def split: option.splits)

lemma payload_job:
  assumes "webhookEventsJobSchema is_uuid (buildWebhookEventsJobPayload w es j) = Inr job"
  shows "job = \<lparr>wj_workspaceId = w, wj_events = es, wj_journalId = j\<rparr>"
  using assms by (simp add: payload_parses split: if_splits)

theorem job_payload_roundtrip:
  assumes "is_uuid w" "\<And>i. j = Some i \<Longrightarrow> is_uuid i"
  shows "webhookEventsJobSchema is_uuid (buildWebhookEventsJobPayload w es j) =
    Inr \<lparr>wj_workspaceId = w, wj_events = es, wj_journalId = j\<rparr>"
  using assms by (simp add: payload_parses split: option.splits)

section \<open>The receiver\<close>

definition genuine ::
  "(string \<Rightarrow> string \<Rightarrow> string \<Rightarrow> string \<Rightarrow> bool option) \<Rightarrow> int \<Rightarrow> instant \<Rightarrow> webhook_request \<Rightarrow> endpoint_row \<Rightarrow> bool" where
  "genuine verify tolerance now rq ep =
     (\<exists>key sig ts q. ep_publicKey ep = Some key \<and> rq_signature rq = Some sig \<and> rq_timestamp rq = Some ts
        \<and> verify key (rq_body rq) sig ts = Some True \<and> js_number ts = Fin q \<and> \<bar>of_int now / 1000 - q\<bar> \<le> of_int tolerance)"

text \<open>The journal's row of a batch when it arrives.\<close>

definition fresh_row :: "uuid \<Rightarrow> uuid \<Rightarrow> js list \<Rightarrow> instant \<Rightarrow> journal_row" where
  "fresh_row i w es now =
     \<lparr>jr_id = i, jr_workspaceId = w, jr_rawBatch = Some es, jr_receivedAt = now, jr_ingestionCompletedAt = None,
      jr_replayCount = 0, jr_payloadPurgedAt = None\<rparr>"

text \<open>A delivery does nothing, or it is journaled, and queued where the queue works.\<close>

lemma delivery_cases:
  assumes "sendgridWebhook verify json_parse tolerance db_ok queue_ok now newId rq st = (code, st')"
  obtains "code \<in> {400, 404, 500}" "st' = st"
  | ep es where "findWebhookEndpointByToken (in_endpoints st) (rq_pathToken rq) = Some ep" "genuine verify tolerance now rq ep"
      "t_organizations (in_db st) (ep_workspaceId ep) = Some None" "\<not> list_ex js_has_nul es"
      "es = (case the (json_parse (rq_body rq)) of JArr vs \<Rightarrow> vs | v \<Rightarrow> [v])" "json_parse (rq_body rq) \<noteq> None"
      "in_db st' = (in_db st)\<lparr>t_journal := t_journal (in_db st) @ [fresh_row newId (ep_workspaceId ep) es now]\<rparr>"
      "in_queue st' = in_queue st @ (if queue_ok then [buildWebhookEventsJobPayload (ep_workspaceId ep) es (Some newId)] else [])"
      "in_endpoints st' = in_endpoints st" "code = (if queue_ok then 200 else 500)"
proof (cases "findWebhookEndpointByToken (in_endpoints st) (rq_pathToken rq)")
  case None
  then show ?thesis using assms that(1) by (simp add: sendgridWebhook_def)
next
  case (Some ep)
  let ?ok = "truthy (ep_publicKey ep) \<and> \<not> isWorkspaceSoftDeletedById (ep_workspaceId ep) (in_db st)
    \<and> verifyWebhookSignature verify (the (ep_publicKey ep)) (rq_body rq) (rq_signature rq) (rq_timestamp rq)
    \<and> isWebhookTimestampFresh (rq_timestamp rq) tolerance now"
  show ?thesis
  proof (cases "?ok \<and> db_ok \<and> json_parse (rq_body rq) \<noteq> None
      \<and> \<not> list_ex js_has_nul (case the (json_parse (rq_body rq)) of JArr vs \<Rightarrow> vs | v \<Rightarrow> [v])")
    case False
    then have "st' = st \<and> code \<in> {400, 404, 500}"
      using assms Some
      by (auto simp: sendgridWebhook_def writeIngressJournal_def Let_def split: if_splits option.splits)
    then show ?thesis using that(1) by blast
  next
    case True
    then have g: "genuine verify tolerance now rq ep"
      by (auto simp: genuine_def truthy_def verifyWebhookSignature_def isWebhookTimestampFresh_def
          split: option.splits if_splits jsnum.splits)
    have o: "t_organizations (in_db st) (ep_workspaceId ep) = Some None"
      using True by (auto simp: isWorkspaceSoftDeletedById_def split: option.splits)
    show ?thesis
      using True assms Some
      by (intro that(2) [OF Some g o _ HOL.refl])
        (auto simp: sendgridWebhook_def writeIngressJournal_def fresh_row_def Let_def split: if_splits)
  qed
qed

theorem delivery_is_verified_journaled_and_queued:
  assumes "sendgridWebhook verify json_parse tolerance db_ok queue_ok now newId rq st = (code, st')"
  shows "(code \<in> {400, 404, 500} \<and> st' = st)
    \<or> (\<exists>ep es. findWebhookEndpointByToken (in_endpoints st) (rq_pathToken rq) = Some ep \<and> genuine verify tolerance now rq ep
         \<and> t_organizations (in_db st) (ep_workspaceId ep) = Some None
         \<and> in_db st' = (in_db st)\<lparr>t_journal := t_journal (in_db st) @ [fresh_row newId (ep_workspaceId ep) es now]\<rparr>
         \<and> (code = 200 \<and> in_queue st' = in_queue st @ [buildWebhookEventsJobPayload (ep_workspaceId ep) es (Some newId)]
            \<or> code = 500 \<and> in_queue st' = in_queue st))"
  using assms
proof (cases rule: delivery_cases)
  case 1
  then show ?thesis by blast
next
  case (2 ep es)
  then show ?thesis by (intro disjI2 exI [of _ ep] exI [of _ es]) auto
qed

text \<open>One event with a text that holds the character NUL, and the whole delivery is refused; the provider's next
  attempt finds the same.\<close>

theorem nul_event_refuses_the_delivery:
  assumes "findWebhookEndpointByToken (in_endpoints st) (rq_pathToken rq) = Some ep" "genuine verify tolerance now rq ep"
    and "t_organizations (in_db st) (ep_workspaceId ep) = Some None" "ep_publicKey ep \<noteq> Some []" "rq_signature rq \<noteq> Some []"
    and "rq_timestamp rq \<noteq> Some []" "json_parse (rq_body rq) = Some (JArr es)" "raw \<in> set es" "js_has_nul raw"
  shows "sendgridWebhook verify json_parse tolerance db_ok queue_ok now newId rq st = (500, st)"
proof -
  have "list_ex js_has_nul es" using assms(8,9) by (auto simp: list_ex_iff)
  then show ?thesis
    using assms(1-7)
    by (auto simp: sendgridWebhook_def genuine_def truthy_def verifyWebhookSignature_def isWebhookTimestampFresh_def
        isWorkspaceSoftDeletedById_def writeIngressJournal_def)
qed

section \<open>The sweep of a workspace\<close>

text \<open>What one tick does to a row of the journal.\<close>

definition tick_row :: "WorkspaceTickThresholds \<Rightarrow> instant \<Rightarrow> uuid \<Rightarrow> uuid list \<Rightarrow> journal_row \<Rightarrow> journal_row" where
  "tick_row th now w ids r =
     (let r1 = (if bumped_row w ids r then r\<lparr>jr_replayCount := jr_replayCount r + 1\<rparr> else r)
      in if purgeable w (retentionDays th) now r1 then r1\<lparr>jr_rawBatch := None, jr_payloadPurgedAt := Some now\<rparr> else r1)"

definition replayed :: "WorkspaceTickThresholds \<Rightarrow> instant \<Rightarrow> uuid \<Rightarrow> crm \<Rightarrow> uuid list" where
  "replayed th now w db =
     map jr_id (filter (eligible (maxAttempts th)) (findStuckIngressJournalRows w (stuckThresholdMinutes th) (pageLimit th) now db))"

lemma tick_row_sel [simp]:
  "jr_id (tick_row th now w ids r) = jr_id r" "jr_workspaceId (tick_row th now w ids r) = jr_workspaceId r"
  "jr_receivedAt (tick_row th now w ids r) = jr_receivedAt r"
  "jr_ingestionCompletedAt (tick_row th now w ids r) = jr_ingestionCompletedAt r"
  by (simp_all add: tick_row_def Let_def)

lemma tick_journal:
  "t_journal (fst (runWorkspaceTick th now w db)) =
     map (tick_row th now w (replayed th now w db)) (delete_where (prunable w (retentionDays th) now) (t_journal db))"
proof -
  let ?p = "bumped_row w (replayed th now w db)"
  let ?g = "\<lambda>r. r\<lparr>jr_replayCount := jr_replayCount r + 1\<rparr>"
  let ?q = "purgeable w (retentionDays th) now"
  let ?h = "\<lambda>r. r\<lparr>jr_rawBatch := None, jr_payloadPurgedAt := Some now\<rparr>"
  have "update_where ?q ?h (delete_where (prunable w n now) (update_where ?p ?g t)) =
      map (\<lambda>r. if ?q (if ?p r then ?g r else r) then ?h (if ?p r then ?g r else r) else (if ?p r then ?g r else r))
        (delete_where (prunable w n now) t)" for t n
    by (induction t) (simp_all add: delete_where_def prunable_def)
  then show ?thesis
    by (simp add: runWorkspaceTick_def pruneIngressJournal_def purgeExpiredIngressJournalPayloads_def
        pruneSendEventQuarantine_def Let_def replayed_def tick_row_def [abs_def])
qed

lemma tick_frame:
  "l_sends (fst (runWorkspaceTick th now w db)) = l_sends db"
  "l_campaigns (fst (runWorkspaceTick th now w db)) = l_campaigns db"
  by (simp_all add: runWorkspaceTick_def pruneIngressJournal_def purgeExpiredIngressJournalPayloads_def
      pruneSendEventQuarantine_def Let_def)

lemma tick_candidates:
  "tr_enqueueCandidates (snd (runWorkspaceTick th now w db)) =
     map (\<lambda>r. (jr_id r, jr_rawBatch r)) (filter (bumped_row w (replayed th now w db)) (t_journal db))"
  by (simp add: runWorkspaceTick_def pruneIngressJournal_def purgeExpiredIngressJournalPayloads_def
      pruneSendEventQuarantine_def Let_def replayed_def)

lemma sweepWorkspace_eq:
  "sweepWorkspace th queue_ok now w st =
     (list_all queue_ok (replay_jobs w (snd (runWorkspaceTick th now w (in_db st)))),
      st\<lparr>in_db := fst (runWorkspaceTick th now w (in_db st)),
         in_queue := in_queue st @ takeWhile queue_ok (replay_jobs w (snd (runWorkspaceTick th now w (in_db st))))\<rparr>)"
  by (simp add: sweepWorkspace_def Let_def split: prod.splits)

section \<open>What the sweep does not do\<close>

text \<open>The page is the oldest rows that are not complete, the ones that cannot be replayed among them: a full page of
  those, and no other batch of the workspace is ever queued again.\<close>

definition exhausted :: "WorkspaceTickThresholds \<Rightarrow> journal_row \<Rightarrow> bool" where
  "exhausted th r = (\<not> eligible (maxAttempts th) r)"

lemma replayed_none:
  assumes "\<forall>r \<in> set (findStuckIngressJournalRows w (stuckThresholdMinutes th) (pageLimit th) now db). exhausted th r"
  shows "replayed th now w db = []"
  using assms by (simp add: replayed_def exhausted_def filter_empty_conv)

lemma old_rows_fill_the_page:
  fixes f :: "'a \<Rightarrow> int"
  assumes "\<And>x y. x \<in> set t \<Longrightarrow> y \<in> set t \<Longrightarrow> q x \<Longrightarrow> p x \<Longrightarrow> q y \<Longrightarrow> \<not> p y \<Longrightarrow> f x < f y"
    and "n \<le> length (filter (\<lambda>x. q x \<and> p x) t)"
  shows "\<forall>x \<in> set (take n (sort_key f (filter q t))). p x"
proof (rule ccontr)
  let ?s = "sort_key f (filter q t)"
  assume "\<not> (\<forall>x \<in> set (take n ?s). p x)"
  then obtain k where k: "k < n" "k < length ?s" "\<not> p (?s ! k)"
    by (auto simp: in_set_conv_nth)
  have mem: "x \<in> set t \<and> q x" if "x \<in> set ?s" for x using that by simp
  have memk: "?s ! k \<in> set ?s" using k(2) by (rule nth_mem)
  have "\<not> p x" if x: "x \<in> set (drop k ?s)" for x
  proof
    assume px: "p x"
    obtain m where "m < length (drop k ?s)" "x = drop k ?s ! m"
      using x by (metis in_set_conv_nth)
    then have m: "k + m < length ?s" "x = ?s ! (k + m)" using k(2) by auto
    have "f (?s ! k) \<le> f (?s ! (k + m))"
      using sorted_nth_mono [OF sorted_sort_key [of f "filter q t"], of k "k + m"] m(1) by simp
    moreover have "f x < f (?s ! k)"
      using assms(1) [of x "?s ! k"] mem [OF in_set_dropD [OF x]] mem [OF memk] px k(3) by blast
    ultimately show False using m(2) by simp
  qed
  then have "filter p (drop k ?s) = []" by (simp add: filter_empty_conv)
  then have "filter p ?s = filter p (take k ?s)"
    by (metis append_take_drop_id filter_append append_Nil2)
  then have "length (filter p ?s) \<le> k"
    using length_filter_le [of p "take k ?s"] by simp
  moreover have "length (filter p ?s) = length (filter (\<lambda>x. q x \<and> p x) t)"
    by (simp add: filter_sort conj_commute)
  ultimately show False using assms(2) k(1) by simp
qed

text \<open>Once rows that cannot be replayed fill the page of the sweep, no batch of the workspace is ever replayed.\<close>

theorem exhausted_rows_starve_the_sweep:
  assumes "\<And>r r'. r \<in> set (t_journal db) \<Longrightarrow> r' \<in> set (t_journal db) \<Longrightarrow> is_stuck w (stuckThresholdMinutes th) now r \<Longrightarrow>
      exhausted th r \<Longrightarrow> is_stuck w (stuckThresholdMinutes th) now r' \<Longrightarrow> \<not> exhausted th r' \<Longrightarrow> jr_receivedAt r < jr_receivedAt r'"
    and "pageLimit th \<le> row_count (\<lambda>r. is_stuck w (stuckThresholdMinutes th) now r \<and> exhausted th r) (t_journal db)"
  shows "tr_enqueueCandidates (snd (runWorkspaceTick th now w db)) = []
    \<and> row_count (\<lambda>r. is_stuck w (stuckThresholdMinutes th) now r \<and> exhausted th r) (t_journal db)
      \<le> row_count (\<lambda>r. is_stuck w (stuckThresholdMinutes th) now r \<and> exhausted th r) (t_journal (fst (runWorkspaceTick th now w db)))"
proof -
  let ?P = "\<lambda>r. is_stuck w (stuckThresholdMinutes th) now r \<and> exhausted th r"
  have "\<forall>r \<in> set (findStuckIngressJournalRows w (stuckThresholdMinutes th) (pageLimit th) now db). exhausted th r"
    unfolding findStuckIngressJournalRows_def
    using assms by (intro old_rows_fill_the_page) (auto simp: row_count_def)
  from replayed_none [OF this] have none: "replayed th now w db = []" .
  then have "tr_enqueueCandidates (snd (runWorkspaceTick th now w db)) = []"
    by (simp add: tick_candidates bumped_row_def)
  moreover have "row_count ?P t \<le> row_count ?P (map (tick_row th now w []) (delete_where (prunable w n now) t))" for t n
    by (induction t)
      (auto simp: delete_where_def prunable_def is_stuck_def exhausted_def eligible_def tombstoned_def tick_row_def bumped_row_def
        attempt_capped_def purgeable_def)
  ultimately show ?thesis by (simp add: tick_journal none)
qed

text \<open>A row past the retention horizon is queued again and loses its payload in the same transaction: where the queue
  then refuses the job, nothing holds the batch any more.\<close>

theorem replay_and_purge_lose_the_batch:
  assumes "r \<in> set (t_journal db)" "distinct (map jr_id (t_journal db))" "jr_workspaceId r = w" "jr_id r \<in> set (replayed th now w db)"
    and "jr_ingestionCompletedAt r = None" "jr_payloadPurgedAt r = None" "jr_receivedAt r < now - int (retentionDays th) * day_ms"
    and "in_db st = db" "sweepWorkspace th (\<lambda>job. False) now w st = (ok, st')"
  shows "\<not> ok \<and> in_queue st' = in_queue st
    \<and> (\<exists>r' \<in> set (t_journal (in_db st')). jr_id r' = jr_id r \<and> jr_rawBatch r' = None \<and> jr_payloadPurgedAt r' = Some now)"
proof -
  have bumped: "bumped_row w (replayed th now w db) r" using assms(3,4) by (simp add: bumped_row_def)
  then have "tr_enqueueCandidates (snd (runWorkspaceTick th now w db)) \<noteq> []"
    using assms(1) by (auto simp: tick_candidates filter_empty_conv)
  then have jobs: "replay_jobs w (snd (runWorkspaceTick th now w db)) \<noteq> []" by (simp add: replay_jobs_def)
  have st': "ok = list_all (\<lambda>job. False) (replay_jobs w (snd (runWorkspaceTick th now w db)))"
    "in_db st' = fst (runWorkspaceTick th now w db)" "in_queue st' = in_queue st"
    using assms(8,9) by (auto simp: sweepWorkspace_eq takeWhile_eq_Nil_iff)
  let ?r' = "tick_row th now w (replayed th now w db) r"
  have "?r' \<in> set (t_journal (in_db st'))"
    using assms(1,5) by (simp add: st'(2) tick_journal prunable_def)
  moreover have "jr_rawBatch ?r' = None" "jr_payloadPurgedAt ?r' = Some now"
    using assms(3,5-7) bumped by (simp_all add: tick_row_def purgeable_def Let_def)
  moreover have "\<not> ok" using st'(1) jobs by (cases "replay_jobs w (snd (runWorkspaceTick th now w db))") auto
  ultimately show ?thesis using st'(3) by (intro conjI bexI [of _ ?r']) simp_all
qed

section \<open>Any interleaving\<close>

text \<open>A step of the deployment: a delivery is received, a queued job is processed (and stays for a retry, or not), a
  workspace is swept, or the rest of the system writes its own tables and jobs are lost. An id that the database
  chooses is in no row and no job.\<close>

record hook_world =
  hw_in :: ingress
  hw_cache :: key_cache

definition fresh_id :: "(string \<Rightarrow> bool) \<Rightarrow> uuid \<Rightarrow> ingress \<Rightarrow> bool" where
  "fresh_id is_uuid i st =
     (i \<notin> jr_id ` set (t_journal (in_db st))
      \<and> (\<forall>data \<in> set (in_queue st). \<forall>job. webhookEventsJobSchema is_uuid data = Inr job \<longrightarrow> wj_journalId job \<noteq> Some i))"

inductive hook_step ::
  "(string \<Rightarrow> string \<Rightarrow> string \<Rightarrow> string \<Rightarrow> bool option) \<Rightarrow> (string \<Rightarrow> js option) \<Rightarrow> (string \<Rightarrow> bool) \<Rightarrow> (js \<Rightarrow> string) \<Rightarrow> crypto
     \<Rightarrow> hook_world \<Rightarrow> hook_world \<Rightarrow> bool"
  for verify json_parse is_uuid render cr where
  receive: "fresh_id is_uuid i (hw_in s) \<Longrightarrow>
      sendgridWebhook verify json_parse tolerance db_ok queue_ok now i rq (hw_in s) = (code, st') \<Longrightarrow>
      hook_step verify json_parse is_uuid render cr s (s\<lparr>hw_in := st'\<rparr>)"
| work: "data \<in> set (in_queue (hw_in s)) \<Longrightarrow>
      processWebhookEventBatch is_uuid render cr commits now data \<lparr>k_db = in_db (hw_in s), k_cache = hw_cache s\<rparr> = (out, k') \<Longrightarrow>
      set queue' \<subseteq> set (in_queue (hw_in s)) \<Longrightarrow>
      hook_step verify json_parse is_uuid render cr s
        (s\<lparr>hw_in := (hw_in s)\<lparr>in_db := k_db k', in_queue := queue'\<rparr>, hw_cache := k_cache k'\<rparr>)"
| sweep: "sweepWorkspace default_thresholds queue_ok now w (hw_in s) = (ok, st') \<Longrightarrow>
      hook_step verify json_parse is_uuid render cr s (s\<lparr>hw_in := st'\<rparr>)"
| other: "t_journal db' = t_journal (in_db (hw_in s)) \<Longrightarrow> set queue' \<subseteq> set (in_queue (hw_in s)) \<Longrightarrow>
      hook_step verify json_parse is_uuid render cr s
        (s\<lparr>hw_in := (hw_in s)\<lparr>in_db := db', in_queue := queue', in_endpoints := endpoints'\<rparr>, hw_cache := cache'\<rparr>)"

text \<open>The journal and the jobs agree: a job that names a row has the batch that the row holds, while it holds it.\<close>

definition job_matches :: "uuid \<Rightarrow> uuid \<Rightarrow> js list \<Rightarrow> journal_row \<Rightarrow> bool" where
  "job_matches w i es r = (jr_id r = i \<longrightarrow> jr_workspaceId r = w \<and> jr_rawBatch r \<in> {Some es, None})"

definition row_ok :: "journal_row \<Rightarrow> bool" where
  "row_ok r = ((jr_rawBatch r = None \<longrightarrow> jr_payloadPurgedAt r \<noteq> None) \<and> jr_replayCount r \<le> WEBHOOK_REPLAY_MAX_ATTEMPTS)"

definition jobs_match :: "(string \<Rightarrow> bool) \<Rightarrow> js list \<Rightarrow> journal_row list \<Rightarrow> bool" where
  "jobs_match is_uuid jobs rows =
     (\<forall>data \<in> set jobs. \<forall>job i. webhookEventsJobSchema is_uuid data = Inr job \<and> wj_journalId job = Some i \<longrightarrow>
        (\<forall>r \<in> set rows. job_matches (wj_workspaceId job) i (wj_events job) r))"

lemma jobs_matchI:
  "(\<And>data job i r. data \<in> set jobs \<Longrightarrow> webhookEventsJobSchema is_uuid data = Inr job \<Longrightarrow> wj_journalId job = Some i \<Longrightarrow>
     r \<in> set rows \<Longrightarrow> job_matches (wj_workspaceId job) i (wj_events job) r) \<Longrightarrow> jobs_match is_uuid jobs rows"
  unfolding jobs_match_def by blast

lemma jobs_matchD:
  "jobs_match is_uuid jobs rows \<Longrightarrow> data \<in> set jobs \<Longrightarrow> webhookEventsJobSchema is_uuid data = Inr job \<Longrightarrow>
     wj_journalId job = Some i \<Longrightarrow> r \<in> set rows \<Longrightarrow> job_matches (wj_workspaceId job) i (wj_events job) r"
  unfolding jobs_match_def by blast

definition journal_inv :: "(string \<Rightarrow> bool) \<Rightarrow> ingress \<Rightarrow> bool" where
  "journal_inv is_uuid st =
     (distinct (map jr_id (t_journal (in_db st))) \<and> (\<forall>r \<in> set (t_journal (in_db st)). row_ok r)
      \<and> jobs_match is_uuid (in_queue st) (t_journal (in_db st)))"

lemma journal_inv_shrink:
  assumes "journal_inv is_uuid st" "t_journal (in_db st') = t_journal (in_db st)" "set (in_queue st') \<subseteq> set (in_queue st)"
  shows "journal_inv is_uuid st'"
  using assms unfolding journal_inv_def jobs_match_def by fastforce

lemma fresh_row_matches: "job_matches w i es (fresh_row i w es now)" "j \<noteq> i \<Longrightarrow> job_matches w' j es' (fresh_row i w es now)"
  by (simp_all add: job_matches_def fresh_row_def)

lemma receive_inv:
  assumes "journal_inv is_uuid st" "fresh_id is_uuid i st"
    and "sendgridWebhook verify json_parse tolerance db_ok queue_ok now i rq st = (code, st')"
  shows "journal_inv is_uuid st'"
  using assms(3)
proof (cases rule: delivery_cases)
  case 1
  then show ?thesis using assms(1) by simp
next
  case (2 ep es)
  let ?row = "fresh_row i (ep_workspaceId ep) es now"
  have rows: "t_journal (in_db st') = t_journal (in_db st) @ [?row]" by (simp add: 2(7))
  have "jobs_match is_uuid (in_queue st') (t_journal (in_db st) @ [?row])"
  proof (rule jobs_matchI)
    fix data job j r
    assume d: "data \<in> set (in_queue st')" "webhookEventsJobSchema is_uuid data = Inr job" "wj_journalId job = Some j"
      "r \<in> set (t_journal (in_db st) @ [?row])"
    show "job_matches (wj_workspaceId job) j (wj_events job) r"
    proof (cases "data \<in> set (in_queue st)")
      case True
      then have "j \<noteq> i" using assms(2) d(2,3) by (auto simp: fresh_id_def)
      then show ?thesis
        using True d assms(1) jobs_matchD fresh_row_matches(2) by (auto simp: journal_inv_def)
    next
      case False
      then have job: "job = \<lparr>wj_workspaceId = ep_workspaceId ep, wj_events = es, wj_journalId = Some i\<rparr>"
        using d(1,2) 2(8) payload_job by (auto split: if_splits)
      show ?thesis
      proof (cases "r = ?row")
        case True
        then show ?thesis using job d(3) fresh_row_matches(1) [of "ep_workspaceId ep" i es now] by simp
      next
        case False
        then have "jr_id r \<noteq> i" using d(4) assms(2) by (auto simp: fresh_id_def)
        then show ?thesis using job d(3) by (simp add: job_matches_def)
      qed
    qed
  qed
  then show ?thesis
    using assms(1,2) by (auto simp: journal_inv_def rows fresh_id_def row_ok_def fresh_row_def)
qed

text \<open>What a processed job does to the journal: at most the mark of its own row.\<close>

lemma ingest_journal:
  assumes "ingest_rows cr now w rows cs j s = Inr (s', n)"
  shows "t_journal (k_db s') = t_journal (markJournalCompleteIfPresent now w j (k_db s))"
proof -
  define db1 where db1: "db1 = fold (writeQuarantinedEvent now w) cs (k_db s)"
  obtain tab new where t: "insert_send_events now w (map (resolved_row w db1) rows) (t_sendEvents db1) = (tab, new)" by force
  then obtain s2 where s2: "apply_new_events cr w now new (s\<lparr>k_db := db1\<lparr>t_sendEvents := tab\<rparr>\<rparr>) = Inr s2"
      "s' = on_kdb (markJournalCompleteIfPresent now w j \<circ> debounceWebhookHealth now w) s2"
    using assms by (auto simp: ingest_rows_def simp flip: db1 split: if_splits sum.splits)
  have "t_journal (k_db s2) = t_journal (k_db s)"
    using frame_new_events [OF s2(1)] by (simp add: event_frame_def db1 hook_frame)
  then show ?thesis
    by (simp add: s2(2) on_kdb_def markJournalCompleteIfPresent_def markIngestionComplete_def hook_frame split: option.splits)
qed

lemma work_journal:
  assumes "processWebhookEventBatch is_uuid render cr commits now data s = (out, s')"
  obtains "t_journal (k_db s') = t_journal (k_db s)"
  | job n where "webhookEventsJobSchema is_uuid data = Inr job" "out = Inr n"
      "t_journal (k_db s') = t_journal (markJournalCompleteIfPresent now (wj_workspaceId job) (wj_journalId job) (k_db s))"
proof (cases "webhookEventsJobSchema is_uuid data")
  case (Inl issues)
  then show ?thesis using assms that(1) by (auto simp: processWebhookEventBatch_def split: if_splits)
next
  case (Inr job)
  from Inr assms show ?thesis
  proof (cases rule: valid_batch_cases)
    case empty
    then show ?thesis by (intro that(2) [OF Inr empty(4)]) (simp add: on_kdb_def)
  next
    case (ingested s1 n cs)
    show ?thesis
    proof (cases commits)
      case True
      then show ?thesis using ingested ingest_journal [OF ingested(1)] by (intro that(2) [OF Inr, of n]) simp_all
    next
      case False
      then show ?thesis using ingested by (intro that(1)) simp
    qed
  qed (auto intro: that(1))
qed

lemma job_matches_complete: "job_matches w i es (r\<lparr>jr_ingestionCompletedAt := x\<rparr>) = job_matches w i es r"
  by (simp add: job_matches_def)

lemma work_inv:
  assumes "journal_inv is_uuid st" "set queue' \<subseteq> set (in_queue st)"
    and "processWebhookEventBatch is_uuid render cr commits now data \<lparr>k_db = in_db st, k_cache = cache\<rparr> = (out, k')"
  shows "journal_inv is_uuid (st\<lparr>in_db := k_db k', in_queue := queue'\<rparr>)"
  using assms(3)
proof (cases rule: work_journal)
  case 1
  then show ?thesis using assms(2) by (intro journal_inv_shrink [OF assms(1)]) simp_all
next
  case (2 job n)
  show ?thesis
  proof (cases "wj_journalId job")
    case None
    then show ?thesis
      using 2(3) assms(2) by (intro journal_inv_shrink [OF assms(1)]) (simp_all add: markJournalCompleteIfPresent_def)
  next
    case (Some i)
    then obtain p x where j: "t_journal (k_db k') = update_where p (\<lambda>r. r\<lparr>jr_ingestionCompletedAt := Some x\<rparr>) (t_journal (in_db st))"
      using 2(3) by (simp add: markJournalCompleteIfPresent_def markIngestionComplete_def)
    have "map jr_id (t_journal (k_db k')) = map jr_id (t_journal (in_db st))"
      unfolding j by (rule map_update_where) simp
    moreover have "\<forall>r \<in> set (t_journal (k_db k')). row_ok r"
      using assms(1) by (simp add: j update_where_ball journal_inv_def row_ok_def)
    moreover have "jobs_match is_uuid queue' (t_journal (k_db k'))"
    proof (rule jobs_matchI)
      fix d job' i' r
      assume d: "d \<in> set queue'" "webhookEventsJobSchema is_uuid d = Inr job'" "wj_journalId job' = Some i'"
        "r \<in> set (t_journal (k_db k'))"
      then obtain r0 where "r0 \<in> set (t_journal (in_db st))" "r = (if p r0 then r0\<lparr>jr_ingestionCompletedAt := Some x\<rparr> else r0)"
        unfolding j set_update_where by blast
      then show "job_matches (wj_workspaceId job') i' (wj_events job') r"
        using d(1-3) assms(1,2) jobs_matchD [of is_uuid "in_queue st" "t_journal (in_db st)" d job' i' r0]
        by (auto simp: journal_inv_def job_matches_complete)
    qed
    ultimately show ?thesis using assms(1) by (simp add: journal_inv_def)
  qed
qed

lemma replayed_eligible:
  assumes "distinct (map jr_id (t_journal db))" "r \<in> set (t_journal db)" "bumped_row w (replayed th now w db) r"
  shows "eligible (maxAttempts th) r" "jr_workspaceId r = w"
proof -
  obtain r' where r': "r' \<in> set (findStuckIngressJournalRows w (stuckThresholdMinutes th) (pageLimit th) now db)"
      "eligible (maxAttempts th) r'" "jr_id r' = jr_id r"
    using assms(3) by (auto simp: bumped_row_def replayed_def)
  then have "r' \<in> set (t_journal db)"
    by (auto simp: findStuckIngressJournalRows_def dest: in_set_takeD)
  then have "r' = r" using assms(1,2) r'(3) by (simp add: distinct_map inj_on_def)
  then show "eligible (maxAttempts th) r" "jr_workspaceId r = w" using r'(2) assms(3) by (simp_all add: bumped_row_def)
qed

lemma tick_row_batch: "jr_rawBatch (tick_row th now w ids r) \<in> {jr_rawBatch r, None}"
  by (simp add: tick_row_def Let_def)

lemma tick_row_matches: "job_matches v i es r \<Longrightarrow> job_matches v i es (tick_row th now w ids r)"
  using tick_row_batch [of th now w ids r] by (auto simp: job_matches_def)

lemma sweep_inv:
  assumes "journal_inv is_uuid st" "sweepWorkspace default_thresholds queue_ok now w st = (ok, st')"
  shows "journal_inv is_uuid st'"
proof -
  let ?ids = "replayed default_thresholds now w (in_db st)"
  let ?tick = "tick_row default_thresholds now w ?ids"
  have d: "distinct (map jr_id (t_journal (in_db st)))" and ok: "\<forall>r \<in> set (t_journal (in_db st)). row_ok r"
    using assms(1) by (simp_all add: journal_inv_def)
  have db': "t_journal (in_db st') = map ?tick (delete_where (prunable w (retentionDays default_thresholds) now) (t_journal (in_db st)))"
    using assms(2) by (auto simp: sweepWorkspace_eq tick_journal)
  have jobs: "set (in_queue st') \<subseteq> set (in_queue st) \<union> set (replay_jobs w (snd (runWorkspaceTick default_thresholds now w (in_db st))))"
    using assms(2) by (auto simp: sweepWorkspace_eq dest: set_takeWhileD)
  have "row_ok (?tick r)" if r: "r \<in> set (t_journal (in_db st))" for r
  proof -
    have "jr_replayCount (?tick r) \<le> WEBHOOK_REPLAY_MAX_ATTEMPTS"
      using ok r replayed_eligible(1) [OF d r, of w default_thresholds now]
      by (auto simp: tick_row_def Let_def row_ok_def eligible_def tombstoned_def attempt_capped_def default_thresholds_def)
    then show ?thesis using ok r by (auto simp: row_ok_def tick_row_def Let_def)
  qed
  then have "\<forall>r \<in> set (t_journal (in_db st')). row_ok r" by (auto simp: db')
  moreover have "distinct (map jr_id (t_journal (in_db st')))"
    using d by (simp add: db' o_def delete_where_def distinct_map_filter)
  moreover have "jobs_match is_uuid (in_queue st') (t_journal (in_db st'))"
  proof (rule jobs_matchI)
    fix data job i r'
    assume a: "data \<in> set (in_queue st')" "webhookEventsJobSchema is_uuid data = Inr job" "wj_journalId job = Some i"
      "r' \<in> set (t_journal (in_db st'))"
    then obtain r where r: "r \<in> set (t_journal (in_db st))" "r' = ?tick r" by (auto simp: db')
    show "job_matches (wj_workspaceId job) i (wj_events job) r'"
    proof (cases "data \<in> set (in_queue st)")
      case True
      have "job_matches (wj_workspaceId job) i (wj_events job) r"
        using jobs_matchD [OF _ True a(2,3) r(1)] assms(1) by (simp add: journal_inv_def)
      from tick_row_matches [OF this] show ?thesis by (simp add: r(2))
    next
      case False
      then obtain r0 where r0: "r0 \<in> set (t_journal (in_db st))" "bumped_row w ?ids r0"
          "data = buildWebhookEventsJobPayload w (nullish (jr_rawBatch r0) []) (Some (jr_id r0))"
        using a(1) jobs by (auto simp: replay_jobs_def tick_candidates)
      have job: "job = \<lparr>wj_workspaceId = w, wj_events = nullish (jr_rawBatch r0) [], wj_journalId = Some (jr_id r0)\<rparr>"
        using payload_job a(2) r0(3) by blast
      have "jr_rawBatch r0 \<noteq> None"
        using replayed_eligible(1) [OF d r0(1,2)] ok r0(1) by (auto simp: row_ok_def eligible_def tombstoned_def)
      then obtain es where es: "jr_rawBatch r0 = Some es" by blast
      have "r = r0" if "jr_id r = jr_id r0" using inj_onD [OF _ that r(1) r0(1)] d by (simp add: distinct_map)
      then have "job_matches w (jr_id r0) (nullish (jr_rawBatch r0) []) r"
        using r0(2) es unfolding job_matches_def bumped_row_def by fastforce
      from tick_row_matches [OF this, of default_thresholds now w ?ids]
      have "job_matches w (jr_id r0) (nullish (jr_rawBatch r0) []) r'" unfolding r(2) .
      moreover have "i = jr_id r0" using a(3) unfolding job by simp
      ultimately show ?thesis unfolding job by (simp only: WebhookEventsJob.simps)
    qed
  qed
  ultimately show ?thesis by (simp add: journal_inv_def)
qed

lemma hook_step_inv:
  "hook_step verify json_parse is_uuid render cr s s' \<Longrightarrow> journal_inv is_uuid (hw_in s) \<Longrightarrow> journal_inv is_uuid (hw_in s')"
proof (induction rule: hook_step.induct)
  case (receive i s tolerance db_ok queue_ok now rq code st')
  then show ?case using receive_inv by simp
next
  case (work data s commits now out k' queue')
  then show ?case using work_inv by simp
next
  case (sweep queue_ok now w s ok st')
  then show ?case using sweep_inv by simp
next
  case (other db' s queue' endpoints' cache')
  show ?case by (rule journal_inv_shrink [OF other(3)]) (simp_all add: other(1,2))
qed

abbreviation hook_steps where
  "hook_steps verify json_parse is_uuid render cr \<equiv> (hook_step verify json_parse is_uuid render cr)\<^sup>*\<^sup>*"

lemma hook_steps_inv:
  "hook_steps verify json_parse is_uuid render cr s s' \<Longrightarrow> journal_inv is_uuid (hw_in s) \<Longrightarrow> journal_inv is_uuid (hw_in s')"
  by (induction rule: rtranclp_induct) (auto intro: hook_step_inv)

text \<open>In every reachable state a queued job carries the batch of its journal row, and no row was replayed more often than the cap.\<close>

theorem journal_and_jobs_agree:
  assumes "hook_steps verify json_parse is_uuid render cr s s'" "t_journal (in_db (hw_in s)) = []" "in_queue (hw_in s) = []"
  shows "distinct (map jr_id (t_journal (in_db (hw_in s')))) \<and> (\<forall>r \<in> set (t_journal (in_db (hw_in s'))). row_ok r)
    \<and> jobs_match is_uuid (in_queue (hw_in s')) (t_journal (in_db (hw_in s')))"
proof -
  have "journal_inv is_uuid (hw_in s)" using assms(2,3) by (simp add: journal_inv_def jobs_match_def)
  from hook_steps_inv [OF assms(1) this] show ?thesis by (simp add: journal_inv_def)
qed

section \<open>No batch is forgotten\<close>

text \<open>A step that ingests the batch of a row: its job is processed to the end, with the events of the row unless they
  were purged before.\<close>

definition ingests ::
  "(string \<Rightarrow> bool) \<Rightarrow> (js \<Rightarrow> string) \<Rightarrow> crypto \<Rightarrow> uuid \<Rightarrow> uuid \<Rightarrow> js list \<Rightarrow> hook_world \<Rightarrow> hook_world \<Rightarrow> bool" where
  "ingests is_uuid render cr w i es m m' =
     (\<exists>data job commits now n k'. data \<in> set (in_queue (hw_in m)) \<and> webhookEventsJobSchema is_uuid data = Inr job
        \<and> wj_workspaceId job = w \<and> wj_journalId job = Some i
        \<and> processWebhookEventBatch is_uuid render cr commits now data \<lparr>k_db = in_db (hw_in m), k_cache = hw_cache m\<rparr> = (Inr n, k')
        \<and> in_db (hw_in m') = k_db k'
        \<and> (wj_events job = es \<or> (\<exists>r \<in> set (t_journal (in_db (hw_in m))). jr_id r = i \<and> jr_payloadPurgedAt r \<noteq> None)))"

text \<open>The row is still there, not complete, with its batch or as a tombstone.\<close>

definition pending :: "uuid \<Rightarrow> uuid \<Rightarrow> js list \<Rightarrow> instant \<Rightarrow> hook_world \<Rightarrow> bool" where
  "pending w i es received s =
     (\<exists>r \<in> set (t_journal (in_db (hw_in s))). jr_id r = i \<and> jr_workspaceId r = w \<and> jr_receivedAt r = received
        \<and> jr_ingestionCompletedAt r = None \<and> (jr_rawBatch r = Some es \<or> jr_payloadPurgedAt r \<noteq> None))"

lemma pending_step:
  assumes "hook_step verify json_parse is_uuid render cr s s'" "journal_inv is_uuid (hw_in s)" "pending w i es received s"
  shows "pending w i es received s' \<or> ingests is_uuid render cr w i es s s'"
proof -
  obtain r where r: "r \<in> set (t_journal (in_db (hw_in s)))" "jr_id r = i" "jr_workspaceId r = w" "jr_receivedAt r = received"
    "jr_ingestionCompletedAt r = None" "jr_rawBatch r = Some es \<or> jr_payloadPurgedAt r \<noteq> None"
    using assms(3) by (auto simp: pending_def)
  from assms(1) show ?thesis
  proof (cases rule: hook_step.cases)
    case (receive j tolerance db_ok queue_ok now rq code st')
    from receive(3) have "r \<in> set (t_journal (in_db st'))"
      using r(1) by (cases rule: delivery_cases) auto
    then show ?thesis using r receive(1) by (auto simp: pending_def)
  next
    case (work data commits now out k' queue')
    from work(3) show ?thesis
    proof (cases rule: work_journal)
      case 1
      then show ?thesis using r work(1) by (auto simp: pending_def)
    next
      case (2 job n)
      show ?thesis
      proof (cases "wj_journalId job = Some i \<and> wj_workspaceId job = w")
        case True
        then have "job_matches w i (wj_events job) r"
          using jobs_matchD [OF _ work(2) 2(1) _ r(1)] assms(2) by (auto simp: journal_inv_def)
        then have "wj_events job = es \<or> jr_payloadPurgedAt r \<noteq> None"
          using r(2,6) by (auto simp: job_matches_def)
        then show ?thesis
          using True 2(1,2) work r(1,2) unfolding ingests_def
          by (intro disjI2 exI [of _ data] exI [of _ job] exI [of _ commits] exI [of _ now] exI [of _ n] exI [of _ k']) auto
      next
        case False
        then have "r \<in> set (t_journal (k_db k'))"
          using 2(3) r(1-3)
          by (auto simp: markJournalCompleteIfPresent_def markIngestionComplete_def set_update_where split: option.splits
              intro: bexI [of _ r])
        then show ?thesis using r work(1) by (auto simp: pending_def)
      qed
    qed
  next
    case (sweep queue_ok now v ok st')
    let ?tick = "tick_row default_thresholds now v (replayed default_thresholds now v (in_db (hw_in s)))"
    have "?tick r \<in> set (t_journal (in_db st'))"
      using sweep(2) r(1,5) by (auto simp: sweepWorkspace_eq tick_journal prunable_def)
    moreover have "jr_rawBatch (?tick r) = Some es \<or> jr_payloadPurgedAt (?tick r) \<noteq> None"
      using r(6) by (auto simp: tick_row_def Let_def)
    ultimately show ?thesis
      using r(2-5) sweep(1) unfolding pending_def by (intro disjI1 bexI [of _ "?tick r"]) simp_all
  next
    case (other db' queue' endpoints' cache')
    then show ?thesis using r by (auto simp: pending_def)
  qed
qed


end
