(* ===== verification/Webhook_Examples.thy ===== *)
theory Webhook_Examples
  imports Webhook_Pipeline
begin

text \<open>
  One delivered send and its events: the concrete inputs at which the properties of the ingestion are applied.
\<close>

definition hook_send_id :: uuid where
  "hook_send_id = ''0a000000-0000-4000-8000-000000000001''"

definition hook_contact_id :: uuid where
  "hook_contact_id = ''0b000000-0000-4000-8000-000000000002''"

definition hook_event :: "string \<Rightarrow> rat \<Rightarrow> js" where
  "hook_event kind seconds =
     JObj [(''sg_event_id'', JStr ''e1''), (''event'', JStr kind), (''timestamp'', JNum (Fin seconds)),
           (''send_id'', JStr hook_send_id)]"

definition hook_batch :: "js list" where
  "hook_batch = [hook_event ''delivered'' 100, hook_event ''dropped'' 101, hook_event ''delivered'' 100]"

definition hook_job :: js where
  "hook_job = buildWebhookEventsJobPayload ''w1'' hook_batch (Some ''j1'')"

definition hook_crypto :: crypto where
  "hook_crypto =
     \<lparr>cr_decrypt = (\<lambda>w s. Some (ciphertext s)),
      cr_encrypt = (\<lambda>w k. Some \<lparr>encryptedDek = [], ciphertext = k, iv = [], authTag = []\<rparr>),
      cr_random = ''key'', cr_hmac = (\<lambda>k m. k @ m)\<rparr>"

definition hook_db :: crm where
  "hook_db = example_db
     \<lparr>l_sends := [new_campaign_send hook_send_id ''w1'' ''c1'' hook_contact_id 5],
      t_contacts := [example_contact\<lparr>ct_id := hook_contact_id\<rparr>],
      t_journal := [fresh_row ''j1'' ''w1'' hook_batch 100000]\<rparr>"

definition hook_state :: keyed where
  "hook_state = \<lparr>k_db = hook_db, k_cache = Map.empty\<rparr>"

definition hook_run :: "instant \<Rightarrow> keyed \<Rightarrow> (webhook_error + nat) \<times> keyed" where
  "hook_run now s = processWebhookEventBatch (\<lambda>i. True) (\<lambda>v. []) hook_crypto True now hook_job s"

lemma hook_outcome:
  "map_prod id (\<lambda>s. map (\<lambda>c. (c_deliveredCount c, c_bouncedCount c)) (l_campaigns (k_db s))) (hook_run 200000 hook_state)
     = (Inr 2, [(1, 1)])"
  by code_simp

lemma hook_job_valid:
  "webhookEventsJobSchema (\<lambda>i. True) hook_job = Inr \<lparr>wj_workspaceId = ''w1'', wj_events = hook_batch, wj_journalId = Some ''j1''\<rparr>"
  by (simp add: hook_job_def payload_parses)

lemma hook_state_ok:
  "sends_wf (k_db hook_state)" "counters_exact (k_db hook_state)" "ids_canonical (k_db hook_state)"
  "unique_key dedup_key (t_sendEvents (k_db hook_state))"
  by code_simp+

lemma hook_batch_extracts:
  assumes "raw \<in> set hook_batch"
  shows "extractEventRow (\<lambda>v. []) raw 200000 \<noteq> Quarantined q"
proof -
  have "list_all (\<lambda>raw. case extractEventRow (\<lambda>v. []) raw 200000 of Quarantined q \<Rightarrow> False | _ \<Rightarrow> True) hook_batch"
    by code_simp
  then show ?thesis using assms by (auto simp: list_all_iff split: ExtractEventOutcome.splits)
qed

lemma hook_first_run:
  obtains s1 where "processWebhookEventBatch (\<lambda>i. True) (\<lambda>v. []) hook_crypto True 200000 hook_job hook_state = (Inr 2, s1)"
  using hook_outcome by (cases "hook_run 200000 hook_state") (auto simp: hook_run_def)

lemma campaign_counters_stay_exact_witness:
  "fst (hook_run 200000 hook_state) = Inr 2
   \<and> sends_wf (k_db (snd (hook_run 200000 hook_state))) \<and> counters_exact (k_db (snd (hook_run 200000 hook_state)))"
proof -
  obtain s1 where s1: "processWebhookEventBatch (\<lambda>i. True) (\<lambda>v. []) hook_crypto True 200000 hook_job hook_state = (Inr 2, s1)"
    by (rule hook_first_run)
  from campaign_counters_stay_exact [OF s1 hook_state_ok(1,2)] s1 show ?thesis by (simp add: hook_run_def)
qed


lemma stored_events_are_bounded_witness:
  "unique_key dedup_key (t_sendEvents (k_db (snd (hook_run 200000 hook_state))))
   \<and> list_all (event_bounded ''w1'' 200000 hook_db) (t_sendEvents (k_db (snd (hook_run 200000 hook_state))))"
proof -
  obtain s1 where s1: "processWebhookEventBatch (\<lambda>i. True) (\<lambda>v. []) hook_crypto True 200000 hook_job hook_state = (Inr 2, s1)"
    by (rule hook_first_run)
  have "t_sendEvents (k_db hook_state) = []" by (simp add: hook_state_def hook_db_def example_db_def empty_crm_def)
  with stored_events_are_bounded [OF hook_job_valid s1 hook_state_ok(4)] s1 show ?thesis
    by (simp add: hook_run_def list_all_iff) (simp add: hook_state_def)
qed

section \<open>The pipeline\<close>

definition hook_endpoint :: endpoint_row where
  "hook_endpoint = \<lparr>ep_workspaceId = ''w1'', ep_pathToken = ''t'', ep_publicKey = Some ''k''\<rparr>"

definition hook_request :: webhook_request where
  "hook_request = \<lparr>rq_pathToken = ''t'', rq_body = ''[]'', rq_signature = Some ''s'', rq_timestamp = Some ''100''\<rparr>"

definition hook_verify :: "string \<Rightarrow> string \<Rightarrow> string \<Rightarrow> string \<Rightarrow> bool option" where
  "hook_verify key body sig ts = Some (key = ''k'' \<and> sig = ''s'')"

definition hook_ingress :: "journal_row list \<Rightarrow> js list \<Rightarrow> ingress" where
  "hook_ingress journal jobs =
     \<lparr>in_db = hook_db\<lparr>t_journal := journal\<rparr>, in_endpoints = [hook_endpoint], in_queue = jobs\<rparr>"

definition hook_start :: hook_world where
  "hook_start = \<lparr>hw_in = hook_ingress [] [], hw_cache = Map.empty\<rparr>"

definition hook_queued :: hook_world where
  "hook_queued = \<lparr>hw_in = hook_ingress [fresh_row ''j1'' ''w1'' hook_batch 100000] [hook_job], hw_cache = Map.empty\<rparr>"

abbreviation hook_parse :: "string \<Rightarrow> js option" where
  "hook_parse \<equiv> \<lambda>body. Some (JArr hook_batch)"

lemma hook_genuine: "genuine hook_verify 600 100000 hook_request hook_endpoint"
proof -
  have "js_number ''100'' = Fin 100" by code_simp
  then show ?thesis
    by (auto simp: genuine_def hook_request_def hook_endpoint_def hook_verify_def)
qed

lemma hook_found: "findWebhookEndpointByToken (in_endpoints (hook_ingress j q)) (rq_pathToken hook_request) = Some hook_endpoint"
  by (simp add: findWebhookEndpointByToken_def hook_ingress_def hook_request_def hook_endpoint_def)

lemma hook_live: "t_organizations (in_db (hook_ingress j q)) (ep_workspaceId hook_endpoint) = Some None"
  by (simp add: hook_ingress_def hook_db_def example_db_def hook_endpoint_def)

lemma hook_receives:
  "hook_step hook_verify hook_parse (\<lambda>i. True) (\<lambda>v. []) hook_crypto hook_start hook_queued"
proof -
  have n: "js_number ''100'' = Fin 100" "\<not> list_ex js_has_nul hook_batch" by code_simp+
  have fresh: "fresh_id (\<lambda>i. True) ''j1'' (hw_in hook_start)"
    by (simp add: fresh_id_def hook_start_def hook_ingress_def)
  have "sendgridWebhook hook_verify hook_parse 600 True True 100000 ''j1'' hook_request (hw_in hook_start) = (200, hw_in hook_queued)"
    using n by (simp add: sendgridWebhook_def hook_start_def hook_queued_def hook_ingress_def findWebhookEndpointByToken_def
        hook_request_def hook_endpoint_def isWorkspaceSoftDeletedById_def hook_db_def example_db_def verifyWebhookSignature_def
        hook_verify_def isWebhookTimestampFresh_def writeIngressJournal_def fresh_row_def hook_job_def Let_def)
  from hook_step.receive [OF fresh this] show ?thesis by (simp add: hook_start_def hook_queued_def)
qed

lemma journal_and_jobs_agree_witness:
  "t_journal (in_db (hw_in hook_queued)) \<noteq> [] \<and> distinct (map jr_id (t_journal (in_db (hw_in hook_queued))))
   \<and> jobs_match (\<lambda>i. True) (in_queue (hw_in hook_queued)) (t_journal (in_db (hw_in hook_queued)))"
  using journal_and_jobs_agree [OF r_into_rtranclp, OF hook_receives]
  by (simp add: hook_start_def hook_ingress_def hook_queued_def)

lemma hook_queued_inv: "journal_inv (\<lambda>i. True) (hw_in hook_queued)"
  using hook_step_inv [OF hook_receives] by (simp add: journal_inv_def jobs_match_def hook_start_def hook_ingress_def)


lemma nul_event_refuses_the_delivery_witness:
  "sendgridWebhook hook_verify (\<lambda>body. Some (JArr [JObj [(''useragent'', JStr [CHR 0x00])]])) 600 True True 100000 ''j1''
     hook_request (hook_ingress [] []) = (500, hook_ingress [] [])"
  by (rule nul_event_refuses_the_delivery [OF hook_found hook_genuine hook_live, where raw = "JObj [(''useragent'', JStr [CHR 0x00])]"
        and es = "[JObj [(''useragent'', JStr [CHR 0x00])]]"])
    (simp_all add: hook_endpoint_def hook_request_def)

lemma exhausted_rows_starve_the_sweep_witness:
  "tr_enqueueCandidates (snd (runWorkspaceTick (default_thresholds\<lparr>pageLimit := 1\<rparr>) (20 * 60 * 1000) ''w1''
     (hook_db\<lparr>t_journal := [(fresh_row ''j0'' ''w1'' [] 0)\<lparr>jr_replayCount := 5\<rparr>, fresh_row ''j1'' ''w1'' hook_batch 1]\<rparr>))) = []"
  by (rule conjunct1 [OF exhausted_rows_starve_the_sweep])
    (auto simp: is_stuck_def exhausted_def eligible_def tombstoned_def attempt_capped_def default_thresholds_def fresh_row_def
      INGRESS_JOURNAL_STUCK_THRESHOLD_MINUTES_def WEBHOOK_REPLAY_MAX_ATTEMPTS_def second_ms_def)

lemma replay_and_purge_lose_the_batch_witness:
  "\<exists>st'. sweepWorkspace default_thresholds (\<lambda>job. False) (8 * day_ms) ''w1'' (hook_ingress [fresh_row ''j1'' ''w1'' hook_batch 0] [])
       = (False, st')
     \<and> in_queue st' = [] \<and> (\<exists>r' \<in> set (t_journal (in_db st')). jr_id r' = ''j1'' \<and> jr_rawBatch r' = None)"
proof -
  let ?r = "fresh_row ''j1'' ''w1'' hook_batch 0"
  let ?st = "hook_ingress [?r] []"
  obtain ok st' where st': "sweepWorkspace default_thresholds (\<lambda>job. False) (8 * day_ms) ''w1'' ?st = (ok, st')" by force
  have "jr_id ?r \<in> set (replayed default_thresholds (8 * day_ms) ''w1'' (in_db ?st))"
    by (simp add: replayed_def findStuckIngressJournalRows_def hook_ingress_def is_stuck_def fresh_row_def eligible_def tombstoned_def
        attempt_capped_def default_thresholds_def INGRESS_JOURNAL_STUCK_THRESHOLD_MINUTES_def WEBHOOK_REPLAY_MAX_ATTEMPTS_def
        WEBHOOK_REPLAY_SWEEP_PAGE_LIMIT_def second_ms_def day_ms_def)
  from replay_and_purge_lose_the_batch [OF _ _ _ this _ _ _ HOL.refl st'] st' show ?thesis
    by (auto simp: hook_ingress_def fresh_row_def default_thresholds_def INGRESS_JOURNAL_RETENTION_DAYS_def day_ms_def)
qed

lemma rolled_back_key_stays_in_use_witness:
  "\<exists>s1. ensureWorkspaceSuppressionKey hook_crypto 0 ''w1'' hook_state = Inr (s1, ''key'')
     \<and> ensureWorkspaceSuppressionKey hook_crypto 1000 ''w1'' (hook_state\<lparr>k_cache := k_cache s1\<rparr>)
         = Inr (hook_state\<lparr>k_cache := k_cache s1\<rparr>, ''key'')
     \<and> t_suppressionKeys (k_db hook_state) ''w1'' = None"
proof -
  have none: "t_suppressionKeys (k_db hook_state) ''w1'' = None" "snd (cacheGet 0 ''w1'' (k_cache hook_state)) = None"
    by (simp_all add: hook_state_def hook_db_def example_db_def empty_crm_def cacheGet_def)
  then obtain s1 where s1: "ensureWorkspaceSuppressionKey hook_crypto 0 ''w1'' hook_state = Inr (s1, ''key'')"
    by (simp add: ensureWorkspaceSuppressionKey_def loadWorkspaceSuppressionKey_def cacheGet_def hook_state_def
        readWrappedKeyRow_def store_key_def hook_crypto_def)
  from rolled_back_key_stays_in_use [OF s1 none(2,1) HOL.refl, of 1000 "[]"] s1 none(1) show ?thesis
    by (simp add: SUPPRESSION_KEY_CACHE_TTL_MS_def)
qed

end
