(* ===== verification/Unsubscribe_Examples.thy ===== *)
theory Unsubscribe_Examples
  imports Unsubscribe_Rotation Unsubscribe_Route Webhook_Examples
begin

text \<open>
  A rotation from one secret to the next with a link mailed before and one after it, and the redemption of the
  first: the concrete inputs at which the properties of unsubscribe links are applied.
\<close>

section \<open>A rotation\<close>

definition toy_digest :: "string \<Rightarrow> string \<Rightarrow> nat list" where
  "toy_digest k m = map of_char k @ [length m mod 256]"

definition old_secret :: string where "old_secret = replicate 32 (CHR ''a'')"

definition new_secret :: string where "new_secret = replicate 32 (CHR ''b'')"

definition env_before :: token_env where
  "env_before = [''UNSUBSCRIBE_TOKEN_SECRET'' \<mapsto> old_secret]"

definition env_between :: token_env where "env_between = introduce_secret new_secret env_before"

definition env_after :: token_env where "env_after = promote_secret new_secret env_between"

definition link_payload :: UnsubscribeTokenPayload where
  "link_payload = \<lparr>tok_sendId = hook_send_id, tok_contactId = hook_contact_id, tok_workspaceId = ''w1'', tok_exp = 1000\<rparr>"

definition link_under :: "string \<Rightarrow> string" where
  "link_under secret =
     (let e = b64_encode (bytes_of_text (stringify_payload link_payload)) in e @ ''.'' @ signWith toy_digest secret e)"

lemma toy_digest_bytes: "digest_bytes toy_digest"
  by (simp add: digest_bytes_def toy_digest_def all_bytes_def list_all_iff)

lemma env_gates:
  "assertUnsubscribeTokenSecrets env_before = None" "assertUnsubscribeTokenSecrets env_between = None"
  "assertUnsubscribeTokenSecrets env_after = None" "new_secret \<in> set (getPreviousSecrets env_between)"
  by code_simp+

lemma env_primary:
  "getPrimarySecret env_before = Inr old_secret" "getPrimarySecret env_after = Inr new_secret"
  by code_simp+

lemma link_signed:
  "getPrimarySecret env = Inr secret \<Longrightarrow> signUnsubscribeToken toy_digest env link_payload = Inr (link_under secret)"
  by (simp add: signUnsubscribeToken_def link_under_def Let_def)

definition rotated :: deployment where
  "rotated = \<lparr>d_file = env_after, d_api = env_between, d_worker = env_after,
     d_mailed = [(link_under new_secret, link_payload), (link_under old_secret, link_payload)]\<rparr>"

lemma rotated_reachable: "rotation_reachable toy_digest env_before rotated"
proof -
  let ?d = "\<lambda>f a w m. \<lparr>d_file = f, d_api = a, d_worker = w, d_mailed = m\<rparr>"
  let ?old = "(link_under old_secret, link_payload)"
  have "rotation_reachable toy_digest env_before (?d env_before env_before env_before [])"
    by (rule Deployed) (rule env_gates)
  then have "rotation_reachable toy_digest env_before (?d env_before env_before env_before [?old])"
    by (rule Stepped) (use MailLink [of toy_digest "?d env_before env_before env_before []"] link_signed env_primary in force)
  then have "rotation_reachable toy_digest env_before (?d env_between env_before env_before [?old])"
    by (rule Stepped)
      (use Introduce [of "?d env_before env_before env_before [?old]" new_secret toy_digest] in
        \<open>simp add: env_between_def new_secret_def\<close>)
  then have "rotation_reachable toy_digest env_before (?d env_between env_between env_before [?old])"
    by (rule Stepped) (use StartApi [of "?d env_between env_before env_before [?old]" toy_digest] env_gates in simp)
  then have "rotation_reachable toy_digest env_before (?d env_between env_between env_between [?old])"
    by (rule Stepped) (use StartWorker [of "?d env_between env_between env_before [?old]" toy_digest] env_gates in simp)
  then have "rotation_reachable toy_digest env_before (?d env_after env_between env_between [?old])"
    by (rule Stepped)
      (use Promote [of "?d env_between env_between env_between [?old]" new_secret toy_digest] env_gates in
        \<open>simp add: env_after_def\<close>)
  then have "rotation_reachable toy_digest env_before (?d env_after env_between env_after [?old])"
    by (rule Stepped) (use StartWorker [of "?d env_after env_between env_between [?old]" toy_digest] env_gates in simp)
  then show ?thesis
    unfolding rotated_def
    by (rule Stepped) (use MailLink [of toy_digest "?d env_after env_between env_after [?old]"] link_signed env_primary in force)
qed

text \<open>The API has not restarted since the promotion and still reads the links of both secrets.\<close>

lemma link_survives_rotation_witness:
  "verifyUnsubscribeToken toy_digest env_between (link_under new_secret) = Some (read_back link_payload)
   \<and> verifyUnsubscribeToken toy_digest env_between (link_under old_secret) = Some (read_back link_payload)"
  using link_survives_rotation [OF toy_digest_bytes rotated_reachable, of "link_under new_secret" link_payload]
    link_survives_rotation [OF toy_digest_bytes rotated_reachable, of "link_under old_secret" link_payload]
  by (simp add: rotated_def)

section \<open>A redemption\<close>

definition redeemed_db :: crm where
  "redeemed_db = redeem_link (read_back link_payload) 5000 hook_db"

lemma link_verifies:
  "verifyUnsubscribeToken toy_digest env_before (link_under old_secret) = Some (read_back link_payload)"
  unfolding read_back_def
  by (rule signed_token_verifies [OF toy_digest_bytes link_signed [OF env_primary(1)] env_primary(1)]) code_simp

lemma link_redeems:
  "post_unsubscribe toy_digest env_before 5000 True (link_under old_secret) hook_db = (redeemed_db, SuccessPage)"
  "redeemed_db \<noteq> hook_db"
proof -
  have "uuid_shaped hook_contact_id" by code_simp
  then show "post_unsubscribe toy_digest env_before 5000 True (link_under old_secret) hook_db = (redeemed_db, SuccessPage)"
    by (simp add: post_unsubscribe_def link_verifies redeemed_db_def read_back_def link_payload_def second_ms_def)
  have "map ct_subscriptionStatus (t_contacts redeemed_db) \<noteq> map ct_subscriptionStatus (t_contacts hook_db)"
    by code_simp
  then show "redeemed_db \<noteq> hook_db" by auto
qed

lemma unsubscribe_link_works_once_witness:
  "prior_status ''w1'' hook_contact_id redeemed_db = Some StUnsubscribed \<and> counters_inv redeemed_db
   \<and> fst (post_unsubscribe toy_digest env_before 9000 False (link_under old_secret) redeemed_db) = redeemed_db"
proof -
  have "counters_inv hook_db" using hook_state_ok by (simp add: counters_inv_def hook_state_def)
  moreover have "prior_status ''w1'' hook_contact_id hook_db \<noteq> None" "uuid_shaped hook_contact_id" by code_simp+
  ultimately show ?thesis
    using unsubscribe_link_works_once [OF link_verifies, of 5000 hook_db True redeemed_db SuccessPage] link_redeems(1)
    by (simp add: read_back_def link_payload_def second_ms_def)
qed

lemma only_a_signed_link_changes_anything_witness:
  "\<exists>encoded signature. link_under old_secret = encoded @ ''.'' @ signature
     \<and> b64_decode signature = toy_digest old_secret encoded"
proof -
  from only_a_signed_link_changes_anything [OF toy_digest_bytes link_redeems] obtain encoded signature secret v where
    "link_under old_secret = encoded @ ''.'' @ signature" "secret \<in> set (candidate_list env_before)"
    "b64_decode signature = toy_digest secret encoded" by blast
  moreover have "candidate_list env_before = [old_secret]" by code_simp
  ultimately show ?thesis by auto
qed

end
