(* ===== verification/Segment_Query.thy ===== *)
theory Segment_Query
  imports Crm_Tables "HOL-Library.Multiset"
begin

text \<open>
  What a segment selects: the meaning of the atoms of a compiled clause on the tables, the three call
  modes that run one compiled clause (count, page, point check), and the repository of segments
  (\<open>apps/api/src/modules/segments/segment.repository.ts\<close>). PostgreSQL's evaluation of a single
  comparison of a contact's column or property with a bound value, casts included, is the parameter
  \<open>sql_semantics\<close>; the tenant predicate, the erasure predicate and the event sub-queries are
  evaluated on the tables. A workspace's statement timeout is not modelled: a timed-out statement
  fails and changes nothing.
\<close>

section \<open>The atoms\<close>

record sql_semantics =
  pg_fixed :: "string \<Rightarrow> ConditionOperator \<Rightarrow> js option \<Rightarrow> instant \<Rightarrow> contact_row \<Rightarrow> sql_bool"
  pg_property :: "js \<Rightarrow> ConditionOperator \<Rightarrow> js option \<Rightarrow> instant \<Rightarrow> contact_row \<Rightarrow> sql_bool"

text \<open>\<open>$n\<close>, and the reading of a bound number as an integer (\<open>HAVING count(*) >= $n\<close>, \<open>($n || '
  days')::interval\<close>).\<close>

definition bound :: "params \<Rightarrow> nat \<Rightarrow> js" where
  "bound ps n = (if 1 \<le> n \<and> n \<le> length ps then ps ! (n - 1) else JUndefined)"

fun js_int :: "js \<Rightarrow> int option" where
  "js_int (JNum x) = jsnum_int x"
| "js_int _ = None"

definition events_count :: "instant \<Rightarrow> crm \<Rightarrow> contact_row \<Rightarrow> js \<Rightarrow> int option \<Rightarrow> nat" where
  "events_count now db c name days =
     row_count (\<lambda>e. ev_workspaceId e = ct_workspaceId c \<and> ev_contactId e = ct_id c
                   \<and> JStr (ev_name e) = name
                   \<and> (case days of None \<Rightarrow> True | Some d \<Rightarrow> now - d * day_ms \<le> ev_occurredAt e))
       (t_events db)"

text \<open>\<open>EXISTS\<close> over the grouped sub-query: the one group of the contact is there when it has an event
  and, with a \<open>HAVING\<close>, at least as many as asked for.\<close>

fun atom_truth :: "sql_semantics \<Rightarrow> instant \<Rightarrow> crm \<Rightarrow> params \<Rightarrow> contact_row \<Rightarrow> sql_atom \<Rightarrow> sql_bool" where
  "atom_truth sem now db ps c (WorkspaceIs n) = Some (bound ps n = JStr (ct_workspaceId c))"
| "atom_truth sem now db ps c NotAnonymized = Some (ct_anonymizedAt c = None)"
| "atom_truth sem now db ps c (Compare (FixedColumn col) op n) =
     pg_fixed sem col op (map_option (bound ps) n) now c"
| "atom_truth sem now db ps c (Compare (PropertyColumn k) op n) =
     pg_property sem (bound ps k) op (map_option (bound ps) n) now c"
| "atom_truth sem now db ps c (EventsExist negate n t k) =
     (let found = events_count now db c (bound ps n) (case t of None \<Rightarrow> None | Some i \<Rightarrow> js_int (bound ps i));
          having = (case k of None \<Rightarrow> True
                    | Some i \<Rightarrow> (case js_int (bound ps i) of None \<Rightarrow> False | Some m \<Rightarrow> m \<le> int found))
      in Some (negate \<noteq> (0 < found \<and> having)))"

definition where_true :: "sql_semantics \<Rightarrow> instant \<Rightarrow> crm \<Rightarrow> CompiledSegment \<Rightarrow> contact_row \<Rightarrow> bool" where
  "where_true sem now db cs c =
     (clause_value (atom_truth sem now db (cs_params cs) c) (cs_where cs) = Some (Some True))"

text \<open>A clause reads the contact and the events, no other table.\<close>

lemma where_true_same:
  assumes "t_events db' = t_events db"
  shows "where_true sem now db' cs = where_true sem now db cs"
proof -
  have "atom_truth sem now db' ps c a = atom_truth sem now db ps c a" for ps c a
    using assms by (cases "(sem, now, db', ps, c, a)" rule: atom_truth.cases) (simp_all add: events_count_def)
  then have "atom_truth sem now db' = atom_truth sem now db" by blast
  then show ?thesis unfolding where_true_def by (simp only:)
qed

section \<open>The three call modes\<close>

datatype query_error = CompileError segment_error | SqlSyntaxError

text \<open>Whether a clause parses does not depend on what its atoms mean.\<close>

definition compiled_query :: "(js \<Rightarrow> string) \<Rightarrow> SegmentDefinition \<Rightarrow> uuid \<Rightarrow> query_error + CompiledSegment" where
  "compiled_query ts def workspaceId =
     (case compileSegmentDefinition ts def workspaceId of
        Inl e \<Rightarrow> Inl (CompileError e)
      | Inr cs \<Rightarrow>
          if clause_value (\<lambda>_. None) (cs_where cs) = None then Inl SqlSyntaxError else Inr cs)"

record pg =
  pg_sem :: sql_semantics
  pg_string :: "js \<Rightarrow> string"

definition countSegmentMembers :: "pg \<Rightarrow> instant \<Rightarrow> uuid \<Rightarrow> SegmentDefinition \<Rightarrow> crm \<Rightarrow> query_error + nat" where
  "countSegmentMembers pg now workspaceId def db =
     (case compiled_query (pg_string pg) def workspaceId of
        Inl e \<Rightarrow> Inl e
      | Inr cs \<Rightarrow> Inr (row_count (where_true (pg_sem pg) now db cs) (t_contacts db)))"

text \<open>\<open>ORDER BY created_at DESC, id ASC\<close> as an insertion order; identifiers are compared bytewise.\<close>

fun string_less :: "string \<Rightarrow> string \<Rightarrow> bool" where
  "string_less _ [] = False"
| "string_less [] (_ # _) = True"
| "string_less (a # as) (b # bs) =
     ((of_char a :: nat) < of_char b \<or> a = b \<and> string_less as bs)"

definition page_before :: "contact_row \<Rightarrow> contact_row \<Rightarrow> bool" where
  "page_before a b =
     (ct_createdAt b < ct_createdAt a \<or> ct_createdAt a = ct_createdAt b \<and> string_less (ct_id a) (ct_id b))"

fun insert_page :: "contact_row \<Rightarrow> contact_row list \<Rightarrow> contact_row list" where
  "insert_page c [] = [c]"
| "insert_page c (d # ds) = (if page_before c d then c # d # ds else d # insert_page c ds)"

definition page_order :: "contact_row list \<Rightarrow> contact_row list" where
  "page_order cs = foldr insert_page cs []"

record SegmentMembersResult =
  sm_items :: "contact_row list"
  sm_total :: nat

definition listSegmentMembers ::
  "pg \<Rightarrow> instant \<Rightarrow> uuid \<Rightarrow> SegmentDefinition \<Rightarrow> nat \<Rightarrow> nat \<Rightarrow> crm \<Rightarrow> query_error + SegmentMembersResult" where
  "listSegmentMembers pg now workspaceId def page pageSize db =
     (case compiled_query (pg_string pg) def workspaceId of
        Inl e \<Rightarrow> Inl e
      | Inr cs \<Rightarrow>
          (let members = filter (where_true (pg_sem pg) now db cs) (t_contacts db)
           in Inr \<lparr>sm_items = take pageSize (drop ((page - 1) * pageSize) (page_order members)),
                   sm_total = length members\<rparr>))"

definition isContactInSegment ::
  "pg \<Rightarrow> instant \<Rightarrow> uuid \<Rightarrow> SegmentDefinition \<Rightarrow> uuid \<Rightarrow> crm \<Rightarrow> query_error + bool" where
  "isContactInSegment pg now workspaceId def contactId db =
     (case compiled_query (pg_string pg) def workspaceId of
        Inl e \<Rightarrow> Inl e
      | Inr cs \<Rightarrow>
          Inr (\<exists>c \<in> set (t_contacts db). where_true (pg_sem pg) now db cs c \<and> ct_id c = contactId))"

section \<open>The repository\<close>

datatype conflict_code = ReferencedByCampaign | ReferencedByFlow

datatype segment_repo_error = QueryFailed query_error | SegmentConflict conflict_code

definition createSegment ::
  "pg \<Rightarrow> instant \<Rightarrow> uuid \<Rightarrow> uuid \<Rightarrow> string \<Rightarrow> SegmentDefinition \<Rightarrow> string \<Rightarrow> crm
     \<Rightarrow> segment_repo_error + (segment_row \<times> crm)" where
  "createSegment pg now newId workspaceId name def createdBy db =
     (let row = \<lparr>sg_id = newId, sg_workspaceId = workspaceId, sg_name = name, sg_definition = def,
                 sg_createdByUserId = createdBy, sg_memberCount = None, sg_memberCountAt = None,
                 sg_createdAt = now, sg_updatedAt = now\<rparr>;
          db1 = db\<lparr>t_segments := t_segments db @ [row]\<rparr>
      in (case countSegmentMembers pg now workspaceId def db1 of
            Inl e \<Rightarrow> Inl (QueryFailed e)
          | Inr memberCount \<Rightarrow>
              (let f = (\<lambda>s. s\<lparr>sg_memberCount := Some (int memberCount), sg_memberCountAt := Some now\<rparr>)
               in Inr (f row,
                       db1\<lparr>t_segments := update_where (\<lambda>s. sg_id s = newId) f (t_segments db1)\<rparr>))))"

definition getSegment :: "uuid \<Rightarrow> uuid \<Rightarrow> crm \<Rightarrow> segment_row option" where
  "getSegment workspaceId i db =
     find (\<lambda>s. sg_workspaceId s = workspaceId \<and> sg_id s = i) (t_segments db)"

definition updateSegment ::
  "pg \<Rightarrow> instant \<Rightarrow> uuid \<Rightarrow> uuid \<Rightarrow> string option \<Rightarrow> SegmentDefinition option \<Rightarrow> crm
     \<Rightarrow> segment_repo_error + (segment_row option \<times> crm)" where
  "updateSegment pg now workspaceId i name def db =
     (case getSegment workspaceId i db of
        None \<Rightarrow> Inr (None, db)
      | Some existing \<Rightarrow>
          (let nextName = nullish name (sg_name existing);
               nextDefinition = nullish def (sg_definition existing);
               write = (\<lambda>count countAt.
                  (let f = (\<lambda>s. s\<lparr>sg_name := nextName, sg_definition := nextDefinition,
                                  sg_memberCount := count, sg_memberCountAt := countAt s,
                                  sg_updatedAt := now\<rparr>)
                   in Inr (Some (f existing),
                           db\<lparr>t_segments := update_where
                                (\<lambda>s. sg_workspaceId s = workspaceId \<and> sg_id s = i) f (t_segments db)\<rparr>)))
           in if def \<noteq> None then
                (case countSegmentMembers pg now workspaceId nextDefinition db of
                   Inl e \<Rightarrow> Inl (QueryFailed e)
                 | Inr n \<Rightarrow> write (Some (int n)) (\<lambda>s. Some now))
              else write (sg_memberCount existing) sg_memberCountAt))"

fun exit_segment :: "FlowExitCondition \<Rightarrow> uuid option" where
  "exit_segment (ExitOnSegment s b) = Some s"
| "exit_segment (ExitOnEvent n) = None"

text \<open>\<open>node ->> 'segmentId'\<close>: trigger and branch nodes carry one.\<close>

fun node_segment :: "FlowNode \<Rightarrow> uuid option" where
  "node_segment (TriggerNode i t e s p) = s"
| "node_segment (BranchNode i s p) = Some s"
| "node_segment _ = None"

definition flow_names_segment :: "uuid \<Rightarrow> flow_row \<Rightarrow> bool" where
  "flow_names_segment i f =
     (f_triggerSegmentId f = Some i \<or> Some i \<in> exit_segment ` set (f_exitConditions f))"

definition findReferencingFlowName :: "uuid \<Rightarrow> uuid \<Rightarrow> crm \<Rightarrow> string option" where
  "findReferencingFlowName workspaceId segmentId db =
     (case find (\<lambda>f. f_workspaceId f = workspaceId \<and> flow_names_segment segmentId f) (t_flows db) of
        Some f \<Rightarrow> Some (f_name f)
      | None \<Rightarrow>
          map_option snd
            (find (\<lambda>(fv, name). fv_workspaceId fv = workspaceId
                     \<and> Some segmentId \<in> node_segment ` set (fd_nodes (fv_definition fv)))
              (concat (map (\<lambda>fv. map (\<lambda>f. (fv, f_name f))
                                   (filter (\<lambda>f. f_id f = fv_flowId fv) (t_flows db)))
                 (t_flowVersions db)))))"

text \<open>The foreign keys that restrict the deletion: they compare no workspace and no status.\<close>

definition segment_fk_restricts :: "uuid \<Rightarrow> crm \<Rightarrow> bool" where
  "segment_fk_restricts i db =
     ((\<exists>c \<in> set (l_campaigns db). c_segmentId c = i)
      \<or> (\<exists>f \<in> set (t_flows db). f_triggerSegmentId f = Some i))"

text \<open>What they demand of a reference that is written: a segment of some workspace, or null.\<close>

definition segment_fk :: "uuid option \<Rightarrow> crm \<Rightarrow> bool" where
  "segment_fk sg db = (case sg of None \<Rightarrow> True | Some i \<Rightarrow> \<exists>s \<in> set (t_segments db). sg_id s = i)"

definition deleteSegment :: "uuid \<Rightarrow> uuid \<Rightarrow> crm \<Rightarrow> segment_repo_error + (bool \<times> crm)" where
  "deleteSegment workspaceId i db =
     (if \<exists>c \<in> set (l_campaigns db). c_workspaceId c = workspaceId \<and> c_segmentId c = i \<and> c_status c \<noteq> CCanceled
      then Inl (SegmentConflict ReferencedByCampaign)
      else if truthy (findReferencingFlowName workspaceId i db)
      then Inl (SegmentConflict ReferencedByFlow)
      else
        let p = (\<lambda>s. sg_workspaceId s = workspaceId \<and> sg_id s = i)
        in if row_count p (t_segments db) > 0 \<and> segment_fk_restricts i db
           then Inl (SegmentConflict ReferencedByCampaign)
           else Inr (row_count p (t_segments db) > 0,
                     db\<lparr>t_segments := delete_where p (t_segments db)\<rparr>))"

section \<open>What the compiled clause means\<close>

text \<open>The membership a definition promises: a condition compares the bound value itself, a
  behavioural condition counts the contact's events.\<close>

fun operand :: "(js \<Rightarrow> string) \<Rightarrow> ConditionOperator \<Rightarrow> js \<Rightarrow> js option" where
  "operand ts OpContains v = Some (like_pattern ts v)"
| "operand ts OpNotContains v = Some (like_pattern ts v)"
| "operand ts OpIsEmpty v = None"
| "operand ts OpIsNotEmpty v = None"
| "operand ts OpIsTrue v = Some (JBool True)"
| "operand ts OpIsFalse v = Some (JBool False)"
| "operand ts op v = Some v"

fun condition_holds :: "pg \<Rightarrow> instant \<Rightarrow> crm \<Rightarrow> contact_row \<Rightarrow> SegmentCondition \<Rightarrow> sql_bool" where
  "condition_holds pg now db c (Attribute a) =
     (case ac_source a of
        StandardField \<Rightarrow>
          pg_fixed (pg_sem pg) (the (map_of STANDARD_FIELD_COLUMNS (ac_field a))) (ac_operator a)
            (operand (pg_string pg) (ac_operator a) (ac_value a)) now c
      | CustomField \<Rightarrow>
          pg_property (pg_sem pg) (JStr (ac_field a)) (ac_operator a)
            (operand (pg_string pg) (ac_operator a) (ac_value a)) now c)"
| "condition_holds pg now db c (Behavioral b) =
     (let found = events_count now db c (JStr (bc_eventName b))
                    (case bc_timeframe b of LastDays d \<Rightarrow> Some d | AllTime \<Rightarrow> None)
      in Some (case bc_countOperator b of
                 CountNone \<Rightarrow> found = 0
               | CountAtLeast \<Rightarrow> max 1 (nullish (bc_count b) 1) \<le> int found))"

definition in_segment :: "pg \<Rightarrow> instant \<Rightarrow> crm \<Rightarrow> uuid \<Rightarrow> SegmentDefinition \<Rightarrow> contact_row \<Rightarrow> bool" where
  "in_segment pg now db workspaceId def c =
     (ct_workspaceId c = workspaceId \<and> ct_anonymizedAt c = None
      \<and> (let holds = (\<lambda>g. \<exists>cond \<in> set g. condition_holds pg now db c cond = Some True)
         in case nullish (sd_groupCombinator def) CombineAnd of
              CombineAnd \<Rightarrow> \<forall>g \<in> set (sd_groups def). holds g
            | CombineOr \<Rightarrow> \<exists>g \<in> set (sd_groups def). holds g))"

lemma bound_push [simp]: "bound ((ps @ [v]) @ q) (Suc (length ps)) = v"
  by (simp add: bound_def nth_append)

lemma bound_prefix: "1 \<le> n \<Longrightarrow> n \<le> length ps \<Longrightarrow> bound (ps @ q) n = bound ps n"
  by (cases n) (auto simp: bound_def nth_append)

text \<open>An atom means its condition, whatever is bound after it.\<close>

definition atom_means ::
  "pg \<Rightarrow> instant \<Rightarrow> crm \<Rightarrow> contact_row \<Rightarrow> params \<Rightarrow> params \<Rightarrow> sql_atom \<Rightarrow> sql_bool \<Rightarrow> bool" where
  "atom_means pg now db c ps ps' a v =
     ((\<exists>s. ps' = ps @ s) \<and> (\<forall>q. atom_truth (pg_sem pg) now db (ps' @ q) c a = v))"

lemma compileOperator_fixed:
  "compileOperator ts (FixedColumn col) op v ps = Inr (ps', a) \<Longrightarrow> ts = pg_string pg \<Longrightarrow>
   atom_means pg now db c ps ps' a (pg_fixed (pg_sem pg) col op (operand ts op v) now c)"
  by (cases op) (auto simp: compare_pushed_def push_def atom_means_def bound_push [simplified])

lemma compileOperator_property:
  "compileOperator ts (PropertyColumn k) op v ps = Inr (ps', a) \<Longrightarrow> ts = pg_string pg \<Longrightarrow>
   1 \<le> k \<Longrightarrow> k \<le> length ps \<Longrightarrow>
   atom_means pg now db c ps ps' a (pg_property (pg_sem pg) (bound ps k) op (operand ts op v) now c)"
  using bound_prefix [of k ps]
  by (cases op) (auto simp: compare_pushed_def push_def atom_means_def bound_push [simplified])

lemma compileCondition_means:
  assumes "compileCondition (pg_string pg) cond ps = Inr (ps', a)"
  shows "atom_means pg now db c ps ps' a (condition_holds pg now db c cond)"
proof (cases cond)
  case (Attribute ac)
  show ?thesis
  proof (cases "ac_source ac")
    case StandardField
    then show ?thesis using assms Attribute
      by (auto simp: compileAttributeCondition_def intro: compileOperator_fixed split: option.splits)
  next
    case CustomField
    then have op: "compileOperator (pg_string pg) (PropertyColumn (Suc (length ps))) (ac_operator ac)
        (ac_value ac) (ps @ [JStr (ac_field ac)]) = Inr (ps', a)"
      using assms Attribute by (simp add: compileAttributeCondition_def push_def)
    have "bound (ps @ [JStr (ac_field ac)]) (Suc (length ps)) = JStr (ac_field ac)"
      by (simp add: bound_def)
    then show ?thesis
      using compileOperator_property [where pg = pg and now = now and db = db and c = c, OF op HOL.refl] CustomField Attribute
      by (auto simp: atom_means_def)
  qed
next
  case (Behavioral b)
  then have c: "compileBehavioralCondition b ps = (ps', a)" using assms by simp
  have fin: "jsnum_int (Fin (rat_of_int d)) = Some d" for d by simp
  show ?thesis
    using c Behavioral
    by (cases "bc_timeframe b"; cases "bc_countOperator b"; cases "nullish (bc_count b) 1 > 1")
      (auto simp: compileBehavioralCondition_def push_def Let_def atom_means_def bound_def nth_append
        max_def)
qed

lemma compile_conditions_means:
  "compile_conditions (pg_string pg) cs ps = Inr (ps', as) \<Longrightarrow>
   (\<exists>s. ps' = ps @ s)
   \<and> (\<forall>q. map (atom_truth (pg_sem pg) now db (ps' @ q) c) as = map (condition_holds pg now db c) cs)"
proof (induction cs arbitrary: ps ps' as)
  case (Cons x xs)
  then obtain ps1 a as' where 1: "compileCondition (pg_string pg) x ps = Inr (ps1, a)"
    "compile_conditions (pg_string pg) xs ps1 = Inr (ps', as')" "as = a # as'"
    by (auto split: sum.splits)
  obtain s where s: "ps1 = ps @ s" "\<forall>q. atom_truth (pg_sem pg) now db (ps1 @ q) c a = condition_holds pg now db c x"
    using compileCondition_means [OF 1(1), of now db c] by (auto simp: atom_means_def)
  then show ?case using 1(3) Cons.IH [OF 1(2)] by auto
qed simp

lemma compile_groups_means:
  "compile_groups (pg_string pg) gs ps = Inr (ps', ass) \<Longrightarrow>
   (\<exists>s. ps' = ps @ s)
   \<and> (\<forall>q. map (map (atom_truth (pg_sem pg) now db (ps' @ q) c)) ass
          = map (map (condition_holds pg now db c)) gs)"
proof (induction gs arbitrary: ps ps' ass)
  case (Cons g gs)
  then obtain ps1 as ass' where 1: "compile_conditions (pg_string pg) g ps = Inr (ps1, as)"
    "compile_groups (pg_string pg) gs ps1 = Inr (ps', ass')" "ass = as # ass'"
    by (auto split: sum.splits)
  obtain s where "ps1 = ps @ s"
      "\<forall>q. map (atom_truth (pg_sem pg) now db (ps1 @ q) c) as = map (condition_holds pg now db c) g"
    using compile_conditions_means [OF 1(1), of now db c] by auto
  then show ?case using 1(3) Cons.IH [OF 1(2)] by auto
qed simp

subsection \<open>A definition that the schema admits compiles\<close>

lemma STANDARD_FIELD_lockstep: "map fst STANDARD_FIELD_COLUMNS = STANDARD_FIELD_KEYS"
  by (simp add: STANDARD_FIELD_COLUMNS_def STANDARD_FIELD_KEYS_def)

lemma standard_field_column:
  "f \<in> set STANDARD_FIELD_KEYS \<Longrightarrow> \<exists>col. map_of STANDARD_FIELD_COLUMNS f = Some col"
  by (metis STANDARD_FIELD_lockstep map_of_eq_None_iff not_None_eq set_map image_iff)

lemma compileOperator_known:
  "op \<in> set conditionOperatorSchema \<Longrightarrow> \<exists>r. compileOperator ts col op v ps = Inr r"
  by (cases op) (auto simp: conditionOperatorSchema_def compare_pushed_def push_def)

lemma compileCondition_admitted:
  "segmentConditionSchema cond \<Longrightarrow> \<exists>ps' a. compileCondition ts cond ps = Inr (ps', a)"
proof (cases cond)
  case (Attribute ac)
  moreover assume "segmentConditionSchema cond"
  ultimately show ?thesis
    using compileOperator_known [of "ac_operator ac" ts _ "ac_value ac"] standard_field_column [of "ac_field ac"]
    by (fastforce simp: attributeConditionSchema_def compileAttributeCondition_def Let_def
        split: FieldSource.splits prod.splits)
qed (auto simp: compileBehavioralCondition_def)

lemma compile_conditions_admitted:
  "list_all segmentConditionSchema cs \<Longrightarrow>
   \<exists>ps' as. compile_conditions ts cs ps = Inr (ps', as) \<and> length as = length cs"
proof (induction cs arbitrary: ps)
  case (Cons x xs)
  obtain ps1 a where 1: "compileCondition ts x ps = Inr (ps1, a)"
    using compileCondition_admitted [of x ts ps] Cons.prems by auto
  then show ?case using Cons.IH [of ps1] Cons.prems by auto
qed simp

lemma compile_groups_admitted:
  "list_all (\<lambda>g. g \<noteq> [] \<and> list_all segmentConditionSchema g) gs \<Longrightarrow>
   \<exists>ps' ass. compile_groups ts gs ps = Inr (ps', ass) \<and> length ass = length gs \<and> (\<forall>as \<in> set ass. as \<noteq> [])"
proof (induction gs arbitrary: ps)
  case (Cons g gs)
  obtain ps1 as where 1: "compile_conditions ts g ps = Inr (ps1, as)" "length as = length g"
    using compile_conditions_admitted [of g ts ps] Cons.prems by auto
  then show ?case using Cons.IH [of ps1] Cons.prems by auto
qed simp

lemma or_any_map: "or_any (map f xs) = Some True \<longleftrightarrow> (\<exists>x \<in> set xs. f x = Some True)"
  by (induction xs) auto

lemma and_all_map: "and_all (map f xs) = Some True \<longleftrightarrow> (\<forall>x \<in> set xs. f x = Some True)"
  by (induction xs) auto

lemma combine_true:
  assumes "gs \<noteq> []"
  shows "combine k (map f gs) = Some True \<longleftrightarrow>
    (case k of CombineAnd \<Rightarrow> \<forall>g \<in> set gs. f g = Some True | CombineOr \<Rightarrow> \<exists>g \<in> set gs. f g = Some True)"
  using assms
  by (cases gs rule: remdups_adj.cases; cases k) (auto simp: combine_def and_all_map or_any_map)

lemma compiled_admitted:
  assumes "segmentDefinitionSchema def"
  obtains cs where "compileSegmentDefinition (pg_string pg) def workspaceId = Inr cs"
    "\<And>truth. clause_value truth (cs_where cs) \<noteq> None"
    "\<And>now db c. where_true (pg_sem pg) now db cs c = in_segment pg now db workspaceId def c"
proof -
  obtain ps ass where g: "compile_groups (pg_string pg) (sd_groups def) [JStr workspaceId] = Inr (ps, ass)"
      "length ass = length (sd_groups def)" "\<forall>as \<in> set ass. as \<noteq> []"
    using compile_groups_admitted [of "sd_groups def" "pg_string pg" "[JStr workspaceId]"] assms
    by (auto simp: segmentDefinitionSchema_def)
  let ?k = "nullish (sd_groupCombinator def) CombineAnd"
  let ?cs = "\<lparr>cs_where = where_tokens ?k ass, cs_params = ps\<rparr>"
  have ne: "ass \<noteq> []" using g(2) assms by (auto simp: segmentDefinitionSchema_def)
  have "where_true (pg_sem pg) now db ?cs c = in_segment pg now db workspaceId def c" for now db c
  proof -
    let ?t = "atom_truth (pg_sem pg) now db ps c"
    obtain s where s: "ps = JStr workspaceId # s"
      and m: "map (map ?t) ass = map (map (condition_holds pg now db c)) (sd_groups def)"
      using compile_groups_means [OF g(1), of now db c] by (metis append.right_neutral append_Cons append_Nil)
    have "map (group_value ?t) ass = map (\<lambda>g. or_any (map (condition_holds pg now db c) g)) (sd_groups def)"
    proof -
      have "map (group_value ?t) ass = map or_any (map (map ?t) ass)" by (simp add: group_value_def)
      then show ?thesis unfolding m by simp
    qed
    moreover have "?t (WorkspaceIs 1) = Some (workspaceId = ct_workspaceId c)"
      by (simp add: s bound_def)
    moreover have "sd_groups def \<noteq> []" using assms by (simp add: segmentDefinitionSchema_def)
    ultimately show ?thesis
      using clause_value_where [OF ne g(3), of ?t ?k]
      by (cases ?k) (auto simp: where_true_def in_segment_def combine_true or_any_map Let_def)
  qed
  moreover have "compileSegmentDefinition (pg_string pg) def workspaceId = Inr ?cs"
    using g(1) by (simp add: compileSegmentDefinition_def)
  moreover have "clause_value truth (cs_where ?cs) \<noteq> None" for truth
    using clause_value_where [OF ne g(3)] by simp
  ultimately show ?thesis using that by blast
qed

lemma insert_page_mset: "mset (insert_page c cs) = add_mset c (mset cs)"
  by (induction cs) auto

lemma page_order_set: "length (page_order cs) = length cs \<and> set (page_order cs) = set cs"
proof -
  have "mset (page_order cs) = mset cs"
    by (induction cs) (simp_all add: page_order_def insert_page_mset)
  then show ?thesis by (metis mset_eq_setD size_mset)
qed


section \<open>Properties\<close>

definition example_segment :: SegmentDefinition where
  "example_segment =
     \<lparr>sd_groupCombinator = Some CombineOr,
      sd_groups =
        [[Attribute \<lparr>ac_source = StandardField, ac_field = ''country'', ac_operator = OpEq,
                     ac_value = JStr ''DE''\<rparr>],
         [Behavioral \<lparr>bc_eventName = ''purchase'', bc_countOperator = CountAtLeast,
                      bc_count = Some 2, bc_timeframe = LastDays 30\<rparr>]]\<rparr>"

definition example_pg :: pg where
  "example_pg =
     \<lparr>pg_sem = \<lparr>pg_fixed = (\<lambda>col op v now c. map_option (\<lambda>x. v = Some (JStr x)) (ct_country c)),
                pg_property = (\<lambda>k op v now c. None)\<rparr>,
      pg_string = (\<lambda>v. [])\<rparr>"

text \<open>The three ways to ask for a segment's members agree, and agree with what the definition
  says: on a definition that the schema admits none of them fails, and they count, page and check
  exactly the contacts of the workspace that are not erased and satisfy some condition of every group
  (of one group, under the \<open>or\<close> combinator). The tenant and the erasure predicate hold whatever the
  conditions and the combinator are.\<close>



text \<open>Every reference to a segment that a flow of the workspace or a campaign holds is to a segment
  that exists, a version belongs to a flow that exists, and flows have names.\<close>

definition segment_exists :: "uuid \<Rightarrow> crm \<Rightarrow> uuid \<Rightarrow> bool" where
  "segment_exists workspaceId db i = (\<exists>s \<in> set (t_segments db). sg_workspaceId s = workspaceId \<and> sg_id s = i)"

definition segment_references :: "uuid \<Rightarrow> crm \<Rightarrow> uuid set" where
  "segment_references workspaceId db =
     {i. (\<exists>f \<in> set (t_flows db). f_workspaceId f = workspaceId \<and> flow_names_segment i f)
         \<or> (\<exists>fv \<in> set (t_flowVersions db). fv_workspaceId fv = workspaceId
              \<and> Some i \<in> node_segment ` set (fd_nodes (fv_definition fv)))
         \<or> (\<exists>c \<in> set (l_campaigns db). c_workspaceId c = workspaceId \<and> c_segmentId c = i)}"

definition flows_named :: "crm \<Rightarrow> bool" where
  "flows_named db =
     ((\<forall>f \<in> set (t_flows db). f_name f \<noteq> [])
      \<and> (\<forall>fv \<in> set (t_flowVersions db). \<exists>f \<in> set (t_flows db). f_id f = fv_flowId fv))"

lemma findReferencingFlowName_None:
  assumes "flows_named db" "\<not> truthy (findReferencingFlowName workspaceId i db)"
  shows "\<forall>f \<in> set (t_flows db). f_workspaceId f = workspaceId \<longrightarrow> \<not> flow_names_segment i f"
    "\<forall>fv \<in> set (t_flowVersions db). fv_workspaceId fv = workspaceId \<longrightarrow>
       Some i \<notin> node_segment ` set (fd_nodes (fv_definition fv))"
proof -
  have named: "f \<in> set (t_flows db) \<Longrightarrow> f_name f \<noteq> []" for f
    using assms(1) by (auto simp: flows_named_def)
  let ?pairs = "concat (map (\<lambda>fv. map (\<lambda>f. (fv, f_name f))
      (filter (\<lambda>f. f_id f = fv_flowId fv) (t_flows db))) (t_flowVersions db))"
  let ?p = "\<lambda>(fv, name). fv_workspaceId fv = workspaceId
      \<and> Some i \<in> node_segment ` set (fd_nodes (fv_definition fv))"
  have 1: "find (\<lambda>f. f_workspaceId f = workspaceId \<and> flow_names_segment i f) (t_flows db) = None"
    using assms(2) by (auto simp: findReferencingFlowName_def dest!: find_Some_iff_mem named split: option.splits)
  then show "\<forall>f \<in> set (t_flows db). f_workspaceId f = workspaceId \<longrightarrow> \<not> flow_names_segment i f"
    by (auto simp: find_None_mem)
  have 2: "find ?p ?pairs = None"
  proof (rule ccontr)
    assume "find ?p ?pairs \<noteq> None"
    then obtain fv n where f: "find ?p ?pairs = Some (fv, n)" by auto
    then have "n \<noteq> []" using find_Some_iff_mem [OF f] named by auto
    then show False using assms(2) 1 f by (simp add: findReferencingFlowName_def)
  qed
  then have "\<forall>x \<in> set ?pairs. \<not> ?p x" by (simp only: find_None_mem)
  then show "\<forall>fv \<in> set (t_flowVersions db). fv_workspaceId fv = workspaceId \<longrightarrow>
       Some i \<notin> node_segment ` set (fd_nodes (fv_definition fv))"
    using assms(1) unfolding flows_named_def by fastforce
qed

text \<open>Deleting a segment leaves no reference dangling: a flow's trigger, exit condition or branch,
  in whatever version, and a campaign in whatever status keep a segment to be evaluated against.\<close>

theorem deleteSegment_keeps_references:
  assumes "deleteSegment workspaceId i db = Inr (deleted, db')"
    and "flows_named db"
    and "\<forall>r \<in> segment_references workspaceId db. segment_exists workspaceId db r"
  shows "segment_references workspaceId db' = segment_references workspaceId db
    \<and> (\<forall>r \<in> segment_references workspaceId db'. segment_exists workspaceId db' r)
    \<and> (deleted \<longleftrightarrow> segment_exists workspaceId db i) \<and> \<not> segment_exists workspaceId db' i"
proof -
  let ?p = "\<lambda>s. sg_workspaceId s = workspaceId \<and> sg_id s = i"
  have no: "\<not> truthy (findReferencingFlowName workspaceId i db)"
    and d: "deleted = (row_count ?p (t_segments db) > 0)"
    and db': "db' = db\<lparr>t_segments := delete_where ?p (t_segments db)\<rparr>"
    and fk: "deleted \<Longrightarrow> \<not> segment_fk_restricts i db"
    using assms(1) by (auto simp: deleteSegment_def Let_def split: if_splits)
  have refs: "segment_references workspaceId db' = segment_references workspaceId db"
    by (simp add: db' segment_references_def)
  have del: "deleted \<longleftrightarrow> segment_exists workspaceId db i"
    by (auto simp: d row_count_pos segment_exists_def)
  have "i \<notin> segment_references workspaceId db"
  proof (cases deleted)
    case True
    then show ?thesis using fk findReferencingFlowName_None [OF assms(2) no]
      by (auto simp: segment_references_def segment_fk_restricts_def)
  next
    case False
    then show ?thesis using del assms(3) by auto
  qed
  then have "\<forall>r \<in> segment_references workspaceId db. segment_exists workspaceId db' r"
    using assms(3) unfolding segment_exists_def db' by fastforce
  then show ?thesis using refs del by (auto simp: db' segment_exists_def)
qed

lemma deleteSegment_keeps_references_witness:
  "segment_exists ''w1'' (example_db\<lparr>t_segments := [
      \<lparr>sg_id = ''g1'', sg_workspaceId = ''w1'', sg_name = ''de'', sg_definition = example_segment,
       sg_createdByUserId = ''u1'', sg_memberCount = None, sg_memberCountAt = None, sg_createdAt = 0,
       sg_updatedAt = 0\<rparr>]\<rparr>) ''g1''"
proof -
  let ?g = "\<lambda>i. \<lparr>sg_id = i, sg_workspaceId = ''w1'', sg_name = ''de'', sg_definition = example_segment,
       sg_createdByUserId = ''u1'', sg_memberCount = None, sg_memberCountAt = None, sg_createdAt = 0,
       sg_updatedAt = 0\<rparr>"
  let ?db = "example_db\<lparr>t_segments := [?g ''g1'', ?g ''g2'']\<rparr>"
  have del: "deleteSegment ''w1'' ''g2'' ?db = Inr (True, example_db\<lparr>t_segments := [?g ''g1'']\<rparr>)"
    by (simp add: deleteSegment_def findReferencingFlowName_def segment_fk_restricts_def
        flow_names_segment_def example_defs delete_where_def Let_def)
  have named: "flows_named ?db" by (simp add: flows_named_def example_defs)
  have refs: "\<forall>r \<in> segment_references ''w1'' ?db. segment_exists ''w1'' ?db r"
    by (auto simp: segment_references_def segment_exists_def flow_names_segment_def example_defs)
  have "''g1'' \<in> segment_references ''w1'' ?db"
    by (simp add: segment_references_def example_defs)
  then show ?thesis
    using deleteSegment_keeps_references [OF del named refs] by blast
qed

end
