(* ===== verification/Flow_Time.thy ===== *)
theory Flow_Time
  imports Crm_Prelude
begin

text \<open>
  Wall-clock arithmetic: quiet hours (\<open>packages/delivery-core/src/quiet-hours.ts\<close>) and the
  wait-until delay (\<open>packages/flows-core/src/wait-until.ts\<close>, which repeats the first file's zone
  helpers). What \<open>Intl\<close> knows of time zones is the parameter \<open>zones\<close>: the supported names, the names
  its constructor accepts, and the offset of a zone at an instant. A calendar date is its day number
  (days since 1970-01-01), which the year/month/day triples of the code denote one to one.
\<close>

section \<open>Definitions\<close>

record zones =
  z_supported :: "string list"
  z_constructs :: "string \<Rightarrow> bool"
  z_offset :: "string \<Rightarrow> instant \<Rightarrow> int"

datatype time_error = RangeError | NoMatchingDay

definition isValidIanaTimezone :: "zones \<Rightarrow> string option \<Rightarrow> bool" where
  "isValidIanaTimezone z tz =
     (truthy tz \<and> (the tz \<in> set (z_supported z) \<or> z_constructs z (the tz)))"

definition resolveTimezone :: "zones \<Rightarrow> string option \<Rightarrow> string option \<Rightarrow> string" where
  "resolveTimezone z contactTimezone workspaceDefaultTimezone =
     (if truthy contactTimezone \<and> isValidIanaTimezone z contactTimezone then the contactTimezone
      else if truthy workspaceDefaultTimezone \<and> isValidIanaTimezone z workspaceDefaultTimezone
      then the workspaceDefaultTimezone else ''UTC'')"

record ZonedParts =
  zp_day :: int
  zp_hour :: int
  zp_minute :: int
  zp_second :: int

text \<open>The formatter drops the milliseconds. It throws on a zone it does not know.\<close>

definition getZonedParts :: "zones \<Rightarrow> instant \<Rightarrow> string \<Rightarrow> time_error + ZonedParts" where
  "getZonedParts z date timeZone =
     (if z_constructs z timeZone
      then let s = (date + z_offset z timeZone date) div 1000
           in Inr \<lparr>zp_day = s div 86400, zp_hour = s mod 86400 div 3600 mod 24,
                   zp_minute = s mod 3600 div 60, zp_second = s mod 60\<rparr>
      else Inl RangeError)"

text \<open>\<open>Date.UTC\<close>.\<close>

definition date_utc :: "int \<Rightarrow> int \<Rightarrow> int \<Rightarrow> int \<Rightarrow> instant" where
  "date_utc day hour minute second = (((day * 24 + hour) * 60 + minute) * 60 + second) * 1000"

definition offsetMsAt :: "zones \<Rightarrow> instant \<Rightarrow> string \<Rightarrow> time_error + int" where
  "offsetMsAt z instantMs timeZone =
     (case getZonedParts z instantMs timeZone of
        Inl e \<Rightarrow> Inl e
      | Inr p \<Rightarrow> Inr (date_utc (zp_day p) (zp_hour p) (zp_minute p) (zp_second p) - instantMs))"

definition zonedTimeToUtc :: "zones \<Rightarrow> int \<Rightarrow> int \<Rightarrow> int \<Rightarrow> string \<Rightarrow> time_error + instant" where
  "zonedTimeToUtc z day hour minute timeZone =
     (let targetAsUtcMs = date_utc day hour minute 0
      in (case offsetMsAt z targetAsUtcMs timeZone of
            Inl e \<Rightarrow> Inl e
          | Inr o1 \<Rightarrow>
              (case offsetMsAt z (targetAsUtcMs - o1) timeZone of
                 Inl e \<Rightarrow> Inl e
               | Inr o2 \<Rightarrow> Inr (targetAsUtcMs - o2))))"

record QuietHoursWindow =
  qw_startMinutes :: int
  qw_endMinutes :: int
  qw_timezone :: string

definition inside_window :: "int \<Rightarrow> int \<Rightarrow> int \<Rightarrow> bool" where
  "inside_window startMinutes endMinutes nowMinutes =
     (if startMinutes < endMinutes then startMinutes \<le> nowMinutes \<and> nowMinutes < endMinutes
      else startMinutes \<le> nowMinutes \<or> nowMinutes < endMinutes)"

definition isInsideQuietHours :: "zones \<Rightarrow> instant \<Rightarrow> QuietHoursWindow \<Rightarrow> time_error + bool" where
  "isInsideQuietHours z now w =
     (if qw_startMinutes w = qw_endMinutes w then Inr False
      else (case getZonedParts z now (qw_timezone w) of
              Inl e \<Rightarrow> Inl e
            | Inr p \<Rightarrow>
                Inr (inside_window (qw_startMinutes w) (qw_endMinutes w) (zp_hour p * 60 + zp_minute p))))"

definition nextQuietWindowEnd :: "zones \<Rightarrow> instant \<Rightarrow> QuietHoursWindow \<Rightarrow> time_error + instant" where
  "nextQuietWindowEnd z now w =
     (case getZonedParts z now (qw_timezone w) of
        Inl e \<Rightarrow> Inl e
      | Inr p \<Rightarrow>
          (let nowMinutes = zp_hour p * 60 + zp_minute p;
               endHour = qw_endMinutes w div 60;
               endMinute = qw_endMinutes w mod 60;
               dayOffset = (if qw_startMinutes w > qw_endMinutes w \<and> nowMinutes \<ge> qw_startMinutes w
                            then 1 else 0)
           in zonedTimeToUtc z (zp_day p + dayOffset) endHour endMinute (qw_timezone w)))"

text \<open>1970-01-01 was a Thursday; Sunday is 0.\<close>

definition weekdayOfCalendarDate :: "int \<Rightarrow> int" where
  "weekdayOfCalendarDate day = (day + 4) mod 7"

definition day_skipped :: "int \<Rightarrow> int \<Rightarrow> int \<Rightarrow> int option \<Rightarrow> int \<Rightarrow> bool" where
  "day_skipped today nowMinutes timeOfDayMinutes dayOfWeek dayOffset =
     ((case dayOfWeek of None \<Rightarrow> False | Some d \<Rightarrow> weekdayOfCalendarDate (today + dayOffset) \<noteq> d)
      \<or> dayOffset = 0 \<and> nowMinutes \<ge> timeOfDayMinutes)"

definition computeNextWaitUntil ::
  "zones \<Rightarrow> instant \<Rightarrow> int \<Rightarrow> int option \<Rightarrow> string \<Rightarrow> time_error + instant" where
  "computeNextWaitUntil z now timeOfDayMinutes dayOfWeek timezone =
     (case getZonedParts z now timezone of
        Inl e \<Rightarrow> Inl e
      | Inr p \<Rightarrow>
          (let targetHour = timeOfDayMinutes div 60;
               targetMinute = timeOfDayMinutes mod 60;
               nowMinutes = zp_hour p * 60 + zp_minute p
           in (case find (\<lambda>d. \<not> day_skipped (zp_day p) nowMinutes timeOfDayMinutes dayOfWeek d) [0..7] of
                 Some dayOffset \<Rightarrow> zonedTimeToUtc z (zp_day p + dayOffset) targetHour targetMinute timezone
               | None \<Rightarrow> Inl NoMatchingDay)))"

section \<open>Local time\<close>

definition local_ms :: "zones \<Rightarrow> string \<Rightarrow> instant \<Rightarrow> int" where
  "local_ms z tz t = t + z_offset z tz t"

definition local_day :: "zones \<Rightarrow> string \<Rightarrow> instant \<Rightarrow> int" where
  "local_day z tz t = local_ms z tz t div day_ms"

definition local_minutes :: "zones \<Rightarrow> string \<Rightarrow> instant \<Rightarrow> int" where
  "local_minutes z tz t = local_ms z tz t mod day_ms div minute_ms"

lemma ms_parts:
  fixes x :: int
  shows "x div 1000 div 86400 = x div 86400000"
    and "x div 1000 mod 86400 div 3600 mod 24 * 60 + x div 1000 mod 3600 div 60 = x mod 86400000 div 60000"
proof -
  show "x div 1000 div 86400 = x div 86400000"
    by (simp add: zdiv_zmult2_eq [symmetric])
  let ?r = "x div 1000 mod 86400"
  have 1: "x div 1000 mod 3600 = ?r mod 3600" by (simp add: mod_mod_cancel)
  have 2: "?r div 3600 mod 24 = ?r div 3600"
  proof -
    have "0 \<le> ?r" "?r < 86400" by simp_all
    then have "0 \<le> ?r div 3600" "?r div 3600 < 24" by linarith+
    then show ?thesis by simp
  qed
  have 3: "r div 3600 * 60 + r mod 3600 div 60 = r div 60" for r :: int
  proof -
    have "r div 60 = (r mod 3600 + 60 * (60 * (r div 3600))) div 60" by simp
    also have "\<dots> = 60 * (r div 3600) + r mod 3600 div 60" by (subst div_mult_self2) simp_all
    finally show ?thesis by simp
  qed
  have "x mod (1000 * 86400) = 1000 * ?r + x mod 1000" by (rule zmod_zmult2_eq) simp
  then have "x mod 86400000 div 1000 = ?r" by simp
  moreover have "x mod 86400000 div 60000 = x mod 86400000 div 1000 div 60"
    by (simp add: zdiv_zmult2_eq [symmetric])
  ultimately show "x div 1000 mod 86400 div 3600 mod 24 * 60 + x div 1000 mod 3600 div 60
      = x mod 86400000 div 60000"
    by (simp only: 1 2 3 [of ?r])
qed

lemma getZonedParts_local:
  assumes "z_constructs z tz"
  obtains p where "getZonedParts z t tz = Inr p" "zp_day p = local_day z tz t"
    "zp_hour p * 60 + zp_minute p = local_minutes z tz t"
proof -
  let ?s = "(t + z_offset z tz t) div 1000"
  let ?p = "\<lparr>zp_day = ?s div 86400, zp_hour = ?s mod 86400 div 3600 mod 24,
             zp_minute = ?s mod 3600 div 60, zp_second = ?s mod 60\<rparr>"
  have "getZonedParts z t tz = Inr ?p" using assms by (simp add: getZonedParts_def Let_def)
  moreover have "zp_day ?p = local_day z tz t"
    unfolding local_day_def local_ms_def day_ms_def by (simp only: ZonedParts.select_convs ms_parts(1))
  moreover have "zp_hour ?p * 60 + zp_minute ?p = local_minutes z tz t"
    unfolding local_minutes_def local_ms_def day_ms_def minute_ms_def
    by (simp only: ZonedParts.select_convs ms_parts(2))
  ultimately show ?thesis using that by blast
qed

lemma date_utc_seconds:
  "date_utc (s div 86400) (s mod 86400 div 3600 mod 24) (s mod 3600 div 60) (s mod 60) = s * 1000"
proof -
  have r: "0 \<le> s mod 86400" "s mod 86400 < 86400" by simp_all
  have 1: "s mod 3600 = s mod 86400 mod 3600" "s mod 60 = s mod 86400 mod 3600 mod 60"
    by (simp_all add: mod_mod_cancel)
  have 2: "s mod 86400 div 3600 mod 24 = s mod 86400 div 3600" using r by simp
  have 3: "s mod 86400 mod 3600 div 60 * 60 + s mod 86400 mod 3600 mod 60 = s mod 86400 mod 3600"
    "s mod 86400 div 3600 * 3600 + s mod 86400 mod 3600 = s mod 86400"
    "s div 86400 * 86400 + s mod 86400 = s"
    by simp_all
  have 4: "((D * 24 + h) * 60 + m) * 60 + q = s"
    if "m * 60 + q = k" "h * 3600 + k = R" "D * 86400 + R = s" for D h m q k R :: int
    using that by (simp add: algebra_simps)
  show ?thesis unfolding date_utc_def 1 2 by (simp only: 4 [OF 3])
qed

lemma offsetMsAt_local:
  "z_constructs z tz \<Longrightarrow> offsetMsAt z t tz = Inr ((t + z_offset z tz t) div 1000 * 1000 - t)"
  by (simp only: offsetMsAt_def getZonedParts_def if_True Let_def sum.case ZonedParts.select_convs
      date_utc_seconds)

lemma offsetMsAt_exact:
  "z_constructs z tz \<Longrightarrow> 1000 dvd t + z_offset z tz t \<Longrightarrow> offsetMsAt z t tz = Inr (z_offset z tz t)"
  by (simp add: offsetMsAt_local)

definition steady :: "zones \<Rightarrow> string \<Rightarrow> instant \<Rightarrow> instant \<Rightarrow> int \<Rightarrow> bool" where
  "steady z tz a b k =
     (z_constructs z tz \<and> 1000 dvd k \<and> \<bar>k\<bar> \<le> day_ms \<and> (\<forall>t. a \<le> t \<and> t \<le> b \<longrightarrow> z_offset z tz t = k))"

lemma zonedTimeToUtc_exact:
  assumes "z_constructs z tz" "1000 dvd k"
    and "z_offset z tz (date_utc day h m 0) = k" "z_offset z tz (date_utc day h m 0 - k) = k"
  shows "zonedTimeToUtc z day h m tz = Inr (date_utc day h m 0 - k)"
proof -
  let ?T = "date_utc day h m 0"
  have dvd: "1000 dvd ?T" by (simp add: date_utc_def)
  have "(?T + k) div 1000 * 1000 = ?T + k" "?T div 1000 * 1000 = ?T"
    using dvd assms(2) by (simp_all add: dvd_add)
  then show ?thesis
    by (simp add: zonedTimeToUtc_def Let_def offsetMsAt_local [OF assms(1)] assms(3,4))
qed

lemma isInside_local:
  "z_constructs z (qw_timezone w) \<Longrightarrow>
   isInsideQuietHours z t w =
     Inr (qw_startMinutes w \<noteq> qw_endMinutes w
       \<and> inside_window (qw_startMinutes w) (qw_endMinutes w) (local_minutes z (qw_timezone w) t))"
  by (rule getZonedParts_local [of z "qw_timezone w" t]) (auto simp: isInsideQuietHours_def)

lemma nextQuietWindowEnd_local:
  "z_constructs z (qw_timezone w) \<Longrightarrow>
   nextQuietWindowEnd z now w =
     zonedTimeToUtc z
       (local_day z (qw_timezone w) now
        + (if qw_startMinutes w > qw_endMinutes w \<and> local_minutes z (qw_timezone w) now \<ge> qw_startMinutes w
           then 1 else 0))
       (qw_endMinutes w div 60) (qw_endMinutes w mod 60) (qw_timezone w)"
  by (rule getZonedParts_local [of z "qw_timezone w" now]) (simp_all add: nextQuietWindowEnd_def Let_def)

lemma date_utc_minutes: "date_utc d (n div 60) (n mod 60) 0 = d * 86400000 + n * 60000"
proof -
  have "n div 60 * 60 + n mod 60 = n" by simp
  then show ?thesis unfolding date_utc_def by (simp add: algebra_simps)
qed

lemma inside_window_circular:
  assumes "0 \<le> s" "s < 1440" "0 \<le> e" "e < 1440" "s \<noteq> e" "0 \<le> m" "m < (1440 :: int)"
  shows "inside_window s e m = ((m - s) mod 1440 < (e - s) mod 1440)"
proof -
  have w: "(a - s) mod 1440 = (if s \<le> a then a - s else a - s + 1440)" if "0 \<le> a" "a < 1440" for a
  proof (cases "s \<le> a")
    case False
    have "(a - s) mod 1440 = (a - s + 1440) mod 1440" by simp
    also have "\<dots> = a - s + 1440" using that assms False by (intro mod_pos_pos_trivial) auto
    finally show ?thesis using False by simp
  qed (use that assms in \<open>simp add: mod_pos_pos_trivial\<close>)
  show ?thesis using w [of m] w [of e] assms by (auto simp: inside_window_def)
qed

lemma local_minutes_range: "0 \<le> local_minutes z tz t \<and> local_minutes z tz t < 1440"
proof -
  have "0 \<le> local_ms z tz t mod 86400000" "local_ms z tz t mod 86400000 < 86400000" by simp_all
  then show ?thesis unfolding local_minutes_def day_ms_def minute_ms_def by linarith
qed

text \<open>Where local time runs steadily, a local instant is its day and its time of day.\<close>

lemma local_parts:
  "local_ms z tz t = local_day z tz t * 86400000 + local_ms z tz t mod 86400000
   \<and> local_minutes z tz t * 60000 \<le> local_ms z tz t mod 86400000
   \<and> local_ms z tz t mod 86400000 < local_minutes z tz t * 60000 + 60000
   \<and> 0 \<le> local_ms z tz t mod 86400000 \<and> local_ms z tz t mod 86400000 < 86400000"
proof -
  have y: "y div 60000 * 60000 \<le> y \<and> y < y div 60000 * 60000 + 60000" for y :: int
  proof -
    have "y = y div 60000 * 60000 + y mod 60000" "0 \<le> y mod 60000" "y mod 60000 < 60000" by simp_all
    then show ?thesis by linarith
  qed
  have x: "x = x div 86400000 * 86400000 + x mod 86400000" for x :: int by simp
  show ?thesis
    unfolding local_day_def local_minutes_def day_ms_def minute_ms_def
    using x [of "local_ms z tz t"] y [of "local_ms z tz t mod 86400000"] by simp
qed

text \<open>C10: where the zone keeps its offset from two days before to three days after, the instant a
  deferred send waits for is the end of the window it is deferred by: it lies ahead by at most a
  day, all instants up to it are inside quiet hours, and it is outside. The local time there is the
  configured end.\<close>

theorem quiet_window_end_exact:
  assumes "steady z (qw_timezone w) (now - 2 * day_ms) (now + 3 * day_ms) k"
    and "0 \<le> qw_startMinutes w" "qw_startMinutes w < 1440" "0 \<le> qw_endMinutes w" "qw_endMinutes w < 1440"
    and "isInsideQuietHours z now w = Inr True"
  shows "\<exists>e. nextQuietWindowEnd z now w = Inr e \<and> now < e \<and> e \<le> now + day_ms
    \<and> local_minutes z (qw_timezone w) e = qw_endMinutes w
    \<and> isInsideQuietHours z e w = Inr False
    \<and> (\<forall>t. now \<le> t \<and> t < e \<longrightarrow> isInsideQuietHours z t w = Inr True)"
proof -
  let ?tz = "qw_timezone w" and ?s = "qw_startMinutes w" and ?e = "qw_endMinutes w"
  let ?m = "local_minutes z ?tz now" and ?D = "local_day z ?tz now"
  define dayOffset :: int where "dayOffset = (if ?s > ?e \<and> ?m \<ge> ?s then 1 else 0)"
  define e where "e = date_utc (?D + dayOffset) (?e div 60) (?e mod 60) 0 - k"
  have z: "z_constructs z ?tz" and k: "1000 dvd k" "\<bar>k\<bar> \<le> 86400000"
    and off: "\<And>t. now - 2 * 86400000 \<le> t \<Longrightarrow> t \<le> now + 3 * 86400000 \<Longrightarrow> z_offset z ?tz t = k"
    using assms(1) by (auto simp: steady_def day_ms_def)
  have ins: "?s \<noteq> ?e" "inside_window ?s ?e ?m" using assms(6) isInside_local [OF z] by auto
  have loc: "local_ms z ?tz t = t + k" if "now - 2 * 86400000 \<le> t" "t \<le> now + 3 * 86400000" for t
    using off [OF that] by (simp add: local_ms_def)
  have now: "now + k = ?D * 86400000 + local_ms z ?tz now mod 86400000"
    "?m * 60000 \<le> local_ms z ?tz now mod 86400000" "local_ms z ?tz now mod 86400000 < ?m * 60000 + 60000"
    using local_parts [of z ?tz now] loc [of now] by auto
  have m: "0 \<le> ?m" "?m < 1440" using local_minutes_range by auto
  have ek: "e + k = (?D + dayOffset) * 86400000 + ?e * 60000"
    by (simp add: e_def date_utc_minutes)
  have bounds: "now < e" "e \<le> now + 86400000"
    using ek now m ins assms(2-5) by (auto simp: inside_window_def dayOffset_def split: if_splits)
  have "date_utc (?D + dayOffset) (?e div 60) (?e mod 60) 0 = e + k" by (simp add: e_def)
  then have "zonedTimeToUtc z (?D + dayOffset) (?e div 60) (?e mod 60) ?tz = Inr e"
    using zonedTimeToUtc_exact [OF z k(1), of "?D + dayOffset" "?e div 60" "?e mod 60"]
      off [of "e + k"] off [of e] bounds k(2) by simp
  then have "nextQuietWindowEnd z now w = Inr e"
    by (simp add: nextQuietWindowEnd_local [OF z] dayOffset_def)
  moreover have at: "local_minutes z ?tz e = ?e"
  proof -
    have "(e + k) mod 86400000 = ?e * 60000"
      unfolding ek mod_mult_self3 using assms(4,5) by (intro mod_pos_pos_trivial) auto
    then show ?thesis using loc [of e] bounds by (simp add: local_minutes_def day_ms_def minute_ms_def)
  qed
  moreover have "isInsideQuietHours z t w = Inr True" if t: "now \<le> t" "t < e" for t
  proof -
    let ?mt = "local_minutes z ?tz t" and ?dt = "local_day z ?tz t"
    have "t + k = ?dt * 86400000 + local_ms z ?tz t mod 86400000"
      "?mt * 60000 \<le> local_ms z ?tz t mod 86400000" "local_ms z ?tz t mod 86400000 < ?mt * 60000 + 60000"
      "0 \<le> ?mt" "?mt < 1440"
      using local_parts [of z ?tz t] loc [of t] t bounds local_minutes_range [of z ?tz t] by auto
    note t_parts = this
    have r: "0 \<le> local_ms z ?tz t mod 86400000" "local_ms z ?tz t mod 86400000 < 86400000"
      "0 \<le> local_ms z ?tz now mod 86400000" "local_ms z ?tz now mod 86400000 < 86400000" by simp_all
    have "?D \<le> ?dt" using t_parts(1) now(1) t(1) r by linarith
    moreover have "?dt \<le> ?D + dayOffset"
      using t_parts(1) ek t(2) r assms(5) by (simp add: algebra_simps)
    moreover have "dayOffset = 0 \<or> dayOffset = 1" by (simp add: dayOffset_def)
    ultimately consider "?dt = ?D" | "?dt = ?D + 1" "dayOffset = 1" by arith
    then have "inside_window ?s ?e ?mt"
    proof cases
      case 1
      then have "?m \<le> ?mt" using t_parts now t(1) by linarith
      moreover have "?mt < ?e" if "dayOffset = 0" using 1 t_parts ek t(2) that by simp
      ultimately show ?thesis
        using ins by (auto simp: inside_window_def dayOffset_def split: if_splits)
    next
      case 2
      then have "?mt < ?e" using t_parts ek t(2) by simp
      then show ?thesis using 2(2) by (auto simp: inside_window_def dayOffset_def split: if_splits)
    qed
    then show ?thesis using ins isInside_local [OF z] by simp
  qed
  moreover have "isInsideQuietHours z e w = Inr False"
    using isInside_local [OF z, of e] at by (simp add: inside_window_def)
  ultimately show ?thesis using bounds by (auto simp: day_ms_def)
qed


text \<open>At a spring-forward transition west of Greenwich the promise fails. With a window that ends
  inside the skipped hour, an instant less than an hour before that end, still before the transition,
  is deferred to an instant that has passed: the run is due again at once and is deferred again, until
  the transition comes or its step budget is spent.\<close>

theorem quiet_window_end_in_gap:
  assumes "z_constructs z (qw_timezone w)"
    and "\<forall>t. z_offset z (qw_timezone w) t = (if t < T then - a else hour_ms - a)"
    and "hour_ms \<le> a" "1000 dvd a"
    and "x = local_day z (qw_timezone w) now * day_ms + qw_endMinutes w * minute_ms"
    and "T - a \<le> x" "x < T - a + hour_ms"
    and "now < T" "x + a - hour_ms < now" "isInsideQuietHours z now w = Inr True"
  shows "nextQuietWindowEnd z now w = Inr (x + a - hour_ms) \<and> x + a - hour_ms < now"
proof -
  let ?tz = "qw_timezone w" and ?e = "qw_endMinutes w"
  let ?m = "local_minutes z ?tz now" and ?D = "local_day z ?tz now"
  note ms = hour_ms_def day_ms_def minute_ms_def
  have "now - a = ?D * 86400000 + local_ms z ?tz now mod 86400000"
    "?m * 60000 \<le> local_ms z ?tz now mod 86400000"
    using local_parts [of z ?tz now] assms(2,8) by (auto simp: local_ms_def)
  then have "?m < ?e" using assms(5,6,8) by (simp add: ms)
  then have "\<not> (qw_startMinutes w > ?e \<and> ?m \<ge> qw_startMinutes w)" by simp
  then have n: "nextQuietWindowEnd z now w = zonedTimeToUtc z ?D (?e div 60) (?e mod 60) ?tz"
    unfolding nextQuietWindowEnd_local [OF assms(1)] by (simp only: if_False add_0_right)
  have x: "date_utc ?D (?e div 60) (?e mod 60) 0 = x"
    using assms(5) by (simp add: date_utc_minutes ms)
  have dvd: "1000 dvd x" unfolding x [symmetric] date_utc_def by simp
  have f1: "z_offset z ?tz x = - a" using assms(2,3,7) by (simp add: ms)
  have f2: "z_offset z ?tz (x + a) = 3600000 - a" using assms(2,6) by (simp add: ms)
  have "1000 dvd x + - a" using dvd assms(4) by (rule dvd_add [OF _ dvd_minus_iff [THEN iffD2]])
  then have o1: "offsetMsAt z x ?tz = Inr (- a)"
    using offsetMsAt_exact [OF assms(1), of x] by (simp only: f1)
  have "x + a + (3600000 - a) = x + 1000 * 3600" by simp
  then have "1000 dvd x + a + (3600000 - a)" using dvd by (simp only: dvd_add dvd_triv_left)
  then have o2: "offsetMsAt z (x + a) ?tz = Inr (3600000 - a)"
    using offsetMsAt_exact [OF assms(1), of "x + a"] by (simp only: f2)
  have "nextQuietWindowEnd z now w = Inr (x - (3600000 - a))"
    unfolding n zonedTimeToUtc_def x Let_def o1 by (simp add: o2)
  then show ?thesis using assms(9) by (simp add: ms)
qed

text \<open>New York on a spring morning (day 0 of the model): the clocks go from 02:00 to 03:00 at 07:00
  UTC. The window is 21:00 to 02:30, and it is 01:45.\<close>

definition example_spring :: zones where
  "example_spring =
     \<lparr>z_supported = [''America/New_York''], z_constructs = (\<lambda>tz. True),
      z_offset = (\<lambda>tz t. if t < 25200000 then - 18000000 else hour_ms - 18000000)\<rparr>"

definition example_window :: QuietHoursWindow where
  "example_window = \<lparr>qw_startMinutes = 1260, qw_endMinutes = 150, qw_timezone = ''America/New_York''\<rparr>"

lemma quiet_window_end_in_gap_witness:
  "nextQuietWindowEnd example_spring 24300000 example_window = Inr 23400000"
  using quiet_window_end_in_gap [of example_spring example_window 25200000 18000000 9000000 24300000]
  by (simp add: example_spring_def example_window_def hour_ms_def day_ms_def minute_ms_def local_day_def
      local_ms_def isInsideQuietHours_def getZonedParts_def inside_window_def Let_def)

lemma quiet_window_end_exact_witness:
  "\<exists>e. nextQuietWindowEnd (example_spring\<lparr>z_offset := \<lambda>tz t. 3600000\<rparr>) 0 example_window = Inr e \<and> 0 < e"
  using quiet_window_end_exact [of "example_spring\<lparr>z_offset := \<lambda>tz t. 3600000\<rparr>" example_window 0 3600000]
  by (auto simp: steady_def example_spring_def example_window_def day_ms_def isInsideQuietHours_def
      getZonedParts_def inside_window_def Let_def)

subsection \<open>The wait-until delay\<close>

lemma weekday_within_week: "0 \<le> d \<Longrightarrow> d \<le> 6 \<Longrightarrow> \<exists>k \<in> {1..7}. weekdayOfCalendarDate (today + k) = d"
proof -
  assume d: "0 \<le> d" "d \<le> 6"
  have "(today + (1 + (d - (today + 5)) mod 7) + 4) mod 7 = d"
  proof -
    have "(today + (1 + (d - (today + 5)) mod 7) + 4) mod 7 = (today + 5 + (d - (today + 5)) mod 7) mod 7"
      by (simp add: algebra_simps)
    also have "\<dots> = (today + 5 + (d - (today + 5))) mod 7" by (simp add: mod_simps)
    finally show ?thesis using d by simp
  qed
  moreover have "1 + (d - (today + 5)) mod 7 \<in> {1..7}"
    using pos_mod_bound [of 7 "d - (today + 5)"] pos_mod_sign [of 7 "d - (today + 5)"] by simp
  ultimately show ?thesis unfolding weekdayOfCalendarDate_def by blast
qed

lemma find_upto_least:
  "find p [a..b] = Some d \<Longrightarrow> a \<le> d \<and> d \<le> b \<and> p d \<and> (\<forall>c. a \<le> c \<and> c < d \<longrightarrow> \<not> p c)"
proof (induction a b rule: upto.induct)
  case (1 a b)
  show ?case
  proof (cases "a \<le> b \<and> \<not> p a")
    case True
    then have "find p [a + 1..b] = Some d" using "1.prems" by (simp add: upto.simps [of a b])
    then have ih: "a + 1 \<le> d \<and> d \<le> b \<and> p d \<and> (\<forall>c. a + 1 \<le> c \<and> c < d \<longrightarrow> \<not> p c)"
      using "1.IH" True by simp
    have "\<not> p c" if "a \<le> c" "c < d" for c
      using that ih True by (cases "c = a") auto
    then show ?thesis using ih by auto
  next
    case False
    then show ?thesis using "1.prems" by (auto simp: upto.simps [of a b] split: if_splits)
  qed
qed

lemma day_found:
  assumes "case dayOfWeek of None \<Rightarrow> True | Some d \<Rightarrow> 0 \<le> d \<and> d \<le> 6"
  obtains d where "find (\<lambda>d. \<not> day_skipped today m tod dayOfWeek d) [0..7] = Some d"
proof -
  have "\<exists>k \<in> {1..7}. \<not> day_skipped today m tod dayOfWeek k"
  proof (cases dayOfWeek)
    case None
    then show ?thesis by (intro bexI [of _ 1]) (auto simp: day_skipped_def)
  next
    case (Some d)
    then show ?thesis using weekday_within_week [of d today] assms by (auto simp: day_skipped_def)
  qed
  then have "find (\<lambda>d. \<not> day_skipped today m tod dayOfWeek d) [0..7] \<noteq> None"
    by (auto simp: find_None_iff)
  then show ?thesis using that by auto
qed


text \<open>Where the zone keeps its offset, a wait-until delay never fails, and wakes the run at the
  first instant after now whose local time is the configured one, on the configured weekday where
  there is one.\<close>

theorem wait_until_exact:
  assumes "steady z tz (now - 2 * day_ms) (now + 10 * day_ms) k"
    and "0 \<le> tod" "tod < 1440"
    and "case dayOfWeek of None \<Rightarrow> True | Some d \<Rightarrow> 0 \<le> d \<and> d \<le> 6"
  shows "\<exists>wake. computeNextWaitUntil z now tod dayOfWeek tz = Inr wake \<and> now < wake \<and> wake \<le> now + 8 * day_ms
    \<and> (let due = (\<lambda>t. local_ms z tz t mod day_ms = tod * minute_ms
                  \<and> (case dayOfWeek of None \<Rightarrow> True | Some d \<Rightarrow> weekdayOfCalendarDate (local_day z tz t) = d))
       in due wake \<and> (\<forall>t. now < t \<and> t < wake \<longrightarrow> \<not> due t))"
proof -
  let ?m = "local_minutes z tz now" and ?D = "local_day z tz now"
  let ?ok = "\<lambda>day. case dayOfWeek of None \<Rightarrow> True | Some d \<Rightarrow> weekdayOfCalendarDate day = d"
  let ?due = "\<lambda>t. local_ms z tz t mod 86400000 = tod * 60000 \<and> ?ok (local_day z tz t)"
  have z: "z_constructs z tz" and k: "1000 dvd k" "\<bar>k\<bar> \<le> 86400000"
    and off: "\<And>t. now - 2 * 86400000 \<le> t \<Longrightarrow> t \<le> now + 10 * 86400000 \<Longrightarrow> z_offset z tz t = k"
    using assms(1) by (auto simp: steady_def day_ms_def)
  have loc: "local_ms z tz t = t + k" if "now - 2 * 86400000 \<le> t" "t \<le> now + 10 * 86400000" for t
    using off [OF that] by (simp add: local_ms_def)
  have now: "now + k = ?D * 86400000 + local_ms z tz now mod 86400000"
    "?m * 60000 \<le> local_ms z tz now mod 86400000" "local_ms z tz now mod 86400000 < ?m * 60000 + 60000"
    "0 \<le> local_ms z tz now mod 86400000" "local_ms z tz now mod 86400000 < 86400000"
    using local_parts [of z tz now] loc [of now] by auto
  obtain d where f: "find (\<lambda>d. \<not> day_skipped ?D ?m tod dayOfWeek d) [0..7] = Some d"
    using day_found [OF assms(4)] by blast
  then have d: "0 \<le> d" "d \<le> 7" "\<not> day_skipped ?D ?m tod dayOfWeek d"
    and least: "\<And>c. 0 \<le> c \<Longrightarrow> c < d \<Longrightarrow> day_skipped ?D ?m tod dayOfWeek c"
    using find_upto_least [OF f] by auto
  define wake where "wake = date_utc (?D + d) (tod div 60) (tod mod 60) 0 - k"
  have wk: "wake + k = (?D + d) * 86400000 + tod * 60000" by (simp add: wake_def date_utc_minutes)
  have bounds: "now < wake" "wake \<le> now + 8 * 86400000"
  proof -
    show "now < wake"
    proof (cases "d = 0")
      case True
      then have "?m < tod" using d(3) by (auto simp: day_skipped_def)
      then show ?thesis using wk now True by simp
    next
      case False
      then show ?thesis using wk now d(1) assms(2) by (simp add: algebra_simps)
    qed
    show "wake \<le> now + 8 * 86400000" using wk now d(2) assms(3) by (simp add: algebra_simps)
  qed
  have "zonedTimeToUtc z (?D + d) (tod div 60) (tod mod 60) tz = Inr wake"
    using zonedTimeToUtc_exact [OF z k(1), of "?D + d" "tod div 60" "tod mod 60"]
      off [of "wake + k"] off [of wake] bounds k(2) by (simp add: wake_def)
  then have "computeNextWaitUntil z now tod dayOfWeek tz = Inr wake"
    using f by (rule_tac getZonedParts_local [OF z, of now]) (simp add: computeNextWaitUntil_def Let_def)
  moreover have day: "local_day z tz wake = ?D + d" "local_ms z tz wake mod 86400000 = tod * 60000"
  proof -
    have l: "local_ms z tz wake = tod * 60000 + (?D + d) * 86400000" using loc [of wake] bounds wk by simp
    show "local_ms z tz wake mod 86400000 = tod * 60000"
      unfolding l mod_mult_self1 using assms(2,3) by (intro mod_pos_pos_trivial) auto
    have "tod * 60000 div 86400000 = 0" using assms(2,3) by (intro div_pos_pos_trivial) auto
    then show "local_day z tz wake = ?D + d" unfolding local_day_def day_ms_def l by simp
  qed
  moreover have "?ok (local_day z tz wake)"
    using d(3) unfolding day(1) by (auto simp: day_skipped_def split: option.splits)
  moreover have "\<not> ?due t" if t: "now < t" "t < wake" for t
  proof
    assume due: "?due t"
    have tk: "t + k = local_day z tz t * 86400000 + tod * 60000"
      using local_parts [of z tz t] loc [of t] t bounds due by auto
    define c where "c = local_day z tz t - ?D"
    have c: "0 \<le> c" "c < d"
      using tk wk now t assms(2,3) by (simp_all add: c_def algebra_simps)
    then have "day_skipped ?D ?m tod dayOfWeek c" by (rule least)
    then have "c = 0" "tod \<le> ?m" using due by (auto simp: day_skipped_def c_def split: option.splits)
    then show False using tk now t(1) by (simp add: c_def)
  qed
  ultimately show ?thesis
    using bounds by (auto simp: Let_def day_ms_def minute_ms_def)
qed

lemma wait_until_exact_witness:
  "\<exists>wake. computeNextWaitUntil (example_spring\<lparr>z_offset := \<lambda>tz t. 3600000\<rparr>) 0 540 (Some 1) ''UTC'' = Inr wake
     \<and> 0 < wake"
  using wait_until_exact [of "example_spring\<lparr>z_offset := \<lambda>tz t. 3600000\<rparr>" "''UTC''" 0 3600000 540 "Some 1"]
  by (auto simp: steady_def example_spring_def day_ms_def)

end
