(* ===== verification/Flow_Graph.thy ===== *)
theory Flow_Graph
  imports Crm_Prelude Flow_Definition
begin

text \<open>
  The publish-time validator of flow definitions (\<open>packages/flows-core/src/flow-validate.ts\<close>). A
  flow goes live only when this walk reports no error, so what the engine may rely on is what the
  walk establishes. The two recursive walks (cycle search and exit search) thread their mutable sets
  explicitly and carry fuel, since nothing in their shape bounds the recursion: running out is the
  value \<open>None\<close>, and \<open>valid_flow_sound\<close> shows that the fuel the validator starts them with is
  never used up. The breadth-first search is total by its measure.
\<close>

section \<open>Definitions\<close>

datatype FlowValidationErrorCode =
  NoTrigger | EmptySend | BranchMissingExit | CycleDetected | NoEntry

record FlowValidationError =
  ve_code :: FlowValidationErrorCode
  ve_nodeId :: "string option"

text \<open>\<open>edgesBySource.get(id) ?? []\<close>: the edges leaving a node, in the order of the definition.\<close>

definition edges_from :: "FlowEdge list \<Rightarrow> string \<Rightarrow> FlowEdge list" where
  "edges_from edges n = filter (\<lambda>e. edge_source e = n) edges"

text \<open>\<open>nodesById.get(id)\<close>: a later node of the same id replaces an earlier one.\<close>

definition node_by_id :: "FlowNode list \<Rightarrow> string \<Rightarrow> FlowNode option" where
  "node_by_id nodes n = map_of (rev (map (\<lambda>x. (node_id x, x)) nodes)) n"

subsection \<open>Breadth-first reachability\<close>

fun visit_targets :: "FlowEdge list \<Rightarrow> string list \<times> string list \<Rightarrow> string list \<times> string list" where
  "visit_targets [] (visited, queue) = (visited, queue)"
| "visit_targets (e # es) (visited, queue) =
     (if edge_target e \<notin> set visited
      then visit_targets es (edge_target e # visited, queue @ [edge_target e])
      else visit_targets es (visited, queue))"

definition edge_targets :: "FlowEdge list \<Rightarrow> string set" where
  "edge_targets edges = set (map edge_target edges)"

lemma visit_targets_visited:
  "set (fst (visit_targets es (vis, q))) = set vis \<union> edge_targets es"
  by (induction es arbitrary: vis q) (auto simp: edge_targets_def)

lemma visit_targets_grow:
  "visit_targets es (vis, q) = (vis', q') \<Longrightarrow> edge_targets es \<subseteq> T \<Longrightarrow> finite T \<Longrightarrow>
   set vis = set vis' \<and> q' = q \<or> card (T - set vis') < card (T - set vis)"
proof (induction es arbitrary: vis q)
  case Nil
  then show ?case by simp
next
  case (Cons e es)
  show ?case
  proof (cases "edge_target e \<in> set vis")
    case True
    then show ?thesis using Cons by (simp add: edge_targets_def)
  next
    case False
    have "edge_target e \<in> T" using Cons.prems(2) by (auto simp: edge_targets_def)
    then have "card (T - insert (edge_target e) (set vis)) < card (T - set vis)"
      using False Cons.prems(3) by (intro psubset_card_mono) auto
    moreover have "card (T - set vis') \<le> card (T - insert (edge_target e) (set vis))"
    proof -
      have "set vis' = insert (edge_target e) (set vis) \<union> edge_targets es"
        using Cons.prems(1) False
          visit_targets_visited [of es "edge_target e # vis" "q @ [edge_target e]"] by simp
      then show ?thesis using Cons.prems(3) by (intro card_mono) auto
    qed
    ultimately show ?thesis by simp
  qed
qed

lemma edge_targets_from: "edge_targets (edges_from edges n) \<subseteq> edge_targets edges"
  by (auto simp: edge_targets_def edges_from_def)

function reach_loop :: "FlowEdge list \<Rightarrow> string list \<Rightarrow> string list \<Rightarrow> string list" where
  "reach_loop edges visited [] = visited"
| "reach_loop edges visited (current # queue) =
     reach_loop edges (fst (visit_targets (edges_from edges current) (visited, queue)))
       (snd (visit_targets (edges_from edges current) (visited, queue)))"
  by pat_completeness auto

termination reach_loop
proof (relation "measures [\<lambda>(edges, visited, queue). card (edge_targets edges - set visited),
                           \<lambda>(edges, visited, queue). length queue]")
  fix edges visited current queue
  obtain v q where eq: "visit_targets (edges_from edges current) (visited, queue) = (v, q)"
    by fastforce
  have "finite (edge_targets edges)" by (simp add: edge_targets_def)
  from visit_targets_grow [OF eq edge_targets_from this]
  show "((edges, fst (visit_targets (edges_from edges current) (visited, queue)),
          snd (visit_targets (edges_from edges current) (visited, queue))),
         edges, visited, current # queue)
        \<in> measures [\<lambda>(edges, visited, queue). card (edge_targets edges - set visited),
                    \<lambda>(edges, visited, queue). length queue]"
    by (auto simp: eq)
qed simp

definition collectReachable :: "string \<Rightarrow> FlowEdge list \<Rightarrow> string list" where
  "collectReachable startId edges = reach_loop edges [startId] [startId]"

subsection \<open>The depth-first search for a cycle\<close>

text \<open>The state of the search is \<open>(visited, onStack)\<close>; the result the node \<open>dfs\<close> returns. The
  empty string is falsy, as in \<open>if (found) return found\<close>.\<close>

type_synonym dfs_state = "string list \<times> string list"

function (sequential) dfs :: "nat \<Rightarrow> FlowEdge list \<Rightarrow> string \<Rightarrow> dfs_state \<Rightarrow> (string option \<times> dfs_state) option"
  and dfs_edges ::
    "nat \<Rightarrow> FlowEdge list \<Rightarrow> FlowEdge list \<Rightarrow> string \<Rightarrow> dfs_state \<Rightarrow> (string option \<times> dfs_state) option" where
  "dfs 0 edges n st = None"
| "dfs (Suc fuel) edges n (visited, onStack) =
     dfs_edges fuel edges (edges_from edges n) n (n # visited, n # onStack)"
| "dfs_edges fuel edges [] n (visited, onStack) = Some (None, (visited, removeAll n onStack))"
| "dfs_edges fuel edges (e # es) n (visited, onStack) =
     (if edge_target e \<in> set onStack then Some (Some (edge_target e), (visited, onStack))
      else if edge_target e \<notin> set visited then
        (case dfs fuel edges (edge_target e) (visited, onStack) of
           None \<Rightarrow> None
         | Some (found, st) \<Rightarrow>
             if truthy found then Some (found, st) else dfs_edges fuel edges es n st)
      else dfs_edges fuel edges es n (visited, onStack))"
  by pat_completeness auto

termination
  by (relation "measures [\<lambda>x. case x of Inl (fuel, _) \<Rightarrow> 2 * fuel | Inr (fuel, _) \<Rightarrow> 2 * fuel + 1,
                          \<lambda>x. case x of Inl _ \<Rightarrow> 0 | Inr (_, _, es, _) \<Rightarrow> length es]") auto

definition walk_fuel :: "FlowEdge list \<Rightarrow> nat" where
  "walk_fuel edges = length edges + 2"

definition findCycleReachableFrom :: "string \<Rightarrow> FlowEdge list \<Rightarrow> string option option" where
  "findCycleReachableFrom startId edges = map_option fst (dfs (walk_fuel edges) edges startId ([], []))"

subsection \<open>Do all paths reach an exit\<close>

fun pathReachesExit ::
  "nat \<Rightarrow> FlowNode list \<Rightarrow> FlowEdge list \<Rightarrow> string \<Rightarrow> string list \<Rightarrow> (bool \<times> string list) option"
  and every_reaches ::
    "nat \<Rightarrow> FlowNode list \<Rightarrow> FlowEdge list \<Rightarrow> FlowEdge list \<Rightarrow> string list \<Rightarrow> (bool \<times> string list) option" where
  "pathReachesExit 0 nodes edges n visited = None"
| "pathReachesExit (Suc fuel) nodes edges n visited =
     (if n \<in> set visited then Some (True, visited)
      else
        let visited' = n # visited; outgoing = edges_from edges n
        in (case node_by_id nodes n of
              None \<Rightarrow> Some (True, visited')
            | Some node \<Rightarrow>
                if is_exit node then Some (True, visited')
                else if is_branch node then
                  (case (find (\<lambda>e. edge_sourceHandle e = Some HYes) outgoing,
                         find (\<lambda>e. edge_sourceHandle e = Some HNo) outgoing) of
                     (Some yesEdge, Some noEdge) \<Rightarrow> every_reaches fuel nodes edges [yesEdge, noEdge] visited'
                   | _ \<Rightarrow> Some (False, visited'))
                else if outgoing = [] then Some (False, visited')
                else every_reaches fuel nodes edges outgoing visited'))"
| "every_reaches fuel nodes edges [] visited = Some (True, visited)"
| "every_reaches fuel nodes edges (e # es) visited =
     (case pathReachesExit fuel nodes edges (edge_target e) visited of
        None \<Rightarrow> None
      | Some (ok, visited') \<Rightarrow>
          if ok then every_reaches fuel nodes edges es visited' else Some (False, visited'))"

subsection \<open>The validator\<close>

fun empty_send_error :: "FlowNode \<Rightarrow> FlowValidationError list" where
  "empty_send_error (SendNode i t s e p) =
     (let hasTemplate = (truthy t \<and> js_trim (the t) \<noteq> []);
          hasSender = (truthy s \<or> truthy e)
      in if \<not> hasTemplate \<or> \<not> hasSender then [\<lparr>ve_code = EmptySend, ve_nodeId = Some i\<rparr>] else [])"
| "empty_send_error _ = []"

fun branch_errors ::
  "FlowDefinition \<Rightarrow> string list \<Rightarrow> FlowNode list \<Rightarrow> FlowValidationError list option" where
  "branch_errors def reachable [] = Some []"
| "branch_errors def reachable (node # nodes) =
     (case (if is_branch node \<and> node_id node \<in> set reachable then
              (case pathReachesExit (walk_fuel (fd_edges def)) (fd_nodes def) (fd_edges def) (node_id node) [] of
                 None \<Rightarrow> None
               | Some (ok, _) \<Rightarrow>
                   Some (if ok then [] else [\<lparr>ve_code = BranchMissingExit, ve_nodeId = Some (node_id node)\<rparr>]))
            else Some []) of
        None \<Rightarrow> None
      | Some errs \<Rightarrow> map_option (\<lambda>rest. errs @ rest) (branch_errors def reachable nodes))"

definition graph_errors :: "FlowDefinition \<Rightarrow> string \<Rightarrow> FlowValidationError list option" where
  "graph_errors def triggerId =
     (let reachable = collectReachable triggerId (fd_edges def);
          noEntry = (if edges_from (fd_edges def) triggerId = []
                     then [\<lparr>ve_code = NoEntry, ve_nodeId = None\<rparr>] else [])
      in (case findCycleReachableFrom triggerId (fd_edges def) of
            None \<Rightarrow> None
          | Some cycleNodeId \<Rightarrow>
              map_option
                (\<lambda>branches. noEntry
                   @ (if truthy cycleNodeId then [\<lparr>ve_code = CycleDetected, ve_nodeId = cycleNodeId\<rparr>] else [])
                   @ branches)
                (branch_errors def reachable (fd_nodes def))))"

definition validateFlowDefinition :: "FlowDefinition \<Rightarrow> FlowValidationError list option" where
  "validateFlowDefinition def =
     (let triggerNodes = filter is_trigger (fd_nodes def);
          errors = (if length triggerNodes \<noteq> 1 then [\<lparr>ve_code = NoTrigger, ve_nodeId = None\<rparr>] else [])
                   @ concat (map empty_send_error (fd_nodes def))
      in if length triggerNodes = 1
         then map_option (\<lambda>errs. errors @ errs) (graph_errors def (node_id (triggerNodes ! 0)))
         else Some errors)"

section \<open>The edge relation\<close>

definition edge_rel :: "FlowEdge list \<Rightarrow> (string \<times> string) set" where
  "edge_rel edges = (\<lambda>e. (edge_source e, edge_target e)) ` set edges"

lemma edge_relI: "e \<in> set (edges_from edges n) \<Longrightarrow> (n, edge_target e) \<in> edge_rel edges"
  by (force simp: edge_rel_def edges_from_def)

lemma edge_rel_iff: "(n, m) \<in> edge_rel edges \<longleftrightarrow> m \<in> edge_targets (edges_from edges n)"
  by (force simp: edge_rel_def edges_from_def edge_targets_def)

lemma finite_edge_rel [simp]: "finite (edge_rel edges)"
  by (simp add: edge_rel_def)

subsection \<open>Breadth-first search computes reachability\<close>

lemma visit_targets_queue:
  "set (snd (visit_targets es (vis, q))) = set q \<union> (edge_targets es - set vis)"
proof (induction es arbitrary: vis q)
  case (Cons e es)
  show ?case
    by (cases "edge_target e \<in> set vis")
      (auto simp: Cons edge_targets_def)
qed (simp add: edge_targets_def)

lemma reach_loop_closed:
  "\<forall>v \<in> set vis - set q. edge_rel edges `` {v} \<subseteq> set vis \<Longrightarrow> set q \<subseteq> set vis \<Longrightarrow>
   set vis \<subseteq> set (reach_loop edges vis q)
   \<and> edge_rel edges `` set (reach_loop edges vis q) \<subseteq> set (reach_loop edges vis q)"
proof (induction edges vis q rule: reach_loop.induct)
  case (1 edges visited)
  then show ?case by auto
next
  case (2 edges visited current queue)
  let ?r = "visit_targets (edges_from edges current) (visited, queue)"
  have v: "set (fst ?r) = set visited \<union> edge_rel edges `` {current}"
    by (auto simp: visit_targets_visited edge_rel_iff)
  have q: "set queue \<subseteq> set (snd ?r)" "edge_rel edges `` {current} - set visited \<subseteq> set (snd ?r)"
    "set (snd ?r) \<subseteq> set queue \<union> edge_rel edges `` {current}"
    by (auto simp: edge_rel_iff visit_targets_queue)
  have "\<forall>x \<in> set (fst ?r) - set (snd ?r). edge_rel edges `` {x} \<subseteq> set (fst ?r)"
    using "2.prems" q by (fastforce simp: v)
  moreover have "set (snd ?r) \<subseteq> set (fst ?r)" using "2.prems"(2) q(3) by (auto simp: v)
  ultimately show ?case using "2.IH" by (auto simp: v)
qed

lemma reach_loop_sound:
  "set q \<subseteq> set vis \<Longrightarrow> set vis \<subseteq> (edge_rel edges)\<^sup>* `` {t} \<Longrightarrow>
   set (reach_loop edges vis q) \<subseteq> (edge_rel edges)\<^sup>* `` {t}"
proof (induction edges vis q rule: reach_loop.induct)
  case (1 edges visited)
  then show ?case by simp
next
  case (2 edges visited current queue)
  let ?r = "visit_targets (edges_from edges current) (visited, queue)"
  have v: "set (fst ?r) = set visited \<union> edge_rel edges `` {current}"
    by (auto simp: visit_targets_visited edge_rel_iff)
  have "set (snd ?r) \<subseteq> set (fst ?r)"
    using "2.prems"(1) by (auto simp: v edge_rel_iff visit_targets_queue)
  moreover have "set (fst ?r) \<subseteq> (edge_rel edges)\<^sup>* `` {t}"
    using "2.prems" by (auto simp: v intro: rtrancl.rtrancl_into_rtrancl)
  ultimately show ?case using "2.IH" by simp
qed

lemma collectReachable_iff: "m \<in> set (collectReachable t edges) \<longleftrightarrow> (t, m) \<in> (edge_rel edges)\<^sup>*"
proof
  show "m \<in> set (collectReachable t edges) \<Longrightarrow> (t, m) \<in> (edge_rel edges)\<^sup>*"
    using reach_loop_sound [of "[t]" "[t]" edges t] by (auto simp: collectReachable_def)
next
  have c: "t \<in> set (collectReachable t edges)"
    "edge_rel edges `` set (collectReachable t edges) \<subseteq> set (collectReachable t edges)"
    using reach_loop_closed [of "[t]" "[t]" edges] by (auto simp: collectReachable_def)
  show "(t, m) \<in> (edge_rel edges)\<^sup>* \<Longrightarrow> m \<in> set (collectReachable t edges)"
    by (induction rule: rtrancl_induct) (use c in auto)
qed

subsection \<open>The cycle search: its result and its fuel\<close>

lemma dfs_visited_mono:
  "dfs fuel edges n st = Some (r, st') \<Longrightarrow> insert n (set (fst st)) \<subseteq> set (fst st')"
  "dfs_edges fuel edges es n st = Some (r, st') \<Longrightarrow> set (fst st) \<subseteq> set (fst st')"
proof (induction fuel edges n st and fuel edges es n st arbitrary: r st' and r st'
    rule: dfs_dfs_edges.induct)
  case (4 fuel edges e es n visited onStack)
  show ?case
  proof (cases "edge_target e \<in> set onStack \<or> edge_target e \<in> set visited")
    case True
    then show ?thesis using "4.IH"(3) "4.prems" by (auto split: if_splits)
  next
    case False
    then obtain found st1 where d: "dfs fuel edges (edge_target e) (visited, onStack) = Some (found, st1)"
      using "4.prems" by (auto split: option.splits)
    have 1: "set visited \<subseteq> set (fst st1)" using "4.IH"(1) [OF _ _ d] False by auto
    show ?thesis
    proof (cases "truthy found")
      case True
      then show ?thesis using 1 "4.prems" False d by simp
    next
      case nf: False
      then have "dfs_edges fuel edges es n st1 = Some (r, st')" using "4.prems" False d by simp
      then have "set (fst st1) \<subseteq> set (fst st')" using "4.IH"(2) [OF _ _ d _ nf] False by auto
      then show ?thesis using 1 by simp
    qed
  qed
qed auto

lemma dfs_enough_fuel:
  "card (edge_targets edges - insert n (set (fst st))) < fuel \<Longrightarrow> dfs fuel edges n st \<noteq> None"
  "card (edge_targets edges - set (fst st)) \<le> fuel \<Longrightarrow> set es \<subseteq> set edges \<Longrightarrow>
   dfs_edges fuel edges es n st \<noteq> None"
proof (induction fuel edges n st and fuel edges es n st rule: dfs_dfs_edges.induct)
  case (2 fuel edges n visited onStack)
  then show ?case by (auto simp: edges_from_def)
next
  case (4 fuel edges e es n visited onStack)
  have fin: "finite (edge_targets edges)" by (simp add: edge_targets_def)
  show ?case
  proof (cases "edge_target e \<in> set onStack \<or> edge_target e \<in> set visited")
    case True
    then show ?thesis using "4.IH"(3) "4.prems" by auto
  next
    case False
    have "edge_target e \<in> edge_targets edges" using "4.prems"(2) by (auto simp: edge_targets_def)
    then have "card (edge_targets edges - insert (edge_target e) (set visited))
        < card (edge_targets edges - set visited)"
      using False fin by (intro psubset_card_mono) auto
    then have "dfs fuel edges (edge_target e) (visited, onStack) \<noteq> None"
      using "4.IH"(1) "4.prems" False by simp
    then obtain found st where d: "dfs fuel edges (edge_target e) (visited, onStack) = Some (found, st)"
      by auto
    have "set visited \<subseteq> set (fst st)" using dfs_visited_mono(1) [OF d] by auto
    then have "card (edge_targets edges - set (fst st)) \<le> card (edge_targets edges - set visited)"
      using fin by (intro card_mono) auto
    then have "card (edge_targets edges - set (fst st)) \<le> fuel" using "4.prems"(1) by simp
    then have "\<not> truthy found \<Longrightarrow> dfs_edges fuel edges es n st \<noteq> None"
      using "4.IH"(2) [OF _ _ d refl] False "4.prems"(2) by (cases st) auto
    then show ?thesis using d False by simp
  qed
qed auto

lemma edge_targets_card: "card (edge_targets edges) \<le> length edges"
  using card_length [of "map edge_target edges"] by (simp add: edge_targets_def)

lemma card_targets_minus: "card (edge_targets edges - V) < walk_fuel edges"
proof -
  have "card (edge_targets edges - V) \<le> card (edge_targets edges)"
    by (intro card_mono) (auto simp: edge_targets_def)
  then show ?thesis using edge_targets_card [of edges] by (simp add: walk_fuel_def)
qed

lemma findCycle_returns: "findCycleReachableFrom t edges \<noteq> None"
  using dfs_enough_fuel(1) [of edges t "([], [])" "walk_fuel edges"] card_targets_minus
  by (simp add: findCycleReachableFrom_def)

subsection \<open>The cycle search: its answer\<close>

text \<open>The finished nodes: no edge leaves them, and no cycle passes through them.\<close>

definition finished_ok :: "(string \<times> string) set \<Rightarrow> string set \<Rightarrow> bool" where
  "finished_ok E B = (E `` B \<subseteq> B \<and> (\<forall>b \<in> B. (b, b) \<notin> E\<^sup>+))"

lemma finished_empty [simp]: "finished_ok E {}"
  by (simp add: finished_ok_def)

lemma finished_trancl: "finished_ok E B \<Longrightarrow> b \<in> B \<Longrightarrow> (b, c) \<in> E\<^sup>* \<Longrightarrow> c \<in> B"
  by (metis finished_ok_def Image_closed_trancl ImageI)

lemma finished_insert:
  assumes "finished_ok E B" "n \<notin> B" "E `` {n} \<subseteq> B"
  shows "finished_ok E (insert n B)"
proof -
  have "(n, n) \<notin> E\<^sup>+"
  proof
    assume "(n, n) \<in> E\<^sup>+"
    then obtain m where m: "(n, m) \<in> E" "(m, n) \<in> E\<^sup>*" by (meson tranclD)
    have "n \<in> B" using finished_trancl [OF assms(1) _ m(2)] m(1) assms(3) by auto
    then show False using assms(2) by simp
  qed
  then show ?thesis using assms unfolding finished_ok_def by auto
qed

definition dfs_result_ok ::
  "(string \<times> string) set \<Rightarrow> string \<Rightarrow> string option \<Rightarrow> string list \<Rightarrow> string list \<Rightarrow> dfs_state \<Rightarrow> bool" where
  "dfs_result_ok E n r visited rest st' =
     (case r of
        Some c \<Rightarrow> (c, c) \<in> E\<^sup>+ \<and> (n, c) \<in> E\<^sup>*
      | None \<Rightarrow> snd st' = rest \<and> insert n (set visited) \<subseteq> set (fst st')
          \<and> finished_ok E (set (fst st') - set rest))"

lemma dfs_answer:
  "dfs fuel edges n st = Some (r, st') \<Longrightarrow> [] \<notin> edge_targets edges \<Longrightarrow>
   n \<notin> set (fst st) \<Longrightarrow> set (snd st) \<subseteq> set (fst st) \<Longrightarrow>
   \<forall>x \<in> set (snd st). (x, n) \<in> (edge_rel edges)\<^sup>+ \<Longrightarrow>
   finished_ok (edge_rel edges) (set (fst st) - set (snd st)) \<Longrightarrow>
   dfs_result_ok (edge_rel edges) n r (fst st) (snd st) st'"
  "dfs_edges fuel edges es n st = Some (r, st') \<Longrightarrow> [] \<notin> edge_targets edges \<Longrightarrow>
   snd st = n # rest \<Longrightarrow> n \<notin> set rest \<Longrightarrow> insert n (set rest) \<subseteq> set (fst st) \<Longrightarrow>
   \<forall>x \<in> set rest. (x, n) \<in> (edge_rel edges)\<^sup>+ \<Longrightarrow>
   set es \<subseteq> set (edges_from edges n) \<Longrightarrow>
   edge_rel edges `` {n} - edge_targets es \<subseteq> set (fst st) - set (snd st) \<Longrightarrow>
   finished_ok (edge_rel edges) (set (fst st) - set (snd st)) \<Longrightarrow>
   dfs_result_ok (edge_rel edges) n r (fst st) rest st'"
proof (induction fuel edges n st and fuel edges es n st arbitrary: r st' and r st' rest
    rule: dfs_dfs_edges.induct)
  case (2 fuel edges n visited onStack)
  have "set (n # visited) - set (n # onStack) = set visited - set onStack"
    using "2.prems" by auto
  then have "dfs_result_ok (edge_rel edges) n r (fst (n # visited, n # onStack)) onStack st'"
    using "2.prems" by (intro "2.IH") (auto simp: edge_rel_iff)
  then show ?case by (auto simp: dfs_result_ok_def split: option.splits)
next
  case (3 fuel edges n visited onStack)
  then have st: "st' = (visited, rest)" "r = None" by auto
  have "set visited - set rest = insert n (set visited - set onStack)"
    using "3.prems" by auto
  moreover have "finished_ok (edge_rel edges) (insert n (set visited - set onStack))"
    using "3.prems" by (intro finished_insert) (auto simp: edge_targets_def)
  ultimately show ?case using "3.prems" by (simp add: dfs_result_ok_def st)
next
  case (4 fuel edges e es n visited onStack)
  let ?E = "edge_rel edges" and ?m = "edge_target e"
  have E: "(n, ?m) \<in> ?E" using "4.prems"(7) by (auto intro: edge_relI)
  have st: "onStack = n # rest" using "4.prems"(3) by simp
  have fin: "finished_ok ?E (set visited - set onStack)" using "4.prems"(9) by simp
  consider (onpath) "?m \<in> set onStack" | (seen) "?m \<notin> set onStack" "?m \<in> set visited"
    | (fresh) "?m \<notin> set onStack" "?m \<notin> set visited" by blast
  then show ?case
  proof cases
    case onpath
    then have "?m = n \<or> (?m, n) \<in> ?E\<^sup>+" using "4.prems"(6) st by auto
    then have "(?m, ?m) \<in> ?E\<^sup>+" using E by (auto intro: trancl_into_trancl)
    then show ?thesis using "4.prems"(1) E onpath by (auto simp: dfs_result_ok_def)
  next
    case seen
    have "dfs_result_ok ?E n r (fst (visited, onStack)) rest st'"
      by (rule "4.IH"(3)) (use seen "4.prems" st in \<open>auto simp: edge_targets_def\<close>)
    then show ?thesis by simp
  next
    case fresh
    obtain found st1 where d: "dfs fuel edges ?m (visited, onStack) = Some (found, st1)"
      using "4.prems"(1) fresh by (auto split: option.splits)
    have "\<forall>x \<in> set onStack. (x, ?m) \<in> ?E\<^sup>+"
      using E "4.prems"(6) by (auto simp: st intro: trancl_into_trancl)
    moreover have "set onStack \<subseteq> set visited" using "4.prems"(5) st by simp
    ultimately have "dfs_result_ok ?E ?m found (fst (visited, onStack)) (snd (visited, onStack)) st1"
      using "4.prems"(2) fin fresh(2) by (intro "4.IH"(1) [OF fresh d]) simp_all
    then have ok: "dfs_result_ok ?E ?m found visited onStack st1" by simp
    show ?thesis
    proof (cases found)
      case None
      then have s1: "snd st1 = onStack" "insert ?m (set visited) \<subseteq> set (fst st1)"
          "finished_ok ?E (set (fst st1) - set onStack)"
        using ok by (auto simp: dfs_result_ok_def)
      have r: "dfs_edges fuel edges es n st1 = Some (r, st')"
        using "4.prems"(1) fresh d None by simp
      have "dfs_result_ok ?E n r (fst st1) rest st'"
        by (rule "4.IH"(2) [OF fresh d refl _ r])
          (use "4.prems" s1 st fresh None in \<open>auto simp: edge_targets_def\<close>)
      then show ?thesis using s1(2) by (auto simp: dfs_result_ok_def split: option.splits)
    next
      case (Some c)
      then have c: "(c, c) \<in> ?E\<^sup>+" "(?m, c) \<in> ?E\<^sup>*" using ok by (auto simp: dfs_result_ok_def)
      then obtain x where "(x, c) \<in> ?E" by (meson tranclD2)
      then have "c \<noteq> []" using "4.prems"(2)
        by (force simp: edge_rel_def edge_targets_def)
      then have "r = Some c" using "4.prems"(1) fresh d Some by (auto split: if_splits)
      then show ?thesis using c E by (auto simp: dfs_result_ok_def)
    qed
  qed
qed simp

lemma findCycle_answer:
  assumes "findCycleReachableFrom t edges = Some r" "[] \<notin> edge_targets edges"
  shows "case r of Some c \<Rightarrow> (t, c) \<in> (edge_rel edges)\<^sup>* \<and> (c, c) \<in> (edge_rel edges)\<^sup>+
         | None \<Rightarrow> \<forall>c. (t, c) \<in> (edge_rel edges)\<^sup>* \<longrightarrow> (c, c) \<notin> (edge_rel edges)\<^sup>+"
proof -
  obtain st where "dfs (walk_fuel edges) edges t ([], []) = Some (r, st)"
    using assms(1) by (auto simp: findCycleReachableFrom_def)
  then have ok: "dfs_result_ok (edge_rel edges) t r [] [] st"
    using dfs_answer(1) [of _ edges t "([], [])" r st] assms(2) by simp
  show ?thesis
  proof (cases r)
    case None
    then have "finished_ok (edge_rel edges) (set (fst st))" "t \<in> set (fst st)"
      using ok by (auto simp: dfs_result_ok_def)
    then have "\<forall>c. (t, c) \<in> (edge_rel edges)\<^sup>* \<longrightarrow> (c, c) \<notin> (edge_rel edges)\<^sup>+"
      using finished_trancl unfolding finished_ok_def by blast
    then show ?thesis using None by simp
  qed (use ok in \<open>simp add: dfs_result_ok_def\<close>)
qed

subsection \<open>The exit search\<close>

text \<open>What the walk means to establish: every way on from the node ends in an exit. A branch goes on
  by its first \<open>yes\<close> and its first \<open>no\<close> edge, any other node by all its edges.\<close>

definition ways_on :: "FlowEdge list \<Rightarrow> FlowNode \<Rightarrow> FlowEdge list option" where
  "ways_on edges node =
     (let outgoing = edges_from edges (node_id node)
      in if is_branch node then
           (case (find (\<lambda>e. edge_sourceHandle e = Some HYes) outgoing,
                  find (\<lambda>e. edge_sourceHandle e = Some HNo) outgoing) of
              (Some yesEdge, Some noEdge) \<Rightarrow> Some [yesEdge, noEdge]
            | _ \<Rightarrow> None)
         else if outgoing = [] then None else Some outgoing)"

inductive reaches_exit :: "FlowNode list \<Rightarrow> FlowEdge list \<Rightarrow> string \<Rightarrow> bool"
  for nodes edges where
  at_exit: "node_by_id nodes n = Some node \<Longrightarrow> is_exit node \<Longrightarrow> reaches_exit nodes edges n"
| on_way: "node_by_id nodes n = Some node \<Longrightarrow> \<not> is_exit node \<Longrightarrow> ways_on edges node = Some es \<Longrightarrow>
    (\<And>e. e \<in> set es \<Longrightarrow> reaches_exit nodes edges (edge_target e)) \<Longrightarrow> reaches_exit nodes edges n"

lemma node_by_id_id: "node_by_id nodes n = Some node \<Longrightarrow> node_id node = n \<and> node \<in> set nodes"
  unfolding node_by_id_def by (drule map_of_SomeD) auto

lemma node_by_id_None: "node_by_id nodes n = None \<longleftrightarrow> (\<forall>x \<in> set nodes. node_id x \<noteq> n)"
  unfolding node_by_id_def by (force simp: map_of_eq_None_iff)

lemma ways_on_edges: "ways_on edges node = Some es \<Longrightarrow> set es \<subseteq> set (edges_from edges (node_id node))"
  by (auto simp: ways_on_def Let_def find_Some_iff split: if_splits option.splits)

lemma pathReachesExit_eq:
  "pathReachesExit (Suc fuel) nodes edges n visited =
     (if n \<in> set visited then Some (True, visited)
      else case node_by_id nodes n of
             None \<Rightarrow> Some (True, n # visited)
           | Some node \<Rightarrow>
               if is_exit node then Some (True, n # visited)
               else case ways_on edges node of
                      None \<Rightarrow> Some (False, n # visited)
                    | Some es \<Rightarrow> every_reaches fuel nodes edges es (n # visited))"
  using node_by_id_id [of nodes n]
  by (auto simp: ways_on_def Let_def split: option.splits)

declare pathReachesExit.simps(2) [simp del]
declare pathReachesExit_eq [simp]

lemma pathReachesExit_cases:
  assumes "pathReachesExit (Suc fuel) nodes edges n vis = Some (ok, vis')"
  obtains (seen) "n \<in> set vis" "ok" "vis' = vis"
    | (leaf) "n \<notin> set vis" "ok" "vis' = n # vis"
        "\<And>node. node_by_id nodes n = Some node \<Longrightarrow> is_exit node"
    | (stuck) node where "n \<notin> set vis" "\<not> ok" "vis' = n # vis" "node_by_id nodes n = Some node"
        "\<not> is_exit node" "ways_on edges node = None"
    | (go) node es where "n \<notin> set vis" "node_by_id nodes n = Some node" "\<not> is_exit node"
        "ways_on edges node = Some es" "every_reaches fuel nodes edges es (n # vis) = Some (ok, vis')"
  using assms by (auto split: if_splits option.splits)

lemma walk_induct:
  assumes "\<And>n vis. P 0 n vis"
    and path: "\<And>fuel n vis. (\<And>es vis. Q fuel es vis) \<Longrightarrow> P (Suc fuel) n vis"
    and "\<And>fuel vis. Q fuel [] vis"
    and "\<And>fuel e es vis. (\<And>vis. P fuel (edge_target e) vis) \<Longrightarrow> (\<And>vis. Q fuel es vis) \<Longrightarrow> Q fuel (e # es) vis"
  shows "P fuel n vis" "Q fuel es vis"
proof -
  have Q: "Q fuel es vis" if "\<And>n vis. P fuel n vis" for fuel es vis
    by (induction es arbitrary: vis) (use assms that in auto)
  have P: "P fuel n vis" for fuel n vis
    by (induction fuel arbitrary: n vis) (use assms Q in auto)
  show "P fuel n vis" "Q fuel es vis" using P Q by auto
qed

lemma pathReachesExit_mono:
  "\<forall>ok vis'. pathReachesExit fuel nodes edges n vis = Some (ok, vis') \<longrightarrow> insert n (set vis) \<subseteq> set vis'"
  "\<forall>ok vis'. every_reaches fuel nodes edges es vis = Some (ok, vis') \<longrightarrow> set vis \<subseteq> set vis'"
proof (induction fuel n vis and fuel es vis rule: walk_induct)
  case (2 fuel n vis)
  show ?case
  proof (intro allI impI)
    fix ok vis' assume "pathReachesExit (Suc fuel) nodes edges n vis = Some (ok, vis')"
    then show "insert n (set vis) \<subseteq> set vis'"
      by (cases rule: pathReachesExit_cases) (use 2 in \<open>force+\<close>)
  qed
next
  case (4 fuel e es vis)
  then show ?case by (fastforce split: option.splits if_splits)
qed simp_all

lemma pathReachesExit_enough_fuel:
  "(if n \<in> set vis then 0 < fuel else card (edge_targets edges - insert n (set vis)) + 1 < fuel) \<longrightarrow>
   pathReachesExit fuel nodes edges n vis \<noteq> None"
  "card (edge_targets edges - set vis) < fuel \<and> set es \<subseteq> set edges \<longrightarrow>
   every_reaches fuel nodes edges es vis \<noteq> None"
proof (induction fuel n vis and fuel es vis rule: walk_induct)
  case (2 fuel n vis)
  have "every_reaches fuel nodes edges es (n # vis) \<noteq> None"
    if "ways_on edges node = Some es" "n \<notin> set vis"
      "card (edge_targets edges - insert n (set vis)) + 1 < Suc fuel" for node es
    using that 2 [of "n # vis" es] ways_on_edges [of edges node es] by (auto simp: edges_from_def)
  then show ?case by (auto split: option.splits)
next
  case (4 fuel e es visited)
  show ?case
  proof (intro impI, elim conjE)
    assume prem: "card (edge_targets edges - set visited) < fuel" "set (e # es) \<subseteq> set edges"
    have fin: "finite (edge_targets edges)" by (simp add: edge_targets_def)
    have e: "edge_target e \<in> edge_targets edges" using prem(2) by (auto simp: edge_targets_def)
    have "card (edge_targets edges - insert (edge_target e) (set visited)) + 1 < fuel"
      if "edge_target e \<notin> set visited"
    proof -
      have "card (edge_targets edges - insert (edge_target e) (set visited))
          < card (edge_targets edges - set visited)"
        using that e fin by (intro psubset_card_mono) auto
      then show ?thesis using prem(1) by simp
    qed
    then have "pathReachesExit fuel nodes edges (edge_target e) visited \<noteq> None"
      using 4(1) [of visited] prem(1) by (cases "edge_target e \<in> set visited") auto
    then obtain ok vis1 where
      d: "pathReachesExit fuel nodes edges (edge_target e) visited = Some (ok, vis1)"
      by auto
    then have "card (edge_targets edges - set vis1) \<le> card (edge_targets edges - set visited)"
      using pathReachesExit_mono(1) [of fuel nodes edges "edge_target e" visited] fin
      by (intro card_mono) auto
    then show "every_reaches fuel nodes edges (e # es) visited \<noteq> None"
      using d 4(2) [of vis1] prem by auto
  qed
qed simp_all

text \<open>A positive answer: the nodes the walk added are exits, missing, or go on to nodes it has seen.\<close>

definition walk_ok :: "FlowNode list \<Rightarrow> FlowEdge list \<Rightarrow> string set \<Rightarrow> string \<Rightarrow> bool" where
  "walk_ok nodes edges V n =
     (case node_by_id nodes n of
        None \<Rightarrow> True
      | Some node \<Rightarrow> is_exit node
          \<or> (\<exists>es. ways_on edges node = Some es \<and> edge_target ` set es \<subseteq> V))"

lemma walk_ok_mono: "walk_ok nodes edges V n \<Longrightarrow> V \<subseteq> W \<Longrightarrow> walk_ok nodes edges W n"
  by (fastforce simp: walk_ok_def split: option.splits)

lemma pathReachesExit_sound:
  "\<forall>vis'. pathReachesExit fuel nodes edges n vis = Some (True, vis') \<longrightarrow>
     (\<forall>m \<in> set vis' - set vis. walk_ok nodes edges (set vis') m)"
  "\<forall>vis'. every_reaches fuel nodes edges es vis = Some (True, vis') \<longrightarrow>
     edge_target ` set es \<subseteq> set vis' \<and> (\<forall>m \<in> set vis' - set vis. walk_ok nodes edges (set vis') m)"
proof (induction fuel n vis and fuel es vis rule: walk_induct)
  case (2 fuel n vis)
  show ?case
  proof (intro allI impI)
    fix vis' assume "pathReachesExit (Suc fuel) nodes edges n vis = Some (True, vis')"
    then show "\<forall>m \<in> set vis' - set vis. walk_ok nodes edges (set vis') m"
    proof (cases rule: pathReachesExit_cases)
      case leaf
      then show ?thesis by (auto simp: walk_ok_def split: option.splits)
    next
      case (go node es)
      have "walk_ok nodes edges (set vis') m" if "m \<in> set vis'" "m \<notin> set vis" for m
        using that go 2 by (cases "m = n") (auto simp: walk_ok_def)
      then show ?thesis by simp
    qed simp_all
  qed
next
  case (4 fuel e es vis)
  show ?case
  proof (intro allI impI)
    fix vis' assume "every_reaches fuel nodes edges (e # es) vis = Some (True, vis')"
    then obtain vis1 where
      1: "pathReachesExit fuel nodes edges (edge_target e) vis = Some (True, vis1)" and
      2: "every_reaches fuel nodes edges es vis1 = Some (True, vis')"
      by (auto split: option.splits if_splits)
    have v: "edge_target e \<in> set vis1" "set vis1 \<subseteq> set vis'"
      using pathReachesExit_mono(1) [rule_format, OF 1] pathReachesExit_mono(2) [rule_format, OF 2]
      by simp_all
    have "edge_target ` set es \<subseteq> set vis'" "\<forall>m \<in> set vis' - set vis1. walk_ok nodes edges (set vis') m"
      using 4(2) [of vis1] 2 by blast+
    moreover have "\<forall>m \<in> set vis1 - set vis. walk_ok nodes edges (set vis') m"
      using 4(1) [of vis] 1 walk_ok_mono [OF _ v(2)] by blast
    ultimately have "\<forall>m \<in> set vis' - set vis. walk_ok nodes edges (set vis') m" by blast
    then show "edge_target ` set (e # es) \<subseteq> set vis' \<and>
        (\<forall>m \<in> set vis' - set vis. walk_ok nodes edges (set vis') m)"
      using v \<open>edge_target ` set es \<subseteq> set vis'\<close> by auto
  qed
qed simp_all

lemma pathReachesExit_complete:
  "\<forall>ok vis'. reaches_exit nodes edges n \<longrightarrow> pathReachesExit fuel nodes edges n vis = Some (ok, vis') \<longrightarrow> ok"
  "\<forall>ok vis'. (\<forall>e \<in> set es. reaches_exit nodes edges (edge_target e)) \<longrightarrow>
     every_reaches fuel nodes edges es vis = Some (ok, vis') \<longrightarrow> ok"
proof (induction fuel n vis and fuel es vis rule: walk_induct)
  case (2 fuel n vis)
  show ?case
  proof (intro allI impI)
    fix ok vis' assume r: "reaches_exit nodes edges n"
      and "pathReachesExit (Suc fuel) nodes edges n vis = Some (ok, vis')"
    from this(2) show ok
    proof (cases rule: pathReachesExit_cases)
      case (go node es)
      from r go(2-4) have "\<forall>e \<in> set es. reaches_exit nodes edges (edge_target e)"
        by (cases rule: reaches_exit.cases) auto
      then show ?thesis using 2 go(5) by blast
    next
      case (stuck node)
      from r stuck(4-6) show ?thesis by (cases rule: reaches_exit.cases) auto
    qed
  qed
next
  case (4 fuel e es vis)
  then show ?case by (fastforce split: option.splits if_splits)
qed simp_all


lemma reachable_wf:
  assumes "\<forall>c. (t, c) \<in> (edge_rel edges)\<^sup>* \<longrightarrow> (c, c) \<notin> (edge_rel edges)\<^sup>+"
  shows "wf {(m, n). (n, m) \<in> edge_rel edges \<and> (t, n) \<in> (edge_rel edges)\<^sup>*}" (is "wf ?R")
proof (rule finite_acyclic_wf)
  have sub: "?R \<subseteq> (edge_rel edges)\<inverse>" by auto
  then show "finite ?R" by (rule finite_subset) simp
  show "acyclic ?R"
  proof (rule acyclicI, intro allI notI)
    fix x assume "(x, x) \<in> ?R\<^sup>+"
    then have "(x, x) \<in> (edge_rel edges)\<^sup>+"
      using trancl_mono [OF _ sub] by (auto simp: trancl_converse)
    moreover have "(t, x) \<in> (edge_rel edges)\<^sup>*"
      using \<open>(x, x) \<in> ?R\<^sup>+\<close> by (auto dest: tranclD2 elim!: tranclE intro: rtrancl_into_rtrancl)
    ultimately show False using assms by blast
  qed
qed

lemma walk_reaches_exit:
  assumes acyc: "\<forall>c. (t, c) \<in> (edge_rel edges)\<^sup>* \<longrightarrow> (c, c) \<notin> (edge_rel edges)\<^sup>+"
    and targets: "\<forall>e \<in> set edges. node_by_id nodes (edge_target e) \<noteq> None"
    and ok: "\<forall>m \<in> V. walk_ok nodes edges V m"
    and n: "n \<in> V" "(t, n) \<in> (edge_rel edges)\<^sup>*" "node_by_id nodes n \<noteq> None"
  shows "reaches_exit nodes edges n"
  using n
proof (induction n rule: wf_induct_rule [OF reachable_wf [OF acyc]])
  case (1 n)
  then obtain node where nd: "node_by_id nodes n = Some node" by auto
  show ?case
  proof (cases "is_exit node")
    case True
    then show ?thesis using nd by (auto intro: at_exit)
  next
    case False
    then obtain es where es: "ways_on edges node = Some es" "edge_target ` set es \<subseteq> V"
      using ok 1 nd by (fastforce simp: walk_ok_def)
    have "reaches_exit nodes edges (edge_target e)" if "e \<in> set es" for e
    proof -
      have e: "e \<in> set (edges_from edges n)"
        using that ways_on_edges [OF es(1)] node_by_id_id [OF nd] by auto
      have E: "(n, edge_target e) \<in> edge_rel edges" using e by (rule edge_relI)
      have "node_by_id nodes (edge_target e) \<noteq> None" using e targets by (auto simp: edges_from_def)
      then show ?thesis using "1.IH" [of "edge_target e"] E "1.prems"(2) that es(2)
        by (auto intro: rtrancl_into_rtrancl)
    qed
    then show ?thesis using nd False es(1) by (auto intro: on_way)
  qed
qed

subsection \<open>The validator\<close>

lemma branch_errors_returns: "branch_errors def reachable ns \<noteq> None"
proof (induction ns)
  case (Cons n ns)
  have "pathReachesExit (walk_fuel (fd_edges def)) (fd_nodes def) (fd_edges def) (node_id n) [] \<noteq> None"
    using pathReachesExit_enough_fuel(1) [of "node_id n" "[]" "walk_fuel (fd_edges def)" "fd_edges def"]
      edge_targets_card [of "fd_edges def"] card_mono [of "edge_targets (fd_edges def)"
        "edge_targets (fd_edges def) - {node_id n}"]
    by (auto simp: walk_fuel_def edge_targets_def)
  then show ?case using Cons by auto
qed simp

lemma branch_errors_mem:
  "branch_errors def reachable ns = Some errs \<Longrightarrow>
   err \<in> set errs \<longleftrightarrow> (\<exists>n vis. n \<in> set ns \<and> is_branch n \<and> node_id n \<in> set reachable
     \<and> pathReachesExit (walk_fuel (fd_edges def)) (fd_nodes def) (fd_edges def) (node_id n) [] = Some (False, vis)
     \<and> err = \<lparr>ve_code = BranchMissingExit, ve_nodeId = Some (node_id n)\<rparr>)"
proof (induction ns arbitrary: errs)
  case (Cons n ns)
  then show ?case by (auto split: if_splits option.splits)
qed simp

definition send_complete :: "FlowNode \<Rightarrow> bool" where
  "send_complete n = (empty_send_error n = [])"

lemma empty_send_errors_mem:
  "n \<in> set ns \<Longrightarrow> err \<in> set (empty_send_error n) \<Longrightarrow>
   ve_code err = EmptySend \<and> (\<exists>n \<in> set ns. ve_nodeId err = Some (node_id n) \<and> \<not> send_complete n)"
  by (cases n) (force simp: send_complete_def Let_def split: if_splits)+

lemma graph_errors_returns: "graph_errors def t \<noteq> None"
  using findCycle_returns [of t "fd_edges def"] branch_errors_returns [of def _ "fd_nodes def"]
  by (auto simp: graph_errors_def Let_def)

lemma schema_targets: "flowDefinitionSchema u e def \<Longrightarrow> [] \<notin> edge_targets (fd_edges def)"
  by (auto simp: flowDefinitionSchema_def flowEdgeSchema_def edge_targets_def list_all_iff)

lemma graph_errors_parts:
  assumes "graph_errors def t = Some errs"
  obtains c branches where "findCycleReachableFrom t (fd_edges def) = Some c"
    "branch_errors def (collectReachable t (fd_edges def)) (fd_nodes def) = Some branches"
    "errs = (if edges_from (fd_edges def) t = [] then [\<lparr>ve_code = NoEntry, ve_nodeId = None\<rparr>] else [])
       @ (if truthy c then [\<lparr>ve_code = CycleDetected, ve_nodeId = c\<rparr>] else []) @ branches"
  using assms by (auto simp: graph_errors_def Let_def split: option.splits)

lemma valid_flow_parts:
  assumes "validateFlowDefinition def = Some []"
  obtains t c where "filter is_trigger (fd_nodes def) = [t]" "\<forall>n \<in> set (fd_nodes def). send_complete n"
    "findCycleReachableFrom (node_id t) (fd_edges def) = Some c" "\<not> truthy c"
    "branch_errors def (collectReachable (node_id t) (fd_edges def)) (fd_nodes def) = Some []"
    "edges_from (fd_edges def) (node_id t) \<noteq> []"
proof -
  obtain t where t: "filter is_trigger (fd_nodes def) = [t]"
    using assms by (auto simp: validateFlowDefinition_def Let_def length_Suc_conv split: if_splits)
  then have g: "graph_errors def (node_id t) = Some []" and s: "\<forall>n \<in> set (fd_nodes def). send_complete n"
    using assms by (auto simp: validateFlowDefinition_def send_complete_def)
  show ?thesis
    by (rule graph_errors_parts [OF g]) (use that [OF t s] in \<open>auto split: if_splits\<close>)
qed

lemma valid_flow_no_cycle:
  assumes schema: "flowDefinitionSchema is_uuid is_email def" and valid: "validateFlowDefinition def = Some []"
    and t: "filter is_trigger (fd_nodes def) = [t]"
  shows "\<forall>c. (node_id t, c) \<in> (edge_rel (fd_edges def))\<^sup>* \<longrightarrow> (c, c) \<notin> (edge_rel (fd_edges def))\<^sup>+"
proof -
  obtain c where c: "findCycleReachableFrom (node_id t) (fd_edges def) = Some c" "\<not> truthy c"
    using valid_flow_parts [OF valid] t by (metis list.inject)
  note answer = findCycle_answer [OF c(1) schema_targets [OF schema]]
  show ?thesis
  proof (cases c)
    case (Some x)
    then have "x = []" "(x, x) \<in> (edge_rel (fd_edges def))\<^sup>+" using c(2) answer by auto
    then have "[] \<in> edge_targets (fd_edges def)"
      by (auto simp: edge_rel_def edge_targets_def dest: tranclD2)
    then show ?thesis using schema_targets [OF schema] by simp
  qed (use answer in simp)
qed

lemma valid_flow_branch:
  assumes schema: "flowDefinitionSchema is_uuid is_email def" and valid: "validateFlowDefinition def = Some []"
    and t: "filter is_trigger (fd_nodes def) = [t]"
    and targets: "\<forall>e \<in> set (fd_edges def). node_by_id (fd_nodes def) (edge_target e) \<noteq> None"
    and br: "br \<in> set (fd_nodes def)" "is_branch br" "(node_id t, node_id br) \<in> (edge_rel (fd_edges def))\<^sup>*"
  shows "reaches_exit (fd_nodes def) (fd_edges def) (node_id br)"
proof -
  have b: "branch_errors def (collectReachable (node_id t) (fd_edges def)) (fd_nodes def) = Some []"
    using valid_flow_parts [OF valid] t by (metis list.inject)
  obtain ok vis where w:
    "pathReachesExit (walk_fuel (fd_edges def)) (fd_nodes def) (fd_edges def) (node_id br) [] = Some (ok, vis)"
    using branch_errors_returns [of def "[node_id br]" "[br]"] br(2) by (auto split: option.splits)
  have ok: "ok"
  proof (rule ccontr)
    assume "\<not> ok"
    then have "\<lparr>ve_code = BranchMissingExit, ve_nodeId = Some (node_id br)\<rparr> \<in> set []"
      unfolding branch_errors_mem [OF b] using w br by (auto simp: collectReachable_iff)
    then show False by simp
  qed
  show ?thesis
    by (rule walk_reaches_exit [OF valid_flow_no_cycle [OF schema valid t] targets, of "set vis"])
      (use pathReachesExit_sound(1) [rule_format, OF w [unfolded ok [THEN eqTrueI]]]
         pathReachesExit_mono(1) [rule_format, OF w] br node_by_id_None [of "fd_nodes def"] in auto)
qed


text \<open>Every error the validator reports is a defect of the flow: a reported cycle node lies on a
  cycle that the trigger reaches, a reported branch has a way on that never ends in an exit, a
  reported send node lacks its template or its sender.\<close>

theorem validator_errors_are_real:
  assumes "validateFlowDefinition def = Some errs" "err \<in> set errs"
    and "flowDefinitionSchema is_uuid is_email def"
  shows "case ve_code err of
      NoTrigger \<Rightarrow> length (filter is_trigger (fd_nodes def)) \<noteq> 1
    | EmptySend \<Rightarrow> \<exists>n \<in> set (fd_nodes def). ve_nodeId err = Some (node_id n) \<and> \<not> send_complete n
    | NoEntry \<Rightarrow> \<exists>t \<in> set (fd_nodes def). is_trigger t \<and> edges_from (fd_edges def) (node_id t) = []
    | CycleDetected \<Rightarrow> \<exists>t \<in> set (fd_nodes def). \<exists>c. is_trigger t \<and> ve_nodeId err = Some c
        \<and> (node_id t, c) \<in> (edge_rel (fd_edges def))\<^sup>* \<and> (c, c) \<in> (edge_rel (fd_edges def))\<^sup>+
    | BranchMissingExit \<Rightarrow> \<exists>n \<in> set (fd_nodes def). is_branch n \<and> ve_nodeId err = Some (node_id n)
        \<and> \<not> reaches_exit (fd_nodes def) (fd_edges def) (node_id n)"
proof -
  let ?local = "(if length (filter is_trigger (fd_nodes def)) \<noteq> 1
      then [\<lparr>ve_code = NoTrigger, ve_nodeId = None\<rparr>] else []) @ concat (map empty_send_error (fd_nodes def))"
  consider (local) "err \<in> set ?local"
    | (graph) t gerrs where "filter is_trigger (fd_nodes def) = [t]"
        "graph_errors def (node_id t) = Some gerrs" "err \<in> set gerrs"
  proof (cases "length (filter is_trigger (fd_nodes def)) = 1")
    case True
    then obtain t where t: "filter is_trigger (fd_nodes def) = [t]" by (auto simp: length_Suc_conv)
    then obtain gerrs where "graph_errors def (node_id t) = Some gerrs" "errs = ?local @ gerrs"
      using assms(1) by (auto simp: validateFlowDefinition_def)
    then show ?thesis using assms(2) t that by auto
  next
    case False
    then show ?thesis using assms(1,2) that(1) by (auto simp: validateFlowDefinition_def)
  qed
  then show ?thesis
  proof cases
    case local
    then show ?thesis using empty_send_errors_mem [of _ "fd_nodes def" err] by (fastforce split: if_splits)
  next
    case graph
    then have t: "t \<in> set (fd_nodes def)" "is_trigger t" by (auto dest: filter_eq_ConsD)
    obtain c branches where p: "findCycleReachableFrom (node_id t) (fd_edges def) = Some c"
      "branch_errors def (collectReachable (node_id t) (fd_edges def)) (fd_nodes def) = Some branches"
      "gerrs = (if edges_from (fd_edges def) (node_id t) = [] then [\<lparr>ve_code = NoEntry, ve_nodeId = None\<rparr>] else [])
         @ (if truthy c then [\<lparr>ve_code = CycleDetected, ve_nodeId = c\<rparr>] else []) @ branches"
      using graph_errors_parts [OF graph(2)] by blast
    consider (entry) "err = \<lparr>ve_code = NoEntry, ve_nodeId = None\<rparr>" "edges_from (fd_edges def) (node_id t) = []"
      | (cycle) "err = \<lparr>ve_code = CycleDetected, ve_nodeId = c\<rparr>" "truthy c"
      | (branch) "err \<in> set branches"
      using graph(3) p(3) by (auto split: if_splits)
    then show ?thesis
    proof cases
      case cycle
      then obtain x where "c = Some x" by (cases c) auto
      then show ?thesis using findCycle_answer [OF p(1) schema_targets [OF assms(3)]] t cycle by auto
    next
      case branch
      then show ?thesis unfolding branch_errors_mem [OF p(2)]
        using pathReachesExit_complete(1) by fastforce
    qed (use t in auto)
  qed
qed


definition example_branching :: FlowDefinition where
  "example_branching =
     \<lparr>fd_nodes =
        [TriggerNode ''t'' EventTrigger (Some ''signup'') None \<lparr>pos_x = Fin 0, pos_y = Fin 0\<rparr>,
         BranchNode ''b'' ''s1'' \<lparr>pos_x = Fin 0, pos_y = Fin 1\<rparr>,
         SendNode ''s'' (Some ''d-1'') (Some ''7'') None \<lparr>pos_x = Fin 0, pos_y = Fin 2\<rparr>,
         ExitNode ''x'' \<lparr>pos_x = Fin 0, pos_y = Fin 3\<rparr>],
      fd_edges =
        [\<lparr>edge_id = ''e0'', edge_source = ''t'', edge_target = ''b'', edge_sourceHandle = None\<rparr>,
         \<lparr>edge_id = ''e1'', edge_source = ''b'', edge_target = ''s'', edge_sourceHandle = Some HYes\<rparr>,
         \<lparr>edge_id = ''e2'', edge_source = ''b'', edge_target = ''x'', edge_sourceHandle = Some HNo\<rparr>,
         \<lparr>edge_id = ''e3'', edge_source = ''s'', edge_target = ''x'', edge_sourceHandle = None\<rparr>]\<rparr>"

text \<open>The same flow with the last edge led back to the branch, and with its \<open>no\<close> edge dangling.\<close>

definition example_looping :: FlowDefinition where
  "example_looping = example_branching
     \<lparr>fd_edges := take 3 (fd_edges example_branching)
        @ [\<lparr>edge_id = ''e3'', edge_source = ''s'', edge_target = ''b'', edge_sourceHandle = None\<rparr>]\<rparr>"

definition example_dangling :: FlowDefinition where
  "example_dangling = example_branching
     \<lparr>fd_edges := take 2 (fd_edges example_branching)
        @ [\<lparr>edge_id = ''e2'', edge_source = ''b'', edge_target = ''gone'', edge_sourceHandle = Some HNo\<rparr>,
           \<lparr>edge_id = ''e3'', edge_source = ''s'', edge_target = ''x'', edge_sourceHandle = None\<rparr>]\<rparr>"

lemma example_schemas:
  "flowDefinitionSchema (\<lambda>s. True) (\<lambda>s. True) example_branching"
  "flowDefinitionSchema (\<lambda>s. True) (\<lambda>s. True) example_looping"
  "flowDefinitionSchema (\<lambda>s. True) (\<lambda>s. True) example_dangling"
  by code_simp+


lemma validator_errors_are_real_witness:
  "\<exists>c. (''t'', c) \<in> (edge_rel (fd_edges example_looping))\<^sup>* \<and> (c, c) \<in> (edge_rel (fd_edges example_looping))\<^sup>+"
proof -
  have v: "validateFlowDefinition example_looping
      = Some [\<lparr>ve_code = CycleDetected, ve_nodeId = Some ''b''\<rparr>]"
    by code_simp
  have "\<exists>t \<in> set (fd_nodes example_looping). \<exists>c. is_trigger t
      \<and> (node_id t, c) \<in> (edge_rel (fd_edges example_looping))\<^sup>*
      \<and> (c, c) \<in> (edge_rel (fd_edges example_looping))\<^sup>+"
    using validator_errors_are_real [OF v _ example_schemas(2), of "\<lparr>ve_code = CycleDetected, ve_nodeId = Some ''b''\<rparr>"]
    by auto
  then show ?thesis by (auto simp: example_looping_def example_branching_def)
qed

text \<open>The clause on dangling edges is needed: the walk takes a target that is not in the definition
  for an exit.\<close>

lemma dangling_branch_accepted:
  "validateFlowDefinition example_dangling = Some []
   \<and> \<not> reaches_exit (fd_nodes example_dangling) (fd_edges example_dangling) ''b''"
proof -
  have "\<not> reaches_exit (fd_nodes example_dangling) (fd_edges example_dangling) ''gone''"
    by (auto elim!: reaches_exit.cases simp: example_dangling_def example_branching_def node_by_id_def)
  then have "\<not> reaches_exit (fd_nodes example_dangling) (fd_edges example_dangling) ''b''"
    by (force elim!: reaches_exit.cases simp: example_dangling_def example_branching_def node_by_id_def
        ways_on_def edges_from_def)
  moreover have "validateFlowDefinition example_dangling = Some []" by code_simp
  ultimately show ?thesis by simp
qed

end
