(* ===== verification/Flow_Engine.thy ===== *)
theory Flow_Engine
  imports Send_Dispatch Segment_Query Flow_Time Flow_Graph
begin

text \<open>
  The flow engine (\<open>apps/worker/src/queues/flows\<close>): one step of a run, \<open>processFlowRunAdvance\<close>, with
  its guards, its step budget, the exit conditions and the four node handlers; and the periodic
  reconciliation that nudges due runs. A step is one transaction: its database writes take effect
  together or, when it throws (\<open>Inl\<close>), not at all. The jobs it enqueues go to Redis at once; every
  throw of a step lies before its first enqueue. A row lock held by a concurrent step makes the
  statement return no row, which is the same early return as a run that does not exist.
\<close>

section \<open>Definitions\<close>

datatype flow_error =
    PinnedVersionMissing uuid
  | NodeMissing string
  | UnsupportedNode string
  | SegmentQueryFailed query_error
  | TimeFailed time_error

record engine_env =
  en_now :: instant
  en_zones :: zones
  en_pg :: pg

subsection \<open>The queues\<close>

text \<open>\<open>Queue.add\<close> with the id of a job that still exists does nothing. An advance job's id is the run
  and the clock; its delay is \<open>None\<close> where the option is absent.\<close>

record advance_job =
  aj_workspaceId :: uuid
  aj_flowRunId :: uuid
  aj_enqueuedAt :: instant
  aj_delay :: "int option"

record engine =
  e_db :: crm
  e_advanceQueue :: "advance_job list"
  e_emailQueue :: "(string \<times> FlowSendJob) list"

definition enqueueFlowRunAdvance ::
  "instant \<Rightarrow> uuid \<Rightarrow> uuid \<Rightarrow> int option \<Rightarrow> engine \<Rightarrow> engine" where
  "enqueueFlowRunAdvance now workspaceId flowRunId delay s =
     (if \<exists>j \<in> set (e_advanceQueue s). aj_flowRunId j = flowRunId \<and> aj_enqueuedAt j = now then s
      else s\<lparr>e_advanceQueue := e_advanceQueue s
               @ [\<lparr>aj_workspaceId = workspaceId, aj_flowRunId = flowRunId, aj_enqueuedAt = now,
                   aj_delay = delay\<rparr>]\<rparr>)"

definition add_email_job :: "string \<Rightarrow> FlowSendJob \<Rightarrow> engine \<Rightarrow> engine" where
  "add_email_job jobId job s =
     (if jobId \<in> fst ` set (e_emailQueue s) then s
      else s\<lparr>e_emailQueue := e_emailQueue s @ [(jobId, job)]\<rparr>)"

definition send_job_id :: "uuid \<Rightarrow> string \<Rightarrow> string" where
  "send_job_id flowRunId nodeId = flowRunId @ ''-'' @ nodeId"

subsection \<open>Exit conditions\<close>

definition segment_definition :: "crm \<Rightarrow> uuid \<Rightarrow> uuid \<Rightarrow> SegmentDefinition option" where
  "segment_definition db workspaceId segmentId =
     map_option sg_definition
       (find (\<lambda>s. sg_id s = segmentId \<and> sg_workspaceId s = workspaceId) (t_segments db))"

fun evaluateExitCondition ::
  "engine_env \<Rightarrow> crm \<Rightarrow> uuid \<Rightarrow> uuid \<Rightarrow> instant \<Rightarrow> FlowExitCondition \<Rightarrow> query_error + bool" where
  "evaluateExitCondition env db workspaceId contactId enteredAt (ExitOnSegment segmentId mode_in) =
     (case segment_definition db workspaceId segmentId of
        None \<Rightarrow> Inr (\<not> mode_in)
      | Some def \<Rightarrow>
          (case isContactInSegment (en_pg env) (en_now env) workspaceId def contactId db of
             Inl e \<Rightarrow> Inl e
           | Inr isInSegment \<Rightarrow> Inr (if mode_in then isInSegment else \<not> isInSegment)))"
| "evaluateExitCondition env db workspaceId contactId enteredAt (ExitOnEvent eventName) =
     Inr (\<exists>e \<in> set (t_events db). ev_workspaceId e = workspaceId \<and> ev_contactId e = contactId
            \<and> ev_name e = eventName \<and> enteredAt < ev_occurredAt e)"

fun evaluateExitConditions ::
  "engine_env \<Rightarrow> crm \<Rightarrow> uuid \<Rightarrow> uuid \<Rightarrow> instant \<Rightarrow> FlowExitCondition list \<Rightarrow> query_error + bool" where
  "evaluateExitConditions env db workspaceId contactId enteredAt [] = Inr False"
| "evaluateExitConditions env db workspaceId contactId enteredAt (c # cs) =
     (case evaluateExitCondition env db workspaceId contactId enteredAt c of
        Inl e \<Rightarrow> Inl e
      | Inr True \<Rightarrow> Inr True
      | Inr False \<Rightarrow> evaluateExitConditions env db workspaceId contactId enteredAt cs)"

subsection \<open>The node handlers\<close>

definition loadContactTimezone :: "crm \<Rightarrow> uuid \<Rightarrow> uuid \<Rightarrow> string option" where
  "loadContactTimezone db workspaceId contactId =
     (case find (\<lambda>c. ct_workspaceId c = workspaceId \<and> ct_id c = contactId) (t_contacts db) of
        None \<Rightarrow> None
      | Some c \<Rightarrow> ct_timezone c)"

definition resolveNextNodeId :: "FlowDefinition \<Rightarrow> string \<Rightarrow> string option" where
  "resolveNextNodeId def nodeId =
     map_option edge_target (find (\<lambda>e. edge_source e = nodeId) (fd_edges def))"

definition resolveBranchNextNodeId :: "FlowDefinition \<Rightarrow> string \<Rightarrow> SourceHandle \<Rightarrow> string option" where
  "resolveBranchNextNodeId def nodeId branch =
     map_option edge_target
       (find (\<lambda>e. edge_source e = nodeId \<and> edge_sourceHandle e = Some branch) (fd_edges def))"

definition resolveQuietHoursWindow ::
  "engine_env \<Rightarrow> crm \<Rightarrow> uuid \<Rightarrow> uuid \<Rightarrow> flow_row \<Rightarrow> QuietHoursWindow option" where
  "resolveQuietHoursWindow env db workspaceId contactId flow =
     (if f_quietHoursMode flow = ''disabled'' then None
      else
        let settings = getWorkspaceSendSettings db workspaceId;
            bounds = (if f_quietHoursMode flow = ''custom''
                      then Some (f_quietHoursStart flow, f_quietHoursEnd flow)
                      else if \<not> quietHoursEnabled settings then None
                      else Some (quietHoursStart settings, quietHoursEnd settings))
        in (case bounds of
              Some (Some startMinutes, Some endMinutes) \<Rightarrow>
                Some \<lparr>qw_startMinutes = startMinutes, qw_endMinutes = endMinutes,
                      qw_timezone = resolveTimezone (en_zones env)
                        (loadContactTimezone db workspaceId contactId) (defaultTimezone settings)\<rparr>
            | _ \<Rightarrow> None))"

datatype SendNodeResult = SendEnqueued "string option" | SendDeferred instant

definition handleSendNode ::
  "engine_env \<Rightarrow> uuid \<Rightarrow> uuid \<Rightarrow> uuid \<Rightarrow> string \<Rightarrow> FlowDefinition \<Rightarrow> flow_row \<Rightarrow> engine
     \<Rightarrow> flow_error + (engine \<times> SendNodeResult)" where
  "handleSendNode env workspaceId flowRunId contactId nodeId def flow s =
     (let enqueue = (add_email_job (send_job_id flowRunId nodeId)
            \<lparr>fj_workspaceId = workspaceId, fj_flowRunId = flowRunId, fj_nodeId = nodeId,
             fj_contactId = contactId\<rparr> s,
            SendEnqueued (resolveNextNodeId def nodeId))
      in (case resolveQuietHoursWindow env (e_db s) workspaceId contactId flow of
            None \<Rightarrow> Inr enqueue
          | Some window \<Rightarrow>
              (case isInsideQuietHours (en_zones env) (en_now env) window of
                 Inl e \<Rightarrow> Inl (TimeFailed e)
               | Inr False \<Rightarrow> Inr enqueue
               | Inr True \<Rightarrow>
                   (case nextQuietWindowEnd (en_zones env) (en_now env) window of
                      Inl e \<Rightarrow> Inl (TimeFailed e)
                    | Inr nextWakeAt \<Rightarrow>
                        Inr (enqueueFlowRunAdvance (en_now env) workspaceId flowRunId
                               (Some (max 0 (nextWakeAt - en_now env))) s,
                             SendDeferred nextWakeAt)))))"

fun unit_ms :: "FlowDelayUnit \<Rightarrow> int" where
  "unit_ms Minutes = 60000"
| "unit_ms Hours = 3600000"
| "unit_ms Days = 86400000"

definition computeFixedWake :: "instant \<Rightarrow> int \<Rightarrow> FlowDelayUnit \<Rightarrow> instant" where
  "computeFixedWake now amount unit = now + amount * unit_ms unit"

definition delay_wake :: "engine_env \<Rightarrow> crm \<Rightarrow> uuid \<Rightarrow> uuid \<Rightarrow> FlowDelay \<Rightarrow> time_error + instant" where
  "delay_wake env db workspaceId contactId delay =
     (case delay of
        FixedDelay amount unit \<Rightarrow> Inr (computeFixedWake (en_now env) amount unit)
      | WaitUntilDelay timeOfDay dayOfWeek \<Rightarrow>
          computeNextWaitUntil (en_zones env) (en_now env) timeOfDay dayOfWeek
            (resolveTimezone (en_zones env) (loadContactTimezone db workspaceId contactId)
              (defaultTimezone (getWorkspaceSendSettings db workspaceId))))"

definition handleDelayNode ::
  "engine_env \<Rightarrow> uuid \<Rightarrow> uuid \<Rightarrow> uuid \<Rightarrow> string \<Rightarrow> FlowDelay \<Rightarrow> FlowDefinition \<Rightarrow> engine
     \<Rightarrow> flow_error + (engine \<times> string option \<times> instant)" where
  "handleDelayNode env workspaceId flowRunId contactId nodeId delay def s =
     (case delay_wake env (e_db s) workspaceId contactId delay of
        Inl e \<Rightarrow> Inl (TimeFailed e)
      | Inr nextWakeAt \<Rightarrow>
          Inr (enqueueFlowRunAdvance (en_now env) workspaceId flowRunId
                 (Some (max 0 (nextWakeAt - en_now env))) s,
               resolveNextNodeId def nodeId, nextWakeAt))"

definition handleBranchNode ::
  "engine_env \<Rightarrow> crm \<Rightarrow> uuid \<Rightarrow> uuid \<Rightarrow> string \<Rightarrow> uuid \<Rightarrow> FlowDefinition
     \<Rightarrow> flow_error + (SourceHandle \<times> string option)" where
  "handleBranchNode env db workspaceId contactId nodeId segmentId def =
     (case (case segment_definition db workspaceId segmentId of
              None \<Rightarrow> Inr False
            | Some sdef \<Rightarrow> isContactInSegment (en_pg env) (en_now env) workspaceId sdef contactId db) of
        Inl e \<Rightarrow> Inl (SegmentQueryFailed e)
      | Inr isInSegment \<Rightarrow>
          (let branch = (if isInSegment then HYes else HNo)
           in Inr (branch, resolveBranchNextNodeId def nodeId branch)))"

subsection \<open>One step\<close>

definition MAX_STEPS_PER_RUN :: nat where
  "MAX_STEPS_PER_RUN = 1000"

definition loadDueFlowRun :: "crm \<Rightarrow> uuid \<Rightarrow> uuid \<Rightarrow> (flow_run_row \<times> flow_row) option" where
  "loadDueFlowRun db workspaceId flowRunId =
     (case find (\<lambda>r. fr_id r = flowRunId \<and> fr_workspaceId r = workspaceId) (t_flowRuns db) of
        None \<Rightarrow> None
      | Some r \<Rightarrow> map_option (Pair r) (find (\<lambda>f. f_id f = fr_flowId r) (t_flows db)))"

definition loadPinnedDefinition :: "crm \<Rightarrow> uuid \<Rightarrow> uuid \<Rightarrow> flow_error + FlowDefinition" where
  "loadPinnedDefinition db workspaceId flowVersionId =
     (case find (\<lambda>v. fv_id v = flowVersionId \<and> fv_workspaceId v = workspaceId) (t_flowVersions db) of
        None \<Rightarrow> Inl (PinnedVersionMissing flowVersionId)
      | Some v \<Rightarrow> Inr (fv_definition v))"

definition countFlowRunSteps :: "crm \<Rightarrow> uuid \<Rightarrow> uuid \<Rightarrow> nat" where
  "countFlowRunSteps db workspaceId flowRunId =
     row_count (\<lambda>t. st_flowRunId t = flowRunId \<and> st_workspaceId t = workspaceId) (t_flowRunSteps db)"

definition appendFlowRunStep ::
  "instant \<Rightarrow> uuid \<Rightarrow> uuid \<Rightarrow> string \<Rightarrow> string \<Rightarrow> string \<Rightarrow> engine \<Rightarrow> engine" where
  "appendFlowRunStep now workspaceId flowRunId nodeId nodeType outcome s =
     s\<lparr>e_db := (e_db s)\<lparr>t_flowRunSteps := t_flowRunSteps (e_db s)
          @ [\<lparr>st_workspaceId = workspaceId, st_flowRunId = flowRunId, st_nodeId = nodeId,
              st_nodeType = nodeType, st_outcome = outcome, st_sendId = None, st_createdAt = now\<rparr>]\<rparr>\<rparr>"

definition update_run :: "uuid \<Rightarrow> uuid \<Rightarrow> (flow_run_row \<Rightarrow> flow_run_row) \<Rightarrow> engine \<Rightarrow> engine" where
  "update_run workspaceId flowRunId f s =
     s\<lparr>e_db := (e_db s)\<lparr>t_flowRuns :=
        update_where (\<lambda>r. fr_id r = flowRunId \<and> fr_workspaceId r = workspaceId) f (t_flowRuns (e_db s))\<rparr>\<rparr>"

definition end_run :: "FlowRunStatus \<Rightarrow> string \<Rightarrow> instant \<Rightarrow> flow_run_row \<Rightarrow> flow_run_row" where
  "end_run status reason now r =
     r\<lparr>fr_status := status, fr_exitedAt := Some now, fr_exitReason := Some reason\<rparr>"

definition move_run :: "string \<Rightarrow> instant \<Rightarrow> flow_run_row \<Rightarrow> flow_run_row" where
  "move_run nodeId wake r =
     r\<lparr>fr_currentNodeId := Some nodeId, fr_nextWakeAt := Some wake, fr_status := RunWaiting\<rparr>"

definition defer_run :: "instant \<Rightarrow> flow_run_row \<Rightarrow> flow_run_row" where
  "defer_run wake r = r\<lparr>fr_nextWakeAt := Some wake, fr_status := RunWaiting\<rparr>"

definition handleExitNode :: "instant \<Rightarrow> uuid \<Rightarrow> uuid \<Rightarrow> engine \<Rightarrow> engine" where
  "handleExitNode now workspaceId flowRunId =
     update_run workspaceId flowRunId (end_run RunCompleted ''reached_exit'' now)"

text \<open>The write after a send, delay or branch node: on to the next node, or the dead-end fallback.\<close>

definition advance_or_complete ::
  "instant \<Rightarrow> uuid \<Rightarrow> uuid \<Rightarrow> string option \<Rightarrow> instant \<Rightarrow> engine \<Rightarrow> engine" where
  "advance_or_complete now workspaceId flowRunId nextNodeId wake s =
     (if truthy nextNodeId then update_run workspaceId flowRunId (move_run (the nextNodeId) wake) s
      else update_run workspaceId flowRunId (end_run RunCompleted ''reached_exit'' now) s)"

definition nudge_forward :: "instant \<Rightarrow> uuid \<Rightarrow> uuid \<Rightarrow> string option \<Rightarrow> engine \<Rightarrow> engine" where
  "nudge_forward now workspaceId flowRunId nextNodeId s =
     (if truthy nextNodeId then enqueueFlowRunAdvance now workspaceId flowRunId None s else s)"

fun dispatch_node ::
  "engine_env \<Rightarrow> uuid \<Rightarrow> uuid \<Rightarrow> flow_run_row \<Rightarrow> flow_row \<Rightarrow> FlowDefinition \<Rightarrow> FlowNode \<Rightarrow> engine
     \<Rightarrow> flow_error + engine" where
  "dispatch_node env workspaceId flowRunId run flow def (SendNode i t sid em p) s =
     (case handleSendNode env workspaceId flowRunId (fr_contactId run) i def flow s of
        Inl e \<Rightarrow> Inl e
      | Inr (s1, SendDeferred nextWakeAt) \<Rightarrow>
          Inr (appendFlowRunStep (en_now env) workspaceId flowRunId i ''send'' ''deferred_quiet_hours''
                (update_run workspaceId flowRunId (defer_run nextWakeAt) s1))
      | Inr (s1, SendEnqueued nextNodeId) \<Rightarrow>
          Inr (nudge_forward (en_now env) workspaceId flowRunId nextNodeId
                (appendFlowRunStep (en_now env) workspaceId flowRunId i ''send'' ''enqueued''
                  (advance_or_complete (en_now env) workspaceId flowRunId nextNodeId (en_now env) s1))))"
| "dispatch_node env workspaceId flowRunId run flow def (DelayNode i d p) s =
     (case handleDelayNode env workspaceId flowRunId (fr_contactId run) i d def s of
        Inl e \<Rightarrow> Inl e
      | Inr (s1, nextNodeId, nextWakeAt) \<Rightarrow>
          Inr (appendFlowRunStep (en_now env) workspaceId flowRunId i ''delay'' ''waiting''
                (advance_or_complete (en_now env) workspaceId flowRunId nextNodeId nextWakeAt s1)))"
| "dispatch_node env workspaceId flowRunId run flow def (BranchNode i sg p) s =
     (case handleBranchNode env (e_db s) workspaceId (fr_contactId run) i sg def of
        Inl e \<Rightarrow> Inl e
      | Inr (branch, nextNodeId) \<Rightarrow>
          Inr (nudge_forward (en_now env) workspaceId flowRunId nextNodeId
                (appendFlowRunStep (en_now env) workspaceId flowRunId i ''branch''
                   (if branch = HYes then ''branched_yes'' else ''branched_no'')
                   (advance_or_complete (en_now env) workspaceId flowRunId nextNodeId (en_now env) s))))"
| "dispatch_node env workspaceId flowRunId run flow def (ExitNode i p) s =
     Inr (appendFlowRunStep (en_now env) workspaceId flowRunId i ''exit'' ''completed''
           (handleExitNode (en_now env) workspaceId flowRunId s))"
| "dispatch_node env workspaceId flowRunId run flow def (TriggerNode i tt e sg p) s =
     Inl (UnsupportedNode i)"

definition run_due :: "instant \<Rightarrow> flow_run_row \<Rightarrow> flow_row \<Rightarrow> bool" where
  "run_due now run flow =
     ((fr_status run = RunWaiting \<or> fr_status run = RunAdvancing)
      \<and> (case fr_nextWakeAt run of None \<Rightarrow> True | Some wake \<Rightarrow> wake \<le> now)
      \<and> f_status flow \<noteq> FlowPaused \<and> truthy (fr_currentNodeId run))"

definition processFlowRunAdvance ::
  "engine_env \<Rightarrow> uuid \<Rightarrow> uuid \<Rightarrow> engine \<Rightarrow> flow_error + engine" where
  "processFlowRunAdvance env workspaceId flowRunId s =
     (case loadDueFlowRun (e_db s) workspaceId flowRunId of
        None \<Rightarrow> Inr s
      | Some (run, flow) \<Rightarrow>
          if \<not> run_due (en_now env) run flow then Inr s
          else if countFlowRunSteps (e_db s) workspaceId flowRunId \<ge> MAX_STEPS_PER_RUN
          then Inr (update_run workspaceId flowRunId
                     (end_run RunExited ''step_budget_exceeded'' (en_now env)) s)
          else
            (case loadPinnedDefinition (e_db s) workspaceId (fr_flowVersionId run) of
               Inl e \<Rightarrow> Inl e
             | Inr def \<Rightarrow>
                 let nodeId = the (fr_currentNodeId run)
                 in (case find (\<lambda>n. node_id n = nodeId) (fd_nodes def) of
                       None \<Rightarrow> Inl (NodeMissing nodeId)
                     | Some node \<Rightarrow>
                         (case evaluateExitConditions env (e_db s) workspaceId (fr_contactId run)
                                 (fr_enteredAt run) (f_exitConditions flow) of
                            Inl e \<Rightarrow> Inl (SegmentQueryFailed e)
                          | Inr True \<Rightarrow>
                              Inr (appendFlowRunStep (en_now env) workspaceId flowRunId nodeId
                                    (node_type node) ''exit_condition_satisfied''
                                    (update_run workspaceId flowRunId
                                       (end_run RunExited ''exit_condition'' (en_now env)) s))
                          | Inr False \<Rightarrow>
                              dispatch_node env workspaceId flowRunId run flow def node s))))"

section \<open>Reconciliation\<close>

definition wake_passed :: "instant \<Rightarrow> flow_run_row \<Rightarrow> bool" where
  "wake_passed now r =
     (fr_status r = RunWaiting \<and> (case fr_nextWakeAt r of None \<Rightarrow> False | Some wake \<Rightarrow> wake \<le> now))"

definition findDueFlowRunCandidates :: "instant \<Rightarrow> crm \<Rightarrow> (uuid \<times> uuid) list" where
  "findDueFlowRunCandidates now db =
     map (\<lambda>r. (fr_id r, fr_workspaceId r)) (filter (\<lambda>r. wake_passed now r \<and> scan_visible db (fr_workspaceId r)) (t_flowRuns db))"

text \<open>Row-level security restricts the statement to the row's own workspace.\<close>

definition transitionAndNudge :: "instant \<Rightarrow> crm \<Rightarrow> uuid \<times> uuid \<Rightarrow> bool" where
  "transitionAndNudge now db row =
     (\<exists>r \<in> set (t_flowRuns db). \<exists>f \<in> set (t_flows db).
        fr_workspaceId r = snd row \<and> f_workspaceId f = snd row
        \<and> f_id f = fr_flowId r \<and> fr_id r = fst row \<and> wake_passed now r \<and> f_status f \<noteq> FlowPaused)"

fun reconcile_runs :: "instant \<Rightarrow> (uuid \<times> uuid) list \<Rightarrow> engine \<Rightarrow> engine" where
  "reconcile_runs now [] s = s"
| "reconcile_runs now (row # rows) s =
     reconcile_runs now rows
       (if transitionAndNudge now (e_db s) row
        then enqueueFlowRunAdvance now (snd row) (fst row) None s else s)"

definition flowReconciliationTick :: "instant \<Rightarrow> engine \<Rightarrow> engine" where
  "flowReconciliationTick now s = reconcile_runs now (findDueFlowRunCandidates now (e_db s)) s"

section \<open>What a step writes\<close>

text \<open>The ways a step rewrites its run: it ends it, puts it off where it is, or moves it along an
  edge of the definition.\<close>

definition run_write :: "instant \<Rightarrow> FlowDefinition \<Rightarrow> string \<Rightarrow> string \<Rightarrow> (flow_run_row \<Rightarrow> flow_run_row) \<Rightarrow> bool" where
  "run_write now def i outcome f =
     ((\<exists>status reason. status \<in> {RunCompleted, RunExited} \<and> f = end_run status reason now
          \<and> outcome \<noteq> ''deferred_quiet_hours'')
      \<or> (\<exists>wake. f = defer_run wake \<and> outcome = ''deferred_quiet_hours'')
      \<or> (\<exists>m wake. f = move_run m wake \<and> (i, m) \<in> edge_rel (fd_edges def)
          \<and> outcome \<noteq> ''deferred_quiet_hours''))"

lemma run_writeI:
  "oc \<noteq> ''deferred_quiet_hours'' \<Longrightarrow> status \<in> {RunCompleted, RunExited} \<Longrightarrow>
     run_write now def i oc (end_run status reason now)"
  "run_write now def i ''deferred_quiet_hours'' (defer_run wake)"
  "oc \<noteq> ''deferred_quiet_hours'' \<Longrightarrow> (i, m) \<in> edge_rel (fd_edges def) \<Longrightarrow>
     run_write now def i oc (move_run m wake)"
  by (auto simp: run_write_def)

definition step_row :: "instant \<Rightarrow> uuid \<Rightarrow> uuid \<Rightarrow> string \<Rightarrow> string \<Rightarrow> string \<Rightarrow> flow_run_step_row" where
  "step_row now workspaceId flowRunId nodeId nodeType outcome =
     \<lparr>st_workspaceId = workspaceId, st_flowRunId = flowRunId, st_nodeId = nodeId, st_nodeType = nodeType,
      st_outcome = outcome, st_sendId = None, st_createdAt = now\<rparr>"

definition write_step ::
  "uuid \<Rightarrow> uuid \<Rightarrow> (flow_run_row \<Rightarrow> flow_run_row) \<Rightarrow> flow_run_step_row list \<Rightarrow> crm \<Rightarrow> crm" where
  "write_step workspaceId flowRunId f steps db =
     db\<lparr>t_flowRuns := update_where (\<lambda>r. fr_id r = flowRunId \<and> fr_workspaceId r = workspaceId) f (t_flowRuns db),
        t_flowRunSteps := t_flowRunSteps db @ steps\<rparr>"

named_theorems engine_simps

lemma engine_db [engine_simps]:
  "e_db (enqueueFlowRunAdvance now w r d s) = e_db s"
  "e_db (add_email_job i j s) = e_db s"
  "e_db (nudge_forward now w r n s) = e_db s"
  by (simp_all add: enqueueFlowRunAdvance_def add_email_job_def nudge_forward_def)

lemma engine_email [engine_simps]:
  "e_emailQueue (enqueueFlowRunAdvance now w r d s) = e_emailQueue s"
  "e_emailQueue (nudge_forward now w r n s) = e_emailQueue s"
  "e_emailQueue (appendFlowRunStep now w r i t oc s) = e_emailQueue s"
  "e_emailQueue (update_run w r f s) = e_emailQueue s"
  "e_emailQueue (advance_or_complete now w r n k s) = e_emailQueue s"
  by (simp_all add: enqueueFlowRunAdvance_def nudge_forward_def appendFlowRunStep_def update_run_def
      advance_or_complete_def)

lemma engine_written [engine_simps]:
  "e_db (appendFlowRunStep now w r n t oc (update_run w r f s)) =
     write_step w r f [step_row now w r n t oc] (e_db s)"
  "e_db (update_run w r f s) = write_step w r f [] (e_db s)"
  by (simp_all add: appendFlowRunStep_def update_run_def write_step_def step_row_def)

lemma resolveNextNodeId_edge: "resolveNextNodeId def i = Some m \<Longrightarrow> (i, m) \<in> edge_rel (fd_edges def)"
  by (force simp: resolveNextNodeId_def edge_rel_def dest!: find_Some_iff_mem)

lemma resolveBranchNextNodeId_edge:
  "resolveBranchNextNodeId def i b = Some m \<Longrightarrow> (i, m) \<in> edge_rel (fd_edges def)"
  by (force simp: resolveBranchNextNodeId_def edge_rel_def dest!: find_Some_iff_mem)

lemma advance_or_complete_write:
  assumes "\<And>m. next = Some m \<Longrightarrow> (i, m) \<in> edge_rel (fd_edges def)" "oc \<noteq> ''deferred_quiet_hours''"
  shows "\<exists>f. advance_or_complete now w r next wake s = update_run w r f s \<and> run_write now def i oc f"
proof (cases "truthy next")
  case True
  then obtain m where "next = Some m" by (cases "next") auto
  then show ?thesis using True assms run_writeI(3) by (auto simp: advance_or_complete_def)
next
  case False
  then show ?thesis using assms(2) run_writeI(1) [of oc RunCompleted]
    by (auto simp: advance_or_complete_def)
qed

lemma step_written:
  "e_db s' = write_step w r f [step_row now w r i t oc] db \<Longrightarrow> run_write now def i oc f \<Longrightarrow>
   \<exists>f t oc. e_db s' = write_step w r f [step_row now w r i t oc] db \<and> run_write now def i oc f"
  by blast

lemma dispatch_node_writes:
  assumes "dispatch_node env w r run flow def node s = Inr s'"
  shows "\<exists>f t oc. e_db s' = write_step w r f [step_row (en_now env) w r (node_id node) t oc] (e_db s)
    \<and> run_write (en_now env) def (node_id node) oc f"
proof (cases node)
  case (SendNode i t sid em p)
  obtain s1 res where h: "handleSendNode env w r (fr_contactId run) i def flow s = Inr (s1, res)"
    using assms SendNode by (auto split: sum.splits)
  have db: "e_db s1 = e_db s"
    using h by (auto simp: handleSendNode_def engine_simps Let_def split: option.splits sum.splits bool.splits)
  show ?thesis
  proof (cases res)
    case (SendDeferred wake)
    then have "e_db s' = write_step w r (defer_run wake)
        [step_row (en_now env) w r i ''send'' ''deferred_quiet_hours''] (e_db s)"
      using assms SendNode h db by (auto simp: engine_simps)
    then show ?thesis using run_writeI(2) unfolding SendNode FlowNode.sel by (rule step_written)
  next
    case (SendEnqueued nextNodeId)
    then have "nextNodeId = resolveNextNodeId def i"
      using h by (auto simp: handleSendNode_def Let_def split: option.splits sum.splits bool.splits)
    then obtain f where f: "advance_or_complete (en_now env) w r nextNodeId (en_now env) s1 = update_run w r f s1"
      "run_write (en_now env) def i ''enqueued'' f"
      using advance_or_complete_write [of nextNodeId i def "''enqueued''" "en_now env" w r "en_now env" s1]
        resolveNextNodeId_edge by auto
    then have "e_db s' = write_step w r f [step_row (en_now env) w r i ''send'' ''enqueued''] (e_db s)"
      using assms SendNode h db SendEnqueued by (auto simp: engine_simps)
    then show ?thesis using f(2) unfolding SendNode FlowNode.sel by (rule step_written)
  qed
next
  case (DelayNode i d p)
  obtain s1 nextNodeId wake where h: "handleDelayNode env w r (fr_contactId run) i d def s = Inr (s1, nextNodeId, wake)"
    using assms DelayNode by (auto split: sum.splits)
  have db: "e_db s1 = e_db s" "nextNodeId = resolveNextNodeId def i"
    using h by (auto simp: handleDelayNode_def engine_simps split: sum.splits)
  obtain f where f: "advance_or_complete (en_now env) w r nextNodeId wake s1 = update_run w r f s1"
    "run_write (en_now env) def i ''waiting'' f"
    using advance_or_complete_write [of nextNodeId i def "''waiting''" "en_now env" w r wake s1]
      resolveNextNodeId_edge db(2) by auto
  then have "e_db s' = write_step w r f [step_row (en_now env) w r i ''delay'' ''waiting''] (e_db s)"
    using assms DelayNode h db by (auto simp: engine_simps)
  then show ?thesis using f(2) unfolding DelayNode FlowNode.sel by (rule step_written)
next
  case (BranchNode i sg p)
  obtain b nextNodeId where h: "handleBranchNode env (e_db s) w (fr_contactId run) i sg def = Inr (b, nextNodeId)"
    using assms BranchNode by (auto split: sum.splits)
  then have n: "nextNodeId = resolveBranchNextNodeId def i b"
    by (auto simp: handleBranchNode_def Let_def split: sum.splits option.splits)
  define oc where "oc = (if b = HYes then ''branched_yes'' else ''branched_no'')"
  have "oc \<noteq> ''deferred_quiet_hours''" by (simp add: oc_def)
  obtain f where f: "advance_or_complete (en_now env) w r nextNodeId (en_now env) s = update_run w r f s"
    "run_write (en_now env) def i oc f"
    using advance_or_complete_write [of nextNodeId i def oc "en_now env" w r "en_now env" s]
      resolveBranchNextNodeId_edge n \<open>oc \<noteq> _\<close> by metis
  then have "e_db s' = write_step w r f [step_row (en_now env) w r i ''branch'' oc] (e_db s)"
    using assms BranchNode h by (auto simp: engine_simps oc_def)
  then show ?thesis using f(2) unfolding BranchNode FlowNode.sel by (rule step_written)
next
  case (ExitNode i p)
  then have "e_db s' = write_step w r (end_run RunCompleted ''reached_exit'' (en_now env))
      [step_row (en_now env) w r i ''exit'' ''completed''] (e_db s)"
    using assms by (auto simp: handleExitNode_def engine_simps)
  then show ?thesis unfolding ExitNode FlowNode.sel by (rule step_written) (simp add: run_writeI)
qed (use assms in simp)

text \<open>One step, taken apart: nothing happens, the budget ends the run, or the step writes one row of
  the log and rewrites the run.\<close>

lemma advance_cases:
  assumes "processFlowRunAdvance env w r s = Inr s'"
  obtains (idle) "s' = s"
    | (budget) run flow where "loadDueFlowRun (e_db s) w r = Some (run, flow)" "run_due (en_now env) run flow"
        "countFlowRunSteps (e_db s) w r \<ge> MAX_STEPS_PER_RUN"
        "s' = update_run w r (end_run RunExited ''step_budget_exceeded'' (en_now env)) s"
    | (step) run flow def i f t oc where "loadDueFlowRun (e_db s) w r = Some (run, flow)"
        "run_due (en_now env) run flow" "countFlowRunSteps (e_db s) w r < MAX_STEPS_PER_RUN"
        "loadPinnedDefinition (e_db s) w (fr_flowVersionId run) = Inr def" "fr_currentNodeId run = Some i"
        "e_db s' = write_step w r f [step_row (en_now env) w r i t oc] (e_db s)"
        "run_write (en_now env) def i oc f"
proof (cases "\<exists>run flow. loadDueFlowRun (e_db s) w r = Some (run, flow) \<and> run_due (en_now env) run flow
    \<and> countFlowRunSteps (e_db s) w r < MAX_STEPS_PER_RUN")
  case False
  then show ?thesis using assms idle budget
    by (fastforce simp: processFlowRunAdvance_def split: option.splits if_splits)
next
  case True
  then obtain run flow where l: "loadDueFlowRun (e_db s) w r = Some (run, flow)" "run_due (en_now env) run flow"
    "countFlowRunSteps (e_db s) w r < MAX_STEPS_PER_RUN" by blast
  obtain i where i: "fr_currentNodeId run = Some i"
    using l(2) by (cases "fr_currentNodeId run") (auto simp: run_due_def)
  obtain def node ex where d: "loadPinnedDefinition (e_db s) w (fr_flowVersionId run) = Inr def"
    "find (\<lambda>n. node_id n = i) (fd_nodes def) = Some node"
    "evaluateExitConditions env (e_db s) w (fr_contactId run) (fr_enteredAt run) (f_exitConditions flow) = Inr ex"
    using assms l i by (auto simp: processFlowRunAdvance_def Let_def split: sum.splits option.splits)
  have id: "node_id node = i" using find_Some_iff_mem [OF d(2)] by simp
  show ?thesis
  proof (cases ex)
    case True
    then show ?thesis using assms l i d id
      by (intro step [OF l d(1) i, of "end_run RunExited ''exit_condition'' (en_now env)" "node_type node"
            "''exit_condition_satisfied''"])
        (auto simp: processFlowRunAdvance_def Let_def engine_simps run_write_def)
  next
    case False
    then have "dispatch_node env w r run flow def node s = Inr s'"
      using assms l i d by (simp add: processFlowRunAdvance_def Let_def)
    from dispatch_node_writes [OF this] show ?thesis using step [OF l d(1) i] id by blast
  qed
qed


section \<open>Properties of a step\<close>

lemma dispatch_node_email:
  assumes "dispatch_node env w r run flow def node s = Inr s'" "e_emailQueue s' \<noteq> e_emailQueue s"
  obtains i t sid em p where "node = SendNode i t sid em p"
    "case resolveQuietHoursWindow env (e_db s) w (fr_contactId run) flow of None \<Rightarrow> True
       | Some window \<Rightarrow> isInsideQuietHours (en_zones env) (en_now env) window = Inr False"
    "send_job_id r i \<notin> fst ` set (e_emailQueue s)"
    "e_emailQueue s' = e_emailQueue s @ [(send_job_id r i,
       \<lparr>fj_workspaceId = w, fj_flowRunId = r, fj_nodeId = i, fj_contactId = fr_contactId run\<rparr>)]"
proof (cases node)
  case (SendNode i t sid em p)
  obtain s1 res where h: "handleSendNode env w r (fr_contactId run) i def flow s = Inr (s1, res)"
    using assms SendNode by (auto split: sum.splits)
  have "e_emailQueue s' = e_emailQueue s1"
    using assms(1) SendNode h by (cases res) (auto simp: engine_simps)
  then have ne: "e_emailQueue s1 \<noteq> e_emailQueue s" using assms(2) by simp
  let ?W = "resolveQuietHoursWindow env (e_db s) w (fr_contactId run) flow"
  have out: "case ?W of None \<Rightarrow> True
      | Some window \<Rightarrow> isInsideQuietHours (en_zones env) (en_now env) window = Inr False"
    using h ne
    by (auto simp: handleSendNode_def engine_simps Let_def split: option.splits sum.splits bool.splits)
  then have "s1 = add_email_job (send_job_id r i)
      \<lparr>fj_workspaceId = w, fj_flowRunId = r, fj_nodeId = i, fj_contactId = fr_contactId run\<rparr> s"
    using h by (cases ?W) (auto simp: handleSendNode_def Let_def)
  then show ?thesis
    using ne that [OF SendNode out] \<open>e_emailQueue s' = e_emailQueue s1\<close>
    by (auto simp: add_email_job_def split: if_splits)
next
  case (DelayNode i d p)
  then show ?thesis using assms
    by (auto simp: handleDelayNode_def engine_simps split: sum.splits)
next
  case (BranchNode i sg p)
  then show ?thesis using assms by (auto simp: engine_simps split: sum.splits prod.splits)
qed (use assms in \<open>auto simp: engine_simps handleExitNode_def\<close>)

lemma step_dispatches:
  assumes "processFlowRunAdvance env w r s = Inr s'" "e_emailQueue s' \<noteq> e_emailQueue s"
  obtains run flow def node where "loadDueFlowRun (e_db s) w r = Some (run, flow)" "run_due (en_now env) run flow"
    "countFlowRunSteps (e_db s) w r < MAX_STEPS_PER_RUN"
    "loadPinnedDefinition (e_db s) w (fr_flowVersionId run) = Inr def"
    "find (\<lambda>n. node_id n = the (fr_currentNodeId run)) (fd_nodes def) = Some node"
    "evaluateExitConditions env (e_db s) w (fr_contactId run) (fr_enteredAt run) (f_exitConditions flow) = Inr False"
    "dispatch_node env w r run flow def node s = Inr s'"
proof -
  obtain run flow where l: "loadDueFlowRun (e_db s) w r = Some (run, flow)" "run_due (en_now env) run flow"
    "countFlowRunSteps (e_db s) w r < MAX_STEPS_PER_RUN"
    using assms by (fastforce simp: processFlowRunAdvance_def engine_simps split: option.splits if_splits)
  then show ?thesis
    using assms that [OF l]
    by (auto simp: processFlowRunAdvance_def Let_def engine_simps split: option.splits sum.splits bool.splits)
qed

lemma step_email:
  assumes "processFlowRunAdvance env w r s = Inr s'" "e_emailQueue s' \<noteq> e_emailQueue s"
  obtains i j where "send_job_id r i \<notin> fst ` set (e_emailQueue s)" "fj_flowRunId j = r" "fj_nodeId j = i"
    "e_emailQueue s' = e_emailQueue s @ [(send_job_id r i, j)]"
proof -
  obtain run flow def node where "dispatch_node env w r run flow def node s = Inr s'"
    by (rule step_dispatches [OF assms])
  then show ?thesis using assms(2) by (rule dispatch_node_email) (rule that, simp_all)
qed

text \<open>C9: a flow sends only where it may. When a step puts a send on the queue, the run was due and
  live in a flow that is not paused, under its step budget, at a send node of its pinned definition,
  no exit condition held, and the contact was outside quiet hours; and the job is the run's only one
  for that node.\<close>

theorem send_enqueued_only_when_allowed:
  assumes "processFlowRunAdvance env w r s = Inr s'" "e_emailQueue s' \<noteq> e_emailQueue s"
  shows "\<exists>run flow def i t sid em p. loadDueFlowRun (e_db s) w r = Some (run, flow)
    \<and> run_due (en_now env) run flow \<and> f_status flow \<noteq> FlowPaused
    \<and> countFlowRunSteps (e_db s) w r < MAX_STEPS_PER_RUN
    \<and> loadPinnedDefinition (e_db s) w (fr_flowVersionId run) = Inr def
    \<and> SendNode i t sid em p \<in> set (fd_nodes def) \<and> fr_currentNodeId run = Some i
    \<and> evaluateExitConditions env (e_db s) w (fr_contactId run) (fr_enteredAt run) (f_exitConditions flow) = Inr False
    \<and> (case resolveQuietHoursWindow env (e_db s) w (fr_contactId run) flow of None \<Rightarrow> True
        | Some window \<Rightarrow> isInsideQuietHours (en_zones env) (en_now env) window = Inr False)
    \<and> send_job_id r i \<notin> fst ` set (e_emailQueue s)
    \<and> e_emailQueue s' = e_emailQueue s @ [(send_job_id r i,
        \<lparr>fj_workspaceId = w, fj_flowRunId = r, fj_nodeId = i, fj_contactId = fr_contactId run\<rparr>)]"
proof -
  obtain run flow def node where l: "loadDueFlowRun (e_db s) w r = Some (run, flow)"
    "run_due (en_now env) run flow" "countFlowRunSteps (e_db s) w r < MAX_STEPS_PER_RUN"
    and d: "loadPinnedDefinition (e_db s) w (fr_flowVersionId run) = Inr def"
    "find (\<lambda>n. node_id n = the (fr_currentNodeId run)) (fd_nodes def) = Some node"
    "evaluateExitConditions env (e_db s) w (fr_contactId run) (fr_enteredAt run) (f_exitConditions flow) = Inr False"
    "dispatch_node env w r run flow def node s = Inr s'"
    by (rule step_dispatches [OF assms])
  obtain i where i: "fr_currentNodeId run = Some i"
    using l(2) by (cases "fr_currentNodeId run") (auto simp: run_due_def)
  from d(4) assms(2) show ?thesis
  proof (rule dispatch_node_email)
    fix j t sid em p assume n: "node = SendNode j t sid em p"
    then have "j = i" "SendNode i t sid em p \<in> set (fd_nodes def)"
      using find_Some_iff_mem [OF d(2)] i by auto
    moreover have "f_status flow \<noteq> FlowPaused" using l(2) by (simp add: run_due_def)
    ultimately show "case resolveQuietHoursWindow env (e_db s) w (fr_contactId run) flow of None \<Rightarrow> True
         | Some window \<Rightarrow> isInsideQuietHours (en_zones env) (en_now env) window = Inr False \<Longrightarrow>
       send_job_id r j \<notin> fst ` set (e_emailQueue s) \<Longrightarrow>
       e_emailQueue s' = e_emailQueue s @ [(send_job_id r j,
         \<lparr>fj_workspaceId = w, fj_flowRunId = r, fj_nodeId = j, fj_contactId = fr_contactId run\<rparr>)] \<Longrightarrow> ?thesis"
      using l d i by blast
  qed
qed

subsection \<open>The life of a run\<close>

definition run_active :: "flow_run_row \<Rightarrow> bool" where
  "run_active r = (fr_status r = RunWaiting \<or> fr_status r = RunAdvancing)"

text \<open>What any step may do to a row: leave it, or, an active one, keep its identity and end it, put
  it off, or move it along an edge of the definition it is pinned to.\<close>

definition run_follows :: "crm \<Rightarrow> uuid \<Rightarrow> flow_run_row \<Rightarrow> flow_run_row \<Rightarrow> bool" where
  "run_follows db w x y =
     (y = x \<or> run_active x \<and> fr_id y = fr_id x \<and> fr_workspaceId y = fr_workspaceId x
        \<and> fr_flowId y = fr_flowId x \<and> fr_flowVersionId y = fr_flowVersionId x
        \<and> fr_contactId y = fr_contactId x \<and> fr_enteredAt y = fr_enteredAt x \<and> fr_lastEntryAt y = fr_lastEntryAt x
        \<and> (fr_status y \<in> {RunCompleted, RunExited} \<and> fr_currentNodeId y = fr_currentNodeId x
             \<and> fr_exitedAt y \<noteq> None \<and> fr_exitReason y \<noteq> None
           \<or> fr_status y = RunWaiting
             \<and> (fr_currentNodeId y = fr_currentNodeId x
                \<or> (\<exists>def i m. loadPinnedDefinition db w (fr_flowVersionId x) = Inr def
                     \<and> fr_currentNodeId x = Some i \<and> fr_currentNodeId y = Some m
                     \<and> (i, m) \<in> edge_rel (fd_edges def)))))"

lemma loadDue_run:
  "loadDueFlowRun db w r = Some (run, flow) \<Longrightarrow>
   run \<in> set (t_flowRuns db) \<and> fr_id run = r \<and> fr_workspaceId run = w"
  by (auto simp: loadDueFlowRun_def dest!: find_Some_iff_mem split: option.splits)

lemma run_due_active: "run_due now run flow \<Longrightarrow> run_active run"
  by (auto simp: run_due_def run_active_def)

lemma update_where_related:
  assumes "distinct (map fr_id t)" "orig \<in> set t" "p orig" "\<And>x. p x \<Longrightarrow> fr_id x = fr_id orig" "R orig (f orig)" "\<And>x. R x x"
  shows "list_all2 R t (update_where p f t)"
proof -
  have "R x (if p x then f x else x)" if "x \<in> set t" for x
  proof (cases "p x")
    case True
    then have "x = orig" using assms(1,2,4) that by (auto simp: distinct_map dest: inj_onD)
    then show ?thesis using True assms(5) by simp
  qed (use assms(6) in simp)
  then show ?thesis by (simp add: update_where_def list_all2_conv_all_nth)
qed

lemma advance_runs_follow:
  assumes "processFlowRunAdvance env w r s = Inr s'" "distinct (map fr_id (t_flowRuns (e_db s)))"
  obtains steps where "list_all2 (run_follows (e_db s) w) (t_flowRuns (e_db s)) (t_flowRuns (e_db s'))"
    "length steps \<le> 1" "\<forall>t \<in> set steps. st_flowRunId t = r \<and> st_workspaceId t = w"
    "e_db s' = (e_db s)\<lparr>t_flowRuns := t_flowRuns (e_db s'), t_flowRunSteps := t_flowRunSteps (e_db s) @ steps\<rparr>"
  using assms(1)
proof (cases rule: advance_cases)
  case idle
  then show ?thesis by (intro that [of "[]"]) (auto simp: run_follows_def list_all2_same)
next
  case (budget run flow)
  have "list_all2 (run_follows (e_db s) w) (t_flowRuns (e_db s)) (t_flowRuns (e_db s'))"
    unfolding budget(4) engine_simps write_step_def
    using loadDue_run [OF budget(1)] run_due_active [OF budget(2)] assms(2)
    by (auto simp: run_follows_def end_run_def intro!: update_where_related [where orig = run])
  then show ?thesis by (rule that [of "[]"]) (simp_all add: budget(4) engine_simps write_step_def)
next
  case (step run flow def i f t oc)
  have "run_follows (e_db s) w run (f run)"
    using step(4,5,7) run_due_active [OF step(2)]
    by (auto simp: run_write_def run_follows_def end_run_def defer_run_def move_run_def)
  then have "list_all2 (run_follows (e_db s) w) (t_flowRuns (e_db s)) (t_flowRuns (e_db s'))"
    unfolding step(6) write_step_def
    using loadDue_run [OF step(1)] assms(2)
    by (auto simp: run_follows_def intro!: update_where_related [where orig = run])
  then show ?thesis
    by (rule that [of "[step_row (en_now env) w r i t oc]"])
      (simp_all add: step(6) write_step_def step_row_def)
qed

text \<open>C8: one step touches one run, at most, and only along its life: a run that has ended is never
  touched again, an active one is ended with its time and reason, put off, or moved along an edge of
  the version it is pinned to; a log row is written for it, and no other table changes.\<close>

theorem advance_follows_flow:
  assumes "processFlowRunAdvance env w r s = Inr s'" "distinct (map fr_id (t_flowRuns (e_db s)))"
  shows "list_all2 (run_follows (e_db s) w) (t_flowRuns (e_db s)) (t_flowRuns (e_db s'))
    \<and> (\<exists>steps. length steps \<le> 1 \<and> (\<forall>t \<in> set steps. st_flowRunId t = r \<and> st_workspaceId t = w)
        \<and> e_db s' = (e_db s)\<lparr>t_flowRuns := t_flowRuns (e_db s'),
                             t_flowRunSteps := t_flowRunSteps (e_db s) @ steps\<rparr>)"
  by (rule advance_runs_follow [OF assms]) blast

subsection \<open>How long a run takes\<close>

text \<open>A sequence of steps of one run, as its nudges bring them, each at its own instant; a step that
  throws leaves the database as it was.\<close>

definition advance_or_stay :: "uuid \<Rightarrow> uuid \<Rightarrow> engine_env \<Rightarrow> engine \<Rightarrow> engine" where
  "advance_or_stay w r env s =
     (case processFlowRunAdvance env w r s of Inl e \<Rightarrow> s | Inr s' \<Rightarrow> s')"

text \<open>The steps of the log that were not put off by quiet hours.\<close>

definition proper_step :: "uuid \<Rightarrow> uuid \<Rightarrow> flow_run_step_row \<Rightarrow> bool" where
  "proper_step w r t =
     (st_flowRunId t = r \<and> st_workspaceId t = w \<and> st_outcome t \<noteq> ''deferred_quiet_hours'')"

definition proper_steps :: "uuid \<Rightarrow> uuid \<Rightarrow> crm \<Rightarrow> nat" where
  "proper_steps w r db = row_count (proper_step w r) (t_flowRunSteps db)"

definition ahead :: "FlowDefinition \<Rightarrow> string \<Rightarrow> string set" where
  "ahead def n = {m. (n, m) \<in> (edge_rel (fd_edges def))\<^sup>+}"

lemma finite_ahead [simp]: "finite (ahead def n)"
proof -
  have "ahead def n \<subseteq> snd ` edge_rel (fd_edges def)"
    by (force simp: ahead_def dest: tranclD2)
  then show ?thesis by (rule finite_subset) simp
qed

lemma ahead_decreases:
  "(n, m) \<in> edge_rel (fd_edges def) \<Longrightarrow> (m, m) \<notin> (edge_rel (fd_edges def))\<^sup>+ \<Longrightarrow>
   card (ahead def m) < card (ahead def n)"
  using finite_ahead [of def n]
  by (rule psubset_card_mono) (auto simp: ahead_def intro: trancl_into_trancl2)

definition the_run :: "uuid \<Rightarrow> uuid \<Rightarrow> crm \<Rightarrow> flow_run_row option" where
  "the_run w r db = find (\<lambda>x. fr_id x = r \<and> fr_workspaceId x = w) (t_flowRuns db)"

definition steps_left :: "FlowDefinition \<Rightarrow> flow_run_row \<Rightarrow> nat" where
  "steps_left def x =
     (if run_active x then Suc (card (ahead def (the (fr_currentNodeId x)))) else 0)"

definition on_course :: "uuid \<Rightarrow> uuid \<Rightarrow> FlowDefinition \<Rightarrow> string \<Rightarrow> crm \<Rightarrow> bool" where
  "on_course w r def start db =
     (\<exists>x n. the_run w r db = Some x \<and> loadPinnedDefinition db w (fr_flowVersionId x) = Inr def
        \<and> fr_currentNodeId x = Some n \<and> (start, n) \<in> (edge_rel (fd_edges def))\<^sup>*)"

lemma run_write_identity:
  "run_write now def i oc f \<Longrightarrow> fr_id (f y) = fr_id y \<and> fr_workspaceId (f y) = fr_workspaceId y
     \<and> fr_flowVersionId (f y) = fr_flowVersionId y"
  by (auto simp: run_write_def end_run_def defer_run_def move_run_def)

lemma the_run_update:
  assumes "the_run w r db = Some x" "run_write now def i oc f"
  shows "the_run w r (write_step w r f steps db) = Some (f x)"
proof -
  have "find p (update_where p f t) = map_option f (find p t)" if "\<And>y. p (f y) = p y" for p t
    by (induction t) (auto simp: that)
  then show ?thesis using assms(1) run_write_identity [OF assms(2)]
    by (simp add: the_run_def write_step_def)
qed

lemma write_step_frame [simp]:
  "loadPinnedDefinition (write_step w r f steps db) = loadPinnedDefinition db"
  by (rule ext)+ (simp add: loadPinnedDefinition_def write_step_def)

lemma proper_steps_append:
  "proper_steps w r (write_step w r f steps db) = proper_steps w r db + row_count (proper_step w r) steps"
  by (simp add: proper_steps_def write_step_def row_count_def)

lemma loadDue_the_run: "loadDueFlowRun db w r = Some (run, flow) \<Longrightarrow> the_run w r db = Some run"
  by (auto simp: loadDueFlowRun_def the_run_def split: option.splits)

lemma on_course_update:
  assumes "on_course w r def start db" "the_run w r db = Some x" "fr_currentNodeId x = Some n"
    and "run_write now def n oc f"
  shows "on_course w r def start (write_step w r f steps db)"
proof -
  have "fr_currentNodeId (f x) = Some n
      \<or> (\<exists>m. fr_currentNodeId (f x) = Some m \<and> (n, m) \<in> edge_rel (fd_edges def))"
    using assms(3,4) by (auto simp: run_write_def end_run_def defer_run_def move_run_def)
  then show ?thesis
    using assms(1-3) the_run_update [OF assms(2,4), of steps] run_write_identity [OF assms(4), of x]
    by (auto simp: on_course_def intro: rtrancl_into_rtrancl)
qed

lemma steps_left_write:
  assumes "run_write now def n oc f" "run_active x" "fr_currentNodeId x = Some n"
    and "\<And>m. (n, m) \<in> edge_rel (fd_edges def) \<Longrightarrow> (m, m) \<notin> (edge_rel (fd_edges def))\<^sup>+"
  shows "(if oc = ''deferred_quiet_hours'' then 0 else 1) + steps_left def (f x) \<le> steps_left def x"
  using assms(1) unfolding run_write_def
proof (elim disjE exE conjE)
  fix m wake assume m: "f = move_run m wake" "(n, m) \<in> edge_rel (fd_edges def)" "oc \<noteq> ''deferred_quiet_hours''"
  have "card (ahead def m) < card (ahead def n)" using ahead_decreases [OF m(2) assms(4) [OF m(2)]] .
  then show ?thesis using m assms(2,3) by (simp add: steps_left_def move_run_def run_active_def)
qed (use assms(2,3) in \<open>auto simp: steps_left_def end_run_def defer_run_def run_active_def\<close>)

lemma step_on_course:
  assumes acyc: "\<forall>c. (start, c) \<in> (edge_rel (fd_edges def))\<^sup>* \<longrightarrow> (c, c) \<notin> (edge_rel (fd_edges def))\<^sup>+"
    and course: "on_course w r def start (e_db s)" and x: "the_run w r (e_db s) = Some x"
  shows "on_course w r def start (e_db (advance_or_stay w r env s))
    \<and> (\<exists>x'. the_run w r (e_db (advance_or_stay w r env s)) = Some x'
        \<and> proper_steps w r (e_db (advance_or_stay w r env s)) + steps_left def x'
          \<le> proper_steps w r (e_db s) + steps_left def x)"
proof (cases "processFlowRunAdvance env w r s")
  case (Inl e)
  then show ?thesis using course x by (simp add: advance_or_stay_def)
next
  case (Inr s1)
  then have s1: "advance_or_stay w r env s = s1" by (simp add: advance_or_stay_def)
  obtain n where c: "loadPinnedDefinition (e_db s) w (fr_flowVersionId x) = Inr def"
    "fr_currentNodeId x = Some n" "(start, n) \<in> (edge_rel (fd_edges def))\<^sup>*"
    using course x by (auto simp: on_course_def)
  from Inr show ?thesis
  proof (cases rule: advance_cases)
    case idle
    then show ?thesis using course x s1 by simp
  next
    case (budget run flow)
    let ?f = "end_run RunExited ''step_budget_exceeded'' (en_now env)"
    have w: "run_write (en_now env) def n [] ?f" by (simp add: run_writeI)
    have db: "e_db s1 = write_step w r ?f [] (e_db s)" by (simp add: budget(4) engine_simps)
    show ?thesis
      using on_course_update [OF course x c(2) w] the_run_update [OF x w, of "[]"]
      unfolding s1 db
      by (simp add: proper_steps_append end_run_def steps_left_def run_active_def)
  next
    case (step run flow def' i f t oc)
    have run: "run = x" using loadDue_the_run [OF step(1)] x by simp
    then have d: "def' = def" "i = n" using step(4,5) c by auto
    note wr = step(7) [unfolded d]
    have "run_active x" using run_due_active [OF step(2)] run by simp
    then have "(if oc = ''deferred_quiet_hours'' then 0 else 1) + steps_left def (f x) \<le> steps_left def x"
      using steps_left_write [OF wr _ c(2)] acyc c(3) by (meson rtrancl_into_rtrancl)
    then show ?thesis
      using on_course_update [OF course x c(2) wr] the_run_update [OF x wr]
      unfolding s1 step(6) proper_steps_append
      by (cases "oc = ''deferred_quiet_hours''") (simp_all add: step_row_def proper_step_def)
  qed
qed

lemma steps_on_course:
  assumes "\<forall>c. (start, c) \<in> (edge_rel (fd_edges def))\<^sup>* \<longrightarrow> (c, c) \<notin> (edge_rel (fd_edges def))\<^sup>+"
  shows "on_course w r def start (e_db s) \<Longrightarrow> the_run w r (e_db s) = Some x \<Longrightarrow>
    \<exists>x'. the_run w r (e_db (fold (advance_or_stay w r) envs s)) = Some x'
      \<and> proper_steps w r (e_db (fold (advance_or_stay w r) envs s)) + steps_left def x'
        \<le> proper_steps w r (e_db s) + steps_left def x"
proof (induction envs arbitrary: s x)
  case (Cons env envs)
  obtain x1 where 1: "on_course w r def start (e_db (advance_or_stay w r env s))"
    "the_run w r (e_db (advance_or_stay w r env s)) = Some x1"
    "proper_steps w r (e_db (advance_or_stay w r env s)) + steps_left def x1
      \<le> proper_steps w r (e_db s) + steps_left def x"
    using step_on_course [OF assms Cons.prems, of env] by blast
  from Cons.IH [OF 1(1,2)] 1(3) show ?case by auto
qed auto

text \<open>A run of a published flow comes to its end. On a definition that the validator passed,
  however its nudges come and whatever they find, a run takes at most one step for the node it is at
  and one for each node ahead of it, quiet-hours deferrals apart.\<close>

theorem published_run_is_bounded:
  assumes "flowDefinitionSchema is_uuid is_email def" "validateFlowDefinition def = Some []"
    and "filter is_trigger (fd_nodes def) = [t]"
    and "on_course w r def (node_id t) (e_db s)" "the_run w r (e_db s) = Some x"
  shows "proper_steps w r (e_db (fold (advance_or_stay w r) envs s))
    \<le> proper_steps w r (e_db s) + Suc (card (ahead def (the (fr_currentNodeId x))))"
proof -
  have "steps_left def x \<le> Suc (card (ahead def (the (fr_currentNodeId x))))"
    by (simp add: steps_left_def)
  then show ?thesis
    using steps_on_course [OF valid_flow_no_cycle [OF assms(1-3)] assms(4,5), of envs] by auto
qed

subsection \<open>A run that quiet hours cannot put off\<close>

text \<open>The step finds the run at a send node inside quiet hours, and the end it computes for them is
  \<open>wake\<close>.\<close>

definition put_off :: "uuid \<Rightarrow> uuid \<Rightarrow> flow_row \<Rightarrow> string \<Rightarrow> instant \<Rightarrow> crm \<Rightarrow> engine_env \<Rightarrow> bool" where
  "put_off w r flow i wake db env =
     (\<exists>run def t sid em p win. loadDueFlowRun db w r = Some (run, flow) \<and> run_due (en_now env) run flow
        \<and> fr_currentNodeId run = Some i \<and> loadPinnedDefinition db w (fr_flowVersionId run) = Inr def
        \<and> find (\<lambda>n. node_id n = i) (fd_nodes def) = Some (SendNode i t sid em p)
        \<and> resolveQuietHoursWindow env db w (fr_contactId run) flow = Some win
        \<and> isInsideQuietHours (en_zones env) (en_now env) win = Inr True
        \<and> nextQuietWindowEnd (en_zones env) (en_now env) win = Inr wake)"

lemma put_offI:
  "loadDueFlowRun db w r = Some (run, flow) \<Longrightarrow> run_due (en_now env) run flow \<Longrightarrow>
   fr_currentNodeId run = Some i \<Longrightarrow> loadPinnedDefinition db w (fr_flowVersionId run) = Inr def \<Longrightarrow>
   find (\<lambda>n. node_id n = i) (fd_nodes def) = Some (SendNode i t sid em p) \<Longrightarrow>
   resolveQuietHoursWindow env db w (fr_contactId run) flow = Some win \<Longrightarrow>
   isInsideQuietHours (en_zones env) (en_now env) win = Inr True \<Longrightarrow>
   nextQuietWindowEnd (en_zones env) (en_now env) win = Inr wake \<Longrightarrow> put_off w r flow i wake db env"
  unfolding put_off_def by blast

lemma loadDue_update:
  assumes "loadDueFlowRun db w r = Some (run, flow)" "run_write now def i oc f"
  shows "loadDueFlowRun (write_step w r f steps db) w r = Some (f run, flow)"
proof -
  have "find p (update_where p f t) = map_option f (find p t)" if "\<And>y. p (f y) = p y" for p t
    by (induction t) (auto simp: that)
  moreover have "fr_flowId (f y) = fr_flowId y" for y
    using assms(2) by (auto simp: run_write_def end_run_def defer_run_def move_run_def)
  ultimately show ?thesis using assms(1) run_write_identity [OF assms(2)]
    by (auto simp: loadDueFlowRun_def write_step_def split: option.splits)
qed

lemma quiet_window_frame [simp]:
  "resolveQuietHoursWindow env (write_step w r f steps db) = resolveQuietHoursWindow env db"
proof -
  have "loadContactTimezone (write_step w r f steps db) = loadContactTimezone db"
    "getWorkspaceSendSettings (write_step w r f steps db) = getWorkspaceSendSettings db"
    by (rule ext, simp add: write_step_def getWorkspaceSendSettings_def loadContactTimezone_def)+
  then show ?thesis unfolding resolveQuietHoursWindow_def by presburger
qed

lemma countFlowRunSteps_append:
  "countFlowRunSteps (write_step w r f [step_row now w r i t oc] db) w r = Suc (countFlowRunSteps db w r)"
  by (simp add: countFlowRunSteps_def write_step_def step_row_def row_count_def)

lemma put_off_step:
  assumes "put_off w r flow i wake (e_db s) env" "f_exitConditions flow = []"
    "countFlowRunSteps (e_db s) w r < MAX_STEPS_PER_RUN"
  shows "e_db (advance_or_stay w r env s) = write_step w r (defer_run wake)
      [step_row (en_now env) w r i ''send'' ''deferred_quiet_hours''] (e_db s)
    \<and> e_emailQueue (advance_or_stay w r env s) = e_emailQueue s"
  using assms
  by (auto simp: put_off_def advance_or_stay_def processFlowRunAdvance_def handleSendNode_def Let_def engine_simps)

lemma put_off_again:
  assumes "put_off w r flow i wake db env" "wake \<le> en_now env"
  shows "put_off w r flow i wake (write_step w r (defer_run wake) steps db) env"
proof -
  have "run_write 0 def i ''deferred_quiet_hours'' (defer_run wake)" for def by (rule run_writeI)
  then show ?thesis
    using assms loadDue_update [where f = "defer_run wake" and steps = steps]
    unfolding put_off_def
    by (fastforce simp: run_due_def defer_run_def)
qed

lemma put_off_steps:
  "\<forall>env \<in> set envs \<union> E. put_off w r flow i wake (e_db s) env \<and> wake \<le> en_now env \<Longrightarrow>
   f_exitConditions flow = [] \<Longrightarrow> countFlowRunSteps (e_db s) w r + length envs \<le> MAX_STEPS_PER_RUN \<Longrightarrow>
   countFlowRunSteps (e_db (fold (advance_or_stay w r) envs s)) w r = countFlowRunSteps (e_db s) w r + length envs
   \<and> e_emailQueue (fold (advance_or_stay w r) envs s) = e_emailQueue s
   \<and> (\<forall>env \<in> E. put_off w r flow i wake (e_db (fold (advance_or_stay w r) envs s)) env)"
proof (induction envs arbitrary: s)
  case (Cons env envs)
  let ?s = "advance_or_stay w r env s"
  have db: "e_db ?s = write_step w r (defer_run wake)
      [step_row (en_now env) w r i ''send'' ''deferred_quiet_hours''] (e_db s)"
    and email: "e_emailQueue ?s = e_emailQueue s"
    using put_off_step [of w r flow i wake s env] Cons.prems by auto
  have "\<forall>env \<in> set envs \<union> E. put_off w r flow i wake (e_db ?s) env \<and> wake \<le> en_now env"
    unfolding db using Cons.prems(1) put_off_again by auto
  moreover have "countFlowRunSteps (e_db ?s) w r = Suc (countFlowRunSteps (e_db s) w r)"
    unfolding db by (rule countFlowRunSteps_append)
  ultimately show ?case using Cons.IH [of ?s] Cons.prems(2,3) email by simp
qed simp

text \<open>Where the end of quiet hours lies in the past (\<open>quiet_window_end_in_gap\<close>), every nudge
  defers the run to an instant that has passed, so that the run stays due; the deferrals use up its
  step budget and the run is ended, with its mail never put on the queue.\<close>

text \<open>A run deferred into such a gap is deferred again at every tick until its step budget ejects it.\<close>

theorem quiet_gap_exhausts_budget:
  assumes "\<forall>env \<in> set (envs @ [final]). put_off w r flow i wake (e_db s) env \<and> wake \<le> en_now env"
    and "f_exitConditions flow = []"
    and "countFlowRunSteps (e_db s) w r + length envs = MAX_STEPS_PER_RUN"
  shows "e_emailQueue (fold (advance_or_stay w r) (envs @ [final]) s) = e_emailQueue s
    \<and> (\<exists>run. the_run w r (e_db (fold (advance_or_stay w r) (envs @ [final]) s)) = Some run
          \<and> fr_status run = RunExited \<and> fr_exitReason run = Some ''step_budget_exceeded'')"
proof -
  let ?s = "fold (advance_or_stay w r) envs s"
  have p: "countFlowRunSteps (e_db ?s) w r = MAX_STEPS_PER_RUN" "e_emailQueue ?s = e_emailQueue s"
    "put_off w r flow i wake (e_db ?s) final"
    using put_off_steps [of envs "{final}" w r flow i wake s] assms by auto
  then obtain run where run: "loadDueFlowRun (e_db ?s) w r = Some (run, flow)" "run_due (en_now final) run flow"
    by (auto simp: put_off_def)
  let ?f = "end_run RunExited ''step_budget_exceeded'' (en_now final)"
  have a: "advance_or_stay w r final ?s = update_run w r ?f ?s"
    using p(1) run by (simp add: advance_or_stay_def processFlowRunAdvance_def)
  have "the_run w r (e_db (update_run w r ?f ?s)) = Some (?f run)"
    unfolding engine_simps
    by (rule the_run_update [OF loadDue_the_run [OF run(1)] run_writeI(1) [of "[]"]]) simp_all
  then show ?thesis using p(2) a by (simp add: engine_simps end_run_def)
qed

text \<open>A step does not ask whether its workspace still exists. A run of a soft-deleted workspace whose
  nudge is already on the queue, say at the end of a delay, takes its step like any other: it leaves
  its send node behind. The job it enqueues will be refused, so that after a restoration the mail is
  missing and the run is past it.\<close>

theorem soft_deleted_run_moves_on:
  assumes "isWorkspaceSoftDeleted (e_db s) w"
    and "loadDueFlowRun (e_db s) w r = Some (run, flow)" "run_due (en_now env) run flow"
    and "countFlowRunSteps (e_db s) w r < MAX_STEPS_PER_RUN"
    and "loadPinnedDefinition (e_db s) w (fr_flowVersionId run) = Inr def"
    and "find (\<lambda>n. node_id n = the (fr_currentNodeId run)) (fd_nodes def) = Some (SendNode i t sid em p)"
    and "f_exitConditions flow = []" "f_quietHoursMode flow = ''disabled''"
    and "resolveNextNodeId def i = Some m" "m \<noteq> []"
  shows "\<exists>s'. processFlowRunAdvance env w r s = Inr s' \<and> isWorkspaceSoftDeleted (e_db s') w
    \<and> the_run w r (e_db s') = Some (move_run m (en_now env) run)"
proof -
  have "run_write (en_now env) def i ''enqueued'' (move_run m (en_now env))"
    using resolveNextNodeId_edge [OF assms(9)] by (simp add: run_write_def) blast
  then have moved: "the_run w r (write_step w r (move_run m (en_now env)) steps (e_db s)) =
      Some (move_run m (en_now env) run)" for steps
    using the_run_update [OF loadDue_the_run [OF assms(2)]] by blast
  have "isWorkspaceSoftDeleted (write_step w r f steps db) w = isWorkspaceSoftDeleted db w" for f steps db
    by (simp add: isWorkspaceSoftDeleted_def write_step_def)
  then show ?thesis
    using assms moved
    by (auto simp: processFlowRunAdvance_def handleSendNode_def resolveQuietHoursWindow_def advance_or_complete_def
        engine_simps Let_def)
qed

text \<open>Each run's send job is on the queue at most once, whatever steps are taken: the queue keeps its
  jobs' ids apart, which is what a run's step and the reconciliation rely on.\<close>

definition queue_inv :: "engine \<Rightarrow> bool" where
  "queue_inv s = (distinct (map fst (e_emailQueue s))
     \<and> (\<forall>(k, j) \<in> set (e_emailQueue s). k = send_job_id (fj_flowRunId j) (fj_nodeId j)))"

lemma queue_inv_step: "queue_inv s \<Longrightarrow> queue_inv (advance_or_stay w r env s)"
proof (cases "processFlowRunAdvance env w r s")
  case (Inr s')
  assume inv: "queue_inv s"
  show ?thesis
  proof (cases "e_emailQueue s' = e_emailQueue s")
    case False
    obtain i j where "send_job_id r i \<notin> fst ` set (e_emailQueue s)" "fj_flowRunId j = r" "fj_nodeId j = i"
      "e_emailQueue s' = e_emailQueue s @ [(send_job_id r i, j)]"
      by (rule step_email [OF Inr False])
    then show ?thesis using inv Inr by (auto simp: advance_or_stay_def queue_inv_def)
  qed (use inv Inr in \<open>simp add: advance_or_stay_def queue_inv_def\<close>)
qed (simp add: advance_or_stay_def)

interpretation flow_queue: invariant_system
  "\<lambda>(w, r, env). advance_or_stay w r env" "\<lambda>x s. True" queue_inv
  by unfold_locales (auto simp: queue_inv_step)

section \<open>Witnesses\<close>

definition example_env :: engine_env where
  "example_env = \<lparr>en_now = 100, en_zones = example_spring, en_pg = example_pg\<rparr>"

definition example_engine :: engine where
  "example_engine = \<lparr>e_db = example_db, e_advanceQueue = [], e_emailQueue = []\<rparr>"

lemma example_step:
  "\<exists>s'. processFlowRunAdvance example_env ''w1'' ''r1'' example_engine = Inr s'
     \<and> e_emailQueue s' \<noteq> e_emailQueue example_engine"
  by (simp add: processFlowRunAdvance_def loadDueFlowRun_def run_due_def countFlowRunSteps_def
      MAX_STEPS_PER_RUN_def loadPinnedDefinition_def handleSendNode_def resolveQuietHoursWindow_def
      engine_simps add_email_job_def example_engine_def example_env_def example_defs Let_def)

lemma send_enqueued_only_when_allowed_witness:
  "\<exists>i. send_job_id ''r1'' i \<notin> fst ` set (e_emailQueue example_engine)"
proof -
  obtain s' where "processFlowRunAdvance example_env ''w1'' ''r1'' example_engine = Inr s'"
    "e_emailQueue s' \<noteq> e_emailQueue example_engine"
    using example_step by blast
  from send_enqueued_only_when_allowed [OF this] show ?thesis by blast
qed

lemma example_run_ids: "distinct (map fr_id (t_flowRuns (e_db example_engine)))"
  by (simp add: example_engine_def example_defs)

lemma soft_deleted_run_moves_on_witness:
  "\<exists>s'. processFlowRunAdvance example_env ''w1'' ''r1''
       (example_engine\<lparr>e_db := example_db\<lparr>t_organizations := [''w1'' \<mapsto> Some 50]\<rparr>\<rparr>) = Inr s'
     \<and> (\<exists>run. the_run ''w1'' ''r1'' (e_db s') = Some run \<and> fr_currentNodeId run = Some ''n2'')"
proof -
  let ?s = "example_engine\<lparr>e_db := example_db\<lparr>t_organizations := [''w1'' \<mapsto> Some 50]\<rparr>\<rparr>"
  have db: "t_flowRuns (e_db ?s) = [example_flow_run]" "t_flows (e_db ?s) = [example_flow]"
    "t_flowRunSteps (e_db ?s) = []" "t_flowVersions (e_db ?s) = t_flowVersions example_db"
    by (simp_all add: example_db_def empty_crm_def)
  have del: "isWorkspaceSoftDeleted (e_db ?s) ''w1''" by (simp add: isWorkspaceSoftDeleted_def)
  have due: "loadDueFlowRun (e_db ?s) ''w1'' ''r1'' = Some (example_flow_run, example_flow)"
    "run_due (en_now example_env) example_flow_run example_flow"
    unfolding loadDueFlowRun_def db by (simp_all add: run_due_def example_flow_run_def example_flow_def)
  have steps: "countFlowRunSteps (e_db ?s) ''w1'' ''r1'' < MAX_STEPS_PER_RUN"
    unfolding countFlowRunSteps_def db by (simp add: MAX_STEPS_PER_RUN_def)
  have pin: "loadPinnedDefinition (e_db ?s) ''w1'' (fr_flowVersionId example_flow_run) = Inr example_flow_definition"
    unfolding loadPinnedDefinition_def db by (simp add: example_db_def example_flow_run_def)
  have node: "find (\<lambda>n. node_id n = the (fr_currentNodeId example_flow_run)) (fd_nodes example_flow_definition)
      = Some (SendNode ''n1'' (Some ''d-2'') None (Some ''b@y.io'') example_position)"
    "resolveNextNodeId example_flow_definition ''n1'' = Some ''n2''"
    by (simp_all add: example_flow_definition_def example_flow_run_def resolveNextNodeId_def)
  have flow: "f_exitConditions example_flow = []" "f_quietHoursMode example_flow = ''disabled''"
    by (simp_all add: example_flow_def)
  show ?thesis
    using soft_deleted_run_moves_on [OF del due steps pin node(1) flow node(2)]
    by (auto simp: move_run_def)
qed

lemma advance_follows_flow_witness:
  "\<exists>s'. processFlowRunAdvance example_env ''w1'' ''r1'' example_engine = Inr s'
     \<and> list_all2 (run_follows example_db ''w1'') (t_flowRuns example_db) (t_flowRuns (e_db s'))"
proof -
  obtain s' where s': "processFlowRunAdvance example_env ''w1'' ''r1'' example_engine = Inr s'"
    using example_step by blast
  then show ?thesis
    using advance_follows_flow [OF s' example_run_ids] by (simp add: example_engine_def)
qed

lemma example_flow_valid:
  "flowDefinitionSchema (\<lambda>s. True) (\<lambda>s. True) example_flow_definition"
  "validateFlowDefinition example_flow_definition = Some []"
  "filter is_trigger (fd_nodes example_flow_definition) = [fd_nodes example_flow_definition ! 0]"
  by code_simp+

lemma example_on_course:
  "on_course ''w1'' ''r1'' example_flow_definition (node_id (fd_nodes example_flow_definition ! 0)) (e_db example_engine)"
  "the_run ''w1'' ''r1'' (e_db example_engine) = Some example_flow_run"
proof -
  show r: "the_run ''w1'' ''r1'' (e_db example_engine) = Some example_flow_run"
    by (simp add: the_run_def example_engine_def example_defs)
  have "(''n0'', ''n1'') \<in> edge_rel (fd_edges example_flow_definition)"
    by (simp add: edge_rel_def example_defs)
  then show "on_course ''w1'' ''r1'' example_flow_definition (node_id (fd_nodes example_flow_definition ! 0))
      (e_db example_engine)"
    using r unfolding on_course_def
    by (auto simp: example_engine_def loadPinnedDefinition_def example_defs)
qed

lemma published_run_is_bounded_witness:
  "proper_steps ''w1'' ''r1'' (e_db (fold (advance_or_stay ''w1'' ''r1'') (replicate 5 example_env) example_engine))
     \<le> Suc (card (ahead example_flow_definition ''n1''))"
  using published_run_is_bounded [OF example_flow_valid example_on_course, of "replicate 5 example_env"]
  by (simp add: proper_steps_def example_engine_def example_defs)

text \<open>The run of a flow with quiet hours of its own, on the morning of \<open>example_spring\<close>, with all but
  one of its steps taken.\<close>

definition example_quiet_flow :: flow_row where
  "example_quiet_flow = example_flow\<lparr>f_quietHoursMode := ''custom'', f_quietHoursStart := Some 1260,
     f_quietHoursEnd := Some 150\<rparr>"

definition example_log :: "nat \<Rightarrow> flow_run_step_row list" where
  "example_log n = replicate n (step_row 0 ''w1'' ''r1'' ''n1'' ''send'' ''deferred_quiet_hours'')"

definition example_quiet_engine :: engine where
  "example_quiet_engine = example_engine\<lparr>e_db := example_db
     \<lparr>t_flows := [example_quiet_flow],
      t_contacts := [example_contact\<lparr>ct_timezone := Some ''America/New_York''\<rparr>],
      t_flowRunSteps := example_log 999\<rparr>\<rparr>"

lemma row_count_log:
  "row_count (\<lambda>t. st_flowRunId t = ''r1'' \<and> st_workspaceId t = ''w1'') (example_log n) = n"
  unfolding example_log_def by (induction n) (auto simp: step_row_def)

lemma example_gap_window:
  "isInsideQuietHours example_spring 24300000 example_window = Inr True"
  "nextQuietWindowEnd example_spring 24300000 example_window = Inr 23400000"
  by code_simp+

lemma example_parts:
  "loadDueFlowRun (e_db example_quiet_engine) ''w1'' ''r1'' = Some (example_flow_run, example_quiet_flow)"
  "run_due 24300000 example_flow_run example_quiet_flow"
  "loadPinnedDefinition (e_db example_quiet_engine) ''w1'' (fr_flowVersionId example_flow_run)
     = Inr example_flow_definition"
  "find (\<lambda>n. node_id n = ''n1'') (fd_nodes example_flow_definition)
     = Some (SendNode ''n1'' (Some ''d-2'') None (Some ''b@y.io'') example_position)"
  "fr_contactId example_flow_run = ''k1''" "fr_currentNodeId example_flow_run = Some ''n1''"
  by (simp_all add: loadDueFlowRun_def run_due_def loadPinnedDefinition_def example_quiet_engine_def
      example_quiet_flow_def example_defs)

lemma quiet_gap_exhausts_budget_witness:
  "\<exists>run. the_run ''w1'' ''r1'' (e_db (fold (advance_or_stay ''w1'' ''r1'')
       [example_env\<lparr>en_now := 24300000\<rparr>, example_env\<lparr>en_now := 24300000\<rparr>] example_quiet_engine)) = Some run
     \<and> fr_exitReason run = Some ''step_budget_exceeded''"
proof -
  let ?env = "example_env\<lparr>en_now := 24300000\<rparr>"
  have count: "countFlowRunSteps (e_db example_quiet_engine) ''w1'' ''r1'' + length [?env] = MAX_STEPS_PER_RUN"
    by (simp add: countFlowRunSteps_def example_quiet_engine_def row_count_log MAX_STEPS_PER_RUN_def)
  have "resolveQuietHoursWindow ?env (e_db example_quiet_engine) ''w1'' ''k1'' example_quiet_flow = Some example_window"
    by (simp add: resolveQuietHoursWindow_def example_quiet_engine_def example_quiet_flow_def loadContactTimezone_def
        resolveTimezone_def isValidIanaTimezone_def example_env_def example_spring_def example_window_def
        example_defs Let_def)
  then have off: "put_off ''w1'' ''r1'' example_quiet_flow ''n1'' 23400000 (e_db example_quiet_engine) ?env"
    using example_gap_window
    by (intro put_offI [where run = example_flow_run and def = example_flow_definition and win = example_window
          and t = "Some ''d-2''" and sid = None and em = "Some ''b@y.io''" and p = example_position])
      (simp_all add: example_parts example_env_def)
  have cond: "f_exitConditions example_quiet_flow = []" by (simp add: example_quiet_flow_def example_flow_def)
  show ?thesis
    using quiet_gap_exhausts_budget [where final = ?env and wake = 23400000 and i = "''n1''", OF _ cond count] off
    by (auto simp: example_env_def)
qed

end
