(* ===== verification/Uuid_Order.thy ===== *)
theory Uuid_Order
  imports Segment_Query
begin

text \<open>
  The order of identifiers in the database. PostgreSQL compares two \<open>uuid\<close> values byte by byte, which
  on their canonical text is the lexicographic order \<open>string_less\<close>; \<open>ByteKey\<close> makes it an instance of
  the library's \<open>linorder\<close>, so that a keyset page is a prefix of \<open>sort_key\<close>.
\<close>

lemma string_less_irrefl [simp]: "\<not> string_less a a"
  by (induction a) auto

lemma string_less_trans: "string_less a b \<Longrightarrow> string_less b c \<Longrightarrow> string_less a c"
proof (induction a arbitrary: b c)
  case Nil
  then show ?case by (cases b; cases c) auto
next
  case (Cons x a)
  then show ?case by (cases b; cases c) fastforce+
qed

lemma string_less_total: "a = b \<or> string_less a b \<or> string_less b a"
proof (induction a arbitrary: b)
  case Nil
  then show ?case by (cases b) auto
next
  case (Cons x a)
  show ?case
  proof (cases b)
    case (Cons y c)
    have "(of_char x :: nat) < of_char y \<or> x = y \<or> (of_char y :: nat) < of_char x"
      using less_linear [of "of_char x :: nat" "of_char y"] by simp
    then show ?thesis using Cons.IH [of c] Cons by auto
  qed simp
qed

datatype byte_key = ByteKey (key_bytes: string)

instantiation byte_key :: linorder
begin

definition less_byte_key :: "byte_key \<Rightarrow> byte_key \<Rightarrow> bool" where
  "a < b \<longleftrightarrow> string_less (key_bytes a) (key_bytes b)"

definition less_eq_byte_key :: "byte_key \<Rightarrow> byte_key \<Rightarrow> bool" where
  "a \<le> b \<longleftrightarrow> a = b \<or> string_less (key_bytes a) (key_bytes b)"

instance
proof
  fix x y z :: byte_key
  show "(x < y) = (x \<le> y \<and> \<not> y \<le> x)"
    by (auto simp: less_byte_key_def less_eq_byte_key_def dest: string_less_trans)
  show "x \<le> x" by (simp add: less_eq_byte_key_def)
  show "x \<le> y \<Longrightarrow> y \<le> z \<Longrightarrow> x \<le> z"
    by (auto simp: less_eq_byte_key_def dest: string_less_trans)
  show "x \<le> y \<Longrightarrow> y \<le> x \<Longrightarrow> x = y"
    by (auto simp: less_eq_byte_key_def dest: string_less_trans)
  show "x \<le> y \<or> y \<le> x"
    using string_less_total [of "key_bytes x" "key_bytes y"]
    by (auto simp: less_eq_byte_key_def byte_key.expand)
qed

end

lemma ByteKey_less [simp]: "ByteKey a < ByteKey b \<longleftrightarrow> string_less a b"
  by (simp add: less_byte_key_def)

text \<open>A keyset page: \<open>WHERE p AND id > cursor ORDER BY id LIMIT n\<close>.\<close>

definition after_cursor :: "uuid option \<Rightarrow> contact_row \<Rightarrow> bool" where
  "after_cursor cursor c = (case cursor of None \<Rightarrow> True | Some k \<Rightarrow> string_less k (ct_id c))"

definition keyset_page :: "(contact_row \<Rightarrow> bool) \<Rightarrow> uuid option \<Rightarrow> nat \<Rightarrow> contact_row list \<Rightarrow> contact_row list" where
  "keyset_page p cursor n t =
     take n (sort_key (\<lambda>c. ByteKey (ct_id c)) (filter (\<lambda>c. p c \<and> after_cursor cursor c) t))"

lemma keyset_page_mem:
  "c \<in> set (keyset_page p cursor n t) \<Longrightarrow> c \<in> set t \<and> p c \<and> after_cursor cursor c"
  by (auto simp: keyset_page_def dest!: in_set_takeD)

text \<open>A page that is not empty ends where the next one starts, and every row between the two cursors
  is on it.\<close>

lemma keyset_page_last:
  assumes "keyset_page p cursor n t \<noteq> []" "c \<in> set t" "p c" "after_cursor cursor c"
  shows "c \<in> set (keyset_page p cursor n t) \<or> after_cursor (Some (ct_id (last (keyset_page p cursor n t)))) c
    \<or> ct_id c = ct_id (last (keyset_page p cursor n t))"
proof -
  let ?k = "\<lambda>c. ByteKey (ct_id c)"
  let ?s = "sort_key ?k (filter (\<lambda>c. p c \<and> after_cursor cursor c) t)"
  have c: "c \<in> set (take n ?s) \<union> set (drop n ?s)"
    using assms(2-4) by (simp flip: set_append)
  have sorted: "?k x \<le> ?k y" if "x \<in> set (take n ?s)" "y \<in> set (drop n ?s)" for x y
  proof -
    have "sorted (map ?k (take n ?s) @ map ?k (drop n ?s))"
      by (simp flip: map_append)
    then show ?thesis using that by (auto simp: sorted_append)
  qed
  have "last (take n ?s) \<in> set (take n ?s)"
    using assms(1) by (simp add: keyset_page_def)
  from sorted [OF this, of c] c show ?thesis
    unfolding keyset_page_def by (auto simp: after_cursor_def [of "Some _"] less_eq_byte_key_def)
qed

lemma sort_key_empty: "sort_key f xs = [] \<longleftrightarrow> xs = []"
  using length_sort [of f xs] by (metis length_0_conv)

lemma keyset_page_empty:
  "0 < n \<Longrightarrow> keyset_page p cursor n t = [] \<longleftrightarrow> (\<forall>c \<in> set t. \<not> (p c \<and> after_cursor cursor c))"
proof -
  assume "0 < n"
  then have "keyset_page p cursor n t = [] \<longleftrightarrow> filter (\<lambda>c. p c \<and> after_cursor cursor c) t = []"
    unfolding keyset_page_def take_eq_Nil sort_key_empty by simp
  then show ?thesis by (simp add: filter_empty_conv)
qed

text \<open>How many rows lie behind the cursor: what every page of a walk lowers.\<close>

definition rows_after :: "(contact_row \<Rightarrow> bool) \<Rightarrow> uuid option \<Rightarrow> contact_row list \<Rightarrow> nat" where
  "rows_after p cursor t = row_count (\<lambda>c. p c \<and> after_cursor cursor c) t"

lemma row_count_strict:
  assumes "c \<in> set t" "q c" "\<not> p c" "\<And>x. p x \<Longrightarrow> q x"
  shows "row_count p t < row_count q t"
proof -
  have le: "row_count p u \<le> row_count q u" for u
    by (induction u) (auto dest: assms(4))
  from assms(1) show ?thesis
  proof (induction t)
    case (Cons x t)
    show ?case
    proof (cases "x = c")
      case True
      then show ?thesis using assms(2,3) le [of t] by simp
    next
      case False
      then have "row_count p t < row_count q t" using Cons by simp
      then show ?thesis by (cases "p x") (simp_all add: assms(4))
    qed
  qed simp
qed

lemma rows_after_decreases:
  assumes "keyset_page p cursor n t \<noteq> []"
  shows "rows_after p (Some (ct_id (last (keyset_page p cursor n t)))) t < rows_after p cursor t"
proof -
  let ?c = "last (keyset_page p cursor n t)"
  have c: "?c \<in> set t" "p ?c" "after_cursor cursor ?c"
    using keyset_page_mem [OF last_in_set [OF assms]] by auto
  show ?thesis unfolding rows_after_def
    by (rule row_count_strict [of ?c])
      (use c in \<open>auto simp: after_cursor_def split: option.splits dest: string_less_trans\<close>)
qed

end
