(* ===== verification/Flow_Enrollment.thy ===== *)
theory Flow_Enrollment
  imports Flow_Engine Uuid_Order
begin

text \<open>
  How a contact gets into a flow (\<open>apps/worker/src/queues/flows\<close>): the re-entry decision, the
  trigger check that every ingested event starts, the resumable back-fill after a publication and the
  perpetual segment sweep with its checkpoint. A job's transactions are run one after the other; each
  takes its time from a clock. \<open>newId\<close> stands for the database's \<open>gen_random_uuid()\<close>: the identifier of the run
  that a job inserts for a flow and a contact.
\<close>

section \<open>The re-entry decision\<close>

datatype CanEnterFlowResult = EntryAllowed | EntryDenied string

definition runs_of :: "crm \<Rightarrow> uuid \<Rightarrow> uuid \<Rightarrow> uuid \<Rightarrow> flow_run_row list" where
  "runs_of db workspaceId flowId contactId =
     filter (\<lambda>r. fr_workspaceId r = workspaceId \<and> fr_flowId r = flowId \<and> fr_contactId r = contactId)
       (t_flowRuns db)"

text \<open>\<open>ORDER BY last_entry_at DESC LIMIT 1\<close>.\<close>

definition latest_entry :: "flow_run_row list \<Rightarrow> instant option" where
  "latest_entry rs = (case rs of [] \<Rightarrow> None | r # rs' \<Rightarrow> Some (foldr max (map fr_lastEntryAt rs') (fr_lastEntryAt r)))"

definition canEnterFlow ::
  "instant \<Rightarrow> uuid \<Rightarrow> uuid \<Rightarrow> uuid \<Rightarrow> string \<Rightarrow> int option \<Rightarrow> crm \<Rightarrow> CanEnterFlowResult" where
  "canEnterFlow now workspaceId flowId contactId reentryMode reentryWindowDays db =
     (let runs = runs_of db workspaceId flowId contactId
      in if \<exists>r \<in> set runs. run_active r then EntryDenied ''active_run''
         else if reentryMode = ''every_time'' then EntryAllowed
         else if reentryMode = ''once_ever'' then
           (if runs \<noteq> [] then EntryDenied ''once_ever'' else EntryAllowed)
         else if reentryMode = ''once_per_n_days'' then
           (case latest_entry runs of
              None \<Rightarrow> EntryAllowed
            | Some lastEntryAt \<Rightarrow>
                if now - lastEntryAt \<ge> nullish reentryWindowDays 0 * day_ms then EntryAllowed
                else EntryDenied ''reentry_window'')
         else EntryDenied ''unknown_reentry_mode'')"

section \<open>Entering\<close>

definition loadEntryNodeId :: "crm \<Rightarrow> uuid \<Rightarrow> uuid \<Rightarrow> string option" where
  "loadEntryNodeId db workspaceId flowVersionId =
     (case find (\<lambda>v. fv_id v = flowVersionId \<and> fv_workspaceId v = workspaceId) (t_flowVersions db) of
        None \<Rightarrow> None
      | Some v \<Rightarrow>
          (case find is_trigger (fd_nodes (fv_definition v)) of
             None \<Rightarrow> None
           | Some t \<Rightarrow> resolveNextNodeId (fv_definition v) (node_id t)))"

text \<open>The insertion of a run, \<open>ON CONFLICT \<dots> WHERE status IN ('waiting','advancing') DO NOTHING\<close>, and
  the advance job for the row it returns.\<close>

definition new_run :: "uuid \<Rightarrow> instant \<Rightarrow> uuid \<Rightarrow> uuid \<Rightarrow> uuid \<Rightarrow> uuid \<Rightarrow> string option \<Rightarrow> flow_run_row" where
  "new_run runId now workspaceId flowId flowVersionId contactId entryNodeId =
     \<lparr>fr_id = runId, fr_workspaceId = workspaceId, fr_flowId = flowId, fr_flowVersionId = flowVersionId,
      fr_contactId = contactId, fr_status = RunWaiting, fr_currentNodeId = entryNodeId,
      fr_nextWakeAt = Some now, fr_enteredAt = now, fr_lastEntryAt = now, fr_exitedAt = None,
      fr_exitReason = None\<rparr>"

definition insert_run :: "flow_run_row \<Rightarrow> engine \<Rightarrow> engine \<times> uuid option" where
  "insert_run row s =
     (if \<exists>r \<in> set (runs_of (e_db s) (fr_workspaceId row) (fr_flowId row) (fr_contactId row)). run_active r
      then (s, None)
      else (s\<lparr>e_db := (e_db s)\<lparr>t_flowRuns := t_flowRuns (e_db s) @ [row]\<rparr>\<rparr>, Some (fr_id row)))"

definition insert_and_nudge :: "instant \<Rightarrow> flow_run_row \<Rightarrow> engine \<Rightarrow> engine" where
  "insert_and_nudge now row s =
     (case insert_run row s of
        (s1, None) \<Rightarrow> s1
      | (s1, Some flowRunId) \<Rightarrow> enqueueFlowRunAdvance now (fr_workspaceId row) flowRunId None s1)"

text \<open>A flow that a trigger may enter, as the trigger queries select it.\<close>

record live_flow =
  lf_id :: uuid
  lf_liveVersionId :: uuid
  lf_triggerSegmentId :: "uuid option"
  lf_reentryMode :: string
  lf_reentryWindowDays :: "int option"

definition live_flow_of :: "flow_row \<Rightarrow> live_flow" where
  "live_flow_of f =
     \<lparr>lf_id = f_id f, lf_liveVersionId = the (f_liveVersionId f), lf_triggerSegmentId = f_triggerSegmentId f,
      lf_reentryMode = f_reentryMode f, lf_reentryWindowDays = f_reentryWindowDays f\<rparr>"

definition enter_if_allowed ::
  "instant \<Rightarrow> uuid \<Rightarrow> uuid \<Rightarrow> live_flow \<Rightarrow> string option \<Rightarrow> uuid \<Rightarrow> engine \<Rightarrow> engine" where
  "enter_if_allowed now runId workspaceId flow entryNodeId contactId s =
     (case canEnterFlow now workspaceId (lf_id flow) contactId (lf_reentryMode flow)
             (lf_reentryWindowDays flow) (e_db s) of
        EntryDenied reason \<Rightarrow> s
      | EntryAllowed \<Rightarrow>
          insert_and_nudge now
            (new_run runId now workspaceId (lf_id flow) (lf_liveVersionId flow) contactId entryNodeId) s)"

section \<open>The membership snapshot\<close>

definition hasSeenSnapshot :: "uuid \<Rightarrow> uuid \<Rightarrow> uuid \<Rightarrow> crm \<Rightarrow> bool" where
  "hasSeenSnapshot workspaceId flowId contactId db =
     (\<exists>r \<in> set (t_snapshots db). fs_workspaceId r = workspaceId \<and> fs_flowId r = flowId
        \<and> fs_contactId r = contactId)"

definition markSeen :: "instant \<Rightarrow> uuid \<Rightarrow> uuid \<Rightarrow> uuid \<Rightarrow> crm \<Rightarrow> crm" where
  "markSeen now workspaceId flowId contactId db =
     (if hasSeenSnapshot workspaceId flowId contactId db then db
      else db\<lparr>t_snapshots := t_snapshots db
               @ [\<lparr>fs_workspaceId = workspaceId, fs_flowId = flowId, fs_contactId = contactId,
                   fs_seenAt = now\<rparr>]\<rparr>)"

definition on_db :: "(crm \<Rightarrow> crm) \<Rightarrow> engine \<Rightarrow> engine" where
  "on_db f s = s\<lparr>e_db := f (e_db s)\<rparr>"

definition enterSegmentTriggeredFlow ::
  "instant \<Rightarrow> uuid \<Rightarrow> uuid \<Rightarrow> live_flow \<Rightarrow> uuid \<Rightarrow> engine \<Rightarrow> engine" where
  "enterSegmentTriggeredFlow now runId workspaceId flow contactId s =
     on_db (markSeen now workspaceId (lf_id flow) contactId)
       (enter_if_allowed now runId workspaceId flow
          (loadEntryNodeId (e_db s) workspaceId (lf_liveVersionId flow)) contactId s)"

section \<open>The trigger check\<close>

definition loadLiveEventTriggeredFlows :: "crm \<Rightarrow> uuid \<Rightarrow> string \<Rightarrow> live_flow list" where
  "loadLiveEventTriggeredFlows db workspaceId eventName =
     map live_flow_of
       (filter (\<lambda>f. f_workspaceId f = workspaceId \<and> f_status f = FlowLive \<and> f_triggerType f = Some ''event''
                  \<and> f_triggerEventName f = Some eventName \<and> f_liveVersionId f \<noteq> None) (t_flows db))"

definition loadLiveSegmentTriggeredFlows :: "crm \<Rightarrow> uuid \<Rightarrow> live_flow list" where
  "loadLiveSegmentTriggeredFlows db workspaceId =
     map live_flow_of
       (filter (\<lambda>f. f_workspaceId f = workspaceId \<and> f_status f = FlowLive \<and> f_triggerType f = Some ''segment''
                  \<and> f_triggerSegmentId f \<noteq> None \<and> f_liveVersionId f \<noteq> None) (t_flows db))"

definition isContactInSegmentDef ::
  "engine_env \<Rightarrow> crm \<Rightarrow> uuid \<Rightarrow> uuid \<Rightarrow> uuid \<Rightarrow> query_error + bool" where
  "isContactInSegmentDef env db workspaceId segmentId contactId =
     (case segment_definition db workspaceId segmentId of
        None \<Rightarrow> Inr False
      | Some def \<Rightarrow> isContactInSegment (en_pg env) (en_now env) workspaceId def contactId db)"

fun enter_event_flows ::
  "engine_env \<Rightarrow> (uuid \<Rightarrow> uuid \<Rightarrow> uuid) \<Rightarrow> uuid \<Rightarrow> uuid \<Rightarrow> live_flow list \<Rightarrow> engine \<Rightarrow> engine" where
  "enter_event_flows env newId workspaceId contactId [] s = s"
| "enter_event_flows env newId workspaceId contactId (flow # flows) s =
     enter_event_flows env newId workspaceId contactId flows
       (enter_if_allowed (en_now env) (newId (lf_id flow) contactId) workspaceId flow
          (loadEntryNodeId (e_db s) workspaceId (lf_liveVersionId flow)) contactId s)"

fun check_segment_flows ::
  "engine_env \<Rightarrow> (uuid \<Rightarrow> uuid \<Rightarrow> uuid) \<Rightarrow> uuid \<Rightarrow> uuid \<Rightarrow> live_flow list \<Rightarrow> engine \<Rightarrow> query_error + engine" where
  "check_segment_flows env newId workspaceId contactId [] s = Inr s"
| "check_segment_flows env newId workspaceId contactId (flow # flows) s =
     (if hasSeenSnapshot workspaceId (lf_id flow) contactId (e_db s)
      then check_segment_flows env newId workspaceId contactId flows s
      else (case isContactInSegmentDef env (e_db s) workspaceId (the (lf_triggerSegmentId flow)) contactId of
              Inl e \<Rightarrow> Inl e
            | Inr isMember \<Rightarrow>
                check_segment_flows env newId workspaceId contactId flows
                  (if isMember
                   then enterSegmentTriggeredFlow (en_now env) (newId (lf_id flow) contactId)
                          workspaceId flow contactId s
                   else s)))"

definition checkSegmentEntryForContact ::
  "engine_env \<Rightarrow> (uuid \<Rightarrow> uuid \<Rightarrow> uuid) \<Rightarrow> uuid \<Rightarrow> uuid \<Rightarrow> engine \<Rightarrow> query_error + engine" where
  "checkSegmentEntryForContact env newId workspaceId contactId s =
     check_segment_flows env newId workspaceId contactId
       (loadLiveSegmentTriggeredFlows (e_db s) workspaceId) s"

definition processFlowTriggerCheck ::
  "engine_env \<Rightarrow> (uuid \<Rightarrow> uuid \<Rightarrow> uuid) \<Rightarrow> uuid \<Rightarrow> uuid \<Rightarrow> string option \<Rightarrow> engine \<Rightarrow> query_error + engine" where
  "processFlowTriggerCheck env newId workspaceId contactId eventName s =
     (if \<not> (\<exists>c \<in> set (t_contacts (e_db s)). ct_id c = contactId \<and> ct_workspaceId c = workspaceId) then Inr s
      else
        let s1 = (if truthy eventName
                  then enter_event_flows env newId workspaceId contactId
                         (loadLiveEventTriggeredFlows (e_db s) workspaceId (the eventName)) s
                  else s)
        in checkSegmentEntryForContact env newId workspaceId contactId s1)"

section \<open>What entering does\<close>

text \<open>The transactions that enrol contacts are made of two writes: a contact is marked seen, and a
  contact that may enter gets a run pinned to a published version.\<close>

definition published :: "crm \<Rightarrow> uuid \<Rightarrow> uuid \<Rightarrow> bool" where
  "published db workspaceId v =
     (\<exists>r \<in> set (t_flowVersions db). fv_id r = v \<and> fv_workspaceId r = workspaceId \<and> fv_publishedAt r \<noteq> None)"

inductive enters ::
    "instant \<Rightarrow> (uuid \<Rightarrow> uuid \<Rightarrow> uuid) \<Rightarrow> uuid \<Rightarrow> (live_flow \<Rightarrow> bool) \<Rightarrow> engine \<Rightarrow> engine \<Rightarrow> bool"
  for now newId w P s where
  stay: "enters now newId w P s s"
| seen: "enters now newId w P s s' \<Longrightarrow> enters now newId w P s (on_db (markSeen now w f c) s')"
| enter: "enters now newId w P s s' \<Longrightarrow> P flow \<Longrightarrow>
    enters now newId w P s
      (enter_if_allowed now (newId (lf_id flow) c) w flow
         (loadEntryNodeId (e_db s') w (lf_liveVersionId flow)) c s')"

lemma enters_trans: "enters now newId w P t u \<Longrightarrow> enters now newId w P s t \<Longrightarrow> enters now newId w P s u"
  by (induction rule: enters.induct) (auto intro: enters.intros)

lemma on_db_simps [engine_simps]:
  "e_db (on_db f s) = f (e_db s)" "e_emailQueue (on_db f s) = e_emailQueue s"
  "e_advanceQueue (on_db f s) = e_advanceQueue s"
  by (simp_all add: on_db_def)

text \<open>The decision and the insertion agree: without a concurrent writer an allowed entry is inserted.\<close>

lemma canEnter_no_active:
  "canEnterFlow now w f c mode days db = EntryAllowed \<Longrightarrow> r \<in> set (runs_of db w f c) \<Longrightarrow> \<not> run_active r"
  by (auto simp: canEnterFlow_def Let_def split: if_splits)

lemma enter_if_allowed_cases:
  obtains (denied) reason where
      "canEnterFlow now w (lf_id flow) c (lf_reentryMode flow) (lf_reentryWindowDays flow) (e_db s) = EntryDenied reason"
      "enter_if_allowed now i w flow n c s = s"
  | (allowed) "canEnterFlow now w (lf_id flow) c (lf_reentryMode flow) (lf_reentryWindowDays flow) (e_db s) = EntryAllowed"
      "enter_if_allowed now i w flow n c s =
         enqueueFlowRunAdvance now w i None
           (on_db (\<lambda>db. db\<lparr>t_flowRuns := t_flowRuns db @ [new_run i now w (lf_id flow) (lf_liveVersionId flow) c n]\<rparr>) s)"
proof (cases "canEnterFlow now w (lf_id flow) c (lf_reentryMode flow) (lf_reentryWindowDays flow) (e_db s)")
  case EntryAllowed
  show ?thesis
    by (rule allowed)
      (use canEnter_no_active [OF EntryAllowed] EntryAllowed in
        \<open>auto simp: enter_if_allowed_def insert_and_nudge_def insert_run_def new_run_def on_db_def\<close>)
qed (use denied in \<open>simp add: enter_if_allowed_def\<close>)

lemma enter_db:
  "\<exists>rs. e_db (enter_if_allowed now i w flow n c s) = (e_db s)\<lparr>t_flowRuns := t_flowRuns (e_db s) @ rs\<rparr>
     \<and> e_emailQueue (enter_if_allowed now i w flow n c s) = e_emailQueue s"
  by (rule enter_if_allowed_cases [of now w flow c s i n])
    (auto simp: engine_simps intro: exI [of _ "[]"])

lemma markSeen_db: "\<exists>ss. markSeen now w f c db = db\<lparr>t_snapshots := t_snapshots db @ ss\<rparr>"
  by (cases "hasSeenSnapshot w f c db") (auto simp: markSeen_def intro: exI [of _ "[]"])

lemma enters_frame:
  assumes "enters now newId w P s s'"
  shows "\<exists>rs ss. e_db s' = (e_db s)\<lparr>t_flowRuns := t_flowRuns (e_db s) @ rs, t_snapshots := t_snapshots (e_db s) @ ss\<rparr>
    \<and> e_emailQueue s' = e_emailQueue s"
  using assms
proof (induction rule: enters.induct)
  case stay
  have "e_db s = (e_db s)\<lparr>t_flowRuns := t_flowRuns (e_db s) @ [], t_snapshots := t_snapshots (e_db s) @ []\<rparr>"
    by simp
  then show ?case by blast
next
  case (seen s' f c)
  then obtain rs ss where s': "e_db s' = (e_db s)\<lparr>t_flowRuns := t_flowRuns (e_db s) @ rs, t_snapshots := t_snapshots (e_db s) @ ss\<rparr>"
    "e_emailQueue s' = e_emailQueue s" by blast
  obtain ss' where "markSeen now w f c (e_db s') = (e_db s')\<lparr>t_snapshots := t_snapshots (e_db s') @ ss'\<rparr>"
    using markSeen_db by blast
  then show ?case using s' by (auto simp: engine_simps intro!: exI [of _ rs] exI [of _ "ss @ ss'"])
next
  case (enter s' flow c)
  then obtain rs ss where s': "e_db s' = (e_db s)\<lparr>t_flowRuns := t_flowRuns (e_db s) @ rs, t_snapshots := t_snapshots (e_db s) @ ss\<rparr>"
    "e_emailQueue s' = e_emailQueue s" by blast
  obtain rs' where "e_db (enter_if_allowed now (newId (lf_id flow) c) w flow
        (loadEntryNodeId (e_db s') w (lf_liveVersionId flow)) c s') = (e_db s')\<lparr>t_flowRuns := t_flowRuns (e_db s') @ rs'\<rparr>
     \<and> e_emailQueue (enter_if_allowed now (newId (lf_id flow) c) w flow
        (loadEntryNodeId (e_db s') w (lf_liveVersionId flow)) c s') = e_emailQueue s'"
    using enter_db [of now "newId (lf_id flow) c" w flow "loadEntryNodeId (e_db s') w (lf_liveVersionId flow)" c s'] by blast
  then show ?case using s' by (auto intro!: exI [of _ "rs @ rs'"] exI [of _ ss])
qed

lemma enters_tables [engine_simps]:
  assumes "enters now newId w P s s'"
  shows "t_flowVersions (e_db s') = t_flowVersions (e_db s)" "t_flows (e_db s') = t_flows (e_db s)"
    "t_contacts (e_db s') = t_contacts (e_db s)" "t_events (e_db s') = t_events (e_db s)"
    "t_segments (e_db s') = t_segments (e_db s)" "t_flowRunSteps (e_db s') = t_flowRunSteps (e_db s)"
    "t_checkpoints (e_db s') = t_checkpoints (e_db s)" "l_sends (e_db s') = l_sends (e_db s)"
    "l_campaigns (e_db s') = l_campaigns (e_db s)"
  using enters_frame [OF assms] by auto

lemma enters_published:
  "enters now newId w P s s' \<Longrightarrow> published (e_db s') w' v = published (e_db s) w' v"
  by (simp add: published_def enters_tables)

lemma enters_entry: "enters now newId w P s s' \<Longrightarrow> loadEntryNodeId (e_db s') w' v = loadEntryNodeId (e_db s) w' v"
  by (simp add: loadEntryNodeId_def enters_tables)

lemma enterSegmentTriggeredFlow_enters:
  "P flow \<Longrightarrow> enters now newId w P s (enterSegmentTriggeredFlow now (newId (lf_id flow) c) w flow c s)"
  by (auto simp: enterSegmentTriggeredFlow_def intro!: enters.intros)

lemma enter_event_flows_enters:
  "\<forall>flow \<in> set flows. P flow \<Longrightarrow>
   enters (en_now env) newId w P s (enter_event_flows env newId w c flows s)"
proof (induction flows arbitrary: s)
  case (Cons flow flows)
  let ?s = "enter_if_allowed (en_now env) (newId (lf_id flow) c) w flow
          (loadEntryNodeId (e_db s) w (lf_liveVersionId flow)) c s"
  have s: "enters (en_now env) newId w P s ?s" using Cons.prems by (auto intro: enters.intros)
  show ?case using enters_trans [OF Cons.IH s] Cons.prems by auto
qed (simp add: enters.intros)

lemma check_segment_flows_enters:
  "\<forall>flow \<in> set flows. P flow \<Longrightarrow>
   check_segment_flows env newId w c flows s = Inr s' \<Longrightarrow> enters (en_now env) newId w P s s'"
proof (induction flows arbitrary: s)
  case (Cons flow flows)
  let ?s = "enterSegmentTriggeredFlow (en_now env) (newId (lf_id flow) c) w flow c s"
  have s: "enters (en_now env) newId w P s ?s"
    using Cons.prems by (auto intro: enterSegmentTriggeredFlow_enters)
  show ?case
    using Cons.prems enters_trans [OF Cons.IH [of ?s] s] Cons.IH [of s]
    by (auto split: if_splits sum.splits)
qed (simp add: enters.intros)

lemma processFlowTriggerCheck_enters:
  assumes P: "\<And>f. f \<in> set (t_flows (e_db s)) \<Longrightarrow> f_workspaceId f = w \<Longrightarrow> f_status f = FlowLive \<Longrightarrow>
      f_liveVersionId f \<noteq> None \<Longrightarrow> P (live_flow_of f)"
    and "processFlowTriggerCheck env newId w c ev s = Inr s'"
  shows "enters (en_now env) newId w P s s'"
proof (cases "\<exists>x \<in> set (t_contacts (e_db s)). ct_id x = c \<and> ct_workspaceId x = w")
  case True
  define s1 where "s1 = (if truthy ev then enter_event_flows env newId w c
      (loadLiveEventTriggeredFlows (e_db s) w (the ev)) s else s)"
  have s1: "enters (en_now env) newId w P s s1"
    using P by (auto simp: s1_def loadLiveEventTriggeredFlows_def intro!: enter_event_flows_enters enters.stay)
  have "check_segment_flows env newId w c (loadLiveSegmentTriggeredFlows (e_db s1) w) s1 = Inr s'"
    using assms(2) True
    by (simp add: processFlowTriggerCheck_def checkSegmentEntryForContact_def s1_def [symmetric] Let_def)
  then have "enters (en_now env) newId w P s1 s'"
    by (rule check_segment_flows_enters [rotated])
      (use P in \<open>auto simp: loadLiveSegmentTriggeredFlows_def enters_tables [OF s1]\<close>)
  then show ?thesis using s1 by (rule enters_trans)
qed (use assms(2) in \<open>simp add: processFlowTriggerCheck_def enters.stay\<close>)

section \<open>The re-entry policy\<close>

lemma distinct_map_eq: "distinct (map k t) \<Longrightarrow> x \<in> set t \<Longrightarrow> y \<in> set t \<Longrightarrow> k x = k y \<Longrightarrow> x = y"
  by (auto simp: distinct_map dest: inj_onD)

text \<open>What the mode of a flow promises of a contact's runs in it, in the order they were entered.\<close>

definition entry_policy :: "string \<Rightarrow> int option \<Rightarrow> flow_run_row list \<Rightarrow> bool" where
  "entry_policy mode days rs =
     (length (filter run_active rs) \<le> 1
      \<and> (mode = ''once_ever'' \<longrightarrow> length rs \<le> 1)
      \<and> (mode = ''once_per_n_days'' \<longrightarrow>
           sorted_wrt (\<lambda>r r'. nullish days 0 * day_ms \<le> fr_lastEntryAt r' - fr_lastEntryAt r) rs))"

lemma latest_entry_ge: "latest_entry rs = Some m \<Longrightarrow> r \<in> set rs \<Longrightarrow> fr_lastEntryAt r \<le> m"
proof -
  have b: "b \<le> foldr max xs (b :: int)" for b xs by (induction xs) auto
  have "a \<le> foldr max xs (b :: int)" if "a \<in> set xs" for a b xs
    using that by (induction xs) auto
  with b show "latest_entry rs = Some m \<Longrightarrow> r \<in> set rs \<Longrightarrow> fr_lastEntryAt r \<le> m"
    by (auto simp: latest_entry_def split: list.splits)
qed

lemma runs_of_append:
  "runs_of (db\<lparr>t_flowRuns := t_flowRuns db @ [new_run i now w f v c n]\<rparr>) w' f' c' =
     runs_of db w' f' c' @ (if w' = w \<and> f' = f \<and> c' = c then [new_run i now w f v c n] else [])"
  by (auto simp: runs_of_def new_run_def)

lemma runs_of_markSeen [simp]: "runs_of (markSeen now w f c db) w' f' c' = runs_of db w' f' c'"
  by (simp add: runs_of_def markSeen_def)

lemma policy_entry:
  assumes "canEnterFlow now w f c mode days db = EntryAllowed" "entry_policy mode days (runs_of db w f c)"
  shows "entry_policy mode days (runs_of db w f c @ [new_run i now w f v c n])"
proof -
  have "filter run_active (runs_of db w f c) = []"
    using canEnter_no_active [OF assms(1)] by (simp add: filter_empty_conv)
  moreover have "mode = ''once_ever'' \<Longrightarrow> runs_of db w f c = []"
    using assms(1) by (auto simp: canEnterFlow_def Let_def split: if_splits)
  moreover have "nullish days 0 * day_ms \<le> now - fr_lastEntryAt r"
    if "mode = ''once_per_n_days''" "r \<in> set (runs_of db w f c)" for r
    using assms(1) that(1) latest_entry_ge [OF _ that(2)] that(2)
    by (fastforce simp: canEnterFlow_def Let_def latest_entry_def split: if_splits option.splits list.splits)
  ultimately show ?thesis
    using assms(2) by (auto simp: entry_policy_def sorted_wrt_append new_run_def)
qed

text \<open>C15: a trigger check keeps every flow's re-entry policy. Whatever event it is for and however often
  it is delivered, no contact gets a second active run in a flow, a second run in a once-ever flow, or
  a run in a once-per-N-days flow less than N days after the last one.\<close>

theorem reentry_policy_kept:
  assumes "processFlowTriggerCheck env newId w c ev s = Inr s'"
    and "distinct (map f_id (t_flows (e_db s)))" "f \<in> set (t_flows (e_db s))"
    and "entry_policy (f_reentryMode f) (f_reentryWindowDays f) (runs_of (e_db s) w (f_id f) k)"
  shows "entry_policy (f_reentryMode f) (f_reentryWindowDays f) (runs_of (e_db s') w (f_id f) k)"
proof -
  let ?P = "\<lambda>flow. \<exists>g \<in> set (t_flows (e_db s)). flow = live_flow_of g"
  have "enters (en_now env) newId w ?P s s'"
    by (rule processFlowTriggerCheck_enters [OF _ assms(1)]) blast
  then show ?thesis using assms(2-4)
  proof (induction rule: enters.induct)
    case (enter s' flow c)
    have own: "lf_reentryMode flow = f_reentryMode f \<and> lf_reentryWindowDays flow = f_reentryWindowDays f"
      if "lf_id flow = f_id f"
    proof -
      from enter.hyps(2) obtain g where g: "g \<in> set (t_flows (e_db s))" "flow = live_flow_of g" by blast
      then have "g = f" using that enter.prems(1,2) by (auto simp: live_flow_of_def intro: distinct_map_eq)
      then show ?thesis using g(2) by (simp add: live_flow_of_def)
    qed
    show ?case
      by (rule enter_if_allowed_cases [of "en_now env" w flow c s' "newId (lf_id flow) c"
            "loadEntryNodeId (e_db s') w (lf_liveVersionId flow)"])
        (use enter.IH [OF enter.prems] own policy_entry in
          \<open>auto simp: engine_simps runs_of_append\<close>)
  qed (simp_all add: engine_simps)
qed

section \<open>A contact is considered once\<close>

lemma isContactInSegmentDef_same:
  assumes "t_events db' = t_events db" "t_contacts db' = t_contacts db" "t_segments db' = t_segments db"
  shows "isContactInSegmentDef env db' w i c = isContactInSegmentDef env db w i c"
  unfolding isContactInSegmentDef_def segment_definition_def isContactInSegment_def assms
    where_true_same [OF assms(1)] by (rule HOL.refl)

lemma hasSeen_markSeen:
  "hasSeenSnapshot w' f' c' (markSeen now w f c db) \<longleftrightarrow> (w' = w \<and> f' = f \<and> c' = c) \<or> hasSeenSnapshot w' f' c' db"
  by (auto simp: markSeen_def hasSeenSnapshot_def)

lemma hasSeen_same: "t_snapshots db' = t_snapshots db \<Longrightarrow> hasSeenSnapshot w f c db' = hasSeenSnapshot w f c db"
  by (simp add: hasSeenSnapshot_def)

lemma hasSeen_enter:
  "hasSeenSnapshot w' f' c' (e_db (enter_if_allowed now i w flow n c s)) = hasSeenSnapshot w' f' c' (e_db s)"
  using enter_db [of now i w flow n c s] by (auto simp: hasSeenSnapshot_def)

lemma hasSeen_enterSegment:
  "hasSeenSnapshot w' f' c' (e_db (enterSegmentTriggeredFlow now i w flow c s)) \<longleftrightarrow>
     (w' = w \<and> f' = lf_id flow \<and> c' = c) \<or> hasSeenSnapshot w' f' c' (e_db s)"
  by (simp add: enterSegmentTriggeredFlow_def engine_simps hasSeen_markSeen hasSeen_enter)

lemma enters_seen_mono:
  "enters now newId w P s s' \<Longrightarrow> hasSeenSnapshot w' f c (e_db s) \<Longrightarrow> hasSeenSnapshot w' f c (e_db s')"
  by (induction rule: enters.induct) (simp_all add: engine_simps hasSeen_markSeen hasSeen_enter)

definition settled_flow :: "engine_env \<Rightarrow> uuid \<Rightarrow> uuid \<Rightarrow> crm \<Rightarrow> live_flow \<Rightarrow> bool" where
  "settled_flow env w c db flow =
     (hasSeenSnapshot w (lf_id flow) c db
      \<or> isContactInSegmentDef env db w (the (lf_triggerSegmentId flow)) c = Inr False)"

lemma check_settled:
  "\<forall>flow \<in> set flows. settled_flow env w c (e_db s) flow \<Longrightarrow> check_segment_flows env newId w c flows s = Inr s"
  by (induction flows) (auto simp: settled_flow_def)

lemma enters_settled:
  assumes "enters now newId w P s s'" "settled_flow env w' c (e_db s) flow"
  shows "settled_flow env w' c (e_db s') flow"
  using assms(2) enters_seen_mono [OF assms(1)]
    isContactInSegmentDef_same [OF enters_tables(4,3,5) [OF assms(1)]]
  by (simp add: settled_flow_def) blast

lemma check_settles:
  "check_segment_flows env newId w c flows s = Inr s' \<Longrightarrow>
   \<forall>flow \<in> set flows. settled_flow env w c (e_db s') flow"
proof (induction flows arbitrary: s)
  case (Cons flow flows)
  let ?s = "enterSegmentTriggeredFlow (en_now env) (newId (lf_id flow) c) w flow c s"
  obtain t where t: "check_segment_flows env newId w c flows t = Inr s'" "settled_flow env w c (e_db t) flow"
  proof (cases "hasSeenSnapshot w (lf_id flow) c (e_db s)")
    case True
    then show ?thesis using Cons.prems by (intro that [of s]) (auto simp: settled_flow_def)
  next
    case False
    show ?thesis
      using False Cons.prems that [of s] that [of ?s]
      by (auto simp: settled_flow_def hasSeen_enterSegment split: sum.splits if_splits)
  qed
  have "enters (en_now env) newId w (\<lambda>_. True) t s'"
    by (rule check_segment_flows_enters [OF _ t(1)]) simp
  then show ?case using Cons.IH [OF t(1)] enters_settled [OF _ t(2)] by simp
qed simp

text \<open>Asking twice is asking once. After a contact's segment flows were checked, a redelivered
  check of the same contact changes nothing, whatever identifiers it would use: members have been
  marked seen whether or not they were let in, and the others are still no members.\<close>

theorem segment_check_idempotent:
  assumes "checkSegmentEntryForContact env newId w c s = Inr s1"
  shows "checkSegmentEntryForContact env newId' w c s1 = Inr s1"
proof -
  let ?flows = "loadLiveSegmentTriggeredFlows (e_db s) w"
  have check: "check_segment_flows env newId w c ?flows s = Inr s1"
    using assms by (simp add: checkSegmentEntryForContact_def)
  have "enters (en_now env) newId w (\<lambda>_. True) s s1"
    by (rule check_segment_flows_enters [OF _ check]) simp
  then have "loadLiveSegmentTriggeredFlows (e_db s1) w = ?flows"
    by (simp add: loadLiveSegmentTriggeredFlows_def enters_tables)
  then show ?thesis
    using check_settled [OF check_settles [OF check]] by (simp add: checkSegmentEntryForContact_def)
qed

section \<open>Witnesses\<close>

text \<open>The example's flow, entered once per seven days by an event, and then by membership in the
  example's segment.\<close>

definition example_event_flow :: flow_row where
  "example_event_flow = example_flow\<lparr>f_triggerType := Some ''event'', f_triggerEventName := Some ''e'',
     f_reentryMode := ''once_per_n_days'', f_reentryWindowDays := Some 7\<rparr>"

definition example_entry :: engine where
  "example_entry = \<lparr>e_db = example_db\<lparr>t_flows := [example_event_flow], t_flowRuns := []\<rparr>,
     e_advanceQueue = [], e_emailQueue = []\<rparr>"

definition example_ids :: "uuid \<Rightarrow> uuid \<Rightarrow> uuid" where
  "example_ids f c = f @ ''-'' @ c"

lemma reentry_policy_kept_witness:
  "\<exists>s'. processFlowTriggerCheck example_env example_ids ''w1'' ''k1'' (Some ''e'') example_entry = Inr s'
     \<and> length (t_flowRuns (e_db s')) = 1
     \<and> entry_policy ''once_per_n_days'' (Some 7) (runs_of (e_db s') ''w1'' (f_id example_flow) ''k1'')"
proof -
  obtain s' where s': "processFlowTriggerCheck example_env example_ids ''w1'' ''k1'' (Some ''e'') example_entry = Inr s'"
    "length (t_flowRuns (e_db s')) = 1"
    by (simp add: processFlowTriggerCheck_def checkSegmentEntryForContact_def loadLiveEventTriggeredFlows_def
        loadLiveSegmentTriggeredFlows_def enter_if_allowed_def canEnterFlow_def runs_of_def latest_entry_def
        insert_and_nudge_def insert_run_def new_run_def live_flow_of_def engine_simps
        example_entry_def example_event_flow_def example_defs Let_def)
  have "entry_policy (f_reentryMode example_event_flow) (f_reentryWindowDays example_event_flow)
      (runs_of (e_db s') ''w1'' (f_id example_event_flow) ''k1'')"
    by (rule reentry_policy_kept [OF s'(1)])
      (simp_all add: example_entry_def entry_policy_def runs_of_def)
  then show ?thesis using s' by (simp add: example_event_flow_def)
qed

lemma compiled_members:
  assumes "segmentDefinitionSchema def"
  obtains cs where "compiled_query (pg_string pg) def w = Inr cs"
    "compileSegmentDefinition (pg_string pg) def w = Inr cs"
    "\<And>now db. where_true (pg_sem pg) now db cs = in_segment pg now db w def"
proof -
  obtain cs where cs: "compileSegmentDefinition (pg_string pg) def w = Inr cs"
    "\<And>truth. clause_value truth (cs_where cs) \<noteq> None"
    "\<And>now db c. where_true (pg_sem pg) now db cs c = in_segment pg now db w def c"
    using compiled_admitted [OF assms] by blast
  show ?thesis by (rule that [of cs]) (use cs in \<open>auto simp: compiled_query_def\<close>)
qed

lemma point_check:
  assumes "segmentDefinitionSchema def"
  shows "isContactInSegment pg now w def k db = Inr (\<exists>c \<in> set (t_contacts db). in_segment pg now db w def c \<and> ct_id c = k)"
  by (rule compiled_members [OF assms, of pg w]) (simp add: isContactInSegment_def)

definition example_segment_row :: segment_row where
  "example_segment_row =
     \<lparr>sg_id = ''s1'', sg_workspaceId = ''w1'', sg_name = ''Germany'', sg_definition = example_segment,
      sg_createdByUserId = ''u1'', sg_memberCount = None, sg_memberCountAt = None, sg_createdAt = 0,
      sg_updatedAt = 0\<rparr>"

definition example_segment_flow :: flow_row where
  "example_segment_flow = example_flow\<lparr>f_triggerType := Some ''segment'', f_triggerSegmentId := Some ''s1'',
     f_reentryMode := ''every_time''\<rparr>"

definition example_member :: engine where
  "example_member = \<lparr>e_db = example_db\<lparr>t_flows := [example_segment_flow], t_flowRuns := [],
       t_segments := [example_segment_row], t_contacts := [example_contact\<lparr>ct_country := Some ''DE''\<rparr>]\<rparr>,
     e_advanceQueue = [], e_emailQueue = []\<rparr>"

lemma example_segment_schema: "segmentDefinitionSchema example_segment"
  by (simp add: example_segment_def segmentDefinitionSchema_def attributeConditionSchema_def
      behavioralConditionSchema_def conditionOperatorSchema_def STANDARD_FIELD_KEYS_def)

lemma segment_check_idempotent_witness:
  "\<exists>s1. checkSegmentEntryForContact example_env example_ids ''w1'' ''k1'' example_member = Inr s1
     \<and> length (t_flowRuns (e_db s1)) = 1
     \<and> checkSegmentEntryForContact example_env (\<lambda>f c. ''again'') ''w1'' ''k1'' s1 = Inr s1"
proof -
  have "isContactInSegmentDef example_env (e_db example_member) ''w1'' ''s1'' ''k1'' = Inr True"
    by (simp add: isContactInSegmentDef_def segment_definition_def example_member_def example_segment_row_def
        point_check [OF example_segment_schema] in_segment_def example_env_def)
      (simp add: example_segment_def example_pg_def example_contact_def STANDARD_FIELD_COLUMNS_def Let_def)
  then obtain s1 where "checkSegmentEntryForContact example_env example_ids ''w1'' ''k1'' example_member = Inr s1"
    "length (t_flowRuns (e_db s1)) = 1"
    by (simp add: checkSegmentEntryForContact_def loadLiveSegmentTriggeredFlows_def live_flow_of_def
        hasSeenSnapshot_def enterSegmentTriggeredFlow_def enter_if_allowed_def canEnterFlow_def runs_of_def
        insert_and_nudge_def insert_run_def new_run_def engine_simps markSeen_def
        example_member_def example_segment_flow_def example_defs Let_def)
  then show ?thesis using segment_check_idempotent by blast
qed

end
