(* ===== verification/Flow_Sweep.thy ===== *)
theory Flow_Sweep
  imports Flow_Enrollment
begin

text \<open>
  The walks that enrol the members of a trigger segment: the back-fill that a publication asks for
  (\<open>flow-enroll-existing.worker.ts\<close>) and the perpetual sweep (\<open>flow-segment-sweep.worker.ts\<close>,
  \<open>flow-segment-sweep-flow.worker.ts\<close>, \<open>flow-segment-sweep-checkpoint.ts\<close>). A walk reads the segment's
  members page by page in the order of their identifiers, each page in its own transaction. Statement
  timeouts are not modelled: a statement that times out fails its transaction.
\<close>

section \<open>The back-fill\<close>

definition ENROLL_BATCH_SIZE :: nat where
  "ENROLL_BATCH_SIZE = 500"

definition loadFlow :: "crm \<Rightarrow> uuid \<Rightarrow> uuid \<Rightarrow> flow_row option" where
  "loadFlow db workspaceId flowId = find (\<lambda>f. f_workspaceId f = workspaceId \<and> f_id f = flowId) (t_flows db)"

definition members :: "engine_env \<Rightarrow> CompiledSegment \<Rightarrow> crm \<Rightarrow> contact_row \<Rightarrow> bool" where
  "members env cs db = where_true (pg_sem (en_pg env)) (en_now env) db cs"

fun enroll_contacts ::
  "instant \<Rightarrow> (uuid \<Rightarrow> uuid \<Rightarrow> uuid) \<Rightarrow> uuid \<Rightarrow> live_flow \<Rightarrow> string option \<Rightarrow> uuid list \<Rightarrow> engine \<Rightarrow> engine" where
  "enroll_contacts now newId workspaceId flow entryNodeId [] s = s"
| "enroll_contacts now newId workspaceId flow entryNodeId (contactId # ids) s =
     enroll_contacts now newId workspaceId flow entryNodeId ids
       (if hasSeenSnapshot workspaceId (lf_id flow) contactId (e_db s) then s
        else on_db (markSeen now workspaceId (lf_id flow) contactId)
               (enter_if_allowed now (newId (lf_id flow) contactId) workspaceId flow entryNodeId contactId s))"

definition write_cursor :: "instant \<Rightarrow> uuid \<Rightarrow> uuid \<Rightarrow> uuid option \<Rightarrow> crm \<Rightarrow> crm" where
  "write_cursor now workspaceId flowId cursor db =
     db\<lparr>t_flows := update_where (\<lambda>f. f_workspaceId f = workspaceId \<and> f_id f = flowId)
          (\<lambda>f. f\<lparr>f_enrollCursor := cursor, f_updatedAt := now\<rparr>) (t_flows db)\<rparr>"

definition last_id :: "contact_row list \<Rightarrow> uuid option" where
  "last_id rows = (if rows = [] then None else Some (ct_id (last rows)))"

definition enrollBatch ::
  "engine_env \<Rightarrow> (uuid \<Rightarrow> uuid \<Rightarrow> uuid) \<Rightarrow> uuid \<Rightarrow> live_flow \<Rightarrow> CompiledSegment \<Rightarrow> uuid option \<Rightarrow> engine
     \<Rightarrow> engine \<times> nat \<times> uuid option" where
  "enrollBatch env newId workspaceId flow cs afterContactId s =
     (let rows = keyset_page (members env cs (e_db s)) afterContactId ENROLL_BATCH_SIZE (t_contacts (e_db s));
          entryNodeId = loadEntryNodeId (e_db s) workspaceId (lf_liveVersionId flow);
          s1 = enroll_contacts (en_now env) newId workspaceId flow entryNodeId (map ct_id rows) s;
          lastContactId = coalesce (last_id rows) afterContactId
      in (on_db (write_cursor (en_now env) workspaceId (lf_id flow) lastContactId) s1,
          length rows, lastContactId))"

text \<open>\<open>while (true)\<close> until a page is empty: it ends because each page leaves fewer members behind the
  cursor. \<open>envs k\<close> is the time of the \<open>k\<close>-th page.\<close>

definition entry_tables_kept :: "crm \<Rightarrow> crm \<Rightarrow> bool" where
  "entry_tables_kept db db' =
     (t_contacts db' = t_contacts db \<and> t_events db' = t_events db \<and> t_flowVersions db' = t_flowVersions db
      \<and> t_segments db' = t_segments db)"

lemma enroll_contacts_enters:
  "P flow \<Longrightarrow> n = loadEntryNodeId (e_db s) w (lf_liveVersionId flow) \<Longrightarrow>
   enters now newId w P s (enroll_contacts now newId w flow n ids s)"
proof (induction ids arbitrary: s)
  case (Cons c ids)
  let ?s = "on_db (markSeen now w (lf_id flow) c) (enter_if_allowed now (newId (lf_id flow) c) w flow n c s)"
  have s: "enters now newId w P s ?s" using Cons.prems by (auto intro!: enters.intros)
  have "n = loadEntryNodeId (e_db ?s) w (lf_liveVersionId flow)"
    using Cons.prems(2) enters_entry [OF s] by simp
  then show ?case using Cons.IH [of s] enters_trans [OF Cons.IH s] Cons.prems by simp
qed (simp add: enters.stay)

lemma write_cursor_tables [engine_simps]:
  "t_contacts (write_cursor now w f k db) = t_contacts db" "t_events (write_cursor now w f k db) = t_events db"
  "t_flowVersions (write_cursor now w f k db) = t_flowVersions db"
  "t_snapshots (write_cursor now w f k db) = t_snapshots db" "t_flowRuns (write_cursor now w f k db) = t_flowRuns db"
  "t_segments (write_cursor now w f k db) = t_segments db"
  by (simp_all add: write_cursor_def)

lemma enrollBatch_enters:
  obtains s1 where "enters (en_now env) newId w (\<lambda>x. x = flow) s s1"
    "fst (enrollBatch env newId w flow cs k s) =
       on_db (write_cursor (en_now env) w (lf_id flow) (snd (snd (enrollBatch env newId w flow cs k s)))) s1"
proof -
  show ?thesis
    by (rule that [OF enroll_contacts_enters [of "\<lambda>x. x = flow" flow]]) (simp_all add: enrollBatch_def Let_def)
qed

lemma enrollBatch_tables [engine_simps]:
  "t_contacts (e_db (fst (enrollBatch env newId w flow cs k s))) = t_contacts (e_db s)"
  "t_events (e_db (fst (enrollBatch env newId w flow cs k s))) = t_events (e_db s)"
  by (rule enrollBatch_enters [of env newId w flow s cs k]; simp add: engine_simps enters_tables)+

lemma enrollBatch_page:
  "fst (snd (enrollBatch env newId w flow cs k s)) =
     length (keyset_page (members env cs (e_db s)) k ENROLL_BATCH_SIZE (t_contacts (e_db s)))"
  "snd (snd (enrollBatch env newId w flow cs k s)) =
     coalesce (last_id (keyset_page (members env cs (e_db s)) k ENROLL_BATCH_SIZE (t_contacts (e_db s)))) k"
  by (simp_all add: enrollBatch_def Let_def)

lemma after_last_mono:
  assumes "keyset_page p k n t \<noteq> []"
  shows "rows_after (\<lambda>_. True) (Some (ct_id (last (keyset_page p k n t)))) t < rows_after (\<lambda>_. True) k t"
proof -
  let ?c = "last (keyset_page p k n t)"
  have c: "?c \<in> set t" "after_cursor k ?c"
    using keyset_page_mem [OF last_in_set [OF assms]] by auto
  show ?thesis unfolding rows_after_def
    by (rule row_count_strict [of ?c])
      (use c in \<open>auto simp: after_cursor_def split: option.splits dest: string_less_trans\<close>)
qed

function enroll_walk ::
  "(nat \<Rightarrow> engine_env) \<Rightarrow> (uuid \<Rightarrow> uuid \<Rightarrow> uuid) \<Rightarrow> uuid \<Rightarrow> live_flow \<Rightarrow> CompiledSegment \<Rightarrow> nat \<Rightarrow> uuid option
     \<Rightarrow> engine \<Rightarrow> engine" where
  "enroll_walk envs newId workspaceId flow cs k cursor s =
     (let b = enrollBatch (envs k) newId workspaceId flow cs cursor s
      in if fst (snd b) = 0 then fst b
         else enroll_walk envs newId workspaceId flow cs (Suc k) (snd (snd b)) (fst b))"
  by pat_completeness auto

termination
proof (relation "measure (\<lambda>(_, _, _, _, _, _, cursor, s). rows_after (\<lambda>_. True) cursor (t_contacts (e_db s)))")
  show "wf (measure (\<lambda>(_, _, _, _, _, _, cursor, s). rows_after (\<lambda>_. True) cursor (t_contacts (e_db s))))"
    by simp
  fix envs :: "nat \<Rightarrow> engine_env" and newId w flow cs k cursor s b
  assume "b = enrollBatch (envs k) newId w flow cs cursor s" "fst (snd b) \<noteq> 0"
  then show "((envs, newId, w, flow, cs, Suc k, snd (snd b), fst b), (envs, newId, w, flow, cs, k, cursor, s)) \<in>
      measure (\<lambda>(_, _, _, _, _, _, cursor, s). rows_after (\<lambda>_. True) cursor (t_contacts (e_db s)))"
    by (simp add: enrollBatch_page engine_simps last_id_def after_last_mono)
qed

declare enroll_walk.simps [simp del]

definition seedSnapshotOnly :: "instant \<Rightarrow> uuid \<Rightarrow> (contact_row \<Rightarrow> bool) \<Rightarrow> crm \<Rightarrow> crm" where
  "seedSnapshotOnly now flowId member db =
     fold (\<lambda>c. markSeen now (ct_workspaceId c) flowId (ct_id c)) (filter member (t_contacts db)) db"

definition processFlowEnrollExisting ::
  "(nat \<Rightarrow> engine_env) \<Rightarrow> (uuid \<Rightarrow> uuid \<Rightarrow> uuid) \<Rightarrow> uuid \<Rightarrow> uuid \<Rightarrow> bool \<Rightarrow> engine \<Rightarrow> query_error + engine" where
  "processFlowEnrollExisting envs newId workspaceId flowId enrollExisting s =
     (case loadFlow (e_db s) workspaceId flowId of
        None \<Rightarrow> Inr s
      | Some f \<Rightarrow>
          (case (f_triggerSegmentId f, f_liveVersionId f) of
             (Some segmentId, Some liveVersionId) \<Rightarrow>
               (case segment_definition (e_db s) workspaceId segmentId of
                  None \<Rightarrow> Inr s
                | Some def \<Rightarrow>
                    (case compiled_query (pg_string (en_pg (envs 0))) def workspaceId of
                       Inl e \<Rightarrow> Inl e
                     | Inr cs \<Rightarrow>
                         if enrollExisting
                         then Inr (enroll_walk envs newId workspaceId (live_flow_of f) cs 0 (f_enrollCursor f) s)
                         else Inr (on_db (\<lambda>db. seedSnapshotOnly (en_now (envs 0)) flowId
                                             (members (envs 0) cs db) db) s)))
           | _ \<Rightarrow> Inr s))"

section \<open>The sweep\<close>

subsection \<open>The checkpoint\<close>

definition checkpoint_is :: "uuid \<Rightarrow> uuid \<Rightarrow> checkpoint_row \<Rightarrow> bool" where
  "checkpoint_is workspaceId flowId r = (ck_workspaceId r = workspaceId \<and> ck_flowId r = flowId)"

definition loadSweepCheckpoint :: "crm \<Rightarrow> uuid \<Rightarrow> uuid \<Rightarrow> uuid option" where
  "loadSweepCheckpoint db workspaceId flowId =
     (case find (checkpoint_is workspaceId flowId) (t_checkpoints db) of None \<Rightarrow> None | Some r \<Rightarrow> ck_cursor r)"

definition upsert_checkpoint :: "instant \<Rightarrow> uuid \<Rightarrow> uuid \<Rightarrow> uuid option \<Rightarrow> crm \<Rightarrow> crm" where
  "upsert_checkpoint now workspaceId flowId cursor db =
     db\<lparr>t_checkpoints :=
        (if \<exists>r \<in> set (t_checkpoints db). checkpoint_is workspaceId flowId r
         then update_where (checkpoint_is workspaceId flowId) (\<lambda>r. r\<lparr>ck_cursor := cursor, ck_updatedAt := now\<rparr>)
                (t_checkpoints db)
         else t_checkpoints db @ [\<lparr>ck_workspaceId = workspaceId, ck_flowId = flowId, ck_cursor = cursor,
                                   ck_updatedAt = now\<rparr>])\<rparr>"

definition advanceSweepCheckpoint :: "instant \<Rightarrow> uuid \<Rightarrow> uuid \<Rightarrow> uuid \<Rightarrow> crm \<Rightarrow> crm" where
  "advanceSweepCheckpoint now workspaceId flowId lastContactId =
     upsert_checkpoint now workspaceId flowId (Some lastContactId)"

definition resetSweepCheckpoint :: "instant \<Rightarrow> uuid \<Rightarrow> uuid \<Rightarrow> crm \<Rightarrow> crm" where
  "resetSweepCheckpoint now workspaceId flowId = upsert_checkpoint now workspaceId flowId None"

subsection \<open>One flow's walk\<close>

definition SWEEP_PAGE_SIZE :: nat where
  "SWEEP_PAGE_SIZE = 500"

definition SWEEP_DELETE_BATCH_SIZE :: nat where
  "SWEEP_DELETE_BATCH_SIZE = 1000"

definition SWEEP_FLOW_JOB_BUDGET_MS :: int where
  "SWEEP_FLOW_JOB_BUDGET_MS = 60000"

definition loadFlowForSweep :: "crm \<Rightarrow> uuid \<Rightarrow> uuid \<Rightarrow> (live_flow \<times> SegmentDefinition) option" where
  "loadFlowForSweep db workspaceId flowId =
     (case find (\<lambda>f. f_workspaceId f = workspaceId \<and> f_id f = flowId \<and> f_status f = FlowLive
                  \<and> f_triggerType f = Some ''segment'') (t_flows db) of
        None \<Rightarrow> None
      | Some f \<Rightarrow>
          (case (f_liveVersionId f, f_triggerSegmentId f) of
             (Some _, Some segmentId) \<Rightarrow>
               map_option (Pair (live_flow_of f)) (segment_definition db workspaceId segmentId)
           | _ \<Rightarrow> None))"

definition stale_snapshot :: "uuid \<Rightarrow> uuid \<Rightarrow> (contact_row \<Rightarrow> bool) \<Rightarrow> crm \<Rightarrow> snapshot_row \<Rightarrow> bool" where
  "stale_snapshot workspaceId flowId member db r =
     (fs_workspaceId r = workspaceId \<and> fs_flowId r = flowId
      \<and> \<not> (\<exists>c \<in> set (t_contacts db). member c \<and> ct_id c = fs_contactId r))"

text \<open>\<open>LIMIT\<close> without an order takes the first rows of the table.\<close>

fun delete_first :: "nat \<Rightarrow> ('r \<Rightarrow> bool) \<Rightarrow> 'r list \<Rightarrow> 'r list" where
  "delete_first n p [] = []"
| "delete_first n p (r # rs) =
     (if p r then (case n of 0 \<Rightarrow> r # rs | Suc m \<Rightarrow> delete_first m p rs) else r # delete_first n p rs)"

definition deleteStaleSnapshotBatch ::
  "uuid \<Rightarrow> uuid \<Rightarrow> (contact_row \<Rightarrow> bool) \<Rightarrow> crm \<Rightarrow> crm \<times> nat" where
  "deleteStaleSnapshotBatch workspaceId flowId member db =
     (db\<lparr>t_snapshots := delete_first SWEEP_DELETE_BATCH_SIZE (stale_snapshot workspaceId flowId member db)
          (t_snapshots db)\<rparr>,
      min SWEEP_DELETE_BATCH_SIZE (row_count (stale_snapshot workspaceId flowId member db) (t_snapshots db)))"

lemma delete_first_count: "row_count p (delete_first n p t) = row_count p t - n"
  by (induction n p t rule: delete_first.induct) (auto split: nat.splits)

lemma delete_first_filter: "filter (\<lambda>r. \<not> p r) (delete_first n p t) = filter (\<lambda>r. \<not> p r) t"
  by (induction n p t rule: delete_first.induct) (auto split: nat.splits)

text \<open>The loop that drains the stale rows, batch by batch, within the job's budget. The result is the
  number of the last clock reading.\<close>

function drainStaleSnapshotBatches ::
  "(nat \<Rightarrow> engine_env) \<Rightarrow> instant \<Rightarrow> uuid \<Rightarrow> uuid \<Rightarrow> CompiledSegment \<Rightarrow> nat \<Rightarrow> crm \<Rightarrow> nat \<times> crm" where
  "drainStaleSnapshotBatches envs deadlineAt workspaceId flowId cs k db =
     (if en_now (envs k) < deadlineAt then
        let b = deleteStaleSnapshotBatch workspaceId flowId (members (envs k) cs db) db
        in if snd b = 0 then (Suc k, fst b)
           else drainStaleSnapshotBatches envs deadlineAt workspaceId flowId cs (Suc k) (fst b)
      else (Suc k, db))"
  by pat_completeness auto

termination
proof (relation "measure (\<lambda>(_, _, _, _, _, _, db). length (t_snapshots db))")
  fix envs :: "nat \<Rightarrow> engine_env" and deadline w f cs k and db :: crm and b
  assume b: "b = deleteStaleSnapshotBatch w f (members (envs k) cs db) db" "snd b \<noteq> 0"
  let ?p = "stale_snapshot w f (members (envs k) cs db) db"
  have len: "length t = row_count ?p t + length (filter (\<lambda>r. \<not> ?p r) t)" for t
    by (induction t) auto
  have "0 < row_count ?p (t_snapshots db)" "0 < SWEEP_DELETE_BATCH_SIZE"
    using b by (auto simp: deleteStaleSnapshotBatch_def SWEEP_DELETE_BATCH_SIZE_def)
  then have "length (delete_first SWEEP_DELETE_BATCH_SIZE ?p (t_snapshots db)) < length (t_snapshots db)"
    unfolding len [of "delete_first _ _ _"] len [of "t_snapshots db"] delete_first_count delete_first_filter by simp
  then show "((envs, deadline, w, f, cs, Suc k, fst b), (envs, deadline, w, f, cs, k, db)) \<in>
      measure (\<lambda>(_, _, _, _, _, _, db). length (t_snapshots db))"
    by (simp add: b(1) deleteStaleSnapshotBatch_def)
qed simp

declare drainStaleSnapshotBatches.simps [simp del]

fun enter_unseen ::
  "instant \<Rightarrow> (uuid \<Rightarrow> uuid \<Rightarrow> uuid) \<Rightarrow> uuid \<Rightarrow> live_flow \<Rightarrow> uuid list \<Rightarrow> uuid list \<Rightarrow> engine \<Rightarrow> engine" where
  "enter_unseen now newId workspaceId flow seenIds [] s = s"
| "enter_unseen now newId workspaceId flow seenIds (contactId # ids) s =
     enter_unseen now newId workspaceId flow seenIds ids
       (if contactId \<in> set seenIds then s
        else enterSegmentTriggeredFlow now (newId (lf_id flow) contactId) workspaceId flow contactId s)"

record SweepOneFlowPageResult =
  processed :: nat
  lastContactId :: "uuid option"

definition sweepOneFlowPage ::
  "engine_env \<Rightarrow> (uuid \<Rightarrow> uuid \<Rightarrow> uuid) \<Rightarrow> uuid \<Rightarrow> live_flow \<Rightarrow> CompiledSegment \<Rightarrow> uuid option \<Rightarrow> engine
     \<Rightarrow> engine \<times> SweepOneFlowPageResult" where
  "sweepOneFlowPage env newId workspaceId flow cs afterContactId s =
     (let rows = keyset_page (members env cs (e_db s)) afterContactId SWEEP_PAGE_SIZE (t_contacts (e_db s));
          ids = map ct_id rows
      in if rows = [] then
           (on_db (resetSweepCheckpoint (en_now env) workspaceId (lf_id flow)) s,
            \<lparr>processed = 0, lastContactId = None\<rparr>)
         else
           let seenIds = filter (\<lambda>i. hasSeenSnapshot workspaceId (lf_id flow) i (e_db s)) ids;
               s1 = enter_unseen (en_now env) newId workspaceId flow seenIds ids s
           in (on_db (advanceSweepCheckpoint (en_now env) workspaceId (lf_id flow) (last ids)) s1,
               \<lparr>processed = length rows, lastContactId = Some (last ids)\<rparr>))"

lemma upsert_checkpoint_tables [engine_simps]:
  "t_contacts (upsert_checkpoint now w f k db) = t_contacts db" "t_events (upsert_checkpoint now w f k db) = t_events db"
  "t_snapshots (upsert_checkpoint now w f k db) = t_snapshots db"
  "t_flowRuns (upsert_checkpoint now w f k db) = t_flowRuns db"
  "t_flowVersions (upsert_checkpoint now w f k db) = t_flowVersions db"
  by (simp_all add: upsert_checkpoint_def)

lemma enter_unseen_enters: "P flow \<Longrightarrow> enters now newId w P s (enter_unseen now newId w flow seen ids s)"
proof (induction ids arbitrary: s)
  case (Cons c ids)
  show ?case
    using Cons.IH [OF Cons.prems, of s] enters_trans [OF Cons.IH [OF Cons.prems] enterSegmentTriggeredFlow_enters]
      Cons.prems by simp
qed (simp add: enters.stay)

lemma sweepOneFlowPage_enters:
  obtains s1 k where "enters (en_now env) newId w (\<lambda>x. x = flow) s s1"
    "fst (sweepOneFlowPage env newId w flow cs cursor s) =
       on_db (upsert_checkpoint (en_now env) w (lf_id flow) k) s1"
proof (cases "keyset_page (members env cs (e_db s)) cursor SWEEP_PAGE_SIZE (t_contacts (e_db s)) = []")
  case True
  show ?thesis
    by (rule that [OF enters.stay, of None]) (simp add: sweepOneFlowPage_def True resetSweepCheckpoint_def)
next
  case False
  show ?thesis
    by (rule that [OF enter_unseen_enters [of "\<lambda>x. x = flow" flow]])
      (simp_all add: sweepOneFlowPage_def False advanceSweepCheckpoint_def Let_def)
qed

lemma sweepOneFlowPage_tables [engine_simps]:
  "t_contacts (e_db (fst (sweepOneFlowPage env newId w flow cs k s))) = t_contacts (e_db s)"
  "t_events (e_db (fst (sweepOneFlowPage env newId w flow cs k s))) = t_events (e_db s)"
  by (rule sweepOneFlowPage_enters [of env newId w flow s cs k]; simp add: engine_simps enters_tables)+

lemma sweepOneFlowPage_result:
  "processed (snd (sweepOneFlowPage env newId w flow cs k s)) =
     length (keyset_page (members env cs (e_db s)) k SWEEP_PAGE_SIZE (t_contacts (e_db s)))"
  "lastContactId (snd (sweepOneFlowPage env newId w flow cs k s)) =
     last_id (keyset_page (members env cs (e_db s)) k SWEEP_PAGE_SIZE (t_contacts (e_db s)))"
  by (simp_all add: sweepOneFlowPage_def last_id_def last_map Let_def)

function sweep_walk ::
  "(nat \<Rightarrow> engine_env) \<Rightarrow> instant \<Rightarrow> (uuid \<Rightarrow> uuid \<Rightarrow> uuid) \<Rightarrow> uuid \<Rightarrow> live_flow \<Rightarrow> CompiledSegment \<Rightarrow> nat
     \<Rightarrow> uuid option \<Rightarrow> engine \<Rightarrow> engine" where
  "sweep_walk envs deadlineAt newId workspaceId flow cs k cursor s =
     (if en_now (envs k) < deadlineAt then
        let page = sweepOneFlowPage (envs k) newId workspaceId flow cs cursor s
        in if processed (snd page) = 0 then fst page
           else sweep_walk envs deadlineAt newId workspaceId flow cs (Suc k) (lastContactId (snd page)) (fst page)
      else s)"
  by pat_completeness auto

termination
proof (relation "measure (\<lambda>(_, _, _, _, _, _, _, cursor, s). rows_after (\<lambda>_. True) cursor (t_contacts (e_db s)))")
  fix envs :: "nat \<Rightarrow> engine_env" and deadline newId w flow cs k cursor s p
  assume "p = sweepOneFlowPage (envs k) newId w flow cs cursor s" "processed (snd p) \<noteq> 0"
  then show "((envs, deadline, newId, w, flow, cs, Suc k, lastContactId (snd p), fst p),
      (envs, deadline, newId, w, flow, cs, k, cursor, s)) \<in>
      measure (\<lambda>(_, _, _, _, _, _, _, cursor, s). rows_after (\<lambda>_. True) cursor (t_contacts (e_db s)))"
    by (simp add: sweepOneFlowPage_result engine_simps last_id_def after_last_mono)
qed simp

declare sweep_walk.simps [simp del]

text \<open>The job: its first clock reading sets the deadline, the others are read by the two loops.\<close>

definition runFlowSegmentSweepFlowJob ::
  "(nat \<Rightarrow> engine_env) \<Rightarrow> (uuid \<Rightarrow> uuid \<Rightarrow> uuid) \<Rightarrow> uuid \<Rightarrow> uuid \<Rightarrow> engine \<Rightarrow> query_error + engine" where
  "runFlowSegmentSweepFlowJob envs newId workspaceId flowId s =
     (let deadlineAt = en_now (envs 0) + SWEEP_FLOW_JOB_BUDGET_MS
      in (case loadFlowForSweep (e_db s) workspaceId flowId of
            None \<Rightarrow> Inr s
          | Some (flow, def) \<Rightarrow>
              (case compiled_query (pg_string (en_pg (envs 0))) def workspaceId of
                 Inl e \<Rightarrow> Inl e
               | Inr cs \<Rightarrow>
                   (let (k, db) = drainStaleSnapshotBatches envs deadlineAt workspaceId flowId cs 1 (e_db s);
                        cursor = loadSweepCheckpoint db workspaceId flowId
                    in Inr (sweep_walk envs deadlineAt newId workspaceId flow cs k cursor (s\<lparr>e_db := db\<rparr>))))))"

subsection \<open>The discovery tick\<close>

text \<open>One job per live segment-triggered flow, under the job id \<open>sweep-\<close> with the flow's id: a job that
  still exists keeps a second one out.\<close>

definition findLiveSegmentTriggeredFlows :: "crm \<Rightarrow> (uuid \<times> uuid) list" where
  "findLiveSegmentTriggeredFlows db =
     map (\<lambda>f. (f_id f, f_workspaceId f))
       (filter (\<lambda>f. f_status f = FlowLive \<and> f_triggerType f = Some ''segment'' \<and> f_triggerSegmentId f \<noteq> None
                  \<and> f_liveVersionId f \<noteq> None \<and> scan_visible db (f_workspaceId f)) (t_flows db))"

fun runFlowSegmentSweepTick :: "(uuid \<times> uuid) list \<Rightarrow> (string \<times> uuid \<times> uuid) list \<Rightarrow> (string \<times> uuid \<times> uuid) list" where
  "runFlowSegmentSweepTick [] queue = queue"
| "runFlowSegmentSweepTick ((flowId, workspaceId) # rows) queue =
     runFlowSegmentSweepTick rows
       (if ''sweep-'' @ flowId \<in> fst ` set queue then queue
        else queue @ [(''sweep-'' @ flowId, workspaceId, flowId)])"

section \<open>Which contacts a walk considers\<close>

lemma members_same:
  assumes "t_events db' = t_events db"
  shows "members env cs db' = members env cs db"
  unfolding members_def where_true_same [OF assms] by (rule HOL.refl)

lemma enter_unseen_seen:
  "hasSeenSnapshot w' f' c (e_db (enter_unseen now newId w flow seen ids s)) \<longleftrightarrow>
     (w' = w \<and> f' = lf_id flow \<and> c \<in> set ids \<and> c \<notin> set seen) \<or> hasSeenSnapshot w' f' c (e_db s)"
  by (induction ids arbitrary: s) (auto simp: hasSeen_enterSegment)

lemma enroll_contacts_seen:
  "hasSeenSnapshot w' f' c (e_db (enroll_contacts now newId w flow n ids s)) \<longleftrightarrow>
     (w' = w \<and> f' = lf_id flow \<and> c \<in> set ids) \<or> hasSeenSnapshot w' f' c (e_db s)"
  by (induction ids arbitrary: s) (auto simp: engine_simps hasSeen_markSeen hasSeen_enter)

lemma hasSeen_writes [engine_simps]:
  "hasSeenSnapshot w f c (write_cursor now w' f' k db) = hasSeenSnapshot w f c db"
  "hasSeenSnapshot w f c (upsert_checkpoint now w' f' k db) = hasSeenSnapshot w f c db"
  by (simp_all add: hasSeenSnapshot_def engine_simps)

text \<open>One page: exactly its rows become seen.\<close>

lemma enrollBatch_seen:
  "hasSeenSnapshot w f c (e_db (fst (enrollBatch env newId w flow cs k s))) \<longleftrightarrow>
     (f = lf_id flow \<and> c \<in> ct_id ` set (keyset_page (members env cs (e_db s)) k ENROLL_BATCH_SIZE (t_contacts (e_db s))))
     \<or> hasSeenSnapshot w f c (e_db s)"
  by (auto simp: enrollBatch_def Let_def engine_simps enroll_contacts_seen)

lemma sweepPage_seen:
  "hasSeenSnapshot w (lf_id flow) c (e_db (fst (sweepOneFlowPage env newId w flow cs k s))) \<longleftrightarrow>
     c \<in> ct_id ` set (keyset_page (members env cs (e_db s)) k SWEEP_PAGE_SIZE (t_contacts (e_db s)))
     \<or> hasSeenSnapshot w (lf_id flow) c (e_db s)"
  by (auto simp: sweepOneFlowPage_def Let_def engine_simps enter_unseen_seen resetSweepCheckpoint_def
      advanceSweepCheckpoint_def)

text \<open>A page and the pages after it reach the members behind its cursor, and no others.\<close>

lemma page_then_rest:
  assumes "keyset_page p k n t \<noteq> []"
  shows "(\<exists>x \<in> set t. p x \<and> after_cursor k x \<and> ct_id x = c) \<longleftrightarrow>
    c \<in> ct_id ` set (keyset_page p k n t)
    \<or> (\<exists>x \<in> set t. p x \<and> after_cursor (last_id (keyset_page p k n t)) x \<and> ct_id x = c)"
proof -
  let ?l = "last (keyset_page p k n t)"
  have l: "?l \<in> set (keyset_page p k n t)" "last_id (keyset_page p k n t) = Some (ct_id ?l)"
    using assms by (simp_all add: last_id_def)
  have "after_cursor k ?l" using keyset_page_mem [OF l(1)] by simp
  then have behind: "after_cursor k x" if "after_cursor (Some (ct_id ?l)) x" for x
    using that by (auto simp: after_cursor_def split: option.splits dest: string_less_trans)
  show ?thesis
  proof
    assume "\<exists>x \<in> set t. p x \<and> after_cursor k x \<and> ct_id x = c"
    then obtain x where x: "x \<in> set t" "p x" "after_cursor k x" "ct_id x = c" by blast
    then show "c \<in> ct_id ` set (keyset_page p k n t)
        \<or> (\<exists>x \<in> set t. p x \<and> after_cursor (last_id (keyset_page p k n t)) x \<and> ct_id x = c)"
      using keyset_page_last [OF assms x(1-3)] l by auto
  next
    assume "c \<in> ct_id ` set (keyset_page p k n t)
        \<or> (\<exists>x \<in> set t. p x \<and> after_cursor (last_id (keyset_page p k n t)) x \<and> ct_id x = c)"
    then show "\<exists>x \<in> set t. p x \<and> after_cursor k x \<and> ct_id x = c"
      using keyset_page_mem [of _ p k n t] behind l(2) by auto
  qed
qed

lemma page_none:
  "keyset_page p k n t = [] \<Longrightarrow> 0 < n \<Longrightarrow> x \<in> set t \<Longrightarrow> p x \<Longrightarrow> \<not> after_cursor k x"
  using keyset_page_empty [of n p k t] by auto

lemma enroll_walk_seen:
  assumes "\<And>i. members (envs i) cs (e_db s) = m"
  shows "hasSeenSnapshot w (lf_id flow) c (e_db (enroll_walk envs newId w flow cs i k s)) \<longleftrightarrow>
     hasSeenSnapshot w (lf_id flow) c (e_db s)
     \<or> (\<exists>x \<in> set (t_contacts (e_db s)). m x \<and> after_cursor k x \<and> ct_id x = c)"
  using assms
proof (induction envs newId w flow cs i k s rule: enroll_walk.induct)
  case (1 envs newId w flow cs i k s)
  let ?b = "enrollBatch (envs i) newId w flow cs k s"
  let ?page = "keyset_page m k ENROLL_BATCH_SIZE (t_contacts (e_db s))"
  have same: "members (envs j) cs (e_db (fst ?b)) = m" for j
    using 1(2) members_same [OF enrollBatch_tables(2)] by simp
  show ?case
  proof (cases "?page = []")
    case True
    then have "enroll_walk envs newId w flow cs i k s = fst ?b"
      by (subst enroll_walk.simps) (simp add: enrollBatch_page 1(2))
    then show ?thesis
      using page_none [OF True] True
      by (auto simp: enrollBatch_seen 1(2) ENROLL_BATCH_SIZE_def)
  next
    case False
    then have "enroll_walk envs newId w flow cs i k s =
        enroll_walk envs newId w flow cs (Suc i) (last_id ?page) (fst ?b)"
      by (subst enroll_walk.simps) (simp add: enrollBatch_page 1(2) last_id_def)
    then show ?thesis
      using 1(1) [OF HOL.refl _ same] page_then_rest [OF False, of c] False
      by (simp add: enrollBatch_page 1(2) engine_simps enrollBatch_seen last_id_def) blast
  qed
qed

lemma load_upsert [engine_simps]: "loadSweepCheckpoint (upsert_checkpoint now w f k db) w f = k"
proof -
  have *: "find (checkpoint_is w f) (update_where (checkpoint_is w f) g t) = map_option g (find (checkpoint_is w f) t)"
    if "\<And>r. checkpoint_is w f (g r) = checkpoint_is w f r" for g t
    using that by (induction t) auto
  show ?thesis
  proof (cases "find (checkpoint_is w f) (t_checkpoints db)")
    case None
    then have none: "\<not> (\<exists>r \<in> set (t_checkpoints db). checkpoint_is w f r)" by (simp add: find_None_mem)
    have "find (checkpoint_is w f) t = None \<Longrightarrow>
        find (checkpoint_is w f) (t @ [r]) = (if checkpoint_is w f r then Some r else None)" for t r
      by (induction t) (auto split: if_splits)
    note this [OF None]
    then show ?thesis
      using none by (auto simp: loadSweepCheckpoint_def upsert_checkpoint_def checkpoint_is_def)
  next
    case (Some r)
    then have "\<exists>r \<in> set (t_checkpoints db). checkpoint_is w f r" using find_Some_iff_mem by fast
    then show ?thesis
      using Some by (simp add: loadSweepCheckpoint_def upsert_checkpoint_def * checkpoint_is_def)
  qed
qed

lemma sweep_walk_seen:
  assumes "\<And>i. members (envs i) cs (e_db s) = m" "\<And>i. en_now (envs i) < deadline"
  shows "(hasSeenSnapshot w (lf_id flow) c (e_db (sweep_walk envs deadline newId w flow cs i k s)) \<longleftrightarrow>
      hasSeenSnapshot w (lf_id flow) c (e_db s)
      \<or> (\<exists>x \<in> set (t_contacts (e_db s)). m x \<and> after_cursor k x \<and> ct_id x = c))
    \<and> loadSweepCheckpoint (e_db (sweep_walk envs deadline newId w flow cs i k s)) w (lf_id flow) = None"
  using assms
proof (induction envs deadline newId w flow cs i k s rule: sweep_walk.induct)
  case (1 envs deadline newId w flow cs i k s)
  let ?b = "sweepOneFlowPage (envs i) newId w flow cs k s"
  let ?page = "keyset_page m k SWEEP_PAGE_SIZE (t_contacts (e_db s))"
  have same: "members (envs j) cs (e_db (fst ?b)) = m" for j
    using 1(2) members_same [OF sweepOneFlowPage_tables(2)] by simp
  show ?case
  proof (cases "?page = []")
    case True
    then have "sweep_walk envs deadline newId w flow cs i k s =
        on_db (resetSweepCheckpoint (en_now (envs i)) w (lf_id flow)) s"
      by (subst sweep_walk.simps) (simp add: sweepOneFlowPage_def 1(2,3))
    then show ?thesis
      using page_none [OF True]
      by (auto simp: resetSweepCheckpoint_def engine_simps SWEEP_PAGE_SIZE_def)
  next
    case False
    then have "sweep_walk envs deadline newId w flow cs i k s =
        sweep_walk envs deadline newId w flow cs (Suc i) (last_id ?page) (fst ?b)"
      by (subst sweep_walk.simps) (simp add: sweepOneFlowPage_result 1(2,3) last_id_def)
    then show ?thesis
      using 1(1) [OF 1(3) HOL.refl _ same 1(3)] page_then_rest [OF False, of c] False
      by (simp add: sweepOneFlowPage_result 1(2) engine_simps sweepPage_seen last_id_def) blast
  qed
qed

lemma stale_same:
  "t_contacts db' = t_contacts db \<Longrightarrow> stale_snapshot w f m db' = stale_snapshot w f m db"
  by (auto simp: stale_snapshot_def fun_eq_iff)

lemma delete_first_none: "row_count p t = 0 \<Longrightarrow> delete_first n p t = filter (\<lambda>r. \<not> p r) t"
  by (induction n p t rule: delete_first.induct) (auto split: if_splits)

lemma drain_result:
  assumes "\<And>i. members (envs i) cs db = m" "\<And>i. en_now (envs i) < deadline"
  shows "\<exists>j. drainStaleSnapshotBatches envs deadline w f cs i db =
    (j, db\<lparr>t_snapshots := filter (\<lambda>r. \<not> stale_snapshot w f m db r) (t_snapshots db)\<rparr>)"
  using assms
proof (induction envs deadline w f cs i db rule: drainStaleSnapshotBatches.induct)
  case (1 envs deadline w f cs i db)
  let ?stale = "stale_snapshot w f m db"
  let ?db = "db\<lparr>t_snapshots := delete_first SWEEP_DELETE_BATCH_SIZE ?stale (t_snapshots db)\<rparr>"
  have b: "deleteStaleSnapshotBatch w f (members (envs i) cs db) db =
      (?db, min SWEEP_DELETE_BATCH_SIZE (row_count ?stale (t_snapshots db)))"
    by (simp add: deleteStaleSnapshotBatch_def 1(2))
  have same: "members (envs j) cs ?db = m" for j
    using 1(2) members_same [of ?db db] by simp
  show ?case
  proof (cases "row_count ?stale (t_snapshots db) = 0")
    case True
    then show ?thesis
      by (subst drainStaleSnapshotBatches.simps) (simp add: 1(3) b delete_first_none)
  next
    case False
    then obtain j where "drainStaleSnapshotBatches envs deadline w f cs (Suc i) ?db =
        (j, ?db\<lparr>t_snapshots := filter (\<lambda>r. \<not> stale_snapshot w f m ?db r) (t_snapshots ?db)\<rparr>)"
      using 1(1) [OF 1(3) b [symmetric], simplified, OF _ same 1(3)] 1(3) by (auto simp: SWEEP_DELETE_BATCH_SIZE_def)
    then have "drainStaleSnapshotBatches envs deadline w f cs (Suc i) ?db =
        (j, db\<lparr>t_snapshots := filter (\<lambda>r. \<not> ?stale r) (t_snapshots db)\<rparr>)"
      by (simp add: delete_first_filter stale_same [of ?db db])
    then show ?thesis
      using False
      by (subst drainStaleSnapshotBatches.simps)
        (simp add: 1(3) b Let_def, simp add: SWEEP_DELETE_BATCH_SIZE_def)
  qed
qed

section \<open>Properties\<close>

definition steady_members :: "(nat \<Rightarrow> engine_env) \<Rightarrow> uuid \<Rightarrow> SegmentDefinition \<Rightarrow> crm \<Rightarrow> bool" where
  "steady_members envs w def db =
     (\<forall>k. en_pg (envs k) = en_pg (envs 0)
        \<and> in_segment (en_pg (envs 0)) (en_now (envs k)) db w def = in_segment (en_pg (envs 0)) (en_now (envs 0)) db w def)"

lemma steady_compiled:
  assumes "segmentDefinitionSchema def" "steady_members envs w def db"
  obtains cs where "compiled_query (pg_string (en_pg (envs 0))) def w = Inr cs"
    "\<And>k. members (envs k) cs db = in_segment (en_pg (envs 0)) (en_now (envs 0)) db w def"
proof -
  obtain cs where cs: "compiled_query (pg_string (en_pg (envs 0))) def w = Inr cs"
    "\<And>now db. where_true (pg_sem (en_pg (envs 0))) now db cs = in_segment (en_pg (envs 0)) now db w def"
    by (rule compiled_members [OF assms(1), of "en_pg (envs 0)" w]) (rule that)
  have "members (envs k) cs db = in_segment (en_pg (envs 0)) (en_now (envs 0)) db w def" for k
  proof -
    have "en_pg (envs k) = en_pg (envs 0)"
      "in_segment (en_pg (envs 0)) (en_now (envs k)) db w def = in_segment (en_pg (envs 0)) (en_now (envs 0)) db w def"
      using assms(2) unfolding steady_members_def by blast+
    then show ?thesis using cs(2) by (simp only: members_def)
  qed
  then show ?thesis by (rule that [OF cs(1)])
qed

lemma hasSeen_fresh_only:
  "hasSeenSnapshot w f c (db\<lparr>t_snapshots := filter (\<lambda>r. \<not> stale_snapshot w f m db r) (t_snapshots db)\<rparr>) \<longleftrightarrow>
     hasSeenSnapshot w f c db \<and> (\<exists>x \<in> set (t_contacts db). m x \<and> ct_id x = c)"
proof -
  have "\<not> stale_snapshot w f m db r \<longleftrightarrow> (\<exists>x \<in> set (t_contacts db). m x \<and> ct_id x = c)"
    if "fs_workspaceId r = w" "fs_flowId r = f" "fs_contactId r = c" for r
    using that by (auto simp: stale_snapshot_def)
  then show ?thesis by (simp add: hasSeenSnapshot_def) blast
qed

lemma loadFlowForSweep_id: "loadFlowForSweep db w f = Some (flow, def) \<Longrightarrow> lf_id flow = f"
  by (auto simp: loadFlowForSweep_def live_flow_of_def dest!: find_Some_iff_mem split: option.splits)

text \<open>C14: the sweep makes the membership snapshot what the segment is. A walk that starts at the
  beginning and is not cut short by its budget leaves a flow's snapshot holding exactly the contacts
  that are in the flow's trigger segment: those who left may enter again, those who came have been
  considered, and the checkpoint is back at the beginning. No page is skipped and none is read twice,
  however many there are.\<close>

theorem sweep_snapshot_is_membership:
  assumes "loadFlowForSweep (e_db s) w f = Some (flow, def)" "segmentDefinitionSchema def"
    and "loadSweepCheckpoint (e_db s) w f = None"
    and "\<forall>k. en_now (envs k) < en_now (envs 0) + SWEEP_FLOW_JOB_BUDGET_MS"
    and "steady_members envs w def (e_db s)"
  shows "\<exists>s'. runFlowSegmentSweepFlowJob envs newId w f s = Inr s'
    \<and> (\<forall>c. hasSeenSnapshot w f c (e_db s') \<longleftrightarrow>
          (\<exists>x \<in> set (t_contacts (e_db s)).
             in_segment (en_pg (envs 0)) (en_now (envs 0)) (e_db s) w def x \<and> ct_id x = c))
    \<and> loadSweepCheckpoint (e_db s') w f = None"
proof -
  let ?m = "in_segment (en_pg (envs 0)) (en_now (envs 0)) (e_db s) w def"
  let ?deadline = "en_now (envs 0) + SWEEP_FLOW_JOB_BUDGET_MS"
  let ?db = "e_db s\<lparr>t_snapshots := filter (\<lambda>r. \<not> stale_snapshot w f ?m (e_db s) r) (t_snapshots (e_db s))\<rparr>"
  obtain cs where cs: "compiled_query (pg_string (en_pg (envs 0))) def w = Inr cs" "\<And>k. members (envs k) cs (e_db s) = ?m"
    by (rule steady_compiled [OF assms(2,5)]) (rule that)
  have time: "en_now (envs k) < ?deadline" for k using assms(4) by blast
  obtain j where j: "drainStaleSnapshotBatches envs ?deadline w f cs 1 (e_db s) = (j, ?db)"
    using drain_result [where envs = envs and cs = cs and i = 1, OF cs(2) time] by blast
  have load: "loadSweepCheckpoint ?db w f = None" using assms(3) by (simp add: loadSweepCheckpoint_def)
  have members: "members (envs k) cs (e_db (s\<lparr>e_db := ?db\<rparr>)) = ?m" for k
    using cs(2) members_same [of ?db "e_db s"] by simp
  have id: "lf_id flow = f" by (rule loadFlowForSweep_id [OF assms(1)])
  let ?s' = "sweep_walk envs ?deadline newId w flow cs j None (s\<lparr>e_db := ?db\<rparr>)"
  have "runFlowSegmentSweepFlowJob envs newId w f s = Inr ?s'"
    by (simp add: runFlowSegmentSweepFlowJob_def assms(1) cs(1) j load Let_def del: One_nat_def)
  moreover have "(hasSeenSnapshot w f c (e_db ?s') \<longleftrightarrow> (\<exists>x \<in> set (t_contacts (e_db s)). ?m x \<and> ct_id x = c))
      \<and> loadSweepCheckpoint (e_db ?s') w f = None" for c
    using sweep_walk_seen [where envs = envs and cs = cs, OF members time, of w flow c newId j None]
    by (auto simp: id hasSeen_fresh_only after_cursor_def)
  ultimately show ?thesis by blast
qed

text \<open>A back-fill considers exactly the members behind the cursor that it finds stored with the
  flow. A job that is delivered again after a crash takes up where the last committed batch ended.\<close>

theorem backfill_considers_exactly:
  assumes "loadFlow (e_db s) w f = Some fl" "f_triggerSegmentId fl = Some sg" "f_liveVersionId fl = Some v"
    and "segment_definition (e_db s) w sg = Some def" "segmentDefinitionSchema def"
    and "steady_members envs w def (e_db s)"
  shows "\<exists>s'. processFlowEnrollExisting envs newId w f True s = Inr s'
    \<and> (\<forall>c. hasSeenSnapshot w f c (e_db s') \<longleftrightarrow> hasSeenSnapshot w f c (e_db s)
          \<or> (\<exists>x \<in> set (t_contacts (e_db s)). in_segment (en_pg (envs 0)) (en_now (envs 0)) (e_db s) w def x
               \<and> after_cursor (f_enrollCursor fl) x \<and> ct_id x = c))"
proof -
  obtain cs where cs: "compiled_query (pg_string (en_pg (envs 0))) def w = Inr cs"
    "\<And>k. members (envs k) cs (e_db s) = in_segment (en_pg (envs 0)) (en_now (envs 0)) (e_db s) w def"
    by (rule steady_compiled [OF assms(5,6)]) (rule that)
  have id: "lf_id (live_flow_of fl) = f"
    using assms(1) by (auto simp: loadFlow_def live_flow_of_def dest: find_Some_iff_mem)
  show ?thesis
    using enroll_walk_seen [OF cs(2), where w = w and flow = "live_flow_of fl" and newId = newId and i = 0
        and k = "f_enrollCursor fl"]
    by (auto simp: processFlowEnrollExisting_def assms(1-4) cs(1) id)
qed

text \<open>A contact at or before the cursor is left alone by every page.\<close>

lemma enroll_contacts_runs:
  "c \<notin> set ids \<Longrightarrow> runs_of (e_db (enroll_contacts now newId w flow n ids s)) w' f' c = runs_of (e_db s) w' f' c"
proof (induction ids arbitrary: s)
  case (Cons i ids)
  have "runs_of (e_db (enter_if_allowed now j w flow n i s)) w' f' c = runs_of (e_db s) w' f' c" for j
    by (rule enter_if_allowed_cases [of now w flow i s j n])
      (use Cons.prems in \<open>auto simp: engine_simps runs_of_append\<close>)
  then show ?case using Cons by (simp add: engine_simps)
qed simp

lemma enroll_walk_runs:
  "\<forall>x \<in> set (t_contacts (e_db s)). ct_id x = c \<longrightarrow> \<not> after_cursor k x \<Longrightarrow>
   runs_of (e_db (enroll_walk envs newId w flow cs i k s)) w' f' c = runs_of (e_db s) w' f' c"
proof (induction envs newId w flow cs i k s rule: enroll_walk.induct)
  case (1 envs newId w flow cs i k s)
  let ?b = "enrollBatch (envs i) newId w flow cs k s"
  let ?page = "keyset_page (members (envs i) cs (e_db s)) k ENROLL_BATCH_SIZE (t_contacts (e_db s))"
  have "c \<notin> ct_id ` set ?page" using 1(2) keyset_page_mem by fastforce
  then have b: "runs_of (e_db (fst ?b)) w' f' c = runs_of (e_db s) w' f' c"
    by (simp add: enrollBatch_def Let_def engine_simps runs_of_def [of "write_cursor _ _ _ _ _"])
      (simp add: runs_of_def [symmetric] enroll_contacts_runs)
  show ?case
  proof (cases "?page = []")
    case True
    then show ?thesis by (subst enroll_walk.simps) (simp add: enrollBatch_page b)
  next
    case False
    have "\<not> after_cursor (last_id ?page) x" if "x \<in> set (t_contacts (e_db s))" "ct_id x = c" for x
      using that 1(2) False keyset_page_mem [OF last_in_set [OF False]]
      by (auto simp: last_id_def after_cursor_def split: option.splits dest: string_less_trans)
    then show ?thesis
      using 1(1) [OF HOL.refl] False b
      by (subst enroll_walk.simps) (simp add: enrollBatch_page engine_simps last_id_def)
  qed
qed

text \<open>Nothing resets that cursor. Whoever asks for a back-fill once more, with a new publication and
  perhaps another trigger segment, gets it only for the contacts whose identifiers come after the last
  one of the previous back-fill: a member at or before it is given no run by the job.\<close>

theorem backfill_skips_before_cursor:
  assumes "loadFlow (e_db s) w f = Some fl" "f_enrollCursor fl = Some k" "\<not> string_less k c"
    and "processFlowEnrollExisting envs newId w f True s = Inr s'"
  shows "runs_of (e_db s') w f c = runs_of (e_db s) w f c"
  using assms(2-4)
  by (auto simp: processFlowEnrollExisting_def assms(1) after_cursor_def intro!: enroll_walk_runs
      split: option.splits sum.splits)

section \<open>Witnesses\<close>

definition example_clock :: "nat \<Rightarrow> engine_env" where
  "example_clock k = example_env"

text \<open>One member, who is swept in, and a stale row, which is swept out.\<close>

definition example_swept :: engine where
  "example_swept = example_member\<lparr>e_db := (e_db example_member)\<lparr>t_snapshots :=
     [\<lparr>fs_workspaceId = ''w1'', fs_flowId = ''f1'', fs_contactId = ''gone'', fs_seenAt = 0\<rparr>]\<rparr>\<rparr>"

lemma example_steady: "steady_members example_clock w def db"
  by (simp add: steady_members_def example_clock_def)

lemma example_in_segment:
  "in_segment (en_pg example_env) now db ''w1'' example_segment (example_contact\<lparr>ct_country := Some ''DE''\<rparr>)"
  by (simp add: in_segment_def example_segment_def example_pg_def example_contact_def example_env_def
      STANDARD_FIELD_COLUMNS_def Let_def)

lemma sweep_snapshot_is_membership_witness:
  "\<exists>s'. runFlowSegmentSweepFlowJob example_clock example_ids ''w1'' ''f1'' example_swept = Inr s'
     \<and> hasSeenSnapshot ''w1'' ''f1'' ''k1'' (e_db s') \<and> \<not> hasSeenSnapshot ''w1'' ''f1'' ''gone'' (e_db s')"
proof -
  have l: "loadFlowForSweep (e_db example_swept) ''w1'' ''f1'' = Some (live_flow_of example_segment_flow, example_segment)"
    by (simp add: loadFlowForSweep_def example_swept_def example_member_def example_segment_flow_def
        segment_definition_def example_segment_row_def example_defs)
  have c: "loadSweepCheckpoint (e_db example_swept) ''w1'' ''f1'' = None"
    by (simp add: loadSweepCheckpoint_def example_swept_def example_member_def example_db_def empty_crm_def)
  have t: "\<forall>k. en_now (example_clock k) < en_now (example_clock 0) + SWEEP_FLOW_JOB_BUDGET_MS"
    by (simp add: example_clock_def SWEEP_FLOW_JOB_BUDGET_MS_def)
  have k: "t_contacts (e_db example_swept) = [example_contact\<lparr>ct_country := Some ''DE''\<rparr>]"
    by (simp add: example_swept_def example_member_def)
  show ?thesis
    using sweep_snapshot_is_membership [OF l example_segment_schema c t example_steady, of example_ids]
      example_in_segment by (fastforce simp: k example_clock_def example_contact_def)
qed

lemma example_backfill:
  "loadFlow (e_db example_member) ''w1'' ''f1'' = Some example_segment_flow"
  "f_triggerSegmentId example_segment_flow = Some ''s1''" "f_liveVersionId example_segment_flow = Some ''v1''"
  "segment_definition (e_db example_member) ''w1'' ''s1'' = Some example_segment"
  "f_enrollCursor example_segment_flow = None"
  "t_contacts (e_db example_member) = [example_contact\<lparr>ct_country := Some ''DE''\<rparr>]"
  by (simp_all add: loadFlow_def example_member_def example_segment_flow_def segment_definition_def
      example_segment_row_def example_defs)

lemma backfill_considers_exactly_witness:
  "\<exists>s'. processFlowEnrollExisting example_clock example_ids ''w1'' ''f1'' True example_member = Inr s'
     \<and> hasSeenSnapshot ''w1'' ''f1'' ''k1'' (e_db s')"
  using backfill_considers_exactly [OF example_backfill(1-4) example_segment_schema example_steady, of example_ids]
    example_in_segment by (auto simp: example_backfill after_cursor_def example_clock_def example_contact_def)

text \<open>The flow's last back-fill ended at \<open>k5\<close>: a second one passes over \<open>k1\<close>, a member without a run.\<close>

definition example_second :: engine where
  "example_second = example_member\<lparr>e_db := (e_db example_member)\<lparr>t_flows :=
     [example_segment_flow\<lparr>f_enrollCursor := Some ''k5''\<rparr>]\<rparr>\<rparr>"

lemma backfill_skips_before_cursor_witness:
  "\<exists>s'. processFlowEnrollExisting example_clock example_ids ''w1'' ''f1'' True example_second = Inr s'
     \<and> runs_of (e_db s') ''w1'' ''f1'' ''k1'' = []
     \<and> in_segment (en_pg example_env) 0 (e_db s') ''w1'' example_segment (example_contact\<lparr>ct_country := Some ''DE''\<rparr>)"
proof -
  have l: "loadFlow (e_db example_second) ''w1'' ''f1'' = Some (example_segment_flow\<lparr>f_enrollCursor := Some ''k5''\<rparr>)"
    "segment_definition (e_db example_second) ''w1'' ''s1'' = Some example_segment"
    by (simp_all add: example_second_def example_member_def loadFlow_def example_segment_flow_def
        segment_definition_def example_segment_row_def example_defs)
  obtain cs where "compiled_query (pg_string (en_pg (example_clock 0))) example_segment ''w1'' = Inr cs"
    by (rule compiled_members [OF example_segment_schema]) (rule that)
  then obtain s' where s': "processFlowEnrollExisting example_clock example_ids ''w1'' ''f1'' True example_second = Inr s'"
    using l by (simp add: processFlowEnrollExisting_def example_backfill)
  moreover have "runs_of (e_db s') ''w1'' ''f1'' ''k1'' = runs_of (e_db example_second) ''w1'' ''f1'' ''k1''"
    by (rule backfill_skips_before_cursor [OF l(1) _ _ s', of "''k5''"]) simp_all
  moreover have "runs_of (e_db example_second) ''w1'' ''f1'' ''k1'' = []"
    by (simp add: runs_of_def example_second_def example_member_def)
  ultimately show ?thesis using example_in_segment by auto
qed

end
