(* ===== verification/Flow_Repository.thy ===== *)
theory Flow_Repository
  imports Flow_Sweep
begin

text \<open>
  The life of a flow as its editors drive it: \<open>apps/api/src/modules/flows/flow.repository.ts\<close>,
  \<open>flow-version.repository.ts\<close> and \<open>flow-run.repository.ts\<close>. Each operation is one transaction, run in the
  workspace of its caller; it throws (\<open>Inl\<close>) and changes nothing, or commits. Identifiers that the
  database makes up are arguments.
\<close>

section \<open>Errors and rows\<close>

text \<open>\<open>FlowStateError\<close> with its code and details, the violation of the foreign key of
  \<open>trigger_segment_id\<close>, and a segment's definition that does not compile.\<close>

datatype FlowStateError =
    FlowNotFound
  | IllegalTransition
  | Incomplete "FlowValidationError list"
  | NoSuchSegment
  | SeedFailed query_error

definition EMPTY_DEFINITION :: FlowDefinition where
  "EMPTY_DEFINITION = \<lparr>fd_nodes = [], fd_edges = []\<rparr>"

definition flow_is :: "uuid \<Rightarrow> uuid \<Rightarrow> flow_row \<Rightarrow> bool" where
  "flow_is workspaceId i f = (f_workspaceId f = workspaceId \<and> f_id f = i)"

definition version_is :: "uuid \<Rightarrow> uuid \<Rightarrow> flow_version_row \<Rightarrow> bool" where
  "version_is workspaceId i v = (fv_workspaceId v = workspaceId \<and> fv_id v = i)"

definition getFlow :: "uuid \<Rightarrow> uuid \<Rightarrow> crm \<Rightarrow> flow_row option" where
  "getFlow workspaceId i db = find (flow_is workspaceId i) (t_flows db)"

definition getPinnedVersion :: "uuid \<Rightarrow> uuid \<Rightarrow> crm \<Rightarrow> flow_version_row option" where
  "getPinnedVersion workspaceId v db = find (version_is workspaceId v) (t_flowVersions db)"

text \<open>\<open>SELECT definition \<dots> WHERE id = $2\<close>, where the id may be null.\<close>

definition version_definition :: "uuid \<Rightarrow> uuid option \<Rightarrow> crm \<Rightarrow> FlowDefinition" where
  "version_definition workspaceId v db =
     (case Option.bind v (\<lambda>i. getPinnedVersion workspaceId i db) of
        None \<Rightarrow> EMPTY_DEFINITION
      | Some r \<Rightarrow> fv_definition r)"

text \<open>\<open>UPDATE flows SET \<dots> WHERE workspace_id = $1 AND id = $2 RETURNING \<dots>\<close>.\<close>

definition write_flow :: "uuid \<Rightarrow> uuid \<Rightarrow> (flow_row \<Rightarrow> flow_row) \<Rightarrow> crm \<Rightarrow> crm" where
  "write_flow workspaceId i g db = db\<lparr>t_flows := update_where (flow_is workspaceId i) g (t_flows db)\<rparr>"

definition new_version :: "instant \<Rightarrow> uuid \<Rightarrow> uuid \<Rightarrow> uuid \<Rightarrow> int \<Rightarrow> FlowDefinition \<Rightarrow> flow_version_row" where
  "new_version now i workspaceId flowId n def =
     \<lparr>fv_id = i, fv_workspaceId = workspaceId, fv_flowId = flowId, fv_versionNumber = n,
      fv_definition = def, fv_publishedAt = None, fv_createdAt = now\<rparr>"

definition insert_version :: "flow_version_row \<Rightarrow> crm \<Rightarrow> crm" where
  "insert_version v db = db\<lparr>t_flowVersions := t_flowVersions db @ [v]\<rparr>"

definition nextVersionNumber :: "uuid \<Rightarrow> uuid \<Rightarrow> crm \<Rightarrow> int" where
  "nextVersionNumber workspaceId flowId db =
     (case map fv_versionNumber
             (filter (\<lambda>v. fv_workspaceId v = workspaceId \<and> fv_flowId v = flowId) (t_flowVersions db)) of
        [] \<Rightarrow> 0
      | n # ns \<Rightarrow> foldr max ns n) + 1"

record trigger_columns =
  tc_triggerType :: "string option"
  tc_triggerEventName :: "string option"
  tc_triggerSegmentId :: "uuid option"

fun trigger_name :: "FlowTriggerType \<Rightarrow> string" where
  "trigger_name EventTrigger = ''event''"
| "trigger_name SegmentTrigger = ''segment''"

definition extractTriggerColumns :: "FlowDefinition \<Rightarrow> trigger_columns" where
  "extractTriggerColumns def =
     (case find is_trigger (fd_nodes def) of
        Some (TriggerNode i triggerType eventName segmentId p) \<Rightarrow>
          \<lparr>tc_triggerType = Some (trigger_name triggerType), tc_triggerEventName = eventName,
           tc_triggerSegmentId = segmentId\<rparr>
      | _ \<Rightarrow> \<lparr>tc_triggerType = None, tc_triggerEventName = None, tc_triggerSegmentId = None\<rparr>)"

section \<open>The operations\<close>

definition new_flow :: "instant \<Rightarrow> uuid \<Rightarrow> uuid \<Rightarrow> string \<Rightarrow> string \<Rightarrow> flow_row" where
  "new_flow now i workspaceId name createdByUserId =
     \<lparr>f_id = i, f_workspaceId = workspaceId, f_name = name, f_status = FlowDraft, f_triggerType = None,
      f_triggerEventName = None, f_triggerSegmentId = None, f_draftVersionId = None, f_liveVersionId = None,
      f_reentryMode = ''every_time'', f_reentryWindowDays = None, f_quietHoursMode = ''workspace_default'',
      f_quietHoursStart = None, f_quietHoursEnd = None, f_exitConditions = [], f_enrollCursor = None,
      f_createdByUserId = createdByUserId, f_createdAt = now, f_updatedAt = now\<rparr>"

text \<open>The insertion of a flow with its first draft version, shared by creation and duplication.\<close>

definition insert_flow_with_draft :: "instant \<Rightarrow> flow_row \<Rightarrow> uuid \<Rightarrow> FlowDefinition \<Rightarrow> crm \<Rightarrow> crm" where
  "insert_flow_with_draft now f versionId def db =
     write_flow (f_workspaceId f) (f_id f) (\<lambda>f. f\<lparr>f_draftVersionId := Some versionId, f_updatedAt := now\<rparr>)
       (insert_version (new_version now versionId (f_workspaceId f) (f_id f) 1 def)
          (db\<lparr>t_flows := t_flows db @ [f]\<rparr>))"

definition createFlow :: "instant \<Rightarrow> uuid \<Rightarrow> uuid \<Rightarrow> uuid \<Rightarrow> string \<Rightarrow> string \<Rightarrow> crm \<Rightarrow> crm" where
  "createFlow now flowId versionId workspaceId name createdByUserId db =
     insert_flow_with_draft now (new_flow now flowId workspaceId name createdByUserId) versionId
       EMPTY_DEFINITION db"

record UpdateFlowDraftInput =
  up_name :: "string option"
  up_definition :: "FlowDefinition option"
  up_reentryMode :: "string option"
  up_reentryWindowDays :: "int option"
  up_quietHoursMode :: "string option"
  up_quietHoursStart :: "int option"
  up_quietHoursEnd :: "int option"
  up_exitConditions :: "FlowExitCondition list option"

text \<open>The draft to edit: the flow's own, or a new one made from the live definition.\<close>

definition working_draft :: "instant \<Rightarrow> uuid \<Rightarrow> uuid \<Rightarrow> flow_row \<Rightarrow> crm \<Rightarrow> crm \<times> uuid" where
  "working_draft now newVersionId workspaceId existing db =
     (case f_draftVersionId existing of
        Some i \<Rightarrow> (db, i)
      | None \<Rightarrow>
          (insert_version (new_version now newVersionId workspaceId (f_id existing)
             (nextVersionNumber workspaceId (f_id existing) db)
             (version_definition workspaceId (f_liveVersionId existing) db)) db,
           newVersionId))"

definition set_definition :: "uuid \<Rightarrow> uuid \<Rightarrow> FlowDefinition option \<Rightarrow> crm \<Rightarrow> crm" where
  "set_definition workspaceId v def db =
     (case def of
        None \<Rightarrow> db
      | Some d \<Rightarrow>
          db\<lparr>t_flowVersions := update_where (version_is workspaceId v) (\<lambda>r. r\<lparr>fv_definition := d\<rparr>)
               (t_flowVersions db)\<rparr>)"

definition patched :: "instant \<Rightarrow> UpdateFlowDraftInput \<Rightarrow> uuid \<Rightarrow> trigger_columns option \<Rightarrow> flow_row \<Rightarrow> flow_row" where
  "patched now patch draftVersionId triggerColumns f =
     f\<lparr>f_name := nullish (up_name patch) (f_name f),
       f_draftVersionId := Some draftVersionId,
       f_reentryMode := nullish (up_reentryMode patch) (f_reentryMode f),
       f_reentryWindowDays := coalesce (up_reentryWindowDays patch) (f_reentryWindowDays f),
       f_quietHoursMode := nullish (up_quietHoursMode patch) (f_quietHoursMode f),
       f_quietHoursStart := coalesce (up_quietHoursStart patch) (f_quietHoursStart f),
       f_quietHoursEnd := coalesce (up_quietHoursEnd patch) (f_quietHoursEnd f),
       f_exitConditions := nullish (up_exitConditions patch) (f_exitConditions f),
       f_triggerType := (case triggerColumns of None \<Rightarrow> f_triggerType f | Some t \<Rightarrow> tc_triggerType t),
       f_triggerEventName := (case triggerColumns of None \<Rightarrow> f_triggerEventName f | Some t \<Rightarrow> tc_triggerEventName t),
       f_triggerSegmentId := (case triggerColumns of None \<Rightarrow> f_triggerSegmentId f | Some t \<Rightarrow> tc_triggerSegmentId t),
       f_updatedAt := now\<rparr>"

definition updateFlowDraft ::
  "instant \<Rightarrow> uuid \<Rightarrow> uuid \<Rightarrow> uuid \<Rightarrow> UpdateFlowDraftInput \<Rightarrow> crm \<Rightarrow> FlowStateError + crm" where
  "updateFlowDraft now newVersionId workspaceId i patch db =
     (case getFlow workspaceId i db of
        None \<Rightarrow> Inl FlowNotFound
      | Some existing \<Rightarrow>
          (let (db1, draftVersionId) = working_draft now newVersionId workspaceId existing db;
               db2 = set_definition workspaceId draftVersionId (up_definition patch) db1;
               triggerColumns = (if f_status existing = FlowDraft
                                 then map_option extractTriggerColumns (up_definition patch) else None);
               next = patched now patch draftVersionId triggerColumns existing
           in if segment_fk (f_triggerSegmentId next) db2
              then Inr (write_flow workspaceId i (\<lambda>f. next) db2)
              else Inl NoSuchSegment))"

definition snapshotDraftToVersion :: "instant \<Rightarrow> uuid \<Rightarrow> uuid \<Rightarrow> crm \<Rightarrow> crm" where
  "snapshotDraftToVersion now workspaceId v db =
     db\<lparr>t_flowVersions := update_where (version_is workspaceId v) (\<lambda>r. r\<lparr>fv_publishedAt := Some now\<rparr>)
          (t_flowVersions db)\<rparr>"

definition seedMembershipSnapshotAtomic ::
  "engine_env \<Rightarrow> uuid \<Rightarrow> uuid \<Rightarrow> uuid \<Rightarrow> crm \<Rightarrow> query_error + crm" where
  "seedMembershipSnapshotAtomic env workspaceId flowId segmentId db =
     (case segment_definition db workspaceId segmentId of
        None \<Rightarrow> Inr db
      | Some def \<Rightarrow>
          (case compiled_query (pg_string (en_pg env)) def workspaceId of
             Inl e \<Rightarrow> Inl e
           | Inr cs \<Rightarrow> Inr (seedSnapshotOnly (en_now env) flowId (members env cs db) db)))"

text \<open>\<open>publishFlow\<close> also tells its caller the flow's trigger segment, for a segment-triggered flow.\<close>

definition publishFlow ::
  "engine_env \<Rightarrow> uuid \<Rightarrow> uuid \<Rightarrow> bool \<Rightarrow> crm \<Rightarrow> FlowStateError + (crm \<times> uuid option)" where
  "publishFlow env workspaceId i enrollExisting db =
     (case getFlow workspaceId i db of
        None \<Rightarrow> Inl FlowNotFound
      | Some existing \<Rightarrow>
          (case f_draftVersionId existing of
             None \<Rightarrow> Inl IllegalTransition
           | Some draftVersionId \<Rightarrow>
               (let def = version_definition workspaceId (Some draftVersionId) db;
                    errors = the (validateFlowDefinition def)
                in if errors \<noteq> [] then Inl (Incomplete errors)
                   else
                     let db1 = snapshotDraftToVersion (en_now env) workspaceId draftVersionId db;
                         tc = extractTriggerColumns def;
                         nextStatus = (if f_status existing = FlowPaused then FlowPaused else FlowLive);
                         db2 = write_flow workspaceId i
                           (\<lambda>f. f\<lparr>f_liveVersionId := Some draftVersionId, f_draftVersionId := None,
                                  f_status := nextStatus, f_triggerType := tc_triggerType tc,
                                  f_triggerEventName := tc_triggerEventName tc,
                                  f_triggerSegmentId := tc_triggerSegmentId tc,
                                  f_updatedAt := en_now env\<rparr>) db1;
                         segmentTriggered = (tc_triggerType tc = Some ''segment'' \<and> tc_triggerSegmentId tc \<noteq> None);
                         triggered = (if segmentTriggered then tc_triggerSegmentId tc else None)
                     in if \<not> segment_fk (tc_triggerSegmentId tc) db then Inl NoSuchSegment
                        else if segmentTriggered \<and> \<not> enrollExisting
                        then (case seedMembershipSnapshotAtomic env workspaceId i (the (tc_triggerSegmentId tc)) db2 of
                                Inl e \<Rightarrow> Inl (SeedFailed e)
                              | Inr db3 \<Rightarrow> Inr (db3, triggered))
                        else Inr (db2, triggered))))"

definition pauseFlow :: "instant \<Rightarrow> uuid \<Rightarrow> uuid \<Rightarrow> crm \<Rightarrow> FlowStateError + crm" where
  "pauseFlow now workspaceId i db =
     (case getFlow workspaceId i db of
        None \<Rightarrow> Inl FlowNotFound
      | Some existing \<Rightarrow>
          if f_status existing \<noteq> FlowLive then Inl IllegalTransition
          else Inr (write_flow workspaceId i (\<lambda>f. f\<lparr>f_status := FlowPaused, f_updatedAt := now\<rparr>) db))"

definition resumeFlow :: "instant \<Rightarrow> uuid \<Rightarrow> uuid \<Rightarrow> crm \<Rightarrow> FlowStateError + crm" where
  "resumeFlow now workspaceId i db =
     (case getFlow workspaceId i db of
        None \<Rightarrow> Inl FlowNotFound
      | Some existing \<Rightarrow>
          if f_status existing \<noteq> FlowPaused then Inl IllegalTransition
          else Inr (write_flow workspaceId i (\<lambda>f. f\<lparr>f_status := FlowLive, f_updatedAt := now\<rparr>) db))"

definition duplicateFlow ::
  "instant \<Rightarrow> uuid \<Rightarrow> uuid \<Rightarrow> uuid \<Rightarrow> uuid \<Rightarrow> string \<Rightarrow> crm \<Rightarrow> FlowStateError + crm" where
  "duplicateFlow now newFlowId newVersionId workspaceId i createdByUserId db =
     (case getFlow workspaceId i db of
        None \<Rightarrow> Inl FlowNotFound
      | Some existing \<Rightarrow>
          (let def = version_definition workspaceId
                 (coalesce (f_draftVersionId existing) (f_liveVersionId existing)) db;
               copy = (new_flow now newFlowId workspaceId (f_name existing) createdByUserId)
                 \<lparr>f_triggerType := f_triggerType existing, f_triggerEventName := f_triggerEventName existing,
                  f_triggerSegmentId := f_triggerSegmentId existing, f_reentryMode := f_reentryMode existing,
                  f_reentryWindowDays := f_reentryWindowDays existing,
                  f_quietHoursMode := f_quietHoursMode existing,
                  f_quietHoursStart := f_quietHoursStart existing, f_quietHoursEnd := f_quietHoursEnd existing,
                  f_exitConditions := f_exitConditions existing\<rparr>
           in if segment_fk (f_triggerSegmentId existing) db
              then Inr (insert_flow_with_draft now copy newVersionId def db)
              else Inl NoSuchSegment))"

section \<open>Runs\<close>

definition ejectRuns :: "instant \<Rightarrow> uuid \<Rightarrow> uuid \<Rightarrow> uuid list \<Rightarrow> uuid list \<Rightarrow> crm \<Rightarrow> crm \<times> nat" where
  "ejectRuns now workspaceId flowId runIds contactIds db =
     (let p = (\<lambda>r. fr_workspaceId r = workspaceId \<and> fr_flowId r = flowId \<and> run_active r
                 \<and> (fr_id r \<in> set runIds \<or> fr_contactId r \<in> set contactIds))
      in (db\<lparr>t_flowRuns := update_where p (end_run RunEjected ''ejected'' now) (t_flowRuns db)\<rparr>,
          row_count p (t_flowRuns db)))"

definition activeRunCount :: "uuid \<Rightarrow> uuid \<Rightarrow> crm \<Rightarrow> nat" where
  "activeRunCount workspaceId flowId db =
     row_count (\<lambda>r. fr_workspaceId r = workspaceId \<and> fr_flowId r = flowId \<and> run_active r) (t_flowRuns db)"

record FlowRunCounts =
  frc_active :: nat
  frc_onOldVersions :: nat

text \<open>The join with the flow; \<open>flow_version_id <> live_version_id\<close> is not true where the latter is null.\<close>

definition queryRunCounts :: "uuid \<Rightarrow> uuid \<Rightarrow> crm \<Rightarrow> FlowRunCounts" where
  "queryRunCounts workspaceId flowId db =
     (let mine = filter (\<lambda>r. fr_workspaceId r = workspaceId \<and> fr_flowId r = flowId \<and> run_active r) (t_flowRuns db)
      in (case getFlow workspaceId flowId db of
            None \<Rightarrow> \<lparr>frc_active = 0, frc_onOldVersions = 0\<rparr>
          | Some f \<Rightarrow>
              \<lparr>frc_active = length mine,
               frc_onOldVersions = length (filter (\<lambda>r. case f_liveVersionId f of None \<Rightarrow> False
                                                   | Some v \<Rightarrow> fr_flowVersionId r \<noteq> v) mine)\<rparr>))"

text \<open>The cascades of the foreign keys that point at a flow: its versions, runs, snapshot and
  checkpoint rows; the steps and the send ledger's rows of those runs; and the links of logs to those
  rows, which become null.\<close>

definition unlink :: "uuid list \<Rightarrow> uuid option \<Rightarrow> uuid option" where
  "unlink ids i = (case i of None \<Rightarrow> None | Some x \<Rightarrow> if x \<in> set ids then None else Some x)"

definition delete_flow_rows :: "uuid \<Rightarrow> crm \<Rightarrow> crm" where
  "delete_flow_rows i db =
     (let runs = map fr_id (filter (\<lambda>r. fr_flowId r = i) (t_flowRuns db));
          of_runs = (\<lambda>r. case s_flowRunId r of None \<Rightarrow> False | Some x \<Rightarrow> x \<in> set runs);
          sends = map s_id (filter of_runs (l_sends db))
      in db\<lparr>t_flows := delete_where (\<lambda>f. f_id f = i) (t_flows db),
            t_flowVersions := delete_where (\<lambda>v. fv_flowId v = i) (t_flowVersions db),
            t_flowRuns := delete_where (\<lambda>r. fr_flowId r = i) (t_flowRuns db),
            t_snapshots := delete_where (\<lambda>r. fs_flowId r = i) (t_snapshots db),
            t_checkpoints := delete_where (\<lambda>r. ck_flowId r = i) (t_checkpoints db),
            t_flowRunSteps := map (\<lambda>t. t\<lparr>st_sendId := unlink sends (st_sendId t)\<rparr>)
              (delete_where (\<lambda>t. st_flowRunId t \<in> set runs) (t_flowRunSteps db)),
            l_sends := delete_where of_runs (l_sends db),
            t_sendEvents := map (\<lambda>e. e\<lparr>se_sendId := unlink sends (se_sendId e)\<rparr>) (t_sendEvents db)\<rparr>)"

definition deleteFlow :: "uuid \<Rightarrow> uuid \<Rightarrow> crm \<Rightarrow> FlowStateError + (crm \<times> bool)" where
  "deleteFlow workspaceId i db =
     (case getFlow workspaceId i db of
        None \<Rightarrow> Inr (db, False)
      | Some existing \<Rightarrow>
          (let neverPublished = (f_liveVersionId existing = None \<and> f_status existing = FlowDraft)
           in if \<not> neverPublished \<and> f_status existing \<noteq> FlowPaused then Inl IllegalTransition
              else if \<not> neverPublished \<and> activeRunCount workspaceId i db > 0 then Inl IllegalTransition
              else Inr (delete_flow_rows i db, True)))"

end
