(* ===== verification/Flow_System.thy ===== *)
theory Flow_System
  imports Flow_Repository
begin

text \<open>
  The flow subsystem as one state machine: the editors' transactions, the transactions that enrol
  contacts, and the steps of the runs, in any interleaving. Its invariant ties the parts together:
  whatever a run executes was validated when it was published and has not changed since, and a
  contact has at most one active run in a flow.
\<close>

section \<open>The steps\<close>

definition fresh_runs :: "crm \<Rightarrow> (uuid \<Rightarrow> uuid \<Rightarrow> uuid) \<Rightarrow> bool" where
  "fresh_runs db newId =
     ((\<forall>f c. newId f c \<notin> fr_id ` set (t_flowRuns db))
      \<and> (\<forall>f c f' c'. newId f c = newId f' c' \<longrightarrow> f = f' \<and> c = c'))"

text \<open>A live flow as an earlier transaction of a job read it. By the time a page commits, the version may
  have been superseded; the foreign keys of \<open>flow_runs\<close> hold only while it and the flow exist.\<close>

definition enterable :: "crm \<Rightarrow> uuid \<Rightarrow> live_flow \<Rightarrow> bool" where
  "enterable db w flow =
     (\<exists>v \<in> set (t_flowVersions db). fv_id v = lf_liveVersionId flow \<and> fv_workspaceId v = w
        \<and> fv_flowId v = lf_id flow \<and> fv_publishedAt v \<noteq> None)"

inductive flow_step :: "(string \<Rightarrow> bool) \<Rightarrow> (string \<Rightarrow> bool) \<Rightarrow> engine \<Rightarrow> engine \<Rightarrow> bool"
  for is_uuid is_email where
  create: "i \<notin> f_id ` set (t_flows (e_db s)) \<Longrightarrow> v \<notin> fv_id ` set (t_flowVersions (e_db s)) \<Longrightarrow>
    flow_step is_uuid is_email s (on_db (createFlow now i v w name user) s)"
| edit: "v \<notin> fv_id ` set (t_flowVersions (e_db s)) \<Longrightarrow>
    (\<forall>d. up_definition patch = Some d \<longrightarrow> flowDefinitionSchema is_uuid is_email d) \<Longrightarrow>
    updateFlowDraft now v w i patch (e_db s) = Inr db \<Longrightarrow>
    flow_step is_uuid is_email s (s\<lparr>e_db := db\<rparr>)"
| publish: "publishFlow env w i enroll (e_db s) = Inr (db, t) \<Longrightarrow> flow_step is_uuid is_email s (s\<lparr>e_db := db\<rparr>)"
| pause: "pauseFlow now w i (e_db s) = Inr db \<Longrightarrow> flow_step is_uuid is_email s (s\<lparr>e_db := db\<rparr>)"
| resume: "resumeFlow now w i (e_db s) = Inr db \<Longrightarrow> flow_step is_uuid is_email s (s\<lparr>e_db := db\<rparr>)"
| duplicate: "j \<notin> f_id ` set (t_flows (e_db s)) \<Longrightarrow> v \<notin> fv_id ` set (t_flowVersions (e_db s)) \<Longrightarrow>
    duplicateFlow now j v w i user (e_db s) = Inr db \<Longrightarrow> flow_step is_uuid is_email s (s\<lparr>e_db := db\<rparr>)"
| delete: "deleteFlow w i (e_db s) = Inr (db, b) \<Longrightarrow> flow_step is_uuid is_email s (s\<lparr>e_db := db\<rparr>)"
| eject: "ejectRuns now w i runIds contactIds (e_db s) = (db, n) \<Longrightarrow>
    flow_step is_uuid is_email s (s\<lparr>e_db := db\<rparr>)"
| trigger: "fresh_runs (e_db s) newId \<Longrightarrow> processFlowTriggerCheck env newId w c ev s = Inr s' \<Longrightarrow>
    flow_step is_uuid is_email s s'"
| enroll: "fresh_runs (e_db s) newId \<Longrightarrow> enterable (e_db s) w flow \<Longrightarrow>
    flow_step is_uuid is_email s (fst (enrollBatch env newId w flow cs k s))"
| sweep: "fresh_runs (e_db s) newId \<Longrightarrow> enterable (e_db s) w flow \<Longrightarrow>
    flow_step is_uuid is_email s (fst (sweepOneFlowPage env newId w flow cs k s))"
| drain: "flow_step is_uuid is_email s (on_db (\<lambda>db. fst (deleteStaleSnapshotBatch w i m db)) s)"
| seed: "flow_step is_uuid is_email s (on_db (seedSnapshotOnly now i m) s)"
| advance: "processFlowRunAdvance env w r s = Inr s' \<Longrightarrow> flow_step is_uuid is_email s s'"
| nudge: "flow_step is_uuid is_email s (flowReconciliationTick now s)"

section \<open>The invariant\<close>

definition has_version :: "flow_version_row list \<Rightarrow> uuid \<Rightarrow> uuid \<Rightarrow> bool \<Rightarrow> uuid \<Rightarrow> bool" where
  "has_version vs w f pub i =
     (\<exists>v \<in> set vs. fv_id v = i \<and> fv_workspaceId v = w \<and> fv_flowId v = f \<and> (fv_publishedAt v \<noteq> None) = pub)"

definition version_ok :: "(string \<Rightarrow> bool) \<Rightarrow> (string \<Rightarrow> bool) \<Rightarrow> flow_version_row \<Rightarrow> bool" where
  "version_ok is_uuid is_email v =
     (flowDefinitionSchema is_uuid is_email (fv_definition v)
      \<and> (fv_publishedAt v \<noteq> None \<longrightarrow> validateFlowDefinition (fv_definition v) = Some []))"

text \<open>The draft is an unpublished version of the flow and the live version a published one; a flow that
  is live or paused has a live version, and one without has never been published.\<close>

definition flow_ok :: "flow_version_row list \<Rightarrow> flow_row \<Rightarrow> bool" where
  "flow_ok vs f =
     (pred_option (has_version vs (f_workspaceId f) (f_id f) False) (f_draftVersionId f)
      \<and> pred_option (has_version vs (f_workspaceId f) (f_id f) True) (f_liveVersionId f)
      \<and> (f_status f \<noteq> FlowDraft \<longrightarrow> f_liveVersionId f \<noteq> None)
      \<and> (f_liveVersionId f = None \<longrightarrow> (\<forall>v \<in> set vs. fv_flowId v = f_id f \<longrightarrow> fv_publishedAt v = None)))"

definition from_trigger :: "FlowDefinition \<Rightarrow> string \<Rightarrow> bool" where
  "from_trigger def n = (\<exists>t \<in> set (fd_nodes def). is_trigger t \<and> (node_id t, n) \<in> (edge_rel (fd_edges def))\<^sup>*)"

definition run_ok :: "flow_version_row list \<Rightarrow> flow_run_row \<Rightarrow> bool" where
  "run_ok vs r =
     (\<exists>v \<in> set vs. fv_id v = fr_flowVersionId r \<and> fv_workspaceId v = fr_workspaceId r
        \<and> fv_flowId v = fr_flowId r \<and> fv_publishedAt v \<noteq> None
        \<and> pred_option (from_trigger (fv_definition v)) (fr_currentNodeId r))"

text \<open>\<open>flow_runs_one_active_per_contact\<close>.\<close>

definition active_key :: "flow_run_row \<Rightarrow> (uuid \<times> uuid \<times> uuid) option" where
  "active_key r = (if run_active r then Some (fr_workspaceId r, fr_flowId r, fr_contactId r) else None)"

definition owned :: "flow_row list \<Rightarrow> flow_version_row \<Rightarrow> bool" where
  "owned fs v = (\<exists>f \<in> set fs. f_id f = fv_flowId v \<and> f_workspaceId f = fv_workspaceId v)"

definition graph_inv ::
  "(string \<Rightarrow> bool) \<Rightarrow> (string \<Rightarrow> bool) \<Rightarrow> flow_version_row list \<Rightarrow> flow_row list \<Rightarrow> bool" where
  "graph_inv is_uuid is_email vs fs =
     (distinct (map f_id fs) \<and> distinct (map fv_id vs)
      \<and> (\<forall>v \<in> set vs. version_ok is_uuid is_email v \<and> owned fs v) \<and> (\<forall>f \<in> set fs. flow_ok vs f))"

definition runs_inv :: "flow_version_row list \<Rightarrow> flow_run_row list \<Rightarrow> bool" where
  "runs_inv vs rs = (distinct (map fr_id rs) \<and> unique_key active_key rs \<and> (\<forall>r \<in> set rs. run_ok vs r))"

definition flow_inv :: "(string \<Rightarrow> bool) \<Rightarrow> (string \<Rightarrow> bool) \<Rightarrow> crm \<Rightarrow> bool" where
  "flow_inv is_uuid is_email db =
     (graph_inv is_uuid is_email (t_flowVersions db) (t_flows db) \<and> runs_inv (t_flowVersions db) (t_flowRuns db))"

text \<open>Published versions are never rewritten.\<close>

definition published_kept :: "flow_version_row list \<Rightarrow> flow_version_row list \<Rightarrow> bool" where
  "published_kept vs vs' = (\<forall>v \<in> set vs. fv_publishedAt v \<noteq> None \<longrightarrow> v \<in> set vs')"

section \<open>What the parts depend on\<close>

lemma run_ok_mono:
  "run_ok vs r \<Longrightarrow> (\<And>v. v \<in> set vs \<Longrightarrow> fv_publishedAt v \<noteq> None \<Longrightarrow> fv_flowId v = fr_flowId r \<Longrightarrow> v \<in> set vs') \<Longrightarrow>
   run_ok vs' r"
  unfolding run_ok_def by blast

lemma runs_inv_mono: "runs_inv vs rs \<Longrightarrow> published_kept vs vs' \<Longrightarrow> runs_inv vs' rs"
  unfolding runs_inv_def published_kept_def by (blast intro: run_ok_mono)

lemma flow_ok_local:
  assumes "\<And>v. fv_flowId v = f_id f \<Longrightarrow> v \<in> set vs' \<longleftrightarrow> v \<in> set vs"
  shows "flow_ok vs' f = flow_ok vs f"
proof -
  have "has_version vs' (f_workspaceId f) (f_id f) = has_version vs (f_workspaceId f) (f_id f)"
    using assms by (intro ext) (auto simp: has_version_def)
  then show ?thesis using assms by (auto simp: flow_ok_def)
qed

lemma flow_inv_same:
  "t_flows db' = t_flows db \<Longrightarrow> t_flowVersions db' = t_flowVersions db \<Longrightarrow> t_flowRuns db' = t_flowRuns db \<Longrightarrow>
   flow_inv is_uuid is_email db' = flow_inv is_uuid is_email db"
  by (simp add: flow_inv_def)

lemma version_eq:
  "graph_inv is_uuid is_email vs fs \<Longrightarrow> v \<in> set vs \<Longrightarrow> v' \<in> set vs \<Longrightarrow> fv_id v = fv_id v' \<Longrightarrow> v = v'"
  by (auto simp: graph_inv_def intro: distinct_map_eq)

lemma flow_eq:
  "graph_inv is_uuid is_email vs fs \<Longrightarrow> f \<in> set fs \<Longrightarrow> f' \<in> set fs \<Longrightarrow> f_id f = f_id f' \<Longrightarrow> f = f'"
  by (auto simp: graph_inv_def intro: distinct_map_eq)

section \<open>The writes of the editors\<close>

lemma graph_write:
  assumes "graph_inv is_uuid is_email vs fs"
    and g: "\<And>f. f \<in> set fs \<Longrightarrow> flow_is w i f \<Longrightarrow> f_id (g f) = f_id f \<and> f_workspaceId (g f) = f_workspaceId f \<and> flow_ok vs (g f)"
  shows "graph_inv is_uuid is_email vs (update_where (flow_is w i) g fs)"
proof -
  have id: "map f_id (update_where (flow_is w i) g fs) = map f_id fs"
    using g by (simp add: update_where_def)
  have "owned (update_where (flow_is w i) g fs) v" if "owned fs v" for v
  proof -
    obtain f where "f \<in> set fs" "f_id f = fv_flowId v" "f_workspaceId f = fv_workspaceId v"
      using \<open>owned fs v\<close> by (auto simp: owned_def)
    then show ?thesis using g [of f] by (auto simp: owned_def update_where_bex intro!: bexI [of _ f])
  qed
  then show ?thesis
    using assms by (simp add: graph_inv_def id update_where_ball)
qed

lemma graph_insert_version:
  assumes "graph_inv is_uuid is_email vs fs" "fv_id v \<notin> fv_id ` set vs" "fv_publishedAt v = None"
    and "flowDefinitionSchema is_uuid is_email (fv_definition v)" "owned fs v"
  shows "graph_inv is_uuid is_email (vs @ [v]) fs"
proof -
  have "flow_ok (vs @ [v]) f" if "flow_ok vs f" for f
  proof -
    have "has_version (vs @ [v]) (f_workspaceId f) (f_id f) p x" if "has_version vs (f_workspaceId f) (f_id f) p x" for p x
      using that by (auto simp: has_version_def)
    then show ?thesis
      using that assms(3) by (auto simp: flow_ok_def elim!: option.pred_mono_strong)
  qed
  then show ?thesis using assms by (auto simp: graph_inv_def version_ok_def)
qed

text \<open>The definition of a draft.\<close>

lemma set_definition_keeps:
  assumes "graph_inv is_uuid is_email vs fs" "has_version vs w f False d"
  shows "published_kept vs (update_where (version_is w d) (\<lambda>r. r\<lparr>fv_definition := def\<rparr>) vs)"
proof -
  obtain v0 where v0: "v0 \<in> set vs" "fv_id v0 = d" "fv_publishedAt v0 = None"
    using assms(2) by (auto simp: has_version_def)
  have "\<not> version_is w d v" if "v \<in> set vs" "fv_publishedAt v \<noteq> None" for v
    using that version_eq [OF assms(1) that(1) v0(1)] v0(2,3) by (auto simp: version_is_def)
  then show ?thesis by (auto simp: published_kept_def update_where_def image_iff)
qed

lemma graph_set_definition:
  assumes inv: "graph_inv is_uuid is_email vs fs" and d: "has_version vs w i False d"
    and schema: "flowDefinitionSchema is_uuid is_email def"
  shows "graph_inv is_uuid is_email (update_where (version_is w d) (\<lambda>r. r\<lparr>fv_definition := def\<rparr>) vs) fs"
proof -
  let ?vs = "update_where (version_is w d) (\<lambda>r. r\<lparr>fv_definition := def\<rparr>) vs"
  have id: "map fv_id ?vs = map fv_id vs" by (rule map_update_where) simp
  have has: "has_version ?vs = has_version vs"
    by (intro ext) (simp add: has_version_def update_where_bex if_distrib [of fv_id] if_distrib [of fv_workspaceId]
        if_distrib [of fv_flowId] if_distrib [of fv_publishedAt] cong: if_cong)
  obtain v0 where v0: "v0 \<in> set vs" "fv_id v0 = d" "fv_publishedAt v0 = None"
    using d by (auto simp: has_version_def)
  have "version_ok is_uuid is_email (if version_is w d v then v\<lparr>fv_definition := def\<rparr> else v)" if "v \<in> set vs" for v
    using inv schema that version_eq [OF inv that v0(1)] v0(2,3)
    by (auto simp: graph_inv_def version_ok_def version_is_def)
  then have "\<forall>v \<in> set ?vs. version_ok is_uuid is_email v" by (simp add: update_where_ball)
  moreover have "\<forall>v \<in> set ?vs. owned fs v"
    using inv by (simp add: update_where_ball graph_inv_def owned_def)
  moreover have "flow_ok ?vs f" if "flow_ok vs f" for f
    using that by (simp add: flow_ok_def has update_where_ball)
  ultimately show ?thesis using inv by (simp add: graph_inv_def id)
qed


text \<open>The publication: the draft is stamped and becomes the live version.\<close>

lemma stamp_keeps:
  assumes "graph_inv is_uuid is_email vs fs" "has_version vs w f False d"
  shows "published_kept vs (update_where (version_is w d) (\<lambda>r. r\<lparr>fv_publishedAt := Some now\<rparr>) vs)"
proof -
  obtain v0 where v0: "v0 \<in> set vs" "fv_id v0 = d" "fv_publishedAt v0 = None"
    using assms(2) by (auto simp: has_version_def)
  have "\<not> version_is w d v" if "v \<in> set vs" "fv_publishedAt v \<noteq> None" for v
    using that version_eq [OF assms(1) that(1) v0(1)] v0(2,3) by (auto simp: version_is_def)
  then show ?thesis by (auto simp: published_kept_def update_where_def image_iff)
qed

lemma graph_publish:
  assumes inv: "graph_inv is_uuid is_email vs fs" and d: "has_version vs w i False d"
    and valid: "\<And>v. v \<in> set vs \<Longrightarrow> fv_id v = d \<Longrightarrow> validateFlowDefinition (fv_definition v) = Some []"
    and g: "\<And>f. f_id (g f) = f_id f \<and> f_workspaceId (g f) = f_workspaceId f \<and> f_liveVersionId (g f) = Some d
        \<and> f_draftVersionId (g f) = None"
  shows "graph_inv is_uuid is_email (update_where (version_is w d) (\<lambda>r. r\<lparr>fv_publishedAt := Some now\<rparr>) vs)
    (update_where (flow_is w i) g fs)"
proof -
  let ?p = "\<lambda>r. r\<lparr>fv_publishedAt := Some now\<rparr>"
  let ?vs = "update_where (version_is w d) ?p vs" and ?fs = "update_where (flow_is w i) g fs"
  obtain v where v: "v \<in> set vs" "fv_id v = d" "fv_workspaceId v = w" "fv_flowId v = i"
    using d by (auto simp: has_version_def)
  have only: "x = v" if "x \<in> set vs" "version_is w d x" for x
    using that version_eq [OF inv that(1) v(1)] v(2) by (simp add: version_is_def)
  have pv: "?p v \<in> set ?vs" using v by (auto simp: update_where_def version_is_def image_iff)
  have "map fv_id ?vs = map fv_id vs" "map f_id ?fs = map f_id fs"
    using g by (auto intro: map_update_where)
  moreover have "owned ?fs x" if "owned fs x" for x
    using that g unfolding owned_def update_where_bex by auto
  then have "\<forall>x \<in> set ?vs. version_ok is_uuid is_email x \<and> owned ?fs x"
    using inv only valid [OF v(1,2)]
    unfolding update_where_ball by (auto simp: graph_inv_def version_ok_def owned_def)
  moreover have "flow_ok ?vs (if flow_is w i f then g f else f)" if f: "f \<in> set fs" for f
  proof (cases "flow_is w i f")
    case True
    then show ?thesis using g [of f] pv v
      by (auto simp: flow_ok_def has_version_def flow_is_def intro!: bexI [of _ "?p v"])
  next
    case False
    obtain f' where "f' \<in> set fs" "f_id f' = i" "f_workspaceId f' = w"
      using inv v by (auto simp: graph_inv_def owned_def)
    then have "f_id f \<noteq> i" using False flow_eq [OF inv f] by (auto simp: flow_is_def)
    then have "flow_ok ?vs f = flow_ok vs f"
      using only v(4) by (intro flow_ok_local) (force simp: update_where_def)
    then show ?thesis using False inv f by (simp add: graph_inv_def)
  qed
  then have "\<forall>f \<in> set ?fs. flow_ok ?vs f" by (simp add: update_where_ball)
  ultimately show ?thesis using inv by (simp add: graph_inv_def)
qed

lemma graph_insert_flow:
  assumes inv: "graph_inv is_uuid is_email vs fs" and "f_id f \<notin> f_id ` set fs" "fv_id v \<notin> fv_id ` set vs"
    and v: "fv_publishedAt v = None" "fv_flowId v = f_id f" "fv_workspaceId v = f_workspaceId f"
      "flowDefinitionSchema is_uuid is_email (fv_definition v)"
    and f: "f_draftVersionId f = Some (fv_id v)" "f_liveVersionId f = None" "f_status f = FlowDraft"
  shows "graph_inv is_uuid is_email (vs @ [v]) (fs @ [f])"
proof -
  have new: "fv_flowId x \<noteq> f_id f" if "x \<in> set vs" for x
  proof -
    have "owned fs x" using that inv by (simp add: graph_inv_def)
    then show ?thesis using assms(2) unfolding owned_def by (metis image_eqI)
  qed
  have "flow_ok (vs @ [v]) x = flow_ok vs x" if "x \<in> set fs" for x
  proof -
    have "f_id x \<noteq> f_id f" using that assms(2) by (metis image_eqI)
    then show ?thesis using v(2) by (intro flow_ok_local) auto
  qed
  moreover have "flow_ok (vs @ [v]) f"
    using v f new by (auto simp: flow_ok_def has_version_def)
  ultimately show ?thesis
    using inv assms(2,3) v by (auto simp: graph_inv_def version_ok_def owned_def)
qed

lemma graph_delete:
  assumes "graph_inv is_uuid is_email vs fs"
  shows "graph_inv is_uuid is_email (delete_where (\<lambda>v. fv_flowId v = i) vs) (delete_where (\<lambda>f. f_id f = i) fs)"
proof -
  have "flow_ok (delete_where (\<lambda>v. fv_flowId v = i) vs) f = flow_ok vs f" if "f_id f \<noteq> i" for f
    using that by (intro flow_ok_local) auto
  moreover have "owned (delete_where (\<lambda>f. f_id f = i) fs) v" if "owned fs v" "fv_flowId v \<noteq> i" for v
    using that by (auto simp: owned_def)
  ultimately show ?thesis
    using assms by (simp add: graph_inv_def delete_where_def distinct_map_filter)
qed

lemma runs_delete:
  assumes "runs_inv vs rs"
  shows "runs_inv (delete_where (\<lambda>v. fv_flowId v = i) vs) (delete_where (\<lambda>r. fr_flowId r = i) rs)"
proof -
  have "run_ok (delete_where (\<lambda>v. fv_flowId v = i) vs) r" if "run_ok vs r" "fr_flowId r \<noteq> i" for r
    using that by (auto elim: run_ok_mono)
  then show ?thesis
    using assms unique_key_delete [of active_key rs] by (auto simp: runs_inv_def delete_where_def distinct_map_filter)
qed

section \<open>The writes of the runs\<close>

lemma unique_key_shrink:
  "list_all2 (\<lambda>x y. k y = k x \<or> k y = None) t t' \<Longrightarrow> unique_key k t \<Longrightarrow> unique_key k t'"
proof (induction rule: list_all2_induct)
  case (Cons x xs y ys)
  have sub: "\<exists>a \<in> set xs. k a = k z" if "z \<in> set ys" "k z \<noteq> None" for z
    using Cons.hyps(2) that by (fastforce simp: list_all2_conv_all_nth in_set_conv_nth)
  have "unique_key k xs" using Cons.prems by (auto simp: unique_key_def split: if_splits)
  then have "unique_key k ys" by (rule Cons.IH)
  then show ?case
    using Cons.prems Cons.hyps(1) sub by (force simp: unique_key_def image_iff split: if_splits)
qed simp

lemma runs_related:
  assumes "runs_inv vs rs" "list_all2 R rs rs'"
    and R: "\<And>x y. R x y \<Longrightarrow> fr_id y = fr_id x \<and> (active_key y = active_key x \<or> active_key y = None)"
    and ok: "\<And>x y. R x y \<Longrightarrow> run_ok vs x \<Longrightarrow> run_ok vs y"
  shows "runs_inv vs rs'"
proof -
  have "map fr_id rs' = map fr_id rs"
    using assms(2) R by (auto simp: list_all2_conv_all_nth intro!: nth_equalityI)
  moreover have "unique_key active_key rs'"
    by (rule unique_key_shrink [OF list_all2_mono [OF assms(2)]]) (use R assms(1) in \<open>auto simp: runs_inv_def\<close>)
  moreover have "run_ok vs y" if "y \<in> set rs'" for y
    using that assms(1,2) ok by (force simp: runs_inv_def list_all2_conv_all_nth in_set_conv_nth)
  ultimately show ?thesis using assms(1) by (simp add: runs_inv_def)
qed

lemma runs_append:
  "runs_inv vs rs \<Longrightarrow> fr_id r \<notin> fr_id ` set rs \<Longrightarrow> \<forall>x \<in> set rs. active_key x \<noteq> active_key r \<Longrightarrow> run_ok vs r \<Longrightarrow>
   runs_inv vs (rs @ [r])"
  by (auto simp: runs_inv_def intro: unique_key_append)


section \<open>The editors keep the invariant\<close>

lemma getFlow_Some: "getFlow w i db = Some f \<Longrightarrow> f \<in> set (t_flows db) \<and> f_workspaceId f = w \<and> f_id f = i"
  by (auto simp: getFlow_def flow_is_def dest: find_Some_iff_mem)

lemma version_definition_cases:
  obtains (none) "version_definition w x db = EMPTY_DEFINITION"
  | (some) v where "v \<in> set (t_flowVersions db)" "version_definition w x db = fv_definition v"
proof (cases "Option.bind x (\<lambda>i. getPinnedVersion w i db)")
  case (Some v)
  then have "v \<in> set (t_flowVersions db)"
    by (auto simp: getPinnedVersion_def bind_eq_Some_conv dest!: find_Some_iff_mem)
  then show ?thesis using some Some by (simp add: version_definition_def)
qed (use none in \<open>simp add: version_definition_def\<close>)

lemma version_schema:
  "graph_inv is_uuid is_email (t_flowVersions db) fs \<Longrightarrow> flowDefinitionSchema is_uuid is_email (version_definition w x db)"
  by (rule version_definition_cases [of w x db])
    (auto simp: EMPTY_DEFINITION_def flowDefinitionSchema_def [of _ _ "\<lparr>fd_nodes = _, fd_edges = _\<rparr>"] graph_inv_def version_ok_def)

lemma version_definition_of:
  assumes "graph_inv is_uuid is_email (t_flowVersions db) fs" "v \<in> set (t_flowVersions db)" "fv_id v = d" "fv_workspaceId v = w"
  shows "version_definition w (Some d) db = fv_definition v"
proof -
  have "getPinnedVersion w d db = Some v"
  proof (cases "getPinnedVersion w d db")
    case (Some v')
    then have "v' \<in> set (t_flowVersions db)" "fv_id v' = d"
      by (auto simp: getPinnedVersion_def version_is_def dest!: find_Some_iff_mem)
    then show ?thesis using Some version_eq [OF assms(1) _ assms(2)] assms(3) by simp
  qed (use assms in \<open>auto simp: getPinnedVersion_def find_None_mem version_is_def\<close>)
  then show ?thesis by (simp add: version_definition_def)
qed

lemma insert_flow_inv:
  assumes inv: "flow_inv is_uuid is_email db"
    and "f_id f \<notin> f_id ` set (t_flows db)" "v \<notin> fv_id ` set (t_flowVersions db)"
    and f: "f_liveVersionId f = None" "f_status f = FlowDraft" and schema: "flowDefinitionSchema is_uuid is_email def"
  shows "flow_inv is_uuid is_email (insert_flow_with_draft now f v def db)"
    and "published_kept (t_flowVersions db) (t_flowVersions (insert_flow_with_draft now f v def db))"
proof -
  let ?v = "new_version now v (f_workspaceId f) (f_id f) 1 def"
  let ?f = "f\<lparr>f_draftVersionId := Some v, f_updatedAt := now\<rparr>"
  have idle: "update_where (flow_is (f_workspaceId f) (f_id f)) g (t_flows db) = t_flows db" for g
    using assms(2) unfolding flow_is_def by (intro update_where_idle) (metis image_eqI)
  have tables: "t_flows (insert_flow_with_draft now f v def db) = t_flows db @ [?f]"
    "t_flowVersions (insert_flow_with_draft now f v def db) = t_flowVersions db @ [?v]"
    "t_flowRuns (insert_flow_with_draft now f v def db) = t_flowRuns db"
    by (simp_all add: insert_flow_with_draft_def write_flow_def insert_version_def update_where_append idle flow_is_def)
  show kept: "published_kept (t_flowVersions db) (t_flowVersions (insert_flow_with_draft now f v def db))"
    by (simp add: tables published_kept_def)
  have "graph_inv is_uuid is_email (t_flowVersions db @ [?v]) (t_flows db @ [?f])"
    using assms by (intro graph_insert_flow) (auto simp: flow_inv_def new_version_def)
  then show "flow_inv is_uuid is_email (insert_flow_with_draft now f v def db)"
    using inv runs_inv_mono [OF _ kept, of "t_flowRuns db"] by (simp add: flow_inv_def tables)
qed

text \<open>The changes of state that leave the identity, the versions and the status discipline of a flow.\<close>

lemma write_flow_inv:
  assumes "flow_inv is_uuid is_email db"
    and "\<And>f. f \<in> set (t_flows db) \<Longrightarrow> flow_is w i f \<Longrightarrow>
      f_id (g f) = f_id f \<and> f_workspaceId (g f) = f_workspaceId f \<and> flow_ok (t_flowVersions db) (g f)"
  shows "flow_inv is_uuid is_email (write_flow w i g db)"
  using assms graph_write [of is_uuid is_email "t_flowVersions db" "t_flows db" w i g]
  by (simp add: flow_inv_def write_flow_def)

lemma pauseFlow_inv:
  assumes "flow_inv is_uuid is_email db" "pauseFlow now w i db = Inr db'"
  shows "flow_inv is_uuid is_email db'" "t_flowVersions db' = t_flowVersions db"
proof -
  obtain f where f: "getFlow w i db = Some f" "f_status f = FlowLive"
    and db': "db' = write_flow w i (\<lambda>f. f\<lparr>f_status := FlowPaused, f_updatedAt := now\<rparr>) db"
    using assms(2) by (auto simp: pauseFlow_def split: option.splits if_splits)
  have "x = f" if "x \<in> set (t_flows db)" "flow_is w i x" for x
    using that getFlow_Some [OF f(1)] assms(1) flow_eq [of is_uuid is_email _ "t_flows db" x f]
    by (auto simp: flow_inv_def flow_is_def)
  then show "flow_inv is_uuid is_email db'"
    unfolding db' using assms(1) f getFlow_Some [OF f(1)]
    by (intro write_flow_inv) (auto simp: flow_inv_def graph_inv_def flow_ok_def)
  show "t_flowVersions db' = t_flowVersions db" by (simp add: db' write_flow_def)
qed

lemma resumeFlow_inv:
  assumes "flow_inv is_uuid is_email db" "resumeFlow now w i db = Inr db'"
  shows "flow_inv is_uuid is_email db'" "t_flowVersions db' = t_flowVersions db"
proof -
  obtain f where f: "getFlow w i db = Some f" "f_status f = FlowPaused"
    and db': "db' = write_flow w i (\<lambda>f. f\<lparr>f_status := FlowLive, f_updatedAt := now\<rparr>) db"
    using assms(2) by (auto simp: resumeFlow_def split: option.splits if_splits)
  have "x = f" if "x \<in> set (t_flows db)" "flow_is w i x" for x
    using that getFlow_Some [OF f(1)] assms(1) flow_eq [of is_uuid is_email _ "t_flows db" x f]
    by (auto simp: flow_inv_def flow_is_def)
  then show "flow_inv is_uuid is_email db'"
    unfolding db' using assms(1) f getFlow_Some [OF f(1)]
    by (intro write_flow_inv) (auto simp: flow_inv_def graph_inv_def flow_ok_def)
  show "t_flowVersions db' = t_flowVersions db" by (simp add: db' write_flow_def)
qed


lemma updateFlowDraft_inv:
  assumes inv: "flow_inv is_uuid is_email db" and v: "v \<notin> fv_id ` set (t_flowVersions db)"
    and schema: "\<forall>d. up_definition patch = Some d \<longrightarrow> flowDefinitionSchema is_uuid is_email d"
    and run: "updateFlowDraft now v w i patch db = Inr db'"
  shows "flow_inv is_uuid is_email db'" "published_kept (t_flowVersions db) (t_flowVersions db')"
proof -
  have g: "graph_inv is_uuid is_email (t_flowVersions db) (t_flows db)" using inv by (simp add: flow_inv_def)
  obtain f where f: "getFlow w i db = Some f" using run by (auto simp: updateFlowDraft_def split: option.splits)
  note f' = getFlow_Some [OF f]
  obtain db1 d where w1: "working_draft now v w f db = (db1, d)" by (cases "working_draft now v w f db")
  have ok: "flow_ok (t_flowVersions db) f" using g f' by (simp add: graph_inv_def)
  have 1: "graph_inv is_uuid is_email (t_flowVersions db1) (t_flows db1)" "has_version (t_flowVersions db1) w i False d"
    "published_kept (t_flowVersions db) (t_flowVersions db1)" "t_flows db1 = t_flows db" "t_flowRuns db1 = t_flowRuns db"
  proof -
    let ?v = "new_version now v w (f_id f) (nextVersionNumber w (f_id f) db) (version_definition w (f_liveVersionId f) db)"
    have "graph_inv is_uuid is_email (t_flowVersions db @ [?v]) (t_flows db)"
      by (rule graph_insert_version [OF g]) (use v f' version_schema [OF g] in \<open>auto simp: new_version_def owned_def\<close>)
    then show "graph_inv is_uuid is_email (t_flowVersions db1) (t_flows db1)"
      using w1 g by (auto simp: working_draft_def insert_version_def split: option.splits)
    show "has_version (t_flowVersions db1) w i False d"
      using w1 ok f' by (auto simp: working_draft_def insert_version_def flow_ok_def has_version_def new_version_def split: option.splits)
  qed (use w1 in \<open>auto simp: working_draft_def insert_version_def published_kept_def split: option.splits\<close>)
  define db2 where "db2 = set_definition w d (up_definition patch) db1"
  have 2: "graph_inv is_uuid is_email (t_flowVersions db2) (t_flows db)" "has_version (t_flowVersions db2) w i False d"
    "published_kept (t_flowVersions db) (t_flowVersions db2)" "t_flows db2 = t_flows db" "t_flowRuns db2 = t_flowRuns db"
  proof -
    let ?u = "\<lambda>x. update_where (version_is w d) (\<lambda>r. r\<lparr>fv_definition := x\<rparr>) (t_flowVersions db1)"
    have h: "has_version (?u x) w i False d" for x
      using 1(2) by (auto simp: has_version_def update_where_bex)
    show "graph_inv is_uuid is_email (t_flowVersions db2) (t_flows db)"
      using 1 schema graph_set_definition [OF 1(1,2)] by (auto simp: db2_def set_definition_def split: option.splits)
    show "has_version (t_flowVersions db2) w i False d"
      using 1(2) h by (auto simp: db2_def set_definition_def split: option.splits)
    show "published_kept (t_flowVersions db) (t_flowVersions db2)"
      using 1(3) set_definition_keeps [OF 1(1,2)]
      by (fastforce simp: db2_def set_definition_def published_kept_def split: option.splits)
  qed (use 1(4,5) in \<open>auto simp: db2_def set_definition_def split: option.splits\<close>)
  obtain tc where db': "db' = write_flow w i (\<lambda>_. patched now patch d tc f) db2"
    using run by (auto simp: updateFlowDraft_def f w1 db2_def [symmetric] Let_def split: if_splits)
  have "x = f" if "x \<in> set (t_flows db)" "flow_is w i x" for x
    using that f' flow_eq [OF g, of x f] by (auto simp: flow_is_def)
  moreover have "flow_ok (t_flowVersions db2) (patched now patch d tc f)"
  proof -
    have "flow_ok (t_flowVersions db2) f" using 2(1) f' by (simp add: graph_inv_def)
    then show ?thesis using 2(2) f' by (simp add: flow_ok_def patched_def)
  qed
  moreover have "flow_inv is_uuid is_email db2"
    using 2(1,4,5) inv runs_inv_mono [OF _ 2(3)] by (simp add: flow_inv_def)
  ultimately show "flow_inv is_uuid is_email db'"
    unfolding db' by (intro write_flow_inv) (auto simp: 2(4) patched_def)
  show "published_kept (t_flowVersions db) (t_flowVersions db')" using 2(3) by (simp add: db' write_flow_def)
qed

lemma seedSnapshot_tables:
  "t_flows (seedSnapshotOnly now i m db) = t_flows db \<and> t_flowVersions (seedSnapshotOnly now i m db) = t_flowVersions db
    \<and> t_flowRuns (seedSnapshotOnly now i m db) = t_flowRuns db"
proof -
  have "t_flows (fold (\<lambda>c. markSeen now (ct_workspaceId c) i (ct_id c)) cs db) = t_flows db
      \<and> t_flowVersions (fold (\<lambda>c. markSeen now (ct_workspaceId c) i (ct_id c)) cs db) = t_flowVersions db
      \<and> t_flowRuns (fold (\<lambda>c. markSeen now (ct_workspaceId c) i (ct_id c)) cs db) = t_flowRuns db" for cs
    by (induction cs arbitrary: db) (simp_all add: markSeen_def)
  then show ?thesis by (simp add: seedSnapshotOnly_def)
qed

lemma validate_returns: "\<exists>errs. validateFlowDefinition def = Some errs"
  using graph_errors_returns [of def] by (auto simp: validateFlowDefinition_def Let_def)

lemma publishFlow_inv:
  assumes inv: "flow_inv is_uuid is_email db" and run: "publishFlow env w i enroll db = Inr (db', t)"
  shows "flow_inv is_uuid is_email db'" "published_kept (t_flowVersions db) (t_flowVersions db')"
proof -
  have g: "graph_inv is_uuid is_email (t_flowVersions db) (t_flows db)" using inv by (simp add: flow_inv_def)
  obtain f d where f: "getFlow w i db = Some f" "f_draftVersionId f = Some d"
    using run by (auto simp: publishFlow_def split: option.splits)
  note f' = getFlow_Some [OF f(1)]
  have d: "has_version (t_flowVersions db) w i False d" using g f' f(2) by (auto simp: graph_inv_def flow_ok_def)
  define def where "def = version_definition w (Some d) db"
  let ?tc = "extractTriggerColumns def"
  let ?g = "\<lambda>f'. f'\<lparr>f_liveVersionId := Some d, f_draftVersionId := None,
     f_status := (if f_status f = FlowPaused then FlowPaused else FlowLive), f_triggerType := tc_triggerType ?tc,
     f_triggerEventName := tc_triggerEventName ?tc, f_triggerSegmentId := tc_triggerSegmentId ?tc, f_updatedAt := en_now env\<rparr>"
  let ?db = "write_flow w i ?g (snapshotDraftToVersion (en_now env) w d db)"
  have "the (validateFlowDefinition def) = []"
    using run by (auto simp: publishFlow_def f def_def [symmetric] Let_def split: if_splits)
  then have valid: "validateFlowDefinition def = Some []" using validate_returns [of def] by auto
  have db': "t_flows db' = t_flows ?db \<and> t_flowVersions db' = t_flowVersions ?db \<and> t_flowRuns db' = t_flowRuns ?db"
    using run by (auto simp: publishFlow_def f def_def [symmetric] Let_def seedMembershipSnapshotAtomic_def
        seedSnapshot_tables split: if_splits option.splits sum.splits)
  have tables: "t_flowVersions ?db = update_where (version_is w d) (\<lambda>r. r\<lparr>fv_publishedAt := Some (en_now env)\<rparr>) (t_flowVersions db)"
    "t_flows ?db = update_where (flow_is w i) ?g (t_flows db)"
    by (simp_all add: write_flow_def snapshotDraftToVersion_def)
  have "graph_inv is_uuid is_email (t_flowVersions ?db) (t_flows ?db)"
    unfolding tables
  proof (rule graph_publish [OF g d])
    fix v assume v: "v \<in> set (t_flowVersions db)" "fv_id v = d"
    obtain v0 where v0: "v0 \<in> set (t_flowVersions db)" "fv_id v0 = d" "fv_workspaceId v0 = w"
      using d by (auto simp: has_version_def)
    have "v = v0" by (rule version_eq [OF g v(1) v0(1)]) (simp add: v(2) v0(2))
    then have "fv_workspaceId v = w" using v0(3) by simp
    then show "validateFlowDefinition (fv_definition v) = Some []"
      using valid version_definition_of [OF g v] by (simp add: def_def)
  qed simp
  moreover have kept: "published_kept (t_flowVersions db) (t_flowVersions ?db)"
    using stamp_keeps [OF g d, of "en_now env"] by (simp add: write_flow_def snapshotDraftToVersion_def)
  moreover have "t_flowRuns ?db = t_flowRuns db" by (simp add: write_flow_def snapshotDraftToVersion_def)
  ultimately show "flow_inv is_uuid is_email db'"
    using inv runs_inv_mono [OF _ kept] by (simp add: flow_inv_def db')
  show "published_kept (t_flowVersions db) (t_flowVersions db')" using kept by (simp add: db')
qed

lemma deleteFlow_inv:
  assumes "flow_inv is_uuid is_email db" "deleteFlow w i db = Inr (db', b)"
  shows "flow_inv is_uuid is_email db'"
  using assms graph_delete [of is_uuid is_email "t_flowVersions db" "t_flows db" i]
    runs_delete [of "t_flowVersions db" "t_flowRuns db" i]
  by (auto simp: deleteFlow_def delete_flow_rows_def flow_inv_def Let_def split: option.splits if_splits)


section \<open>The steps of the runs keep the invariant\<close>

lemma enterable_live:
  "flow_inv is_uuid is_email db \<Longrightarrow> f \<in> set (t_flows db) \<Longrightarrow> f_workspaceId f = w \<Longrightarrow> f_liveVersionId f \<noteq> None \<Longrightarrow>
   enterable db w (live_flow_of f)"
  by (auto simp: flow_inv_def graph_inv_def flow_ok_def has_version_def enterable_def live_flow_of_def)

lemma entry_from_trigger:
  assumes g: "graph_inv is_uuid is_email (t_flowVersions db) fs" and v: "v \<in> set (t_flowVersions db)" "fv_workspaceId v = w"
    and n: "loadEntryNodeId db w (fv_id v) = Some n"
  shows "from_trigger (fv_definition v) n"
proof -
  obtain x where find: "find (\<lambda>r. fv_id r = fv_id v \<and> fv_workspaceId r = w) (t_flowVersions db) = Some x"
    using n by (auto simp: loadEntryNodeId_def split: option.splits)
  then have x: "x \<in> set (t_flowVersions db)" "fv_id x = fv_id v" by (auto dest: find_Some_iff_mem)
  obtain t where t: "find is_trigger (fd_nodes (fv_definition x)) = Some t" "resolveNextNodeId (fv_definition x) (node_id t) = Some n"
    using n find by (auto simp: loadEntryNodeId_def split: option.splits)
  have "x = v" by (rule version_eq [OF g x(1) v(1) x(2)])
  then show ?thesis
    using find_Some_iff_mem [OF t(1)] resolveNextNodeId_edge [OF t(2)] by (auto simp: from_trigger_def)
qed

definition entered_by :: "(uuid \<Rightarrow> uuid \<Rightarrow> uuid) \<Rightarrow> uuid \<Rightarrow> flow_run_row \<Rightarrow> bool" where
  "entered_by newId w r =
     (fr_id r = newId (fr_flowId r) (fr_contactId r) \<and> fr_workspaceId r = w \<and> run_active r)"

lemma enters_inv:
  assumes "enters now newId w P s s'" "\<And>flow. P flow \<Longrightarrow> enterable (e_db s) w flow"
    and fresh: "fresh_runs (e_db s) newId" and inv: "flow_inv is_uuid is_email (e_db s)"
  shows "flow_inv is_uuid is_email (e_db s')
    \<and> (\<forall>r \<in> set (t_flowRuns (e_db s')). r \<in> set (t_flowRuns (e_db s)) \<or> entered_by newId w r)"
  using assms(1)
proof (induction rule: enters.induct)
  case stay
  then show ?case using inv by simp
next
  case (seen s' f c)
  then show ?case
    using flow_inv_same [of "markSeen now w f c (e_db s')" "e_db s'" is_uuid is_email]
    by (simp add: engine_simps markSeen_def)
next
  case (enter s' flow c)
  let ?n = "loadEntryNodeId (e_db s') w (lf_liveVersionId flow)" and ?i = "newId (lf_id flow) c"
  let ?r = "new_run ?i now w (lf_id flow) (lf_liveVersionId flow) c ?n"
  note IH = enter.IH
  show ?case
  proof (rule enter_if_allowed_cases [of now w flow c s' ?i ?n])
    assume ok: "canEnterFlow now w (lf_id flow) c (lf_reentryMode flow) (lf_reentryWindowDays flow) (e_db s') = EntryAllowed"
      and s'': "enter_if_allowed now ?i w flow ?n c s' = enqueueFlowRunAdvance now w ?i None
           (on_db (\<lambda>db. db\<lparr>t_flowRuns := t_flowRuns db @ [?r]\<rparr>) s')"
    have idle: "\<not> run_active r" if "r \<in> set (t_flowRuns (e_db s'))" "fr_workspaceId r = w" "fr_flowId r = lf_id flow"
      "fr_contactId r = c" for r
      using canEnter_no_active [OF ok, of r] that by (simp add: runs_of_def)
    have "?i \<noteq> fr_id r" if r: "r \<in> set (t_flowRuns (e_db s'))" for r
    proof (cases "r \<in> set (t_flowRuns (e_db s))")
      case True
      then show ?thesis using fresh unfolding fresh_runs_def by (metis image_eqI)
    next
      case False
      then have "entered_by newId w r" using IH r by blast
      then show ?thesis using fresh idle [OF r] unfolding fresh_runs_def entered_by_def by metis
    qed
    moreover obtain v where v: "v \<in> set (t_flowVersions (e_db s))" "fv_id v = lf_liveVersionId flow"
      "fv_workspaceId v = w" "fv_flowId v = lf_id flow" "fv_publishedAt v \<noteq> None"
      using assms(2) [OF enter.hyps(2)] by (auto simp: enterable_def)
    have vs: "t_flowVersions (e_db s') = t_flowVersions (e_db s)" by (rule enters_tables [OF enter.hyps(1)])
    have "graph_inv is_uuid is_email (t_flowVersions (e_db s')) (t_flows (e_db s'))"
      using IH by (simp add: flow_inv_def)
    then have "from_trigger (fv_definition v) n" if "?n = Some n" for n
      by (rule entry_from_trigger [where v = v and w = w]) (use that v vs in simp_all)
    then have "run_ok (t_flowVersions (e_db s')) ?r"
      using v vs by (cases ?n) (auto simp: run_ok_def new_run_def intro!: bexI [of _ v])
    ultimately have "runs_inv (t_flowVersions (e_db s')) (t_flowRuns (e_db s') @ [?r])"
      using IH idle by (intro runs_append) (auto simp: flow_inv_def active_key_def new_run_def run_active_def)
    moreover have "entered_by newId w ?r" by (simp add: entered_by_def new_run_def run_active_def)
    ultimately show ?thesis using IH by (auto simp: s'' engine_simps flow_inv_def)
  qed (use IH in simp)
qed

lemma from_trigger_step: "from_trigger def i \<Longrightarrow> (i, m) \<in> edge_rel (fd_edges def) \<Longrightarrow> from_trigger def m"
  unfolding from_trigger_def by (meson rtrancl.rtrancl_into_rtrancl)

lemma advance_inv:
  assumes inv: "flow_inv is_uuid is_email (e_db s)" and run: "processFlowRunAdvance env w r s = Inr s'"
  shows "flow_inv is_uuid is_email (e_db s')" "t_flowVersions (e_db s') = t_flowVersions (e_db s)"
    "t_flows (e_db s') = t_flows (e_db s)"
proof -
  let ?vs = "t_flowVersions (e_db s)"
  have g: "graph_inv is_uuid is_email ?vs (t_flows (e_db s))" and rs: "runs_inv ?vs (t_flowRuns (e_db s))"
    using inv by (simp_all add: flow_inv_def)
  obtain steps where follows: "list_all2 (run_follows (e_db s) w) (t_flowRuns (e_db s)) (t_flowRuns (e_db s'))"
    and db': "e_db s' = (e_db s)\<lparr>t_flowRuns := t_flowRuns (e_db s'), t_flowRunSteps := t_flowRunSteps (e_db s) @ steps\<rparr>"
    by (rule advance_runs_follow [OF run]) (use rs in \<open>auto simp: runs_inv_def\<close>)
  show tables: "t_flowVersions (e_db s') = ?vs" "t_flows (e_db s') = t_flows (e_db s)"
    by (subst db', simp)+
  have "run_ok ?vs y" if f: "run_follows (e_db s) w x y" and x: "run_ok ?vs x" for x y
  proof -
    obtain v where v: "v \<in> set ?vs" "fv_id v = fr_flowVersionId x" "fv_workspaceId v = fr_workspaceId x"
      "fv_flowId v = fr_flowId x" "fv_publishedAt v \<noteq> None" "pred_option (from_trigger (fv_definition v)) (fr_currentNodeId x)"
      using x by (auto simp: run_ok_def)
    have "def = fv_definition v" if pin: "loadPinnedDefinition (e_db s) w (fr_flowVersionId x) = Inr def" for def
    proof -
      obtain u where u: "u \<in> set ?vs" "fv_id u = fr_flowVersionId x" "def = fv_definition u"
        using pin by (auto simp: loadPinnedDefinition_def dest!: find_Some_iff_mem split: option.splits)
      have "u = v" by (rule version_eq [OF g u(1) v(1)]) (simp add: u(2) v(2))
      then show ?thesis using u(3) by simp
    qed
    then have "pred_option (from_trigger (fv_definition v)) (fr_currentNodeId y)"
      using f v(6) by (auto simp: run_follows_def intro: from_trigger_step)
    then show ?thesis using f v by (auto simp: run_follows_def run_ok_def)
  qed
  then have "runs_inv ?vs (t_flowRuns (e_db s'))"
    by (intro runs_related [OF rs follows]) (auto simp: run_follows_def active_key_def)
  then show "flow_inv is_uuid is_email (e_db s')" using g by (simp add: flow_inv_def tables)
qed

lemma ejectRuns_inv:
  assumes "flow_inv is_uuid is_email db" "ejectRuns now w i runIds contactIds db = (db', n)"
  shows "flow_inv is_uuid is_email db'" "t_flowVersions db' = t_flowVersions db" "t_flows db' = t_flows db"
proof -
  obtain p where db': "db' = db\<lparr>t_flowRuns := update_where p (end_run RunEjected ''ejected'' now) (t_flowRuns db)\<rparr>"
    using assms(2) by (auto simp: ejectRuns_def Let_def)
  have "runs_inv (t_flowVersions db) (t_flowRuns db')"
  proof (rule runs_related [where R = "\<lambda>x y. y = x \<or> y = end_run RunEjected ''ejected'' now x"])
    show "list_all2 (\<lambda>x y. y = x \<or> y = end_run RunEjected ''ejected'' now x) (t_flowRuns db) (t_flowRuns db')"
      by (simp add: db' update_where_def list_all2_conv_all_nth)
  qed (use assms(1) in \<open>auto simp: flow_inv_def end_run_def active_key_def run_active_def run_ok_def\<close>)
  then show "flow_inv is_uuid is_email db'" using assms(1) by (simp add: flow_inv_def db')
qed (use assms(2) in \<open>auto simp: ejectRuns_def Let_def\<close>)

lemma write_cursor_inv:
  assumes "flow_inv is_uuid is_email db"
  shows "flow_inv is_uuid is_email (write_cursor now w i k db)"
proof -
  have "write_cursor now w i k db = write_flow w i (\<lambda>f. f\<lparr>f_enrollCursor := k, f_updatedAt := now\<rparr>) db"
    unfolding write_cursor_def write_flow_def flow_is_def by (rule HOL.refl)
  moreover have "flow_ok (t_flowVersions db) (f\<lparr>f_enrollCursor := k, f_updatedAt := now\<rparr>)" if "f \<in> set (t_flows db)" for f
    using that assms by (simp add: flow_inv_def graph_inv_def flow_ok_def)
  ultimately show ?thesis using assms by (simp add: write_flow_inv)
qed

lemma reconcile_db: "e_db (reconcile_runs now rows s) = e_db s"
  by (induction rows arbitrary: s) (simp_all add: engine_simps)

lemma upsert_checkpoint_flows [engine_simps]: "t_flows (upsert_checkpoint now w f k db) = t_flows db"
  by (simp add: upsert_checkpoint_def)

text \<open>What every step but a deletion does: the invariant and every published version stay.\<close>

lemma flow_step_keeps:
  assumes "flow_step is_uuid is_email s s'" "flow_inv is_uuid is_email (e_db s)"
  shows "flow_inv is_uuid is_email (e_db s')
    \<and> (published_kept (t_flowVersions (e_db s)) (t_flowVersions (e_db s'))
       \<or> (\<exists>w i b. deleteFlow w i (e_db s) = Inr (e_db s', b)))"
  using assms
proof (cases rule: flow_step.cases)
  case (create i v now w name user)
  have "flowDefinitionSchema is_uuid is_email EMPTY_DEFINITION"
    by (simp add: EMPTY_DEFINITION_def flowDefinitionSchema_def)
  then show ?thesis
    using insert_flow_inv [OF assms(2), of "new_flow now i w name user" v EMPTY_DEFINITION now] create
    by (simp add: engine_simps createFlow_def new_flow_def)
next
  case (edit v patch now w i db)
  then show ?thesis using updateFlowDraft_inv [OF assms(2)] by auto
next
  case (publish env w i enroll db t)
  then show ?thesis using publishFlow_inv [OF assms(2)] by auto
next
  case (pause now w i db)
  then show ?thesis using pauseFlow_inv [OF assms(2)] by (auto simp: published_kept_def)
next
  case (resume now w i db)
  then show ?thesis using resumeFlow_inv [OF assms(2)] by (auto simp: published_kept_def)
next
  case (duplicate j v now w i user db)
  obtain f where f: "db = insert_flow_with_draft now f v
      (version_definition w (coalesce (f_draftVersionId (the (getFlow w i (e_db s)))) (f_liveVersionId (the (getFlow w i (e_db s))))) (e_db s)) (e_db s)"
    "f_id f = j" "f_liveVersionId f = None" "f_status f = FlowDraft"
    using duplicate(4) by (auto simp: duplicateFlow_def Let_def new_flow_def split: option.splits if_splits)
  have "graph_inv is_uuid is_email (t_flowVersions (e_db s)) (t_flows (e_db s))"
    using assms(2) by (simp add: flow_inv_def)
  from version_schema [OF this] show ?thesis
    using insert_flow_inv [OF assms(2), of f v _ now] duplicate(1-3) f by simp
next
  case (delete w i db b)
  then show ?thesis using deleteFlow_inv [OF assms(2)] by auto
next
  case (eject now w i runIds contactIds db n)
  then show ?thesis using ejectRuns_inv [OF assms(2)] by (auto simp: published_kept_def)
next
  case (trigger newId env w c ev)
  have "enters (en_now env) newId w (enterable (e_db s) w) s s'"
    by (rule processFlowTriggerCheck_enters [OF _ trigger(2)]) (rule enterable_live [OF assms(2)])
  then show ?thesis
    using enters_inv [OF _ _ trigger(1) assms(2)] by (auto simp: published_kept_def enters_tables)
next
  case (enroll newId w flow env cs k)
  obtain s1 k' where "enters (en_now env) newId w (\<lambda>x. x = flow) s s1"
    "s' = on_db (write_cursor (en_now env) w (lf_id flow) k') s1"
    using enroll(1) enrollBatch_enters [of env newId w flow s cs k] by metis
  then show ?thesis
    using enters_inv [OF _ _ enroll(2) assms(2)] enroll(3) write_cursor_inv
    by (auto simp: published_kept_def enters_tables engine_simps)
next
  case (sweep newId w flow env cs k)
  obtain s1 k' where "enters (en_now env) newId w (\<lambda>x. x = flow) s s1"
    "s' = on_db (upsert_checkpoint (en_now env) w (lf_id flow) k') s1"
    using sweep(1) sweepOneFlowPage_enters [of env newId w flow s cs k] by metis
  then show ?thesis
    using enters_inv [OF _ _ sweep(2) assms(2)] sweep(3)
      flow_inv_same [of "upsert_checkpoint (en_now env) w (lf_id flow) k' (e_db s1)" "e_db s1" is_uuid is_email]
    by (auto simp: published_kept_def enters_tables engine_simps)
next
  case (drain w i m)
  then show ?thesis
    using assms(2) flow_inv_same [of "e_db s'" "e_db s" is_uuid is_email]
    by (simp add: engine_simps deleteStaleSnapshotBatch_def published_kept_def)
next
  case (seed now i m)
  then show ?thesis
    using assms(2) flow_inv_same [of "e_db s'" "e_db s" is_uuid is_email]
    by (simp add: engine_simps seedSnapshot_tables published_kept_def)
next
  case (advance env w r)
  then show ?thesis using advance_inv [OF assms(2)] by (auto simp: published_kept_def)
next
  case (nudge now)
  then show ?thesis using assms(2) by (simp add: flowReconciliationTick_def reconcile_db published_kept_def)
qed


lemma deleteFlow_cases:
  assumes "deleteFlow w i db = Inr (db', b)"
  obtains (absent) "getFlow w i db = None" "db' = db"
  | (deleted) f where "getFlow w i db = Some f" "db' = delete_flow_rows i db"
      "f_liveVersionId f = None \<and> f_status f = FlowDraft \<or> activeRunCount w i db = 0"
  using assms by (auto simp: deleteFlow_def split: option.splits if_splits)

lemma delete_flow_tables:
  "t_flows (delete_flow_rows i db) = delete_where (\<lambda>f. f_id f = i) (t_flows db)"
  "t_flowVersions (delete_flow_rows i db) = delete_where (\<lambda>v. fv_flowId v = i) (t_flowVersions db)"
  "t_flowRuns (delete_flow_rows i db) = delete_where (\<lambda>r. fr_flowId r = i) (t_flowRuns db)"
  by (simp_all add: delete_flow_rows_def Let_def)

section \<open>Properties\<close>

lemma flow_steps_inv:
  "(flow_step is_uuid is_email)\<^sup>*\<^sup>* s s' \<Longrightarrow> flow_inv is_uuid is_email (e_db s) \<Longrightarrow> flow_inv is_uuid is_email (e_db s')"
  by (induction rule: rtranclp_induct) (auto dest: flow_step_keeps)

text \<open>C11: the flow subsystem stays well-formed. Whatever the editors, the triggers, the back-fills, the
  sweeps, the runs and the reconciliation do, and in whatever order, every flow has a draft and a live
  version of its own or lacks them as its status says, what is published has passed the validator, every run is
  pinned to a published version of its flow and stands at a node that its trigger leads to, and no
  contact has two active runs in a flow.\<close>

theorem flow_system_well_formed:
  assumes "(flow_step is_uuid is_email)\<^sup>*\<^sup>* s s'" "flow_inv is_uuid is_email (e_db s)"
  shows "flow_inv is_uuid is_email (e_db s')"
  by (rule flow_steps_inv [OF assms])

text \<open>C12: a published version is immutable: as long as its flow is not deleted, it stays in the database as
  it was published, whatever is edited and published after it.\<close>

theorem published_version_immutable:
  assumes "(\<lambda>s s'. flow_step is_uuid is_email s s' \<and> fv_flowId v \<in> f_id ` set (t_flows (e_db s')))\<^sup>*\<^sup>* s s'"
    and "flow_inv is_uuid is_email (e_db s)" "v \<in> set (t_flowVersions (e_db s))" "fv_publishedAt v \<noteq> None"
  shows "v \<in> set (t_flowVersions (e_db s'))"
proof -
  have "flow_inv is_uuid is_email (e_db s') \<and> v \<in> set (t_flowVersions (e_db s'))"
    using assms(1)
  proof (induction rule: rtranclp_induct)
    case (step t u)
    note keeps = flow_step_keeps [of is_uuid is_email t u]
    have "v \<in> set (t_flowVersions (e_db u))"
    proof (cases "published_kept (t_flowVersions (e_db t)) (t_flowVersions (e_db u))")
      case False
      then obtain w i b where "deleteFlow w i (e_db t) = Inr (e_db u, b)" using keeps step by blast
      then show ?thesis using step by (cases rule: deleteFlow_cases) (auto simp: delete_flow_tables)
    qed (use step assms(4) in \<open>auto simp: published_kept_def\<close>)
    then show ?case using keeps step by blast
  qed (use assms in simp)
  then show ?thesis ..
qed

lemma active_run_flow:
  assumes inv: "flow_inv is_uuid is_email db" and f: "getFlow w i db = Some f"
    and r: "r \<in> set (t_flowRuns db)" "fr_flowId r = i"
  shows "fr_workspaceId r = w" "f_liveVersionId f \<noteq> None"
proof -
  note f' = getFlow_Some [OF f]
  have g: "graph_inv is_uuid is_email (t_flowVersions db) (t_flows db)" using inv by (simp add: flow_inv_def)
  obtain v where v: "v \<in> set (t_flowVersions db)" "fv_workspaceId v = fr_workspaceId r" "fv_flowId v = i" "fv_publishedAt v \<noteq> None"
    using inv r by (auto simp: flow_inv_def runs_inv_def run_ok_def)
  obtain f2 where "f2 \<in> set (t_flows db)" "f_id f2 = i" "f_workspaceId f2 = fv_workspaceId v"
    using g v by (auto simp: graph_inv_def owned_def)
  then have "f_workspaceId f = fv_workspaceId v" using flow_eq [OF g, of f f2] f' by simp
  then show "fr_workspaceId r = w" using f' v by simp
  show "f_liveVersionId f \<noteq> None" using g f' v by (auto simp: graph_inv_def flow_ok_def)
qed

text \<open>No run is lost with its flow. A deletion that goes through takes no active run with it, in
  any state that the flow subsystem can reach: a draft that was never published has none, and a paused
  flow is deleted only after its runs have ended.\<close>

theorem deletion_spares_active_runs:
  assumes "(flow_step is_uuid is_email)\<^sup>*\<^sup>* s\<^sub>0 s" "flow_inv is_uuid is_email (e_db s\<^sub>0)"
    and "deleteFlow w i (e_db s) = Inr (db', b)"
  shows "filter run_active (t_flowRuns db') = filter run_active (t_flowRuns (e_db s))"
proof -
  have inv: "flow_inv is_uuid is_email (e_db s)" by (rule flow_steps_inv [OF assms(1,2)])
  show ?thesis
    using assms(3)
  proof (cases rule: deleteFlow_cases)
    case (deleted f)
    have "\<not> run_active r" if r: "r \<in> set (t_flowRuns (e_db s))" "fr_flowId r = i" for r
      using deleted(3) r active_run_flow [OF inv deleted(1) r] by (auto simp: activeRunCount_def row_count_zero)
    then show ?thesis by (auto simp: deleted(2) delete_flow_tables delete_where_def intro!: filter_cong)
  qed simp
qed



section \<open>Witnesses\<close>

lemma example_inv: "flow_inv (\<lambda>s. True) (\<lambda>s. True) example_db"
proof -
  have edge: "(''n0'', ''n1'') \<in> edge_rel (fd_edges example_flow_definition)"
    by (simp add: edge_rel_def example_defs)
  have "from_trigger example_flow_definition ''n1''"
    using edge unfolding from_trigger_def
    by (intro bexI [of _ "fd_nodes example_flow_definition ! 0"]) (auto simp: example_defs)
  then show ?thesis
    using example_flow_valid(1,2)
    by (simp add: flow_inv_def graph_inv_def runs_inv_def flow_ok_def has_version_def version_ok_def owned_def
        run_ok_def unique_key_def active_key_def example_db_def empty_crm_def example_flow_def example_flow_run_def)
qed

lemma flow_system_well_formed_witness:
  "\<exists>s'. processFlowRunAdvance example_env ''w1'' ''r1'' example_engine = Inr s' \<and> e_emailQueue s' \<noteq> []
     \<and> flow_inv (\<lambda>s. True) (\<lambda>s. True) (e_db s')"
proof -
  obtain s' where s': "processFlowRunAdvance example_env ''w1'' ''r1'' example_engine = Inr s'"
    "e_emailQueue s' \<noteq> e_emailQueue example_engine"
    using example_step by blast
  have "(flow_step (\<lambda>s. True) (\<lambda>s. True))\<^sup>*\<^sup>* example_engine s'"
    using flow_step.advance [OF s'(1)] by blast
  from flow_system_well_formed [OF this] s' show ?thesis
    using example_inv by (simp add: example_engine_def)
qed

text \<open>The live flow is edited: its draft is a copy, and the published version stays as it is.\<close>

definition example_patch :: UpdateFlowDraftInput where
  "example_patch = \<lparr>up_name = None, up_definition = Some EMPTY_DEFINITION, up_reentryMode = None,
     up_reentryWindowDays = None, up_quietHoursMode = None, up_quietHoursStart = None, up_quietHoursEnd = None,
     up_exitConditions = None\<rparr>"

lemma published_version_immutable_witness:
  "\<exists>db. updateFlowDraft 100 ''v2'' ''w1'' ''f1'' example_patch example_db = Inr db
     \<and> length (t_flowVersions db) = 2 \<and> t_flowVersions example_db ! 0 \<in> set (t_flowVersions db)"
proof -
  obtain db where db: "updateFlowDraft 100 ''v2'' ''w1'' ''f1'' example_patch example_db = Inr db"
    "length (t_flowVersions db) = 2" "''f1'' \<in> f_id ` set (t_flows db)"
    by (simp add: updateFlowDraft_def getFlow_def flow_is_def working_draft_def insert_version_def new_version_def
        nextVersionNumber_def version_definition_def getPinnedVersion_def version_is_def set_definition_def patched_def
        segment_fk_def write_flow_def example_patch_def example_db_def empty_crm_def example_flow_def Let_def)
  have "flow_step (\<lambda>s. True) (\<lambda>s. True) example_engine (example_engine\<lparr>e_db := db\<rparr>)"
    by (rule flow_step.edit [where v = "''v2''" and patch = example_patch and now = 100 and w = "''w1''" and i = "''f1''"])
      (use db(1) in \<open>simp_all add: example_patch_def EMPTY_DEFINITION_def flowDefinitionSchema_def example_engine_def
        example_db_def empty_crm_def\<close>)
  then have "(\<lambda>s s'. flow_step (\<lambda>s. True) (\<lambda>s. True) s s' \<and>
      fv_flowId (t_flowVersions example_db ! 0) \<in> f_id ` set (t_flows (e_db s')))\<^sup>*\<^sup>* example_engine (example_engine\<lparr>e_db := db\<rparr>)"
    using db(3) by (intro r_into_rtranclp) (simp add: example_db_def)
  from published_version_immutable [OF this] show ?thesis
    using db example_inv by (simp add: example_engine_def) (simp add: example_db_def)
qed

text \<open>A second flow, never published, is deleted beside the live one and its run.\<close>

definition example_two :: crm where
  "example_two = example_db\<lparr>t_flows := [example_flow, new_flow 0 ''f2'' ''w1'' ''draft'' ''u1'']\<rparr>"

lemma deletion_spares_active_runs_witness:
  "\<exists>db. deleteFlow ''w1'' ''f2'' example_two = Inr (db, True) \<and> filter run_active (t_flowRuns db) = [example_flow_run]"
proof -
  let ?s = "\<lparr>e_db = example_two, e_advanceQueue = [], e_emailQueue = []\<rparr>"
  have "flow_inv (\<lambda>s. True) (\<lambda>s. True) example_two"
    using example_inv
    by (simp add: flow_inv_def graph_inv_def flow_ok_def owned_def example_two_def new_flow_def example_db_def
        empty_crm_def example_flow_def)
  moreover obtain db where db: "deleteFlow ''w1'' ''f2'' example_two = Inr (db, True)"
    by (simp add: deleteFlow_def getFlow_def flow_is_def example_two_def new_flow_def example_flow_def)
  ultimately have "filter run_active (t_flowRuns db) = filter run_active (t_flowRuns (e_db ?s))"
    by (intro deletion_spares_active_runs [where s = ?s and s\<^sub>0 = ?s]) auto
  then show ?thesis
    using db by (simp add: example_two_def example_db_def example_flow_run_def run_active_def)
qed


end
