(* ===== verification/Campaigns.thy ===== *)
theory Campaigns
  imports Send_Dispatch Uuid_Order
begin

text \<open>
  The life of a campaign as its editors and the clock drive it: the repository
  \<open>apps/api/src/modules/campaigns/campaign.repository.ts\<close>, the resolution of a sender
  (\<open>sender-resolver.ts\<close>), the launch and schedule routes (\<open>campaigns.routes.ts\<close>), the scheduler
  (\<open>apps/worker/src/queues/campaign-scheduler.worker.ts\<close>) and the restoration of a workspace
  (\<open>packages/db/src/workspace-restore.ts\<close>). Each operation is one transaction under the lock of the
  campaign's row: it throws (\<open>Inl\<close>) and changes nothing, or commits. Authentication, permissions and the
  validation of request bodies are not modelled; identifiers that the database makes up are arguments.
\<close>

section \<open>Errors and rows\<close>

text \<open>\<open>CampaignStateError\<close> with its code, and the violation of the foreign key of \<open>segment_id\<close>.\<close>

datatype CampaignStateError =
    StateNotFound
  | StateIllegalTransition
  | StateIncomplete
  | StateVersionConflict (currentVersion: nat)
  | SegmentKeyViolation

definition getCampaign :: "uuid \<Rightarrow> uuid \<Rightarrow> crm \<Rightarrow> campaign_row option" where
  "getCampaign workspaceId i db = find (visible_campaign workspaceId i) (l_campaigns db)"

text \<open>\<open>UPDATE campaigns SET \<dots> WHERE workspace_id = $1 AND id = $2 RETURNING \<dots>\<close>.\<close>

definition write_campaign :: "uuid \<Rightarrow> uuid \<Rightarrow> (campaign_row \<Rightarrow> campaign_row) \<Rightarrow> crm \<Rightarrow> crm" where
  "write_campaign workspaceId i g db =
     db\<lparr>l_campaigns := update_where (visible_campaign workspaceId i) g (l_campaigns db)\<rparr>"

text \<open>The locked read, the check, and the write of one operation: \<open>check\<close> refuses a row or says how it
  is rewritten.\<close>

definition locked_update ::
  "uuid \<Rightarrow> uuid \<Rightarrow> (campaign_row \<Rightarrow> CampaignStateError + (campaign_row \<Rightarrow> campaign_row)) \<Rightarrow> crm
     \<Rightarrow> CampaignStateError + (campaign_row \<times> crm)" where
  "locked_update workspaceId i check db =
     (case getCampaign workspaceId i db of
        None \<Rightarrow> Inl StateNotFound
      | Some existing \<Rightarrow>
          (case check existing of
             Inl e \<Rightarrow> Inl e
           | Inr g \<Rightarrow> Inr (g existing, write_campaign workspaceId i g db)))"

text \<open>\<open>version = version + 1, updated_at = now()\<close>, part of every editor's write.\<close>

definition bumped :: "instant \<Rightarrow> campaign_row \<Rightarrow> campaign_row" where
  "bumped now c = c\<lparr>c_version := c_version c + 1, c_updatedAt := now\<rparr>"

lemma getCampaign_update:
  assumes "\<And>c. p c \<Longrightarrow> c_id (f c) = c_id c \<and> c_workspaceId (f c) = c_workspaceId c"
  shows "getCampaign w i (db\<lparr>l_campaigns := update_where p f (l_campaigns db)\<rparr>) =
    map_option (\<lambda>c. if p c then f c else c) (getCampaign w i db)"
proof -
  have "visible_campaign w i (f c) = visible_campaign w i c" if "p c" for c
    using assms [OF that] by (simp add: visible_campaign_def)
  then have "find (visible_campaign w i) (update_where p f t) =
      map_option (\<lambda>c. if p c then f c else c) (find (visible_campaign w i) t)" for t
    by (induction t) auto
  then show ?thesis by (simp add: getCampaign_def)
qed

lemma getCampaign_SomeD: "getCampaign w i db = Some c \<Longrightarrow> c \<in> set (l_campaigns db) \<and> visible_campaign w i c"
  unfolding getCampaign_def by (rule find_Some_iff_mem)

section \<open>Drafts\<close>

definition new_campaign ::
  "instant \<Rightarrow> uuid \<Rightarrow> uuid \<Rightarrow> string \<Rightarrow> uuid \<Rightarrow> string option \<Rightarrow> string option \<Rightarrow> string option \<Rightarrow> string option
     \<Rightarrow> string \<Rightarrow> campaign_row" where
  "new_campaign now i workspaceId name segmentId templateId fromSenderId fromEmail fromName createdByUserId =
     \<lparr>c_id = i, c_workspaceId = workspaceId, c_name = name, c_status = CDraft, c_segmentId = segmentId,
      c_templateId = templateId, c_fromSenderId = fromSenderId, c_fromEmail = fromEmail, c_fromName = fromName,
      c_scheduledAt = None, c_sendableTotal = None, c_sentCount = 0, c_failedCount = 0, c_version = 1,
      c_excludedTotal = None, c_snapshotCursor = None, c_fanOutComplete = False, c_sendingStartedAt = None,
      c_terminalAt = None, c_deliveredCount = 0, c_openedCount = 0, c_clickedCount = 0, c_bouncedCount = 0,
      c_unsubscribedCount = 0, c_createdByUserId = createdByUserId, c_createdAt = now, c_updatedAt = now\<rparr>"

definition insert_campaign :: "campaign_row \<Rightarrow> crm \<Rightarrow> CampaignStateError + (campaign_row \<times> crm)" where
  "insert_campaign c db =
     (if segment_fk (Some (c_segmentId c)) db then Inr (c, db\<lparr>l_campaigns := l_campaigns db @ [c]\<rparr>)
      else Inl SegmentKeyViolation)"

record CreateCampaignInput =
  cc_name :: string
  cc_segmentId :: uuid
  cc_templateId :: "string option"
  cc_fromSenderId :: "string option"
  cc_fromEmail :: "string option"
  cc_createdByUserId :: string

definition createCampaign ::
  "instant \<Rightarrow> uuid \<Rightarrow> uuid \<Rightarrow> CreateCampaignInput \<Rightarrow> crm \<Rightarrow> CampaignStateError + (campaign_row \<times> crm)" where
  "createCampaign now newId workspaceId input db =
     insert_campaign (new_campaign now newId workspaceId (cc_name input) (cc_segmentId input) (cc_templateId input)
       (cc_fromSenderId input) (cc_fromEmail input) None (cc_createdByUserId input)) db"

record ListCampaignsResult =
  lc_items :: "campaign_row list"
  lc_total :: nat

definition listCampaigns :: "uuid \<Rightarrow> nat \<Rightarrow> nat \<Rightarrow> crm \<Rightarrow> ListCampaignsResult" where
  "listCampaigns workspaceId page pageSize db =
     (let rows = filter (\<lambda>c. c_workspaceId c = workspaceId) (l_campaigns db)
      in \<lparr>lc_items = take pageSize (drop ((page - 1) * pageSize) (sort_key (\<lambda>c. - c_createdAt c) rows)),
          lc_total = length rows\<rparr>)"

text \<open>An absent field of a patch keeps the value; a nullable one may be set to null.\<close>

record UpdateCampaignInput =
  uc_name :: "string option"
  uc_segmentId :: "uuid option"
  uc_templateId :: "string option option"
  uc_fromSenderId :: "string option option"
  uc_fromEmail :: "string option option"

definition edited :: "instant \<Rightarrow> UpdateCampaignInput \<Rightarrow> campaign_row \<Rightarrow> campaign_row" where
  "edited now patch c = bumped now
     (c\<lparr>c_name := nullish (uc_name patch) (c_name c),
        c_segmentId := nullish (uc_segmentId patch) (c_segmentId c),
        c_templateId := nullish (uc_templateId patch) (c_templateId c),
        c_fromSenderId := nullish (uc_fromSenderId patch) (c_fromSenderId c),
        c_fromEmail := nullish (uc_fromEmail patch) (c_fromEmail c),
        c_fromName := (if uc_fromSenderId patch \<noteq> None \<or> uc_fromEmail patch \<noteq> None then None
                       else c_fromName c)\<rparr>)"

definition updateCampaign ::
  "instant \<Rightarrow> uuid \<Rightarrow> uuid \<Rightarrow> UpdateCampaignInput \<Rightarrow> crm \<Rightarrow> CampaignStateError + (campaign_row \<times> crm)" where
  "updateCampaign now workspaceId i patch db = locked_update workspaceId i
     (\<lambda>existing. if c_status existing \<noteq> CDraft then Inl StateIllegalTransition
        else if \<not> segment_fk (Some (c_segmentId (edited now patch existing))) db then Inl SegmentKeyViolation
        else Inr (edited now patch)) db"

definition duplicateCampaign ::
  "instant \<Rightarrow> uuid \<Rightarrow> uuid \<Rightarrow> uuid \<Rightarrow> string \<Rightarrow> crm \<Rightarrow> CampaignStateError + (campaign_row \<times> crm)" where
  "duplicateCampaign now newId workspaceId i createdByUserId db =
     (case getCampaign workspaceId i db of
        None \<Rightarrow> Inl StateNotFound
      | Some c \<Rightarrow>
          insert_campaign (new_campaign now newId workspaceId (c_name c) (c_segmentId c) (c_templateId c)
            (c_fromSenderId c) (c_fromEmail c) (c_fromName c) createdByUserId) db)"

text \<open>The deletion cascades to the recipients and clears the campaign of the ledger's rows.\<close>

definition deleteCampaign :: "uuid \<Rightarrow> uuid \<Rightarrow> crm \<Rightarrow> CampaignStateError + (bool \<times> crm)" where
  "deleteCampaign workspaceId i db =
     (case getCampaign workspaceId i db of
        None \<Rightarrow> Inr (False, db)
      | Some existing \<Rightarrow>
          if c_status existing \<noteq> CDraft \<and> c_status existing \<noteq> CCanceled then Inl StateIllegalTransition
          else Inr (row_count (visible_campaign workspaceId i) (l_campaigns db) > 0,
             db\<lparr>l_campaigns := delete_where (visible_campaign workspaceId i) (l_campaigns db),
                t_recipients := delete_where (\<lambda>r. rc_campaignId r = i) (t_recipients db),
                l_sends := update_where (\<lambda>r. s_campaignId r = Some i) (\<lambda>r. r\<lparr>s_campaignId := None\<rparr>) (l_sends db)\<rparr>))"

section \<open>Launch, schedule, cancel\<close>

text \<open>\<open>lo_resolvedFromName\<close> is \<open>None\<close> where the options do not have the key.\<close>

record LaunchCampaignOptions =
  lo_expectedVersion :: nat
  lo_resolvedFromEmail :: "string option"
  lo_resolvedFromName :: "string option option"

definition with_sender :: "LaunchCampaignOptions \<Rightarrow> campaign_row \<Rightarrow> campaign_row" where
  "with_sender opts c =
     c\<lparr>c_fromEmail := coalesce (lo_resolvedFromEmail opts) (c_fromEmail c),
       c_fromName := nullish (lo_resolvedFromName opts) (c_fromName c)\<rparr>"

definition launchable :: "campaign_row \<Rightarrow> bool" where
  "launchable c =
     (truthy (c_templateId c) \<and> (truthy (c_fromEmail c) \<or> truthy (c_fromSenderId c)) \<and> truthy (Some (c_segmentId c)))"

definition launched_row :: "instant \<Rightarrow> LaunchCampaignOptions \<Rightarrow> campaign_row \<Rightarrow> campaign_row" where
  "launched_row now opts c = bumped now (with_sender opts (c\<lparr>c_status := CSending, c_sendingStartedAt := Some now\<rparr>))"

definition launchCampaign ::
  "instant \<Rightarrow> uuid \<Rightarrow> uuid \<Rightarrow> LaunchCampaignOptions \<Rightarrow> crm \<Rightarrow> CampaignStateError + (campaign_row \<times> crm)" where
  "launchCampaign now workspaceId i opts = locked_update workspaceId i
     (\<lambda>existing. if c_status existing \<noteq> CDraft then Inl StateIllegalTransition
        else if c_version existing \<noteq> lo_expectedVersion opts then Inl (StateVersionConflict (c_version existing))
        else if \<not> launchable existing then Inl StateIncomplete
        else Inr (launched_row now opts))"

definition scheduled_row :: "instant \<Rightarrow> instant \<Rightarrow> LaunchCampaignOptions \<Rightarrow> campaign_row \<Rightarrow> campaign_row" where
  "scheduled_row now scheduledAt opts c =
     bumped now (with_sender opts (c\<lparr>c_status := CScheduled, c_scheduledAt := Some scheduledAt\<rparr>))"

definition scheduleCampaign ::
  "instant \<Rightarrow> uuid \<Rightarrow> uuid \<Rightarrow> instant \<Rightarrow> LaunchCampaignOptions \<Rightarrow> crm
     \<Rightarrow> CampaignStateError + (campaign_row \<times> crm)" where
  "scheduleCampaign now workspaceId i scheduledAt opts = locked_update workspaceId i
     (\<lambda>existing. if c_status existing \<noteq> CDraft then Inl StateIllegalTransition
        else if c_version existing \<noteq> lo_expectedVersion opts then Inl (StateVersionConflict (c_version existing))
        else Inr (scheduled_row now scheduledAt opts))"

definition cancelCampaign ::
  "instant \<Rightarrow> uuid \<Rightarrow> uuid \<Rightarrow> crm \<Rightarrow> CampaignStateError + (campaign_row \<times> crm)" where
  "cancelCampaign now workspaceId i = locked_update workspaceId i
     (\<lambda>existing. if c_status existing = CScheduled
        then Inr (\<lambda>c. bumped now (c\<lparr>c_status := CDraft, c_scheduledAt := None\<rparr>))
        else if c_status existing = CSending
        then Inr (\<lambda>c. bumped now (c\<lparr>c_status := CCanceled, c_terminalAt := Some now\<rparr>))
        else Inl StateIllegalTransition)"

text \<open>A test send checks the version and never the status; its write happens only where it changes
  the sender.\<close>

definition prepareCampaignTestSend ::
  "instant \<Rightarrow> uuid \<Rightarrow> uuid \<Rightarrow> LaunchCampaignOptions \<Rightarrow> crm \<Rightarrow> CampaignStateError + (campaign_row \<times> crm)" where
  "prepareCampaignTestSend now workspaceId i opts = locked_update workspaceId i
     (\<lambda>existing.
        let effectiveFromEmail = coalesce (lo_resolvedFromEmail opts) (c_fromEmail existing);
            effectiveFromName = nullish (lo_resolvedFromName opts) (c_fromName existing)
        in if c_version existing \<noteq> lo_expectedVersion opts then Inl (StateVersionConflict (c_version existing))
           else if \<not> truthy (c_templateId existing) then Inl StateIncomplete
           else if \<not> truthy effectiveFromEmail then Inl StateIncomplete
           else Inr (\<lambda>c. if c_fromEmail c \<noteq> effectiveFromEmail \<or> c_fromName c \<noteq> effectiveFromName
             then bumped now (c\<lparr>c_fromEmail := effectiveFromEmail, c_fromName := effectiveFromName\<rparr>)
             else c))"

section \<open>Progress\<close>

record CampaignProgress =
  pr_status :: CampaignStatus
  pr_sentCount :: nat
  pr_failedCount :: nat
  pr_sendableTotal :: "nat option"
  pr_excludedTotal :: "nat option"
  pr_deliveredCount :: nat
  pr_openedCount :: nat
  pr_clickedCount :: nat
  pr_bouncedCount :: nat
  pr_unsubscribedCount :: nat
  pr_ledger :: "(SendStatus \<times> nat) list"
  pr_excludedBreakdown :: "(string option \<times> nat) list"

definition campaign_send :: "uuid \<Rightarrow> uuid \<Rightarrow> send_row \<Rightarrow> bool" where
  "campaign_send workspaceId campaignId r = (s_workspaceId r = workspaceId \<and> s_campaignId r = Some campaignId)"

definition getCampaignProgress :: "uuid \<Rightarrow> uuid \<Rightarrow> crm \<Rightarrow> CampaignProgress option" where
  "getCampaignProgress workspaceId i db =
     map_option (\<lambda>c.
       \<lparr>pr_status = c_status c, pr_sentCount = c_sentCount c, pr_failedCount = c_failedCount c,
        pr_sendableTotal = c_sendableTotal c, pr_excludedTotal = c_excludedTotal c,
        pr_deliveredCount = c_deliveredCount c, pr_openedCount = c_openedCount c,
        pr_clickedCount = c_clickedCount c, pr_bouncedCount = c_bouncedCount c,
        pr_unsubscribedCount = c_unsubscribedCount c,
        pr_ledger = map (\<lambda>st. (st, row_count (\<lambda>r. campaign_send workspaceId i r \<and> s_status r = st) (l_sends db)))
                      SEND_STATUSES,
        pr_excludedBreakdown = audienceExclusionBreakdown workspaceId i db\<rparr>)
       (getCampaign workspaceId i db)"

section \<open>The sender of a campaign\<close>

text \<open>What SendGrid answers to a key: its verified senders, or \<open>None\<close> where the key is not valid.\<close>

record SendGridVerifiedSender =
  vs_id :: string
  vs_fromEmail :: string
  vs_fromName :: "string option"

datatype CampaignSenderError = SenderNotFound | SenderNoKey | SenderKeyUndecryptable

record ResolvedCampaignSender =
  rs_fromEmail :: string
  rs_fromName :: "string option"

definition trimmed_name :: "string option \<Rightarrow> string option" where
  "trimmed_name n = (let t = map_option js_trim n in if truthy t then t else None)"

definition resolveCampaignSender ::
  "runtime \<Rightarrow> (string \<Rightarrow> SendGridVerifiedSender list option) \<Rightarrow> crm \<Rightarrow> uuid \<Rightarrow> campaign_row
     \<Rightarrow> CampaignSenderError + ResolvedCampaignSender" where
  "resolveCampaignSender rt validate db workspaceId campaign =
     (if \<not> truthy (c_fromSenderId campaign) then
        (if truthy (c_fromEmail campaign)
         then Inr \<lparr>rs_fromEmail = nullish (c_fromEmail campaign) [], rs_fromName = None\<rparr>
         else Inl SenderNotFound)
      else (case t_sendgridKeys db workspaceId of
              None \<Rightarrow> Inl SenderNoKey
            | Some row \<Rightarrow>
                (case rt_decrypt rt workspaceId row of
                   None \<Rightarrow> Inl SenderKeyUndecryptable
                 | Some apiKey \<Rightarrow>
                     (case validate apiKey of
                        None \<Rightarrow> Inl SenderNoKey
                      | Some senders \<Rightarrow>
                          (case find (\<lambda>s. Some (vs_id s) = c_fromSenderId campaign) senders of
                             None \<Rightarrow> Inl SenderNotFound
                           | Some matched \<Rightarrow>
                               Inr \<lparr>rs_fromEmail = vs_fromEmail matched,
                                    rs_fromName = trimmed_name (vs_fromName matched)\<rparr>)))))"

section \<open>The kickoff queue and the routes that feed it\<close>

text \<open>A job is added under the campaign's id; an id the queue still knows, waiting or finished, makes
  the addition a no-op. A Redis failure makes it throw.\<close>

record kickoff_queue =
  kq_known :: "uuid list"
  kq_waiting :: "(uuid \<times> uuid) list"

definition add_kickoff :: "uuid \<Rightarrow> uuid \<Rightarrow> kickoff_queue \<Rightarrow> kickoff_queue" where
  "add_kickoff workspaceId campaignId q =
     (if campaignId \<in> set (kq_known q) then q
      else \<lparr>kq_known = kq_known q @ [campaignId], kq_waiting = kq_waiting q @ [(workspaceId, campaignId)]\<rparr>)"

datatype route_error =
    RouteWorkspaceNotFound
  | RouteState CampaignStateError
  | RouteSender CampaignSenderError
  | RouteNotInFuture
  | RouteQueueFailed

text \<open>The sender, resolved from a read outside the lock and only where the campaign names one.\<close>

definition resolved_options ::
  "runtime \<Rightarrow> (string \<Rightarrow> SendGridVerifiedSender list option) \<Rightarrow> uuid \<Rightarrow> uuid \<Rightarrow> nat \<Rightarrow> crm
     \<Rightarrow> CampaignSenderError + LaunchCampaignOptions" where
  "resolved_options rt validate workspaceId i expectedVersion db =
     (let unresolved = \<lparr>lo_expectedVersion = expectedVersion, lo_resolvedFromEmail = None,
                        lo_resolvedFromName = Some None\<rparr>
      in case getCampaign workspaceId i db of
           None \<Rightarrow> Inr unresolved
         | Some c \<Rightarrow>
             if truthy (c_fromSenderId c) \<or> truthy (c_fromEmail c)
             then map_sum id (\<lambda>s. unresolved\<lparr>lo_resolvedFromEmail := Some (rs_fromEmail s),
                                              lo_resolvedFromName := Some (rs_fromName s)\<rparr>)
                    (resolveCampaignSender rt validate db workspaceId c)
             else Inr unresolved)"

definition launchRoute ::
  "runtime \<Rightarrow> (string \<Rightarrow> SendGridVerifiedSender list option) \<Rightarrow> instant \<Rightarrow> bool \<Rightarrow> uuid \<Rightarrow> uuid \<Rightarrow> nat
     \<Rightarrow> crm \<times> kickoff_queue \<Rightarrow> (route_error + campaign_row) \<times> crm \<times> kickoff_queue" where
  "launchRoute rt validate now redisUp workspaceId i expectedVersion s =
     (if isWorkspaceSoftDeleted (fst s) workspaceId then (Inl RouteWorkspaceNotFound, s)
      else case resolved_options rt validate workspaceId i expectedVersion (fst s) of
        Inl e \<Rightarrow> (Inl (RouteSender e), s)
      | Inr opts \<Rightarrow>
          (case launchCampaign now workspaceId i opts (fst s) of
             Inl e \<Rightarrow> (Inl (RouteState e), s)
           | Inr (launched, db) \<Rightarrow>
               if redisUp then (Inr launched, db, add_kickoff workspaceId i (snd s))
               else (Inl RouteQueueFailed, db, snd s)))"

definition scheduleRoute ::
  "runtime \<Rightarrow> (string \<Rightarrow> SendGridVerifiedSender list option) \<Rightarrow> instant \<Rightarrow> instant \<Rightarrow> uuid \<Rightarrow> uuid \<Rightarrow> nat
     \<Rightarrow> crm \<Rightarrow> (route_error + campaign_row) \<times> crm" where
  "scheduleRoute rt validate now scheduledAt workspaceId i expectedVersion db =
     (if isWorkspaceSoftDeleted db workspaceId then (Inl RouteWorkspaceNotFound, db)
      else if scheduledAt \<le> now then (Inl RouteNotInFuture, db)
      else case resolved_options rt validate workspaceId i expectedVersion db of
        Inl e \<Rightarrow> (Inl (RouteSender e), db)
      | Inr opts \<Rightarrow>
          (case scheduleCampaign now workspaceId i scheduledAt opts db of
             Inl e \<Rightarrow> (Inl (RouteState e), db)
           | Inr (row, db') \<Rightarrow> (Inr row, db')))"

section \<open>The scheduler\<close>

definition SCAN_INTERVAL_MS :: int where "SCAN_INTERVAL_MS = 60000"

record DueCampaignRow =
  due_id :: uuid
  due_workspaceId :: uuid

definition is_due :: "instant \<Rightarrow> campaign_row \<Rightarrow> bool" where
  "is_due now c =
     (c_status c = CScheduled \<and> (case c_scheduledAt c of None \<Rightarrow> False | Some t \<Rightarrow> t \<le> now))"

definition findDueCampaignCandidates :: "instant \<Rightarrow> crm \<Rightarrow> DueCampaignRow list" where
  "findDueCampaignCandidates now db =
     map (\<lambda>c. \<lparr>due_id = c_id c, due_workspaceId = c_workspaceId c\<rparr>)
       (filter (\<lambda>c. is_due now c \<and> scan_visible db (c_workspaceId c)) (l_campaigns db))"

text \<open>\<open>FOR UPDATE SKIP LOCKED\<close>: \<open>locked\<close> says whether another transaction holds the row.\<close>

definition transitionToSending :: "instant \<Rightarrow> bool \<Rightarrow> DueCampaignRow \<Rightarrow> crm \<Rightarrow> crm \<times> bool" where
  "transitionToSending now locked row db =
     (if locked \<or> row_count (\<lambda>c. visible_campaign (due_workspaceId row) (due_id row) c \<and> is_due now c) (l_campaigns db) = 0
      then (db, False)
      else (write_campaign (due_workspaceId row) (due_id row)
              (\<lambda>c. c\<lparr>c_status := CSending, c_sendingStartedAt := Some now, c_updatedAt := now\<rparr>) db, True))"

text \<open>The due rows one after the other: a transition commits before its job is added, and an addition
  that throws ends the tick.\<close>

fun schedule_due ::
  "instant \<Rightarrow> (uuid \<Rightarrow> bool) \<Rightarrow> (uuid \<Rightarrow> bool) \<Rightarrow> DueCampaignRow list \<Rightarrow> crm \<times> kickoff_queue \<Rightarrow> crm \<times> kickoff_queue" where
  "schedule_due now locked redisUp [] s = s"
| "schedule_due now locked redisUp (row # rows) s =
     (case transitionToSending now (locked (due_id row)) row (fst s) of
        (db, transitioned) \<Rightarrow>
          if \<not> transitioned then schedule_due now locked redisUp rows (db, snd s)
          else if redisUp (due_id row)
          then schedule_due now locked redisUp rows (db, add_kickoff (due_workspaceId row) (due_id row) (snd s))
          else (db, snd s))"

definition campaignSchedulerTick ::
  "instant \<Rightarrow> (uuid \<Rightarrow> bool) \<Rightarrow> (uuid \<Rightarrow> bool) \<Rightarrow> crm \<times> kickoff_queue \<Rightarrow> crm \<times> kickoff_queue" where
  "campaignSchedulerTick now locked redisUp s =
     schedule_due now locked redisUp (findDueCampaignCandidates now (fst s)) s"

section \<open>The restoration of a workspace\<close>

datatype restore_error = WorkspaceNotDeletedError | WorkspacePurgeStartedError

text \<open>\<open>purging\<close> says whether a purge holds the advisory lock, \<open>firstDestructiveBatchAt\<close> what its record
  says; the overdue schedules go back to draft in the transaction that clears \<open>deletedAt\<close>.\<close>

definition restoreWorkspace ::
  "instant \<Rightarrow> bool \<Rightarrow> instant option \<Rightarrow> uuid \<Rightarrow> crm \<Rightarrow> restore_error + (uuid list \<times> crm)" where
  "restoreWorkspace now purging firstDestructiveBatchAt workspaceId db =
     (if purging then Inl WorkspacePurgeStartedError
      else case t_organizations db workspaceId of
             Some (Some deletedAt) \<Rightarrow>
               if firstDestructiveBatchAt \<noteq> None then Inl WorkspacePurgeStartedError
               else let overdue = (\<lambda>c. c_workspaceId c = workspaceId \<and> is_due now c)
                    in Inr (map c_id (filter overdue (l_campaigns db)),
                         db\<lparr>t_organizations := (t_organizations db)(workspaceId \<mapsto> None),
                            l_campaigns := update_where overdue (\<lambda>c. c\<lparr>c_status := CDraft\<rparr>) (l_campaigns db)\<rparr>)
           | _ \<Rightarrow> Inl WorkspaceNotDeletedError)"

end
