(* ===== verification/Campaign_Kickoff.thy ===== *)
theory Campaign_Kickoff
  imports Campaigns
begin

text \<open>
  The start of a campaign: the snapshot of its audience
  (\<open>apps/worker/src/queues/recipient-snapshot.ts\<close>) and the kickoff job that breaks it down and fans it out
  (\<open>campaign-kickoff.worker.ts\<close>). A job is a sequence of short transactions; what other processes commit
  before the \<open>k\<close>-th of them is the environment's \<open>ke_others k\<close>. The loops are written as they are, without
  a bound: \<open>None\<close> is a job that never returns. A throw leaves what was committed.
\<close>

section \<open>Transactions of a job\<close>

record kick_env =
  ke_rt :: runtime
  ke_pg :: pg
  ke_now :: "nat \<Rightarrow> instant"
  ke_others :: "nat \<Rightarrow> crm \<Rightarrow> crm"
  ke_redis :: "uuid \<Rightarrow> bool"

record kickoff_run =
  kr_tx :: nat
  kr_db :: crm
  kr_jobs :: "(uuid \<times> uuid \<times> uuid) list"

definition in_tx :: "kick_env \<Rightarrow> (instant \<Rightarrow> crm \<Rightarrow> 'a \<times> crm) \<Rightarrow> kickoff_run \<Rightarrow> 'a \<times> kickoff_run" where
  "in_tx env body r =
     (case body (ke_now env (kr_tx r)) (ke_others env (kr_tx r) (kr_db r)) of
        (x, db) \<Rightarrow> (x, r\<lparr>kr_tx := kr_tx r + 1, kr_db := db\<rparr>))"

datatype kickoff_error =
    SnapshotSourceMissing uuid
  | KickoffQueryFailed query_error
  | ForeignKeyViolation
  | KickoffLedger ledger_error
  | BroadcastQueueFailed

section \<open>The snapshot\<close>

definition SNAPSHOT_BATCH_SIZE :: nat where "SNAPSHOT_BATCH_SIZE = 10000"

definition SNAPSHOT_STATEMENT_TIMEOUT_MS :: int where "SNAPSHOT_STATEMENT_TIMEOUT_MS = 60000"

definition recipient_exists :: "uuid \<Rightarrow> crm \<Rightarrow> uuid \<Rightarrow> bool" where
  "recipient_exists campaignId db contactId =
     (\<exists>r \<in> set (t_recipients db). rc_campaignId r = campaignId \<and> rc_contactId r = contactId)"

definition new_recipient :: "uuid \<Rightarrow> contact_row \<Rightarrow> recipient_row" where
  "new_recipient campaignId c =
     \<lparr>rc_campaignId = campaignId, rc_workspaceId = ct_workspaceId c, rc_contactId = ct_id c\<rparr>"

record MaterializeBatchResult =
  inserted :: nat
  mb_lastContactId :: "uuid option"

text \<open>\<open>RETURNING\<close> lists the rows that were inserted, so the cursor moves to the last of these.\<close>

definition materializeBatch ::
  "pg \<Rightarrow> uuid \<Rightarrow> uuid \<Rightarrow> CompiledSegment \<Rightarrow> uuid option \<Rightarrow> instant \<Rightarrow> crm \<Rightarrow> MaterializeBatchResult \<times> crm" where
  "materializeBatch pg workspaceId campaignId cs afterContactId now db =
     (let page = keyset_page (where_true (pg_sem pg) now db cs) afterContactId SNAPSHOT_BATCH_SIZE (t_contacts db);
          rows = filter (\<lambda>c. \<not> recipient_exists campaignId db (ct_id c)) page;
          lastContactId = coalesce (if rows = [] then None else Some (ct_id (last rows))) afterContactId
      in (\<lparr>inserted = length rows, mb_lastContactId = lastContactId\<rparr>,
          write_campaign workspaceId campaignId (\<lambda>c. c\<lparr>c_snapshotCursor := lastContactId, c_updatedAt := now\<rparr>)
            (db\<lparr>t_recipients := t_recipients db @ map (new_recipient campaignId) rows\<rparr>)))"

definition loadSnapshotState :: "uuid \<Rightarrow> uuid \<Rightarrow> crm \<Rightarrow> (SegmentDefinition \<times> uuid option) option" where
  "loadSnapshotState workspaceId campaignId db =
     (case getCampaign workspaceId campaignId db of
        None \<Rightarrow> None
      | Some c \<Rightarrow>
          map_option (\<lambda>s. (sg_definition s, c_snapshotCursor c)) (getSegment workspaceId (c_segmentId c) db))"

partial_function (option) materialize_loop ::
  "kick_env \<Rightarrow> uuid \<Rightarrow> uuid \<Rightarrow> CompiledSegment \<Rightarrow> uuid option \<Rightarrow> kickoff_run \<Rightarrow> kickoff_run option" where
  "materialize_loop env workspaceId campaignId cs cursor r =
     (case in_tx env (materializeBatch (ke_pg env) workspaceId campaignId cs cursor) r of
        (b, r') \<Rightarrow>
          if inserted b = 0 then Some r'
          else materialize_loop env workspaceId campaignId cs (mb_lastContactId b) r')"

definition materializeCampaignSnapshot ::
  "kick_env \<Rightarrow> uuid \<Rightarrow> uuid \<Rightarrow> kickoff_run \<Rightarrow> ((kickoff_error + unit) \<times> kickoff_run) option" where
  "materializeCampaignSnapshot env workspaceId campaignId r =
     (case in_tx env (\<lambda>now db. (loadSnapshotState workspaceId campaignId db, db)) r of
        (None, r1) \<Rightarrow> Some (Inl (SnapshotSourceMissing campaignId), r1)
      | (Some (def, cursor), r1) \<Rightarrow>
          (case compiled_query (pg_string (ke_pg env)) def workspaceId of
             Inl e \<Rightarrow> Some (Inl (KickoffQueryFailed e), r1)
           | Inr cs \<Rightarrow> map_option (Pair (Inr ())) (materialize_loop env workspaceId campaignId cs cursor r1)))"

section \<open>The breakdown and the fan-out\<close>

definition BREAKDOWN_PAGE_SIZE :: nat where "BREAKDOWN_PAGE_SIZE = 5000"

definition after_id :: "uuid option \<Rightarrow> uuid \<Rightarrow> bool" where
  "after_id cursor i = (case cursor of None \<Rightarrow> True | Some k \<Rightarrow> string_less k i)"

definition recipient_ids :: "uuid \<Rightarrow> uuid \<Rightarrow> crm \<Rightarrow> uuid list" where
  "recipient_ids workspaceId campaignId db =
     map rc_contactId
       (filter (\<lambda>r. rc_workspaceId r = workspaceId \<and> rc_campaignId r = campaignId) (t_recipients db))"

definition read_recipients ::
  "uuid \<Rightarrow> uuid \<Rightarrow> uuid option \<Rightarrow> instant \<Rightarrow> crm \<Rightarrow> (CampaignStatus option \<times> uuid list) \<times> crm" where
  "read_recipients workspaceId campaignId cursor now db =
     ((map_option c_status (getCampaign workspaceId campaignId db),
       take BREAKDOWN_PAGE_SIZE
         (sort_key ByteKey (filter (after_id cursor) (recipient_ids workspaceId campaignId db)))), db)"

definition read_contacts :: "uuid \<Rightarrow> uuid list \<Rightarrow> instant \<Rightarrow> crm \<Rightarrow> contact_row list \<times> crm" where
  "read_contacts workspaceId ids now db =
     (filter (\<lambda>c. ct_workspaceId c = workspaceId \<and> ct_id c \<in> set ids) (t_contacts db), db)"

text \<open>\<open>recordExcluded\<close> inserts into \<open>sends\<close>, whose contact and campaign are foreign keys.\<close>

definition exclude_recipient ::
  "(byte list \<Rightarrow> byte list) \<Rightarrow> uuid \<Rightarrow> uuid \<Rightarrow> uuid \<Rightarrow> string \<Rightarrow> instant \<Rightarrow> crm \<Rightarrow> (kickoff_error + unit) \<times> crm" where
  "exclude_recipient sha1 workspaceId campaignId contactId reason now db =
     (if (\<forall>r \<in> set (l_sends db). campaign_key r \<noteq> Some (workspaceId, campaignId, contactId))
         \<and> ((\<forall>c \<in> set (t_contacts db). ct_id c \<noteq> contactId)
            \<or> (\<forall>c \<in> set (l_campaigns db). c_id c \<noteq> campaignId))
      then (Inl ForeignKeyViolation, db)
      else case recordExcluded sha1 now workspaceId campaignId contactId reason db of
             Inl e \<Rightarrow> (Inl (KickoffLedger e), db)
           | Inr db' \<Rightarrow> (Inr (), db'))"

text \<open>The job of a recipient has a deterministic id: adding it again is a no-op.\<close>

definition add_broadcast :: "uuid \<times> uuid \<times> uuid \<Rightarrow> kickoff_run \<Rightarrow> kickoff_run" where
  "add_broadcast job r = (if job \<in> set (kr_jobs r) then r else r\<lparr>kr_jobs := kr_jobs r @ [job]\<rparr>)"

fun kickoff_recipients ::
  "kick_env \<Rightarrow> uuid \<Rightarrow> uuid \<Rightarrow> contact_row list \<Rightarrow> uuid list \<Rightarrow> nat \<times> nat \<Rightarrow> kickoff_run
     \<Rightarrow> (kickoff_error + nat \<times> nat) \<times> kickoff_run" where
  "kickoff_recipients env workspaceId campaignId contacts [] totals r = (Inr totals, r)"
| "kickoff_recipients env workspaceId campaignId contacts (contactId # ids) (sendableTotal, excludedTotal) r =
     (case find (\<lambda>c. ct_id c = contactId) contacts of
        None \<Rightarrow>
          (case in_tx env (exclude_recipient (rt_sha1 (ke_rt env)) workspaceId campaignId contactId ''no_email'') r of
             (Inl e, r') \<Rightarrow> (Inl e, r')
           | (Inr _, r') \<Rightarrow>
               kickoff_recipients env workspaceId campaignId contacts ids (sendableTotal, excludedTotal + 1) r')
      | Some contact \<Rightarrow>
          (case in_tx env (\<lambda>now db. (evaluatePreSendGate db now workspaceId contact, db)) r of
             (NotSendable reason, r1) \<Rightarrow>
               (case in_tx env (exclude_recipient (rt_sha1 (ke_rt env)) workspaceId campaignId contactId
                       (skip_reason_name reason)) r1 of
                  (Inl e, r2) \<Rightarrow> (Inl e, r2)
                | (Inr _, r2) \<Rightarrow>
                    kickoff_recipients env workspaceId campaignId contacts ids (sendableTotal, excludedTotal + 1) r2)
           | (Sendable, r1) \<Rightarrow>
               if ke_redis env contactId
               then kickoff_recipients env workspaceId campaignId contacts ids (sendableTotal + 1, excludedTotal)
                      (add_broadcast (workspaceId, campaignId, contactId) r1)
               else (Inl BroadcastQueueFailed, r1)))"

datatype walk_end = CanceledMidFanOut | WalkedAll nat nat

partial_function (option) kickoff_walk ::
  "kick_env \<Rightarrow> uuid \<Rightarrow> uuid \<Rightarrow> uuid option \<Rightarrow> nat \<times> nat \<Rightarrow> kickoff_run
     \<Rightarrow> ((kickoff_error + walk_end) \<times> kickoff_run) option" where
  "kickoff_walk env workspaceId campaignId cursor totals r =
     (case in_tx env (read_recipients workspaceId campaignId cursor) r of
        ((status, recipientIds), r1) \<Rightarrow>
          if status = Some CCanceled \<or> status = Some CSent then Some (Inr CanceledMidFanOut, r1)
          else if recipientIds = [] then Some (Inr (WalkedAll (fst totals) (snd totals)), r1)
          else (case in_tx env (read_contacts workspaceId recipientIds) r1 of
                  (contacts, r2) \<Rightarrow>
                    (case kickoff_recipients env workspaceId campaignId contacts recipientIds totals r2 of
                       (Inl e, r3) \<Rightarrow> Some (Inl e, r3)
                     | (Inr totals', r3) \<Rightarrow>
                         kickoff_walk env workspaceId campaignId (Some (last recipientIds)) totals' r3)))"

declare materialize_loop.simps [code] kickoff_walk.simps [code]

section \<open>The job\<close>

definition complete_empty :: "uuid \<Rightarrow> uuid \<Rightarrow> nat \<Rightarrow> nat \<Rightarrow> instant \<Rightarrow> crm \<Rightarrow> crm" where
  "complete_empty workspaceId campaignId sendableTotal excludedTotal now db =
     db\<lparr>l_campaigns := update_where
          (\<lambda>c. visible_campaign workspaceId campaignId c \<and> c_status c = CSending)
          (\<lambda>c. c\<lparr>c_status := CSent, c_sendableTotal := Some sendableTotal, c_excludedTotal := Some excludedTotal,
                 c_fanOutComplete := True, c_terminalAt := Some now, c_updatedAt := now\<rparr>)
          (l_campaigns db)\<rparr>"

definition complete_fan_out :: "uuid \<Rightarrow> uuid \<Rightarrow> nat \<Rightarrow> nat \<Rightarrow> instant \<Rightarrow> crm \<Rightarrow> crm" where
  "complete_fan_out workspaceId campaignId sendableTotal excludedTotal now db =
     fst (tryCompleteCampaign workspaceId now campaignId
            (write_campaign workspaceId campaignId
               (\<lambda>c. c\<lparr>c_sendableTotal := Some sendableTotal, c_excludedTotal := Some excludedTotal,
                      c_fanOutComplete := True, c_updatedAt := now\<rparr>) db))"

definition finish_kickoff ::
  "kick_env \<Rightarrow> uuid \<Rightarrow> uuid \<Rightarrow> (kickoff_error + walk_end) \<times> kickoff_run \<Rightarrow> (kickoff_error + unit) \<times> kickoff_run" where
  "finish_kickoff env workspaceId campaignId w =
     (case w of
        (Inl e, r) \<Rightarrow> (Inl e, r)
      | (Inr CanceledMidFanOut, r) \<Rightarrow> (Inr (), r)
      | (Inr (WalkedAll sendableTotal excludedTotal), r) \<Rightarrow>
          map_prod Inr id
            (in_tx env (\<lambda>now db. ((),
               if sendableTotal = 0 then complete_empty workspaceId campaignId sendableTotal excludedTotal now db
               else complete_fan_out workspaceId campaignId sendableTotal excludedTotal now db)) r))"

definition processCampaignKickoffJob ::
  "kick_env \<Rightarrow> uuid \<Rightarrow> uuid \<Rightarrow> kickoff_run \<Rightarrow> ((kickoff_error + unit) \<times> kickoff_run) option" where
  "processCampaignKickoffJob env workspaceId campaignId r =
     (case in_tx env (\<lambda>now db. (isWorkspaceSoftDeleted db workspaceId, db)) r of
        (True, r1) \<Rightarrow> Some (Inr (), r1)
      | (False, r1) \<Rightarrow>
          (case in_tx env (\<lambda>now db. (getCampaign workspaceId campaignId db, db)) r1 of
             (None, r2) \<Rightarrow> Some (Inr (), r2)
           | (Some state, r2) \<Rightarrow>
               if c_status state = CSent \<or> c_status state = CCanceled \<or> c_fanOutComplete state
               then Some (Inr (), r2)
               else (case materializeCampaignSnapshot env workspaceId campaignId r2 of
                       None \<Rightarrow> None
                     | Some (Inl e, r3) \<Rightarrow> Some (Inl e, r3)
                     | Some (Inr _, r3) \<Rightarrow>
                         map_option (finish_kickoff env workspaceId campaignId)
                           (kickoff_walk env workspaceId campaignId None (0, 0) r3))))"

end
