(* ===== verification/Campaign_Audience.thy ===== *)
theory Campaign_Audience
  imports Campaign_Kickoff
begin

text \<open>
  What a kickoff job does when nothing interferes: the snapshot is the segment's membership, every
  recipient is either fanned out or excluded with the gate's reason, and the campaign's totals are the
  sizes of the two parts.
\<close>

definition alone :: "kick_env \<Rightarrow> instant \<Rightarrow> bool" where
  "alone env now = (ke_others env = (\<lambda>k db. db) \<and> ke_now env = (\<lambda>k. now))"

lemma in_tx_alone:
  "alone env now \<Longrightarrow> in_tx env body r = (case body now (kr_db r) of (x, db) \<Rightarrow> (x, r\<lparr>kr_tx := kr_tx r + 1, kr_db := db\<rparr>))"
  by (simp add: in_tx_def alone_def)

lemma after_cursor_id: "after_cursor k c = after_id k (ct_id c)"
  by (simp add: after_cursor_def after_id_def)

lemma new_recipient_simps [simp]:
  "rc_campaignId (new_recipient i c) = i" "rc_workspaceId (new_recipient i c) = ct_workspaceId c"
  "rc_contactId (new_recipient i c) = ct_id c"
  by (simp_all add: new_recipient_def)

section \<open>The snapshot\<close>

text \<open>The recipients taken so far are the members that the cursor has passed.\<close>

definition snapshot_upto ::
  "(contact_row \<Rightarrow> bool) \<Rightarrow> uuid \<Rightarrow> uuid \<Rightarrow> uuid option \<Rightarrow> crm \<Rightarrow> bool" where
  "snapshot_upto member workspaceId campaignId cursor db =
     (distinct (recipient_ids workspaceId campaignId db)
      \<and> set (recipient_ids workspaceId campaignId db) =
          ct_id ` {c \<in> set (t_contacts db). member c \<and> \<not> after_cursor cursor c}
      \<and> (\<forall>r \<in> set (t_recipients db). rc_campaignId r = campaignId \<longrightarrow> rc_workspaceId r = workspaceId))"

lemma keyset_page_upto:
  assumes "c \<in> set (keyset_page p cursor n t)"
  shows "\<not> after_cursor (Some (ct_id (last (keyset_page p cursor n t)))) c"
proof -
  let ?k = "\<lambda>c. ByteKey (ct_id c)"
  let ?page = "keyset_page p cursor n t"
  have "sorted (map ?k ?page)" by (simp add: keyset_page_def sorted_wrt_take flip: take_map)
  moreover have "c = last ?page \<or> c \<in> set (butlast ?page)"
    using assms by (metis append_butlast_last_id empty_iff list.set(1) rotate1.simps(2) set_ConsD set_rotate1)
  moreover have "?page = butlast ?page @ [last ?page]" using assms by (cases ?page rule: rev_cases) auto
  ultimately have "?k c \<le> ?k (last ?page)"
    by (metis (no_types, lifting) dual_order.refl image_eqI list.set_intros(1) list.simps(9) map_append set_map sorted_append)
  then show ?thesis
    by (auto simp: after_cursor_def less_eq_byte_key_def dest: string_less_trans)
qed

lemma keyset_page_next:
  assumes "keyset_page p cursor n t \<noteq> []"
  shows "{c \<in> set t. p c \<and> \<not> after_cursor (Some (ct_id (last (keyset_page p cursor n t)))) c} \<supseteq>
      {c \<in> set t. p c \<and> \<not> after_cursor cursor c} \<union> set (keyset_page p cursor n t)"
    and "ct_id ` {c \<in> set t. p c \<and> \<not> after_cursor (Some (ct_id (last (keyset_page p cursor n t)))) c} =
      ct_id ` ({c \<in> set t. p c \<and> \<not> after_cursor cursor c} \<union> set (keyset_page p cursor n t))"
proof -
  let ?page = "keyset_page p cursor n t"
  let ?new = "Some (ct_id (last ?page))"
  have last: "after_cursor cursor (last ?page)" using keyset_page_mem [OF last_in_set [OF assms]] by simp
  have "\<not> after_cursor ?new c" if "\<not> after_cursor cursor c" for c
    using that last by (auto simp: after_cursor_def split: option.splits dest: string_less_trans)
  then show up: "{c \<in> set t. p c \<and> \<not> after_cursor ?new c} \<supseteq> {c \<in> set t. p c \<and> \<not> after_cursor cursor c} \<union> set ?page"
    using keyset_page_upto [of _ p cursor n t] by (auto dest: keyset_page_mem)
  have "ct_id c \<in> ct_id ` ({c \<in> set t. p c \<and> \<not> after_cursor cursor c} \<union> set ?page)"
    if "c \<in> set t" "p c" "\<not> after_cursor ?new c" for c
    using keyset_page_last [OF assms that(1,2)] that last_in_set [OF assms] by (cases "after_cursor cursor c") auto
  then show "ct_id ` {c \<in> set t. p c \<and> \<not> after_cursor ?new c} =
      ct_id ` ({c \<in> set t. p c \<and> \<not> after_cursor cursor c} \<union> set ?page)"
    using up by (intro equalityI subsetI) (blast | auto)+
qed

lemma distinct_keyset_page:
  "distinct (map ct_id t) \<Longrightarrow> distinct (map ct_id (keyset_page p cursor n t))"
proof -
  assume "distinct (map ct_id t)"
  then have "distinct t" "inj_on ct_id (set t)" by (simp_all add: distinct_map)
  moreover have "set (keyset_page p cursor n t) \<subseteq> set t" using keyset_page_mem by blast
  ultimately show ?thesis
    by (auto simp: distinct_map keyset_page_def intro: inj_on_subset)
qed

lemma campaign_tables [simp]:
  "t_contacts (write_campaign w i g db) = t_contacts db" "t_events (write_campaign w i g db) = t_events db"
  "t_recipients (write_campaign w i g db) = t_recipients db" "l_sends (write_campaign w i g db) = l_sends db"
  "t_segments (write_campaign w i g db) = t_segments db" "t_organizations (write_campaign w i g db) = t_organizations db"
  "t_settings (write_campaign w i g db) = t_settings db"
  by (simp_all add: write_campaign_def)

lemma recipient_ids_append:
  "\<forall>c \<in> set rows. ct_workspaceId c = w \<Longrightarrow> t_recipients db' = t_recipients db @ map (new_recipient i) rows \<Longrightarrow>
     recipient_ids w i db' = recipient_ids w i db @ map ct_id rows"
  by (auto simp: recipient_ids_def comp_def filter_True)

text \<open>One batch, on the way and at the end.\<close>

lemma materializeBatch_page:
  assumes inv: "snapshot_upto (where_true (pg_sem pg) now db cs) w i cursor db"
  shows "inserted (fst (materializeBatch pg w i cs cursor now db)) =
      length (keyset_page (where_true (pg_sem pg) now db cs) cursor SNAPSHOT_BATCH_SIZE (t_contacts db))"
    and "mb_lastContactId (fst (materializeBatch pg w i cs cursor now db)) =
      (let page = keyset_page (where_true (pg_sem pg) now db cs) cursor SNAPSHOT_BATCH_SIZE (t_contacts db)
       in if page = [] then cursor else Some (ct_id (last page)))"
    and "t_recipients (snd (materializeBatch pg w i cs cursor now db)) = t_recipients db @ map (new_recipient i)
      (keyset_page (where_true (pg_sem pg) now db cs) cursor SNAPSHOT_BATCH_SIZE (t_contacts db))"
proof -
  let ?p = "where_true (pg_sem pg) now db cs"
  let ?page = "keyset_page ?p cursor SNAPSHOT_BATCH_SIZE (t_contacts db)"
  have "\<not> recipient_exists i db (ct_id c)" if c: "c \<in> set ?page" for c
  proof
    assume "recipient_exists i db (ct_id c)"
    then obtain x where x: "x \<in> set (t_recipients db)" "rc_campaignId x = i" "rc_contactId x = ct_id c"
      by (auto simp: recipient_exists_def)
    moreover have "rc_workspaceId x = w" using inv x(1,2) by (simp add: snapshot_upto_def)
    ultimately have "ct_id c \<in> set (recipient_ids w i db)"
      by (auto simp: recipient_ids_def intro!: image_eqI [of _ _ x])
    then have "ct_id c \<in> ct_id ` {c \<in> set (t_contacts db). ?p c \<and> \<not> after_cursor cursor c}"
      using inv unfolding snapshot_upto_def by simp
    then obtain c' where "ct_id c' = ct_id c" "\<not> after_cursor cursor c'" by force
    then show False using keyset_page_mem [OF c] by (simp add: after_cursor_id)
  qed
  then have "filter (\<lambda>c. \<not> recipient_exists i db (ct_id c)) ?page = ?page" by (simp add: filter_id_conv)
  then show "inserted (fst (materializeBatch pg w i cs cursor now db)) = length ?page"
    "mb_lastContactId (fst (materializeBatch pg w i cs cursor now db)) =
      (let page = ?page in if page = [] then cursor else Some (ct_id (last page)))"
    "t_recipients (snd (materializeBatch pg w i cs cursor now db)) = t_recipients db @ map (new_recipient i) ?page"
    by (simp_all add: materializeBatch_def Let_def)
qed

lemma materializeBatch_frame [simp]:
  "t_contacts (snd (materializeBatch pg w i cs k now db)) = t_contacts db"
  "t_events (snd (materializeBatch pg w i cs k now db)) = t_events db"
  "l_sends (snd (materializeBatch pg w i cs k now db)) = l_sends db"
  "t_settings (snd (materializeBatch pg w i cs k now db)) = t_settings db"
  by (simp_all add: materializeBatch_def Let_def)

lemma materializeBatch_upto:
  assumes inv: "snapshot_upto (where_true (pg_sem pg) now db cs) w i cursor db"
    and ids: "distinct (map ct_id (t_contacts db))"
    and own: "\<And>c. where_true (pg_sem pg) now db cs c \<Longrightarrow> ct_workspaceId c = w"
    and page: "keyset_page (where_true (pg_sem pg) now db cs) cursor SNAPSHOT_BATCH_SIZE (t_contacts db) \<noteq> []"
  shows "snapshot_upto (where_true (pg_sem pg) now db cs) w i
    (mb_lastContactId (fst (materializeBatch pg w i cs cursor now db))) (snd (materializeBatch pg w i cs cursor now db))"
proof -
  let ?p = "where_true (pg_sem pg) now db cs"
  let ?page = "keyset_page ?p cursor SNAPSHOT_BATCH_SIZE (t_contacts db)"
  let ?db = "snd (materializeBatch pg w i cs cursor now db)"
  have mem: "ct_workspaceId c = w" "after_cursor cursor c" if "c \<in> set ?page" for c
    using keyset_page_mem [OF that] own by auto
  have r: "recipient_ids w i ?db = recipient_ids w i db @ map ct_id ?page"
    by (rule recipient_ids_append) (use mem materializeBatch_page(3) [OF inv] in auto)
  have "set (recipient_ids w i db) \<inter> ct_id ` set ?page = {}"
  proof (intro equals0I, elim IntE imageE)
    fix k c assume "k \<in> set (recipient_ids w i db)" "k = ct_id c" "c \<in> set ?page"
    then obtain c' where "ct_id c' = ct_id c" "\<not> after_cursor cursor c'" using inv by (auto simp: snapshot_upto_def)
    then show False using mem(2) [OF \<open>c \<in> set ?page\<close>] by (simp add: after_cursor_id)
  qed
  then have "distinct (recipient_ids w i ?db)"
    using inv distinct_keyset_page [OF ids, of ?p cursor SNAPSHOT_BATCH_SIZE] by (simp add: r snapshot_upto_def)
  moreover have "set (recipient_ids w i ?db) =
      ct_id ` {c \<in> set (t_contacts db). ?p c \<and> \<not> after_cursor (Some (ct_id (last ?page))) c}"
    unfolding keyset_page_next(2) [OF page] r using inv by (simp add: snapshot_upto_def image_Un)
  moreover have "\<forall>x \<in> set (t_recipients ?db). rc_campaignId x = i \<longrightarrow> rc_workspaceId x = w"
    unfolding materializeBatch_page(3) [OF inv] using inv mem(1) by (simp add: snapshot_upto_def ball_Un)
  ultimately show ?thesis
    using page by (simp add: snapshot_upto_def materializeBatch_page(2) [OF inv])
qed

text \<open>What a snapshot may change: the recipients, and the cursor of the campaign.\<close>

definition snapshot_frame :: "uuid \<Rightarrow> uuid \<Rightarrow> crm \<Rightarrow> crm \<Rightarrow> bool" where
  "snapshot_frame w i db db' =
     (\<exists>rs k now. db' = db\<lparr>t_recipients := rs,
        l_campaigns := update_where (visible_campaign w i) (\<lambda>c. c\<lparr>c_snapshotCursor := k, c_updatedAt := now\<rparr>) (l_campaigns db)\<rparr>)"

lemma snapshot_frame_batch: "snapshot_frame w i db (snd (materializeBatch pg w i cs k now db))"
  unfolding snapshot_frame_def materializeBatch_def write_campaign_def Let_def
  by (intro exI [of _ "t_recipients db @ _"] exI) simp

lemma snapshot_frame_trans: "snapshot_frame w i db db1 \<Longrightarrow> snapshot_frame w i db1 db2 \<Longrightarrow> snapshot_frame w i db db2"
  unfolding snapshot_frame_def
proof (elim exE)
  fix rs k now rs' k' now'
  assume "db1 = db\<lparr>t_recipients := rs, l_campaigns :=
      update_where (visible_campaign w i) (\<lambda>c. c\<lparr>c_snapshotCursor := k, c_updatedAt := now\<rparr>) (l_campaigns db)\<rparr>"
    "db2 = db1\<lparr>t_recipients := rs', l_campaigns :=
      update_where (visible_campaign w i) (\<lambda>c. c\<lparr>c_snapshotCursor := k', c_updatedAt := now'\<rparr>) (l_campaigns db1)\<rparr>"
  then have "db2 = db\<lparr>t_recipients := rs', l_campaigns :=
      update_where (visible_campaign w i) (\<lambda>c. c\<lparr>c_snapshotCursor := k', c_updatedAt := now'\<rparr>) (l_campaigns db)\<rparr>"
    by (simp add: update_where_def visible_campaign_def)
  then show "\<exists>rs k now. db2 = db\<lparr>t_recipients := rs, l_campaigns :=
      update_where (visible_campaign w i) (\<lambda>c. c\<lparr>c_snapshotCursor := k, c_updatedAt := now\<rparr>) (l_campaigns db)\<rparr>"
    by blast
qed

text \<open>The loop returns, with every member a recipient.\<close>

lemma materialize_loop_all:
  assumes "alone env now" "snapshot_upto (where_true (pg_sem (ke_pg env)) now (kr_db r) cs) w i cursor (kr_db r)"
    and "distinct (map ct_id (t_contacts (kr_db r)))"
    and "\<And>c. where_true (pg_sem (ke_pg env)) now (kr_db r) cs c \<Longrightarrow> ct_workspaceId c = w"
  shows "\<exists>r'. materialize_loop env w i cs cursor r = Some r'
    \<and> (\<exists>k. snapshot_upto (where_true (pg_sem (ke_pg env)) now (kr_db r) cs) w i k (kr_db r')
        \<and> (\<forall>c \<in> set (t_contacts (kr_db r)). where_true (pg_sem (ke_pg env)) now (kr_db r) cs c \<longrightarrow> \<not> after_cursor k c))
    \<and> kr_jobs r' = kr_jobs r \<and> snapshot_frame w i (kr_db r) (kr_db r')"
  using assms(2-4)
proof (induction "rows_after (where_true (pg_sem (ke_pg env)) now (kr_db r) cs) cursor (t_contacts (kr_db r))"
    arbitrary: cursor r rule: less_induct)
  case less
  let ?p = "where_true (pg_sem (ke_pg env)) now (kr_db r) cs"
  let ?page = "keyset_page ?p cursor SNAPSHOT_BATCH_SIZE (t_contacts (kr_db r))"
  let ?b = "materializeBatch (ke_pg env) w i cs cursor now (kr_db r)"
  let ?r = "r\<lparr>kr_tx := kr_tx r + 1, kr_db := snd ?b\<rparr>"
  note page = materializeBatch_page [OF less.prems(1)]
  have same: "where_true (pg_sem (ke_pg env)) now (kr_db ?r) cs = ?p" by (rule where_true_same) simp
  have run: "materialize_loop env w i cs cursor r =
      (if ?page = [] then Some ?r else materialize_loop env w i cs (mb_lastContactId (fst ?b)) ?r)"
    by (subst materialize_loop.simps) (simp add: in_tx_alone [OF assms(1)] page(1) split_beta)
  show ?case
  proof (cases "?page = []")
    case True
    have "0 < SNAPSHOT_BATCH_SIZE" by (simp add: SNAPSHOT_BATCH_SIZE_def)
    from keyset_page_empty [OF this] True
    have "\<forall>c \<in> set (t_contacts (kr_db r)). \<not> (?p c \<and> after_cursor cursor c)" by simp
    moreover have "snapshot_upto ?p w i cursor (snd ?b)"
      using less.prems(1) page(3) True by (simp add: snapshot_upto_def recipient_ids_def)
    ultimately show ?thesis
      using run True snapshot_frame_batch by (intro exI [of _ ?r]) auto
  next
    case False
    have dec: "rows_after (where_true (pg_sem (ke_pg env)) now (kr_db ?r) cs) (mb_lastContactId (fst ?b)) (t_contacts (kr_db ?r))
        < rows_after ?p cursor (t_contacts (kr_db r))"
      unfolding same using rows_after_decreases [OF False] False by (simp add: page(2))
    have inv: "snapshot_upto (where_true (pg_sem (ke_pg env)) now (kr_db ?r) cs) w i (mb_lastContactId (fst ?b)) (kr_db ?r)"
      unfolding same using materializeBatch_upto [OF less.prems False] by simp
    obtain r' k where r': "materialize_loop env w i cs (mb_lastContactId (fst ?b)) ?r = Some r'"
      "snapshot_upto ?p w i k (kr_db r')" "\<forall>c \<in> set (t_contacts (kr_db r)). ?p c \<longrightarrow> \<not> after_cursor k c"
      "kr_jobs r' = kr_jobs r" "snapshot_frame w i (snd ?b) (kr_db r')"
      using less.hyps [OF dec inv] less.prems(2,3) same by auto
    from r' show ?thesis
      using run False snapshot_frame_trans [OF snapshot_frame_batch r'(5)] by (intro exI [of _ r']) auto
  qed
qed

section \<open>The exclusions\<close>

text \<open>The derived identifiers of the recipients \<open>R\<close> do not collide, among themselves or with other rows.\<close>

definition sends_derived :: "(byte list \<Rightarrow> byte list) \<Rightarrow> uuid \<Rightarrow> uuid \<Rightarrow> uuid set \<Rightarrow> send_row list \<Rightarrow> bool" where
  "sends_derived sha1 w i R t =
     (inj_on (deriveCampaignSendId sha1 w i) R
      \<and> (\<forall>r \<in> set t. \<forall>k \<in> R. s_id r = deriveCampaignSendId sha1 w i k \<longrightarrow> campaign_key r = Some (w, i, k)))"

text \<open>A recipient that the ledger leaves out: its row says why, or the row was settled before.\<close>

definition left_out :: "uuid \<times> uuid \<times> uuid \<Rightarrow> string \<Rightarrow> send_row list \<Rightarrow> bool" where
  "left_out key reason t =
     (\<exists>r \<in> set t. campaign_key r = Some key
        \<and> (if excludable (s_status r) then s_status r = Excluded \<and> s_exclusionReason r = Some reason else True))"

text \<open>One exclusion touches the row of its own key only, and no row that was sent.\<close>

definition only_excludes :: "uuid \<Rightarrow> uuid \<times> uuid \<times> uuid \<Rightarrow> send_row list \<Rightarrow> send_row list \<Rightarrow> bool" where
  "only_excludes i key t t' =
     ((\<forall>r. campaign_key r \<noteq> Some key \<longrightarrow> (r \<in> set t' \<longleftrightarrow> r \<in> set t))
      \<and> (\<forall>r \<in> set t'. (\<exists>x \<in> set t. s_id x = s_id r \<and> campaign_key x = campaign_key r)
           \<or> s_id r = i \<and> campaign_key r = Some key)
      \<and> (\<forall>p. (\<forall>r. p r \<longrightarrow> s_status r = Sent) \<longrightarrow> row_count p t' = row_count p t))"

lemma excluded_keys [simp]:
  "campaign_key (r\<lparr>s_status := st, s_exclusionReason := x\<rparr>) = campaign_key r"
  "flow_key (r\<lparr>s_status := st, s_exclusionReason := x\<rparr>) = flow_key r"
  by (simp_all add: campaign_key_def flow_key_def split: option.splits)

lemma new_send_keys [simp]:
  "campaign_key (new_campaign_send j w i k now) = Some (w, i, k)"
  "flow_key (new_campaign_send j w i k now) = None"
  by (simp_all add: campaign_key_def flow_key_def new_campaign_send_def default_send_def)

lemma only_excludes_existing:
  "only_excludes j key t (exclude_existing (\<lambda>r. campaign_key r = Some key) reason t)"
proof -
  let ?f = "\<lambda>r. r\<lparr>s_status := Excluded, s_exclusionReason := Some reason\<rparr>"
  let ?p = "\<lambda>r. campaign_key r = Some key \<and> excludable (s_status r)"
  have keep: "row_count q (update_where ?p ?f u) = row_count q u" if q: "\<And>r. q r \<Longrightarrow> s_status r = Sent" for q u
  proof (induction u)
    case (Cons r u)
    have "\<not> q (?f r)" using q [of "?f r"] by auto
    moreover have "?p r \<Longrightarrow> \<not> q r" using q [of r] by (auto simp: excludable_def)
    ultimately show ?case using Cons by auto
  qed simp
  have "r \<in> set (update_where ?p ?f t) \<longleftrightarrow> r \<in> set t" if "campaign_key r \<noteq> Some key" for r
    using that by (auto simp: update_where_def image_iff)
  moreover have "\<exists>x \<in> set t. s_id x = s_id r \<and> campaign_key x = campaign_key r" if "r \<in> set (update_where ?p ?f t)" for r
    using that by (auto simp: update_where_def split: if_splits)
  ultimately show ?thesis
    unfolding only_excludes_def exclude_existing_def using keep by blast
qed

lemma left_out_existing:
  "r \<in> set t \<Longrightarrow> campaign_key r = Some key \<Longrightarrow>
     left_out key reason (exclude_existing (\<lambda>r. campaign_key r = Some key) reason t)"
  unfolding left_out_def exclude_existing_def
  by (rule bexI [of _ "if excludable (s_status r) then r\<lparr>s_status := Excluded, s_exclusionReason := Some reason\<rparr> else r"])
    (auto simp: set_update_where excludable_def)

lemma exclude_recipient_ok:
  assumes derived: "sends_derived sha1 w i R (l_sends db)" "k \<in> R"
    and keys: "\<exists>c \<in> set (t_contacts db). ct_id c = k" "\<exists>c \<in> set (l_campaigns db). c_id c = i"
  obtains t where "exclude_recipient sha1 w i k reason now db = (Inr (), db\<lparr>l_sends := t\<rparr>)"
    "only_excludes (deriveCampaignSendId sha1 w i k) (w, i, k) (l_sends db) t" "left_out (w, i, k) reason t"
proof -
  let ?j = "deriveCampaignSendId sha1 w i k"
  let ?n = "(new_campaign_send ?j w i k now)\<lparr>s_status := Excluded, s_exclusionReason := Some reason\<rparr>"
  have fk: "exclude_recipient sha1 w i k reason now db =
      (case recordExcluded sha1 now w i k reason db of Inl e \<Rightarrow> (Inl (KickoffLedger e), db) | Inr db' \<Rightarrow> (Inr (), db'))"
    unfolding exclude_recipient_def using keys by (intro if_not_P) blast
  show ?thesis
  proof (cases "\<exists>r \<in> set (l_sends db). campaign_key r = Some (w, i, k)")
    case True
    then obtain r where r: "r \<in> set (l_sends db)" "campaign_key r = Some (w, i, k)" by blast
    have "insert_send campaign_key ?n (l_sends db) = Inr None"
      using r by (auto simp: insert_send_def)
    then have "recordExcluded sha1 now w i k reason db =
        Inr (db\<lparr>l_sends := exclude_existing (\<lambda>r. campaign_key r = Some (w, i, k)) reason (l_sends db)\<rparr>)"
      by (simp add: recordExcluded_def run_exclude_def Let_def)
    then show ?thesis
      by (intro that [of "exclude_existing (\<lambda>r. campaign_key r = Some (w, i, k)) reason (l_sends db)"])
        (simp_all add: fk only_excludes_existing left_out_existing [OF r])
  next
    case False
    then have "\<forall>r \<in> set (l_sends db). s_id r \<noteq> ?j"
      using derived by (auto simp: sends_derived_def)
    then have "insert_send campaign_key ?n (l_sends db) = Inr (Some (l_sends db @ [?n]))"
      using False by (auto simp: insert_send_def)
    then have "recordExcluded sha1 now w i k reason db = Inr (db\<lparr>l_sends := l_sends db @ [?n]\<rparr>)"
      by (simp add: recordExcluded_def run_exclude_def Let_def)
    moreover have "row_count p (l_sends db @ [?n]) = row_count p (l_sends db)" if "\<forall>r. p r \<longrightarrow> s_status r = Sent" for p
      using that [rule_format, of ?n] by (auto simp: row_count_def)
    then have "only_excludes ?j (w, i, k) (l_sends db) (l_sends db @ [?n])"
      by (auto simp: only_excludes_def)
    moreover have "left_out (w, i, k) reason (l_sends db @ [?n])"
      unfolding left_out_def
      by (rule bexI [of _ ?n]) simp_all
    ultimately show ?thesis
      by (intro that [of "l_sends db @ [?n]"]) (simp_all add: fk)
  qed
qed

section \<open>The walk\<close>

lemma add_broadcast_simps [simp]:
  "kr_db (add_broadcast job r) = kr_db r" "set (kr_jobs (add_broadcast job r)) = insert job (set (kr_jobs r))"
  by (auto simp: add_broadcast_def)

text \<open>What the gate says of a recipient: \<open>None\<close> where it may be sent to, else the reason.\<close>

definition gate_reason :: "crm \<Rightarrow> instant \<Rightarrow> uuid \<Rightarrow> uuid \<Rightarrow> string option" where
  "gate_reason db now w k =
     (case find_contact db w k of
        None \<Rightarrow> Some ''no_email''
      | Some c \<Rightarrow>
          (case evaluatePreSendGate db now w c of Sendable \<Rightarrow> None | NotSendable reason \<Rightarrow> Some (skip_reason_name reason)))"

text \<open>What the walk over \<open>ids\<close> does to the ledger, where \<open>g\<close> is the gate.\<close>

definition walked ::
  "(byte list \<Rightarrow> byte list) \<Rightarrow> uuid \<Rightarrow> uuid \<Rightarrow> uuid set \<Rightarrow> (uuid \<Rightarrow> string option) \<Rightarrow> uuid list \<Rightarrow> send_row list
     \<Rightarrow> send_row list \<Rightarrow> bool" where
  "walked sha1 w i R g ids t t' =
     (sends_derived sha1 w i R t'
      \<and> (\<forall>p. (\<forall>r. p r \<longrightarrow> s_status r = Sent) \<longrightarrow> row_count p t' = row_count p t)
      \<and> (\<forall>k reason. g k = Some reason \<longrightarrow> k \<in> set ids \<or> left_out (w, i, k) reason t \<longrightarrow> left_out (w, i, k) reason t'))"

lemma walked_Nil: "sends_derived sha1 w i R t \<Longrightarrow> walked sha1 w i R g [] t t"
  by (simp add: walked_def)

lemma walked_trans:
  "walked sha1 w i R g ids t t1 \<Longrightarrow> walked sha1 w i R g ids' t1 t2 \<Longrightarrow> walked sha1 w i R g (ids @ ids') t t2"
  by (auto simp: walked_def)

lemma walked_skip: "g k = None \<Longrightarrow> walked sha1 w i R g ids t t' \<Longrightarrow> walked sha1 w i R g (k # ids) t t'"
  by (auto simp: walked_def)

lemma left_out_other:
  assumes "only_excludes j key t t'" "key' \<noteq> key" "left_out key' reason t"
  shows "left_out key' reason t'"
  using assms unfolding left_out_def only_excludes_def by (metis option.inject)

lemma walked_exclude:
  assumes "only_excludes (deriveCampaignSendId sha1 w i k) (w, i, k) t t'" "left_out (w, i, k) reason t'"
    and "g k = Some reason" "k \<in> R" "sends_derived sha1 w i R t"
  shows "walked sha1 w i R g [k] t t'"
proof -
  have "campaign_key r = Some (w, i, k')"
    if r: "r \<in> set t'" "k' \<in> R" "s_id r = deriveCampaignSendId sha1 w i k'" for r k'
  proof -
    have "(\<exists>x \<in> set t. s_id x = s_id r \<and> campaign_key x = campaign_key r)
        \<or> s_id r = deriveCampaignSendId sha1 w i k \<and> campaign_key r = Some (w, i, k)"
      using assms(1) r(1) unfolding only_excludes_def by blast
    then show ?thesis
      using assms(4,5) r(2,3) unfolding sends_derived_def by (metis inj_onD)
  qed
  moreover have "left_out (w, i, k') reason' t'" if "g k' = Some reason'" "left_out (w, i, k') reason' t" for k' reason'
    using that assms(2,3) left_out_other [OF assms(1) _ that(2)] by (cases "k' = k") auto
  moreover have "inj_on (deriveCampaignSendId sha1 w i) R" using assms(5) by (simp add: sends_derived_def)
  moreover have "\<forall>p. (\<forall>r. p r \<longrightarrow> s_status r = Sent) \<longrightarrow> row_count p t' = row_count p t"
    using assms(1) by (simp add: only_excludes_def)
  ultimately show ?thesis
    using assms(2,3) unfolding walked_def sends_derived_def by simp
qed

text \<open>Writes to the ledger that keep the sent rows leave the gate alone.\<close>

lemma gate_reason_sends:
  assumes "walked sha1 w i R g ids (l_sends db) t"
  shows "gate_reason (db\<lparr>l_sends := t\<rparr>) now w = gate_reason db now w"
proof -
  have "sent_in_window (db\<lparr>l_sends := t\<rparr>) now w c hours = sent_in_window db now w c hours" for c hours
  proof -
    let ?p = "\<lambda>r. s_workspaceId r = w \<and> s_contactId r = c \<and> s_status r = Sent
      \<and> (case s_sentAt r of None \<Rightarrow> False | Some x \<Rightarrow> now - hours * hour_ms < x)"
    have "row_count ?p t = row_count ?p (l_sends db)" using assms unfolding walked_def by simp
    then show ?thesis by (simp add: sent_in_window_def)
  qed
  then have "evaluatePreSendGate (db\<lparr>l_sends := t\<rparr>) now w c = evaluatePreSendGate db now w c" for c
    by (simp add: evaluatePreSendGate_def getWorkspaceSendSettings_def)
  then show ?thesis by (intro ext) (simp add: gate_reason_def find_contact_def cong: option.case_cong)
qed

lemma find_read_contacts:
  assumes "k \<in> set page"
  shows "find (\<lambda>c. ct_id c = k) (fst (read_contacts w page now db)) = find_contact db w k"
proof -
  have "find (\<lambda>c. ct_id c = k) (filter (\<lambda>c. ct_workspaceId c = w \<and> ct_id c \<in> set page) t) =
      find (\<lambda>c. ct_id c = k \<and> ct_workspaceId c = w) t" for t
    using assms by (induction t) auto
  then show ?thesis by (simp add: read_contacts_def find_contact_def)
qed

definition audience_present :: "uuid \<Rightarrow> uuid \<Rightarrow> uuid set \<Rightarrow> crm \<Rightarrow> bool" where
  "audience_present w i R db =
     ((\<forall>k \<in> R. find_contact db w k \<noteq> None) \<and> (\<exists>c \<in> set (l_campaigns db). c_id c = i))"

lemma audience_present_sends [simp]: "audience_present w i R (db\<lparr>l_sends := t\<rparr>) = audience_present w i R db"
  by (simp add: audience_present_def find_contact_def)

lemma kickoff_recipients_all:
  assumes "alone env now" "\<And>k. ke_redis env k" "set ids \<subseteq> set page" "set ids \<subseteq> R"
    and "sends_derived (rt_sha1 (ke_rt env)) w i R (l_sends (kr_db r))" "audience_present w i R (kr_db r)"
    and "gate_reason (kr_db r) now w = g" "\<And>k. k \<in> set page \<Longrightarrow> find (\<lambda>c. ct_id c = k) contacts = find_contact (kr_db r) w k"
  shows "\<exists>r' t. kickoff_recipients env w i contacts ids (s, x) r =
        (Inr (s + length (filter (\<lambda>k. g k = None) ids), x + length (filter (\<lambda>k. g k \<noteq> None) ids)), r')
      \<and> kr_db r' = kr_db r\<lparr>l_sends := t\<rparr> \<and> walked (rt_sha1 (ke_rt env)) w i R g ids (l_sends (kr_db r)) t
      \<and> set (kr_jobs r') = set (kr_jobs r) \<union> (\<lambda>k. (w, i, k)) ` {k \<in> set ids. g k = None}"
  using assms(3-8)
proof (induction ids arbitrary: s x r)
  case Nil
  then show ?case by (intro exI [of _ r] exI [of _ "l_sends (kr_db r)"]) (simp add: walked_Nil)
next
  case (Cons k ids)
  let ?sha1 = "rt_sha1 (ke_rt env)"
  obtain c where c: "find_contact (kr_db r) w k = Some c"
    using Cons.prems(2,4) by (auto simp: audience_present_def)
  then have found: "find (\<lambda>c. ct_id c = k) contacts = Some c" using Cons.prems(1,6) by simp
  let ?r1 = "r\<lparr>kr_tx := kr_tx r + 1, kr_db := kr_db r\<rparr>"
  show ?case
  proof (cases "evaluatePreSendGate (kr_db r) now w c")
    case Sendable
    let ?r2 = "add_broadcast (w, i, k) ?r1"
    have gk: "g k = None" using Cons.prems(5) c Sendable by (auto simp: gate_reason_def)
    have step: "kickoff_recipients env w i contacts (k # ids) (s, x) r = kickoff_recipients env w i contacts ids (s + 1, x) ?r2"
      using found Sendable assms(2) by (simp add: in_tx_alone [OF assms(1)])
    from Cons.IH [of ?r2 "s + 1" x] obtain r' t where "kickoff_recipients env w i contacts ids (s + 1, x) ?r2 =
        (Inr (s + 1 + length (filter (\<lambda>k. g k = None) ids), x + length (filter (\<lambda>k. g k \<noteq> None) ids)), r')"
      "kr_db r' = kr_db r\<lparr>l_sends := t\<rparr>" "walked ?sha1 w i R g ids (l_sends (kr_db r)) t"
      "set (kr_jobs r') = insert (w, i, k) (set (kr_jobs r)) \<union> (\<lambda>k. (w, i, k)) ` {k \<in> set ids. g k = None}"
      using Cons.prems by auto
    then show ?thesis
      unfolding step using gk walked_skip [of g k] by (intro exI [of _ r'] exI [of _ t]) auto
  next
    case (NotSendable reason)
    have gk: "g k = Some (skip_reason_name reason)" using Cons.prems(5) c NotSendable by (auto simp: gate_reason_def)
    have kR: "k \<in> R" using Cons.prems(2) by simp
    have keys: "\<exists>c \<in> set (t_contacts (kr_db r)). ct_id c = k" "\<exists>c \<in> set (l_campaigns (kr_db r)). c_id c = i"
      using find_Some_iff_mem [OF c [unfolded find_contact_def]] Cons.prems(4) by (auto simp: audience_present_def)
    obtain t1 where t1: "exclude_recipient ?sha1 w i k (skip_reason_name reason) now (kr_db r) = (Inr (), kr_db r\<lparr>l_sends := t1\<rparr>)"
      "only_excludes (deriveCampaignSendId ?sha1 w i k) (w, i, k) (l_sends (kr_db r)) t1"
      "left_out (w, i, k) (skip_reason_name reason) t1"
      by (rule exclude_recipient_ok [OF Cons.prems(3) kR keys, where now = now and reason = "skip_reason_name reason"]) blast
    note w1 = walked_exclude [of _ _ _ _ _ _ _ g, OF t1(2,3) gk kR Cons.prems(3)]
    let ?r2 = "?r1\<lparr>kr_tx := kr_tx ?r1 + 1, kr_db := kr_db r\<lparr>l_sends := t1\<rparr>\<rparr>"
    have step: "kickoff_recipients env w i contacts (k # ids) (s, x) r = kickoff_recipients env w i contacts ids (s, x + 1) ?r2"
      using found NotSendable t1(1) by (simp add: in_tx_alone [OF assms(1)])
    have d1: "sends_derived ?sha1 w i R t1" using w1 by (simp add: walked_def)
    have g1: "gate_reason (kr_db r\<lparr>l_sends := t1\<rparr>) now w = g" using gate_reason_sends [OF w1] Cons.prems(5) by simp
    from Cons.IH [of ?r2 s "x + 1"] obtain r' t where r': "kickoff_recipients env w i contacts ids (s, x + 1) ?r2 =
        (Inr (s + length (filter (\<lambda>k. g k = None) ids), x + 1 + length (filter (\<lambda>k. g k \<noteq> None) ids)), r')"
      "kr_db r' = kr_db r\<lparr>l_sends := t\<rparr>" "walked ?sha1 w i R g ids t1 t"
      "set (kr_jobs r') = set (kr_jobs r) \<union> (\<lambda>k. (w, i, k)) ` {k \<in> set ids. g k = None}"
      using Cons.prems d1 g1 by (auto simp: find_contact_def)
    then show ?thesis
      unfolding step using gk walked_trans [OF w1 r'(3)] by (intro exI [of _ r'] exI [of _ t]) auto
  qed
qed

text \<open>A keyset walk over a strictly ordered list takes it page by page.\<close>

lemma after_suffix: "sorted_wrt string_less (A @ x # B) \<Longrightarrow> filter (after_id (Some x)) (A @ x # B) = B"
proof -
  assume sorted: "sorted_wrt string_less (A @ x # B)"
  then have "filter (after_id (Some x)) A = []" "filter (after_id (Some x)) B = B"
    by (auto simp: sorted_wrt_append after_id_def filter_empty_conv filter_id_conv dest: string_less_trans)
  then show ?thesis by (simp add: after_id_def)
qed

lemma sort_strict: "distinct ids \<Longrightarrow> sorted_wrt string_less (sort_key ByteKey ids)"
proof -
  assume "distinct ids"
  then have "distinct (map ByteKey (sort_key ByteKey ids))" by (simp add: distinct_map inj_on_def)
  then have "sorted_wrt (<) (map ByteKey (sort_key ByteKey ids))" by (simp add: strict_sorted_iff)
  then show ?thesis by (simp add: sorted_wrt_map)
qed

lemma kickoff_walk_all:
  assumes "alone env now" "\<And>k. ke_redis env k" "sorted_wrt string_less S"
    and "sort_key ByteKey (recipient_ids w i (kr_db r)) = S" "S = A @ B" "filter (after_id cursor) S = B"
    and "sends_derived (rt_sha1 (ke_rt env)) w i (set S) (l_sends (kr_db r))" "audience_present w i (set S) (kr_db r)"
    and "gate_reason (kr_db r) now w = g"
    and "getCampaign w i (kr_db r) = Some c" "c_status c \<noteq> CCanceled" "c_status c \<noteq> CSent"
  shows "\<exists>r' t. kickoff_walk env w i cursor (s, x) r =
        Some (Inr (WalkedAll (s + length (filter (\<lambda>k. g k = None) B)) (x + length (filter (\<lambda>k. g k \<noteq> None) B))), r')
      \<and> kr_db r' = kr_db r\<lparr>l_sends := t\<rparr> \<and> walked (rt_sha1 (ke_rt env)) w i (set S) g B (l_sends (kr_db r)) t
      \<and> set (kr_jobs r') = set (kr_jobs r) \<union> (\<lambda>k. (w, i, k)) ` {k \<in> set B. g k = None}"
  using assms(4-)
proof (induction "length B" arbitrary: A B cursor s x r rule: less_induct)
  case less
  let ?page = "take BREAKDOWN_PAGE_SIZE B"
  let ?r1 = "r\<lparr>kr_tx := kr_tx r + 1\<rparr>"
  have page: "read_recipients w i cursor now (kr_db r) = ((Some (c_status c), ?page), kr_db r)"
    using less.prems(1,3,7) by (simp add: read_recipients_def filter_sort [symmetric])
  have size: "0 < BREAKDOWN_PAGE_SIZE" by (simp add: BREAKDOWN_PAGE_SIZE_def)
  show ?case
  proof (cases "B = []")
    case True
    have "kickoff_walk env w i cursor (s, x) r = Some (Inr (WalkedAll s x), ?r1)"
      using True less.prems(8,9) by (subst kickoff_walk.simps) (simp add: in_tx_alone [OF assms(1)] page)
    then show ?thesis
      using True less.prems(4) by (intro exI [of _ ?r1] exI [of _ "l_sends (kr_db r)"]) (simp add: walked_Nil)
  next
    case False
    let ?contacts = "fst (read_contacts w ?page now (kr_db r))"
    let ?r2 = "?r1\<lparr>kr_tx := kr_tx ?r1 + 1\<rparr>"
    have sub: "set ?page \<subseteq> set S" using less.prems(2) by (auto dest: in_set_takeD)
    have ne: "?page \<noteq> []" using False size by simp
    have "sends_derived (rt_sha1 (ke_rt env)) w i (set S) (l_sends (kr_db ?r2))" "audience_present w i (set S) (kr_db ?r2)"
      "gate_reason (kr_db ?r2) now w = g" using less.prems(4-6) by simp_all
    from kickoff_recipients_all [OF assms(1,2) subset_refl sub this, of "?contacts" s x] find_read_contacts
    obtain r3 t1 where r3: "kickoff_recipients env w i ?contacts ?page (s, x) ?r2 =
        (Inr (s + length (filter (\<lambda>k. g k = None) ?page), x + length (filter (\<lambda>k. g k \<noteq> None) ?page)), r3)"
      "kr_db r3 = kr_db r\<lparr>l_sends := t1\<rparr>" "walked (rt_sha1 (ke_rt env)) w i (set S) g ?page (l_sends (kr_db r)) t1"
      "set (kr_jobs r3) = set (kr_jobs r) \<union> (\<lambda>k. (w, i, k)) ` {k \<in> set ?page. g k = None}"
      by auto
    have run: "kickoff_walk env w i cursor (s, x) r = kickoff_walk env w i (Some (last ?page))
        (s + length (filter (\<lambda>k. g k = None) ?page), x + length (filter (\<lambda>k. g k \<noteq> None) ?page)) r3"
      using ne less.prems(8,9) r3(1)
      by (subst kickoff_walk.simps) (simp add: in_tx_alone [OF assms(1)] page read_contacts_def)
    have split: "S = (A @ ?page) @ drop BREAKDOWN_PAGE_SIZE B" using less.prems(2) by simp
    have "butlast ?page @ last ?page # drop BREAKDOWN_PAGE_SIZE B = (butlast ?page @ [last ?page]) @ drop BREAKDOWN_PAGE_SIZE B"
      by simp
    then have "S = (A @ butlast ?page) @ last ?page # drop BREAKDOWN_PAGE_SIZE B"
      using split unfolding append_butlast_last_id [OF ne] by simp
    with after_suffix [of "A @ butlast ?page" "last ?page" "drop BREAKDOWN_PAGE_SIZE B"] assms(3)
    have rest: "filter (after_id (Some (last ?page))) S = drop BREAKDOWN_PAGE_SIZE B" by simp
    have shorter: "length (drop BREAKDOWN_PAGE_SIZE B) < length B" using False size by simp
    have d3: "sends_derived (rt_sha1 (ke_rt env)) w i (set S) (l_sends (kr_db r3))"
      using r3(2,3) by (simp add: walked_def)
    have frame: "sort_key ByteKey (recipient_ids w i (kr_db r3)) = S" "audience_present w i (set S) (kr_db r3)"
      "gate_reason (kr_db r3) now w = g" "getCampaign w i (kr_db r3) = Some c"
      using less.prems(1,5-7) gate_reason_sends [OF r3(3)] by (simp_all add: r3(2) recipient_ids_def getCampaign_def)
    obtain r' t where r': "kickoff_walk env w i (Some (last ?page))
        (s + length (filter (\<lambda>k. g k = None) ?page), x + length (filter (\<lambda>k. g k \<noteq> None) ?page)) r3 =
        Some (Inr (WalkedAll
          (s + length (filter (\<lambda>k. g k = None) ?page) + length (filter (\<lambda>k. g k = None) (drop BREAKDOWN_PAGE_SIZE B)))
          (x + length (filter (\<lambda>k. g k \<noteq> None) ?page) + length (filter (\<lambda>k. g k \<noteq> None) (drop BREAKDOWN_PAGE_SIZE B)))), r')"
      "kr_db r' = kr_db r3\<lparr>l_sends := t\<rparr>"
      "walked (rt_sha1 (ke_rt env)) w i (set S) g (drop BREAKDOWN_PAGE_SIZE B) (l_sends (kr_db r3)) t"
      "set (kr_jobs r') = set (kr_jobs r3) \<union> (\<lambda>k. (w, i, k)) ` {k \<in> set (drop BREAKDOWN_PAGE_SIZE B). g k = None}"
      using less.hyps [OF shorter frame(1) split rest d3 frame(2-4) less.prems(8,9)] by blast
    have parts: "set B = set ?page \<union> set (drop BREAKDOWN_PAGE_SIZE B)"
      "length (filter q B) = length (filter q ?page) + length (filter q (drop BREAKDOWN_PAGE_SIZE B))" for q
      by (simp_all flip: set_append length_append filter_append)
    have "walked (rt_sha1 (ke_rt env)) w i (set S) g (drop BREAKDOWN_PAGE_SIZE B) t1 t" using r'(3) by (simp add: r3(2))
    from walked_trans [OF r3(3) this] have "walked (rt_sha1 (ke_rt env)) w i (set S) g B (l_sends (kr_db r)) t" by simp
    moreover have "set (kr_jobs r') = set (kr_jobs r) \<union> (\<lambda>k. (w, i, k)) ` {k \<in> set B. g k = None}"
      unfolding r'(4) r3(4) parts(1) by blast
    ultimately show ?thesis
      unfolding run r'(1) parts(2) using r'(2) r3(2) by (intro exI [of _ r'] exI [of _ t]) simp
  qed
qed

section \<open>The job\<close>

lemma getCampaign_snapshot:
  assumes "snapshot_frame w i db db'" "getCampaign w i db = Some c"
  shows "\<exists>k now. getCampaign w i db' = Some (c\<lparr>c_snapshotCursor := k, c_updatedAt := now\<rparr>)"
proof -
  obtain rs k now where db': "db' = db\<lparr>t_recipients := rs,
      l_campaigns := update_where (visible_campaign w i) (\<lambda>c. c\<lparr>c_snapshotCursor := k, c_updatedAt := now\<rparr>) (l_campaigns db)\<rparr>"
    using assms(1) by (auto simp: snapshot_frame_def)
  have "getCampaign w i db' = getCampaign w i (db\<lparr>l_campaigns :=
      update_where (visible_campaign w i) (\<lambda>c. c\<lparr>c_snapshotCursor := k, c_updatedAt := now\<rparr>) (l_campaigns db)\<rparr>)"
    by (simp add: db' getCampaign_def)
  also have "\<dots> = map_option (\<lambda>c. if visible_campaign w i c then c\<lparr>c_snapshotCursor := k, c_updatedAt := now\<rparr> else c) (getCampaign w i db)"
    by (rule getCampaign_update) simp
  finally show ?thesis using getCampaign_SomeD [OF assms(2)] assms(2) by auto
qed

lemma snapshot_frame_tables:
  "snapshot_frame w i db db' \<Longrightarrow> t_contacts db' = t_contacts db \<and> t_settings db' = t_settings db \<and> l_sends db' = l_sends db"
  by (auto simp: snapshot_frame_def)

lemma gate_reason_tables:
  assumes "t_contacts db' = t_contacts db" "t_settings db' = t_settings db" "l_sends db' = l_sends db"
  shows "gate_reason db' now w = gate_reason db now w"
proof -
  have "evaluatePreSendGate db' now w c = evaluatePreSendGate db now w c" for c
    by (simp add: evaluatePreSendGate_def sent_in_window_def getWorkspaceSendSettings_def assms)
  then show ?thesis by (intro ext) (simp add: gate_reason_def find_contact_def assms cong: option.case_cong)
qed

text \<open>The last write, on the campaign's row.\<close>

lemma finish_kickoff_campaign:
  assumes "alone env now" "getCampaign w i (kr_db r) = Some c" "c_status c = CSending"
    and "finish_kickoff env w i (Inr (WalkedAll s x), r) = (res, r')"
  shows "res = Inr ()" "kr_jobs r' = kr_jobs r" "l_sends (kr_db r') = l_sends (kr_db r)"
    "t_recipients (kr_db r') = t_recipients (kr_db r)"
    "\<exists>c'. getCampaign w i (kr_db r') = Some c' \<and> c_fanOutComplete c' \<and> c_sendableTotal c' = Some s
       \<and> c_excludedTotal c' = Some x \<and> c_status c' \<in> {CSending, CSent}
       \<and> (s \<le> c_sentCount c + c_failedCount c \<longrightarrow> c_status c' = CSent)"
proof -
  let ?totals = "\<lambda>c. c\<lparr>c_sendableTotal := Some s, c_excludedTotal := Some x, c_fanOutComplete := True, c_updatedAt := now\<rparr>"
  have vis: "visible_campaign w i c" using getCampaign_SomeD [OF assms(2)] by simp
  have db: "kr_db r' = (if s = 0 then complete_empty w i s x now (kr_db r) else complete_fan_out w i s x now (kr_db r))"
    and "res = Inr ()" "kr_jobs r' = kr_jobs r"
    using assms(4) by (auto simp: finish_kickoff_def in_tx_alone [OF assms(1)])
  then show "res = Inr ()" "kr_jobs r' = kr_jobs r" by simp_all
  show "l_sends (kr_db r') = l_sends (kr_db r)" "t_recipients (kr_db r') = t_recipients (kr_db r)"
    by (simp_all add: db complete_empty_def complete_fan_out_def tryCompleteCampaign_def Let_def)
  show "\<exists>c'. getCampaign w i (kr_db r') = Some c' \<and> c_fanOutComplete c' \<and> c_sendableTotal c' = Some s
      \<and> c_excludedTotal c' = Some x \<and> c_status c' \<in> {CSending, CSent}
      \<and> (s \<le> c_sentCount c + c_failedCount c \<longrightarrow> c_status c' = CSent)"
  proof (cases "s = 0")
    case True
    then have e: "kr_db r' = complete_empty w i s x now (kr_db r)" by (simp add: db)
    show ?thesis
      unfolding e complete_empty_def by (subst getCampaign_update) (simp_all add: assms(2,3) vis)
  next
    case False
    have "getCampaign w i (write_campaign w i ?totals (kr_db r)) = Some (?totals c)"
      unfolding write_campaign_def by (subst getCampaign_update) (simp_all add: assms(2) vis)
    moreover have e: "kr_db r' = complete_fan_out w i s x now (kr_db r)" using False by (simp add: db)
    ultimately show ?thesis
      using False assms(3) vis unfolding e complete_fan_out_def tryCompleteCampaign_def Let_def fst_conv
      by (subst getCampaign_update) (auto simp: completable_def visible_campaign_def)
  qed
qed

text \<open>A campaign whose kickoff can run: it is sending in a live workspace, its fan-out is not complete,
  its segment is readable and admitted by the schema, the snapshot can be resumed at its cursor (a first
  kickoff has no recipients and no cursor), and the derived identifiers do not collide.\<close>

definition segment_members :: "kick_env \<Rightarrow> instant \<Rightarrow> uuid \<Rightarrow> segment_row \<Rightarrow> crm \<Rightarrow> uuid set" where
  "segment_members env now w sg db =
     ct_id ` {k \<in> set (t_contacts db). in_segment (ke_pg env) now db w (sg_definition sg) k}"

definition kickoff_ready ::
  "kick_env \<Rightarrow> instant \<Rightarrow> uuid \<Rightarrow> uuid \<Rightarrow> campaign_row \<Rightarrow> segment_row \<Rightarrow> crm \<Rightarrow> bool" where
  "kickoff_ready env now w i c sg db =
     (\<not> isWorkspaceSoftDeleted db w
      \<and> getCampaign w i db = Some c \<and> c_status c = CSending \<and> \<not> c_fanOutComplete c
      \<and> getSegment w (c_segmentId c) db = Some sg \<and> segmentDefinitionSchema (sg_definition sg)
      \<and> distinct (map ct_id (t_contacts db))
      \<and> snapshot_upto (in_segment (ke_pg env) now db w (sg_definition sg)) w i (c_snapshotCursor c) db
      \<and> sends_derived (rt_sha1 (ke_rt env)) w i (segment_members env now w sg db) (l_sends db))"

lemma kickoff_partition:
  assumes env: "alone env now" "\<forall>k. ke_redis env k"
    and ready: "kickoff_ready env now w i c sg (kr_db r)"
  defines "members \<equiv> segment_members env now w sg (kr_db r)" and "gate \<equiv> gate_reason (kr_db r) now w"
  shows "\<exists>r' c'. processCampaignKickoffJob env w i r = Some (Inr (), r')
    \<and> distinct (recipient_ids w i (kr_db r')) \<and> set (recipient_ids w i (kr_db r')) = members
    \<and> set (kr_jobs r') = set (kr_jobs r) \<union> (\<lambda>k. (w, i, k)) ` {k \<in> members. gate k = None}
    \<and> (\<forall>k reason. k \<in> members \<and> gate k = Some reason \<longrightarrow> left_out (w, i, k) reason (l_sends (kr_db r')))
    \<and> getCampaign w i (kr_db r') = Some c' \<and> c_fanOutComplete c'
    \<and> c_sendableTotal c' = Some (card {k \<in> members. gate k = None})
    \<and> c_excludedTotal c' = Some (card {k \<in> members. gate k \<noteq> None})
    \<and> c_status c' \<in> {CSending, CSent}
    \<and> (card {k \<in> members. gate k = None} \<le> c_sentCount c + c_failedCount c \<longrightarrow> c_status c' = CSent)"
proof -
  have live: "\<not> isWorkspaceSoftDeleted (kr_db r) w"
    and campaign: "getCampaign w i (kr_db r) = Some c" "c_status c = CSending" "\<not> c_fanOutComplete c"
    and segment: "getSegment w (c_segmentId c) (kr_db r) = Some sg" "segmentDefinitionSchema (sg_definition sg)"
    and ids: "distinct (map ct_id (t_contacts (kr_db r)))"
    and resume: "snapshot_upto (in_segment (ke_pg env) now (kr_db r) w (sg_definition sg)) w i (c_snapshotCursor c) (kr_db r)"
    and derived: "sends_derived (rt_sha1 (ke_rt env)) w i members (l_sends (kr_db r))"
    using ready by (simp_all add: kickoff_ready_def members_def)
  obtain cs where "compileSegmentDefinition (pg_string (ke_pg env)) (sg_definition sg) w = Inr cs"
    "\<And>truth. clause_value truth (cs_where cs) \<noteq> None"
    and meaning: "\<And>now db c. where_true (pg_sem (ke_pg env)) now db cs c = in_segment (ke_pg env) now db w (sg_definition sg) c"
    using compiled_admitted [OF segment(2)] by blast
  then have query: "compiled_query (pg_string (ke_pg env)) (sg_definition sg) w = Inr cs" by (simp add: compiled_query_def)
  have fun_meaning: "where_true (pg_sem (ke_pg env)) now db cs = in_segment (ke_pg env) now db w (sg_definition sg)" for db
    by (rule ext) (rule meaning)
  let ?r3 = "r\<lparr>kr_tx := kr_tx r + 3\<rparr>"
  obtain r4 k where r4: "materialize_loop env w i cs (c_snapshotCursor c) ?r3 = Some r4"
    "snapshot_upto (in_segment (ke_pg env) now (kr_db r) w (sg_definition sg)) w i k (kr_db r4)"
    "\<forall>c \<in> set (t_contacts (kr_db r)). in_segment (ke_pg env) now (kr_db r) w (sg_definition sg) c \<longrightarrow> \<not> after_cursor k c"
    "kr_jobs r4 = kr_jobs r" "snapshot_frame w i (kr_db r) (kr_db r4)"
    using materialize_loop_all [OF env(1), of ?r3 cs w i "c_snapshotCursor c"] resume ids
    by (auto simp: fun_meaning in_segment_def)
  note frame = snapshot_frame_tables [OF r4(5)]
  have members: "distinct (recipient_ids w i (kr_db r4))" "set (recipient_ids w i (kr_db r4)) = members"
    using r4(2,3) frame by (auto simp: snapshot_upto_def members_def segment_members_def)
  let ?S = "sort_key ByteKey (recipient_ids w i (kr_db r4))"
  have S: "set ?S = members" "distinct ?S" using members by simp_all
  obtain kc t where c4: "getCampaign w i (kr_db r4) = Some (c\<lparr>c_snapshotCursor := kc, c_updatedAt := t\<rparr>)"
    using getCampaign_snapshot [OF r4(5) campaign(1)] by blast
  have gate4: "gate_reason (kr_db r4) now w = gate"
    unfolding gate_def using frame by (intro gate_reason_tables) simp_all
  have "find_contact (kr_db r4) w k \<noteq> None" if "k \<in> members" for k
    using that frame by (auto simp: members_def segment_members_def find_contact_def find_None_mem in_segment_def)
  moreover have "\<exists>x \<in> set (l_campaigns (kr_db r4)). c_id x = i"
    using getCampaign_SomeD [OF c4]
    by (intro bexI [of _ "c\<lparr>c_snapshotCursor := kc, c_updatedAt := t\<rparr>"]) (simp_all add: visible_campaign_def)
  ultimately have present: "audience_present w i (set ?S) (kr_db r4)"
    using S(1) by (simp add: audience_present_def)
  have derived4: "sends_derived (rt_sha1 (ke_rt env)) w i (set ?S) (l_sends (kr_db r4))"
    using derived frame S(1) by simp
  obtain r5 t5 where r5: "kickoff_walk env w i None (0, 0) r4 = Some (Inr (WalkedAll
        (length (filter (\<lambda>k. gate k = None) ?S)) (length (filter (\<lambda>k. gate k \<noteq> None) ?S))), r5)"
    "kr_db r5 = kr_db r4\<lparr>l_sends := t5\<rparr>" "walked (rt_sha1 (ke_rt env)) w i (set ?S) gate ?S (l_sends (kr_db r4)) t5"
    "set (kr_jobs r5) = set (kr_jobs r4) \<union> (\<lambda>k. (w, i, k)) ` {k \<in> set ?S. gate k = None}"
    using kickoff_walk_all [OF env(1) _ sort_strict [OF members(1)] HOL.refl append_Nil [symmetric] _ derived4 present gate4 c4, of None 0 0]
      env(2) campaign(2) by (auto simp: after_id_def)
  obtain res r' where r': "finish_kickoff env w i (Inr (WalkedAll
        (length (filter (\<lambda>k. gate k = None) ?S)) (length (filter (\<lambda>k. gate k \<noteq> None) ?S))), r5) = (res, r')"
    by fastforce
  have c5: "getCampaign w i (kr_db r5) = Some (c\<lparr>c_snapshotCursor := kc, c_updatedAt := t\<rparr>)"
    using c4 by (simp add: r5(2) getCampaign_def)
  note fin = finish_kickoff_campaign [OF env(1) c5 _ r']
  have run: "processCampaignKickoffJob env w i r = Some (Inr (), r')"
    using live campaign segment(1) query r4(1) r5(1) r' fin(1)
    by (simp add: processCampaignKickoffJob_def materializeCampaignSnapshot_def loadSnapshotState_def in_tx_alone [OF env(1)] eval_nat_numeral)
  have sizes: "length (filter (\<lambda>k. gate k = None) ?S) = card {k \<in> members. gate k = None}"
    "length (filter (\<lambda>k. gate k \<noteq> None) ?S) = card {k \<in> members. gate k \<noteq> None}"
    using S by (simp_all add: distinct_length_filter Int_def conj_commute)
  have ids': "recipient_ids w i (kr_db r') = recipient_ids w i (kr_db r4)"
    using fin(4) campaign(2) by (simp add: recipient_ids_def r5(2))
  have left: "left_out (w, i, k) reason (l_sends (kr_db r'))" if "k \<in> members" "gate k = Some reason" for k reason
    using r5(3) that S(1) fin(3) campaign(2) by (simp add: walked_def r5(2))
  obtain c' where c': "getCampaign w i (kr_db r') = Some c'" "c_fanOutComplete c'"
    "c_sendableTotal c' = Some (card {k \<in> members. gate k = None})" "c_excludedTotal c' = Some (card {k \<in> members. gate k \<noteq> None})"
    "c_status c' \<in> {CSending, CSent}"
    "card {k \<in> members. gate k = None} \<le> c_sentCount c + c_failedCount c \<longrightarrow> c_status c' = CSent"
    using fin(5) campaign(2) sizes by auto
  show ?thesis
    using run members ids' r5(4) r4(4) fin(2) campaign(2) S(1) left c'
    by (intro exI [of _ r'] exI [of _ c']) simp
qed

text \<open>C19: A kickoff that runs alone snapshots exactly the members of the segment, fans out those the gate lets through, excludes each of the others with its reason, and sets the totals to the sizes of the two parts.\<close>

theorem kickoff_partitions_audience:
  assumes env: "alone env now" "\<forall>k. ke_redis env k"
    and ready: "kickoff_ready env now w i c sg (kr_db r)"
  defines "members \<equiv> segment_members env now w sg (kr_db r)" and "gate \<equiv> gate_reason (kr_db r) now w"
  shows "\<exists>r' c'. processCampaignKickoffJob env w i r = Some (Inr (), r')
    \<and> distinct (recipient_ids w i (kr_db r')) \<and> set (recipient_ids w i (kr_db r')) = members
    \<and> set (kr_jobs r') = set (kr_jobs r) \<union> (\<lambda>k. (w, i, k)) ` {k \<in> members. gate k = None}
    \<and> (\<forall>k reason. k \<in> members \<and> gate k = Some reason \<longrightarrow> left_out (w, i, k) reason (l_sends (kr_db r')))
    \<and> getCampaign w i (kr_db r') = Some c' \<and> c_fanOutComplete c'
    \<and> c_sendableTotal c' = Some (card {k \<in> members. gate k = None})
    \<and> c_excludedTotal c' = Some (card {k \<in> members. gate k \<noteq> None})
    \<and> c_status c' \<in> {CSending, CSent}
    \<and> (card {k \<in> members. gate k = None} \<le> c_sentCount c + c_failedCount c \<longrightarrow> c_status c' = CSent)"
  using kickoff_partition [OF env ready] by (simp add: members_def gate_def)

end
