(* ===== verification/Campaign_Faults.thy ===== *)
theory Campaign_Faults
  imports Campaign_Audience
begin

text \<open>
  The kickoff on a small deployment, and what becomes of a campaign when its kickoff is interrupted.
\<close>

section \<open>A small audience\<close>

text \<open>Two contacts of the segment; the hash of the example keeps the last bytes of its input.\<close>

definition kick_rt :: runtime where
  "kick_rt = example_rt\<lparr>rt_sha1 := \<lambda>bs. take 20 (rev bs)\<rparr>"

definition kick_env_at :: "instant \<Rightarrow> kick_env" where
  "kick_env_at now =
     \<lparr>ke_rt = kick_rt, ke_pg = example_pg, ke_now = (\<lambda>k. now), ke_others = (\<lambda>k db. db), ke_redis = (\<lambda>i. True)\<rparr>"

definition kick_segment :: segment_row where
  "kick_segment =
     \<lparr>sg_id = ''g1'', sg_workspaceId = ''w1'', sg_name = ''buyers'', sg_definition = example_segment,
      sg_createdByUserId = ''u1'', sg_memberCount = None, sg_memberCountAt = None, sg_createdAt = 0, sg_updatedAt = 0\<rparr>"

definition kick_campaign :: campaign_row where
  "kick_campaign = example_campaign
     \<lparr>c_fanOutComplete := False, c_sendableTotal := None, c_excludedTotal := None\<rparr>"

definition kick_contact :: "uuid \<Rightarrow> SubscriptionStatus \<Rightarrow> contact_row" where
  "kick_contact i st = example_contact\<lparr>ct_id := i, ct_country := Some ''DE'', ct_subscriptionStatus := st\<rparr>"

definition kick_db :: crm where
  "kick_db = example_db
     \<lparr>l_campaigns := [kick_campaign], t_segments := [kick_segment],
      t_contacts := [kick_contact ''k1'' StSubscribed, kick_contact ''k2'' StSuppressed]\<rparr>"

definition kick_run :: "crm \<Rightarrow> kickoff_run" where
  "kick_run db = \<lparr>kr_tx = 0, kr_db = db, kr_jobs = []\<rparr>"

lemmas kick_defs = kick_db_def kick_campaign_def kick_segment_def kick_contact_def example_defs

lemma kick_alone [simp]: "alone (kick_env_at now) now" "\<forall>k. ke_redis (kick_env_at now) k"
  "ke_pg (kick_env_at now) = example_pg" "ke_rt (kick_env_at now) = kick_rt"
  by (simp_all add: alone_def kick_env_at_def)

lemma kick_schema: "segmentDefinitionSchema example_segment"
  by (simp add: example_segment_def segmentDefinitionSchema_def attributeConditionSchema_def
      behavioralConditionSchema_def conditionOperatorSchema_def STANDARD_FIELD_KEYS_def)

lemma kick_in_segment:
  "ct_workspaceId c = ''w1'' \<Longrightarrow> ct_anonymizedAt c = None \<Longrightarrow> ct_country c = Some ''DE'' \<Longrightarrow>
     in_segment example_pg now db ''w1'' example_segment c"
  by (simp add: in_segment_def example_segment_def example_pg_def STANDARD_FIELD_COLUMNS_def Let_def)

lemma kick_ids: "deriveCampaignSendId (rt_sha1 kick_rt) ''w1'' ''c1'' ''k1'' \<noteq> deriveCampaignSendId (rt_sha1 kick_rt) ''w1'' ''c1'' ''k2''"
  by code_simp

lemma kick_members:
  assumes "t_contacts db = [kick_contact ''k1'' st1, kick_contact ''k2'' st2]"
  shows "segment_members (kick_env_at now) now ''w1'' kick_segment db = {''k1'', ''k2''}"
proof -
  have "in_segment example_pg now db ''w1'' example_segment (kick_contact i st)" for i st
    by (rule kick_in_segment) (simp_all add: kick_contact_def example_contact_def)
  then have "{k \<in> set [kick_contact ''k1'' st1, kick_contact ''k2'' st2]. in_segment example_pg now db ''w1'' example_segment k}
      = {kick_contact ''k1'' st1, kick_contact ''k2'' st2}" by auto
  moreover have "ct_id (kick_contact i st) = i" for i st by (simp add: kick_contact_def)
  moreover have "sg_definition kick_segment = example_segment" by (simp add: kick_segment_def)
  ultimately show ?thesis unfolding segment_members_def assms by simp
qed

lemma kick_ready: "kickoff_ready (kick_env_at 100000) 100000 ''w1'' ''c1'' kick_campaign kick_segment kick_db"
  unfolding kickoff_ready_def
proof (intro conjI)
  have m: "segment_members (kick_env_at 100000) 100000 ''w1'' kick_segment kick_db = {''k1'', ''k2''}"
    by (rule kick_members) (simp add: kick_db_def)
  show "sends_derived (rt_sha1 (ke_rt (kick_env_at 100000))) ''w1'' ''c1''
      (segment_members (kick_env_at 100000) 100000 ''w1'' kick_segment kick_db) (l_sends kick_db)"
    using kick_ids unfolding m by (auto simp: sends_derived_def kick_db_def example_db_def empty_crm_def)
  show "snapshot_upto (in_segment (ke_pg (kick_env_at 100000)) 100000 kick_db ''w1'' (sg_definition kick_segment)) ''w1'' ''c1''
      (c_snapshotCursor kick_campaign) kick_db"
    by (simp add: snapshot_upto_def recipient_ids_def after_cursor_def kick_defs)
qed (simp_all add: isWorkspaceSoftDeleted_def getCampaign_def getSegment_def visible_campaign_def kick_schema kick_defs)

text \<open>The gate on the example: a subscribed contact may be sent to, unless the cap is reached.\<close>

lemma kick_gate:
  "gate_reason kick_db 100000 ''w1'' ''k1'' = None" "gate_reason kick_db 100000 ''w1'' ''k2'' = Some ''suppressed''"
  by (simp_all add: gate_reason_def find_contact_def evaluatePreSendGate_def sent_in_window_def
      getWorkspaceSendSettings_def DEFAULT_SEND_SETTINGS_def kick_defs)

theorem kickoff_partitions_audience_witness:
  "\<exists>r' c'. processCampaignKickoffJob (kick_env_at 100000) ''w1'' ''c1'' (kick_run kick_db) = Some (Inr (), r')
     \<and> set (kr_jobs r') = {(''w1'', ''c1'', ''k1'')} \<and> left_out (''w1'', ''c1'', ''k2'') ''suppressed'' (l_sends (kr_db r'))
     \<and> getCampaign ''w1'' ''c1'' (kr_db r') = Some c' \<and> c_sendableTotal c' = Some 1 \<and> c_excludedTotal c' = Some 1"
proof -
  have m: "segment_members (kick_env_at 100000) 100000 ''w1'' kick_segment kick_db = {''k1'', ''k2''}"
    by (rule kick_members) (simp add: kick_db_def)
  have parts: "{k \<in> {''k1'', ''k2''}. gate_reason kick_db 100000 ''w1'' k = None} = {''k1''}"
    "{k \<in> {''k1'', ''k2''}. gate_reason kick_db 100000 ''w1'' k \<noteq> None} = {''k2''}"
    using kick_gate by auto
  have run: "kr_db (kick_run kick_db) = kick_db" "kr_jobs (kick_run kick_db) = []" by (simp_all add: kick_run_def)
  have ready: "kickoff_ready (kick_env_at 100000) 100000 ''w1'' ''c1'' kick_campaign kick_segment (kr_db (kick_run kick_db))"
    using kick_ready by (simp add: run(1))
  obtain r' c' where "processCampaignKickoffJob (kick_env_at 100000) ''w1'' ''c1'' (kick_run kick_db) = Some (Inr (), r')"
    and "set (kr_jobs r') = set [] \<union> (\<lambda>k. (''w1'', ''c1'', k)) ` {''k1''}"
    and left: "\<forall>k reason. k \<in> {''k1'', ''k2''} \<and> gate_reason kick_db 100000 ''w1'' k = Some reason
          \<longrightarrow> left_out (''w1'', ''c1'', k) reason (l_sends (kr_db r'))"
    and "getCampaign ''w1'' ''c1'' (kr_db r') = Some c'"
    and "c_sendableTotal c' = Some (card {''k1''})" "c_excludedTotal c' = Some (card {''k2''})"
    using kickoff_partitions_audience [OF kick_alone(1,2) ready, unfolded run m parts] by blast
  moreover have "left_out (''w1'', ''c1'', ''k2'') ''suppressed'' (l_sends (kr_db r'))"
    using left kick_gate(2) by blast
  ultimately show ?thesis by (intro exI [of _ r'] exI [of _ c']) simp
qed

section \<open>An interrupted kickoff\<close>

lemma not_sending_not_proceed:
  "getCampaign w i db = Some c \<Longrightarrow> c_status c \<noteq> CSending \<Longrightarrow> claimCampaignSend rt now w i k db \<noteq> Inr (db', Proceed cl)"
  by (auto simp: claimCampaignSend_def readSendPrereqs_def getCampaign_def Let_def split: sum.splits if_splits)

text \<open>C20: A redelivered kickoff counts as sendable only those the gate still lets through, while the counter holds the mails already sent: it completes the campaign although recipients are waiting, and their jobs never call the provider.\<close>

theorem redelivered_kickoff_drops_recipients:
  assumes env: "alone env now" "\<forall>k. ke_redis env k"
    and ready: "kickoff_ready env now w i c sg (kr_db r)"
    and counted: "card {k \<in> segment_members env now w sg (kr_db r). gate_reason (kr_db r) now w k = None} \<le> c_sentCount c"
    and waiting: "k \<in> segment_members env now w sg (kr_db r)" "gate_reason (kr_db r) now w k = None"
    and job: "j_workspaceId j = w" "j_campaignId j = i" "j_contactId j = Some k" "j_kind j = KCampaign"
  shows "\<exists>r'. processCampaignKickoffJob env w i r = Some (Inr (), r') \<and> (w, i, k) \<in> set (kr_jobs r')
    \<and> map_option c_status (getCampaign w i (kr_db r')) = Some CSent
    \<and> processSendJob rt (a\<lparr>at_sendMail := m\<rparr>) (BroadcastJob j) \<lparr>w_db = kr_db r', w_redis = redis\<rparr>
      = processSendJob rt a (BroadcastJob j) \<lparr>w_db = kr_db r', w_redis = redis\<rparr>"
proof -
  obtain r' c' where r': "processCampaignKickoffJob env w i r = Some (Inr (), r')" "(w, i, k) \<in> set (kr_jobs r')"
    and c': "getCampaign w i (kr_db r') = Some c'" "c_status c' = CSent"
    using kickoff_partition [OF env ready] counted waiting by fastforce
  show ?thesis
    using r' c' job not_sending_not_proceed [OF c'(1)]
    by (intro exI [of _ r']) (simp add: processSendJob_def processCampaignSend_no_call)
qed

text \<open>The state that an interruption leaves: both contacts are recipients, the cap is one mail a day, the
  first contact's mail has been sent and counted.\<close>

definition kick_sent :: send_row where
  "kick_sent = (new_campaign_send (deriveCampaignSendId (rt_sha1 kick_rt) ''w1'' ''c1'' ''k1'') ''w1'' ''c1'' ''k1'' 99000)
     \<lparr>s_status := Sent, s_sentAt := Some 99000\<rparr>"

definition resumed_campaign :: campaign_row where
  "resumed_campaign = kick_campaign\<lparr>c_sentCount := 1, c_snapshotCursor := Some ''k2''\<rparr>"

definition resumed_db :: crm where
  "resumed_db = kick_db
     \<lparr>t_contacts := [kick_contact ''k1'' StSubscribed, kick_contact ''k2'' StSubscribed],
      t_settings := [''w1'' \<mapsto> DEFAULT_SEND_SETTINGS\<lparr>frequencyCap := 1\<rparr>],
      t_recipients := map (new_recipient ''c1'') [kick_contact ''k1'' StSubscribed, kick_contact ''k2'' StSubscribed],
      l_campaigns := [resumed_campaign], l_sends := [kick_sent]\<rparr>"

lemma kick_sent_simps:
  "s_id kick_sent = deriveCampaignSendId (rt_sha1 kick_rt) ''w1'' ''c1'' ''k1''"
  "campaign_key kick_sent = Some (''w1'', ''c1'', ''k1'')" "s_status kick_sent = Sent" "s_contactId kick_sent = ''k1''"
  "s_workspaceId kick_sent = ''w1''" "s_sentAt kick_sent = Some 99000"
  by (simp_all add: kick_sent_def campaign_key_def new_campaign_send_def default_send_def)

lemma kick_contact_simps [simp]:
  "ct_id (kick_contact i st) = i" "ct_workspaceId (kick_contact i st) = ''w1''"
  by (simp_all add: kick_contact_def example_contact_def)

lemma resumed_tables:
  "t_contacts resumed_db = [kick_contact ''k1'' StSubscribed, kick_contact ''k2'' StSubscribed]"
  "t_recipients resumed_db =
     [new_recipient ''c1'' (kick_contact ''k1'' StSubscribed), new_recipient ''c1'' (kick_contact ''k2'' StSubscribed)]"
  "sg_definition kick_segment = example_segment" "c_snapshotCursor resumed_campaign = Some ''k2''"
  by (simp_all add: resumed_db_def kick_segment_def resumed_campaign_def)

lemma resumed_members: "segment_members (kick_env_at 100000) 100000 ''w1'' kick_segment resumed_db = {''k1'', ''k2''}"
  by (rule kick_members) (simp add: resumed_db_def)

lemma resumed_ready:
  "kickoff_ready (kick_env_at 100000) 100000 ''w1'' ''c1'' resumed_campaign kick_segment resumed_db"
  unfolding kickoff_ready_def
proof (intro conjI)
  show "sends_derived (rt_sha1 (ke_rt (kick_env_at 100000))) ''w1'' ''c1''
      (segment_members (kick_env_at 100000) 100000 ''w1'' kick_segment resumed_db) (l_sends resumed_db)"
    using kick_ids unfolding resumed_members by (auto simp: sends_derived_def resumed_db_def kick_sent_simps)
  have "in_segment example_pg 100000 resumed_db ''w1'' example_segment (kick_contact i st)" for i st
    by (rule kick_in_segment) (simp_all add: kick_contact_def example_contact_def)
  then have "{c \<in> set (t_contacts resumed_db). in_segment example_pg 100000 resumed_db ''w1'' example_segment c
        \<and> \<not> after_cursor (Some ''k2'') c} = {kick_contact ''k1'' StSubscribed, kick_contact ''k2'' StSubscribed}"
    by (auto simp: resumed_tables after_cursor_id after_id_def)
  then show "snapshot_upto (in_segment (ke_pg (kick_env_at 100000)) 100000 resumed_db ''w1'' (sg_definition kick_segment)) ''w1'' ''c1''
      (c_snapshotCursor resumed_campaign) resumed_db"
    by (simp add: snapshot_upto_def recipient_ids_def resumed_tables)
qed (simp_all add: isWorkspaceSoftDeleted_def getCampaign_def getSegment_def visible_campaign_def kick_schema
    resumed_db_def resumed_campaign_def kick_defs)

lemma resumed_gate:
  "gate_reason resumed_db 100000 ''w1'' ''k1'' = Some ''frequency_cap''" "gate_reason resumed_db 100000 ''w1'' ''k2'' = None"
  by (simp_all add: gate_reason_def find_contact_def evaluatePreSendGate_def sent_in_window_def kick_sent_simps hour_ms_def
      getWorkspaceSendSettings_def DEFAULT_SEND_SETTINGS_def resumed_db_def kick_contact_def example_contact_def)

definition kick_job :: EmailBroadcastJob where
  "kick_job = \<lparr>j_workspaceId = ''w1'', j_campaignId = ''c1'', j_kind = KCampaign, j_contactId = Some ''k2'',
     j_testTo = None, j_testData = None, j_templateId = None, j_fromEmail = None, j_fromName = None\<rparr>"

theorem redelivered_kickoff_drops_recipients_witness:
  "\<exists>r'. processCampaignKickoffJob (kick_env_at 100000) ''w1'' ''c1'' (kick_run resumed_db) = Some (Inr (), r')
     \<and> (''w1'', ''c1'', ''k2'') \<in> set (kr_jobs r')
     \<and> map_option c_status (getCampaign ''w1'' ''c1'' (kr_db r')) = Some CSent
     \<and> processSendJob kick_rt ((example_attempt LimiterConsumed (example_response 202))\<lparr>at_sendMail := \<lambda>key payload. example_response 500\<rparr>)
         (BroadcastJob kick_job) \<lparr>w_db = kr_db r', w_redis = Map.empty\<rparr>
       = processSendJob kick_rt (example_attempt LimiterConsumed (example_response 202))
         (BroadcastJob kick_job) \<lparr>w_db = kr_db r', w_redis = Map.empty\<rparr>"
proof -
  have run: "kr_db (kick_run resumed_db) = resumed_db" by (simp add: kick_run_def)
  have part: "{k \<in> {''k1'', ''k2''}. gate_reason resumed_db 100000 ''w1'' k = None} = {''k2''}"
    using resumed_gate by auto
  show ?thesis
  proof (rule redelivered_kickoff_drops_recipients [OF kick_alone(1,2), where c = resumed_campaign and sg = kick_segment])
    show "kickoff_ready (kick_env_at 100000) 100000 ''w1'' ''c1'' resumed_campaign kick_segment (kr_db (kick_run resumed_db))"
      unfolding run by (rule resumed_ready)
    show "card {k \<in> segment_members (kick_env_at 100000) 100000 ''w1'' kick_segment (kr_db (kick_run resumed_db)).
        gate_reason (kr_db (kick_run resumed_db)) 100000 ''w1'' k = None} \<le> c_sentCount resumed_campaign"
      unfolding run resumed_members part by (simp add: resumed_campaign_def)
    show "''k2'' \<in> segment_members (kick_env_at 100000) 100000 ''w1'' kick_segment (kr_db (kick_run resumed_db))"
      unfolding run resumed_members by simp
    show "gate_reason (kr_db (kick_run resumed_db)) 100000 ''w1'' ''k2'' = None"
      unfolding run by (rule resumed_gate)
  qed (simp_all add: kick_job_def)
qed

end
