(* ===== verification/Campaign_Completion.thy ===== *)
theory Campaign_Completion
  imports Campaign_Faults
begin

text \<open>
  How a campaign comes to its end: what one attempt at a recipient does to the ledger and to the counters,
  and a campaign whose counters cannot reach the total.
\<close>

section \<open>What an attempt does\<close>

text \<open>The claim of a recipient that has no row yet and that the gate lets through.\<close>

definition gate_open :: "uuid \<Rightarrow> uuid \<Rightarrow> crm \<Rightarrow> bool" where
  "gate_open w k db = (\<exists>contact now. find_contact db w k = Some contact \<and> evaluatePreSendGate db now w contact = Sendable)"

definition fresh_claim :: "uuid \<Rightarrow> uuid \<Rightarrow> uuid \<Rightarrow> uuid \<Rightarrow> crm \<Rightarrow> bool" where
  "fresh_claim w i k j db =
     (gate_open w k db \<and> (\<forall>r \<in> set (l_sends db). campaign_key r \<noteq> Some (w, i, k) \<and> s_id r \<noteq> j))"

definition claimed_db :: "uuid \<Rightarrow> uuid \<Rightarrow> uuid \<Rightarrow> uuid \<Rightarrow> instant \<Rightarrow> crm \<Rightarrow> crm" where
  "claimed_db w i k j now db = db\<lparr>l_sends := l_sends db @ [new_campaign_send j w i k now]\<rparr>"

inductive attempt_effect :: "uuid \<Rightarrow> uuid \<Rightarrow> uuid \<Rightarrow> crm \<Rightarrow> crm \<Rightarrow> bool" for w i k db where
  unchanged: "attempt_effect w i k db db"
| excluded: "recordExcluded sha1 now w i k reason db = Inr db' \<Longrightarrow> attempt_effect w i k db db'"
| interrupted: "r \<in> set (l_sends db) \<Longrightarrow> campaign_key r = Some (w, i, k) \<Longrightarrow> s_status r = Dispatching \<Longrightarrow>
    res_status res = RReconciling \<Longrightarrow> attempt_effect w i k db (recordSendResult w now (s_id r) res db)"
| claimed: "fresh_claim w i k j db \<Longrightarrow> attempt_effect w i k db (claimed_db w i k j now db)"
| ambiguous: "fresh_claim w i k j db \<Longrightarrow> res_status res = RReconciling \<Longrightarrow>
    attempt_effect w i k db (recordSendResult w t j res (claimed_db w i k j now db))"
| failed: "fresh_claim w i k j db \<Longrightarrow> res_status res = RFailed \<Longrightarrow>
    attempt_effect w i k db (record_campaign_failed w i t j res (claimed_db w i k j now db))"
| sent: "fresh_claim w i k j db \<Longrightarrow> res_status res = RSent \<Longrightarrow>
    attempt_effect w i k db (record_campaign_sent w i t j res (claimed_db w i k j now db))"

lemma gate_fresh_claim:
  assumes "dispatchSendGate sha1 now w i k db = Inr (db', Claim j False)" "gate_open w k db"
  shows "fresh_claim w i k j db" "db' = claimed_db w i k j now db"
proof -
  let ?n = "new_campaign_send (deriveCampaignSendId sha1 w i k) w i k now"
  have ins: "insert_send campaign_key ?n (l_sends db) = Inr (Some (l_sends db'))" "j = s_id ?n"
    "db' = db\<lparr>l_sends := l_sends db'\<rparr>"
    using assms(1) by (auto simp: dispatchSendGate_def run_gate_def Let_def dest: gate_existing_not_fresh
        split: sum.splits option.splits)
  have new: "campaign_key ?n = Some (w, i, k)" by simp
  show "fresh_claim w i k j db"
    using insert_send_SomeD(2,3) [OF ins(1)] assms(2) new unfolding fresh_claim_def ins(2) by auto
  show "db' = claimed_db w i k j now db"
    using insert_send_SomeD(1) [OF ins(1)] ins(2,3) by (simp add: claimed_db_def)
qed

lemma gate_interrupted_row:
  assumes "dispatchSendGate sha1 now w i k db = Inr (db', Claim j True)"
  shows "db' = db" "\<exists>r \<in> set (l_sends db). campaign_key r = Some (w, i, k) \<and> s_status r = Dispatching \<and> s_id r = j"
proof -
  let ?n = "new_campaign_send (deriveCampaignSendId sha1 w i k) w i k now"
  have "insert_send campaign_key ?n (l_sends db) = Inr None" "db' = db"
    "gate_existing ''dispatchSendGate'' (find (\<lambda>r. campaign_key r = Some (w, i, k)) (l_sends db)) = Inr (Claim j True)"
    using assms by (auto simp: dispatchSendGate_def run_gate_def Let_def split: sum.splits option.splits)
  then show "db' = db" "\<exists>r \<in> set (l_sends db). campaign_key r = Some (w, i, k) \<and> s_status r = Dispatching \<and> s_id r = j"
    by (auto simp: gate_existing_def split: option.splits if_splits dest!: find_Some_iff_mem)
qed

lemma gate_skipped: "dispatchSendGate sha1 now w i k db = Inr (db', Skipped) \<Longrightarrow> db' = db"
  by (auto simp: dispatchSendGate_def run_gate_def Let_def split: sum.splits option.splits)

lemma claim_effect:
  assumes claim: "claimCampaignSend rt now w i k db = Inr (db', res)"
  shows "(case res of
      Proceed cl \<Rightarrow> fresh_claim w i k (cl_sendId cl) db \<and> db' = claimed_db w i k (cl_sendId cl) now db
    | _ \<Rightarrow> attempt_effect w i k db db')"
proof -
  obtain p where p: "readSendPrereqs rt db w i no_override = Inr p"
    using claim by (auto simp: claimCampaignSend_def split: sum.splits)
  show ?thesis
  proof (cases "p_status p \<noteq> CSending \<or> isWorkspaceSoftDeleted db w")
    case True
    with claim p show ?thesis
      by (auto simp: claimCampaignSend_def split: if_splits sum.splits intro: unchanged excluded)
  next
    case False
    obtain ct where ct: "find_contact db w k = Some ct"
      using claim p False by (auto simp: claimCampaignSend_def split: option.splits)
    show ?thesis
    proof (cases "evaluatePreSendGate db now w ct")
      case (NotSendable reason)
      with claim p False ct show ?thesis
        by (auto simp: claimCampaignSend_def split: sum.splits intro: excluded)
    next
      case Sendable
      then have gate: "gate_open w k db" using ct unfolding gate_open_def by blast
      obtain db1 g where g: "dispatchSendGate (rt_sha1 rt) now w i k db = Inr (db1, g)"
        and rest: "claim_of_gate rt now w ct k p (recordSendResult w now) (db1, g) = Inr (db', res)"
        using claim p False ct Sendable by (auto simp: claimCampaignSend_def split: sum.splits)
      show ?thesis
      proof (cases g)
        case Skipped
        with rest g show ?thesis by (auto simp: claim_of_gate_def dest: gate_skipped intro: unchanged)
      next
        case (Claim j b)
        show ?thesis
        proof (cases b)
          case True
          with Claim g obtain r where "r \<in> set (l_sends db)" "campaign_key r = Some (w, i, k)"
            "s_status r = Dispatching" "s_id r = j" "db1 = db" using gate_interrupted_row by metis
          with rest Claim True show ?thesis
            using interrupted [of r db w i k "\<lparr>res_status = RReconciling, res_providerMessageId = None,
              res_dispatchedAt = None, res_dispatchDurationMs = None\<rparr>" now]
            by (auto simp: claim_of_gate_def)
        next
          case False
          with rest Claim g gate show ?thesis
            using gate_fresh_claim [of "rt_sha1 rt" now w i k db db1 j]
            by (auto simp: claim_of_gate_def split: sum.splits)
        qed
      qed
    qed
  qed
qed

lemma plain_result_status [simp]: "res_status (plain_result st m d ms) = st"
  by (simp add: plain_result_def)

lemma call_and_record_cases:
  obtains "fst (call_and_record a ws j rps key pl wr wfl wst db) = db"
  | "fst (call_and_record a ws j rps key pl wr wfl wst db) = releaseDispatchClaim ws j db"
  | res where "res_status res = RReconciling" "fst (call_and_record a ws j rps key pl wr wfl wst db) = wr res db"
  | res where "res_status res = RFailed" "fst (call_and_record a ws j rps key pl wr wfl wst db) = wfl res db"
  | res where "res_status res = RSent" "fst (call_and_record a ws j rps key pl wr wfl wst db) = wst res db"
proof (cases "consumeTenantToken (at_limiter a) ws rps")
  case (Inl e)
  then show thesis by (intro that(1)) (simp add: call_and_record_def)
next
  case rate: (Inr rate)
  note released = that(2) and recorded = that(3,4,5) [OF plain_result_status]
  show thesis
  proof (cases "at_sendMail a key pl")
    case (MailRejected err)
    then show thesis
      using rate released recorded(1)
      by (cases "rate_allowed rate"; cases "classifyTransportError err")
        (simp_all add: call_and_record_def record_outcome_def handleAmbiguousSendMailError_def Let_def)
  next
    case (MailResponse response)
    have denied: thesis if "\<not> rate_allowed rate"
      using that rate by (intro released) (simp add: call_and_record_def)
    consider "resp_status response = 429 \<or> resp_status response \<ge> 500"
      | "\<not> (resp_status response = 429 \<or> resp_status response \<ge> 500)" "resp_status response \<ge> 400"
      | "\<not> (resp_status response = 429 \<or> resp_status response \<ge> 500)" "\<not> resp_status response \<ge> 400" by blast
    then show thesis
    proof cases
      case 1
      with rate MailResponse denied show ?thesis
        by (cases "rate_allowed rate") (auto intro!: released simp: call_and_record_def record_outcome_def)
    next
      case 2
      with rate MailResponse denied recorded(2) show ?thesis
        by (cases "rate_allowed rate") (simp_all add: call_and_record_def record_outcome_def Let_def)
    next
      case 3
      with rate MailResponse denied recorded(3) show ?thesis
        by (cases "rate_allowed rate") (simp_all add: call_and_record_def record_outcome_def Let_def)
    qed
  qed
qed

lemma processCampaignSend_effect:
  "attempt_effect (j_workspaceId job) (j_campaignId job) (nullish (j_contactId job) [])
     (w_db w) (w_db (fst (processCampaignSend rt a job w)))"
proof -
  let ?w = "j_workspaceId job" and ?i = "j_campaignId job" and ?k = "nullish (j_contactId job) []"
  let ?c = "claimCampaignSend rt (at_claim a) ?w ?i ?k (w_db w)"
  show ?thesis
  proof (cases "\<exists>db cl. truthy (j_contactId job) \<and> ?c = Inr (db, Proceed cl)")
    case False
    have "attempt_effect ?w ?i ?k (w_db w) db" if "?c = Inr (db, res)" "\<forall>cl. res \<noteq> Proceed cl" for db res
      using claim_effect [OF that(1)] that(2) by (cases res) auto
    with False show ?thesis
      by (auto simp: processCampaignSend_def Let_def intro: unchanged split: sum.splits ClaimResult.splits)
  next
    case True
    then obtain db cl where contact: "truthy (j_contactId job)" and c: "?c = Inr (db, Proceed cl)" by blast
    obtain w' res where run: "processCampaignSend rt a job w = (w', res)" by fastforce
    have fresh: "fresh_claim ?w ?i ?k (cl_sendId cl) (w_db w)"
      and db: "db = claimed_db ?w ?i ?k (cl_sendId cl) (at_claim a) (w_db w)"
      using claim_effect [OF c] by simp_all
    have released: "releaseDispatchClaim ?w (cl_sendId cl) db = w_db w" by (rule release_campaign_claim [OF c])
    obtain rps key pl where slot:
      "in_lane_slot rt a ?w (laneForSendJobKind (BroadcastJob job)) (releaseDispatchClaim ?w (cl_sendId cl))
         (call_and_record a ?w (cl_sendId cl) rps key pl (recordSendResult ?w (at_record a) (cl_sendId cl))
            (record_campaign_failed ?w ?i (at_record a) (cl_sendId cl))
            (record_campaign_sent ?w ?i (at_record a) (cl_sendId cl))) (w\<lparr>w_db := db\<rparr>) = (w', res)"
      using run contact c by (simp add: processCampaignSend_def Let_def)
    have "attempt_effect ?w ?i ?k (w_db w) (fst (call_and_record a ?w (cl_sendId cl) rps key pl
        (recordSendResult ?w (at_record a) (cl_sendId cl)) (record_campaign_failed ?w ?i (at_record a) (cl_sendId cl))
        (record_campaign_sent ?w ?i (at_record a) (cl_sendId cl)) db))"
      by (rule call_and_record_cases [of a ?w "cl_sendId cl" rps key pl
            "recordSendResult ?w (at_record a) (cl_sendId cl)" "record_campaign_failed ?w ?i (at_record a) (cl_sendId cl)"
            "record_campaign_sent ?w ?i (at_record a) (cl_sendId cl)" db])
        (simp_all add: released unchanged, simp_all add: db claimed [OF fresh] ambiguous [OF fresh] failed [OF fresh]
          sent [OF fresh])
    then show ?thesis
      using in_lane_slot_db [OF slot] claimed [OF fresh, of "at_claim a"]
      by (elim disjE) (simp_all add: run released db [symmetric] unchanged)
  qed
qed

section \<open>Counters that cannot reach the total\<close>

text \<open>The rows of a campaign by status; those that its counters count.\<close>

definition campaign_rows :: "uuid \<Rightarrow> uuid \<Rightarrow> (SendStatus \<Rightarrow> bool) \<Rightarrow> send_row list \<Rightarrow> send_row list" where
  "campaign_rows w i P t = filter (\<lambda>r. campaign_send w i r \<and> P (s_status r)) t"

definition settled :: "SendStatus \<Rightarrow> bool" where
  "settled st = (st = Sent \<or> st = Failed)"

text \<open>The counters count settled rows, of which \<open>m\<close> are not counted yet, and the rows that are not
  excluded belong to fewer contacts than the total says.\<close>

definition short_of :: "uuid \<Rightarrow> uuid \<Rightarrow> uuid set \<Rightarrow> nat \<Rightarrow> crm \<Rightarrow> bool" where
  "short_of w i K m db =
     (ledger_wf db \<and> finite K
      \<and> (\<forall>r \<in> set (campaign_rows w i (\<lambda>st. st \<noteq> Excluded) (l_sends db)). s_contactId r \<in> K)
      \<and> (\<exists>c \<in> set (l_campaigns db). visible_campaign w i c)
      \<and> (\<forall>c \<in> set (l_campaigns db). visible_campaign w i c \<longrightarrow> c_status c = CSending
           \<and> c_sentCount c + c_failedCount c + m \<le> length (campaign_rows w i settled (l_sends db))
           \<and> (\<exists>n. c_sendableTotal c = Some n \<and> card K < n)))"

lemma short_of_count:
  assumes "short_of w i K m db"
  shows "length (campaign_rows w i settled (l_sends db)) + ambiguous_count w i (l_sends db) \<le> card K"
proof -
  let ?P = "\<lambda>st. settled st \<or> ambiguous_status st"
  let ?rows = "campaign_rows w i ?P (l_sends db)"
  have sum: "length (campaign_rows w i settled t) + ambiguous_count w i t = length (campaign_rows w i ?P t)" for t
  proof (induction t)
    case (Cons r t)
    then show ?case
      by (cases "s_status r") (simp_all add: campaign_rows_def campaign_send_def ambiguous_count_def row_count_def
          settled_def ambiguous_status_def)
  qed (simp add: campaign_rows_def ambiguous_count_def row_count_def)
  have key: "campaign_key r = Some (w, i, s_contactId r)" if "r \<in> set ?rows" for r
    using that by (auto simp: campaign_rows_def campaign_send_def campaign_key_def)
  have unique: "unique_key campaign_key (l_sends db)" using assms by (simp add: short_of_def ledger_wf_def)
  have sub: "set ?rows \<subseteq> set (l_sends db)" by (auto simp: campaign_rows_def)
  have "inj_on s_contactId (set ?rows)"
  proof (rule inj_onI)
    fix r r' assume r: "r \<in> set ?rows" "r' \<in> set ?rows" "s_contactId r = s_contactId r'"
    then show "r = r'"
      using unique_key_same [OF unique subsetD [OF sub r(1)] subsetD [OF sub r(2)]] key [OF r(1)] key [OF r(2)] by simp
  qed
  then have card: "card (set ?rows) = card (s_contactId ` set ?rows)" by (simp add: card_image)
  have "distinct (l_sends db)"
    using assms by (auto simp: short_of_def ledger_wf_def unique_key_def id_key_def distinct_map)
  then have len: "length ?rows = card (set ?rows)" by (simp add: campaign_rows_def distinct_card [symmetric])
  have "s_contactId ` set ?rows \<subseteq> K"
    using assms by (auto simp: short_of_def campaign_rows_def settled_def ambiguous_status_def)
  then have "card (s_contactId ` set ?rows) \<le> card K" using assms by (intro card_mono) (simp_all add: short_of_def)
  then show ?thesis using sum card len by simp
qed

text \<open>A write of the ledger that leaves the campaigns alone.\<close>

lemma short_of_sends:
  assumes "short_of w i K m db" "ledger_wf db'" "l_campaigns db' = l_campaigns db"
    and "\<And>r. r \<in> set (campaign_rows w i (\<lambda>st. st \<noteq> Excluded) (l_sends db')) \<Longrightarrow> s_contactId r \<in> K"
    and "length (campaign_rows w i settled (l_sends db)) + d \<le> length (campaign_rows w i settled (l_sends db'))"
  shows "short_of w i K (m + d) db'"
  using assms unfolding short_of_def by fastforce

lemma campaign_rows_append [simp]: "campaign_rows w i P (t @ u) = campaign_rows w i P t @ campaign_rows w i P u"
  by (simp add: campaign_rows_def)

lemma short_of_excluded:
  assumes inv: "short_of w i K m db" and run: "recordExcluded sha1 now w i k reason db = Inr db'"
  shows "short_of w i K m db'"
proof -
  let ?n = "(new_campaign_send (deriveCampaignSendId sha1 w i k) w i k now)
    \<lparr>s_status := Excluded, s_exclusionReason := Some reason\<rparr>"
  have wf: "ledger_wf db'" using wf_recordExcluded inv run unfolding short_of_def by blast
  have new: "campaign_rows w i settled [?n] = []" "campaign_rows w i (\<lambda>st. st \<noteq> Excluded) [?n] = []"
    by (simp_all add: campaign_rows_def settled_def)
  have old: "campaign_rows w i settled (exclude_existing p reason t) = campaign_rows w i settled t"
    "campaign_rows w i (\<lambda>st. st \<noteq> Excluded) (exclude_existing p reason t)
      = filter (\<lambda>r. \<not> (p r \<and> excludable (s_status r))) (campaign_rows w i (\<lambda>st. st \<noteq> Excluded) t)" for p t
    by (induction t) (auto simp: campaign_rows_def campaign_send_def exclude_existing_def settled_def excludable_def)
  have "l_campaigns db' = l_campaigns db
      \<and> (l_sends db' = l_sends db @ [?n] \<or> (\<exists>p. l_sends db' = exclude_existing p reason (l_sends db)))"
    using run by (auto simp: recordExcluded_def run_exclude_def Let_def dest: insert_send_SomeD(1)
        split: sum.splits option.splits)
  then have "l_campaigns db' = l_campaigns db"
    "\<And>r. r \<in> set (campaign_rows w i (\<lambda>st. st \<noteq> Excluded) (l_sends db')) \<Longrightarrow> s_contactId r \<in> K"
    "length (campaign_rows w i settled (l_sends db)) + 0 \<le> length (campaign_rows w i settled (l_sends db'))"
    using inv by (auto simp: short_of_def new old)
  from short_of_sends [OF inv wf this] show ?thesis by simp
qed

lemma short_of_interrupted:
  assumes inv: "short_of w i K m db" and res: "res_status res = RReconciling"
    and r: "r \<in> set (l_sends db)" "s_status r = Dispatching"
  shows "short_of w i K m (recordSendResult w now (s_id r) res db)"
proof -
  let ?db = "recordSendResult w now (s_id r) res db"
  have wf0: "ledger_wf db" using inv by (simp add: short_of_def)
  then have wf: "ledger_wf ?db" by (rule wf_recordSendResult)
  have only: "s_status r' = Dispatching" if "r' \<in> set (l_sends db)" "visible_id w (s_id r) r'" for r'
    using ledger_wf_same_id [OF wf0 that(1) r(1)] that(2) r(2) by (simp add: visible_id_def)
  then have "campaign_rows w i settled (update_where (visible_id w (s_id r)) (write_result now res) t)
      = campaign_rows w i settled t" if "set t \<subseteq> set (l_sends db)" for t
    using that by (induction t) (auto simp: campaign_rows_def campaign_send_def settled_def write_result_def res)
  then have len: "length (campaign_rows w i settled (l_sends db)) + 0 \<le> length (campaign_rows w i settled (l_sends ?db))"
    by (simp add: recordSendResult_def)
  have "s_contactId r' \<in> K" if r': "r' \<in> set (campaign_rows w i (\<lambda>st. st \<noteq> Excluded) (l_sends ?db))" for r'
  proof -
    obtain r0 where r0: "r0 \<in> set (l_sends db)" "r' = (if visible_id w (s_id r) r0 then write_result now res r0 else r0)"
      using r' by (auto simp: campaign_rows_def recordSendResult_def update_where_def)
    then have "s_contactId r' = s_contactId r0" "r0 \<in> set (campaign_rows w i (\<lambda>st. st \<noteq> Excluded) (l_sends db))"
      using r' only [OF r0(1)] by (simp_all add: campaign_rows_def campaign_send_def write_result_def split: if_splits)
    then show ?thesis using inv by (simp add: short_of_def)
  qed
  from short_of_sends [OF inv wf _ this len] show ?thesis by (simp add: recordSendResult_def)
qed

text \<open>A fresh claim, and the answer recorded on it.\<close>

lemma fresh_recorded:
  assumes "fresh_claim w i k j db"
  shows "l_sends (recordSendResult w t j res (claimed_db w i k j now db))
    = l_sends db @ [write_result t res (new_campaign_send j w i k now)]"
proof -
  have "\<forall>r \<in> set (l_sends db). \<not> visible_id w j r" using assms by (simp add: fresh_claim_def visible_id_def)
  then have "update_where (visible_id w j) f (l_sends db) = l_sends db" for f
    by (simp add: update_where_def map_idI)
  moreover have "visible_id w j (new_campaign_send j w i k now)"
    by (simp add: visible_id_def new_campaign_send_def default_send_def)
  ultimately show ?thesis by (simp add: recordSendResult_def claimed_db_def update_where_def)
qed

lemma short_of_appended:
  assumes inv: "short_of w i K m db" and k: "k \<in> K" and wf: "ledger_wf db'"
    and db': "l_campaigns db' = l_campaigns db" "l_sends db' = l_sends db @ [n]" "s_contactId n = k" "campaign_send w i n"
  shows "short_of w i K (m + (if settled (s_status n) then 1 else 0)) db'"
proof (rule short_of_sends [OF inv wf db'(1)])
  show "s_contactId r \<in> K" if "r \<in> set (campaign_rows w i (\<lambda>st. st \<noteq> Excluded) (l_sends db'))" for r
    using that inv k db' by (auto simp: short_of_def campaign_rows_def split: if_splits)
qed (use db' in \<open>simp add: campaign_rows_def\<close>)

lemma ledger_wf_fresh: 
  assumes "ledger_wf db" "fresh_claim w i k j db"
  shows "ledger_wf (claimed_db w i k j now db)"
proof -
  let ?n = "new_campaign_send j w i k now"
  have "unique_key id_key (l_sends db @ [?n])" "unique_key campaign_key (l_sends db @ [?n])"
    using assms by (auto simp: ledger_wf_def fresh_claim_def id_key_def intro!: unique_key_append)
  moreover have "flow_key ?n = None" by (simp add: flow_key_def new_campaign_send_def default_send_def)
  then have "unique_key flow_key (l_sends db @ [?n])" using assms(1) by (simp add: ledger_wf_def unique_key_def)
  ultimately show ?thesis by (simp add: ledger_wf_def claimed_db_def)
qed

lemma short_of_counted:
  assumes inv: "short_of w i K 1 db"
  shows "short_of w i K 0 (fst (tryCompleteCampaign w t i (incrementCampaignSendCounter w t i st db)))"
proof -
  let ?db = "incrementCampaignSendCounter w t i st db"
  have bump: "visible_campaign w i (bump_counter st t c) = visible_campaign w i c"
    "c_sentCount (bump_counter st t c) + c_failedCount (bump_counter st t c) = c_sentCount c + c_failedCount c + 1"
    "c_sendableTotal (bump_counter st t c) = c_sendableTotal c" "c_status (bump_counter st t c) = c_status c" for c
    by (cases st; simp add: visible_campaign_def)+
  have short: "short_of w i K 0 ?db"
  proof -
    obtain c where c: "c \<in> set (l_campaigns db)" "visible_campaign w i c" "c_status c = CSending"
      using inv by (auto simp: short_of_def)
    then have "bump_counter st t c \<in> set (l_campaigns ?db)"
      by (auto simp: incrementCampaignSendCounter_def update_where_def)
    then have some: "\<exists>c \<in> set (l_campaigns ?db). visible_campaign w i c" using c bump(1) by blast
    have each: "c_status c = CSending \<and> c_sentCount c + c_failedCount c + 0 \<le> length (campaign_rows w i settled (l_sends ?db))
        \<and> (\<exists>n. c_sendableTotal c = Some n \<and> card K < n)" if c: "c \<in> set (l_campaigns ?db)" "visible_campaign w i c" for c
    proof -
      obtain c0 where c0: "c0 \<in> set (l_campaigns db)"
        "c = (if visible_campaign w i c0 \<and> c_status c0 = CSending then bump_counter st t c0 else c0)"
        using c(1) by (auto simp: incrementCampaignSendCounter_def update_where_def)
      moreover have "visible_campaign w i c0" using c(2) c0(2) bump(1) by (simp split: if_splits)
      ultimately have old: "c_status c0 = CSending" "c = bump_counter st t c0"
        "c_sentCount c0 + c_failedCount c0 + 1 \<le> length (campaign_rows w i settled (l_sends db))"
        "\<exists>n. c_sendableTotal c0 = Some n \<and> card K < n"
        using inv by (simp_all add: short_of_def)
      then show ?thesis using bump(2) [of c0] by (simp add: bump)
    qed
    have rest: "ledger_wf ?db \<and> finite K
        \<and> (\<forall>r \<in> set (campaign_rows w i (\<lambda>st. st \<noteq> Excluded) (l_sends ?db)). s_contactId r \<in> K)"
      using inv by (simp add: short_of_def)
    show ?thesis unfolding short_of_def using rest some each by blast
  qed
  then have "\<not> completable w i (l_sends ?db) c" if "c \<in> set (l_campaigns ?db)" for c
    using that short_of_count [OF short] short by (force simp: completable_def short_of_def)
  then have "fst (tryCompleteCampaign w t i ?db) = ?db"
    by (simp add: tryCompleteCampaign_def Let_def update_where_def map_idI)
  then show ?thesis using short by simp
qed

lemma attempt_keeps_short:
  assumes effect: "attempt_effect w i k db db'" and inv: "short_of w i K 0 db" and k: "gate_open w k db \<Longrightarrow> k \<in> K"
  shows "short_of w i K 0 db'"
proof -
  have new: "s_contactId (new_campaign_send j w i k now) = k" "campaign_send w i (new_campaign_send j w i k now)"
    "s_status (new_campaign_send j w i k now) = Dispatching" for j now
    by (simp_all add: campaign_send_def new_campaign_send_def default_send_def)
  have wf: "ledger_wf (claimed_db w i k j now db)" if "fresh_claim w i k j db" for j now
    using ledger_wf_fresh inv that by (simp add: short_of_def)
  have recorded: "short_of w i K (if settled (result_status (res_status res)) then 1 else 0)
      (recordSendResult w t j res (claimed_db w i k j now db))" if fresh: "fresh_claim w i k j db" for j res t now
  proof -
    let ?n = "write_result t res (new_campaign_send j w i k now)"
    have K: "k \<in> K" using k fresh by (simp add: fresh_claim_def)
    have wf': "ledger_wf (recordSendResult w t j res (claimed_db w i k j now db))"
      using wf [OF fresh] by (rule wf_recordSendResult)
    have same: "l_campaigns (recordSendResult w t j res (claimed_db w i k j now db)) = l_campaigns db"
      by (simp add: recordSendResult_def claimed_db_def)
    have n: "s_contactId ?n = k" "campaign_send w i ?n" "s_status ?n = result_status (res_status res)"
      using new [of j now] by (simp_all add: write_result_def campaign_send_def)
    show ?thesis
      using short_of_appended [OF inv K wf' same fresh_recorded [OF fresh] n(1,2)] by (simp only: n(3) add_0)
  qed
  show ?thesis
    using effect
  proof cases
    case (claimed j now)
    then show ?thesis
      using short_of_appended [OF inv _ wf [of j now], where n = "new_campaign_send j w i k now" and k = k] k new
      by (simp add: claimed_db_def settled_def fresh_claim_def)
  next
    case (ambiguous j res t now)
    then show ?thesis using recorded [of j res t now] by (simp add: settled_def)
  next
    case (failed j res t now)
    then show ?thesis
      using short_of_counted [of w i K "recordSendResult w t j res (claimed_db w i k j now db)"] recorded [of j res t now]
      by (simp add: settled_def record_campaign_failed_def)
  next
    case (sent j res t now)
    then show ?thesis
      using short_of_counted [of w i K "recordSendResult w t j res (claimed_db w i k j now db)"] recorded [of j res t now]
      by (simp add: settled_def record_campaign_sent_def)
  qed (use inv short_of_excluded short_of_interrupted in \<open>simp_all\<close>)
qed

section \<open>A recipient that may no longer be sent to\<close>

text \<open>Attempts one after the other, each with its job.\<close>

definition run_attempts :: "runtime \<Rightarrow> (attempt \<times> EmailBroadcastJob) list \<Rightarrow> world \<Rightarrow> world" where
  "run_attempts rt attempts w = foldl (\<lambda>w (a, job). fst (processSendJob rt a (BroadcastJob job) w)) w attempts"

definition campaign_job :: "uuid \<Rightarrow> uuid \<Rightarrow> EmailBroadcastJob \<Rightarrow> bool" where
  "campaign_job w i job = (j_kind job = KCampaign \<and> j_workspaceId job = w \<and> j_campaignId job = i)"

lemma attempt_contacts: "attempt_effect w i k db db' \<Longrightarrow> t_contacts db' = t_contacts db"
proof (induction rule: attempt_effect.cases)
  case (excluded sha1 now reason db')
  then show ?case
    by (auto simp: recordExcluded_def run_exclude_def Let_def split: sum.splits option.splits)
qed (simp_all add: recordSendResult_def claimed_db_def record_campaign_failed_def record_campaign_sent_def
    tryCompleteCampaign_def incrementCampaignSendCounter_def Let_def)

lemma unsubscribed_gate:
  "find_contact db w k = Some contact \<Longrightarrow> ct_subscriptionStatus contact \<noteq> StSubscribed \<Longrightarrow> \<not> gate_open w k db"
  by (cases "ct_subscriptionStatus contact") (auto simp: gate_open_def evaluatePreSendGate_def)

lemma run_attempts_short:
  assumes "short_of w i (R - {k}) 0 (w_db wd)"
    and "find_contact (w_db wd) w k = Some contact" "ct_subscriptionStatus contact \<noteq> StSubscribed"
    and "\<forall>(a, job) \<in> set attempts. campaign_job w i job \<and> nullish (j_contactId job) [] \<in> R"
  shows "short_of w i (R - {k}) 0 (w_db (run_attempts rt attempts wd))"
  using assms
proof (induction attempts arbitrary: wd)
  case (Cons x attempts)
  obtain a job where x: "x = (a, job)" by (cases x)
  let ?wd = "fst (processSendJob rt a (BroadcastJob job) wd)"
  have job: "campaign_job w i job" "nullish (j_contactId job) [] \<in> R" using Cons.prems(4) x by auto
  then have effect: "attempt_effect w i (nullish (j_contactId job) []) (w_db wd) (w_db ?wd)"
    using processCampaignSend_effect [of job wd rt a] by (simp add: campaign_job_def processSendJob_def)
  have "gate_open w (nullish (j_contactId job) []) (w_db wd) \<Longrightarrow> nullish (j_contactId job) [] \<in> R - {k}"
    using job(2) unsubscribed_gate [OF Cons.prems(2,3)] by auto
  with attempt_keeps_short [OF effect Cons.prems(1)] have "short_of w i (R - {k}) 0 (w_db ?wd)" by blast
  moreover have "find_contact (w_db ?wd) w k = Some contact"
    using Cons.prems(2) attempt_contacts [OF effect] by (simp add: find_contact_def)
  ultimately have "short_of w i (R - {k}) 0 (w_db (run_attempts rt attempts ?wd))"
    using Cons.IH Cons.prems(3,4) by simp
  then show ?case by (simp add: run_attempts_def x)
qed (simp add: run_attempts_def)

text \<open>C25: A recipient who was counted as sendable and unsubscribes before its attempt leaves the campaign in sending, however often its recipients are attempted.\<close>

theorem late_unsubscribe_blocks_completion:
  assumes wf: "ledger_wf (w_db wd)"
    and fanned: "getCampaign w i (w_db wd) = Some c" "c_status c = CSending" "c_sendableTotal c = Some (card R)"
      "finite R" "c_sentCount c = 0" "c_failedCount c = 0"
      "\<forall>r \<in> set (l_sends (w_db wd)). campaign_send w i r \<longrightarrow> s_status r = Excluded"
      "\<forall>c' \<in> set (l_campaigns (w_db wd)). visible_campaign w i c' \<longrightarrow> c' = c"
    and late: "k \<in> R" "find_contact (w_db wd) w k = Some contact" "ct_subscriptionStatus contact \<noteq> StSubscribed"
    and jobs: "\<forall>(a, job) \<in> set attempts. campaign_job w i job \<and> nullish (j_contactId job) [] \<in> R"
  shows "map_option c_status (getCampaign w i (w_db (run_attempts rt attempts wd))) = Some CSending"
proof -
  have less: "card (R - {k}) < card R" using late(1) fanned(4) by (intro psubset_card_mono) auto
  have none: "campaign_rows w i (\<lambda>st. st \<noteq> Excluded) (l_sends (w_db wd)) = []"
    using fanned(7) by (auto simp: campaign_rows_def filter_empty_conv)
  have some: "\<exists>c \<in> set (l_campaigns (w_db wd)). visible_campaign w i c"
    using getCampaign_SomeD [OF fanned(1)] by blast
  have each: "c_status c' = CSending \<and> c_sentCount c' + c_failedCount c' + 0 \<le> n
      \<and> (\<exists>n. c_sendableTotal c' = Some n \<and> card (R - {k}) < n)"
    if "c' \<in> set (l_campaigns (w_db wd))" "visible_campaign w i c'" for c' n
    using fanned(8) that fanned(2,3,5,6) less by fastforce
  have "short_of w i (R - {k}) 0 (w_db wd)"
    unfolding short_of_def none using wf fanned(4) some each by simp
  from run_attempts_short [OF this late(2,3) jobs, of rt]
  have final: "short_of w i (R - {k}) 0 (w_db (run_attempts rt attempts wd))" .
  then obtain c' where "getCampaign w i (w_db (run_attempts rt attempts wd)) = Some c'"
    unfolding getCampaign_def short_of_def by (metis find_None_iff option.exhaust)
  with final show ?thesis by (auto simp: short_of_def dest: getCampaign_SomeD)
qed

text \<open>Two recipients were fanned out, the second has unsubscribed since.\<close>

definition late_world :: world where
  "late_world = \<lparr>w_db = kick_db
     \<lparr>l_campaigns := [kick_campaign\<lparr>c_fanOutComplete := True, c_sendableTotal := Some 2, c_excludedTotal := Some 0\<rparr>],
      t_contacts := [kick_contact ''k1'' StSubscribed, kick_contact ''k2'' StUnsubscribed]\<rparr>, w_redis = Map.empty\<rparr>"

theorem late_unsubscribe_blocks_completion_witness:
  "map_option c_status (getCampaign ''w1'' ''c1'' (w_db (run_attempts kick_rt
     [(example_attempt LimiterConsumed (example_response 202), kick_job\<lparr>j_contactId := Some ''k1''\<rparr>),
      (example_attempt LimiterConsumed (example_response 202), kick_job)] late_world))) = Some CSending"
  by (rule late_unsubscribe_blocks_completion [where R = "{''k1'', ''k2''}" and k = "''k2''"
        and c = "kick_campaign\<lparr>c_fanOutComplete := True, c_sendableTotal := Some 2, c_excludedTotal := Some 0\<rparr>"
        and contact = "kick_contact ''k2'' StUnsubscribed"])
    (simp_all add: late_world_def getCampaign_def visible_campaign_def ledger_wf_def unique_key_def find_contact_def
      campaign_job_def kick_job_def kick_defs)

end
