(* ===== verification/Campaign_System.thy ===== *)
theory Campaign_System
  imports Campaign_Completion Event_Facts
begin

text \<open>
  The life of all campaigns at once: editors, routes, scheduler, kickoff jobs, send jobs, the reconciler,
  webhook workers and workspace restorations interleave, one transaction per step. Between the commit that
  starts a campaign and the addition of its kickoff to the queue its process owes the addition; a Redis
  failure or a crash loses it.
\<close>

section \<open>Steps\<close>

record campaign_system =
  cs_db :: crm
  cs_used :: "uuid set"
  cs_owed :: "(uuid \<times> uuid) set"
  cs_queue :: kickoff_queue

definition cs_commit :: "crm \<Rightarrow> campaign_system \<Rightarrow> campaign_system" where
  "cs_commit db s = s\<lparr>cs_db := db\<rparr>"

definition cs_insert :: "crm \<Rightarrow> uuid \<Rightarrow> campaign_system \<Rightarrow> campaign_system" where
  "cs_insert db i s = s\<lparr>cs_db := db, cs_used := insert i (cs_used s)\<rparr>"

definition cs_start :: "crm \<Rightarrow> uuid \<times> uuid \<Rightarrow> campaign_system \<Rightarrow> campaign_system" where
  "cs_start db job s = s\<lparr>cs_db := db, cs_owed := insert job (cs_owed s)\<rparr>"

inductive campaign_step :: "campaign_system \<Rightarrow> campaign_system \<Rightarrow> bool" where
  create: "i \<notin> cs_used s \<Longrightarrow> createCampaign now i w input (cs_db s) = Inr (c, db) \<Longrightarrow>
    campaign_step s (cs_insert db i s)"
| duplicate: "j \<notin> cs_used s \<Longrightarrow> duplicateCampaign now j w i user (cs_db s) = Inr (c, db) \<Longrightarrow>
    campaign_step s (cs_insert db j s)"
| edit: "updateCampaign now w i patch (cs_db s) = Inr (c, db) \<Longrightarrow> campaign_step s (cs_commit db s)"
| delete: "deleteCampaign w i (cs_db s) = Inr (b, db) \<Longrightarrow> campaign_step s (cs_commit db s)"
| test_send: "prepareCampaignTestSend now w i opts (cs_db s) = Inr (c, db) \<Longrightarrow> campaign_step s (cs_commit db s)"
| schedule: "scheduleCampaign now w i due opts (cs_db s) = Inr (c, db) \<Longrightarrow> campaign_step s (cs_commit db s)"
| cancel: "cancelCampaign now w i (cs_db s) = Inr (c, db) \<Longrightarrow> campaign_step s (cs_commit db s)"
| launch: "launchCampaign now w i opts (cs_db s) = Inr (c, db) \<Longrightarrow> campaign_step s (cs_start db (w, i) s)"
| transition: "row \<in> set (findDueCampaignCandidates t db0) \<Longrightarrow>
    transitionToSending now locked row (cs_db s) = (db, True) \<Longrightarrow>
    campaign_step s (cs_start db (due_workspaceId row, due_id row) s)"
| enqueue: "job \<in> cs_owed s \<Longrightarrow>
    campaign_step s (s\<lparr>cs_owed := cs_owed s - {job}, cs_queue := add_kickoff (fst job) (snd job) (cs_queue s)\<rparr>)"
| lose: "campaign_step s (s\<lparr>cs_owed := cs_owed s - {job}\<rparr>)"
| restore: "restoreWorkspace now purging destroyed w (cs_db s) = Inr (ids, db) \<Longrightarrow> campaign_step s (cs_commit db s)"
| snapshot: "(w, i) \<in> set (kq_waiting (cs_queue s)) \<Longrightarrow>
    campaign_step s (cs_commit (snd (materializeBatch pg w i cs k now (cs_db s))) s)"
| finish_empty: "(w, i) \<in> set (kq_waiting (cs_queue s)) \<Longrightarrow>
    campaign_step s (cs_commit (complete_empty w i n m now (cs_db s)) s)"
| finish_fan_out: "(w, i) \<in> set (kq_waiting (cs_queue s)) \<Longrightarrow>
    campaign_step s (cs_commit (complete_fan_out w i n m now (cs_db s)) s)"
| dequeue: "campaign_step s (s\<lparr>cs_queue := cs_queue s\<lparr>kq_waiting := remove1 job (kq_waiting (cs_queue s))\<rparr>\<rparr>)"
| count_send: "campaign_step s (cs_commit (incrementCampaignSendCounter w now i st (cs_db s)) s)"
| backfill: "campaign_step s (cs_commit (backfillCampaignSendCounter w now i st (cs_db s)) s)"
| try_complete: "campaign_step s (cs_commit (fst (tryCompleteCampaign w now i (cs_db s))) s)"
| count_event: "campaign_step s (cs_commit (incrementCampaignCounter w now i col (cs_db s)) s)"
| elsewhere: "l_campaigns db = l_campaigns (cs_db s) \<Longrightarrow> campaign_step s (cs_commit db s)"

abbreviation campaign_path :: "campaign_system \<Rightarrow> campaign_system \<Rightarrow> bool" where
  "campaign_path \<equiv> campaign_step\<^sup>*\<^sup>*"

definition campaigns_wf :: "campaign_system \<Rightarrow> bool" where
  "campaigns_wf s = (distinct (map c_id (l_campaigns (cs_db s))) \<and> c_id ` set (l_campaigns (cs_db s)) \<subseteq> cs_used s)"

section \<open>The order of the versions of a row\<close>

definition live_status :: "CampaignStatus \<Rightarrow> bool" where
  "live_status st = (st = CSending \<or> st = CSent \<or> st = CCanceled)"

definition terminal_status :: "CampaignStatus \<Rightarrow> bool" where
  "terminal_status st = (st = CSent \<or> st = CCanceled)"

text \<open>What an editor chooses; the resolved sender is written at launch, too.\<close>

definition content :: "campaign_row \<Rightarrow> string \<times> uuid \<times> string option \<times> string option" where
  "content c = (c_name c, c_segmentId c, c_templateId c, c_fromSenderId c)"

definition sender_of :: "campaign_row \<Rightarrow> string option \<times> string option" where
  "sender_of c = (c_fromEmail c, c_fromName c)"

definition row_later :: "campaign_row \<Rightarrow> campaign_row \<Rightarrow> bool" where
  "row_later c c' =
     (c_id c' = c_id c \<and> c_workspaceId c' = c_workspaceId c \<and> c_version c \<le> c_version c'
      \<and> (c_version c' = c_version c \<longrightarrow> content c' = content c \<and> sender_of c' = sender_of c)
      \<and> (live_status (c_status c) \<longrightarrow> live_status (c_status c') \<and> content c' = content c
          \<and> c_sendingStartedAt c' = c_sendingStartedAt c)
      \<and> (terminal_status (c_status c) \<longrightarrow> c_status c' = c_status c \<and> c_terminalAt c' = c_terminalAt c)
      \<and> (c_fanOutComplete c \<longrightarrow> c_fanOutComplete c')
      \<and> c_sentCount c \<le> c_sentCount c' \<and> c_failedCount c \<le> c_failedCount c')"

lemmas row_later_defs = row_later_def live_status_def terminal_status_def content_def sender_of_def

lemma row_later_id: "row_later c c' \<Longrightarrow> c_id c' = c_id c"
  and row_later_workspace: "row_later c c' \<Longrightarrow> c_workspaceId c' = c_workspaceId c"
  by (simp_all add: row_later_def)

lemma row_later_refl [simp]: "row_later c c"
  by (simp add: row_later_defs)

lemma row_later_trans:
  assumes "row_later a b" "row_later b c"
  shows "row_later a c"
proof -
  have "c_version b = c_version a \<and> c_version c = c_version b" if "c_version c = c_version a"
    using assms that by (simp add: row_later_def)
  then show ?thesis using assms unfolding row_later_def by simp
qed

definition rows_later :: "campaign_row list \<Rightarrow> campaign_row list \<Rightarrow> bool" where
  "rows_later t t' =
     (distinct (map c_id t') \<and> (\<forall>c' \<in> set t'. \<exists>c \<in> set t. row_later c c'))"

lemma rows_later_refl: "distinct (map c_id t) \<Longrightarrow> rows_later t t"
  by (force simp: rows_later_def)

lemma rows_later_update:
  assumes "distinct (map c_id t)" "\<And>c. c \<in> set t \<Longrightarrow> p c \<Longrightarrow> row_later c (f c)"
  shows "rows_later t (update_where p f t)"
proof -
  have "c_id (if p c then f c else c) = c_id c" if "c \<in> set t" for c
    using assms(2) [OF that] by (simp add: row_later_def)
  then have ids: "map c_id (update_where p f t) = map c_id t" by (simp add: update_where_def)
  have "row_later c (if p c then f c else c)" if "c \<in> set t" for c using assms(2) [OF that] by simp
  then have "\<exists>c \<in> set t. row_later c c'" if "c' \<in> set (update_where p f t)" for c'
    using that by (auto simp only: set_update_where)
  then show ?thesis using assms(1) ids by (simp add: rows_later_def)
qed

lemma rows_later_delete: "distinct (map c_id t) \<Longrightarrow> rows_later t (delete_where p t)"
  by (force simp: rows_later_def delete_where_def distinct_map_filter)

section \<open>Every operation moves rows forward\<close>

lemma same_campaign_id:
  "distinct (map c_id t) \<Longrightarrow> c \<in> set t \<Longrightarrow> c' \<in> set t \<Longrightarrow> c_id c' = c_id c \<Longrightarrow> c' = c"
  by (auto simp: distinct_map dest: inj_onD)

lemma getCampaign_unique:
  assumes "distinct (map c_id (l_campaigns db))" "getCampaign w i db = Some c"
    "c' \<in> set (l_campaigns db)" "visible_campaign w i c'"
  shows "c' = c"
  using getCampaign_SomeD [OF assms(2)] same_campaign_id [OF assms(1)] assms(3,4) by (simp add: visible_campaign_def)

lemma locked_update_later:
  assumes run: "locked_update w i check db = Inr (c', db')" and distinct: "distinct (map c_id (l_campaigns db))"
    and forward: "\<And>c g. check c = Inr g \<Longrightarrow> row_later c (g c)"
  shows "rows_later (l_campaigns db) (l_campaigns db')"
proof -
  obtain c g where c: "getCampaign w i db = Some c" and g: "check c = Inr g"
    and db': "db' = write_campaign w i g db"
    using run by (auto simp: locked_update_def split: option.splits sum.splits)
  have "row_later c0 (g c0)" if "c0 \<in> set (l_campaigns db)" "visible_campaign w i c0" for c0
    using getCampaign_unique [OF distinct c that] forward [OF g] by simp
  then show ?thesis unfolding db' by (simp add: write_campaign_def rows_later_update [OF distinct])
qed

lemma editors_later:
  assumes distinct: "distinct (map c_id (l_campaigns db))"
  shows "updateCampaign now w i patch db = Inr (c, db') \<Longrightarrow> rows_later (l_campaigns db) (l_campaigns db')"
    "launchCampaign now w i opts db = Inr (c, db') \<Longrightarrow> rows_later (l_campaigns db) (l_campaigns db')"
    "scheduleCampaign now w i due opts db = Inr (c, db') \<Longrightarrow> rows_later (l_campaigns db) (l_campaigns db')"
    "cancelCampaign now w i db = Inr (c, db') \<Longrightarrow> rows_later (l_campaigns db) (l_campaigns db')"
    "prepareCampaignTestSend now w i opts db = Inr (c, db') \<Longrightarrow> rows_later (l_campaigns db) (l_campaigns db')"
  unfolding updateCampaign_def launchCampaign_def scheduleCampaign_def cancelCampaign_def prepareCampaignTestSend_def
  by (erule locked_update_later [OF _ distinct],
      auto simp: row_later_defs edited_def launched_row_def scheduled_row_def with_sender_def bumped_def Let_def
        split: if_splits)+

lemma write_campaign_later:
  assumes "distinct (map c_id (l_campaigns db))" "\<And>c. row_later c (g c)"
  shows "rows_later (l_campaigns db) (l_campaigns (write_campaign w i g db))"
  using rows_later_update [OF assms(1)] assms(2) by (simp add: write_campaign_def)

lemma rows_later_trans:
  assumes "rows_later t u" "rows_later u v"
  shows "rows_later t v"
  using assms unfolding rows_later_def by (meson row_later_trans)

lemma machine_later:
  assumes distinct: "distinct (map c_id (l_campaigns db))"
  shows "rows_later (l_campaigns db) (l_campaigns (incrementCampaignSendCounter w now i st db))"
    "rows_later (l_campaigns db) (l_campaigns (backfillCampaignSendCounter w now i st db))"
    "rows_later (l_campaigns db) (l_campaigns (incrementCampaignCounter w now i col db))"
    "rows_later (l_campaigns db) (l_campaigns (fst (tryCompleteCampaign w now i db)))"
    "rows_later (l_campaigns db) (l_campaigns (complete_empty w i n m now db))"
    "rows_later (l_campaigns db) (l_campaigns (snd (materializeBatch pg w i cs k now db)))"
    "transitionToSending now locked row db = (db', True) \<Longrightarrow> rows_later (l_campaigns db) (l_campaigns db')"
    "restoreWorkspace now purging destroyed w db = Inr (ids, db') \<Longrightarrow> rows_later (l_campaigns db) (l_campaigns db')"
proof -
  have "row_later c (bump_counter st now c)" for c by (cases st) (simp_all add: row_later_defs)
  then show "rows_later (l_campaigns db) (l_campaigns (incrementCampaignSendCounter w now i st db))"
    "rows_later (l_campaigns db) (l_campaigns (backfillCampaignSendCounter w now i st db))"
    using rows_later_update [OF distinct]
    by (simp_all add: incrementCampaignSendCounter_def backfillCampaignSendCounter_def)
  have "row_later c (bump_campaign col c\<lparr>c_updatedAt := now\<rparr>)" for c by (cases col) (simp_all add: row_later_defs)
  then show "rows_later (l_campaigns db) (l_campaigns (incrementCampaignCounter w now i col db))"
    using rows_later_update [OF distinct] by (simp add: incrementCampaignCounter_def)
  show "rows_later (l_campaigns db) (l_campaigns (fst (tryCompleteCampaign w now i db)))"
    by (simp add: tryCompleteCampaign_def Let_def)
      (rule rows_later_update [OF distinct], auto simp: completable_def row_later_defs)
  show "rows_later (l_campaigns db) (l_campaigns (complete_empty w i n m now db))"
    by (simp add: complete_empty_def) (rule rows_later_update [OF distinct], auto simp: row_later_defs)
  show "rows_later (l_campaigns db) (l_campaigns (snd (materializeBatch pg w i cs k now db)))"
    unfolding materializeBatch_def Let_def write_campaign_def
    by simp (intro conjI impI; rule rows_later_update [OF distinct]; simp add: row_later_defs)
  show "rows_later (l_campaigns db) (l_campaigns db')"
    if "restoreWorkspace now purging destroyed w db = Inr (ids, db')"
    using that
    by (auto simp: restoreWorkspace_def is_due_def row_later_defs Let_def split: if_splits option.splits
        intro!: rows_later_update [OF distinct])
  assume run: "transitionToSending now locked row db = (db', True)"
  then obtain c where c: "c \<in> set (l_campaigns db)" "visible_campaign (due_workspaceId row) (due_id row) c"
    "c_status c = CScheduled"
    by (auto simp: transitionToSending_def row_count_zero is_due_def split: if_splits)
  have only: "c' = c" if "c' \<in> set (l_campaigns db)" "visible_campaign (due_workspaceId row) (due_id row) c'" for c'
    using that(2) c same_campaign_id [OF distinct c(1) that(1)] by (simp add: visible_campaign_def)
  have db': "db' = write_campaign (due_workspaceId row) (due_id row)
      (\<lambda>c. c\<lparr>c_status := CSending, c_sendingStartedAt := Some now, c_updatedAt := now\<rparr>) db"
    using run by (auto simp: transitionToSending_def split: if_splits)
  have "rows_later (l_campaigns db) (update_where (visible_campaign (due_workspaceId row) (due_id row))
      (\<lambda>c. c\<lparr>c_status := CSending, c_sendingStartedAt := Some now, c_updatedAt := now\<rparr>) (l_campaigns db))"
    by (rule rows_later_update [OF distinct]) (drule (1) only, simp add: row_later_defs c(3))
  then show "rows_later (l_campaigns db) (l_campaigns db')" by (simp add: db' write_campaign_def)
qed

lemma complete_fan_out_later:
  assumes distinct: "distinct (map c_id (l_campaigns db))"
  shows "rows_later (l_campaigns db) (l_campaigns (complete_fan_out w i n m now db))"
proof -
  let ?db = "write_campaign w i (\<lambda>c. c\<lparr>c_sendableTotal := Some n, c_excludedTotal := Some m, c_fanOutComplete := True,
    c_updatedAt := now\<rparr>) db"
  have first: "rows_later (l_campaigns db) (l_campaigns ?db)"
    by (rule write_campaign_later [OF distinct]) (simp add: row_later_defs)
  then have "distinct (map c_id (l_campaigns ?db))" by (simp add: rows_later_def)
  from rows_later_trans [OF first machine_later(4) [OF this]] show ?thesis by (simp add: complete_fan_out_def)
qed

section \<open>Reachable states\<close>

text \<open>After a step the rows are later versions of the old ones, or one new row with an unused id.\<close>

lemma step_cases:
  assumes "campaign_step s s'" "campaigns_wf s"
  shows "cs_used s \<subseteq> cs_used s'"
    and "rows_later (l_campaigns (cs_db s)) (l_campaigns (cs_db s'))
      \<or> (\<exists>c. l_campaigns (cs_db s') = l_campaigns (cs_db s) @ [c] \<and> c_id c \<notin> cs_used s \<and> c_id c \<in> cs_used s')"
proof -
  have distinct: "distinct (map c_id (l_campaigns (cs_db s)))" using assms(2) by (simp add: campaigns_wf_def)
  show "cs_used s \<subseteq> cs_used s'"
    using assms(1) by cases (auto simp: cs_commit_def cs_insert_def cs_start_def)
  show "rows_later (l_campaigns (cs_db s)) (l_campaigns (cs_db s'))
      \<or> (\<exists>c. l_campaigns (cs_db s') = l_campaigns (cs_db s) @ [c] \<and> c_id c \<notin> cs_used s \<and> c_id c \<in> cs_used s')"
    using assms(1)
  proof cases
    case (create i now w input c db)
    then show ?thesis by (auto simp: createCampaign_def insert_campaign_def new_campaign_def cs_insert_def split: if_splits)
  next
    case (duplicate j now w i user c db)
    then show ?thesis
      by (auto simp: duplicateCampaign_def insert_campaign_def new_campaign_def cs_insert_def
          split: if_splits option.splits)
  next
    case (delete w i b db)
    then show ?thesis
      by (auto simp: deleteCampaign_def cs_commit_def rows_later_refl [OF distinct] rows_later_delete [OF distinct]
          split: if_splits option.splits)
  qed (auto simp: cs_commit_def cs_start_def rows_later_refl [OF distinct]
      intro: editors_later [OF distinct] machine_later [OF distinct] complete_fan_out_later [OF distinct])
qed

lemma step_wf: "campaign_step s s' \<Longrightarrow> campaigns_wf s \<Longrightarrow> campaigns_wf s'"
proof -
  assume step: "campaign_step s s'" and wf: "campaigns_wf s"
  note used = step_cases(1) [OF step wf]
  from step_cases(2) [OF step wf] show "campaigns_wf s'"
  proof
    assume later: "rows_later (l_campaigns (cs_db s)) (l_campaigns (cs_db s'))"
    then have "c_id c' \<in> c_id ` set (l_campaigns (cs_db s))" if "c' \<in> set (l_campaigns (cs_db s'))" for c'
      using that unfolding rows_later_def row_later_def by (metis imageI)
    then show ?thesis using later wf used by (force simp: campaigns_wf_def rows_later_def)
  next
    assume "\<exists>c. l_campaigns (cs_db s') = l_campaigns (cs_db s) @ [c] \<and> c_id c \<notin> cs_used s \<and> c_id c \<in> cs_used s'"
    then show ?thesis using wf used by (auto simp: campaigns_wf_def image_subset_iff dest: subsetD)
  qed
qed

lemma path_wf: "campaign_path s s' \<Longrightarrow> campaigns_wf s \<Longrightarrow> campaigns_wf s'"
  by (induction rule: rtranclp_induct) (auto intro: step_wf)

lemma path_later:
  assumes "campaign_path s s'" "campaigns_wf s" "c' \<in> set (l_campaigns (cs_db s'))" "c_id c' \<in> cs_used s"
  shows "\<exists>c \<in> set (l_campaigns (cs_db s)). row_later c c'"
  using assms
proof (induction arbitrary: c' rule: rtranclp_induct)
  case (step s1 s2)
  have wf: "campaigns_wf s1" using path_wf [OF step.hyps(1) step.prems(1)] .
  have "cs_used s \<subseteq> cs_used s1"
    using step.hyps(1) step.prems(1)
    by (induction rule: rtranclp_induct) (auto dest!: path_wf intro: step_cases(1) [THEN subsetD])
  then obtain c1 where c1: "c1 \<in> set (l_campaigns (cs_db s1))" "row_later c1 c'"
    using step_cases(2) [OF step.hyps(2) wf] step.prems(2,3) unfolding rows_later_def by force
  then have "c_id c1 \<in> cs_used s" using step.prems(3) by (simp add: row_later_def)
  with step.IH [OF step.prems(1) c1(1)] c1(2) show ?case by (meson row_later_trans)
qed (use row_later_refl in blast)

section \<open>A lost kickoff\<close>

definition stuck :: "uuid \<Rightarrow> campaign_row \<Rightarrow> bool" where
  "stuck i c = (c_id c = i \<longrightarrow> c_status c = CSending \<and> \<not> c_fanOutComplete c \<or> c_status c = CCanceled)"

definition stranded :: "uuid \<Rightarrow> campaign_system \<Rightarrow> bool" where
  "stranded i s =
     (i \<in> cs_used s \<and> list_all (stuck i) (l_campaigns (cs_db s))
      \<and> (\<forall>w. (w, i) \<notin> cs_owed s \<and> (w, i) \<notin> set (kq_waiting (cs_queue s))))"

lemma stuck_update:
  "list_all (stuck i) t \<Longrightarrow> (\<And>c. c \<in> set t \<Longrightarrow> p c \<Longrightarrow> stuck i c \<Longrightarrow> stuck i (f c)) \<Longrightarrow> list_all (stuck i) (update_where p f t)"
  by (auto simp: list_all_iff update_where_def)

lemma stuck_locked:
  assumes run: "locked_update w j check db = Inr (c', db')" and stuck: "list_all (stuck i) (l_campaigns db)"
    and distinct: "distinct (map c_id (l_campaigns db))"
    and ok: "\<And>c g. check c = Inr g \<Longrightarrow> stuck i c \<Longrightarrow> stuck i (g c)"
  shows "list_all (stuck i) (l_campaigns db')"
proof -
  obtain c g where c: "getCampaign w j db = Some c" and g: "check c = Inr g" and db': "db' = write_campaign w j g db"
    using run by (auto simp: locked_update_def split: option.splits sum.splits)
  show ?thesis
    unfolding db' write_campaign_def
    by (simp, rule stuck_update [OF stuck]) (metis getCampaign_unique [OF distinct c] ok [OF g])
qed

lemma stuck_not_started:
  assumes "launchCampaign now w i opts db = Inr (c, db')"
  shows "\<exists>c \<in> set (l_campaigns db). c_id c = i \<and> c_status c = CDraft"
  using assms getCampaign_SomeD [of w i db]
  by (force simp: launchCampaign_def locked_update_def visible_campaign_def split: option.splits if_splits)

lemma stranded_step:
  assumes step: "campaign_step s s'" and wf: "campaigns_wf s" and inv: "stranded i s"
  shows "stranded i s'"
proof -
  have distinct: "distinct (map c_id (l_campaigns (cs_db s)))" using wf by (simp add: campaigns_wf_def)
  have rows: "list_all (stuck i) (l_campaigns (cs_db s))" using inv by (simp add: stranded_def)
  note update = stuck_update [OF rows]
  show ?thesis
    using step
  proof cases
    case (create j now w input c db)
    then show ?thesis
      using inv by (auto simp: stranded_def createCampaign_def insert_campaign_def new_campaign_def cs_insert_def stuck_def
          split: if_splits)
  next
    case (duplicate j now w k user c db)
    then show ?thesis
      using inv by (auto simp: stranded_def duplicateCampaign_def insert_campaign_def new_campaign_def cs_insert_def
          stuck_def split: if_splits option.splits)
  next
    case (edit now w j patch c db)
    then have "list_all (stuck i) (l_campaigns db)"
      unfolding updateCampaign_def by (elim stuck_locked [OF _ rows distinct])
        (auto simp: stuck_def edited_def bumped_def split: if_splits)
    then show ?thesis using inv edit by (simp add: stranded_def cs_commit_def)
  next
    case (delete w j b db)
    then show ?thesis
      using inv by (auto simp: stranded_def deleteCampaign_def cs_commit_def list_all_iff delete_where_def
          split: if_splits option.splits)
  next
    case (test_send now w j opts c db)
    then have "list_all (stuck i) (l_campaigns db)"
      unfolding prepareCampaignTestSend_def Let_def by (elim stuck_locked [OF _ rows distinct])
        (auto simp: stuck_def bumped_def split: if_splits)
    then show ?thesis using inv test_send by (simp add: stranded_def cs_commit_def)
  next
    case (schedule now w j due opts c db)
    then have "list_all (stuck i) (l_campaigns db)"
      unfolding scheduleCampaign_def by (elim stuck_locked [OF _ rows distinct])
        (auto simp: stuck_def scheduled_row_def with_sender_def bumped_def split: if_splits)
    then show ?thesis using inv schedule by (simp add: stranded_def cs_commit_def)
  next
    case (cancel now w j c db)
    then have "list_all (stuck i) (l_campaigns db)"
      unfolding cancelCampaign_def by (elim stuck_locked [OF _ rows distinct])
        (auto simp: stuck_def bumped_def split: if_splits)
    then show ?thesis using inv cancel by (simp add: stranded_def cs_commit_def)
  next
    case (launch now w j opts c db)
    then have "list_all (stuck i) (l_campaigns db)"
      unfolding launchCampaign_def by (elim stuck_locked [OF _ rows distinct])
        (auto simp: stuck_def launched_row_def with_sender_def bumped_def split: if_splits)
    moreover have "j \<noteq> i"
      using stuck_not_started [OF launch(2)] rows by (auto simp: list_all_iff stuck_def)
    ultimately show ?thesis using inv launch by (simp add: stranded_def cs_start_def)
  next
    case (transition row t db0 now locked db)
    then obtain c where c: "c \<in> set (l_campaigns (cs_db s))" "c_id c = due_id row" "c_status c = CScheduled"
      by (auto simp: transitionToSending_def row_count_zero is_due_def visible_campaign_def split: if_splits)
    then have other: "due_id row \<noteq> i" using rows by (auto simp: list_all_iff stuck_def)
    then have "list_all (stuck i) (l_campaigns db)"
      using transition(3) by (auto simp: transitionToSending_def write_campaign_def visible_campaign_def stuck_def
          split: if_splits intro!: update)
    then show ?thesis using inv transition other by (simp add: stranded_def cs_start_def)
  next
    case (enqueue job)
    then show ?thesis using inv by (cases job) (auto simp: stranded_def add_kickoff_def)
  next
    case (restore now purging destroyed w ids db)
    then have "list_all (stuck i) (l_campaigns db)"
      by (auto simp: restoreWorkspace_def is_due_def stuck_def Let_def split: if_splits option.splits intro!: update)
    then show ?thesis using inv restore by (simp add: stranded_def cs_commit_def)
  next
    case (snapshot w j pg cs k now)
    then have "j \<noteq> i" using inv by (auto simp: stranded_def)
    then show ?thesis
      using inv snapshot by (auto simp: stranded_def cs_commit_def materializeBatch_def Let_def write_campaign_def
          visible_campaign_def stuck_def intro!: update)
  next
    case (finish_empty w j n m now)
    then have "j \<noteq> i" using inv by (auto simp: stranded_def)
    then show ?thesis
      using inv finish_empty
      by (auto simp: stranded_def cs_commit_def complete_empty_def visible_campaign_def stuck_def intro!: update)
  next
    case (finish_fan_out w j n m now)
    then have "j \<noteq> i" using inv by (auto simp: stranded_def)
    then show ?thesis
      using inv finish_fan_out
      by (auto simp: stranded_def cs_commit_def complete_fan_out_def tryCompleteCampaign_def completable_def Let_def
          write_campaign_def visible_campaign_def stuck_def intro!: update stuck_update)
  next
    case (dequeue job)
    then show ?thesis using inv set_remove1_subset [of job] by (auto simp: stranded_def)
  next
    case (count_send w now j st)
    have "stuck i (bump_counter st now c) = stuck i c" for c by (cases st) (simp_all add: stuck_def)
    then show ?thesis
      using inv count_send by (auto simp: stranded_def cs_commit_def incrementCampaignSendCounter_def intro!: update)
  next
    case (backfill w now j st)
    have "stuck i (bump_counter st now c) = stuck i c" for c by (cases st) (simp_all add: stuck_def)
    then show ?thesis
      using inv backfill by (auto simp: stranded_def cs_commit_def backfillCampaignSendCounter_def intro!: update)
  next
    case (try_complete w now j)
    then show ?thesis
      using inv by (auto simp: stranded_def cs_commit_def tryCompleteCampaign_def completable_def Let_def stuck_def
          intro!: update)
  next
    case (count_event w now j col)
    have "stuck i (bump_campaign col c\<lparr>c_updatedAt := now\<rparr>) = stuck i c" for c by (cases col) (simp_all add: stuck_def)
    then show ?thesis
      using inv count_event by (auto simp: stranded_def cs_commit_def incrementCampaignCounter_def intro!: update)
  qed (use inv in \<open>auto simp: stranded_def cs_commit_def\<close>)
qed

lemma stranded_path: "campaign_path s s' \<Longrightarrow> campaigns_wf s \<Longrightarrow> stranded i s \<Longrightarrow> stranded i s'"
  by (induction rule: rtranclp_induct) (blast intro: stranded_step path_wf)+

section \<open>What an editor saw\<close>

lemma path_used: "campaign_path s s' \<Longrightarrow> campaigns_wf s \<Longrightarrow> cs_used s \<subseteq> cs_used s'"
proof (induction rule: rtranclp_induct)
  case (step s1 s2)
  then show ?case using step_cases(1) [OF step.hyps(2) path_wf [OF step.hyps(1) step.prems]] by blast
qed simp

lemma getCampaign_mem:
  assumes "campaigns_wf s" "c \<in> set (l_campaigns (cs_db s))"
  shows "getCampaign (c_workspaceId c) (c_id c) (cs_db s) = Some c"
proof -
  have "visible_campaign (c_workspaceId c) (c_id c) c" by (simp add: visible_campaign_def)
  then obtain c' where c': "getCampaign (c_workspaceId c) (c_id c) (cs_db s) = Some c'"
    using assms(2) unfolding getCampaign_def by (metis find_None_iff option.exhaust)
  have "distinct (map c_id (l_campaigns (cs_db s)))" using assms(1) by (simp add: campaigns_wf_def)
  then have "c = c'"
    using getCampaign_unique [OF _ c' assms(2)] by (simp add: visible_campaign_def)
  with c' show ?thesis by simp
qed

lemma path_read:
  assumes "campaign_path s s'" "campaigns_wf s" "getCampaign w i (cs_db s') = Some c'" "i \<in> cs_used s"
  shows "\<exists>c. getCampaign w i (cs_db s) = Some c \<and> row_later c c'"
proof -
  have c': "c' \<in> set (l_campaigns (cs_db s'))" "c_id c' = i" "c_workspaceId c' = w"
    using getCampaign_SomeD [OF assms(3)] by (simp_all add: visible_campaign_def)
  obtain c where c: "c \<in> set (l_campaigns (cs_db s))" "row_later c c'"
    using path_later [OF assms(1,2) c'(1)] assms(4) c'(2) by blast
  then have "getCampaign (c_workspaceId c') (c_id c') (cs_db s) = Some c"
    using getCampaign_mem [OF assms(2) c(1)] by (simp add: row_later_def)
  then show ?thesis using c(2) c' by blast
qed

lemma same_version_same_content:
  assumes path: "campaign_path s s0" "campaign_path s0 s1" and wf: "campaigns_wf s"
    and read: "getCampaign w i (cs_db s) = Some c" "getCampaign w i (cs_db s1) = Some c1" "c_version c1 = c_version c"
  obtains c0 where "getCampaign w i (cs_db s0) = Some c0" "content c0 = content c" "sender_of c0 = sender_of c"
    "content c1 = content c" "sender_of c1 = sender_of c"
proof -
  have c: "c \<in> set (l_campaigns (cs_db s))" "c_id c = i"
    using getCampaign_SomeD [OF read(1)] by (simp_all add: visible_campaign_def)
  then have used: "i \<in> cs_used s" using wf by (auto simp: campaigns_wf_def)
  then obtain c0 where c0: "getCampaign w i (cs_db s0) = Some c0" "row_later c0 c1"
    using path_read [OF path(2) path_wf [OF path(1) wf] read(2)] path_used [OF path(1) wf] by blast
  obtain c' where "getCampaign w i (cs_db s) = Some c'" "row_later c' c0"
    using path_read [OF path(1) wf c0(1) used] by blast
  then have "row_later c c0" using read(1) by simp
  with c0(2) read(3) show thesis
    by (intro that [OF c0(1)]) (simp_all add: row_later_def)
qed

lemma resolved_version:
  assumes "resolved_options rt validate w i v db = Inr opts"
  shows "lo_expectedVersion opts = v"
proof (cases "getCampaign w i db")
  case (Some c)
  then show ?thesis
    using assms by (cases "resolveCampaignSender rt validate db w c") (auto simp: resolved_options_def Let_def split: if_splits)
qed (use assms in \<open>auto simp: resolved_options_def\<close>)

section \<open>Properties\<close>


text \<open>C22: A launch that succeeds sends exactly what its editor saw: the content that was read with the expected version, from the sender that the route resolved, whatever was committed in between.\<close>

theorem launch_acts_on_what_was_read:
  assumes path: "campaign_path s s0" "campaign_path s0 s1" and wf: "campaigns_wf s"
    and read: "getCampaign w i (cs_db s) = Some c"
    and resolved: "resolved_options rt validate w i (c_version c) (cs_db s0) = Inr opts"
    and launch: "launchCampaign now w i opts (cs_db s1) = Inr (launched, db)"
  shows "c_status launched = CSending \<and> content launched = content c
    \<and> (\<exists>e. resolveCampaignSender rt validate (cs_db s0) w c = Inr e
           \<and> sender_of launched = (Some (rs_fromEmail e), rs_fromName e))"
proof -
  have version: "lo_expectedVersion opts = c_version c"
    using resolved by (rule resolved_version)
  obtain c1 where c1: "getCampaign w i (cs_db s1) = Some c1" "c_version c1 = c_version c" "launchable c1"
    and launched: "launched = launched_row now opts c1"
    using launch version by (auto simp: launchCampaign_def locked_update_def split: option.splits if_splits)
  obtain c0 where c0: "getCampaign w i (cs_db s0) = Some c0" "content c0 = content c" "sender_of c0 = sender_of c"
    and same: "content c1 = content c" "sender_of c1 = sender_of c"
    using same_version_same_content [OF path wf read c1(1,2)] by blast
  have sender: "c_fromSenderId c0 = c_fromSenderId c" "c_fromEmail c0 = c_fromEmail c"
    "truthy (c_fromSenderId c) \<or> truthy (c_fromEmail c)"
    using c0(2,3) same c1(3) by (auto simp: content_def sender_of_def launchable_def)
  have "resolveCampaignSender rt validate (cs_db s0) w c0 = resolveCampaignSender rt validate (cs_db s0) w c"
    by (simp only: resolveCampaignSender_def sender(1,2))
  with sender(3) obtain e where e: "resolveCampaignSender rt validate (cs_db s0) w c = Inr e"
    "lo_resolvedFromEmail opts = Some (rs_fromEmail e)" "lo_resolvedFromName opts = Some (rs_fromName e)"
    using resolved c0(1) sender(1,2) by (cases "resolveCampaignSender rt validate (cs_db s0) w c")
      (auto simp: resolved_options_def Let_def split: if_splits)
  then show ?thesis
    using same by (simp add: launched launched_row_def bumped_def with_sender_def content_def sender_of_def coalesce_def
        nullish_def)
qed

text \<open>C23: Where the addition of the kickoff fails after the launch was committed, the campaign stays in sending without a kickoff for ever, or until it is cancelled: no other step of the system starts it again.\<close>

theorem lost_kickoff_strands_campaign:
  assumes wf: "campaigns_wf s" and draft: "getCampaign w i (cs_db s) = Some c" "\<not> c_fanOutComplete c"
    and idle: "\<forall>v. (v, i) \<notin> cs_owed s \<and> (v, i) \<notin> set (kq_waiting (cs_queue s))"
    and launch: "launchCampaign now w i opts (cs_db s) = Inr (launched, db)"
    and lost: "campaign_path ((cs_start db (w, i) s)\<lparr>cs_owed := cs_owed (cs_start db (w, i) s) - {(w, i)}\<rparr>) s'"
  shows "(\<forall>c' \<in> set (l_campaigns (cs_db s')). c_id c' \<noteq> i \<or> c_status c' = CCanceled
      \<or> (c_status c' = CSending \<and> \<not> c_fanOutComplete c'))
    \<and> (\<forall>v. (v, i) \<notin> set (kq_waiting (cs_queue s')))"
proof -
  let ?s = "(cs_start db (w, i) s)\<lparr>cs_owed := cs_owed (cs_start db (w, i) s) - {(w, i)}\<rparr>"
  have distinct: "distinct (map c_id (l_campaigns (cs_db s)))" using wf by (simp add: campaigns_wf_def)
  have c: "c \<in> set (l_campaigns (cs_db s))" "c_id c = i"
    using getCampaign_SomeD [OF draft(1)] by (simp_all add: visible_campaign_def)
  have db: "db = write_campaign w i (launched_row now opts) (cs_db s)"
    using launch by (auto simp: launchCampaign_def locked_update_def split: option.splits if_splits)
  have "stuck i (if visible_campaign w i c' then launched_row now opts c' else c')"
    if "c' \<in> set (l_campaigns (cs_db s))" for c'
  proof (cases "c_id c' = i")
    case True
    then have "c' = c" using same_campaign_id [OF distinct c(1) that] c(2) by simp
    then show ?thesis
      using getCampaign_SomeD [OF draft(1)] draft(2)
      by (simp add: stuck_def launched_row_def bumped_def with_sender_def)
  qed (simp add: stuck_def launched_row_def bumped_def with_sender_def)
  then have "list_all (stuck i) (l_campaigns db)"
    by (force simp: db write_campaign_def list_all_iff update_where_def)
  then have "stranded i ?s"
    using idle c wf by (auto simp: stranded_def cs_start_def campaigns_wf_def)
  moreover have "campaigns_wf ?s"
    using step_wf [OF campaign_step.lose] step_wf [OF campaign_step.launch [OF launch] wf] by blast
  ultimately have "stranded i s'" using stranded_path [OF lost] by blast
  then show ?thesis by (auto simp: stranded_def stuck_def list_all_iff)
qed

section \<open>A campaign from its draft to a lost kickoff\<close>

definition draft_campaign :: campaign_row where
  "draft_campaign = new_campaign 0 ''c1'' ''w1'' ''news'' ''g1'' (Some ''t1'') None (Some ''a@b.c'') None ''u1''"

definition draft_system :: campaign_system where
  "draft_system = \<lparr>cs_db = kick_db\<lparr>l_campaigns := [draft_campaign]\<rparr>, cs_used = {''c1''}, cs_owed = {},
     cs_queue = \<lparr>kq_known = [], kq_waiting = []\<rparr>\<rparr>"

definition draft_options :: LaunchCampaignOptions where
  "draft_options = \<lparr>lo_expectedVersion = 1, lo_resolvedFromEmail = Some ''a@b.c'', lo_resolvedFromName = Some None\<rparr>"

definition launched_db :: crm where
  "launched_db = kick_db\<lparr>l_campaigns := [launched_row 5 draft_options draft_campaign]\<rparr>"

lemma draft_wf: "campaigns_wf draft_system"
  by (simp add: campaigns_wf_def draft_system_def draft_campaign_def new_campaign_def)

lemma draft_read: "getCampaign ''w1'' ''c1'' (cs_db draft_system) = Some draft_campaign"
  by (simp add: getCampaign_def draft_system_def visible_campaign_def draft_campaign_def new_campaign_def)

lemma draft_launch:
  "launchCampaign 5 ''w1'' ''c1'' draft_options (cs_db draft_system)
     = Inr (launched_row 5 draft_options draft_campaign, launched_db)"
  unfolding launchCampaign_def locked_update_def draft_read
  by (simp add: launchable_def draft_campaign_def new_campaign_def draft_options_def write_campaign_def
      draft_system_def launched_db_def visible_campaign_def update_where_def)

lemma draft_resolved:
  "resolved_options kick_rt (\<lambda>key. None) ''w1'' ''c1'' (c_version draft_campaign) (cs_db draft_system) = Inr draft_options"
  unfolding resolved_options_def draft_read
  by (simp add: draft_campaign_def new_campaign_def resolveCampaignSender_def draft_options_def Let_def)

theorem launch_acts_on_what_was_read_witness:
  "content (launched_row 5 draft_options draft_campaign) = (''news'', ''g1'', Some ''t1'', None)"
  using launch_acts_on_what_was_read [OF rtranclp.rtrancl_refl rtranclp.rtrancl_refl draft_wf draft_read draft_resolved
      draft_launch]
  by (simp add: content_def draft_campaign_def new_campaign_def)


theorem lost_kickoff_strands_campaign_witness:
  "list_all (stuck ''c1'') (l_campaigns (fst (tryCompleteCampaign ''w1'' 9 ''c1'' launched_db)))"
proof -
  let ?s = "(cs_start launched_db (''w1'', ''c1'') draft_system)
    \<lparr>cs_owed := cs_owed (cs_start launched_db (''w1'', ''c1'') draft_system) - {(''w1'', ''c1'')}\<rparr>"
  have db: "cs_db ?s = launched_db" by (simp add: cs_start_def)
  have path: "campaign_path ?s (cs_commit (fst (tryCompleteCampaign ''w1'' 9 ''c1'' (cs_db ?s))) ?s)"
    by (rule r_into_rtranclp) (rule campaign_step.try_complete)
  have idle: "\<not> c_fanOutComplete draft_campaign"
    "\<forall>v. (v, ''c1'') \<notin> cs_owed draft_system \<and> (v, ''c1'') \<notin> set (kq_waiting (cs_queue draft_system))"
    by (simp_all add: draft_campaign_def new_campaign_def draft_system_def)
  have "\<forall>c' \<in> set (l_campaigns (fst (tryCompleteCampaign ''w1'' 9 ''c1'' launched_db))). c_id c' \<noteq> ''c1''
      \<or> c_status c' = CCanceled \<or> (c_status c' = CSending \<and> \<not> c_fanOutComplete c')"
    using lost_kickoff_strands_campaign [OF draft_wf draft_read idle draft_launch path]
    unfolding cs_commit_def db by simp
  then show ?thesis by (auto simp: list_all_iff stuck_def)
qed

end
