(* ===== verification/Campaign_Refinement.thy ===== *)
theory Campaign_Refinement
  imports Campaign_System
begin

text \<open>
  A run of the kickoff job, as the code has it, is a path of the steps of the campaign system, whatever the
  other processes commit between its transactions.
\<close>

section \<open>Runs as paths\<close>

definition kickoff_reaches :: "uuid \<Rightarrow> uuid \<Rightarrow> kickoff_run \<Rightarrow> kickoff_run \<Rightarrow> bool" where
  "kickoff_reaches w i r r' =
     (\<forall>s. cs_db s = kr_db r \<and> (w, i) \<in> set (kq_waiting (cs_queue s)) \<longrightarrow> campaign_path s (cs_commit (kr_db r') s))"

definition others_step :: "kick_env \<Rightarrow> bool" where
  "others_step env = (\<forall>k s. campaign_path s (cs_commit (ke_others env k (cs_db s)) s))"

lemma cs_commit_simps [simp]: "cs_db (cs_commit db s) = db" "cs_queue (cs_commit db s) = cs_queue s"
  "cs_commit db' (cs_commit db s) = cs_commit db' s" "cs_commit (cs_db s) s = s" for s :: campaign_system
  by (simp_all add: cs_commit_def)

lemma kickoff_reaches_refl [simp]: "kr_db r' = kr_db r \<Longrightarrow> kickoff_reaches w i r r'"
  by (auto simp: kickoff_reaches_def) (metis cs_commit_simps(4) rtranclp.rtrancl_refl)

lemma kickoff_reaches_trans [trans]:
  assumes "kickoff_reaches w i r r1" "kickoff_reaches w i r1 r2"
  shows "kickoff_reaches w i r r2"
  unfolding kickoff_reaches_def
proof (intro allI impI)
  fix s :: campaign_system assume s: "cs_db s = kr_db r \<and> (w, i) \<in> set (kq_waiting (cs_queue s))"
  then have "campaign_path s (cs_commit (kr_db r1) s)" using assms(1) by (simp add: kickoff_reaches_def)
  moreover have "campaign_path (cs_commit (kr_db r1) s) (cs_commit (kr_db r2) (cs_commit (kr_db r1) s))"
    using assms(2) s unfolding kickoff_reaches_def by (metis cs_commit_simps(1,2))
  ultimately show "campaign_path s (cs_commit (kr_db r2) s)" by simp
qed

lemma in_tx_reaches:
  assumes others: "others_step env"
    and run: "in_tx env body r = (x, r')"
    and body: "\<And>s now. (w, i) \<in> set (kq_waiting (cs_queue s)) \<Longrightarrow>
      campaign_path s (cs_commit (snd (body now (cs_db s))) s)"
  shows "kickoff_reaches w i r r'"
  unfolding kickoff_reaches_def
proof (intro allI impI)
  fix s :: campaign_system assume s: "cs_db s = kr_db r \<and> (w, i) \<in> set (kq_waiting (cs_queue s))"
  let ?db = "ke_others env (kr_tx r) (kr_db r)"
  have db': "kr_db r' = snd (body (ke_now env (kr_tx r)) ?db)"
    using run by (auto simp: in_tx_def split: prod.splits)
  have "campaign_path s (cs_commit ?db s)" using others s unfolding others_step_def by metis
  moreover have "campaign_path (cs_commit ?db s) (cs_commit (kr_db r') (cs_commit ?db s))"
    using body [of "cs_commit ?db s" "ke_now env (kr_tx r)"] s db' by simp
  ultimately show "campaign_path s (cs_commit (kr_db r') s)" by simp
qed

lemma in_tx_read:
  assumes "others_step env" "in_tx env (\<lambda>now db. (f now db, db)) r = (x, r')"
  shows "kickoff_reaches w i r r'"
  by (rule in_tx_reaches [OF assms]) simp

lemma path_elsewhere: "l_campaigns db = l_campaigns (cs_db s) \<Longrightarrow> campaign_path s (cs_commit db s)"
  by (rule r_into_rtranclp) (rule campaign_step.elsewhere)

lemma exclude_reaches:
  assumes "others_step env" "in_tx env (exclude_recipient sha1 w i k reason) r = (x, r')"
  shows "kickoff_reaches w i r r'"
  by (rule in_tx_reaches [OF assms], rule path_elsewhere)
    (auto simp: exclude_recipient_def recordExcluded_def run_exclude_def Let_def split: sum.splits option.splits)

section \<open>The loops\<close>

lemma materialize_reaches:
  assumes "materialize_loop env w i cs cursor r = Some r'"
  shows "others_step env \<longrightarrow> kickoff_reaches w i r r'"
  using assms
proof (rule materialize_loop.raw_induct [rotated])
  fix loop env w i cs cursor r r'
  assume IH: "\<And>env w i cs cursor r r'. loop env w i cs cursor r = Some r' \<Longrightarrow> others_step env \<longrightarrow> kickoff_reaches w i r r'"
    and run: "(case in_tx env (materializeBatch (ke_pg env) w i cs cursor) r of
      (b, r') \<Rightarrow> if inserted b = 0 then Some r' else loop env w i cs (mb_lastContactId b) r') = Some r'"
  show "others_step env \<longrightarrow> kickoff_reaches w i r r'"
  proof
    assume others: "others_step env"
    obtain b r1 where tx: "in_tx env (materializeBatch (ke_pg env) w i cs cursor) r = (b, r1)" by fastforce
    have first: "kickoff_reaches w i r r1"
      by (rule in_tx_reaches [OF others tx]) (blast intro: campaign_step.snapshot)
    show "kickoff_reaches w i r r'"
    proof (cases "inserted b = 0")
      case True
      with run tx first show ?thesis by simp
    next
      case False
      with run tx have "loop env w i cs (mb_lastContactId b) r1 = Some r'" by simp
      with IH others have "kickoff_reaches w i r1 r'" by blast
      from kickoff_reaches_trans [OF first this] show ?thesis .
    qed
  qed
qed

lemma snapshot_reaches:
  assumes "materializeCampaignSnapshot env w i r = Some (x, r')" "others_step env"
  shows "kickoff_reaches w i r r'"
proof -
  obtain st r1 where tx: "in_tx env (\<lambda>now db. (loadSnapshotState w i db, db)) r = (st, r1)" by fastforce
  have first: "kickoff_reaches w i r r1" by (rule in_tx_read [OF assms(2) tx])
  have "r' = r1 \<or> kickoff_reaches w i r1 r'"
    using assms materialize_reaches
    by (auto simp: materializeCampaignSnapshot_def tx split: option.splits sum.splits)
  then show ?thesis using first kickoff_reaches_trans [OF first] by blast
qed

lemma recipients_reach:
  assumes "kickoff_recipients env w i contacts ids totals r = (x, r')" "others_step env"
  shows "kickoff_reaches w i r r'"
  using assms(1)
proof (induction ids arbitrary: totals r)
  case (Cons k ids)
  obtain n m where totals: "totals = (n, m)" by (cases totals)
  have excluded: "kickoff_reaches w i r0 r'"
    if "in_tx env (exclude_recipient (rt_sha1 (ke_rt env)) w i k reason) r0 = (y, r1)"
      and "(case y of Inl e \<Rightarrow> (Inl e, r1) | Inr _ \<Rightarrow> kickoff_recipients env w i contacts ids (n, m + 1) r1) = (x, r')"
    for reason r0 r1 y
    using exclude_reaches [OF assms(2) that(1)] that(2) kickoff_reaches_trans Cons.IH by (cases y) auto
  show ?case
  proof (cases "find (\<lambda>c. ct_id c = k) contacts")
    case None
    then show ?thesis
      using Cons.prems excluded [of "''no_email''" r]
      by (cases "in_tx env (exclude_recipient (rt_sha1 (ke_rt env)) w i k ''no_email'') r") (simp add: totals)
  next
    case (Some contact)
    obtain decision r1 where gate: "in_tx env (\<lambda>now db. (evaluatePreSendGate db now w contact, db)) r = (decision, r1)"
      by fastforce
    have first: "kickoff_reaches w i r r1" by (rule in_tx_read [OF assms(2) gate])
    have "kickoff_reaches w i r1 r'"
    proof (cases decision)
      case Sendable
      have "kickoff_reaches w i r1 (add_broadcast (w, i, k) r1)" by (simp add: add_broadcast_def)
      note add = kickoff_reaches_trans [OF this]
      show ?thesis
        using Sendable Some gate Cons.prems add [OF Cons.IH]
        by (cases "ke_redis env k") (auto simp: totals)
    next
      case (NotSendable reason)
      with Some gate Cons.prems excluded [of "skip_reason_name reason" r1] show ?thesis
        by (cases "in_tx env (exclude_recipient (rt_sha1 (ke_rt env)) w i k (skip_reason_name reason)) r1")
          (simp add: totals)
    qed
    from kickoff_reaches_trans [OF first this] show ?thesis .
  qed
qed simp

lemma walk_reaches:
  assumes "kickoff_walk env w i cursor totals r = Some y"
  shows "others_step env \<longrightarrow> kickoff_reaches w i r (snd y)"
  using assms
proof (rule kickoff_walk.raw_induct [rotated])
  fix loop env w i cursor totals r y
  assume IH: "\<And>env w i cursor totals r y. loop env w i cursor totals r = Some y
      \<Longrightarrow> others_step env \<longrightarrow> kickoff_reaches w i r (snd y)"
    and run: "(case in_tx env (read_recipients w i cursor) r of
        ((status, recipientIds), r1) \<Rightarrow>
          if status = Some CCanceled \<or> status = Some CSent then Some (Inr CanceledMidFanOut, r1)
          else if recipientIds = [] then Some (Inr (WalkedAll (fst totals) (snd totals)), r1)
          else (case in_tx env (read_contacts w recipientIds) r1 of
                  (contacts, r2) \<Rightarrow>
                    (case kickoff_recipients env w i contacts recipientIds totals r2 of
                       (Inl e, r3) \<Rightarrow> Some (Inl e, r3)
                     | (Inr totals', r3) \<Rightarrow> loop env w i (Some (last recipientIds)) totals' r3))) = Some y"
  show "others_step env \<longrightarrow> kickoff_reaches w i r (snd y)"
  proof
    assume others: "others_step env"
    obtain status recipientIds r1 where page: "in_tx env (read_recipients w i cursor) r = ((status, recipientIds), r1)"
      by (metis prod.exhaust)
    have first: "kickoff_reaches w i r r1"
      by (rule in_tx_reaches [OF others page]) (simp add: read_recipients_def)
    obtain contacts r2 where read: "in_tx env (read_contacts w recipientIds) r1 = (contacts, r2)" by fastforce
    have second: "kickoff_reaches w i r1 r2"
      by (rule in_tx_reaches [OF others read]) (simp add: read_contacts_def)
    obtain out r3 where walk: "kickoff_recipients env w i contacts recipientIds totals r2 = (out, r3)" by fastforce
    note third = recipients_reach [OF walk others]
    have "snd y = r1 \<or> snd y = r3 \<or> kickoff_reaches w i r3 (snd y)"
      using run IH others by (auto simp: page read walk split: if_splits sum.splits)
    then show "kickoff_reaches w i r (snd y)"
      using first second third kickoff_reaches_trans by blast
  qed
qed

lemma finish_reaches:
  assumes "finish_kickoff env w i (x, r) = (y, r')" "others_step env"
  shows "kickoff_reaches w i r r'"
proof (cases "\<exists>n m. x = Inr (WalkedAll n m)")
  case True
  then obtain n m where x: "x = Inr (WalkedAll n m)" by blast
  let ?body = "\<lambda>now db. ((), if n = 0 then complete_empty w i n m now db else complete_fan_out w i n m now db)"
  obtain u r1 where tx: "in_tx env ?body r = (u, r1)"
    by (cases "in_tx env ?body r") (rule that)
  have "kickoff_reaches w i r r1"
    by (rule in_tx_reaches [OF assms(2) tx])
      (auto intro: r_into_rtranclp campaign_step.finish_empty campaign_step.finish_fan_out)
  moreover have "r' = r1" using assms(1) tx by (simp add: finish_kickoff_def x)
  ultimately show ?thesis by simp
next
  case False
  with assms(1) have "r' = r" by (auto simp: finish_kickoff_def split: sum.splits walk_end.splits)
  then show ?thesis by simp
qed

section \<open>Properties\<close>



text \<open>The example deployment, without anything between its transactions.\<close>

lemma others_alone: "others_step (kick_env_at now)"
  by (simp add: others_step_def kick_env_at_def)

definition waiting_system :: campaign_system where
  "waiting_system = \<lparr>cs_db = kick_db, cs_used = {''c1''}, cs_owed = {},
     cs_queue = \<lparr>kq_known = [''c1''], kq_waiting = [(''w1'', ''c1'')]\<rparr>\<rparr>"


end
