(* ===== verification/Job_Runs.thy ===== *)
theory Job_Runs
  imports Crm_Prelude
begin

text \<open>
  Jobs that are sequences of short transactions. Before the \<open>k\<close>-th transaction of a run other processes may
  commit, the process may be killed, and a body that throws rolls its own transaction back. A loop
  without a bound is a partial function: \<open>None\<close> is a run that never ends.
\<close>

section \<open>Runs\<close>

record 'd job_env =
  je_now :: "nat \<Rightarrow> instant"
  je_others :: "nat \<Rightarrow> 'd \<Rightarrow> 'd"
  je_killed :: "nat \<Rightarrow> bool"

record 'd job_run =
  jr_tx :: nat
  jr_db :: 'd

datatype ('e, 'a) job_result = Killed | Threw 'e | Done 'a

type_synonym ('e, 'a, 'd) job_end = "(('e, 'a) job_result \<times> 'd job_run) option"

definition transact ::
  "('d, 'z) job_env_scheme \<Rightarrow> (instant \<Rightarrow> 'd \<Rightarrow> ('e + 'a) \<times> 'd) \<Rightarrow> 'd job_run \<Rightarrow> ('e, 'a) job_result \<times> 'd job_run" where
  "transact env body r =
     (if je_killed env (jr_tx r) then (Killed, r)
      else case body (je_now env (jr_tx r)) (je_others env (jr_tx r) (jr_db r)) of
             (Inl e, db) \<Rightarrow> (Threw e, r\<lparr>jr_tx := jr_tx r + 1, jr_db := db\<rparr>)
           | (Inr x, db) \<Rightarrow> (Done x, r\<lparr>jr_tx := jr_tx r + 1, jr_db := db\<rparr>))"

definition run_tx ::
  "('d, 'z) job_env_scheme \<Rightarrow> (instant \<Rightarrow> 'd \<Rightarrow> ('e + 'a) \<times> 'd) \<Rightarrow> 'd job_run \<Rightarrow> ('e, 'a, 'd) job_end" where
  "run_tx env body r = Some (transact env body r)"

definition run_then :: "('e, 'a, 'd) job_end \<Rightarrow> ('a \<Rightarrow> 'd job_run \<Rightarrow> ('e, 'b, 'd) job_end) \<Rightarrow> ('e, 'b, 'd) job_end" where
  "run_then x f =
     (case x of
        None \<Rightarrow> None
      | Some (Done a, r) \<Rightarrow> f a r
      | Some (Threw e, r) \<Rightarrow> Some (Threw e, r)
      | Some (Killed, r) \<Rightarrow> Some (Killed, r))"

text \<open>\<open>try \<dots> catch (err) { \<dots>; throw err }\<close>: a kill runs no handler.\<close>

definition run_catch ::
  "('e, 'a, 'd) job_end \<Rightarrow> ('e \<Rightarrow> 'd job_run \<Rightarrow> ('e, unit, 'd) job_end) \<Rightarrow> ('e, 'a, 'd) job_end" where
  "run_catch x handler =
     (case x of
        Some (Threw e, r) \<Rightarrow> run_then (handler e r) (\<lambda>_ r'. Some (Threw e, r'))
      | _ \<Rightarrow> x)"

definition reading :: "('d \<Rightarrow> 'a) \<Rightarrow> instant \<Rightarrow> 'd \<Rightarrow> ('e + 'a) \<times> 'd" where
  "reading f now db = (Inr (f db), db)"

definition writing :: "(instant \<Rightarrow> 'd \<Rightarrow> 'd) \<Rightarrow> instant \<Rightarrow> 'd \<Rightarrow> ('e + unit) \<times> 'd" where
  "writing f now db = (Inr (), f now db)"

lemma run_then_simps [simp]:
  "run_then None f = None" "run_then (Some (Done a, r)) f = f a r"
  "run_then (Some (Threw e, r)) f = Some (Threw e, r)" "run_then (Some (Killed, r)) f = Some (Killed, r)"
  by (simp_all add: run_then_def)

section \<open>Invariants of a run\<close>

text \<open>A job keeps a predicate of the database where each of its transactions and each commit of the others
  does, wherever it is killed and whatever it throws.\<close>

definition job_keeps :: "('d \<Rightarrow> bool) \<Rightarrow> ('e, 'a, 'd) job_end \<Rightarrow> bool" where
  "job_keeps I x = (case x of None \<Rightarrow> True | Some (_, r) \<Rightarrow> I (jr_db r))"

definition others_keep :: "('d \<Rightarrow> bool) \<Rightarrow> ('d, 'z) job_env_scheme \<Rightarrow> bool" where
  "others_keep I env = (\<forall>k db. I db \<longrightarrow> I (je_others env k db))"

lemma job_keeps_simps [simp]: "job_keeps I None" "job_keeps I (Some (x, r)) = I (jr_db r)"
  by (simp_all add: job_keeps_def)

lemma transact_keeps:
  assumes "others_keep I env" "I (jr_db r)" "\<And>now db. I db \<Longrightarrow> I (snd (body now db))" "transact env body r = (x, r')"
  shows "I (jr_db r')"
proof -
  let ?b = "body (je_now env (jr_tx r)) (je_others env (jr_tx r) (jr_db r))"
  have "I (snd ?b)" using assms(1,2,3) by (simp add: others_keep_def)
  then show ?thesis
    using assms(2,4) by (auto simp: transact_def split: if_splits prod.splits sum.splits)
qed

lemma run_tx_keeps:
  "others_keep I env \<Longrightarrow> I (jr_db r) \<Longrightarrow> (\<And>now db. I db \<Longrightarrow> I (snd (body now db))) \<Longrightarrow> job_keeps I (run_tx env body r)"
  using transact_keeps [of I env r body] by (cases "transact env body r") (simp add: run_tx_def)

lemma run_then_keeps:
  "job_keeps I x \<Longrightarrow> (\<And>a r. x = Some (Done a, r) \<Longrightarrow> I (jr_db r) \<Longrightarrow> job_keeps I (f a r)) \<Longrightarrow> job_keeps I (run_then x f)"
  by (auto simp: run_then_def split: option.split prod.split job_result.split)

lemma run_catch_keeps:
  "job_keeps I x \<Longrightarrow> (\<And>e r. I (jr_db r) \<Longrightarrow> job_keeps I (handler e r)) \<Longrightarrow> job_keeps I (run_catch x handler)"
  by (auto simp: run_catch_def split: option.split prod.split job_result.split intro: run_then_keeps)

section \<open>Runs that end\<close>

text \<open>With no other process about, a run ends: it is done with \<open>Q\<close>, or it was killed; \<open>I\<close> holds either way.\<close>

definition ends_in ::
  "('d, 'z) job_env_scheme \<Rightarrow> ('d \<Rightarrow> bool) \<Rightarrow> ('a \<Rightarrow> 'd \<Rightarrow> bool) \<Rightarrow> ('e, 'a, 'd) job_end \<Rightarrow> bool" where
  "ends_in env I Q x =
     (\<exists>res r. x = Some (res, r) \<and> I (jr_db r)
       \<and> ((\<exists>a. res = Done a \<and> Q a (jr_db r)) \<or> (res = Killed \<and> (\<exists>k. je_killed env k))))"

definition quiet_env :: "('d, 'z) job_env_scheme \<Rightarrow> bool" where
  "quiet_env env = (\<forall>k db. je_others env k db = db)"

lemma transact_quiet:
  assumes "quiet_env env"
  shows "transact env body r =
     (if je_killed env (jr_tx r) then (Killed, r)
      else case body (je_now env (jr_tx r)) (jr_db r) of
             (Inl e, db) \<Rightarrow> (Threw e, r\<lparr>jr_tx := jr_tx r + 1, jr_db := db\<rparr>)
           | (Inr x, db) \<Rightarrow> (Done x, r\<lparr>jr_tx := jr_tx r + 1, jr_db := db\<rparr>))"
  using assms by (simp add: transact_def quiet_env_def)

lemma ends_in_Done [simp]: "ends_in env I Q (Some (Done a, r)) = (I (jr_db r) \<and> Q a (jr_db r))"
  by (auto simp: ends_in_def)

lemma run_tx_ends:
  assumes "quiet_env env" "I (jr_db r)"
    and "\<And>now. \<exists>a db. body now (jr_db r) = (Inr a, db) \<and> I db \<and> Q a db"
  shows "ends_in env I Q (run_tx env body r)"
  using assms(1,2) assms(3) [of "je_now env (jr_tx r)"]
  by (auto simp: ends_in_def run_tx_def transact_def quiet_env_def)

lemma reading_ends: "quiet_env env \<Longrightarrow> I (jr_db r) \<Longrightarrow> ends_in env I (\<lambda>a db. a = f db \<and> db = jr_db r) (run_tx env (reading f) r)"
  by (rule run_tx_ends) (simp_all add: reading_def)

lemma writing_ends:
  "quiet_env env \<Longrightarrow> I (jr_db r) \<Longrightarrow> (\<And>now. I (f now (jr_db r)) \<and> Q (f now (jr_db r))) \<Longrightarrow>
     ends_in env I (\<lambda>_. Q) (run_tx env (writing f) r)"
  by (rule run_tx_ends) (simp_all add: writing_def)

lemma run_then_ends:
  assumes "ends_in env I Q x" "\<And>a r. I (jr_db r) \<Longrightarrow> Q a (jr_db r) \<Longrightarrow> ends_in env I Q' (f a r)"
  shows "ends_in env I Q' (run_then x f)"
  using assms by (auto simp: ends_in_def)

lemma ends_in_mono:
  assumes "ends_in env I Q x" "\<And>db. I db \<Longrightarrow> J db" "\<And>a db. I db \<Longrightarrow> Q a db \<Longrightarrow> Q' a db"
  shows "ends_in env J Q' x"
  using assms by (auto simp: ends_in_def)

lemma run_catch_ends: "ends_in env I Q x \<Longrightarrow> ends_in env I Q (run_catch x handler)"
  by (auto simp: ends_in_def run_catch_def)

section \<open>Pages\<close>

text \<open>A page in the order of a key, and what lies behind its last row.\<close>

lemma page_parts:
  assumes dist: "distinct (map n (filter q t))" and L: "L = sort_key n (filter q t)" and page: "take k L \<noteq> []"
  shows "sort_key n (filter (\<lambda>r. q r \<and> n (last (take k L)) < n r) t) = drop k L"
    and "filter (\<lambda>r. n r \<le> n (last (take k L))) L = take k L"
    and "\<forall>r \<in> set (take k L). n r \<le> n (last (take k L))"
    and "last (take k L) \<in> set t \<and> q (last (take k L))"
proof -
  let ?m = "n (last (take k L))"
  have last: "last (take k L) \<in> set (take k L)" using page by (rule last_in_set)
  then have "last (take k L) \<in> set L" by (rule in_set_takeD)
  then show "last (take k L) \<in> set t \<and> q (last (take k L))" by (simp add: L)
  have sorted: "sorted (map n (take k L @ drop k L))" by (simp add: L)
  have "distinct (map n L)" using dist by (simp add: L distinct_map)
  then have distL: "distinct (map n (take k L) @ map n (drop k L))" by (simp flip: map_append)
  have split: "take k L = butlast (take k L) @ [last (take k L)]" using page by simp
  show upto: "\<forall>r \<in> set (take k L). n r \<le> ?m"
  proof
    fix r assume r: "r \<in> set (take k L)"
    have "sorted (map n (butlast (take k L) @ [last (take k L)]))" using sorted split by (metis map_append sorted_append)
    then have "\<forall>x \<in> set (butlast (take k L)). n x \<le> ?m" by (auto simp: sorted_append)
    moreover have "r \<in> set (butlast (take k L)) \<or> r = last (take k L)" using r by (subst (asm) split) auto
    ultimately show "n r \<le> ?m" by auto
  qed
  have above: "?m < n r" if r: "r \<in> set (drop k L)" for r
  proof -
    have "?m \<le> n r" using sorted r last unfolding map_append sorted_append by auto
    moreover have "?m \<noteq> n r" using distL last r by force
    ultimately show ?thesis by simp
  qed
  have "filter (\<lambda>r. n r \<le> ?m) (take k L @ drop k L) = take k L"
    unfolding filter_append using upto above by (simp add: filter_empty_conv filter_id_conv linorder_not_le)
  then show "filter (\<lambda>r. n r \<le> ?m) L = take k L" by simp
  have "sort_key n (filter (\<lambda>r. q r \<and> m < n r) t) = filter (\<lambda>r. m < n r) L" for m
    unfolding L filter_sort filter_filter ..
  then have "sort_key n (filter (\<lambda>r. q r \<and> ?m < n r) t) = filter (\<lambda>r. ?m < n r) (take k L @ drop k L)" by simp
  also have "\<dots> = drop k L"
    unfolding filter_append using upto above by (simp add: filter_empty_conv filter_id_conv linorder_not_less)
  finally show "sort_key n (filter (\<lambda>r. q r \<and> ?m < n r) t) = drop k L" .
qed

end
