(* ===== verification/Workspace_Purge.thy ===== *)
theory Workspace_Purge
  imports Job_Runs
begin

text \<open>
  The physical purge of a soft-deleted workspace: the tick of
  \<open>apps/worker/src/queues/workspace-purge.worker.ts\<close> with its checkpoint (\<open>workspace-purge-checkpoint.ts\<close>),
  the deletion of memberships (\<open>workspace-purge-auth.ts\<close>), the dead-letter sweep
  (\<open>dead-letter-retention.ts\<close>) and the batched statements of \<open>packages/db/src/workspace-purge-tables.ts\<close>.
  A row of a tenant table is its workspace and its physical address, of which PostgreSQL's \<open>ctid\<close> is
  the part inside one partition. Logging is not modelled.
\<close>

section \<open>Tables\<close>

datatype PurgeTable =
    SendEvents | FlowRunSteps | CampaignRecipients | SubscriptionStatusHistory | FlowSegmentMembershipSnapshot
  | FlowSegmentSweepCheckpoint | Events | Sends | FlowRuns | FlowVersions | Flows | Campaigns | SegmentsTable
  | Contacts | CsvImportRows | CsvImports | WorkspacePropertyRegistry | SendEventQuarantine | IngressJournal
  | WorkspaceApiKeys | WorkspaceSendSettings | ReputationAlertState | WorkspaceSendgridKeys
  | WorkspaceSuppressionKeys | WorkspaceWebhookEndpoints

definition PURGE_TABLE_ORDER :: "PurgeTable list" where
  "PURGE_TABLE_ORDER =
     [SendEvents, FlowRunSteps, CampaignRecipients, SubscriptionStatusHistory, FlowSegmentMembershipSnapshot,
      FlowSegmentSweepCheckpoint, Events, Sends, FlowRuns, FlowVersions, Flows, Campaigns, SegmentsTable,
      Contacts, CsvImportRows, CsvImports, WorkspacePropertyRegistry, SendEventQuarantine, IngressJournal,
      WorkspaceApiKeys, WorkspaceSendSettings, ReputationAlertState, WorkspaceSendgridKeys,
      WorkspaceSuppressionKeys, WorkspaceWebhookEndpoints]"

definition PURGE_SECRET_TABLES :: "PurgeTable list" where
  "PURGE_SECRET_TABLES = [WorkspaceSendgridKeys, WorkspaceSuppressionKeys, WorkspaceWebhookEndpoints]"

definition PURGE_BATCH_SIZE :: nat where "PURGE_BATCH_SIZE = 500"

definition PURGE_ADVISORY_LOCK_NAMESPACE :: int where "PURGE_ADVISORY_LOCK_NAMESPACE = 8706"

text \<open>What the migrations say of a table: whether a transaction of a workspace sees only its rows
  (row-level security), and whether it has partitions.\<close>

definition row_level_security :: "PurgeTable \<Rightarrow> bool" where
  "row_level_security t = (t \<noteq> ReputationAlertState)"

definition partitioned :: "PurgeTable \<Rightarrow> bool" where
  "partitioned t = (t = Events \<or> t = SendEvents)"

record stored_row =
  sr_workspaceId :: uuid
  sr_partition :: nat
  sr_ctid :: nat

record organization_row =
  og_id :: uuid
  og_name :: string
  og_slug :: string
  og_deletedAt :: "instant option"
  og_purgedAt :: "instant option"

datatype purge_status = PurgeReported | PurgePurging | PurgeComplete | PurgeFailed

text \<open>An entry of \<open>completed_tables\<close>, and a key of \<open>table_counts\<close>.\<close>

datatype purge_marker = TableMarker PurgeTable | AUTH_STEP_MARKER

datatype count_key = CountTable PurgeTable | CountMember | CountInvitation

datatype purge_error =
    WorkspaceRestoredError uuid
  | RowsRemain PurgeTable
  | AuthPoolFailed

record purge_record_row =
  pg_workspaceId :: uuid
  pg_softDeletedAt :: instant
  pg_eligibleAt :: instant
  pg_reportedAt :: "instant option"
  pg_firstDestructiveBatchAt :: "instant option"
  pg_purgedAt :: "instant option"
  pg_lastProgressAt :: "instant option"
  pg_status :: purge_status
  pg_tableCounts :: "count_key \<rightharpoonup> nat"
  pg_completedTables :: "purge_marker list"
  pg_purgeError :: "purge_error option"

record dead_letter_row =
  dl_id :: uuid
  dl_failedAt :: instant

record purge_db =
  pd_rows :: "PurgeTable \<Rightarrow> stored_row list"
  pd_organizations :: "organization_row list"
  pd_records :: "purge_record_row list"
  pd_members :: "uuid list"
  pd_invitations :: "uuid list"
  pd_deadLetters :: "dead_letter_row list"

section \<open>Statements\<close>

text \<open>\<open>FOR UPDATE SKIP LOCKED\<close> passes over the rows that others hold; the outer \<open>DELETE\<close> compares
  \<open>ctid\<close> alone, within what the transaction sees.\<close>

definition picked :: "(stored_row \<Rightarrow> bool) \<Rightarrow> uuid \<Rightarrow> nat \<Rightarrow> stored_row list \<Rightarrow> stored_row list" where
  "picked locked w limit rows = take limit (filter (\<lambda>r. sr_workspaceId r = w \<and> \<not> locked r) rows)"

definition doomed :: "(stored_row \<Rightarrow> bool) \<Rightarrow> PurgeTable \<Rightarrow> uuid \<Rightarrow> nat \<Rightarrow> stored_row list \<Rightarrow> stored_row \<Rightarrow> bool" where
  "doomed locked t w limit rows r =
     ((row_level_security t \<longrightarrow> sr_workspaceId r = w) \<and> sr_ctid r \<in> sr_ctid ` set (picked locked w limit rows))"

definition deletePurgeBatch ::
  "(stored_row \<Rightarrow> bool) \<Rightarrow> PurgeTable \<Rightarrow> uuid \<Rightarrow> nat \<Rightarrow> purge_db \<Rightarrow> purge_db \<times> nat" where
  "deletePurgeBatch locked t w limit db =
     (let rows = pd_rows db t; p = doomed locked t w limit rows
      in (db\<lparr>pd_rows := (pd_rows db)(t := delete_where p rows)\<rparr>, row_count p rows))"

definition countPurgeTableRows :: "PurgeTable \<Rightarrow> uuid \<Rightarrow> purge_db \<Rightarrow> nat" where
  "countPurgeTableRows t w db = row_count (\<lambda>r. sr_workspaceId r = w) (pd_rows db t)"

definition DAY_MS :: int where "DAY_MS = 24 * 60 * 60 * 1000"

definition findEligibleWorkspaces :: "instant \<Rightarrow> int \<Rightarrow> purge_db \<Rightarrow> (uuid \<times> instant) list" where
  "findEligibleWorkspaces now retentionDays db =
     List.map_filter (\<lambda>o'. case og_deletedAt o' of
         None \<Rightarrow> None
       | Some t \<Rightarrow> if t \<le> now - retentionDays * DAY_MS then Some (og_id o', t) else None) (pd_organizations db)"

definition find_organization :: "uuid \<Rightarrow> purge_db \<Rightarrow> organization_row option" where
  "find_organization w db = find (\<lambda>o'. og_id o' = w) (pd_organizations db)"

definition readOrganizationDeletedAt :: "uuid \<Rightarrow> purge_db \<Rightarrow> instant option" where
  "readOrganizationDeletedAt w db = Option.bind (find_organization w db) og_deletedAt"

definition wasRestoredBeforeDestruction :: "uuid \<Rightarrow> purge_db \<Rightarrow> bool" where
  "wasRestoredBeforeDestruction w db =
     (case find_organization w db of None \<Rightarrow> False | Some o' \<Rightarrow> og_deletedAt o' = None)"

definition tombstoneOrganization :: "uuid \<Rightarrow> instant \<Rightarrow> purge_db \<Rightarrow> purge_db" where
  "tombstoneOrganization w now db =
     db\<lparr>pd_organizations := update_where (\<lambda>o'. og_id o' = w)
          (\<lambda>o'. o'\<lparr>og_name := ''purged-workspace'', og_slug := ''purged-'' @ og_id o', og_purgedAt := Some now\<rparr>)
          (pd_organizations db)\<rparr>"

section \<open>The checkpoint\<close>

definition write_record :: "uuid \<Rightarrow> (purge_record_row \<Rightarrow> purge_record_row) \<Rightarrow> purge_db \<Rightarrow> purge_db" where
  "write_record w f db = db\<lparr>pd_records := update_where (\<lambda>p. pg_workspaceId p = w) f (pd_records db)\<rparr>"

definition loadDestructiblePurgeRecords :: "purge_db \<Rightarrow> uuid list" where
  "loadDestructiblePurgeRecords db =
     map pg_workspaceId (filter (\<lambda>p. pg_status p = PurgeReported \<or> pg_status p = PurgePurging) (pd_records db))"

definition loadWorkspacePurgeProgress :: "uuid \<Rightarrow> purge_db \<Rightarrow> purge_record_row option" where
  "loadWorkspacePurgeProgress w db = find (\<lambda>p. pg_workspaceId p = w) (pd_records db)"

definition advanceWorkspacePurgeCheckpoint :: "uuid \<Rightarrow> instant \<Rightarrow> purge_db \<Rightarrow> purge_db" where
  "advanceWorkspacePurgeCheckpoint w now = write_record w (\<lambda>p. p\<lparr>pg_lastProgressAt := Some now\<rparr>)"

definition markPurgeTableDone :: "uuid \<Rightarrow> purge_marker \<Rightarrow> purge_db \<Rightarrow> purge_db" where
  "markPurgeTableDone w m =
     write_record w (\<lambda>p. p\<lparr>pg_completedTables :=
       (if m \<in> set (pg_completedTables p) then pg_completedTables p else pg_completedTables p @ [m])\<rparr>)"

text \<open>\<open>jsonb_build_object(\<dots>) || table_counts\<close>: the right operand wins.\<close>

definition recordAuthPurgeCounts :: "uuid \<Rightarrow> nat \<times> nat \<Rightarrow> purge_db \<Rightarrow> purge_db" where
  "recordAuthPurgeCounts w counts =
     write_record w (\<lambda>p. p\<lparr>pg_tableCounts :=
       [CountMember \<mapsto> fst counts, CountInvitation \<mapsto> snd counts] ++ pg_tableCounts p\<rparr>)"

definition markPurgeComplete :: "uuid \<Rightarrow> instant \<Rightarrow> purge_db \<Rightarrow> purge_db" where
  "markPurgeComplete w now = write_record w (\<lambda>p. p\<lparr>pg_status := PurgeComplete, pg_purgedAt := Some now\<rparr>)"

definition markPurgeFailed :: "uuid \<Rightarrow> purge_error \<Rightarrow> purge_db \<Rightarrow> purge_db" where
  "markPurgeFailed w e = write_record w (\<lambda>p. p\<lparr>pg_status := PurgeFailed, pg_purgeError := Some e\<rparr>)"

definition begin_purging :: "uuid \<Rightarrow> instant \<Rightarrow> purge_db \<Rightarrow> purge_db" where
  "begin_purging w now db =
     db\<lparr>pd_records := update_where
          (\<lambda>p. pg_workspaceId p = w \<and> (pg_status p = PurgeReported \<or> pg_status p = PurgePurging))
          (\<lambda>p. p\<lparr>pg_status := PurgePurging,
                 pg_firstDestructiveBatchAt := coalesce (pg_firstDestructiveBatchAt p) (Some now)\<rparr>)
          (pd_records db)\<rparr>"

section \<open>The memberships\<close>

definition countWorkspaceAuthRows :: "uuid \<Rightarrow> purge_db \<Rightarrow> nat \<times> nat" where
  "countWorkspaceAuthRows w db =
     (row_count (\<lambda>i. i = w) (pd_members db), row_count (\<lambda>i. i = w) (pd_invitations db))"

definition deleteWorkspaceAuthRows :: "bool \<Rightarrow> uuid \<Rightarrow> instant \<Rightarrow> purge_db \<Rightarrow> (purge_error + unit) \<times> purge_db" where
  "deleteWorkspaceAuthRows authUp w now db =
     (if \<not> authUp then (Inl AuthPoolFailed, db)
      else (Inr (), db\<lparr>pd_invitations := delete_where (\<lambda>i. i = w) (pd_invitations db),
                       pd_members := delete_where (\<lambda>i. i = w) (pd_members db)\<rparr>))"

section \<open>The walk of one workspace\<close>

text \<open>\<open>pe_locked k\<close> are the rows that others hold at the \<open>k\<close>-th transaction, \<open>pe_authUp\<close> says whether the pool of
  the elevated role can be used, \<open>pe_lockFree\<close> whether the advisory lock of a workspace is free.\<close>

record purge_env = "purge_db job_env" +
  pe_locked :: "nat \<Rightarrow> PurgeTable \<Rightarrow> stored_row \<Rightarrow> bool"
  pe_authUp :: bool
  pe_lockFree :: "uuid \<Rightarrow> bool"

type_synonym 'a purge_job = "(purge_error, 'a, purge_db) job_end"

definition purge_page ::
  "(stored_row \<Rightarrow> bool) \<Rightarrow> PurgeTable \<Rightarrow> uuid \<Rightarrow> nat \<Rightarrow> instant \<Rightarrow> purge_db \<Rightarrow> (purge_error + nat) \<times> purge_db" where
  "purge_page locked t w limit now db =
     (if readOrganizationDeletedAt w db = None then (Inl (WorkspaceRestoredError w), db)
      else case deletePurgeBatch locked t w limit db of
             (db', n) \<Rightarrow> (Inr n, advanceWorkspacePurgeCheckpoint w now db'))"

partial_function (option) page_loop ::
  "purge_env \<Rightarrow> PurgeTable \<Rightarrow> uuid \<Rightarrow> nat \<Rightarrow> purge_db job_run
     \<Rightarrow> ((purge_error, unit) job_result \<times> purge_db job_run) option" where
  "page_loop env t w limit r =
     (case transact env (purge_page (pe_locked env (jr_tx r) t) t w limit) r of
        (Killed, r') \<Rightarrow> Some (Killed, r')
      | (Threw e, r') \<Rightarrow> Some (Threw e, r')
      | (Done n, r') \<Rightarrow> if n = 0 then Some (Done (), r') else page_loop env t w limit r')"

declare page_loop.simps [code]

definition MAX_ATTEMPTS :: nat where "MAX_ATTEMPTS = 3"

fun walk_attempts :: "nat \<Rightarrow> purge_env \<Rightarrow> PurgeTable \<Rightarrow> uuid \<Rightarrow> nat \<Rightarrow> purge_db job_run \<Rightarrow> unit purge_job" where
  "walk_attempts 0 env t w limit r = Some (Threw (RowsRemain t), r)"
| "walk_attempts (Suc n) env t w limit r =
     run_then (page_loop env t w limit r) (\<lambda>_ r1.
       run_then (run_tx env (reading (countPurgeTableRows t w)) r1) (\<lambda>remaining r2.
         if remaining = 0 then run_tx env (writing (\<lambda>_. markPurgeTableDone w (TableMarker t))) r2
         else walk_attempts n env t w limit r2))"

definition walkPurgeTable :: "purge_env \<Rightarrow> PurgeTable \<Rightarrow> uuid \<Rightarrow> nat \<Rightarrow> purge_db job_run \<Rightarrow> unit purge_job" where
  "walkPurgeTable = walk_attempts MAX_ATTEMPTS"

fun walk_tables ::
  "purge_env \<Rightarrow> purge_marker list \<Rightarrow> PurgeTable list \<Rightarrow> uuid \<Rightarrow> nat \<Rightarrow> purge_db job_run \<Rightarrow> unit purge_job" where
  "walk_tables env completed [] w limit r = Some (Done (), r)"
| "walk_tables env completed (t # ts) w limit r =
     (if TableMarker t \<in> set completed then walk_tables env completed ts w limit r
      else run_then (walkPurgeTable env t w limit r) (\<lambda>_ r1. walk_tables env completed ts w limit r1))"

definition beginDestructivePhase :: "purge_env \<Rightarrow> uuid \<Rightarrow> purge_db job_run \<Rightarrow> unit purge_job" where
  "beginDestructivePhase env w r =
     run_then (run_tx env (reading (readOrganizationDeletedAt w)) r) (\<lambda>deletedAt r1.
       if deletedAt = None then Some (Threw (WorkspaceRestoredError w), r1)
       else run_tx env (writing (begin_purging w)) r1)"

definition auth_step :: "purge_env \<Rightarrow> purge_marker list \<Rightarrow> uuid \<Rightarrow> purge_db job_run \<Rightarrow> unit purge_job" where
  "auth_step env completed w r =
     (if AUTH_STEP_MARKER \<in> set completed then Some (Done (), r)
      else run_then (run_tx env (reading (countWorkspaceAuthRows w)) r) (\<lambda>preCounts r1.
           run_then (run_tx env (writing (\<lambda>_. recordAuthPurgeCounts w preCounts)) r1) (\<lambda>_ r2.
           run_then (run_tx env (deleteWorkspaceAuthRows (pe_authUp env) w) r2) (\<lambda>_ r3.
           run_tx env (writing (\<lambda>_. markPurgeTableDone w AUTH_STEP_MARKER)) r3))))"

definition destroy_workspace ::
  "purge_env \<Rightarrow> purge_marker list \<Rightarrow> uuid \<Rightarrow> nat \<Rightarrow> purge_db job_run \<Rightarrow> unit purge_job" where
  "destroy_workspace env completed w limit r =
     run_then (beginDestructivePhase env w r) (\<lambda>_ r1.
     run_then (walk_tables env completed PURGE_TABLE_ORDER w limit r1) (\<lambda>_ r2.
     run_then (auth_step env completed w r2) (\<lambda>_ r3.
     run_then (run_tx env (writing (tombstoneOrganization w)) r3) (\<lambda>_ r4.
     run_tx env (writing (markPurgeComplete w)) r4))))"

definition runWorkspacePurgeWalk :: "purge_env \<Rightarrow> nat \<Rightarrow> uuid \<Rightarrow> purge_db job_run \<Rightarrow> unit purge_job" where
  "runWorkspacePurgeWalk env limit w r =
     (let walk = (\<lambda>progress r1.
            run_catch (destroy_workspace env (pg_completedTables progress) w limit r1)
              (\<lambda>e. run_tx env (writing (\<lambda>_. markPurgeFailed w e))))
      in if \<not> pe_lockFree env w then Some (Done (), r)
         else run_then (run_tx env (reading (loadWorkspacePurgeProgress w)) r) (\<lambda>found r1.
           case found of
             None \<Rightarrow> Some (Done (), r1)
           | Some progress \<Rightarrow>
               if pg_status progress = PurgeComplete \<or> pg_status progress = PurgeFailed then Some (Done (), r1)
               else if pg_status progress = PurgeReported \<and> pg_firstDestructiveBatchAt progress = None
               then run_then (run_tx env (reading (wasRestoredBeforeDestruction w)) r1) (\<lambda>restored r2.
                      if restored then Some (Done (), r2) else walk progress r2)
               else walk progress r1))"

section \<open>The tick\<close>

fun walk_all :: "purge_env \<Rightarrow> nat \<Rightarrow> uuid list \<Rightarrow> purge_db job_run \<Rightarrow> unit purge_job" where
  "walk_all env limit [] r = Some (Done (), r)"
| "walk_all env limit (w # ws) r =
     run_then (runWorkspacePurgeWalk env limit w r) (\<lambda>_ r1. walk_all env limit ws r1)"

fun computePurgeCensus ::
  "purge_env \<Rightarrow> uuid \<Rightarrow> PurgeTable list \<Rightarrow> (count_key \<rightharpoonup> nat) \<Rightarrow> purge_db job_run \<Rightarrow> (count_key \<rightharpoonup> nat) purge_job" where
  "computePurgeCensus env w [] counts r = Some (Done counts, r)"
| "computePurgeCensus env w (t # ts) counts r =
     run_then (run_tx env (reading (countPurgeTableRows t w)) r) (\<lambda>n r1.
       computePurgeCensus env w ts (counts(CountTable t \<mapsto> n)) r1)"

definition insert_report ::
  "uuid \<Rightarrow> instant \<Rightarrow> instant \<Rightarrow> (count_key \<rightharpoonup> nat) \<Rightarrow> instant \<Rightarrow> purge_db \<Rightarrow> purge_db" where
  "insert_report w deletedAt eligibleAt counts now db =
     (if \<exists>p \<in> set (pd_records db). pg_workspaceId p = w then db
      else db\<lparr>pd_records := pd_records db @
        [\<lparr>pg_workspaceId = w, pg_softDeletedAt = deletedAt, pg_eligibleAt = eligibleAt, pg_reportedAt = Some now,
          pg_firstDestructiveBatchAt = None, pg_purgedAt = None, pg_lastProgressAt = None,
          pg_status = PurgeReported, pg_tableCounts = counts, pg_completedTables = [], pg_purgeError = None\<rparr>]\<rparr>)"

definition reportWorkspaceForPurge ::
  "purge_env \<Rightarrow> uuid \<Rightarrow> instant \<Rightarrow> instant \<Rightarrow> purge_db job_run \<Rightarrow> unit purge_job" where
  "reportWorkspaceForPurge env w deletedAt eligibleAt r =
     run_then (computePurgeCensus env w PURGE_TABLE_ORDER Map.empty r) (\<lambda>counts r1.
       run_tx env (writing (insert_report w deletedAt eligibleAt counts)) r1)"

fun report_all :: "purge_env \<Rightarrow> int \<Rightarrow> (uuid \<times> instant) list \<Rightarrow> purge_db job_run \<Rightarrow> unit purge_job" where
  "report_all env retentionDays [] r = Some (Done (), r)"
| "report_all env retentionDays ((w, deletedAt) # ws) r =
     run_then (run_tx env (reading (loadWorkspacePurgeProgress w)) r) (\<lambda>existing r1.
       if existing \<noteq> None then report_all env retentionDays ws r1
       else run_then (reportWorkspaceForPurge env w deletedAt (deletedAt + retentionDays * DAY_MS) r1)
              (\<lambda>_ r2. report_all env retentionDays ws r2))"

definition DEAD_LETTER_SWEEP_BATCH_SIZE :: nat where "DEAD_LETTER_SWEEP_BATCH_SIZE = 500"

definition delete_dead_letters :: "instant \<Rightarrow> nat \<Rightarrow> instant \<Rightarrow> purge_db \<Rightarrow> (purge_error + nat) \<times> purge_db" where
  "delete_dead_letters cutoff limit now db =
     (let ids = map dl_id (take limit (filter (\<lambda>d. dl_failedAt d < cutoff) (pd_deadLetters db)));
          p = (\<lambda>d. dl_id d \<in> set ids)
      in (Inr (row_count p (pd_deadLetters db)), db\<lparr>pd_deadLetters := delete_where p (pd_deadLetters db)\<rparr>))"

partial_function (option) sweepExpiredDeadLetterJobs ::
  "purge_env \<Rightarrow> instant \<Rightarrow> nat \<Rightarrow> nat \<Rightarrow> purge_db job_run \<Rightarrow> ((purge_error, nat) job_result \<times> purge_db job_run) option" where
  "sweepExpiredDeadLetterJobs env cutoff limit swept r =
     (case transact env (delete_dead_letters cutoff limit) r of
        (Killed, r') \<Rightarrow> Some (Killed, r')
      | (Threw e, r') \<Rightarrow> Some (Threw e, r')
      | (Done n, r') \<Rightarrow> if n = 0 then Some (Done swept, r')
                       else sweepExpiredDeadLetterJobs env cutoff limit (swept + n) r')"

declare sweepExpiredDeadLetterJobs.simps [code]

definition processWorkspacePurge ::
  "purge_env \<Rightarrow> int \<Rightarrow> nat \<Rightarrow> int \<Rightarrow> purge_db job_run \<Rightarrow> unit purge_job" where
  "processWorkspacePurge env retentionDays limit deadLetterRetentionDays r =
     run_then (run_tx env (reading loadDestructiblePurgeRecords) r) (\<lambda>destructible r1.
     run_then (walk_all env limit destructible r1) (\<lambda>_ r2.
       let nowValue = je_now env (jr_tx r2) in
       run_then (run_tx env (reading (findEligibleWorkspaces nowValue retentionDays)) r2) (\<lambda>eligible r3.
       run_then (report_all env retentionDays eligible r3) (\<lambda>_ r4.
       run_then (sweepExpiredDeadLetterJobs env (nowValue - deadLetterRetentionDays * DAY_MS)
                   DEAD_LETTER_SWEEP_BATCH_SIZE 0 r4) (\<lambda>_ r5. Some (Done (), r5))))))"

section \<open>The operator's report\<close>

record WorkspacePurgeReportEntry =
  re_workspaceId :: uuid
  re_deletedAt :: "instant option"
  re_eligibleAt :: "instant option"
  re_status :: "purge_status option"
  re_tableCounts :: "PurgeTable \<Rightarrow> nat"

text \<open>The target of the report: one workspace, or every eligible one.\<close>

definition buildWorkspacePurgeReport ::
  "instant \<Rightarrow> int \<Rightarrow> uuid option \<Rightarrow> purge_db \<Rightarrow> WorkspacePurgeReportEntry list" where
  "buildWorkspacePurgeReport now retentionDays target db =
     map (\<lambda>(w, deletedAt).
        \<lparr>re_workspaceId = w, re_deletedAt = deletedAt,
         re_eligibleAt = map_option (\<lambda>t. t + retentionDays * DAY_MS) deletedAt,
         re_status = map_option pg_status (loadWorkspacePurgeProgress w db),
         re_tableCounts = (\<lambda>t. countPurgeTableRows t w db)\<rparr>)
       (case target of
          Some w \<Rightarrow> (case find_organization w db of None \<Rightarrow> [] | Some o' \<Rightarrow> [(og_id o', og_deletedAt o')])
        | None \<Rightarrow> map (\<lambda>(w, t). (w, Some t)) (findEligibleWorkspaces now retentionDays db))"

end
