(* ===== verification/Purge_Completion.thy ===== *)
theory Purge_Completion
  imports Workspace_Purge
begin

text \<open>
  What a purge does: it empties every table of the workspace, its memberships and its name, spares every
  other workspace, and finishes after having been killed between any two of its transactions.
\<close>

section \<open>One page\<close>

definition free :: "uuid \<Rightarrow> PurgeTable \<Rightarrow> purge_db \<Rightarrow> bool" where
  "free w t db = (\<forall>r \<in> set (pd_rows db t). sr_workspaceId r \<noteq> w)"

definition auth_free :: "uuid \<Rightarrow> purge_db \<Rightarrow> bool" where
  "auth_free w db = (w \<notin> set (pd_members db) \<and> w \<notin> set (pd_invitations db))"

text \<open>The one table without row-level security has no partitions, so its addresses are unique.\<close>

definition addresses_wf :: "purge_db \<Rightarrow> bool" where
  "addresses_wf db = (\<forall>t. row_level_security t \<or> distinct (map sr_ctid (pd_rows db t)))"

lemma picked_mem: "r \<in> set (picked locked w limit rows) \<Longrightarrow> r \<in> set rows \<and> sr_workspaceId r = w \<and> \<not> locked r"
  unfolding picked_def by (drule in_set_takeD) simp

lemma doomed_own:
  assumes "row_level_security t \<or> distinct (map sr_ctid rows)" "r \<in> set rows" "doomed locked t w limit rows r"
  shows "sr_workspaceId r = w"
proof (cases "row_level_security t")
  case False
  then obtain r' where "r' \<in> set (picked locked w limit rows)" "sr_ctid r' = sr_ctid r"
    using assms(3) by (auto simp: doomed_def)
  then show ?thesis using picked_mem [of r' locked w limit rows] assms(1,2) False
    by (metis distinct_map inj_onD)
qed (use assms(3) in \<open>simp add: doomed_def\<close>)

lemma batch_rows:
  assumes "deletePurgeBatch locked t w limit db = (db', n)" "addresses_wf db"
  shows "filter (\<lambda>r. sr_workspaceId r \<noteq> w) (pd_rows db' u) = filter (\<lambda>r. sr_workspaceId r \<noteq> w) (pd_rows db u)"
    and "free w u db \<Longrightarrow> free w u db'" and "addresses_wf db'"
    and "u \<noteq> t \<Longrightarrow> pd_rows db' u = pd_rows db u"
proof -
  have db': "db' = db\<lparr>pd_rows := (pd_rows db)(t := delete_where (doomed locked t w limit (pd_rows db t)) (pd_rows db t))\<rparr>"
    using assms(1) by (simp add: deletePurgeBatch_def Let_def)
  have "row_level_security t \<or> distinct (map sr_ctid (pd_rows db t))" using assms(2) by (simp add: addresses_wf_def)
  note own = doomed_own [OF this]
  have "filter (\<lambda>r. sr_workspaceId r \<noteq> w) (delete_where (doomed locked t w limit (pd_rows db t)) (pd_rows db t))
      = filter (\<lambda>r. sr_workspaceId r \<noteq> w) (pd_rows db t)"
    unfolding delete_where_def filter_filter by (rule filter_cong) (use own in auto)
  then show "filter (\<lambda>r. sr_workspaceId r \<noteq> w) (pd_rows db' u) = filter (\<lambda>r. sr_workspaceId r \<noteq> w) (pd_rows db u)"
    by (simp add: db')
  show "free w u db \<Longrightarrow> free w u db'" "addresses_wf db'" "u \<noteq> t \<Longrightarrow> pd_rows db' u = pd_rows db u"
    using assms(2) by (auto simp: db' free_def addresses_wf_def delete_where_def distinct_map_filter)
qed

lemma batch_progress:
  assumes "deletePurgeBatch (\<lambda>r. False) t w limit db = (db', n)" "0 < limit"
  shows "n = 0 \<Longrightarrow> free w t db" and "n \<noteq> 0 \<Longrightarrow> length (pd_rows db' t) < length (pd_rows db t)"
proof -
  let ?rows = "pd_rows db t"
  have n: "n = row_count (doomed (\<lambda>r. False) t w limit ?rows) ?rows"
    and rows': "pd_rows db' t = delete_where (doomed (\<lambda>r. False) t w limit ?rows) ?rows"
    using assms(1) by (auto simp: deletePurgeBatch_def Let_def)
  show "free w t db" if zero: "n = 0"
  proof (rule ccontr)
    assume "\<not> free w t db"
    then have "filter (\<lambda>r. sr_workspaceId r = w \<and> \<not> False) ?rows \<noteq> []" by (auto simp: free_def filter_empty_conv)
    then obtain r rs where "filter (\<lambda>r. sr_workspaceId r = w \<and> \<not> False) ?rows = r # rs" by (cases "filter (\<lambda>r. sr_workspaceId r = w \<and> \<not> False) ?rows") auto
    then have "r \<in> set (picked (\<lambda>r. False) w limit ?rows)"
      using assms(2) unfolding picked_def by (cases limit) simp_all
    moreover from this have "r \<in> set ?rows" "sr_workspaceId r = w" using picked_mem by blast+
    ultimately have "doomed (\<lambda>r. False) t w limit ?rows r" "r \<in> set ?rows" by (auto simp: doomed_def)
    then show False using zero n by (simp add: row_count_zero)
  qed
  show "length (pd_rows db' t) < length ?rows" if "n \<noteq> 0"
  proof -
    have "\<exists>r \<in> set ?rows. doomed (\<lambda>r. False) t w limit ?rows r" using that n row_count_zero by metis
    then show ?thesis unfolding rows' delete_where_def by (metis (no_types, lifting) length_filter_less)
  qed
qed

section \<open>A purge under way\<close>

definition own_records :: "uuid \<Rightarrow> purge_db \<Rightarrow> purge_record_row list" where
  "own_records w db = filter (\<lambda>p. pg_workspaceId p = w) (pd_records db)"

text \<open>Everything of the other workspaces is as it was.\<close>

definition spared :: "uuid \<Rightarrow> purge_db \<Rightarrow> purge_db \<Rightarrow> bool" where
  "spared w db0 db =
     ((\<forall>t. filter (\<lambda>r. sr_workspaceId r \<noteq> w) (pd_rows db t) = filter (\<lambda>r. sr_workspaceId r \<noteq> w) (pd_rows db0 t))
      \<and> filter (\<lambda>i. i \<noteq> w) (pd_members db) = filter (\<lambda>i. i \<noteq> w) (pd_members db0)
      \<and> filter (\<lambda>i. i \<noteq> w) (pd_invitations db) = filter (\<lambda>i. i \<noteq> w) (pd_invitations db0)
      \<and> filter (\<lambda>x. og_id x \<noteq> w) (pd_organizations db) = filter (\<lambda>x. og_id x \<noteq> w) (pd_organizations db0)
      \<and> filter (\<lambda>p. pg_workspaceId p \<noteq> w) (pd_records db) = filter (\<lambda>p. pg_workspaceId p \<noteq> w) (pd_records db0)
      \<and> pd_deadLetters db = pd_deadLetters db0)"

definition marker_true :: "uuid \<Rightarrow> purge_db \<Rightarrow> purge_marker \<Rightarrow> bool" where
  "marker_true w db m = (case m of TableMarker t \<Rightarrow> free w t db | AUTH_STEP_MARKER \<Rightarrow> auth_free w db)"

text \<open>The counts: those of the report, and once they are taken, those of the memberships.\<close>

definition census :: "uuid \<Rightarrow> purge_db \<Rightarrow> (count_key \<rightharpoonup> nat) \<Rightarrow> count_key \<rightharpoonup> nat" where
  "census w db0 counts0 =
     [CountMember \<mapsto> fst (countWorkspaceAuthRows w db0), CountInvitation \<mapsto> snd (countWorkspaceAuthRows w db0)] ++ counts0"

definition counted :: "uuid \<Rightarrow> purge_db \<Rightarrow> (count_key \<rightharpoonup> nat) \<Rightarrow> purge_db \<Rightarrow> purge_record_row \<Rightarrow> bool" where
  "counted w db0 counts0 db p =
     (pg_tableCounts p = census w db0 counts0
      \<or> pg_tableCounts p = counts0 \<and> AUTH_STEP_MARKER \<notin> set (pg_completedTables p)
        \<and> countWorkspaceAuthRows w db = countWorkspaceAuthRows w db0)"

definition under_way ::
  "uuid \<Rightarrow> purge_db \<Rightarrow> (count_key \<rightharpoonup> nat) \<Rightarrow> (purge_record_row \<Rightarrow> bool) \<Rightarrow> purge_db \<Rightarrow> bool" where
  "under_way w db0 counts0 stage db =
     (spared w db0 db \<and> addresses_wf db \<and> readOrganizationDeletedAt w db0 \<noteq> None
      \<and> readOrganizationDeletedAt w db = readOrganizationDeletedAt w db0
      \<and> (\<exists>p. own_records w db = [p] \<and> stage p \<and> list_all (marker_true w db) (pg_completedTables p)
           \<and> counted w db0 counts0 db p))"

definition finished :: "uuid \<Rightarrow> purge_db \<Rightarrow> bool" where
  "finished w db =
     ((\<forall>t. free w t db) \<and> auth_free w db
      \<and> (\<forall>x \<in> set (pd_organizations db). og_id x = w \<longrightarrow> og_name x = ''purged-workspace'' \<and> og_purgedAt x \<noteq> None))"

definition purging :: "purge_record_row \<Rightarrow> bool" where
  "purging p = (pg_status p = PurgePurging)"

definition resumable :: "uuid \<Rightarrow> purge_db \<Rightarrow> (count_key \<rightharpoonup> nat) \<Rightarrow> purge_db \<Rightarrow> bool" where
  "resumable w db0 counts0 db =
     (under_way w db0 counts0 (\<lambda>p. pg_status p = PurgeReported \<or> pg_status p = PurgePurging) db
      \<or> under_way w db0 counts0 (\<lambda>p. pg_status p = PurgeComplete \<and> pg_tableCounts p = census w db0 counts0) db \<and> finished w db)"

lemma filter_update_same:
  "(\<And>r. p r \<Longrightarrow> \<not> q r \<and> \<not> q (f r)) \<Longrightarrow> filter q (update_where p f t) = filter q t"
  by (induction t) (auto simp: update_where_def)

lemma filter_update_own:
  "(\<And>r. r \<in> set t \<Longrightarrow> q (f r) = q r) \<Longrightarrow> filter q (update_where q f t) = map f (filter q t)"
  by (induction t) (auto simp: update_where_def)

lemma filter_update_sub:
  "(\<And>r. q r \<Longrightarrow> q (f r)) \<Longrightarrow>
     filter q (update_where (\<lambda>r. q r \<and> s r) f t) = map (\<lambda>r. if s r then f r else r) (filter q t)"
  by (induction t) (auto simp: update_where_def)

text \<open>A write of the record that keeps its workspace.\<close>

lemma write_record_under_way:
  assumes inv: "under_way w db0 counts0 stage db" and f: "\<And>p. pg_workspaceId (f p) = pg_workspaceId p"
    and new: "\<And>p. own_records w db = [p] \<Longrightarrow> stage p \<Longrightarrow> list_all (marker_true w db) (pg_completedTables p) \<Longrightarrow>
      counted w db0 counts0 db p \<Longrightarrow>
      stage' (f p) \<and> list_all (marker_true w db) (pg_completedTables (f p)) \<and> counted w db0 counts0 db (f p)"
  shows "under_way w db0 counts0 stage' (write_record w f db)"
proof -
  let ?db = "write_record w f db"
  have same: "pd_rows ?db = pd_rows db" "pd_members ?db = pd_members db" "pd_invitations ?db = pd_invitations db"
    "pd_organizations ?db = pd_organizations db" "pd_deadLetters ?db = pd_deadLetters db"
    by (simp_all add: write_record_def)
  have "filter (\<lambda>p. pg_workspaceId p \<noteq> w) (pd_records ?db) = filter (\<lambda>p. pg_workspaceId p \<noteq> w) (pd_records db)"
    by (simp add: write_record_def) (rule filter_update_same, simp add: f)
  then have "spared w db0 ?db" using inv by (simp add: under_way_def spared_def same)
  moreover have "own_records w ?db = map f (own_records w db)"
    by (simp add: own_records_def write_record_def) (rule filter_update_own, simp add: f)
  moreover have "marker_true w ?db = marker_true w db" "counted w db0 counts0 ?db = counted w db0 counts0 db"
    by (auto simp: fun_eq_iff marker_true_def free_def auth_free_def counted_def countWorkspaceAuthRows_def same
        split: purge_marker.split)
  moreover have "addresses_wf ?db = addresses_wf db" "readOrganizationDeletedAt w ?db = readOrganizationDeletedAt w db"
    by (simp_all add: addresses_wf_def readOrganizationDeletedAt_def find_organization_def same)
  moreover obtain p where "own_records w db = [p]" "stage p" "list_all (marker_true w db) (pg_completedTables p)"
    "counted w db0 counts0 db p" using inv by (auto simp: under_way_def)
  ultimately show ?thesis using inv new [of p] by (simp add: under_way_def)
qed

lemma free_write_record [simp]: "free w t (write_record w' f db) = free w t db"
  by (simp add: free_def write_record_def)

lemma page_under_way:
  assumes inv: "under_way w db0 counts0 stage db" and batch: "deletePurgeBatch locked t w limit db = (db', n)"
  shows "under_way w db0 counts0 stage db'"
proof -
  note rows = batch_rows [OF batch]
  have wf: "addresses_wf db" using inv by (simp add: under_way_def)
  have same: "pd_members db' = pd_members db" "pd_invitations db' = pd_invitations db" "pd_records db' = pd_records db"
    "pd_organizations db' = pd_organizations db" "pd_deadLetters db' = pd_deadLetters db"
    using batch by (auto simp: deletePurgeBatch_def Let_def)
  have "spared w db0 db'" using inv rows(1) [OF wf] by (simp add: under_way_def spared_def same)
  moreover have "marker_true w db m \<Longrightarrow> marker_true w db' m" for m
    using rows(2) [OF wf] by (auto simp: marker_true_def auth_free_def same split: purge_marker.splits)
  moreover have "own_records w db' = own_records w db" "counted w db0 counts0 db' = counted w db0 counts0 db"
    "readOrganizationDeletedAt w db' = readOrganizationDeletedAt w db"
    by (simp_all add: own_records_def fun_eq_iff counted_def countWorkspaceAuthRows_def readOrganizationDeletedAt_def
        find_organization_def same)
  ultimately show ?thesis using inv rows(3) [OF wf] by (auto simp: under_way_def list_all_iff)
qed

section \<open>The stages\<close>

definition calm :: "purge_env \<Rightarrow> bool" where
  "calm env = (quiet_env env \<and> pe_locked env = (\<lambda>k t r. False) \<and> pe_authUp env \<and> (\<forall>w. pe_lockFree env w))"

lemma page_loop_ends:
  assumes env: "calm env" "0 < limit" and inv: "under_way w db0 counts0 stage (jr_db r)"
    and stage: "\<And>p now. stage p \<Longrightarrow> stage (p\<lparr>pg_lastProgressAt := Some now\<rparr>)"
    and done_: "\<forall>u \<in> D. free w u (jr_db r)"
  shows "ends_in env (under_way w db0 counts0 stage) (\<lambda>_ db. \<forall>u \<in> insert t D. free w u db) (page_loop env t w limit r)"
  using inv done_
proof (induction "length (pd_rows (jr_db r) t)" arbitrary: r rule: less_induct)
  case less
  let ?page = "purge_page (\<lambda>r. False) t w limit"
  obtain db1 n where batch: "deletePurgeBatch (\<lambda>r. False) t w limit (jr_db r) = (db1, n)" by fastforce
  have wf: "addresses_wf (jr_db r)" and live: "readOrganizationDeletedAt w (jr_db r) \<noteq> None"
    using less.prems(1) by (simp_all add: under_way_def)
  have locked: "pe_locked env k t = (\<lambda>r. False)" for k using env(1) by (simp add: calm_def)
  have inv1: "under_way w db0 counts0 stage (advanceWorkspacePurgeCheckpoint w now db1)" for now
    unfolding advanceWorkspacePurgeCheckpoint_def
    by (rule write_record_under_way [OF page_under_way [OF less.prems(1) batch]]) (simp_all add: stage counted_def)
  have free1: "\<forall>u \<in> D. free w u (advanceWorkspacePurgeCheckpoint w now db1)" for now
    using less.prems(2) batch_rows(2) [OF batch wf] by (simp add: advanceWorkspacePurgeCheckpoint_def)
  show ?case
  proof (cases "je_killed env (jr_tx r)")
    case True
    then show ?thesis
      using less.prems(1) by (subst page_loop.simps) (auto simp: ends_in_def transact_def)
  next
    case False
    let ?r = "r\<lparr>jr_tx := jr_tx r + 1, jr_db := advanceWorkspacePurgeCheckpoint w (je_now env (jr_tx r)) db1\<rparr>"
    have run: "transact env (purge_page (pe_locked env (jr_tx r) t) t w limit) r = (Done n, ?r)"
      using False env(1) live batch
      by (simp add: transact_def purge_page_def locked calm_def quiet_env_def)
    show ?thesis
    proof (cases "n = 0")
      case True
      have "free w t (jr_db r)" using batch_progress(1) [OF batch env(2) True] .
      then have "free w t (jr_db ?r)"
        using batch_rows(2) [OF batch wf] by (simp add: advanceWorkspacePurgeCheckpoint_def)
      then show ?thesis
        using True run inv1 free1 by (subst page_loop.simps) simp
    next
      case False
      have "length (pd_rows (jr_db ?r) t) < length (pd_rows (jr_db r) t)"
        using batch_progress(2) [OF batch env(2) False]
        by (simp add: advanceWorkspacePurgeCheckpoint_def write_record_def)
      from less.hyps [OF this] show ?thesis
        using False run inv1 free1 by (subst page_loop.simps) simp
    qed
  qed
qed


lemma calm_quiet: "calm env \<Longrightarrow> quiet_env env"
  by (simp add: calm_def)

definition walk_stage :: "(purge_record_row \<Rightarrow> bool) \<Rightarrow> bool" where
  "walk_stage stage =
     (\<forall>p. stage p \<longrightarrow> (\<forall>x. stage (p\<lparr>pg_lastProgressAt := x\<rparr>))
        \<and> (\<forall>c. set (pg_completedTables p) \<subseteq> set c \<longrightarrow> stage (p\<lparr>pg_completedTables := c\<rparr>)))"

lemma walk_stageD:
  assumes "walk_stage stage" "stage p"
  shows "stage (p\<lparr>pg_lastProgressAt := x\<rparr>)" "set (pg_completedTables p) \<subseteq> set c \<Longrightarrow> stage (p\<lparr>pg_completedTables := c\<rparr>)"
  using assms by (simp_all add: walk_stage_def)

lemma markDone_under_way:
  assumes "under_way w db0 counts0 stage db" "marker_true w db m" and stage: "walk_stage stage"
    and "m = AUTH_STEP_MARKER \<Longrightarrow> (\<And>p. stage p \<Longrightarrow> pg_tableCounts p = census w db0 counts0)"
  shows "under_way w db0 counts0 stage (markPurgeTableDone w m db)"
  unfolding markPurgeTableDone_def
proof (rule write_record_under_way [OF assms(1)])
  fix p assume p: "stage p" "list_all (marker_true w db) (pg_completedTables p)" "counted w db0 counts0 db p"
  let ?c = "if m \<in> set (pg_completedTables p) then pg_completedTables p else pg_completedTables p @ [m]"
  have "stage (p\<lparr>pg_completedTables := ?c\<rparr>)" by (rule walk_stageD(2) [OF stage p(1)]) auto
  moreover have "list_all (marker_true w db) ?c" using p(2) assms(2) by simp
  moreover have "counted w db0 counts0 db (p\<lparr>pg_completedTables := ?c\<rparr>)"
    using p(3) assms(4) [OF _ p(1)] by (auto simp: counted_def)
  ultimately show "stage (p\<lparr>pg_completedTables := ?c\<rparr>)
      \<and> list_all (marker_true w db) (pg_completedTables (p\<lparr>pg_completedTables := ?c\<rparr>))
      \<and> counted w db0 counts0 db (p\<lparr>pg_completedTables := ?c\<rparr>)" by simp
qed simp

lemma free_count: "free w t db \<Longrightarrow> countPurgeTableRows t w db = 0"
  by (simp add: countPurgeTableRows_def free_def row_count_zero)

lemma walk_attempts_ends:
  assumes env: "calm env" "0 < limit" and inv: "under_way w db0 counts0 stage (jr_db r)"
    and stage: "walk_stage stage" and free: "\<forall>u \<in> D. free w u (jr_db r)"
  shows "ends_in env (under_way w db0 counts0 stage) (\<lambda>_ db. \<forall>u \<in> insert t D. free w u db)
    (walk_attempts (Suc n) env t w limit r)"
proof -
  let ?I = "under_way w db0 counts0 stage" and ?Q = "\<lambda>_ db. \<forall>u \<in> insert t D. free w u db"
  have second: "ends_in env ?I ?Q (run_then (run_tx env (reading (countPurgeTableRows t w)) r1) (\<lambda>remaining r2.
       if remaining = 0 then run_tx env (writing (\<lambda>_. markPurgeTableDone w (TableMarker t))) r2
       else walk_attempts n env t w limit r2))"
    if r1: "?I (jr_db r1)" "\<forall>u \<in> insert t D. free w u (jr_db r1)" for r1 :: "purge_db job_run"
  proof (rule run_then_ends [OF reading_ends [where I = ?I, OF calm_quiet [OF env(1)] r1(1)]], elim conjE)
    fix remaining and r2 :: "purge_db job_run"
    assume r2: "?I (jr_db r2)" "remaining = countPurgeTableRows t w (jr_db r2)" "jr_db r2 = jr_db r1"
    have "free w t (jr_db r2)" using r1(2) r2(3) by simp
    moreover from this have "?I (markPurgeTableDone w (TableMarker t) (jr_db r2))"
      by (intro markDone_under_way [OF r2(1)]) (simp_all add: marker_true_def stage)
    moreover have "\<forall>u \<in> insert t D. free w u (markPurgeTableDone w (TableMarker t) (jr_db r2))"
      using r1(2) by (simp add: r2(3) markPurgeTableDone_def)
    ultimately show "ends_in env ?I ?Q (if remaining = 0 then run_tx env (writing (\<lambda>_. markPurgeTableDone w (TableMarker t))) r2
        else walk_attempts n env t w limit r2)"
      using r2 by (simp add: free_count) (intro writing_ends [OF calm_quiet [OF env(1)]], simp_all)
  qed
  show ?thesis
    unfolding walk_attempts.simps
    by (rule run_then_ends [OF page_loop_ends [OF env inv _ free]]) (simp add: walk_stageD [OF stage], rule second)
qed

lemma walk_tables_ends:
  assumes env: "calm env" "0 < limit" and stage: "walk_stage stage"
  shows "under_way w db0 counts0 stage (jr_db r) \<Longrightarrow> \<forall>u \<in> D. free w u (jr_db r) \<Longrightarrow> {u. TableMarker u \<in> set completed} \<subseteq> D \<Longrightarrow>
    ends_in env (under_way w db0 counts0 stage) (\<lambda>_ db. \<forall>u \<in> set ts \<union> D. free w u db) (walk_tables env completed ts w limit r)"
proof (induction ts arbitrary: r D)
  case (Cons t ts)
  have order: "set (t # ts) \<union> D = set ts \<union> insert t D" by auto
  show ?case
  proof (cases "TableMarker t \<in> set completed")
    case True
    then have "insert t D = D" using Cons.prems(3) by auto
    with Cons True show ?thesis unfolding order by simp
  next
    case False
    have "ends_in env (under_way w db0 counts0 stage) (\<lambda>_ db. \<forall>u \<in> set ts \<union> insert t D. free w u db)
      (run_then (walkPurgeTable env t w limit r) (\<lambda>_ r1. walk_tables env completed ts w limit r1))"
      unfolding walkPurgeTable_def MAX_ATTEMPTS_def numeral_3_eq_3
      by (rule run_then_ends [OF walk_attempts_ends [OF env Cons.prems(1) stage Cons.prems(2)]]) (rule Cons.IH, use Cons.prems(3) in auto)
    with False show ?thesis unfolding order by simp
  qed
qed simp

lemma all_tables: "set PURGE_TABLE_ORDER = UNIV"
  unfolding PURGE_TABLE_ORDER_def by (rule set_eqI, rename_tac t, case_tac t) simp_all

section \<open>The end of the walk\<close>

abbreviation counted_all :: "uuid \<Rightarrow> purge_db \<Rightarrow> (count_key \<rightharpoonup> nat) \<Rightarrow> purge_record_row \<Rightarrow> bool" where
  "counted_all w db0 counts0 \<equiv> (\<lambda>p. purging p \<and> pg_tableCounts p = census w db0 counts0)"

lemma under_way_weaken:
  "under_way w db0 counts0 stage db \<Longrightarrow> (\<And>p. stage p \<Longrightarrow> stage' p) \<Longrightarrow> under_way w db0 counts0 stage' db"
  by (auto simp: under_way_def)

lemma counts_once: "[a \<mapsto> x, b \<mapsto> y] ++ ([a \<mapsto> x', b \<mapsto> y'] ++ c) = [a \<mapsto> x', b \<mapsto> y'] ++ c"
  by (rule ext) (auto simp: map_add_def split: option.split)

lemma auth_deleted:
  assumes inv: "under_way w db0 counts0 (counted_all w db0 counts0) db" and free: "\<forall>u. free w u db"
  shows "\<exists>db'. deleteWorkspaceAuthRows True w now db = (Inr (), db') \<and> under_way w db0 counts0 (counted_all w db0 counts0) db'
    \<and> (\<forall>u. free w u db') \<and> auth_free w db'"
proof -
  let ?db = "db\<lparr>pd_invitations := delete_where (\<lambda>i. i = w) (pd_invitations db), pd_members := delete_where (\<lambda>i. i = w) (pd_members db)\<rparr>"
  have "marker_true w db m \<Longrightarrow> marker_true w ?db m" for m
    by (auto simp: marker_true_def free_def auth_free_def split: purge_marker.split)
  then have "under_way w db0 counts0 (counted_all w db0 counts0) ?db"
    using inv by (auto simp: under_way_def spared_def addresses_wf_def readOrganizationDeletedAt_def find_organization_def
        own_records_def counted_def delete_where_def list_all_iff)
  moreover have "\<forall>u. free w u ?db" "auth_free w ?db" using free by (simp_all add: free_def auth_free_def)
  ultimately show ?thesis by (simp add: deleteWorkspaceAuthRows_def)
qed

lemma auth_step_ends:
  assumes env: "calm env" and inv: "under_way w db0 counts0 purging (jr_db r)" and free: "\<forall>u. free w u (jr_db r)"
    and completed: "AUTH_STEP_MARKER \<in> set completed \<Longrightarrow>
      under_way w db0 counts0 (counted_all w db0 counts0) (jr_db r) \<and> auth_free w (jr_db r)"
  shows "ends_in env (under_way w db0 counts0 purging)
    (\<lambda>_ db. under_way w db0 counts0 (counted_all w db0 counts0) db \<and> (\<forall>u. free w u db) \<and> auth_free w db)
    (auth_step env completed w r)"
proof (cases "AUTH_STEP_MARKER \<in> set completed")
  case True
  with completed inv free show ?thesis by (simp add: auth_step_def)
next
  case False
  let ?I = "under_way w db0 counts0 purging" and ?C = "under_way w db0 counts0 (counted_all w db0 counts0)"
  let ?Q = "\<lambda>_ db. ?C db \<and> (\<forall>u. free w u db) \<and> auth_free w db"
  note quiet = calm_quiet [OF env]
  have up: "pe_authUp env" using env by (simp add: calm_def)
  have sub: "?C db \<Longrightarrow> ?I db" for db by (erule under_way_weaken) simp
  have fourth: "ends_in env ?I ?Q (run_tx env (writing (\<lambda>_. markPurgeTableDone w AUTH_STEP_MARKER)) r3)"
    if "?C (jr_db r3) \<and> (\<forall>u. free w u (jr_db r3)) \<and> auth_free w (jr_db r3)" for r3 :: "purge_db job_run"
  proof (rule writing_ends [where I = ?I, OF quiet])
    have "?C (markPurgeTableDone w AUTH_STEP_MARKER (jr_db r3))"
      using that by (intro markDone_under_way) (simp_all add: marker_true_def walk_stage_def purging_def)
    with that show "?I (markPurgeTableDone w AUTH_STEP_MARKER (jr_db r3)) \<and>
        (?C (markPurgeTableDone w AUTH_STEP_MARKER (jr_db r3)) \<and> (\<forall>u. free w u (markPurgeTableDone w AUTH_STEP_MARKER (jr_db r3)))
         \<and> auth_free w (markPurgeTableDone w AUTH_STEP_MARKER (jr_db r3)))"
      using sub by (simp add: markPurgeTableDone_def auth_free_def write_record_def free_def)
  qed (use sub that in blast)
  have third: "ends_in env ?I ?Q (run_then (run_tx env (deleteWorkspaceAuthRows (pe_authUp env) w) r2) (\<lambda>_ r3.
      run_tx env (writing (\<lambda>_. markPurgeTableDone w AUTH_STEP_MARKER)) r3))"
    if "?C (jr_db r2)" "\<forall>u. free w u (jr_db r2)" for r2 :: "purge_db job_run"
  proof (rule run_then_ends [where Q = ?Q])
    show "ends_in env ?I ?Q (run_tx env (deleteWorkspaceAuthRows (pe_authUp env) w) r2)"
      unfolding eqTrueI [OF up]
      by (rule run_tx_ends [where I = ?I, OF quiet sub [OF that(1)]]) (use auth_deleted [OF that] sub in blast)
  qed (rule fourth)
  have second: "ends_in env ?I ?Q (run_then (run_tx env (writing (\<lambda>_. recordAuthPurgeCounts w counts)) r1) (\<lambda>_ r2.
      run_then (run_tx env (deleteWorkspaceAuthRows (pe_authUp env) w) r2) (\<lambda>_ r3.
      run_tx env (writing (\<lambda>_. markPurgeTableDone w AUTH_STEP_MARKER)) r3)))"
    if "?I (jr_db r1)" "counts = countWorkspaceAuthRows w (jr_db r1)" "\<forall>u. free w u (jr_db r1)"
    for r1 :: "purge_db job_run" and counts
  proof (rule run_then_ends [where Q = "\<lambda>_ db. ?C db \<and> (\<forall>u. free w u db)"])
    have C: "?C (recordAuthPurgeCounts w counts (jr_db r1))"
      unfolding recordAuthPurgeCounts_def
    proof (rule write_record_under_way [OF that(1)])
      fix p assume p: "own_records w (jr_db r1) = [p]" "purging p" "counted w db0 counts0 (jr_db r1) p"
        "list_all (marker_true w (jr_db r1)) (pg_completedTables p)"
      have "[CountMember \<mapsto> fst counts, CountInvitation \<mapsto> snd counts] ++ pg_tableCounts p = census w db0 counts0"
        using p(3) that(2) unfolding counted_def
        by (elim disjE conjE) (simp_all add: census_def counts_once)
      with p show "counted_all w db0 counts0 (p\<lparr>pg_tableCounts :=
          [CountMember \<mapsto> fst counts, CountInvitation \<mapsto> snd counts] ++ pg_tableCounts p\<rparr>)
        \<and> list_all (marker_true w (jr_db r1)) (pg_completedTables (p\<lparr>pg_tableCounts :=
          [CountMember \<mapsto> fst counts, CountInvitation \<mapsto> snd counts] ++ pg_tableCounts p\<rparr>))
        \<and> counted w db0 counts0 (jr_db r1) (p\<lparr>pg_tableCounts :=
          [CountMember \<mapsto> fst counts, CountInvitation \<mapsto> snd counts] ++ pg_tableCounts p\<rparr>)"
        by (simp add: purging_def counted_def)
    qed simp
    show "ends_in env ?I (\<lambda>_ db. ?C db \<and> (\<forall>u. free w u db)) (run_tx env (writing (\<lambda>_. recordAuthPurgeCounts w counts)) r1)"
      by (rule writing_ends [where I = ?I, OF quiet that(1)]) (use C sub [OF C] that(3) in \<open>simp add: recordAuthPurgeCounts_def\<close>)
  qed (use third in blast)
  have "ends_in env ?I ?Q (run_then (run_tx env (reading (countWorkspaceAuthRows w)) r) (\<lambda>preCounts r1.
      run_then (run_tx env (writing (\<lambda>_. recordAuthPurgeCounts w preCounts)) r1) (\<lambda>_ r2.
      run_then (run_tx env (deleteWorkspaceAuthRows (pe_authUp env) w) r2) (\<lambda>_ r3.
      run_tx env (writing (\<lambda>_. markPurgeTableDone w AUTH_STEP_MARKER)) r3))))"
  proof (rule run_then_ends [OF reading_ends [where I = ?I, OF quiet inv]])
    fix a and r1 :: "purge_db job_run"
    assume "?I (jr_db r1)" "a = countWorkspaceAuthRows w (jr_db r1) \<and> jr_db r1 = jr_db r"
    with free show "ends_in env ?I ?Q (run_then (run_tx env (writing (\<lambda>_. recordAuthPurgeCounts w a)) r1) (\<lambda>_ r2.
      run_then (run_tx env (deleteWorkspaceAuthRows (pe_authUp env) w) r2) (\<lambda>_ r3.
      run_tx env (writing (\<lambda>_. markPurgeTableDone w AUTH_STEP_MARKER)) r3)))"
      by (intro second) simp_all
  qed
  with False show ?thesis by (simp add: auth_step_def)
qed

lemma tombstone_under_way:
  assumes inv: "under_way w db0 counts0 stage db"
  shows "under_way w db0 counts0 stage (tombstoneOrganization w now db)"
proof -
  let ?f = "\<lambda>x :: organization_row. x\<lparr>og_name := ''purged-workspace'', og_slug := ''purged-'' @ og_id x, og_purgedAt := Some now\<rparr>"
  let ?db = "tombstoneOrganization w now db"
  have same: "pd_rows ?db = pd_rows db" "pd_members ?db = pd_members db" "pd_invitations ?db = pd_invitations db"
    "pd_records ?db = pd_records db" "pd_deadLetters ?db = pd_deadLetters db"
    by (simp_all add: tombstoneOrganization_def)
  have "filter (\<lambda>x. og_id x \<noteq> w) (update_where (\<lambda>x. og_id x = w) ?f t) = filter (\<lambda>x. og_id x \<noteq> w) t" for t
    by (rule filter_update_same) simp
  then have "spared w db0 ?db" using inv by (simp add: under_way_def spared_def same) (simp add: tombstoneOrganization_def)
  moreover have "Option.bind (find (\<lambda>x. og_id x = w) (update_where (\<lambda>x. og_id x = w) ?f t)) og_deletedAt
      = Option.bind (find (\<lambda>x. og_id x = w) t) og_deletedAt" for t
    by (induction t) (auto simp: update_where_def)
  then have "readOrganizationDeletedAt w ?db = readOrganizationDeletedAt w db"
    by (simp add: readOrganizationDeletedAt_def find_organization_def tombstoneOrganization_def)
  moreover have "own_records w ?db = own_records w db" "addresses_wf ?db = addresses_wf db"
    by (simp_all add: own_records_def addresses_wf_def same)
  moreover have "marker_true w ?db = marker_true w db" "counted w db0 counts0 ?db = counted w db0 counts0 db"
    by (auto simp: fun_eq_iff marker_true_def free_def auth_free_def counted_def countWorkspaceAuthRows_def same
        split: purge_marker.split)
  ultimately show ?thesis using inv by (simp add: under_way_def)
qed

definition purged :: "uuid \<Rightarrow> purge_db \<Rightarrow> (count_key \<rightharpoonup> nat) \<Rightarrow> purge_db \<Rightarrow> bool" where
  "purged w db0 counts0 db =
     (under_way w db0 counts0 (\<lambda>p. pg_status p = PurgeComplete \<and> pg_tableCounts p = census w db0 counts0) db
      \<and> finished w db)"

lemma progress_under_way:
  assumes "under_way w db0 counts0 stage db"
  obtains p where "loadWorkspacePurgeProgress w db = Some p" "own_records w db = [p]" "stage p"
    "list_all (marker_true w db) (pg_completedTables p)" "counted w db0 counts0 db p"
proof -
  have "find q t = (case filter q t of [] \<Rightarrow> None | p # _ \<Rightarrow> Some p)" for q and t :: "purge_record_row list"
    by (induction t) auto
  then show thesis
    using assms that by (auto simp: under_way_def loadWorkspacePurgeProgress_def own_records_def)
qed

lemma begin_purging_free [simp]:
  "free w' u (begin_purging w now db) = free w' u db" "auth_free w' (begin_purging w now db) = auth_free w' db"
  by (simp_all add: begin_purging_def free_def auth_free_def)

text \<open>What holds from the first write of a run on, where \<open>completed\<close> are the markers that it has read.\<close>

definition walking :: "uuid \<Rightarrow> purge_db \<Rightarrow> (count_key \<rightharpoonup> nat) \<Rightarrow> purge_marker list \<Rightarrow> purge_record_row \<Rightarrow> bool" where
  "walking w db0 counts0 completed p =
     (purging p \<and> (AUTH_STEP_MARKER \<in> set completed \<longrightarrow>
        pg_tableCounts p = census w db0 counts0 \<and> AUTH_STEP_MARKER \<in> set (pg_completedTables p)))"

lemma walking_stage: "walk_stage (walking w db0 counts0 completed)"
  by (auto simp: walk_stage_def walking_def purging_def)

lemma begin_under_way:
  assumes inv: "under_way w db0 counts0 (\<lambda>p. pg_status p = PurgeReported \<or> pg_status p = PurgePurging) db"
    and progress: "own_records w db = [p]"
  shows "under_way w db0 counts0 (walking w db0 counts0 (pg_completedTables p)) (begin_purging w now db)"
proof -
  let ?f = "\<lambda>p. p\<lparr>pg_status := PurgePurging, pg_firstDestructiveBatchAt := coalesce (pg_firstDestructiveBatchAt p) (Some now)\<rparr>"
  have eq: "begin_purging w now db = write_record w (\<lambda>p. if pg_status p = PurgeReported \<or> pg_status p = PurgePurging
      then ?f p else p) db"
    by (auto simp: begin_purging_def write_record_def update_where_def)
  have "counted w db0 counts0 db p" using inv progress by (auto simp: under_way_def)
  then show ?thesis
    unfolding eq by (intro write_record_under_way [OF inv]) (use progress in \<open>auto simp: walking_def purging_def counted_def\<close>)
qed

lemma walking_auth_free:
  "under_way w db0 counts0 (walking w db0 counts0 completed) db \<Longrightarrow> AUTH_STEP_MARKER \<in> set completed \<Longrightarrow>
     under_way w db0 counts0 (counted_all w db0 counts0) db \<and> auth_free w db"
  by (auto simp: under_way_def walking_def list_all_iff marker_true_def dest: bspec [where x = AUTH_STEP_MARKER])

lemma completed_free:
  "list_all (marker_true w db) completed \<Longrightarrow> TableMarker u \<in> set completed \<Longrightarrow> free w u db"
  by (auto simp: list_all_iff marker_true_def dest: bspec [where x = "TableMarker u"])

lemma markPurgeComplete_purged:
  assumes inv: "under_way w db0 counts0 (counted_all w db0 counts0) db" and fin: "finished w db"
  shows "purged w db0 counts0 (markPurgeComplete w now db)"
proof -
  have "finished w (markPurgeComplete w now db)"
    using fin by (simp add: finished_def markPurgeComplete_def auth_free_def write_record_def free_def)
  moreover have "under_way w db0 counts0 (\<lambda>p. pg_status p = PurgeComplete \<and> pg_tableCounts p = census w db0 counts0)
      (markPurgeComplete w now db)"
    unfolding markPurgeComplete_def by (rule write_record_under_way [OF inv]) (simp_all add: counted_def)
  ultimately show ?thesis by (simp add: purged_def)
qed

lemma updated_rows: "(\<And>x. Q (f x)) \<Longrightarrow> \<forall>x \<in> set (update_where p f t). p x \<longrightarrow> Q x"
  by (induction t) (auto simp: update_where_def)

lemma tombstone_finished:
  "\<forall>u. free w u db \<Longrightarrow> auth_free w db \<Longrightarrow> finished w (tombstoneOrganization w now db)"
proof -
  assume free: "\<forall>u. free w u db" "auth_free w db"
  have orgs: "pd_organizations (tombstoneOrganization w now db) = update_where (\<lambda>x. og_id x = w)
      (\<lambda>x. x\<lparr>og_name := ''purged-workspace'', og_slug := ''purged-'' @ og_id x, og_purgedAt := Some now\<rparr>) (pd_organizations db)"
    by (simp add: tombstoneOrganization_def)
  have "\<forall>x \<in> set (pd_organizations (tombstoneOrganization w now db)). og_id x = w \<longrightarrow>
      og_name x = ''purged-workspace'' \<and> og_purgedAt x \<noteq> None"
    unfolding orgs by (rule updated_rows) simp
  then show ?thesis using free by (simp add: finished_def tombstoneOrganization_def free_def auth_free_def)
qed

lemma destroy_ends:
  assumes env: "calm env" "0 < limit"
    and inv: "under_way w db0 counts0 (\<lambda>p. pg_status p = PurgeReported \<or> pg_status p = PurgePurging) (jr_db r)"
    and progress: "own_records w (jr_db r) = [p]"
  shows "ends_in env (resumable w db0 counts0) (\<lambda>_. purged w db0 counts0)
    (destroy_workspace env (pg_completedTables p) w limit r)"
proof -
  note quiet = calm_quiet [OF env(1)]
  let ?done = "pg_completedTables p" and ?I = "resumable w db0 counts0"
  let ?W = "under_way w db0 counts0 (walking w db0 counts0 ?done)" and ?C = "under_way w db0 counts0 (counted_all w db0 counts0)"
  let ?R = "under_way w db0 counts0 (\<lambda>p. pg_status p = PurgeReported \<or> pg_status p = PurgePurging)"
  let ?P = "under_way w db0 counts0 purging"
  let ?D = "{u. TableMarker u \<in> set ?done}"
  have resumeP: "?I db" if "?P db" for db
    using that unfolding resumable_def by (rule disjI1 [OF under_way_weaken]) (simp add: purging_def)
  have subW: "?P db" if "?W db" for db using that by (rule under_way_weaken) (simp add: walking_def)
  have subC: "?P db" if "?C db" for db using that by (rule under_way_weaken) simp
  have live: "readOrganizationDeletedAt w (jr_db r) \<noteq> None" using inv by (simp add: under_way_def)
  have D: "\<forall>u \<in> ?D. free w u (jr_db r)" using inv progress completed_free by (auto simp: under_way_def)
  have first: "ends_in env ?I (\<lambda>_ db. ?W db \<and> (\<forall>u \<in> ?D. free w u db)) (beginDestructivePhase env w r)"
    unfolding beginDestructivePhase_def
  proof (rule run_then_ends [OF ends_in_mono [OF reading_ends [where I = ?R, OF quiet inv]]])
    fix a and r1 :: "purge_db job_run"
    assume r1: "?I (jr_db r1)" "a = readOrganizationDeletedAt w (jr_db r1) \<and> jr_db r1 = jr_db r"
    have "ends_in env ?I (\<lambda>_ db. ?W db \<and> (\<forall>u \<in> ?D. free w u db)) (run_tx env (writing (begin_purging w)) r1)"
      by (rule writing_ends [where I = ?I, OF quiet r1(1)])
         (use begin_under_way [OF inv progress] r1(2) D resumeP [OF subW] in auto)
    with r1(2) live show "ends_in env ?I (\<lambda>_ db. ?W db \<and> (\<forall>u \<in> ?D. free w u db))
      (if a = None then Some (Threw (WorkspaceRestoredError w), r1) else run_tx env (writing (begin_purging w)) r1)" by auto
  qed (simp_all add: resumable_def)
  have second: "ends_in env ?I (\<lambda>_ db. ?W db \<and> (\<forall>u. free w u db)) (walk_tables env ?done PURGE_TABLE_ORDER w limit r1)"
    if "?W (jr_db r1) \<and> (\<forall>u \<in> ?D. free w u (jr_db r1))" for r1 :: "purge_db job_run"
    by (rule ends_in_mono [OF walk_tables_ends [where D = ?D and stage = "walking w db0 counts0 ?done", OF env walking_stage]])
       (use that resumeP [OF subW] in \<open>auto simp: all_tables\<close>)
  have third: "ends_in env ?I (\<lambda>_ db. ?C db \<and> (\<forall>u. free w u db) \<and> auth_free w db) (auth_step env ?done w r2)"
    if "?W (jr_db r2) \<and> (\<forall>u. free w u (jr_db r2))" for r2 :: "purge_db job_run"
    by (rule ends_in_mono [OF auth_step_ends [OF env(1) subW]])
       (use that resumeP walking_auth_free in blast)+
  have fourth: "ends_in env ?I (\<lambda>_ db. ?C db \<and> finished w db) (run_tx env (writing (tombstoneOrganization w)) r3)"
    if "?I (jr_db r3)" "?C (jr_db r3) \<and> (\<forall>u. free w u (jr_db r3)) \<and> auth_free w (jr_db r3)" for r3 :: "purge_db job_run"
    by (rule writing_ends [where I = ?I, OF quiet that(1)])
       (use that(2) tombstone_under_way tombstone_finished resumeP subC in blast)
  have fifth: "ends_in env ?I (\<lambda>_. purged w db0 counts0) (run_tx env (writing (markPurgeComplete w)) r4)"
    if "?I (jr_db r4)" "?C (jr_db r4) \<and> finished w (jr_db r4)" for r4 :: "purge_db job_run"
    by (rule writing_ends [where I = ?I, OF quiet that(1)])
       (use that(2) markPurgeComplete_purged in \<open>auto simp: purged_def resumable_def\<close>)
  show ?thesis
    unfolding destroy_workspace_def
    by (rule run_then_ends [OF first], rule run_then_ends [OF second], assumption,
        rule run_then_ends [OF third], assumption, rule run_then_ends [OF fourth], assumption+, rule fifth)
qed

end
