(* ===== verification/Purge_Properties.thy ===== *)
theory Purge_Properties
  imports Purge_Completion
begin

text \<open>
  The promises of the purge and their examples: what an interrupted purge leaves is finished by the next tick,
  no other workspace loses anything, and a report outlives a restoration.
\<close>

section \<open>The walk of a workspace\<close>

lemma resumable_progress:
  assumes "resumable w db0 counts0 db"
  obtains (active) p where "loadWorkspacePurgeProgress w db = Some p" "own_records w db = [p]"
      "under_way w db0 counts0 (\<lambda>p. pg_status p = PurgeReported \<or> pg_status p = PurgePurging) db"
      "pg_status p = PurgeReported \<or> pg_status p = PurgePurging"
    | (complete) p where "loadWorkspacePurgeProgress w db = Some p" "pg_status p = PurgeComplete" "purged w db0 counts0 db"
  using assms unfolding resumable_def
proof (elim disjE conjE)
  assume u: "under_way w db0 counts0 (\<lambda>p. pg_status p = PurgeReported \<or> pg_status p = PurgePurging) db"
  from u show thesis by (rule progress_under_way) (rule active [OF _ _ u])
next
  assume u: "under_way w db0 counts0 (\<lambda>p. pg_status p = PurgeComplete \<and> pg_tableCounts p = census w db0 counts0) db"
    and "finished w db"
  then have "purged w db0 counts0 db" by (simp add: purged_def)
  moreover obtain p where "loadWorkspacePurgeProgress w db = Some p" "pg_status p = PurgeComplete \<and> pg_tableCounts p = census w db0 counts0"
    using u by (rule progress_under_way)
  ultimately show thesis by (blast intro: complete)
qed

lemma not_restored: "readOrganizationDeletedAt w db \<noteq> None \<Longrightarrow> \<not> wasRestoredBeforeDestruction w db"
  by (auto simp: readOrganizationDeletedAt_def wasRestoredBeforeDestruction_def split: option.split)

lemma walk_ends:
  assumes env: "calm env" "0 < limit" and inv: "resumable w db0 counts0 (jr_db r)"
  shows "ends_in env (resumable w db0 counts0) (\<lambda>_. purged w db0 counts0) (runWorkspacePurgeWalk env limit w r)"
proof -
  let ?I = "resumable w db0 counts0" and ?Q = "\<lambda>_. purged w db0 counts0"
  note quiet = calm_quiet [OF env(1)]
  let ?walk = "\<lambda>progress r1. run_catch (destroy_workspace env (pg_completedTables progress) w limit r1)
    (\<lambda>e. run_tx env (writing (\<lambda>_. markPurgeFailed w e)))"
  have body: "ends_in env ?I ?Q (case found of
       None \<Rightarrow> Some (Done (), r1)
     | Some progress \<Rightarrow>
         if pg_status progress = PurgeComplete \<or> pg_status progress = PurgeFailed then Some (Done (), r1)
         else if pg_status progress = PurgeReported \<and> pg_firstDestructiveBatchAt progress = None
         then run_then (run_tx env (reading (wasRestoredBeforeDestruction w)) r1) (\<lambda>restored r2.
                if restored then Some (Done (), r2) else ?walk progress r2)
         else ?walk progress r1)"
    if r1: "?I (jr_db r1)" "found = loadWorkspacePurgeProgress w (jr_db r1)" for found and r1 :: "purge_db job_run"
    using r1(1)
  proof (cases rule: resumable_progress)
    case (active p)
    have walk: "ends_in env ?I ?Q (?walk p r2)" if "jr_db r2 = jr_db r1" for r2
      by (rule run_catch_ends, rule destroy_ends [OF env]) (use active that in simp_all)
    have "ends_in env ?I ?Q (run_then (run_tx env (reading (wasRestoredBeforeDestruction w)) r1) (\<lambda>restored r2.
        if restored then Some (Done (), r2) else ?walk p r2))"
    proof (rule run_then_ends [OF reading_ends [where I = ?I, OF quiet r1(1)]])
      fix restored and r2 :: "purge_db job_run"
      assume r2: "restored = wasRestoredBeforeDestruction w (jr_db r2) \<and> jr_db r2 = jr_db r1"
      moreover have "readOrganizationDeletedAt w (jr_db r1) \<noteq> None" using active(3) by (auto simp: under_way_def)
      ultimately show "ends_in env ?I ?Q (if restored then Some (Done (), r2) else ?walk p r2)"
        using walk not_restored by auto
    qed
    with walk active r1(2) show ?thesis by auto
  next
    case (complete p)
    with r1 show ?thesis by simp
  qed
  have "ends_in env ?I ?Q (run_then (run_tx env (reading (loadWorkspacePurgeProgress w)) r) (\<lambda>found r1. case found of
       None \<Rightarrow> Some (Done (), r1)
     | Some progress \<Rightarrow>
         if pg_status progress = PurgeComplete \<or> pg_status progress = PurgeFailed then Some (Done (), r1)
         else if pg_status progress = PurgeReported \<and> pg_firstDestructiveBatchAt progress = None
         then run_then (run_tx env (reading (wasRestoredBeforeDestruction w)) r1) (\<lambda>restored r2.
                if restored then Some (Done (), r2) else ?walk progress r2)
         else ?walk progress r1))"
    by (rule run_then_ends [OF reading_ends [where I = ?I, OF quiet inv]], rule body) simp_all
  then show ?thesis using env(1) by (simp add: runWorkspacePurgeWalk_def calm_def Let_def)
qed

lemma reported_resumable:
  assumes "own_records w db = [p]" "pg_status p = PurgeReported" "pg_completedTables p = []"
    and "addresses_wf db" "readOrganizationDeletedAt w db \<noteq> None"
  shows "resumable w db (pg_tableCounts p) db"
  using assms by (simp add: resumable_def under_way_def spared_def counted_def)

section \<open>The other workspaces\<close>

text \<open>Nothing of another workspace changes, whatever is locked or killed and whether the elevated pool works,
  as long as the others leave their own alone.\<close>

definition untouched :: "uuid \<Rightarrow> purge_db \<Rightarrow> purge_db \<Rightarrow> bool" where
  "untouched w db0 db = (spared w db0 db \<and> addresses_wf db)"

lemma write_record_untouched:
  assumes "untouched w db0 db" "\<And>p. pg_workspaceId (f p) = pg_workspaceId p"
  shows "untouched w db0 (write_record w f db)"
proof -
  have "filter (\<lambda>p. pg_workspaceId p \<noteq> w) (update_where (\<lambda>p. pg_workspaceId p = w) f t)
      = filter (\<lambda>p. pg_workspaceId p \<noteq> w) t" for t
    by (rule filter_update_same) (simp add: assms(2))
  with assms(1) show ?thesis by (simp add: untouched_def spared_def write_record_def addresses_wf_def)
qed

lemma page_untouched:
  assumes "untouched w db0 db" shows "untouched w db0 (snd (purge_page locked t w limit now db))"
proof (cases "deletePurgeBatch locked t w limit db")
  case (Pair db' n)
  have wf: "addresses_wf db" using assms by (simp add: untouched_def)
  have "pd_members db' = pd_members db" "pd_invitations db' = pd_invitations db" "pd_records db' = pd_records db"
    "pd_organizations db' = pd_organizations db" "pd_deadLetters db' = pd_deadLetters db"
    using Pair by (auto simp: deletePurgeBatch_def Let_def)
  then have "untouched w db0 db'"
    using assms batch_rows(1,3) [OF Pair wf] by (simp add: untouched_def spared_def)
  then show ?thesis
    using assms Pair by (simp add: purge_page_def advanceWorkspacePurgeCheckpoint_def write_record_untouched)
qed

lemma reading_keeps: "others_keep I env \<Longrightarrow> I (jr_db r) \<Longrightarrow> job_keeps I (run_tx env (reading f) r)"
  by (rule run_tx_keeps) (simp_all add: reading_def)

lemma writing_keeps:
  "others_keep I env \<Longrightarrow> I (jr_db r) \<Longrightarrow> (\<And>now db. I db \<Longrightarrow> I (f now db)) \<Longrightarrow> job_keeps I (run_tx env (writing f) r)"
  by (rule run_tx_keeps) (simp_all add: writing_def)

lemma page_loop_keeps:
  assumes "page_loop env t w limit r = Some y"
  shows "others_keep I env \<longrightarrow> I (jr_db r) \<longrightarrow> (\<forall>locked now db. I db \<longrightarrow> I (snd (purge_page locked t w limit now db))) \<longrightarrow>
    I (jr_db (snd y))"
  using assms
proof (rule page_loop.raw_induct [rotated])
  fix loop env t w limit r y
  assume IH: "\<And>env t w limit r y. loop env t w limit r = Some y \<Longrightarrow> others_keep I env \<longrightarrow> I (jr_db r) \<longrightarrow>
      (\<forall>locked now db. I db \<longrightarrow> I (snd (purge_page locked t w limit now db))) \<longrightarrow> I (jr_db (snd y))"
    and run: "(case transact env (purge_page (pe_locked env (jr_tx r) t) t w limit) r of
        (Killed, r') \<Rightarrow> Some (Killed, r')
      | (Threw e, r') \<Rightarrow> Some (Threw e, r')
      | (Done n, r') \<Rightarrow> if n = 0 then Some (Done (), r') else loop env t w limit r') = Some y"
  show "others_keep I env \<longrightarrow> I (jr_db r) \<longrightarrow>
      (\<forall>locked now db. I db \<longrightarrow> I (snd (purge_page locked t w limit now db))) \<longrightarrow> I (jr_db (snd y))"
  proof (intro impI)
    assume env: "others_keep I env" and start: "I (jr_db r)"
      and page: "\<forall>locked now db. I db \<longrightarrow> I (snd (purge_page locked t w limit now db))"
    obtain x r1 where tx: "transact env (purge_page (pe_locked env (jr_tx r) t) t w limit) r = (x, r1)"
      by (cases "transact env (purge_page (pe_locked env (jr_tx r) t) t w limit) r") (rule that)
    have "I (jr_db r1)" by (rule transact_keeps [OF env start _ tx]) (use page in blast)
    with run tx IH [of env t w limit r1 y] env page show "I (jr_db (snd y))"
      by (auto split: job_result.splits if_splits)
  qed
qed

text \<open>An invariant of every statement of the walk is one of the walk.\<close>

definition walk_invariant :: "uuid \<Rightarrow> (purge_db \<Rightarrow> bool) \<Rightarrow> bool" where
  "walk_invariant w I =
     ((\<forall>f db. (\<forall>p. pg_workspaceId (f p) = pg_workspaceId p) \<longrightarrow> I db \<longrightarrow> I (write_record w f db))
      \<and> (\<forall>locked t limit now db. I db \<longrightarrow> I (snd (purge_page locked t w limit now db)))
      \<and> (\<forall>authUp now db. I db \<longrightarrow> I (snd (deleteWorkspaceAuthRows authUp w now db)))
      \<and> (\<forall>now db. I db \<longrightarrow> I (tombstoneOrganization w now db)))"

lemma walk_invariantD:
  assumes "walk_invariant w I" "I db"
  shows "(\<And>p. pg_workspaceId (f p) = pg_workspaceId p) \<Longrightarrow> I (write_record w f db)"
    and "I (snd (purge_page locked t w limit now db))" and "I (snd (deleteWorkspaceAuthRows authUp w now db))"
    and "I (tombstoneOrganization w now db)"
  using assms by (auto simp: walk_invariant_def)

lemma walk_attempts_keeps:
  assumes "walk_invariant w I" "others_keep I env"
  shows "I (jr_db r) \<Longrightarrow> job_keeps I (walk_attempts n env t w limit r)"
proof (induction n arbitrary: r)
  case (Suc n)
  have "job_keeps I (page_loop env t w limit r)"
    using page_loop_keeps [of env t w limit r _ I] walk_invariantD(2) [OF assms(1)] assms(2) Suc.prems
    by (cases "page_loop env t w limit r") auto
  then show ?case
    unfolding walk_attempts.simps
    by (elim run_then_keeps)
       (auto intro!: run_then_keeps reading_keeps [OF assms(2)] writing_keeps [OF assms(2)] Suc.IH
          walk_invariantD(1) [OF assms(1)] simp: markPurgeTableDone_def)
qed simp

lemma walk_tables_keeps:
  assumes "walk_invariant w I" "others_keep I env"
  shows "I (jr_db r) \<Longrightarrow> job_keeps I (walk_tables env completed ts w limit r)"
proof (induction ts arbitrary: r)
  case (Cons t ts)
  then show ?case
    by (auto intro!: run_then_keeps walk_attempts_keeps [OF assms] simp: walkPurgeTable_def)
qed simp

lemma begin_purging_write:
  "begin_purging w now db = write_record w (\<lambda>p. if pg_status p = PurgeReported \<or> pg_status p = PurgePurging
     then p\<lparr>pg_status := PurgePurging, pg_firstDestructiveBatchAt := coalesce (pg_firstDestructiveBatchAt p) (Some now)\<rparr> else p) db"
  by (auto simp: begin_purging_def write_record_def update_where_def)

lemma destroy_keeps:
  assumes "walk_invariant w I" "others_keep I env" "I (jr_db r)"
  shows "job_keeps I (destroy_workspace env completed w limit r)"
proof -
  note writes = writing_keeps [OF assms(2)] and reads = reading_keeps [OF assms(2)]
  note rec = walk_invariantD(1) [OF assms(1)]
  have first: "job_keeps I (beginDestructivePhase env w r)"
    unfolding beginDestructivePhase_def
    by (rule run_then_keeps [OF reads [OF assms(3)]]) (auto intro!: writes rec simp: begin_purging_write)
  have auth: "job_keeps I (auth_step env completed w r2)" if "I (jr_db r2)" for r2 :: "purge_db job_run"
    using that
    by (auto simp: auth_step_def recordAuthPurgeCounts_def markPurgeTableDone_def reading_def writing_def
        intro!: run_then_keeps rec run_tx_keeps [OF assms(2)] walk_invariantD(3) [OF assms(1)])
  show ?thesis
    unfolding destroy_workspace_def
    by (rule run_then_keeps [OF first], rule run_then_keeps [OF walk_tables_keeps [OF assms(1,2)]], assumption,
        rule run_then_keeps [OF auth], assumption, rule run_then_keeps [OF writes], assumption,
        erule walk_invariantD(4) [OF assms(1)], rule writes, assumption)
       (auto simp: markPurgeComplete_def intro: rec)
qed

lemma walk_keeps:
  assumes "walk_invariant w I" "others_keep I env" "I (jr_db r)"
  shows "job_keeps I (runWorkspacePurgeWalk env limit w r)"
proof -
  note reads = reading_keeps [OF assms(2)]
  have walk: "job_keeps I (run_catch (destroy_workspace env completed w limit r1)
      (\<lambda>e. run_tx env (writing (\<lambda>_. markPurgeFailed w e))))" if "I (jr_db r1)" for completed and r1 :: "purge_db job_run"
    by (rule run_catch_keeps [OF destroy_keeps [OF assms(1,2) that]], rule writing_keeps [OF assms(2)], assumption)
       (simp add: markPurgeFailed_def walk_invariantD(1) [OF assms(1)])
  show ?thesis
    using assms(3) unfolding runWorkspacePurgeWalk_def Let_def
    by (auto intro!: run_then_keeps [OF reads] walk split: option.split)
qed

lemma untouched_invariant: "walk_invariant w (untouched w db0)"
  unfolding walk_invariant_def
proof (intro conjI allI impI)
  fix db now authUp assume inv: "untouched w db0 db"
  then show "untouched w db0 (snd (deleteWorkspaceAuthRows authUp w now db))"
    by (auto simp: deleteWorkspaceAuthRows_def untouched_def spared_def addresses_wf_def delete_where_def)
  have "filter (\<lambda>x. og_id x \<noteq> w) (update_where (\<lambda>x. og_id x = w) f t) = filter (\<lambda>x. og_id x \<noteq> w) t"
    if "\<And>x. og_id (f x) = og_id x" for t and f :: "organization_row \<Rightarrow> organization_row"
    by (rule filter_update_same) (simp add: that)
  with inv show "untouched w db0 (tombstoneOrganization w now db)"
    by (simp add: untouched_def spared_def addresses_wf_def tombstoneOrganization_def)
qed (simp_all add: write_record_untouched page_untouched)

section \<open>Properties\<close>

text \<open>C26: A purge that was killed between any two of its transactions is finished by the next undisturbed walk: every table of the workspace is empty, its memberships and its name are gone, what it counted is what was there before the first walk, and nothing of the other workspaces has changed.\<close>

theorem interrupted_purge_is_finished:
  assumes "own_records w db = [p]" "pg_status p = PurgeReported" "pg_completedTables p = []"
    and "addresses_wf db" "readOrganizationDeletedAt w db \<noteq> None" "0 < limit"
    and "calm env" "calm env'" "je_killed env' = (\<lambda>_. False)"
  shows "\<exists>res r r'. runWorkspacePurgeWalk env limit w \<lparr>jr_tx = 0, jr_db = db\<rparr> = Some (res, r)
    \<and> runWorkspacePurgeWalk env' limit w \<lparr>jr_tx = 0, jr_db = jr_db r\<rparr> = Some (Done (), r')
    \<and> purged w db (pg_tableCounts p) (jr_db r')"
proof -
  have "resumable w db (pg_tableCounts p) db" by (rule reported_resumable) (use assms in simp_all)
  then have "ends_in env (resumable w db (pg_tableCounts p)) (\<lambda>_. purged w db (pg_tableCounts p))
      (runWorkspacePurgeWalk env limit w \<lparr>jr_tx = 0, jr_db = db\<rparr>)"
    by (intro walk_ends) (use assms in simp_all)
  then obtain res r where first: "runWorkspacePurgeWalk env limit w \<lparr>jr_tx = 0, jr_db = db\<rparr> = Some (res, r)"
      and "resumable w db (pg_tableCounts p) (jr_db r)" by (auto simp: ends_in_def)
  then have "ends_in env' (resumable w db (pg_tableCounts p)) (\<lambda>_. purged w db (pg_tableCounts p))
      (runWorkspacePurgeWalk env' limit w \<lparr>jr_tx = 0, jr_db = jr_db r\<rparr>)"
    by (intro walk_ends) (use assms in simp_all)
  with assms(9) first show ?thesis by (auto simp: ends_in_def)
qed

text \<open>C27: Whatever is locked, killed or restored during the walk of a workspace, and whether the elevated role works, nothing of any other workspace changes, as long as the other processes leave it alone.\<close>

theorem purge_spares_other_workspaces:
  assumes "runWorkspacePurgeWalk env limit w r = Some (res, r')" "addresses_wf (jr_db r)"
    and "others_keep (untouched w (jr_db r)) env"
  shows "spared w (jr_db r) (jr_db r')"
proof -
  have "untouched w (jr_db r) (jr_db r)" using assms(2) by (simp add: untouched_def spared_def)
  from walk_keeps [OF untouched_invariant assms(3) this, of limit] assms(1) show ?thesis
    by (simp add: untouched_def)
qed

text \<open>A workspace that was reported, restored and deleted again is destroyed by the next tick, however short ago it was deleted: the tick takes every reported record, and nothing compares its dates with those of the workspace.\<close>

theorem stale_report_skips_retention:
  assumes "own_records w db = [p]" "pg_status p = PurgeReported" "pg_completedTables p = []"
    and "addresses_wf db" "readOrganizationDeletedAt w db = Some deletedAt" "0 < limit"
    and "calm env" "je_killed env = (\<lambda>_. False)"
  shows "w \<in> set (loadDestructiblePurgeRecords db)
    \<and> (\<exists>r. runWorkspacePurgeWalk env limit w \<lparr>jr_tx = 0, jr_db = db\<rparr> = Some (Done (), r) \<and> finished w (jr_db r))"
proof
  have "p \<in> set (own_records w db)" using assms(1) by simp
  then show "w \<in> set (loadDestructiblePurgeRecords db)"
    using assms(2) by (auto simp: loadDestructiblePurgeRecords_def own_records_def)
  have "resumable w db (pg_tableCounts p) db" by (rule reported_resumable) (use assms in simp_all)
  then have "ends_in env (resumable w db (pg_tableCounts p)) (\<lambda>_. purged w db (pg_tableCounts p))
      (runWorkspacePurgeWalk env limit w \<lparr>jr_tx = 0, jr_db = db\<rparr>)"
    by (intro walk_ends) (use assms in simp_all)
  with assms(8) show "\<exists>r. runWorkspacePurgeWalk env limit w \<lparr>jr_tx = 0, jr_db = db\<rparr> = Some (Done (), r) \<and> finished w (jr_db r)"
    by (auto simp: ends_in_def purged_def)
qed

section \<open>Witnesses\<close>

definition example_rows :: "PurgeTable \<Rightarrow> stored_row list" where
  "example_rows t =
     (if t = Contacts then
        [\<lparr>sr_workspaceId = ''w'', sr_partition = 0, sr_ctid = 1\<rparr>, \<lparr>sr_workspaceId = ''v'', sr_partition = 0, sr_ctid = 2\<rparr>,
         \<lparr>sr_workspaceId = ''w'', sr_partition = 0, sr_ctid = 3\<rparr>]
      else if t = Events then
        [\<lparr>sr_workspaceId = ''w'', sr_partition = 0, sr_ctid = 1\<rparr>, \<lparr>sr_workspaceId = ''v'', sr_partition = 1, sr_ctid = 1\<rparr>]
      else [])"

definition example_deleted :: "instant \<Rightarrow> purge_db" where
  "example_deleted deletedAt =
     \<lparr>pd_rows = example_rows,
      pd_organizations =
        [\<lparr>og_id = ''w'', og_name = ''W'', og_slug = ''w'', og_deletedAt = Some deletedAt, og_purgedAt = None\<rparr>,
         \<lparr>og_id = ''v'', og_name = ''V'', og_slug = ''v'', og_deletedAt = None, og_purgedAt = None\<rparr>],
      pd_records = [], pd_members = [''w'', ''v''], pd_invitations = [''w''], pd_deadLetters = []\<rparr>"

text \<open>Deleted on day 0 and reported on day 31.\<close>

definition example_reported :: purge_db where
  "example_reported = insert_report ''w'' 0 (30 * DAY_MS) [CountTable Contacts \<mapsto> 2, CountTable Events \<mapsto> 1]
     (31 * DAY_MS) (example_deleted 0)"

text \<open>Restored and deleted again on day 40.\<close>

definition example_deleted_again :: purge_db where
  "example_deleted_again = example_reported\<lparr>pd_organizations := pd_organizations (example_deleted (40 * DAY_MS))\<rparr>"

definition example_env :: "(nat \<Rightarrow> bool) \<Rightarrow> purge_env" where
  "example_env killed =
     \<lparr>je_now = (\<lambda>k. 40 * DAY_MS + int k), je_others = (\<lambda>k db. db), je_killed = killed,
      pe_locked = (\<lambda>k t r. False), pe_authUp = True, pe_lockFree = (\<lambda>w. True)\<rparr>"

lemma example_calm: "calm (example_env killed)"
  by (simp add: calm_def example_env_def quiet_env_def)

lemma example_reported_facts:
  "\<exists>p. own_records ''w'' example_reported = [p] \<and> pg_status p = PurgeReported \<and> pg_completedTables p = []
     \<and> pg_tableCounts p = [CountTable Contacts \<mapsto> 2, CountTable Events \<mapsto> 1]"
  "addresses_wf example_reported" "readOrganizationDeletedAt ''w'' example_reported = Some 0"
  by (simp_all add: example_reported_def insert_report_def example_deleted_def own_records_def addresses_wf_def
      example_rows_def row_level_security_def readOrganizationDeletedAt_def find_organization_def)

lemma example_again_facts:
  "\<exists>p. own_records ''w'' example_deleted_again = [p] \<and> pg_status p = PurgeReported \<and> pg_completedTables p = []"
  "addresses_wf example_deleted_again" "readOrganizationDeletedAt ''w'' example_deleted_again = Some (40 * DAY_MS)"
  by (simp_all add: example_deleted_again_def example_reported_def insert_report_def example_deleted_def own_records_def
      addresses_wf_def example_rows_def row_level_security_def readOrganizationDeletedAt_def find_organization_def)

lemma interrupted_purge_is_finished_witness:
  "\<exists>res r r'. runWorkspacePurgeWalk (example_env (\<lambda>k. k = 40)) 500 ''w'' \<lparr>jr_tx = 0, jr_db = example_reported\<rparr> = Some (res, r)
    \<and> runWorkspacePurgeWalk (example_env (\<lambda>k. False)) 500 ''w'' \<lparr>jr_tx = 0, jr_db = jr_db r\<rparr> = Some (Done (), r')
    \<and> purged ''w'' example_reported [CountTable Contacts \<mapsto> 2, CountTable Events \<mapsto> 1] (jr_db r')"
proof -
  obtain p where "own_records ''w'' example_reported = [p]" "pg_status p = PurgeReported" "pg_completedTables p = []"
    "pg_tableCounts p = [CountTable Contacts \<mapsto> 2, CountTable Events \<mapsto> 1]" using example_reported_facts(1) by blast
  with interrupted_purge_is_finished [of "''w''" example_reported p 500 "example_env (\<lambda>k. k = 40)" "example_env (\<lambda>k. False)"]
  show ?thesis using example_reported_facts(2,3) example_calm by (simp add: example_env_def)
qed

lemma stale_report_skips_retention_witness:
  "''w'' \<in> set (loadDestructiblePurgeRecords example_deleted_again)
    \<and> (\<exists>r. runWorkspacePurgeWalk (example_env (\<lambda>k. False)) 500 ''w'' \<lparr>jr_tx = 0, jr_db = example_deleted_again\<rparr>
          = Some (Done (), r) \<and> finished ''w'' (jr_db r))"
proof -
  obtain p where "own_records ''w'' example_deleted_again = [p]" "pg_status p = PurgeReported" "pg_completedTables p = []"
    using example_again_facts(1) by blast
  with stale_report_skips_retention [of "''w''" example_deleted_again p "40 * DAY_MS" 500 "example_env (\<lambda>k. False)"]
  show ?thesis using example_again_facts(2,3) example_calm by (simp add: example_env_def)
qed

lemma purge_spares_other_workspaces_witness:
  "\<exists>res r'. runWorkspacePurgeWalk (example_env (\<lambda>k. False)) 500 ''w'' \<lparr>jr_tx = 0, jr_db = example_reported\<rparr> = Some (res, r')
     \<and> spared ''w'' example_reported (jr_db r')"
proof -
  have "resumable ''w'' example_reported [CountTable Contacts \<mapsto> 2, CountTable Events \<mapsto> 1] example_reported"
    using example_reported_facts reported_resumable [of "''w''" example_reported] by fastforce
  then have "ends_in (example_env (\<lambda>k. False)) (resumable ''w'' example_reported [CountTable Contacts \<mapsto> 2, CountTable Events \<mapsto> 1])
      (\<lambda>_. purged ''w'' example_reported [CountTable Contacts \<mapsto> 2, CountTable Events \<mapsto> 1])
      (runWorkspacePurgeWalk (example_env (\<lambda>k. False)) 500 ''w'' \<lparr>jr_tx = 0, jr_db = example_reported\<rparr>)"
    by (intro walk_ends example_calm) simp_all
  then obtain res r' where run: "runWorkspacePurgeWalk (example_env (\<lambda>k. False)) 500 ''w'' \<lparr>jr_tx = 0, jr_db = example_reported\<rparr> = Some (res, r')"
    by (auto simp: ends_in_def)
  have "others_keep (untouched ''w'' example_reported) (example_env (\<lambda>k. False))" by (simp add: others_keep_def example_env_def)
  with purge_spares_other_workspaces [OF run] example_reported_facts(2) run show ?thesis by simp
qed

end
