(* ===== verification/Contacts.thy ===== *)
theory Contacts
  imports Event_Facts Flow_Time
begin

text \<open>
  The contacts of a workspace: the shared upsert of \<open>packages/contacts-core/src/contact-repository.ts\<close> with its property
  registry, and the editor's operations of \<open>apps/api/src/modules/contacts/contact.repository.ts\<close>. An operation is one
  transaction: one that throws leaves the database as it was and the key cache as it is then. \<open>race\<close> is what
  others commit between the reads of an attempt and its write; \<open>newId\<close> is the database's \<open>gen_random_uuid()\<close>.
  Logging and the paged lists of the user interface are not modelled.
\<close>

section \<open>State and results\<close>

datatype ObservedPropertyType = ObsString | ObsNumber | ObsBool | ObsDate

record registry_row =
  pr_workspaceId :: uuid
  pr_key :: string
  pr_observedType :: ObservedPropertyType
  pr_firstSeenAt :: instant

datatype ErasureRecordStatus = ErasurePending | ErasureScrubbing | ErasureComplete | ErasureFailed

text \<open>The cursor of a walk: the instant and the id of the last row of a page, or the end of the table. No cursor is
  a walk that has not started.\<close>

datatype ScrubCursor = ScrubAt instant uuid | ScrubDone

record erasure_row =
  er_id :: uuid
  er_workspaceId :: uuid
  er_contactId :: "uuid option"
  er_requestedAt :: instant
  er_anonymizedAt :: instant
  er_scrubStartedAt :: "instant option"
  er_scrubCompletedAt :: "instant option"
  er_status :: ErasureRecordStatus
  er_scrubError :: "string option"
  er_sendsScrubbed :: nat
  er_eventsScrubbed :: nat
  er_sendsScrubCursor :: "ScrubCursor option"
  er_eventsScrubCursor :: "ScrubCursor option"

record contact_store =
  cs_keyed :: keyed
  cs_registry :: "registry_row list"
  cs_erasures :: "erasure_row list"

abbreviation cs_db :: "contact_store \<Rightarrow> crm" where "cs_db s \<equiv> k_db (cs_keyed s)"

abbreviation cs_contacts :: "contact_store \<Rightarrow> contact_row list" where "cs_contacts s \<equiv> t_contacts (cs_db s)"

definition on_db :: "(crm \<Rightarrow> crm) \<Rightarrow> contact_store \<Rightarrow> contact_store" where
  "on_db f s = s\<lparr>cs_keyed := (cs_keyed s)\<lparr>k_db := f (cs_db s)\<rparr>\<rparr>"

datatype contact_error =
    EmailTaken
  | InvalidStatusTransition
  | CannotSetSuppressed
  | ContactAnonymized
  | InvalidTimezone
  | UniqueViolation
  | KeyFailed key_error

type_synonym 'a contact_result = "(contact_error \<times> key_cache) + (contact_store \<times> 'a)"

definition refuse :: "contact_error \<Rightarrow> contact_store \<Rightarrow> 'a contact_result" where
  "refuse e s = Inl (e, k_cache (cs_keyed s))"

definition with_keys :: "(keyed \<Rightarrow> (keyed \<times> 'a) keyed_result) \<Rightarrow> contact_store \<Rightarrow> 'a contact_result" where
  "with_keys f s =
     (case f (cs_keyed s) of
        Inl (e, cache) \<Rightarrow> Inl (KeyFailed e, cache)
      | Inr (k, x) \<Rightarrow> Inr (s\<lparr>cs_keyed := k\<rparr>, x))"

definition and_then :: "'a contact_result \<Rightarrow> (contact_store \<Rightarrow> 'a \<Rightarrow> 'b contact_result) \<Rightarrow> 'b contact_result" where
  "and_then m f = (case m of Inl e \<Rightarrow> Inl e | Inr (s, x) \<Rightarrow> f s x)"

section \<open>The property registry\<close>

text \<open>\<open>ISO_DATE_RE\<close>, from left to right: each part consumes its text or fails.\<close>

definition eat_digits :: "nat \<Rightarrow> string \<Rightarrow> string option" where
  "eat_digits n s = (if n \<le> length s \<and> list_all is_digit (take n s) then Some (drop n s) else None)"

fun eat_char :: "char list \<Rightarrow> string \<Rightarrow> string option" where
  "eat_char cs [] = None"
| "eat_char cs (c # s) = (if c \<in> set cs then Some s else None)"

definition eat_fraction :: "string \<Rightarrow> string list" where
  "eat_fraction s =
     (case eat_char ''.'' s of
        None \<Rightarrow> [s]
      | Some r \<Rightarrow> if takeWhile is_digit r = [] then [s] else [dropWhile is_digit r, s])"

definition eat_seconds :: "string \<Rightarrow> string list" where
  "eat_seconds s =
     (case Option.bind (eat_char '':'' s) (eat_digits 2) of None \<Rightarrow> [s] | Some r \<Rightarrow> eat_fraction r @ [s])"

definition zone_suffix :: "string \<Rightarrow> bool" where
  "zone_suffix s =
     (s = [] \<or> s = ''Z''
      \<or> (case Option.bind (eat_char ''+-'' s) (eat_digits 2) of
           None \<Rightarrow> False
         | Some r \<Rightarrow> eat_digits 2 r = Some [] \<or> Option.bind (eat_char '':'' r) (eat_digits 2) = Some []))"

definition ISO_DATE_RE :: "string \<Rightarrow> bool" where
  "ISO_DATE_RE s =
     (case Option.bind (Option.bind (Option.bind (Option.bind (eat_digits 4 s) (eat_char ''-'')) (eat_digits 2))
             (eat_char ''-'')) (eat_digits 2) of
        None \<Rightarrow> False
      | Some [] \<Rightarrow> True
      | Some r \<Rightarrow>
          (case Option.bind (Option.bind (Option.bind (eat_char ''T '' r) (eat_digits 2)) (eat_char '':'')) (eat_digits 2) of
             None \<Rightarrow> False
           | Some r' \<Rightarrow> list_ex zone_suffix (eat_seconds r')))"

fun inferObservedType :: "js \<Rightarrow> ObservedPropertyType" where
  "inferObservedType (JNum x) = ObsNumber"
| "inferObservedType (JBool b) = ObsBool"
| "inferObservedType (JStr s) = (if ISO_DATE_RE s then ObsDate else ObsString)"
| "inferObservedType v = ObsString"

definition registerObservedProperty ::
  "instant \<Rightarrow> uuid \<Rightarrow> string \<Rightarrow> js \<Rightarrow> registry_row list \<Rightarrow> registry_row list" where
  "registerObservedProperty now workspaceId key v t =
     (if \<exists>r \<in> set t. pr_workspaceId r = workspaceId \<and> pr_key r = key then t
      else t @ [\<lparr>pr_workspaceId = workspaceId, pr_key = key, pr_observedType = inferObservedType v, pr_firstSeenAt = now\<rparr>])"

definition registerObservedProperties ::
  "instant \<Rightarrow> uuid \<Rightarrow> (string \<times> js) list option \<Rightarrow> contact_store \<Rightarrow> contact_store" where
  "registerObservedProperties now workspaceId properties s =
     (case properties of
        None \<Rightarrow> s
      | Some ps \<Rightarrow>
          s\<lparr>cs_registry := fold (\<lambda>(key, v). registerObservedProperty now workspaceId key v) ps (cs_registry s)\<rparr>)"

section \<open>Identity\<close>

definition live :: "uuid \<Rightarrow> contact_row \<Rightarrow> bool" where
  "live w c = (ct_workspaceId c = w \<and> ct_anonymizedAt c = None)"

definition isEmailTaken :: "uuid \<Rightarrow> string \<Rightarrow> uuid option \<Rightarrow> crm \<Rightarrow> bool" where
  "isEmailTaken w email excludeContactId db =
     (\<exists>c \<in> set (t_contacts db). live w c \<and> ct_email c = Some email
        \<and> (truthy excludeContactId \<longrightarrow> ct_id c \<noteq> the excludeContactId))"

definition RESERVED_CONTACT_PROPERTY_KEYS :: "string list" where
  "RESERVED_CONTACT_PROPERTY_KEYS = [''id'', ''workspace_id'', ''external_id'', ''email'', ''subscription_status'']"

definition stripReservedPropertyKeys :: "(string \<times> js) list option \<Rightarrow> (string \<times> js) list" where
  "stripReservedPropertyKeys properties =
     (case properties of
        None \<Rightarrow> []
      | Some ps \<Rightarrow> filter (\<lambda>(key, v). key \<notin> set RESERVED_CONTACT_PROPERTY_KEYS) ps)"

text \<open>The row of a live contact by one of its identifiers; an empty identifier is none.\<close>

definition by_externalId :: "uuid \<Rightarrow> string option \<Rightarrow> crm \<Rightarrow> contact_row option" where
  "by_externalId w externalId db =
     (if truthy externalId then find (\<lambda>c. live w c \<and> ct_externalId c = externalId) (t_contacts db) else None)"

definition by_email :: "uuid \<Rightarrow> string option \<Rightarrow> crm \<Rightarrow> contact_row option" where
  "by_email w email db =
     (if truthy email then find (\<lambda>c. live w c \<and> ct_email c = email) (t_contacts db) else None)"

record ContactInput =
  ci_externalId :: "string option"
  ci_email :: "string option"
  ci_firstName :: "string option"
  ci_lastName :: "string option"
  ci_phone :: "string option"
  ci_city :: "string option"
  ci_country :: "string option"
  ci_timezone :: "string option"
  ci_tags :: "string list option"
  ci_properties :: "(string \<times> js) list option"
  ci_subscriptionStatus :: "SubscriptionStatus option"

definition identify :: "uuid \<Rightarrow> string option \<Rightarrow> string option \<Rightarrow> crm \<Rightarrow> contact_row option" where
  "identify w externalId email db =
     (case by_externalId w externalId db of Some c \<Rightarrow> Some c | None \<Rightarrow> by_email w email db)"

definition findContactIdByIdentity :: "uuid \<Rightarrow> ContactInput \<Rightarrow> crm \<Rightarrow> uuid option" where
  "findContactIdByIdentity w input db = map_option ct_id (identify w (ci_externalId input) (ci_email input) db)"

section \<open>Writes\<close>

text \<open>The two unique constraints; a null differs from every value.\<close>

definition clash :: "contact_row \<Rightarrow> contact_row \<Rightarrow> bool" where
  "clash c d =
     (ct_workspaceId c = ct_workspaceId d
      \<and> (ct_externalId c \<noteq> None \<and> ct_externalId c = ct_externalId d \<or> ct_email c \<noteq> None \<and> ct_email c = ct_email d))"

definition insert_contact :: "contact_row \<Rightarrow> contact_store \<Rightarrow> contact_store option" where
  "insert_contact row s =
     (if \<exists>c \<in> set (cs_contacts s). clash c row then None
      else Some (on_db (\<lambda>db. db\<lparr>t_contacts := t_contacts db @ [row]\<rparr>) s))"

definition update_contact :: "contact_row \<Rightarrow> contact_store \<Rightarrow> contact_store option" where
  "update_contact row s =
     (if \<exists>c \<in> set (cs_contacts s). ct_id c \<noteq> ct_id row \<and> clash c row then None
      else Some (on_db (write_contact (ct_workspaceId row) (ct_id row) (\<lambda>_. row)) s))"

definition new_row ::
  "uuid \<Rightarrow> instant \<Rightarrow> uuid \<Rightarrow> ContactInput \<Rightarrow> (string \<times> js) list \<Rightarrow> SubscriptionStatus \<Rightarrow> contact_row" where
  "new_row newId now w input properties status =
     \<lparr>ct_id = newId, ct_workspaceId = w, ct_externalId = ci_externalId input, ct_email = ci_email input,
      ct_firstName = ci_firstName input, ct_lastName = ci_lastName input, ct_phone = ci_phone input,
      ct_city = ci_city input, ct_country = ci_country input, ct_tags = nullish (ci_tags input) [],
      ct_properties = properties, ct_subscriptionStatus = status, ct_consecutiveSoftBounces = 0,
      ct_timezone = ci_timezone input, ct_createdAt = now, ct_updatedAt = now, ct_anonymizedAt = None\<rparr>"

text \<open>The list overrides the requested status of a new contact.\<close>

definition initial_status :: "crypto \<Rightarrow> instant \<Rightarrow> uuid \<Rightarrow> ContactInput \<Rightarrow> contact_store \<Rightarrow> SubscriptionStatus contact_result" where
  "initial_status cr now w input s =
     (let requested = nullish (ci_subscriptionStatus input) StSubscribed
      in if \<not> truthy (ci_email input) then Inr (s, requested)
         else and_then (with_keys (isEmailSuppressed cr now w (the (ci_email input))) s) (\<lambda>s1 suppressed.
                Inr (s1, if suppressed then StSuppressed else requested)))"

definition history :: "uuid \<Rightarrow> contact_row \<Rightarrow> SubscriptionStatus \<Rightarrow> SubscriptionStatusChangeSource \<Rightarrow> instant \<Rightarrow> crm \<Rightarrow> crm" where
  "history w existing status source now db =
     (if status = ct_subscriptionStatus existing then db
      else recordSubscriptionStatusChange w (ct_id existing) (Some (status_name (ct_subscriptionStatus existing)))
             (status_name status) source None now db)"

section \<open>The shared upsert\<close>

record UpsertContactIdentityResult =
  ur_contactId :: uuid
  ur_attached :: bool
  ur_emailChangeSkipped :: bool
  ur_created :: bool

text \<open>\<open>{ ...a, ...b }\<close>.\<close>

fun put_property :: "string \<times> js \<Rightarrow> (string \<times> js) list \<Rightarrow> (string \<times> js) list" where
  "put_property (key, v) [] = [(key, v)]"
| "put_property (key, v) ((k, u) # ps) = (if k = key then (key, v) # ps else (k, u) # put_property (key, v) ps)"

lemma put_property_lookup: "map_of (put_property (key, v) ps) k = (if k = key then Some v else map_of ps k)"
  by (induction "(key, v)" ps rule: put_property.induct) auto

definition spread :: "(string \<times> js) list \<Rightarrow> (string \<times> js) list \<Rightarrow> (string \<times> js) list" where
  "spread a b = fold put_property b a"

definition next_status :: "SubscriptionStatus \<Rightarrow> SubscriptionStatus option \<Rightarrow> SubscriptionStatus" where
  "next_status existing requested =
     (case requested of
        None \<Rightarrow> existing
      | Some status \<Rightarrow>
          if existing = StSuppressed \<and> status = StSubscribed then existing
          else if status = StSuppressed then existing
          else status)"

definition keep_or :: "'a option \<Rightarrow> 'a option \<Rightarrow> 'a option" where
  "keep_or new old = (if new = None then old else new)"

text \<open>The address of a matched contact, and whether a change was skipped because another contact has it.\<close>

definition next_email :: "uuid \<Rightarrow> ContactInput \<Rightarrow> contact_row \<Rightarrow> crm \<Rightarrow> string option \<times> bool" where
  "next_email w input existing db =
     (if truthy (ci_email input) \<and> ci_email input \<noteq> ct_email existing
      then if isEmailTaken w (the (ci_email input)) (Some (ct_id existing)) db then (ct_email existing, True)
           else (ci_email input, False)
      else (ct_email existing, False))"

definition merged_row ::
  "instant \<Rightarrow> ContactInput \<Rightarrow> (string \<times> js) list \<Rightarrow> string option \<Rightarrow> string option \<Rightarrow> SubscriptionStatus \<Rightarrow> contact_row \<Rightarrow> contact_row" where
  "merged_row now input properties externalId email status c =
     c\<lparr>ct_externalId := externalId, ct_email := email,
       ct_firstName := keep_or (ci_firstName input) (ct_firstName c),
       ct_lastName := keep_or (ci_lastName input) (ct_lastName c),
       ct_phone := keep_or (ci_phone input) (ct_phone c), ct_city := keep_or (ci_city input) (ct_city c),
       ct_country := keep_or (ci_country input) (ct_country c),
       ct_timezone := keep_or (ci_timezone input) (ct_timezone c), ct_tags := nullish (ci_tags input) (ct_tags c),
       ct_properties := (if properties = [] then ct_properties c else spread (ct_properties c) properties),
       ct_subscriptionStatus := status, ct_updatedAt := now\<rparr>"

datatype 'a attempt = Raced contact_store | Ended "'a contact_result"

definition upsert_new ::
  "crypto \<Rightarrow> (crm \<Rightarrow> crm) \<Rightarrow> uuid \<Rightarrow> instant \<Rightarrow> uuid \<Rightarrow> ContactInput \<Rightarrow> contact_store \<Rightarrow> UpsertContactIdentityResult attempt" where
  "upsert_new cr race newId now w input s =
     (let safeProperties = stripReservedPropertyKeys (ci_properties input)
      in case initial_status cr now w input s of
           Inl e \<Rightarrow> Ended (Inl e)
         | Inr (s1, status) \<Rightarrow>
             (let s2 = on_db race s1
              in case insert_contact (new_row newId now w input safeProperties status) s2 of
                   None \<Rightarrow> Raced s2
                 | Some s3 \<Rightarrow>
                     Ended (Inr (registerObservedProperties now w (Some safeProperties) s3,
                       \<lparr>ur_contactId = newId, ur_attached = False, ur_emailChangeSkipped = False, ur_created = True\<rparr>))))"

definition upsert_existing ::
  "(crm \<Rightarrow> crm) \<Rightarrow> instant \<Rightarrow> uuid \<Rightarrow> ContactInput \<Rightarrow> bool \<Rightarrow> contact_row \<Rightarrow> contact_store
     \<Rightarrow> UpsertContactIdentityResult contact_result" where
  "upsert_existing race now w input attachExternalId existing s =
     (let safeProperties = stripReservedPropertyKeys (ci_properties input);
          (nextEmail, emailChangeSkipped) = next_email w input existing (cs_db s);
          nextExternalId = (if attachExternalId then ci_externalId input else ct_externalId existing);
          nextStatus = next_status (ct_subscriptionStatus existing) (ci_subscriptionStatus input);
          s1 = on_db race s
      in case update_contact (merged_row now input safeProperties nextExternalId nextEmail nextStatus existing) s1 of
           None \<Rightarrow> refuse UniqueViolation s1
         | Some s2 \<Rightarrow>
             Inr (registerObservedProperties now w (Some safeProperties)
                    (on_db (history w existing nextStatus CsvOrApiUpsert now) s2),
                  \<lparr>ur_contactId = ct_id existing, ur_attached = attachExternalId,
                   ur_emailChangeSkipped = emailChangeSkipped, ur_created = False\<rparr>))"

definition upsert_attempt ::
  "crypto \<Rightarrow> (crm \<Rightarrow> crm) \<Rightarrow> uuid \<Rightarrow> instant \<Rightarrow> uuid \<Rightarrow> ContactInput \<Rightarrow> contact_store \<Rightarrow> UpsertContactIdentityResult attempt" where
  "upsert_attempt cr race newId now w input s =
     (case by_externalId w (ci_externalId input) (cs_db s) of
        Some existing \<Rightarrow> Ended (upsert_existing race now w input False existing s)
      | None \<Rightarrow>
          (case by_email w (ci_email input) (cs_db s) of
             Some existing \<Rightarrow>
               Ended (upsert_existing race now w input
                 (\<not> truthy (ct_externalId existing) \<and> truthy (ci_externalId input)) existing s)
           | None \<Rightarrow> upsert_new cr race newId now w input s))"

text \<open>A refused insert is tried once more; \<open>race True\<close> is what others commit during the second attempt.\<close>

definition upsertContactByIdentity ::
  "crypto \<Rightarrow> (bool \<Rightarrow> crm \<Rightarrow> crm) \<Rightarrow> uuid \<Rightarrow> instant \<Rightarrow> uuid \<Rightarrow> ContactInput \<Rightarrow> contact_store
     \<Rightarrow> UpsertContactIdentityResult contact_result" where
  "upsertContactByIdentity cr race newId now w input s =
     (case upsert_attempt cr (race False) newId now w input s of
        Ended x \<Rightarrow> x
      | Raced s1 \<Rightarrow>
          (case upsert_attempt cr (race True) newId now w input s1 of
             Ended x \<Rightarrow> x
           | Raced s2 \<Rightarrow> refuse UniqueViolation s2))"

section \<open>The editor's operations\<close>

definition getContact :: "uuid \<Rightarrow> uuid \<Rightarrow> crm \<Rightarrow> contact_row option" where
  "getContact w i db = find (\<lambda>c. live w c \<and> ct_id c = i) (t_contacts db)"

definition valid_timezone :: "zones \<Rightarrow> string option \<Rightarrow> bool" where
  "valid_timezone z timezone = (truthy timezone \<longrightarrow> isValidIanaTimezone z timezone)"

definition createContact ::
  "zones \<Rightarrow> crypto \<Rightarrow> (crm \<Rightarrow> crm) \<Rightarrow> uuid \<Rightarrow> instant \<Rightarrow> uuid \<Rightarrow> ContactInput \<Rightarrow> contact_store \<Rightarrow> contact_row contact_result" where
  "createContact z cr race newId now w input s =
     (if \<not> valid_timezone z (ci_timezone input) then refuse InvalidTimezone s
      else if truthy (ci_email input) \<and> isEmailTaken w (the (ci_email input)) None (cs_db s) then refuse EmailTaken s
      else and_then (initial_status cr now w input s) (\<lambda>s1 status.
             let s2 = on_db race s1;
                 row = new_row newId now w input (nullish (ci_properties input) []) status
             in case insert_contact row s2 of
                  None \<Rightarrow> refuse UniqueViolation s2
                | Some s3 \<Rightarrow> Inr (registerObservedProperties now w (ci_properties input) s3, row)))"

text \<open>A patch: an absent field keeps its value; a nullable one may be cleared.\<close>

record ContactPatch =
  cp_externalId :: "string option"
  cp_email :: "string option"
  cp_firstName :: "string option option"
  cp_lastName :: "string option option"
  cp_phone :: "string option option"
  cp_city :: "string option option"
  cp_country :: "string option option"
  cp_timezone :: "string option option"
  cp_tags :: "string list option"
  cp_properties :: "(string \<times> js) list option"
  cp_subscriptionStatus :: "SubscriptionStatus option"

definition patched_status :: "SubscriptionStatus \<Rightarrow> SubscriptionStatus option \<Rightarrow> contact_error + SubscriptionStatus" where
  "patched_status existing requested =
     (case requested of
        None \<Rightarrow> Inr existing
      | Some status \<Rightarrow>
          if status = existing then Inr existing
          else if existing = StSuppressed \<and> status = StSubscribed then Inl InvalidStatusTransition
          else if status = StSuppressed then Inl CannotSetSuppressed
          else Inr status)"

definition patched_row :: "instant \<Rightarrow> ContactPatch \<Rightarrow> SubscriptionStatus \<Rightarrow> contact_row \<Rightarrow> contact_row" where
  "patched_row now patch status c =
     c\<lparr>ct_email := keep_or (cp_email patch) (ct_email c),
       ct_externalId := (if truthy (ct_externalId c) then ct_externalId c else keep_or (cp_externalId patch) (ct_externalId c)),
       ct_firstName := nullish (cp_firstName patch) (ct_firstName c),
       ct_lastName := nullish (cp_lastName patch) (ct_lastName c),
       ct_phone := nullish (cp_phone patch) (ct_phone c), ct_city := nullish (cp_city patch) (ct_city c),
       ct_country := nullish (cp_country patch) (ct_country c), ct_timezone := nullish (cp_timezone patch) (ct_timezone c),
       ct_tags := nullish (cp_tags patch) (ct_tags c), ct_properties := nullish (cp_properties patch) (ct_properties c),
       ct_subscriptionStatus := status, ct_updatedAt := now\<rparr>"

definition updateContact ::
  "zones \<Rightarrow> (crm \<Rightarrow> crm) \<Rightarrow> instant \<Rightarrow> uuid \<Rightarrow> uuid \<Rightarrow> ContactPatch \<Rightarrow> contact_store \<Rightarrow> contact_row option contact_result" where
  "updateContact z race now w i patch s =
     (if \<not> valid_timezone z (nullish (cp_timezone patch) None) then refuse InvalidTimezone s
      else case find (contact_is w i) (cs_contacts s) of
             None \<Rightarrow> Inr (s, None)
           | Some existing \<Rightarrow>
               if ct_anonymizedAt existing \<noteq> None then refuse ContactAnonymized s
               else if cp_email patch \<noteq> None \<and> cp_email patch \<noteq> ct_email existing
                       \<and> isEmailTaken w (the (cp_email patch)) (Some i) (cs_db s) then refuse EmailTaken s
               else (case patched_status (ct_subscriptionStatus existing) (cp_subscriptionStatus patch) of
                       Inl e \<Rightarrow> refuse e s
                     | Inr status \<Rightarrow>
                         let s1 = on_db race s; row = patched_row now patch status existing
                         in case update_contact row s1 of
                              None \<Rightarrow> refuse UniqueViolation s1
                            | Some s2 \<Rightarrow>
                                Inr (registerObservedProperties now w (cp_properties patch)
                                       (on_db (history w existing status ManualUi now) s2), Some row)))"

definition anonymized_row :: "instant \<Rightarrow> contact_row \<Rightarrow> contact_row" where
  "anonymized_row now c =
     c\<lparr>ct_email := None, ct_firstName := None, ct_lastName := None, ct_phone := None, ct_externalId := None,
       ct_city := None, ct_country := None, ct_timezone := None, ct_tags := [], ct_properties := [],
       ct_anonymizedAt := Some now, ct_updatedAt := now\<rparr>"

definition SUPPRESSION_REASON_CONTACT_DELETED :: string where
  "SUPPRESSION_REASON_CONTACT_DELETED = ''contact_deleted''"

definition suppress_hash :: "uuid \<Rightarrow> string \<Rightarrow> string \<Rightarrow> instant \<Rightarrow> crm \<Rightarrow> crm" where
  "suppress_hash w hash reason now db =
     (if \<exists>r \<in> set (t_suppressions db). sup_workspaceId r = w \<and> sup_emailHash r = hash then db
      else db\<lparr>t_suppressions := t_suppressions db
             @ [\<lparr>sup_workspaceId = w, sup_emailHash = hash, sup_reason = reason, sup_suppressedAt = now, sup_source = None\<rparr>]\<rparr>)"

definition suppress_erased :: "crypto \<Rightarrow> instant \<Rightarrow> uuid \<Rightarrow> string option \<Rightarrow> contact_store \<Rightarrow> unit contact_result" where
  "suppress_erased cr now w email s =
     (if \<not> truthy email then Inr (s, ())
      else and_then (with_keys (ensureWorkspaceSuppressionKey cr now w) s) (\<lambda>s1 key.
             Inr (on_db (suppress_hash w (hashSuppressionEmail cr (normalizeSuppressionEmail (the email)) key)
                           SUPPRESSION_REASON_CONTACT_DELETED now) s1, ())))"

definition new_erasure :: "uuid \<Rightarrow> uuid \<Rightarrow> uuid \<Rightarrow> instant \<Rightarrow> erasure_row" where
  "new_erasure newId w contactId now =
     \<lparr>er_id = newId, er_workspaceId = w, er_contactId = Some contactId, er_requestedAt = now, er_anonymizedAt = now,
      er_scrubStartedAt = None, er_scrubCompletedAt = None, er_status = ErasurePending, er_scrubError = None,
      er_sendsScrubbed = 0, er_eventsScrubbed = 0, er_sendsScrubCursor = None, er_eventsScrubCursor = None\<rparr>"

text \<open>The result: whether there is such a contact, and the erasure whose scrub job is to be added after the
  commit.\<close>

definition deleteContact ::
  "crypto \<Rightarrow> uuid \<Rightarrow> instant \<Rightarrow> uuid \<Rightarrow> uuid \<Rightarrow> contact_store \<Rightarrow> (bool \<times> uuid option) contact_result" where
  "deleteContact cr newId now w i s =
     (case find (contact_is w i) (cs_contacts s) of
        None \<Rightarrow> Inr (s, (False, None))
      | Some existing \<Rightarrow>
          if ct_anonymizedAt existing \<noteq> None then Inr (s, (True, None))
          else and_then (suppress_erased cr now w (ct_email existing)
                           (on_db (write_contact w i (\<lambda>c. if ct_anonymizedAt c = None then anonymized_row now c else c)) s))
                 (\<lambda>s1 _. Inr (s1\<lparr>cs_erasures := cs_erasures s1 @ [new_erasure newId w i now]\<rparr>, (True, Some newId))))"

end
