(* ===== verification/Csv_Import.thy ===== *)
theory Csv_Import
  imports Contacts Job_Runs
begin

text \<open>
  The import of contacts from a file: the mapping of a row (\<open>packages/contacts-core/src/csv-mapping.ts\<close>), the staged rows
  (\<open>apps/api/src/modules/contacts/csv-import.repository.ts\<close>), the dry run and the error report of
  \<open>csv-import.routes.ts\<close>, and the job that applies an import (\<open>apps/worker/src/queues/imports-csv.worker.ts\<close>). The upload,
  whose parser is a library, ends with the rows that it staged. Texts are ASCII.
\<close>

section \<open>The mapping of a row\<close>

definition STANDARD_FIELDS :: "string list" where
  "STANDARD_FIELDS =
     [''externalId'', ''email'', ''firstName'', ''lastName'', ''phone'', ''city'', ''country'', ''timezone'', ''tags'',
      ''subscriptionStatus'']"

text \<open>\<open>EMAIL_RE\<close>: one \<open>@\<close>, no white space, and a dot inside of what follows the \<open>@\<close>.\<close>

definition EMAIL_RE :: "string \<Rightarrow> bool" where
  "EMAIL_RE s =
     (let local = takeWhile (\<lambda>c. c \<noteq> CHR ''@'') s; domain = drop 1 (dropWhile (\<lambda>c. c \<noteq> CHR ''@'') s)
      in list_all (\<lambda>c. \<not> is_space c) s \<and> local \<noteq> [] \<and> list_all (\<lambda>c. c \<noteq> CHR ''@'') domain
         \<and> CHR ''.'' \<in> set (drop 1 (butlast domain)))"

definition CSV_SETTABLE_SUBSCRIPTION_STATUSES :: "(string \<times> SubscriptionStatus) list" where
  "CSV_SETTABLE_SUBSCRIPTION_STATUSES = [(''subscribed'', StSubscribed), (''unsubscribed'', StUnsubscribed)]"

text \<open>A row on its way: the text of its status is checked at the end.\<close>

record csv_draft =
  cd_input :: ContactInput
  cd_status :: "string option"

definition empty_input :: ContactInput where
  "empty_input =
     \<lparr>ci_externalId = None, ci_email = None, ci_firstName = None, ci_lastName = None, ci_phone = None, ci_city = None,
      ci_country = None, ci_timezone = None, ci_tags = None, ci_properties = Some [], ci_subscriptionStatus = None\<rparr>"

definition set_field :: "string \<Rightarrow> string \<Rightarrow> ContactInput \<Rightarrow> ContactInput" where
  "set_field field v input =
     (if field = ''externalId'' then input\<lparr>ci_externalId := Some v\<rparr>
      else if field = ''email'' then input\<lparr>ci_email := Some (to_lower (js_trim v))\<rparr>
      else if field = ''firstName'' then input\<lparr>ci_firstName := Some v\<rparr>
      else if field = ''lastName'' then input\<lparr>ci_lastName := Some v\<rparr>
      else if field = ''phone'' then input\<lparr>ci_phone := Some v\<rparr>
      else if field = ''city'' then input\<lparr>ci_city := Some v\<rparr>
      else if field = ''country'' then input\<lparr>ci_country := Some v\<rparr>
      else if field = ''timezone'' then input\<lparr>ci_timezone := Some v\<rparr>
      else input)"

definition map_cell :: "(string \<times> string) list \<Rightarrow> string \<times> string \<Rightarrow> csv_draft \<Rightarrow> csv_draft" where
  "map_cell raw = (\<lambda>(header, field) d.
     (case map_of raw header of
        None \<Rightarrow> d
      | Some v \<Rightarrow>
          if v = [] then d
          else if field = ''tags''
          then d\<lparr>cd_input := (cd_input d)\<lparr>ci_tags := Some (filter (\<lambda>t. t \<noteq> []) (map js_trim (split_on (CHR '','') v)))\<rparr>\<rparr>
          else if field = ''subscriptionStatus'' then d\<lparr>cd_status := Some (to_lower (js_trim v))\<rparr>
          else if field \<in> set STANDARD_FIELDS then d\<lparr>cd_input := set_field field v (cd_input d)\<rparr>
          else d\<lparr>cd_input := (cd_input d)\<lparr>ci_properties :=
                   map_option (put_property (field, JStr v)) (ci_properties (cd_input d))\<rparr>\<rparr>))"

datatype csv_row_error = InvalidSubscriptionStatus | InvalidRowTimezone | MissingIdentity | InvalidEmailFormat

definition with_default_timezone :: "string option \<Rightarrow> ContactInput \<Rightarrow> ContactInput" where
  "with_default_timezone defaultTz input =
     (if ci_timezone input = None \<and> truthy defaultTz then input\<lparr>ci_timezone := defaultTz\<rparr> else input)"

definition applyCsvRowMapping ::
  "zones \<Rightarrow> (string \<times> string) list \<Rightarrow> (string \<times> string) list \<Rightarrow> string option \<Rightarrow> csv_row_error + ContactInput" where
  "applyCsvRowMapping z raw mapping defaultTz =
     (let d = fold (map_cell raw) mapping \<lparr>cd_input = empty_input, cd_status = None\<rparr>;
          status = Option.bind (cd_status d) (map_of CSV_SETTABLE_SUBSCRIPTION_STATUSES);
          input = (with_default_timezone defaultTz (cd_input d))\<lparr>ci_subscriptionStatus := status\<rparr>
      in if cd_status d \<noteq> None \<and> status = None then Inl InvalidSubscriptionStatus
         else if ci_timezone input \<noteq> None \<and> \<not> isValidIanaTimezone z (ci_timezone input) then Inl InvalidRowTimezone
         else if \<not> truthy (ci_externalId input) \<and> \<not> truthy (ci_email input) then Inl MissingIdentity
         else if truthy (ci_email input) \<and> \<not> EMAIL_RE (the (ci_email input)) then Inl InvalidEmailFormat
         else Inr input)"

section \<open>Imports and their staged rows\<close>

datatype DuplicatePolicy = PolicyUpdate | PolicySkip

datatype csv_import_status = Uploaded | Validating | ImportReady | Applying | ImportDone | ImportFailed

datatype csv_row_status = RowPending | RowError | RowSkipped | RowCreated | RowUpdated

datatype import_error = RowFailed contact_error | ConnectionLost | RowsUnresolved nat

datatype csv_reason = MappingReason csv_row_error | FailureReason import_error

datatype csv_summary = DryRunSummary nat nat nat | ApplySummary nat nat nat nat

record csv_import_row =
  im_id :: uuid
  im_workspaceId :: uuid
  im_fileName :: string
  im_createdByUserId :: string
  im_status :: csv_import_status
  im_duplicatePolicy :: DuplicatePolicy
  im_mapping :: "(string \<times> string) list option"
  im_defaultTimezone :: "string option"
  im_totalRows :: nat
  im_processedRows :: nat
  im_summary :: "csv_summary option"
  im_updatedAt :: instant

record staged_row =
  ir_id :: uuid
  ir_csvImportId :: uuid
  ir_workspaceId :: uuid
  ir_rowNumber :: nat
  ir_raw :: "(string \<times> string) list"
  ir_status :: csv_row_status
  ir_reason :: "csv_reason option"

record import_store =
  is_contacts :: contact_store
  is_imports :: "csv_import_row list"
  is_rows :: "staged_row list"

definition import_is :: "uuid \<Rightarrow> uuid \<Rightarrow> csv_import_row \<Rightarrow> bool" where
  "import_is w i m = (im_id m = i \<and> im_workspaceId m = w)"

definition row_of :: "uuid \<Rightarrow> uuid \<Rightarrow> staged_row \<Rightarrow> bool" where
  "row_of w i r = (ir_csvImportId r = i \<and> ir_workspaceId r = w)"

definition write_import :: "uuid \<Rightarrow> uuid \<Rightarrow> (csv_import_row \<Rightarrow> csv_import_row) \<Rightarrow> import_store \<Rightarrow> import_store" where
  "write_import w i f s = s\<lparr>is_imports := update_where (import_is w i) f (is_imports s)\<rparr>"

definition createCsvImport :: "uuid \<Rightarrow> uuid \<Rightarrow> string \<Rightarrow> string \<Rightarrow> instant \<Rightarrow> import_store \<Rightarrow> import_store" where
  "createCsvImport newId w fileName userId now s =
     s\<lparr>is_imports := is_imports s @
       [\<lparr>im_id = newId, im_workspaceId = w, im_fileName = fileName, im_createdByUserId = userId, im_status = Uploaded,
         im_duplicatePolicy = PolicyUpdate, im_mapping = None, im_defaultTimezone = None, im_totalRows = 0,
         im_processedRows = 0, im_summary = None, im_updatedAt = now\<rparr>]\<rparr>"

definition insertStagingRowsChunk ::
  "uuid \<Rightarrow> uuid \<Rightarrow> (uuid \<times> nat \<times> (string \<times> string) list) list \<Rightarrow> import_store \<Rightarrow> import_store" where
  "insertStagingRowsChunk w i chunk s =
     s\<lparr>is_rows := is_rows s @ map (\<lambda>(newId, rowNumber, raw).
       \<lparr>ir_id = newId, ir_csvImportId = i, ir_workspaceId = w, ir_rowNumber = rowNumber, ir_raw = raw,
        ir_status = RowPending, ir_reason = None\<rparr>) chunk\<rparr>"

definition updateCsvImportTotalRows :: "uuid \<Rightarrow> uuid \<Rightarrow> nat \<Rightarrow> instant \<Rightarrow> import_store \<Rightarrow> import_store" where
  "updateCsvImportTotalRows w i totalRows now = write_import w i (\<lambda>m. m\<lparr>im_totalRows := totalRows, im_updatedAt := now\<rparr>)"

definition getCsvImport :: "uuid \<Rightarrow> uuid \<Rightarrow> import_store \<Rightarrow> csv_import_row option" where
  "getCsvImport w i s = find (import_is w i) (is_imports s)"

text \<open>\<open>ORDER BY row_number LIMIT\<close>: insertion by row number, then a prefix.\<close>

definition rows_page :: "(staged_row \<Rightarrow> bool) \<Rightarrow> nat \<Rightarrow> nat \<Rightarrow> staged_row list \<Rightarrow> staged_row list" where
  "rows_page p after limit t = take limit (sort_key ir_rowNumber (filter (\<lambda>r. p r \<and> after < ir_rowNumber r) t))"

definition getStagedRowsPage :: "uuid \<Rightarrow> uuid \<Rightarrow> nat \<Rightarrow> nat \<Rightarrow> import_store \<Rightarrow> staged_row list" where
  "getStagedRowsPage w i afterRowNumber limit s = rows_page (row_of w i) afterRowNumber limit (is_rows s)"

definition setStagedRowClassification ::
  "uuid \<Rightarrow> uuid \<Rightarrow> nat \<Rightarrow> csv_row_status \<Rightarrow> csv_reason option \<Rightarrow> import_store \<Rightarrow> import_store" where
  "setStagedRowClassification w i rowNumber status reason s =
     s\<lparr>is_rows := update_where (\<lambda>r. row_of w i r \<and> ir_rowNumber r = rowNumber)
        (\<lambda>r. r\<lparr>ir_status := status, ir_reason := reason\<rparr>) (is_rows s)\<rparr>"

definition saveDryRunResult ::
  "uuid \<Rightarrow> uuid \<Rightarrow> (string \<times> string) list \<Rightarrow> DuplicatePolicy \<Rightarrow> string option \<Rightarrow> csv_summary \<Rightarrow> instant \<Rightarrow> import_store \<Rightarrow> import_store" where
  "saveDryRunResult w i mapping policy defaultTz summary now =
     write_import w i (\<lambda>m. m\<lparr>im_mapping := Some mapping, im_duplicatePolicy := policy, im_defaultTimezone := defaultTz,
       im_summary := Some summary, im_status := ImportReady, im_updatedAt := now\<rparr>)"

definition markCsvImportApplying :: "uuid \<Rightarrow> uuid \<Rightarrow> instant \<Rightarrow> import_store \<Rightarrow> import_store" where
  "markCsvImportApplying w i now = write_import w i (\<lambda>m. m\<lparr>im_status := Applying, im_updatedAt := now\<rparr>)"

definition markCsvImportFailed :: "uuid \<Rightarrow> uuid \<Rightarrow> instant \<Rightarrow> import_store \<Rightarrow> import_store" where
  "markCsvImportFailed w i now = write_import w i (\<lambda>m. m\<lparr>im_status := ImportFailed, im_updatedAt := now\<rparr>)"

definition getErrorRows :: "uuid \<Rightarrow> uuid \<Rightarrow> import_store \<Rightarrow> staged_row list" where
  "getErrorRows w i s = sort_key ir_rowNumber (filter (\<lambda>r. row_of w i r \<and> ir_status r = RowError) (is_rows s))"

section \<open>The dry run\<close>

record import_env = "import_store job_env" +
  ie_zones :: zones
  ie_crypto :: crypto
  ie_newId :: "nat \<Rightarrow> uuid"
  ie_race :: "nat \<Rightarrow> bool \<Rightarrow> crm \<Rightarrow> crm"
  ie_down :: "nat \<Rightarrow> bool"

type_synonym 'a import_job = "(import_error, 'a, import_store) job_end"

definition DRY_RUN_PAGE_SIZE :: nat where "DRY_RUN_PAGE_SIZE = 500"

text \<open>The counts are those of the rows so far: new contacts, updates, errors.\<close>

fun dry_run_rows ::
  "import_env \<Rightarrow> uuid \<Rightarrow> uuid \<Rightarrow> (string \<times> string) list \<Rightarrow> DuplicatePolicy \<Rightarrow> string option \<Rightarrow> staged_row list
     \<Rightarrow> nat \<times> nat \<times> nat \<Rightarrow> import_store job_run \<Rightarrow> (nat \<times> nat \<times> nat) import_job" where
  "dry_run_rows env w i mapping policy tz [] counts r = Some (Done counts, r)"
| "dry_run_rows env w i mapping policy tz (row # rows) (willCreate, willUpdate, errorCount) r =
     (case applyCsvRowMapping (ie_zones env) (ir_raw row) mapping tz of
        Inl e \<Rightarrow>
          run_then (run_tx env (writing (\<lambda>_. setStagedRowClassification w i (ir_rowNumber row) RowError (Some (MappingReason e)))) r) (\<lambda>_ r1.
            dry_run_rows env w i mapping policy tz rows (willCreate, willUpdate, errorCount + 1) r1)
      | Inr input \<Rightarrow>
          run_then (run_tx env (writing (\<lambda>_. setStagedRowClassification w i (ir_rowNumber row) RowPending None)) r) (\<lambda>_ r1.
          run_then (run_tx env (reading (\<lambda>s. findContactIdByIdentity w input (cs_db (is_contacts s)))) r1) (\<lambda>existingId r2.
            dry_run_rows env w i mapping policy tz rows
              (if existingId = None then (willCreate + 1, willUpdate, errorCount)
               else if policy = PolicyUpdate then (willCreate, willUpdate + 1, errorCount)
               else (willCreate, willUpdate, errorCount)) r2)))"

partial_function (option) computeDryRunSummary ::
  "import_env \<Rightarrow> uuid \<Rightarrow> uuid \<Rightarrow> (string \<times> string) list \<Rightarrow> DuplicatePolicy \<Rightarrow> string option \<Rightarrow> nat
     \<Rightarrow> nat \<times> nat \<times> nat \<Rightarrow> import_store job_run
     \<Rightarrow> ((import_error, nat \<times> nat \<times> nat) job_result \<times> import_store job_run) option" where
  "computeDryRunSummary env w i mapping policy tz cursor counts r =
     (case transact env (reading (getStagedRowsPage w i cursor DRY_RUN_PAGE_SIZE)) r of
        (Killed, r1) \<Rightarrow> Some (Killed, r1)
      | (Threw e, r1) \<Rightarrow> Some (Threw e, r1)
      | (Done page, r1) \<Rightarrow>
          if page = [] then Some (Done counts, r1)
          else Option.bind (dry_run_rows env w i mapping policy tz page counts r1) (\<lambda>y. case y of
                 (Done counts', r2) \<Rightarrow> computeDryRunSummary env w i mapping policy tz (ir_rowNumber (last page)) counts' r2
               | (Threw e, r2) \<Rightarrow> Some (Threw e, r2)
               | (Killed, r2) \<Rightarrow> Some (Killed, r2)))"

declare computeDryRunSummary.simps [code]

definition dry_run ::
  "import_env \<Rightarrow> uuid \<Rightarrow> uuid \<Rightarrow> (string \<times> string) list \<Rightarrow> DuplicatePolicy \<Rightarrow> string option \<Rightarrow> import_store job_run
     \<Rightarrow> csv_summary option import_job" where
  "dry_run env w i mapping policy tz r =
     run_then (run_tx env (reading (getCsvImport w i)) r) (\<lambda>existing r1.
       if existing = None then Some (Done None, r1)
       else run_then (computeDryRunSummary env w i mapping policy tz 0 (0, 0, 0) r1) (\<lambda>(willCreate, willUpdate, errorCount) r2.
              let summary = DryRunSummary willCreate willUpdate errorCount in
              run_then (run_tx env (writing (saveDryRunResult w i mapping policy tz summary)) r2) (\<lambda>_ r3. Some (Done (Some summary), r3))))"

section \<open>The job\<close>

definition IMPORT_PAGE_SIZE :: nat where "IMPORT_PAGE_SIZE = 500"

definition set_row :: "uuid \<Rightarrow> csv_row_status \<Rightarrow> csv_reason option \<Rightarrow> import_store \<Rightarrow> import_store" where
  "set_row rowId status reason s =
     s\<lparr>is_rows := update_where (\<lambda>r. ir_id r = rowId)
        (\<lambda>r. r\<lparr>ir_status := status, ir_reason := coalesce reason (ir_reason r)\<rparr>) (is_rows s)\<rparr>"

definition apply_row ::
  "import_env \<Rightarrow> nat \<Rightarrow> uuid \<Rightarrow> csv_import_row \<Rightarrow> staged_row \<Rightarrow> instant \<Rightarrow> import_store \<Rightarrow> (import_error + unit) \<times> import_store" where
  "apply_row env k w config row now s =
     (if ie_down env k then (Inl ConnectionLost, s)
      else case find (\<lambda>r. ir_id r = ir_id row) (is_rows s) of
        None \<Rightarrow> (Inr (), s)
      | Some locked \<Rightarrow>
          if ir_status locked \<noteq> RowPending then (Inr (), s)
          else case applyCsvRowMapping (ie_zones env) (ir_raw row) (nullish (im_mapping config) []) (im_defaultTimezone config) of
                 Inl e \<Rightarrow> (Inr (), set_row (ir_id row) RowError (Some (MappingReason e)) s)
               | Inr input \<Rightarrow>
                   if im_duplicatePolicy config = PolicySkip \<and> findContactIdByIdentity w input (cs_db (is_contacts s)) \<noteq> None
                   then (Inr (), set_row (ir_id row) RowSkipped None s)
                   else case upsertContactByIdentity (ie_crypto env) (ie_race env k) (ie_newId env k) now w input (is_contacts s) of
                          Inl (e, cache) \<Rightarrow>
                            (Inl (RowFailed e), s\<lparr>is_contacts := (is_contacts s)\<lparr>cs_keyed := (cs_keyed (is_contacts s))\<lparr>k_cache := cache\<rparr>\<rparr>\<rparr>)
                        | Inr (contacts, result) \<Rightarrow>
                            (Inr (), set_row (ir_id row) (if ur_created result then RowCreated else RowUpdated) None
                                       (s\<lparr>is_contacts := contacts\<rparr>)))"

definition mark_failed :: "import_env \<Rightarrow> nat \<Rightarrow> staged_row \<Rightarrow> import_error \<Rightarrow> instant \<Rightarrow> import_store \<Rightarrow> (import_error + unit) \<times> import_store" where
  "mark_failed env k row e now s =
     (if ie_down env k then (Inl ConnectionLost, s)
      else (Inr (), set_row (ir_id row) RowError (Some (FailureReason e)) s))"

text \<open>A row whose transaction throws is marked in a transaction of its own, and one that cannot be marked stays
  pending.\<close>

fun apply_rows :: "import_env \<Rightarrow> uuid \<Rightarrow> csv_import_row \<Rightarrow> staged_row list \<Rightarrow> import_store job_run \<Rightarrow> unit import_job" where
  "apply_rows env w config [] r = Some (Done (), r)"
| "apply_rows env w config (row # rows) r =
     (case transact env (apply_row env (jr_tx r) w config row) r of
        (Killed, r1) \<Rightarrow> Some (Killed, r1)
      | (Done _, r1) \<Rightarrow> apply_rows env w config rows r1
      | (Threw e, r1) \<Rightarrow>
          (case transact env (mark_failed env (jr_tx r1) row e) r1 of
             (Killed, r2) \<Rightarrow> Some (Killed, r2)
           | (_, r2) \<Rightarrow> apply_rows env w config rows r2))"

definition pending_page :: "uuid \<Rightarrow> uuid \<Rightarrow> nat \<Rightarrow> import_store \<Rightarrow> staged_row list" where
  "pending_page w i cursor s = rows_page (\<lambda>r. row_of w i r \<and> ir_status r = RowPending) cursor IMPORT_PAGE_SIZE (is_rows s)"

partial_function (option) import_pages ::
  "import_env \<Rightarrow> uuid \<Rightarrow> uuid \<Rightarrow> csv_import_row \<Rightarrow> nat \<Rightarrow> import_store job_run
     \<Rightarrow> ((import_error, unit) job_result \<times> import_store job_run) option" where
  "import_pages env w i config cursor r =
     (case transact env (reading (pending_page w i cursor)) r of
        (Killed, r1) \<Rightarrow> Some (Killed, r1)
      | (Threw e, r1) \<Rightarrow> Some (Threw e, r1)
      | (Done page, r1) \<Rightarrow>
          if page = [] then Some (Done (), r1)
          else Option.bind (apply_rows env w config page r1) (\<lambda>y. case y of
                 (Done _, r2) \<Rightarrow> import_pages env w i config (ir_rowNumber (last page)) r2
               | (Threw e, r2) \<Rightarrow> Some (Threw e, r2)
               | (Killed, r2) \<Rightarrow> Some (Killed, r2)))"

declare import_pages.simps [code]

definition rows_in :: "uuid \<Rightarrow> uuid \<Rightarrow> csv_row_status \<Rightarrow> import_store \<Rightarrow> nat" where
  "rows_in w i status s = row_count (\<lambda>r. row_of w i r \<and> ir_status r = status) (is_rows s)"

definition recount :: "uuid \<Rightarrow> uuid \<Rightarrow> instant \<Rightarrow> import_store \<Rightarrow> (import_error + nat) \<times> import_store" where
  "recount w i now s =
     (let created = rows_in w i RowCreated s; updated = rows_in w i RowUpdated s; skipped = rows_in w i RowSkipped s;
          errors = rows_in w i RowError s; pending = rows_in w i RowPending s
      in (Inr pending,
          write_import w i (\<lambda>m. m\<lparr>im_processedRows := created + updated + skipped + errors,
            im_summary := Some (ApplySummary created updated skipped errors),
            im_status := (if pending > 0 then Applying else ImportDone), im_updatedAt := now\<rparr>) s))"

definition processImportsCsvJob :: "import_env \<Rightarrow> uuid \<Rightarrow> uuid \<Rightarrow> import_store job_run \<Rightarrow> unit import_job" where
  "processImportsCsvJob env w i r =
     run_then (run_tx env (reading (getCsvImport w i)) r) (\<lambda>found r1.
       case found of
         None \<Rightarrow> Some (Done (), r1)
       | Some config \<Rightarrow>
           run_then (run_tx env (writing (markCsvImportApplying w i)) r1) (\<lambda>_ r2.
           run_then (import_pages env w i config 0 r2) (\<lambda>_ r3.
           run_then (run_tx env (recount w i) r3) (\<lambda>stillPending r4.
             if stillPending > 0 then Some (Threw (RowsUnresolved stillPending), r4) else Some (Done (), r4)))))"

section \<open>The error report\<close>

definition csvEscape :: "string \<Rightarrow> string" where
  "csvEscape v =
     (let neutralized = (case v of
            [] \<Rightarrow> []
          | c # _ \<Rightarrow> if c \<in> set [CHR ''='', CHR ''+'', CHR ''-'', CHR ''@'', CHR 0x09, CHR 0x0D] then CHR 0x27 # v else v)
      in if list_ex (\<lambda>c. c \<in> set [CHR 0x22, CHR 0x0A, CHR '','']) neutralized
         then CHR 0x22 # concat (map (\<lambda>c. if c = CHR 0x22 then [CHR 0x22, CHR 0x22] else [c]) neutralized) @ [CHR 0x22]
         else neutralized)"

end
