(* ===== verification/Csv_Runs.thy ===== *)
theory Csv_Runs
  imports Csv_Import
begin

text \<open>
  The two loops of an import over its staged rows: both read pages in the order of the row numbers and go on behind
  the last row of a page. What is left is a list that each page shortens, so both end; the pages together are the
  whole list.
\<close>

section \<open>Pages in order\<close>

lemma page_rest:
  assumes dist: "distinct (map n (filter p t))" and L: "L = sort_key n (filter (\<lambda>r. p r \<and> after < n r) t)"
    and page: "take k L \<noteq> []"
  shows "sort_key n (filter (\<lambda>r. p r \<and> n (last (take k L)) < n r) t) = drop k L"
    and "\<forall>r \<in> set (take k L). n r \<le> n (last (take k L))"
proof -
  have "distinct (map n (filter (\<lambda>r. p r \<and> after < n r) t))"
    using distinct_map_filter [OF dist, of "\<lambda>r. after < n r"] by simp
  note parts = page_parts [OF this L page]
  show "\<forall>r \<in> set (take k L). n r \<le> n (last (take k L))" by (rule parts(3))
  have "filter (\<lambda>r. p r \<and> m < n r) t = filter (\<lambda>r. (p r \<and> after < n r) \<and> m < n r) t" if "after < m" for m
    by (rule filter_cong) (use that in auto)
  then show "sort_key n (filter (\<lambda>r. p r \<and> n (last (take k L)) < n r) t) = drop k L"
    using parts(1,4) by simp
qed

text \<open>The staged rows of an import: ids and row numbers are unique, and the numbers start at one.\<close>

definition staged_wf :: "uuid \<Rightarrow> uuid \<Rightarrow> staged_row list \<Rightarrow> bool" where
  "staged_wf w i t =
     (distinct (map ir_id t) \<and> distinct (map ir_rowNumber (filter (row_of w i) t))
      \<and> (\<forall>r \<in> set t. row_of w i r \<longrightarrow> 0 < ir_rowNumber r))"

section \<open>Rows that are resolved\<close>

definition resolved :: "(uuid \<Rightarrow> bool) \<Rightarrow> staged_row list \<Rightarrow> staged_row list \<Rightarrow> bool" where
  "resolved P = list_all2 (\<lambda>r r'.
     if P (ir_id r) then ir_status r' \<noteq> RowPending \<and> r' = r\<lparr>ir_status := ir_status r', ir_reason := ir_reason r'\<rparr> else r' = r)"

lemma resolved_refl: "(\<And>r. r \<in> set t \<Longrightarrow> \<not> P (ir_id r)) \<Longrightarrow> resolved P t t"
  unfolding resolved_def by (rule list.rel_refl_strong) simp

lemma resolved_trans:
  assumes "resolved P t u" "resolved Q u v"
  shows "resolved (\<lambda>x. P x \<or> Q x) t v"
proof -
  have id: "ir_id r' = ir_id r" if "r' = r\<lparr>ir_status := s, ir_reason := x\<rparr>" for r r' :: staged_row and s x using that by simp
  show ?thesis
    using assms unfolding resolved_def
  proof (rule list_all2_trans [rotated])
    fix r u v :: staged_row
    assume "if P (ir_id r) then ir_status u \<noteq> RowPending \<and> u = r\<lparr>ir_status := ir_status u, ir_reason := ir_reason u\<rparr> else u = r"
      and "if Q (ir_id u) then ir_status v \<noteq> RowPending \<and> v = u\<lparr>ir_status := ir_status v, ir_reason := ir_reason v\<rparr> else v = u"
    then show "if P (ir_id r) \<or> Q (ir_id r) then ir_status v \<noteq> RowPending \<and> v = r\<lparr>ir_status := ir_status v, ir_reason := ir_reason v\<rparr> else v = r"
      by (cases r; cases u; cases v) (auto split: if_splits)
  qed
qed

lemma resolved_keeps:
  assumes "resolved P t t'"
  shows "map ir_id t' = map ir_id t" "map ir_rowNumber (filter (row_of w i) t') = map ir_rowNumber (filter (row_of w i) t)"
    "staged_wf w i t' = staged_wf w i t"
proof -
  have rows: "map (\<lambda>r. (ir_id r, ir_csvImportId r, ir_workspaceId r, ir_rowNumber r, ir_raw r)) t'
      = map (\<lambda>r. (ir_id r, ir_csvImportId r, ir_workspaceId r, ir_rowNumber r, ir_raw r)) t"
    using assms unfolding resolved_def
  proof (induction rule: list_all2_induct)
    case (Cons r t r' t')
    then have "r' = r\<lparr>ir_status := ir_status r', ir_reason := ir_reason r'\<rparr>" by (cases r) (auto split: if_splits)
    then have "(ir_id r', ir_csvImportId r', ir_workspaceId r', ir_rowNumber r', ir_raw r')
        = (ir_id r, ir_csvImportId r, ir_workspaceId r, ir_rowNumber r, ir_raw r)" by (cases r; cases r') simp
    with Cons.IH show ?case by simp
  qed simp
  show ids: "map ir_id t' = map ir_id t" using arg_cong [OF rows, of "map fst"] by (simp add: comp_def)
  have keys: "map ir_rowNumber (filter (row_of w i) t)
      = map (\<lambda>(a, b, c, d, e). d) (filter (\<lambda>(a, b, c, d, e). b = i \<and> c = w) (map (\<lambda>r. (ir_id r, ir_csvImportId r, ir_workspaceId r, ir_rowNumber r, ir_raw r)) t))" for t
    by (induction t) (auto simp: row_of_def)
  show numbers: "map ir_rowNumber (filter (row_of w i) t') = map ir_rowNumber (filter (row_of w i) t)"
    using rows by (simp add: keys)
  have "(\<forall>r \<in> set t. row_of w i r \<longrightarrow> 0 < ir_rowNumber r) \<longleftrightarrow> (\<forall>x \<in> set (map ir_rowNumber (filter (row_of w i) t)). 0 < x)" for t
    by auto
  then show "staged_wf w i t' = staged_wf w i t" using ids numbers unfolding staged_wf_def by metis
qed

lemma resolved_mem:
  assumes "resolved P t t'" "r' \<in> set t'"
  obtains r where "r \<in> set t" "ir_id r' = ir_id r" "row_of w i r' = row_of w i r" "ir_status r' = RowPending \<Longrightarrow> r' = r"
    "P (ir_id r) \<Longrightarrow> ir_status r' \<noteq> RowPending"
proof -
  from assms obtain r where "r \<in> set t" and r: "if P (ir_id r) then ir_status r' \<noteq> RowPending
      \<and> r' = r\<lparr>ir_status := ir_status r', ir_reason := ir_reason r'\<rparr> else r' = r"
    unfolding resolved_def list_all2_conv_all_nth by (metis in_set_conv_nth)
  moreover have "ir_id r' = ir_id r" "row_of w i r' = row_of w i r" "ir_status r' = RowPending \<Longrightarrow> r' = r"
    "P (ir_id r) \<Longrightarrow> ir_status r' \<noteq> RowPending"
    using r by (cases r; cases r'; auto simp: row_of_def split: if_splits)+
  ultimately show ?thesis using that by blast
qed

lemma resolved_other: "resolved P t t' \<Longrightarrow> r \<in> set t \<Longrightarrow> \<not> P (ir_id r) \<Longrightarrow> r \<in> set t'"
  unfolding resolved_def list_all2_conv_all_nth by (metis in_set_conv_nth)

lemma resolved_filter:
  assumes "resolved P t t'" "\<And>r. r \<in> set t \<Longrightarrow> P (ir_id r) \<Longrightarrow> \<not> c < ir_rowNumber r"
  shows "filter (\<lambda>r. A r \<and> c < ir_rowNumber r) t' = filter (\<lambda>r. A r \<and> c < ir_rowNumber r) t"
  using assms unfolding resolved_def
proof (induction rule: list_all2_induct)
  case (Cons r t r' t')
  have "r' = r \<or> \<not> c < ir_rowNumber r \<and> \<not> c < ir_rowNumber r'"
    using Cons.hyps(1) Cons.prems [of r] by (cases r; cases r') (auto split: if_splits)
  with Cons.IH Cons.prems show ?case by auto
qed simp

lemma set_row_imports [simp]: "is_imports (set_row rowId st reason s) = is_imports s"
  by (simp add: set_row_def)

lemma resolved_set_row:
  "st \<noteq> RowPending \<Longrightarrow> is_rows s = t \<Longrightarrow> resolved (\<lambda>x. x = rowId) t (is_rows (set_row rowId st reason s))"
  by (auto simp: resolved_def set_row_def update_where_def list.rel_map intro!: list.rel_refl_strong)

section \<open>The job\<close>

definition apart :: "uuid \<Rightarrow> uuid \<Rightarrow> import_store \<Rightarrow> import_store \<Rightarrow> bool" where
  "apart w i s0 s =
     (filter (\<lambda>m. \<not> import_is w i m) (is_imports s) = filter (\<lambda>m. \<not> import_is w i m) (is_imports s0)
      \<and> (getCsvImport w i s = None) = (getCsvImport w i s0 = None))"

text \<open>A job on its way: it has resolved some of the rows of its import that were pending.\<close>

definition under_way :: "uuid \<Rightarrow> uuid \<Rightarrow> import_store \<Rightarrow> import_store \<Rightarrow> bool" where
  "under_way w i s0 s =
     (apart w i s0 s \<and> (\<exists>P. resolved P (is_rows s0) (is_rows s)
        \<and> (\<forall>r \<in> set (is_rows s0). P (ir_id r) \<longrightarrow> row_of w i r \<and> ir_status r = RowPending)))"

lemma under_way_refl: "under_way w i s s"
  unfolding under_way_def apart_def by (intro conjI HOL.refl exI [of _ "\<lambda>_. False"]) (simp_all add: resolved_refl)

lemma under_way_step:
  assumes s: "under_way w i s0 s" and step: "resolved Q (is_rows s) (is_rows s')" "apart w i s s'"
    and own: "\<And>r. r \<in> set (is_rows s) \<Longrightarrow> Q (ir_id r) \<Longrightarrow> row_of w i r \<and> ir_status r = RowPending"
    and dist: "distinct (map ir_id (is_rows s0))"
  shows "under_way w i s0 s'"
proof -
  obtain P where P: "resolved P (is_rows s0) (is_rows s)"
    "\<forall>r \<in> set (is_rows s0). P (ir_id r) \<longrightarrow> row_of w i r \<and> ir_status r = RowPending"
    using s by (auto simp: under_way_def)
  have "row_of w i r \<and> ir_status r = RowPending" if r: "r \<in> set (is_rows s0)" "P (ir_id r) \<or> Q (ir_id r)" for r
  proof (cases "P (ir_id r)")
    case False
    then have "r \<in> set (is_rows s)" using resolved_other [OF P(1) r(1)] by simp
    then show ?thesis using own r(2) False by simp
  qed (use P(2) r(1) in simp)
  moreover have "resolved (\<lambda>x. P x \<or> Q x) (is_rows s0) (is_rows s')" by (rule resolved_trans [OF P(1) step(1)])
  moreover have "apart w i s0 s'" using s step(2) by (simp add: under_way_def apart_def)
  ultimately show ?thesis unfolding under_way_def by blast
qed

definition up :: "import_env \<Rightarrow> bool" where
  "up env = (quiet_env env \<and> (\<forall>k. \<not> ie_down env k))"

lemma id_unique: "staged_wf w i t \<Longrightarrow> r \<in> set t \<Longrightarrow> q \<in> set t \<Longrightarrow> ir_id q = ir_id r \<Longrightarrow> q = r"
  by (auto simp: staged_wf_def distinct_map dest: inj_onD)

lemma apply_row_resolves:
  assumes "staged_wf w i (is_rows s)" "row \<in> set (is_rows s)" "ir_status row = RowPending" "\<not> ie_down env k"
    and "apply_row env k w config row now s = (res, s')"
  shows "is_imports s' = is_imports s \<and> (if res = Inr () then resolved (\<lambda>x. x = ir_id row) (is_rows s) (is_rows s') else is_rows s' = is_rows s)"
proof -
  have "find (\<lambda>r. ir_id r = ir_id row) (is_rows s) = Some row"
    by (rule find_unique) (use assms(1,2) id_unique in auto)
  then show ?thesis
    using assms(3-5) unfolding apply_row_def
    by (auto split: if_splits sum.splits prod.splits intro!: resolved_set_row)
qed

text \<open>One row, with the transaction that marks it where the first one throws.\<close>

definition settle_row :: "import_env \<Rightarrow> uuid \<Rightarrow> csv_import_row \<Rightarrow> staged_row \<Rightarrow> import_store job_run \<Rightarrow> unit import_job" where
  "settle_row env w config row r =
     (case transact env (apply_row env (jr_tx r) w config row) r of
        (Killed, r1) \<Rightarrow> Some (Killed, r1)
      | (Done _, r1) \<Rightarrow> Some (Done (), r1)
      | (Threw e, r1) \<Rightarrow>
          (case transact env (mark_failed env (jr_tx r1) row e) r1 of
             (Killed, r2) \<Rightarrow> Some (Killed, r2)
           | (_, r2) \<Rightarrow> Some (Done (), r2)))"

lemma apply_rows_Cons: "apply_rows env w config (row # rows) r = run_then (settle_row env w config row r) (\<lambda>_. apply_rows env w config rows)"
  by (auto simp: settle_row_def split: prod.split job_result.split)

lemma settle_row_ends:
  assumes "up env" "under_way w i s0 (jr_db r)" "staged_wf w i (is_rows s0)" "staged_wf w i (is_rows (jr_db r))"
    and "row \<in> set (is_rows (jr_db r))" "ir_status row = RowPending" "row_of w i row"
  shows "ends_in env (under_way w i s0)
     (\<lambda>_ s. is_imports s = is_imports (jr_db r) \<and> resolved (\<lambda>x. x = ir_id row) (is_rows (jr_db r)) (is_rows s))
     (settle_row env w config row r)"
proof -
  have own: "q = row" if "q \<in> set (is_rows (jr_db r))" "ir_id q = ir_id row" for q
    using id_unique [OF assms(4,5) that] .
  have dist: "distinct (map ir_id (is_rows s0))" using assms(3) by (simp add: staged_wf_def)
  have step: "under_way w i s0 s" if "is_imports s = is_imports (jr_db r)" "resolved (\<lambda>x. x = ir_id row) (is_rows (jr_db r)) (is_rows s)" for s
    by (rule under_way_step [OF assms(2) that(2) _ _ dist]) (use own assms(6,7) that(1) in \<open>auto simp: apart_def getCsvImport_def\<close>)
  have same: "under_way w i s0 s" if "is_imports s = is_imports (jr_db r)" "is_rows s = is_rows (jr_db r)" for s
    using assms(2) that by (simp add: under_way_def apart_def getCsvImport_def)
  obtain res s where run: "apply_row env (jr_tx r) w config row (je_now env (jr_tx r)) (jr_db r) = (res, s)" by force
  have "\<not> ie_down env (jr_tx r)" using assms(1) by (simp add: up_def)
  note eff = apply_row_resolves [OF assms(4-6) this run]
  have quiet: "quiet_env env" and up: "\<And>k. \<not> ie_down env k" using assms(1) by (simp_all add: up_def)
  show ?thesis
  proof (cases res)
    case (Inr u)
    then show ?thesis
      using run eff step [of s] assms(2) by (auto simp: settle_row_def transact_quiet [OF quiet] ends_in_def)
  next
    case (Inl e)
    then have eff: "is_imports s = is_imports (jr_db r)" "is_rows s = is_rows (jr_db r)" using eff by simp_all
    have marked: "resolved (\<lambda>x. x = ir_id row) (is_rows (jr_db r)) (is_rows (set_row (ir_id row) RowError (Some (FailureReason e)) s))"
      by (rule resolved_set_row) (simp_all add: eff(2))
    have "is_imports (set_row (ir_id row) RowError (Some (FailureReason e)) s) = is_imports (jr_db r)"
      using eff(1) by (simp add: set_row_def)
    with Inl marked step [OF this marked] same [OF eff] assms(2) run up show ?thesis
      by (auto simp: settle_row_def transact_quiet [OF quiet] ends_in_def mark_failed_def)
  qed
qed

lemma apply_rows_ends:
  assumes "up env" "under_way w i s0 (jr_db r)" "staged_wf w i (is_rows s0)" "staged_wf w i (is_rows (jr_db r))"
    and "\<forall>row \<in> set rows. row \<in> set (is_rows (jr_db r)) \<and> ir_status row = RowPending \<and> row_of w i row"
    and "distinct (map ir_id rows)"
  shows "ends_in env (under_way w i s0)
     (\<lambda>_ s. is_imports s = is_imports (jr_db r) \<and> resolved (\<lambda>x. x \<in> ir_id ` set rows) (is_rows (jr_db r)) (is_rows s))
     (apply_rows env w config rows r)"
  using assms(2,4,5,6)
proof (induction rows arbitrary: r)
  case Nil
  then show ?case by (simp add: resolved_refl)
next
  case (Cons row rows)
  show ?case
    unfolding apply_rows_Cons
  proof (rule run_then_ends [OF settle_row_ends [OF assms(1) Cons.prems(1) assms(3) Cons.prems(2)]])
    fix u and r1 :: "import_store job_run"
    assume r1: "under_way w i s0 (jr_db r1)"
      "is_imports (jr_db r1) = is_imports (jr_db r) \<and> resolved (\<lambda>x. x = ir_id row) (is_rows (jr_db r)) (is_rows (jr_db r1))"
    have other: "ir_id q \<noteq> ir_id row" if "q \<in> set rows" for q using Cons.prems(4) that by (metis distinct.simps(2) image_eqI list.set_map list.simps(9))
    have "q \<in> set (is_rows (jr_db r1))" if "q \<in> set rows" for q
      by (rule resolved_other [OF conjunct2 [OF r1(2)]]) (use Cons.prems(3) other [OF that] that in auto)
    then have "ends_in env (under_way w i s0)
     (\<lambda>_ s. is_imports s = is_imports (jr_db r1) \<and> resolved (\<lambda>x. x \<in> ir_id ` set rows) (is_rows (jr_db r1)) (is_rows s))
     (apply_rows env w config rows r1)"
      using Cons.IH [OF r1(1)] r1(2) Cons.prems resolved_keeps(3) [OF conjunct2 [OF r1(2)]] by simp
    then show "ends_in env (under_way w i s0)
     (\<lambda>_ s. is_imports s = is_imports (jr_db r) \<and> resolved (\<lambda>x. x \<in> ir_id ` set (row # rows)) (is_rows (jr_db r)) (is_rows s))
     (apply_rows env w config rows r1)"
      by (rule ends_in_mono) (use r1(2) resolved_trans [of _ "is_rows (jr_db r)"] in \<open>auto simp: image_iff\<close>)
  qed (use Cons.prems in simp_all)
qed

text \<open>The rows that are still to be read, in order; a page is a prefix of them.\<close>

definition pending_from :: "uuid \<Rightarrow> uuid \<Rightarrow> nat \<Rightarrow> import_store \<Rightarrow> staged_row list" where
  "pending_from w i cursor s =
     sort_key ir_rowNumber (filter (\<lambda>r. (row_of w i r \<and> ir_status r = RowPending) \<and> cursor < ir_rowNumber r) (is_rows s))"

lemma pending_page_prefix: "pending_page w i cursor s = take IMPORT_PAGE_SIZE (pending_from w i cursor s)"
  by (simp add: pending_page_def rows_page_def pending_from_def)

lemma import_pages_run:
  "import_pages env w i config cursor r =
     run_then (run_tx env (reading (pending_page w i cursor)) r) (\<lambda>page r1.
       if page = [] then Some (Done (), r1)
       else run_then (apply_rows env w config page r1) (\<lambda>_. import_pages env w i config (ir_rowNumber (last page))))"
  by (subst import_pages.simps)
     (auto simp: run_tx_def run_then_def split: prod.split job_result.split option.split Option.bind_split)

lemma distinct_pending: "staged_wf w i (is_rows s) \<Longrightarrow> distinct (map ir_rowNumber (filter (\<lambda>r. row_of w i r \<and> ir_status r = RowPending) (is_rows s)))"
  using distinct_map_filter [of ir_rowNumber "filter (row_of w i) (is_rows s)" "\<lambda>r. ir_status r = RowPending"]
  by (simp add: staged_wf_def conj_commute)

lemma pending_rest:
  assumes "staged_wf w i (is_rows s)" and "resolved (\<lambda>x. x \<in> ir_id ` set page) (is_rows s) (is_rows s')"
    and page: "page = pending_page w i cursor s" "page \<noteq> []"
  shows "pending_from w i (ir_rowNumber (last page)) s' = drop IMPORT_PAGE_SIZE (pending_from w i cursor s)"
proof -
  note rest = page_rest [OF distinct_pending [OF assms(1)] pending_from_def page(2) [unfolded page(1) pending_page_prefix]]
  have page': "page = take IMPORT_PAGE_SIZE (pending_from w i cursor s)" using page(1) by (simp add: pending_page_prefix)
  have mem: "q \<in> set (is_rows s)" if "q \<in> set page" for q
  proof -
    have "q \<in> set (pending_from w i cursor s)" using that unfolding page' by (rule in_set_takeD)
    then show ?thesis by (simp add: pending_from_def)
  qed
  have "\<not> ir_rowNumber (last page) < ir_rowNumber q" if "q \<in> set (is_rows s)" "ir_id q \<in> ir_id ` set page" for q
  proof -
    obtain q' where q': "q' \<in> set page" "ir_id q = ir_id q'" using \<open>ir_id q \<in> ir_id ` set page\<close> by blast
    have "q = q'" by (rule id_unique [OF assms(1) mem [OF q'(1)] that(1) q'(2)])
    then show ?thesis using rest(2) q'(1) page' by (simp add: linorder_not_less)
  qed
  then show ?thesis
    using rest(1) page' unfolding pending_from_def [of w i "ir_rowNumber (last page)"] by (subst resolved_filter [OF assms(2)]) simp_all
qed

lemma import_pages_end:
  assumes "up env" "staged_wf w i (is_rows s0)"
  shows "under_way w i s0 (jr_db r) \<Longrightarrow> ends_in env (under_way w i s0)
     (\<lambda>_ s. is_imports s = is_imports (jr_db r)
        \<and> resolved (\<lambda>x. x \<in> ir_id ` set (pending_from w i cursor (jr_db r))) (is_rows (jr_db r)) (is_rows s))
     (import_pages env w i config cursor r)"
proof (induction "length (pending_from w i cursor (jr_db r))" arbitrary: cursor r rule: less_induct)
  case less
  let ?L = "pending_from w i cursor (jr_db r)"
  let ?I = "under_way w i s0"
  have quiet: "quiet_env env" using assms(1) by (simp add: up_def)
  have wf: "staged_wf w i (is_rows (jr_db r))" using less.prems assms(2) resolved_keeps(3) by (auto simp: under_way_def)
  show ?case
  proof (subst import_pages_run, rule run_then_ends [OF reading_ends [where I = ?I and r = r, OF quiet less.prems]])
    fix page and r1 :: "import_store job_run"
    assume "page = pending_page w i cursor (jr_db r1) \<and> jr_db r1 = jr_db r"
    then have r1: "page = pending_page w i cursor (jr_db r)" "page = take IMPORT_PAGE_SIZE ?L" "jr_db r1 = jr_db r"
      by (simp_all add: pending_page_prefix)
    have L: "\<forall>q \<in> set ?L. q \<in> set (is_rows (jr_db r)) \<and> ir_status q = RowPending \<and> row_of w i q"
      by (auto simp: pending_from_def)
    have "inj_on ir_id (set ?L)" using wf L by (auto simp: inj_on_def dest: id_unique)
    moreover have "distinct ?L" using wf by (simp add: pending_from_def staged_wf_def distinct_map)
    ultimately have ids: "distinct (map ir_id page)" unfolding r1(2) by (metis distinct_map distinct_take take_map)
    show "ends_in env ?I
     (\<lambda>_ s. is_imports s = is_imports (jr_db r) \<and> resolved (\<lambda>x. x \<in> ir_id ` set ?L) (is_rows (jr_db r)) (is_rows s))
     (if page = [] then Some (Done (), r1)
      else run_then (apply_rows env w config page r1) (\<lambda>_. import_pages env w i config (ir_rowNumber (last page))))"
    proof (cases "page = []")
      case True
      then have "?L = []" using r1(2) by (simp add: IMPORT_PAGE_SIZE_def)
      then show ?thesis using True r1(3) less.prems by (simp add: resolved_refl)
    next
      case False
      have rows: "\<forall>row \<in> set page. row \<in> set (is_rows (jr_db r1)) \<and> ir_status row = RowPending \<and> row_of w i row"
        using L r1(2,3) in_set_takeD by metis
      have "ends_in env ?I
     (\<lambda>_ s. is_imports s = is_imports (jr_db r) \<and> resolved (\<lambda>x. x \<in> ir_id ` set ?L) (is_rows (jr_db r)) (is_rows s))
        (run_then (apply_rows env w config page r1) (\<lambda>_. import_pages env w i config (ir_rowNumber (last page))))"
      proof (rule run_then_ends [OF apply_rows_ends [OF assms(1) _ assms(2) _ rows ids]])
        fix u and r2 :: "import_store job_run"
        assume I: "?I (jr_db r2)" and "is_imports (jr_db r2) = is_imports (jr_db r1)
          \<and> resolved (\<lambda>x. x \<in> ir_id ` set page) (is_rows (jr_db r1)) (is_rows (jr_db r2))"
        then have r2: "is_imports (jr_db r2) = is_imports (jr_db r)"
          "resolved (\<lambda>x. x \<in> ir_id ` set page) (is_rows (jr_db r)) (is_rows (jr_db r2))" using r1(3) by simp_all
        have rest: "pending_from w i (ir_rowNumber (last page)) (jr_db r2) = drop IMPORT_PAGE_SIZE ?L"
          by (rule pending_rest [OF wf r2(2) r1(1) False])
        have shorter: "length (pending_from w i (ir_rowNumber (last page)) (jr_db r2)) < length ?L"
          unfolding rest using False r1(2) by (cases ?L) (simp_all add: IMPORT_PAGE_SIZE_def)
        have split: "ir_id ` set ?L = ir_id ` set page \<union> ir_id ` set (drop IMPORT_PAGE_SIZE ?L)"
          unfolding r1(2) by (metis append_take_drop_id image_Un set_append)
        show "ends_in env ?I
     (\<lambda>_ s. is_imports s = is_imports (jr_db r) \<and> resolved (\<lambda>x. x \<in> ir_id ` set ?L) (is_rows (jr_db r)) (is_rows s))
          (import_pages env w i config (ir_rowNumber (last page)) r2)"
          by (rule ends_in_mono [OF less.hyps [OF shorter I]])
             (use r2 resolved_trans [OF r2(2)] rest split in auto)
      qed (use less.prems wf r1(3) in simp_all)
      with False show ?thesis by simp
    qed
  qed
qed

section \<open>The whole job\<close>

lemma write_import_find:
  assumes "\<And>m. im_id (f m) = im_id m \<and> im_workspaceId (f m) = im_workspaceId m"
  shows "getCsvImport w i (write_import w i f s) = map_option f (getCsvImport w i s)"
    and "apart w i s (write_import w i f s)" and "is_rows (write_import w i f s) = is_rows s"
    and "is_contacts (write_import w i f s) = is_contacts s"
proof -
  have "find (import_is w i) (update_where (import_is w i) f t) = map_option f (find (import_is w i) t)" for t
    by (induction t) (auto simp: import_is_def assms)
  then show found: "getCsvImport w i (write_import w i f s) = map_option f (getCsvImport w i s)"
    by (simp add: getCsvImport_def write_import_def)
  have "filter (\<lambda>m. \<not> import_is w i m) (update_where (import_is w i) f t) = filter (\<lambda>m. \<not> import_is w i m) t" for t
    by (induction t) (simp_all add: import_is_def assms)
  then show "apart w i s (write_import w i f s)" using found by (simp add: apart_def) (simp add: write_import_def)
qed (simp_all add: write_import_def)

lemma under_way_write:
  assumes "under_way w i s0 s" "distinct (map ir_id (is_rows s0))" "\<And>m. im_id (f m) = im_id m \<and> im_workspaceId (f m) = im_workspaceId m"
  shows "under_way w i s0 (write_import w i f s)"
  by (rule under_way_step [OF assms(1), where Q = "\<lambda>_. False"])
     (use assms(2) write_import_find [OF assms(3), where w = w and i = i and s = s] in \<open>simp_all add: resolved_refl\<close>)

text \<open>What the end of an import says of it.\<close>

definition applied :: "uuid \<Rightarrow> uuid \<Rightarrow> import_store \<Rightarrow> bool" where
  "applied w i s =
     (case getCsvImport w i s of
        None \<Rightarrow> False
      | Some m \<Rightarrow>
          im_status m = ImportDone \<and> im_processedRows m = row_count (row_of w i) (is_rows s) \<and> rows_in w i RowPending s = 0
          \<and> im_summary m = Some (ApplySummary (rows_in w i RowCreated s) (rows_in w i RowUpdated s) (rows_in w i RowSkipped s)
               (rows_in w i RowError s)))"

lemma rows_in_sum:
  "row_count (row_of w i) (is_rows s) = rows_in w i RowCreated s + rows_in w i RowUpdated s + rows_in w i RowSkipped s
     + rows_in w i RowError s + rows_in w i RowPending s"
proof -
  have "row_count (row_of w i) t = row_count (\<lambda>r. row_of w i r \<and> ir_status r = RowCreated) t
      + row_count (\<lambda>r. row_of w i r \<and> ir_status r = RowUpdated) t + row_count (\<lambda>r. row_of w i r \<and> ir_status r = RowSkipped) t
      + row_count (\<lambda>r. row_of w i r \<and> ir_status r = RowError) t + row_count (\<lambda>r. row_of w i r \<and> ir_status r = RowPending) t" for t
  proof (induction t)
    case (Cons r t)
    then show ?case by (cases "ir_status r") simp_all
  qed simp
  then show ?thesis by (simp add: rows_in_def)
qed

lemma recount_ends:
  assumes "rows_in w i RowPending s = 0" "getCsvImport w i s \<noteq> None"
  shows "\<exists>s'. recount w i now s = (Inr 0, s') \<and> applied w i s'
    \<and> (\<exists>f. (\<forall>m. im_id (f m) = im_id m \<and> im_workspaceId (f m) = im_workspaceId m) \<and> s' = write_import w i f s)"
proof -
  let ?f = "\<lambda>m :: csv_import_row. m\<lparr>im_processedRows := rows_in w i RowCreated s + rows_in w i RowUpdated s + rows_in w i RowSkipped s + rows_in w i RowError s,
      im_summary := Some (ApplySummary (rows_in w i RowCreated s) (rows_in w i RowUpdated s) (rows_in w i RowSkipped s) (rows_in w i RowError s)),
      im_status := ImportDone, im_updatedAt := now\<rparr>"
  have f: "\<And>m. im_id (?f m) = im_id m \<and> im_workspaceId (?f m) = im_workspaceId m" by simp
  note written = write_import_find [where w = w and i = i and s = s, OF f]
  have "recount w i now s = (Inr 0, write_import w i ?f s)" using assms(1) by (simp add: recount_def Let_def)
  moreover have "applied w i (write_import w i ?f s)"
    using assms written(1,3) rows_in_sum [of w i s] by (auto simp: applied_def rows_in_def)
  ultimately show ?thesis by (intro exI [of _ "write_import w i ?f s"] conjI exI [of _ ?f]) simp_all
qed

lemma no_pending_left:
  assumes "staged_wf w i (is_rows s)" "resolved (\<lambda>x. x \<in> ir_id ` set (pending_from w i 0 s)) (is_rows s) (is_rows s')"
  shows "rows_in w i RowPending s' = 0"
  unfolding rows_in_def row_count_zero
proof (intro ballI notI)
  fix q assume q: "q \<in> set (is_rows s')" "row_of w i q \<and> ir_status q = RowPending"
  obtain q0 where q0: "q0 \<in> set (is_rows s)" "q = q0" "\<not> ir_id q0 \<in> ir_id ` set (pending_from w i 0 s)"
    using resolved_mem [OF assms(2) q(1), where w = w and i = i] q(2) by metis
  then have "q0 \<in> set (pending_from w i 0 s)" using q(2) assms(1) by (auto simp: pending_from_def staged_wf_def)
  then show False using q0(3) by blast
qed

lemma job_ends:
  assumes up: "up env" and wf: "staged_wf w i (is_rows s0)" and found: "getCsvImport w i s0 \<noteq> None"
    and start: "under_way w i s0 (jr_db r)"
  shows "ends_in env (under_way w i s0) (\<lambda>_. applied w i) (processImportsCsvJob env w i r)"
proof -
  let ?I = "under_way w i s0"
  have quiet: "quiet_env env" using up by (simp add: up_def)
  have dist: "distinct (map ir_id (is_rows s0))" using wf by (simp add: staged_wf_def)
  have exists: "getCsvImport w i s \<noteq> None" if "?I s" for s using that found by (auto simp: under_way_def apart_def)
  show ?thesis
    unfolding processImportsCsvJob_def
  proof (rule run_then_ends [OF reading_ends [where I = ?I and r = r and f = "getCsvImport w i", OF quiet start]])
    fix f and r1 :: "import_store job_run"
    assume r1: "?I (jr_db r1)" "f = getCsvImport w i (jr_db r1) \<and> jr_db r1 = jr_db r"
    then obtain config where config: "f = Some config" using exists by auto
    have "ends_in env ?I (\<lambda>_. applied w i)
       (run_then (run_tx env (writing (markCsvImportApplying w i)) r1) (\<lambda>_ r2.
        run_then (import_pages env w i config 0 r2) (\<lambda>_ r3.
        run_then (run_tx env (recount w i) r3) (\<lambda>stillPending r4.
          if stillPending > 0 then Some (Threw (RowsUnresolved stillPending), r4) else Some (Done (), r4)))))"
    proof (rule run_then_ends [OF writing_ends [where I = ?I and Q = "\<lambda>_. True" and f = "markCsvImportApplying w i", OF quiet r1(1)]])
      fix u and r2 :: "import_store job_run"
      assume r2: "?I (jr_db r2)"
      then have wf2: "staged_wf w i (is_rows (jr_db r2))" using wf resolved_keeps(3) by (auto simp: under_way_def)
      show "ends_in env ?I (\<lambda>_. applied w i)
       (run_then (import_pages env w i config 0 r2) (\<lambda>_ r3.
        run_then (run_tx env (recount w i) r3) (\<lambda>stillPending r4.
          if stillPending > 0 then Some (Threw (RowsUnresolved stillPending), r4) else Some (Done (), r4))))"
      proof (rule run_then_ends [OF import_pages_end [OF up wf r2]])
        fix u and r3 :: "import_store job_run"
        assume r3: "?I (jr_db r3)" "is_imports (jr_db r3) = is_imports (jr_db r2)
          \<and> resolved (\<lambda>x. x \<in> ir_id ` set (pending_from w i 0 (jr_db r2))) (is_rows (jr_db r2)) (is_rows (jr_db r3))"
        then have none: "rows_in w i RowPending (jr_db r3) = 0" using no_pending_left [OF wf2] by simp
        show "ends_in env ?I (\<lambda>_. applied w i) (run_then (run_tx env (recount w i) r3) (\<lambda>stillPending r4.
          if stillPending > 0 then Some (Threw (RowsUnresolved stillPending), r4) else Some (Done (), r4)))"
        proof (rule run_then_ends [OF run_tx_ends [where I = ?I and Q = "\<lambda>n s. n = 0 \<and> applied w i s", OF quiet r3(1)]])
          fix now
          obtain s f where s: "recount w i now (jr_db r3) = (Inr 0, s)" "applied w i s" "s = write_import w i f (jr_db r3)"
            "\<And>m. im_id (f m) = im_id m \<and> im_workspaceId (f m) = im_workspaceId m"
            using recount_ends [OF none exists [OF r3(1)], of now] by blast
          then show "\<exists>a db. recount w i now (jr_db r3) = (Inr a, db) \<and> ?I db \<and> a = 0 \<and> applied w i db"
            using under_way_write [OF r3(1) dist, of f] by blast
        qed simp
      qed
    qed (use under_way_write [OF r1(1) dist] in \<open>simp add: markCsvImportApplying_def\<close>)
    with config show "ends_in env ?I (\<lambda>_. applied w i)
       (case f of None \<Rightarrow> Some (Done (), r1)
        | Some config \<Rightarrow>
           run_then (run_tx env (writing (markCsvImportApplying w i)) r1) (\<lambda>_ r2.
           run_then (import_pages env w i config 0 r2) (\<lambda>_ r3.
           run_then (run_tx env (recount w i) r3) (\<lambda>stillPending r4.
             if stillPending > 0 then Some (Threw (RowsUnresolved stillPending), r4) else Some (Done (), r4)))))"
      by simp
  qed
qed

section \<open>The dry run\<close>

text \<open>What a dry run makes of the rows with a number of \<open>A\<close>, and what a row adds to its counts.\<close>

definition classified :: "zones \<Rightarrow> (string \<times> string) list \<Rightarrow> string option \<Rightarrow> staged_row \<Rightarrow> staged_row" where
  "classified z mapping tz r =
     (case applyCsvRowMapping z (ir_raw r) mapping tz of
        Inl e \<Rightarrow> r\<lparr>ir_status := RowError, ir_reason := Some (MappingReason e)\<rparr>
      | Inr _ \<Rightarrow> r\<lparr>ir_status := RowPending, ir_reason := None\<rparr>)"

definition reclassified ::
  "zones \<Rightarrow> (string \<times> string) list \<Rightarrow> string option \<Rightarrow> uuid \<Rightarrow> uuid \<Rightarrow> nat set \<Rightarrow> staged_row list \<Rightarrow> staged_row list" where
  "reclassified z mapping tz w i A = update_where (\<lambda>r. row_of w i r \<and> ir_rowNumber r \<in> A) (classified z mapping tz)"

definition preview ::
  "zones \<Rightarrow> uuid \<Rightarrow> (string \<times> string) list \<Rightarrow> DuplicatePolicy \<Rightarrow> string option \<Rightarrow> crm \<Rightarrow> staged_row \<Rightarrow> nat \<times> nat \<times> nat \<Rightarrow> nat \<times> nat \<times> nat" where
  "preview z w mapping policy tz db row = (\<lambda>(willCreate, willUpdate, errorCount).
     case applyCsvRowMapping z (ir_raw row) mapping tz of
       Inl _ \<Rightarrow> (willCreate, willUpdate, errorCount + 1)
     | Inr input \<Rightarrow>
         if findContactIdByIdentity w input db = None then (willCreate + 1, willUpdate, errorCount)
         else if policy = PolicyUpdate then (willCreate, willUpdate + 1, errorCount)
         else (willCreate, willUpdate, errorCount))"

lemma classified_fields [simp]:
  "ir_id (classified z mapping tz r) = ir_id r" "row_of w i (classified z mapping tz r) = row_of w i r"
  "ir_rowNumber (classified z mapping tz r) = ir_rowNumber r" "ir_raw (classified z mapping tz r) = ir_raw r"
  "classified z mapping tz (classified z mapping tz r) = classified z mapping tz r"
  by (simp_all add: classified_def row_of_def split: sum.split)

lemma reclassified_empty: "reclassified z mapping tz w i {} t = t"
  unfolding reclassified_def by (rule update_where_idle) simp

lemma reclassified_twice: "reclassified z mapping tz w i B (reclassified z mapping tz w i A t) = reclassified z mapping tz w i (A \<union> B) t"
  by (induction t) (auto simp: reclassified_def)

lemma reclassified_wf: "staged_wf w i (reclassified z mapping tz w i A t) = staged_wf w i t"
proof -
  have "map ir_id (reclassified z mapping tz w i A t) = map ir_id t"
    and "map ir_rowNumber (filter (row_of w i) (reclassified z mapping tz w i A t)) = map ir_rowNumber (filter (row_of w i) t)"
    and "(\<forall>r \<in> set (reclassified z mapping tz w i A t). row_of w i r \<longrightarrow> 0 < ir_rowNumber r) = (\<forall>r \<in> set t. row_of w i r \<longrightarrow> 0 < ir_rowNumber r)"
    by (induction t) (auto simp: reclassified_def)
  then show ?thesis by (simp add: staged_wf_def)
qed

lemma reclassified_ahead:
  "(\<And>a. a \<in> A \<Longrightarrow> a \<le> c) \<Longrightarrow>
     filter (\<lambda>r. row_of w i r \<and> c < ir_rowNumber r) (reclassified z mapping tz w i A t) = filter (\<lambda>r. row_of w i r \<and> c < ir_rowNumber r) t"
  by (induction t) (auto simp: reclassified_def linorder_not_less)

lemma reclassified_row:
  assumes "\<And>q. q \<in> set (is_rows s) \<Longrightarrow> row_of w i q \<Longrightarrow> ir_rowNumber q = ir_rowNumber row \<Longrightarrow> ir_raw q = ir_raw row"
  shows "setStagedRowClassification w i (ir_rowNumber row)
      (case applyCsvRowMapping z (ir_raw row) mapping tz of Inl e \<Rightarrow> RowError | Inr _ \<Rightarrow> RowPending)
      (case applyCsvRowMapping z (ir_raw row) mapping tz of Inl e \<Rightarrow> Some (MappingReason e) | Inr _ \<Rightarrow> None) s
    = s\<lparr>is_rows := reclassified z mapping tz w i {ir_rowNumber row} (is_rows s)\<rparr>"
proof -
  let ?st = "case applyCsvRowMapping z (ir_raw row) mapping tz of Inl e \<Rightarrow> RowError | Inr _ \<Rightarrow> RowPending"
  let ?re = "case applyCsvRowMapping z (ir_raw row) mapping tz of Inl e \<Rightarrow> Some (MappingReason e) | Inr _ \<Rightarrow> None"
  have "update_where (\<lambda>r. row_of w i r \<and> ir_rowNumber r = ir_rowNumber row) (\<lambda>r. r\<lparr>ir_status := ?st, ir_reason := ?re\<rparr>) (is_rows s)
      = reclassified z mapping tz w i {ir_rowNumber row} (is_rows s)"
    unfolding reclassified_def update_where_def
    by (rule map_cong [OF HOL.refl]) (use assms in \<open>auto simp: classified_def split: sum.split\<close>)
  then show ?thesis by (simp add: setStagedRowClassification_def)
qed

lemma dry_run_rows_end:
  assumes "quiet_env env" "\<forall>k. \<not> je_killed env k"
    and "\<forall>row \<in> set rows. \<forall>q \<in> set (is_rows (jr_db r)). row_of w i q \<and> ir_rowNumber q = ir_rowNumber row \<longrightarrow> ir_raw q = ir_raw row"
  shows "\<exists>r'. dry_run_rows env w i mapping policy tz rows counts r
      = Some (Done (fold (preview (ie_zones env) w mapping policy tz (cs_db (is_contacts (jr_db r)))) rows counts), r')
    \<and> jr_db r' = (jr_db r)\<lparr>is_rows := reclassified (ie_zones env) mapping tz w i (ir_rowNumber ` set rows) (is_rows (jr_db r))\<rparr>"
  using assms(3)
proof (induction rows arbitrary: counts r)
  case Nil
  then show ?case by (cases counts) (simp add: reclassified_empty)
next
  case (Cons row rows)
  let ?z = "ie_zones env"
  obtain a b c where counts: "counts = (a, b, c)" by (cases counts)
  let ?m = "applyCsvRowMapping ?z (ir_raw row) mapping tz"
  let ?s = "(jr_db r)\<lparr>is_rows := reclassified ?z mapping tz w i {ir_rowNumber row} (is_rows (jr_db r))\<rparr>"
  have s: "setStagedRowClassification w i (ir_rowNumber row) (case ?m of Inl e \<Rightarrow> RowError | Inr _ \<Rightarrow> RowPending)
      (case ?m of Inl e \<Rightarrow> Some (MappingReason e) | Inr _ \<Rightarrow> None) (jr_db r) = ?s"
    by (rule reclassified_row) (use Cons.prems in simp)
  have run: "transact env body r = (case body (je_now env (jr_tx r)) (jr_db r) of
             (Inl e, db) \<Rightarrow> (Threw e, r\<lparr>jr_tx := jr_tx r + 1, jr_db := db\<rparr>)
           | (Inr x, db) \<Rightarrow> (Done x, r\<lparr>jr_tx := jr_tx r + 1, jr_db := db\<rparr>))"
    for r :: "import_store job_run" and body :: "instant \<Rightarrow> import_store \<Rightarrow> (import_error + 'x) \<times> import_store"
    using assms(1,2) by (simp add: transact_quiet)
  obtain r1 where r1: "jr_db r1 = ?s"
    "dry_run_rows env w i mapping policy tz (row # rows) counts r
      = dry_run_rows env w i mapping policy tz rows (preview ?z w mapping policy tz (cs_db (is_contacts (jr_db r))) row counts) r1"
  proof (cases ?m)
    case (Inl e)
    then show ?thesis
      using that [of "r\<lparr>jr_tx := jr_tx r + 1, jr_db := ?s\<rparr>"] s
      by (simp add: counts run_tx_def run writing_def preview_def)
  next
    case (Inr input)
    then show ?thesis
      using that [of "r\<lparr>jr_db := ?s, jr_tx := Suc (Suc (jr_tx r))\<rparr>"] s
      by (simp add: counts run_tx_def run writing_def reading_def preview_def)
  qed
  have "\<forall>row \<in> set rows. \<forall>q \<in> set (is_rows (jr_db r1)). row_of w i q \<and> ir_rowNumber q = ir_rowNumber row \<longrightarrow> ir_raw q = ir_raw row"
    using Cons.prems unfolding r1(1) by (auto simp: reclassified_def update_where_def)
  from Cons.IH [OF this, of "preview ?z w mapping policy tz (cs_db (is_contacts (jr_db r))) row counts"] obtain r'
    where r': "dry_run_rows env w i mapping policy tz rows (preview ?z w mapping policy tz (cs_db (is_contacts (jr_db r))) row counts) r1
      = Some (Done (fold (preview ?z w mapping policy tz (cs_db (is_contacts (jr_db r)))) (row # rows) counts), r')"
      "jr_db r' = ?s\<lparr>is_rows := reclassified ?z mapping tz w i (ir_rowNumber ` set rows) (is_rows ?s)\<rparr>"
    unfolding r1(1) by auto
  then show ?case using r1(2) by (simp add: reclassified_twice)
qed

lemma dry_run_pages:
  "computeDryRunSummary env w i mapping policy tz cursor counts r =
     run_then (run_tx env (reading (getStagedRowsPage w i cursor DRY_RUN_PAGE_SIZE)) r) (\<lambda>page r1.
       if page = [] then Some (Done counts, r1)
       else run_then (dry_run_rows env w i mapping policy tz page counts r1) (\<lambda>counts'.
              computeDryRunSummary env w i mapping policy tz (ir_rowNumber (last page)) counts'))"
  by (subst computeDryRunSummary.simps)
     (auto simp: run_tx_def run_then_def split: prod.split job_result.split option.split Option.bind_split)

definition staged_from :: "uuid \<Rightarrow> uuid \<Rightarrow> nat \<Rightarrow> import_store \<Rightarrow> staged_row list" where
  "staged_from w i cursor s = sort_key ir_rowNumber (filter (\<lambda>r. row_of w i r \<and> cursor < ir_rowNumber r) (is_rows s))"

lemma number_unique:
  assumes "staged_wf w i t" "r \<in> set t" "row_of w i r" "q \<in> set t" "row_of w i q" "ir_rowNumber q = ir_rowNumber r"
  shows "q = r"
proof -
  have "inj_on ir_rowNumber (set (filter (row_of w i) t))" using assms(1) by (simp add: staged_wf_def distinct_map)
  from inj_onD [OF this assms(6)] show ?thesis using assms by simp
qed

lemma dry_run_ends:
  assumes "quiet_env env" "\<forall>k. \<not> je_killed env k"
  shows "staged_wf w i (is_rows (jr_db r)) \<Longrightarrow>
    \<exists>r'. computeDryRunSummary env w i mapping policy tz cursor counts r
      = Some (Done (fold (preview (ie_zones env) w mapping policy tz (cs_db (is_contacts (jr_db r)))) (staged_from w i cursor (jr_db r)) counts), r')
    \<and> jr_db r' = (jr_db r)\<lparr>is_rows := reclassified (ie_zones env) mapping tz w i (ir_rowNumber ` set (staged_from w i cursor (jr_db r))) (is_rows (jr_db r))\<rparr>"
proof (induction "length (staged_from w i cursor (jr_db r))" arbitrary: cursor counts r rule: less_induct)
  case less
  let ?L = "staged_from w i cursor (jr_db r)" and ?z = "ie_zones env" and ?db = "cs_db (is_contacts (jr_db r))"
  let ?page = "take DRY_RUN_PAGE_SIZE ?L"
  have page: "getStagedRowsPage w i cursor DRY_RUN_PAGE_SIZE (jr_db r) = ?page"
    by (simp add: getStagedRowsPage_def rows_page_def staged_from_def)
  let ?r1 = "r\<lparr>jr_tx := jr_tx r + 1\<rparr>"
  have run: "computeDryRunSummary env w i mapping policy tz cursor counts r =
      (if ?page = [] then Some (Done counts, ?r1)
       else run_then (dry_run_rows env w i mapping policy tz ?page counts ?r1)
              (computeDryRunSummary env w i mapping policy tz (ir_rowNumber (last ?page))))"
    using assms by (subst dry_run_pages) (simp add: run_tx_def transact_quiet reading_def page)
  show ?case
  proof (cases "?page = []")
    case True
    then have "?L = []" by (simp add: DRY_RUN_PAGE_SIZE_def)
    then show ?thesis unfolding run by (simp add: reclassified_empty)
  next
    case False
    let ?c = "ir_rowNumber (last ?page)"
    have dist: "distinct (map ir_rowNumber (filter (row_of w i) (is_rows (jr_db r))))" using less.prems by (simp add: staged_wf_def)
    note rest = page_rest [OF dist staged_from_def False]
    have mem: "q \<in> set (is_rows (jr_db r)) \<and> row_of w i q" if "q \<in> set ?page" for q
    proof -
      have "q \<in> set ?L" using that by (rule in_set_takeD)
      then show ?thesis by (simp add: staged_from_def)
    qed
    have raw: "\<forall>row \<in> set ?page. \<forall>q \<in> set (is_rows (jr_db ?r1)). row_of w i q \<and> ir_rowNumber q = ir_rowNumber row \<longrightarrow> ir_raw q = ir_raw row"
      using number_unique [OF less.prems] mem by (metis job_run.select_convs(2) job_run.update_convs(1) job_run.surjective)
    obtain r2 where r2: "dry_run_rows env w i mapping policy tz ?page counts ?r1 = Some (Done (fold (preview ?z w mapping policy tz ?db) ?page counts), r2)"
      "jr_db r2 = (jr_db r)\<lparr>is_rows := reclassified ?z mapping tz w i (ir_rowNumber ` set ?page) (is_rows (jr_db r))\<rparr>"
      using dry_run_rows_end [OF assms raw, of mapping policy tz counts] by auto
    have ahead: "staged_from w i ?c (jr_db r2) = drop DRY_RUN_PAGE_SIZE ?L"
      unfolding staged_from_def [of w i ?c] using rest(1,2) by (simp add: r2(2)) (subst reclassified_ahead, auto)
    have shorter: "length (staged_from w i ?c (jr_db r2)) < length ?L"
      unfolding ahead using False by (cases ?L) (simp_all add: DRY_RUN_PAGE_SIZE_def)
    have wf: "staged_wf w i (is_rows (jr_db r2))" using less.prems by (simp add: r2(2) reclassified_wf)
    have parts: "?page @ drop DRY_RUN_PAGE_SIZE ?L = ?L" by simp
    have numbers: "ir_rowNumber ` set ?page \<union> ir_rowNumber ` set (drop DRY_RUN_PAGE_SIZE ?L) = ir_rowNumber ` set ?L"
      by (metis image_Un parts set_append)
    have folded: "fold (preview ?z w mapping policy tz ?db) (drop DRY_RUN_PAGE_SIZE ?L) (fold (preview ?z w mapping policy tz ?db) ?page counts)
        = fold (preview ?z w mapping policy tz ?db) ?L counts"
      by (metis comp_apply fold_append parts)
    show ?thesis
      using less.hyps [OF shorter wf, of "fold (preview ?z w mapping policy tz ?db) ?page counts"] False r2(1)
      unfolding run ahead by (auto simp: r2(2) reclassified_twice numbers folded)
  qed
qed

end
