(* ===== verification/Contact_Lifecycle.thy ===== *)
theory Contact_Lifecycle
  imports Contacts
begin

text \<open>
  The table of contacts over time. \<open>contact_write\<close> says what a commit may do to it; every operation of the
  repositories is a path of such commits, and along a path identifiers stay unique, an identity anchor stays
  where it is, and what was erased stays erased.
\<close>

section \<open>The commits\<close>

definition scrubbed :: "contact_row \<Rightarrow> bool" where
  "scrubbed c =
     (ct_email c = None \<and> ct_externalId c = None \<and> ct_firstName c = None \<and> ct_lastName c = None \<and> ct_phone c = None
      \<and> ct_city c = None \<and> ct_country c = None \<and> ct_timezone c = None \<and> ct_tags c = [] \<and> ct_properties c = [])"

definition contacts_wf :: "contact_row list \<Rightarrow> bool" where
  "contacts_wf t =
     (distinct (map ct_id t) \<and> (\<forall>c \<in> set t. \<forall>d \<in> set t. ct_id c \<noteq> ct_id d \<longrightarrow> \<not> clash c d)
      \<and> (\<forall>c \<in> set t. ct_anonymizedAt c \<noteq> None \<longrightarrow> scrubbed c))"

definition edits :: "contact_row \<Rightarrow> contact_row \<Rightarrow> bool" where
  "edits c c' =
     (ct_id c' = ct_id c \<and> ct_workspaceId c' = ct_workspaceId c \<and> ct_createdAt c' = ct_createdAt c
      \<and> ct_anonymizedAt c' = None \<and> (truthy (ct_externalId c) \<longrightarrow> ct_externalId c' = ct_externalId c))"

text \<open>The writes of the webhook worker and of the unsubscription: the status and the streak of bounces.\<close>

definition marks :: "(contact_row \<Rightarrow> contact_row) \<Rightarrow> bool" where
  "marks f =
     (\<forall>c. f c = c\<lparr>ct_subscriptionStatus := ct_subscriptionStatus (f c),
                  ct_consecutiveSoftBounces := ct_consecutiveSoftBounces (f c), ct_updatedAt := ct_updatedAt (f c)\<rparr>)"

definition erase :: "instant \<Rightarrow> contact_row \<Rightarrow> contact_row" where
  "erase now c = (if ct_anonymizedAt c = None then anonymized_row now c else c)"

inductive contact_write :: "contact_row list \<Rightarrow> contact_row list \<Rightarrow> bool" where
  insert: "ct_id row \<notin> ct_id ` set t \<Longrightarrow> \<forall>c \<in> set t. \<not> clash c row \<Longrightarrow> ct_anonymizedAt row = None \<Longrightarrow>
    contact_write t (t @ [row])"
| edit: "c \<in> set t \<Longrightarrow> ct_anonymizedAt c = None \<Longrightarrow> edits c c' \<Longrightarrow> \<forall>d \<in> set t. ct_id d \<noteq> ct_id c' \<longrightarrow> \<not> clash d c' \<Longrightarrow>
    contact_write t (update_where (contact_is (ct_workspaceId c') (ct_id c')) (\<lambda>_. c') t)"
| mark: "marks f \<Longrightarrow> contact_write t (update_where p f t)"
| erase: "contact_write t (update_where (contact_is w i) (erase now) t)"

section \<open>Paths\<close>

lemma marks_keeps:
  assumes "marks f"
  shows "ct_id (f c) = ct_id c" "ct_workspaceId (f c) = ct_workspaceId c" "ct_externalId (f c) = ct_externalId c"
    "ct_email (f c) = ct_email c" "ct_createdAt (f c) = ct_createdAt c" "ct_anonymizedAt (f c) = ct_anonymizedAt c"
    "scrubbed (f c) = scrubbed c" "clash (f c) d = clash c d" "clash d (f c) = clash d c"
proof -
  obtain s b u where f: "f c = c\<lparr>ct_subscriptionStatus := s, ct_consecutiveSoftBounces := b, ct_updatedAt := u\<rparr>"
    using assms unfolding marks_def by blast
  show "ct_id (f c) = ct_id c" "ct_workspaceId (f c) = ct_workspaceId c" "ct_externalId (f c) = ct_externalId c"
    "ct_email (f c) = ct_email c" "ct_createdAt (f c) = ct_createdAt c" "ct_anonymizedAt (f c) = ct_anonymizedAt c"
    "scrubbed (f c) = scrubbed c" "clash (f c) d = clash c d" "clash d (f c) = clash d c"
    by (simp_all add: f scrubbed_def clash_def)
qed

lemma erase_keeps:
  "ct_id (erase now c) = ct_id c" "ct_workspaceId (erase now c) = ct_workspaceId c" "ct_createdAt (erase now c) = ct_createdAt c"
  "ct_anonymizedAt (erase now c) \<noteq> None" "ct_anonymizedAt c \<noteq> None \<Longrightarrow> erase now c = c"
  by (auto simp: erase_def anonymized_row_def)

lemma erase_scrubbed: "(ct_anonymizedAt c \<noteq> None \<Longrightarrow> scrubbed c) \<Longrightarrow> scrubbed (erase now c)"
  by (cases "ct_anonymizedAt c") (simp_all add: erase_def anonymized_row_def scrubbed_def)

lemma scrubbed_no_clash: "scrubbed c \<Longrightarrow> \<not> clash c d" "scrubbed c \<Longrightarrow> \<not> clash d c"
  by (auto simp: scrubbed_def clash_def)

lemma clash_sym: "clash c d = clash d c"
  unfolding clash_def by metis

lemma contacts_wf_update:
  assumes wf: "contacts_wf t" and id: "\<And>c. c \<in> set t \<Longrightarrow> p c \<Longrightarrow> ct_id (f c) = ct_id c"
    and apart: "\<And>c d. c \<in> set t \<Longrightarrow> d \<in> set t \<Longrightarrow> p c \<Longrightarrow> ct_id d \<noteq> ct_id c \<Longrightarrow> \<not> clash (f c) d"
    and pair: "\<And>c d. c \<in> set t \<Longrightarrow> d \<in> set t \<Longrightarrow> p c \<Longrightarrow> p d \<Longrightarrow> ct_id d \<noteq> ct_id c \<Longrightarrow> \<not> clash (f c) (f d)"
    and gone: "\<And>c. c \<in> set t \<Longrightarrow> p c \<Longrightarrow> ct_anonymizedAt (f c) \<noteq> None \<Longrightarrow> scrubbed (f c)"
  shows "contacts_wf (update_where p f t)"
proof -
  have "map ct_id (update_where p f t) = map ct_id t" unfolding update_where_def using id by (simp add: comp_def)
  moreover have "\<not> clash c' d'" if "c' \<in> set (update_where p f t)" "d' \<in> set (update_where p f t)" "ct_id c' \<noteq> ct_id d'" for c' d'
  proof -
    note in_table = that(1,2) [unfolded set_update_where]
    obtain c d where c: "c \<in> set t" "c' = (if p c then f c else c)" and d: "d \<in> set t" "d' = (if p d then f d else d)"
      using in_table by blast
    have ids: "ct_id c' = ct_id c" "ct_id d' = ct_id d" using c d id by simp_all
    show ?thesis
      using c d ids that(3) wf apart [OF c(1) d(1)] apart [OF d(1) c(1)] pair [OF c(1) d(1)] clash_sym
      unfolding contacts_wf_def by (metis (full_types))
  qed
  moreover have "scrubbed c'" if "c' \<in> set (update_where p f t)" "ct_anonymizedAt c' \<noteq> None" for c'
    using that wf gone unfolding set_update_where contacts_wf_def by (metis (full_types))
  ultimately show ?thesis using wf by (simp add: contacts_wf_def)
qed

text \<open>The only contact with an id is the one that the statement names.\<close>

lemma unique_contact:
  "distinct (map ct_id t) \<Longrightarrow> c \<in> set t \<Longrightarrow> d \<in> set t \<Longrightarrow> ct_id d = ct_id c \<Longrightarrow> d = c"
  by (simp add: distinct_map inj_on_def)

lemma contact_write_wf: "contact_write t t' \<Longrightarrow> contacts_wf t \<Longrightarrow> contacts_wf t'"
proof (induction rule: contact_write.induct)
  case (insert row t)
  then show ?case by (auto simp: contacts_wf_def clash_sym)
next
  case (edit c t c')
  show ?case
    by (rule contacts_wf_update [OF edit.prems]) (use edit.hyps in \<open>auto simp: contact_is_def edits_def clash_sym\<close>)
next
  case (mark f t p)
  show ?case
    by (rule contacts_wf_update [OF mark.prems])
       (use mark.prems marks_keeps [OF mark.hyps] in \<open>auto simp: contacts_wf_def\<close>)
next
  case (erase t w i now)
  have gone: "scrubbed (erase now c)" if "c \<in> set t" for c
    by (rule erase_scrubbed) (use erase.prems that in \<open>simp add: contacts_wf_def\<close>)
  show ?case
    by (rule contacts_wf_update [OF erase.prems]) (use gone scrubbed_no_clash in \<open>auto simp: erase_keeps\<close>)
qed

text \<open>What the later states keep of a contact.\<close>

definition still :: "contact_row \<Rightarrow> contact_row \<Rightarrow> bool" where
  "still c c' =
     (ct_id c' = ct_id c \<and> ct_workspaceId c' = ct_workspaceId c \<and> ct_createdAt c' = ct_createdAt c
      \<and> (ct_anonymizedAt c \<noteq> None \<longrightarrow> ct_anonymizedAt c' = ct_anonymizedAt c)
      \<and> (truthy (ct_externalId c) \<longrightarrow> ct_externalId c' = ct_externalId c \<or> ct_anonymizedAt c' \<noteq> None))"

lemma still_refl [simp]: "still c c"
  by (simp add: still_def)

lemma still_trans: "still c d \<Longrightarrow> still d e \<Longrightarrow> still c e"
  by (auto simp: still_def)

lemma contact_write_still:
  assumes "contact_write t t'" "contacts_wf t" "c \<in> set t"
  shows "\<exists>c' \<in> set t'. still c c'"
  using assms
proof (induction rule: contact_write.induct)
  case (insert row t)
  then show ?case by (auto intro: still_refl)
next
  case (edit d t c')
  show ?case
  proof (cases "contact_is (ct_workspaceId c') (ct_id c') c")
    case True
    then have "c = d" using unique_contact [of t d c] edit by (simp add: contacts_wf_def contact_is_def edits_def)
    with edit True show ?thesis by (auto simp: update_where_bex still_def edits_def intro!: bexI [of _ d])
  next
    case False
    with edit.prems(2) show ?thesis by (auto simp: update_where_bex intro!: bexI [of _ c])
  qed
next
  case (mark f t p)
  then show ?case
    using marks_keeps [OF mark.hyps, of c] by (auto simp: update_where_bex still_def intro!: bexI [of _ c])
next
  case (erase t w i now)
  have "still c (erase now c)" using erase_keeps [where now = now and c = c] by (auto simp: still_def)
  with erase.prems(2) show ?case by (auto simp: update_where_bex intro!: bexI [of _ c])
qed

lemma contact_path_wf: "contact_write\<^sup>*\<^sup>* t t' \<Longrightarrow> contacts_wf t \<Longrightarrow> contacts_wf t'"
  by (induction rule: rtranclp_induct) (auto intro: contact_write_wf)

lemma contact_path_still:
  assumes "contact_write\<^sup>*\<^sup>* t t'" "contacts_wf t" "c \<in> set t"
  shows "\<exists>c' \<in> set t'. still c c'"
  using assms
proof (induction rule: rtranclp_induct)
  case (step t' t'')
  then obtain c' where "c' \<in> set t'" "still c c'" by auto
  moreover have "contacts_wf t'" using contact_path_wf [OF step.hyps(1)] step.prems by simp
  ultimately show ?case using contact_write_still [OF step.hyps(2)] still_trans by blast
qed (auto intro: still_refl)

section \<open>The operations are paths\<close>

text \<open>What others commit between the reads and the write of a transaction: they leave a row that it has locked
  (\<open>FOR UPDATE\<close>) alone and do not use its new id.\<close>

definition yields :: "(crm \<Rightarrow> contact_row option) \<Rightarrow> uuid \<Rightarrow> (crm \<Rightarrow> crm) \<Rightarrow> bool" where
  "yields locked newId race =
     (\<forall>db. contact_write\<^sup>*\<^sup>* (t_contacts db) (t_contacts (race db))
        \<and> (\<forall>c. locked db = Some c \<longrightarrow> c \<in> set (t_contacts (race db)))
        \<and> (newId \<notin> ct_id ` set (t_contacts db) \<longrightarrow> newId \<notin> ct_id ` set (t_contacts (race db))))"

lemma yieldsD:
  assumes "yields locked newId race"
  shows "contact_write\<^sup>*\<^sup>* (t_contacts db) (t_contacts (race db))"
    and "locked db = Some c \<Longrightarrow> c \<in> set (t_contacts (race db))"
    and "newId \<notin> ct_id ` set (t_contacts db) \<Longrightarrow> newId \<notin> ct_id ` set (t_contacts (race db))"
  using assms by (auto simp: yields_def)

lemma on_db_db [simp]: "cs_db (on_db f s) = f (cs_db s)"
  by (simp add: on_db_def)

lemma registry_contacts [simp]: "cs_db (registerObservedProperties now w ps s) = cs_db s"
  by (simp add: registerObservedProperties_def split: option.split)

lemma history_contacts [simp]: "t_contacts (history w c st src now db) = t_contacts db"
  by (simp add: history_def recordSubscriptionStatusChange_def)

lemma loaded_key_db: "loadWorkspaceSuppressionKey cr now w k = Inr (k', x) \<Longrightarrow> k_db k' = k_db k"
  by (auto simp: loadWorkspaceSuppressionKey_def split: prod.splits option.splits)

lemma ensured_key_contacts: "ensureWorkspaceSuppressionKey cr now w k = Inr (k', x) \<Longrightarrow> t_contacts (k_db k') = t_contacts (k_db k)"
  by (auto simp: ensureWorkspaceSuppressionKey_def store_key_def dest!: loaded_key_db split: sum.splits prod.splits option.splits if_splits)

lemma initial_status_db: "initial_status cr now w input s = Inr (s', st) \<Longrightarrow> cs_db s' = cs_db s"
  by (auto simp: initial_status_def Let_def and_then_def with_keys_def isEmailSuppressed_def dest!: loaded_key_db
      split: if_splits sum.splits prod.splits option.splits)

lemma suppress_erased_contacts:
  "suppress_erased cr now w email s = Inr (s', u) \<Longrightarrow> cs_contacts s' = cs_contacts s"
  by (auto simp: suppress_erased_def and_then_def with_keys_def suppress_hash_def dest!: ensured_key_contacts
      split: if_splits sum.splits prod.splits)

lemma insert_write:
  assumes "insert_contact row s = Some s'" "ct_id row \<notin> ct_id ` set (cs_contacts s)" "ct_anonymizedAt row = None"
  shows "contact_write (cs_contacts s) (cs_contacts s')"
  using assms by (auto simp: insert_contact_def split: if_splits intro: contact_write.insert)

lemma update_write:
  assumes "update_contact row s = Some s'" "c \<in> set (cs_contacts s)" "ct_anonymizedAt c = None" "edits c row"
  shows "contact_write (cs_contacts s) (cs_contacts s')"
proof -
  have "\<forall>d \<in> set (cs_contacts s). ct_id d \<noteq> ct_id row \<longrightarrow> \<not> clash d row"
    and s': "s' = on_db (write_contact (ct_workspaceId row) (ct_id row) (\<lambda>_. row)) s"
    using assms(1) by (auto simp: update_contact_def split: if_splits)
  from contact_write.edit [OF assms(2,3,4) this(1)] show ?thesis by (simp add: s' write_contact_def)
qed

lemma by_externalId_found: "by_externalId w x db = Some c \<Longrightarrow> c \<in> set (t_contacts db) \<and> live w c \<and> ct_externalId c = x \<and> truthy x"
  by (auto simp: by_externalId_def find_Some_iff split: if_splits)

lemma by_email_found: "by_email w x db = Some c \<Longrightarrow> c \<in> set (t_contacts db) \<and> live w c \<and> ct_email c = x \<and> truthy x"
  by (auto simp: by_email_def find_Some_iff split: if_splits)

lemma identify_found: "identify w x y db = Some c \<Longrightarrow> c \<in> set (t_contacts db) \<and> live w c"
  using by_externalId_found by_email_found by (auto simp: identify_def split: option.splits)

lemma edits_merged:
  "ct_anonymizedAt c = None \<Longrightarrow> (truthy (ct_externalId c) \<Longrightarrow> x = ct_externalId c) \<Longrightarrow> edits c (merged_row now input ps x e st c)"
  by (simp add: edits_def merged_row_def)

lemma upsert_existing_Inr:
  assumes "upsert_existing race now w input attach c s = Inr (s', r)"
  shows "\<exists>s2. update_contact (merged_row now input (stripReservedPropertyKeys (ci_properties input))
       (if attach then ci_externalId input else ct_externalId c) (fst (next_email w input c (cs_db s)))
       (next_status (ct_subscriptionStatus c) (ci_subscriptionStatus input)) c) (on_db race s) = Some s2
    \<and> cs_contacts s' = cs_contacts s2 \<and> ur_contactId r = ct_id c"
  using assms by (auto simp: upsert_existing_def Let_def refuse_def split: option.splits prod.splits)

lemma upsert_existing_path:
  assumes run: "upsert_existing race now w input attach c s = Inr (s', r)" and c: "live w c"
    and others: "yields (\<lambda>db. identify w (ci_externalId input) (ci_email input) db) newId race"
    and found: "identify w (ci_externalId input) (ci_email input) (cs_db s) = Some c"
    and attach: "attach \<Longrightarrow> \<not> truthy (ct_externalId c)"
  shows "contact_write\<^sup>*\<^sup>* (cs_contacts s) (cs_contacts s')"
proof -
  let ?row = "merged_row now input (stripReservedPropertyKeys (ci_properties input))
    (if attach then ci_externalId input else ct_externalId c) (fst (next_email w input c (cs_db s)))
    (next_status (ct_subscriptionStatus c) (ci_subscriptionStatus input)) c"
  have row: "edits c ?row" by (rule edits_merged) (use c attach in \<open>auto simp: live_def\<close>)
  obtain s2 where upd: "update_contact ?row (on_db race s) = Some s2" and s': "cs_contacts s' = cs_contacts s2"
    using upsert_existing_Inr [OF run] by blast
  have "contact_write (t_contacts (race (cs_db s))) (cs_contacts s2)"
    using update_write [OF upd _ _ row] yieldsD(2) [OF others found] c by (simp add: live_def)
  with yieldsD(1) [OF others, of "cs_db s"] s' show ?thesis by simp
qed

lemma upsert_attempt_path:
  assumes others: "yields (\<lambda>db. identify w (ci_externalId input) (ci_email input) db) newId race"
    and fresh: "newId \<notin> ct_id ` set (cs_contacts s)"
  shows "upsert_attempt cr race newId now w input s = Ended (Inr (s', r)) \<Longrightarrow> contact_write\<^sup>*\<^sup>* (cs_contacts s) (cs_contacts s')"
    and "upsert_attempt cr race newId now w input s = Raced s' \<Longrightarrow>
      contact_write\<^sup>*\<^sup>* (cs_contacts s) (cs_contacts s') \<and> newId \<notin> ct_id ` set (cs_contacts s')"
proof -
  have race: "contact_write\<^sup>*\<^sup>* (cs_contacts s) (t_contacts (race (cs_db s)))" "newId \<notin> ct_id ` set (t_contacts (race (cs_db s)))"
    using yieldsD(1,3) [OF others] fresh by auto
  show "contact_write\<^sup>*\<^sup>* (cs_contacts s) (cs_contacts s')"
    if run: "upsert_attempt cr race newId now w input s = Ended (Inr (s', r))"
  proof (cases "identify w (ci_externalId input) (ci_email input) (cs_db s)")
    case None
    then have "upsert_new cr race newId now w input s = Ended (Inr (s', r))"
      using run by (simp add: upsert_attempt_def identify_def split: option.splits)
    then obtain s1 st s3 where st: "initial_status cr now w input s = Inr (s1, st)"
      and ins: "insert_contact (new_row newId now w input (stripReservedPropertyKeys (ci_properties input)) st) (on_db race s1) = Some s3"
      and s': "cs_contacts s' = cs_contacts s3"
      by (auto simp: upsert_new_def Let_def split: sum.splits prod.splits option.splits)
    have "contact_write (t_contacts (race (cs_db s))) (cs_contacts s3)"
      using insert_write [OF ins] race(2) initial_status_db [OF st] by (simp add: new_row_def)
    with race(1) s' show ?thesis by simp
  next
    case (Some c)
    then have "live w c" using identify_found by blast
    moreover obtain attach where "upsert_existing race now w input attach c s = Inr (s', r)" "attach \<Longrightarrow> \<not> truthy (ct_externalId c)"
      using run Some by (auto simp: upsert_attempt_def identify_def split: option.splits)
    ultimately show ?thesis using upsert_existing_path [OF _ _ others Some] by blast
  qed
  show "contact_write\<^sup>*\<^sup>* (cs_contacts s) (cs_contacts s') \<and> newId \<notin> ct_id ` set (cs_contacts s')"
    if run: "upsert_attempt cr race newId now w input s = Raced s'"
  proof -
    obtain s1 st where "initial_status cr now w input s = Inr (s1, st)" "s' = on_db race s1"
      using run by (auto simp: upsert_attempt_def upsert_new_def Let_def split: option.splits sum.splits prod.splits)
    with race initial_status_db show ?thesis by fastforce
  qed
qed

lemma upsert_path:
  assumes others: "\<And>b. yields (\<lambda>db. identify w (ci_externalId input) (ci_email input) db) newId (race b)"
    and fresh: "newId \<notin> ct_id ` set (cs_contacts s)"
    and run: "upsertContactByIdentity cr race newId now w input s = Inr (s', r)"
  shows "contact_write\<^sup>*\<^sup>* (cs_contacts s) (cs_contacts s')"
proof (cases "upsert_attempt cr (race False) newId now w input s")
  case (Ended x)
  with run upsert_attempt_path(1) [OF others fresh] show ?thesis by (simp add: upsertContactByIdentity_def)
next
  case (Raced s1)
  note first = upsert_attempt_path(2) [OF others fresh Raced]
  then have "contact_write\<^sup>*\<^sup>* (cs_contacts s1) (cs_contacts s')"
    using run Raced upsert_attempt_path(1) [OF others, where s = s1]
    by (auto simp: upsertContactByIdentity_def refuse_def split: attempt.splits)
  with first show ?thesis by auto
qed

lemma create_path:
  assumes others: "yields (\<lambda>_. None) newId race" and fresh: "newId \<notin> ct_id ` set (cs_contacts s)"
    and run: "createContact z cr race newId now w input s = Inr (s', r)"
  shows "contact_write\<^sup>*\<^sup>* (cs_contacts s) (cs_contacts s')"
proof -
  obtain s1 st s3 where st: "initial_status cr now w input s = Inr (s1, st)"
    and ins: "insert_contact (new_row newId now w input (nullish (ci_properties input) []) st) (on_db race s1) = Some s3"
    and s': "cs_contacts s' = cs_contacts s3"
    using run by (auto simp: createContact_def and_then_def refuse_def Let_def split: if_splits sum.splits prod.splits option.splits)
  have "contact_write (t_contacts (race (cs_db s))) (cs_contacts s3)"
    using insert_write [OF ins] yieldsD(3) [OF others fresh] initial_status_db [OF st] by (simp add: new_row_def)
  with yieldsD(1) [OF others, of "cs_db s"] s' show ?thesis by simp
qed

lemma update_path:
  assumes others: "yields (\<lambda>db. find (contact_is w i) (t_contacts db)) newId race"
    and run: "updateContact z race now w i patch s = Inr (s', r)"
  shows "contact_write\<^sup>*\<^sup>* (cs_contacts s) (cs_contacts s')"
proof (cases "find (contact_is w i) (cs_contacts s)")
  case None
  with run show ?thesis by (simp add: updateContact_def refuse_def split: if_splits)
next
  case (Some c)
  then obtain st s2 where live: "ct_anonymizedAt c = None" and upd: "update_contact (patched_row now patch st c) (on_db race s) = Some s2"
    and s': "cs_contacts s' = cs_contacts s2"
    using run by (auto simp: updateContact_def refuse_def Let_def split: if_splits sum.splits option.splits)
  have "edits c (patched_row now patch st c)" using live by (simp add: edits_def patched_row_def)
  then have "contact_write (t_contacts (race (cs_db s))) (cs_contacts s2)"
    using update_write [OF upd _ live] yieldsD(2) [OF others Some] by simp
  with yieldsD(1) [OF others, of "cs_db s"] s' show ?thesis by simp
qed

lemma delete_path:
  assumes "deleteContact cr newId now w i s = Inr (s', r)"
  shows "contact_write\<^sup>*\<^sup>* (cs_contacts s) (cs_contacts s')"
proof -
  let ?erased = "on_db (write_contact w i (\<lambda>c. if ct_anonymizedAt c = None then anonymized_row now c else c)) s"
  have "contact_write (cs_contacts s) (cs_contacts ?erased)"
    using contact_write.erase [of "cs_contacts s" w i now] by (simp add: write_contact_def erase_def [abs_def])
  moreover have "cs_contacts s' = cs_contacts s \<or> cs_contacts s' = cs_contacts ?erased"
    using assms by (auto simp: deleteContact_def and_then_def dest!: suppress_erased_contacts
        split: option.splits if_splits sum.splits prod.splits)
  ultimately show ?thesis by auto
qed

section \<open>Properties\<close>

text \<open>C28: Every operation on contacts, with any commits of others between its reads and its write, is a path of the table's commits; one that throws commits nothing.\<close>

theorem contact_operations_are_paths:
  assumes "newId \<notin> ct_id ` set (cs_contacts s)"
    and "\<And>b. yields (\<lambda>db. identify w (ci_externalId input) (ci_email input) db) newId (race b)"
    and "yields (\<lambda>db. find (contact_is w i) (t_contacts db)) newId race'"
    and "yields (\<lambda>_. None) newId race''"
  shows "(\<forall>s' r. upsertContactByIdentity cr race newId now w input s = Inr (s', r) \<longrightarrow> contact_write\<^sup>*\<^sup>* (cs_contacts s) (cs_contacts s'))
    \<and> (\<forall>s' r. createContact z cr race'' newId now w input s = Inr (s', r) \<longrightarrow> contact_write\<^sup>*\<^sup>* (cs_contacts s) (cs_contacts s'))
    \<and> (\<forall>s' r. updateContact z race' now w i patch s = Inr (s', r) \<longrightarrow> contact_write\<^sup>*\<^sup>* (cs_contacts s) (cs_contacts s'))
    \<and> (\<forall>s' r. deleteContact cr newId now w i s = Inr (s', r) \<longrightarrow> contact_write\<^sup>*\<^sup>* (cs_contacts s) (cs_contacts s'))"
  by (intro conjI allI impI)
     (erule upsert_path [OF assms(2,1)] create_path [OF assms(4,1)] update_path [OF assms(3)] delete_path)+

text \<open>C29: Along any sequence of commits of any operations the identifiers of the contacts stay unique, a contact keeps its row, its workspace and, until it is erased, its external id, and an erased one never gets personal data again.\<close>

theorem contact_lifecycle:
  assumes "contact_write\<^sup>*\<^sup>* t t'" "contacts_wf t"
  shows "contacts_wf t' \<and> (\<forall>c \<in> set t. \<exists>c' \<in> set t'. still c c' \<and> (ct_anonymizedAt c \<noteq> None \<longrightarrow> scrubbed c'))"
proof
  show wf: "contacts_wf t'" by (rule contact_path_wf [OF assms])
  show "\<forall>c \<in> set t. \<exists>c' \<in> set t'. still c c' \<and> (ct_anonymizedAt c \<noteq> None \<longrightarrow> scrubbed c')"
  proof
    fix c assume "c \<in> set t"
    then obtain c' where "c' \<in> set t'" "still c c'" using contact_path_still [OF assms] by blast
    with wf show "\<exists>c' \<in> set t'. still c c' \<and> (ct_anonymizedAt c \<noteq> None \<longrightarrow> scrubbed c')"
      by (auto simp: contacts_wf_def still_def)
  qed
qed

section \<open>Identification\<close>

lemma clash_unique: "contacts_wf t \<Longrightarrow> c \<in> set t \<Longrightarrow> d \<in> set t \<Longrightarrow> clash c d \<Longrightarrow> d = c"
  unfolding contacts_wf_def by (metis unique_contact)

lemma find_by_externalId:
  assumes "contacts_wf (t_contacts db)" "c \<in> set (t_contacts db)" "live w c" "ct_externalId c = x" "truthy x"
  shows "by_externalId w x db = Some c"
proof -
  have "find (\<lambda>c. live w c \<and> ct_externalId c = x) (t_contacts db) = Some c"
  proof (rule find_unique)
    fix d assume "d \<in> set (t_contacts db)" "live w d \<and> ct_externalId d = x"
    moreover from this have "clash c d" using assms(3,4,5) by (auto simp: clash_def live_def)
    ultimately show "d = c" using assms(1,2) clash_unique by blast
  qed (use assms in simp_all)
  with assms(5) show ?thesis by (simp add: by_externalId_def)
qed

lemma find_by_email:
  assumes "contacts_wf (t_contacts db)" "c \<in> set (t_contacts db)" "live w c" "ct_email c = x" "truthy x"
  shows "by_email w x db = Some c"
proof -
  have "find (\<lambda>c. live w c \<and> ct_email c = x) (t_contacts db) = Some c"
  proof (rule find_unique)
    fix d assume "d \<in> set (t_contacts db)" "live w d \<and> ct_email d = x"
    moreover from this have "clash c d" using assms(3,4,5) by (auto simp: clash_def live_def)
    ultimately show "d = c" using assms(1,2) clash_unique by blast
  qed (use assms in simp_all)
  with assms(5) show ?thesis by (simp add: by_email_def)
qed

lemma no_externalId: "by_externalId w x db = None \<longleftrightarrow> (truthy x \<longrightarrow> (\<forall>c \<in> set (t_contacts db). live w c \<longrightarrow> ct_externalId c \<noteq> x))"
  by (auto simp: by_externalId_def find_None_iff)

lemma replaced_row:
  assumes "distinct (map ct_id t)" "c \<in> set t" "ct_id c' = ct_id c" "ct_workspaceId c' = ct_workspaceId c"
  shows "set (update_where (contact_is (ct_workspaceId c') (ct_id c')) (\<lambda>_. c') t) = insert c' (set t - {c})"
proof -
  have "contact_is (ct_workspaceId c') (ct_id c') r \<longleftrightarrow> r = c" if "r \<in> set t" for r
    using assms unique_contact [OF assms(1,2) that] by (auto simp: contact_is_def)
  then have "set (update_where (contact_is (ct_workspaceId c') (ct_id c')) (\<lambda>_. c') t) = (\<lambda>r. if r = c then c' else r) ` set t"
    by (simp add: update_where_def)
  also have "\<dots> = insert c' (set t - {c})" using assms(2) by (auto intro: image_eqI [where x = c])
  finally show ?thesis .
qed

lemma upsert_existing_found:
  assumes wf: "contacts_wf (cs_contacts s)" and run: "upsert_existing (\<lambda>db. db) now w input attach c s = Inr (s', r)"
    and c: "c \<in> set (cs_contacts s)" "live w c" and attach: "attach \<Longrightarrow> \<not> truthy (ct_externalId c) \<and> truthy (ci_externalId input)"
    and how: "truthy (ci_externalId input) \<and> ct_externalId c = ci_externalId input
      \<or> by_externalId w (ci_externalId input) (cs_db s) = None \<and> truthy (ci_email input) \<and> ct_email c = ci_email input
        \<and> (attach \<or> \<not> truthy (ci_externalId input) \<or> truthy (ct_externalId c))"
  shows "findContactIdByIdentity w input (cs_db s') = Some (ur_contactId r)"
proof -
  let ?e = "fst (next_email w input c (cs_db s))" and ?x = "if attach then ci_externalId input else ct_externalId c"
  let ?row = "merged_row now input (stripReservedPropertyKeys (ci_properties input)) ?x ?e
    (next_status (ct_subscriptionStatus c) (ci_subscriptionStatus input)) c"
  have row: "edits c ?row" by (rule edits_merged) (use c attach in \<open>auto simp: live_def\<close>)
  obtain s2 where upd: "update_contact ?row (on_db (\<lambda>db. db) s) = Some s2" and s': "cs_contacts s' = cs_contacts s2"
    and r: "ur_contactId r = ct_id c"
    using upsert_existing_Inr [OF run] by blast
  have live: "live w ?row" using c(2) by (simp add: live_def merged_row_def)
  have "contact_write (cs_contacts s) (cs_contacts s')"
    using update_write [OF upd _ _ row] c s' by (simp add: live_def)
  then have wf': "contacts_wf (cs_contacts s')" using wf by (rule contact_write_wf)
  have "cs_contacts s' = update_where (contact_is (ct_workspaceId ?row) (ct_id ?row)) (\<lambda>_. ?row) (cs_contacts s)"
    using upd s' by (auto simp: update_contact_def write_contact_def split: if_splits)
  then have rows: "set (cs_contacts s') = insert ?row (set (cs_contacts s) - {c})"
    using replaced_row [of "cs_contacts s" c ?row] wf c(1) row by (simp add: contacts_wf_def edits_def)
  have id: "ct_id ?row = ct_id c" and ext: "ct_externalId ?row = ?x" and email: "ct_email ?row = ?e"
    by (simp_all add: merged_row_def)
  show ?thesis
  proof (cases "truthy (ci_externalId input) \<and> ?x = ci_externalId input")
    case True
    then have "by_externalId w (ci_externalId input) (cs_db s') = Some ?row"
      using find_by_externalId [OF wf' _ live] rows ext by auto
    then show ?thesis using id r by (simp add: findContactIdByIdentity_def identify_def)
  next
    case False
    then have "\<not> attach" using attach by auto
    with False how have none: "by_externalId w (ci_externalId input) (cs_db s) = None"
      and same: "truthy (ci_email input)" "ct_email c = ci_email input" by auto
    have "by_externalId w (ci_externalId input) (cs_db s') = None"
      using none rows False ext by (auto simp: no_externalId)
    moreover have "?e = ci_email input" using same by (simp add: next_email_def)
    then have "by_email w (ci_email input) (cs_db s') = Some ?row"
      using find_by_email [OF wf' _ live] rows email same(1) by auto
    ultimately show ?thesis using id r by (simp add: findContactIdByIdentity_def identify_def)
  qed
qed

lemma upsert_new_found:
  assumes s: "contacts_wf (cs_contacts s)" "newId \<notin> ct_id ` set (cs_contacts s)"
    and anchor: "truthy (ci_externalId input) \<or> truthy (ci_email input)"
    and run: "upsert_new cr (\<lambda>db. db) newId now w input s = Ended (Inr (s', r))"
  shows "findContactIdByIdentity w input (cs_db s') = Some (ur_contactId r)"
proof -
  let ?row = "new_row newId now w input (stripReservedPropertyKeys (ci_properties input))"
  obtain s1 st s3 where st: "initial_status cr now w input s = Inr (s1, st)"
    and ins: "insert_contact (?row st) (on_db (\<lambda>db. db) s1) = Some s3"
    and s': "cs_contacts s' = cs_contacts s3" and r: "ur_contactId r = newId"
    using run by (auto simp: upsert_new_def Let_def split: sum.splits prod.splits option.splits)
  have "contact_write (cs_contacts s) (cs_contacts s3)"
    using insert_write [OF ins] s(2) initial_status_db [OF st] by (simp add: new_row_def)
  then have wf': "contacts_wf (cs_contacts s')" using s(1) s' contact_write_wf by simp
  have rows: "cs_contacts s' = cs_contacts s @ [?row st]"
    using ins s' initial_status_db [OF st] by (auto simp: insert_contact_def split: if_splits)
  have row: "live w (?row st)" "ct_id (?row st) = newId" "ct_externalId (?row st) = ci_externalId input" "ct_email (?row st) = ci_email input"
    by (simp_all add: live_def new_row_def)
  show ?thesis
  proof (cases "truthy (ci_externalId input)")
    case True
    then have "by_externalId w (ci_externalId input) (cs_db s') = Some (?row st)"
      using find_by_externalId [OF wf' _ row(1)] rows row by simp
    then show ?thesis using row r by (simp add: findContactIdByIdentity_def identify_def)
  next
    case False
    then have "by_email w (ci_email input) (cs_db s') = Some (?row st)"
      using find_by_email [OF wf' _ row(1)] rows row anchor by simp
    then show ?thesis using row r False by (simp add: findContactIdByIdentity_def identify_def by_externalId_def)
  qed
qed

lemma attempt_found:
  assumes s: "contacts_wf (cs_contacts s)" "newId \<notin> ct_id ` set (cs_contacts s)"
    and anchor: "truthy (ci_externalId input) \<or> truthy (ci_email input)"
    and run: "upsert_attempt cr (\<lambda>db. db) newId now w input s = Ended (Inr (s', r))"
  shows "findContactIdByIdentity w input (cs_db s') = Some (ur_contactId r)"
proof (cases "by_externalId w (ci_externalId input) (cs_db s)")
  case (Some c)
  then have c: "c \<in> set (cs_contacts s)" "live w c" "ct_externalId c = ci_externalId input" "truthy (ci_externalId input)"
    by (auto dest: by_externalId_found)
  have "upsert_existing (\<lambda>db. db) now w input False c s = Inr (s', r)" using run Some by (simp add: upsert_attempt_def)
  then show ?thesis by (rule upsert_existing_found [OF s(1) _ c(1,2)]) (use c in simp_all)
next
  case no_anchor: None
  show ?thesis
  proof (cases "by_email w (ci_email input) (cs_db s)")
    case (Some c)
    then have c: "c \<in> set (cs_contacts s)" "live w c" "ct_email c = ci_email input" "truthy (ci_email input)"
      by (auto dest: by_email_found)
    have "upsert_existing (\<lambda>db. db) now w input (\<not> truthy (ct_externalId c) \<and> truthy (ci_externalId input)) c s = Inr (s', r)"
      using run Some no_anchor by (simp add: upsert_attempt_def)
    then show ?thesis by (rule upsert_existing_found [OF s(1) _ c(1,2)]) (use c no_anchor in simp_all)
  next
    case None
    then show ?thesis using upsert_new_found [OF s anchor] run no_anchor by (simp add: upsert_attempt_def)
  qed
qed

text \<open>A contact that was upserted is the one that its identifiers find from then on.\<close>

theorem upsert_is_found_again:
  assumes "contacts_wf (cs_contacts s)" "newId \<notin> ct_id ` set (cs_contacts s)"
    and "truthy (ci_externalId input) \<or> truthy (ci_email input)"
    and "upsertContactByIdentity cr (\<lambda>_ db. db) newId now w input s = Inr (s', r)"
  shows "findContactIdByIdentity w input (cs_db s') = Some (ur_contactId r)"
proof (cases "upsert_attempt cr (\<lambda>db. db) newId now w input s")
  case (Ended x)
  with assms(4) attempt_found [OF assms(1,2,3)] show ?thesis by (simp add: upsertContactByIdentity_def)
next
  case (Raced s1)
  then obtain s0 st where "initial_status cr now w input s = Inr (s0, st)" "s1 = on_db (\<lambda>db. db) s0"
    by (auto simp: upsert_attempt_def upsert_new_def Let_def split: option.splits sum.splits prod.splits)
  then have "cs_contacts s1 = cs_contacts s" using initial_status_db by fastforce
  with assms(1-4) Raced attempt_found [of s1] show ?thesis
    by (auto simp: upsertContactByIdentity_def refuse_def split: attempt.splits)
qed

end
