(* ===== verification/Contact_Consent.thy ===== *)
theory Contact_Consent
  imports Contact_Lifecycle Send_Claims
begin

text \<open>
  Consent and the suppression list: what a deletion protects, and the two ways around the list that the
  editing of a contact leaves open.
\<close>

section \<open>The list and its keys\<close>

text \<open>A cached key is the stored one (\<open>rolled_back_key_stays_in_use\<close> is how it can differ).\<close>

definition coherent :: "crypto \<Rightarrow> keyed \<Rightarrow> bool" where
  "coherent cr k =
     (\<forall>w e. k_cache k w = Some e \<longrightarrow> (\<exists>row. t_suppressionKeys (k_db k) w = Some row \<and> cr_decrypt cr w row = Some (ce_key e)))"

definition listed :: "crypto \<Rightarrow> uuid \<Rightarrow> string \<Rightarrow> crm \<Rightarrow> bool" where
  "listed cr w email db =
     (\<exists>row key. t_suppressionKeys db w = Some row \<and> cr_decrypt cr w row = Some key
        \<and> (\<exists>r \<in> set (t_suppressions db). sup_workspaceId r = w
             \<and> sup_emailHash r = hashSuppressionEmail cr (normalizeSuppressionEmail email) key))"

lemma cacheGet_coherent:
  assumes "coherent cr k" "cacheGet now w (k_cache k) = (c, x)"
  shows "coherent cr (k\<lparr>k_cache := c\<rparr>)"
    and "x = Some key \<Longrightarrow> \<exists>row. t_suppressionKeys (k_db k) w = Some row \<and> cr_decrypt cr w row = Some key"
  using assms by (auto simp: coherent_def cacheGet_def split: option.splits if_splits)

lemma load_coherent:
  assumes "coherent cr k" "loadWorkspaceSuppressionKey cr now w k = Inr (k', x)"
  shows "coherent cr k'" and "k_db k' = k_db k"
    and "x = Some key \<Longrightarrow> \<exists>row. t_suppressionKeys (k_db k) w = Some row \<and> cr_decrypt cr w row = Some key"
    and "x = None \<Longrightarrow> t_suppressionKeys (k_db k) w = None"
proof -
  obtain c y where get: "cacheGet now w (k_cache k) = (c, y)" by fastforce
  note coh = cacheGet_coherent [OF assms(1) get]
  show "k_db k' = k_db k" by (rule loaded_key_db [OF assms(2)])
  show "coherent cr k'"
    using assms(2) coh(1) get
    by (auto simp: loadWorkspaceSuppressionKey_def readWrappedKeyRow_def coherent_def cacheSet_def split: option.splits if_splits)
  show "x = Some key \<Longrightarrow> \<exists>row. t_suppressionKeys (k_db k) w = Some row \<and> cr_decrypt cr w row = Some key"
    using assms(2) coh(2) [of key] get
    by (auto simp: loadWorkspaceSuppressionKey_def readWrappedKeyRow_def split: option.splits)
  show "x = None \<Longrightarrow> t_suppressionKeys (k_db k) w = None"
    using assms(2) get by (auto simp: loadWorkspaceSuppressionKey_def readWrappedKeyRow_def split: option.splits)
qed

lemma coherent_store: "coherent cr k \<Longrightarrow> coherent cr (k\<lparr>k_db := store_key w row (k_db k)\<rparr>)"
  by (fastforce simp: coherent_def store_key_def)

lemma ensure_coherent:
  assumes coh: "coherent cr k" and run: "ensureWorkspaceSuppressionKey cr now w k = Inr (k', key)"
  shows "coherent cr k' \<and> (\<exists>row. t_suppressionKeys (k_db k') w = Some row \<and> cr_decrypt cr w row = Some key)"
proof -
  obtain k1 x where first: "loadWorkspaceSuppressionKey cr now w k = Inr (k1, x)"
    using run by (cases "loadWorkspaceSuppressionKey cr now w k") (auto simp: ensureWorkspaceSuppressionKey_def)
  note l1 = load_coherent [OF coh first]
  show ?thesis
  proof (cases x)
    case (Some y)
    with run first l1 show ?thesis by (auto simp: ensureWorkspaceSuppressionKey_def)
  next
    case None
    then obtain sealed where second: "loadWorkspaceSuppressionKey cr now w (k1\<lparr>k_db := store_key w sealed (k_db k1)\<rparr>) = Inr (k', Some key)"
      using run first by (auto simp: ensureWorkspaceSuppressionKey_def split: option.splits sum.splits prod.splits)
    from load_coherent [OF coherent_store [OF l1(1)] second] show ?thesis by auto
  qed
qed

lemma suppressed_iff_listed:
  assumes coh: "coherent cr k" and run: "isEmailSuppressed cr now w email k = Inr (k', b)"
  shows "coherent cr k'" and "k_db k' = k_db k" and "b = listed cr w email (k_db k)"
proof -
  obtain k1 x where first: "loadWorkspaceSuppressionKey cr now w k = Inr (k1, x)"
    using run by (cases "loadWorkspaceSuppressionKey cr now w k") (auto simp: isEmailSuppressed_def)
  note l1 = load_coherent [OF coh first]
  have k': "k' = k1" using run first by (auto simp: isEmailSuppressed_def Let_def split: option.splits)
  show "coherent cr k'" "k_db k' = k_db k" using l1(1,2) k' by simp_all
  show "b = listed cr w email (k_db k)"
  proof (cases x)
    case None
    with run first l1(4) show ?thesis by (auto simp: isEmailSuppressed_def listed_def)
  next
    case (Some key)
    with run first l1(2,3) show ?thesis by (auto simp: isEmailSuppressed_def listed_def Let_def)
  qed
qed

lemma listed_normalized: "normalizeSuppressionEmail e' = normalizeSuppressionEmail e \<Longrightarrow> listed cr w e' db = listed cr w e db"
  by (simp add: listed_def)

text \<open>The status of a new contact follows the list.\<close>

lemma initial_status_listed:
  assumes "coherent cr (cs_keyed s)" "initial_status cr now w input s = Inr (s', st)"
    and "ci_email input = Some e" "e \<noteq> []" "listed cr w e (cs_db s)"
  shows "st = StSuppressed"
proof -
  obtain k b where run: "isEmailSuppressed cr now w e (cs_keyed s) = Inr (k, b)" and st: "st = (if b then StSuppressed else nullish (ci_subscriptionStatus input) StSubscribed)"
    using assms(2,3,4)
    by (cases "isEmailSuppressed cr now w e (cs_keyed s)") (auto simp: initial_status_def and_then_def with_keys_def Let_def split: if_splits)
  from suppressed_iff_listed(3) [OF assms(1) run] assms(5) st show ?thesis by simp
qed

lemma created_status: "createContact z cr race newId now w input s = Inr (s', row) \<Longrightarrow>
    \<exists>s1. initial_status cr now w input s = Inr (s1, ct_subscriptionStatus row)"
  by (auto simp: createContact_def and_then_def refuse_def Let_def new_row_def
      split: if_splits sum.splits prod.splits option.splits)

section \<open>An erased address\<close>

lemma erased_is_listed:
  assumes coh: "coherent cr (cs_keyed s)" and c: "find (contact_is w i) (cs_contacts s) = Some c" "ct_anonymizedAt c = None"
    and e: "ct_email c = Some e" "e \<noteq> []" and run: "deleteContact cr newId now w i s = Inr (s', r)"
  shows "coherent cr (cs_keyed s') \<and> listed cr w e (cs_db s')"
proof -
  let ?s1 = "on_db (write_contact w i (\<lambda>c. if ct_anonymizedAt c = None then anonymized_row now c else c)) s"
  obtain k key where ens: "ensureWorkspaceSuppressionKey cr now w (cs_keyed ?s1) = Inr (k, key)"
    and s': "cs_keyed s' = k\<lparr>k_db := suppress_hash w (hashSuppressionEmail cr (normalizeSuppressionEmail e) key)
      SUPPRESSION_REASON_CONTACT_DELETED now (k_db k)\<rparr>"
    using run c e
    by (cases "ensureWorkspaceSuppressionKey cr now w (cs_keyed ?s1)")
       (auto simp: deleteContact_def suppress_erased_def and_then_def with_keys_def on_db_def)
  have "coherent cr (cs_keyed ?s1)" using coh by (simp add: coherent_def on_db_def write_contact_def)
  from ensure_coherent [OF this ens] show ?thesis
    by (auto simp: s' coherent_def listed_def suppress_hash_def)
qed


section \<open>Ways around the list\<close>

abbreviation no_patch :: ContactPatch where
  "no_patch \<equiv> \<lparr>cp_externalId = None, cp_email = None, cp_firstName = None, cp_lastName = None, cp_phone = None,
     cp_city = None, cp_country = None, cp_timezone = None, cp_tags = None, cp_properties = None, cp_subscriptionStatus = None\<rparr>"

lemma gate_same:
  assumes "ct_subscriptionStatus c' = ct_subscriptionStatus c" "ct_id c' = ct_id c" "truthy (ct_email c')"
    and "l_sends db' = l_sends db" "t_settings db' = t_settings db" "evaluatePreSendGate db t w c = Sendable"
  shows "evaluatePreSendGate db' t w c' = Sendable"
proof -
  have "sent_in_window db' t w i h = sent_in_window db t w i h" "getWorkspaceSendSettings db' w = getWorkspaceSendSettings db w" for i h
    using assms(4,5) by (simp_all add: sent_in_window_def getWorkspaceSendSettings_def)
  with assms(1,2,3,6) show ?thesis by (auto simp: evaluatePreSendGate_def Let_def split: if_splits)
qed

text \<open>An update that no other contact stands against goes through.\<close>

lemma updated:
  assumes wf: "contacts_wf (cs_contacts s)" and c: "find (contact_is w i) (cs_contacts s) = Some c" "ct_anonymizedAt c = None"
    and patch: "valid_timezone z (nullish (cp_timezone patch) None)" "cp_externalId patch = None"
      "\<And>e. cp_email patch = Some e \<Longrightarrow> e \<noteq> [] \<and> \<not> isEmailTaken w e (Some i) (cs_db s)" "i \<noteq> []"
    and st: "patched_status (ct_subscriptionStatus c) (cp_subscriptionStatus patch) = Inr st"
  shows "\<exists>s'. updateContact z (\<lambda>db. db) now w i patch s = Inr (s', Some (patched_row now patch st c))
    \<and> find (contact_is w i) (cs_contacts s') = Some (patched_row now patch st c)
    \<and> cs_contacts s' = update_where (contact_is w i) (\<lambda>_. patched_row now patch st c) (cs_contacts s)
    \<and> l_sends (cs_db s') = l_sends (cs_db s) \<and> t_settings (cs_db s') = t_settings (cs_db s)
    \<and> t_suppressions (cs_db s') = t_suppressions (cs_db s) \<and> t_suppressionKeys (cs_db s') = t_suppressionKeys (cs_db s)
    \<and> k_cache (cs_keyed s') = k_cache (cs_keyed s)"
proof -
  let ?row = "patched_row now patch st c"
  have c': "c \<in> set (cs_contacts s)" "ct_workspaceId c = w" "ct_id c = i"
    using c(1) by (auto simp: find_Some_iff contact_is_def)
  have "\<not> clash d ?row" if d: "d \<in> set (cs_contacts s)" "ct_id d \<noteq> i" for d
  proof
    assume clash: "clash d ?row"
    have "\<not> clash d c" using wf d c' by (auto simp: contacts_wf_def)
    then obtain e where e: "cp_email patch = Some e" "ct_email d = Some e" "ct_workspaceId d = w"
      using clash patch(2) c' by (auto simp: clash_def patched_row_def keep_or_def split: if_splits)
    then have "ct_anonymizedAt d = None" using wf d(1) by (cases "ct_anonymizedAt d") (auto simp: contacts_wf_def scrubbed_def)
    then show False using patch(3) [OF e(1)] patch(4) d e by (auto simp: isEmailTaken_def live_def)
  qed
  then have upd: "update_contact ?row s = Some (on_db (write_contact w i (\<lambda>_. ?row)) s)"
    using c' by (auto simp: update_contact_def patched_row_def)
  have "find (contact_is w i) (update_where (contact_is w i) (\<lambda>_. ?row) t) = Some ?row" if "find (contact_is w i) t \<noteq> None" for t
    using that c' by (induction t) (auto simp: contact_is_def patched_row_def)
  moreover have "on_db (\<lambda>db. db) s = s" by (simp add: on_db_def)
  moreover have "\<not> (cp_email patch \<noteq> None \<and> cp_email patch \<noteq> ct_email c \<and> isEmailTaken w (the (cp_email patch)) (Some i) (cs_db s))"
    using patch(3) by auto
  ultimately show ?thesis
    using c patch(1) st upd
    by (auto simp: updateContact_def Let_def write_contact_def history_def recordSubscriptionStatusChange_def
        registerObservedProperties_def on_db_def split: option.split)
qed

lemma update_gets:
  assumes wf: "contacts_wf (cs_contacts s)" and run: "updateContact z (\<lambda>db. db) now w i patch s = Inr (s', r)"
    and c: "find (contact_is w i) (cs_contacts s') = Some c" "ct_anonymizedAt c = None"
  shows "getContact w i (cs_db s') = Some c"
proof -
  have "yields (\<lambda>db. find (contact_is w i) (t_contacts db)) [] (\<lambda>db. db)" by (auto simp: yields_def find_Some_iff)
  then have "contacts_wf (cs_contacts s')" using contact_path_wf [OF update_path [OF _ run] wf] by blast
  moreover have "c \<in> set (cs_contacts s')" "contact_is w i c" using c(1) by (auto simp: find_Some_iff)
  ultimately show ?thesis
    unfolding getContact_def
    by (intro find_unique) (use c(2) unique_contact in \<open>auto simp: contacts_wf_def live_def contact_is_def\<close>)
qed

text \<open>Editing a contact moves it to an address on the suppression list and leaves it mailable: neither the update nor the gate looks at the list.\<close>

theorem edited_email_escapes_suppression:
  assumes "contacts_wf (cs_contacts s)" "find (contact_is w i) (cs_contacts s) = Some c" "ct_anonymizedAt c = None" "i \<noteq> []"
    and "evaluatePreSendGate (cs_db s) t w c = Sendable" "listed cr w e (cs_db s)" "e \<noteq> []" "\<not> isEmailTaken w e (Some i) (cs_db s)"
  shows "\<exists>s' c'. updateContact z (\<lambda>db. db) now w i (no_patch\<lparr>cp_email := Some e\<rparr>) s = Inr (s', Some c')
    \<and> getContact w i (cs_db s') = Some c' \<and> ct_email c' = Some e
    \<and> listed cr w e (cs_db s') \<and> evaluatePreSendGate (cs_db s') t w c' = Sendable"
proof -
  let ?patch = "no_patch\<lparr>cp_email := Some e\<rparr>" and ?row = "patched_row now (no_patch\<lparr>cp_email := Some e\<rparr>) (ct_subscriptionStatus c) c"
  obtain s' where s': "updateContact z (\<lambda>db. db) now w i ?patch s = Inr (s', Some ?row)"
      "find (contact_is w i) (cs_contacts s') = Some ?row" "l_sends (cs_db s') = l_sends (cs_db s)"
      "t_settings (cs_db s') = t_settings (cs_db s)" "t_suppressions (cs_db s') = t_suppressions (cs_db s)"
      "t_suppressionKeys (cs_db s') = t_suppressionKeys (cs_db s)"
    using updated [OF assms(1,2,3), of z ?patch "ct_subscriptionStatus c" now] assms(4,7,8)
    by (auto simp: valid_timezone_def patched_status_def)
  have row: "ct_email ?row = Some e" "ct_subscriptionStatus ?row = ct_subscriptionStatus c" "ct_id ?row = ct_id c"
    "ct_anonymizedAt ?row = None" "ct_workspaceId ?row = ct_workspaceId c"
    using assms(3) by (simp_all add: patched_row_def keep_or_def)
  have "listed cr w e (cs_db s')" using assms(6) s' by (simp add: listed_def)
  moreover have "evaluatePreSendGate (cs_db s') t w ?row = Sendable"
    by (rule gate_same [OF row(2,3) _ s'(3,4) assms(5)]) (use row(1) assms(7) in simp)
  moreover have "getContact w i (cs_db s') = Some ?row"
    by (rule update_gets [OF assms(1) s'(1,2) row(4)])
  ultimately show ?thesis using s'(1) row(1) by blast
qed

text \<open>A suppressed contact, which no single update may subscribe, is subscribed by two: over unsubscribed. The shared upsert takes the same way.\<close>

theorem two_updates_resubscribe:
  assumes "contacts_wf (cs_contacts s)" "find (contact_is w i) (cs_contacts s) = Some c" "ct_anonymizedAt c = None" "i \<noteq> []"
    and "ct_subscriptionStatus c = StSuppressed"
  shows "updateContact z (\<lambda>db. db) now w i (no_patch\<lparr>cp_subscriptionStatus := Some StSubscribed\<rparr>) s
      = Inl (InvalidStatusTransition, k_cache (cs_keyed s))
    \<and> (\<exists>s1 s2 c1 c2. updateContact z (\<lambda>db. db) now w i (no_patch\<lparr>cp_subscriptionStatus := Some StUnsubscribed\<rparr>) s = Inr (s1, Some c1)
        \<and> updateContact z (\<lambda>db. db) now' w i (no_patch\<lparr>cp_subscriptionStatus := Some StSubscribed\<rparr>) s1 = Inr (s2, Some c2)
        \<and> ct_subscriptionStatus c2 = StSubscribed \<and> ct_email c2 = ct_email c)
    \<and> next_status (next_status StSuppressed (Some StUnsubscribed)) (Some StSubscribed) = StSubscribed"
proof (intro conjI)
  show "updateContact z (\<lambda>db. db) now w i (no_patch\<lparr>cp_subscriptionStatus := Some StSubscribed\<rparr>) s
      = Inl (InvalidStatusTransition, k_cache (cs_keyed s))"
    using assms by (simp add: updateContact_def valid_timezone_def patched_status_def refuse_def)
  let ?p1 = "no_patch\<lparr>cp_subscriptionStatus := Some StUnsubscribed\<rparr>" and ?p2 = "no_patch\<lparr>cp_subscriptionStatus := Some StSubscribed\<rparr>"
  let ?c1 = "patched_row now ?p1 StUnsubscribed c"
  let ?c2 = "patched_row now' ?p2 StSubscribed ?c1"
  obtain s1 where s1: "updateContact z (\<lambda>db. db) now w i ?p1 s = Inr (s1, Some ?c1)" "find (contact_is w i) (cs_contacts s1) = Some ?c1"
    using updated [OF assms(1,2,3), of z ?p1 StUnsubscribed now] assms(4,5) by (auto simp: valid_timezone_def patched_status_def)
  have "yields (\<lambda>db. find (contact_is w i) (t_contacts db)) [] (\<lambda>db. db)" by (auto simp: yields_def find_Some_iff)
  then have "contacts_wf (cs_contacts s1)" using contact_path_wf [OF update_path [OF _ s1(1)] assms(1)] by blast
  moreover have "ct_anonymizedAt ?c1 = None" "ct_subscriptionStatus ?c1 = StUnsubscribed"
    using assms(3) by (simp_all add: patched_row_def)
  ultimately obtain s2 where "updateContact z (\<lambda>db. db) now' w i ?p2 s1 = Inr (s2, Some ?c2)"
    using updated [of s1 w i ?c1 z ?p2 StSubscribed now'] s1(2) assms(4)
    by (auto simp: valid_timezone_def patched_status_def)
  moreover have "ct_subscriptionStatus ?c2 = StSubscribed" "ct_email ?c2 = ct_email c" by (simp_all add: patched_row_def keep_or_def)
  ultimately show "\<exists>s1 s2 c1 c2. updateContact z (\<lambda>db. db) now w i ?p1 s = Inr (s1, Some c1)
      \<and> updateContact z (\<lambda>db. db) now' w i ?p2 s1 = Inr (s2, Some c2)
      \<and> ct_subscriptionStatus c2 = StSubscribed \<and> ct_email c2 = ct_email c"
    using s1(1) by blast
qed (simp add: next_status_def)

section \<open>Witnesses\<close>

definition example_crypto :: crypto where
  "example_crypto =
     \<lparr>cr_decrypt = (\<lambda>w row. Some (ciphertext row)),
      cr_encrypt = (\<lambda>w key. Some \<lparr>encryptedDek = [], ciphertext = key, iv = [], authTag = []\<rparr>),
      cr_random = ''k'', cr_hmac = (\<lambda>key text. key @ text)\<rparr>"

definition example_zones :: zones where
  "example_zones = \<lparr>z_supported = [''UTC''], z_constructs = (\<lambda>_. False), z_offset = (\<lambda>_ _. 0)\<rparr>"

definition example_contact :: "uuid \<Rightarrow> string \<Rightarrow> SubscriptionStatus \<Rightarrow> contact_row" where
  "example_contact i email st =
     \<lparr>ct_id = i, ct_workspaceId = ''w'', ct_externalId = None, ct_email = Some email, ct_firstName = None, ct_lastName = None,
      ct_phone = None, ct_city = None, ct_country = None, ct_tags = [], ct_properties = [], ct_subscriptionStatus = st,
      ct_consecutiveSoftBounces = 0, ct_timezone = None, ct_createdAt = 0, ct_updatedAt = 0, ct_anonymizedAt = None\<rparr>"

definition example_store :: "contact_row list \<Rightarrow> contact_store" where
  "example_store t =
     \<lparr>cs_keyed = \<lparr>k_db = empty_crm\<lparr>t_contacts := t\<rparr>, k_cache = Map.empty\<rparr>, cs_registry = [], cs_erasures = []\<rparr>"

definition example_input :: "string \<Rightarrow> ContactInput" where
  "example_input email =
     \<lparr>ci_externalId = None, ci_email = Some email, ci_firstName = None, ci_lastName = None, ci_phone = None, ci_city = None,
      ci_country = None, ci_timezone = None, ci_tags = None, ci_properties = None, ci_subscriptionStatus = None\<rparr>"

lemmas example_defs = example_crypto_def example_zones_def example_contact_def example_store_def example_input_def

text \<open>Contact \<open>a\<close> has been deleted, contact \<open>b\<close> has another address.\<close>

definition example_erased :: "(bool \<times> uuid option) contact_result" where
  "example_erased = deleteContact example_crypto ''e'' 5 ''w'' ''a''
     (example_store [example_contact ''a'' ''a@x.y'' StSubscribed, example_contact ''b'' ''b@x.y'' StSubscribed])"

definition erased_store :: contact_store where
  "erased_store = (case example_erased of Inr (s, _) \<Rightarrow> s | Inl _ \<Rightarrow> example_store [])"

lemma two_updates_resubscribe_witness:
  "\<exists>s1 s2 c1 c2. updateContact example_zones (\<lambda>db. db) 1 ''w'' ''a'' (no_patch\<lparr>cp_subscriptionStatus := Some StUnsubscribed\<rparr>)
        (example_store [example_contact ''a'' ''a@x.y'' StSuppressed]) = Inr (s1, Some c1)
      \<and> updateContact example_zones (\<lambda>db. db) 2 ''w'' ''a'' (no_patch\<lparr>cp_subscriptionStatus := Some StSubscribed\<rparr>) s1 = Inr (s2, Some c2)
      \<and> ct_subscriptionStatus c2 = StSubscribed \<and> ct_email c2 = Some ''a@x.y''"
  using two_updates_resubscribe [of "example_store [example_contact ''a'' ''a@x.y'' StSuppressed]" "''w''" "''a''"
      "example_contact ''a'' ''a@x.y'' StSuppressed" example_zones 1 2]
  by (simp add: example_defs contacts_wf_def contact_is_def)

lemma erased_store_eq:
  "example_erased = Inr (erased_store, (True, Some ''e''))"
  "erased_store = \<lparr>cs_keyed = \<lparr>k_db = empty_crm\<lparr>
      t_contacts := [anonymized_row 5 (example_contact ''a'' ''a@x.y'' StSubscribed), example_contact ''b'' ''b@x.y'' StSubscribed],
      t_suppressionKeys := [''w'' \<mapsto> \<lparr>encryptedDek = [], ciphertext = ''k'', iv = [], authTag = []\<rparr>],
      t_suppressions := [\<lparr>sup_workspaceId = ''w'', sup_emailHash = ''ka@x.y'', sup_reason = ''contact_deleted'', sup_suppressedAt = 5, sup_source = None\<rparr>]\<rparr>,
      k_cache = [''w'' \<mapsto> \<lparr>ce_key = ''k'', ce_expiresAt = 300005\<rparr>]\<rparr>, cs_registry = [], cs_erasures = [new_erasure ''e'' ''w'' ''a'' 5]\<rparr>"
proof -
  have norm: "normalizeSuppressionEmail ''a@x.y'' = ''a@x.y''" by code_simp
  show "example_erased = Inr (erased_store, (True, Some ''e''))"
    and "erased_store = \<lparr>cs_keyed = \<lparr>k_db = empty_crm\<lparr>
      t_contacts := [anonymized_row 5 (example_contact ''a'' ''a@x.y'' StSubscribed), example_contact ''b'' ''b@x.y'' StSubscribed],
      t_suppressionKeys := [''w'' \<mapsto> \<lparr>encryptedDek = [], ciphertext = ''k'', iv = [], authTag = []\<rparr>],
      t_suppressions := [\<lparr>sup_workspaceId = ''w'', sup_emailHash = ''ka@x.y'', sup_reason = ''contact_deleted'', sup_suppressedAt = 5, sup_source = None\<rparr>]\<rparr>,
      k_cache = [''w'' \<mapsto> \<lparr>ce_key = ''k'', ce_expiresAt = 300005\<rparr>]\<rparr>, cs_registry = [], cs_erasures = [new_erasure ''e'' ''w'' ''a'' 5]\<rparr>"
    by (simp_all add: erased_store_def example_erased_def example_defs deleteContact_def contact_is_def suppress_erased_def
        and_then_def with_keys_def on_db_def ensureWorkspaceSuppressionKey_def loadWorkspaceSuppressionKey_def cacheGet_def
        cacheSet_def readWrappedKeyRow_def store_key_def empty_crm_def hashSuppressionEmail_def norm suppress_hash_def
        write_contact_def SUPPRESSION_KEY_CACHE_TTL_MS_def SUPPRESSION_REASON_CONTACT_DELETED_def)
qed

lemma edited_email_escapes_suppression_witness:
  "\<exists>s' c'. updateContact example_zones (\<lambda>db. db) 6 ''w'' ''b'' (no_patch\<lparr>cp_email := Some ''a@x.y''\<rparr>) erased_store = Inr (s', Some c')
    \<and> getContact ''w'' ''b'' (cs_db s') = Some c' \<and> ct_email c' = Some ''a@x.y''
    \<and> listed example_crypto ''w'' ''a@x.y'' (cs_db s') \<and> evaluatePreSendGate (cs_db s') 7 ''w'' c' = Sendable"
proof (rule edited_email_escapes_suppression)
  have norm: "normalizeSuppressionEmail ''a@x.y'' = ''a@x.y''" by code_simp
  show "contacts_wf (cs_contacts erased_store)"
    by (simp add: erased_store_eq(2) contacts_wf_def example_defs anonymized_row_def clash_def scrubbed_def)
  show "find (contact_is ''w'' ''b'') (cs_contacts erased_store) = Some (example_contact ''b'' ''b@x.y'' StSubscribed)"
    by (simp add: erased_store_eq(2) contact_is_def example_defs anonymized_row_def)
  show "evaluatePreSendGate (cs_db erased_store) 7 ''w'' (example_contact ''b'' ''b@x.y'' StSubscribed) = Sendable"
    by (simp add: erased_store_eq(2) evaluatePreSendGate_def example_defs getWorkspaceSendSettings_def sent_in_window_def
        empty_crm_def DEFAULT_SEND_SETTINGS_def Let_def)
  show "listed example_crypto ''w'' ''a@x.y'' (cs_db erased_store)"
    by (simp add: erased_store_eq(2) listed_def example_defs hashSuppressionEmail_def norm)
  show "\<not> isEmailTaken ''w'' ''a@x.y'' (Some ''b'') (cs_db erased_store)"
    by (simp add: erased_store_eq(2) isEmailTaken_def example_defs anonymized_row_def)
qed (simp_all add: example_defs)


lemma example_yields: "yields (\<lambda>db. find P (t_contacts db)) n (\<lambda>db. db)" "yields (\<lambda>_. None) n (\<lambda>db. db)"
  "yields (\<lambda>db. identify w x y db) n (\<lambda>db. db)"
  using identify_found by (auto simp: yields_def find_Some_iff)

lemma contact_operations_are_paths_witness:
  "contact_write\<^sup>*\<^sup>* [example_contact ''a'' ''a@x.y'' StSubscribed, example_contact ''b'' ''b@x.y'' StSubscribed] (cs_contacts erased_store)"
proof -
  let ?s = "example_store [example_contact ''a'' ''a@x.y'' StSubscribed, example_contact ''b'' ''b@x.y'' StSubscribed]"
  have "\<forall>s' r. deleteContact example_crypto ''e'' 5 ''w'' ''a'' ?s = Inr (s', r) \<longrightarrow> contact_write\<^sup>*\<^sup>* (cs_contacts ?s) (cs_contacts s')"
    using contact_operations_are_paths [of "''e''" ?s "''w''" "example_input ''a@x.y''" "\<lambda>_ db. db" "''a''" "\<lambda>db. db" "\<lambda>db. db"
        example_crypto 5 example_zones no_patch] example_yields
    by (simp add: example_store_def example_contact_def)
  then show ?thesis using erased_store_eq(1) by (auto simp: example_erased_def example_store_def)
qed

lemma contact_lifecycle_witness:
  "contacts_wf (cs_contacts erased_store)
    \<and> list_ex (\<lambda>c'. still (example_contact ''b'' ''b@x.y'' StSubscribed) c') (cs_contacts erased_store)"
proof -
  have "contacts_wf [example_contact ''a'' ''a@x.y'' StSubscribed, example_contact ''b'' ''b@x.y'' StSubscribed]"
    by (simp add: contacts_wf_def example_contact_def clash_def)
  moreover have "contact_write\<^sup>*\<^sup>* [example_contact ''a'' ''a@x.y'' StSubscribed, example_contact ''b'' ''b@x.y'' StSubscribed] (cs_contacts erased_store)"
    using delete_path [OF erased_store_eq(1) [unfolded example_erased_def]] by (simp add: example_store_def)
  ultimately show ?thesis using contact_lifecycle by (fastforce simp: list_ex_iff)
qed

lemma upsert_is_found_again_witness:
  "\<exists>s' r. upsertContactByIdentity example_crypto (\<lambda>_ db. db) ''n'' 9 ''w'' (example_input ''c@x.y'') (example_store []) = Inr (s', r)
    \<and> findContactIdByIdentity ''w'' (example_input ''c@x.y'') (cs_db s') = Some (ur_contactId r)"
proof -
  obtain s' r where run: "upsertContactByIdentity example_crypto (\<lambda>_ db. db) ''n'' 9 ''w'' (example_input ''c@x.y'') (example_store []) = Inr (s', r)"
    by (simp add: upsertContactByIdentity_def upsert_attempt_def by_externalId_def by_email_def upsert_new_def example_defs
        initial_status_def and_then_def with_keys_def isEmailSuppressed_def loadWorkspaceSuppressionKey_def cacheGet_def
        readWrappedKeyRow_def empty_crm_def Let_def on_db_def insert_contact_def)
  have "findContactIdByIdentity ''w'' (example_input ''c@x.y'') (cs_db s') = Some (ur_contactId r)"
    by (rule upsert_is_found_again [OF _ _ _ run]) (simp_all add: example_store_def contacts_wf_def example_input_def)
  with run show ?thesis by blast
qed

end
