(* ===== verification/Csv_Properties.thy ===== *)
theory Csv_Properties
  imports Csv_Runs Contact_Consent
begin

text \<open>
  What an import does. A row that passes the mapping is a lawful input of the upsert, cell by cell what the file says;
  an undisturbed job resolves every staged row and ends, and one that was killed is taken up by the next; a dry run
  classifies every row from its text alone, also those that have been applied.
\<close>

section \<open>The mapping of a row\<close>

text \<open>The cell that a field is taken from: the last one mapped to it that is not blank.\<close>

fun mapped_cell :: "(string \<times> string) list \<Rightarrow> string \<Rightarrow> (string \<times> string) list \<Rightarrow> string option" where
  "mapped_cell raw field [] = None"
| "mapped_cell raw field ((header, f) # mapping) =
     (case mapped_cell raw field mapping of
        Some v \<Rightarrow> Some v
      | None \<Rightarrow> if f = field \<and> truthy (map_of raw header) then map_of raw header else None)"

lemma mapped_cell_snoc:
  "mapped_cell raw field (mapping @ [(header, f)]) =
     (if f = field \<and> truthy (map_of raw header) then map_of raw header else mapped_cell raw field mapping)"
  by (induction raw field mapping rule: mapped_cell.induct) (auto split: option.splits)

lemma mapped_cell_truthy: "mapped_cell raw field mapping = Some v \<Longrightarrow> v \<noteq> []"
  by (induction raw field mapping rule: mapped_cell.induct) (auto split: option.splits if_splits)

definition property_field :: "string \<Rightarrow> bool" where
  "property_field field = (field \<notin> set STANDARD_FIELDS)"

definition drafted :: "(string \<times> string) list \<Rightarrow> (string \<times> string) list \<Rightarrow> csv_draft \<Rightarrow> bool" where
  "drafted raw mapping d =
     (let cell = (\<lambda>field. mapped_cell raw field mapping); input = cd_input d in
        ci_externalId input = cell ''externalId'' \<and> ci_email input = map_option (to_lower \<circ> js_trim) (cell ''email'')
        \<and> ci_firstName input = cell ''firstName'' \<and> ci_lastName input = cell ''lastName'' \<and> ci_phone input = cell ''phone''
        \<and> ci_city input = cell ''city'' \<and> ci_country input = cell ''country'' \<and> ci_timezone input = cell ''timezone''
        \<and> ci_tags input = map_option (filter (\<lambda>t. t \<noteq> []) \<circ> map js_trim \<circ> split_on (CHR '','')) (cell ''tags'')
        \<and> cd_status d = map_option (to_lower \<circ> js_trim) (cell ''subscriptionStatus'')
        \<and> ci_properties input \<noteq> None
        \<and> (\<forall>key. map_of (the (ci_properties input)) key = map_option JStr (if property_field key then cell key else None)))"

lemma drafted_cell:
  assumes d: "drafted raw mapping d"
  shows "drafted raw (mapping @ [(header, field)]) (map_cell raw (header, field) d)"
proof (cases "truthy (map_of raw header)")
  case True
  then obtain v where v: "map_of raw header = Some v" "v \<noteq> []" by (cases "map_of raw header") auto
  show ?thesis
  proof (cases "property_field field")
    case True
    then show ?thesis
      using d v by (auto simp: drafted_def Let_def mapped_cell_snoc map_cell_def STANDARD_FIELDS_def property_field_def put_property_lookup)
  next
    case False
    then have "mapped_cell raw key (mapping @ [(header, field)]) = mapped_cell raw key mapping" if "property_field key" for key
      using that by (auto simp: mapped_cell_snoc)
    then have keys: "(if property_field key then mapped_cell raw key (mapping @ [(header, field)]) else None)
        = (if property_field key then mapped_cell raw key mapping else None)" for key by simp
    have "field = ''externalId'' \<or> field = ''email'' \<or> field = ''firstName'' \<or> field = ''lastName'' \<or> field = ''phone''
        \<or> field = ''city'' \<or> field = ''country'' \<or> field = ''timezone'' \<or> field = ''tags'' \<or> field = ''subscriptionStatus''"
      using False by (auto simp: property_field_def STANDARD_FIELDS_def)
    then show ?thesis
      using d v unfolding drafted_def Let_def keys
      by (elim disjE) (simp_all add: mapped_cell_snoc map_cell_def set_field_def STANDARD_FIELDS_def)
  qed
next
  case False
  then have "map_cell raw (header, field) d = d" by (cases "map_of raw header") (auto simp: map_cell_def)
  with False d show ?thesis by (simp add: drafted_def mapped_cell_snoc)
qed

lemma drafted_row: "drafted raw mapping (fold (map_cell raw) mapping \<lparr>cd_input = empty_input, cd_status = None\<rparr>)"
proof (induction mapping rule: rev_induct)
  case Nil
  then show ?case by (simp add: drafted_def empty_input_def)
next
  case (snoc x mapping)
  then show ?case using drafted_cell [OF snoc.IH] by (cases x) simp
qed


section \<open>The job\<close>

text \<open>C31: From any state that killed runs of the job have left of an import, one more run that nothing disturbs resolves every row
  that was still pending and no other, says so in the import's counts and status, and leaves the other imports alone; a
  run that is killed again leaves such a state.\<close>

theorem csv_import_finishes:
  assumes "up env" "staged_wf w i (is_rows s0)" "getCsvImport w i s0 \<noteq> None" "under_way w i s0 (jr_db r)"
  shows "\<exists>res r'. processImportsCsvJob env w i r = Some (res, r') \<and> under_way w i s0 (jr_db r')
    \<and> (res = Done () \<and> applied w i (jr_db r') \<or> res = Killed \<and> (\<exists>k. je_killed env k))"
  using job_ends [OF assms] by (auto simp: ends_in_def)

section \<open>The dry run\<close>

text \<open>What the apply job would do to a row, as the dry run foresees it.\<close>

definition foreseen ::
  "(ContactInput \<Rightarrow> bool) \<Rightarrow> zones \<Rightarrow> (string \<times> string) list \<Rightarrow> string option \<Rightarrow> staged_row \<Rightarrow> bool" where
  "foreseen P z mapping tz row = (case applyCsvRowMapping z (ir_raw row) mapping tz of Inl _ \<Rightarrow> False | Inr input \<Rightarrow> P input)"

definition known :: "uuid \<Rightarrow> import_store \<Rightarrow> ContactInput \<Rightarrow> bool" where
  "known w s input = (findContactIdByIdentity w input (cs_db (is_contacts s)) \<noteq> None)"

lemma preview_row:
  "preview z w mapping policy tz (cs_db (is_contacts s)) row (a, b, c) =
     (a + (if foreseen (\<lambda>input. \<not> known w s input) z mapping tz row then 1 else 0),
      b + (if foreseen (\<lambda>input. known w s input \<and> policy = PolicyUpdate) z mapping tz row then 1 else 0),
      c + (if foreseen (\<lambda>_. True) z mapping tz row then 0 else 1))"
  by (cases "applyCsvRowMapping z (ir_raw row) mapping tz") (simp_all add: preview_def foreseen_def known_def)

lemma fold_preview:
  "fold (preview z w mapping policy tz (cs_db (is_contacts s))) L (a, b, c) =
     (a + row_count (foreseen (\<lambda>input. \<not> known w s input) z mapping tz) L,
      b + row_count (foreseen (\<lambda>input. known w s input \<and> policy = PolicyUpdate) z mapping tz) L,
      c + row_count (\<lambda>row. \<not> foreseen (\<lambda>_. True) z mapping tz row) L)"
  by (induction L arbitrary: a b c) (simp_all add: preview_row)

lemma staged_from_count:
  assumes "staged_wf w i (is_rows s)"
  shows "row_count Q (staged_from w i 0 s) = row_count (\<lambda>q. row_of w i q \<and> Q q) (is_rows s)"
proof -
  have "row_count Q (staged_from w i 0 s) = length (filter Q (filter (\<lambda>r. row_of w i r \<and> 0 < ir_rowNumber r) (is_rows s)))"
    by (simp add: row_count_def staged_from_def filter_sort)
  also have "filter Q (filter (\<lambda>r. row_of w i r \<and> 0 < ir_rowNumber r) (is_rows s)) = filter (\<lambda>q. row_of w i q \<and> Q q) (is_rows s)"
    unfolding filter_filter by (rule filter_cong) (use assms in \<open>auto simp: staged_wf_def\<close>)
  finally show ?thesis by (simp add: row_count_def)
qed

lemma staged_from_all:
  assumes "staged_wf w i (is_rows s)"
  shows "reclassified z mapping tz w i (ir_rowNumber ` set (staged_from w i 0 s)) (is_rows s)
    = update_where (row_of w i) (classified z mapping tz) (is_rows s)"
  unfolding reclassified_def update_where_def
  by (rule map_cong [OF HOL.refl]) (use assms in \<open>auto simp: staged_from_def staged_wf_def\<close>)

lemma classified_status: "ir_status (classified z mapping tz r) = (if foreseen (\<lambda>_. True) z mapping tz r then RowPending else RowError)"
  by (simp add: classified_def foreseen_def split: sum.split)

lemma reclassified_counts:
  assumes "is_rows s' = update_where (row_of w i) (classified z mapping tz) (is_rows s)"
  shows "rows_in w i RowCreated s' = 0" "rows_in w i RowUpdated s' = 0" "rows_in w i RowSkipped s' = 0"
    "rows_in w i RowPending s' = row_count (\<lambda>q. row_of w i q \<and> foreseen (\<lambda>_. True) z mapping tz q) (is_rows s)"
proof -
  have count: "rows_in w i st s' = row_count (\<lambda>q. row_of w i q \<and> st = (if foreseen (\<lambda>_. True) z mapping tz q then RowPending else RowError)) (is_rows s)" for st
  proof -
    have "row_count (\<lambda>r. row_of w i r \<and> ir_status r = st) (update_where (row_of w i) (classified z mapping tz) t)
      = row_count (\<lambda>q. row_of w i q \<and> st = (if foreseen (\<lambda>_. True) z mapping tz q then RowPending else RowError)) t" for t
      by (induction t) (auto simp: classified_status)
    then show ?thesis by (simp add: rows_in_def assms)
  qed
  show "rows_in w i RowCreated s' = 0" "rows_in w i RowUpdated s' = 0" "rows_in w i RowSkipped s' = 0"
    unfolding count row_count_zero by simp_all
  have "(\<lambda>q. row_of w i q \<and> RowPending = (if foreseen (\<lambda>_. True) z mapping tz q then RowPending else RowError))
      = (\<lambda>q. row_of w i q \<and> foreseen (\<lambda>_. True) z mapping tz q)" by (rule ext) simp
  then show "rows_in w i RowPending s' = row_count (\<lambda>q. row_of w i q \<and> foreseen (\<lambda>_. True) z mapping tz q) (is_rows s)"
    unfolding count by (rule arg_cong)
qed

text \<open>A dry run writes no contact and answers with the exact counts of rows that are new, known and erroneous against the
  contacts as they are; and it makes every row of the import that passes the mapping pending, also of an import that
  has been applied: nothing is recorded as created, updated or skipped afterwards.\<close>

theorem dry_run_reopens_applied_rows:
  assumes "quiet_env env" "\<forall>k. \<not> je_killed env k" "staged_wf w i (is_rows (jr_db r))" "getCsvImport w i (jr_db r) \<noteq> None"
  shows "\<exists>r'. dry_run env w i mapping policy tz r = Some (Done (Some (DryRunSummary
        (row_count (\<lambda>q. row_of w i q \<and> foreseen (\<lambda>input. \<not> known w (jr_db r) input) (ie_zones env) mapping tz q) (is_rows (jr_db r)))
        (row_count (\<lambda>q. row_of w i q \<and> foreseen (\<lambda>input. known w (jr_db r) input \<and> policy = PolicyUpdate) (ie_zones env) mapping tz q) (is_rows (jr_db r)))
        (row_count (\<lambda>q. row_of w i q \<and> \<not> foreseen (\<lambda>_. True) (ie_zones env) mapping tz q) (is_rows (jr_db r))))), r')
    \<and> is_contacts (jr_db r') = is_contacts (jr_db r)
    \<and> rows_in w i RowCreated (jr_db r') = 0 \<and> rows_in w i RowUpdated (jr_db r') = 0 \<and> rows_in w i RowSkipped (jr_db r') = 0
    \<and> rows_in w i RowPending (jr_db r') = row_count (\<lambda>q. row_of w i q \<and> foreseen (\<lambda>_. True) (ie_zones env) mapping tz q) (is_rows (jr_db r))"
proof -
  let ?r1 = "r\<lparr>jr_tx := jr_tx r + 1\<rparr>"
  have "staged_wf w i (is_rows (jr_db ?r1))" using assms(3) by simp
  from dry_run_ends [OF assms(1,2) this, of mapping policy tz 0 "(0, 0, 0)"] obtain r2 where
    r2: "computeDryRunSummary env w i mapping policy tz 0 (0, 0, 0) ?r1
      = Some (Done (fold (preview (ie_zones env) w mapping policy tz (cs_db (is_contacts (jr_db r)))) (staged_from w i 0 (jr_db r)) (0, 0, 0)), r2)"
    "jr_db r2 = (jr_db r)\<lparr>is_rows := update_where (row_of w i) (classified (ie_zones env) mapping tz) (is_rows (jr_db r))\<rparr>"
    using staged_from_all [OF assms(3)] by auto
  have saved: "is_rows (saveDryRunResult w i mapping policy tz summary now s) = is_rows s"
    "is_contacts (saveDryRunResult w i mapping policy tz summary now s) = is_contacts s" for summary now s
    unfolding saveDryRunResult_def by (rule write_import_find; simp)+
  have counts: "rows_in w i st (saveDryRunResult w i mapping policy tz summary now (jr_db r2))
      = rows_in w i st (jr_db r2)" for st summary now by (simp add: rows_in_def saved)
  have rows: "is_rows (jr_db r2) = update_where (row_of w i) (classified (ie_zones env) mapping tz) (is_rows (jr_db r))"
    and contacts: "is_contacts (jr_db r2) = is_contacts (jr_db r)" by (simp_all add: r2(2))
  show ?thesis
    using assms(1,2,4) r2(1)
    by (simp add: dry_run_def run_tx_def transact_quiet reading_def writing_def fold_preview staged_from_count [OF assms(3)] Let_def
        saved contacts counts reclassified_counts [OF rows])
qed

section \<open>Witnesses\<close>

definition example_import_env :: import_env where
  "example_import_env =
     \<lparr>je_now = int, je_others = (\<lambda>_ s. s), je_killed = (\<lambda>_. False), ie_zones = example_zones, ie_crypto = example_crypto,
      ie_newId = (\<lambda>k. replicate k CHR ''n''), ie_race = (\<lambda>_ _ db. db), ie_down = (\<lambda>_. False)\<rparr>"

definition example_staged :: "uuid \<Rightarrow> nat \<Rightarrow> string \<Rightarrow> csv_row_status \<Rightarrow> staged_row" where
  "example_staged x n email st =
     \<lparr>ir_id = x, ir_csvImportId = ''m'', ir_workspaceId = ''w'', ir_rowNumber = n, ir_raw = [(''Mail'', email)], ir_status = st, ir_reason = None\<rparr>"

definition example_imports :: "staged_row list \<Rightarrow> import_store" where
  "example_imports rows =
     \<lparr>is_contacts = example_store [],
      is_imports = [\<lparr>im_id = ''m'', im_workspaceId = ''w'', im_fileName = ''f'', im_createdByUserId = ''u'', im_status = ImportDone,
        im_duplicatePolicy = PolicyUpdate, im_mapping = Some [(''Mail'', ''email'')], im_defaultTimezone = None, im_totalRows = 2,
        im_processedRows = 2, im_summary = None, im_updatedAt = 0\<rparr>],
      is_rows = rows\<rparr>"

lemma example_import_facts:
  "up example_import_env" "quiet_env example_import_env" "\<not> je_killed example_import_env k"
  "staged_wf ''w'' ''m'' [example_staged ''a'' 1 e1 st1, example_staged ''b'' 2 e2 st2]"
  "getCsvImport ''w'' ''m'' (example_imports rows) \<noteq> None"
  by (simp_all add: up_def quiet_env_def example_import_env_def staged_wf_def example_staged_def getCsvImport_def example_imports_def import_is_def row_of_def)

lemma csv_import_finishes_witness:
  "\<exists>r'. processImportsCsvJob example_import_env ''w'' ''m''
       \<lparr>jr_tx = 0, jr_db = example_imports [example_staged ''a'' 1 ''a@x.y'' RowPending, example_staged ''b'' 2 ''b'' RowPending]\<rparr> = Some (Done (), r')
     \<and> applied ''w'' ''m'' (jr_db r')"
proof -
  let ?s = "example_imports [example_staged ''a'' 1 ''a@x.y'' RowPending, example_staged ''b'' 2 ''b'' RowPending]"
  have "staged_wf ''w'' ''m'' (is_rows ?s)" using example_import_facts(4) by (simp add: example_imports_def)
  from csv_import_finishes [OF example_import_facts(1) this example_import_facts(5), of "\<lparr>jr_tx = 0, jr_db = ?s\<rparr>"]
  show ?thesis using under_way_refl example_import_facts(3) by auto
qed

lemma dry_run_reopens_applied_rows_witness:
  "\<exists>answer r'. dry_run example_import_env ''w'' ''m'' [(''Mail'', ''email'')] PolicyUpdate None
       \<lparr>jr_tx = 0, jr_db = example_imports [example_staged ''a'' 1 ''a@x.y'' RowCreated, example_staged ''b'' 2 ''b'' RowError]\<rparr> = Some (Done answer, r')
     \<and> rows_in ''w'' ''m'' RowCreated (jr_db r') = 0"
proof -
  let ?s = "example_imports [example_staged ''a'' 1 ''a@x.y'' RowCreated, example_staged ''b'' 2 ''b'' RowError]"
  have "staged_wf ''w'' ''m'' (is_rows ?s)" using example_import_facts(4) by (simp add: example_imports_def)
  then show ?thesis
    using dry_run_reopens_applied_rows [OF example_import_facts(2), of "''w''" "''m''" "\<lparr>jr_tx = 0, jr_db = ?s\<rparr>" "[(''Mail'', ''email'')]" PolicyUpdate None]
      example_import_facts(3,5) by auto
qed


end
