(* ===== verification/Erasure_Scrub.thy ===== *)
theory Erasure_Scrub
  imports Contacts Job_Runs Uuid_Order "HOL-Library.Product_Lexorder"
begin

text \<open>
  The scrub of what the provider and the tenant have said about an erased contact:
  \<open>apps/worker/src/queues/erasure-scrub.worker.ts\<close> with \<open>erasure-scrub-checkpoint.ts\<close> and the allowlist of
  \<open>delivery-core/src/send-event-payload-allowlist.ts\<close>, and \<open>erasure-scrub-reclaim.worker.ts\<close>, which finds the erasures
  whose job was lost. The job walks two tables page by page; each page and its cursor are one transaction.
  A row of \<open>send_events\<close> has here the id that the other theories leave out.
\<close>

section \<open>State\<close>

record stored_event = send_event_row +
  se_id :: uuid

record scrub_store =
  ss_contacts :: contact_store
  ss_sendEvents :: "stored_event list"

abbreviation ss_db :: "scrub_store \<Rightarrow> crm" where "ss_db s \<equiv> cs_db (ss_contacts s)"

abbreviation ss_records :: "scrub_store \<Rightarrow> erasure_row list" where "ss_records s \<equiv> cs_erasures (ss_contacts s)"

datatype ScrubTable = ScrubSends | ScrubEvents

text \<open>The only error is that of the database, with its message.\<close>

datatype scrub_error = ScrubConnectionLost (message_of: string)

record scrub_env = "scrub_store job_env" +
  se_down :: "nat \<Rightarrow> string option"

type_synonym 'a scrub_job = "(scrub_error, 'a, scrub_store) job_end"

text \<open>A transaction that the database may refuse.\<close>

definition if_up :: "scrub_env \<Rightarrow> nat \<Rightarrow> (instant \<Rightarrow> scrub_store \<Rightarrow> 'a \<times> scrub_store) \<Rightarrow> instant \<Rightarrow> scrub_store \<Rightarrow> (scrub_error + 'a) \<times> scrub_store" where
  "if_up env k body now s =
     (case se_down env k of
        Some message \<Rightarrow> (Inl (ScrubConnectionLost message), s)
      | None \<Rightarrow> let (x, s') = body now s in (Inr x, s'))"

definition scrub_tx :: "scrub_env \<Rightarrow> (instant \<Rightarrow> scrub_store \<Rightarrow> 'a \<times> scrub_store) \<Rightarrow> scrub_store job_run \<Rightarrow> 'a scrub_job" where
  "scrub_tx env body r = run_tx env (if_up env (jr_tx r) body) r"

section \<open>The checkpoint\<close>

definition record_is :: "uuid \<Rightarrow> uuid \<Rightarrow> erasure_row \<Rightarrow> bool" where
  "record_is w i e = (er_workspaceId e = w \<and> er_id e = i)"

definition write_record :: "uuid \<Rightarrow> uuid \<Rightarrow> (erasure_row \<Rightarrow> erasure_row) \<Rightarrow> scrub_store \<Rightarrow> scrub_store" where
  "write_record w i f s =
     s\<lparr>ss_contacts := (ss_contacts s)\<lparr>cs_erasures := update_where (record_is w i) f (ss_records s)\<rparr>\<rparr>"

fun cursorColumnFor :: "ScrubTable \<Rightarrow> erasure_row \<Rightarrow> ScrubCursor option" where
  "cursorColumnFor ScrubSends e = er_sendsScrubCursor e"
| "cursorColumnFor ScrubEvents e = er_eventsScrubCursor e"

fun countColumnFor :: "ScrubTable \<Rightarrow> erasure_row \<Rightarrow> nat" where
  "countColumnFor ScrubSends e = er_sendsScrubbed e"
| "countColumnFor ScrubEvents e = er_eventsScrubbed e"

fun advanced :: "ScrubTable \<Rightarrow> ScrubCursor \<Rightarrow> nat \<Rightarrow> erasure_row \<Rightarrow> erasure_row" where
  "advanced ScrubSends cursor n e = e\<lparr>er_sendsScrubCursor := Some cursor, er_sendsScrubbed := er_sendsScrubbed e + n\<rparr>"
| "advanced ScrubEvents cursor n e = e\<lparr>er_eventsScrubCursor := Some cursor, er_eventsScrubbed := er_eventsScrubbed e + n\<rparr>"

definition loadErasureScrubCheckpoint :: "uuid \<Rightarrow> uuid \<Rightarrow> ScrubTable \<Rightarrow> scrub_store \<Rightarrow> ScrubCursor option" where
  "loadErasureScrubCheckpoint w i table s = Option.bind (find (record_is w i) (ss_records s)) (cursorColumnFor table)"

definition advanceErasureScrubCheckpoint :: "uuid \<Rightarrow> uuid \<Rightarrow> ScrubTable \<Rightarrow> ScrubCursor \<Rightarrow> nat \<Rightarrow> scrub_store \<Rightarrow> scrub_store" where
  "advanceErasureScrubCheckpoint w i table cursor processedInPage = write_record w i (advanced table cursor processedInPage)"

section \<open>What survives\<close>

definition SEND_EVENT_PAYLOAD_EVIDENCE_ALLOWLIST :: "string list" where
  "SEND_EVENT_PAYLOAD_EVIDENCE_ALLOWLIST =
     [''event'', ''type'', ''timestamp'', ''sg_event_id'', ''sg_message_id'', ''smtp-id'', ''status'', ''attempt'',
      ''asm_group_id'', ''bounce_classification'']"

definition SEND_EVENT_PAYLOAD_EXPORT_ALLOWLIST :: "string list" where
  "SEND_EVENT_PAYLOAD_EXPORT_ALLOWLIST = SEND_EVENT_PAYLOAD_EVIDENCE_ALLOWLIST @ [''ip'', ''useragent'', ''url'', ''reason'']"

definition reconstruct :: "string list \<Rightarrow> js \<Rightarrow> (string \<times> js) list" where
  "reconstruct allowlist payload =
     (case payload of
        JObj input \<Rightarrow> List.map_filter (\<lambda>key. map_option (Pair key) (map_of input key)) allowlist
      | _ \<Rightarrow> [])"

definition buildScrubbedSendEventPayload :: "js \<Rightarrow> (string \<times> js) list" where
  "buildScrubbedSendEventPayload = reconstruct SEND_EVENT_PAYLOAD_EVIDENCE_ALLOWLIST"

definition buildExportSendEventPayload :: "js \<Rightarrow> (string \<times> js) list" where
  "buildExportSendEventPayload = reconstruct SEND_EVENT_PAYLOAD_EXPORT_ALLOWLIST"

definition buildScrubbedEventProperties :: "(string \<times> js) list \<Rightarrow> (string \<times> js) list" where
  "buildScrubbedEventProperties properties = []"

definition ERASURE_SCRUB_PAGE_LIMIT :: nat where "ERASURE_SCRUB_PAGE_LIMIT = 500"

section \<open>One page\<close>

type_synonym scrub_key = "instant \<times> byte_key"

definition send_event_key :: "stored_event \<Rightarrow> scrub_key" where
  "send_event_key e = (se_occurredAt e, ByteKey (se_id e))"

definition event_key :: "event_row \<Rightarrow> scrub_key" where
  "event_key e = (ev_occurredAt e, ByteKey (ev_id e))"

text \<open>\<open>(occurred_at, id) > cursor\<close>: a walk that has not started, and one that has ended, has no lower bound.\<close>

definition past :: "ScrubCursor option \<Rightarrow> scrub_key \<Rightarrow> bool" where
  "past cursor k = (case cursor of Some (ScrubAt occurredAt i) \<Rightarrow> (occurredAt, ByteKey i) < k | _ \<Rightarrow> True)"

text \<open>The join reaches the contact through the send; row-level security keeps the sends of other workspaces out.\<close>

definition event_of_contact :: "uuid \<Rightarrow> uuid \<Rightarrow> scrub_store \<Rightarrow> stored_event \<Rightarrow> bool" where
  "event_of_contact w contactId s e =
     (se_workspaceId e = w
      \<and> (\<exists>r \<in> set (l_sends (ss_db s)). se_sendId e = Some (s_id r) \<and> s_workspaceId r = w \<and> s_contactId r = contactId))"

definition rewrite_payload :: "uuid \<Rightarrow> stored_event \<Rightarrow> stored_event list \<Rightarrow> stored_event list" where
  "rewrite_payload w row =
     update_where (\<lambda>e. se_workspaceId e = w \<and> se_id e = se_id row \<and> se_occurredAt e = se_occurredAt row)
       (\<lambda>e. e\<lparr>se_payload := buildScrubbedSendEventPayload (JObj (se_payload row))\<rparr>)"

definition scrubSendEventsPage :: "uuid \<Rightarrow> uuid \<Rightarrow> uuid \<Rightarrow> ScrubCursor option \<Rightarrow> scrub_store \<Rightarrow> ScrubCursor \<times> scrub_store" where
  "scrubSendEventsPage w contactId i cursor s =
     (let rows = take ERASURE_SCRUB_PAGE_LIMIT (sort_key send_event_key
                   (filter (\<lambda>e. event_of_contact w contactId s e \<and> past cursor (send_event_key e)) (ss_sendEvents s)))
      in if rows = [] then (ScrubDone, advanceErasureScrubCheckpoint w i ScrubSends ScrubDone 0 s)
         else let nextCursor = ScrubAt (se_occurredAt (last rows)) (se_id (last rows))
              in (nextCursor, advanceErasureScrubCheckpoint w i ScrubSends nextCursor (length rows)
                    (s\<lparr>ss_sendEvents := fold (rewrite_payload w) rows (ss_sendEvents s)\<rparr>)))"

definition tracked_of_contact :: "uuid \<Rightarrow> uuid \<Rightarrow> event_row \<Rightarrow> bool" where
  "tracked_of_contact w contactId e = (ev_workspaceId e = w \<and> ev_contactId e = contactId)"

definition on_events :: "(event_row list \<Rightarrow> event_row list) \<Rightarrow> scrub_store \<Rightarrow> scrub_store" where
  "on_events f s = s\<lparr>ss_contacts := on_db (\<lambda>db. db\<lparr>t_events := f (t_events db)\<rparr>) (ss_contacts s)\<rparr>"

definition scrubEventsPage :: "uuid \<Rightarrow> uuid \<Rightarrow> uuid \<Rightarrow> ScrubCursor option \<Rightarrow> scrub_store \<Rightarrow> ScrubCursor \<times> scrub_store" where
  "scrubEventsPage w contactId i cursor s =
     (let rows = take ERASURE_SCRUB_PAGE_LIMIT (sort_key event_key
                   (filter (\<lambda>e. tracked_of_contact w contactId e \<and> past cursor (event_key e)) (t_events (ss_db s))))
      in if rows = [] then (ScrubDone, advanceErasureScrubCheckpoint w i ScrubEvents ScrubDone 0 s)
         else let nextCursor = ScrubAt (ev_occurredAt (last rows)) (ev_id (last rows))
              in (nextCursor, advanceErasureScrubCheckpoint w i ScrubEvents nextCursor (length rows)
                    (on_events (update_where (\<lambda>e. ev_workspaceId e = w \<and> ev_id e \<in> ev_id ` set rows)
                                  (\<lambda>e. e\<lparr>ev_properties := buildScrubbedEventProperties []\<rparr>)) s)))"

section \<open>The job\<close>

text \<open>The loop of \<open>walkTableToExhaustion\<close>: a page per transaction until one is empty.\<close>

partial_function (option) walk_pages ::
  "scrub_env \<Rightarrow> (ScrubCursor option \<Rightarrow> scrub_store \<Rightarrow> ScrubCursor \<times> scrub_store) \<Rightarrow> ScrubCursor option \<Rightarrow> scrub_store job_run
     \<Rightarrow> ((scrub_error, unit) job_result \<times> scrub_store job_run) option" where
  "walk_pages env pageFn cursor r =
     (case transact env (if_up env (jr_tx r) (\<lambda>_. pageFn cursor)) r of
        (Killed, r1) \<Rightarrow> Some (Killed, r1)
      | (Threw e, r1) \<Rightarrow> Some (Threw e, r1)
      | (Done cursor', r1) \<Rightarrow> if cursor' = ScrubDone then Some (Done (), r1) else walk_pages env pageFn (Some cursor') r1)"

declare walk_pages.simps [code]

definition walkTableToExhaustion ::
  "scrub_env \<Rightarrow> uuid \<Rightarrow> uuid \<Rightarrow> ScrubTable \<Rightarrow> (ScrubCursor option \<Rightarrow> scrub_store \<Rightarrow> ScrubCursor \<times> scrub_store) \<Rightarrow> scrub_store job_run
     \<Rightarrow> unit scrub_job" where
  "walkTableToExhaustion env w i table pageFn r =
     run_then (scrub_tx env (\<lambda>_ s. (loadErasureScrubCheckpoint w i table s, s)) r) (\<lambda>cursor r1.
       if cursor = Some ScrubDone then Some (Done (), r1) else walk_pages env pageFn cursor r1)"

definition loadErasureRecordForScrub :: "uuid \<Rightarrow> uuid \<Rightarrow> scrub_store \<Rightarrow> ErasureRecordStatus option" where
  "loadErasureRecordForScrub w i s = map_option er_status (find (record_is w i) (ss_records s))"

definition markScrubStartedIfPending :: "uuid \<Rightarrow> uuid \<Rightarrow> instant \<Rightarrow> scrub_store \<Rightarrow> scrub_store" where
  "markScrubStartedIfPending w i now =
     write_record w i (\<lambda>e. if er_status e = ErasurePending then e\<lparr>er_status := ErasureScrubbing, er_scrubStartedAt := Some now\<rparr> else e)"

definition markScrubComplete :: "uuid \<Rightarrow> uuid \<Rightarrow> instant \<Rightarrow> scrub_store \<Rightarrow> scrub_store" where
  "markScrubComplete w i now = write_record w i (\<lambda>e. e\<lparr>er_status := ErasureComplete, er_scrubCompletedAt := Some now\<rparr>)"

definition markScrubFailed :: "uuid \<Rightarrow> uuid \<Rightarrow> scrub_error \<Rightarrow> scrub_store \<Rightarrow> scrub_store" where
  "markScrubFailed w i err = write_record w i (\<lambda>e. e\<lparr>er_status := ErasureFailed, er_scrubError := Some (message_of err)\<rparr>)"

text \<open>The body of the \<open>try\<close>; what it throws is recorded, where that works, and thrown again.\<close>

definition scrub_tables :: "scrub_env \<Rightarrow> uuid \<Rightarrow> uuid \<Rightarrow> uuid \<Rightarrow> ErasureRecordStatus \<Rightarrow> scrub_store job_run \<Rightarrow> unit scrub_job" where
  "scrub_tables env w contactId i status r =
     run_then (if status = ErasurePending then scrub_tx env (\<lambda>now s. ((), markScrubStartedIfPending w i now s)) r else Some (Done (), r)) (\<lambda>_ r1.
     run_then (walkTableToExhaustion env w i ScrubSends (scrubSendEventsPage w contactId i) r1) (\<lambda>_ r2.
     run_then (walkTableToExhaustion env w i ScrubEvents (scrubEventsPage w contactId i) r2) (\<lambda>_ r3.
     scrub_tx env (\<lambda>now s. ((), markScrubComplete w i now s)) r3)))"

definition runErasureScrub :: "scrub_env \<Rightarrow> uuid \<Rightarrow> uuid \<Rightarrow> uuid \<Rightarrow> scrub_store job_run \<Rightarrow> unit scrub_job" where
  "runErasureScrub env w contactId i r =
     run_then (scrub_tx env (\<lambda>_ s. (loadErasureRecordForScrub w i s, s)) r) (\<lambda>found r1.
       case found of
         None \<Rightarrow> Some (Done (), r1)
       | Some status \<Rightarrow>
           if status = ErasureComplete then Some (Done (), r1)
           else run_catch (scrub_tables env w contactId i status r1) (\<lambda>e r2.
                  case scrub_tx env (\<lambda>_ s. ((), markScrubFailed w i e s)) r2 of
                    Some (Threw e', r3) \<Rightarrow> Some (Done (), r3)
                  | x \<Rightarrow> x))"

section \<open>The reclaim\<close>

definition ERASURE_SCRUB_RECLAIM_LEASE_MINUTES :: int where "ERASURE_SCRUB_RECLAIM_LEASE_MINUTES = 15"

definition ERASURE_SCRUB_RECLAIM_PAGE_LIMIT :: nat where "ERASURE_SCRUB_RECLAIM_PAGE_LIMIT = 100"

definition reclaimable :: "instant \<Rightarrow> erasure_row \<Rightarrow> bool" where
  "reclaimable now e =
     (let horizon = now - ERASURE_SCRUB_RECLAIM_LEASE_MINUTES * minute_ms
      in er_status e = ErasurePending \<and> er_requestedAt e < horizon
         \<or> er_status e = ErasureScrubbing \<and> (case er_scrubStartedAt e of None \<Rightarrow> False | Some t \<Rightarrow> t < horizon))"

definition findReclaimableErasureRecords :: "instant \<Rightarrow> uuid \<Rightarrow> scrub_store \<Rightarrow> erasure_row list" where
  "findReclaimableErasureRecords now w s =
     take ERASURE_SCRUB_RECLAIM_PAGE_LIMIT (sort_key er_requestedAt (filter (\<lambda>e. er_workspaceId e = w \<and> reclaimable now e) (ss_records s)))"

record ErasureScrubJob =
  ej_workspaceId :: uuid
  ej_contactId :: "uuid option"
  ej_erasureRecordId :: uuid

definition buildErasureScrubJobId :: "uuid \<Rightarrow> uuid" where
  "buildErasureScrubJobId erasureRecordId = erasureRecordId"

definition buildErasureScrubJobPayload :: "uuid \<Rightarrow> uuid option \<Rightarrow> uuid \<Rightarrow> ErasureScrubJob" where
  "buildErasureScrubJobPayload w contactId i = \<lparr>ej_workspaceId = w, ej_contactId = contactId, ej_erasureRecordId = i\<rparr>"

text \<open>The queue keeps one job per id, so an addition under an id it knows is none. \<open>accepts k\<close>: the \<open>k\<close>-th addition reaches
  Redis; \<open>readable w\<close>: the read of a workspace succeeds.\<close>

definition add_job :: "uuid \<Rightarrow> ErasureScrubJob \<Rightarrow> (uuid \<rightharpoonup> ErasureScrubJob) \<Rightarrow> uuid \<rightharpoonup> ErasureScrubJob" where
  "add_job i job queue = (if queue i = None then queue(i \<mapsto> job) else queue)"

record reclaim_summary =
  rc_recordsReclaimed :: nat
  rc_workspacesErrored :: nat

fun reclaim_records ::
  "(nat \<Rightarrow> bool) \<Rightarrow> erasure_row list \<Rightarrow> reclaim_summary \<Rightarrow> (uuid \<rightharpoonup> ErasureScrubJob) \<Rightarrow> bool \<times> reclaim_summary \<times> (uuid \<rightharpoonup> ErasureScrubJob)" where
  "reclaim_records accepts [] summary queue = (True, summary, queue)"
| "reclaim_records accepts (e # es) summary queue =
     (if \<not> accepts (rc_recordsReclaimed summary) then (False, summary, queue)
      else reclaim_records accepts es (summary\<lparr>rc_recordsReclaimed := rc_recordsReclaimed summary + 1\<rparr>)
             (add_job (buildErasureScrubJobId (er_id e))
                (buildErasureScrubJobPayload (er_workspaceId e) (er_contactId e) (er_id e)) queue))"

fun reclaim_workspaces ::
  "(uuid \<Rightarrow> bool) \<Rightarrow> (nat \<Rightarrow> bool) \<Rightarrow> instant \<Rightarrow> scrub_store \<Rightarrow> uuid list \<Rightarrow> reclaim_summary \<Rightarrow> (uuid \<rightharpoonup> ErasureScrubJob)
     \<Rightarrow> reclaim_summary \<times> (uuid \<rightharpoonup> ErasureScrubJob)" where
  "reclaim_workspaces readable accepts now s [] summary queue = (summary, queue)"
| "reclaim_workspaces readable accepts now s (w # ws) summary queue =
     (let (ok, summary1, queue1) =
          (if readable w then reclaim_records accepts (findReclaimableErasureRecords now w s) summary queue else (False, summary, queue))
      in reclaim_workspaces readable accepts now s ws
           (if ok then summary1 else summary1\<lparr>rc_workspacesErrored := rc_workspacesErrored summary1 + 1\<rparr>) queue1)"

definition runErasureScrubReclaim ::
  "(uuid \<Rightarrow> bool) \<Rightarrow> (nat \<Rightarrow> bool) \<Rightarrow> instant \<Rightarrow> uuid list \<Rightarrow> scrub_store \<Rightarrow> (uuid \<rightharpoonup> ErasureScrubJob) \<Rightarrow> reclaim_summary \<times> (uuid \<rightharpoonup> ErasureScrubJob)" where
  "runErasureScrubReclaim readable accepts now workspaceIds s queue =
     reclaim_workspaces readable accepts now s workspaceIds \<lparr>rc_recordsReclaimed = 0, rc_workspacesErrored = 0\<rparr> queue"

end
