(* ===== verification/Erasure_Walk.thy ===== *)
theory Erasure_Walk
  imports Erasure_Scrub
begin

text \<open>
  What both walks of the scrub share, as a locale: a page function that cleans the next rows of a contact in the order of their
  key and moves the cursor, in one transaction. Its clients are the loop and whatever follows it; the two tables
  are its interpretations.
\<close>

section \<open>The contract of a page\<close>

definition reached :: "ScrubCursor option \<Rightarrow> scrub_key \<Rightarrow> bool" where
  "reached cursor k =
     (case cursor of None \<Rightarrow> False | Some (ScrubAt occurredAt i) \<Rightarrow> k \<le> (occurredAt, ByteKey i) | Some ScrubDone \<Rightarrow> True)"

lemma past_reached: "cursor \<noteq> Some ScrubDone \<Longrightarrow> past cursor k = (\<not> reached cursor k)"
  by (auto simp: past_def reached_def linorder_not_le split: option.split ScrubCursor.split)

definition own_record :: "uuid \<Rightarrow> uuid \<Rightarrow> scrub_store \<Rightarrow> erasure_row \<Rightarrow> bool" where
  "own_record w i s e = (filter (record_is w i) (ss_records s) = [e])"

lemma own_record_find: "own_record w i s e \<Longrightarrow> find (record_is w i) (ss_records s) = Some e"
proof -
  have "find P t = (case filter P t of [] \<Rightarrow> None | x # _ \<Rightarrow> Some x)" for P and t :: "erasure_row list" by (induction t) auto
  then show "own_record w i s e \<Longrightarrow> ?thesis" by (simp add: own_record_def)
qed

lemma own_record_write:
  assumes "own_record w i s e" "ss_records s' = update_where (record_is w i) f (ss_records s)" "record_is w i (f e) = record_is w i e"
  shows "own_record w i s' (f e)"
proof -
  have "filter P (update_where P f t) = [f e]" if "filter P t = [e]" "P (f e)" for P and t :: "erasure_row list"
    using that
  proof (induction t)
    case (Cons x t)
    show ?case
    proof (cases "P x")
      case True
      then have "x = e" "filter P t = []" using Cons.prems by simp_all
      moreover from this have "update_where P f t = t" by (intro update_where_idle) (simp add: filter_empty_conv)
      ultimately show ?thesis using True Cons.prems by simp
    qed (use Cons in simp)
  qed simp
  moreover have "record_is w i e" using assms(1) by (metis filter_eq_ConsD own_record_def)
  ultimately show ?thesis using assms by (simp add: own_record_def)
qed

lemma advanced_fields [simp]:
  "record_is w i (advanced table cursor n e) = record_is w i e" "er_status (advanced table cursor n e) = er_status e"
  "cursorColumnFor table (advanced table cursor n e) = Some cursor"
  "countColumnFor table (advanced table cursor n e) = countColumnFor table e + n"
  "table' \<noteq> table \<Longrightarrow> cursorColumnFor table' (advanced table cursor n e) = cursorColumnFor table' e"
  "table' \<noteq> table \<Longrightarrow> countColumnFor table' (advanced table cursor n e) = countColumnFor table' e"
  by (cases table; cases table'; simp add: record_is_def)+

locale scrub_walk =
  fixes table :: ScrubTable and w i :: uuid
    and pageFn :: "ScrubCursor option \<Rightarrow> scrub_store \<Rightarrow> ScrubCursor \<times> scrub_store"
    and rows :: "scrub_store \<Rightarrow> 'r list"
    and own :: "scrub_store \<Rightarrow> 'r \<Rightarrow> bool"
    and wf :: "scrub_store \<Rightarrow> bool"
    and key :: "'r \<Rightarrow> scrub_key"
    and clean :: "'r \<Rightarrow> 'r"
  assumes wf_keys: "wf s \<Longrightarrow> distinct (map key (rows s))"
    and clean_key: "key (clean r) = key r" and clean_own: "own s (clean r) = own s r"
    and page_keeps: "pageFn cursor s = (cursor', s') \<Longrightarrow> wf s \<Longrightarrow> wf s' \<and> own s' = own s"
    and page_end: "pageFn cursor s = (cursor', s') \<Longrightarrow> wf s \<Longrightarrow>
      take ERASURE_SCRUB_PAGE_LIMIT (sort_key key (filter (\<lambda>r. own s r \<and> past cursor (key r)) (rows s))) = [] \<Longrightarrow>
      cursor' = ScrubDone \<and> rows s' = rows s \<and> ss_records s' = update_where (record_is w i) (advanced table cursor' 0) (ss_records s)"
    and page_next: "pageFn cursor s = (cursor', s') \<Longrightarrow> wf s \<Longrightarrow>
      page = take ERASURE_SCRUB_PAGE_LIMIT (sort_key key (filter (\<lambda>r. own s r \<and> past cursor (key r)) (rows s))) \<Longrightarrow> page \<noteq> [] \<Longrightarrow>
      (\<exists>t x. cursor' = ScrubAt t x \<and> key (last page) = (t, ByteKey x))
      \<and> rows s' = update_where (\<lambda>r. own s r \<and> key r \<in> key ` set page) clean (rows s)
      \<and> ss_records s' = update_where (record_is w i) (advanced table cursor' (length page)) (ss_records s)"
begin

text \<open>How far a walk that began at \<open>s0\<close> has come.\<close>

definition walked :: "scrub_store \<Rightarrow> scrub_store \<Rightarrow> ScrubCursor option \<Rightarrow> nat \<Rightarrow> bool" where
  "walked s0 s cursor n =
     (rows s = update_where (\<lambda>r. own s0 r \<and> reached cursor (key r)) clean (rows s0)
      \<and> n = row_count (\<lambda>r. own s0 r \<and> reached cursor (key r)) (rows s0)
      \<and> own s = own s0 \<and> wf s0 \<and> wf s)"

definition ahead :: "scrub_store \<Rightarrow> ScrubCursor option \<Rightarrow> 'r list" where
  "ahead s0 cursor = sort_key key (filter (\<lambda>r. own s0 r \<and> past cursor (key r)) (rows s0))"

lemma walked_start: "wf s \<Longrightarrow> walked s s None 0"
  by (simp add: walked_def reached_def row_count_def update_where_idle)

lemma walked_ahead:
  assumes "walked s0 s cursor n" "cursor \<noteq> Some ScrubDone"
  shows "sort_key key (filter (\<lambda>r. own s r \<and> past cursor (key r)) (rows s)) = ahead s0 cursor"
proof -
  have "filter (\<lambda>r. own s0 r \<and> past cursor (key r)) (update_where (\<lambda>r. own s0 r \<and> reached cursor (key r)) clean t)
      = filter (\<lambda>r. own s0 r \<and> past cursor (key r)) t" for t
    by (induction t) (simp_all add: clean_own clean_key past_reached [OF assms(2)])
  then show ?thesis using assms(1) by (simp add: walked_def ahead_def)
qed

lemma walked_end:
  assumes "walked s0 s cursor n" "cursor \<noteq> Some ScrubDone" "take ERASURE_SCRUB_PAGE_LIMIT (ahead s0 cursor) = []"
    "pageFn cursor s = (cursor', s')"
  shows "cursor' = ScrubDone \<and> walked s0 s' (Some cursor') n
    \<and> ss_records s' = update_where (record_is w i) (advanced table cursor' 0) (ss_records s)"
proof -
  have "wf s" using assms(1) by (simp add: walked_def)
  note eff = page_end [OF assms(4) this] page_keeps [OF assms(4) this]
  have none: "own s0 r \<Longrightarrow> reached cursor (key r)" if "r \<in> set (rows s0)" for r
  proof -
    have "ahead s0 cursor = []" using assms(3) by (simp add: ERASURE_SCRUB_PAGE_LIMIT_def)
    then have "filter (\<lambda>r. own s0 r \<and> past cursor (key r)) (rows s0) = []" by (simp add: ahead_def sort_key_empty)
    then show "own s0 r \<Longrightarrow> reached cursor (key r)" using that past_reached [OF assms(2)] by (auto simp: filter_empty_conv)
  qed
  have "update_where (\<lambda>r. own s0 r \<and> reached (Some ScrubDone) (key r)) clean (rows s0) = rows s"
    using assms(1) none unfolding walked_def update_where_def by (auto simp: reached_def [of "Some ScrubDone"])
  moreover have "filter (\<lambda>r. own s0 r \<and> reached (Some ScrubDone) (key r)) (rows s0) = filter (\<lambda>r. own s0 r \<and> reached cursor (key r)) (rows s0)"
    by (rule filter_cong) (use none in \<open>auto simp: reached_def [of "Some ScrubDone"]\<close>)
  ultimately have "update_where (\<lambda>r. own s0 r \<and> reached (Some ScrubDone) (key r)) clean (rows s0) = rows s"
    "row_count (\<lambda>r. own s0 r \<and> reached (Some ScrubDone) (key r)) (rows s0) = n"
    using assms(1) by (simp_all add: walked_def row_count_def)
  then show ?thesis
    using eff assms(1,3) walked_ahead [OF assms(1,2)] by (simp add: walked_def)
qed

lemma walked_next:
  assumes walked: "walked s0 s cursor n" and open_walk: "cursor \<noteq> Some ScrubDone"
    and page: "page = take ERASURE_SCRUB_PAGE_LIMIT (ahead s0 cursor)" "page \<noteq> []" and run: "pageFn cursor s = (cursor', s')"
  shows "cursor' \<noteq> ScrubDone" "walked s0 s' (Some cursor') (n + length page)" "length (ahead s0 (Some cursor')) < length (ahead s0 cursor)"
    "ss_records s' = update_where (record_is w i) (advanced table cursor' (length page)) (ss_records s)"
proof -
  let ?q = "\<lambda>r. own s0 r \<and> past cursor (key r)"
  have wf: "wf s" "wf s0" and own: "own s = own s0" using walked by (simp_all add: walked_def)
  have page': "page = take ERASURE_SCRUB_PAGE_LIMIT (sort_key key (filter (\<lambda>r. own s r \<and> past cursor (key r)) (rows s)))"
    using page(1) walked_ahead [OF walked open_walk] by simp
  obtain t x where cursor': "cursor' = ScrubAt t x" and last: "key (last page) = (t, ByteKey x)"
    and rows': "rows s' = update_where (\<lambda>r. own s0 r \<and> key r \<in> key ` set page) clean (rows s)"
    and records: "ss_records s' = update_where (record_is w i) (advanced table cursor' (length page)) (ss_records s)"
    using page_next [OF run wf(1) page' page(2)] own by auto
  have "distinct (map key (filter ?q (rows s0)))" using wf_keys [OF wf(2)] by (rule distinct_map_filter)
  note parts = page_parts [OF this ahead_def page(2) [unfolded page(1)], folded page(1), unfolded last]
  have reach: "reached (Some cursor') k \<longleftrightarrow> k \<le> (t, ByteKey x)" for k by (simp add: reached_def cursor')
  have beyond: "k \<le> (t, ByteKey x)" if k: "reached cursor k" for k
  proof -
    obtain a b where cursor: "cursor = Some (ScrubAt a b)"
      using k open_walk by (auto simp: reached_def split: option.splits ScrubCursor.splits)
    have "past cursor (t, ByteKey x)" using parts(4) last by metis
    then have "(a, ByteKey b) < (t, ByteKey x)" unfolding past_def cursor option.case ScrubCursor.case .
    moreover have "k \<le> (a, ByteKey b)" using k unfolding reached_def cursor option.case ScrubCursor.case .
    ultimately show ?thesis by (metis order.strict_implies_order order.trans)
  qed
  have in_page: "key r \<in> key ` set page \<longleftrightarrow> past cursor (key r) \<and> key r \<le> (t, ByteKey x)" if "r \<in> set (rows s0)" "own s0 r" for r
  proof
    assume "key r \<in> key ` set page"
    then obtain q where q: "q \<in> set page" "key r = key q" by blast
    then have "q \<in> set (ahead s0 cursor)" unfolding page(1) by (blast dest: in_set_takeD)
    then show "past cursor (key r) \<and> key r \<le> (t, ByteKey x)" using parts(3) q by (simp add: ahead_def)
  next
    assume "past cursor (key r) \<and> key r \<le> (t, ByteKey x)"
    then have "r \<in> set (filter (\<lambda>r. key r \<le> (t, ByteKey x)) (ahead s0 cursor))" using that by (simp add: ahead_def)
    then show "key r \<in> key ` set page" using parts(2) by auto
  qed
  show "cursor' \<noteq> ScrubDone" by (simp add: cursor')
  have "update_where (\<lambda>r. own s0 r \<and> key r \<in> key ` set page) clean (update_where (\<lambda>r. own s0 r \<and> reached cursor (key r)) clean (rows s0))
      = update_where (\<lambda>r. own s0 r \<and> reached (Some cursor') (key r)) clean (rows s0)"
    unfolding update_where_def map_map
  proof (rule map_cong [OF HOL.refl])
    fix r assume "r \<in> set (rows s0)"
    then show "((\<lambda>r. if own s0 r \<and> key r \<in> key ` set page then clean r else r) \<circ> (\<lambda>r. if own s0 r \<and> reached cursor (key r) then clean r else r)) r
      = (if own s0 r \<and> reached (Some cursor') (key r) then clean r else r)"
      using in_page [of r] beyond [of "key r"] past_reached [OF open_walk, of "key r"]
      by (auto simp: reach clean_own clean_key)
  qed
  moreover have "row_count (\<lambda>r. own s0 r \<and> reached (Some cursor') (key r)) (rows s0)
      = row_count (\<lambda>r. own s0 r \<and> reached cursor (key r)) (rows s0) + length page"
  proof -
    have "length page = length (filter (\<lambda>r. key r \<le> (t, ByteKey x)) (ahead s0 cursor))" using parts(2) by simp
    then have "length page = row_count (\<lambda>r. (own s0 r \<and> past cursor (key r)) \<and> key r \<le> (t, ByteKey x)) (rows s0)"
      by (simp add: ahead_def filter_sort row_count_def)
    moreover have "row_count (\<lambda>r. own s0 r \<and> reached (Some cursor') (key r)) u
        = row_count (\<lambda>r. own s0 r \<and> reached cursor (key r)) u
          + row_count (\<lambda>r. (own s0 r \<and> past cursor (key r)) \<and> key r \<le> (t, ByteKey x)) u" for u
      using beyond past_reached [OF open_walk] by (induction u) (auto simp: reach)
    ultimately show ?thesis by simp
  qed
  ultimately show "walked s0 s' (Some cursor') (n + length page)"
    using walked rows' page_keeps [OF run wf(1)] by (simp add: walked_def)
  have "filter (\<lambda>r. own s0 r \<and> past (Some cursor') (key r)) (rows s0) = filter (\<lambda>r. ?q r \<and> (t, ByteKey x) < key r) (rows s0)"
  proof (rule filter_cong [OF HOL.refl])
    fix r
    have "past (Some cursor') (key r) \<longleftrightarrow> \<not> key r \<le> (t, ByteKey x)" using past_reached [of "Some cursor'" "key r"] reach by (simp add: cursor')
    then show "(own s0 r \<and> past (Some cursor') (key r)) = (?q r \<and> (t, ByteKey x) < key r)"
      using beyond [of "key r"] past_reached [OF open_walk, of "key r"] by (metis linorder_not_le)
  qed
  then have "ahead s0 (Some cursor') = drop ERASURE_SCRUB_PAGE_LIMIT (ahead s0 cursor)"
    using parts(1) by (simp add: ahead_def)
  then show "length (ahead s0 (Some cursor')) < length (ahead s0 cursor)"
    using page by (cases "ahead s0 cursor") (simp_all add: ERASURE_SCRUB_PAGE_LIMIT_def)
  show "ss_records s' = update_where (record_is w i) (advanced table cursor' (length page)) (ss_records s)" by (rule records)
qed

text \<open>A walk under way: the cursor of the record is where the walk is, and \<open>rest\<close> is what it does not touch.\<close>

definition on_walk :: "(scrub_store \<Rightarrow> erasure_row \<Rightarrow> bool) \<Rightarrow> scrub_store \<Rightarrow> scrub_store \<Rightarrow> bool" where
  "on_walk rest s0 s =
     (\<exists>e. own_record w i s e \<and> walked s0 s (cursorColumnFor table e) (countColumnFor table e) \<and> rest s e)"

definition walk_done :: "(scrub_store \<Rightarrow> erasure_row \<Rightarrow> bool) \<Rightarrow> scrub_store \<Rightarrow> scrub_store \<Rightarrow> bool" where
  "walk_done rest s0 s =
     (\<exists>e. own_record w i s e \<and> walked s0 s (Some ScrubDone) (countColumnFor table e) \<and> rest s e
        \<and> cursorColumnFor table e = Some ScrubDone)"

definition kept_by_pages :: "(scrub_store \<Rightarrow> erasure_row \<Rightarrow> bool) \<Rightarrow> bool" where
  "kept_by_pages rest =
     (\<forall>cursor s cursor' s' e n. pageFn cursor s = (cursor', s') \<and> rest s e \<longrightarrow> rest s' (advanced table cursor' n e))"

end

definition calm :: "scrub_env \<Rightarrow> bool" where
  "calm env = (quiet_env env \<and> (\<forall>k. se_down env k = None))"

lemma scrub_tx_ends:
  assumes "calm env" "I (jr_db r)" "\<And>now x s'. body now (jr_db r) = (x, s') \<Longrightarrow> I s' \<and> Q x s'"
  shows "ends_in env I Q (scrub_tx env body r)"
  unfolding scrub_tx_def
proof (rule run_tx_ends)
  fix now
  obtain x s' where "body now (jr_db r) = (x, s')" by force
  then show "\<exists>a db. if_up env (jr_tx r) body now (jr_db r) = (Inr a, db) \<and> I db \<and> Q a db"
    using assms(1,3) by (simp add: if_up_def calm_def)
qed (use assms in \<open>simp_all add: calm_def\<close>)

lemma walk_pages_run:
  "walk_pages env pageFn cursor r =
     run_then (scrub_tx env (\<lambda>_. pageFn cursor) r) (\<lambda>cursor' r1.
       if cursor' = ScrubDone then Some (Done (), r1) else walk_pages env pageFn (Some cursor') r1)"
  by (subst walk_pages.simps) (auto simp: scrub_tx_def run_tx_def run_then_def split: prod.split job_result.split option.split)

context scrub_walk
begin

lemma page_step:
  assumes rest: "kept_by_pages rest" and e: "own_record w i s e" "walked s0 s cursor (countColumnFor table e)" "rest s e"
    and cursor: "cursor = cursorColumnFor table e" "cursor \<noteq> Some ScrubDone" and run: "pageFn cursor s = (cursor', s')"
  obtains e' where "own_record w i s' e'" "walked s0 s' (Some cursor') (countColumnFor table e')" "rest s' e'"
    "cursorColumnFor table e' = Some cursor'" "cursor' \<noteq> ScrubDone \<Longrightarrow> length (ahead s0 (Some cursor')) < length (ahead s0 cursor)"
proof (cases "take ERASURE_SCRUB_PAGE_LIMIT (ahead s0 cursor) = []")
  case True
  note eff = walked_end [OF e(2) cursor(2) True run]
  show ?thesis
  proof (rule that)
    show "own_record w i s' (advanced table cursor' 0 e)" by (rule own_record_write [OF e(1)]) (use eff in simp_all)
    show "rest s' (advanced table cursor' 0 e)" using rest run e(3) by (auto simp: kept_by_pages_def)
  qed (use eff in auto)
next
  case False
  define n where "n = length (take ERASURE_SCRUB_PAGE_LIMIT (ahead s0 cursor))"
  note eff = walked_next [OF e(2) cursor(2) HOL.refl False run, folded n_def]
  show ?thesis
  proof (rule that)
    show "own_record w i s' (advanced table cursor' n e)" by (rule own_record_write [OF e(1)]) (use eff in simp_all)
    show "rest s' (advanced table cursor' n e)" using rest run e(3) by (auto simp: kept_by_pages_def)
  qed (use eff in simp_all)
qed

lemma walk_pages_end:
  assumes calm: "calm env" and rest: "kept_by_pages rest"
  shows "own_record w i (jr_db r) e \<Longrightarrow> walked s0 (jr_db r) cursor (countColumnFor table e) \<Longrightarrow> rest (jr_db r) e \<Longrightarrow>
    cursor = cursorColumnFor table e \<Longrightarrow> cursor \<noteq> Some ScrubDone \<Longrightarrow>
    ends_in env (on_walk rest s0) (\<lambda>_. walk_done rest s0) (walk_pages env pageFn cursor r)"
proof (induction "length (ahead s0 cursor)" arbitrary: cursor r e rule: less_induct)
  case less
  let ?Q = "\<lambda>cursor' s'. \<exists>e'. own_record w i s' e' \<and> walked s0 s' (Some cursor') (countColumnFor table e') \<and> rest s' e'
      \<and> cursorColumnFor table e' = Some cursor' \<and> (cursor' \<noteq> ScrubDone \<longrightarrow> length (ahead s0 (Some cursor')) < length (ahead s0 cursor))"
  have "on_walk rest s0 (jr_db r)" using less.prems unfolding on_walk_def by metis
  show ?case
  proof (subst walk_pages_run, rule run_then_ends [OF scrub_tx_ends [where I = "on_walk rest s0" and r = r and Q = ?Q, OF calm \<open>on_walk rest s0 (jr_db r)\<close>]])
    fix cursor' s'
    assume "pageFn cursor (jr_db r) = (cursor', s')"
    from page_step [OF rest less.prems(1-5) this] have "?Q cursor' s'" by metis
    then show "on_walk rest s0 s' \<and> ?Q cursor' s'" unfolding on_walk_def by metis
  next
    fix cursor' and r1 :: "scrub_store job_run"
    assume I: "on_walk rest s0 (jr_db r1)" and "?Q cursor' (jr_db r1)"
    then obtain e' where e': "own_record w i (jr_db r1) e'" "walked s0 (jr_db r1) (Some cursor') (countColumnFor table e')" "rest (jr_db r1) e'"
      "Some cursor' = cursorColumnFor table e'" and shorter: "cursor' \<noteq> ScrubDone \<longrightarrow> length (ahead s0 (Some cursor')) < length (ahead s0 cursor)" by metis
    show "ends_in env (on_walk rest s0) (\<lambda>_. walk_done rest s0)
        (if cursor' = ScrubDone then Some (Done (), r1) else walk_pages env pageFn (Some cursor') r1)"
    proof (cases "cursor' = ScrubDone")
      case True
      then show ?thesis using I e' by (auto simp: walk_done_def)
    next
      case False
      with less.hyps [OF _ e'] shorter show ?thesis by simp
    qed
  qed
qed

lemma table_walk_ends:
  assumes calm: "calm env" and rest: "kept_by_pages rest" and start: "on_walk rest s0 (jr_db r)"
  shows "ends_in env (on_walk rest s0) (\<lambda>_. walk_done rest s0) (walkTableToExhaustion env w i table pageFn r)"
proof -
  let ?Q = "\<lambda>cursor s. \<exists>e. own_record w i s e \<and> walked s0 s cursor (countColumnFor table e) \<and> rest s e \<and> cursor = cursorColumnFor table e"
  show ?thesis
    unfolding walkTableToExhaustion_def
  proof (rule run_then_ends [OF scrub_tx_ends [where I = "on_walk rest s0" and r = r and Q = ?Q, OF calm start]])
    fix cursor s'
    assume "(loadErasureScrubCheckpoint w i table (jr_db r), jr_db r) = (cursor, s')"
    then have s': "s' = jr_db r" "cursor = loadErasureScrubCheckpoint w i table (jr_db r)" by auto
    from start obtain e where e: "own_record w i (jr_db r) e" "walked s0 (jr_db r) (cursorColumnFor table e) (countColumnFor table e)" "rest (jr_db r) e"
      by (auto simp: on_walk_def)
    then have "cursor = cursorColumnFor table e" by (simp add: s'(2) loadErasureScrubCheckpoint_def own_record_find)
    with e start show "on_walk rest s0 s' \<and> ?Q cursor s'" unfolding s'(1) by metis
  next
    fix cursor and r1 :: "scrub_store job_run"
    assume I: "on_walk rest s0 (jr_db r1)" and "?Q cursor (jr_db r1)"
    then obtain e where e: "own_record w i (jr_db r1) e" "walked s0 (jr_db r1) cursor (countColumnFor table e)" "rest (jr_db r1) e"
      "cursor = cursorColumnFor table e" by blast
    show "ends_in env (on_walk rest s0) (\<lambda>_. walk_done rest s0)
        (if cursor = Some ScrubDone then Some (Done (), r1) else walk_pages env pageFn cursor r1)"
    proof (cases "cursor = Some ScrubDone")
      case True
      then show ?thesis using I e by (auto simp: walk_done_def)
    next
      case False
      from walk_pages_end [OF calm rest e False] False show ?thesis by simp
    qed
  qed
qed

end

end
