(* ===== verification/Erasure_Properties.thy ===== *)
theory Erasure_Properties
  imports Erasure_Walk Webhook_Events Contact_Consent
begin

text \<open>
  The two walks of the scrub as interpretations of \<open>scrub_walk\<close>, the end of the whole job from any state that killed runs
  have left, and what it does not reach: the texts of the mail servers outside of the payload, and events that
  arrive when it is over.
\<close>

section \<open>The two tables\<close>

definition clean_send_event :: "stored_event \<Rightarrow> stored_event" where
  "clean_send_event e = e\<lparr>se_payload := buildScrubbedSendEventPayload (JObj (se_payload e))\<rparr>"

definition clean_event :: "event_row \<Rightarrow> event_row" where
  "clean_event e = e\<lparr>ev_properties := []\<rparr>"

lemma advance_store [simp]:
  "ss_records (advanceErasureScrubCheckpoint w i table cursor n s) = update_where (record_is w i) (advanced table cursor n) (ss_records s)"
  "ss_sendEvents (advanceErasureScrubCheckpoint w i table cursor n s) = ss_sendEvents s"
  "ss_db (advanceErasureScrubCheckpoint w i table cursor n s) = ss_db s"
  by (simp_all add: advanceErasureScrubCheckpoint_def write_record_def)

lemma on_events_store [simp]:
  "t_events (ss_db (on_events f s)) = f (t_events (ss_db s))" "l_sends (ss_db (on_events f s)) = l_sends (ss_db s)"
  "ss_sendEvents (on_events f s) = ss_sendEvents s" "ss_records (on_events f s) = ss_records s"
  by (simp_all add: on_events_def on_db_def)

lemma event_of_contact_same: "l_sends (ss_db s') = l_sends (ss_db s) \<Longrightarrow> event_of_contact w c s' = event_of_contact w c s"
  by (rule ext) (simp add: event_of_contact_def)

lemma clean_send_event_fields [simp]:
  "send_event_key (clean_send_event e) = send_event_key e" "event_of_contact w c s (clean_send_event e) = event_of_contact w c s e"
  "se_reason (clean_send_event e) = se_reason e"
  by (simp_all add: clean_send_event_def send_event_key_def event_of_contact_def)

lemma rewritten_row:
  assumes "distinct (map send_event_key t)" "row \<in> set t" "se_workspaceId row = w"
  shows "rewrite_payload w row t = update_where (\<lambda>e. send_event_key e = send_event_key row) clean_send_event t"
  unfolding rewrite_payload_def update_where_def
proof (rule map_cong [OF HOL.refl])
  fix e assume "e \<in> set t"
  then have "send_event_key e = send_event_key row \<Longrightarrow> e = row" using assms(1,2) by (simp add: distinct_map inj_on_def)
  then show "(if se_workspaceId e = w \<and> se_id e = se_id row \<and> se_occurredAt e = se_occurredAt row
        then e\<lparr>se_payload := buildScrubbedSendEventPayload (JObj (se_payload row))\<rparr> else e)
      = (if send_event_key e = send_event_key row then clean_send_event e else e)"
    using assms(3) by (auto simp: send_event_key_def clean_send_event_def)
qed

lemma rewritten_rows:
  assumes "distinct (map send_event_key t)" "distinct (map send_event_key page)" "\<forall>r \<in> set page. r \<in> set t \<and> se_workspaceId r = w"
  shows "fold (rewrite_payload w) page t = update_where (\<lambda>e. send_event_key e \<in> send_event_key ` set page) clean_send_event t"
  using assms
proof (induction page arbitrary: t)
  case Nil
  then show ?case by (simp add: update_where_idle)
next
  case (Cons row page)
  let ?t = "update_where (\<lambda>e. send_event_key e = send_event_key row) clean_send_event t"
  have t: "rewrite_payload w row t = ?t" using Cons.prems by (intro rewritten_row) simp_all
  have keys: "map send_event_key ?t = map send_event_key t" by (rule map_update_where) simp
  have "r \<in> set ?t" if "r \<in> set page" for r
  proof -
    have "send_event_key row \<notin> send_event_key ` set page" "r \<in> set t" using Cons.prems(2,3) that by simp_all
    moreover from this(1) have "send_event_key r \<noteq> send_event_key row" using that by (metis image_eqI)
    ultimately show ?thesis unfolding set_update_where by (intro bexI [of _ r]) simp_all
  qed
  then have "fold (rewrite_payload w) page ?t = update_where (\<lambda>e. send_event_key e \<in> send_event_key ` set page) clean_send_event ?t"
    using Cons.IH [of ?t] Cons.prems keys by simp
  also have "\<dots> = update_where (\<lambda>e. send_event_key e \<in> send_event_key ` set (row # page)) clean_send_event t"
    unfolding update_where_def map_map
    by (rule map_cong [OF HOL.refl]) (use Cons.prems(2) in auto)
  finally show ?case using t by simp
qed

lemma page_rows:
  assumes "distinct (map k t)" "page = take n (sort_key k (filter q t))"
  shows "\<forall>r \<in> set page. r \<in> set t \<and> q r" "distinct (map k page)"
proof -
  show "\<forall>r \<in> set page. r \<in> set t \<and> q r" unfolding assms(2) by (auto dest!: in_set_takeD)
  have "distinct (map k (filter q t))" using assms(1) by (rule distinct_map_filter)
  then have "distinct (map k (sort_key k (filter q t)))" by (simp add: distinct_map)
  then show "distinct (map k page)" unfolding assms(2) take_map [symmetric] by (rule distinct_take)
qed

lemma page_of_key:
  assumes "distinct (map k t)" "\<forall>r \<in> set page. r \<in> set t \<and> q r"
  shows "update_where (\<lambda>e. k e \<in> k ` set page) f t = update_where (\<lambda>e. q e \<and> k e \<in> k ` set page) f t"
  unfolding update_where_def
proof (rule map_cong [OF HOL.refl])
  fix e assume e: "e \<in> set t"
  have "q e" if "k e \<in> k ` set page"
  proof -
    from that obtain r where r: "r \<in> set page" "k e = k r" by blast
    then have "e = r" using assms e by (simp add: distinct_map inj_on_def)
    then show ?thesis using assms(2) r(1) by simp
  qed
  then show "(if k e \<in> k ` set page then f e else e) = (if q e \<and> k e \<in> k ` set page then f e else e)" by auto
qed

interpretation sends: scrub_walk ScrubSends w i "scrubSendEventsPage w c i" ss_sendEvents "event_of_contact w c"
  "\<lambda>s. distinct (map send_event_key (ss_sendEvents s))" send_event_key clean_send_event
  for w i c
proof (unfold_locales, goal_cases)
  case (4 cursor s cursor' s')
  have "map send_event_key (fold (rewrite_payload w) page t) = map send_event_key t" for page t
    by (induction page arbitrary: t) (simp_all add: rewrite_payload_def map_update_where send_event_key_def)
  with 4 show ?case
    by (auto simp: scrubSendEventsPage_def Let_def intro!: event_of_contact_same split: if_splits)
next
  case (6 cursor s cursor' s' page)
  have rows: "\<forall>r \<in> set page. r \<in> set (ss_sendEvents s) \<and> event_of_contact w c s r" "distinct (map send_event_key page)"
    using page_rows [OF 6(2,3)] by simp_all
  have "fold (rewrite_payload w) page (ss_sendEvents s)
      = update_where (\<lambda>e. event_of_contact w c s e \<and> send_event_key e \<in> send_event_key ` set page) clean_send_event (ss_sendEvents s)"
    using rewritten_rows [OF 6(2) rows(2), of w] page_of_key [OF 6(2) rows(1)] rows(1) by (simp add: event_of_contact_def)
  with 6 show ?case by (auto simp: scrubSendEventsPage_def Let_def send_event_key_def)
qed (auto simp: scrubSendEventsPage_def Let_def)

lemma clean_event_fields [simp]:
  "event_key (clean_event e) = event_key e" "tracked_of_contact w c (clean_event e) = tracked_of_contact w c e" "ev_id (clean_event e) = ev_id e"
  by (simp_all add: clean_event_def event_key_def tracked_of_contact_def)

lemma event_ids_update [simp]: "map ev_id (update_where P (ev_properties_update f) t) = map ev_id t"
  by (rule map_update_where) simp

lemma distinct_event_keys: "distinct (map ev_id t) \<Longrightarrow> distinct (map event_key t)"
  by (auto simp: distinct_map inj_on_def event_key_def)

interpretation events: scrub_walk ScrubEvents w i "scrubEventsPage w c i" "\<lambda>s. t_events (ss_db s)" "\<lambda>_. tracked_of_contact w c"
  "\<lambda>s. distinct (map ev_id (t_events (ss_db s)))" event_key clean_event
  for w i c
proof (unfold_locales, goal_cases)
  case (4 cursor s cursor' s')
  then show ?case by (auto simp: scrubEventsPage_def Let_def split: if_splits)
next
  case (6 cursor s cursor' s' page)
  note keys = distinct_event_keys [OF 6(2)]
  have rows: "\<forall>r \<in> set page. r \<in> set (t_events (ss_db s)) \<and> tracked_of_contact w c r"
    using page_rows(1) [OF keys 6(3)] by simp
  have "update_where (\<lambda>e. ev_workspaceId e = w \<and> ev_id e \<in> ev_id ` set page) (\<lambda>e. e\<lparr>ev_properties := []\<rparr>) (t_events (ss_db s))
      = update_where (\<lambda>e. tracked_of_contact w c e \<and> event_key e \<in> event_key ` set page) clean_event (t_events (ss_db s))"
    unfolding update_where_def
  proof (rule map_cong [OF HOL.refl])
    fix e assume e: "e \<in> set (t_events (ss_db s))"
    have "e \<in> set page" if "ev_id e \<in> ev_id ` set page"
      using that rows e 6(2) by (auto simp: distinct_map inj_on_def)
    then have "(ev_workspaceId e = w \<and> ev_id e \<in> ev_id ` set page) = (tracked_of_contact w c e \<and> event_key e \<in> event_key ` set page)"
      using rows by (auto simp: tracked_of_contact_def event_key_def)
    then show "(if ev_workspaceId e = w \<and> ev_id e \<in> ev_id ` set page then e\<lparr>ev_properties := []\<rparr> else e)
        = (if tracked_of_contact w c e \<and> event_key e \<in> event_key ` set page then clean_event e else e)"
      by (simp add: clean_event_def)
  qed
  with 6 show ?case by (auto simp: scrubEventsPage_def Let_def event_key_def buildScrubbedEventProperties_def)
qed (auto simp: scrubEventsPage_def Let_def distinct_event_keys)

section \<open>The whole job\<close>

text \<open>Everything but the two tables and the record of the erasure.\<close>

definition world :: "uuid \<Rightarrow> uuid \<Rightarrow> scrub_store \<Rightarrow> contact_store" where
  "world w i s =
     (on_db (\<lambda>db. db\<lparr>t_events := []\<rparr>) (ss_contacts s))\<lparr>cs_erasures := filter (\<lambda>e. \<not> record_is w i e) (ss_records s)\<rparr>"

text \<open>An erasure under way, from the database \<open>s0\<close> in which it was recorded.\<close>

definition erasing :: "uuid \<Rightarrow> uuid \<Rightarrow> uuid \<Rightarrow> scrub_store \<Rightarrow> scrub_store \<Rightarrow> bool" where
  "erasing w c i s0 s =
     (\<exists>e. own_record w i s e \<and> sends.walked w c s0 s (er_sendsScrubCursor e) (er_sendsScrubbed e)
        \<and> events.walked w c s0 s (er_eventsScrubCursor e) (er_eventsScrubbed e) \<and> world w i s = world w i s0
        \<and> (er_status e = ErasureComplete \<longrightarrow> er_sendsScrubCursor e = Some ScrubDone \<and> er_eventsScrubCursor e = Some ScrubDone))"

definition erased :: "uuid \<Rightarrow> uuid \<Rightarrow> uuid \<Rightarrow> scrub_store \<Rightarrow> scrub_store \<Rightarrow> bool" where
  "erased w c i s0 s =
     (ss_sendEvents s = update_where (event_of_contact w c s0) clean_send_event (ss_sendEvents s0)
      \<and> t_events (ss_db s) = update_where (tracked_of_contact w c) clean_event (t_events (ss_db s0))
      \<and> world w i s = world w i s0
      \<and> (\<exists>e. own_record w i s e \<and> er_status e = ErasureComplete
           \<and> er_sendsScrubbed e = row_count (event_of_contact w c s0) (ss_sendEvents s0)
           \<and> er_eventsScrubbed e = row_count (tracked_of_contact w c) (t_events (ss_db s0))))"

lemma erasing_start:
  assumes "own_record w i s e" "er_sendsScrubCursor e = None" "er_eventsScrubCursor e = None" "er_sendsScrubbed e = 0" "er_eventsScrubbed e = 0"
    and "er_status e \<noteq> ErasureComplete" "distinct (map send_event_key (ss_sendEvents s))" "distinct (map ev_id (t_events (ss_db s)))"
  shows "erasing w c i s s"
  unfolding erasing_def using assms sends.walked_start [of s w c] events.walked_start [of s w c] by auto

lemma erased_when_done:
  assumes "own_record w i s e" "sends.walked w c s0 s (Some ScrubDone) (er_sendsScrubbed e)"
    "events.walked w c s0 s (Some ScrubDone) (er_eventsScrubbed e)" "world w i s = world w i s0" "er_status e = ErasureComplete"
  shows "erased w c i s0 s"
  using assms by (auto simp: erased_def sends.walked_def events.walked_def reached_def)

text \<open>A change of the record that leaves its cursors and counts alone.\<close>

lemma write_record_store [simp]:
  "ss_sendEvents (write_record w i f s) = ss_sendEvents s" "ss_db (write_record w i f s) = ss_db s"
  "ss_records (write_record w i f s) = update_where (record_is w i) f (ss_records s)"
  by (simp_all add: write_record_def)

lemma world_same:
  assumes "on_db (\<lambda>db. db\<lparr>t_events := []\<rparr>) (ss_contacts s')\<lparr>cs_erasures := []\<rparr> = on_db (\<lambda>db. db\<lparr>t_events := []\<rparr>) (ss_contacts s)\<lparr>cs_erasures := []\<rparr>"
    and "ss_records s' = update_where (record_is w i) f (ss_records s)" "\<And>e. record_is w i (f e) = record_is w i e"
  shows "world w i s' = world w i s"
proof -
  have "filter (\<lambda>e. \<not> record_is w i e) (update_where (record_is w i) f t) = filter (\<lambda>e. \<not> record_is w i e) t" for t
    by (induction t) (simp_all add: assms(3))
  then have "filter (\<lambda>e. \<not> record_is w i e) (ss_records s') = filter (\<lambda>e. \<not> record_is w i e) (ss_records s)" by (simp add: assms(2))
  moreover have "(on_db g x)\<lparr>cs_erasures := y\<rparr> = ((on_db g x)\<lparr>cs_erasures := []\<rparr>)\<lparr>cs_erasures := y\<rparr>" for g x y by simp
  ultimately show ?thesis unfolding world_def using assms(1) by metis
qed

lemma world_advance: "world w i (advanceErasureScrubCheckpoint w i table cursor n s) = world w i s"
  by (rule world_same [where f = "advanced table cursor n"])
     (simp_all add: advanceErasureScrubCheckpoint_def write_record_def on_db_def)

lemma world_sends_page: "scrubSendEventsPage w c i cursor s = (cursor', s') \<Longrightarrow> world w i s' = world w i s"
proof -
  have "world w i (s\<lparr>ss_sendEvents := x\<rparr>) = world w i s" for x s by (simp add: world_def)
  then show "scrubSendEventsPage w c i cursor s = (cursor', s') \<Longrightarrow> world w i s' = world w i s"
    by (auto simp: scrubSendEventsPage_def Let_def world_advance split: if_splits)
qed

lemma world_events_page: "scrubEventsPage w c i cursor s = (cursor', s') \<Longrightarrow> world w i s' = world w i s"
proof -
  have "world w i (on_events f s) = world w i s" for f s by (simp add: world_def on_events_def on_db_def)
  then show "scrubEventsPage w c i cursor s = (cursor', s') \<Longrightarrow> world w i s' = world w i s"
    by (auto simp: scrubEventsPage_def Let_def world_advance split: if_splits)
qed

lemma sends_walked_same:
  assumes "ss_sendEvents s' = ss_sendEvents s" "l_sends (ss_db s') = l_sends (ss_db s)"
  shows "sends.walked w c s0 s' x n = sends.walked w c s0 s x n"
  unfolding sends.walked_def assms(1) event_of_contact_same [OF assms(2)] by (rule HOL.refl)

lemma events_walked_same:
  assumes "t_events (ss_db s') = t_events (ss_db s)"
  shows "events.walked w c s0 s' x n = events.walked w c s0 s x n"
  unfolding events.walked_def assms by (rule HOL.refl)

text \<open>What the walk of one table leaves alone.\<close>

definition rest_of_sends :: "uuid \<Rightarrow> uuid \<Rightarrow> uuid \<Rightarrow> scrub_store \<Rightarrow> scrub_store \<Rightarrow> erasure_row \<Rightarrow> bool" where
  "rest_of_sends w c i s0 s e =
     (events.walked w c s0 s (er_eventsScrubCursor e) (er_eventsScrubbed e) \<and> world w i s = world w i s0 \<and> er_status e \<noteq> ErasureComplete)"

definition rest_of_events :: "uuid \<Rightarrow> uuid \<Rightarrow> uuid \<Rightarrow> scrub_store \<Rightarrow> scrub_store \<Rightarrow> erasure_row \<Rightarrow> bool" where
  "rest_of_events w c i s0 s e =
     (sends.walked w c s0 s (er_sendsScrubCursor e) (er_sendsScrubbed e) \<and> world w i s = world w i s0 \<and> er_status e \<noteq> ErasureComplete
      \<and> er_sendsScrubCursor e = Some ScrubDone)"

lemma rest_of_sends_kept: "sends.kept_by_pages w c i (rest_of_sends w c i s0)"
  unfolding sends.kept_by_pages_def
proof (intro allI impI, elim conjE)
  fix cursor s cursor' s' e n
  assume run: "scrubSendEventsPage w c i cursor s = (cursor', s')" and rest: "rest_of_sends w c i s0 s e"
  have "ss_db s' = ss_db s" using run by (auto simp: scrubSendEventsPage_def Let_def split: if_splits)
  with rest show "rest_of_sends w c i s0 s' (advanced ScrubSends cursor' n e)"
    using world_sends_page [OF run] by (simp add: rest_of_sends_def events_walked_same [of s' s])
qed

lemma rest_of_events_kept: "events.kept_by_pages w c i (rest_of_events w c i s0)"
  unfolding events.kept_by_pages_def
proof (intro allI impI, elim conjE)
  fix cursor s cursor' s' e n
  assume run: "scrubEventsPage w c i cursor s = (cursor', s')" and rest: "rest_of_events w c i s0 s e"
  have "ss_sendEvents s' = ss_sendEvents s" "l_sends (ss_db s') = l_sends (ss_db s)"
    using run by (auto simp: scrubEventsPage_def Let_def split: if_splits)
  with rest show "rest_of_events w c i s0 s' (advanced ScrubEvents cursor' n e)"
    using world_events_page [OF run] by (auto simp: rest_of_events_def sends_walked_same [of s' s])
qed

lemma erasing_sends: "sends.on_walk w i c (rest_of_sends w c i s0) s0 s \<Longrightarrow> erasing w c i s0 s"
  by (auto simp: sends.on_walk_def rest_of_sends_def erasing_def)

lemma erasing_events: "events.on_walk w i c (rest_of_events w c i s0) s0 s \<Longrightarrow> erasing w c i s0 s"
  by (auto simp: events.on_walk_def rest_of_events_def erasing_def)

lemma sends_done_on_events:
  "sends.walk_done w i c (rest_of_sends w c i s0) s0 s \<Longrightarrow> events.on_walk w i c (rest_of_events w c i s0) s0 s"
  by (auto simp: sends.walk_done_def rest_of_sends_def events.on_walk_def rest_of_events_def)

lemma marked_record:
  assumes "own_record w i s e" "\<And>e. record_is w i (f e) = record_is w i e"
  shows "own_record w i (write_record w i f s) (f e)" "world w i (write_record w i f s) = world w i s"
proof -
  show "own_record w i (write_record w i f s) (f e)" by (rule own_record_write [OF assms(1)]) (use assms(2) in simp_all)
  show "world w i (write_record w i f s) = world w i s"
    by (rule world_same [where f = f]) (use assms(2) in \<open>simp_all add: write_record_def on_db_def\<close>)
qed

lemma scrub_tables_end:
  assumes calm: "calm env" and start: "sends.on_walk w i c (rest_of_sends w c i s0) s0 (jr_db r)"
    and wf: "distinct (map send_event_key (ss_sendEvents s0))"
  shows "ends_in env (erasing w c i s0) (\<lambda>_. erased w c i s0) (scrub_tables env w c i status r)"
  unfolding scrub_tables_def
proof (rule run_then_ends)
  let ?S = "sends.on_walk w i c (rest_of_sends w c i s0) s0"
  let ?E = "events.on_walk w i c (rest_of_events w c i s0) s0"
  have "?S (markScrubStartedIfPending w i now s)" if "?S s" for now s
  proof -
    let ?f = "\<lambda>e. if er_status e = ErasurePending then e\<lparr>er_status := ErasureScrubbing, er_scrubStartedAt := Some now\<rparr> else e"
    have f: "record_is w i (?f e) = record_is w i e" for e by (simp add: record_is_def)
    from that obtain e where e: "own_record w i s e" "sends.walked w c s0 s (er_sendsScrubCursor e) (er_sendsScrubbed e)"
      "rest_of_sends w c i s0 s e" by (auto simp: sends.on_walk_def)
    let ?s = "markScrubStartedIfPending w i now s"
    have "own_record w i ?s (?f e)" "world w i ?s = world w i s"
      unfolding markScrubStartedIfPending_def by (rule marked_record [OF e(1) f])+
    moreover have "ss_sendEvents ?s = ss_sendEvents s" "ss_db ?s = ss_db s" by (simp_all add: markScrubStartedIfPending_def)
    moreover have "er_sendsScrubCursor (?f e) = er_sendsScrubCursor e" "er_sendsScrubbed (?f e) = er_sendsScrubbed e"
      "er_eventsScrubCursor (?f e) = er_eventsScrubCursor e" "er_eventsScrubbed (?f e) = er_eventsScrubbed e"
      "er_status (?f e) = ErasureComplete \<longleftrightarrow> er_status e = ErasureComplete" by simp_all
    ultimately show ?thesis
      using e unfolding sends.on_walk_def rest_of_sends_def
      by (intro exI [of _ "?f e"]) (simp add: sends_walked_same [of ?s s] events_walked_same [of ?s s])
  qed
  then have "ends_in env ?S (\<lambda>_. ?S) (if status = ErasurePending then scrub_tx env (\<lambda>now s. ((), markScrubStartedIfPending w i now s)) r
      else Some (Done (), r))"
    using start by (auto intro!: scrub_tx_ends [OF calm])
  then show "ends_in env (erasing w c i s0) (\<lambda>_. ?S) (if status = ErasurePending then scrub_tx env (\<lambda>now s. ((), markScrubStartedIfPending w i now s)) r
      else Some (Done (), r))"
    by (rule ends_in_mono) (auto dest: erasing_sends)
  fix u and r1 :: "scrub_store job_run"
  assume r1: "?S (jr_db r1)"
  show "ends_in env (erasing w c i s0) (\<lambda>_. erased w c i s0)
     (run_then (walkTableToExhaustion env w i ScrubSends (scrubSendEventsPage w c i) r1) (\<lambda>_ r2.
      run_then (walkTableToExhaustion env w i ScrubEvents (scrubEventsPage w c i) r2) (\<lambda>_ r3.
      scrub_tx env (\<lambda>now s. ((), markScrubComplete w i now s)) r3)))"
  proof (rule run_then_ends)
    show "ends_in env (erasing w c i s0) (\<lambda>_. ?E) (walkTableToExhaustion env w i ScrubSends (scrubSendEventsPage w c i) r1)"
      by (rule ends_in_mono [OF sends.table_walk_ends [OF calm rest_of_sends_kept r1]]) (auto dest: erasing_sends sends_done_on_events)
    fix u and r2 :: "scrub_store job_run"
    assume r2: "?E (jr_db r2)"
    show "ends_in env (erasing w c i s0) (\<lambda>_. erased w c i s0)
       (run_then (walkTableToExhaustion env w i ScrubEvents (scrubEventsPage w c i) r2) (\<lambda>_ r3.
        scrub_tx env (\<lambda>now s. ((), markScrubComplete w i now s)) r3))"
    proof (rule run_then_ends)
      show "ends_in env (erasing w c i s0) (\<lambda>_. events.walk_done w i c (rest_of_events w c i s0) s0)
         (walkTableToExhaustion env w i ScrubEvents (scrubEventsPage w c i) r2)"
        by (rule ends_in_mono [OF events.table_walk_ends [OF calm rest_of_events_kept r2]]) (auto dest: erasing_events)
      fix u and r3 :: "scrub_store job_run"
      assume I: "erasing w c i s0 (jr_db r3)" and "events.walk_done w i c (rest_of_events w c i s0) s0 (jr_db r3)"
      then obtain e where e: "own_record w i (jr_db r3) e" "events.walked w c s0 (jr_db r3) (Some ScrubDone) (er_eventsScrubbed e)"
        "rest_of_events w c i s0 (jr_db r3) e" "er_eventsScrubCursor e = Some ScrubDone"
        by (auto simp: events.walk_done_def)
      show "ends_in env (erasing w c i s0) (\<lambda>_. erased w c i s0) (scrub_tx env (\<lambda>now s. ((), markScrubComplete w i now s)) r3)"
      proof (rule scrub_tx_ends [where I = "erasing w c i s0" and r = r3, OF calm I])
        fix now x s'
        assume "((), markScrubComplete w i now (jr_db r3)) = (x, s')"
        then have s': "s' = write_record w i (\<lambda>e. e\<lparr>er_status := ErasureComplete, er_scrubCompletedAt := Some now\<rparr>) (jr_db r3)"
          by (simp add: markScrubComplete_def)
        let ?e = "e\<lparr>er_status := ErasureComplete, er_scrubCompletedAt := Some now\<rparr>"
        have rec: "own_record w i s' ?e" "world w i s' = world w i (jr_db r3)"
          unfolding s' by (rule marked_record [OF e(1)], simp add: record_is_def)+
        have same: "ss_sendEvents s' = ss_sendEvents (jr_db r3)" "ss_db s' = ss_db (jr_db r3)" by (simp_all add: s')
        have "sends.walked w c s0 (jr_db r3) (Some ScrubDone) (er_sendsScrubbed e)" using e(3) by (auto simp: rest_of_events_def)
        then have walked: "sends.walked w c s0 s' (Some ScrubDone) (er_sendsScrubbed ?e)" "events.walked w c s0 s' (Some ScrubDone) (er_eventsScrubbed ?e)"
          using e(2) sends_walked_same [of s' "jr_db r3"] events_walked_same [of s' "jr_db r3"] same by simp_all
        have world: "world w i s' = world w i s0" using rec(2) e(3) by (simp add: rest_of_events_def)
        have "er_sendsScrubCursor e = Some ScrubDone" using e(3) by (simp add: rest_of_events_def)
        with rec(1) walked world e(4) have "erasing w c i s0 s'" unfolding erasing_def by (intro exI [of _ ?e]) simp
        moreover have "erased w c i s0 s'" by (rule erased_when_done [OF rec(1) walked world]) simp
        ultimately show "erasing w c i s0 s' \<and> erased w c i s0 s'" by blast
      qed
    qed
  qed
qed

lemma scrub_ends:
  assumes calm: "calm env" and start: "erasing w c i s0 (jr_db r)"
  shows "ends_in env (erasing w c i s0) (\<lambda>_. erased w c i s0) (runErasureScrub env w c i r)"
proof -
  let ?I = "erasing w c i s0"
  let ?Q = "\<lambda>found s. found = loadErasureRecordForScrub w i s"
  show ?thesis
    unfolding runErasureScrub_def
  proof (rule run_then_ends [OF scrub_tx_ends [where I = ?I and r = r and Q = ?Q, OF calm start]])
    fix found and r1 :: "scrub_store job_run"
    assume I: "?I (jr_db r1)" and found: "?Q found (jr_db r1)"
    obtain e where e: "own_record w i (jr_db r1) e" "sends.walked w c s0 (jr_db r1) (er_sendsScrubCursor e) (er_sendsScrubbed e)"
      "events.walked w c s0 (jr_db r1) (er_eventsScrubCursor e) (er_eventsScrubbed e)" "world w i (jr_db r1) = world w i s0"
      "er_status e = ErasureComplete \<longrightarrow> er_sendsScrubCursor e = Some ScrubDone \<and> er_eventsScrubCursor e = Some ScrubDone"
      using I by (auto simp: erasing_def)
    have status: "found = Some (er_status e)" using found e(1) by (simp add: loadErasureRecordForScrub_def own_record_find)
    show "ends_in env ?I (\<lambda>_. erased w c i s0) (case found of None \<Rightarrow> Some (Done (), r1)
       | Some status \<Rightarrow> if status = ErasureComplete then Some (Done (), r1)
           else run_catch (scrub_tables env w c i status r1) (\<lambda>e r2.
                  case scrub_tx env (\<lambda>_ s. ((), markScrubFailed w i e s)) r2 of
                    Some (Threw e', r3) \<Rightarrow> Some (Done (), r3) | x \<Rightarrow> x))"
    proof (cases "er_status e = ErasureComplete")
      case True
      with e have "erased w c i s0 (jr_db r1)" by (intro erased_when_done [OF e(1)]) simp_all
      with I status True show ?thesis by simp
    next
      case False
      have "sends.on_walk w i c (rest_of_sends w c i s0) s0 (jr_db r1)"
        using e False by (auto simp: sends.on_walk_def rest_of_sends_def)
      moreover have "distinct (map send_event_key (ss_sendEvents s0))" using e(2) by (simp add: sends.walked_def)
      ultimately show ?thesis using status False run_catch_ends [OF scrub_tables_end [OF calm]] by simp
    qed
  qed (use start in auto)
qed

section \<open>Properties\<close>


lemma reconstruct_lookup:
  "map_of (reconstruct allowlist (JObj input)) key = (if key \<in> set allowlist then map_of input key else None)"
proof -
  have "map_of (List.map_filter (\<lambda>key. map_option (Pair key) (map_of input key)) keys) key
      = (if key \<in> set keys then map_of input key else None)" for keys
    by (induction keys) (auto simp: List.map_filter_def split: option.split)
  then show ?thesis by (simp add: reconstruct_def)
qed

lemma reconstruct_same:
  "(\<And>key. key \<in> set allowlist \<Longrightarrow> map_of input key = map_of input' key) \<Longrightarrow> reconstruct allowlist (JObj input) = reconstruct allowlist (JObj input')"
  unfolding reconstruct_def List.map_filter_def
  by (simp cong: map_cong filter_cong)

text \<open>What is left of a payload: exactly the fields of the allowlist, with their values; scrubbing again changes nothing, and what
  is left is part of what an export discloses.\<close>

theorem scrubbed_payload_exact:
  "map_of (buildScrubbedSendEventPayload (JObj payload)) key
      = (if key \<in> set SEND_EVENT_PAYLOAD_EVIDENCE_ALLOWLIST then map_of payload key else None)
    \<and> buildScrubbedSendEventPayload (JObj (buildScrubbedSendEventPayload (JObj payload))) = buildScrubbedSendEventPayload (JObj payload)
    \<and> buildScrubbedSendEventPayload (JObj (buildExportSendEventPayload (JObj payload))) = buildScrubbedSendEventPayload (JObj payload)"
proof (intro conjI)
  show "map_of (buildScrubbedSendEventPayload (JObj payload)) key
      = (if key \<in> set SEND_EVENT_PAYLOAD_EVIDENCE_ALLOWLIST then map_of payload key else None)"
    by (simp add: buildScrubbedSendEventPayload_def reconstruct_lookup)
  show "buildScrubbedSendEventPayload (JObj (buildScrubbedSendEventPayload (JObj payload))) = buildScrubbedSendEventPayload (JObj payload)"
    unfolding buildScrubbedSendEventPayload_def by (rule reconstruct_same) (simp add: reconstruct_lookup)
  show "buildScrubbedSendEventPayload (JObj (buildExportSendEventPayload (JObj payload))) = buildScrubbedSendEventPayload (JObj payload)"
    unfolding buildScrubbedSendEventPayload_def buildExportSendEventPayload_def
    by (rule reconstruct_same) (simp add: reconstruct_lookup SEND_EVENT_PAYLOAD_EXPORT_ALLOWLIST_def)
qed

text \<open>The texts of the mail servers, which the allowlist leaves out of the payload because they contain the address of the
  recipient, stay in the columns of the same event and of its send: a completed scrub changes none of them.\<close>

theorem scrub_keeps_server_texts:
  assumes "calm env" "\<forall>k. \<not> je_killed env k" "erasing w c i s0 (jr_db r)"
  shows "\<exists>r'. runErasureScrub env w c i r = Some (Done (), r') \<and> erased w c i s0 (jr_db r')
    \<and> map (\<lambda>e. (se_id e, se_reason e)) (ss_sendEvents (jr_db r')) = map (\<lambda>e. (se_id e, se_reason e)) (ss_sendEvents s0)
    \<and> map (\<lambda>x. (s_id x, s_bounceReason x, s_dropReason x)) (l_sends (ss_db (jr_db r')))
      = map (\<lambda>x. (s_id x, s_bounceReason x, s_dropReason x)) (l_sends (ss_db s0))"
proof -
  obtain r' where r': "runErasureScrub env w c i r = Some (Done (), r')" "erased w c i s0 (jr_db r')"
    using scrub_ends [OF assms(1,3)] assms(2) by (auto simp: ends_in_def)
  have "map (\<lambda>e. (se_id e, se_reason e)) (ss_sendEvents (jr_db r')) = map (\<lambda>e. (se_id e, se_reason e)) (ss_sendEvents s0)"
  proof -
    have "map (\<lambda>e. (se_id e, se_reason e)) (update_where P clean_send_event t) = map (\<lambda>e. (se_id e, se_reason e)) t" for P t
      by (rule map_update_where) (simp add: clean_send_event_def)
    then show ?thesis unfolding conjunct1 [OF r'(2) [unfolded erased_def]] .
  qed
  moreover have "l_sends (ss_db (jr_db r')) = l_sends (ss_db s0)"
  proof -
    have "l_sends (cs_db (world w i s)) = l_sends (ss_db s)" for s by (simp add: world_def on_db_def)
    moreover have "world w i (jr_db r') = world w i s0" using r'(2) unfolding erased_def by blast
    ultimately show ?thesis by metis
  qed
  ultimately show ?thesis using r' by simp
qed

lemma truncated_payload: "se_payload (send_event_row.truncate e) = se_payload e"
  by (simp add: send_event_row.defs)

text \<open>An event of the contact that the provider reports when the scrub is over is stored with its whole payload, and nothing ever
  scrubs it: the job does nothing on a completed record, the reclaim passes it over, and deleting the contact again
  records no erasure.\<close>

theorem late_event_is_never_scrubbed:
  assumes "quiet_env env" "own_record w i s e" "er_status e = ErasureComplete"
    and "find (contact_is w c) (cs_contacts (ss_contacts s)) = Some x" "ct_anonymizedAt x \<noteq> None"
    and "send_event_row.truncate late = send_event_of now w row"
    and "dedup_key (send_event_of now w row) \<notin> dedup_key ` set (map send_event_row.truncate (ss_sendEvents s))"
    and "jr_db r = s\<lparr>ss_sendEvents := ss_sendEvents s @ [late]\<rparr>"
  shows "fst (insert_send_events now w [row] (map send_event_row.truncate (ss_sendEvents s)))
      = map send_event_row.truncate (ss_sendEvents (jr_db r))
    \<and> late \<in> set (ss_sendEvents (jr_db r)) \<and> se_payload late = js_fields (ex_payload row)
    \<and> (\<exists>res r'. runErasureScrub env w c i r = Some (res, r') \<and> jr_db r' = jr_db r)
    \<and> e \<notin> set (findReclaimableErasureRecords t w (jr_db r))
    \<and> deleteContact cr newId now' w c (ss_contacts (jr_db r)) = Inr (ss_contacts (jr_db r), (True, None))"
proof (intro conjI)
  show "fst (insert_send_events now w [row] (map send_event_row.truncate (ss_sendEvents s)))
      = map send_event_row.truncate (ss_sendEvents (jr_db r))"
    using assms(6-8) by (auto simp: image_iff)
  show "late \<in> set (ss_sendEvents (jr_db r))" using assms(8) by simp
  show "se_payload late = js_fields (ex_payload row)"
    using truncated_payload [of late] assms(6) by (simp add: send_event_of_def)
  have "loadErasureRecordForScrub w i (jr_db r) = Some ErasureComplete"
    using own_record_find [OF assms(2)] assms(3,8) by (simp add: loadErasureRecordForScrub_def)
  then show "\<exists>res r'. runErasureScrub env w c i r = Some (res, r') \<and> jr_db r' = jr_db r"
    by (auto simp: runErasureScrub_def scrub_tx_def run_tx_def transact_quiet [OF assms(1)] if_up_def split: option.split)
  show "e \<notin> set (findReclaimableErasureRecords t w (jr_db r))"
    using assms(3) by (auto simp: findReclaimableErasureRecords_def reclaimable_def Let_def dest!: in_set_takeD)
  show "deleteContact cr newId now' w c (ss_contacts (jr_db r)) = Inr (ss_contacts (jr_db r), (True, None))"
    using assms(4,5,8) by (auto simp: deleteContact_def)
qed

section \<open>Witnesses\<close>

definition example_scrub_env :: scrub_env where
  "example_scrub_env = \<lparr>je_now = int, je_others = (\<lambda>_ s. s), je_killed = (\<lambda>_. False), se_down = (\<lambda>_. None)\<rparr>"

definition example_stored :: "uuid \<Rightarrow> instant \<Rightarrow> stored_event" where
  "example_stored x t =
     \<lparr>se_workspaceId = ''w'', se_sgEventId = x, se_sendId = Some ''s'', se_eventType = ''bounce'',
      se_reason = Some ''550 a@x.y unknown'', se_payload = [(''email'', JStr ''a@x.y''), (''event'', JStr ''bounce'')],
      se_isTest = False, se_occurredAt = t, se_receivedAt = t, se_id = x\<rparr>"

definition example_scrub_store :: "ErasureRecordStatus \<Rightarrow> scrub_store" where
  "example_scrub_store st =
     \<lparr>ss_contacts = \<lparr>cs_keyed = \<lparr>k_db = empty_crm\<lparr>t_contacts := [anonymized_row 5 (example_contact ''a'' ''a@x.y'' StSubscribed)],
          l_sends := [default_send ''s'' ''w'' ''a'' 1]\<rparr>, k_cache = Map.empty\<rparr>, cs_registry = [],
        cs_erasures = [(new_erasure ''e'' ''w'' ''a'' 5)\<lparr>er_status := st\<rparr>]\<rparr>,
      ss_sendEvents = [example_stored ''v'' 2]\<rparr>"

lemma example_scrub_facts:
  "calm example_scrub_env" "quiet_env example_scrub_env" "\<not> je_killed example_scrub_env k"
  "own_record ''w'' ''e'' (example_scrub_store st) ((new_erasure ''e'' ''w'' ''a'' 5)\<lparr>er_status := st\<rparr>)"
  by (simp_all add: calm_def quiet_env_def example_scrub_env_def own_record_def example_scrub_store_def record_is_def new_erasure_def)

lemma example_erasing: "erasing ''w'' ''a'' ''e'' (example_scrub_store ErasurePending) (example_scrub_store ErasurePending)"
  by (rule erasing_start [OF example_scrub_facts(4)]) (simp_all add: new_erasure_def example_scrub_store_def empty_crm_def)


lemma scrub_keeps_server_texts_witness:
  "\<exists>r'. runErasureScrub example_scrub_env ''w'' ''a'' ''e'' \<lparr>jr_tx = 0, jr_db = example_scrub_store ErasurePending\<rparr> = Some (Done (), r')
     \<and> map se_reason (ss_sendEvents (jr_db r')) = [Some ''550 a@x.y unknown'']"
proof -
  let ?s = "example_scrub_store ErasurePending"
  obtain r' where r': "runErasureScrub example_scrub_env ''w'' ''a'' ''e'' \<lparr>jr_tx = 0, jr_db = ?s\<rparr> = Some (Done (), r')"
    "map (\<lambda>e. (se_id e, se_reason e)) (ss_sendEvents (jr_db r')) = map (\<lambda>e. (se_id e, se_reason e)) (ss_sendEvents ?s)"
    using scrub_keeps_server_texts [OF example_scrub_facts(1), of "''w''" "''a''" "''e''" ?s "\<lparr>jr_tx = 0, jr_db = ?s\<rparr>"]
      example_erasing example_scrub_facts(3) by auto
  from arg_cong [OF r'(2), of "map snd"] have "map se_reason (ss_sendEvents (jr_db r')) = map se_reason (ss_sendEvents ?s)"
    by (simp add: comp_def)
  then show ?thesis using r'(1) by (simp add: example_scrub_store_def example_stored_def)
qed

lemma late_event_is_never_scrubbed_witness:
  "\<exists>res r'. runErasureScrub example_scrub_env ''w'' ''a'' ''e'' \<lparr>jr_tx = 0, jr_db = (example_scrub_store ErasureComplete)
        \<lparr>ss_sendEvents := [example_stored ''v'' 2, example_stored ''u'' 9]\<rparr>\<rparr> = Some (res, r')
     \<and> example_stored ''u'' 9 \<in> set (ss_sendEvents (jr_db r')) \<and> map_of (se_payload (example_stored ''u'' 9)) ''email'' = Some (JStr ''a@x.y'')"
proof -
  let ?row = "\<lparr>ex_sgEventId = ''u'', ex_sendId = Some ''s'', ex_eventType = ''bounce'', ex_reason = Some ''550 a@x.y unknown'',
      ex_payload = JObj [(''email'', JStr ''a@x.y''), (''event'', JStr ''bounce'')], ex_isTest = False, ex_occurredAt = 9, ex_normalizedType = None\<rparr>"
  let ?r = "\<lparr>jr_tx = 0, jr_db = (example_scrub_store ErasureComplete)\<lparr>ss_sendEvents := [example_stored ''v'' 2, example_stored ''u'' 9]\<rparr>\<rparr>"
  have "\<exists>res r'. runErasureScrub example_scrub_env ''w'' ''a'' ''e'' ?r = Some (res, r') \<and> jr_db r' = jr_db ?r"
    using late_event_is_never_scrubbed [OF example_scrub_facts(2) example_scrub_facts(4), of ErasureComplete "''a''"
        "anonymized_row 5 (example_contact ''a'' ''a@x.y'' StSubscribed)" "example_stored ''u'' 9" 9 ?row ?r 0 example_crypto "''n''" 9]
    by (simp add: example_scrub_store_def example_contact_def anonymized_row_def contact_is_def send_event_row.defs example_stored_def
        send_event_of_def dedup_key_def)
  then show ?thesis by (auto simp: example_stored_def)
qed

end
