(* ===== verification/Rollup_Reconcile.thy ===== *)
theory Rollup_Reconcile
  imports Webhook_Counters
begin

text \<open>
  The reconciliation of the daily rollups (\<open>apps/worker/src/queues/analytics-reconciliation.worker.ts\<close>): the
  standing window and the dirty days of a workspace are overwritten by a fresh count of its sends, and the marks
  of those days are cleared, all in one transaction. What other transactions commit while it runs is given per
  statement: before it, and between its snapshot and the lock of the row it writes, for a statement that
  reads \<open>sends\<close> and then waits for a row of the rollups. \<open>now()\<close> is the start of the transaction throughout.
\<close>

section \<open>A fresh count\<close>

definition on_day :: "int \<Rightarrow> instant option \<Rightarrow> bool" where
  "on_day day t = (case t of None \<Rightarrow> False | Some x \<Rightarrow> utc_day x = day)"

definition terminal_on :: "int \<Rightarrow> send_row \<Rightarrow> bool" where
  "terminal_on day r =
     (on_day day (bouncedAt (s_facts r)) \<or> on_day day (droppedAt (s_facts r)) \<or> on_day day (spamReportedAt (s_facts r)))"

definition fresh_counts :: "uuid \<Rightarrow> int \<Rightarrow> instant \<Rightarrow> send_row list \<Rightarrow> rollup_row" where
  "fresh_counts w day now sends =
     (let mine = filter (\<lambda>r. s_workspaceId r = w) sends
      in \<lparr>ru_workspaceId = w, ru_day = day,
          ru_sentCount = row_count (\<lambda>r. on_day day (s_sentAt r)) mine,
          ru_deliveredCount = row_count (\<lambda>r. on_day day (deliveredAt (s_facts r))) mine,
          ru_openedCount = row_count (\<lambda>r. on_day day (firstOpenedAt (s_facts r))) mine,
          ru_clickedCount = row_count (\<lambda>r. on_day day (firstClickedAt (s_facts r))) mine,
          ru_bouncedCount = row_count (terminal_on day) mine,
          ru_unsubscribedCount = row_count (\<lambda>r. on_day day (unsubscribedAt (s_facts r))) mine,
          ru_dirtiedAt = None, ru_updatedAt = now\<rparr>)"

text \<open>\<open>ON CONFLICT DO UPDATE\<close> with the counted values: the mark of an existing row stays.\<close>

definition overwrite_counts :: "rollup_row \<Rightarrow> rollup_row \<Rightarrow> rollup_row" where
  "overwrite_counts excluded r = excluded\<lparr>ru_dirtiedAt := ru_dirtiedAt r\<rparr>"

definition upsert_rollup :: "rollup_row \<Rightarrow> rollup_row list \<Rightarrow> rollup_row list" where
  "upsert_rollup excluded t =
     (if \<exists>r \<in> set t. rollup_is (ru_workspaceId excluded) (ru_day excluded) r
      then update_where (rollup_is (ru_workspaceId excluded) (ru_day excluded)) (overwrite_counts excluded) t
      else t @ [excluded])"

definition reconcileWorkspaceDay :: "(crm \<Rightarrow> crm) \<Rightarrow> uuid \<Rightarrow> instant \<Rightarrow> int \<Rightarrow> crm \<Rightarrow> crm" where
  "reconcileWorkspaceDay meanwhile w now day db =
     (let excluded = fresh_counts w day now (l_sends db); db' = meanwhile db
      in db'\<lparr>t_rollups := upsert_rollup excluded (t_rollups db')\<rparr>)"

section \<open>The days of a tick\<close>

definition RECONCILE_WINDOW_DAYS :: nat where "RECONCILE_WINDOW_DAYS = 2"

definition DIRTY_DAY_SWEEP_PAGE_LIMIT :: nat where "DIRTY_DAY_SWEEP_PAGE_LIMIT = 50"

definition recentDays :: "nat \<Rightarrow> instant \<Rightarrow> int list" where
  "recentDays windowDays now = map (\<lambda>i. utc_day now - int i) [0..<windowDays]"

definition dirty_row :: "uuid \<Rightarrow> rollup_row \<Rightarrow> bool" where
  "dirty_row w r = (ru_workspaceId r = w \<and> ru_dirtiedAt r \<noteq> None)"

definition findDirtyRollupDays :: "uuid \<Rightarrow> nat \<Rightarrow> crm \<Rightarrow> int list" where
  "findDirtyRollupDays w limit db = take limit (sort (map ru_day (filter (dirty_row w) (t_rollups db))))"

definition swept :: "uuid \<Rightarrow> instant \<Rightarrow> int list \<Rightarrow> rollup_row \<Rightarrow> bool" where
  "swept w sweepStartedAt days r =
     (ru_workspaceId r = w \<and> ru_day r \<in> set days
      \<and> (case ru_dirtiedAt r of None \<Rightarrow> False | Some t \<Rightarrow> t \<le> sweepStartedAt))"

definition clearDirtyRollupDays :: "uuid \<Rightarrow> instant \<Rightarrow> int list \<Rightarrow> crm \<Rightarrow> crm" where
  "clearDirtyRollupDays w sweepStartedAt days db =
     (if days = [] then db
      else db\<lparr>t_rollups := update_where (swept w sweepStartedAt days) (\<lambda>r. r\<lparr>ru_dirtiedAt := None\<rparr>) (t_rollups db)\<rparr>)"

section \<open>One workspace\<close>

text \<open>What is committed by others before the \<open>k\<close>-th overwritten day, and within its statement.\<close>

record sweep_env =
  se_clock :: instant
  se_before :: "nat \<Rightarrow> crm \<Rightarrow> crm"
  se_within :: "nat \<Rightarrow> crm \<Rightarrow> crm"

fun reconcile_days :: "sweep_env \<Rightarrow> uuid \<Rightarrow> instant \<Rightarrow> nat \<Rightarrow> int list \<Rightarrow> crm \<Rightarrow> crm" where
  "reconcile_days env w now k [] db = db"
| "reconcile_days env w now k (day # days) db =
     reconcile_days env w now (Suc k) days
       (reconcileWorkspaceDay (se_within env k) w now day (se_before env k db))"

definition reconcileWorkspace :: "sweep_env \<Rightarrow> uuid \<Rightarrow> nat \<Rightarrow> instant \<Rightarrow> crm \<Rightarrow> crm" where
  "reconcileWorkspace env w windowDays now db =
     (let standingDays = recentDays windowDays (se_clock env);
          dirtyDays = findDirtyRollupDays w DIRTY_DAY_SWEEP_PAGE_LIMIT db;
          days = rev (remdups (rev (standingDays @ dirtyDays)))
      in clearDirtyRollupDays w now days (reconcile_days env w now 0 days db))"

text \<open>The tick goes over the organizations that are not deleted, in the order \<open>ids\<close> in which the scan returns them.\<close>

definition findLiveWorkspaceIds :: "uuid list \<Rightarrow> crm \<Rightarrow> uuid list" where
  "findLiveWorkspaceIds ids db = filter (\<lambda>w. t_organizations db w = Some None) ids"

fun reconcile_workspaces :: "(uuid \<Rightarrow> sweep_env) \<Rightarrow> (uuid \<Rightarrow> instant) \<Rightarrow> uuid list \<Rightarrow> crm \<Rightarrow> crm" where
  "reconcile_workspaces env now [] db = db"
| "reconcile_workspaces env now (w # ws) db =
     reconcile_workspaces env now ws (reconcileWorkspace (env w) w RECONCILE_WINDOW_DAYS (now w) db)"

definition analytics_tick :: "(uuid \<Rightarrow> sweep_env) \<Rightarrow> (uuid \<Rightarrow> instant) \<Rightarrow> uuid list \<Rightarrow> crm \<Rightarrow> crm" where
  "analytics_tick env now ids db = reconcile_workspaces env now (findLiveWorkspaceIds ids db) db"

section \<open>The row of a day\<close>

definition rollup_at :: "uuid \<Rightarrow> int \<Rightarrow> rollup_row list \<Rightarrow> rollup_row option" where
  "rollup_at w day t = find (rollup_is w day) t"

definition rollup_key :: "rollup_row \<Rightarrow> uuid \<times> int" where
  "rollup_key r = (ru_workspaceId r, ru_day r)"

text \<open>The primary key.\<close>

definition rollups_wf :: "crm \<Rightarrow> bool" where
  "rollups_wf db = distinct (map rollup_key (t_rollups db))"

lemma rollup_is_key: "rollup_is w d r \<longleftrightarrow> rollup_key r = (w, d)"
  by (auto simp: rollup_is_def rollup_key_def)

lemma fresh_counts_simps [simp]:
  "ru_workspaceId (fresh_counts w d now s) = w" "ru_day (fresh_counts w d now s) = d" "ru_dirtiedAt (fresh_counts w d now s) = None"
  by (simp_all add: fresh_counts_def Let_def)

lemma overwrite_simps [simp]:
  "ru_workspaceId (overwrite_counts e r) = ru_workspaceId e" "ru_day (overwrite_counts e r) = ru_day e"
  "ru_dirtiedAt (overwrite_counts e r) = ru_dirtiedAt r"
  by (simp_all add: overwrite_counts_def)

lemma overwrite_key [simp]: "rollup_key (overwrite_counts e r) = rollup_key e"
  by (simp add: rollup_key_def)

lemma rollup_is_same: "rollup_is w d = (\<lambda>r. rollup_key r = (w, d))"
  by (simp add: rollup_is_key fun_eq_iff)

lemma rollup_at_upsert:
  "rollup_at w d (upsert_rollup e t) =
    (if rollup_key e = (w, d)
     then Some (case rollup_at w d t of None \<Rightarrow> e | Some r \<Rightarrow> overwrite_counts e r)
     else rollup_at w d t)"
proof -
  define k where "k = (w, d)"
  have key: "(ru_workspaceId e, ru_day e) = rollup_key e" by (simp add: rollup_key_def)
  have up: "upsert_rollup e t = (if \<exists>r \<in> set t. rollup_key r = rollup_key e
      then update_where (\<lambda>r. rollup_key r = rollup_key e) (overwrite_counts e) t else t @ [e])"
    unfolding upsert_rollup_def rollup_is_same by (simp only: key)
  have "find (\<lambda>r. rollup_key r = k) (update_where (\<lambda>r. rollup_key r = rollup_key e) (overwrite_counts e) t) =
      (if rollup_key e = k then map_option (overwrite_counts e) (find (\<lambda>r. rollup_key r = k) t) else find (\<lambda>r. rollup_key r = k) t)"
    by (induction t) auto
  moreover have "find (\<lambda>r. rollup_key r = k) (t @ [e]) =
      (case find (\<lambda>r. rollup_key r = k) t of None \<Rightarrow> if rollup_key e = k then Some e else None | Some r \<Rightarrow> Some r)"
    by (induction t) auto
  moreover have "find (\<lambda>r. rollup_key r = k) t = None \<longleftrightarrow> (\<forall>r \<in> set t. rollup_key r \<noteq> k)"
    by (auto simp: find_None_iff)
  ultimately show ?thesis
    unfolding up rollup_at_def rollup_is_same k_def [symmetric] by (auto split: option.splits)
qed

lemma upsert_wf:
  assumes "distinct (map rollup_key t)"
  shows "distinct (map rollup_key (upsert_rollup e t))"
proof (cases "\<exists>r \<in> set t. rollup_is (ru_workspaceId e) (ru_day e) r")
  case True
  have "map rollup_key (update_where (rollup_is (ru_workspaceId e) (ru_day e)) (overwrite_counts e) t) = map rollup_key t"
    by (induction t) (auto simp: rollup_is_def rollup_key_def)
  then show ?thesis using assms True by (simp add: upsert_rollup_def)
next
  case False
  then show ?thesis using assms by (auto simp: upsert_rollup_def rollup_is_key rollup_key_def)
qed

definition sweep_marks :: "uuid \<Rightarrow> instant \<Rightarrow> int list \<Rightarrow> rollup_row list \<Rightarrow> rollup_row list" where
  "sweep_marks w now days t = update_where (swept w now days) (\<lambda>r. r\<lparr>ru_dirtiedAt := None\<rparr>) t"

lemma rollup_at_sweep:
  "rollup_at w d (sweep_marks w' now days t) =
     map_option (\<lambda>r. if swept w' now days r then r\<lparr>ru_dirtiedAt := None\<rparr> else r) (rollup_at w d t)"
  unfolding rollup_at_def sweep_marks_def by (rule find_update_where) (simp add: rollup_is_def)

lemma sweep_wf: "map rollup_key (sweep_marks w now days t) = map rollup_key t"
  by (simp add: sweep_marks_def map_update_where rollup_key_def)

lemma rollup_at_mem:
  assumes "distinct (map rollup_key t)"
  shows "rollup_at w d t = Some r \<longleftrightarrow> r \<in> set t \<and> rollup_is w d r"
  using assms by (induction t) (auto simp: rollup_at_def rollup_is_key image_iff)

section \<open>A quiet tick\<close>

definition quiet_sweep :: "instant \<Rightarrow> sweep_env" where
  "quiet_sweep clock = \<lparr>se_clock = clock, se_before = \<lambda>_ db. db, se_within = \<lambda>_ db. db\<rparr>"

definition day_exact :: "uuid \<Rightarrow> int \<Rightarrow> crm \<Rightarrow> bool" where
  "day_exact w d db =
     (\<exists>mark at_time. rollup_at w d (t_rollups db) = Some ((fresh_counts w d at_time (l_sends db))\<lparr>ru_dirtiedAt := mark\<rparr>))"

definition marked :: "uuid \<Rightarrow> int \<Rightarrow> crm \<Rightarrow> instant option" where
  "marked w d db = Option.bind (rollup_at w d (t_rollups db)) ru_dirtiedAt"

definition dirty_days :: "uuid \<Rightarrow> crm \<Rightarrow> int set" where
  "dirty_days w db = {d. marked w d db \<noteq> None}"

lemma fresh_unmarked: "fresh_counts w d now s = (fresh_counts w d now s)\<lparr>ru_dirtiedAt := None\<rparr>"
  by (simp add: fresh_counts_def Let_def)

lemma day_step:
  fixes w now d db
  defines "db' \<equiv> reconcileWorkspaceDay (\<lambda>db. db) w now d db"
  shows "l_sends db' = l_sends db" "day_exact w d db'" "day_exact w' e db \<Longrightarrow> day_exact w' e db'"
    "marked w' e db' = marked w' e db" "rollups_wf db \<Longrightarrow> rollups_wf db'"
    "w' \<noteq> w \<Longrightarrow> rollup_at w' e (t_rollups db') = rollup_at w' e (t_rollups db)"
    "e \<noteq> d \<Longrightarrow> rollup_at w' e (t_rollups db') = rollup_at w' e (t_rollups db)"
  by (auto simp: db'_def reconcileWorkspaceDay_def day_exact_def marked_def rollup_at_upsert rollup_key_def
      overwrite_counts_def rollups_wf_def upsert_wf intro: fresh_unmarked split: option.splits)

lemma quiet_days_all:
  "l_sends (reconcile_days (quiet_sweep c) w now k days db) = l_sends db
   \<and> (\<forall>d. d \<in> set days \<or> day_exact w d db \<longrightarrow> day_exact w d (reconcile_days (quiet_sweep c) w now k days db))
   \<and> (\<forall>v e. marked v e (reconcile_days (quiet_sweep c) w now k days db) = marked v e db)
   \<and> (rollups_wf db \<longrightarrow> rollups_wf (reconcile_days (quiet_sweep c) w now k days db))
   \<and> (\<forall>v e. v \<noteq> w \<or> e \<notin> set days \<longrightarrow>
        rollup_at v e (t_rollups (reconcile_days (quiet_sweep c) w now k days db)) = rollup_at v e (t_rollups db))"
proof (induction days arbitrary: k db)
  case (Cons day days k db)
  have step: "reconcile_days (quiet_sweep c) w now k (day # days) db =
      reconcile_days (quiet_sweep c) w now (Suc k) days (reconcileWorkspaceDay (\<lambda>db. db) w now day db)"
    by (simp add: quiet_sweep_def)
  note one = day_step [where w = w and now = now and d = day and db = db]
  show ?case
    unfolding step using Cons.IH [of "Suc k" "reconcileWorkspaceDay (\<lambda>db. db) w now day db"] one by auto
qed simp

lemma quiet_days:
  fixes c w now k days db
  defines "db' \<equiv> reconcile_days (quiet_sweep c) w now k days db"
  shows "l_sends db' = l_sends db" "\<And>d. d \<in> set days \<or> day_exact w d db \<Longrightarrow> day_exact w d db'"
    "\<And>v e. marked v e db' = marked v e db" "rollups_wf db \<Longrightarrow> rollups_wf db'"
    "\<And>v e. v \<noteq> w \<or> e \<notin> set days \<Longrightarrow> rollup_at v e (t_rollups db') = rollup_at v e (t_rollups db)"
  using quiet_days_all [of c w now k days db] by (auto simp: db'_def)

text \<open>Nothing is marked later than the time.\<close>

definition marks_past :: "instant \<Rightarrow> uuid \<Rightarrow> crm \<Rightarrow> bool" where
  "marks_past now w db = (\<forall>d t. marked w d db = Some t \<longrightarrow> t \<le> now)"

definition tick_days :: "uuid \<Rightarrow> instant \<Rightarrow> crm \<Rightarrow> int set" where
  "tick_days w clock db =
     set (recentDays RECONCILE_WINDOW_DAYS clock) \<union> set (findDirtyRollupDays w DIRTY_DAY_SWEEP_PAGE_LIMIT db)"

lemma clear_sweep:
  "clearDirtyRollupDays w now days db =
     (if days = [] then db else db\<lparr>t_rollups := sweep_marks w now days (t_rollups db)\<rparr>)"
  by (simp add: clearDirtyRollupDays_def sweep_marks_def)

lemma sweep_nothing: "sweep_marks w now [] t = t"
  by (simp add: sweep_marks_def swept_def update_where_idle)

lemma cleared:
  fixes w now days db
  defines "db' \<equiv> clearDirtyRollupDays w now days db"
  shows "l_sends db' = l_sends db" "day_exact w' d db \<Longrightarrow> day_exact w' d db'"
    "marks_past now w db \<Longrightarrow> marked w' e db' = (if w' = w \<and> e \<in> set days then None else marked w' e db)"
    "rollups_wf db \<Longrightarrow> rollups_wf db'"
    "v \<noteq> w \<or> e \<notin> set days \<Longrightarrow> rollup_at v e (t_rollups db') = rollup_at v e (t_rollups db)"
proof -
  have db': "db' = db\<lparr>t_rollups := sweep_marks w now days (t_rollups db)\<rparr>"
    by (auto simp: db'_def clear_sweep sweep_nothing)
  have key: "rollup_at v e t = Some r \<Longrightarrow> ru_workspaceId r = v \<and> ru_day r = e" for v e t r
    by (auto simp: rollup_at_def rollup_is_def find_Some_iff)
  show "l_sends db' = l_sends db" "rollups_wf db \<Longrightarrow> rollups_wf db'"
    by (simp_all add: db' rollups_wf_def sweep_wf)
  show "day_exact w' d db \<Longrightarrow> day_exact w' d db'"
  proof -
    assume "day_exact w' d db"
    then obtain m u where at_day: "rollup_at w' d (t_rollups db) = Some ((fresh_counts w' d u (l_sends db))\<lparr>ru_dirtiedAt := m\<rparr>)"
      by (auto simp: day_exact_def)
    have "\<exists>m'. rollup_at w' d (t_rollups db') = Some ((fresh_counts w' d u (l_sends db))\<lparr>ru_dirtiedAt := m'\<rparr>)"
      by (auto simp: db' rollup_at_sweep at_day)
    then show "day_exact w' d db'" by (auto simp: day_exact_def db')
  qed
  show "marks_past now w db \<Longrightarrow> marked w' e db' = (if w' = w \<and> e \<in> set days then None else marked w' e db)"
  proof -
    assume past: "marks_past now w db"
    have "t \<le> now" if "rollup_at w e (t_rollups db) = Some r" "ru_dirtiedAt r = Some t" for r t
      using past [unfolded marks_past_def, rule_format, of e t] that by (simp add: marked_def)
    then show ?thesis
      by (cases "rollup_at w' e (t_rollups db)")
        (auto simp: db' marked_def rollup_at_sweep swept_def dest: key split: option.splits)
  qed
  show "v \<noteq> w \<or> e \<notin> set days \<Longrightarrow> rollup_at v e (t_rollups db') = rollup_at v e (t_rollups db)"
    by (cases "rollup_at v e (t_rollups db)") (auto simp: db' rollup_at_sweep swept_def dest!: key)
qed

lemma quiet_tick:
  fixes c w now db
  defines "db' \<equiv> reconcileWorkspace (quiet_sweep c) w RECONCILE_WINDOW_DAYS now db"
  assumes "marks_past now w db"
  shows "l_sends db' = l_sends db" "\<And>d. d \<in> tick_days w c db \<or> day_exact w d db \<Longrightarrow> day_exact w d db'"
    "dirty_days w db' = dirty_days w db - tick_days w c db" "rollups_wf db \<Longrightarrow> rollups_wf db'"
    "\<And>v e. v \<noteq> w \<or> e \<notin> tick_days w c db \<Longrightarrow> rollup_at v e (t_rollups db') = rollup_at v e (t_rollups db)"
    "\<And>d. marked w d db' \<in> {None, marked w d db}"
proof -
  define days where "days = rev (remdups (rev (recentDays RECONCILE_WINDOW_DAYS c @ findDirtyRollupDays w DIRTY_DAY_SWEEP_PAGE_LIMIT db)))"
  let ?mid = "reconcile_days (quiet_sweep c) w now 0 days db"
  have days: "set days = tick_days w c db" by (auto simp: days_def tick_days_def)
  have db': "db' = clearDirtyRollupDays w now days ?mid"
    by (simp add: db'_def reconcileWorkspace_def days_def quiet_sweep_def Let_def)
  note mid = quiet_days [where c = c and w = w and now = now and k = 0 and days = days and db = db]
  have past: "marks_past now w ?mid" using assms(2) by (simp add: marks_past_def mid(3))
  note clear = cleared [where db = ?mid and w = w and now = now and days = days]
  show "l_sends db' = l_sends db" using clear(1) mid(1) by (simp add: db')
  show "d \<in> tick_days w c db \<or> day_exact w d db \<Longrightarrow> day_exact w d db'" for d
    using clear(2) mid(2) by (auto simp: db' days)
  show "dirty_days w db' = dirty_days w db - tick_days w c db"
    by (auto simp: db' dirty_days_def clear(3) [OF past] mid(3) days)
  show "rollups_wf db \<Longrightarrow> rollups_wf db'" using clear(4) mid(4) by (simp add: db')
  show "v \<noteq> w \<or> e \<notin> tick_days w c db \<Longrightarrow> rollup_at v e (t_rollups db') = rollup_at v e (t_rollups db)" for v e
    using clear(5) mid(5) by (auto simp: db' days)
  show "marked w d db' \<in> {None, marked w d db}" for d
    by (simp add: db' clear(3) [OF past] mid(3))
qed

end
