(* ===== verification/Rollup_Properties.thy ===== *)
theory Rollup_Properties
  imports Rollup_Reconcile
begin

text \<open>
  What the reconciliation of the daily rollups achieves, tick by tick, and two ways in which a day stays wrong:
  an event that commits while its dirty day is being counted, and a second terminal of a send.
\<close>

section \<open>A backlog of dirty days\<close>

fun quiet_ticks :: "uuid \<Rightarrow> (instant \<times> instant) list \<Rightarrow> crm \<Rightarrow> crm" where
  "quiet_ticks w [] db = db"
| "quiet_ticks w ((clock, now) # ts) db =
     quiet_ticks w ts (reconcileWorkspace (quiet_sweep clock) w RECONCILE_WINDOW_DAYS now db)"

lemma dirty_list:
  assumes "rollups_wf db"
  shows "distinct (map ru_day (filter (dirty_row w) (t_rollups db)))"
    "set (map ru_day (filter (dirty_row w) (t_rollups db))) = dirty_days w db"
proof -
  have keys: "distinct (map rollup_key (t_rollups db))" using assms by (simp add: rollups_wf_def)
  have "inj_on ru_day (set (filter (dirty_row w) (t_rollups db)))"
    using keys by (auto simp: inj_on_def distinct_map dirty_row_def rollup_key_def)
  moreover have "distinct (filter (dirty_row w) (t_rollups db))" using keys by (auto simp: distinct_map)
  ultimately show "distinct (map ru_day (filter (dirty_row w) (t_rollups db)))" by (simp add: distinct_map)
  show "set (map ru_day (filter (dirty_row w) (t_rollups db))) = dirty_days w db"
    by (auto simp: dirty_days_def marked_def dirty_row_def bind_eq_Some_conv rollup_at_mem [OF keys] rollup_is_def image_iff)
qed

lemma dirty_finite: "rollups_wf db \<Longrightarrow> finite (dirty_days w db)"
  using dirty_list(2) [of db w] by (metis List.finite_set)

text \<open>A tick takes a whole page of dirty days while there is one.\<close>

lemma page_of_days:
  assumes "rollups_wf db"
  shows "card (dirty_days w db - set (findDirtyRollupDays w limit db)) \<le> card (dirty_days w db) - limit"
proof -
  let ?xs = "map ru_day (filter (dirty_row w) (t_rollups db))"
  note xs = dirty_list [OF assms, of w]
  have "distinct (take limit (sort ?xs))" using xs(1) by simp
  then have "card (set (findDirtyRollupDays w limit db)) = min (length ?xs) limit"
    unfolding findDirtyRollupDays_def by (subst distinct_card) simp_all
  moreover have "card (dirty_days w db) = length ?xs" using distinct_card [OF xs(1)] xs(2) by simp
  moreover have "set (findDirtyRollupDays w limit db) \<subseteq> dirty_days w db"
    unfolding findDirtyRollupDays_def using xs(2) set_take_subset [of limit "sort ?xs"] by auto
  ultimately show ?thesis by (subst card_Diff_subset) auto
qed

lemma dirty_after_tick:
  assumes "rollups_wf db" "marks_past now w db"
  shows "card (dirty_days w (reconcileWorkspace (quiet_sweep c) w RECONCILE_WINDOW_DAYS now db))
    \<le> card (dirty_days w db) - DIRTY_DAY_SWEEP_PAGE_LIMIT"
proof -
  have "dirty_days w (reconcileWorkspace (quiet_sweep c) w RECONCILE_WINDOW_DAYS now db)
      \<subseteq> dirty_days w db - set (findDirtyRollupDays w DIRTY_DAY_SWEEP_PAGE_LIMIT db)"
    using quiet_tick(3) [OF assms(2)] by (auto simp: tick_days_def)
  then show ?thesis
    using page_of_days [OF assms(1)] dirty_finite [OF assms(1)] by (meson card_mono finite_Diff le_trans)
qed

lemma marks_past_tick:
  assumes "marks_past now w db" "marks_past later w db"
  shows "marks_past later w (reconcileWorkspace (quiet_sweep c) w RECONCILE_WINDOW_DAYS now db)"
  unfolding marks_past_def
proof (intro allI impI)
  fix d t
  assume "marked w d (reconcileWorkspace (quiet_sweep c) w RECONCILE_WINDOW_DAYS now db) = Some t"
  then have "marked w d db = Some t" using quiet_tick(6) [OF assms(1), where c = c and d = d] by auto
  then show "t \<le> later" using assms(2) by (simp add: marks_past_def)
qed

lemma quiet_ticks_frame:
  assumes "rollups_wf db" "\<forall>(clock, now) \<in> set ts. marks_past now w db"
  shows "l_sends (quiet_ticks w ts db) = l_sends db \<and> rollups_wf (quiet_ticks w ts db)
    \<and> (\<forall>d. day_exact w d db \<longrightarrow> day_exact w d (quiet_ticks w ts db))
    \<and> (\<forall>v e. v \<noteq> w \<longrightarrow> rollup_at v e (t_rollups (quiet_ticks w ts db)) = rollup_at v e (t_rollups db))"
  using assms
proof (induction w ts db rule: quiet_ticks.induct)
  case (2 w clock now ts db)
  let ?db = "reconcileWorkspace (quiet_sweep clock) w RECONCILE_WINDOW_DAYS now db"
  have past: "marks_past now w db" using 2(3) by simp
  have "\<forall>(clock, now) \<in> set ts. marks_past now w ?db" using 2(3) marks_past_tick [OF past] by auto
  then show ?case using 2(1,2) quiet_tick [OF past, where c = clock] by simp
qed simp

text \<open>C37: A backlog of dirty days is worked off a page per tick: after as many quiet ticks as it has pages no day is dirty, every day that was and every day of the windows is the fresh count of the sends, and no other workspace changed.\<close>

theorem backlog_is_reconciled:
  assumes "rollups_wf db" "\<forall>(clock, now) \<in> set ts. marks_past now w db"
    and "card (dirty_days w db) \<le> DIRTY_DAY_SWEEP_PAGE_LIMIT * length ts"
  shows "dirty_days w (quiet_ticks w ts db) = {}
    \<and> (\<forall>d \<in> dirty_days w db. day_exact w d (quiet_ticks w ts db))
    \<and> (\<forall>(clock, now) \<in> set ts. \<forall>d \<in> set (recentDays RECONCILE_WINDOW_DAYS clock). day_exact w d (quiet_ticks w ts db))
    \<and> l_sends (quiet_ticks w ts db) = l_sends db
    \<and> (\<forall>v e. v \<noteq> w \<longrightarrow> rollup_at v e (t_rollups (quiet_ticks w ts db)) = rollup_at v e (t_rollups db))"
  using assms
proof (induction w ts db rule: quiet_ticks.induct)
  case (1 w db)
  then show ?case using dirty_finite [of db w] by simp
next
  case (2 w clock now ts db)
  let ?db = "reconcileWorkspace (quiet_sweep clock) w RECONCILE_WINDOW_DAYS now db"
  have past: "marks_past now w db" using 2(3) by simp
  note tick = quiet_tick [OF past, where c = clock]
  have wf: "rollups_wf ?db" using tick(4) 2(2) by simp
  have rest: "\<forall>(clock, now) \<in> set ts. marks_past now w ?db" using 2(3) marks_past_tick [OF past] by auto
  have "card (dirty_days w ?db) \<le> DIRTY_DAY_SWEEP_PAGE_LIMIT * length ts"
    using dirty_after_tick [OF 2(2) past, of clock] 2(4) by simp
  note ih = 2(1) [OF wf rest this]
  note kept = quiet_ticks_frame [OF wf rest]
  have "day_exact w d (quiet_ticks w ts ?db)" if "d \<in> dirty_days w db" for d
    using that tick(2,3) ih kept by (cases "d \<in> tick_days w clock db") auto
  moreover have "day_exact w d (quiet_ticks w ts ?db)" if "d \<in> set (recentDays RECONCILE_WINDOW_DAYS clock)" for d
    using that tick(2) kept by (auto simp: tick_days_def)
  ultimately show ?case using ih tick(1,5) by auto
qed

section \<open>An event that commits while its day is counted\<close>

definition counted_up :: "RollupMetric \<Rightarrow> instant \<Rightarrow> instant \<Rightarrow> rollup_row \<Rightarrow> rollup_row" where
  "counted_up m t now r = (bump_rollup m r)
     \<lparr>ru_dirtiedAt := (if isNotToday (utc_day t) now then coalesce (ru_dirtiedAt r) (Some now) else ru_dirtiedAt r),
      ru_updatedAt := now\<rparr>"

lemma counted_up_key [simp]: "rollup_key (counted_up m t now r) = rollup_key r"
  by (cases m) (simp_all add: counted_up_def rollup_key_def)

lemma empty_key [simp]: "rollup_key (empty_rollup w d now) = (w, d)"
  by (simp add: rollup_key_def empty_rollup_def)

lemma increment_rows:
  "t_rollups (incrementWorkspaceDailyRollup w t m now db) =
    (if \<exists>r \<in> set (t_rollups db). rollup_key r = (w, utc_day t)
     then update_where (\<lambda>r. rollup_key r = (w, utc_day t)) (counted_up m t now) (t_rollups db)
     else t_rollups db @ [counted_up m t now (empty_rollup w (utc_day t) now)])"
  by (simp add: incrementWorkspaceDailyRollup_def Let_def rollup_is_same counted_up_def [abs_def])

lemma increment_at:
  "rollup_at v e (t_rollups (incrementWorkspaceDailyRollup w t m now db)) =
    (if (v, e) = (w, utc_day t)
     then Some (counted_up m t now (case rollup_at w (utc_day t) (t_rollups db) of
                  None \<Rightarrow> empty_rollup w (utc_day t) now | Some r \<Rightarrow> r))
     else rollup_at v e (t_rollups db))"
proof (cases "find (\<lambda>r. rollup_key r = (w, utc_day t)) (t_rollups db)")
  case None
  then have absent: "\<not> (\<exists>r \<in> set (t_rollups db). rollup_key r = (w, utc_day t))"
    by (auto simp: find_None_iff)
  have append: "find (\<lambda>r. rollup_key r = k) (tbl @ [x]) =
      (case find (\<lambda>r. rollup_key r = k) tbl of None \<Rightarrow> if rollup_key x = k then Some x else None | Some r \<Rightarrow> Some r)"
    for k tbl and x :: rollup_row by (induction tbl) auto
  show ?thesis
    unfolding increment_rows if_not_P [OF absent] rollup_at_def rollup_is_same append
    using None by (auto split: option.splits)
next
  case (Some r)
  then have present: "\<exists>r \<in> set (t_rollups db). rollup_key r = (w, utc_day t)" "rollup_key r = (w, utc_day t)"
    by (auto simp: find_Some_iff)
  have update: "find (\<lambda>r. rollup_key r = k) (update_where q (counted_up m t now) tbl) =
      map_option (\<lambda>r. if q r then counted_up m t now r else r) (find (\<lambda>r. rollup_key r = k) tbl)" for k q tbl
    by (rule find_update_where) simp
  have other: "find (\<lambda>r. rollup_key r = (v, e)) tbl = Some x \<Longrightarrow> rollup_key x = (v, e)" for tbl x
    by (auto simp: find_Some_iff)
  show ?thesis
    unfolding increment_rows if_P [OF present(1)] rollup_at_def rollup_is_same update
    using Some present(2) other [of "t_rollups db"]
    by (cases "find (\<lambda>r. rollup_key r = (v, e)) (t_rollups db)") auto
qed

text \<open>The event of a send, in a transaction of its own.\<close>

definition deliver_event :: "crypto \<Rightarrow> uuid \<Rightarrow> instant \<Rightarrow> send_row \<Rightarrow> instant \<Rightarrow> crm \<Rightarrow> crm" where
  "deliver_event cr w now r occurredAt db =
     (case applyEventSideEffects cr w now r Delivered None occurredAt \<lparr>k_db = db, k_cache = Map.empty\<rparr> of
        Inl _ \<Rightarrow> db | Inr s \<Rightarrow> k_db s)"

lemma deliver_first:
  assumes "counters_inv db" "resolve_send w (s_id r) db = Some r" "deliveredAt (s_facts r) = None"
  shows "l_sends (deliver_event cr w now r t db) = l_sends (fact_step w (s_id r) DeliveredAt t None db)"
    "t_rollups (deliver_event cr w now r t db) = t_rollups (incrementWorkspaceDailyRollup w t RDelivered now db)"
  using fact_unset_step [OF assms(1,2), of DeliveredAt t None] assms(3)
  by (simp_all add: deliver_event_def on_kdb_def hook_frame)
    (simp add: incrementWorkspaceDailyRollup_def Let_def hook_frame fact_step_def)

lemma filter_count: "row_count p (filter q t) = row_count (\<lambda>r. q r \<and> p r) t"
  by (induction t) auto

text \<open>The fresh count of a metric goes up by the first write of its fact.\<close>

lemma fresh_after_fact:
  assumes "counters_inv db" "resolve_send w (s_id r) db = Some r" "\<not> p r" "p (write_fact col t rs r)"
  shows "row_count p (filter (\<lambda>r. s_workspaceId r = w) (l_sends (fact_step w (s_id r) col t rs db))) =
    Suc (row_count p (filter (\<lambda>r. s_workspaceId r = w) (l_sends db)))"
proof -
  have wf: "sends_wf db" using assms(1) by (simp add: counters_inv_def)
  have r: "r \<in> set (l_sends db)" "s_workspaceId r = w" using resolve_send_Some [OF assms(2)] by simp_all
  have only: "visible_id w (s_id r) x \<longleftrightarrow> x = r" if "x \<in> set (l_sends db)" for x
    using resolve_only [OF wf assms(2) that] r by (auto simp: visible_id_def)
  have "row_count (\<lambda>r. s_workspaceId r = w \<and> p r) (update_where (visible_id w (s_id r)) (write_fact col t rs) (l_sends db)) =
      row_count (\<lambda>r. s_workspaceId r = w \<and> p r) (l_sends db) + (if \<not> (s_workspaceId r = w \<and> p r) \<and>
        (s_workspaceId (write_fact col t rs r) = w \<and> p (write_fact col t rs r)) then 1 else 0)"
    using wf assms(3) by (intro row_count_update_one r(1) only) (simp_all add: sends_wf_def)
  then show ?thesis using assms(3,4) r by (simp add: filter_count fact_step_def)
qed

lemma stays_wrong:
  assumes "rollups_wf db" "\<forall>(clock, now) \<in> set ts. marks_past now w db \<and> d \<notin> set (recentDays RECONCILE_WINDOW_DAYS clock)"
    and "marked w d db = None"
  shows "rollup_at w d (t_rollups (quiet_ticks w ts db)) = rollup_at w d (t_rollups db)"
  using assms
proof (induction w ts db rule: quiet_ticks.induct)
  case (2 w clock now ts db)
  let ?db = "reconcileWorkspace (quiet_sweep clock) w RECONCILE_WINDOW_DAYS now db"
  have past: "marks_past now w db" using 2(3) by simp
  note tick = quiet_tick [OF past, where c = clock]
  have rest: "\<forall>(clock, now) \<in> set ts. marks_past now w ?db \<and> d \<notin> set (recentDays RECONCILE_WINDOW_DAYS clock)"
    using 2(3) marks_past_tick [OF past] by auto
  have "set (findDirtyRollupDays w DIRTY_DAY_SWEEP_PAGE_LIMIT db) \<subseteq> dirty_days w db"
    unfolding findDirtyRollupDays_def using dirty_list(2) [OF 2(2)] set_take_subset by fastforce
  then have out: "d \<notin> tick_days w clock db" using 2(3,4) by (auto simp: tick_days_def dirty_days_def)
  have "marked w d ?db = None" using tick(6) [of d] 2(4) by auto
  then show ?case using 2(1) [OF tick(4) [OF 2(2)] rest] tick(5) out by simp
qed simp

text \<open>The event commits while the statement that counts its day, the third of the tick, waits for the row.\<close>

definition crossed_sweep :: "instant \<Rightarrow> (crm \<Rightarrow> crm) \<Rightarrow> sweep_env" where
  "crossed_sweep clock commit =
     \<lparr>se_clock = clock, se_before = \<lambda>_ db. db, se_within = \<lambda>k db. if k = RECONCILE_WINDOW_DAYS then commit db else db\<rparr>"

lemma one_dirty_day:
  assumes "rollups_wf db" "dirty_days w db = {day}"
  shows "findDirtyRollupDays w DIRTY_DAY_SWEEP_PAGE_LIMIT db = [day]"
proof -
  obtain x where "map ru_day (filter (dirty_row w) (t_rollups db)) = [x]"
    using dirty_list [OF assms(1), of w] assms(2) distinct_card
    by (metis card_1_singleton_iff One_nat_def card.empty card_insert_if empty_iff finite.emptyI length_0_conv length_Suc_conv)
  then show ?thesis
    using dirty_list(2) [OF assms(1), of w] assms(2) by (simp add: findDirtyRollupDays_def DIRTY_DAY_SWEEP_PAGE_LIMIT_def)
qed

lemma crossed_tick:
  assumes "rollups_wf db" "dirty_days w db = {day}" "day \<notin> set (recentDays RECONCILE_WINDOW_DAYS clock)"
  shows "reconcileWorkspace (crossed_sweep clock commit) w RECONCILE_WINDOW_DAYS now db =
    clearDirtyRollupDays w now (recentDays RECONCILE_WINDOW_DAYS clock @ [day])
      (reconcileWorkspaceDay commit w now day
        (reconcile_days (quiet_sweep clock) w now 0 (recentDays RECONCILE_WINDOW_DAYS clock) db))"
proof -
  have two: "recentDays 2 clock = [utc_day clock, utc_day clock - 1]"
    by (simp add: recentDays_def upt_rec numeral_2_eq_2)
  show ?thesis
    using assms(3)
    unfolding reconcileWorkspace_def crossed_sweep_def one_dirty_day [OF assms(1,2)] Let_def quiet_sweep_def sweep_env.simps
      RECONCILE_WINDOW_DAYS_def two
    by (simp add: numeral_2_eq_2)
qed

lemma quiet_days_campaigns: "l_campaigns (reconcile_days (quiet_sweep c) w now k days db) = l_campaigns db"
proof (induction days arbitrary: k db)
  case (Cons day days k db)
  then show ?case by (simp add: quiet_sweep_def reconcileWorkspaceDay_def Let_def)
qed simp

lemma increment_wf:
  assumes "rollups_wf db"
  shows "distinct (map rollup_key (t_rollups (incrementWorkspaceDailyRollup w t m now db)))"
  using assms by (auto simp: increment_rows rollups_wf_def map_update_where)

text \<open>C38: An event that commits while the tick that counts its dirty day waits for the row is overwritten and its mark cleared, and no later quiet tick outside the window corrects the day.\<close>

theorem crossing_event_is_lost:
  assumes "rollups_wf db" "counters_inv db" "marks_past now w db" "dirty_days w db = {utc_day t}"
    and "utc_day t \<notin> set (recentDays RECONCILE_WINDOW_DAYS clock)"
    and "resolve_send w (s_id r) db = Some r" "deliveredAt (s_facts r) = None"
    and "reconcileWorkspace (crossed_sweep clock (deliver_event cr w later r t)) w RECONCILE_WINDOW_DAYS now db = db'"
    and "\<forall>(c, n) \<in> set ts. now \<le> n \<and> utc_day t \<notin> set (recentDays RECONCILE_WINDOW_DAYS c)"
  shows "marked w (utc_day t) db' = None
    \<and> map_option ru_deliveredCount (rollup_at w (utc_day t) (t_rollups (quiet_ticks w ts db')))
        = Some (ru_deliveredCount (fresh_counts w (utc_day t) now (l_sends db)))
    \<and> ru_deliveredCount (fresh_counts w (utc_day t) now (l_sends db'))
        = Suc (ru_deliveredCount (fresh_counts w (utc_day t) now (l_sends db)))"
proof -
  let ?day = "utc_day t" and ?days = "recentDays RECONCILE_WINDOW_DAYS clock @ [utc_day t]"
  define mid where "mid = reconcile_days (quiet_sweep clock) w now 0 (recentDays RECONCILE_WINDOW_DAYS clock) db"
  note quiet = quiet_days [where c = clock and w = w and now = now and k = 0
      and days = "recentDays RECONCILE_WINDOW_DAYS clock" and db = db, folded mid_def]
  define ev where "ev = deliver_event cr w later r t mid"
  have mid: "counters_inv mid" "resolve_send w (s_id r) mid = Some r" "rollups_wf mid"
    using counters_inv_cong [OF assms(2), of mid] quiet(1,4) assms(1,6)
    by (simp_all add: mid_def quiet_days_campaigns resolve_send_def)
  note ev = deliver_first [OF mid(1,2) assms(7), of cr later t, folded ev_def]
  let ?fresh = "fresh_counts w ?day now (l_sends db)"
  define db2 where "db2 = ev\<lparr>t_rollups := upsert_rollup ?fresh (t_rollups ev)\<rparr>"
  have db': "db' = clearDirtyRollupDays w now ?days db2"
    using crossed_tick [OF assms(1,4,5)] assms(8) quiet(1)
    by (simp add: mid_def ev_def db2_def reconcileWorkspaceDay_def Let_def)
  have "?day \<in> dirty_days w db" using assms(4) by simp
  then obtain m where m: "marked w ?day mid = Some m"
    unfolding dirty_days_def using quiet(3) by auto
  have at_ev: "\<exists>x. rollup_at w ?day (t_rollups ev) = Some x \<and> ru_dirtiedAt x = Some m"
    using m by (auto simp: ev(2) increment_at marked_def counted_up_def bind_eq_Some_conv)
  then have at_db2: "\<exists>x. rollup_at w ?day (t_rollups db2) = Some (overwrite_counts ?fresh x) \<and> ru_dirtiedAt x = Some m"
    by (auto simp: db2_def rollup_at_upsert rollup_key_def)
  then have "marked w ?day db2 = marked w ?day mid" using m by (auto simp: marked_def)
  moreover have "marked w e db2 = marked w e mid" if "e \<noteq> ?day" for e
    using that by (simp add: marked_def db2_def rollup_at_upsert rollup_key_def ev(2) increment_at)
  ultimately have "marked w e db2 = marked w e mid" for e by (cases "e = ?day") simp_all
  then have past: "marks_past now w db2" using assms(3) quiet(3) by (simp add: marks_past_def)
  have "rollups_wf db2" using increment_wf [OF mid(3)] by (simp add: db2_def rollups_wf_def upsert_wf ev(2))
  note clear = cleared [where db = db2 and w = w and now = now and days = ?days, folded db']
  have unmarked: "marked w ?day db' = None" using clear(3) [OF past] by simp
  have "marks_past n w db'" if "now \<le> n" for n
    using past that by (auto simp: marks_past_def clear(3) [OF past] intro: order_trans)
  then have "\<forall>(c, n) \<in> set ts. marks_past n w db' \<and> ?day \<notin> set (recentDays RECONCILE_WINDOW_DAYS c)"
    using assms(9) by auto
  then have later: "rollup_at w ?day (t_rollups (quiet_ticks w ts db')) = rollup_at w ?day (t_rollups db')"
    using stays_wrong clear(4) \<open>rollups_wf db2\<close> unmarked by blast
  have "map_option ru_deliveredCount (rollup_at w ?day (t_rollups db')) = Some (ru_deliveredCount ?fresh)"
  proof -
    obtain x where x: "rollup_at w ?day (t_rollups db2) = Some (overwrite_counts ?fresh x)" using at_db2 by blast
    show ?thesis by (simp add: db' clear_sweep rollup_at_sweep x) (simp add: overwrite_counts_def)
  qed
  moreover have "ru_deliveredCount (fresh_counts w ?day now (l_sends db')) = Suc (ru_deliveredCount ?fresh)"
    using fresh_after_fact [OF mid(1,2), of "\<lambda>r. on_day ?day (deliveredAt (s_facts r))" DeliveredAt t None] assms(7)
      clear(1) quiet(1) ev(1) by (simp add: db2_def fresh_counts_def Let_def on_day_def)
  ultimately show ?thesis using unmarked later by simp
qed

section \<open>A second terminal of a send\<close>

text \<open>The count of a day groups the three terminals by the day of each, the event counts only the first of a
  send: a complaint after a bounce raises the fresh count of its day and neither counts nor marks the day.\<close>

theorem second_terminal_drifts_unmarked:
  assumes "counters_inv (k_db s)" "resolve_send w (s_id r) (k_db s) = Some r"
    and "bouncedAt (s_facts r) \<noteq> None" "spamReportedAt (s_facts r) = None" "\<not> terminal_on (utc_day t) r"
    and "applyEventSideEffects cr w now r SpamReport reason t s = Inr s'"
    and "rollups_wf (k_db s)" "day_exact w (utc_day t) (k_db s)" "marked w (utc_day t) (k_db s) = None"
    and "\<forall>(c, n) \<in> set ts. marks_past n w (k_db s) \<and> utc_day t \<notin> set (recentDays RECONCILE_WINDOW_DAYS c)"
  shows "\<not> day_exact w (utc_day t) (k_db s') \<and> marked w (utc_day t) (k_db s') = None
    \<and> rollup_at w (utc_day t) (t_rollups (quiet_ticks w ts (k_db s'))) = rollup_at w (utc_day t) (t_rollups (k_db s))"
proof -
  let ?db1 = "fact_step w (s_id r) SpamReportedAt t None (k_db s)"
  have unset: "fact_of SpamReportedAt (s_facts r) = None" using assms(4) by simp
  have "\<not> isFirstNonDeliveryTerminal w (s_id r) ?db1"
    using first_terminal_iff [OF assms(2) unset, of t None] assms(3) by (auto simp: has_counted_def)
  then have supp: "applySuppression cr now w (s_contactId r) ''spam_report'' (s\<lparr>k_db := ?db1\<rparr>) = Inr s'"
    using assms(6) by (simp add: terminal_suppression_def fact_unset_step [OF assms(1,2) unset] count_terminal_def)
  note frame = applySuppression_frame [OF supp]
  have rolls: "t_rollups (k_db s') = t_rollups (k_db s)" using frame(3) by (simp add: fact_step_def)
  have sends: "l_sends (k_db s') = l_sends ?db1" using frame(1) by simp
  have grows: "ru_bouncedCount (fresh_counts w (utc_day t) n (l_sends (k_db s'))) = Suc (ru_bouncedCount (fresh_counts w (utc_day t) n' (l_sends (k_db s))))"
    for n n'
    using fresh_after_fact [OF assms(1,2), of "terminal_on (utc_day t)" SpamReportedAt t None] assms(5)
    by (simp add: sends fresh_counts_def Let_def terminal_on_def on_day_def)
  have "\<not> day_exact w (utc_day t) (k_db s')"
  proof
    assume "day_exact w (utc_day t) (k_db s')"
    then obtain m u where new: "rollup_at w (utc_day t) (t_rollups (k_db s)) =
        Some ((fresh_counts w (utc_day t) u (l_sends (k_db s')))\<lparr>ru_dirtiedAt := m\<rparr>)"
      by (auto simp: day_exact_def rolls)
    obtain m' u' where "rollup_at w (utc_day t) (t_rollups (k_db s)) =
        Some ((fresh_counts w (utc_day t) u' (l_sends (k_db s)))\<lparr>ru_dirtiedAt := m'\<rparr>)"
      using assms(8) by (auto simp: day_exact_def)
    with new have "(fresh_counts w (utc_day t) u (l_sends (k_db s')))\<lparr>ru_dirtiedAt := m\<rparr> =
        (fresh_counts w (utc_day t) u' (l_sends (k_db s)))\<lparr>ru_dirtiedAt := m'\<rparr>" by simp
    from arg_cong [OF this, of ru_bouncedCount] show False using grows [of u u'] by simp
  qed
  moreover have same: "marked w d (k_db s') = marked w d (k_db s)" "rollups_wf (k_db s')" for d
    using assms(7) by (simp_all add: marked_def rolls rollups_wf_def)
  moreover have "\<forall>(c, n) \<in> set ts. marks_past n w (k_db s') \<and> utc_day t \<notin> set (recentDays RECONCILE_WINDOW_DAYS c)"
    using assms(10) by (simp add: marks_past_def same(1))
  ultimately show ?thesis
    using stays_wrong [of "k_db s'" ts w "utc_day t"] assms(9) by (simp add: rolls)
qed

end
