(* ===== verification/Rollup_Examples.thy ===== *)
theory Rollup_Examples
  imports Rollup_Properties Webhook_Examples
begin

text \<open>A workspace with one dirty day and one send: the inputs at which the properties of the rollups are applied.\<close>

definition dirty_db :: crm where
  "dirty_db = hook_db\<lparr>t_rollups := [(empty_rollup ''w1'' 3 0)\<lparr>ru_dirtiedAt := Some 0\<rparr>]\<rparr>"

definition clock_of :: "int \<Rightarrow> instant" where "clock_of day = day * day_ms"

lemma clock_day [simp]: "utc_day (clock_of d) = d"
  by (simp add: utc_day_def clock_of_def day_ms_def)

lemma clock_recent: "set (recentDays RECONCILE_WINDOW_DAYS (clock_of d)) = {d, d - 1}"
  by (simp add: recentDays_def RECONCILE_WINDOW_DAYS_def upt_rec)

lemma marks_past_rows:
  assumes "\<forall>r \<in> set (t_rollups db). \<forall>t. ru_dirtiedAt r = Some t \<longrightarrow> t \<le> now"
  shows "marks_past now w db"
  using assms by (auto simp: marks_past_def marked_def bind_eq_Some_conv rollup_at_def find_Some_iff)

lemma dirty_db_ok:
  "rollups_wf dirty_db" "counters_inv dirty_db" "dirty_days ''w1'' dirty_db = {3}" "0 \<le> now \<Longrightarrow> marks_past now ''w1'' dirty_db"
proof -
  show wf: "rollups_wf dirty_db" by (simp add: dirty_db_def rollups_wf_def)
  have "counters_inv hook_db" using hook_state_ok by (simp add: counters_inv_def hook_state_def)
  then show "counters_inv dirty_db" by (rule counters_inv_cong) (simp_all add: dirty_db_def)
  show "dirty_days ''w1'' dirty_db = {3}"
    using dirty_list(2) [OF wf, of "''w1''"] by (simp add: dirty_db_def dirty_row_def empty_rollup_def)
  show "0 \<le> now \<Longrightarrow> marks_past now ''w1'' dirty_db"
    by (rule marks_past_rows) (simp add: dirty_db_def empty_rollup_def)
qed

lemma backlog_is_reconciled_witness:
  "dirty_days ''w1'' (quiet_ticks ''w1'' [(clock_of 10, clock_of 10)] dirty_db) = {}
   \<and> day_exact ''w1'' 3 (quiet_ticks ''w1'' [(clock_of 10, clock_of 10)] dirty_db)"
  using backlog_is_reconciled [OF dirty_db_ok(1), of "[(clock_of 10, clock_of 10)]" "''w1''"] dirty_db_ok(3,4)
  by (simp add: clock_of_def day_ms_def DIRTY_DAY_SWEEP_PAGE_LIMIT_def)

definition late_send :: send_row where
  "late_send = new_campaign_send hook_send_id ''w1'' ''c1'' hook_contact_id 5"

lemma late_send_there: "resolve_send ''w1'' hook_send_id dirty_db = Some late_send"
  by (simp add: resolve_send_def dirty_db_def hook_db_def late_send_def visible_id_def new_campaign_send_def default_send_def no_facts_def)

lemma crossing_event_is_lost_witness:
  "map_option ru_deliveredCount (rollup_at ''w1'' 3 (t_rollups (quiet_ticks ''w1'' [(clock_of 11, clock_of 11)]
      (reconcileWorkspace (crossed_sweep (clock_of 10) (deliver_event hook_crypto ''w1'' (clock_of 10) late_send (clock_of 3)))
        ''w1'' RECONCILE_WINDOW_DAYS (clock_of 10) dirty_db)))) = Some 0
   \<and> ru_deliveredCount (fresh_counts ''w1'' 3 0 (l_sends dirty_db)) = 0"
proof -
  have zero: "ru_deliveredCount (fresh_counts ''w1'' 3 n (l_sends dirty_db)) = 0" for n
    by (simp add: fresh_counts_def dirty_db_def hook_db_def new_campaign_send_def default_send_def no_facts_def on_day_def)
  have "resolve_send ''w1'' (s_id late_send) dirty_db = Some late_send" "deliveredAt (s_facts late_send) = None"
    using late_send_there by (simp_all add: late_send_def new_campaign_send_def default_send_def no_facts_def)
  from crossing_event_is_lost [OF dirty_db_ok(1,2) dirty_db_ok(4) _ _ this HOL.refl,
      where clock = "clock_of 10" and t = "clock_of 3" and now = "clock_of 10" and ts = "[(clock_of 11, clock_of 11)]"]
  show ?thesis using dirty_db_ok(3) by (simp add: zero clock_recent) (simp add: clock_of_def day_ms_def zero)
qed

text \<open>A bounced send whose recipient complains two days later, reported when the day has left the window.\<close>

definition bounced_send :: send_row where
  "bounced_send = write_fact BouncedAt (clock_of 1) None late_send"

definition bounced_db :: crm where
  "bounced_db = hook_db\<lparr>l_sends := [bounced_send],
     l_campaigns := map (\<lambda>c. c\<lparr>c_bouncedCount := 1\<rparr>) (l_campaigns hook_db),
     t_rollups := [fresh_counts ''w1'' 3 0 [bounced_send]]\<rparr>"

definition complaint :: "keyed keyed_result" where
  "complaint = applyEventSideEffects hook_crypto ''w1'' (clock_of 10) bounced_send SpamReport None (clock_of 3)
     \<lparr>k_db = bounced_db, k_cache = Map.empty\<rparr>"

lemma second_terminal_drifts_unmarked_witness:
  "\<exists>s'. complaint = Inr s' \<and> \<not> day_exact ''w1'' 3 (k_db s') \<and> marked ''w1'' 3 (k_db s') = None"
proof -
  have "case complaint of Inl _ \<Rightarrow> False | Inr _ \<Rightarrow> True" by code_simp
  then obtain s' where s': "complaint = Inr s'" by (auto split: sum.splits)
  have inv: "counters_inv bounced_db" unfolding counters_inv_def by (rule conjI; code_simp)
  have there: "resolve_send ''w1'' (s_id bounced_send) bounced_db = Some bounced_send"
    by (simp add: resolve_send_def bounced_db_def bounced_send_def late_send_def visible_id_def new_campaign_send_def default_send_def no_facts_def)
  have facts: "bouncedAt (s_facts bounced_send) \<noteq> None" "spamReportedAt (s_facts bounced_send) = None"
    "\<not> terminal_on (utc_day (clock_of 3)) bounced_send"
    by (simp_all add: bounced_send_def late_send_def new_campaign_send_def default_send_def no_facts_def terminal_on_def on_day_def)
  have at_day: "rollup_at ''w1'' 3 (t_rollups bounced_db) = Some (fresh_counts ''w1'' 3 0 [bounced_send])"
    by (simp add: bounced_db_def rollup_at_def rollup_is_def)
  have exact: "day_exact ''w1'' 3 bounced_db"
    unfolding day_exact_def at_day by (auto simp: bounced_db_def intro: fresh_unmarked)
  have marks: "marked ''w1'' 3 bounced_db = None" by (simp add: marked_def at_day)
  have wf: "rollups_wf bounced_db" by (simp add: rollups_wf_def bounced_db_def)
  show ?thesis
    using second_terminal_drifts_unmarked [of "\<lparr>k_db = bounced_db, k_cache = Map.empty\<rparr>" "''w1''" bounced_send "clock_of 3"
        hook_crypto "clock_of 10" None s' "[]"] inv there facts s' exact marks wf
    by (auto simp: complaint_def)
qed

end
