(* ===== verification/Event_Ingest.thy ===== *)
theory Event_Ingest
  imports Contact_Consent Suppression_Hash Webhook_Events
begin

text \<open>
  Tracked events: their acceptance (\<open>apps/api/src/modules/events/events-api.routes.ts\<close> with \<open>eventEnvelopeSchema\<close>),
  the queue between, and the job that upserts the contact, stores the event and asks for the flows it may trigger
  (\<open>apps/worker/src/queues/events-ingest.worker.ts\<close>). A queue is the list of the jobs whose ids it still knows:
  adding a known id does nothing. The formats of the schema library are the parameter \<open>formats\<close>; the check of
  the job's payload, which the route builds, is not repeated.
\<close>

section \<open>The envelope\<close>

record formats =
  fm_uuid :: "string \<Rightarrow> bool"
  fm_datetime :: "string \<Rightarrow> instant option"
  fm_email :: "string \<Rightarrow> bool"

definition MAX_EVENT_BATCH_SIZE :: nat where "MAX_EVENT_BATCH_SIZE = 1000"

record EventEnvelopeInput =
  ee_name :: string
  ee_properties :: "(string \<times> js) list"
  ee_occurredAt :: "instant option"
  ee_eventId :: "uuid option"
  ee_externalId :: "string option"
  ee_email :: "string option"

text \<open>An optional text: absent, or one that the check turns into a value; anything else is refused.\<close>

definition optional_field :: "(string \<Rightarrow> 'a option) \<Rightarrow> js \<Rightarrow> 'a option option" where
  "optional_field check v =
     (case v of JUndefined \<Rightarrow> Some None | JStr s \<Rightarrow> map_option Some (check s) | _ \<Rightarrow> None)"

definition properties_field :: "js \<Rightarrow> (string \<times> js) list option" where
  "properties_field v = (case v of JUndefined \<Rightarrow> Some [] | JObj ps \<Rightarrow> Some ps | _ \<Rightarrow> None)"

definition name_field :: "js \<Rightarrow> string option" where
  "name_field v = (case v of JStr s \<Rightarrow> if js_trim s = [] then None else Some (js_trim s) | _ \<Rightarrow> None)"

definition externalId_text :: "string \<Rightarrow> string option" where
  "externalId_text s = (let t = js_trim s in if t = [] \<or> 255 < length t then None else Some t)"

definition email_text :: "formats \<Rightarrow> string \<Rightarrow> string option" where
  "email_text fm s = (let t = to_lower (js_trim s) in if fm_email fm t then Some t else None)"

definition eventEnvelopeSchema :: "formats \<Rightarrow> js \<Rightarrow> EventEnvelopeInput option" where
  "eventEnvelopeSchema fm raw =
     (case raw of
        JObj _ \<Rightarrow>
          (case (name_field (js_get raw ''name''), properties_field (js_get raw ''properties''),
                 optional_field (fm_datetime fm) (js_get raw ''occurredAt''),
                 optional_field (\<lambda>s. if fm_uuid fm s then Some s else None) (js_get raw ''eventId''),
                 optional_field externalId_text (js_get raw ''externalId''),
                 optional_field (email_text fm) (js_get raw ''email'')) of
             (Some name, Some properties, Some occurredAt, Some eventId, Some externalId, Some email) \<Rightarrow>
               if truthy email \<or> truthy externalId
               then Some \<lparr>ee_name = name, ee_properties = properties, ee_occurredAt = occurredAt, ee_eventId = eventId,
                          ee_externalId = externalId, ee_email = email\<rparr>
               else None
           | _ \<Rightarrow> None)
      | _ \<Rightarrow> None)"

section \<open>The queues\<close>

record EventsIngestJob =
  ej_workspaceId :: uuid
  ej_eventId :: uuid
  ej_occurredAt :: instant
  ej_name :: string
  ej_properties :: "(string \<times> js) list"
  ej_externalId :: "string option"
  ej_email :: "string option"

record trigger_check =
  tc_workspaceId :: uuid
  tc_contactId :: uuid
  tc_eventName :: string

definition add_job :: "string \<Rightarrow> 'j \<Rightarrow> (string \<times> 'j) list \<Rightarrow> (string \<times> 'j) list" where
  "add_job jobId job q = (if jobId \<in> fst ` set q then q else q @ [(jobId, job)])"

text \<open>A completed job that has reached its age is removed, and its id with it.\<close>

definition expire_job :: "string \<Rightarrow> (string \<times> 'j) list \<Rightarrow> (string \<times> 'j) list" where
  "expire_job jobId q = filter (\<lambda>(i, _). i \<noteq> jobId) q"

record ingest_world =
  iw_store :: contact_store
  iw_ingest :: "(string \<times> EventsIngestJob) list"
  iw_checks :: "(string \<times> trigger_check) list"

section \<open>The route\<close>

datatype EventIngestResultItem = Accepted uuid | Rejected "uuid option"

definition ingest_job_of :: "uuid \<Rightarrow> instant \<Rightarrow> uuid \<Rightarrow> EventEnvelopeInput \<Rightarrow> EventsIngestJob" where
  "ingest_job_of w ingestedAt fresh item =
     \<lparr>ej_workspaceId = w, ej_eventId = nullish (ee_eventId item) fresh,
      ej_occurredAt = nullish (ee_occurredAt item) ingestedAt, ej_name = ee_name item,
      ej_properties = ee_properties item, ej_externalId = ee_externalId item, ej_email = ee_email item\<rparr>"

definition ingest_job_id :: "EventsIngestJob \<Rightarrow> string" where
  "ingest_job_id j = ej_workspaceId j @ ''-'' @ ej_eventId j"

definition accept_item ::
  "formats \<Rightarrow> uuid \<Rightarrow> instant \<Rightarrow> uuid \<times> js \<Rightarrow> (string \<times> EventsIngestJob) list
     \<Rightarrow> EventIngestResultItem \<times> (string \<times> EventsIngestJob) list" where
  "accept_item fm w ingestedAt fresh_raw q =
     (let (fresh, raw) = fresh_raw
      in case eventEnvelopeSchema fm raw of
           None \<Rightarrow> (Rejected (js_string (js_get raw ''eventId'')), q)
         | Some item \<Rightarrow>
             let j = ingest_job_of w ingestedAt fresh item
             in (Accepted (ej_eventId j), add_job (ingest_job_id j) j q))"

fun accept_items ::
  "formats \<Rightarrow> uuid \<Rightarrow> instant \<Rightarrow> (uuid \<times> js) list \<Rightarrow> (string \<times> EventsIngestJob) list
     \<Rightarrow> EventIngestResultItem list \<times> (string \<times> EventsIngestJob) list" where
  "accept_items fm w ingestedAt [] q = ([], q)"
| "accept_items fm w ingestedAt (x # xs) q =
     (let (r, q1) = accept_item fm w ingestedAt x q; (rs, q2) = accept_items fm w ingestedAt xs q1 in (r # rs, q2))"

text \<open>Each item comes with the id that would be minted for it; \<open>None\<close> is the refusal of the batch's size (422).\<close>

definition post_events ::
  "formats \<Rightarrow> uuid \<Rightarrow> instant \<Rightarrow> (uuid \<times> js) list \<Rightarrow> ingest_world \<Rightarrow> EventIngestResultItem list option \<times> ingest_world" where
  "post_events fm w ingestedAt items wd =
     (if items = [] \<or> MAX_EVENT_BATCH_SIZE < length items then (None, wd)
      else let (rs, q) = accept_items fm w ingestedAt items (iw_ingest wd) in (Some rs, wd\<lparr>iw_ingest := q\<rparr>))"

section \<open>The job\<close>

definition isWorkspaceSoftDeletedForIngest :: "uuid \<Rightarrow> crm \<Rightarrow> bool" where
  "isWorkspaceSoftDeletedForIngest w db = (case t_organizations db w of None \<Rightarrow> True | Some deletedAt \<Rightarrow> deletedAt \<noteq> None)"

definition same_event :: "EventsIngestJob \<Rightarrow> event_row \<Rightarrow> bool" where
  "same_event j e =
     (ev_workspaceId e = ej_workspaceId j \<and> ev_id e = ej_eventId j \<and> ev_occurredAt e = ej_occurredAt j)"

definition store_event :: "instant \<Rightarrow> uuid \<Rightarrow> EventsIngestJob \<Rightarrow> crm \<Rightarrow> crm" where
  "store_event now contactId j db =
     (if \<exists>e \<in> set (t_events db). same_event j e then db
      else db\<lparr>t_events := t_events db
             @ [\<lparr>ev_id = ej_eventId j, ev_workspaceId = ej_workspaceId j, ev_contactId = contactId, ev_name = ej_name j,
                 ev_properties = ej_properties j, ev_occurredAt = ej_occurredAt j, ev_receivedAt = now\<rparr>]\<rparr>)"

definition ingest_input :: "EventsIngestJob \<Rightarrow> ContactInput" where
  "ingest_input j =
     \<lparr>ci_externalId = ej_externalId j, ci_email = ej_email j, ci_firstName = None, ci_lastName = None, ci_phone = None,
      ci_city = None, ci_country = None, ci_timezone = None, ci_tags = None, ci_properties = Some (ej_properties j),
      ci_subscriptionStatus = None\<rparr>"

definition ingest_tx ::
  "crypto \<Rightarrow> (bool \<Rightarrow> crm \<Rightarrow> crm) \<Rightarrow> uuid \<Rightarrow> instant \<Rightarrow> EventsIngestJob \<Rightarrow> contact_store \<Rightarrow> uuid contact_result" where
  "ingest_tx cr race newId now j s =
     and_then (upsertContactByIdentity cr race newId now (ej_workspaceId j) (ingest_input j) s) (\<lambda>s1 r.
       Inr (on_db (store_event now (ur_contactId r) j) s1, ur_contactId r))"

datatype ingest_outcome = Ingested | Dropped_Workspace | Transaction_Failed contact_error | Enqueue_Failed

definition trigger_job_id :: "EventsIngestJob \<Rightarrow> string" where
  "trigger_job_id j = ej_workspaceId j @ ''-'' @ ej_eventId j @ ''-flow-trigger''"

text \<open>\<open>reachable\<close>: the queue answers. Any failure leaves the job to be delivered again.\<close>

definition processEventIngestJob ::
  "crypto \<Rightarrow> (bool \<Rightarrow> crm \<Rightarrow> crm) \<Rightarrow> bool \<Rightarrow> uuid \<Rightarrow> instant \<Rightarrow> EventsIngestJob \<Rightarrow> ingest_world \<Rightarrow> ingest_outcome \<times> ingest_world" where
  "processEventIngestJob cr race reachable newId now j wd =
     (if isWorkspaceSoftDeletedForIngest (ej_workspaceId j) (cs_db (iw_store wd)) then (Dropped_Workspace, wd)
      else case ingest_tx cr race newId now j (iw_store wd) of
             Inl (e, cache) \<Rightarrow>
               (Transaction_Failed e, wd\<lparr>iw_store := (iw_store wd)\<lparr>cs_keyed := (cs_keyed (iw_store wd))\<lparr>k_cache := cache\<rparr>\<rparr>\<rparr>)
           | Inr (s, contactId) \<Rightarrow>
               let wd1 = wd\<lparr>iw_store := s\<rparr>
               in if \<not> reachable then (Enqueue_Failed, wd1)
                  else (Ingested, wd1\<lparr>iw_checks := add_job (trigger_job_id j)
                          \<lparr>tc_workspaceId = ej_workspaceId j, tc_contactId = contactId, tc_eventName = ej_name j\<rparr> (iw_checks wd1)\<rparr>))"

abbreviation iw_db :: "ingest_world \<Rightarrow> crm" where "iw_db wd \<equiv> cs_db (iw_store wd)"

section \<open>What an upsert leaves alone\<close>

lemma history_events: "t_events (history w c st src now db) = t_events db"
  by (simp add: history_def recordSubscriptionStatusChange_def)

lemma write_contact_events: "t_events (write_contact w i g db) = t_events db"
  by (simp add: write_contact_def)

lemma upsert_existing_events:
  "upsert_existing race now w input attach c s = Inr (s', r) \<Longrightarrow> t_events (cs_db s') = t_events (race (cs_db s))"
  by (auto simp: upsert_existing_def Let_def refuse_def update_contact_def history_events write_contact_events
      split: option.splits prod.splits if_splits)

lemma upsert_attempt_events:
  "upsert_attempt cr race newId now w input s = Ended (Inr (s', r)) \<Longrightarrow> t_events (cs_db s') = t_events (race (cs_db s))"
  "upsert_attempt cr race newId now w input s = Raced s' \<Longrightarrow> cs_db s' = race (cs_db s)"
  by (auto simp: upsert_attempt_def upsert_new_def Let_def insert_contact_def split: option.splits sum.splits prod.splits if_splits
      dest: upsert_existing_events initial_status_db)

text \<open>The events after an upsert: those that others committed during its one or two attempts.\<close>

lemma upsert_events:
  assumes "upsertContactByIdentity cr race newId now w input s = Inr (s', r)"
  shows "t_events (cs_db s') = t_events (race False (cs_db s)) \<or> t_events (cs_db s') = t_events (race True (race False (cs_db s)))"
proof (cases "upsert_attempt cr (race False) newId now w input s")
  case (Ended x)
  with assms show ?thesis by (simp add: upsertContactByIdentity_def upsert_attempt_events(1))
next
  case (Raced s1)
  then have "upsert_attempt cr (race True) newId now w input s1 = Ended (Inr (s', r))"
    using assms by (simp add: upsertContactByIdentity_def refuse_def split: attempt.splits)
  from upsert_attempt_events(1) [OF this] upsert_attempt_events(2) [OF Raced] show ?thesis by simp
qed

end
