(* ===== verification/Event_Properties.thy ===== *)
theory Event_Properties
  imports Event_Ingest
begin

text \<open>
  Tracked events: what the ids of a client promise. An event is stored once however often its job is delivered and
  whatever happens in between; a workspace cannot take another one's ids; and the two retries that the ids do not
  cover, the one under an id that the queue still knows and the one after it has been forgotten.
\<close>

section \<open>The history of a table of events\<close>

definition stored_key :: "event_row \<Rightarrow> uuid \<times> uuid \<times> instant" where
  "stored_key e = (ev_workspaceId e, ev_id e, ev_occurredAt e)"

definition events_unique :: "crm \<Rightarrow> bool" where
  "events_unique db = distinct (map stored_key (t_events db))"

definition grown :: "crm \<Rightarrow> crm \<Rightarrow> bool" where
  "grown db db' = ((\<exists>new. t_events db' = t_events db @ new) \<and> (events_unique db \<longrightarrow> events_unique db'))"

lemma grown_same: "t_events db' = t_events db \<Longrightarrow> grown db db'"
  by (simp add: grown_def events_unique_def)

lemma grown_trans [trans]: "grown a b \<Longrightarrow> grown b c \<Longrightarrow> grown a c"
  unfolding grown_def by (metis append_assoc)

lemma same_stored_key: "same_event j e = (stored_key e = (ej_workspaceId j, ej_eventId j, ej_occurredAt j))"
  by (auto simp: same_event_def stored_key_def)

lemma store_event_grown: "grown db (store_event now c j db)"
  by (auto simp: grown_def events_unique_def store_event_def same_stored_key stored_key_def)

lemma store_event_stored: "\<exists>e \<in> set (t_events (store_event now c j db)). same_event j e"
  by (auto simp: store_event_def same_event_def)

lemma upsert_grown:
  assumes "upsertContactByIdentity cr race newId now w input s = Inr (s', r)" "\<And>b db. grown db (race b db)"
  shows "grown (cs_db s) (cs_db s')"
  using upsert_events [OF assms(1)] assms(2) grown_trans grown_same by metis

lemma ingest_tx_stores:
  assumes run: "ingest_tx cr race newId now j s = Inr (s', c)" and others: "\<And>b db. grown db (race b db)"
  shows "grown (cs_db s) (cs_db s')" and "\<exists>e \<in> set (t_events (cs_db s')). same_event j e"
proof -
  obtain s1 r where up: "upsertContactByIdentity cr race newId now (ej_workspaceId j) (ingest_input j) s = Inr (s1, r)"
    and s': "cs_db s' = store_event now (ur_contactId r) j (cs_db s1)"
    using run by (auto simp: ingest_tx_def and_then_def split: sum.splits prod.splits)
  show "grown (cs_db s) (cs_db s')" using upsert_grown [OF up others] store_event_grown grown_trans unfolding s' by blast
  show "\<exists>e \<in> set (t_events (cs_db s')). same_event j e" unfolding s' by (rule store_event_stored)
qed

text \<open>A delivery that succeeds has stored its event; one that fails in the transaction has stored nothing.\<close>

lemma process_grown:
  assumes run: "processEventIngestJob cr race reachable newId now j wd = (out, wd')" and others: "\<And>b db. grown db (race b db)"
  shows "grown (iw_db wd) (iw_db wd')"
    and "out = Ingested \<or> out = Enqueue_Failed \<Longrightarrow> \<exists>e \<in> set (t_events (iw_db wd')). same_event j e"
    and "out = Ingested \<Longrightarrow> trigger_job_id j \<in> fst ` set (iw_checks wd')"
    and "iw_ingest wd' = iw_ingest wd"
  using run ingest_tx_stores [OF _ others] grown_same [of "iw_db wd" "iw_db wd"]
  by (auto simp: processEventIngestJob_def Let_def add_job_def split: if_splits sum.splits prod.splits)

section \<open>The life of the queues\<close>

lemma post_keeps [simp]:
  "iw_store (snd (post_events fm w t items wd)) = iw_store wd" "iw_checks (snd (post_events fm w t items wd)) = iw_checks wd"
  by (auto simp: post_events_def split: prod.splits)

text \<open>Clients post, any job that the queue still knows is delivered, again too, and the queue forgets jobs.\<close>

inductive ingest_step :: "ingest_world \<Rightarrow> ingest_world \<Rightarrow> bool" where
  post: "ingest_step wd (snd (post_events fm w t items wd))"
| deliver: "(i, j) \<in> set (iw_ingest wd) \<Longrightarrow> (\<And>b db. grown db (race b db)) \<Longrightarrow>
    ingest_step wd (snd (processEventIngestJob cr race reachable newId now j wd))"
| forget: "ingest_step wd (wd\<lparr>iw_ingest := expire_job i (iw_ingest wd)\<rparr>)"
| forget_check: "ingest_step wd (wd\<lparr>iw_checks := expire_job i (iw_checks wd)\<rparr>)"

lemma ingest_step_grown: "ingest_step wd wd' \<Longrightarrow> grown (iw_db wd) (iw_db wd')"
proof (induction rule: ingest_step.induct)
  case (deliver i j wd race cr reachable newId now)
  then show ?case using process_grown(1) by (metis surjective_pairing)
qed (simp_all add: grown_same)

lemma ingest_path_grown: "ingest_step\<^sup>*\<^sup>* wd wd' \<Longrightarrow> grown (iw_db wd) (iw_db wd')"
  by (induction rule: rtranclp_induct) (auto intro: grown_same grown_trans dest: ingest_step_grown)

text \<open>In a table with unique keys the row of a key stays the only one and stays as it is.\<close>

lemma grown_same_rows:
  assumes "grown db db'" "events_unique db" "e \<in> set (t_events db)" "same_event j e"
  shows "filter (same_event j) (t_events db') = [e]"
proof -
  obtain new where new: "t_events db' = t_events db @ new" and dist: "distinct (map stored_key (t_events db @ new))"
    using assms(1,2) by (auto simp: grown_def events_unique_def)
  obtain xs ys where split: "t_events db = xs @ e # ys" using split_list [OF assms(3)] by blast
  have "\<not> same_event j x" if "x \<in> set xs \<union> set ys \<union> set new" for x
    using that dist assms(4) unfolding split same_stored_key by (auto simp: image_iff)
  then show ?thesis using assms(4) by (simp add: new split filter_empty_conv)
qed

text \<open>C39: Once a delivery of a job has stored its event, the table has exactly that row for it after every further post, delivery of this job or another, failed enqueue and loss of the queue's memory, and no row that was there before is touched.\<close>

theorem event_is_stored_once:
  assumes "events_unique (iw_db wd)" "\<And>b db. grown db (race b db)"
    and "processEventIngestJob cr race reachable newId now j wd = (out, wd1)" "out = Ingested \<or> out = Enqueue_Failed"
    and "ingest_step\<^sup>*\<^sup>* wd1 wd2"
  shows "\<exists>e. filter (same_event j) (t_events (iw_db wd1)) = [e] \<and> filter (same_event j) (t_events (iw_db wd2)) = [e]
    \<and> events_unique (iw_db wd2) \<and> take (length (t_events (iw_db wd))) (t_events (iw_db wd2)) = t_events (iw_db wd)"
proof -
  note first = process_grown [OF assms(3,2)]
  have unique: "events_unique (iw_db wd1)" using first(1) assms(1) by (simp add: grown_def)
  obtain e where e: "e \<in> set (t_events (iw_db wd1))" "same_event j e" using first(2) [OF assms(4)] by blast
  note later = ingest_path_grown [OF assms(5)]
  have "grown (iw_db wd) (iw_db wd2)" using first(1) later by (rule grown_trans)
  then have "take (length (t_events (iw_db wd))) (t_events (iw_db wd2)) = t_events (iw_db wd)" by (auto simp: grown_def)
  then show ?thesis
    using grown_same_rows [OF grown_same [OF HOL.refl] unique e] grown_same_rows [OF later unique e] later unique
    by (auto simp: grown_def)
qed

section \<open>Whose ids\<close>

definition own :: "uuid \<Rightarrow> (string \<times> EventsIngestJob) list \<Rightarrow> (string \<times> EventsIngestJob) list" where
  "own w q = filter (\<lambda>(i, j). ej_workspaceId j = w) q"

text \<open>A queue of jobs that the route has made: the ids of workspaces have one length.\<close>

definition made_by_route :: "nat \<Rightarrow> (string \<times> EventsIngestJob) list \<Rightarrow> bool" where
  "made_by_route n q = (\<forall>(i, j) \<in> set q. i = ingest_job_id j \<and> length (ej_workspaceId j) = n)"

lemma own_append [simp]: "own w (p @ q) = own w p @ own w q"
  by (simp add: own_def)

lemma id_names_owner:
  assumes "made_by_route (length (ej_workspaceId j)) q"
  shows "ingest_job_id j \<in> fst ` set q \<longleftrightarrow> ingest_job_id j \<in> fst ` set (own (ej_workspaceId j) q)"
proof
  assume "ingest_job_id j \<in> fst ` set q"
  then obtain j' where j': "(ingest_job_id j, j') \<in> set q" by auto
  then have "ingest_job_id j = ingest_job_id j'" "length (ej_workspaceId j') = length (ej_workspaceId j)"
    using assms by (auto simp: made_by_route_def)
  then have "ej_workspaceId j' = ej_workspaceId j" by (simp add: ingest_job_id_def)
  with j' show "ingest_job_id j \<in> fst ` set (own (ej_workspaceId j) q)" by (force simp: own_def)
qed (auto simp: own_def)

lemma add_job_route:
  "made_by_route (length (ej_workspaceId j)) q \<Longrightarrow> made_by_route (length (ej_workspaceId j)) (add_job (ingest_job_id j) j q)"
  by (auto simp: made_by_route_def add_job_def)

lemma add_job_own:
  assumes "made_by_route (length (ej_workspaceId j)) q"
  shows "own w (add_job (ingest_job_id j) j q) =
    (if ej_workspaceId j = w then add_job (ingest_job_id j) j (own w q) else own w q)"
  using id_names_owner [OF assms] by (auto simp: add_job_def own_def)

lemma accept_item_own:
  assumes "made_by_route (length w) q" "accept_item fm w t x q = (r, q')"
  shows "made_by_route (length w) q'" and "w \<noteq> w' \<Longrightarrow> own w' q' = own w' q"
    and "accept_item fm w t x (own w q) = (r, own w q')"
proof -
  have made: "ej_workspaceId (ingest_job_of w t (fst x) item) = w" for item by (simp add: ingest_job_of_def)
  show "made_by_route (length w) q'" "w \<noteq> w' \<Longrightarrow> own w' q' = own w' q" "accept_item fm w t x (own w q) = (r, own w q')"
    using assms add_job_own [of "ingest_job_of w t (fst x) item" for item] add_job_route [of "ingest_job_of w t (fst x) item" for item]
    by (auto simp: accept_item_def made Let_def split: prod.splits option.splits)
qed

lemma accept_items_own:
  "made_by_route (length w) q \<Longrightarrow> accept_items fm w t xs q = (rs, q') \<Longrightarrow>
     made_by_route (length w) q' \<and> (w \<noteq> w' \<longrightarrow> own w' q' = own w' q) \<and> accept_items fm w t xs (own w q) = (rs, own w q')"
proof (induction xs arbitrary: q rs)
  case (Cons x xs)
  obtain r q1 where one: "accept_item fm w t x q = (r, q1)" by fastforce
  obtain rs' where rest: "accept_items fm w t xs q1 = (rs', q')" "rs = r # rs'"
    using Cons.prems(2) one by (auto split: prod.splits)
  note first = accept_item_own [OF Cons.prems(1) one]
  show ?case using Cons.IH [OF first(1) rest(1)] first rest by simp
qed simp

lemma post_own:
  assumes "made_by_route (length w) (iw_ingest wd)"
  shows "made_by_route (length w) (iw_ingest (snd (post_events fm w t xs wd)))"
    and "w \<noteq> w' \<Longrightarrow> own w' (iw_ingest (snd (post_events fm w t xs wd))) = own w' (iw_ingest wd)"
    and "own w (iw_ingest wd) = own w (iw_ingest wd') \<Longrightarrow> made_by_route (length w) (iw_ingest wd') \<Longrightarrow>
      fst (post_events fm w t xs wd) = fst (post_events fm w t xs wd')
      \<and> own w (iw_ingest (snd (post_events fm w t xs wd))) = own w (iw_ingest (snd (post_events fm w t xs wd')))"
proof -
  obtain rs q where run: "accept_items fm w t xs (iw_ingest wd) = (rs, q)" by fastforce
  obtain rs' q' where run': "accept_items fm w t xs (iw_ingest wd') = (rs', q')" by fastforce
  note mine = accept_items_own [OF assms run]
  show "made_by_route (length w) (iw_ingest (snd (post_events fm w t xs wd)))"
    using mine assms run by (simp add: post_events_def)
  show "w \<noteq> w' \<Longrightarrow> own w' (iw_ingest (snd (post_events fm w t xs wd))) = own w' (iw_ingest wd)"
    using mine [of w'] run by (simp add: post_events_def)
  show "fst (post_events fm w t xs wd) = fst (post_events fm w t xs wd')
      \<and> own w (iw_ingest (snd (post_events fm w t xs wd))) = own w (iw_ingest (snd (post_events fm w t xs wd')))"
    if "own w (iw_ingest wd) = own w (iw_ingest wd')" "made_by_route (length w) (iw_ingest wd')"
    using mine [of w] accept_items_own [OF that(2) run', of w] run run' that(1) by (auto simp: post_events_def)
qed

text \<open>C40: Whatever event ids another workspace posts before, guessed or copied, the answer to a batch and the jobs that it leaves in the queue are the same: no id of one tenant takes the place of another's.\<close>

theorem ids_of_tenants_are_apart:
  assumes "made_by_route (length w) (iw_ingest wd)" "length w' = length w" "w' \<noteq> w"
  shows "fst (post_events fm w t items (snd (post_events fm w' t' items' wd))) = fst (post_events fm w t items wd)
    \<and> own w (iw_ingest (snd (post_events fm w t items (snd (post_events fm w' t' items' wd)))))
        = own w (iw_ingest (snd (post_events fm w t items wd)))"
proof -
  let ?wd' = "snd (post_events fm w' t' items' wd)"
  have "made_by_route (length w) (iw_ingest ?wd')" "own w (iw_ingest ?wd') = own w (iw_ingest wd)"
    using post_own(1,2) [of w' wd] assms by simp_all
  then show ?thesis using post_own(3) [OF _ _ assms(1)] by blast
qed

end
