(* ===== verification/Event_Retries.thy ===== *)
theory Event_Retries
  imports Event_Properties
begin

text \<open>
  Retries of a client and redeliveries of the queue: which of them the ids of the events cover, and a batch on its
  way from the request to the table.
\<close>

section \<open>A client posts an event again\<close>

text \<open>While the queue knows the id -- seven days for a job that has failed for good -- the retry is answered as accepted
  and nothing is queued.\<close>

lemma kept_id_swallows_retry:
  assumes "eventEnvelopeSchema fm raw = Some item" "ee_eventId item = Some k" "w @ ''-'' @ k \<in> fst ` set (iw_ingest wd)"
  shows "post_events fm w t [(fresh, raw)] wd = (Some [Accepted k], wd)"
  using assms by (simp add: post_events_def MAX_EVENT_BATCH_SIZE_def accept_item_def ingest_job_of_def ingest_job_id_def
      add_job_def nullish_def Let_def)

text \<open>Once the queue has forgotten the id, the same envelope without a time of its own is another event.\<close>

theorem late_retry_duplicates_event:
  assumes item: "ee_eventId item = Some k" "ee_occurredAt item = None" and later: "t \<noteq> t'"
    and first: "processEventIngestJob cr race b i now (ingest_job_of w t f item) wd = (Ingested, wd1)" "\<And>b db. grown db (race b db)"
    and between: "ingest_step\<^sup>*\<^sup>* wd1 wd2"
    and again: "processEventIngestJob cr race' b' i' now' (ingest_job_of w t' f' item) wd2 = (Ingested, wd3)" "\<And>b db. grown db (race' b db)"
  shows "\<exists>e \<in> set (t_events (iw_db wd3)). \<exists>e' \<in> set (t_events (iw_db wd3)).
    e \<noteq> e' \<and> ev_workspaceId e = w \<and> ev_workspaceId e' = w \<and> ev_id e = k \<and> ev_id e' = k"
proof -
  obtain e where e: "e \<in> set (t_events (iw_db wd1))" "same_event (ingest_job_of w t f item) e"
    using process_grown(2) [OF first] by blast
  obtain e' where e': "e' \<in> set (t_events (iw_db wd3))" "same_event (ingest_job_of w t' f' item) e'"
    using process_grown(2) [OF again] by blast
  have "grown (iw_db wd1) (iw_db wd3)" using ingest_path_grown [OF between] process_grown(1) [OF again] by (rule grown_trans)
  then have "e \<in> set (t_events (iw_db wd3))" using e(1) by (auto simp: grown_def)
  moreover have "e \<noteq> e'" "ev_workspaceId e = w" "ev_workspaceId e' = w" "ev_id e = k" "ev_id e' = k"
    using e(2) e'(2) item later by (auto simp: same_event_def ingest_job_of_def nullish_def)
  ultimately show ?thesis using e'(1) by blast
qed

section \<open>The queue delivers a job again\<close>

lemma spread_lookup: "distinct (map fst b) \<Longrightarrow> (key, v) \<in> set b \<Longrightarrow> map_of (spread a b) key = Some v"
proof -
  have keeps: "key \<notin> fst ` set b \<Longrightarrow> map_of (fold put_property b a) key = map_of a key" for a
    by (induction b arbitrary: a) (auto simp: put_property_lookup)
  show "distinct (map fst b) \<Longrightarrow> (key, v) \<in> set b \<Longrightarrow> map_of (spread a b) key = Some v"
    unfolding spread_def
  proof (induction b arbitrary: a)
    case (Cons x b)
    have "map_of (fold put_property b a) key = map_of a key" if "key \<notin> fst ` set b" for a
      using that by (induction b arbitrary: a) (auto simp: put_property_lookup)
    with Cons show ?case by (cases "x = (key, v)") (force simp: put_property_lookup)+
  qed simp
qed

text \<open>The contact gets the properties of the event, whether the event is new or not.\<close>

lemma upsert_existing_properties:
  assumes run: "upsert_existing (\<lambda>db. db) now w input attach c s = Inr (s', r)" and c: "c \<in> set (cs_contacts s)" "live w c"
    and key: "ci_properties input = Some ps" "distinct (map fst ps)" "(key, v) \<in> set ps" "key \<notin> set RESERVED_CONTACT_PROPERTY_KEYS"
  shows "\<exists>c' \<in> set (cs_contacts s'). ct_id c' = ct_id c \<and> map_of (ct_properties c') key = Some v"
proof -
  let ?ps = "stripReservedPropertyKeys (ci_properties input)"
  have ps: "distinct (map fst ?ps)" "(key, v) \<in> set ?ps"
    using key by (auto simp: stripReservedPropertyKeys_def distinct_map intro: inj_on_subset)
  from upsert_existing_Inr [OF run] obtain s2 x e st where
    upd: "update_contact (merged_row now input ?ps x e st c) (on_db (\<lambda>db. db) s) = Some s2" and s': "cs_contacts s' = cs_contacts s2"
    by blast
  have "merged_row now input ?ps x e st c \<in> set (cs_contacts s2)"
    using upd c by (auto simp: update_contact_def write_contact_def merged_row_def update_where_def contact_is_def live_def
        split: if_splits intro!: image_eqI [of _ _ c])
  moreover have "ct_id (merged_row now input ?ps x e st c) = ct_id c" by (simp add: merged_row_def)
  moreover have "map_of (ct_properties (merged_row now input ?ps x e st c)) key = Some v"
    using ps by (auto simp: merged_row_def spread_lookup)
  ultimately show ?thesis unfolding s' by blast
qed

text \<open>A job whose event is stored already puts the contact back to the properties of that event.\<close>

theorem redelivery_rewinds_contact:
  assumes run: "processEventIngestJob cr (\<lambda>_ db. db) b newId now j wd = (Ingested, wd')"
    and stored: "e \<in> set (t_events (iw_db wd))" "same_event j e"
    and c: "identify (ej_workspaceId j) (ej_externalId j) (ej_email j) (iw_db wd) = Some c"
    and key: "distinct (map fst (ej_properties j))" "(key, v) \<in> set (ej_properties j)" "key \<notin> set RESERVED_CONTACT_PROPERTY_KEYS"
  shows "t_events (iw_db wd') = t_events (iw_db wd)
    \<and> (\<exists>c' \<in> set (t_contacts (iw_db wd')). ct_id c' = ct_id c \<and> map_of (ct_properties c') key = Some v)"
proof -
  obtain s1 r where up: "upsertContactByIdentity cr (\<lambda>_ db. db) newId now (ej_workspaceId j) (ingest_input j) (iw_store wd) = Inr (s1, r)"
    and wd': "iw_db wd' = store_event now (ur_contactId r) j (cs_db s1)"
    using run by (auto simp: processEventIngestJob_def ingest_tx_def and_then_def Let_def split: if_splits sum.splits prod.splits)
  have events: "t_events (cs_db s1) = t_events (iw_db wd)" using upsert_events [OF up] by simp
  obtain attach where "upsert_existing (\<lambda>db. db) now (ej_workspaceId j) (ingest_input j) attach c (iw_store wd) = Inr (s1, r)"
    using up c by (auto simp: upsertContactByIdentity_def upsert_attempt_def identify_def ingest_input_def refuse_def split: option.splits)
  from upsert_existing_properties [OF this, of "ej_properties j" key v] identify_found [OF c] key
  have "\<exists>c' \<in> set (cs_contacts s1). ct_id c' = ct_id c \<and> map_of (ct_properties c') key = Some v"
    by (auto simp: ingest_input_def)
  then show ?thesis using events stored by (auto simp: wd' store_event_def)
qed

section \<open>Witnesses\<close>

definition example_formats :: formats where
  "example_formats = \<lparr>fm_uuid = (\<lambda>_. True), fm_datetime = (\<lambda>_. Some 7), fm_email = (\<lambda>_. True)\<rparr>"

definition example_event :: "string \<Rightarrow> js" where
  "example_event plan = JObj [(''name'', JStr ''signed up''), (''properties'', JObj [(''plan'', JStr plan)]), (''eventId'', JStr ''e''),
     (''email'', JStr '' A@x.y'')]"

definition example_item :: "string \<Rightarrow> EventEnvelopeInput" where
  "example_item plan = \<lparr>ee_name = ''signed up'', ee_properties = [(''plan'', JStr plan)], ee_occurredAt = None, ee_eventId = Some ''e'',
     ee_externalId = None, ee_email = Some ''a@x.y''\<rparr>"

definition example_ingest :: ingest_world where
  "example_ingest = \<lparr>iw_store = on_db (\<lambda>db. db\<lparr>t_organizations := [''w'' \<mapsto> None]\<rparr>) (example_store [example_contact ''a'' ''a@x.y'' StSubscribed]),
     iw_ingest = [], iw_checks = []\<rparr>"

lemma example_event_texts: "js_trim '' A@x.y'' = ''A@x.y''" "to_lower ''A@x.y'' = ''a@x.y''" "js_trim ''signed up'' = ''signed up''"
  by code_simp+

lemma example_event_read: "eventEnvelopeSchema example_formats (example_event plan) = Some (example_item plan)"
  by (simp add: eventEnvelopeSchema_def example_event_def example_item_def example_formats_def name_field_def properties_field_def
      optional_field_def email_text_def example_event_texts Let_def)

text \<open>The event has been posted and its job delivered once; the other workspace has posted the same id before.\<close>

definition example_job :: "instant \<Rightarrow> EventsIngestJob" where
  "example_job t = ingest_job_of ''w'' t ''f'' (example_item ''pro'')"

definition example_posted :: ingest_world where
  "example_posted = example_ingest\<lparr>iw_ingest := [(''w-e'', example_job 3)]\<rparr>"

definition example_delivered :: "ingest_outcome \<times> ingest_world" where
  "example_delivered = processEventIngestJob example_crypto (\<lambda>_ db. db) True ''n'' 9 (example_job 3) example_posted"

lemma example_delivered_outcome: "fst example_delivered = Ingested" "t_events (iw_db (snd example_delivered)) =
    [\<lparr>ev_id = ''e'', ev_workspaceId = ''w'', ev_contactId = ''a'', ev_name = ''signed up'', ev_properties = [(''plan'', JStr ''pro'')],
      ev_occurredAt = 3, ev_receivedAt = 9\<rparr>]" "iw_ingest (snd example_delivered) = [(''w-e'', example_job 3)]"
  "iw_checks (snd example_delivered) = [(''w-e-flow-trigger'', \<lparr>tc_workspaceId = ''w'', tc_contactId = ''a'', tc_eventName = ''signed up''\<rparr>)]"
  by code_simp+

lemma example_post: "post_events example_formats ''w'' 3 [(''f'', example_event ''pro'')] example_ingest = (Some [Accepted ''e''], example_posted)"
  by (simp add: post_events_def MAX_EVENT_BATCH_SIZE_def accept_item_def example_event_read example_posted_def example_job_def
      ingest_job_of_def ingest_job_id_def example_item_def add_job_def nullish_def Let_def example_ingest_def)

lemma still_grown: "grown db db"
  by (rule grown_same) simp

lemma event_is_stored_once_witness:
  "\<exists>e. filter (same_event (example_job 3)) (t_events (iw_db (snd example_delivered))) = [e]
    \<and> filter (same_event (example_job 3)) (t_events (iw_db (snd (processEventIngestJob example_crypto (\<lambda>_ db. db) True ''m'' 10 (example_job 3)
        (snd example_delivered))))) = [e]"
proof -
  have "processEventIngestJob example_crypto (\<lambda>_ db. db) True ''n'' 9 (example_job 3) example_posted = (Ingested, snd example_delivered)"
    using example_delivered_outcome(1) by (simp add: example_delivered_def prod_eq_iff)
  moreover have "events_unique (iw_db example_posted)"
    by (simp add: events_unique_def example_posted_def example_ingest_def example_store_def empty_crm_def)
  moreover have "ingest_step (snd example_delivered) (snd (processEventIngestJob example_crypto (\<lambda>_ db. db) True ''m'' 10 (example_job 3)
      (snd example_delivered)))"
    by (rule ingest_step.deliver [of "''w-e''"]) (simp_all add: example_delivered_outcome(3) still_grown)
  ultimately show ?thesis using event_is_stored_once [OF _ still_grown _ _ r_into_rtranclp] by blast
qed

lemma ids_of_tenants_are_apart_witness:
  "fst (post_events example_formats ''w'' 3 [(''f'', example_event ''pro'')]
      (snd (post_events example_formats ''v'' 2 [(''g'', example_event ''x'')] example_posted))) = Some [Accepted ''e'']"
  using ids_of_tenants_are_apart [where w = "''w''" and wd = example_posted and w' = "''v''" and fm = example_formats and t = 3
      and items = "[(''f'', example_event ''pro'')]" and t' = 2 and items' = "[(''g'', example_event ''x'')]"]
    kept_id_swallows_retry [OF example_event_read, where k = "''e''" and w = "''w''" and wd = example_posted]
  by (simp add: made_by_route_def example_posted_def example_job_def ingest_job_of_def ingest_job_id_def example_item_def nullish_def)

lemma redelivery_rewinds_contact_witness:
  "\<exists>c' \<in> set (t_contacts (iw_db (snd (processEventIngestJob example_crypto (\<lambda>_ db. db) True ''m'' 10 (example_job 3) (snd example_delivered))))).
     ct_id c' = ''a'' \<and> map_of (ct_properties c') ''plan'' = Some (JStr ''pro'')"
proof -
  let ?again = "processEventIngestJob example_crypto (\<lambda>_ db. db) True ''m'' 10 (example_job 3) (snd example_delivered)"
  have "fst ?again = Ingested" by code_simp
  then have run: "?again = (Ingested, snd ?again)" by (simp add: prod_eq_iff)
  have "map_option ct_id (identify (ej_workspaceId (example_job 3)) (ej_externalId (example_job 3)) (ej_email (example_job 3))
      (iw_db (snd example_delivered))) = Some ''a''" by code_simp
  then obtain c where c: "identify (ej_workspaceId (example_job 3)) (ej_externalId (example_job 3)) (ej_email (example_job 3))
      (iw_db (snd example_delivered)) = Some c" "ct_id c = ''a''" by auto
  show ?thesis
    using redelivery_rewinds_contact [OF run _ _ c(1), of _ "''plan''" "JStr ''pro''"] c(2)
    by (simp add: example_delivered_outcome(2) same_event_def example_job_def ingest_job_of_def example_item_def nullish_def
        RESERVED_CONTACT_PROPERTY_KEYS_def)
qed

end
